(* ===== verification/Prelude.thy ===== *)
theory Prelude
  imports Main "HOL-Library.Word"
begin

text \<open>
  Shared vocabulary of the development: the byte type, the outcome type of Go code that may
  return an error or panic, Go slicing, and the generic list lemmas the components share.

  \<^item> \<open>byte\<close> is Go's \<^verbatim>\<open>byte\<close>; \<open>int32\<close>, \<open>int64\<close>, \<open>uint64\<close> are machine words (the signed
    ones are read with \<open>sint\<close>).
  \<^item> \<open>fault + 'a\<close> is the outcome of a Go function: \<open>Inl (Err m)\<close> for a returned error,
    \<open>Inl (Panic m)\<close> for a run-time panic, \<open>Inr x\<close> for a result. The strings name the branch of
    the code, not the formatted message.
\<close>

type_synonym byte = "8 word"
type_synonym int32 = "32 word"
type_synonym int64 = "64 word"
type_synonym uint64 = "64 word"

named_theorems res_simps \<open>unfolding of outcomes\<close>
named_theorems codec_intros \<open>what the readers read from what the writers wrote\<close>
named_theorems length_simps \<open>lengths and bounds of results\<close>

section \<open>Outcomes\<close>

datatype fault = Panic string | Err string

type_synonym 'a res = "fault + 'a"

abbreviation panic :: "string \<Rightarrow> 'a res" where
  "panic m \<equiv> Inl (Panic m)"

abbreviation err :: "string \<Rightarrow> 'a res" where
  "err m \<equiv> Inl (Err m)"

fun bindR :: "'a res \<Rightarrow> ('a \<Rightarrow> 'b res) \<Rightarrow> 'b res" where
  "bindR (Inl e) f = Inl e"
| "bindR (Inr a) f = f a"

fun isOk :: "'a res \<Rightarrow> bool" where
  "isOk (Inl e) = False"
| "isOk (Inr a) = True"

fun isPanic :: "'a res \<Rightarrow> bool" where
  "isPanic (Inl (Panic m)) = True"
| "isPanic (Inl (Err m)) = False"
| "isPanic (Inr a) = False"

lemma bindR_eq_Inr [res_simps]:
  "bindR m f = Inr b \<longleftrightarrow> (\<exists>a. m = Inr a \<and> f a = Inr b)"
  by (cases m) auto

lemma bindR_eq_Inl [res_simps]:
  "bindR m f = Inl e \<longleftrightarrow> m = Inl e \<or> (\<exists>a. m = Inr a \<and> f a = Inl e)"
  by (cases m) auto

lemma bindR_Inr_right [simp]: "bindR m Inr = m"
  by (cases m) auto

lemma bindR_assoc: "bindR (bindR m f) g = bindR m (\<lambda>a. bindR (f a) g)"
  by (cases m) auto

lemma bindR_cong [fundef_cong]:
  "m = m' \<Longrightarrow> (\<And>a. m' = Inr a \<Longrightarrow> f a = f' a) \<Longrightarrow> bindR m f = bindR m' f'"
  by (cases m') auto

lemma isOk_iff: "isOk m \<longleftrightarrow> (\<exists>a. m = Inr a)"
  by (cases m) auto

lemma isPanic_bindR:
  "isPanic (bindR m f) \<longleftrightarrow> isPanic m \<or> (\<exists>a. m = Inr a \<and> isPanic (f a))"
proof (cases m)
  case (Inl e)
  then show ?thesis by (cases e) auto
next
  case (Inr a)
  then show ?thesis by simp
qed

text \<open>A map over a slice that stops at the first fault.\<close>

fun mapR :: "('a \<Rightarrow> 'b res) \<Rightarrow> 'a list \<Rightarrow> 'b list res" where
  "mapR f [] = Inr []"
| "mapR f (x # xs) = bindR (f x) (\<lambda>y. bindR (mapR f xs) (\<lambda>ys. Inr (y # ys)))"

lemma mapR_Inr_iff:
  "mapR f xs = Inr ys \<longleftrightarrow> list_all2 (\<lambda>x y. f x = Inr y) xs ys"
  by (induction xs arbitrary: ys) (auto simp: bindR_eq_Inr list_all2_Cons1)

lemma mapR_cong [fundef_cong]:
  "xs = ys \<Longrightarrow> (\<And>x. x \<in> set ys \<Longrightarrow> f x = g x) \<Longrightarrow> mapR f xs = mapR g ys"
  by (induction ys arbitrary: xs) auto

text \<open>A loop over a slice that threads a state and stops at the first fault.\<close>

fun foldR :: "('a \<Rightarrow> 's \<Rightarrow> 's res) \<Rightarrow> 'a list \<Rightarrow> 's \<Rightarrow> 's res" where
  "foldR f [] s = Inr s"
| "foldR f (x # xs) s = bindR (f x s) (foldR f xs)"

lemma foldR_append: "foldR f (xs @ ys) s = bindR (foldR f xs s) (foldR f ys)"
proof (induction xs arbitrary: s)
  case Nil
  then show ?case by simp
next
  case (Cons x xs)
  then show ?case by (cases "f x s") auto
qed

lemma foldR_invariant:
  assumes "foldR f xs s = Inr s'" and "P s"
    and "\<And>x s s'. x \<in> set xs \<Longrightarrow> P s \<Longrightarrow> f x s = Inr s' \<Longrightarrow> P s'"
  shows "P s'"
  using assms
proof (induction xs arbitrary: s)
  case Nil
  then show ?case by simp
next
  case (Cons x xs)
  from Cons.prems(1) obtain t where t: "f x s = Inr t" "foldR f xs t = Inr s'"
    by (auto simp: bindR_eq_Inr)
  have "P t" using Cons.prems(3) [of x s t] Cons.prems(2) t(1) by simp
  from Cons.IH [OF t(2) this] show ?case using Cons.prems(3) by (metis list.set_intros(2))
qed

section \<open>Slices\<close>

text \<open>\<^verbatim>\<open>xs[lo:hi]\<close>: the run-time panics unless \<open>lo \<le> hi \<le> length xs\<close> (capacity is not modelled).\<close>

definition slice :: "'a list \<Rightarrow> nat \<Rightarrow> nat \<Rightarrow> 'a list res" where
  "slice xs lo hi =
     (if lo \<le> hi \<and> hi \<le> length xs then Inr (take (hi - lo) (drop lo xs))
      else panic ''slice bounds out of range'')"

lemma slice_ok: "lo \<le> hi \<Longrightarrow> hi \<le> length xs \<Longrightarrow> slice xs lo hi = Inr (take (hi - lo) (drop lo xs))"
  by (simp add: slice_def)

text \<open>\<^verbatim>\<open>slices.IndexFunc\<close> (\<open>None\<close> for -1).\<close>

fun index_func :: "('a \<Rightarrow> bool) \<Rightarrow> 'a list \<Rightarrow> nat option" where
  "index_func p [] = None"
| "index_func p (x # xs) = (if p x then Some 0 else map_option Suc (index_func p xs))"

lemma index_func_Some:
  "index_func p xs = Some i \<Longrightarrow> i < length xs \<and> p (xs ! i) \<and> (\<forall>j < i. \<not> p (xs ! j))"
proof (induction xs arbitrary: i)
  case Nil
  then show ?case by simp
next
  case (Cons x xs)
  then show ?case
    by (fastforce split: if_splits simp: less_Suc_eq_0_disj)
qed

lemma index_func_None: "index_func p xs = None \<longleftrightarrow> (\<forall>x \<in> set xs. \<not> p x)"
  by (induction xs) auto

lemma index_func_takeWhile:
  "index_func p xs = (if \<exists>x \<in> set xs. p x then Some (length (takeWhile (\<lambda>x. \<not> p x) xs)) else None)"
  by (induction xs) auto

section \<open>Splitting and joining\<close>

text \<open>Splitting at a separator, and \<^verbatim>\<open>strings.Join\<close>.\<close>

fun split_on :: "'a \<Rightarrow> 'a list \<Rightarrow> 'a list list" where
  "split_on d [] = [[]]"
| "split_on d (x # xs) =
     (if x = d then [] # split_on d xs
      else (case split_on d xs of [] \<Rightarrow> [[x]] | f # fs \<Rightarrow> (x # f) # fs))"

fun join_with :: "'a list \<Rightarrow> 'a list list \<Rightarrow> 'a list" where
  "join_with d [] = []"
| "join_with d [x] = x"
| "join_with d (x # y # zs) = x @ d @ join_with d (y # zs)"

lemma split_on_ne [simp]: "split_on d xs \<noteq> []"
  by (induction xs) (auto split: list.splits)

lemma join_with_Cons: "ys \<noteq> [] \<Longrightarrow> join_with d (x # ys) = x @ d @ join_with d ys"
  by (cases ys) auto

lemma join_split: "join_with [d] (split_on d xs) = xs"
proof (induction xs)
  case Nil
  then show ?case by simp
next
  case (Cons x xs)
  then show ?case
    by (cases "split_on d xs") (auto simp: join_with_Cons split: list.splits,
        metis append_Cons join_with.simps(2) join_with_Cons)
qed

lemma split_on_no_delim: "f \<in> set (split_on d xs) \<Longrightarrow> d \<notin> set f"
  by (induction xs arbitrary: f) (auto split: list.splits if_splits)

lemma split_on_simple: "d \<notin> set x \<Longrightarrow> split_on d x = [x]"
  by (induction x) auto

lemma split_on_append: "d \<notin> set x \<Longrightarrow> split_on d (x @ d # ys) = x # split_on d ys"
  by (induction x) auto

lemma split_join:
  "fs \<noteq> [] \<Longrightarrow> \<forall>f \<in> set fs. d \<notin> set f \<Longrightarrow> split_on d (join_with [d] fs) = fs"
  by (induction "[d]" fs rule: join_with.induct) (auto simp: split_on_simple split_on_append)

lemma set_join_with: "set (join_with d fs) \<subseteq> set d \<union> (\<Union>f \<in> set fs. set f)"
  by (induction d fs rule: join_with.induct) auto

section \<open>Maps with an order\<close>

text \<open>
  A Go map as the list of its entries in the order of first insertion. \<open>append_at k x\<close> is
  \<^verbatim>\<open>m[k] = append(m[k], x)\<close>.
\<close>

fun append_at :: "'k \<Rightarrow> 'a \<Rightarrow> ('k \<times> 'a list) list \<Rightarrow> ('k \<times> 'a list) list" where
  "append_at k x [] = [(k, [x])]"
| "append_at k x ((k', xs) # m) = (if k' = k then (k', xs @ [x]) # m else (k', xs) # append_at k x m)"

lemma map_of_append_at:
  "map_of (append_at k x m) k' =
     (if k' = k then Some ((case map_of m k of None \<Rightarrow> [] | Some xs \<Rightarrow> xs) @ [x]) else map_of m k')"
  by (induction m) auto

lemma map_fst_append_at:
  "List.map fst (append_at k x m) =
     (if k \<in> fst ` set m then List.map fst m else List.map fst m @ [k])"
  by (induction k x m rule: append_at.induct) auto

lemma keys_append_at [simp]: "fst ` set (append_at k x m) = insert k (fst ` set m)"
  using arg_cong [OF map_fst_append_at [of k x m], of set] by (auto split: if_splits)

lemma distinct_append_at: "distinct (List.map fst m) \<Longrightarrow> distinct (List.map fst (append_at k x m))"
  by (simp add: map_fst_append_at)

end
