(* ===== verification/RowDriver.thy ===== *)
theory RowDriver
  imports Prelude "HOL-Library.AList"
begin

text \<open>
  The \<^verbatim>\<open>RowDriver\<close> interface of \<^verbatim>\<open>pkg/toolkit/row_driver.go\<close> as a locale, and the record types of
  \<^verbatim>\<open>pkg/toolkit\<close> that implement it for the interaction with command transformers: \<open>RawRecord\<close>,
  \<open>RawRecordStr\<close>, \<open>RawRecordText\<close>, \<open>RawRecordCsv\<close> and the two records keyed by column name.

  A Go map is an association list with distinct keys (\<open>AList\<close>), so that its length is the number of
  keys; a Go \<^verbatim>\<open>string\<close> is the list of its bytes. The JSON and CSV encodings of whole records belong to
  the standard library's encoders and are not modelled; the parsed CSV fields are a list of strings.
\<close>

section \<open>Values\<close>

record RawValue =
  Data :: "byte list"
  IsNull :: bool

definition NewRawValue :: "byte list \<Rightarrow> bool \<Rightarrow> RawValue" where
  "NewRawValue d n = \<lparr>Data = d, IsNull = n\<rparr>"

text \<open>\<open>StrData\<close> is a pointer: \<open>None\<close> when a decoded JSON object has no \<^verbatim>\<open>d\<close> field.\<close>

record RawValueStr =
  StrData :: "byte list option"
  StrIsNull :: bool

definition NewRawValueStr :: "byte list \<Rightarrow> bool \<Rightarrow> RawValueStr" where
  "NewRawValueStr d n = \<lparr>StrData = Some d, StrIsNull = n\<rparr>"

definition nullSeqStr :: "byte list" where
  "nullSeqStr = [0x5C, 0x4E]"

section \<open>The interface\<close>

text \<open>
  \<open>has r i\<close>: column \<open>i\<close> can be set on \<open>r\<close>; \<open>storable v\<close>: the record type can represent \<open>v\<close>. The laws
  are what \<^verbatim>\<open>Record\<close> and the interaction APIs rely on: a column that was set is read back, the
  others keep their value.
\<close>

locale row_driver =
  fixes get :: "'r \<Rightarrow> int \<Rightarrow> RawValue res"
    and put :: "'r \<Rightarrow> int \<Rightarrow> RawValue \<Rightarrow> 'r res"
    and has :: "'r \<Rightarrow> int \<Rightarrow> bool"
    and storable :: "RawValue \<Rightarrow> bool"
    and inv :: "'r \<Rightarrow> bool"
  assumes put_ok: "inv r \<Longrightarrow> has r i \<Longrightarrow> \<exists>r'. put r i v = Inr r'"
    and put_inv: "inv r \<Longrightarrow> put r i v = Inr r' \<Longrightarrow> inv r'"
    and put_has: "inv r \<Longrightarrow> put r i v = Inr r' \<Longrightarrow> has r' j = has r j"
    and get_put_same: "inv r \<Longrightarrow> has r i \<Longrightarrow> storable v \<Longrightarrow> put r i v = Inr r' \<Longrightarrow> get r' i = Inr v"
    and get_put_other: "inv r \<Longrightarrow> put r i v = Inr r' \<Longrightarrow> j \<noteq> i \<Longrightarrow> get r' j = get r j"

text \<open>
  The loop both directions of every interaction API run: read each column of a list from one row and
  set it on another, stopping at the first error.
\<close>

definition transfer ::
  "('s \<Rightarrow> int \<Rightarrow> RawValue res) \<Rightarrow> ('d \<Rightarrow> int \<Rightarrow> RawValue \<Rightarrow> 'd res) \<Rightarrow> int list \<Rightarrow> 's \<Rightarrow> 'd \<Rightarrow> 'd res" where
  "transfer get put idxs src dst = foldR (\<lambda>i d. bindR (get src i) (\<lambda>v. put d i v)) idxs dst"

lemma transfer_Nil [simp]: "transfer g p [] s d = Inr d"
  by (simp add: transfer_def)

lemma transfer_Cons [simp]:
  "transfer g p (i # is) s d = bindR (bindR (g s i) (p d i)) (transfer g p is s)"
  by (simp add: transfer_def [abs_def])

context row_driver
begin

lemma transfer_inv:
  "transfer g put is s d = Inr d' \<Longrightarrow> inv d \<Longrightarrow> inv d' \<and> (\<forall>j. has d' j = has d j)"
proof (induction "is" arbitrary: d)
  case Nil
  then show ?case by simp
next
  case (Cons i "is")
  then obtain v e where e: "put d i v = Inr e" "transfer g put is s e = Inr d'"
    by (auto simp: bindR_eq_Inr)
  with Cons.prems(2) have "inv e" "\<forall>j. has e j = has d j"
    by (auto simp: put_has dest: put_inv)
  with Cons.IH [OF e(2)] show ?case by simp
qed

lemma transfer_other:
  "transfer g put is s d = Inr d' \<Longrightarrow> inv d \<Longrightarrow> j \<notin> set is \<Longrightarrow> get d' j = get d j"
proof (induction "is" arbitrary: d)
  case Nil
  then show ?case by simp
next
  case (Cons i "is")
  then obtain v e where e: "put d i v = Inr e" "transfer g put is s e = Inr d'"
    by (auto simp: bindR_eq_Inr)
  with Cons.prems have "get d' j = get e j"
    by (intro Cons.IH) (auto dest: put_inv)
  with e(1) Cons.prems show ?case by (simp add: get_put_other)
qed

lemma transfer_total:
  assumes "inv d" and "\<And>i. i \<in> set is \<Longrightarrow> has d i \<and> (\<exists>v. g s i = Inr v)"
  shows "\<exists>d'. transfer g put is s d = Inr d'"
  using assms
proof (induction "is" arbitrary: d)
  case Nil
  then show ?case by simp
next
  case (Cons i "is")
  from Cons.prems(2) [of i] obtain v where v: "g s i = Inr v" "has d i" by auto
  with put_ok [OF Cons.prems(1)] obtain e where e: "put d i v = Inr e" by blast
  have "\<exists>d'. transfer g put is s e = Inr d'"
    using Cons.prems e by (intro Cons.IH) (auto dest: put_inv simp: put_has)
  with v e show ?case by simp
qed

lemma transfer_same:
  assumes "transfer g put is s d = Inr d'" and "inv d"
    and "\<And>i v. i \<in> set is \<Longrightarrow> g s i = Inr v \<Longrightarrow> has d i \<and> storable v"
    and "i \<in> set is"
  shows "get d' i = g s i"
  using assms
proof (induction "is" arbitrary: d)
  case Nil
  then show ?case by simp
next
  case (Cons k "is")
  then obtain v e where v: "g s k = Inr v" and e: "put d k v = Inr e" "transfer g put is s e = Inr d'"
    by (auto simp: bindR_eq_Inr)
  have inv: "inv e" using e(1) Cons.prems(2) by (rule put_inv [rotated])
  show ?case
  proof (cases "i \<in> set is")
    case True
    show ?thesis
      using e inv Cons.prems True by (intro Cons.IH) (auto simp: put_has)
  next
    case False
    with Cons.prems(4) have "i = k" by simp
    with False e inv have "get d' k = get e k" by (intro transfer_other) auto
    also have "get e k = Inr v"
      using Cons.prems(2,3) v e(1) by (intro get_put_same) auto
    finally show ?thesis using v \<open>i = k\<close> by simp
  qed
qed

end

section \<open>RawRecord: JSON objects keyed by column index\<close>

type_synonym RawRecord = "(int \<times> RawValue) list"

definition RawRecord_GetColumn :: "RawRecord \<Rightarrow> int \<Rightarrow> RawValue res" where
  "RawRecord_GetColumn rr idx =
     (case map_of rr idx of None \<Rightarrow> err ''column is not found'' | Some v \<Rightarrow> Inr v)"

definition RawRecord_SetColumn :: "RawRecord \<Rightarrow> int \<Rightarrow> RawValue \<Rightarrow> RawRecord res" where
  "RawRecord_SetColumn rr idx v = Inr (AList.update idx v rr)"

definition RawRecord_Length :: "RawRecord \<Rightarrow> nat" where
  "RawRecord_Length rr = length rr"

definition RawRecord_Clean :: "RawRecord \<Rightarrow> RawRecord" where
  "RawRecord_Clean rr = foldr (\<lambda>k m. AList.delete k m) (map fst rr) rr"

definition alist_wf :: "('k \<times> 'v) list \<Rightarrow> bool" where
  "alist_wf m \<longleftrightarrow> distinct (map fst m)"

interpretation raw_record: row_driver RawRecord_GetColumn RawRecord_SetColumn
  "\<lambda>_ _. True" "\<lambda>_. True" alist_wf
  by unfold_locales
    (auto simp: RawRecord_GetColumn_def RawRecord_SetColumn_def update_conv alist_wf_def distinct_update)

section \<open>RawRecordStr: the same with textual values\<close>

type_synonym RawRecordStr = "(int \<times> RawValueStr) list"

definition RawRecordStr_GetColumn :: "RawRecordStr \<Rightarrow> int \<Rightarrow> RawValue res" where
  "RawRecordStr_GetColumn rrs idx =
     (case map_of rrs idx of
        None \<Rightarrow> err ''column is not found''
      | Some res \<Rightarrow>
          let data = (case StrData res of None \<Rightarrow> [] | Some d \<Rightarrow> d)
          in Inr (NewRawValue data (StrIsNull res)))"

definition RawRecordStr_SetColumn :: "RawRecordStr \<Rightarrow> int \<Rightarrow> RawValue \<Rightarrow> RawRecordStr res" where
  "RawRecordStr_SetColumn rrs idx v = Inr (AList.update idx (NewRawValueStr (Data v) (IsNull v)) rrs)"

interpretation raw_record_str: row_driver RawRecordStr_GetColumn RawRecordStr_SetColumn
  "\<lambda>_ _. True" "\<lambda>_. True" alist_wf
  by unfold_locales
    (auto simp: RawRecordStr_GetColumn_def RawRecordStr_SetColumn_def update_conv alist_wf_def
        distinct_update NewRawValueStr_def NewRawValue_def)

section \<open>RawRecordText: the single column of the text mode\<close>

type_synonym RawRecordText = "byte list"

text \<open>
  \<^verbatim>\<open>GetColumn\<close> compares the receiver's address with the address of the package variable
  \<^verbatim>\<open>DefaultNullSeq\<close>; \<open>is_global\<close> says whether the receiver is that variable. A record made by
  \<^verbatim>\<open>NewRawRecordText\<close> is a fresh allocation, for which it is \<open>False\<close>.
\<close>

definition RawRecordText_GetColumn :: "bool \<Rightarrow> RawRecordText \<Rightarrow> int \<Rightarrow> RawValue res" where
  "RawRecordText_GetColumn is_global r idx =
     (if is_global then Inr (NewRawValue [] True) else Inr (NewRawValue r False))"

definition RawRecordText_SetColumn :: "RawRecordText \<Rightarrow> int \<Rightarrow> RawValue \<Rightarrow> RawRecordText res" where
  "RawRecordText_SetColumn r idx v = (if IsNull v then Inr nullSeqStr else Inr (Data v))"

text \<open>With a single column index the laws hold for the values that are not null.\<close>

definition text_get :: "int \<Rightarrow> RawRecordText \<Rightarrow> int \<Rightarrow> RawValue res" where
  "text_get c r idx = (if idx = c then RawRecordText_GetColumn False r idx else err ''other column'')"

definition text_put :: "int \<Rightarrow> RawRecordText \<Rightarrow> int \<Rightarrow> RawValue \<Rightarrow> RawRecordText res" where
  "text_put c r idx v = (if idx = c then RawRecordText_SetColumn r idx v else err ''other column'')"

interpretation raw_record_text: row_driver "text_get c" "text_put c"
  "\<lambda>_ i. i = c" "\<lambda>v. \<not> IsNull v" "\<lambda>_. True" for c
  by unfold_locales
    (auto simp: text_get_def text_put_def RawRecordText_GetColumn_def RawRecordText_SetColumn_def
        NewRawValue_def split: if_splits)

section \<open>RawRecordCsv\<close>

text \<open>
  The fields of the struct that hold state: the parsed fields, the size the index check uses and the
  map from column index to field position (empty when the columns are not remapped).
\<close>

record RawRecordCsv =
  CsvData :: "byte list list"
  csvSize :: nat
  originalIdxToOrdered :: "(int \<times> nat) list"

fun remap_from :: "nat \<Rightarrow> int list \<Rightarrow> (int \<times> nat) list \<Rightarrow> (int \<times> nat) list" where
  "remap_from k [] m = m"
| "remap_from k (i # is) m = remap_from (Suc k) is (AList.update i k m)"

text \<open>\<open>columnRemap\<close> is given by the indexes of its columns.\<close>

definition NewRawRecordCsv :: "nat \<Rightarrow> int list \<Rightarrow> RawRecordCsv" where
  "NewRawRecordCsv n columnRemap =
     (if length columnRemap > 0
      then \<lparr>CsvData = replicate (length columnRemap) [], csvSize = n,
            originalIdxToOrdered = remap_from 0 columnRemap []\<rparr>
      else \<lparr>CsvData = replicate n [], csvSize = n, originalIdxToOrdered = []\<rparr>)"

text \<open>The index check and the remapping shared by \<^verbatim>\<open>GetColumn\<close> and \<^verbatim>\<open>SetColumn\<close>.\<close>

definition csv_position :: "RawRecordCsv \<Rightarrow> int \<Rightarrow> nat res" where
  "csv_position rr idx =
     (if idx > int (csvSize rr) \<or> idx < 0 then err ''attribute is not found''
      else if length (originalIdxToOrdered rr) > 0 then
        (case map_of (originalIdxToOrdered rr) idx of
           None \<Rightarrow> err ''attribute is not found'' | Some k \<Rightarrow> Inr k)
      else Inr (nat idx))"

definition RawRecordCsv_GetColumn :: "RawRecordCsv \<Rightarrow> int \<Rightarrow> RawValue res" where
  "RawRecordCsv_GetColumn rr idx = bindR (csv_position rr idx) (\<lambda>k.
     if k < length (CsvData rr) then
       let val = CsvData rr ! k
       in if val = nullSeqStr then Inr (NewRawValue [] True) else Inr (NewRawValue val False)
     else panic ''index out of range'')"

text \<open>
  \<^verbatim>\<open>SetColumn\<close> has no \<^verbatim>\<open>else\<close> or \<^verbatim>\<open>return\<close> after the null case: the second assignment always runs.
\<close>

definition RawRecordCsv_SetColumn :: "RawRecordCsv \<Rightarrow> int \<Rightarrow> RawValue \<Rightarrow> RawRecordCsv res" where
  "RawRecordCsv_SetColumn rr idx v = bindR (csv_position rr idx) (\<lambda>k.
     if k < length (CsvData rr) then
       let data1 = (if IsNull v then (CsvData rr)[k := nullSeqStr] else CsvData rr);
           data2 = data1[k := Data v]
       in Inr (rr\<lparr>CsvData := data2\<rparr>)
     else panic ''index out of range'')"

definition RawRecordCsv_Length :: "RawRecordCsv \<Rightarrow> nat" where
  "RawRecordCsv_Length rr = length (CsvData rr)"

definition RawRecordCsv_Clean :: "RawRecordCsv \<Rightarrow> RawRecordCsv" where
  "RawRecordCsv_Clean rr = rr\<lparr>CsvData := map (\<lambda>_. []) (CsvData rr)\<rparr>"

definition csv_has :: "RawRecordCsv \<Rightarrow> int \<Rightarrow> bool" where
  "csv_has rr idx \<longleftrightarrow> (case csv_position rr idx of Inl _ \<Rightarrow> False | Inr k \<Rightarrow> k < length (CsvData rr))"

definition csv_inv :: "RawRecordCsv \<Rightarrow> bool" where
  "csv_inv rr \<longleftrightarrow> distinct (map snd (originalIdxToOrdered rr))"

lemma csv_position_CsvData [simp]: "csv_position (rr\<lparr>CsvData := d\<rparr>) idx = csv_position rr idx"
  by (simp add: csv_position_def)

lemma csv_position_inj:
  assumes "csv_inv rr" and "csv_position rr i = Inr k" and "csv_position rr j = Inr k"
  shows "i = j"
proof (cases "originalIdxToOrdered rr = []")
  case True
  with assms(2,3) show ?thesis by (auto simp: csv_position_def split: if_splits)
next
  case False
  with assms(2,3) have "(i, k) \<in> set (originalIdxToOrdered rr)" "(j, k) \<in> set (originalIdxToOrdered rr)"
    by (auto simp: csv_position_def split: if_splits option.splits dest: map_of_SomeD)
  moreover from assms(1) have "inj_on snd (set (originalIdxToOrdered rr))"
    by (simp add: csv_inv_def distinct_map)
  ultimately have "(i, k) = (j, k)"
    by (intro inj_onD [of snd "set (originalIdxToOrdered rr)"]) auto
  then show ?thesis by simp
qed

lemma csv_put_iff:
  "RawRecordCsv_SetColumn rr i v = Inr rr' \<longleftrightarrow>
     (\<exists>k. csv_position rr i = Inr k \<and> k < length (CsvData rr) \<and>
          rr' = rr\<lparr>CsvData := (CsvData rr)[k := Data v]\<rparr>)"
  by (auto simp: RawRecordCsv_SetColumn_def bindR_eq_Inr Let_def)

lemma csv_has_iff: "csv_has rr i \<longleftrightarrow> (\<exists>k. csv_position rr i = Inr k \<and> k < length (CsvData rr))"
  by (auto simp: csv_has_def split: sum.splits)

lemma csv_get_at:
  "csv_position rr i = Inr k \<Longrightarrow> k < length (CsvData rr) \<Longrightarrow>
   RawRecordCsv_GetColumn rr i =
     Inr (if CsvData rr ! k = nullSeqStr then NewRawValue [] True else NewRawValue (CsvData rr ! k) False)"
  by (simp add: RawRecordCsv_GetColumn_def Let_def)

interpretation raw_record_csv: row_driver RawRecordCsv_GetColumn RawRecordCsv_SetColumn
  csv_has "\<lambda>v. \<not> IsNull v \<and> Data v \<noteq> nullSeqStr" csv_inv
proof
  fix r :: RawRecordCsv and i v
  show "csv_inv r \<Longrightarrow> csv_has r i \<Longrightarrow> \<exists>r'. RawRecordCsv_SetColumn r i v = Inr r'"
    by (auto simp: csv_has_iff csv_put_iff)
next
  fix r r' :: RawRecordCsv and i v
  assume "csv_inv r" "RawRecordCsv_SetColumn r i v = Inr r'"
  then show "csv_inv r'"
    by (auto simp: csv_inv_def csv_put_iff)
next
  fix r r' :: RawRecordCsv and i j v
  assume "csv_inv r" "RawRecordCsv_SetColumn r i v = Inr r'"
  then show "csv_has r' j = csv_has r j"
    by (auto simp: csv_has_iff csv_put_iff)
next
  fix r r' :: RawRecordCsv and i v
  assume "csv_inv r" "csv_has r i" "\<not> IsNull v \<and> Data v \<noteq> nullSeqStr"
    "RawRecordCsv_SetColumn r i v = Inr r'"
  then show "RawRecordCsv_GetColumn r' i = Inr v"
    by (auto simp: csv_put_iff csv_get_at NewRawValue_def)
next
  fix r r' :: RawRecordCsv and i j v
  assume a: "csv_inv r" "RawRecordCsv_SetColumn r i v = Inr r'" "j \<noteq> i"
  then obtain k where k: "csv_position r i = Inr k" "r' = r\<lparr>CsvData := (CsvData r)[k := Data v]\<rparr>"
    by (auto simp: csv_put_iff)
  have "csv_position r j \<noteq> Inr k"
    using csv_position_inj [OF a(1) k(1)] a(3) by blast
  with k(2) show "RawRecordCsv_GetColumn r' j = RawRecordCsv_GetColumn r j"
    by (cases "csv_position r j") (auto simp: RawRecordCsv_GetColumn_def)
qed

lemma update_values: "snd ` set (AList.update i k m) \<subseteq> insert k (snd ` set m)"
  by (induction m) auto

lemma update_values_distinct:
  "distinct (map snd m) \<Longrightarrow> k \<notin> snd ` set m \<Longrightarrow> distinct (map snd (AList.update i k m))"
proof (induction m)
  case Nil
  then show ?case by simp
next
  case (Cons p m)
  have "snd p \<notin> insert k (snd ` set m)" using Cons.prems by auto
  then have "snd p \<notin> snd ` set (AList.update i k m)"
    using update_values [of i k m] by blast
  with Cons show ?case by (cases p) auto
qed

lemma remap_from_inv:
  "distinct (map snd m) \<Longrightarrow> \<forall>v \<in> set (map snd m). v < k \<Longrightarrow> distinct (map snd (remap_from k is m))"
proof (induction k "is" m rule: remap_from.induct)
  case (1 k m)
  then show ?case by simp
next
  case (2 k i "is" m)
  have "k \<notin> snd ` set m" using "2.prems"(2) by auto
  with "2.prems"(1) have "distinct (map snd (AList.update i k m))"
    by (rule update_values_distinct)
  moreover have "\<forall>v \<in> set (map snd (AList.update i k m)). v < Suc k"
    using "2.prems"(2) update_values [of i k m] by (force simp: less_Suc_eq)
  ultimately show ?case using "2.IH" by simp
qed

lemma NewRawRecordCsv_inv: "csv_inv (NewRawRecordCsv n columnRemap)"
  by (simp add: csv_inv_def NewRawRecordCsv_def remap_from_inv)

text \<open>A NULL written to a CSV record reads back as an empty string.\<close>

lemma csv_null_lost:
  assumes "csv_has rr i" and "RawRecordCsv_SetColumn rr i \<lparr>Data = [], IsNull = True\<rparr> = Inr rr'"
  shows "RawRecordCsv_GetColumn rr' i = Inr \<lparr>Data = [], IsNull = False\<rparr>"
  using assms by (auto simp: csv_put_iff csv_get_at NewRawValue_def nullSeqStr_def)

end
