(* ===== verification/PgCopy.thy ===== *)
theory PgCopy
  imports RowDriver
begin

text \<open>
  The PostgreSQL COPY text codec of \<^verbatim>\<open>internal/db/postgres/pgcopy\<close> and the row driver built on it:
  \<^item> \<open>DecodeAttr\<close>, \<open>EncodeAttr\<close> (\<^verbatim>\<open>decoder.go\<close>, \<^verbatim>\<open>encoder.go\<close>): one attribute between its escaped
    and its plain form;
  \<^item> \<open>Row\<close> (\<^verbatim>\<open>row.go\<close>): a COPY line, the positions of its columns, and the values set on it.

  A byte slice is a list. The scratch buffers that Go reuses between calls
  (\<^verbatim>\<open>decodeBufferPool\<close>, \<^verbatim>\<open>encodeBufferPool\<close>, \<^verbatim>\<open>encoded\<close>) hold no state that a later call reads
  and are left out: a buffer cut to length 0 is the empty list.
\<close>

unbundle bit_operations_syntax

section \<open>Constants\<close>

definition DefaultCopyDelimiter :: byte where
  "DefaultCopyDelimiter = 0x09"

definition DefaultNullSeq :: "byte list" where
  "DefaultNullSeq = [0x5C, 0x4E]"

definition DefaultCopyTerminationSeq :: "byte list" where
  "DefaultCopyTerminationSeq = [0x5C, 0x2E]"

lemmas copy_consts = DefaultCopyDelimiter_def DefaultNullSeq_def DefaultCopyTerminationSeq_def

section \<open>The standard library's UTF-8 check\<close>

definition utf8_cont :: "byte \<Rightarrow> byte \<Rightarrow> byte \<Rightarrow> bool" where
  "utf8_cont lo hi b \<longleftrightarrow> lo \<le> b \<and> b \<le> hi"

fun utf8_valid :: "byte list \<Rightarrow> bool" where
  "utf8_valid [] = True"
| "utf8_valid [b0] = (b0 < 0x80)"
| "utf8_valid [b0, b1] =
     (if b0 < 0x80 then b1 < 0x80
      else 0xC2 \<le> b0 \<and> b0 \<le> 0xDF \<and> utf8_cont 0x80 0xBF b1)"
| "utf8_valid [b0, b1, b2] =
     (if b0 < 0x80 then utf8_valid [b1, b2]
      else if 0xC2 \<le> b0 \<and> b0 \<le> 0xDF then utf8_cont 0x80 0xBF b1 \<and> b2 < 0x80
      else if 0xE0 \<le> b0 \<and> b0 \<le> 0xEF then
        utf8_cont (if b0 = 0xE0 then 0xA0 else 0x80) (if b0 = 0xED then 0x9F else 0xBF) b1 \<and>
        utf8_cont 0x80 0xBF b2
      else False)"
| "utf8_valid (b0 # b1 # b2 # b3 # bs) =
     (if b0 < 0x80 then utf8_valid (b1 # b2 # b3 # bs)
      else if 0xC2 \<le> b0 \<and> b0 \<le> 0xDF then utf8_cont 0x80 0xBF b1 \<and> utf8_valid (b2 # b3 # bs)
      else if 0xE0 \<le> b0 \<and> b0 \<le> 0xEF then
        utf8_cont (if b0 = 0xE0 then 0xA0 else 0x80) (if b0 = 0xED then 0x9F else 0xBF) b1 \<and>
        utf8_cont 0x80 0xBF b2 \<and> utf8_valid (b3 # bs)
      else if 0xF0 \<le> b0 \<and> b0 \<le> 0xF4 then
        utf8_cont (if b0 = 0xF0 then 0x90 else 0x80) (if b0 = 0xF4 then 0x8F else 0xBF) b1 \<and>
        utf8_cont 0x80 0xBF b2 \<and> utf8_cont 0x80 0xBF b3 \<and> utf8_valid bs
      else False)"

section \<open>Decoding an attribute\<close>

definition isHighBitSet :: "byte \<Rightarrow> bool" where
  "isHighBitSet c \<longleftrightarrow> (c AND 0x80) > 0"

definition octalValue :: "byte \<Rightarrow> byte" where
  "octalValue c = c - 0x30"

definition isOctal :: "byte \<Rightarrow> bool" where
  "isOctal c \<longleftrightarrow> 0x30 \<le> c \<and> c \<le> 0x37"

definition isHexDigit :: "byte \<Rightarrow> bool" where
  "isHexDigit c \<longleftrightarrow> 0x30 \<le> c \<and> c \<le> 0x39 \<or> 0x61 \<le> c \<and> c \<le> 0x66 \<or> 0x41 \<le> c \<and> c \<le> 0x46"

definition isDigit :: "byte \<Rightarrow> bool" where
  "isDigit c \<longleftrightarrow> 0x30 \<le> c \<and> c \<le> 0x39"

text \<open>\<^verbatim>\<open>unicode.ToLower\<close> on a rune below 256, cut back to a byte.\<close>

definition toLowerByte :: "byte \<Rightarrow> byte" where
  "toLowerByte c =
     (if 0x41 \<le> c \<and> c \<le> 0x5A \<or> 0xC0 \<le> c \<and> c \<le> 0xDE \<and> c \<noteq> 0xD7 then c + 0x20 else c)"

definition getDecimalFromHex :: "byte \<Rightarrow> byte" where
  "getDecimalFromHex c = (if isDigit c then c - 0x30 else toLowerByte c - 0x61 + 10)"

text \<open>
  The two nested \<^verbatim>\<open>if\<close>s of each numeric escape: at most two more octal digits (one more hex digit)
  are consumed. They return the value and the bytes left.
\<close>

fun octal_tail :: "nat \<Rightarrow> byte \<Rightarrow> byte list \<Rightarrow> byte \<times> byte list" where
  "octal_tail (Suc k) val (c # rest) =
     (if isOctal c then octal_tail k (push_bit 3 val + octalValue c) rest else (val, c # rest))"
| "octal_tail _ val rest = (val, rest)"

fun hex_tail :: "nat \<Rightarrow> byte \<Rightarrow> byte list \<Rightarrow> byte \<times> byte list" where
  "hex_tail (Suc k) val (c # rest) =
     (if isHexDigit c then hex_tail k (push_bit 4 val + getDecimalFromHex c) rest else (val, c # rest))"
| "hex_tail _ val rest = (val, rest)"

text \<open>The single-letter escapes; any other byte stands for itself.\<close>

definition unescape :: "byte \<Rightarrow> byte" where
  "unescape c =
     (if c = 0x62 then 0x08 else if c = 0x66 then 0x0C else if c = 0x6E then 0x0A
      else if c = 0x72 then 0x0D else if c = 0x74 then 0x09 else if c = 0x76 then 0x0B else c)"

lemma octal_tail_length: "octal_tail k v xs = (w, ys) \<Longrightarrow> length ys \<le> length xs"
  by (induction k v xs rule: octal_tail.induct) (auto split: if_splits)

lemma hex_tail_length: "hex_tail k v xs = (w, ys) \<Longrightarrow> length ys \<le> length xs"
  by (induction k v xs rule: hex_tail.induct) (auto split: if_splits)

text \<open>The loop of \<^verbatim>\<open>DecodeAttr\<close>: the list is the part of \<^verbatim>\<open>raw\<close> from \<^verbatim>\<open>i\<close> on.\<close>

function decode_loop :: "byte list \<Rightarrow> byte list \<Rightarrow> bool \<Rightarrow> (byte list \<times> bool) res" where
  "decode_loop [] buf saw = Inr (buf, saw)"
| "decode_loop (c # rest) buf saw =
     (if c \<noteq> 0x5C then decode_loop rest (buf @ [c]) saw
      else case rest of
        [] \<Rightarrow> panic ''backslash cannot be alone''
      | d # rest1 \<Rightarrow>
          if isOctal d then
            (case octal_tail 2 (octalValue d) rest1 of (val, rest2) \<Rightarrow>
               decode_loop rest2 (buf @ [val AND 0xFF]) (saw \<or> val = 0 \<or> isHighBitSet val))
          else if d = 0x78 then
            (case hex_tail 2 0 rest1 of (val, rest2) \<Rightarrow>
               decode_loop rest2 (buf @ [val AND 0xFF]) (saw \<or> val = 0 \<and> isHighBitSet val))
          else decode_loop rest1 (buf @ [unescape d]) saw)"
  by pat_completeness auto
termination
  by (relation "measure (\<lambda>(xs, _, _). length xs)")
     (auto dest!: octal_tail_length [OF sym] hex_tail_length [OF sym])

definition DecodeAttr :: "byte list \<Rightarrow> byte list \<Rightarrow> RawValue res" where
  "DecodeAttr raw buf =
     (if raw = DefaultNullSeq then Inr \<lparr>Data = [], IsNull = True\<rparr>
      else bindR (decode_loop raw buf False) (\<lambda>(out, saw).
        if saw \<and> \<not> utf8_valid out
        then panic ''error checking UTF-8 string after non ASCII symbols decoding''
        else Inr \<lparr>Data = out, IsNull = False\<rparr>))"

section \<open>Encoding an attribute\<close>

text \<open>
  The bytes appended for a control character below \<^verbatim>\<open>0x20\<close>: the \<^verbatim>\<open>default\<close> branch of the switch
  writes the byte itself before the escaped byte.
\<close>

definition escape_control :: "byte \<Rightarrow> byte list" where
  "escape_control c =
     (if c = 0x08 then [0x5C, 0x62] else if c = 0x0C then [0x5C, 0x66]
      else if c = 0x0A then [0x5C, 0x6E] else if c = 0x0D then [0x5C, 0x72]
      else if c = 0x09 then [0x5C, 0x74] else if c = 0x0B then [0x5C, 0x76]
      else (if c \<noteq> DefaultCopyDelimiter then [c] else []) @ [0x5C, c])"

text \<open>
  The loop of \<^verbatim>\<open>EncodeAttr\<close>, as the list of bytes it appends. After a null or termination sequence
  the code adds the length of the sequence to \<^verbatim>\<open>i\<close> and the loop header adds one more, so three
  bytes are passed over.
\<close>

function encode_loop :: "byte list \<Rightarrow> byte list" where
  "encode_loop [] = []"
| "encode_loop (c # rest) =
     (if length (c # rest) \<ge> length DefaultNullSeq \<and> take (length DefaultNullSeq) (c # rest) = DefaultNullSeq
      then [0x5C] @ DefaultNullSeq @ encode_loop (drop (Suc (length DefaultNullSeq)) (c # rest))
      else if length (c # rest) \<ge> length DefaultCopyTerminationSeq \<and>
              take (length DefaultCopyTerminationSeq) (c # rest) = DefaultCopyTerminationSeq
      then [0x5C] @ DefaultCopyTerminationSeq @
             encode_loop (drop (Suc (length DefaultCopyTerminationSeq)) (c # rest))
      else if c < 0x20 then escape_control c @ encode_loop rest
      else if c = 0x5C \<or> c = DefaultCopyDelimiter then [0x5C, c] @ encode_loop rest
      else c # encode_loop rest)"
  by pat_completeness auto
termination
  by (relation "measure length") auto

definition EncodeAttr :: "RawValue \<Rightarrow> byte list \<Rightarrow> byte list" where
  "EncodeAttr v buf = (if IsNull v then DefaultNullSeq else buf @ encode_loop (Data v))"

section \<open>The codec\<close>

declare decode_loop.simps(2) [simp del] encode_loop.simps(2) [simp del]

text \<open>One step of the encoder: the bytes emitted at the head of the input and the input left.\<close>

definition encode_step :: "byte \<Rightarrow> byte list \<Rightarrow> byte list \<times> byte list" where
  "encode_step c rest =
     (if c = 0x5C \<and> rest \<noteq> [] \<and> hd rest = 0x4E then ([0x5C, 0x5C, 0x4E], drop 2 rest)
      else if c = 0x5C \<and> rest \<noteq> [] \<and> hd rest = 0x2E then ([0x5C, 0x5C, 0x2E], drop 2 rest)
      else if c < 0x20 then (escape_control c, rest)
      else if c = 0x5C then ([0x5C, 0x5C], rest)
      else ([c], rest))"

lemma encode_loop_Cons:
  "encode_loop (c # rest) =
     fst (encode_step c rest) @ encode_loop (snd (encode_step c rest))"
  by (cases rest) (auto simp: encode_loop.simps(2) encode_step_def copy_consts)

lemma encode_step_length: "length (snd (encode_step c rest)) \<le> length rest"
  by (auto simp: encode_step_def)

lemma encode_induct [case_names Nil Cons]:
  assumes "P []" and "\<And>c rest. P (snd (encode_step c rest)) \<Longrightarrow> P (c # rest)"
  shows "P d"
proof (induction "length d" arbitrary: d rule: less_induct)
  case less
  show ?case
  proof (cases d)
    case Nil
    with assms(1) show ?thesis by simp
  next
    case (Cons c rest)
    then have "P (snd (encode_step c rest))"
      using less encode_step_length [of c rest] by simp
    with assms(2) Cons show ?thesis by simp
  qed
qed

text \<open>An encoded attribute never breaks the line or the column it stands in.\<close>

lemma escape_control_framing: "c < 0x20 \<Longrightarrow> 0x09 \<notin> set (escape_control c) \<and> 0x0A \<notin> set (escape_control c)"
  by (auto simp: escape_control_def copy_consts)

lemma encode_loop_framing: "0x09 \<notin> set (encode_loop d) \<and> 0x0A \<notin> set (encode_loop d)"
proof (induction d rule: encode_induct)
  case Nil
  then show ?case by simp
next
  case (Cons c rest)
  have "0x09 \<notin> set (fst (encode_step c rest)) \<and> 0x0A \<notin> set (fst (encode_step c rest))"
    using escape_control_framing by (auto simp: encode_step_def)
  with Cons show ?case by (simp add: encode_loop_Cons)
qed

lemma EncodeAttr_framing:
  "DefaultCopyDelimiter \<notin> set (EncodeAttr v []) \<and> 0x0A \<notin> set (EncodeAttr v [])"
  using encode_loop_framing by (auto simp: EncodeAttr_def copy_consts)

text \<open>
  A value that is not null is never written as the null marker or as the end-of-data marker: the
  byte after a leading backslash is never \<^verbatim>\<open>N\<close> or a period.
\<close>

lemma encode_loop_head:
  assumes "encode_loop d = 0x5C # x # ys"
  shows "x \<noteq> 0x4E \<and> x \<noteq> 0x2E"
proof (cases d)
  case Nil
  with assms show ?thesis by simp
next
  case (Cons c rest)
  with assms show ?thesis
    by (auto simp: encode_loop_Cons encode_step_def escape_control_def copy_consts split: if_splits)
qed

lemma EncodeAttr_not_marker:
  "\<not> IsNull v \<Longrightarrow> EncodeAttr v [] \<noteq> DefaultNullSeq \<and> EncodeAttr v [] \<noteq> DefaultCopyTerminationSeq"
  using encode_loop_head by (auto simp: EncodeAttr_def copy_consts)

text \<open>
  The values the encoder writes without loss: a null or termination sequence is the last thing in
  the value, and the only control characters are those with a letter escape.
\<close>

fun copy_safe :: "byte list \<Rightarrow> bool" where
  "copy_safe [] = True"
| "copy_safe (c # rest) =
     (if c = 0x5C \<and> rest \<noteq> [] \<and> (hd rest = 0x4E \<or> hd rest = 0x2E) then tl rest = []
      else (c < 0x20 \<longrightarrow> c \<in> {0x08, 0x09, 0x0A, 0x0B, 0x0C, 0x0D}) \<and> copy_safe rest)"

lemma decode_plain: "c \<noteq> 0x5C \<Longrightarrow> decode_loop (c # xs) buf saw = decode_loop xs (buf @ [c]) saw"
  by (simp add: decode_loop.simps(2))

lemma decode_escaped:
  "\<not> isOctal d \<Longrightarrow> d \<noteq> 0x78 \<Longrightarrow>
   decode_loop (0x5C # d # xs) buf saw = decode_loop xs (buf @ [unescape d]) saw"
  by (simp add: decode_loop.simps(2))

text \<open>
  What comes back of any bytes: of a null or termination sequence the byte after it is lost, a control character
  without a letter escape comes back twice, everything else comes back as it was.
\<close>

fun read_back :: "byte list \<Rightarrow> byte list" where
  "read_back [] = []"
| "read_back (c # rest) =
     (if c = 0x5C \<and> rest \<noteq> [] \<and> (hd rest = 0x4E \<or> hd rest = 0x2E) then c # hd rest # read_back (drop 2 rest)
      else if c < 0x20 \<and> c \<notin> {0x08, 0x09, 0x0A, 0x0B, 0x0C, 0x0D} then c # c # read_back rest
      else c # read_back rest)"

definition stored_value :: "RawValue \<Rightarrow> RawValue" where
  "stored_value v = \<lparr>Data = (if IsNull v then [] else read_back (Data v)), IsNull = IsNull v\<rparr>"

lemma decode_encode_step:
  "\<exists>b. decode_loop (fst (encode_step c rest) @ ys) buf saw = decode_loop ys (buf @ b) saw \<and>
     read_back (c # rest) = b @ read_back (snd (encode_step c rest))"
proof -
  consider (seq) x rest' where "c = 0x5C" "rest = x # rest'" "x = 0x4E \<or> x = 0x2E"
    | (control) "c < 0x20" | (bslash) "c = 0x5C" "\<not> (rest \<noteq> [] \<and> (hd rest = 0x4E \<or> hd rest = 0x2E))"
    | (plain) "\<not> c < 0x20" "c \<noteq> 0x5C"
    by (cases rest) auto
  then show ?thesis
  proof cases
    case seq
    then show ?thesis
      by (intro exI [of _ "[c, x]"]) (auto simp: encode_step_def decode_escaped decode_plain isOctal_def unescape_def)
  next
    case control
    then have "c \<noteq> 0x5C" "c \<noteq> 0x78" "\<not> isOctal c" by (auto simp: isOctal_def word_less_nat_alt word_le_nat_alt)
    with control show ?thesis
      by (intro exI [of _ "if c \<in> {0x08, 0x09, 0x0A, 0x0B, 0x0C, 0x0D} then [c] else [c, c]"])
        (auto simp: encode_step_def escape_control_def copy_consts decode_escaped decode_plain isOctal_def unescape_def)
  next
    case bslash
    then show ?thesis
      by (intro exI [of _ "[c]"]) (auto simp: encode_step_def decode_escaped isOctal_def unescape_def)
  next
    case plain
    then show ?thesis by (intro exI [of _ "[c]"]) (auto simp: encode_step_def decode_plain)
  qed
qed

lemma decode_encode_loop: "decode_loop (encode_loop d) buf saw = Inr (buf @ read_back d, saw)"
proof (induction d arbitrary: buf rule: encode_induct)
  case Nil
  then show ?case by simp
next
  case (Cons c rest)
  obtain b where "decode_loop (encode_loop (c # rest)) buf saw = decode_loop (encode_loop (snd (encode_step c rest))) (buf @ b) saw"
    "read_back (c # rest) = b @ read_back (snd (encode_step c rest))"
    using decode_encode_step [of c rest "encode_loop (snd (encode_step c rest))" buf saw]
    unfolding encode_loop_Cons by blast
  then show ?case by (simp only: Cons.IH append_assoc)
qed

lemma decode_encode: "DecodeAttr (EncodeAttr v []) [] = Inr (stored_value v)"
proof (cases "IsNull v")
  case True
  then show ?thesis by (simp add: EncodeAttr_def DecodeAttr_def stored_value_def)
next
  case False
  with EncodeAttr_not_marker [of v] show ?thesis
    by (simp add: DecodeAttr_def EncodeAttr_def decode_encode_loop stored_value_def)
qed

lemma read_back_safe: "copy_safe d \<Longrightarrow> read_back d = d"
proof (induction d rule: read_back.induct)
  case 1
  then show ?case by simp
next
  case (2 c rest)
  show ?case
  proof (cases "c = 0x5C \<and> rest \<noteq> [] \<and> (hd rest = 0x4E \<or> hd rest = 0x2E)")
    case True
    with 2(4) show ?thesis by (cases rest) auto
  next
    case False
    with 2(4) have "c < 0x20 \<longrightarrow> c \<in> {0x08, 0x09, 0x0A, 0x0B, 0x0C, 0x0D}" "copy_safe rest" by simp_all
    with 2(3) False show ?thesis by auto
  qed
qed

lemma stored_value_safe: "\<not> IsNull v \<Longrightarrow> copy_safe (Data v) \<Longrightarrow> stored_value v = v"
  by (simp add: stored_value_def read_back_safe)

lemma stored_value_IsNull [simp]: "IsNull (stored_value v) = IsNull v"
  by (simp add: stored_value_def)

end
