(* ===== verification/PgRow.thy ===== *)
theory PgRow
  imports PgCopy
begin

text \<open>
  \<^verbatim>\<open>internal/db/postgres/pgcopy/row.go\<close>: a COPY line with lazily decoded columns. \<open>Row_Decode\<close> only
  finds the column positions; \<open>Row_GetColumn\<close> decodes one column on demand, \<open>Row_SetColumn\<close> records a
  new value, \<open>Row_Encode\<close> writes the line with the new values in place of the original ones.

  The abstraction is the list of raw fields of the line (\<open>row_fields\<close>): splitting at the delimiter.
\<close>

section \<open>State\<close>

record ColumnPos =
  cp_start :: nat
  cp_end :: nat

record Row =
  raw :: "byte list"
  newValues :: "RawValue option list"
  columnPos :: "ColumnPos list"
  tupleSize :: nat
  isDynamic :: bool

definition UseDynamicSize :: int where
  "UseDynamicSize = -1"

definition NewRow :: "int \<Rightarrow> Row res" where
  "NewRow ts =
     (if ts = 0 then panic ''tuple size should be greater than 0''
      else
        let dyn = (ts = UseDynamicSize);
            n = (if dyn then 0 else ts)
        in if n < 0 then panic ''makeslice: len out of range''
           else Inr \<lparr>raw = [], newValues = replicate (nat n) None,
                     columnPos = replicate (nat n) \<lparr>cp_start = 0, cp_end = 0\<rparr>,
                     tupleSize = nat n, isDynamic = dyn\<rparr>)"

definition appendNewEmptyBuffer :: "Row \<Rightarrow> Row" where
  "appendNewEmptyBuffer r =
     r\<lparr>columnPos := columnPos r @ [\<lparr>cp_start = 0, cp_end = 0\<rparr>],
       newValues := newValues r @ [None],
       tupleSize := tupleSize r + 1\<rparr>"

section \<open>Operations\<close>

text \<open>
  The loop of \<^verbatim>\<open>Decode\<close>. It updates the column positions as it goes, also when it then reports an
  error, so the row is returned together with the error.
\<close>

function Row_decode_loop :: "byte list \<Rightarrow> nat \<Rightarrow> nat \<Rightarrow> Row \<Rightarrow> Row \<times> fault option" where
  "Row_decode_loop rawv colStart idx r =
     (if colStart \<le> length rawv then
        let colEnd = (case index_func (\<lambda>b. b = DefaultCopyDelimiter) (drop colStart rawv) of
                        None \<Rightarrow> length rawv | Some k \<Rightarrow> colStart + k);
            grow = (isDynamic r \<and> idx \<ge> tupleSize r)
        in if \<not> grow \<and> idx \<ge> length (columnPos r) then (r, Some (Err ''ErrTupleSizeMismatch''))
           else let r1 = (if grow then appendNewEmptyBuffer r else r)
                in if idx \<ge> length (columnPos r1) then (r1, Some (Panic ''index out of range''))
                   else Row_decode_loop rawv (colEnd + 1) (idx + 1)
                          (r1\<lparr>columnPos := (columnPos r1)[idx := \<lparr>cp_start = colStart, cp_end = colEnd\<rparr>]\<rparr>)
      else (r, None))"
  by pat_completeness auto
termination
  by (relation "measure (\<lambda>(rawv, colStart, _, _). Suc (length rawv) - colStart)")
     (auto split: option.splits)

definition Row_Decode :: "Row \<Rightarrow> byte list \<Rightarrow> Row \<times> fault option" where
  "Row_Decode r rawv =
     (case Row_decode_loop rawv 0 0 r of
        (r', Some e) \<Rightarrow> (r', Some e)
      | (r', None) \<Rightarrow> (r'\<lparr>raw := rawv\<rparr>, None))"

definition Row_GetColumnRaw :: "Row \<Rightarrow> int \<Rightarrow> byte list res" where
  "Row_GetColumnRaw r idx =
     (if int (length (columnPos r)) \<le> idx then err ''ErrIndexOutOfRage''
      else if idx < 0 then panic ''index out of range''
      else let pos = columnPos r ! nat idx in slice (raw r) (cp_start pos) (cp_end pos))"

definition Row_GetColumn :: "Row \<Rightarrow> int \<Rightarrow> RawValue res" where
  "Row_GetColumn r idx =
     (if int (length (columnPos r)) \<le> idx then err ''ErrIndexOutOfRage''
      else if idx < 0 \<or> nat idx \<ge> length (newValues r) then panic ''index out of range''
      else case newValues r ! nat idx of
             Some res \<Rightarrow> Inr res
           | None \<Rightarrow>
               let pos = columnPos r ! nat idx
               in bindR (slice (raw r) (cp_start pos) (cp_end pos)) (\<lambda>bs. DecodeAttr bs []))"

definition Row_SetColumn :: "Row \<Rightarrow> int \<Rightarrow> RawValue \<Rightarrow> Row res" where
  "Row_SetColumn r idx v =
     (if idx > int (length (columnPos r)) - 1 then err ''ErrIndexOutOfRage''
      else if idx < 0 \<or> nat idx \<ge> length (newValues r) then panic ''index out of range''
      else Inr (r\<lparr>newValues := (newValues r)[nat idx := Some v]\<rparr>))"

text \<open>
  The loop of \<^verbatim>\<open>Encode\<close> over the column positions, with the pending values (each is cleared once it
  is written) and the bytes written so far.
\<close>

fun Row_encode_loop ::
  "byte list \<Rightarrow> nat \<Rightarrow> nat \<Rightarrow> ColumnPos list \<Rightarrow> RawValue option list \<Rightarrow> byte list \<Rightarrow>
   (RawValue option list \<times> byte list) res" where
  "Row_encode_loop rawv n idx [] nv res = Inr (nv, res)"
| "Row_encode_loop rawv n idx (pos # ps) nv res =
     (if idx \<ge> length nv then panic ''index out of range''
      else bindR
        (case nv ! idx of
           Some av \<Rightarrow> Inr (nv[idx := None], res @ EncodeAttr av [])
         | None \<Rightarrow> bindR (slice rawv (cp_start pos) (cp_end pos)) (\<lambda>bs. Inr (nv, res @ bs)))
        (\<lambda>(nv1, res1). Row_encode_loop rawv n (idx + 1) ps nv1
           (if idx \<noteq> n - 1 then res1 @ [DefaultCopyDelimiter] else res1)))"

definition Row_Encode :: "Row \<Rightarrow> (Row \<times> byte list) res" where
  "Row_Encode r =
     (if length (newValues r) = 0 then Inr (r, raw r)
      else bindR (Row_encode_loop (raw r) (length (columnPos r)) 0 (columnPos r) (newValues r) [])
             (\<lambda>(nv, res). Inr (r\<lparr>newValues := nv\<rparr>, res)))"

definition Row_Length :: "Row \<Rightarrow> nat" where
  "Row_Length r = length (columnPos r)"

definition Row_Clean :: "Row \<Rightarrow> Row res" where
  "Row_Clean r = panic ''clean method is not supported''"

section \<open>Invariant\<close>

definition Row_wf :: "Row \<Rightarrow> bool" where
  "Row_wf r \<longleftrightarrow> length (newValues r) = tupleSize r \<and> length (columnPos r) = tupleSize r"

lemma NewRow_wf: "NewRow ts = Inr r \<Longrightarrow> Row_wf r"
  by (auto simp: NewRow_def Row_wf_def Let_def split: if_splits)

lemma Row_SetColumn_wf: "Row_wf r \<Longrightarrow> Row_SetColumn r i v = Inr r' \<Longrightarrow> Row_wf r'"
  by (auto simp: Row_SetColumn_def Row_wf_def split: if_splits)

declare Row_decode_loop.simps [simp del]

text \<open>The three outcomes of one iteration.\<close>

definition find_delim :: "byte list \<Rightarrow> nat \<Rightarrow> nat" where
  "find_delim rawv s =
     (case index_func (\<lambda>b. b = DefaultCopyDelimiter) (drop s rawv) of
        None \<Rightarrow> length rawv | Some k \<Rightarrow> s + k)"

definition set_pos :: "nat \<Rightarrow> nat \<Rightarrow> nat \<Rightarrow> Row \<Rightarrow> Row" where
  "set_pos idx s e r =
     (let r1 = (if isDynamic r \<and> idx \<ge> tupleSize r then appendNewEmptyBuffer r else r)
      in r1\<lparr>columnPos := (columnPos r1)[idx := \<lparr>cp_start = s, cp_end = e\<rparr>]\<rparr>)"

lemma Row_decode_loop_end: "s > length rawv \<Longrightarrow> Row_decode_loop rawv s idx r = (r, None)"
  by (simp add: Row_decode_loop.simps [of rawv s])

lemma Row_decode_loop_full:
  "s \<le> length rawv \<Longrightarrow> Row_wf r \<Longrightarrow> \<not> isDynamic r \<Longrightarrow> idx \<ge> tupleSize r \<Longrightarrow>
   Row_decode_loop rawv s idx r = (r, Some (Err ''ErrTupleSizeMismatch''))"
  by (simp add: Row_decode_loop.simps [of rawv s] Row_wf_def Let_def)

lemma Row_decode_loop_step:
  "s \<le> length rawv \<Longrightarrow> Row_wf r \<Longrightarrow> idx < tupleSize r \<or> isDynamic r \<and> idx = tupleSize r \<Longrightarrow>
   Row_decode_loop rawv s idx r =
     Row_decode_loop rawv (find_delim rawv s + 1) (idx + 1) (set_pos idx s (find_delim rawv s) r)"
  by (auto simp: Row_decode_loop.simps [of rawv s] Row_wf_def find_delim_def set_pos_def Let_def
      appendNewEmptyBuffer_def)

lemma set_pos_wf:
  "Row_wf r \<Longrightarrow> Row_wf (set_pos idx s e r) \<and> isDynamic (set_pos idx s e r) = isDynamic r \<and>
   raw (set_pos idx s e r) = raw r"
  by (auto simp: Row_wf_def set_pos_def appendNewEmptyBuffer_def Let_def)

text \<open>
  The positions of the fields of a line, from byte \<open>s\<close> on. Decoding stores exactly these.
\<close>

fun field_positions :: "nat \<Rightarrow> byte list list \<Rightarrow> ColumnPos list" where
  "field_positions s [] = []"
| "field_positions s (f # fs) =
     \<lparr>cp_start = s, cp_end = s + length f\<rparr> # field_positions (s + length f + 1) fs"

lemma length_field_positions [simp]: "length (field_positions s fs) = length fs"
  by (induction s fs rule: field_positions.induct) auto

lemma split_find_delim:
  assumes "s \<le> length rawv"
  shows "find_delim rawv s \<le> length rawv \<and> s \<le> find_delim rawv s \<and>
    split_on DefaultCopyDelimiter (drop s rawv) =
      take (find_delim rawv s - s) (drop s rawv) #
      (if find_delim rawv s < length rawv
       then split_on DefaultCopyDelimiter (drop (find_delim rawv s + 1) rawv) else [])"
proof (cases "DefaultCopyDelimiter \<in> set (drop s rawv)")
  case False
  then have "find_delim rawv s = length rawv"
    by (auto simp: find_delim_def index_func_takeWhile)
  with False assms show ?thesis by (simp add: split_on_simple)
next
  case True
  then obtain pre post where post: "drop s rawv = pre @ DefaultCopyDelimiter # post"
    and d: "DefaultCopyDelimiter \<notin> set pre"
    using split_list_first by metis
  have "takeWhile (\<lambda>x. x \<noteq> DefaultCopyDelimiter) (pre @ DefaultCopyDelimiter # post) = pre"
    using d by (auto simp: takeWhile_append intro!: takeWhile_eq_all_conv [THEN iffD2])
  then have f: "find_delim rawv s = s + length pre"
    by (simp add: find_delim_def index_func_takeWhile post)
  have "length (drop s rawv) = length pre + 1 + length post" by (simp add: post)
  with assms have len: "length rawv = s + length pre + 1 + length post" by simp
  have "drop (Suc (length pre)) (drop s rawv) = post" by (simp add: post)
  then have "drop (s + length pre + 1) rawv = post" by (simp add: add.commute)
  with post d f len show ?thesis by (simp add: split_on_append)
qed

text \<open>
  Decoding a line whose number of fields the row can hold: the row's first positions become the
  positions of the fields; a dynamic row grows when the line is longer.
\<close>

definition after_decode :: "nat \<Rightarrow> nat \<Rightarrow> byte list list \<Rightarrow> Row \<Rightarrow> Row" where
  "after_decode idx s fs r =
     (let grow = idx + length fs - tupleSize r
      in r\<lparr>columnPos := take idx (columnPos r) @ field_positions s fs @ drop (idx + length fs) (columnPos r),
           newValues := newValues r @ replicate grow None,
           tupleSize := tupleSize r + grow\<rparr>)"

lemma after_decode_Nil: "Row_wf r \<Longrightarrow> idx \<le> tupleSize r \<Longrightarrow> after_decode idx s [] r = r"
  by (simp add: after_decode_def Row_wf_def)

lemma after_decode_Cons:
  assumes "Row_wf r" and "idx < tupleSize r \<or> isDynamic r \<and> idx = tupleSize r"
    and "e = s + length f"
  shows "after_decode (idx + 1) (e + 1) fs (set_pos idx s e r) = after_decode idx s (f # fs) r"
proof (cases "idx < tupleSize r")
  case True
  with assms show ?thesis
    by (simp add: after_decode_def set_pos_def Row_wf_def Let_def take_Suc_conv_app_nth)
next
  case False
  with assms show ?thesis
    by (simp add: after_decode_def set_pos_def Row_wf_def Let_def appendNewEmptyBuffer_def
        list_update_append replicate_app_Cons_same)
qed

lemma Row_decode_loop_fits:
  "Row_wf r \<Longrightarrow> s \<le> length rawv \<Longrightarrow> idx \<le> tupleSize r \<Longrightarrow>
   fs = split_on DefaultCopyDelimiter (drop s rawv) \<Longrightarrow>
   isDynamic r \<or> idx + length fs \<le> tupleSize r \<Longrightarrow>
   Row_decode_loop rawv s idx r = (after_decode idx s fs r, None)"
proof (induction "Suc (length rawv) - s" arbitrary: s idx r fs rule: less_induct)
  case less
  define e where "e = find_delim rawv s"
  define f where "f = take (e - s) (drop s rawv)"
  define gs where "gs = (if e < length rawv then split_on DefaultCopyDelimiter (drop (e + 1) rawv) else [])"
  have split: "fs = f # gs" "e \<le> length rawv" "s \<le> e"
    using split_find_delim [OF less.prems(2)] less.prems(4) by (auto simp: e_def f_def gs_def)
  then have e: "e = s + length f" using less.prems(2) by (simp add: f_def)
  have room: "idx < tupleSize r \<or> isDynamic r \<and> idx = tupleSize r"
    using less.prems(3,5) split(1) by auto
  let ?r = "set_pos idx s e r"
  have step: "Row_decode_loop rawv s idx r = Row_decode_loop rawv (e + 1) (idx + 1) ?r"
    unfolding e_def using less.prems(1,2) room by (intro Row_decode_loop_step)
  have wf: "Row_wf ?r" "isDynamic ?r = isDynamic r"
    using set_pos_wf [OF less.prems(1)] by auto
  have size: "tupleSize ?r = max (tupleSize r) (idx + 1)"
    using room by (auto simp: set_pos_def Let_def appendNewEmptyBuffer_def)
  have "Row_decode_loop rawv (e + 1) (idx + 1) ?r = (after_decode (idx + 1) (e + 1) gs ?r, None)"
  proof (cases "e < length rawv")
    case False
    with split(2) have "e + 1 > length rawv" "gs = []" by (auto simp: gs_def)
    then show ?thesis
      using wf(1) size by (simp add: Row_decode_loop_end after_decode_Nil)
  next
    case True
    show ?thesis
    proof (rule less.hyps)
      show "Suc (length rawv) - (e + 1) < Suc (length rawv) - s" using split(2,3) by simp
      show "Row_wf ?r" by (rule wf(1))
      show "e + 1 \<le> length rawv" using True by simp
      show "idx + 1 \<le> tupleSize ?r" by (simp add: size)
      show "gs = split_on DefaultCopyDelimiter (drop (e + 1) rawv)" using True by (simp add: gs_def)
      show "isDynamic ?r \<or> idx + 1 + length gs \<le> tupleSize ?r"
        using less.prems(5) split(1) wf(2) size by auto
    qed
  qed
  with step after_decode_Cons [OF less.prems(1) room e] split(1) show ?case by simp
qed

lemma Row_decode_loop_overflow:
  "Row_wf r \<Longrightarrow> s \<le> length rawv \<Longrightarrow> idx \<le> tupleSize r \<Longrightarrow> \<not> isDynamic r \<Longrightarrow>
   tupleSize r < idx + length (split_on DefaultCopyDelimiter (drop s rawv)) \<Longrightarrow>
   snd (Row_decode_loop rawv s idx r) = Some (Err ''ErrTupleSizeMismatch'')"
proof (induction "Suc (length rawv) - s" arbitrary: s idx r rule: less_induct)
  case less
  define e where "e = find_delim rawv s"
  note split = split_find_delim [OF less.prems(2), folded e_def]
  show ?case
  proof (cases "idx < tupleSize r")
    case False
    with less.prems show ?thesis by (simp add: Row_decode_loop_full)
  next
    case True
    let ?r = "set_pos idx s e r"
    have r: "Row_wf ?r" "isDynamic ?r = isDynamic r"
      using set_pos_wf [OF less.prems(1), of idx s e] by auto
    have sz: "tupleSize ?r = tupleSize r"
      using True by (simp add: set_pos_def Let_def)
    have "e < length rawv"
      using split less.prems(5) True by (auto split: if_splits)
    then have "snd (Row_decode_loop rawv (e + 1) (idx + 1) ?r) = Some (Err ''ErrTupleSizeMismatch'')"
      using split less.prems True r sz by (intro less.hyps) auto
    then show ?thesis
      using Row_decode_loop_step [OF less.prems(2,1)] True by (simp add: e_def)
  qed
qed

section \<open>The fields of a row\<close>

definition row_fields :: "Row \<Rightarrow> byte list list" where
  "row_fields r = map (\<lambda>p. take (cp_end p - cp_start p) (drop (cp_start p) (raw r))) (columnPos r)"

definition row_bounded :: "Row \<Rightarrow> bool" where
  "row_bounded r \<longleftrightarrow> list_all (\<lambda>p. cp_start p \<le> cp_end p \<and> cp_end p \<le> length (raw r)) (columnPos r)"

lemma length_row_fields [simp]: "length (row_fields r) = length (columnPos r)"
  by (simp add: row_fields_def)

lemma field_positions_fields:
  "fs \<noteq> [] \<Longrightarrow> drop s rawv = join_with [d] fs \<Longrightarrow> s \<le> length rawv \<Longrightarrow>
   map (\<lambda>p. take (cp_end p - cp_start p) (drop (cp_start p) rawv)) (field_positions s fs) = fs \<and>
   list_all (\<lambda>p. cp_start p \<le> cp_end p \<and> cp_end p \<le> length rawv) (field_positions s fs)"
proof (induction s fs rule: field_positions.induct)
  case (1 s)
  then show ?case by simp
next
  case (2 s f fs)
  show ?case
  proof (cases "fs = []")
    case True
    with 2 have "drop s rawv = f" by simp
    moreover from this have "length rawv = s + length f" using 2(4) by auto
    ultimately show ?thesis using True by simp
  next
    case False
    with 2(3) have d: "drop s rawv = f @ d # join_with [d] fs"
      by (simp add: join_with_Cons)
    then have "length rawv - s = length f + 1 + length (join_with [d] fs)"
      by (metis add.assoc add.commute length_Cons length_append length_drop plus_1_eq_Suc)
    with 2(4) have len: "length rawv = s + length f + 1 + length (join_with [d] fs)" by simp
    have "drop (Suc (length f)) (drop s rawv) = join_with [d] fs" by (simp add: d)
    then have "drop (s + length f + 1) rawv = join_with [d] fs" by (simp add: add.commute)
    with 2(1) False len d show ?thesis by simp
  qed
qed

definition row_accepts :: "Row \<Rightarrow> byte list \<Rightarrow> bool" where
  "row_accepts r rawv \<longleftrightarrow>
     (let n = length (split_on DefaultCopyDelimiter rawv)
      in n = tupleSize r \<or> isDynamic r \<and> tupleSize r \<le> n)"

lemma Row_Decode_accepts:
  assumes "Row_wf r" and "row_accepts r rawv"
  obtains r' where "Row_Decode r rawv = (r', None)" and "Row_wf r'" and "row_bounded r'"
    and "row_fields r' = split_on DefaultCopyDelimiter rawv" and "raw r' = rawv"
    and "isDynamic r' = isDynamic r" and "set (newValues r') \<subseteq> set (newValues r) \<union> {None}"
proof -
  define fs where "fs = split_on DefaultCopyDelimiter rawv"
  define r' where "r' = (after_decode 0 0 fs r)\<lparr>raw := rawv\<rparr>"
  have "Row_decode_loop rawv 0 0 r = (after_decode 0 0 fs r, None)"
    using assms by (intro Row_decode_loop_fits) (auto simp: fs_def row_accepts_def Let_def)
  then have 1: "Row_Decode r rawv = (r', None)"
    by (simp add: Row_Decode_def r'_def)
  have pos: "columnPos r' = field_positions 0 fs"
    using assms by (auto simp: r'_def after_decode_def Row_wf_def row_accepts_def fs_def Let_def)
  have 2: "Row_wf r'"
    using assms by (auto simp: r'_def after_decode_def Row_wf_def row_accepts_def fs_def Let_def)
  have fld: "map (\<lambda>p. take (cp_end p - cp_start p) (drop (cp_start p) rawv)) (field_positions 0 fs) = fs"
    "list_all (\<lambda>p. cp_start p \<le> cp_end p \<and> cp_end p \<le> length rawv) (field_positions 0 fs)"
    using field_positions_fields [of fs 0 rawv DefaultCopyDelimiter] by (auto simp: fs_def join_split)
  have raw: "raw r' = rawv" by (simp add: r'_def)
  show ?thesis
  proof
    show "Row_Decode r rawv = (r', None)" by (rule 1)
    show "Row_wf r'" by (rule 2)
    show "row_bounded r'" using fld pos raw by (simp add: row_bounded_def)
    show "row_fields r' = split_on DefaultCopyDelimiter rawv"
      using fld pos raw by (simp add: row_fields_def fs_def)
    show "raw r' = rawv" by (rule raw)
    show "isDynamic r' = isDynamic r" by (simp add: r'_def after_decode_def Let_def)
    show "set (newValues r') \<subseteq> set (newValues r) \<union> {None}"
      by (auto simp: r'_def after_decode_def Let_def)
  qed
qed

text \<open>The bytes \<^verbatim>\<open>Encode\<close> writes for a column: its new value, or the original field.\<close>

definition out_field :: "RawValue option \<Rightarrow> byte list \<Rightarrow> byte list" where
  "out_field v f = (case v of Some av \<Rightarrow> EncodeAttr av [] | None \<Rightarrow> f)"

lemma Row_encode_loop_spec:
  "list_all (\<lambda>p. cp_start p \<le> cp_end p \<and> cp_end p \<le> length rawv) ps \<Longrightarrow>
   length nv = idx + length ps \<Longrightarrow> n = idx + length ps \<Longrightarrow>
   Row_encode_loop rawv n idx ps nv res =
     Inr (take idx nv @ replicate (length ps) None,
          res @ join_with [DefaultCopyDelimiter]
            (map2 out_field (drop idx nv)
              (map (\<lambda>p. take (cp_end p - cp_start p) (drop (cp_start p) rawv)) ps)))"
proof (induction ps arbitrary: idx nv res)
  case Nil
  then show ?case by simp
next
  case (Cons p ps)
  define nv1 where "nv1 = nv[idx := None]"
  define out where "out = out_field (nv ! idx) (take (cp_end p - cp_start p) (drop (cp_start p) rawv))"
  define res1 where "res1 = res @ out @ (if ps = [] then [] else [DefaultCopyDelimiter])"
  have idx: "idx < length nv" using Cons.prems by simp
  then have upd: "(case nv ! idx of Some av \<Rightarrow> nv[idx := None] | None \<Rightarrow> nv) = nv1"
    by (metis (no_types, lifting) list_update_id nv1_def option.case_eq_if option.exhaust_sel)
  have last: "idx \<noteq> n - 1 \<longleftrightarrow> ps \<noteq> []" using Cons.prems by auto
  have "Row_encode_loop rawv n idx (p # ps) nv res = Row_encode_loop rawv n (idx + 1) ps nv1 res1"
    using idx upd Cons.prems(1) last
    by (cases "nv ! idx") (auto simp: slice_def out_def out_field_def res1_def)
  also have "\<dots> = Inr (take (idx + 1) nv1 @ replicate (length ps) None,
      res1 @ join_with [DefaultCopyDelimiter] (map2 out_field (drop (idx + 1) nv1)
        (map (\<lambda>p. take (cp_end p - cp_start p) (drop (cp_start p) rawv)) ps)))"
    using Cons.prems by (intro Cons.IH) (auto simp: nv1_def)
  also have "take (idx + 1) nv1 = take idx nv @ [None]"
    using idx by (simp add: nv1_def take_Suc_conv_app_nth)
  also have "drop (idx + 1) nv1 = drop (idx + 1) nv"
    by (simp add: nv1_def)
  finally show ?case
    using idx Cons.prems(2)
    by (cases "ps = []")
       (auto simp: Cons_nth_drop_Suc [symmetric, of idx nv] join_with_Cons res1_def out_def
          replicate_app_Cons_same)
qed

lemma Row_Encode_spec:
  assumes "Row_wf r" and "row_bounded r" and "0 < tupleSize r"
  shows "Row_Encode r =
    Inr (r\<lparr>newValues := replicate (tupleSize r) None\<rparr>,
         join_with [DefaultCopyDelimiter] (map2 out_field (newValues r) (row_fields r)))"
proof -
  have "newValues r \<noteq> []" using assms by (auto simp: Row_wf_def)
  moreover have "Row_encode_loop (raw r) (length (columnPos r)) 0 (columnPos r) (newValues r) [] =
      Inr (replicate (length (columnPos r)) None,
           join_with [DefaultCopyDelimiter] (map2 out_field (newValues r) (row_fields r)))"
    using assms by (subst Row_encode_loop_spec) (auto simp: row_bounded_def Row_wf_def row_fields_def)
  ultimately show ?thesis
    using assms by (simp add: Row_Encode_def Row_wf_def)
qed

section \<open>The row as a row driver\<close>

definition row_has :: "Row \<Rightarrow> int \<Rightarrow> bool" where
  "row_has r i \<longleftrightarrow> 0 \<le> i \<and> i < int (length (columnPos r))"

lemma Row_SetColumn_iff:
  "Row_wf r \<Longrightarrow> Row_SetColumn r i v = Inr r' \<longleftrightarrow>
     row_has r i \<and> r' = r\<lparr>newValues := (newValues r)[nat i := Some v]\<rparr>"
  by (auto simp: Row_SetColumn_def Row_wf_def row_has_def)

interpretation row: row_driver Row_GetColumn Row_SetColumn row_has "\<lambda>_. True" Row_wf
proof
  fix r :: Row and i v
  show "Row_wf r \<Longrightarrow> row_has r i \<Longrightarrow> \<exists>r'. Row_SetColumn r i v = Inr r'"
    by (simp add: Row_SetColumn_iff)
next
  fix r r' :: Row and i v
  show "Row_wf r \<Longrightarrow> Row_SetColumn r i v = Inr r' \<Longrightarrow> Row_wf r'"
    by (rule Row_SetColumn_wf)
next
  fix r r' :: Row and i j v
  show "Row_wf r \<Longrightarrow> Row_SetColumn r i v = Inr r' \<Longrightarrow> row_has r' j = row_has r j"
    by (auto simp: Row_SetColumn_iff row_has_def)
next
  fix r r' :: Row and i v
  assume "Row_wf r" "row_has r i" "Row_SetColumn r i v = Inr r'"
  then show "Row_GetColumn r' i = Inr v"
    by (auto simp: Row_SetColumn_iff Row_GetColumn_def row_has_def Row_wf_def)
next
  fix r r' :: Row and i j v
  assume "Row_wf r" "Row_SetColumn r i v = Inr r'" "j \<noteq> i"
  then show "Row_GetColumn r' j = Row_GetColumn r j"
    by (auto simp: Row_SetColumn_iff Row_GetColumn_def row_has_def Let_def split: option.split)
qed

section \<open>From line to line\<close>

definition fresh_values :: "Row \<Rightarrow> bool" where
  "fresh_values r \<longleftrightarrow> list_all (\<lambda>v. v = None) (newValues r)"

lemma fresh_values_replicate: "fresh_values r \<Longrightarrow> newValues r = replicate (length (newValues r)) None"
  by (simp add: fresh_values_def list_all_iff replicate_eqI)

lemma map2_out_None: "length fs = n \<Longrightarrow> map2 out_field (replicate n None) fs = fs"
  by (induction fs arbitrary: n) (auto simp: out_field_def)

lemma map2_out_update:
  "length fs = n \<Longrightarrow> i < n \<Longrightarrow>
   map2 out_field ((replicate n None)[i := Some v]) fs = fs[i := EncodeAttr v []]"
  by (rule nth_equalityI) (auto simp: nth_list_update out_field_def)

lemma Row_decoded:
  assumes "Row_wf r" and "row_accepts r line" and "fresh_values r"
  obtains r' where "Row_Decode r line = (r', None)" and "Row_wf r'" and "row_bounded r'"
    and "row_fields r' = split_on DefaultCopyDelimiter line" and "raw r' = line"
    and "newValues r' = replicate (length (split_on DefaultCopyDelimiter line)) None"
    and "tupleSize r' = length (split_on DefaultCopyDelimiter line)" and "0 < tupleSize r'"
proof -
  obtain r' where r': "Row_Decode r line = (r', None)" "Row_wf r'" "row_bounded r'"
    "row_fields r' = split_on DefaultCopyDelimiter line" "raw r' = line"
    "set (newValues r') \<subseteq> set (newValues r) \<union> {None}"
    using Row_Decode_accepts [OF assms(1,2)] by metis
  have n: "tupleSize r' = length (split_on DefaultCopyDelimiter line)"
    using r'(2) r'(4) [symmetric] by (simp add: Row_wf_def)
  have "fresh_values r'"
    using assms(3) r'(6) by (auto simp: fresh_values_def list_all_iff)
  with n r'(2) have "newValues r' = replicate (length (split_on DefaultCopyDelimiter line)) None"
    using fresh_values_replicate [of r'] by (simp add: Row_wf_def)
  with r' n show ?thesis using that by simp
qed

text \<open>A line that is decoded and encoded with nothing set is unchanged.\<close>

lemma Row_passthrough:
  assumes "Row_wf r" and "row_accepts r line" and "fresh_values r"
  shows "\<exists>r1 r2. Row_Decode r line = (r1, None) \<and> Row_Encode r1 = Inr (r2, line)"
proof -
  obtain r1 where r1: "Row_Decode r line = (r1, None)" "Row_wf r1" "row_bounded r1"
    "row_fields r1 = split_on DefaultCopyDelimiter line"
    "newValues r1 = replicate (length (split_on DefaultCopyDelimiter line)) None" "0 < tupleSize r1"
    using Row_decoded [OF assms] by metis
  then have "Row_Encode r1 = Inr (r1\<lparr>newValues := replicate (tupleSize r1) None\<rparr>, line)"
    using Row_Encode_spec [OF r1(2,3,6)] by (simp add: map2_out_None join_split)
  with r1(1) show ?thesis by blast
qed

text \<open>Setting one column replaces one field of the line.\<close>

lemma Row_set_encode:
  assumes "Row_wf r" and "row_accepts r line" and "fresh_values r"
    and "i < length (split_on DefaultCopyDelimiter line)"
  obtains r1 r2 r3 where "Row_Decode r line = (r1, None)" and "Row_SetColumn r1 (int i) v = Inr r2"
    and "Row_Encode r2 =
      Inr (r3, join_with [DefaultCopyDelimiter] ((split_on DefaultCopyDelimiter line)[i := EncodeAttr v []]))"
    and "Row_wf r3" and "fresh_values r3" and "tupleSize r3 = length (split_on DefaultCopyDelimiter line)"
    and "row_fields r1 = split_on DefaultCopyDelimiter line" and "row_bounded r1" and "Row_wf r1"
proof -
  define fs where "fs = split_on DefaultCopyDelimiter line"
  obtain r1 where r1: "Row_Decode r line = (r1, None)" "Row_wf r1" "row_bounded r1" "row_fields r1 = fs"
    "newValues r1 = replicate (length fs) None" "tupleSize r1 = length fs" "0 < tupleSize r1"
    using Row_decoded [OF assms(1-3)] unfolding fs_def by metis
  define r2 where "r2 = r1\<lparr>newValues := (newValues r1)[i := Some v]\<rparr>"
  have set: "Row_SetColumn r1 (int i) v = Inr r2"
    using assms(4) r1 by (simp add: Row_SetColumn_iff row_has_def Row_wf_def r2_def fs_def)
  have "Row_wf r2" "row_bounded r2" "row_fields r2 = fs" "0 < tupleSize r2"
    using r1 by (auto simp: r2_def Row_wf_def row_bounded_def row_fields_def)
  then have enc: "Row_Encode r2 = Inr (r2\<lparr>newValues := replicate (length fs) None\<rparr>,
      join_with [DefaultCopyDelimiter] (fs[i := EncodeAttr v []]))"
    using Row_Encode_spec [of r2] r1(5,6) assms(4)
    by (simp add: r2_def map2_out_update fs_def)
  show ?thesis
    using r1(2,6)
    by (intro that [OF r1(1) set enc [unfolded fs_def]])
       (auto simp: r2_def Row_wf_def fresh_values_def list_all_iff fs_def r1(2-4))
qed

lemma Row_GetColumnRaw_field:
  "Row_wf r \<Longrightarrow> row_bounded r \<Longrightarrow> 0 \<le> j \<Longrightarrow> j < int (length (columnPos r)) \<Longrightarrow>
   Row_GetColumnRaw r j = Inr (row_fields r ! nat j)"
  by (auto simp: Row_GetColumnRaw_def row_bounded_def row_fields_def slice_def list_all_length nat_less_iff
      Let_def)

lemma Row_GetColumn_field:
  "Row_wf r \<Longrightarrow> row_bounded r \<Longrightarrow> i < length (columnPos r) \<Longrightarrow> newValues r ! i = None \<Longrightarrow>
   Row_GetColumn r (int i) = DecodeAttr (row_fields r ! i) []"
  by (auto simp: Row_GetColumn_def Row_wf_def row_bounded_def row_fields_def slice_def list_all_length Let_def)

lemma encoded_fields_split:
  assumes "i < length (split_on DefaultCopyDelimiter line)"
  shows "split_on DefaultCopyDelimiter
      (join_with [DefaultCopyDelimiter] ((split_on DefaultCopyDelimiter line)[i := EncodeAttr v []])) =
    (split_on DefaultCopyDelimiter line)[i := EncodeAttr v []]"
proof (rule split_join)
  show "(split_on DefaultCopyDelimiter line)[i := EncodeAttr v []] \<noteq> []" by simp
  show "\<forall>f \<in> set ((split_on DefaultCopyDelimiter line)[i := EncodeAttr v []]). DefaultCopyDelimiter \<notin> set f"
  proof
    fix f
    assume "f \<in> set ((split_on DefaultCopyDelimiter line)[i := EncodeAttr v []])"
    then have "f = EncodeAttr v [] \<or> f \<in> set (split_on DefaultCopyDelimiter line)"
      using set_update_subset_insert by fastforce
    then show "DefaultCopyDelimiter \<notin> set f"
      using EncodeAttr_framing [of v] split_on_no_delim [of f DefaultCopyDelimiter line] by auto
  qed
qed

definition copy_storable :: "RawValue \<Rightarrow> bool" where
  "copy_storable v \<longleftrightarrow> IsNull v \<and> Data v = [] \<or> \<not> IsNull v \<and> copy_safe (Data v)"

lemma copy_storable_stored: "copy_storable v \<Longrightarrow> stored_value v = v"
  by (cases v) (auto simp: copy_storable_def stored_value_def read_back_safe)

text \<open>
  Claim C1. A COPY line is decoded, one column is set to any value, the row is encoded, and the result is decoded
  again by the same row: every other column has the bytes it had, and the column that was set has the value as COPY
  text keeps it (\<open>stored_value\<close>): the null, or the bytes set, except that the byte after an inner null marker or
  end-of-data marker is lost and a control character without a letter escape comes back twice. A null without data,
  and bytes in which neither occurs (\<open>copy_storable\<close>), come back as they were set.
\<close>

theorem row_set_roundtrip:
  assumes "Row_wf r" and "row_accepts r line" and "fresh_values r"
    and "i < length (split_on DefaultCopyDelimiter line)"
  shows "\<exists>r1 r2 r3 out r4.
    Row_Decode r line = (r1, None) \<and> Row_SetColumn r1 (int i) v = Inr r2 \<and>
    Row_Encode r2 = Inr (r3, out) \<and> Row_Decode r3 out = (r4, None) \<and>
    Row_GetColumn r4 (int i) = Inr (stored_value v) \<and> (copy_storable v \<longrightarrow> stored_value v = v) \<and>
    (\<forall>j < length (columnPos r1). j \<noteq> i \<longrightarrow> Row_GetColumnRaw r4 (int j) = Row_GetColumnRaw r1 (int j))"
proof -
  let ?fs = "split_on DefaultCopyDelimiter line"
  let ?out = "join_with [DefaultCopyDelimiter] (?fs[i := EncodeAttr v []])"
  obtain r1 r2 r3 where e: "Row_Decode r line = (r1, None)" "Row_SetColumn r1 (int i) v = Inr r2"
    "Row_Encode r2 = Inr (r3, ?out)" "Row_wf r3" "fresh_values r3" "tupleSize r3 = length ?fs"
    "row_fields r1 = ?fs" "row_bounded r1" "Row_wf r1"
    by (rule Row_set_encode [OF assms(1-4)])
  have split: "split_on DefaultCopyDelimiter ?out = ?fs[i := EncodeAttr v []]"
    using assms(4) by (rule encoded_fields_split)
  have acc: "row_accepts r3 ?out" by (simp add: row_accepts_def split e(6))
  obtain r4 where r4: "Row_Decode r3 ?out = (r4, None)" "Row_wf r4" "row_bounded r4"
    "row_fields r4 = split_on DefaultCopyDelimiter ?out" "raw r4 = ?out"
    "newValues r4 = replicate (length (split_on DefaultCopyDelimiter ?out)) None"
    "tupleSize r4 = length (split_on DefaultCopyDelimiter ?out)" "0 < tupleSize r4"
    by (rule Row_decoded [OF e(4) acc e(5)])
  note r4 = r4 [unfolded split]
  have n: "length (columnPos r1) = length ?fs" "length (columnPos r4) = length ?fs"
    using arg_cong [OF e(7), of length] arg_cong [OF r4(4), of length] by simp_all
  have "Row_GetColumn r4 (int i) = Inr (stored_value v)"
    using assms(4) r4 n by (simp add: Row_GetColumn_field decode_encode)
  moreover have "Row_wf r1" by (rule e(9))
  then have "\<forall>j < length (columnPos r1). j \<noteq> i \<longrightarrow> Row_GetColumnRaw r4 (int j) = Row_GetColumnRaw r1 (int j)"
    using r4 e n by (simp add: Row_GetColumnRaw_field)
  ultimately show ?thesis using e r4(1) copy_storable_stored [of v] by blast
qed

text \<open>A backslash before an \<^verbatim>\<open>N\<close> in the middle of a value: the byte after the two is lost.\<close>

theorem row_set_roundtrip_witness:
  "\<exists>r r1 r2 r3 out r4 s2 s3 out' s4. NewRow 2 = Inr r \<and>
    Row_Decode r [0x31, 0x09, 0x61] = (r1, None) \<and>
    Row_SetColumn r1 (int 1) \<lparr>Data = [0x09, 0x5C], IsNull = False\<rparr> = Inr r2 \<and>
    Row_Encode r2 = Inr (r3, out) \<and> Row_Decode r3 out = (r4, None) \<and>
    Row_GetColumn r4 (int 1) = Inr \<lparr>Data = [0x09, 0x5C], IsNull = False\<rparr> \<and>
    Row_SetColumn r1 (int 1) \<lparr>Data = [0x5C, 0x4E, 0x61, 0x62], IsNull = False\<rparr> = Inr s2 \<and>
    Row_Encode s2 = Inr (s3, out') \<and> Row_Decode s3 out' = (s4, None) \<and>
    Row_GetColumn s4 (int 1) = Inr \<lparr>Data = [0x5C, 0x4E, 0x62], IsNull = False\<rparr>"
proof -
  obtain r where new: "NewRow 2 = Inr r" by (simp add: NewRow_def UseDynamicSize_def Let_def)
  then have r: "NewRow 2 = Inr r" "Row_wf r" "fresh_values r" "tupleSize r = 2"
    using NewRow_wf [OF new]
    by (auto simp: NewRow_def UseDynamicSize_def Let_def fresh_values_def list_all_iff)
  have acc: "row_accepts r [0x31, 0x09, 0x61]"
    using r(4) by (simp add: row_accepts_def copy_consts)
  have n: "1 < length (split_on DefaultCopyDelimiter [0x31, 0x09, 0x61])"
    by (simp add: copy_consts)
  have v: "stored_value \<lparr>Data = [0x09, 0x5C], IsNull = False\<rparr> = \<lparr>Data = [0x09, 0x5C], IsNull = False\<rparr>"
    "stored_value \<lparr>Data = [0x5C, 0x4E, 0x61, 0x62], IsNull = False\<rparr> = \<lparr>Data = [0x5C, 0x4E, 0x62], IsNull = False\<rparr>"
    by (simp_all add: stored_value_def)
  note t = row_set_roundtrip [OF r(2) acc r(3) n]
  from t [of "\<lparr>Data = [0x09, 0x5C], IsNull = False\<rparr>"] t [of "\<lparr>Data = [0x5C, 0x4E, 0x61, 0x62], IsNull = False\<rparr>"]
  show ?thesis unfolding v using r(1) by fastforce
qed

end
