(* ===== verification/Strconv.thy ===== *)
theory Strconv
  imports Prelude
begin

text \<open>
  The decimal conversions of Go's \<^verbatim>\<open>strconv\<close> the sources use: \<^verbatim>\<open>FormatUint\<close>, \<^verbatim>\<open>FormatInt\<close> and the
  32-bit \<^verbatim>\<open>ParseUint\<close> and \<^verbatim>\<open>ParseInt\<close> in base 10, on strings as byte lists. A parse error is one
  outcome, whether it is a syntax or a range error.
\<close>

definition digit_char :: "nat \<Rightarrow> byte" where
  "digit_char d = word_of_nat (0x30 + d)"

fun format_nat :: "nat \<Rightarrow> byte list" where
  "format_nat n = (if n < 10 then [digit_char n]
                   else format_nat (n div 10) @ [digit_char (n mod 10)])"

declare format_nat.simps [simp del]

definition FormatUint :: "'w::len word \<Rightarrow> byte list" where
  "FormatUint w = format_nat (unat w)"

definition format_int :: "int \<Rightarrow> byte list" where
  "format_int i = (if i < 0 then 0x2D # format_nat (nat (- i)) else format_nat (nat i))"

definition FormatInt :: "'w::len word \<Rightarrow> byte list" where
  "FormatInt w = format_int (sint w)"

text \<open>The digits of a non-empty string of decimal digits, most significant first.\<close>

fun parse_nat_acc :: "nat \<Rightarrow> byte list \<Rightarrow> nat option" where
  "parse_nat_acc acc [] = Some acc"
| "parse_nat_acc acc (c # cs) =
     (if 0x30 \<le> c \<and> c \<le> 0x39 then parse_nat_acc (acc * 10 + (unat c - 0x30)) cs else None)"

definition parse_nat :: "byte list \<Rightarrow> nat option" where
  "parse_nat cs = (if cs = [] then None else parse_nat_acc 0 cs)"

definition ParseUint32 :: "byte list \<Rightarrow> 32 word res" where
  "ParseUint32 cs =
     (case parse_nat cs of
        None \<Rightarrow> err ''ParseUint''
      | Some n \<Rightarrow> if n < 2 ^ 32 then Inr (word_of_nat n) else err ''ParseUint'')"

definition ParseInt32 :: "byte list \<Rightarrow> int32 res" where
  "ParseInt32 cs =
     (let neg = (cs \<noteq> [] \<and> hd cs = 0x2D);
          digits = (if cs \<noteq> [] \<and> (hd cs = 0x2D \<or> hd cs = 0x2B) then tl cs else cs)
      in case parse_nat digits of
           None \<Rightarrow> err ''ParseInt''
         | Some n \<Rightarrow>
             if neg then (if n \<le> 2 ^ 31 then Inr (word_of_int (- int n)) else err ''ParseInt'')
             else (if n < 2 ^ 31 then Inr (word_of_nat n) else err ''ParseInt''))"

section \<open>Parsing what was formatted\<close>

lemma format_nat_ne [simp]: "format_nat n \<noteq> []"
  by (subst format_nat.simps) simp

lemma parse_nat_acc_append:
  "parse_nat_acc acc (xs @ ys) =
     (case parse_nat_acc acc xs of None \<Rightarrow> None | Some a \<Rightarrow> parse_nat_acc a ys)"
  by (induction acc xs rule: parse_nat_acc.induct) auto

lemma digit_byte:
  assumes "d < 10"
  shows "unat (digit_char d :: byte) = 0x30 + d"
    "(0x30::byte) \<le> digit_char d" "digit_char d \<le> (0x39::byte)"
proof -
  show u: "unat (digit_char d :: byte) = 0x30 + d"
    using assms by (simp add: digit_char_def unsigned_of_nat take_bit_nat_eq_self del: of_nat_add)
  show "(0x30::byte) \<le> digit_char d" "digit_char d \<le> (0x39::byte)"
    using assms by (auto simp: word_le_nat_alt u)
qed

lemma parse_digit: "d < 10 \<Longrightarrow> parse_nat_acc acc [digit_char d] = Some (acc * 10 + d)"
  using digit_byte [of d] by simp

lemma parse_format_acc: "parse_nat_acc 0 (format_nat n) = Some n"
proof (induction n rule: format_nat.induct)
  case (1 n)
  show ?case
  proof (cases "n < 10")
    case True
    then show ?thesis
      using parse_digit [of n 0] by (subst format_nat.simps) simp
  next
    case False
    have "parse_nat_acc (n div 10) [digit_char (n mod 10)] = Some (n div 10 * 10 + n mod 10)"
      by (rule parse_digit) simp
    with 1 False show ?thesis
      by (subst format_nat.simps) (simp add: parse_nat_acc_append del: parse_nat_acc.simps)
  qed
qed

lemma parse_format_nat [simp]: "parse_nat (format_nat n) = Some n"
  by (simp add: parse_nat_def parse_format_acc)

lemma format_nat_digits: "c \<in> set (format_nat n) \<Longrightarrow> 0x30 \<le> c \<and> c \<le> 0x39"
proof (induction n rule: format_nat.induct)
  case (1 n)
  show ?case
  proof (cases "n < 10")
    case True
    with 1 show ?thesis using digit_byte [of n] by (subst (asm) (2) format_nat.simps) auto
  next
    case False
    with 1 show ?thesis using digit_byte [of "n mod 10"]
      by (subst (asm) (2) format_nat.simps) auto
  qed
qed

lemma ParseUint32_FormatUint [simp]: "ParseUint32 (FormatUint (w :: 32 word)) = Inr w"
proof -
  have "unat w < 2 ^ 32" using unsigned_less [of w] by simp
  then show ?thesis by (simp add: ParseUint32_def FormatUint_def)
qed

lemma hd_format_nat: "hd (format_nat n) \<noteq> 0x2D \<and> hd (format_nat n) \<noteq> 0x2B"
proof -
  have "0x30 \<le> hd (format_nat n)" using format_nat_digits hd_in_set [OF format_nat_ne] by blast
  then show ?thesis by auto
qed

lemma ParseInt32_FormatInt [simp]: "ParseInt32 (FormatInt (w :: int32)) = Inr w"
proof (cases "sint w < 0")
  case True
  have "- (2 ^ 31) \<le> sint w" using sint_greater_eq [of w] by simp
  then have "nat (- sint w) \<le> 2 ^ 31" by (simp add: nat_le_iff)
  with True show ?thesis
    by (simp add: ParseInt32_def FormatInt_def format_int_def)
next
  case False
  have "sint w < 2 ^ 31" using sint_lt [of w] by simp
  with False have "nat (sint w) < 2 ^ 31" by (simp add: nat_less_iff)
  with False hd_format_nat [of "nat (sint w)"] show ?thesis
    by (simp add: ParseInt32_def FormatInt_def format_int_def)
qed

text \<open>
  Formatted numbers are told apart: used where the sources build object names and identifiers from
  numbers.
\<close>

lemma format_nat_inj: "format_nat m = format_nat n \<Longrightarrow> m = n"
  by (metis parse_format_nat option.inject)

lemma length_format_nat: "n < 10 ^ Suc k \<Longrightarrow> length (format_nat n) \<le> Suc k"
proof (induction k arbitrary: n)
  case 0
  then show ?case by (subst format_nat.simps) simp
next
  case (Suc k)
  show ?case
  proof (cases "n < 10")
    case True
    then show ?thesis by (subst format_nat.simps) simp
  next
    case False
    have "n div 10 < 10 ^ Suc k" using Suc.prems by (simp add: less_mult_imp_div_less mult.commute)
    from Suc.IH [OF this] False show ?thesis by (subst format_nat.simps) simp
  qed
qed

lemma length_FormatUint [length_simps]: "length (FormatUint (w :: 32 word)) \<le> 10"
proof -
  have "unat w < 2 ^ 32" using unsigned_less [where 'a = nat and w = w] by simp
  then have "unat w < 10 ^ Suc 9" by simp
  then show ?thesis using length_format_nat [of "unat w" 9] by (simp add: FormatUint_def)
qed

lemma length_FormatInt [length_simps]: "length (FormatInt (w :: 32 word)) \<le> 11"
proof -
  have "\<bar>sint w\<bar> \<le> 2 ^ 31" using sint_lt [of w] sint_greater_eq [of w] by auto
  then have "nat (- sint w) < 10 ^ Suc 9" "nat (sint w) < 10 ^ Suc 9" by auto
  from this [THEN length_format_nat] show ?thesis by (simp add: FormatInt_def format_int_def)
qed

end
