(* ===== verification/TocTypes.thy ===== *)
theory TocTypes
  imports Strconv
begin

text \<open>
  The data of PostgreSQL's custom archive table of contents, \<^verbatim>\<open>internal/db/postgres/toc\<close>:
  \<open>Header\<close>, \<open>Entry\<close>, \<open>Toc\<close> and the archive versions. A Go pointer to a string is an option of its bytes;
  \<^verbatim>\<open>int32\<close> fields are 32-bit words read with \<open>sint\<close>; the header and entry slice, which may be nil, are
  options.
\<close>

unbundle bit_operations_syntax

type_synonym gostr = "byte list option"
type_synonym Oid = "32 word"

record CompressionSpecification =
  Algorithm :: int32
  Options :: "32 word"
  Level :: int32
  Workers :: int32

record Crtm =
  TmSec :: int32
  TmMin :: int32
  TmHour :: int32
  TmMday :: int32
  TmMon :: int32
  TmYear :: int32
  TmIsDst :: int32

record Header =
  VersionMajor :: byte
  VersionMinor :: byte
  VersionRev :: byte
  Version :: int
  IntSize :: "32 word"
  OffSize :: "32 word"
  Format :: byte
  CompressionSpec :: CompressionSpecification
  CrtmDateTime :: Crtm
  ArchDbName :: gostr
  ArchiveRemoteVersion :: gostr
  ArchiveDumpVersion :: gostr
  TocCount :: int32
  MaxDumpId :: int32

record CatalogId =
  TableOid :: Oid
  CatOid :: Oid

record Entry =
  EntryCatalogId :: CatalogId
  DumpId :: int32
  Section :: int32
  HadDumper :: int32
  Tag :: gostr
  Namespace :: gostr
  Tablespace :: gostr
  Tableam :: gostr
  Owner :: gostr
  Desc :: gostr
  Defn :: gostr
  DropStmt :: gostr
  CopyStmt :: gostr
  Dependencies :: "int32 list"
  NDeps :: int32
  FileName :: gostr
  Relkind :: byte
  DataDumper :: int32
  DataLength :: "32 word"

record Toc =
  TocHeader :: "Header option"
  Entries :: "Entry list option"

definition SectionNone :: int32 where "SectionNone = 1"
definition SectionPreData :: int32 where "SectionPreData = 2"
definition SectionData :: int32 where "SectionData = 3"
definition SectionPostData :: int32 where "SectionPostData = 4"

definition ArchTar :: byte where "ArchTar = 3"
definition PgCompressionGzip :: int32 where "PgCompressionGzip = 1"

definition MakeArchiveVersion :: "byte \<Rightarrow> byte \<Rightarrow> byte \<Rightarrow> int" where
  "MakeArchiveVersion major minor r = (uint major * 256 + uint minor) * 256 + uint r"

definition MaxVersion :: string where
  "MaxVersion = ''1.16''"

text \<open>The map of known versions; a missing key of a Go map of integers reads as 0.\<close>

definition version_table :: "(string \<times> int) list" where
  "version_table =
     [(''1.0'', MakeArchiveVersion 1 0 0), (''1.2'', MakeArchiveVersion 1 2 0),
      (''1.3'', MakeArchiveVersion 1 3 0), (''1.4'', MakeArchiveVersion 1 4 0),
      (''1.5'', MakeArchiveVersion 1 5 0), (''1.6'', MakeArchiveVersion 1 6 0),
      (''1.7'', MakeArchiveVersion 1 7 0), (''1.8'', MakeArchiveVersion 1 8 0),
      (''1.9'', MakeArchiveVersion 1 9 0), (''1.10'', MakeArchiveVersion 1 10 0),
      (''1.11'', MakeArchiveVersion 1 11 0), (''1.12'', MakeArchiveVersion 1 12 0),
      (''1.13'', MakeArchiveVersion 1 13 0), (''1.14'', MakeArchiveVersion 1 14 0),
      (''1.15'', MakeArchiveVersion 1 15 0), (''1.16'', MakeArchiveVersion 1 16 0)]"

definition BackupVersions :: "string \<Rightarrow> int" where
  "BackupVersions k = (case map_of version_table k of None \<Rightarrow> 0 | Some v \<Rightarrow> v)"

lemma BackupVersions_simps [simp]:
  "BackupVersions ''1.0'' = 65536" "BackupVersions ''1.2'' = 66048" "BackupVersions ''1.3'' = 66304"
  "BackupVersions ''1.4'' = 66560" "BackupVersions ''1.5'' = 66816" "BackupVersions ''1.6'' = 67072"
  "BackupVersions ''1.7'' = 67328" "BackupVersions ''1.8'' = 67584" "BackupVersions ''1.9'' = 67840"
  "BackupVersions ''1.10'' = 68096" "BackupVersions ''1.11'' = 68352" "BackupVersions ''1.14'' = 69120"
  "BackupVersions ''1.15'' = 69376" "BackupVersions ''1.16'' = 69632"
  by (simp_all add: BackupVersions_def version_table_def MakeArchiveVersion_def)

text \<open>
  The dump id sequence of \<^verbatim>\<open>common.go\<close>: \<^verbatim>\<open>Next\<close> increments and returns the new value; the addition
  wraps at 32 bits.
\<close>

definition NewDumpSequence :: "int32 \<Rightarrow> int32" where
  "NewDumpSequence initVal = initVal"

definition DumpIdSequence_Next :: "int32 \<Rightarrow> int32 \<times> int32" where
  "DumpIdSequence_Next current = (current + 1, current + 1)"

section \<open>Bytes of an integer\<close>

text \<open>The byte loop of \<^verbatim>\<open>writeInt\<close>: \<^verbatim>\<open>n\<close> times the low byte, then an arithmetic shift by 8.\<close>

fun write_int_bytes :: "nat \<Rightarrow> int32 \<Rightarrow> byte list" where
  "write_int_bytes 0 i = []"
| "write_int_bytes (Suc n) i = ((ucast i :: byte) AND 0xFF) # write_int_bytes n (signed_drop_bit 8 i)"

text \<open>The byte loop of \<^verbatim>\<open>readInt\<close>: \<open>res\<close> and the shift grow with every byte.\<close>

fun read_int_bytes :: "int32 \<Rightarrow> nat \<Rightarrow> byte list \<Rightarrow> int32" where
  "read_int_bytes res bitShift [] = res"
| "read_int_bytes res bitShift (b # bs) =
     (let bv = b AND 0xFF
      in read_int_bytes (if bv \<noteq> 0 then res + push_bit bitShift (ucast bv) else res) (bitShift + 8) bs)"

lemma length_write_int_bytes [simp]: "length (write_int_bytes n i) = n"
  by (induction n i rule: write_int_bytes.induct) auto

lemma low_byte_ucast: "(ucast (((ucast i :: byte) AND 0xFF) AND 0xFF) :: int32) = i AND 0xFF"
proof -
  have e: "(0xFF :: byte) = mask 8" "(0xFF :: int32) = mask 8" by (simp_all add: mask_eq_exp_minus_1)
  show ?thesis
    unfolding e by (rule bit_word_eqI) (auto simp: bit_simps)
qed

lemma read_int_bytes_Cons:
  "read_int_bytes res sh (b # bs) = read_int_bytes (res + push_bit sh (ucast (b AND 0xFF))) (sh + 8) bs"
  by (simp add: Let_def)

lemma four_bytes:
  fixes i :: int32
  shows "(i AND 0xFF) + push_bit 8 (signed_drop_bit 8 i AND 0xFF) +
    push_bit 16 (signed_drop_bit 16 i AND 0xFF) + push_bit 24 (signed_drop_bit 24 i AND 0xFF) = i"
proof -
  have e: "(0xFF :: int32) = mask 8" by (simp add: mask_eq_exp_minus_1)
  have "(i AND 0xFF) + push_bit 8 (signed_drop_bit 8 i AND 0xFF) = take_bit 16 i"
    unfolding e by (subst disjunctive_add) (auto simp: bit_simps intro!: bit_word_eqI)
  moreover have "take_bit 16 i + push_bit 16 (signed_drop_bit 16 i AND 0xFF) = take_bit 24 i"
    unfolding e by (subst disjunctive_add) (auto simp: bit_simps intro!: bit_word_eqI)
  moreover have "take_bit 24 i + push_bit 24 (signed_drop_bit 24 i AND 0xFF) = i"
    unfolding e by (subst disjunctive_add) (auto simp: bit_simps intro!: bit_word_eqI)
  ultimately show ?thesis by simp
qed

lemma signed_shifts:
  fixes i :: int32
  shows "signed_drop_bit 8 (signed_drop_bit 8 i) = signed_drop_bit 16 i"
    "signed_drop_bit 8 (signed_drop_bit 16 i) = signed_drop_bit 24 i"
  by (rule bit_word_eqI, auto simp: bit_simps)+

lemma read_write_int_bytes: "read_int_bytes 0 0 (write_int_bytes 4 i) = i"
proof -
  have "write_int_bytes 4 i =
      [(ucast i :: byte) AND 0xFF, (ucast (signed_drop_bit 8 i) :: byte) AND 0xFF,
       (ucast (signed_drop_bit 16 i) :: byte) AND 0xFF, (ucast (signed_drop_bit 24 i) :: byte) AND 0xFF]"
    by (simp add: numeral_eq_Suc signed_shifts [simplified numeral_eq_Suc])
  then have "read_int_bytes 0 0 (write_int_bytes 4 i) =
      0 + push_bit 0 (i AND 0xFF) + push_bit (0 + 8) (signed_drop_bit 8 i AND 0xFF) +
      push_bit (0 + 8 + 8) (signed_drop_bit 16 i AND 0xFF) +
      push_bit (0 + 8 + 8 + 8) (signed_drop_bit 24 i AND 0xFF)"
    by (simp only: read_int_bytes_Cons read_int_bytes.simps(1) low_byte_ucast)
  then show ?thesis using four_bytes [of i] by simp
qed

end
