(* ===== verification/TocReader.thy ===== *)
theory TocReader
  imports TocTypes
begin

text \<open>
  \<^verbatim>\<open>internal/db/postgres/toc/reader.go\<close>: parsing of \<^verbatim>\<open>toc.dat\<close>. A \<open>Reader\<close> holds the unread bytes of
  its \<^verbatim>\<open>io.Reader\<close>, the integer size and version found in the header, the position, and the largest dump
  id seen. An operation is a state transformer that returns a value or a fault; \<open>rd_bind\<close> is Go's
  sequence of calls with \<^verbatim>\<open>if err != nil { return }\<close> between them.
\<close>

record Reader =
  rd_buf :: "byte list"
  rd_intSize :: "32 word"
  rd_version :: int
  rd_position :: nat
  rd_maxDumpId :: int32

type_synonym 'a rd = "Reader \<Rightarrow> ('a \<times> Reader) res"

definition rd_ret :: "'a \<Rightarrow> 'a rd" where
  "rd_ret x = (\<lambda>r. Inr (x, r))"

definition rd_bind :: "'a rd \<Rightarrow> ('a \<Rightarrow> 'b rd) \<Rightarrow> 'b rd" where
  "rd_bind m k = (\<lambda>r. bindR (m r) (\<lambda>(x, r'). k x r'))"

definition rd_fault :: "fault \<Rightarrow> 'a rd" where
  "rd_fault e = (\<lambda>r. Inl e)"

definition rd_get :: "Reader rd" where
  "rd_get = (\<lambda>r. Inr (r, r))"

definition rd_modify :: "(Reader \<Rightarrow> Reader) \<Rightarrow> unit rd" where
  "rd_modify f = (\<lambda>r. Inr ((), f r))"

definition rd_when :: "bool \<Rightarrow> 'a \<Rightarrow> 'a rd \<Rightarrow> 'a rd" where
  "rd_when c d m = (if c then m else rd_ret d)"

definition rd_check :: "bool \<Rightarrow> string \<Rightarrow> unit rd" where
  "rd_check c msg = (if c then rd_ret () else rd_fault (Err msg))"

definition NewReader :: "byte list \<Rightarrow> Reader" where
  "NewReader bs = \<lparr>rd_buf = bs, rd_intSize = 0, rd_version = 0, rd_position = 0, rd_maxDumpId = 0\<rparr>"

definition Reader_prune :: "Reader \<Rightarrow> Reader" where
  "Reader_prune r = r\<lparr>rd_intSize := 0, rd_version := 0, rd_position := 0, rd_maxDumpId := 0\<rparr>"

section \<open>Primitive reads\<close>

definition readBytes :: "nat \<Rightarrow> byte list rd" where
  "readBytes n = (\<lambda>r.
     if length (rd_buf r) < n then err ''unexpected EOF''
     else Inr (take n (rd_buf r),
               r\<lparr>rd_buf := drop n (rd_buf r), rd_position := rd_position r + n\<rparr>))"

definition readByte :: "byte rd" where
  "readByte = rd_bind (readBytes 1) (\<lambda>bs. rd_ret (bs ! 0))"

definition readInt :: "int32 rd" where
  "readInt = (\<lambda>r.
     if rd_intSize r \<noteq> 4 then err ''unsupported int32 size''
     else if rd_version r = 0 then err ''version cannot be 0''
     else rd_bind (rd_when (rd_version r > BackupVersions ''1.0'') 0 readByte) (\<lambda>sign.
          rd_bind (readBytes (unat (rd_intSize r))) (\<lambda>intBytes.
          let i = read_int_bytes 0 0 intBytes
          in rd_ret (if sign \<noteq> 0 then - i else i))) r)"

definition readStr :: "gostr rd" where
  "readStr =
     rd_bind readInt (\<lambda>l.
       if sint l < 0 then rd_ret None
       else rd_bind (readBytes (nat (sint l))) (\<lambda>buf. rd_ret (Some buf)))"

fun rd_rep :: "nat \<Rightarrow> 'a rd \<Rightarrow> 'a list rd" where
  "rd_rep 0 m = rd_ret []"
| "rd_rep (Suc n) m = rd_bind m (\<lambda>x. rd_bind (rd_rep n m) (\<lambda>xs. rd_ret (x # xs)))"

text \<open>\<^verbatim>\<open>scanInt\<close> reads as many integers as it is given targets.\<close>

definition scanInts :: "nat \<Rightarrow> int32 list rd" where
  "scanInts n = rd_rep n readInt"

text \<open>A string that must be present and parse as an unsigned decimal: how object ids are stored.\<close>

definition readOid :: "Oid rd" where
  "readOid =
     rd_bind readStr (\<lambda>tmp.
       case tmp of
         None \<Rightarrow> rd_fault (Err ''unexpected nil pointer'')
       | Some s \<Rightarrow> (\<lambda>r. bindR (ParseUint32 s) (\<lambda>oid. Inr (oid, r))))"

section \<open>Header\<close>

definition magic :: "byte list" where
  "magic = [0x50, 0x47, 0x44, 0x4D, 0x50]"

definition no_compression :: CompressionSpecification where
  "no_compression = \<lparr>Algorithm = 0, Options = 0, Level = 0, Workers = 0\<rparr>"

definition with_level :: "int32 \<Rightarrow> CompressionSpecification" where
  "with_level l =
     no_compression\<lparr>Level := l, Algorithm := (if l \<noteq> 0 then PgCompressionGzip else 0)\<rparr>"

definition readCompression :: "int \<Rightarrow> CompressionSpecification rd" where
  "readCompression v =
     (if v \<ge> BackupVersions ''1.15'' then
        rd_bind readByte (\<lambda>a. rd_ret (no_compression\<lparr>Algorithm := ucast a\<rparr>))
      else if v \<ge> BackupVersions ''1.2'' then
        if v < BackupVersions ''1.4'' then rd_bind readByte (\<lambda>l. rd_ret (with_level (ucast l)))
        else rd_bind readInt (\<lambda>l. rd_ret (with_level l))
      else rd_ret (no_compression\<lparr>Level := PgCompressionGzip\<rparr>))"

definition zero_time :: Crtm where
  "zero_time = \<lparr>TmSec = 0, TmMin = 0, TmHour = 0, TmMday = 0, TmMon = 0, TmYear = 0, TmIsDst = 0\<rparr>"

definition time_of :: "int32 list \<Rightarrow> Crtm" where
  "time_of ts = \<lparr>TmSec = ts ! 0, TmMin = ts ! 1, TmHour = ts ! 2, TmMday = ts ! 3, TmMon = ts ! 4,
                 TmYear = ts ! 5, TmIsDst = ts ! 6\<rparr>"

definition readMagic :: "unit rd" where
  "readMagic = (\<lambda>r. case readBytes 5 r of
       Inl e \<Rightarrow> err ''did not find magic string''
     | Inr (m, r') \<Rightarrow> if m \<noteq> magic then err ''did not find magic string'' else Inr ((), r'))"

definition has_rev :: "byte \<Rightarrow> byte \<Rightarrow> bool" where
  "has_rev major minor \<longleftrightarrow> major > 1 \<or> (major = 1 \<and> minor > 0)"

text \<open>The header up to the integer size, after which the reader can read integers.\<close>

definition readPreamble :: "(byte \<times> byte \<times> byte \<times> byte) rd" where
  "readPreamble =
     rd_bind readMagic (\<lambda>_.
     rd_bind (readBytes 2) (\<lambda>vs.
     let major = vs ! 0; minor = vs ! 1 in
     rd_bind (rd_when (has_rev major minor) 0 readByte) (\<lambda>vrev.
     let v = MakeArchiveVersion major minor vrev in
     rd_bind (rd_modify (\<lambda>r. r\<lparr>rd_version := v\<rparr>)) (\<lambda>_.
     rd_bind (rd_check (\<not> (v < BackupVersions ''1.0'' \<or> v > BackupVersions MaxVersion))
                ''unsupported archive version'') (\<lambda>_.
     rd_bind readByte (\<lambda>intSize.
     rd_bind (rd_check (\<not> intSize > 32) ''sanity check on integer size failed'') (\<lambda>_.
     rd_bind (rd_modify (\<lambda>r. r\<lparr>rd_intSize := ucast intSize\<rparr>)) (\<lambda>_.
     rd_ret (major, minor, vrev, intSize)))))))))"

definition readHeaderBody :: "byte \<Rightarrow> byte \<Rightarrow> byte \<Rightarrow> byte \<Rightarrow> Header rd" where
  "readHeaderBody major minor vrev intSize =
     (let v = MakeArchiveVersion major minor vrev in
     rd_bind (rd_when (v \<ge> BackupVersions ''1.7'') (ucast intSize) (rd_bind readByte (\<lambda>b. rd_ret (ucast b)))) (\<lambda>offSize.
     rd_bind readByte (\<lambda>fmt.
     rd_bind (rd_check (ArchTar = fmt) ''unsupported format'') (\<lambda>_.
     rd_bind (readCompression v) (\<lambda>comp.
     rd_bind (rd_when (v \<ge> BackupVersions ''1.4'') zero_time
                (rd_bind (scanInts 7) (\<lambda>ts. rd_ret (time_of ts)))) (\<lambda>tm.
     rd_bind (rd_when (v \<ge> BackupVersions ''1.4'') None readStr) (\<lambda>db.
     rd_bind (rd_when (v \<ge> BackupVersions ''1.10'') None readStr) (\<lambda>rv.
     rd_bind (rd_when (v \<ge> BackupVersions ''1.10'') None readStr) (\<lambda>dv.
     rd_ret
       \<lparr>VersionMajor = major, VersionMinor = minor, VersionRev = vrev, Version = v,
        IntSize = ucast intSize, OffSize = offSize, Format = fmt, CompressionSpec = comp,
        CrtmDateTime = tm, ArchDbName = db, ArchiveRemoteVersion = rv, ArchiveDumpVersion = dv,
        TocCount = 0, MaxDumpId = 0\<rparr>)))))))))"

definition readHeader :: "Header rd" where
  "readHeader =
     rd_bind readPreamble (\<lambda>(major, minor, vrev, intSize). readHeaderBody major minor vrev intSize)"

section \<open>Entries\<close>

definition ascii :: "string \<Rightarrow> byte list" where
  "ascii s = List.map (\<lambda>c. of_char c) s"

definition section_of_desc :: "byte list \<Rightarrow> int32" where
  "section_of_desc d =
     (if d \<in> set (List.map ascii [''COMMENT'', ''ACL'', ''ACL LANGUAGE'']) then SectionNone
      else if d \<in> set (List.map ascii [''TABLE DATA'', ''BLOBS'', ''BLOB COMMENTS'']) then SectionData
      else if d \<in> set (List.map ascii
                [''CONSTRAINT'', ''CHECK CONSTRAINT'', ''FK CONSTRAINT'', ''INDEX'', ''RULE'', ''TRIGGER''])
      then SectionPostData
      else SectionPreData)"

definition readSection :: "int \<Rightarrow> gostr \<Rightarrow> int32 rd" where
  "readSection v desc =
     (if v \<ge> BackupVersions ''1.11'' then readInt
      else case desc of
             None \<Rightarrow> rd_fault (Panic ''nil pointer dereference'')
           | Some d \<Rightarrow> rd_ret (section_of_desc d))"

text \<open>
  The dependency loop ends at the first absent string. Every round reads at least one byte when the
  integer size is 4, so the unread bytes bound it; \<open>fuel\<close> is that bound.
\<close>

fun readDeps :: "nat \<Rightarrow> int32 list rd" where
  "readDeps 0 = rd_fault (Err ''out of fuel'')"
| "readDeps (Suc fuel) =
     rd_bind readStr (\<lambda>tmp.
       case tmp of
         None \<Rightarrow> rd_ret []
       | Some s \<Rightarrow>
           rd_bind (\<lambda>r. bindR (ParseInt32 s) (\<lambda>d. Inr (d, r))) (\<lambda>d.
           rd_bind (readDeps fuel) (\<lambda>ds. rd_ret (d # ds))))"

definition note_max :: "int32 \<Rightarrow> Reader \<Rightarrow> Reader" where
  "note_max d r = (if sint (rd_maxDumpId r) < sint d then r\<lparr>rd_maxDumpId := d\<rparr> else r)"

definition readEntryBody :: "int \<Rightarrow> int32 \<Rightarrow> Entry rd" where
  "readEntryBody v dumpId =
     rd_bind readInt (\<lambda>hadDumper.
     rd_bind (rd_when (v \<ge> BackupVersions ''1.8'') 0 readOid) (\<lambda>tableOid.
     rd_bind readOid (\<lambda>oid.
     rd_bind readStr (\<lambda>tag.
     rd_bind readStr (\<lambda>desc.
     rd_bind (readSection v desc) (\<lambda>sec.
     rd_bind readStr (\<lambda>defn.
     rd_bind readStr (\<lambda>dropStmt.
     rd_bind (rd_when (v \<ge> BackupVersions ''1.3'') None readStr) (\<lambda>copyStmt.
     rd_bind (rd_when (v \<ge> BackupVersions ''1.6'') None readStr) (\<lambda>namespace.
     rd_bind (rd_when (v \<ge> BackupVersions ''1.10'') None readStr) (\<lambda>tablespace.
     rd_bind (rd_when (v \<ge> BackupVersions ''1.14'') None readStr) (\<lambda>tableam.
     rd_bind (rd_when (v \<ge> BackupVersions ''1.16'') 0
                (rd_bind readInt (\<lambda>k. rd_ret (ucast k)))) (\<lambda>relkind.
     rd_bind readStr (\<lambda>owner.
     rd_bind (rd_when (\<not> v < BackupVersions ''1.9'') ()
                (rd_bind readStr (\<lambda>tmp. rd_check (tmp \<noteq> None) ''unexpected nil pointer''))) (\<lambda>_.
     rd_bind (rd_when (v \<ge> BackupVersions ''1.5'') []
                (rd_bind rd_get (\<lambda>r. readDeps (Suc (length (rd_buf r)))))) (\<lambda>deps.
     rd_bind readStr (\<lambda>fileName.
     rd_ret
       \<lparr>EntryCatalogId = \<lparr>TableOid = tableOid, CatOid = oid\<rparr>, DumpId = dumpId, Section = sec,
        HadDumper = hadDumper, Tag = tag, Namespace = namespace, Tablespace = tablespace,
        Tableam = tableam, Owner = owner, Desc = desc, Defn = defn, DropStmt = dropStmt,
        CopyStmt = copyStmt, Dependencies = deps, NDeps = word_of_nat (length deps),
        FileName = fileName, Relkind = relkind, DataDumper = 0, DataLength = 0\<rparr>)))))))))))))))))"

definition readEntry :: "int \<Rightarrow> Entry rd" where
  "readEntry v =
     rd_bind readInt (\<lambda>dumpId.
     rd_bind (rd_modify (note_max dumpId)) (\<lambda>_.
     rd_bind (rd_check (sint dumpId > 0) ''entry ID out of range'') (\<lambda>_.
     readEntryBody v dumpId)))"

definition readEntryLoop :: "int \<Rightarrow> nat \<Rightarrow> Entry list rd" where
  "readEntryLoop v n = rd_rep n (readEntry v)"

definition readEntries :: "Entry list rd" where
  "readEntries =
     rd_bind readInt (\<lambda>tocCount.
     if sint tocCount < 0 then rd_fault (Panic ''makeslice: cap out of range'')
     else (\<lambda>r. readEntryLoop (rd_version r) (nat (sint tocCount)) r))"

definition Reader_Read :: "Reader \<Rightarrow> (Toc \<times> Reader) res" where
  "Reader_Read =
     rd_bind readHeader (\<lambda>header.
     rd_bind readEntries (\<lambda>entries.
     rd_bind rd_get (\<lambda>r.
     rd_bind (rd_modify Reader_prune) (\<lambda>_.
     rd_ret \<lparr>TocHeader = Some (header\<lparr>TocCount := word_of_nat (length entries), MaxDumpId := rd_maxDumpId r\<rparr>),
             Entries = Some entries\<rparr>))))"

section \<open>The dependency loop does not run out of fuel\<close>

text \<open>An integer takes at least four bytes, so every string the loop reads shortens what is left.\<close>

lemma readBytes_shortens: "readBytes n r = Inr (x, r') \<Longrightarrow> length (rd_buf r') + n = length (rd_buf r)"
  by (auto simp: readBytes_def split: if_splits)

lemma readInt_shortens: "readInt r = Inr (x, r') \<Longrightarrow> length (rd_buf r') < length (rd_buf r)"
  by (auto simp: readInt_def rd_bind_def rd_when_def rd_ret_def readByte_def bindR_eq_Inr Let_def
      dest!: readBytes_shortens split: if_splits prod.splits)

lemma readStr_shortens:
  assumes "readStr r = Inr (x, r')"
  shows "length (rd_buf r') < length (rd_buf r)"
proof -
  obtain l r1 where l: "readInt r = Inr (l, r1)"
    and k: "(if sint l < 0 then rd_ret None
       else rd_bind (readBytes (nat (sint l))) (\<lambda>buf. rd_ret (Some buf))) r1 = Inr (x, r')"
    using assms by (auto simp: readStr_def rd_bind_def bindR_eq_Inr)
  have "length (rd_buf r') \<le> length (rd_buf r1)"
    using k by (auto simp: rd_ret_def rd_bind_def bindR_eq_Inr dest!: readBytes_shortens split: if_splits)
  with readInt_shortens [OF l] show ?thesis by simp
qed

lemma readInt_no_fuel_error: "readInt r \<noteq> err ''out of fuel''"
  by (auto simp: readInt_def rd_bind_def rd_when_def rd_ret_def readByte_def readBytes_def bindR_eq_Inl
      bindR_eq_Inr Let_def split: if_splits prod.splits)

lemma readStr_no_fuel_error: "readStr r \<noteq> err ''out of fuel''"
  by (auto simp: readStr_def rd_bind_def rd_ret_def readBytes_def bindR_eq_Inl readInt_no_fuel_error
      split: if_splits prod.splits)

lemma ParseInt32_no_fuel_error: "ParseInt32 s \<noteq> err ''out of fuel''"
  by (auto simp: ParseInt32_def Let_def split: option.splits if_splits)

lemma readDeps_fuel_enough: "length (rd_buf r) < n \<Longrightarrow> readDeps n r \<noteq> err ''out of fuel''"
proof (induction n arbitrary: r)
  case 0
  then show ?case by simp
next
  case (Suc n)
  have ih: "readStr r = Inr (x, r') \<Longrightarrow> readDeps n r' \<noteq> err ''out of fuel''" for x r'
    using Suc readStr_shortens [of r x r'] by simp
  show ?case
  proof
    assume e: "readDeps (Suc n) r = err ''out of fuel''"
    then obtain x r' where s: "readStr r = Inr (x, r')"
      using readStr_no_fuel_error [of r] by (auto simp: rd_bind_def bindR_eq_Inl)
    with e ih [OF s] ParseInt32_no_fuel_error show False
      by (cases x) (auto simp: rd_bind_def bindR_eq_Inl bindR_eq_Inr rd_ret_def)
  qed
qed

end
