(* ===== verification/TocWriter.thy ===== *)
theory TocWriter
  imports TocReader
begin

text \<open>
  \<^verbatim>\<open>internal/db/postgres/toc/writer.go\<close>: writing of \<^verbatim>\<open>toc.dat\<close>. A \<open>Writer\<close> holds what its
  \<^verbatim>\<open>io.Writer\<close> has accepted and how much it accepts in all (\<open>w_limit\<close>): of a write beyond it the sink takes
  what there is room for and returns an error, as \<^verbatim>\<open>io.Writer\<close> demands. An operation returns the writer it leaves
  together with its error, so that the bytes written before an error and the deferred \<^verbatim>\<open>prune\<close> are seen.

  \<open>emits\<close> is the abstract specification of a writer operation: it appends what there is room for of given bytes, and
  fails if that is not all of them. Every operation refines it, down to \<open>Writer_Write\<close>.
\<close>

record Writer =
  w_out :: "byte list"
  w_limit :: nat
  w_intSize :: "32 word"
  w_version :: int
  w_position :: nat

type_synonym wr = "Writer \<Rightarrow> Writer \<times> fault option"

definition NewWriter :: "nat \<Rightarrow> Writer" where
  "NewWriter limit = \<lparr>w_out = [], w_limit = limit, w_intSize = 0, w_version = 0, w_position = 0\<rparr>"

definition Writer_prune :: "Writer \<Rightarrow> Writer" where
  "Writer_prune w = w\<lparr>w_intSize := 0, w_version := 0, w_position := 0\<rparr>"

text \<open>A sequence of writes with an early return at the first error.\<close>

fun wr_seq :: "wr list \<Rightarrow> wr" where
  "wr_seq [] w = (w, None)"
| "wr_seq (m # ms) w =
     (case m w of (w1, None) \<Rightarrow> wr_seq ms w1 | (w1, Some e) \<Rightarrow> (w1, Some e))"

definition wr_skip :: wr where
  "wr_skip w = (w, None)"

definition wr_when :: "bool \<Rightarrow> wr \<Rightarrow> wr" where
  "wr_when c m = (if c then m else wr_skip)"

section \<open>Operations\<close>

text \<open>The position moves only when the whole buffer was accepted.\<close>

definition writeBuf :: "byte list \<Rightarrow> wr" where
  "writeBuf buf w =
     (let room = w_limit w - length (w_out w);
          w1 = w\<lparr>w_out := w_out w @ take room buf\<rparr>
      in if length buf > room then (w1, Some (Err ''write''))
         else (w1\<lparr>w_position := w_position w + length buf\<rparr>, None))"

definition writeByte :: "byte \<Rightarrow> wr" where
  "writeByte b = writeBuf [b]"

text \<open>The sign byte is written whatever the version is.\<close>

definition writeInt :: "int32 \<Rightarrow> wr" where
  "writeInt i = (\<lambda>w.
     let sign = (if sint i < 0 then 1 else 0);
         j = (if sint i < 0 then - i else i)
     in wr_seq (writeByte sign # List.map writeByte (write_int_bytes (nat (sint (w_intSize w))) j)) w)"

definition writeStr :: "gostr \<Rightarrow> wr" where
  "writeStr data =
     (case data of
        Some s \<Rightarrow> wr_seq [writeInt (word_of_nat (length s)), writeBuf s]
      | None \<Rightarrow> writeInt (- 1))"

definition writeCompression :: "int \<Rightarrow> CompressionSpecification \<Rightarrow> wr" where
  "writeCompression v c =
     (if v \<ge> BackupVersions ''1.15'' then writeByte (ucast (Algorithm c))
      else if v \<ge> BackupVersions ''1.2'' then
        (if v < BackupVersions ''1.4'' then writeByte (ucast (Level c)) else writeInt (Level c))
      else wr_skip)"

definition time_ints :: "Crtm \<Rightarrow> int32 list" where
  "time_ints t = [TmSec t, TmMin t, TmHour t, TmMday t, TmMon t, TmYear t, TmIsDst t]"

definition writeHeader :: "Header \<Rightarrow> wr" where
  "writeHeader h = wr_seq
     [writeBuf magic,
      writeByte (VersionMajor h),
      writeByte (VersionMinor h),
      wr_when (has_rev (VersionMajor h) (VersionMinor h)) (writeByte (VersionRev h)),
      writeByte (ucast (IntSize h)),
      wr_when (Version h \<ge> BackupVersions ''1.7'') (writeByte (ucast (OffSize h))),
      writeByte (Format h),
      writeCompression (Version h) (CompressionSpec h),
      wr_when (Version h \<ge> BackupVersions ''1.4'')
        (wr_seq (List.map writeInt (time_ints (CrtmDateTime h)))),
      wr_when (Version h \<ge> BackupVersions ''1.4'') (writeStr (ArchDbName h)),
      wr_when (Version h \<ge> BackupVersions ''1.10'') (writeStr (ArchiveRemoteVersion h)),
      wr_when (Version h \<ge> BackupVersions ''1.10'') (writeStr (ArchiveDumpVersion h))]"

definition writeEntry :: "int \<Rightarrow> Entry \<Rightarrow> wr" where
  "writeEntry v e = wr_seq
     [writeInt (DumpId e),
      writeInt (HadDumper e),
      wr_when (v \<ge> BackupVersions ''1.8'') (writeStr (Some (FormatUint (TableOid (EntryCatalogId e))))),
      writeStr (Some (FormatUint (CatOid (EntryCatalogId e)))),
      writeStr (Tag e),
      writeStr (Desc e),
      wr_when (v \<ge> BackupVersions ''1.11'') (writeInt (Section e)),
      writeStr (Defn e),
      writeStr (DropStmt e),
      wr_when (v \<ge> BackupVersions ''1.3'') (writeStr (CopyStmt e)),
      wr_when (v \<ge> BackupVersions ''1.6'') (writeStr (Namespace e)),
      wr_when (v \<ge> BackupVersions ''1.10'') (writeStr (Tablespace e)),
      wr_when (v \<ge> BackupVersions ''1.14'') (writeStr (Tableam e)),
      wr_when (v \<ge> BackupVersions ''1.16'') (writeInt (ucast (Relkind e))),
      writeStr (Owner e),
      wr_when (v \<ge> BackupVersions ''1.9'') (writeStr (Some (ascii ''false''))),
      wr_when (v \<ge> BackupVersions ''1.5'')
        (wr_seq (List.map (\<lambda>d. writeStr (Some (FormatInt d))) (Dependencies e) @ [writeStr None])),
      writeStr (FileName e)]"

definition writeEntries :: "Entry list \<Rightarrow> wr" where
  "writeEntries es = (\<lambda>w.
     wr_seq (writeInt (word_of_nat (length es)) # List.map (writeEntry (w_version w)) es) w)"

text \<open>The reset is deferred behind the two checks: it happens whether the writes succeed or not.\<close>

definition Writer_Write :: "Writer \<Rightarrow> Toc \<Rightarrow> Writer \<times> fault option" where
  "Writer_Write w t =
     (case Entries t of
        None \<Rightarrow> (w, Some (Err ''entries are nil''))
      | Some es \<Rightarrow>
          (case TocHeader t of
             None \<Rightarrow> (w, Some (Err ''header is nil''))
           | Some h \<Rightarrow>
               (case wr_seq [writeHeader h, writeEntries es] (w\<lparr>w_intSize := IntSize h, w_version := Version h\<rparr>) of
                  (w1, e) \<Rightarrow> (Writer_prune w1, e))))"

declare wr_seq.simps [simp del]

section \<open>What the operations append\<close>

text \<open>
  What is left of the position after an error is not said: it is reset before anyone can look at it. \<open>n\<close> is the size
  of the integers.
\<close>

definition emits :: "int32 \<Rightarrow> int \<Rightarrow> wr \<Rightarrow> byte list \<Rightarrow> bool" where
  "emits n v m bs \<longleftrightarrow> (\<forall>w. w_intSize w = n \<and> w_version w = v \<longrightarrow>
     (\<exists>p. m w = (w\<lparr>w_out := w_out w @ take (w_limit w - length (w_out w)) bs, w_position := p\<rparr>,
            if length bs > w_limit w - length (w_out w) then Some (Err ''write'') else None)))"

lemma emitsD:
  "emits n v m bs \<Longrightarrow> w_intSize w = n \<Longrightarrow> w_version w = v \<Longrightarrow>
   \<exists>p. m w = (w\<lparr>w_out := w_out w @ take (w_limit w - length (w_out w)) bs, w_position := p\<rparr>,
            if length bs > w_limit w - length (w_out w) then Some (Err ''write'') else None)"
  by (simp add: emits_def)

text \<open>Nothing is said of the position, so any that an operation leaves will do.\<close>

lemma emitsI:
  assumes "\<And>w. w_intSize w = n \<Longrightarrow> w_version w = v \<Longrightarrow> m w =
    (w\<lparr>w_out := w_out w @ take (w_limit w - length (w_out w)) bs, w_position := pos w\<rparr>,
     if length bs > w_limit w - length (w_out w) then Some (Err ''write'') else None)"
  shows "emits n v m bs"
  using assms by (auto simp: emits_def)

lemma emits_buf [codec_intros]: "emits n v (writeBuf bs) bs"
  by (rule emitsI [where pos = "\<lambda>w. if length bs > w_limit w - length (w_out w) then w_position w
      else w_position w + length bs"]) (simp add: writeBuf_def Let_def)

lemma emits_byte [codec_intros]: "emits n v (writeByte b) [b]"
  unfolding writeByte_def by (rule emits_buf)

lemma emits_skip: "emits n v wr_skip []"
  by (rule emitsI [where pos = w_position]) (simp add: wr_skip_def)

lemma emits_when [codec_intros]:
  "(c \<Longrightarrow> emits n v m bs) \<Longrightarrow> emits n v (wr_when c m) (if c then bs else [])"
  by (simp add: wr_when_def emits_skip)

lemma emits_Nil [codec_intros]: "emits n v (wr_seq []) []"
  by (rule emitsI [where pos = w_position]) (simp add: wr_seq.simps)

text \<open>
  An operation whose bytes fit only partly leaves those that do and ends the sequence, so a sequence behaves like one
  write of all the bytes.
\<close>

lemma emits_Cons [codec_intros]:
  assumes "emits n v m b" and "emits n v (wr_seq ms) bs"
  shows "emits n v (wr_seq (m # ms)) (b @ bs)"
  unfolding emits_def
proof (intro allI impI)
  fix w :: Writer
  assume w: "w_intSize w = n \<and> w_version w = v"
  let ?room = "w_limit w - length (w_out w)"
  obtain p where m: "m w = (w\<lparr>w_out := w_out w @ take ?room b, w_position := p\<rparr>,
      if length b > ?room then Some (Err ''write'') else None)"
    using emitsD [OF assms(1), of w] w by blast
  let ?w = "w\<lparr>w_out := w_out w @ take ?room b, w_position := p\<rparr>"
  show "\<exists>p. wr_seq (m # ms) w = (w\<lparr>w_out := w_out w @ take ?room (b @ bs), w_position := p\<rparr>,
      if length (b @ bs) > ?room then Some (Err ''write'') else None)"
  proof (cases "length b > ?room")
    case True
    then show ?thesis by (intro exI [of _ p]) (simp add: m wr_seq.simps)
  next
    case False
    obtain q where "wr_seq ms ?w = (?w\<lparr>w_out := w_out ?w @ take (w_limit ?w - length (w_out ?w)) bs, w_position := q\<rparr>,
        if length bs > w_limit ?w - length (w_out ?w) then Some (Err ''write'') else None)"
      using emitsD [OF assms(2), of ?w] w by auto
    with False show ?thesis by (intro exI [of _ q]) (auto simp: m wr_seq.simps)
  qed
qed

lemma emits_map [codec_intros]:
  "(\<And>x. x \<in> set xs \<Longrightarrow> emits n v (f x) (g x)) \<Longrightarrow> emits n v (wr_seq (List.map f xs)) (concat (List.map g xs))"
  by (induction xs) (auto intro: codec_intros)

lemma emits_map_bytes: "emits n v (wr_seq (List.map writeByte bs)) bs"
proof (induction bs)
  case Nil
  then show ?case by (simp add: emits_Nil)
next
  case (Cons b bs)
  from emits_Cons [OF emits_byte this] show ?case by simp
qed

definition int_bytes :: "int32 \<Rightarrow> byte list" where
  "int_bytes i = (if sint i < 0 then 1 # write_int_bytes 4 (- i) else 0 # write_int_bytes 4 i)"

lemma emits_int_size:
  "emits n v (writeInt i) ((if sint i < 0 then 1 else 0) # write_int_bytes (nat (sint n)) (if sint i < 0 then - i else i))"
proof -
  let ?bs = "write_int_bytes (nat (sint n)) (if sint i < 0 then - i else i)"
  have "emits n v (wr_seq (writeByte (if sint i < 0 then 1 else 0) # List.map writeByte ?bs))
      ([if sint i < 0 then 1 else 0] @ ?bs)"
    by (rule emits_Cons [OF emits_byte emits_map_bytes])
  then show ?thesis by (simp add: emits_def writeInt_def Let_def)
qed

lemma emits_int [codec_intros]: "emits 4 v (writeInt i) (int_bytes i)"
  using emits_int_size [of 4 v i] by (simp add: int_bytes_def split: if_splits)

definition str_bytes :: "gostr \<Rightarrow> byte list" where
  "str_bytes s = (case s of None \<Rightarrow> int_bytes (- 1) | Some b \<Rightarrow> int_bytes (word_of_nat (length b)) @ b)"

lemma emits_str [codec_intros]: "emits 4 v (writeStr s) (str_bytes s)"
proof (cases s)
  case None
  then show ?thesis by (simp add: writeStr_def str_bytes_def emits_int)
next
  case (Some b)
  from emits_Cons [OF emits_int emits_Cons [OF emits_buf emits_Nil]]
  have "emits 4 v (wr_seq [writeInt (word_of_nat (length b)), writeBuf b])
     (int_bytes (word_of_nat (length b)) @ b @ [])" .
  with Some show ?thesis by (simp add: writeStr_def str_bytes_def)
qed

section \<open>The bytes of a table of contents\<close>

definition opt_bytes :: "bool \<Rightarrow> byte list \<Rightarrow> byte list" where
  "opt_bytes c bs = (if c then bs else [])"

lemma emits_opt [codec_intros]: "emits 4 v m bs \<Longrightarrow> emits 4 v (wr_when c m) (opt_bytes c bs)"
  unfolding opt_bytes_def by (rule emits_when)

definition compression_bytes :: "int \<Rightarrow> CompressionSpecification \<Rightarrow> byte list" where
  "compression_bytes v c =
     (if v \<ge> BackupVersions ''1.15'' then [ucast (Algorithm c)]
      else if v \<ge> BackupVersions ''1.2'' then
        (if v < BackupVersions ''1.4'' then [ucast (Level c)] else int_bytes (Level c))
      else [])"

definition header_bytes :: "Header \<Rightarrow> byte list" where
  "header_bytes h = concat
     [magic, [VersionMajor h], [VersionMinor h],
      opt_bytes (has_rev (VersionMajor h) (VersionMinor h)) [VersionRev h],
      [ucast (IntSize h)],
      opt_bytes (Version h \<ge> BackupVersions ''1.7'') [ucast (OffSize h)],
      [Format h],
      compression_bytes (Version h) (CompressionSpec h),
      opt_bytes (Version h \<ge> BackupVersions ''1.4'') (concat (List.map int_bytes (time_ints (CrtmDateTime h)))),
      opt_bytes (Version h \<ge> BackupVersions ''1.4'') (str_bytes (ArchDbName h)),
      opt_bytes (Version h \<ge> BackupVersions ''1.10'') (str_bytes (ArchiveRemoteVersion h)),
      opt_bytes (Version h \<ge> BackupVersions ''1.10'') (str_bytes (ArchiveDumpVersion h))]"

definition deps_bytes :: "int32 list \<Rightarrow> byte list" where
  "deps_bytes ds = concat (List.map (\<lambda>d. str_bytes (Some (FormatInt d))) ds) @ str_bytes None"

definition entry_bytes :: "int \<Rightarrow> Entry \<Rightarrow> byte list" where
  "entry_bytes v e = concat
     [int_bytes (DumpId e), int_bytes (HadDumper e),
      opt_bytes (v \<ge> BackupVersions ''1.8'') (str_bytes (Some (FormatUint (TableOid (EntryCatalogId e))))),
      str_bytes (Some (FormatUint (CatOid (EntryCatalogId e)))),
      str_bytes (Tag e), str_bytes (Desc e),
      opt_bytes (v \<ge> BackupVersions ''1.11'') (int_bytes (Section e)),
      str_bytes (Defn e), str_bytes (DropStmt e),
      opt_bytes (v \<ge> BackupVersions ''1.3'') (str_bytes (CopyStmt e)),
      opt_bytes (v \<ge> BackupVersions ''1.6'') (str_bytes (Namespace e)),
      opt_bytes (v \<ge> BackupVersions ''1.10'') (str_bytes (Tablespace e)),
      opt_bytes (v \<ge> BackupVersions ''1.14'') (str_bytes (Tableam e)),
      opt_bytes (v \<ge> BackupVersions ''1.16'') (int_bytes (ucast (Relkind e))),
      str_bytes (Owner e),
      opt_bytes (v \<ge> BackupVersions ''1.9'') (str_bytes (Some (ascii ''false''))),
      opt_bytes (v \<ge> BackupVersions ''1.5'') (deps_bytes (Dependencies e)),
      str_bytes (FileName e)]"

definition toc_bytes :: "Header \<Rightarrow> Entry list \<Rightarrow> byte list" where
  "toc_bytes h es = header_bytes h @ int_bytes (word_of_nat (length es)) @
     concat (List.map (entry_bytes (Version h)) es)"

lemma emits_compression [codec_intros]: "emits 4 v (writeCompression w c) (compression_bytes w c)"
  by (simp add: writeCompression_def compression_bytes_def emits_byte emits_int emits_skip del: BackupVersions_simps)

lemma emits_deps:
  "emits 4 v (wr_seq (List.map (\<lambda>d. writeStr (Some (FormatInt d))) ds @ [writeStr None])) (deps_bytes ds)"
proof (induction ds)
  case Nil
  from emits_Cons [OF emits_str [of v None] emits_Nil] show ?case by (simp add: deps_bytes_def)
next
  case (Cons d ds)
  from emits_Cons [OF emits_str [of v "Some (FormatInt d)"] Cons] show ?case by (simp add: deps_bytes_def)
qed

lemma emits_Cons_concat [codec_intros]:
  "emits 4 v m b \<Longrightarrow> emits 4 v (wr_seq ms) (concat bs) \<Longrightarrow> emits 4 v (wr_seq (m # ms)) (concat (b # bs))"
  using emits_Cons [of 4 v m b ms "concat bs"] by simp

lemma emits_Nil_concat [codec_intros]: "emits 4 v (wr_seq []) (concat [])"
  using emits_Nil by simp

lemma emits_header: "emits 4 v (writeHeader h) (header_bytes h)"
  unfolding writeHeader_def header_bytes_def
  by (intro emits_Cons_concat emits_Nil_concat emits_opt emits_buf emits_byte emits_str emits_compression
      emits_map emits_int)

lemma emits_entry: "emits 4 v (writeEntry v' e) (entry_bytes v' e)"
  unfolding writeEntry_def entry_bytes_def
  by (intro emits_Cons_concat emits_Nil_concat emits_opt emits_buf emits_byte emits_str
      emits_int emits_deps)

lemma emits_entries:
  "emits 4 v (writeEntries es)
     (int_bytes (word_of_nat (length es)) @ concat (List.map (entry_bytes v) es))"
proof -
  have "emits 4 v (wr_seq (writeInt (word_of_nat (length es)) # List.map (writeEntry v) es))
     (int_bytes (word_of_nat (length es)) @ concat (List.map (entry_bytes v) es))"
    by (intro emits_Cons emits_int emits_map emits_entry)
  then show ?thesis by (simp add: emits_def writeEntries_def)
qed

text \<open>
  Version 1.0 has no sign byte for the reader, but the writer writes one: an integer comes back shifted by it.
\<close>

lemma version_1_0_sign_byte:
  "readInt \<lparr>rd_buf = int_bytes 5, rd_intSize = 4, rd_version = 65536, rd_position = 0, rd_maxDumpId = 0\<rparr> =
   Inr (1280, \<lparr>rd_buf = [0], rd_intSize = 4, rd_version = 65536, rd_position = 4, rd_maxDumpId = 0\<rparr>)"
  by code_simp

end
