(* ===== verification/TocCodec.thy ===== *)
theory TocCodec
  imports TocWriter
begin

text \<open>
  What the reader reads from what the writer wrote. \<open>reads v m bs x f\<close>: in a reader of version \<open>v\<close> and integer
  size 4 whose unread bytes start with \<open>bs\<close>, operation \<open>m\<close> consumes exactly \<open>bs\<close>, returns \<open>x\<close> and changes the
  largest dump id by \<open>f\<close>. The interface of a field that is written by one side and read by the other is the
  locale \<open>codec\<close>; integers, strings, the entries and the dump-time block are its instances.
\<close>

definition reads :: "int \<Rightarrow> 'a rd \<Rightarrow> byte list \<Rightarrow> 'a \<Rightarrow> (int32 \<Rightarrow> int32) \<Rightarrow> bool" where
  "reads v m bs x f \<longleftrightarrow> (\<forall>r rest.
     rd_version r = v \<and> rd_intSize r = 4 \<and> rd_buf r = bs @ rest \<longrightarrow>
     m r = Inr (x, r\<lparr>rd_buf := rest, rd_position := rd_position r + length bs,
                     rd_maxDumpId := f (rd_maxDumpId r)\<rparr>))"

lemma readsD:
  "reads v m bs x f \<Longrightarrow> rd_version r = v \<Longrightarrow> rd_intSize r = 4 \<Longrightarrow> rd_buf r = bs @ rest \<Longrightarrow>
   m r = Inr (x, r\<lparr>rd_buf := rest, rd_position := rd_position r + length bs,
                   rd_maxDumpId := f (rd_maxDumpId r)\<rparr>)"
  by (simp add: reads_def)

lemma reads_ret: "reads v (rd_ret x) [] x id"
  by (simp add: reads_def rd_ret_def)

lemma reads_bind:
  assumes "reads v m bs x f" and "reads v (k x) cs y g"
  shows "reads v (rd_bind m k) (bs @ cs) y (g \<circ> f)"
  unfolding reads_def
proof (intro allI impI)
  fix r :: Reader and rest
  assume r: "rd_version r = v \<and> rd_intSize r = 4 \<and> rd_buf r = (bs @ cs) @ rest"
  let ?r = "r\<lparr>rd_buf := cs @ rest, rd_position := rd_position r + length bs, rd_maxDumpId := f (rd_maxDumpId r)\<rparr>"
  have "m r = Inr (x, ?r)" using r by (intro readsD [OF assms(1)]) auto
  moreover have "k x ?r = Inr (y, ?r\<lparr>rd_buf := rest, rd_position := rd_position ?r + length cs,
      rd_maxDumpId := g (rd_maxDumpId ?r)\<rparr>)"
    using r by (intro readsD [OF assms(2)]) auto
  ultimately show "rd_bind m k r = Inr (y, r\<lparr>rd_buf := rest,
      rd_position := rd_position r + length (bs @ cs), rd_maxDumpId := (g \<circ> f) (rd_maxDumpId r)\<rparr>)"
    by (simp add: rd_bind_def add.assoc)
qed

lemma reads_bind_id:
  "reads v m bs x id \<Longrightarrow> reads v (k x) cs y g \<Longrightarrow> reads v (rd_bind m k) (bs @ cs) y g"
  using reads_bind [of v m bs x id k cs y g] by simp

text \<open>The same rules for a list of field encodings that is concatenated.\<close>

lemma reads_field:
  "reads v m b x id \<Longrightarrow> reads v (k x) (concat bs) y g \<Longrightarrow> reads v (rd_bind m k) (concat (b # bs)) y g"
  using reads_bind_id by simp

lemma reads_last: "x = y \<Longrightarrow> reads v (rd_ret x) (concat []) y id"
  using reads_ret by auto

lemma reads_map: "reads v m bs x id \<Longrightarrow> reads v (rd_bind m (\<lambda>x. rd_ret (f x))) bs (f x) id"
  using reads_bind_id [where k = "\<lambda>x. rd_ret (f x)", OF _ reads_ret] by (metis append_Nil2)

lemma reads_opt:
  "(c \<Longrightarrow> reads v m bs x id) \<Longrightarrow> reads v (rd_when c d m) (opt_bytes c bs) (if c then x else d) id"
  by (simp add: rd_when_def opt_bytes_def reads_ret)

lemma reads_check: "c \<Longrightarrow> reads v (rd_check c s) [] () id"
  by (simp add: rd_check_def reads_ret)

lemma reads_check_field:
  "c \<Longrightarrow> reads v (k ()) (concat bs) y g \<Longrightarrow> reads v (rd_bind (rd_check c s) k) (concat bs) y g"
  using reads_bind_id [OF reads_check] by fastforce

lemma reads_bytes: "n = length bs \<Longrightarrow> reads v (readBytes n) bs bs id"
  by (simp add: reads_def readBytes_def)

lemma reads_byte: "reads v readByte [b] b id"
  unfolding readByte_def using reads_map [OF reads_bytes [of 1 "[b]"], of v "\<lambda>bs. bs ! 0"] by simp

section \<open>Integers\<close>

text \<open>
  All 32-bit values, the smallest included: negating it wraps to itself on both sides.
\<close>

lemma reads_int:
  assumes "v > 65536"
  shows "reads v readInt (int_bytes i) i id"
proof -
  let ?neg = "sint i < 0"
  let ?s = "if ?neg then (1::byte) else 0"
  let ?bs = "write_int_bytes 4 (if ?neg then - i else i)"
  let ?body = "rd_bind (rd_when (v > BackupVersions ''1.0'') 0 readByte) (\<lambda>sign.
          rd_bind (readBytes 4) (\<lambda>intBytes.
          let i = read_int_bytes 0 0 intBytes in rd_ret (if sign \<noteq> 0 then - i else i)))"
  have "reads v (rd_when (v > BackupVersions ''1.0'') 0 readByte) [?s] ?s id"
    using assms by (simp add: rd_when_def reads_byte)
  moreover have "reads v (rd_bind (readBytes 4) (\<lambda>intBytes.
      let i = read_int_bytes 0 0 intBytes in rd_ret (if ?s \<noteq> 0 then - i else i))) (?bs @ []) i id"
    by (rule reads_bind_id [OF reads_bytes]) (simp_all add: read_write_int_bytes reads_ret Let_def)
  ultimately have "reads v ?body ([?s] @ ?bs @ []) i id"
    by (rule reads_bind_id)
  then show ?thesis
    using assms by (simp add: reads_def readInt_def int_bytes_def split: if_splits)
qed

definition str_ok :: "gostr \<Rightarrow> bool" where
  "str_ok s = (case s of None \<Rightarrow> True | Some b \<Rightarrow> length b < 2 ^ 31)"

lemma sint_length: "n < 2 ^ 31 \<Longrightarrow> sint (word_of_nat n :: int32) = int n"
  by (simp add: signed_of_nat signed_take_bit_int_eq_self)

lemma reads_str:
  assumes "v > 65536" and "str_ok s"
  shows "reads v readStr (str_bytes s) s id"
proof (cases s)
  case None
  have "reads v readStr (int_bytes (- 1) @ []) None id"
    unfolding readStr_def by (rule reads_bind_id [OF reads_int [OF assms(1)]]) (simp add: reads_ret)
  with None show ?thesis by (simp add: str_bytes_def)
next
  case (Some b)
  let ?l = "word_of_nat (length b) :: int32"
  have l: "sint ?l = int (length b)" using assms(2) Some by (intro sint_length) (simp add: str_ok_def)
  have "reads v (rd_bind (readBytes (nat (sint ?l))) (\<lambda>buf. rd_ret (Some buf))) b (Some b) id"
    by (rule reads_map [OF reads_bytes]) (simp add: l)
  then have "reads v readStr (int_bytes ?l @ b) (Some b) id"
    unfolding readStr_def by (intro reads_bind_id [OF reads_int [OF assms(1)]]) (simp add: l)
  with Some show ?thesis by (simp add: str_bytes_def)
qed

lemma reads_pure: "m = Inr x \<Longrightarrow> reads v (\<lambda>r. bindR m (\<lambda>a. Inr (a, r))) [] x id"
  by (simp add: reads_def)

lemma reads_oid:
  assumes "v > 65536"
  shows "reads v readOid (str_bytes (Some (FormatUint w))) w id"
proof -
  have "str_ok (Some (FormatUint w))"
    using length_FormatUint [of w] by (simp add: str_ok_def)
  from reads_str [OF assms this] show ?thesis
    unfolding readOid_def
    by (subst append_Nil2 [symmetric], elim reads_bind_id) (simp add: reads_ret [unfolded rd_ret_def])
qed

section \<open>The interface of a written and read field\<close>

locale codec =
  fixes v :: int
    and wr_field :: "'a \<Rightarrow> wr"
    and rd_field :: "'a rd"
    and enc :: "'a \<Rightarrow> byte list"
    and ok :: "'a \<Rightarrow> bool"
    and norm :: "'a \<Rightarrow> 'a"
    and upd :: "'a \<Rightarrow> int32 \<Rightarrow> int32"
  assumes field_emits: "emits 4 v (wr_field x) (enc x)"
    and field_reads: "ok x \<Longrightarrow> reads v rd_field (enc x) (norm x) (upd x)"
begin

text \<open>A sequence of fields is written and read as a sequence.\<close>

lemma list_emits: "emits 4 v (wr_seq (List.map wr_field xs)) (concat (List.map enc xs))"
  by (rule emits_map) (rule field_emits)

lemma list_reads:
  "list_all ok xs \<Longrightarrow>
   reads v (rd_rep (length xs) rd_field) (concat (List.map enc xs)) (List.map norm xs) (fold upd xs)"
proof (induction xs)
  case Nil
  show ?case using reads_ret [of v "[]"] by (simp add: id_def)
next
  case (Cons x xs)
  then have hd: "reads v rd_field (enc x) (norm x) (upd x)"
    and tl: "reads v (rd_rep (length xs) rd_field) (concat (List.map enc xs)) (List.map norm xs) (fold upd xs)"
    using field_reads by simp_all
  have "reads v (rd_bind (rd_rep (length xs) rd_field) (\<lambda>ys. rd_ret (norm x # ys)))
      (concat (List.map enc xs) @ []) (norm x # List.map norm xs) (id \<circ> fold upd xs)"
    by (rule reads_bind [OF tl reads_ret])
  from reads_bind [OF hd, of "\<lambda>x. rd_bind (rd_rep (length xs) rd_field) (\<lambda>ys. rd_ret (x # ys))", OF this]
  show ?case by (simp add: comp_def)
qed

text \<open>What a writer with room appends is read back up to normalisation.\<close>

lemma transmit:
  assumes "w_intSize w = 4" and "w_version w = v" and "length (w_out w) + length (enc x) \<le> w_limit w"
    and "ok x" and "rd_version r = v" and "rd_intSize r = 4" and "rd_buf r = drop (length (w_out w)) (w_out w')"
    and "wr_field x w = (w', None)"
  shows "\<exists>r'. rd_field r = Inr (norm x, r') \<and> rd_buf r' = []"
proof -
  have "w_out w' = w_out w @ enc x"
    using emitsD [OF field_emits [of x] assms(1,2)] assms(3,8) by (auto split: if_splits)
  then have "rd_buf r = enc x @ []" using assms(7) by simp
  from readsD [OF field_reads [OF assms(4)] assms(5,6) this] show ?thesis by simp
qed

end

text \<open>
  The instances hold for every version after 1.0, where the reader takes a sign byte: they are stated at
  \<open>signed_version v\<close>, which is \<open>v\<close> for such a version.
\<close>

definition signed_version :: "int \<Rightarrow> int" where
  "signed_version v = max 65537 v"

lemma signed_version: "signed_version v > 65536" "v > 65536 \<Longrightarrow> signed_version v = v"
  by (simp_all add: signed_version_def)

interpretation int_field: codec "signed_version v" writeInt readInt int_bytes "\<lambda>_. True" "\<lambda>x. x" "\<lambda>_. id" for v
  by unfold_locales (auto intro: emits_int reads_int signed_version)

interpretation str_field: codec "signed_version v" writeStr readStr str_bytes str_ok "\<lambda>x. x" "\<lambda>_. id" for v
  by unfold_locales (auto intro: emits_str reads_str signed_version)

lemma fold_id [simp]: "fold (\<lambda>_. id) xs = id"
  by (induction xs) auto

lemma time_of_ints [simp]: "time_of (time_ints t) = t"
  by (simp add: time_of_def time_ints_def)

lemma reads_time:
  assumes "v > 65536"
  shows "reads v (rd_bind (scanInts 7) (\<lambda>ts. rd_ret (time_of ts)))
    (concat (List.map int_bytes (time_ints t))) t id"
proof -
  have "reads v (rd_rep (length (time_ints t)) readInt) (concat (List.map int_bytes (time_ints t))) (time_ints t) id"
    using int_field.list_reads [of "time_ints t" v] by (simp add: signed_version(2) [OF assms] list_all_iff)
  moreover have "length (time_ints t) = 7" by (simp add: time_ints_def)
  ultimately show ?thesis
    using reads_map [where f = time_of and x = "time_ints t"] by (simp add: scanInts_def del: rd_rep.simps)
qed

end
