(* ===== verification/TocRoundtrip.thy ===== *)
theory TocRoundtrip
  imports TocCodec
begin

text \<open>
  Round trip of a table of contents: what \<open>Reader_Read\<close> returns for the bytes of \<open>Writer_Write\<close>. Fields an
  archive version does not store come back as the defaults the reader sets (\<open>norm_entry\<close>, \<open>norm_header\<close>).
\<close>

section \<open>Entries\<close>

definition norm_entry :: "int \<Rightarrow> Entry \<Rightarrow> Entry" where
  "norm_entry v e = e
     \<lparr>EntryCatalogId := \<lparr>TableOid = (if v \<ge> BackupVersions ''1.8'' then TableOid (EntryCatalogId e) else 0),
                        CatOid = CatOid (EntryCatalogId e)\<rparr>,
      Section := (if v \<ge> BackupVersions ''1.11'' then Section e
                  else case Desc e of None \<Rightarrow> 0 | Some d \<Rightarrow> section_of_desc d),
      CopyStmt := (if v \<ge> BackupVersions ''1.3'' then CopyStmt e else None),
      Namespace := (if v \<ge> BackupVersions ''1.6'' then Namespace e else None),
      Tablespace := (if v \<ge> BackupVersions ''1.10'' then Tablespace e else None),
      Tableam := (if v \<ge> BackupVersions ''1.14'' then Tableam e else None),
      Relkind := (if v \<ge> BackupVersions ''1.16'' then Relkind e else 0),
      Dependencies := (if v \<ge> BackupVersions ''1.5'' then Dependencies e else []),
      NDeps := word_of_nat (length (if v \<ge> BackupVersions ''1.5'' then Dependencies e else [])),
      DataDumper := 0, DataLength := 0\<rparr>"

definition entry_ok :: "int \<Rightarrow> Entry \<Rightarrow> bool" where
  "entry_ok v e \<longleftrightarrow> sint (DumpId e) > 0 \<and> (v < BackupVersions ''1.11'' \<longrightarrow> Desc e \<noteq> None) \<and>
     list_all str_ok [Tag e, Desc e, Defn e, DropStmt e, CopyStmt e, Namespace e, Tablespace e, Tableam e,
                      Owner e, FileName e]"

definition max_id :: "int32 \<Rightarrow> int32 \<Rightarrow> int32" where
  "max_id d m = (if sint m < sint d then d else m)"

lemma reads_deps:
  assumes "v > 65536"
  shows "length ds < fuel \<Longrightarrow> reads v (readDeps fuel) (deps_bytes ds) ds id"
proof (induction ds arbitrary: fuel)
  case Nil
  then obtain n where f: "fuel = Suc n" by (cases fuel) auto
  have none: "str_ok None" by (simp add: str_ok_def)
  have "reads v (readDeps fuel) (str_bytes None @ []) [] id"
    unfolding f readDeps.simps by (rule reads_bind_id [OF reads_str [OF assms none]]) (simp add: reads_ret)
  then show ?case by (simp only: deps_bytes_def list.map concat.simps append.simps append_assoc append_Nil append_Nil2)
next
  case (Cons d ds)
  then obtain n where f: "fuel = Suc n" and n: "length ds < n" by (cases fuel) auto
  have ok: "str_ok (Some (FormatInt d))" using length_FormatInt [of d] by (simp add: str_ok_def)
  have "reads v (rd_bind (readDeps n) (\<lambda>ds. rd_ret (d # ds))) (deps_bytes ds) (d # ds) id"
    by (rule reads_map [OF Cons.IH [OF n]])
  then have "reads v (rd_bind (\<lambda>r. bindR (ParseInt32 (FormatInt d)) (\<lambda>d. Inr (d, r)))
      (\<lambda>d. rd_bind (readDeps n) (\<lambda>ds. rd_ret (d # ds)))) ([] @ deps_bytes ds) (d # ds) id"
    by (intro reads_bind_id [OF reads_pure [OF ParseInt32_FormatInt]])
  then have "reads v (readDeps fuel) (str_bytes (Some (FormatInt d)) @ [] @ deps_bytes ds) (d # ds) id"
    unfolding f readDeps.simps by (intro reads_bind_id [OF reads_str [OF assms ok]]) simp
  then show ?case by (simp only: deps_bytes_def list.map concat.simps append.simps append_assoc append_Nil append_Nil2)
qed

lemma length_deps_bytes: "length ds \<le> length (deps_bytes ds)"
  by (induction ds) (auto simp: deps_bytes_def str_bytes_def int_bytes_def)

lemma reads_deps_fuelled:
  assumes "v > 65536"
  shows "reads v (rd_bind rd_get (\<lambda>r. readDeps (Suc (length (rd_buf r))))) (deps_bytes ds) ds id"
  unfolding reads_def
proof (intro allI impI)
  fix r :: Reader and rest
  assume r: "rd_version r = v \<and> rd_intSize r = 4 \<and> rd_buf r = deps_bytes ds @ rest"
  then have "length ds < Suc (length (rd_buf r))" using length_deps_bytes [of ds] by simp
  from readsD [OF reads_deps [OF assms this], of r rest]
  show "rd_bind rd_get (\<lambda>r. readDeps (Suc (length (rd_buf r)))) r = Inr (ds, r\<lparr>rd_buf := rest,
      rd_position := rd_position r + length (deps_bytes ds), rd_maxDumpId := id (rd_maxDumpId r)\<rparr>)"
    using r by (simp add: rd_bind_def rd_get_def del: readDeps.simps)
qed

lemma reads_section:
  assumes "v > 65536" and "v < BackupVersions ''1.11'' \<longrightarrow> d \<noteq> None"
  shows "reads v (readSection v d) (opt_bytes (v \<ge> BackupVersions ''1.11'') (int_bytes s))
    (if v \<ge> BackupVersions ''1.11'' then s else case d of None \<Rightarrow> 0 | Some d \<Rightarrow> section_of_desc d) id"
  using assms by (auto simp: readSection_def opt_bytes_def reads_int reads_ret simp del: BackupVersions_simps)

lemma reads_present:
  assumes "v > 65536"
  shows "reads v (rd_bind readStr (\<lambda>tmp. rd_check (tmp \<noteq> None) m)) (str_bytes (Some (ascii ''false''))) () id"
proof -
  have "reads v (rd_bind readStr (\<lambda>tmp. rd_check (tmp \<noteq> None) m)) (str_bytes (Some (ascii ''false'')) @ []) () id"
    by (rule reads_bind_id [OF reads_str [OF assms]]) (simp_all add: str_ok_def ascii_def reads_check)
  then show ?thesis by simp
qed

lemma ucast_relkind: "(ucast (ucast (k :: byte) :: int32) :: byte) = k"
  by (rule bit_word_eqI) (simp add: bit_simps)

lemma reads_entry_body:
  assumes v: "v > 65536" and ok: "entry_ok v e"
  shows "reads v (readEntryBody v (DumpId e))
    (concat (tl [int_bytes (DumpId e), int_bytes (HadDumper e),
      opt_bytes (v \<ge> BackupVersions ''1.8'') (str_bytes (Some (FormatUint (TableOid (EntryCatalogId e))))),
      str_bytes (Some (FormatUint (CatOid (EntryCatalogId e)))),
      str_bytes (Tag e), str_bytes (Desc e),
      opt_bytes (v \<ge> BackupVersions ''1.11'') (int_bytes (Section e)),
      str_bytes (Defn e), str_bytes (DropStmt e),
      opt_bytes (v \<ge> BackupVersions ''1.3'') (str_bytes (CopyStmt e)),
      opt_bytes (v \<ge> BackupVersions ''1.6'') (str_bytes (Namespace e)),
      opt_bytes (v \<ge> BackupVersions ''1.10'') (str_bytes (Tablespace e)),
      opt_bytes (v \<ge> BackupVersions ''1.14'') (str_bytes (Tableam e)),
      opt_bytes (v \<ge> BackupVersions ''1.16'') (int_bytes (ucast (Relkind e))),
      str_bytes (Owner e),
      opt_bytes (v \<ge> BackupVersions ''1.9'') (str_bytes (Some (ascii ''false''))),
      opt_bytes (v \<ge> BackupVersions ''1.5'') (deps_bytes (Dependencies e)),
      str_bytes (FileName e)])) (norm_entry v e) id"
proof -
  have strs: "str_ok (Tag e)" "str_ok (Desc e)" "str_ok (Defn e)" "str_ok (DropStmt e)" "str_ok (CopyStmt e)"
    "str_ok (Namespace e)" "str_ok (Tablespace e)" "str_ok (Tableam e)" "str_ok (Owner e)" "str_ok (FileName e)"
    using ok by (auto simp: entry_ok_def)
  have desc: "v < BackupVersions ''1.11'' \<longrightarrow> Desc e \<noteq> None"
    using ok by (simp add: entry_ok_def del: BackupVersions_simps)
  have not_less: "(\<not> v < BackupVersions ''1.9'') = (v \<ge> BackupVersions ''1.9'')"
    by (simp add: not_less)
  show ?thesis
    unfolding readEntryBody_def list.sel not_less
    by (rule reads_field [OF reads_int [OF v]]
        reads_field [OF reads_opt [OF reads_oid [OF v]]]
        reads_field [OF reads_oid [OF v]]
        reads_field [OF reads_str [OF v strs(1)]]
        reads_field [OF reads_str [OF v strs(2)]]
        reads_field [OF reads_section [OF v desc]]
        reads_field [OF reads_str [OF v strs(3)]]
        reads_field [OF reads_str [OF v strs(4)]]
        reads_field [OF reads_opt [OF reads_str [OF v strs(5)]]]
        reads_field [OF reads_opt [OF reads_str [OF v strs(6)]]]
        reads_field [OF reads_opt [OF reads_str [OF v strs(7)]]]
        reads_field [OF reads_opt [OF reads_str [OF v strs(8)]]]
        reads_field [OF reads_opt [OF reads_map [OF reads_int [OF v], where f = ucast]]]
        reads_field [OF reads_str [OF v strs(9)]]
        reads_field [OF reads_opt [OF reads_present [OF v]]]
        reads_field [OF reads_opt [OF reads_deps_fuelled [OF v]]]
        reads_field [OF reads_str [OF v strs(10)]])+
       (rule reads_last, cases e, simp add: norm_entry_def ucast_relkind del: BackupVersions_simps)
qed

lemma reads_note_max: "reads v (rd_modify (note_max d)) [] () (max_id d)"
  by (simp add: reads_def rd_modify_def note_max_def max_id_def)

lemma reads_entry:
  assumes v: "v > 65536" and ok: "entry_ok v e"
  shows "reads v (readEntry v) (entry_bytes v e) (norm_entry v e) (max_id (DumpId e))"
proof -
  have pos: "sint (DumpId e) > 0" using ok by (simp add: entry_ok_def)
  have "reads v (readEntry v) (int_bytes (DumpId e) @ [] @ [] @ concat (tl
      [int_bytes (DumpId e), int_bytes (HadDumper e),
      opt_bytes (v \<ge> BackupVersions ''1.8'') (str_bytes (Some (FormatUint (TableOid (EntryCatalogId e))))),
      str_bytes (Some (FormatUint (CatOid (EntryCatalogId e)))),
      str_bytes (Tag e), str_bytes (Desc e),
      opt_bytes (v \<ge> BackupVersions ''1.11'') (int_bytes (Section e)),
      str_bytes (Defn e), str_bytes (DropStmt e),
      opt_bytes (v \<ge> BackupVersions ''1.3'') (str_bytes (CopyStmt e)),
      opt_bytes (v \<ge> BackupVersions ''1.6'') (str_bytes (Namespace e)),
      opt_bytes (v \<ge> BackupVersions ''1.10'') (str_bytes (Tablespace e)),
      opt_bytes (v \<ge> BackupVersions ''1.14'') (str_bytes (Tableam e)),
      opt_bytes (v \<ge> BackupVersions ''1.16'') (int_bytes (ucast (Relkind e))),
      str_bytes (Owner e),
      opt_bytes (v \<ge> BackupVersions ''1.9'') (str_bytes (Some (ascii ''false''))),
      opt_bytes (v \<ge> BackupVersions ''1.5'') (deps_bytes (Dependencies e)),
      str_bytes (FileName e)])) (norm_entry v e) (((id \<circ> id) \<circ> max_id (DumpId e)) \<circ> id)"
    unfolding readEntry_def
    by (intro reads_bind [OF reads_int [OF v]] reads_bind [OF reads_note_max]
        reads_bind [OF reads_check [OF pos]] reads_entry_body [OF v ok])
  then show ?thesis by (simp add: entry_bytes_def)
qed

interpretation entry_field: codec "signed_version v" "writeEntry (signed_version v)" "readEntry (signed_version v)"
    "entry_bytes (signed_version v)" "entry_ok (signed_version v)" "norm_entry (signed_version v)"
    "\<lambda>e. max_id (DumpId e)" for v
  by unfold_locales (auto intro: emits_entry reads_entry signed_version)

section \<open>Header\<close>

definition norm_compression :: "int \<Rightarrow> CompressionSpecification \<Rightarrow> CompressionSpecification" where
  "norm_compression v c =
     (if v \<ge> BackupVersions ''1.15'' then no_compression\<lparr>Algorithm := ucast (ucast (Algorithm c) :: byte)\<rparr>
      else if v \<ge> BackupVersions ''1.2'' then
        if v < BackupVersions ''1.4'' then with_level (ucast (ucast (Level c) :: byte))
        else with_level (Level c)
      else no_compression\<lparr>Level := PgCompressionGzip\<rparr>)"

definition norm_header :: "Header \<Rightarrow> Header" where
  "norm_header h = h
     \<lparr>OffSize := (if Version h \<ge> BackupVersions ''1.7'' then ucast (ucast (OffSize h) :: byte) else IntSize h),
      CompressionSpec := norm_compression (Version h) (CompressionSpec h),
      CrtmDateTime := (if Version h \<ge> BackupVersions ''1.4'' then CrtmDateTime h else zero_time),
      ArchDbName := (if Version h \<ge> BackupVersions ''1.4'' then ArchDbName h else None),
      ArchiveRemoteVersion := (if Version h \<ge> BackupVersions ''1.10'' then ArchiveRemoteVersion h else None),
      ArchiveDumpVersion := (if Version h \<ge> BackupVersions ''1.10'' then ArchiveDumpVersion h else None),
      TocCount := 0, MaxDumpId := 0\<rparr>"

definition header_ok :: "Header \<Rightarrow> bool" where
  "header_ok h \<longleftrightarrow> VersionMajor h = 1 \<and> VersionMinor h \<noteq> 0 \<and>
     Version h = MakeArchiveVersion (VersionMajor h) (VersionMinor h) (VersionRev h) \<and>
     Version h \<le> BackupVersions MaxVersion \<and> IntSize h = 4 \<and> Format h = ArchTar \<and>
     list_all str_ok [ArchDbName h, ArchiveRemoteVersion h, ArchiveDumpVersion h]"

lemma archive_version_after_1_0:
  assumes "(0 :: int) < uint (minor :: byte)" and "(0 :: int) \<le> uint (vrev :: byte)"
  shows "MakeArchiveVersion 1 minor vrev > 65536"
  using assms unfolding MakeArchiveVersion_def uint_1 by presburger

lemma header_version:
  assumes "header_ok h"
  shows "Version h > 65536"
proof -
  have "(0 :: int) < uint (VersionMinor h)"
    using assms by (simp add: header_ok_def word_neq_0_conv word_less_def)
  from archive_version_after_1_0 [OF this, of "VersionRev h"] assms show ?thesis
    by (simp add: header_ok_def)
qed

lemma reads_compression:
  "v > 65536 \<Longrightarrow> reads v (readCompression v) (compression_bytes v c) (norm_compression v c) id"
  unfolding readCompression_def compression_bytes_def norm_compression_def
  by (auto simp: reads_ret simp del: BackupVersions_simps
      intro: reads_map [OF reads_byte, where f = "\<lambda>a. no_compression\<lparr>Algorithm := ucast a\<rparr>"]
        reads_map [OF reads_byte, where f = "\<lambda>l. with_level (ucast l)"]
        reads_map [OF reads_int, where f = with_level])

lemma reads_header_body:
  assumes ok: "header_ok h"
  shows "reads (Version h) (readHeaderBody 1 (VersionMinor h) (VersionRev h) 4)
    (concat
     [opt_bytes (Version h \<ge> BackupVersions ''1.7'') [ucast (OffSize h)],
      [Format h],
      compression_bytes (Version h) (CompressionSpec h),
      opt_bytes (Version h \<ge> BackupVersions ''1.4'') (concat (List.map int_bytes (time_ints (CrtmDateTime h)))),
      opt_bytes (Version h \<ge> BackupVersions ''1.4'') (str_bytes (ArchDbName h)),
      opt_bytes (Version h \<ge> BackupVersions ''1.10'') (str_bytes (ArchiveRemoteVersion h)),
      opt_bytes (Version h \<ge> BackupVersions ''1.10'') (str_bytes (ArchiveDumpVersion h))]) (norm_header h) id"
proof -
  note v = header_version [OF ok]
  have eqs: "MakeArchiveVersion 1 (VersionMinor h) (VersionRev h) = Version h" "ArchTar = Format h"
    "VersionMajor h = 1" "IntSize h = 4"
    using ok by (auto simp: header_ok_def)
  have strs: "str_ok (ArchDbName h)" "str_ok (ArchiveRemoteVersion h)" "str_ok (ArchiveDumpVersion h)"
    using ok by (auto simp: header_ok_def)
  show ?thesis
    unfolding readHeaderBody_def Let_def eqs(1)
    by (rule reads_field [OF reads_opt [OF reads_map [OF reads_byte, where f = ucast]]]
        reads_field [OF reads_byte]
        reads_check_field [OF eqs(2)]
        reads_field [OF reads_compression [OF v]]
        reads_field [OF reads_opt [OF reads_time [OF v]]]
        reads_field [OF reads_opt [OF reads_str [OF v strs(1)]]]
        reads_field [OF reads_opt [OF reads_str [OF v strs(2)]]]
        reads_field [OF reads_opt [OF reads_str [OF v strs(3)]]])+
       (rule reads_last, cases h, use eqs in \<open>simp add: norm_header_def del: BackupVersions_simps\<close>)
qed

lemma has_rev_header: "header_ok h \<Longrightarrow> has_rev 1 (VersionMinor h)"
  by (simp add: header_ok_def has_rev_def word_neq_0_conv)

lemma readPreamble_written:
  assumes "header_ok h"
  shows "readPreamble (NewReader (magic @ [1, VersionMinor h, VersionRev h, 4] @ rest)) =
    Inr ((1, VersionMinor h, VersionRev h, 4),
      \<lparr>rd_buf = rest, rd_intSize = 4, rd_version = Version h, rd_position = 9, rd_maxDumpId = 0\<rparr>)"
proof -
  have v: "MakeArchiveVersion 1 (VersionMinor h) (VersionRev h) = Version h" "Version h \<le> 69632"
    using assms by (auto simp: header_ok_def MaxVersion_def)
  have "65536 < Version h" by (rule header_version [OF assms])
  with v has_rev_header [OF assms] show ?thesis
    by (simp add: readPreamble_def rd_bind_def readMagic_def readBytes_def NewReader_def magic_def
        rd_when_def readByte_def rd_ret_def rd_modify_def rd_check_def MaxVersion_def Let_def word_less_nat_alt)
qed

lemma header_bytes_split:
  assumes "header_ok h"
  shows "header_bytes h = magic @ [1, VersionMinor h, VersionRev h, 4] @ concat
     [opt_bytes (Version h \<ge> BackupVersions ''1.7'') [ucast (OffSize h)],
      [Format h],
      compression_bytes (Version h) (CompressionSpec h),
      opt_bytes (Version h \<ge> BackupVersions ''1.4'') (concat (List.map int_bytes (time_ints (CrtmDateTime h)))),
      opt_bytes (Version h \<ge> BackupVersions ''1.4'') (str_bytes (ArchDbName h)),
      opt_bytes (Version h \<ge> BackupVersions ''1.10'') (str_bytes (ArchiveRemoteVersion h)),
      opt_bytes (Version h \<ge> BackupVersions ''1.10'') (str_bytes (ArchiveDumpVersion h))]"
proof -
  have "VersionMajor h = 1" "IntSize h = 4" using assms by (simp_all add: header_ok_def)
  with has_rev_header [OF assms] show ?thesis
    by (simp add: header_bytes_def opt_bytes_def del: BackupVersions_simps)
qed

lemma readHeader_written:
  assumes "header_ok h"
  shows "\<exists>pos. readHeader (NewReader (header_bytes h @ rest)) = Inr (norm_header h,
      \<lparr>rd_buf = rest, rd_intSize = 4, rd_version = Version h, rd_position = pos, rd_maxDumpId = 0\<rparr>)"
  unfolding header_bytes_split [OF assms] readHeader_def rd_bind_def append_assoc
  by (subst readPreamble_written [OF assms])
     (auto simp: readsD [OF reads_header_body [OF assms]] simp del: BackupVersions_simps concat.simps)

section \<open>Entries of a table of contents\<close>

definition toc_ok :: "Header \<Rightarrow> Entry list \<Rightarrow> bool" where
  "toc_ok h es \<longleftrightarrow> header_ok h \<and> list_all (entry_ok (Version h)) es \<and> length es < 2 ^ 31"

lemma readEntries_written:
  assumes "toc_ok h es" and "rd_version r = Version h" and "rd_intSize r = 4"
    and "rd_buf r = int_bytes (word_of_nat (length es)) @ concat (List.map (entry_bytes (Version h)) es)"
  shows "\<exists>pos. readEntries r = Inr (List.map (norm_entry (Version h)) es,
     r\<lparr>rd_buf := [], rd_position := pos,
       rd_maxDumpId := fold (\<lambda>e. max_id (DumpId e)) es (rd_maxDumpId r)\<rparr>)"
proof -
  let ?n = "word_of_nat (length es) :: int32"
  have v: "Version h > 65536" and n: "sint ?n = int (length es)"
    using assms(1) header_version by (auto simp: toc_ok_def intro: sint_length)
  from readsD [OF reads_int [OF v] assms(2-4)]
  have i: "readInt r = Inr (?n, r\<lparr>rd_buf := concat (List.map (entry_bytes (Version h)) es),
      rd_position := rd_position r + length (int_bytes ?n)\<rparr>)"
    by simp
  have "reads (Version h) (rd_rep (length es) (readEntry (Version h)))
      (concat (List.map (entry_bytes (Version h)) es)) (List.map (norm_entry (Version h)) es)
      (fold (\<lambda>e. max_id (DumpId e)) es)"
    using entry_field.list_reads [where v = "Version h" and xs = es] assms(1)
    by (simp add: signed_version(2) [OF v] toc_ok_def del: rd_rep.simps)
  from readsD [OF this, of "r\<lparr>rd_buf := concat (List.map (entry_bytes (Version h)) es),
      rd_position := rd_position r + length (int_bytes ?n)\<rparr>" "[]"] assms(2,3)
  show ?thesis
    by (auto simp: readEntries_def rd_bind_def i n readEntryLoop_def simp del: rd_rep.simps)
qed

definition norm_toc :: "Header \<Rightarrow> Entry list \<Rightarrow> Toc" where
  "norm_toc h es =
     \<lparr>TocHeader = Some ((norm_header h)\<lparr>TocCount := word_of_nat (length es),
        MaxDumpId := fold (\<lambda>e. max_id (DumpId e)) es 0\<rparr>),
      Entries = Some (List.map (norm_entry (Version h)) es)\<rparr>"

lemma Reader_Read_written:
  assumes "toc_ok h es"
  shows "Reader_Read (NewReader (toc_bytes h es)) = Inr (norm_toc h es, NewReader [])"
proof -
  have h: "header_ok h" using assms by (simp add: toc_ok_def)
  let ?eb = "int_bytes (word_of_nat (length es)) @ concat (List.map (entry_bytes (Version h)) es)"
  obtain pos where hd: "readHeader (NewReader (toc_bytes h es)) = Inr (norm_header h,
      \<lparr>rd_buf = ?eb, rd_intSize = 4, rd_version = Version h, rd_position = pos, rd_maxDumpId = 0\<rparr>)"
    using readHeader_written [OF h, of ?eb] by (auto simp: toc_bytes_def)
  let ?r = "\<lparr>rd_buf = ?eb, rd_intSize = 4, rd_version = Version h, rd_position = pos, rd_maxDumpId = 0\<rparr>"
  obtain pos' where "readEntries ?r = Inr (List.map (norm_entry (Version h)) es,
     ?r\<lparr>rd_buf := [], rd_position := pos', rd_maxDumpId := fold (\<lambda>e. max_id (DumpId e)) es 0\<rparr>)"
    using readEntries_written [OF assms, of ?r] by auto
  with hd show ?thesis
    by (simp add: Reader_Read_def rd_bind_def rd_get_def rd_modify_def rd_ret_def norm_toc_def
        Reader_prune_def NewReader_def)
qed

section \<open>What the writer leaves\<close>

text \<open>
  Whatever the header says of the size of the integers, an operation of the writer appends the same bytes to every
  sink that has room, and the part that fits to a sink that has not.
\<close>

definition cuts :: "int32 \<Rightarrow> int \<Rightarrow> wr \<Rightarrow> bool" where
  "cuts n v m \<longleftrightarrow> (\<exists>bs. emits n v m bs)"

lemma cutsI: "emits n v m bs \<Longrightarrow> cuts n v m"
  by (auto simp: cuts_def)

lemma cuts_Cons: "cuts n v m \<Longrightarrow> cuts n v (wr_seq ms) \<Longrightarrow> cuts n v (wr_seq (m # ms))"
  by (auto simp: cuts_def intro: emits_Cons)

lemma cuts_when: "cuts n v m \<Longrightarrow> cuts n v (wr_when c m)"
  by (auto simp: cuts_def intro: emits_when)

lemma cuts_list: "(\<And>m. m \<in> set ms \<Longrightarrow> cuts n v m) \<Longrightarrow> cuts n v (wr_seq ms)"
  by (induction ms) (auto intro: cuts_Cons cutsI [OF emits_Nil])

lemmas cuts_basic = cutsI [OF emits_buf] cutsI [OF emits_byte] cutsI [OF emits_Nil] cutsI [OF emits_skip]
  cutsI [OF emits_int_size]

lemma cuts_str: "cuts n v (writeStr s)"
  by (cases s) (auto simp: writeStr_def intro: cuts_Cons cuts_basic)

lemma cuts_compression: "cuts n v (writeCompression v' c)"
  by (simp add: writeCompression_def cuts_basic del: BackupVersions_simps)

lemma cuts_header: "cuts n v (writeHeader h)"
  unfolding writeHeader_def
  by (intro cuts_Cons cuts_when cuts_basic cuts_str cuts_compression cuts_list) (auto intro: cuts_basic)

lemma cuts_entry: "cuts n v (writeEntry v' e)"
  unfolding writeEntry_def
  by (intro cuts_Cons cuts_when cuts_basic cuts_str cuts_list) (auto intro: cuts_str)

lemma cuts_entries: "cuts n v (writeEntries es)"
proof -
  have "cuts n v (wr_seq (writeInt (word_of_nat (length es)) # List.map (writeEntry v) es))"
    by (intro cuts_list) (auto intro: cuts_basic cuts_entry)
  then show ?thesis by (simp add: cuts_def emits_def writeEntries_def)
qed

lemma Writer_Write_emits:
  assumes "Entries t = Some es" and "TocHeader t = Some h"
    and "emits (IntSize h) (Version h) (wr_seq [writeHeader h, writeEntries es]) bs"
  shows "Writer_Write w t =
    (Writer_prune (w\<lparr>w_out := w_out w @ take (w_limit w - length (w_out w)) bs\<rparr>),
     if length bs \<le> w_limit w - length (w_out w) then None else Some (Err ''write''))"
proof -
  obtain p where "wr_seq [writeHeader h, writeEntries es] (w\<lparr>w_intSize := IntSize h, w_version := Version h\<rparr>) =
      (w\<lparr>w_intSize := IntSize h, w_version := Version h,
         w_out := w_out w @ take (w_limit w - length (w_out w)) bs, w_position := p\<rparr>,
       if length bs > w_limit w - length (w_out w) then Some (Err ''write'') else None)"
    using emitsD [OF assms(3), of "w\<lparr>w_intSize := IntSize h, w_version := Version h\<rparr>"] by auto
  then show ?thesis by (simp add: Writer_Write_def assms(1,2) Writer_prune_def)
qed

lemma emits_toc: "emits 4 (Version h) (wr_seq [writeHeader h, writeEntries es]) (toc_bytes h es)"
  using emits_Cons [OF emits_header emits_Cons [OF emits_entries emits_Nil]] by (simp add: toc_bytes_def)

lemma toc_ok_IntSize: "toc_ok h es \<Longrightarrow> IntSize h = 4"
  by (simp add: toc_ok_def header_ok_def)

text \<open>
  Claim C3. Without entries or without a header the writer returns the error and is left as it was. Otherwise there are
  bytes of the table of contents, the same for every writer, such that every writer, whatever its sink has accepted
  before and has room for, leaves exactly the part of them that fits, is reset, and returns an error if and only if
  they do not all fit: an error never skips or repeats bytes. For a table of contents in the range of the format, whose
  integers in particular are of four bytes, these bytes are what the reader reads back as the table of contents, up to
  the fields its version does not store. Before an error what is left is thus the beginning of a readable file.
\<close>

theorem writer_cuts_readable_bytes:
  "case (Entries t, TocHeader t) of
     (None, _) \<Rightarrow> Writer_Write w0 t = (w0, Some (Err ''entries are nil''))
   | (Some es, None) \<Rightarrow> Writer_Write w0 t = (w0, Some (Err ''header is nil''))
   | (Some es, Some h) \<Rightarrow>
       \<exists>bs. (\<forall>w. Writer_Write w t =
              (Writer_prune (w\<lparr>w_out := w_out w @ take (w_limit w - length (w_out w)) bs\<rparr>),
               if length bs \<le> w_limit w - length (w_out w) then None else Some (Err ''write''))) \<and>
            (toc_ok h es \<longrightarrow> Reader_Read (NewReader bs) = Inr (norm_toc h es, NewReader []))"
proof (cases "\<exists>es h. Entries t = Some es \<and> TocHeader t = Some h")
  case False
  then show ?thesis by (auto simp: Writer_Write_def split: option.split)
next
  case True
  then obtain es h where t: "Entries t = Some es" "TocHeader t = Some h" by blast
  let ?ok = "\<lambda>bs. toc_ok h es \<longrightarrow> Reader_Read (NewReader bs) = Inr (norm_toc h es, NewReader [])"
  have "\<exists>bs. emits (IntSize h) (Version h) (wr_seq [writeHeader h, writeEntries es]) bs \<and> ?ok bs"
  proof (cases "toc_ok h es")
    case True
    with emits_toc [of h es] Reader_Read_written [OF True] toc_ok_IntSize [OF True] show ?thesis by auto
  next
    case False
    have "cuts (IntSize h) (Version h) (wr_seq [writeHeader h, writeEntries es])"
      by (intro cuts_Cons cuts_header cuts_entries cuts_basic)
    with False show ?thesis by (simp add: cuts_def)
  qed
  then obtain bs where "emits (IntSize h) (Version h) (wr_seq [writeHeader h, writeEntries es]) bs" "?ok bs"
    by blast
  with Writer_Write_emits [OF t] have "\<exists>bs. (\<forall>w. Writer_Write w t =
      (Writer_prune (w\<lparr>w_out := w_out w @ take (w_limit w - length (w_out w)) bs\<rparr>),
       if length bs \<le> w_limit w - length (w_out w) then None else Some (Err ''write''))) \<and> ?ok bs"
    by blast
  with t show ?thesis by (simp only: prod.case option.case)
qed


definition sample_header :: Header where
  "sample_header =
     \<lparr>VersionMajor = 1, VersionMinor = 14, VersionRev = 0, Version = 69120, IntSize = 4, OffSize = 8,
      Format = ArchTar, CompressionSpec = with_level (- 1), CrtmDateTime = zero_time\<lparr>TmYear := 123\<rparr>,
      ArchDbName = Some [0x64, 0x62], ArchiveRemoteVersion = None, ArchiveDumpVersion = Some [],
      TocCount = 0, MaxDumpId = 0\<rparr>"

definition sample_entry :: "int32 \<Rightarrow> Entry" where
  "sample_entry i =
     \<lparr>EntryCatalogId = \<lparr>TableOid = 1259, CatOid = 16384\<rparr>, DumpId = i, Section = SectionData, HadDumper = 1,
      Tag = Some [0x74], Namespace = Some [0x70], Tablespace = None, Tableam = None, Owner = Some [0x6F],
      Desc = Some (ascii ''TABLE DATA''), Defn = None, DropStmt = None, CopyStmt = Some [0x63],
      Dependencies = [215, - 1], NDeps = 2, FileName = Some [0x66], Relkind = 0, DataDumper = 0,
      DataLength = 0\<rparr>"

lemma sample_toc_ok: "toc_ok sample_header [sample_entry 5, sample_entry 3]"
  by (simp add: toc_ok_def header_ok_def entry_ok_def sample_header_def sample_entry_def str_ok_def
      MaxVersion_def MakeArchiveVersion_def ascii_def)

lemma sample_toc_length: "length (toc_bytes sample_header [sample_entry 5, sample_entry 3]) \<le> 1000"
proof -
  have "length (str_bytes (Some (FormatUint (w :: 32 word)))) \<le> 15" for w
    using length_FormatUint [of w] by (simp add: str_bytes_def int_bytes_def)
  moreover have "length (str_bytes (Some (FormatInt (w :: 32 word)))) \<le> 16" for w
    using length_FormatInt [of w] by (simp add: str_bytes_def int_bytes_def)
  ultimately have b: "length (str_bytes (Some (FormatUint (1259 :: 32 word)))) \<le> 15"
    "length (str_bytes (Some (FormatUint (16384 :: 32 word)))) \<le> 15"
    "length (str_bytes (Some (FormatInt (215 :: 32 word)))) \<le> 16"
    "length (str_bytes (Some (FormatInt (- 1 :: 32 word)))) \<le> 16"
    by blast+
  have i: "length (int_bytes j) = 5" for j by (simp add: int_bytes_def)
  have s: "length (str_bytes None) = 5" "length (str_bytes (Some [])) = 5"
    "length (str_bytes (Some [a])) = 6" "length (str_bytes (Some [a, c])) = 7"
    "length (str_bytes (Some (ascii ''false''))) = 10" "length (str_bytes (Some (ascii ''TABLE DATA''))) = 15" for a c
    by (simp_all add: str_bytes_def i ascii_def)
  have e: "length (entry_bytes 69120 (sample_entry k)) \<le> 300" for k
    using b by (simp add: entry_bytes_def opt_bytes_def deps_bytes_def sample_entry_def i s)
  have h: "length (header_bytes sample_header) \<le> 300"
    by (simp add: header_bytes_def opt_bytes_def sample_header_def i s magic_def has_rev_def
        compression_bytes_def time_ints_def)
  show ?thesis
    using e [of 5] e [of 3] h by (simp add: toc_bytes_def i sample_header_def)
qed


text \<open>A sink with room for three bytes: the writer leaves the first three of a file that is read back.\<close>

theorem writer_cuts_readable_bytes_witness:
  "\<exists>bs. Writer_Write (NewWriter 3)
      \<lparr>TocHeader = Some sample_header, Entries = Some [sample_entry 5, sample_entry 3]\<rparr> =
      (NewWriter 3\<lparr>w_out := take 3 bs\<rparr>, if length bs \<le> 3 then None else Some (Err ''write'')) \<and>
    Reader_Read (NewReader bs) = Inr (norm_toc sample_header [sample_entry 5, sample_entry 3], NewReader [])"
proof -
  let ?t = "\<lparr>TocHeader = Some sample_header, Entries = Some [sample_entry 5, sample_entry 3]\<rparr>"
  from writer_cuts_readable_bytes [where t = ?t] obtain bs where
    w: "\<And>w. Writer_Write w ?t = (Writer_prune (w\<lparr>w_out := w_out w @ take (w_limit w - length (w_out w)) bs\<rparr>),
       if length bs \<le> w_limit w - length (w_out w) then None else Some (Err ''write''))"
    and r: "toc_ok sample_header [sample_entry 5, sample_entry 3] \<longrightarrow>
      Reader_Read (NewReader bs) = Inr (norm_toc sample_header [sample_entry 5, sample_entry 3], NewReader [])"
    by auto
  from w [of "NewWriter 3"] r sample_toc_ok show ?thesis
    by (intro exI [of _ bs]) (simp add: NewWriter_def Writer_prune_def)
qed

lemma sample_max_dump_id:
  "map_option MaxDumpId (TocHeader (norm_toc sample_header [sample_entry 5, sample_entry 3])) = Some 5"
  by (simp add: norm_toc_def max_id_def sample_entry_def)

end
