(* ===== verification/SubsetTypes.thy ===== *)
theory SubsetTypes
  imports Prelude
begin

text \<open>
  Data of the subset package (\<^verbatim>\<open>internal/db/postgres/subset\<close>): tables, keys, links, edges of the reference
  graph, components and the edges of the condensed graph. Vertices are indices into the list of tables. Of
  \<^verbatim>\<open>entries.Table\<close> only the fields this package uses are kept. Go strings are \<open>string\<close>s; a Go map whose
  iteration order matters is a list of pairs in the order of the iteration.
\<close>

record TableColumn =
  col_Name :: string
  col_TypeName :: string
  col_IsGenerated :: bool

record Table =
  t_Schema :: string
  t_Name :: string
  t_Oid :: "32 word"
  t_PrimaryKey :: "string list"
  t_SubsetConds :: "string list"
  t_Columns :: "TableColumn list"

record Key =
  key_Name :: string
  key_Expression :: string

record TableLink =
  link_idx :: nat
  link_table :: Table
  link_keys :: "Key list"
  polymorphicExprs :: "string list"

record Edge =
  edge_id :: nat
  edge_idx :: nat
  edge_isNullable :: bool
  edge_from :: TableLink
  edge_to :: TableLink

text \<open>\<^verbatim>\<open>CycleEdge\<close> links two cycle groups that have tables in common.\<close>

record CycleEdge =
  ce_id :: nat
  ce_from :: string
  ce_to :: string
  ce_tables :: "Table list"

record Component =
  c_id :: nat
  componentGraph :: "(nat \<times> Edge list) list"
  c_tables :: "(nat \<times> Table) list"
  cycles :: "Edge list list"
  cyclesIdents :: "string list"
  groupedCycles :: "(string \<times> nat list) list"
  groupedCyclesGraph :: "(string \<times> CycleEdge list) list"

record ComponentLink =
  cl_idx :: nat
  cl_component :: Component

record CondensedEdge =
  cond_id :: nat
  cond_from :: ComponentLink
  cond_to :: ComponentLink
  originalEdge :: Edge

section \<open>Keys\<close>

definition dq :: char where
  "dq = CHR 0x22"

definition quoted :: "string \<Rightarrow> string" where
  "quoted s = dq # s @ [dq]"

definition GetKeyReference :: "Key \<Rightarrow> Table \<Rightarrow> string" where
  "GetKeyReference k t =
     (if key_Expression k \<noteq> '''' then key_Expression k
      else quoted (t_Schema t) @ ''.'' @ quoted (t_Name t) @ ''.'' @ quoted (key_Name k))"

definition NewKeysByColumn :: "string list \<Rightarrow> Key list" where
  "NewKeysByColumn cols = List.map (\<lambda>col. \<lparr>key_Name = col, key_Expression = ''''\<rparr>) cols"

text \<open>A referenced column of the configuration has a name and an expression.\<close>

definition NewKeysByReferencedColumn :: "(string \<times> string) list \<Rightarrow> Key list" where
  "NewKeysByReferencedColumn cols =
     List.map (\<lambda>(n, e). \<lparr>key_Name = n, key_Expression = e\<rparr>) cols"

definition NewTableLink :: "nat \<Rightarrow> Table \<Rightarrow> Key list \<Rightarrow> string list \<Rightarrow> TableLink" where
  "NewTableLink i t ks ps = \<lparr>link_idx = i, link_table = t, link_keys = ks, polymorphicExprs = ps\<rparr>"

definition NewEdge :: "nat \<Rightarrow> nat \<Rightarrow> bool \<Rightarrow> TableLink \<Rightarrow> TableLink \<Rightarrow> Edge" where
  "NewEdge i idx nullable a b =
     \<lparr>edge_id = i, edge_idx = idx, edge_isNullable = nullable, edge_from = a, edge_to = b\<rparr>"

definition NewCycleEdge :: "nat \<Rightarrow> string \<Rightarrow> string \<Rightarrow> Table list \<Rightarrow> CycleEdge res" where
  "NewCycleEdge i from to tables =
     (if tables = [] then panic ''empty tables provided for cycle edge''
      else Inr \<lparr>ce_id = i, ce_from = from, ce_to = to, ce_tables = tables\<rparr>)"

definition NewComponentLink :: "nat \<Rightarrow> Component \<Rightarrow> ComponentLink" where
  "NewComponentLink idx c = \<lparr>cl_idx = idx, cl_component = c\<rparr>"

definition NewCondensedEdge :: "nat \<Rightarrow> ComponentLink \<Rightarrow> ComponentLink \<Rightarrow> Edge \<Rightarrow> CondensedEdge" where
  "NewCondensedEdge i from to e = \<lparr>cond_id = i, cond_from = from, cond_to = to, originalEdge = e\<rparr>"

definition condensed_hasPolymorphicExpressions :: "CondensedEdge \<Rightarrow> bool" where
  "condensed_hasPolymorphicExpressions e \<longleftrightarrow>
     length (polymorphicExprs (edge_from (originalEdge e))) > 0 \<or>
     length (polymorphicExprs (edge_to (originalEdge e))) > 0"

section \<open>Samples\<close>

text \<open>A table, a link and an edge used where a theorem is applied to a concrete graph.\<close>

definition sample_table :: "nat \<Rightarrow> Table" where
  "sample_table i =
     \<lparr>t_Schema = ''s'', t_Name = ''t'', t_Oid = word_of_nat (100 + i), t_PrimaryKey = [''id''], t_SubsetConds = [],
      t_Columns = [\<lparr>col_Name = ''id'', col_TypeName = ''int4'', col_IsGenerated = False\<rparr>]\<rparr>"

definition sample_edge :: "nat \<Rightarrow> nat \<Rightarrow> nat \<Rightarrow> Edge" where
  "sample_edge i a b =
     NewEdge i b False (NewTableLink a (sample_table a) (NewKeysByColumn [''ref'']) [])
       (NewTableLink b (sample_table b) (NewKeysByColumn [''id'']) [])"

lemma sample_edge_simps [simp]:
  "edge_id (sample_edge i a b) = i" "edge_idx (sample_edge i a b) = b"
  "link_idx (edge_from (sample_edge i a b)) = a" "link_idx (edge_to (sample_edge i a b)) = b"
  "link_table (edge_to (sample_edge i a b)) = sample_table b"
  by (simp_all add: sample_edge_def NewEdge_def NewTableLink_def)

end
