(* ===== verification/Dfs.thy ===== *)
theory Dfs
  imports Prelude
begin

text \<open>
  Depth-first search as a relation, and what two searches give: the post-order of a search of the graph,
  reversed, and a second search of the reversed graph in that order collect the strongly connected
  components. The recursive Go functions of \<^verbatim>\<open>subset/graph.go\<close> and \<^verbatim>\<open>subset/condenced_edge.go\<close> are shown to
  follow this relation where they are modelled.

  \<open>dfs s ts V V' ps\<close>: visiting the vertices \<open>ts\<close> of the successor function \<open>s\<close>, with \<open>V\<close> visited before, \<open>V'\<close> are
  visited after and \<open>ps\<close> are the vertices finished, in that order.
\<close>

inductive dfs :: "(nat \<Rightarrow> nat list) \<Rightarrow> nat list \<Rightarrow> nat set \<Rightarrow> nat set \<Rightarrow> nat list \<Rightarrow> bool" for s where
  dfs_done: "dfs s [] V V []"
| dfs_seen: "t \<in> V \<Longrightarrow> dfs s ts V V' ps \<Longrightarrow> dfs s (t # ts) V V' ps"
| dfs_new: "t \<notin> V \<Longrightarrow> dfs s (s t) (insert t V) V1 ps \<Longrightarrow> dfs s ts V1 V' qs \<Longrightarrow>
    dfs s (t # ts) V V' (ps @ t # qs)"

inductive_simps dfs_Nil [simp]: "dfs s [] V V' ps"

text \<open>Paths that avoid a set of vertices: all vertices of the path, both ends included, are outside it.\<close>

definition avoids :: "(nat \<Rightarrow> nat list) \<Rightarrow> nat set \<Rightarrow> nat \<Rightarrow> nat \<Rightarrow> bool" where
  "avoids s V = (\<lambda>x y. y \<in> set (s x) \<and> x \<notin> V \<and> y \<notin> V)"

definition reach :: "(nat \<Rightarrow> nat list) \<Rightarrow> nat set \<Rightarrow> nat \<Rightarrow> nat \<Rightarrow> bool" where
  "reach s V x y \<longleftrightarrow> x \<notin> V \<and> y \<notin> V \<and> (avoids s V)\<^sup>*\<^sup>* x y"

lemma reach_refl: "x \<notin> V \<Longrightarrow> reach s V x x"
  by (simp add: reach_def)

lemma reach_trans: "reach s V x y \<Longrightarrow> reach s V y z \<Longrightarrow> reach s V x z"
  by (auto simp: reach_def)

lemma reach_step: "y \<in> set (s x) \<Longrightarrow> x \<notin> V \<Longrightarrow> y \<notin> V \<Longrightarrow> reach s V x y"
  by (auto simp: reach_def avoids_def)

lemma reach_mono: "reach s V x y \<Longrightarrow> W \<subseteq> V \<Longrightarrow> reach s W x y"
  unfolding reach_def by (auto elim!: rtranclp_mono [THEN predicate2D, rotated] simp: avoids_def)

lemma reach_induct [consumes 1, case_names refl step]:
  assumes "reach s V x y" and "x \<notin> V \<Longrightarrow> P x"
    and "\<And>y z. reach s V x y \<Longrightarrow> z \<in> set (s y) \<Longrightarrow> z \<notin> V \<Longrightarrow> P y \<Longrightarrow> P z"
  shows "P y"
proof -
  have "(avoids s V)\<^sup>*\<^sup>* x y" "x \<notin> V" using assms(1) by (simp_all add: reach_def)
  then show ?thesis
  proof (induction rule: rtranclp_induct)
    case base
    then show ?case by (rule assms(2))
  next
    case (step y z)
    then have "y \<notin> V" by (auto elim: rtranclp.cases simp: avoids_def)
    with step show ?case by (intro assms(3) [of y z]) (auto simp: reach_def avoids_def)
  qed
qed

text \<open>A path either avoids a vertex set as well or passes through it.\<close>

lemma reach_split:
  assumes "reach s V x y"
  shows "reach s (V \<union> W) x y \<or> (\<exists>w \<in> W. reach s V x w \<and> reach s V w y)"
  using assms
proof (induction rule: reach_induct)
  case refl
  then show ?case using reach_refl by (cases "x \<in> W") (auto intro: reach_refl)
next
  case (step y z)
  have y: "y \<notin> V" using step(1) by (simp add: reach_def)
  have z: "reach s V y z" using step(2,3) y by (intro reach_step)
  from step(4) show ?case
  proof
    assume r: "reach s (V \<union> W) x y"
    show ?case
    proof (cases "z \<in> W")
      case True
      then show ?thesis using reach_trans [OF step(1) z] reach_refl [OF step(3)] by blast
    next
      case False
      then have "reach s (V \<union> W) y z" using r step(2,3) by (intro reach_step) (auto simp: reach_def)
      with r show ?thesis by (blast intro: reach_trans)
    qed
  next
    assume "\<exists>w\<in>W. reach s V x w \<and> reach s V w y"
    with z show ?case by (blast intro: reach_trans)
  qed
qed

section \<open>What one search visits\<close>

lemma dfs_visited: "dfs s ts V V' ps \<Longrightarrow> V' = V \<union> set ps \<and> set ps \<inter> V = {} \<and> distinct ps"
  by (induction rule: dfs.induct) auto

lemma dfs_closed:
  "dfs s ts V V' ps \<Longrightarrow> set ts \<subseteq> V' \<and> (\<forall>x \<in> set ps. set (s x) \<subseteq> V')"
proof (induction rule: dfs.induct)
  case (dfs_new t V V1 ps ts V' qs)
  have "V1 \<subseteq> V'" "insert t V \<subseteq> V1"
    using dfs_visited [OF dfs_new(2)] dfs_visited [OF dfs_new(3)] by auto
  with dfs_new show ?case by auto
next
  case (dfs_seen t V ts V' ps)
  then show ?case using dfs_visited [OF dfs_seen(2)] by auto
qed auto

lemma dfs_reached:
  "dfs s ts V V' ps \<Longrightarrow> x \<in> set ps \<Longrightarrow> \<exists>t \<in> set ts. reach s V t x"
proof (induction rule: dfs.induct)
  case (dfs_new t V V1 ps ts V' qs)
  from dfs_new.prems consider "x = t" | "x \<in> set ps" | "x \<in> set qs" by auto
  then show ?case
  proof cases
    case 1
    then show ?thesis using dfs_new(1) reach_refl by auto
  next
    case 2
    then obtain u where u: "u \<in> set (s t)" "reach s (insert t V) u x" using dfs_new.IH(1) by blast
    then have "reach s V u x" by (auto intro: reach_mono)
    moreover have "reach s V t u" using u dfs_new(1) by (intro reach_step) (auto simp: reach_def)
    ultimately show ?thesis by (auto intro: reach_trans)
  next
    case 3
    then obtain u where u: "u \<in> set ts" "reach s V1 u x" using dfs_new.IH(2) by blast
    moreover have "V \<subseteq> V1" using dfs_visited [OF dfs_new(2)] by auto
    ultimately show ?thesis by (auto intro: reach_mono)
  qed
qed auto

lemma dfs_reaches:
  assumes "dfs s ts V V' ps" and "t \<in> set ts" and "reach s V t x"
  shows "x \<in> set ps"
  using assms(3)
proof (induction rule: reach_induct)
  case refl
  then show ?case using assms(1,2) dfs_closed dfs_visited by fastforce
next
  case (step y z)
  then show ?case using dfs_closed [OF assms(1)] dfs_visited [OF assms(1)] by auto
qed

text \<open>The finished vertices are exactly those a path reaches that avoids what was visited before.\<close>

lemma dfs_set: "dfs s ts V V' ps \<Longrightarrow> set ps = {x. \<exists>t \<in> set ts. reach s V t x}"
  using dfs_reached dfs_reaches by blast

lemma dfs_closed_under:
  "dfs s ts V V' ps \<Longrightarrow> x \<in> set ps \<Longrightarrow> reach s V x y \<Longrightarrow> y \<in> set ps"
  unfolding dfs_set by (auto intro: reach_trans)

section \<open>The post-order\<close>

definition mutual :: "(nat \<Rightarrow> nat list) \<Rightarrow> nat set \<Rightarrow> nat \<Rightarrow> nat \<Rightarrow> bool" where
  "mutual s V x y \<longleftrightarrow> reach s V x y \<and> reach s V y x"

lemma mutual_mono: "mutual s V x y \<Longrightarrow> W \<subseteq> V \<Longrightarrow> mutual s W x y"
  by (auto simp: mutual_def intro: reach_mono)

lemma mutual_sym: "mutual s V x y \<Longrightarrow> mutual s V y x"
  by (auto simp: mutual_def)

lemma mutual_trans: "mutual s V x y \<Longrightarrow> mutual s V y z \<Longrightarrow> mutual s V x z"
  by (auto simp: mutual_def intro: reach_trans)

text \<open>
  If a finished vertex \<open>x\<close> reaches \<open>y\<close>, then a vertex of the component of \<open>x\<close> is finished no earlier than
  \<open>y\<close>: the one the search entered the component at.
\<close>

definition from_on :: "'a \<Rightarrow> 'a list \<Rightarrow> 'a set" where
  "from_on y xs = set (dropWhile (\<lambda>z. z \<noteq> y) xs)"

lemma from_on_append:
  "from_on y (xs @ ys) = (if y \<in> set xs then from_on y xs \<union> set ys else from_on y ys)"
  unfolding from_on_def by (induction xs) auto

lemma from_on_Cons [simp]: "from_on y (x # xs) = (if x = y then insert x (set xs) else from_on y xs)"
  by (simp add: from_on_def)

lemma from_on_self: "y \<in> set xs \<Longrightarrow> y \<in> from_on y xs"
  by (induction xs) auto

lemma dfs_postorder:
  "dfs s ts V V' ps \<Longrightarrow> x \<in> set ps \<Longrightarrow> y \<in> set ps \<Longrightarrow> reach s V x y \<Longrightarrow>
   \<exists>x' \<in> from_on y ps. mutual s V x x'"
proof (induction arbitrary: x y rule: dfs.induct)
  case (dfs_new t V V1 ps ts V' qs)
  have vis: "V1 = insert t V \<union> set ps" "set ps \<inter> insert t V = {}" "set qs \<inter> V1 = {}"
    using dfs_visited [OF dfs_new(2)] dfs_visited [OF dfs_new(3)] by auto
  have whole: "dfs s [t] V V1 (ps @ [t])"
    using dfs.dfs_new [OF dfs_new(1,2) dfs_done] by simp
  have from_t: "reach s V t u" if "u \<in> set (ps @ [t])" for u
    using dfs_reached [OF whole that] by simp
  have closed: "u \<in> set (ps @ [t])" if "w \<in> set (ps @ [t])" "reach s V w u" for u w
    by (rule dfs_closed_under [OF whole that])
  have self: "mutual s V x x" using dfs_new.prems(3) by (simp add: mutual_def reach_def)
  show ?case
  proof (cases "x \<in> set (ps @ [t])")
    case first: True
    then have y: "y \<in> set (ps @ [t])" using closed dfs_new.prems(3) by blast
    then have t: "t \<in> from_on y (ps @ t # qs)" by (auto simp: from_on_append)
    show ?thesis
    proof (cases "x \<in> set ps \<and> y \<in> set ps \<and> reach s (insert t V) x y")
      case True
      then obtain x' where "x' \<in> from_on y ps" "mutual s (insert t V) x x'"
        using dfs_new.IH(1) by blast
      with True show ?thesis by (auto simp: from_on_append intro: mutual_mono)
    next
      case False
      have "reach s V x t"
      proof (cases "x \<in> set ps \<and> y \<in> set ps")
        case True
        with False have "\<not> reach s (V \<union> {t}) x y" by simp
        with reach_split [OF dfs_new.prems(3), of "{t}"] show ?thesis by blast
      next
        case False
        with first y have "x = t \<or> y = t" by auto
        with dfs_new.prems(3) dfs_new(1) reach_refl show ?thesis by auto
      qed
      with from_t [OF first] t show ?thesis unfolding mutual_def by blast
    qed
  next
    case False
    then have xq: "x \<in> set qs" using dfs_new.prems(1) by auto
    show ?thesis
    proof (cases "y \<in> set (ps @ [t])")
      case True
      then have "set qs \<subseteq> from_on y (ps @ t # qs)" by (auto simp: from_on_append)
      with xq self show ?thesis by blast
    next
      case y: False
      then have yq: "y \<in> set qs" "from_on y (ps @ t # qs) = from_on y qs"
        using dfs_new.prems(2) by (auto simp: from_on_append)
      from reach_split [OF dfs_new.prems(3), of "set (ps @ [t])"] closed y
      have "reach s (V \<union> set (ps @ [t])) x y" by blast
      moreover have "V \<union> set (ps @ [t]) = V1" using vis by auto
      ultimately obtain x' where "x' \<in> from_on y qs" "mutual s V1 x x'"
        using dfs_new.IH(2) [OF xq yq(1)] by blast
      then show ?thesis using vis yq(2) by (auto intro: mutual_mono)
    qed
  qed
qed auto

text \<open>A successor that does not lead back is finished first.\<close>

definition before :: "'a \<Rightarrow> 'a \<Rightarrow> 'a list \<Rightarrow> bool" where
  "before y x xs \<longleftrightarrow> (\<exists>as bs. xs = as @ y # bs \<and> x \<in> set bs)"

lemma before_append:
  "before y x xs \<Longrightarrow> before y x (xs @ ys)" "before y x ys \<Longrightarrow> before y x (xs @ ys)"
  "y \<in> set xs \<Longrightarrow> x \<in> set ys \<Longrightarrow> before y x (xs @ ys)"
proof -
  show "before y x xs \<Longrightarrow> before y x (xs @ ys)" by (fastforce simp: before_def)
  show "before y x ys \<Longrightarrow> before y x (xs @ ys)" unfolding before_def by (metis append_assoc)
  show "y \<in> set xs \<Longrightarrow> x \<in> set ys \<Longrightarrow> before y x (xs @ ys)"
    by (fastforce simp: before_def dest!: split_list [of y xs])
qed

lemma before_rev:
  assumes "before a b xs"
  shows "before b a (rev xs)"
proof -
  obtain as cs ds where "xs = as @ a # cs @ b # ds"
    using assms by (auto simp: before_def dest!: split_list)
  then have "rev xs = rev ds @ b # (rev cs @ a # rev as)" by simp
  then show ?thesis unfolding before_def by (metis in_set_conv_decomp)
qed

lemma before_map: "before a b xs \<Longrightarrow> before (f a) (f b) (List.map f xs)"
  unfolding before_def by (metis image_eqI list.set_map list.simps(9) map_append)

lemma before_concat: "before a b xs \<Longrightarrow> x \<in> set (f a) \<Longrightarrow> y \<in> set (f b) \<Longrightarrow>
  before x y (concat (List.map f xs))"
proof -
  assume "before a b xs" "x \<in> set (f a)" "y \<in> set (f b)"
  then obtain as bs where xs: "xs = as @ a # bs" "b \<in> set bs" by (auto simp: before_def)
  have "before x y (f a @ concat (List.map f bs))"
    using \<open>x \<in> set (f a)\<close> \<open>y \<in> set (f b)\<close> xs(2) by (intro before_append(3)) auto
  then show ?thesis unfolding xs by (simp add: before_append)
qed

lemma dfs_successor_first:
  "dfs s ts V V' ps \<Longrightarrow> x \<in> set ps \<Longrightarrow> y \<in> set (s x) \<Longrightarrow> y \<notin> V \<Longrightarrow> \<not> reach s {} y x \<Longrightarrow> before y x ps"
proof (induction rule: dfs.induct)
  case (dfs_new t V V1 ps ts V' qs)
  have vis: "V1 = insert t V \<union> set ps" using dfs_visited [OF dfs_new(2)] by auto
  have "y \<noteq> x" using dfs_new.prems(4) by (auto intro: reach_refl)
  have y_t: "y \<noteq> t" if "x \<in> set ps"
  proof
    assume "y = t"
    from dfs_reached [OF dfs_new(2) that] obtain u where "u \<in> set (s t)" "reach s (insert t V) u x" by blast
    then have "reach s {} t x" by (auto intro: reach_trans reach_step reach_mono)
    with \<open>y = t\<close> dfs_new.prems(4) show False by simp
  qed
  from dfs_new.prems(1) consider "x \<in> set ps" | "x = t" | "x \<in> set qs" by auto
  then show ?case
  proof cases
    case 1
    with y_t dfs_new.IH(1) dfs_new.prems(2-4) show ?thesis by (auto intro: before_append)
  next
    case 2
    then have "y \<in> V1" using dfs_closed [OF dfs_new(2)] dfs_new.prems(2) by auto
    with vis 2 \<open>y \<noteq> x\<close> dfs_new.prems(3) have "y \<in> set ps" by auto
    with 2 show ?thesis by (auto intro: before_append)
  next
    case 3
    show ?thesis
    proof (cases "y \<in> V1")
      case True
      with vis dfs_new.prems(3) have "y \<in> set (ps @ [t])" by auto
      with 3 have "before y x ((ps @ [t]) @ qs)" by (intro before_append(3)) auto
      then show ?thesis by simp
    next
      case False
      with 3 dfs_new.IH(2) dfs_new.prems(2,4) have "before y x qs" by blast
      then have "before y x ((ps @ [t]) @ qs)" by (rule before_append(2))
      then show ?thesis by simp
    qed
  qed
qed auto

section \<open>Components\<close>

text \<open>
  The second phase: \<open>components r os V cs\<close> visits the vertices \<open>os\<close> in order in the graph \<open>r\<close>; every search that
  starts at an unvisited vertex yields one member of \<open>cs\<close>.
\<close>

inductive components :: "(nat \<Rightarrow> nat list) \<Rightarrow> nat list \<Rightarrow> nat set \<Rightarrow> nat list list \<Rightarrow> bool" for r where
  comp_done: "components r [] V []"
| comp_seen: "v \<in> V \<Longrightarrow> components r os V cs \<Longrightarrow> components r (v # os) V cs"
| comp_new: "v \<notin> V \<Longrightarrow> dfs r [v] V V' ps \<Longrightarrow> components r os V' cs \<Longrightarrow>
    components r (v # os) V (ps # cs)"

lemma components_cover: "components r os V cs \<Longrightarrow> set os \<subseteq> V \<union> \<Union> (set ` set cs)"
proof (induction rule: components.induct)
  case (comp_new v V V' ps os cs)
  have "v \<in> set ps" using dfs_set [OF comp_new(2)] reach_refl [OF comp_new(1)] by simp
  moreover have "V' = V \<union> set ps" using dfs_visited [OF comp_new(2)] by blast
  ultimately show ?case using comp_new.IH by auto
qed auto

lemma components_member: "components r os V cs \<Longrightarrow> qs \<in> set cs \<Longrightarrow> \<exists>v \<in> set os. v \<in> set qs"
proof (induction rule: components.induct)
  case (comp_new v V V' ps os cs)
  have "v \<in> set ps" using dfs_set [OF comp_new(2)] reach_refl [OF comp_new(1)] by simp
  with comp_new show ?case by auto
qed auto

lemma components_outside: "components r os V cs \<Longrightarrow> ps \<in> set cs \<Longrightarrow> set ps \<inter> V = {}"
proof (induction rule: components.induct)
  case (comp_new v V V' qs os cs)
  then show ?case using dfs_visited [OF comp_new(2)] by auto
qed auto

text \<open>The two graphs are each other's reverse.\<close>

definition transposed :: "(nat \<Rightarrow> nat list) \<Rightarrow> (nat \<Rightarrow> nat list) \<Rightarrow> bool" where
  "transposed s r \<longleftrightarrow> (\<forall>x y. x \<in> set (r y) \<longleftrightarrow> y \<in> set (s x))"

lemma reach_transposed: "transposed s r \<Longrightarrow> reach r V x y \<longleftrightarrow> reach s V y x"
proof -
  assume t: "transposed s r"
  then have "avoids r V = (avoids s V)\<inverse>\<inverse>"
    by (auto simp: transposed_def avoids_def fun_eq_iff)
  then show ?thesis by (auto simp: reach_def rtranclp_conversep)
qed

text \<open>A set of vertices that is a union of components.\<close>

definition saturated :: "(nat \<Rightarrow> nat list) \<Rightarrow> nat set \<Rightarrow> bool" where
  "saturated s V \<longleftrightarrow> (\<forall>x y. x \<in> V \<longrightarrow> mutual s {} x y \<longrightarrow> y \<in> V)"

lemma mutual_avoids_saturated:
  assumes "saturated s V" and "v \<notin> V" and "mutual s {} v x"
  shows "reach s V x v"
proof -
  have "reach s {} x v" using assms(3) by (simp add: mutual_def)
  from reach_split [OF this, of V] show ?thesis
  proof
    assume "\<exists>w\<in>V. reach s {} x w \<and> reach s {} w v"
    then obtain w where "w \<in> V" "mutual s {} w v"
      using assms(3) by (auto simp: mutual_def intro: reach_trans)
    with assms(1,2) show ?thesis by (auto simp: saturated_def)
  qed simp
qed

text \<open>
  One search of the second phase collects the component of its root, when everything that was finished
  after the root has been visited already.
\<close>

lemma second_search:
  assumes run: "dfs s ts {} U ps" and all: "set ps = UNIV \<inter> U" and tr: "transposed s r"
    and search: "dfs r [v] V V' qs" and v: "v \<notin> V" and sat: "saturated s V" and vU: "v \<in> set ps"
    and later: "from_on v ps \<subseteq> insert v V" and inU: "\<And>x. reach s {} x v \<Longrightarrow> x \<in> set ps"
  shows "set qs = {x. mutual s {} v x}"
proof -
  have qs: "set qs = {x. reach s V x v}"
    using dfs_set [OF search] reach_transposed [OF tr] by simp
  show ?thesis
  proof (intro set_eqI iffI; clarsimp simp: qs)
    fix x
    assume x: "reach s V x v"
    then have r: "reach s {} x v" by (rule reach_mono) simp
    with dfs_postorder [OF run inU [OF r] vU] obtain x' where x': "x' \<in> from_on v ps" "mutual s {} x x'"
      by blast
    show "mutual s {} v x"
    proof (cases "x' = v")
      case True
      with x'(2) show ?thesis by (auto simp: mutual_def)
    next
      case False
      with x'(1) later have "x' \<in> V" by auto
      with sat x'(2) have "x \<in> V" unfolding saturated_def by (blast intro: mutual_sym)
      with x show ?thesis by (simp add: reach_def)
    qed
  next
    fix x
    assume "mutual s {} v x"
    with sat v show "reach s V x v" by (rule mutual_avoids_saturated)
  qed
qed

lemma from_on_rev_prefix:
  assumes "distinct ps" and "rev ps = as @ v # bs"
  shows "from_on v ps = insert v (set as)"
proof -
  have ps: "ps = rev bs @ v # rev as" using arg_cong [OF assms(2), of rev] by simp
  with assms(1) have "v \<notin> set (rev bs)" by auto
  with ps show ?thesis by (simp add: from_on_append)
qed

lemma saturated_add: "saturated s V \<Longrightarrow> saturated s (V \<union> {x. mutual s {} v x})"
  unfolding saturated_def by (blast intro: mutual_trans)

text \<open>
  The second phase after the first: every search collects one component, and no edge leads back from a later
  component to an earlier one.
\<close>

lemma components_scc:
  assumes run: "dfs s ts {} U ps" and tr: "transposed s r"
    and inU: "\<And>x y. reach s {} x y \<Longrightarrow> y \<in> set ps \<Longrightarrow> x \<in> set ps"
  shows "components r os V cs \<Longrightarrow> rev ps = as @ os \<Longrightarrow> saturated s V \<Longrightarrow> set as \<subseteq> V \<Longrightarrow>
    \<forall>qs \<in> set cs. \<exists>v. set qs = {x. mutual s {} v x} \<and> v \<in> set qs"
proof (induction arbitrary: as rule: components.induct)
  case (comp_new v V V' qs os cs)
  have d: "distinct ps" using dfs_visited [OF run] by blast
  have vps: "v \<in> set ps" using comp_new.prems(1) by (metis in_set_conv_decomp set_rev)
  have U: "set ps = UNIV \<inter> U" using dfs_visited [OF run] by simp
  have "from_on v ps \<subseteq> insert v V"
    using from_on_rev_prefix [OF d comp_new.prems(1)] comp_new.prems(3) by auto
  with second_search [OF run U tr comp_new(2,1) comp_new.prems(2) vps] inU vps
  have qs: "set qs = {x. mutual s {} v x}" by blast
  have "V' = V \<union> set qs" using dfs_visited [OF comp_new(2)] by blast
  with qs comp_new.prems(2) have "saturated s V'" using saturated_add by simp
  moreover have v: "v \<in> set qs" using dfs_set [OF comp_new(2)] reach_refl [OF comp_new(1)] by simp
  moreover have "set (as @ [v]) \<subseteq> V'" using comp_new.prems(3) \<open>V' = V \<union> set qs\<close> v by auto
  moreover have "rev ps = (as @ [v]) @ os" using comp_new.prems(1) by simp
  ultimately have "\<forall>qs \<in> set cs. \<exists>v. set qs = {x. mutual s {} v x} \<and> v \<in> set qs"
    using comp_new.IH by blast
  with qs v show ?case by auto
next
  case (comp_seen v V os cs)
  have "rev ps = (as @ [v]) @ os" "set (as @ [v]) \<subseteq> V" using comp_seen by auto
  with comp_seen show ?case by blast
qed simp

lemma components_ordered:
  assumes "transposed s r"
  shows "components r os V cs \<Longrightarrow>
    sorted_wrt (\<lambda>p q. (\<forall>x \<in> set q. \<forall>y \<in> set p. y \<notin> set (s x)) \<and> set p \<inter> set q = {}) cs"
proof (induction rule: components.induct)
  case (comp_new v V V' ps os cs)
  have vis: "V' = V \<union> set ps" using dfs_visited [OF comp_new(2)] by blast
  have "y \<notin> set (s x)" if "q \<in> set cs" "x \<in> set q" "y \<in> set ps" for q x y
  proof
    assume "y \<in> set (s x)"
    then have "x \<in> set (r y)" using assms by (simp add: transposed_def)
    then have "x \<in> V'" using dfs_closed [OF comp_new(2)] that(3) by blast
    with components_outside [OF comp_new(3) that(1)] that(2) show False by auto
  qed
  moreover have "set ps \<inter> set q = {}" if "q \<in> set cs" for q
    using components_outside [OF comp_new(3) that] vis by auto
  ultimately show ?case using comp_new.IH by auto
qed auto

end
