(* ===== verification/SubsetScc.thy ===== *)
theory SubsetScc
  imports SubsetTypes Dfs
begin

text \<open>
  The searches of \<^verbatim>\<open>subset/graph.go\<close> and \<^verbatim>\<open>subset/condenced_edge.go\<close>: \<open>findScc\<close> numbers the strongly connected
  components of the reference graph, \<open>sortCondensedEdges\<close> orders the condensed graph. The recursive functions
  take fuel; the number of vertices is always enough (\<open>dfs_impl.run_total\<close>). An index outside a slice is a
  panic.
\<close>

definition sscVertexIsVisited :: int where "sscVertexIsVisited = 1"
definition sscVertexIsNotVisited :: int where "sscVertexIsNotVisited = - 1"

fun topologicalSortDfs ::
  "nat \<Rightarrow> Edge list list \<Rightarrow> nat \<Rightarrow> int list \<times> nat list \<Rightarrow> (int list \<times> nat list) res" where
  "topologicalSortDfs 0 g v st = err ''out of fuel''"
| "topologicalSortDfs (Suc n) g v (visited, order) =
     (if v \<ge> length visited \<or> v \<ge> length g then panic ''index out of range''
      else bindR
        (foldR (\<lambda>to st.
            if edge_idx to \<ge> length (fst st) then panic ''index out of range''
            else if fst st ! edge_idx to = sscVertexIsNotVisited then topologicalSortDfs n g (edge_idx to) st
            else Inr st)
          (g ! v) (visited[v := sscVertexIsVisited], order))
        (\<lambda>(visited', order'). Inr (visited', order' @ [v])))"

fun markComponentDfs :: "nat \<Rightarrow> nat list list \<Rightarrow> int \<Rightarrow> nat \<Rightarrow> int list \<Rightarrow> int list res" where
  "markComponentDfs 0 rg c v visited = err ''out of fuel''"
| "markComponentDfs (Suc n) rg c v visited =
     (if v \<ge> length visited \<or> v \<ge> length rg then panic ''index out of range''
      else foldR (\<lambda>to visited'.
          if to \<ge> length visited' then panic ''index out of range''
          else if visited' ! to = sscVertexIsNotVisited then markComponentDfs n rg c to visited'
          else Inr visited')
        (rg ! v) (visited[v := c]))"

definition eraseVisited :: "int list \<Rightarrow> int list" where
  "eraseVisited visited = List.map (\<lambda>_. sscVertexIsNotVisited) visited"

definition topological_order :: "Edge list list \<Rightarrow> int list \<Rightarrow> (int list \<times> nat list) res" where
  "topological_order g visited =
     foldR (\<lambda>v st.
         if v \<ge> length (fst st) then panic ''index out of range''
         else if fst st ! v = sscVertexIsNotVisited then topologicalSortDfs (length g) g v st
         else Inr st)
       [0..<length g] (eraseVisited visited, [])"

definition mark_components :: "nat list list \<Rightarrow> nat list \<Rightarrow> int list \<Rightarrow> (int list \<times> nat) res" where
  "mark_components rg order visited =
     foldR (\<lambda>v (visited, sscCount).
         if v \<ge> length visited then panic ''index out of range''
         else if visited ! v = sscVertexIsNotVisited
         then bindR (markComponentDfs (length rg) rg (int sscCount) v visited)
                (\<lambda>visited'. Inr (visited', sscCount + 1))
         else Inr (visited, sscCount))
       order (visited, 0)"

text \<open>\<^verbatim>\<open>findScc\<close>: the component of every vertex (\<^verbatim>\<open>g.visited\<close>), the order and the number of components.\<close>

definition findScc ::
  "Edge list list \<Rightarrow> nat list list \<Rightarrow> int list \<Rightarrow> (int list \<times> nat list \<times> nat) res" where
  "findScc g rg visited =
     bindR (topological_order g visited) (\<lambda>(visited1, order).
     let order' = rev order in
     bindR (mark_components rg order' (eraseVisited visited1)) (\<lambda>(visited2, sscCount).
     Inr (visited2, order', sscCount)))"

section \<open>The condensed graph's order\<close>

fun condensed_topologicalSortDfs ::
  "nat \<Rightarrow> CondensedEdge list list \<Rightarrow> nat \<Rightarrow> bool list \<times> nat list \<Rightarrow> (bool list \<times> nat list) res" where
  "condensed_topologicalSortDfs 0 g v st = err ''out of fuel''"
| "condensed_topologicalSortDfs (Suc n) g v (visited, stack) =
     (if v \<ge> length visited \<or> v \<ge> length g then panic ''index out of range''
      else bindR
        (foldR (\<lambda>edge st.
            if cl_idx (cond_to edge) \<ge> length (fst st) then panic ''index out of range''
            else if \<not> fst st ! cl_idx (cond_to edge)
            then condensed_topologicalSortDfs n g (cl_idx (cond_to edge)) st
            else Inr st)
          (g ! v) (visited[v := True], stack))
        (\<lambda>(visited', stack'). Inr (visited', stack' @ [v])))"

definition sortCondensedEdges :: "CondensedEdge list list \<Rightarrow> nat list res" where
  "sortCondensedEdges g =
     bindR (foldR (\<lambda>i st.
         if i \<ge> length (fst st) then panic ''index out of range''
         else if \<not> fst st ! i then condensed_topologicalSortDfs (length g) g i st else Inr st)
       [0..<length g] (replicate (length g) False, []))
     (\<lambda>(_, stack). Inr stack)"

section \<open>The interface of a recursive search\<close>

text \<open>
  What the three recursive functions share: entering a vertex marks it, every successor that is not marked is
  searched with less fuel, leaving may record the vertex. \<open>result st st' ps\<close> says how the state changed when
  the vertices \<open>ps\<close> were finished.
\<close>

locale dfs_impl =
  fixes N :: nat
    and succs :: "nat \<Rightarrow> nat list"
    and run :: "nat \<Rightarrow> nat \<Rightarrow> 'st \<Rightarrow> 'st res"
    and body :: "nat \<Rightarrow> nat \<Rightarrow> 'st \<Rightarrow> 'st res"
    and enter :: "nat \<Rightarrow> 'st \<Rightarrow> 'st"
    and leave :: "nat \<Rightarrow> 'st \<Rightarrow> 'st"
    and seen :: "'st \<Rightarrow> nat set"
    and inv :: "'st \<Rightarrow> bool"
    and result :: "'st \<Rightarrow> 'st \<Rightarrow> nat list \<Rightarrow> bool"
  assumes succs_range: "inv st \<Longrightarrow> v < N \<Longrightarrow> set (succs v) \<subseteq> {..<N}"
    and run_step: "inv st \<Longrightarrow> v < N \<Longrightarrow>
      run (Suc n) v st = bindR (foldR (body n) (succs v) (enter v st)) (\<lambda>st. Inr (leave v st))"
    and body_step: "inv st \<Longrightarrow> v < N \<Longrightarrow> body n v st = (if v \<in> seen st then Inr st else run n v st)"
    and enter_seen: "inv st \<Longrightarrow> v < N \<Longrightarrow> seen (enter v st) = insert v (seen st)"
    and enter_inv: "inv st \<Longrightarrow> v < N \<Longrightarrow> inv (enter v st)"
    and leave_seen: "seen (leave v st) = seen st"
    and leave_inv: "inv st \<Longrightarrow> inv (leave v st)"
    and result_refl: "result st st []"
    and result_trans: "result a b ps \<Longrightarrow> result b c qs \<Longrightarrow> result a c (ps @ qs)"
    and result_leave: "inv st \<Longrightarrow> v < N \<Longrightarrow> result (enter v st) st' ps \<Longrightarrow> result st (leave v st') (ps @ [v])"
begin

definition searched :: "nat list \<Rightarrow> 'st \<Rightarrow> 'st \<Rightarrow> bool" where
  "searched vs st st' \<longleftrightarrow> inv st' \<and> (\<exists>ps. dfs succs vs (seen st) (seen st') ps \<and> result st st' ps)"

lemma searched_Cons:
  assumes v: "searched [v] st st1" "v \<notin> seen st" and vs: "searched vs st1 st2"
  shows "searched (v # vs) st st2"
proof -
  obtain ps qs where p: "dfs succs [v] (seen st) (seen st1) ps" "result st st1 ps"
    and q: "dfs succs vs (seen st1) (seen st2) qs" "result st1 st2 qs"
    using assms by (auto simp: searched_def)
  from p(1) v(2) obtain us where us: "ps = us @ [v]" "dfs succs (succs v) (insert v (seen st)) (seen st1) us"
    by (auto elim: dfs.cases)
  have "dfs succs (v # vs) (seen st) (seen st2) (us @ v # qs)"
    by (rule dfs_new [OF v(2) us(2) q(1)])
  with us(1) have "dfs succs (v # vs) (seen st) (seen st2) (ps @ qs)" by simp
  with vs result_trans [OF p(2) q(2)] show ?thesis unfolding searched_def by blast
qed

text \<open>A loop over vertices, when one search with that much fuel succeeds.\<close>

lemma loop_total:
  assumes one: "\<And>v st. inv st \<Longrightarrow> v < N \<Longrightarrow> v \<notin> seen st \<Longrightarrow> card ({..<N} - seen st) \<le> k \<Longrightarrow>
      \<exists>st'. run n v st = Inr st' \<and> searched [v] st st'"
    and vs: "set vs \<subseteq> {..<N}" and st: "inv st" "card ({..<N} - seen st) \<le> k"
  shows "\<exists>st'. foldR (body n) vs st = Inr st' \<and> searched vs st st'"
  using vs st
proof (induction vs arbitrary: st)
  case Nil
  then show ?case using result_refl dfs_done by (auto simp: searched_def)
next
  case (Cons v vs)
  have v: "v < N" using Cons.prems(1) by simp
  show ?case
  proof (cases "v \<in> seen st")
    case True
    then have "foldR (body n) (v # vs) st = foldR (body n) vs st"
      using body_step [OF Cons.prems(2) v] by simp
    moreover obtain st' where "foldR (body n) vs st = Inr st'" "searched vs st st'"
      using Cons by auto
    moreover from this True have "searched (v # vs) st st'"
      unfolding searched_def by (blast intro: dfs_seen)
    ultimately show ?thesis by simp
  next
    case False
    from one [OF Cons.prems(2) v False Cons.prems(3)] obtain st1
      where st1: "run n v st = Inr st1" "searched [v] st st1" by blast
    have "seen st \<subseteq> seen st1" "inv st1"
      using st1(2) dfs_visited unfolding searched_def by blast+
    moreover from this have "card ({..<N} - seen st1) \<le> k"
      using Cons.prems(3) by (meson Diff_mono card_mono dual_order.refl finite_Diff finite_lessThan order_trans)
    ultimately obtain st' where st': "foldR (body n) vs st1 = Inr st'" "searched vs st1 st'"
      using Cons.IH [of st1] Cons.prems(1) by force
    with st1(1) False have "foldR (body n) (v # vs) st = Inr st'"
      using body_step [OF Cons.prems(2) v] by simp
    with searched_Cons [OF st1(2) False st'(2)] show ?thesis by blast
  qed
qed

text \<open>Fuel for the unvisited vertices is enough, and the function follows the search relation.\<close>

lemma run_total:
  "inv st \<Longrightarrow> v < N \<Longrightarrow> v \<notin> seen st \<Longrightarrow> card ({..<N} - seen st) \<le> n \<Longrightarrow>
   \<exists>st'. run n v st = Inr st' \<and> searched [v] st st'"
proof (induction n arbitrary: v st)
  case 0
  then show ?case by auto
next
  case (Suc n)
  let ?e = "enter v st"
  have e: "inv ?e" "seen ?e = insert v (seen st)"
    using Suc.prems enter_inv enter_seen by simp_all
  have "{..<N} - seen ?e = ({..<N} - seen st) - {v}" using e by auto
  then have "card ({..<N} - seen ?e) \<le> n" using Suc.prems by (simp add: card_Diff_singleton)
  from loop_total [OF Suc.IH succs_range [OF Suc.prems(1,2)] e(1) this]
  obtain st' where st': "foldR (body n) (succs v) ?e = Inr st'" "searched (succs v) ?e st'" by blast
  then obtain ps where ps: "dfs succs (succs v) (insert v (seen st)) (seen st') ps" "result ?e st' ps" "inv st'"
    using e by (auto simp: searched_def)
  have "dfs succs [v] (seen st) (seen (leave v st')) (ps @ [v])"
    using dfs_new [OF Suc.prems(3) ps(1) dfs_done] leave_seen by simp
  moreover have "result st (leave v st') (ps @ [v])" using Suc.prems ps(2) by (intro result_leave)
  ultimately have "searched [v] st (leave v st')" using leave_inv ps(3) by (auto simp: searched_def)
  moreover have "run (Suc n) v st = Inr (leave v st')"
    using run_step Suc.prems st'(1) by simp
  ultimately show ?case by blast
qed

lemma loop_all:
  assumes "inv st" and "set vs \<subseteq> {..<N}"
  shows "\<exists>st'. foldR (body N) vs st = Inr st' \<and> searched vs st st'"
proof (rule loop_total [OF run_total assms(2,1)])
  show "card ({..<N} - seen st) \<le> N"
    using card_mono [of "{..<N}" "{..<N} - seen st"] by simp
qed

end

section \<open>The functions of the program are such searches\<close>

definition marked :: "int list \<Rightarrow> nat set" where
  "marked visited = {v. v < length visited \<and> visited ! v \<noteq> sscVertexIsNotVisited}"

definition edge_succs :: "Edge list list \<Rightarrow> nat \<Rightarrow> nat list" where
  "edge_succs g v = (if v < length g then List.map edge_idx (g ! v) else [])"

definition simple_succs :: "nat list list \<Rightarrow> nat \<Rightarrow> nat list" where
  "simple_succs rg v = (if v < length rg then rg ! v else [])"

definition graph_wf :: "Edge list list \<Rightarrow> bool" where
  "graph_wf g \<longleftrightarrow> (\<forall>es \<in> set g. \<forall>e \<in> set es. edge_idx e < length g)"

definition simple_wf :: "nat list list \<Rightarrow> bool" where
  "simple_wf rg \<longleftrightarrow> (\<forall>es \<in> set rg. \<forall>to \<in> set es. to < length rg)"

lemma foldR_map: "foldR f (List.map g xs) s = foldR (\<lambda>x. f (g x)) xs s"
proof (induction xs arbitrary: s)
  case (Cons x xs)
  then show ?case by (cases "f (g x) s") auto
qed simp

lemma marked_update: "v < length visited \<Longrightarrow> c \<noteq> sscVertexIsNotVisited \<Longrightarrow>
  marked (visited[v := c]) = insert v (marked visited)"
  by (auto simp: marked_def nth_list_update)

text \<open>The state after marking the vertices \<open>ps\<close> with \<open>c\<close>.\<close>

definition remarked :: "int \<Rightarrow> int list \<Rightarrow> int list \<Rightarrow> nat list \<Rightarrow> bool" where
  "remarked c vis vis' ps \<longleftrightarrow> length vis' = length vis \<and>
     (\<forall>v < length vis. vis' ! v = (if v \<in> set ps then c else vis ! v))"

definition topo_body :: "Edge list list \<Rightarrow> nat \<Rightarrow> nat \<Rightarrow> int list \<times> nat list \<Rightarrow> (int list \<times> nat list) res" where
  "topo_body g n v st =
     (if v \<ge> length (fst st) then panic ''index out of range''
      else if fst st ! v = sscVertexIsNotVisited then topologicalSortDfs n g v st else Inr st)"

definition mark_body :: "nat list list \<Rightarrow> int \<Rightarrow> nat \<Rightarrow> nat \<Rightarrow> int list \<Rightarrow> int list res" where
  "mark_body rg c n v visited =
     (if v \<ge> length visited then panic ''index out of range''
      else if visited ! v = sscVertexIsNotVisited then markComponentDfs n rg c v visited else Inr visited)"

definition cond_succs :: "CondensedEdge list list \<Rightarrow> nat \<Rightarrow> nat list" where
  "cond_succs g v = (if v < length g then List.map (\<lambda>e. cl_idx (cond_to e)) (g ! v) else [])"

definition condensed_wf :: "CondensedEdge list list \<Rightarrow> bool" where
  "condensed_wf g \<longleftrightarrow> (\<forall>es \<in> set g. \<forall>e \<in> set es. cl_idx (cond_to e) < length g)"

definition cond_body :: "CondensedEdge list list \<Rightarrow> nat \<Rightarrow> nat \<Rightarrow> bool list \<times> nat list \<Rightarrow> (bool list \<times> nat list) res" where
  "cond_body g n v st =
     (if v \<ge> length (fst st) then panic ''index out of range''
      else if \<not> fst st ! v then condensed_topologicalSortDfs n g v st else Inr st)"

interpretation topo: dfs_impl "length g" "edge_succs g" "\<lambda>n v st. topologicalSortDfs n g v st"
    "topo_body g" "\<lambda>v st. ((fst st)[v := sscVertexIsVisited], snd st)" "\<lambda>v st. (fst st, snd st @ [v])"
    "\<lambda>st. marked (fst st)" "\<lambda>st. graph_wf g \<and> length (fst st) = length g"
    "\<lambda>st st' ps. snd st' = snd st @ ps"
  for g
proof
  fix v and st :: "int list \<times> nat list"
  assume "graph_wf g \<and> length (fst st) = length g" "v < length g"
  then show "set (edge_succs g v) \<subseteq> {..<length g}"
    by (auto simp: edge_succs_def graph_wf_def)
next
  fix st :: "int list \<times> nat list" and v n
  assume "graph_wf g \<and> length (fst st) = length g" "v < length g"
  then show "topologicalSortDfs (Suc n) g v st = bindR (foldR (topo_body g n) (edge_succs g v)
      ((fst st)[v := sscVertexIsVisited], snd st)) (\<lambda>st. Inr (fst st, snd st @ [v]))"
    by (cases st) (simp add: edge_succs_def foldR_map topo_body_def [abs_def] case_prod_unfold)
qed (auto simp: topo_body_def marked_def nth_list_update sscVertexIsVisited_def sscVertexIsNotVisited_def)

interpretation mark: dfs_impl "length rg" "simple_succs rg" "\<lambda>n v st. markComponentDfs n rg c v st"
    "mark_body rg c" "\<lambda>v st. st[v := c]" "\<lambda>v st. st" "marked"
    "\<lambda>st. simple_wf rg \<and> c \<noteq> sscVertexIsNotVisited \<and> length st = length rg" "remarked c"
  for rg c
proof
  fix v and st :: "int list"
  assume "simple_wf rg \<and> c \<noteq> sscVertexIsNotVisited \<and> length st = length rg" "v < length rg"
  then show "set (simple_succs rg v) \<subseteq> {..<length rg}"
    by (auto simp: simple_succs_def simple_wf_def)
next
  fix st :: "int list" and v n
  assume "simple_wf rg \<and> c \<noteq> sscVertexIsNotVisited \<and> length st = length rg" "v < length rg"
  then show "markComponentDfs (Suc n) rg c v st =
      bindR (foldR (mark_body rg c n) (simple_succs rg v) (st[v := c])) (\<lambda>st. Inr st)"
    by (simp add: simple_succs_def mark_body_def [abs_def])
qed (auto simp: mark_body_def marked_def nth_list_update remarked_def)

interpretation cond: dfs_impl "length g" "cond_succs g" "\<lambda>n v st. condensed_topologicalSortDfs n g v st"
    "cond_body g" "\<lambda>v st. ((fst st)[v := True], snd st)" "\<lambda>v st. (fst st, snd st @ [v])"
    "\<lambda>st. {v. v < length (fst st) \<and> fst st ! v}" "\<lambda>st. condensed_wf g \<and> length (fst st) = length g"
    "\<lambda>st st' ps. snd st' = snd st @ ps"
  for g
proof
  fix v and st :: "bool list \<times> nat list"
  assume "condensed_wf g \<and> length (fst st) = length g" "v < length g"
  then show "set (cond_succs g v) \<subseteq> {..<length g}"
    by (auto simp: cond_succs_def condensed_wf_def)
next
  fix st :: "bool list \<times> nat list" and v n
  assume "condensed_wf g \<and> length (fst st) = length g" "v < length g"
  then show "condensed_topologicalSortDfs (Suc n) g v st = bindR (foldR (cond_body g n) (cond_succs g v)
      ((fst st)[v := True], snd st)) (\<lambda>st. Inr (fst st, snd st @ [v]))"
    by (cases st) (simp add: cond_succs_def foldR_map cond_body_def [abs_def] case_prod_unfold)
qed (auto simp: cond_body_def nth_list_update)

lemma eraseVisited_simps [simp]:
  "length (eraseVisited vis) = length vis" "marked (eraseVisited vis) = {}"
  by (auto simp: eraseVisited_def marked_def)

lemma eraseVisited_nth: "v < length vis \<Longrightarrow> eraseVisited vis ! v = sscVertexIsNotVisited"
  by (simp add: eraseVisited_def)

text \<open>The first phase: a post-order of the whole graph.\<close>

lemma topological_order_total:
  assumes "graph_wf g" and "length visited = length g"
  shows "\<exists>vis order. topological_order g visited = Inr (vis, order) \<and> length vis = length g \<and>
    dfs (edge_succs g) [0..<length g] {} {..<length g} order \<and> set order = {..<length g}"
proof -
  have "topological_order g visited = foldR (topo_body g (length g)) [0..<length g] (eraseVisited visited, [])"
    by (simp add: topological_order_def topo_body_def [abs_def])
  moreover have "set [0..<length g] \<subseteq> {..<length g}" by auto
  with topo.loop_all [of g "(eraseVisited visited, [])" "[0..<length g]"] assms
  obtain st' where "foldR (topo_body g (length g)) [0..<length g] (eraseVisited visited, []) = Inr st'"
    and s: "topo.searched g [0..<length g] (eraseVisited visited, []) st'"
    by auto
  moreover from s have inv: "length (fst st') = length g"
    and d: "dfs (edge_succs g) [0..<length g] {} (marked (fst st')) (snd st')"
    by (auto simp: topo.searched_def)
  moreover have "marked (fst st') = {..<length g}"
    using dfs_closed [OF d] inv by (auto simp: marked_def)
  moreover have "set (snd st') = {..<length g}"
    using dfs_visited [OF d] calculation by simp
  ultimately show ?thesis by (cases st') auto
qed

text \<open>
  The second phase: the numbers of the components are handed out in the order of the searches. \<open>numbered k vis
  vis' cs\<close>: the vertices of the \<open>i\<close>-th member of \<open>cs\<close> have number \<open>k + i\<close> in \<open>vis'\<close>, the others are as before.
\<close>

definition numbered :: "nat \<Rightarrow> int list \<Rightarrow> int list \<Rightarrow> nat list list \<Rightarrow> bool" where
  "numbered k vis vis' cs \<longleftrightarrow> length vis' = length vis \<and>
     (\<forall>v < length vis. (\<forall>i < length cs. v \<in> set (cs ! i) \<longrightarrow> vis' ! v = int (k + i)) \<and>
       ((\<forall>qs \<in> set cs. v \<notin> set qs) \<longrightarrow> vis' ! v = vis ! v))"

lemma numbered_Cons:
  assumes "remarked (int k) vis vis1 ps" and "numbered (Suc k) vis1 vis' cs"
    and "\<forall>qs \<in> set cs. set ps \<inter> set qs = {}"
  shows "numbered k vis vis' (ps # cs)"
  unfolding numbered_def
proof (intro conjI allI impI)
  show "length vis' = length vis" using assms by (simp add: numbered_def remarked_def)
  fix v assume v: "v < length vis"
  have l: "length vis1 = length vis" using assms(1) by (simp add: remarked_def)
  {
    fix i assume i: "i < length (ps # cs)" "v \<in> set ((ps # cs) ! i)"
    show "vis' ! v = int (k + i)"
    proof (cases i)
      case 0
      with i have p: "v \<in> set ps" by simp
      with assms(3) have "\<forall>qs \<in> set cs. v \<notin> set qs" by auto
      with p assms(1,2) v l 0 show ?thesis by (simp add: numbered_def remarked_def)
    next
      case (Suc j)
      with i assms(2) v l show ?thesis by (auto simp: numbered_def)
    qed
  }
  assume "\<forall>qs \<in> set (ps # cs). v \<notin> set qs"
  with assms v l show "vis' ! v = vis ! v" by (auto simp: numbered_def remarked_def)
qed

definition mark_step :: "nat list list \<Rightarrow> nat \<Rightarrow> int list \<times> nat \<Rightarrow> (int list \<times> nat) res" where
  "mark_step rg v = (\<lambda>(visited, sscCount).
     if v \<ge> length visited then panic ''index out of range''
     else if visited ! v = sscVertexIsNotVisited
     then bindR (markComponentDfs (length rg) rg (int sscCount) v visited)
            (\<lambda>visited'. Inr (visited', sscCount + 1))
     else Inr (visited, sscCount))"

lemma mark_components_loop:
  assumes wf: "simple_wf rg"
  shows "set os \<subseteq> {..<length rg} \<Longrightarrow> length vis = length rg \<Longrightarrow>
    \<exists>vis' cs. foldR (mark_step rg) os (vis, k) = Inr (vis', k + length cs) \<and>
      components (simple_succs rg) os (marked vis) cs \<and> numbered k vis vis' cs"
proof (induction os arbitrary: vis k)
  case Nil
  then show ?case by (intro exI [of _ vis] exI [of _ "[]"]) (auto intro: comp_done simp: numbered_def)
next
  case (Cons v os)
  have v: "v < length vis" "v < length rg" using Cons.prems by auto
  show ?case
  proof (cases "v \<in> marked vis")
    case True
    then have "foldR (mark_step rg) (v # os) (vis, k) = foldR (mark_step rg) os (vis, k)"
      using v by (simp add: mark_step_def marked_def)
    moreover obtain vis' cs where "foldR (mark_step rg) os (vis, k) = Inr (vis', k + length cs)"
      "components (simple_succs rg) os (marked vis) cs" "numbered k vis vis' cs"
      using Cons by fastforce
    ultimately show ?thesis using comp_seen [OF True] by metis
  next
    case False
    have "card ({..<length rg} - marked vis) \<le> length rg"
      using card_mono [of "{..<length rg}" "{..<length rg} - marked vis"] by simp
    with mark.run_total [of rg "int k" vis v "length rg"] wf v False Cons.prems(2)
    obtain vis1 where vis1: "markComponentDfs (length rg) rg (int k) v vis = Inr vis1"
      and s: "mark.searched rg (int k) [v] vis vis1"
      by (auto simp: sscVertexIsNotVisited_def)
    from s obtain ps where ps: "dfs (simple_succs rg) [v] (marked vis) (marked vis1) ps"
      "remarked (int k) vis vis1 ps" "length vis1 = length rg"
      by (auto simp: mark.searched_def)
    obtain vis' cs where ih: "foldR (mark_step rg) os (vis1, Suc k) = Inr (vis', Suc k + length cs)"
      "components (simple_succs rg) os (marked vis1) cs" "numbered (Suc k) vis1 vis' cs"
      using Cons.IH [of vis1 "Suc k"] Cons.prems(1) ps(3) by auto
    have "foldR (mark_step rg) (v # os) (vis, k) = Inr (vis', k + length (ps # cs))"
      using False v vis1 ih(1) by (simp add: mark_step_def marked_def)
    moreover have "components (simple_succs rg) (v # os) (marked vis) (ps # cs)"
      by (rule comp_new [OF False ps(1) ih(2)])
    moreover have "set ps \<inter> set qs = {}" if "qs \<in> set cs" for qs
      using components_outside [OF ih(2) that] dfs_visited [OF ps(1)] by auto
    then have "numbered k vis vis' (ps # cs)" using numbered_Cons [OF ps(2) ih(3)] by blast
    ultimately show ?thesis by metis
  qed
qed

section \<open>Strongly connected components\<close>

text \<open>The two graphs \<open>NewGraph\<close> builds: every edge of one is in the other, reversed.\<close>

definition graphs_match :: "Edge list list \<Rightarrow> nat list list \<Rightarrow> bool" where
  "graphs_match g rg \<longleftrightarrow> graph_wf g \<and> simple_wf rg \<and> length rg = length g \<and>
     transposed (edge_succs g) (simple_succs rg)"

text \<open>\<open>connected g u v\<close>: there is a path of references from \<open>u\<close> to \<open>v\<close>.\<close>

definition connected :: "Edge list list \<Rightarrow> nat \<Rightarrow> nat \<Rightarrow> bool" where
  "connected g u v \<longleftrightarrow> (\<lambda>x y. x < length g \<and> y \<in> edge_idx ` set (g ! x))\<^sup>*\<^sup>* u v"

lemma connected_reach: "connected g u v \<longleftrightarrow> reach (edge_succs g) {} u v"
proof -
  have "avoids (edge_succs g) {} = (\<lambda>x y. x < length g \<and> y \<in> edge_idx ` set (g ! x))"
    by (intro ext) (auto simp: avoids_def edge_succs_def)
  then show ?thesis unfolding connected_def reach_def by (simp only: empty_iff not_False_eq_True simp_thms)
qed

lemma edge_succs_range:
  assumes "graph_wf g" and "y \<in> set (edge_succs g x)"
  shows "x < length g \<and> y < length g"
proof -
  have "x < length g" using assms(2) by (cases "x < length g") (simp_all add: edge_succs_def)
  with assms nth_mem [OF this] show ?thesis by (auto simp: edge_succs_def graph_wf_def)
qed

lemma reach_in_range:
  assumes wf: "graph_wf g" and r: "reach (edge_succs g) {} x y" and y: "y < length g"
  shows "x < length g"
proof -
  have "(avoids (edge_succs g) {})\<^sup>*\<^sup>* x y" using r by (simp add: reach_def)
  then show ?thesis using y edge_succs_range [OF wf]
    by (induction rule: converse_rtranclp_induct) (auto simp: avoids_def)
qed

lemma findScc_components:
  assumes m: "graphs_match g rg" and l: "length visited = length g"
  obtains comp order cs where "findScc g rg visited = Inr (comp, order, length cs)"
    and "length comp = length g" and "numbered 0 (replicate (length g) sscVertexIsNotVisited) comp cs"
    and "\<forall>qs \<in> set cs. \<exists>v. set qs = {x. mutual (edge_succs g) {} v x} \<and> v \<in> set qs"
    and "sorted_wrt (\<lambda>p q. (\<forall>x \<in> set q. \<forall>y \<in> set p. y \<notin> set (edge_succs g x)) \<and> set p \<inter> set q = {}) cs"
    and "\<Union> (set ` set cs) = {..<length g}"
proof -
  have wf: "graph_wf g" "simple_wf rg" "length rg = length g" "transposed (edge_succs g) (simple_succs rg)"
    using m by (auto simp: graphs_match_def)
  obtain vis order where o: "topological_order g visited = Inr (vis, order)" "length vis = length g"
    "dfs (edge_succs g) [0..<length g] {} {..<length g} order" "set order = {..<length g}"
    using topological_order_total [OF wf(1) l] by blast
  let ?e = "eraseVisited vis"
  obtain comp cs where c: "foldR (mark_step rg) (rev order) (?e, 0) = Inr (comp, length cs)"
    "components (simple_succs rg) (rev order) {} cs" "numbered 0 ?e comp cs"
    using mark_components_loop [OF wf(2), of "rev order" ?e 0] o(2,4) wf(3) by auto
  have in_range: "reach (edge_succs g) {} x y \<Longrightarrow> y \<in> set order \<Longrightarrow> x \<in> set order" for x y
    using reach_in_range [OF wf(1)] o(4) by simp
  have e: "?e = replicate (length g) sscVertexIsNotVisited"
    using o(2) by (simp add: eraseVisited_def map_replicate_const)
  have scc: "\<forall>qs \<in> set cs. \<exists>v. set qs = {x. mutual (edge_succs g) {} v x} \<and> v \<in> set qs"
    using components_scc [OF o(3) wf(4) in_range c(2), where as = "[]"] by (simp add: saturated_def)
  have cover: "\<Union> (set ` set cs) = {..<length g}"
  proof
    show "\<Union> (set ` set cs) \<subseteq> {..<length g}"
    proof
      fix x assume "x \<in> \<Union> (set ` set cs)"
      then obtain qs where qs: "qs \<in> set cs" "x \<in> set qs" by auto
      then obtain v where v: "set qs = {x. mutual (edge_succs g) {} v x}" using scc by blast
      have "\<exists>w \<in> set qs. w < length g"
        using components_member [OF c(2) qs(1)] o(4) by auto
      with v qs show "x \<in> {..<length g}"
        using reach_in_range [OF wf(1)] by (auto simp: mutual_def intro: reach_trans)
    qed
    show "{..<length g} \<subseteq> \<Union> (set ` set cs)" using components_cover [OF c(2)] o(4) by simp
  qed
  have "findScc g rg visited = Inr (comp, rev order, length cs)"
    using o(1) c(1) by (simp add: findScc_def mark_components_def mark_step_def [abs_def] Let_def)
  moreover have "length comp = length g" using c(3) o(2) by (simp add: numbered_def)
  ultimately show ?thesis
    using that c(3) e scc cover components_ordered [OF wf(4) c(2)] by simp
qed

lemma mutual_connected: "mutual (edge_succs g) {} u v \<longleftrightarrow> connected g u v \<and> connected g v u"
  by (simp add: mutual_def connected_reach)

lemma findScc_facts:
  assumes "graphs_match g rg" and "length visited = length g"
  shows "\<exists>comp order n. findScc g rg visited = Inr (comp, order, n) \<and> length comp = length g \<and>
    (\<forall>u < length g. \<forall>v < length g. comp ! u = comp ! v \<longleftrightarrow> connected g u v \<and> connected g v u) \<and>
    (int ` {..<n} = set comp) \<and>
    (\<forall>u < length g. \<forall>e \<in> set (g ! u). comp ! u \<le> comp ! edge_idx e)"
proof -
  obtain comp order cs where f: "findScc g rg visited = Inr (comp, order, length cs)"
    and l: "length comp = length g" and num: "numbered 0 (replicate (length g) sscVertexIsNotVisited) comp cs"
    and scc: "\<forall>qs \<in> set cs. \<exists>v. set qs = {x. mutual (edge_succs g) {} v x} \<and> v \<in> set qs"
    and sorted: "sorted_wrt (\<lambda>p q. (\<forall>x \<in> set q. \<forall>y \<in> set p. y \<notin> set (edge_succs g x)) \<and> set p \<inter> set q = {}) cs"
    and cover: "\<Union> (set ` set cs) = {..<length g}"
    by (rule findScc_components [OF assms])
  have wf: "graph_wf g" using assms(1) by (simp add: graphs_match_def)
  have at: "comp ! v = int i" if "v \<in> set (cs ! i)" "i < length cs" for v i
  proof -
    have "v \<in> \<Union> (set ` set cs)" using that nth_mem by blast
    then have "v < length g" using cover by simp
    with num that show ?thesis by (simp add: numbered_def)
  qed
  have find: "\<exists>i < length cs. v \<in> set (cs ! i)" if "v < length g" for v
  proof -
    have "v \<in> \<Union> (set ` set cs)" using cover that by simp
    then show ?thesis by (metis UN_E in_set_conv_nth)
  qed
  have same: "comp ! u = comp ! v \<longleftrightarrow> mutual (edge_succs g) {} u v" if uv: "u < length g" "v < length g" for u v
  proof -
    obtain i where i: "i < length cs" "u \<in> set (cs ! i)" using find uv(1) by blast
    obtain w where w: "set (cs ! i) = {x. mutual (edge_succs g) {} w x}" using scc i(1) by force
    have "comp ! u = comp ! v \<longleftrightarrow> v \<in> set (cs ! i)"
      using find [OF uv(2)] at i by (metis of_nat_eq_iff)
    also have "\<dots> \<longleftrightarrow> mutual (edge_succs g) {} u v"
      using w i(2) by (metis (mono_tags) mem_Collect_eq mutual_sym mutual_trans)
    finally show ?thesis .
  qed
  have range: "int ` {..<length cs} = set comp"
  proof
    show "int ` {..<length cs} \<subseteq> set comp"
    proof
      fix k assume "k \<in> int ` {..<length cs}"
      then obtain i where i: "i < length cs" "k = int i" by auto
      then obtain v where "v \<in> set (cs ! i)" using scc by force
      with i at [OF _ i(1)] cover l show "k \<in> set comp"
        by (metis UN_I lessThan_iff nth_mem)
    qed
    show "set comp \<subseteq> int ` {..<length cs}"
      using find at l by (auto simp: in_set_conv_nth) (metis imageI lessThan_iff)
  qed
  have mono: "comp ! u \<le> comp ! edge_idx e" if u: "u < length g" "e \<in> set (g ! u)" for u e
  proof -
    have s: "edge_idx e \<in> set (edge_succs g u)" using u by (simp add: edge_succs_def)
    have e: "edge_idx e < length g" using edge_succs_range [OF wf s] by simp
    obtain i j where i: "i < length cs" "u \<in> set (cs ! i)" and j: "j < length cs" "edge_idx e \<in> set (cs ! j)"
      using find u(1) e by blast
    have "\<not> j < i"
    proof
      assume "j < i"
      with sorted i(1) have "\<forall>x \<in> set (cs ! i). \<forall>y \<in> set (cs ! j). y \<notin> set (edge_succs g x)"
        by (simp add: sorted_wrt_iff_nth_less)
      with s i j show False by blast
    qed
    with at i j show ?thesis by simp
  qed
  from f l same range mono show ?thesis by (auto simp: mutual_connected)
qed

text \<open>
  Claim C4. \<^verbatim>\<open>findScc\<close> always returns. It numbers the tables so that two have the same number exactly if each
  references the other, directly or not; the numbers are those below the count, each used; and references
  never lead to a smaller number.
\<close>

theorem findScc_correct:
  assumes "graphs_match g rg" and "length visited = length g"
  shows "\<exists>comp order n. findScc g rg visited = Inr (comp, order, n) \<and> length comp = length g \<and>
    (\<forall>u < length g. \<forall>v < length g. comp ! u = comp ! v \<longleftrightarrow> connected g u v \<and> connected g v u) \<and>
    (int ` {..<n} = set comp) \<and>
    (\<forall>u < length g. \<forall>e \<in> set (g ! u). comp ! u \<le> comp ! edge_idx e)"
  using findScc_facts [OF assms] .

lemma sortCondensedEdges_facts:
  assumes "condensed_wf g"
  shows "\<exists>stack. sortCondensedEdges g = Inr stack \<and> distinct stack \<and> set stack = {..<length g} \<and>
    (\<forall>v < length g. \<forall>e \<in> set (g ! v).
       reach (cond_succs g) {} (cl_idx (cond_to e)) v \<or> before (cl_idx (cond_to e)) v stack)"
proof -
  let ?init = "(replicate (length g) False, [])"
  have "set [0..<length g] \<subseteq> {..<length g}" by auto
  with cond.loop_all [of g ?init "[0..<length g]"] assms
  obtain st where st: "foldR (cond_body g (length g)) [0..<length g] ?init = Inr st"
    and s: "cond.searched g [0..<length g] ?init st"
    by auto
  have empty: "{v. v < length g \<and> replicate (length g) False ! v} = {}" by auto
  have d: "dfs (cond_succs g) [0..<length g] {} {v. v < length (fst st) \<and> fst st ! v} (snd st)"
    and l: "length (fst st) = length g"
    using s by (auto simp: cond.searched_def empty)
  have "set (snd st) = {..<length g}"
    using dfs_visited [OF d] dfs_closed [OF d] l by auto
  moreover have "reach (cond_succs g) {} (cl_idx (cond_to e)) v \<or> before (cl_idx (cond_to e)) v (snd st)"
    if "v < length g" "e \<in> set (g ! v)" for v e
    using dfs_successor_first [OF d, of v "cl_idx (cond_to e)"] that calculation
    by (auto simp: cond_succs_def)
  moreover have "sortCondensedEdges g = Inr (snd st)"
    using st by (cases st) (simp add: sortCondensedEdges_def cond_body_def [abs_def])
  moreover have "distinct (snd st)" using dfs_visited [OF d] by blast
  ultimately show ?thesis by blast
qed

text \<open>
  \<^verbatim>\<open>sortCondensedEdges\<close> returns every vertex once, a vertex that is pointed to before the one that points
  to it unless a path leads back.
\<close>

lemma sortCondensedEdges_correct:
  assumes "condensed_wf g"
  shows "\<exists>stack. sortCondensedEdges g = Inr stack \<and> distinct stack \<and> set stack = {..<length g} \<and>
    (\<forall>v < length g. \<forall>e \<in> set (g ! v).
       reach (cond_succs g) {} (cl_idx (cond_to e)) v \<or> before (cl_idx (cond_to e)) v stack)"
  using sortCondensedEdges_facts [OF assms] .

section \<open>On a sample\<close>

text \<open>Tables 0 and 1 reference each other, table 1 also references table 2.\<close>

definition sample_graph :: "Edge list list" where
  "sample_graph = [[sample_edge 0 0 1], [sample_edge 1 1 0, sample_edge 2 1 2], []]"

definition sample_reversed :: "nat list list" where
  "sample_reversed = [[1], [0], [1]]"

lemma sample_graphs_match: "graphs_match sample_graph sample_reversed"
  by (auto simp: graphs_match_def graph_wf_def simple_wf_def transposed_def edge_succs_def simple_succs_def
      sample_graph_def sample_reversed_def nth_Cons' split: if_splits)

theorem findScc_correct_witness:
  "\<exists>comp order n. findScc sample_graph sample_reversed [0, 0, 0] = Inr (comp, order, n) \<and>
    (comp ! 0 = comp ! 1 \<longleftrightarrow> connected sample_graph 0 1 \<and> connected sample_graph 1 0) \<and>
    (\<forall>e \<in> set (sample_graph ! 1). comp ! 1 \<le> comp ! edge_idx e)"
proof -
  have l: "length [0, 0, 0 :: int] = length sample_graph" by (simp add: sample_graph_def)
  have len: "0 < length sample_graph" "1 < length sample_graph" by (simp_all add: sample_graph_def)
  show ?thesis
    by (rule exE [OF findScc_correct [OF sample_graphs_match l]], elim exE conjE)
       (intro exI conjI, assumption, use len in simp, use len in simp)
qed

definition sample_component :: Component where
  "sample_component =
     \<lparr>c_id = 0, componentGraph = [], c_tables = [], cycles = [], cyclesIdents = [], groupedCycles = [],
      groupedCyclesGraph = []\<rparr>"

definition sample_condensed :: "CondensedEdge list list" where
  "sample_condensed =
     [[NewCondensedEdge 0 (NewComponentLink 0 sample_component) (NewComponentLink 1 sample_component)
         (sample_edge 0 0 1)], []]"

theorem sortCondensedEdges_correct_witness:
  "\<exists>stack. sortCondensedEdges sample_condensed = Inr stack \<and> distinct stack \<and> set stack = {0, 1}"
proof -
  have "condensed_wf sample_condensed"
    by (simp add: condensed_wf_def sample_condensed_def NewCondensedEdge_def NewComponentLink_def)
  from sortCondensedEdges_correct [OF this] obtain stack where "sortCondensedEdges sample_condensed = Inr stack"
    "distinct stack" "set stack = {..<length sample_condensed}"
    by blast
  moreover have "{..<length sample_condensed} = {0, 1}" by (auto simp: sample_condensed_def)
  ultimately show ?thesis by metis
qed

end
