(* ===== verification/SubsetComponent.thy ===== *)
theory SubsetComponent
  imports SubsetTypes Strconv Dfs "HOL-Library.AList" "HOL-Library.List_Lexorder" "HOL-Library.Char_ord"
begin

text \<open>
  \<^verbatim>\<open>internal/db/postgres/subset/component.go\<close>: one strongly connected component of the reference graph, the
  cycles found in it, the cycles grouped by their tables, and the order in which the groups are processed.

  \<^verbatim>\<open>sort.Slice\<close> over edges is \<open>sort_key\<close>: edges of equal target keep their order. The recursion of the cycle
  search takes fuel; the number of vertices is enough (\<open>findCycles_total\<close>).
\<close>

section \<open>Identifiers\<close>

definition show_nat :: "nat \<Rightarrow> string" where
  "show_nat n = List.map (\<lambda>b. char_of (unat b)) (format_nat n)"

definition getCycleGroupId :: "Edge list \<Rightarrow> string" where
  "getCycleGroupId cycle =
     join_with ''_'' (sort (List.map (\<lambda>e. show_nat (link_idx (edge_to e))) cycle))"

definition getCycleId :: "Edge list \<Rightarrow> string" where
  "getCycleId cycle = join_with ''_'' (sort (List.map (\<lambda>e. show_nat (edge_id e)) cycle))"

section \<open>Finding cycles\<close>

record CycleSearch =
  cs_visited :: "nat set"
  cs_recStack :: "nat set"
  cs_cycles :: "Edge list list"
  cs_idents :: "string list"

definition component_edges :: "(nat \<times> Edge list) list \<Rightarrow> nat \<Rightarrow> Edge list" where
  "component_edges cg v =
     sort_key (\<lambda>e. link_idx (edge_to e)) (case map_of cg v of None \<Rightarrow> [] | Some es \<Rightarrow> es)"

text \<open>
  The edges of the path from its end back to the one that leaves the vertex the last edge leads to, in the
  order of the path.
\<close>

fun cycle_back :: "nat \<Rightarrow> Edge list \<Rightarrow> Edge list" where
  "cycle_back target [] = []"
| "cycle_back target (e # rest) =
     (if link_idx (edge_from e) = target then [e] else e # cycle_back target rest)"

definition path_cycle :: "Edge list \<Rightarrow> Edge list" where
  "path_cycle path = rev (cycle_back (link_idx (edge_to (last path))) (rev path))"

definition record_cycle :: "Edge list \<Rightarrow> CycleSearch \<Rightarrow> CycleSearch" where
  "record_cycle path st =
     (let cycleId = getCycleId (rev (path_cycle path))
      in if cycleId \<in> set (cs_idents st) then st
         else st\<lparr>cs_cycles := cs_cycles st @ [path_cycle path], cs_idents := cs_idents st @ [cycleId]\<rparr>)"

fun findAllCyclesDfs ::
  "nat \<Rightarrow> (nat \<times> Edge list) list \<Rightarrow> nat \<Rightarrow> Edge list \<Rightarrow> CycleSearch \<Rightarrow> CycleSearch res" where
  "findAllCyclesDfs 0 cg v path st = err ''out of fuel''"
| "findAllCyclesDfs (Suc n) cg v path st =
     bindR
       (foldR (\<lambda>to st.
          if edge_idx to \<notin> cs_visited st then findAllCyclesDfs n cg (edge_idx to) (path @ [to]) st
          else if edge_idx to \<in> cs_recStack st then Inr (record_cycle (path @ [to]) st)
          else Inr st)
         (component_edges cg v)
         (st\<lparr>cs_visited := insert v (cs_visited st), cs_recStack := insert v (cs_recStack st)\<rparr>))
       (\<lambda>st. Inr (st\<lparr>cs_recStack := cs_recStack st - {v}\<rparr>))"

definition findCycles :: "Component \<Rightarrow> Component res" where
  "findCycles c =
     bindR (foldR (\<lambda>v st. if v \<notin> cs_visited st
                          then findAllCyclesDfs (length (componentGraph c)) (componentGraph c) v [] st
                          else Inr st)
              (sort (List.map fst (componentGraph c)))
              \<lparr>cs_visited = {}, cs_recStack = {}, cs_cycles = cycles c, cs_idents = cyclesIdents c\<rparr>)
       (\<lambda>st. Inr (c\<lparr>cycles := cs_cycles st, cyclesIdents := cs_idents st\<rparr>))"

section \<open>Grouping cycles\<close>

definition groupCycles :: "Component \<Rightarrow> Component" where
  "groupCycles c =
     c\<lparr>groupedCycles :=
         fold (\<lambda>(i, cycle). append_at (getCycleGroupId cycle) i) (List.enumerate 0 (cycles c)) []\<rparr>"

definition findCommonVertexes :: "Component \<Rightarrow> nat \<Rightarrow> nat \<Rightarrow> Table list res" where
  "findCommonVertexes c i j =
     (if i \<ge> length (cycles c) \<or> j \<ge> length (cycles c) then panic ''index out of range''
      else Inr (sort_key t_Oid
        (List.map snd (fold (\<lambda>t m. AList.update (t_Oid t) t m)
          [link_table (edge_to eI). eI \<leftarrow> cycles c ! i, eJ \<leftarrow> cycles c ! j,
             link_idx (edge_to eI) = link_idx (edge_to eJ)] []))))"

definition lookup_list :: "'k \<Rightarrow> ('k \<times> 'a list) list \<Rightarrow> 'a list" where
  "lookup_list k m = (case map_of m k of None \<Rightarrow> [] | Some xs \<Rightarrow> xs)"

definition areCyclesLinked :: "Component \<Rightarrow> nat \<Rightarrow> nat \<Rightarrow> bool res" where
  "areCyclesLinked c i j =
     (if i \<ge> length (cycles c) \<or> j \<ge> length (cycles c) then panic ''index out of range''
      else
        let iId = getCycleGroupId (cycles c ! i);
            jId = getCycleGroupId (cycles c ! j)
        in Inr (list_ex (\<lambda>to. ce_to to = jId) (lookup_list iId (groupedCyclesGraph c)) \<or>
                list_ex (\<lambda>to. ce_to to = iId) (lookup_list jId (groupedCyclesGraph c))))"

definition first_of :: "'a list \<Rightarrow> 'a res" where
  "first_of xs = (if xs = [] then panic ''index out of range'' else Inr (hd xs))"

text \<open>One round of the two nested loops of \<^verbatim>\<open>buildCyclesGraph\<close>.\<close>

definition link_groups ::
  "string \<times> nat list \<Rightarrow> string \<times> nat list \<Rightarrow> nat \<times> Component \<Rightarrow> (nat \<times> Component) res" where
  "link_groups = (\<lambda>(groupIdI, cyclesI) (groupIdJ, cyclesJ) (idSeq, c).
     if groupIdI = groupIdJ then Inr (idSeq, c)
     else bindR (first_of cyclesI) (\<lambda>i. bindR (first_of cyclesJ) (\<lambda>j.
          bindR (findCommonVertexes c i j) (\<lambda>common.
          if common = [] then Inr (idSeq, c)
          else bindR (areCyclesLinked c i j) (\<lambda>linked.
               if linked then Inr (idSeq, c)
               else bindR (NewCycleEdge idSeq groupIdI groupIdJ common) (\<lambda>e.
                    Inr (idSeq + 1,
                      c\<lparr>groupedCyclesGraph :=
                          AList.update groupIdI (lookup_list groupIdJ (groupedCyclesGraph c) @ [e])
                            (groupedCyclesGraph c)\<rparr>)))))))"

definition buildCyclesGraph :: "Component \<Rightarrow> Component res" where
  "buildCyclesGraph c =
     bindR (foldR (\<lambda>gI. foldR (\<lambda>gJ. link_groups gI gJ) (groupedCycles c)) (groupedCycles c)
              (0, c\<lparr>groupedCyclesGraph := []\<rparr>))
       (\<lambda>(_, c). Inr c)"

definition NewComponent :: "nat \<Rightarrow> (nat \<times> Edge list) list \<Rightarrow> (nat \<times> Table) list \<Rightarrow> Component res" where
  "NewComponent i cg tables =
     bindR (findCycles
        \<lparr>c_id = i, componentGraph = cg, c_tables = tables, cycles = [], cyclesIdents = [],
         groupedCycles = [], groupedCyclesGraph = []\<rparr>)
       (\<lambda>c. buildCyclesGraph (groupCycles c))"

section \<open>Queries of a component\<close>

definition hasCycle :: "Component \<Rightarrow> bool" where
  "hasCycle c \<longleftrightarrow> length (cycles c) > 0"

definition component_hasPolymorphicExpressions :: "Component \<Rightarrow> bool" where
  "component_hasPolymorphicExpressions c \<longleftrightarrow>
     list_ex (\<lambda>(_, es). list_ex (\<lambda>e. length (polymorphicExprs (edge_from e)) > 0 \<or>
                                    length (polymorphicExprs (edge_to e)) > 0) es)
       (componentGraph c)"

definition getSubsetConds :: "Component \<Rightarrow> string list" where
  "getSubsetConds c = concat (List.map (\<lambda>(_, t). t_SubsetConds t) (c_tables c))"

definition getOneTable :: "Component \<Rightarrow> Table res" where
  "getOneTable c =
     (if \<not> hasCycle c \<and> c_tables c \<noteq> [] then Inr (snd (hd (c_tables c)))
      else panic ''cannot call get one table method for cycled scc'')"

definition cycles_at :: "Component \<Rightarrow> nat list \<Rightarrow> Edge list list res" where
  "cycles_at c idxs =
     mapR (\<lambda>i. if i < length (cycles c) then Inr (cycles c ! i) else panic ''index out of range'') idxs"

definition getOneCycleGroup :: "Component \<Rightarrow> Edge list list res" where
  "getOneCycleGroup c =
     (case groupedCycles c of
        [(_, g)] \<Rightarrow> cycles_at c g
      | _ \<Rightarrow> panic ''get one group cycle group is not allowed for multy cycles'')"

definition getCycleGroup :: "Component \<Rightarrow> string \<Rightarrow> Edge list list res" where
  "getCycleGroup c groupId =
     (case map_of (groupedCycles c) groupId of
        None \<Rightarrow> panic ''cycle group does not exist''
      | Some idxs \<Rightarrow> cycles_at c idxs)"

definition getTablesFromCycle :: "Edge list \<Rightarrow> Table list" where
  "getTablesFromCycle cycle = sort_key t_Oid (List.map (\<lambda>e. link_table (edge_to e)) cycle)"

definition getCycleGroupTables :: "Component \<Rightarrow> string \<Rightarrow> Table list res" where
  "getCycleGroupTables c groupId =
     bindR (getCycleGroup c groupId) (\<lambda>g. bindR (first_of g) (\<lambda>cycle. Inr (getTablesFromCycle cycle)))"

definition groupHasOwnSubsetConds :: "Component \<Rightarrow> string \<Rightarrow> bool res" where
  "groupHasOwnSubsetConds c groupId =
     bindR (getCycleGroupTables c groupId) (\<lambda>ts. Inr (list_ex (\<lambda>t. length (t_SubsetConds t) > 0) ts))"

definition groupsShareVertexes :: "Component \<Rightarrow> string \<Rightarrow> string \<Rightarrow> bool res" where
  "groupsShareVertexes c a b =
     bindR (getCycleGroupTables c a) (\<lambda>tablesA.
     bindR (getCycleGroupTables c b) (\<lambda>tablesB.
     Inr (list_ex (\<lambda>tb. list_ex (\<lambda>ta. t_Oid ta = t_Oid tb) tablesA) tablesB)))"

section \<open>The order of the groups\<close>

fun anyR :: "('a \<Rightarrow> bool res) \<Rightarrow> 'a list \<Rightarrow> bool res" where
  "anyR p [] = Inr False"
| "anyR p (x # xs) = bindR (p x) (\<lambda>b. if b then Inr True else anyR p xs)"

text \<open>
  The closure \<^verbatim>\<open>take\<close>: it moves from the remaining groups to the ordered ones those its condition accepts, in
  order; the condition sees the groups ordered so far.
\<close>

fun take_groups :: "(string list \<Rightarrow> string \<Rightarrow> bool res) \<Rightarrow> string list \<Rightarrow> string list \<Rightarrow>
    (string list \<times> string list) res" where
  "take_groups cond ordered [] = Inr (ordered, [])"
| "take_groups cond ordered (g # remaining) =
     bindR (cond ordered g) (\<lambda>b.
       if b then take_groups cond (ordered @ [g]) remaining
       else bindR (take_groups cond ordered remaining) (\<lambda>(o', r'). Inr (o', g # r')))"

definition shares_ordered :: "Component \<Rightarrow> string list \<Rightarrow> string \<Rightarrow> bool res" where
  "shares_ordered c ordered g = anyR (\<lambda>orderedId. groupsShareVertexes c orderedId g) ordered"

text \<open>The outer loop; a round orders at least one group, so the number of groups bounds the rounds.\<close>

fun order_groups :: "nat \<Rightarrow> Component \<Rightarrow> string list \<Rightarrow> string list \<Rightarrow> string list res" where
  "order_groups 0 c ordered remaining = (if remaining = [] then Inr ordered else err ''out of fuel'')"
| "order_groups (Suc n) c ordered remaining =
     (if remaining = [] then Inr ordered
      else bindR (take_groups (shares_ordered c) ordered remaining) (\<lambda>(ordered', remaining').
           if length remaining' = length remaining
           then order_groups n c (ordered' @ [hd remaining']) (tl remaining')
           else order_groups n c ordered' remaining'))"

definition getSortedGroupIds :: "Component \<Rightarrow> string list res" where
  "getSortedGroupIds c =
     (let remaining = sort (List.map fst (groupedCycles c))
      in bindR (take_groups (\<lambda>_. groupHasOwnSubsetConds c) [] remaining) (\<lambda>(ordered, remaining').
         order_groups (length remaining') c ordered remaining'))"

end
