(* ===== verification/SubsetCycles.thy ===== *)
theory SubsetCycles
  imports SubsetComponent "HOL-Library.Multiset"
begin

text \<open>
  The cycle search of a component: it always ends, every cycle it records is a closed path of edges of the
  component through distinct tables, and it records one if there is one.
\<close>

abbreviation from_idx :: "Edge \<Rightarrow> nat" where "from_idx e \<equiv> link_idx (edge_from e)"
abbreviation to_idx :: "Edge \<Rightarrow> nat" where "to_idx e \<equiv> link_idx (edge_to e)"

definition edges_at :: "(nat \<times> Edge list) list \<Rightarrow> nat \<Rightarrow> Edge list" where
  "edges_at cg v = (case map_of cg v of None \<Rightarrow> [] | Some es \<Rightarrow> es)"

text \<open>A component graph: its edges start at their key and stay inside.\<close>

definition cg_wf :: "(nat \<times> Edge list) list \<Rightarrow> bool" where
  "cg_wf cg \<longleftrightarrow> distinct (List.map fst cg) \<and>
     (\<forall>(v, es) \<in> set cg. \<forall>e \<in> set es. from_idx e = v \<and> to_idx e = edge_idx e \<and> edge_idx e \<in> fst ` set cg)"

lemma edges_at_wf:
  "cg_wf cg \<Longrightarrow> e \<in> set (edges_at cg v) \<Longrightarrow>
   from_idx e = v \<and> to_idx e = edge_idx e \<and> edge_idx e \<in> fst ` set cg \<and> v \<in> fst ` set cg"
  by (force simp: edges_at_def cg_wf_def split: option.splits dest!: map_of_SomeD)

lemma set_component_edges [simp]: "set (component_edges cg v) = set (edges_at cg v)"
  by (simp add: component_edges_def edges_at_def)

fun chain :: "(nat \<times> Edge list) list \<Rightarrow> nat \<Rightarrow> Edge list \<Rightarrow> nat \<Rightarrow> bool" where
  "chain cg u [] v = (u = v)"
| "chain cg u (e # es) v = (from_idx e = u \<and> e \<in> set (edges_at cg u) \<and> chain cg (to_idx e) es v)"

lemma chain_append: "chain cg u (xs @ ys) w \<longleftrightarrow> (\<exists>v. chain cg u xs v \<and> chain cg v ys w)"
  by (induction xs arbitrary: u) auto

definition good_cycle :: "(nat \<times> Edge list) list \<Rightarrow> Edge list \<Rightarrow> bool" where
  "good_cycle cg c \<longleftrightarrow> c \<noteq> [] \<and> chain cg (from_idx (hd c)) c (from_idx (hd c)) \<and> distinct (List.map from_idx c)"

lemma cycle_back_app:
  "w \<notin> from_idx ` set xs \<Longrightarrow> from_idx e = w \<Longrightarrow> cycle_back w (xs @ e # ys) = xs @ [e]"
  by (induction xs) auto

lemma cut_cycle:
  assumes c: "chain cg u p v" and d: "distinct (List.map from_idx p)"
    and p: "p \<noteq> []" "to_idx (last p) = v" and v: "v \<in> from_idx ` set p"
  shows "good_cycle cg (path_cycle p)"
proof -
  obtain e where e: "e \<in> set p" "from_idx e = v" using v by auto
  then obtain pre suf where split: "p = pre @ e # suf" by (meson split_list)
  have "v \<notin> from_idx ` set suf" using d e(2) by (auto simp: split)
  then have "cycle_back v (rev p) = rev suf @ [e]"
    using e(2) by (simp add: split cycle_back_app)
  then have pc: "path_cycle p = e # suf" using p(2) by (simp add: path_cycle_def)
  have "chain cg v (e # suf) v" using c e(2) by (auto simp: split chain_append)
  with d pc e(2) show ?thesis by (simp add: good_cycle_def split)
qed

section \<open>The invariant of the search\<close>

text \<open>\<open>path\<close> leads from the root of the search to \<open>v\<close>; its tables are the ones on the stack.\<close>

definition on_path :: "(nat \<times> Edge list) list \<Rightarrow> Edge list \<Rightarrow> nat \<Rightarrow> bool" where
  "on_path cg path v \<longleftrightarrow> (\<exists>u. chain cg u path v) \<and> distinct (List.map from_idx path) \<and>
     v \<notin> from_idx ` set path"

definition cycles_ok :: "(nat \<times> Edge list) list \<Rightarrow> CycleSearch \<Rightarrow> bool" where
  "cycles_ok cg st \<longleftrightarrow> list_all (good_cycle cg) (cs_cycles st) \<and>
     cs_idents st = List.map (\<lambda>c. getCycleId (rev c)) (cs_cycles st) \<and> distinct (cs_idents st)"

lemma record_cycle_simps [simp]:
  "cs_visited (record_cycle p st) = cs_visited st" "cs_recStack (record_cycle p st) = cs_recStack st"
  by (simp_all add: record_cycle_def Let_def)

lemma record_cycle_ok: "cycles_ok cg st \<Longrightarrow> good_cycle cg (path_cycle p) \<Longrightarrow> cycles_ok cg (record_cycle p st)"
  by (auto simp: cycles_ok_def record_cycle_def Let_def)

lemma record_cycle_nonempty: "cycles_ok cg st \<Longrightarrow> cs_cycles (record_cycle p st) \<noteq> []"
  by (auto simp: cycles_ok_def record_cycle_def Let_def)

definition vertices :: "(nat \<times> Edge list) list \<Rightarrow> nat set" where
  "vertices cg = fst ` set cg"

lemma finite_vertices [simp]: "finite (vertices cg)"
  by (simp add: vertices_def)

text \<open>Vertices finished one after the other, each after all it points to.\<close>

fun finished :: "(nat \<times> Edge list) list \<Rightarrow> nat set \<Rightarrow> nat list \<Rightarrow> bool" where
  "finished cg F [] = True"
| "finished cg F (x # xs) = ((\<forall>e \<in> set (edges_at cg x). edge_idx e \<in> F) \<and> x \<notin> F \<and> finished cg (insert x F) xs)"

lemma finished_append: "finished cg F (xs @ ys) \<longleftrightarrow> finished cg F xs \<and> finished cg (F \<union> set xs) ys"
  by (induction xs arbitrary: F) (auto simp: insert_commute)

text \<open>
  What a search of \<open>vs\<close> guarantees: the stack is as before, the cycles found are cycles, and if there is still
  none, then the newly visited vertices are finished in some order.
\<close>

definition searched_cycles :: "(nat \<times> Edge list) list \<Rightarrow> nat set \<Rightarrow> CycleSearch \<Rightarrow> CycleSearch \<Rightarrow> bool" where
  "searched_cycles cg vs st st' \<longleftrightarrow>
     cs_recStack st' = cs_recStack st \<and> cycles_ok cg st' \<and>
     cs_visited st \<union> vs \<subseteq> cs_visited st' \<and> cs_visited st' \<subseteq> vertices cg \<and>
     (cs_cycles st' = [] \<longrightarrow> cs_cycles st = [] \<and> vs \<inter> cs_recStack st = {} \<and>
        (\<exists>ps. cs_visited st' = cs_visited st \<union> set ps \<and> set ps \<inter> cs_visited st = {} \<and>
              finished cg (cs_visited st - cs_recStack st) ps))"

definition search_inv :: "(nat \<times> Edge list) list \<Rightarrow> CycleSearch \<Rightarrow> bool" where
  "search_inv cg st \<longleftrightarrow> cycles_ok cg st \<and> cs_recStack st \<subseteq> cs_visited st \<and> cs_visited st \<subseteq> vertices cg"

lemma searched_cycles_inv: "search_inv cg st \<Longrightarrow> searched_cycles cg vs st st' \<Longrightarrow> search_inv cg st'"
  by (auto simp: search_inv_def searched_cycles_def)

lemma searched_cycles_refl: "search_inv cg st \<Longrightarrow> searched_cycles cg {} st st"
  unfolding searched_cycles_def search_inv_def by (auto intro: exI [of _ "[]"])

lemma searched_cycles_trans:
  assumes inv: "search_inv cg st" and a: "searched_cycles cg us st st1" and b: "searched_cycles cg vs st1 st2"
  shows "searched_cycles cg (us \<union> vs) st st2"
  unfolding searched_cycles_def
proof (intro conjI impI)
  note ab = a [unfolded searched_cycles_def] b [unfolded searched_cycles_def]
  show "cs_recStack st2 = cs_recStack st" "cycles_ok cg st2" "cs_visited st2 \<subseteq> vertices cg"
    "cs_visited st \<union> (us \<union> vs) \<subseteq> cs_visited st2"
    using ab by auto
  assume none: "cs_cycles st2 = []"
  then have none1: "cs_cycles st1 = []" using ab(2) by blast
  with ab none show "cs_cycles st = []" "(us \<union> vs) \<inter> cs_recStack st = {}" by auto
  obtain ps where ps: "cs_visited st1 = cs_visited st \<union> set ps" "set ps \<inter> cs_visited st = {}"
    "finished cg (cs_visited st - cs_recStack st) ps" using ab(1) none1 by blast
  obtain qs where qs: "cs_visited st2 = cs_visited st1 \<union> set qs" "set qs \<inter> cs_visited st1 = {}"
    "finished cg (cs_visited st1 - cs_recStack st1) qs" using ab(2) none by blast
  have "cs_visited st1 - cs_recStack st1 = (cs_visited st - cs_recStack st) \<union> set ps"
    using ps(1,2) ab(1) inv by (auto simp: search_inv_def)
  with ps qs have "finished cg (cs_visited st - cs_recStack st) (ps @ qs)" by (simp add: finished_append)
  moreover have "cs_visited st2 = cs_visited st \<union> set (ps @ qs)" "set (ps @ qs) \<inter> cs_visited st = {}"
    using ps qs by auto
  ultimately show "\<exists>ps. cs_visited st2 = cs_visited st \<union> set ps \<and> set ps \<inter> cs_visited st = {} \<and>
      finished cg (cs_visited st - cs_recStack st) ps" by blast
qed

definition cycle_body ::
  "nat \<Rightarrow> (nat \<times> Edge list) list \<Rightarrow> Edge list \<Rightarrow> Edge \<Rightarrow> CycleSearch \<Rightarrow> CycleSearch res" where
  "cycle_body n cg path to st =
     (if edge_idx to \<notin> cs_visited st then findAllCyclesDfs n cg (edge_idx to) (path @ [to]) st
      else if edge_idx to \<in> cs_recStack st then Inr (record_cycle (path @ [to]) st)
      else Inr st)"

definition dfs_ok :: "nat \<Rightarrow> (nat \<times> Edge list) list \<Rightarrow> bool" where
  "dfs_ok n cg \<longleftrightarrow> (\<forall>v path st. search_inv cg st \<longrightarrow> v \<in> vertices cg \<longrightarrow> v \<notin> cs_visited st \<longrightarrow>
     on_path cg path v \<longrightarrow> cs_recStack st = from_idx ` set path \<longrightarrow> card (vertices cg - cs_visited st) \<le> n \<longrightarrow>
     (\<exists>st'. findAllCyclesDfs n cg v path st = Inr st' \<and> searched_cycles cg {v} st st'))"

text \<open>One edge of the loop.\<close>

lemma cycle_body_total:
  assumes wf: "cg_wf cg" and ih: "dfs_ok n cg" and e: "e \<in> set (edges_at cg v)"
    and inv: "search_inv cg st" and path: "on_path cg path v" "cs_recStack st = insert v (from_idx ` set path)"
    and fuel: "card (vertices cg - cs_visited st) \<le> n"
  shows "\<exists>st'. cycle_body n cg path e st = Inr st' \<and> searched_cycles cg {edge_idx e} st st'"
proof -
  let ?w = "edge_idx e"
  have ew: "from_idx e = v" "to_idx e = ?w" "?w \<in> vertices cg"
    using edges_at_wf [OF wf e] by (auto simp: vertices_def)
  have froms: "cs_recStack st = from_idx ` set (path @ [e])" using path(2) ew by auto
  obtain u where c: "chain cg u (path @ [e]) ?w" using path(1) e ew by (auto simp: on_path_def chain_append)
  have d: "distinct (List.map from_idx (path @ [e]))" using path(1) ew by (auto simp: on_path_def)
  show ?thesis
  proof (cases "?w \<in> cs_visited st")
    case False
    then have "?w \<notin> from_idx ` set (path @ [e])" using inv froms by (auto simp: search_inv_def)
    with c d have "on_path cg (path @ [e]) ?w" unfolding on_path_def by blast
    with ih inv ew(3) False froms fuel
    obtain st' where "findAllCyclesDfs n cg ?w (path @ [e]) st = Inr st'" "searched_cycles cg {?w} st st'"
      unfolding dfs_ok_def by blast
    with False show ?thesis by (simp add: cycle_body_def)
  next
    case vis: True
    show ?thesis
    proof (cases "?w \<in> cs_recStack st")
      case True
      have "good_cycle cg (path_cycle (path @ [e]))"
        using cut_cycle [OF c d] ew True froms by simp
      with inv vis have "searched_cycles cg {?w} st (record_cycle (path @ [e]) st)"
        by (auto simp: searched_cycles_def search_inv_def record_cycle_ok record_cycle_nonempty)
      with vis True show ?thesis by (simp add: cycle_body_def)
    next
      case False
      with inv vis have "searched_cycles cg {?w} st st"
        unfolding searched_cycles_def search_inv_def by (auto intro: exI [of _ "[]"])
      with vis False show ?thesis by (simp add: cycle_body_def)
    qed
  qed
qed

lemma searched_fuel:
  assumes "searched_cycles cg vs st st'" and "card (vertices cg - cs_visited st) \<le> n"
  shows "card (vertices cg - cs_visited st') \<le> n"
proof -
  have "vertices cg - cs_visited st' \<subseteq> vertices cg - cs_visited st"
    using assms(1) by (auto simp: searched_cycles_def)
  then have "card (vertices cg - cs_visited st') \<le> card (vertices cg - cs_visited st)"
    by (intro card_mono) auto
  with assms(2) show ?thesis by simp
qed

lemma cycle_loop_total:
  assumes wf: "cg_wf cg" and ih: "dfs_ok n cg" and path: "on_path cg path v"
  shows "set es \<subseteq> set (edges_at cg v) \<Longrightarrow> search_inv cg st \<Longrightarrow>
    cs_recStack st = insert v (from_idx ` set path) \<Longrightarrow> card (vertices cg - cs_visited st) \<le> n \<Longrightarrow>
    \<exists>st'. foldR (cycle_body n cg path) es st = Inr st' \<and> searched_cycles cg (edge_idx ` set es) st st'"
proof (induction es arbitrary: st)
  case Nil
  then show ?case using searched_cycles_refl by simp
next
  case (Cons e es)
  from Cons.prems(1) have e: "e \<in> set (edges_at cg v)" by simp
  from cycle_body_total [OF wf ih e Cons.prems(2) path Cons.prems(3,4)]
  obtain st1 where st1: "cycle_body n cg path e st = Inr st1" "searched_cycles cg {edge_idx e} st st1" by blast
  have "cs_recStack st1 = insert v (from_idx ` set path)"
    using st1(2) Cons.prems(3) by (simp add: searched_cycles_def)
  then obtain st2 where st2: "foldR (cycle_body n cg path) es st1 = Inr st2"
    "searched_cycles cg (edge_idx ` set es) st1 st2"
    using Cons.IH [of st1] Cons.prems(1) searched_cycles_inv [OF Cons.prems(2) st1(2)]
      searched_fuel [OF st1(2) Cons.prems(4)] by auto
  from searched_cycles_trans [OF Cons.prems(2) st1(2) st2(2)] st1(1) st2(1) show ?case by auto
qed

lemma findAllCyclesDfs_step:
  "findAllCyclesDfs (Suc n) cg v path st =
     bindR (foldR (cycle_body n cg path) (component_edges cg v)
        (st\<lparr>cs_visited := insert v (cs_visited st), cs_recStack := insert v (cs_recStack st)\<rparr>))
     (\<lambda>st. Inr (st\<lparr>cs_recStack := cs_recStack st - {v}\<rparr>))"
  by (simp add: cycle_body_def [abs_def])

text \<open>Leaving a vertex finishes it.\<close>

lemma leave_vertex:
  assumes wf: "cg_wf cg" and inv: "search_inv cg st" and v: "v \<notin> cs_visited st" "v \<in> vertices cg"
    and loop: "searched_cycles cg (edge_idx ` set (edges_at cg v))
      (st\<lparr>cs_visited := insert v (cs_visited st), cs_recStack := insert v (cs_recStack st)\<rparr>) st1"
  shows "searched_cycles cg {v} st (st1\<lparr>cs_recStack := cs_recStack st1 - {v}\<rparr>)"
proof -
  have vr: "v \<notin> cs_recStack st" using v inv by (auto simp: search_inv_def)
  have f: "insert v (cs_visited st) - insert v (cs_recStack st) = cs_visited st - cs_recStack st"
    using v by auto
  have order: "\<exists>ps. cs_visited st1 = cs_visited st \<union> set ps \<and> set ps \<inter> cs_visited st = {} \<and>
      finished cg (cs_visited st - cs_recStack st) ps" if none: "cs_cycles st1 = []"
  proof -
    obtain ps where ps: "cs_visited st1 = insert v (cs_visited st) \<union> set ps"
      "set ps \<inter> insert v (cs_visited st) = {}" "finished cg (cs_visited st - cs_recStack st) ps"
      using loop none by (auto simp: searched_cycles_def f)
    have "edge_idx e \<in> (cs_visited st - cs_recStack st) \<union> set ps" if "e \<in> set (edges_at cg v)" for e
    proof -
      have "edge_idx e \<in> cs_visited st1" "edge_idx e \<notin> insert v (cs_recStack st)"
        using loop none that by (auto simp: searched_cycles_def)
      with ps(1) show ?thesis by auto
    qed
    with ps v have "finished cg (cs_visited st - cs_recStack st) (ps @ [v])" by (simp add: finished_append)
    moreover have "cs_visited st1 = cs_visited st \<union> set (ps @ [v])" "set (ps @ [v]) \<inter> cs_visited st = {}"
      using ps v by auto
    ultimately show ?thesis by blast
  qed
  from loop order vr show ?thesis
    by (simp add: searched_cycles_def cycles_ok_def) auto
qed

lemma dfs_ok_all: "cg_wf cg \<Longrightarrow> dfs_ok n cg"
proof (induction n)
  case 0
  show ?case unfolding dfs_ok_def
  proof (intro allI impI)
    fix v path and st :: CycleSearch
    assume "v \<in> vertices cg" "v \<notin> cs_visited st" "card (vertices cg - cs_visited st) \<le> 0"
    then have False using card_gt_0_iff [of "vertices cg - cs_visited st"] by auto
    then show "\<exists>st'. findAllCyclesDfs 0 cg v path st = Inr st' \<and> searched_cycles cg {v} st st'" ..
  qed
next
  case (Suc n)
  then have ih: "dfs_ok n cg" by blast
  show ?case unfolding dfs_ok_def
  proof (intro allI impI)
    fix v path and st :: CycleSearch
    assume inv: "search_inv cg st" and v: "v \<in> vertices cg" "v \<notin> cs_visited st" and p: "on_path cg path v"
      and r: "cs_recStack st = from_idx ` set path" and fuel: "card (vertices cg - cs_visited st) \<le> Suc n"
    let ?st = "st\<lparr>cs_visited := insert v (cs_visited st), cs_recStack := insert v (cs_recStack st)\<rparr>"
    have "vertices cg - cs_visited ?st = (vertices cg - cs_visited st) - {v}" by auto
    then have "card (vertices cg - cs_visited ?st) \<le> n" using fuel v by (simp add: card_Diff_singleton)
    moreover have "search_inv cg ?st" using inv v by (auto simp: search_inv_def cycles_ok_def)
    ultimately obtain st1 where st1: "foldR (cycle_body n cg path) (component_edges cg v) ?st = Inr st1"
      "searched_cycles cg (edge_idx ` set (edges_at cg v)) ?st st1"
      using cycle_loop_total [OF Suc.prems ih p, of "component_edges cg v" ?st] r by auto
    with leave_vertex [OF Suc.prems inv v(2,1) st1(2)]
    show "\<exists>st'. findAllCyclesDfs (Suc n) cg v path st = Inr st' \<and> searched_cycles cg {v} st st'"
      by (simp only: findAllCyclesDfs_step) simp
  qed
qed

section \<open>The cycles of a component\<close>

definition cycles_loop :: "(nat \<times> Edge list) list \<Rightarrow> nat \<Rightarrow> CycleSearch \<Rightarrow> CycleSearch res" where
  "cycles_loop cg v st =
     (if v \<notin> cs_visited st then findAllCyclesDfs (length cg) cg v [] st else Inr st)"

lemma cycles_loop_total:
  assumes wf: "cg_wf cg"
  shows "set vs \<subseteq> vertices cg \<Longrightarrow> search_inv cg st \<Longrightarrow> cs_recStack st = {} \<Longrightarrow>
    \<exists>st'. foldR (cycles_loop cg) vs st = Inr st' \<and> searched_cycles cg (set vs) st st'"
proof (induction vs arbitrary: st)
  case Nil
  then show ?case using searched_cycles_refl by simp
next
  case (Cons v vs)
  have "card (vertices cg - cs_visited st) \<le> card (vertices cg)" by (intro card_mono) auto
  also have "\<dots> \<le> length cg" unfolding vertices_def by (metis card_image_le card_length order_trans set_map list.set_map length_map)
  finally have fuel: "card (vertices cg - cs_visited st) \<le> length cg" .
  have one: "\<exists>st1. cycles_loop cg v st = Inr st1 \<and> searched_cycles cg {v} st st1"
  proof (cases "v \<in> cs_visited st")
    case True
    with Cons.prems(2,3) have "searched_cycles cg {v} st st"
      unfolding searched_cycles_def search_inv_def by (auto intro: exI [of _ "[]"])
    with True show ?thesis by (simp add: cycles_loop_def)
  next
    case False
    have "on_path cg [] v" by (simp add: on_path_def)
    with dfs_ok_all [OF wf, of "length cg"] Cons.prems False fuel show ?thesis
      unfolding dfs_ok_def cycles_loop_def by simp
  qed
  then obtain st1 where st1: "cycles_loop cg v st = Inr st1" "searched_cycles cg {v} st st1" by blast
  have "cs_recStack st1 = {}" using st1(2) Cons.prems(3) by (simp add: searched_cycles_def)
  then obtain st2 where st2: "foldR (cycles_loop cg) vs st1 = Inr st2" "searched_cycles cg (set vs) st1 st2"
    using Cons.IH [of st1] Cons.prems(1) searched_cycles_inv [OF Cons.prems(2) st1(2)] by auto
  from searched_cycles_trans [OF Cons.prems(2) st1(2) st2(2)] st1(1) st2(1) show ?case by auto
qed

text \<open>Vertices that are finished one after the other lie on no cycle.\<close>

definition points_to :: "(nat \<times> Edge list) list \<Rightarrow> nat \<Rightarrow> nat \<Rightarrow> bool" where
  "points_to cg x y \<longleftrightarrow> (\<exists>e \<in> set (edges_at cg x). edge_idx e = y)"

lemma finished_acyclic:
  "finished cg F ps \<Longrightarrow> (\<And>x y. x \<in> F \<Longrightarrow> points_to cg x y \<Longrightarrow> y \<in> F) \<Longrightarrow>
   x \<in> set ps \<Longrightarrow> \<not> (points_to cg)\<^sup>+\<^sup>+ x x"
proof (induction ps arbitrary: F x)
  case (Cons z zs)
  have z: "\<forall>y. points_to cg z y \<longrightarrow> y \<in> F" "z \<notin> F" "finished cg (insert z F) zs"
    using Cons.prems(1) by (auto simp: points_to_def)
  have closed: "y \<in> F" if "(points_to cg)\<^sup>*\<^sup>* u y" "u \<in> F" for u y
    using that by (induction rule: rtranclp_induct) (auto intro: Cons.prems(2))
  show ?case
  proof (cases "x = z")
    case True
    show ?thesis
    proof
      assume "(points_to cg)\<^sup>+\<^sup>+ x x"
      then obtain u where "points_to cg x u" "(points_to cg)\<^sup>*\<^sup>* u x" by (blast dest: tranclpD)
      with z closed True show False by blast
    qed
  next
    case False
    with Cons.IH [OF z(3), of x] Cons.prems(2,3) z(1) show ?thesis by auto
  qed
qed simp

lemma findCycles_total:
  assumes wf: "cg_wf (componentGraph c)" and new: "cycles c = []" "cyclesIdents c = []"
  shows "\<exists>cs ids. findCycles c = Inr (c\<lparr>cycles := cs, cyclesIdents := ids\<rparr>) \<and>
    list_all (good_cycle (componentGraph c)) cs \<and> distinct (List.map (\<lambda>c. getCycleId (rev c)) cs) \<and>
    (cs = [] \<longrightarrow> (\<forall>x \<in> vertices (componentGraph c). \<not> (points_to (componentGraph c))\<^sup>+\<^sup>+ x x))"
proof -
  let ?cg = "componentGraph c"
  let ?st = "\<lparr>cs_visited = {}, cs_recStack = {}, cs_cycles = cycles c, cs_idents = cyclesIdents c\<rparr>"
  let ?vs = "sort (List.map fst ?cg)"
  have vs: "set ?vs = vertices ?cg" by (simp add: vertices_def)
  have "search_inv ?cg ?st" using new by (simp add: search_inv_def cycles_ok_def)
  with cycles_loop_total [OF wf, of ?vs ?st] vs
  obtain st where st: "foldR (cycles_loop ?cg) ?vs ?st = Inr st" "searched_cycles ?cg (vertices ?cg) ?st st"
    by auto
  have acyclic: "\<not> (points_to ?cg)\<^sup>+\<^sup>+ x x" if none: "cs_cycles st = []" and x: "x \<in> vertices ?cg" for x
  proof -
    obtain ps where ps: "cs_visited st = set ps" "finished ?cg {} ps"
      using st(2) none by (auto simp: searched_cycles_def)
    have "x \<in> set ps" using st(2) ps(1) x by (auto simp: searched_cycles_def)
    with finished_acyclic [OF ps(2)] show ?thesis by simp
  qed
  have "findCycles c = Inr (c\<lparr>cycles := cs_cycles st, cyclesIdents := cs_idents st\<rparr>)"
    using st(1) by (simp add: findCycles_def cycles_loop_def [abs_def])
  moreover have "cycles_ok ?cg st" using st(2) by (simp add: searched_cycles_def)
  ultimately show ?thesis using acyclic unfolding cycles_ok_def by metis
qed

section \<open>Grouping and linking of cycles\<close>

definition groups_ok :: "nat \<Rightarrow> (string \<times> nat list) list \<Rightarrow> bool" where
  "groups_ok n m \<longleftrightarrow> distinct (List.map fst m) \<and> (\<forall>(k, g) \<in> set m. g \<noteq> [] \<and> (\<forall>i \<in> set g. i < n))"

lemma groups_ok_append: "groups_ok n m \<Longrightarrow> i < n \<Longrightarrow> groups_ok n (append_at k i m)"
proof -
  assume "groups_ok n m" "i < n"
  then show "groups_ok n (append_at k i m)"
    unfolding groups_ok_def
    by (intro conjI distinct_append_at) (simp, induction k i m rule: append_at.induct, auto split: if_splits)
qed

lemma groupCycles_ok: "groups_ok (length (cycles c)) (groupedCycles (groupCycles c))"
proof -
  have "groups_ok n (fold (\<lambda>(i, cycle). append_at (getCycleGroupId cycle) i) xs m)"
    if "groups_ok n m" "\<forall>(i, _) \<in> set xs. i < n" for xs m n
    using that by (induction xs arbitrary: m) (auto intro: groups_ok_append)
  moreover have "\<forall>(i, _) \<in> set (List.enumerate 0 (cycles c)). i < length (cycles c)"
    by (auto simp: in_set_enumerate_eq)
  moreover have "groups_ok (length (cycles c)) []" by (simp add: groups_ok_def)
  ultimately show ?thesis by (simp add: groupCycles_def)
qed

lemma groupCycles_simps [simp]:
  "cycles (groupCycles c) = cycles c" "componentGraph (groupCycles c) = componentGraph c"
  "c_tables (groupCycles c) = c_tables c" "c_id (groupCycles c) = c_id c"
  by (simp_all add: groupCycles_def)

text \<open>Linking changes nothing but the graph of the groups.\<close>

definition same_but_links :: "Component \<Rightarrow> Component \<Rightarrow> bool" where
  "same_but_links c c' \<longleftrightarrow> c' = c\<lparr>groupedCyclesGraph := groupedCyclesGraph c'\<rparr>"

lemma link_groups_total:
  assumes "groups_ok (length (cycles c)) [gI]" and "groups_ok (length (cycles c)) [gJ]"
  shows "\<exists>k' c'. link_groups gI gJ (k, c) = Inr (k', c') \<and> same_but_links c c'"
proof -
  obtain a i rest where gI: "gI = (a, i # rest)" "i < length (cycles c)"
    using assms(1) by (cases gI; cases "snd gI") (auto simp: groups_ok_def)
  obtain b j rest' where gJ: "gJ = (b, j # rest')" "j < length (cycles c)"
    using assms(2) by (cases gJ; cases "snd gJ") (auto simp: groups_ok_def)
  obtain ts where ts: "findCommonVertexes c i j = Inr ts" using gI gJ by (simp add: findCommonVertexes_def)
  obtain l where l: "areCyclesLinked c i j = Inr l" using gI gJ by (simp add: areCyclesLinked_def Let_def)
  show ?thesis
    by (simp add: link_groups_def gI gJ first_of_def ts l NewCycleEdge_def same_but_links_def)
qed

lemma same_but_links_trans: "same_but_links a b \<Longrightarrow> same_but_links b c \<Longrightarrow> same_but_links a c"
  unfolding same_but_links_def by (metis (no_types, lifting) Component.surjective Component.update_convs(7))

lemma same_but_links_simps:
  assumes "same_but_links c c'"
  shows "cycles c' = cycles c" "componentGraph c' = componentGraph c" "c_tables c' = c_tables c"
    "groupedCycles c' = groupedCycles c"
  using arg_cong [OF assms [unfolded same_but_links_def], of cycles]
    arg_cong [OF assms [unfolded same_but_links_def], of componentGraph]
    arg_cong [OF assms [unfolded same_but_links_def], of c_tables]
    arg_cong [OF assms [unfolded same_but_links_def], of groupedCycles]
  by simp_all

text \<open>A loop whose rounds keep all but the links.\<close>

lemma links_loop:
  assumes "\<And>g k c'. g \<in> set gs \<Longrightarrow> same_but_links c c' \<Longrightarrow>
      \<exists>k'' c''. f g (k, c') = Inr (k'', c'') \<and> same_but_links c' c''"
    and "same_but_links c c1"
  shows "\<exists>k' c'. foldR f gs (k, c1) = Inr (k', c') \<and> same_but_links c c'"
  using assms
proof (induction gs arbitrary: k c1)
  case Nil
  then show ?case by auto
next
  case (Cons g gs)
  obtain k2 c2 where 2: "f g (k, c1) = Inr (k2, c2)" "same_but_links c1 c2"
    using Cons.prems(1) [of g c1 k] Cons.prems(2) by auto
  have "same_but_links c c2" by (rule same_but_links_trans [OF Cons.prems(2) 2(2)])
  with Cons.IH [of c2 k2] Cons.prems(1) 2(1) show ?case by auto
qed

lemma groups_ok_single: "groups_ok n m \<Longrightarrow> g \<in> set m \<Longrightarrow> groups_ok n [g]"
  by (auto simp: groups_ok_def)

lemma buildCyclesGraph_total:
  assumes "groups_ok (length (cycles c)) (groupedCycles c)"
  shows "\<exists>c'. buildCyclesGraph c = Inr c' \<and> same_but_links c c'"
proof -
  let ?gs = "groupedCycles c"
  have inner: "\<exists>k'' c''. foldR (\<lambda>gJ. link_groups gI gJ) ?gs (k, c1) = Inr (k'', c'') \<and> same_but_links c1 c''"
    if "gI \<in> set ?gs" "same_but_links c c1" for gI k c1
  proof (rule links_loop)
    fix gJ k2 c2
    assume J: "gJ \<in> set ?gs" and s: "same_but_links c1 c2"
    have "cycles c2 = cycles c" using same_but_links_simps(1) s that(2) by metis
    then show "\<exists>k'' c''. link_groups gI gJ (k2, c2) = Inr (k'', c'') \<and> same_but_links c2 c''"
      using link_groups_total [of c2 gI gJ k2] groups_ok_single [OF assms] that(1) J by simp
  qed (simp add: same_but_links_def)
  have start: "same_but_links c (c\<lparr>groupedCyclesGraph := []\<rparr>)" by (simp add: same_but_links_def)
  obtain k' c' where "foldR (\<lambda>gI. foldR (\<lambda>gJ. link_groups gI gJ) ?gs) ?gs (0, c\<lparr>groupedCyclesGraph := []\<rparr>)
      = Inr (k', c')" "same_but_links c c'"
    using links_loop [of ?gs c "\<lambda>gI. foldR (\<lambda>gJ. link_groups gI gJ) ?gs" "c\<lparr>groupedCyclesGraph := []\<rparr>" 0]
      inner start by blast
  then show ?thesis by (simp add: buildCyclesGraph_def)
qed

definition strongly_connected :: "(nat \<times> Edge list) list \<Rightarrow> bool" where
  "strongly_connected cg \<longleftrightarrow> (\<forall>x \<in> vertices cg. \<forall>y \<in> vertices cg. (points_to cg)\<^sup>*\<^sup>* x y)"

lemma NewComponent_total:
  assumes "cg_wf cg"
  shows "\<exists>c. NewComponent i cg tables = Inr c \<and> componentGraph c = cg \<and> c_tables c = tables \<and>
    list_all (good_cycle cg) (cycles c) \<and> distinct (List.map (\<lambda>c. getCycleId (rev c)) (cycles c)) \<and>
    groups_ok (length (cycles c)) (groupedCycles c) \<and> groupedCycles c = groupedCycles (groupCycles c) \<and>
    (\<not> hasCycle c \<longrightarrow> (\<forall>x \<in> vertices cg. \<not> (points_to cg)\<^sup>+\<^sup>+ x x))"
proof -
  let ?c = "\<lparr>c_id = i, componentGraph = cg, c_tables = tables, cycles = [], cyclesIdents = [],
         groupedCycles = [], groupedCyclesGraph = []\<rparr>"
  obtain cs ids where f: "findCycles ?c = Inr (?c\<lparr>cycles := cs, cyclesIdents := ids\<rparr>)"
    "list_all (good_cycle cg) cs" "distinct (List.map (\<lambda>c. getCycleId (rev c)) cs)"
    "cs = [] \<longrightarrow> (\<forall>x \<in> vertices cg. \<not> (points_to cg)\<^sup>+\<^sup>+ x x)"
    using findCycles_total [of ?c] assms by auto
  let ?g = "groupCycles (?c\<lparr>cycles := cs, cyclesIdents := ids\<rparr>)"
  have g: "groups_ok (length (cycles ?g)) (groupedCycles ?g)" 
    using groupCycles_ok [of "?c\<lparr>cycles := cs, cyclesIdents := ids\<rparr>"] by simp
  obtain c' where c': "buildCyclesGraph ?g = Inr c'" "same_but_links ?g c'"
    using buildCyclesGraph_total [OF g] by blast
  have "NewComponent i cg tables = Inr c'" using f(1) c'(1) by (simp add: NewComponent_def)
  moreover note same_but_links_simps [OF c'(2)]
  moreover have "groupedCycles c' = groupedCycles (groupCycles c')"
    using same_but_links_simps(1,4) [OF c'(2)] by (simp add: groupCycles_def)
  ultimately show ?thesis using f g by (intro exI [of _ c']) (simp add: hasCycle_def)
qed

text \<open>
  Claim C8. For a strongly connected component the constructor returns; every cycle it records is a closed
  path of the component's references through distinct tables, no cycle is recorded twice, and the component
  counts as cyclic exactly if it has a reference inside.
\<close>

theorem NewComponent_cycles:
  assumes "cg_wf cg" and "strongly_connected cg"
  shows "\<exists>c. NewComponent i cg tables = Inr c \<and>
    list_all (good_cycle cg) (cycles c) \<and> distinct (List.map (\<lambda>c. getCycleId (rev c)) (cycles c)) \<and>
    (hasCycle c \<longleftrightarrow> (\<exists>(v, es) \<in> set cg. es \<noteq> []))"
proof -
  obtain c where c: "NewComponent i cg tables = Inr c" "list_all (good_cycle cg) (cycles c)"
    "distinct (List.map (\<lambda>c. getCycleId (rev c)) (cycles c))"
    "\<not> hasCycle c \<longrightarrow> (\<forall>x \<in> vertices cg. \<not> (points_to cg)\<^sup>+\<^sup>+ x x)"
    using NewComponent_total [OF assms(1)] by blast
  have d: "distinct (List.map fst cg)" using assms(1) by (simp add: cg_wf_def)
  have "hasCycle c" if e: "(v, es) \<in> set cg" "es \<noteq> []" for v es
  proof (rule ccontr)
    assume n: "\<not> hasCycle c"
    have m: "edges_at cg v = es" using d e(1) by (simp add: edges_at_def)
    then obtain a where a: "a \<in> set (edges_at cg v)" using e(2) by (cases es) auto
    then have p: "points_to cg v (edge_idx a)" by (auto simp: points_to_def)
    have "v \<in> vertices cg" "edge_idx a \<in> vertices cg"
      using edges_at_wf [OF assms(1) a] by (auto simp: vertices_def)
    with assms(2) p have "(points_to cg)\<^sup>+\<^sup>+ v v"
      by (auto simp: strongly_connected_def intro: rtranclp_into_tranclp2)
    with c(4) n \<open>v \<in> vertices cg\<close> show False by blast
  qed
  moreover have "\<exists>(v, es) \<in> set cg. es \<noteq> []" if h: "hasCycle c"
  proof -
    obtain cyc where "cyc \<in> set (cycles c)" using h by (cases "cycles c") (auto simp: hasCycle_def)
    with c(2) have "good_cycle cg cyc" by (auto simp: list_all_iff)
    then obtain e es where "e \<in> set (edges_at cg (from_idx e))" by (cases cyc) (auto simp: good_cycle_def)
    then obtain xs where "map_of cg (from_idx e) = Some xs" "e \<in> set xs"
      by (cases "map_of cg (from_idx e)") (auto simp: edges_at_def)
    then show ?thesis by (intro bexI [OF _ map_of_SomeD]) auto
  qed
  ultimately show ?thesis using c by blast
qed

section \<open>The order of the groups\<close>

lemma cycles_at_total: "\<forall>i \<in> set idxs. i < length (cycles c) \<Longrightarrow>
   cycles_at c idxs = Inr (List.map (\<lambda>i. cycles c ! i) idxs)"
  unfolding cycles_at_def by (induction idxs) auto

text \<open>The tables of a group, when the groups are well-formed.\<close>

definition group_tables :: "Component \<Rightarrow> string \<Rightarrow> Table list" where
  "group_tables c g = (case getCycleGroupTables c g of Inl _ \<Rightarrow> [] | Inr ts \<Rightarrow> ts)"

lemma getCycleGroupTables_total:
  assumes "groups_ok (length (cycles c)) (groupedCycles c)" and "g \<in> fst ` set (groupedCycles c)"
  shows "getCycleGroupTables c g = Inr (group_tables c g)"
proof -
  obtain idxs where m: "map_of (groupedCycles c) g = Some idxs"
    using assms(2) by (metis (no_types, lifting) imageE weak_map_of_SomeI prod.collapse)
  then have "idxs \<noteq> []" "\<forall>i \<in> set idxs. i < length (cycles c)"
    using assms(1) map_of_SomeD [OF m] by (auto simp: groups_ok_def)
  then show ?thesis
    by (simp add: group_tables_def getCycleGroupTables_def getCycleGroup_def m cycles_at_total first_of_def)
qed

definition has_conds :: "Component \<Rightarrow> string \<Rightarrow> bool" where
  "has_conds c g \<longleftrightarrow> (\<exists>t \<in> set (group_tables c g). t_SubsetConds t \<noteq> [])"

definition overlap :: "Component \<Rightarrow> string \<Rightarrow> string \<Rightarrow> bool" where
  "overlap c a b \<longleftrightarrow> (\<exists>ta \<in> set (group_tables c a). \<exists>tb \<in> set (group_tables c b). t_Oid ta = t_Oid tb)"

lemma groupHasOwnSubsetConds_total:
  assumes "groups_ok (length (cycles c)) (groupedCycles c)" and "g \<in> fst ` set (groupedCycles c)"
  shows "groupHasOwnSubsetConds c g = Inr (has_conds c g)"
  by (simp add: groupHasOwnSubsetConds_def getCycleGroupTables_total [OF assms] has_conds_def list_ex_iff)

lemma shares_ordered_total:
  assumes "groups_ok (length (cycles c)) (groupedCycles c)" and "g \<in> fst ` set (groupedCycles c)"
  shows "set ordered \<subseteq> fst ` set (groupedCycles c) \<Longrightarrow>
    shares_ordered c ordered g = Inr (\<exists>a \<in> set ordered. overlap c a g)"
proof (induction ordered)
  case (Cons a as)
  then have a: "a \<in> fst ` set (groupedCycles c)" by simp
  have "groupsShareVertexes c a g = Inr (overlap c a g)"
    by (simp add: groupsShareVertexes_def getCycleGroupTables_total [OF assms(1) a]
        getCycleGroupTables_total [OF assms] overlap_def list_ex_iff) blast
  with Cons show ?case by (auto simp: shares_ordered_def)
qed (simp add: shares_ordered_def)

text \<open>One pass of \<^verbatim>\<open>take\<close>.\<close>

lemma take_groups_spec:
  assumes "\<And>o' g. set o' \<subseteq> S \<Longrightarrow> g \<in> S \<Longrightarrow> cond o' g = Inr (p o' g)"
  shows "set ordered \<subseteq> S \<Longrightarrow> set remaining \<subseteq> S \<Longrightarrow>
    \<exists>new rest. take_groups cond ordered remaining = Inr (ordered @ new, rest) \<and>
      mset (new @ rest) = mset remaining \<and>
      (\<forall>as g bs. new = as @ g # bs \<longrightarrow> p (ordered @ as) g) \<and>
      (new = [] \<longrightarrow> rest = remaining \<and> (\<forall>g \<in> set remaining. \<not> p ordered g))"
proof (induction remaining arbitrary: ordered)
  case Nil
  then show ?case by simp
next
  case (Cons g remaining)
  have c: "cond ordered g = Inr (p ordered g)" using assms Cons.prems by simp
  show ?case
  proof (cases "p ordered g")
    case True
    obtain new rest where ih: "take_groups cond (ordered @ [g]) remaining = Inr ((ordered @ [g]) @ new, rest)"
      "mset (new @ rest) = mset remaining" "\<forall>as h bs. new = as @ h # bs \<longrightarrow> p ((ordered @ [g]) @ as) h"
      using Cons.IH [of "ordered @ [g]"] Cons.prems by auto
    have "p (ordered @ as) h" if "g # new = as @ h # bs" for as h bs
      using that True ih(3) by (cases as) auto
    with c True ih(1,2) show ?thesis by - (rule exI [of _ "g # new"], rule exI [of _ rest], auto)
  next
    case False
    obtain new rest where ih: "take_groups cond ordered remaining = Inr (ordered @ new, rest)"
      "mset (new @ rest) = mset remaining" "\<forall>as h bs. new = as @ h # bs \<longrightarrow> p (ordered @ as) h"
      "new = [] \<longrightarrow> rest = remaining \<and> (\<forall>g \<in> set remaining. \<not> p ordered g)"
      using Cons.IH [of ordered] Cons.prems by auto
    with c False show ?thesis by (intro exI [of _ new] exI [of _ "g # rest"]) auto
  qed
qed

text \<open>
  How a group may follow the groups \<open>earlier\<close>: it has a table in common with one of them, or no group that is
  still to come has.
\<close>

definition follows :: "Component \<Rightarrow> string list \<Rightarrow> string \<Rightarrow> string list \<Rightarrow> bool" where
  "follows c earlier g later \<longleftrightarrow> (\<exists>a \<in> set earlier. overlap c a g) \<or>
     (\<forall>h \<in> set (g # later). \<not> (\<exists>a \<in> set earlier. overlap c a h))"

definition well_ordered :: "Component \<Rightarrow> string list \<Rightarrow> string list \<Rightarrow> bool" where
  "well_ordered c start new \<longleftrightarrow> (\<forall>as g bs. new = as @ g # bs \<longrightarrow> follows c (start @ as) g bs)"

lemma well_ordered_append:
  assumes "\<forall>as g bs. xs = as @ g # bs \<longrightarrow> (\<exists>a \<in> set (start @ as). overlap c a g)"
    and "well_ordered c (start @ xs) ys"
  shows "well_ordered c start (xs @ ys)"
  unfolding well_ordered_def
proof (intro allI impI)
  fix as g bs
  assume e: "xs @ ys = as @ g # bs"
  then consider us where "xs = as @ us" "us @ ys = g # bs" | us where "xs @ us = as" "ys = us @ g # bs"
    by (auto simp: append_eq_append_conv2)
  then show "follows c (start @ as) g bs"
  proof cases
    case 1
    show ?thesis
    proof (cases us)
      case Nil
      with 1 assms(2) show ?thesis unfolding well_ordered_def by fastforce
    next
      case (Cons u us')
      with 1 assms(1) show ?thesis unfolding follows_def by auto
    qed
  next
    case 2
    with assms(2) show ?thesis unfolding well_ordered_def by (metis append_assoc)
  qed
qed

lemma order_groups_spec:
  assumes ok: "groups_ok (length (cycles c)) (groupedCycles c)"
  shows "length remaining \<le> n \<Longrightarrow> set (ordered @ remaining) \<subseteq> fst ` set (groupedCycles c) \<Longrightarrow>
    \<exists>new. order_groups n c ordered remaining = Inr (ordered @ new) \<and> mset new = mset remaining \<and>
      well_ordered c ordered new"
proof (induction n arbitrary: ordered remaining)
  case 0
  then show ?case by (simp add: well_ordered_def)
next
  case (Suc n)
  let ?S = "fst ` set (groupedCycles c)"
  have cond: "shares_ordered c o' g = Inr (\<exists>a \<in> set o'. overlap c a g)" if "set o' \<subseteq> ?S" "g \<in> ?S" for o' g
    using shares_ordered_total [OF ok that(2,1)] .
  show ?case
  proof (cases "remaining = []")
    case True
    then show ?thesis by (simp add: well_ordered_def)
  next
    case False
    have "\<exists>new rest. take_groups (shares_ordered c) ordered remaining = Inr (ordered @ new, rest) \<and>
      mset (new @ rest) = mset remaining \<and>
      (\<forall>as g bs. new = as @ g # bs \<longrightarrow> (\<exists>a \<in> set (ordered @ as). overlap c a g)) \<and>
      (new = [] \<longrightarrow> rest = remaining \<and> (\<forall>g \<in> set remaining. \<not> (\<exists>a \<in> set ordered. overlap c a g)))"
      by (rule take_groups_spec [where S = ?S, OF cond]) (use Suc.prems(2) in auto)
    then obtain new rest where t: "take_groups (shares_ordered c) ordered remaining = Inr (ordered @ new, rest)"
      "mset (new @ rest) = mset remaining"
      "\<forall>as g bs. new = as @ g # bs \<longrightarrow> (\<exists>a \<in> set (ordered @ as). overlap c a g)"
      "new = [] \<longrightarrow> rest = remaining \<and> (\<forall>g \<in> set remaining. \<not> (\<exists>a \<in> set ordered. overlap c a g))"
      by (elim exE conjE)
    have len: "length new + length rest = length remaining" using arg_cong [OF t(2), of size] by simp
    have set_rem: "set new \<union> set rest = set remaining" using arg_cong [OF t(2), of set_mset] by simp
    show ?thesis
    proof (cases "new = []")
      case True
      then have rest: "rest = remaining" using t(4) by simp
      obtain g gs where gs: "remaining = g # gs" using False by (cases remaining) auto
      obtain new' where n: "order_groups n c (ordered @ [g]) gs = Inr ((ordered @ [g]) @ new')"
        "mset new' = mset gs" "well_ordered c (ordered @ [g]) new'"
        using Suc.IH [of gs "ordered @ [g]"] Suc.prems gs by auto
      have "set (g # new') = set remaining" using arg_cong [OF n(2), of set_mset] gs by simp
      then have "follows c ordered g new'" using t(4) True unfolding follows_def by auto
      then have "well_ordered c ordered (g # new')"
        using n(3) unfolding well_ordered_def by (auto simp: Cons_eq_append_conv)
      with n t(1) True rest gs show ?thesis by (intro exI [of _ "g # new'"]) simp
    next
      case nonempty: False
      then have "length rest \<le> n" "length rest \<noteq> length remaining" using len Suc.prems(1)
        by (cases new; simp)+
      moreover obtain new' where n: "order_groups n c (ordered @ new) rest = Inr ((ordered @ new) @ new')"
        "mset new' = mset rest" "well_ordered c (ordered @ new) new'"
        using Suc.IH [of rest "ordered @ new"] calculation(1) set_rem Suc.prems(2) by auto
      moreover have "well_ordered c ordered (new @ new')"
        by (rule well_ordered_append [OF t(3) n(3)])
      ultimately show ?thesis using t(1,2) False by (intro exI [of _ "new @ new'"]) simp
    qed
  qed
qed

lemma take_own_conds:
  assumes "\<And>g. g \<in> set remaining \<Longrightarrow> cond g = Inr (p g)"
  shows "take_groups (\<lambda>_. cond) ordered remaining =
    Inr (ordered @ filter p remaining, filter (\<lambda>g. \<not> p g) remaining)"
  using assms by (induction remaining arbitrary: ordered) auto

lemma getSortedGroupIds_facts:
  assumes "groups_ok (length (cycles c)) (groupedCycles c)"
  shows "\<exists>rest. getSortedGroupIds c =
      Inr (filter (has_conds c) (sort (List.map fst (groupedCycles c))) @ rest) \<and>
    mset rest = mset (filter (\<lambda>g. \<not> has_conds c g) (List.map fst (groupedCycles c))) \<and>
    well_ordered c (filter (has_conds c) (sort (List.map fst (groupedCycles c)))) rest"
proof -
  let ?all = "sort (List.map fst (groupedCycles c))"
  let ?own = "filter (has_conds c) ?all" and ?left = "filter (\<lambda>g. \<not> has_conds c g) ?all"
  have t: "take_groups (\<lambda>_. groupHasOwnSubsetConds c) [] ?all = Inr ([] @ ?own, ?left)"
    by (rule take_own_conds) (use groupHasOwnSubsetConds_total [OF assms] in auto)
  have "set (?own @ ?left) \<subseteq> fst ` set (groupedCycles c)" by auto
  from order_groups_spec [OF assms order_refl this]
  obtain new where "order_groups (length ?left) c ?own ?left = Inr (?own @ new)" "mset new = mset ?left"
    "well_ordered c ?own new" by blast
  with t show ?thesis by (auto simp: getSortedGroupIds_def Let_def mset_filter)
qed

text \<open>
  The groups come out as a permutation: first, sorted, those with subset conditions of their own,
  then the others, each next to a group before it that it shares a table with, unless none of the groups left
  does.
\<close>

lemma getSortedGroupIds_order:
  assumes "groups_ok (length (cycles c)) (groupedCycles c)"
  shows "\<exists>rest. getSortedGroupIds c =
      Inr (filter (has_conds c) (sort (List.map fst (groupedCycles c))) @ rest) \<and>
    mset rest = mset (filter (\<lambda>g. \<not> has_conds c g) (List.map fst (groupedCycles c))) \<and>
    well_ordered c (filter (has_conds c) (sort (List.map fst (groupedCycles c)))) rest"
  by (rule getSortedGroupIds_facts [OF assms])

section \<open>On samples\<close>

definition sample_cg :: "(nat \<times> Edge list) list" where
  "sample_cg = [(0, [sample_edge 0 0 1, sample_edge 1 0 2]), (1, [sample_edge 2 1 0]), (2, [sample_edge 3 2 1])]"

lemma sample_cg_wf: "cg_wf sample_cg"
  by (auto simp: cg_wf_def sample_cg_def)

lemma sample_cg_connected: "strongly_connected sample_cg"
proof -
  have e: "points_to sample_cg 0 1" "points_to sample_cg 0 2" "points_to sample_cg 1 0" "points_to sample_cg 2 1"
    by (auto simp: points_to_def edges_at_def sample_cg_def)
  then have "(points_to sample_cg)\<^sup>*\<^sup>* 2 0" "(points_to sample_cg)\<^sup>*\<^sup>* 1 2"
    by (meson converse_rtranclp_into_rtranclp r_into_rtranclp)+
  with e show ?thesis
    by (auto simp: strongly_connected_def vertices_def sample_cg_def [unfolded sample_cg_def]) (auto simp: sample_cg_def)
qed

theorem NewComponent_cycles_witness:
  "\<exists>c. NewComponent 0 sample_cg [] = Inr c \<and> hasCycle c \<and> list_all (good_cycle sample_cg) (cycles c)"
  using NewComponent_cycles [OF sample_cg_wf sample_cg_connected, of 0 "[]"] by (auto simp: sample_cg_def)

definition sample_groups :: Component where
  "sample_groups =
     \<lparr>c_id = 0, componentGraph = sample_cg, c_tables = [],
      cycles = [[sample_edge 0 0 1, sample_edge 2 1 0], [sample_edge 1 0 2, sample_edge 3 2 1, sample_edge 2 1 0]],
      cyclesIdents = [], groupedCycles = [(''0_1'', [0]), (''0_1_2'', [1])], groupedCyclesGraph = []\<rparr>"

theorem getSortedGroupIds_order_witness:
  "\<exists>ids rest. getSortedGroupIds sample_groups = Inr (ids @ rest) \<and> well_ordered sample_groups ids rest"
proof -
  have "groups_ok (length (cycles sample_groups)) (groupedCycles sample_groups)"
    by (simp add: groups_ok_def sample_groups_def)
  from getSortedGroupIds_order [OF this] show ?thesis by blast
qed

text \<open>
  The search marks a table for the rest of the component: the cycle 0, 2, 1 of the sample leads
  through table 1, which is finished by then, and is not recorded.
\<close>

lemma findCycles_misses_cycle:
  "good_cycle sample_cg [sample_edge 1 0 2, sample_edge 3 2 1, sample_edge 2 1 0] \<and>
   (\<exists>c. NewComponent 0 sample_cg [] = Inr c \<and> cycles c = [[sample_edge 0 0 1, sample_edge 2 1 0]])"
proof
  show "good_cycle sample_cg [sample_edge 1 0 2, sample_edge 3 2 1, sample_edge 2 1 0]"
    by (simp add: good_cycle_def edges_at_def sample_cg_def)
  show "\<exists>c. NewComponent 0 sample_cg [] = Inr c \<and> cycles c = [[sample_edge 0 0 1, sample_edge 2 1 0]]"
    by (simp add: NewComponent_def findCycles_def sample_cg_def component_edges_def record_cycle_def
        path_cycle_def groupCycles_def buildCyclesGraph_def link_groups_def Let_def numeral_eq_Suc)
qed

end
