(* ===== verification/SubsetGraph.thy ===== *)
theory SubsetGraph
  imports SubsetScc SubsetCycles
begin

text \<open>
  \<^verbatim>\<open>NewGraph\<close> and \<^verbatim>\<open>buildCondensedGraph\<close> of \<^verbatim>\<open>subset/graph.go\<close>: the graph of references between the tables and
  the condensed graph of its components. The references of a table come from a database query, which is the
  parameter \<open>getReferences\<close>.
\<close>

record Reference =
  ref_Schema :: string
  ref_Name :: string
  ReferencedKeys :: "string list"
  RefTableKeys :: "string list"
  ref_IsNullable :: bool

record DomainReference =
  dref_Schema :: string
  dref_Name :: string
  dref_NotNull :: bool
  dref_Columns :: "(string \<times> string) list"
  dref_PolymorphicExprs :: "string list"

record VirtualReference =
  vr_Schema :: string
  vr_Name :: string
  vr_References :: "DomainReference list"

record Graph =
  g_tables :: "Table list"
  graph :: "Edge list list"
  reversedGraph :: "Edge list list"
  reversedSimpleGraph :: "nat list list"
  scc :: "Component list"
  condensedGraph :: "CondensedEdge list list"
  reversedCondensedGraph :: "CondensedEdge list list"
  componentsToOriginalVertexes :: "(int \<times> nat list) list"
  g_edges :: "Edge list"
  visited :: "int list"
  order :: "nat list"
  sscCount :: nat

definition getVirtualReferences :: "VirtualReference list \<Rightarrow> Table \<Rightarrow> DomainReference list" where
  "getVirtualReferences vr t =
     (case index_func (\<lambda>r. vr_Schema r = t_Schema t \<and> vr_Name r = t_Name t) vr of
        None \<Rightarrow> [] | Some i \<Rightarrow> vr_References (vr ! i))"

definition table_index :: "Table list \<Rightarrow> string \<Rightarrow> string \<Rightarrow> nat option" where
  "table_index tables schema name = index_func (\<lambda>t. t_Name t = name \<and> t_Schema t = schema) tables"

text \<open>\<^verbatim>\<open>xs[i] = append(xs[i], x)\<close> on a slice of slices.\<close>

definition push_at :: "nat \<Rightarrow> 'a \<Rightarrow> 'a list list \<Rightarrow> 'a list list" where
  "push_at i x xs = xs[i := xs ! i @ [x]]"

record Builder =
  b_graph :: "Edge list list"
  b_reversed :: "Edge list list"
  b_simple :: "nat list list"
  b_edges :: "Edge list"
  b_seq :: nat

definition new_builder :: "Table list \<Rightarrow> Builder" where
  "new_builder tables =
     \<lparr>b_graph = replicate (length tables) [], b_reversed = replicate (length tables) [],
      b_simple = replicate (length tables) [], b_edges = [], b_seq = 0\<rparr>"

text \<open>A foreign key of table \<open>idx\<close>.\<close>

definition add_reference :: "Table list \<Rightarrow> nat \<Rightarrow> Reference \<Rightarrow> Builder \<Rightarrow> Builder" where
  "add_reference tables idx ref b =
     (case table_index tables (ref_Schema ref) (ref_Name ref) of
        None \<Rightarrow> b
      | Some refIdx \<Rightarrow>
          let here = NewTableLink idx (tables ! idx) (NewKeysByColumn (ReferencedKeys ref)) [];
              there = NewTableLink refIdx (tables ! refIdx) (NewKeysByColumn (RefTableKeys ref)) [];
              edge = NewEdge (b_seq b) refIdx (ref_IsNullable ref) here there;
              reversedEdge = NewEdge (b_seq b) idx (ref_IsNullable ref) there here
          in \<lparr>b_graph = push_at idx edge (b_graph b),
              b_reversed = push_at refIdx reversedEdge (b_reversed b),
              b_simple = push_at refIdx idx (b_simple b),
              b_edges = b_edges b @ [edge],
              b_seq = b_seq b + 1\<rparr>)"

text \<open>A virtual reference of table \<open>idx\<close>: no edge is added to the reversed graph of edges.\<close>

definition add_virtual :: "Table list \<Rightarrow> nat \<Rightarrow> DomainReference \<Rightarrow> Builder \<Rightarrow> Builder" where
  "add_virtual tables idx ref b =
     (case table_index tables (dref_Schema ref) (dref_Name ref) of
        None \<Rightarrow> b
      | Some refIdx \<Rightarrow>
          let edge = NewEdge (b_seq b) refIdx (\<not> dref_NotNull ref)
                (NewTableLink idx (tables ! idx) (NewKeysByReferencedColumn (dref_Columns ref)) (dref_PolymorphicExprs ref))
                (NewTableLink refIdx (tables ! refIdx) (NewKeysByColumn (t_PrimaryKey (tables ! refIdx))) [])
          in b\<lparr>b_graph := push_at idx edge (b_graph b),
               b_simple := push_at refIdx idx (b_simple b),
               b_edges := b_edges b @ [edge],
               b_seq := b_seq b + 1\<rparr>)"

definition add_table ::
  "(32 word \<Rightarrow> Reference list res) \<Rightarrow> VirtualReference list \<Rightarrow> Table list \<Rightarrow> nat \<Rightarrow> Builder \<Rightarrow> Builder res" where
  "add_table getReferences vr tables idx b =
     bindR (getReferences (t_Oid (tables ! idx))) (\<lambda>refs.
     Inr (fold (add_virtual tables idx) (getVirtualReferences vr (tables ! idx))
           (fold (add_reference tables idx) refs b)))"

section \<open>The condensed graph\<close>

definition component_graph :: "Edge list list \<Rightarrow> nat list \<Rightarrow> (nat \<times> Edge list) list" where
  "component_graph g vertexes =
     List.map (\<lambda>v. (v, filter (\<lambda>e. link_idx (edge_to e) \<in> set vertexes) (g ! v))) vertexes"

definition condense_edge ::
  "int list \<Rightarrow> Component list \<Rightarrow> Edge \<Rightarrow> nat \<times> CondensedEdge list list \<times> CondensedEdge list list \<Rightarrow>
   (nat \<times> CondensedEdge list list \<times> CondensedEdge list list) res" where
  "condense_edge compOf ssc edge = (\<lambda>(seq, cg, rcg).
     let from = nat (compOf ! link_idx (edge_from edge));
         to = nat (compOf ! link_idx (edge_to edge))
     in if from \<ge> length ssc \<or> to \<ge> length ssc then panic ''index out of range''
        else
          let fromLink = NewComponentLink from (ssc ! from);
              toLink = NewComponentLink to (ssc ! to)
          in Inr (seq + 1,
               push_at from (NewCondensedEdge seq fromLink toLink edge) cg,
               push_at to (NewCondensedEdge seq toLink fromLink edge) rcg))"

definition buildCondensedGraph :: "Graph \<Rightarrow> Graph res" where
  "buildCondensedGraph g =
     bindR (findScc (graph g) (reversedSimpleGraph g) (visited g)) (\<lambda>(compOf, ord, count).
     let vertexes = fold (\<lambda>(v, c). append_at c v) (List.enumerate 0 compOf) [];
         at = (\<lambda>c. lookup_list (int c) vertexes);
         condensedEdges = concat (List.map (\<lambda>c. concat (List.map (\<lambda>(_, es). List.map edge_id es)
                            (component_graph (graph g) (at c)))) [0..<count])
     in bindR (mapR (\<lambda>c. NewComponent c (component_graph (graph g) (at c))
                           (List.map (\<lambda>v. (v, g_tables g ! v)) (at c))) [0..<count]) (\<lambda>ssc.
        bindR (foldR (condense_edge compOf ssc)
                 (filter (\<lambda>e. edge_id e \<notin> set condensedEdges) (g_edges g))
                 (0, replicate count [], replicate count [])) (\<lambda>(_, cg, rcg).
        Inr (g\<lparr>scc := ssc, condensedGraph := cg, reversedCondensedGraph := rcg,
               componentsToOriginalVertexes := vertexes, visited := compOf, order := ord,
               sscCount := count\<rparr>))))"

definition NewGraph ::
  "(32 word \<Rightarrow> Reference list res) \<Rightarrow> Table list \<Rightarrow> VirtualReference list \<Rightarrow> Graph res" where
  "NewGraph getReferences tables vr =
     bindR (foldR (add_table getReferences vr tables) [0..<length tables] (new_builder tables)) (\<lambda>b.
     buildCondensedGraph
       \<lparr>g_tables = tables, graph = b_graph b, reversedGraph = b_reversed b,
        reversedSimpleGraph = b_simple b, scc = [], condensedGraph = [], reversedCondensedGraph = [],
        componentsToOriginalVertexes = [], g_edges = b_edges b,
        visited = replicate (length tables) 0, order = [], sscCount = 0\<rparr>)"

definition GetCycles :: "Graph \<Rightarrow> Edge list list" where
  "GetCycles g = concat (List.map (\<lambda>c. if hasCycle c then cycles c else []) (scc g))"

definition cycle_table_name :: "Table \<Rightarrow> string" where
  "cycle_table_name t = t_Schema t @ ''.'' @ t_Name t"

definition GetCycledTables :: "Graph \<Rightarrow> string list list res" where
  "GetCycledTables g =
     mapR (\<lambda>c. if c = [] then panic ''index out of range''
               else Inr (List.map (\<lambda>e. cycle_table_name (link_table (edge_from e))) c @
                         [cycle_table_name (link_table (edge_to (last c)))])) (GetCycles g)"

section \<open>The order of the tables\<close>

text \<open>
  \<^verbatim>\<open>GetSortedTablesAndDependenciesGraph\<close>: the tables, a referenced table before the one that references it
  unless they are in one component, and for every table the tables it depends on by component.
\<close>

definition component_oids :: "Component \<Rightarrow> (32 word) list" where
  "component_oids c = List.map (\<lambda>(_, t). t_Oid t) (c_tables c)"

definition add_dependencies ::
  "CondensedEdge \<Rightarrow> ((32 word) \<times> (32 word) list) list \<Rightarrow> ((32 word) \<times> (32 word) list) list" where
  "add_dependencies e =
     fold (\<lambda>src. fold (\<lambda>dst. append_at src dst) (component_oids (cl_component (cond_from e))))
       (component_oids (cl_component (cond_to e)))"

definition dependencies_of ::
  "Graph \<Rightarrow> nat \<Rightarrow> ((32 word) \<times> (32 word) list) list \<Rightarrow> ((32 word) \<times> (32 word) list) list" where
  "dependencies_of g idx deps =
     fold add_dependencies (reversedCondensedGraph g ! idx)
       (fold (\<lambda>src m. AList.update src [] m) (component_oids (scc g ! idx)) deps)"

definition GetSortedTablesAndDependenciesGraph ::
  "Graph \<Rightarrow> ((32 word) list \<times> ((32 word) \<times> (32 word) list) list) res" where
  "GetSortedTablesAndDependenciesGraph g =
     bindR (sortCondensedEdges (reversedCondensedGraph g)) (\<lambda>order.
     bindR (mapR (\<lambda>i. if i < length (scc g) then Inr (component_oids (scc g ! i))
                      else panic ''index out of range'') order) (\<lambda>tables.
     Inr (rev (concat tables),
          fold (dependencies_of g) [0..<length (reversedCondensedGraph g)] [])))"

end
