(* ===== verification/SubsetGraphProps.thy ===== *)
theory SubsetGraphProps
  imports SubsetGraph
begin

text \<open>
  The graph that \<^verbatim>\<open>NewGraph\<close> returns: the two graphs of references mirror each other, the condensed graph has
  one edge for every reference between components, and all of them lead to a component with a greater number.
  The order of the tables and the dependencies between them rest on it.
\<close>

section \<open>The builder\<close>

definition builder_ok :: "nat \<Rightarrow> Builder \<Rightarrow> bool" where
  "builder_ok n b \<longleftrightarrow> length (b_graph b) = n \<and> length (b_simple b) = n \<and> length (b_reversed b) = n \<and>
     (\<forall>v < n. \<forall>e \<in> set (b_graph b ! v). from_idx e = v \<and> to_idx e = edge_idx e \<and> edge_idx e < n) \<and>
     (\<forall>u < n. set (b_simple b ! u) = {v. v < n \<and> (\<exists>e \<in> set (b_graph b ! v). edge_idx e = u)}) \<and>
     set (b_edges b) = (\<Union>v < n. set (b_graph b ! v)) \<and>
     List.map edge_id (b_edges b) = [0..<b_seq b]"

lemma push_at_simps [simp]:
  "length (push_at i x xs) = length xs"
  "i < length xs \<Longrightarrow> j < length xs \<Longrightarrow> push_at i x xs ! j = (if j = i then xs ! j @ [x] else xs ! j)"
  by (simp_all add: push_at_def nth_list_update)

lemma new_builder_ok: "builder_ok (length tables) (new_builder tables)"
  by (auto simp: builder_ok_def new_builder_def)

lemma push_edge_ok:
  assumes b: "builder_ok n b" and e: "from_idx e = v" "to_idx e = u" "edge_idx e = u" "edge_id e = b_seq b"
    and vu: "v < n" "u < n" and rg: "length rg = n"
  shows "builder_ok n \<lparr>b_graph = push_at v e (b_graph b), b_reversed = rg, b_simple = push_at u v (b_simple b),
     b_edges = b_edges b @ [e], b_seq = b_seq b + 1\<rparr>"
proof -
  note ok = b [unfolded builder_ok_def]
  have l: "length (b_graph b) = n" "length (b_simple b) = n" using ok by auto
  have g: "push_at v e (b_graph b) ! x = (if x = v then b_graph b ! x @ [e] else b_graph b ! x)" if "x < n" for x
    using vu that l by simp
  have s: "push_at u v (b_simple b) ! x = (if x = u then b_simple b ! x @ [v] else b_simple b ! x)" if "x < n" for x
    using vu that l by simp
  have simple: "set (b_simple b ! x) = {w. w < n \<and> (\<exists>e \<in> set (b_graph b ! w). edge_idx e = x)}" if "x < n" for x
    using ok that by blast
  have "set (push_at u v (b_simple b) ! x) =
      {w. w < n \<and> (\<exists>a \<in> set (push_at v e (b_graph b) ! w). edge_idx a = x)}" if "x < n" for x
  proof (cases "x = u")
    case True
    have "set (push_at u v (b_simple b) ! x) = insert v (set (b_simple b ! x))" using s [OF that] True by simp
    also have "\<dots> = {w. w < n \<and> (\<exists>a \<in> set (push_at v e (b_graph b) ! w). edge_idx a = x)}"
      unfolding simple [OF that] using g vu True e(3) by auto
    finally show ?thesis .
  next
    case False
    have "set (push_at u v (b_simple b) ! x) = set (b_simple b ! x)" using s [OF that] False by simp
    also have "\<dots> = {w. w < n \<and> (\<exists>a \<in> set (push_at v e (b_graph b) ! w). edge_idx a = x)}"
      unfolding simple [OF that] using g vu False e(3) by (auto split: if_splits)
    finally show ?thesis .
  qed
  moreover have "set (b_edges b @ [e]) = (\<Union>x < n. set (push_at v e (b_graph b) ! x))"
  proof -
    have "(\<Union>x < n. set (push_at v e (b_graph b) ! x)) = insert e (\<Union>x < n. set (b_graph b ! x))"
      using g vu by (auto split: if_splits)
    with ok show ?thesis by simp
  qed
  moreover have "\<forall>x < n. \<forall>a \<in> set (push_at v e (b_graph b) ! x).
      from_idx a = x \<and> to_idx a = edge_idx a \<and> edge_idx a < n"
    using g ok e vu by (auto split: if_splits)
  moreover have "List.map edge_id (b_edges b @ [e]) = [0..<b_seq b + 1]" using ok e(4) by simp
  ultimately show ?thesis using l rg unfolding builder_ok_def by simp
qed

lemma table_index_range: "table_index tables s n = Some i \<Longrightarrow> i < length tables"
  unfolding table_index_def using index_func_Some by blast

lemma edge_link_simps [simp]:
  "from_idx (NewEdge i t nl a b) = link_idx a" "to_idx (NewEdge i t nl a b) = link_idx b"
  "edge_idx (NewEdge i t nl a b) = t" "edge_id (NewEdge i t nl a b) = i"
  "link_idx (NewTableLink j tb ks ps) = j" "link_table (NewTableLink j tb ks ps) = tb"
  "edge_from (NewEdge i t nl a b) = a" "edge_to (NewEdge i t nl a b) = b"
  by (simp_all add: NewEdge_def NewTableLink_def)

lemma add_reference_ok:
  assumes "builder_ok (length tables) b" and "idx < length tables"
  shows "builder_ok (length tables) (add_reference tables idx ref b)"
proof (cases "table_index tables (ref_Schema ref) (ref_Name ref)")
  case None
  with assms show ?thesis by (simp add: add_reference_def)
next
  case (Some u)
  show ?thesis
    unfolding add_reference_def Some option.case Let_def
    by (rule push_edge_ok [OF assms(1)])
       (use assms table_index_range [OF Some] in \<open>simp_all add: builder_ok_def\<close>)
qed

lemma add_virtual_ok:
  assumes "builder_ok (length tables) b" and "idx < length tables"
  shows "builder_ok (length tables) (add_virtual tables idx ref b)"
proof (cases "table_index tables (dref_Schema ref) (dref_Name ref)")
  case None
  with assms show ?thesis by (simp add: add_virtual_def)
next
  case (Some u)
  let ?e = "NewEdge (b_seq b) u (\<not> dref_NotNull ref)
                (NewTableLink idx (tables ! idx) (NewKeysByReferencedColumn (dref_Columns ref)) (dref_PolymorphicExprs ref))
                (NewTableLink u (tables ! u) (NewKeysByColumn (t_PrimaryKey (tables ! u))) [])"
  have "add_virtual tables idx ref b =
      \<lparr>b_graph = push_at idx ?e (b_graph b), b_reversed = b_reversed b, b_simple = push_at u idx (b_simple b),
       b_edges = b_edges b @ [?e], b_seq = b_seq b + 1\<rparr>"
    using Some by (simp add: add_virtual_def Let_def)
  moreover have "builder_ok (length tables) \<dots>"
    by (rule push_edge_ok [OF assms(1)])
       (use assms table_index_range [OF Some] in \<open>simp_all add: builder_ok_def\<close>)
  ultimately show ?thesis by simp
qed

lemma fold_keeps: "P b \<Longrightarrow> (\<And>x b. P b \<Longrightarrow> P (f x b)) \<Longrightarrow> P (fold f xs b)"
  by (induction xs arbitrary: b) auto

lemma build_total:
  assumes "\<forall>t \<in> set tables. \<exists>refs. getReferences (t_Oid t) = Inr refs"
  shows "set idxs \<subseteq> {..<length tables} \<Longrightarrow> builder_ok (length tables) b \<Longrightarrow>
    \<exists>b'. foldR (add_table getReferences vr tables) idxs b = Inr b' \<and> builder_ok (length tables) b'"
proof (induction idxs arbitrary: b)
  case Nil
  then show ?case by simp
next
  case (Cons i idxs)
  then have i: "i < length tables" by simp
  then obtain refs where refs: "getReferences (t_Oid (tables ! i)) = Inr refs" using assms nth_mem by blast
  let ?b = "fold (add_virtual tables i) (getVirtualReferences vr (tables ! i)) (fold (add_reference tables i) refs b)"
  have "builder_ok (length tables) ?b"
    by (intro fold_keeps [where P = "builder_ok (length tables)"] add_virtual_ok add_reference_ok i Cons.prems(2))
  with Cons.IH [of ?b] Cons.prems(1) refs show ?case by (simp add: add_table_def)
qed

section \<open>The input of the condensation\<close>

definition graph_ok :: "Graph \<Rightarrow> bool" where
  "graph_ok g \<longleftrightarrow> length (graph g) = length (g_tables g) \<and> length (visited g) = length (g_tables g) \<and>
     graphs_match (graph g) (reversedSimpleGraph g) \<and>
     (\<forall>v < length (graph g). \<forall>e \<in> set (graph g ! v). from_idx e = v \<and> to_idx e = edge_idx e) \<and>
     set (g_edges g) = (\<Union>v < length (graph g). set (graph g ! v)) \<and> distinct (List.map edge_id (g_edges g))"

lemma builder_graphs_match:
  assumes "builder_ok n b"
  shows "graphs_match (b_graph b) (b_simple b)"
proof -
  note ok = assms [unfolded builder_ok_def]
  have "x \<in> set (simple_succs (b_simple b) y) \<longleftrightarrow> y \<in> set (edge_succs (b_graph b) x)" for x y
  proof (cases "y < n")
    case True
    then have "set (simple_succs (b_simple b) y) = {v. v < n \<and> (\<exists>e \<in> set (b_graph b ! v). edge_idx e = y)}"
      using ok by (simp add: simple_succs_def)
    then show ?thesis using ok by (auto simp: edge_succs_def)
  next
    case False
    then show ?thesis using ok by (auto simp: simple_succs_def edge_succs_def)
  qed
  moreover have "graph_wf (b_graph b)"
    unfolding graph_wf_def
  proof (intro ballI)
    fix es e assume "es \<in> set (b_graph b)" "e \<in> set es"
    then obtain v where "v < n" "e \<in> set (b_graph b ! v)" using ok by (auto simp: in_set_conv_nth)
    with ok show "edge_idx e < length (b_graph b)" by auto
  qed
  moreover have "simple_wf (b_simple b)"
    unfolding simple_wf_def
  proof (intro ballI)
    fix xs x assume "xs \<in> set (b_simple b)" "x \<in> set xs"
    then obtain u where "u < n" "x \<in> set (b_simple b ! u)" using ok by (metis in_set_conv_nth)
    with ok show "x < length (b_simple b)" by auto
  qed
  ultimately show ?thesis using ok by (simp add: graphs_match_def transposed_def)
qed

lemma mapR_total:
  assumes "\<And>x. x \<in> set xs \<Longrightarrow> \<exists>y. f x = Inr y \<and> P x y"
  shows "\<exists>ys. mapR f xs = Inr ys \<and> list_all2 P xs ys"
  using assms
proof (induction xs)
  case Nil
  then show ?case by simp
next
  case (Cons x xs)
  obtain y where "f x = Inr y" "P x y" using Cons.prems by auto
  moreover obtain ys where "mapR f xs = Inr ys" "list_all2 P xs ys" using Cons by auto
  ultimately show ?case by auto
qed

text \<open>The vertices of a component, in order.\<close>

lemma lookup_list_append_at:
  "lookup_list k (append_at k' x m) = (if k = k' then lookup_list k m @ [x] else lookup_list k m)"
  by (auto simp: lookup_list_def map_of_append_at split: option.split)

lemma component_vertexes:
  "lookup_list k (fold (\<lambda>(v, c). append_at c v) (List.enumerate i cs) m) =
     lookup_list k m @ [v \<leftarrow> [i..<i + length cs]. cs ! (v - i) = k]"
proof (induction cs arbitrary: i m)
  case Nil
  then show ?case by simp
next
  case (Cons c cs)
  have "[v \<leftarrow> [Suc i..<Suc i + length cs]. cs ! (v - Suc i) = k] =
      [v \<leftarrow> [Suc i..<Suc i + length cs]. (c # cs) ! (v - i) = k]"
    by (rule filter_cong) (auto simp: nth_Cons')
  moreover have "[i..<i + length (c # cs)] = i # [Suc i..<Suc i + length cs]"
    using upt_conv_Cons [of i "i + length (c # cs)"] by simp
  ultimately show ?case using Cons by (simp add: lookup_list_append_at)
qed

section \<open>The components of the condensation\<close>

text \<open>A component of the numbering \<open>cmp\<close>: vertices of one number, which are mutually connected.\<close>

definition part :: "int list \<Rightarrow> nat \<Rightarrow> nat list" where
  "part cmp i = filter (\<lambda>v. cmp ! v = int i) [0..<length cmp]"

lemma part_cg_wf:
  assumes "graph_ok g" and "length cmp = length (graph g)"
  shows "cg_wf (component_graph (graph g) (part cmp i))"
  using assms
  by (auto simp: cg_wf_def component_graph_def part_def graph_ok_def comp_def image_image)

lemma component_graph_edges:
  "v \<in> set vs \<Longrightarrow> edges_at (component_graph g vs) v = filter (\<lambda>e. to_idx e \<in> set vs) (g ! v)"
  unfolding edges_at_def component_graph_def by (induction vs) (auto simp: map_of_map_restrict)

text \<open>Between two vertices of one component there is a path inside it.\<close>

lemma connected_inside:
  assumes ok: "graph_ok g" and cmp: "length cmp = length (graph g)"
    "\<And>u v. u < length (graph g) \<Longrightarrow> v < length (graph g) \<Longrightarrow>
       cmp ! u = cmp ! v \<longleftrightarrow> connected (graph g) u v \<and> connected (graph g) v u"
    and y: "y < length (graph g)" "cmp ! y = int i" and xy: "connected (graph g) x y"
    and yx: "connected (graph g) y x" and x: "x < length (graph g)"
  shows "(points_to (component_graph (graph g) (part cmp i)))\<^sup>*\<^sup>* x y"
proof -
  let ?G = "graph g"
  let ?R = "\<lambda>x y. x < length ?G \<and> y \<in> edge_idx ` set (?G ! x)"
  have "?R\<^sup>*\<^sup>* x y" using xy by (simp add: connected_def)
  then show ?thesis using x yx
  proof (induction rule: converse_rtranclp_induct)
    case base
    then show ?case by simp
  next
    case (step x z)
    then obtain e where e: "e \<in> set (?G ! x)" "edge_idx e = z" by auto
    have "graph_wf ?G" using ok by (simp add: graph_ok_def graphs_match_def)
    then have z: "z < length ?G" using e step.prems(1) by (auto simp: graph_wf_def)
    have zy: "connected ?G z y" using step.hyps(2) by (simp add: connected_def)
    have "connected ?G x z" using step.hyps(1) by (auto simp: connected_def)
    then have yz: "connected ?G y z" using step.prems(2) by (auto simp: connected_def)
    have "connected ?G x y" using \<open>connected ?G x z\<close> zy by (auto simp: connected_def)
    then have "cmp ! x = int i" "cmp ! z = int i" using cmp(2) y z zy yz step.prems by metis+
    then have mem: "x \<in> set (part cmp i)" "z \<in> set (part cmp i)"
      using step.prems(1) z cmp(1) by (auto simp: part_def)
    have "to_idx e = z" using ok e step.prems(1) by (auto simp: graph_ok_def)
    with mem e have "points_to (component_graph ?G (part cmp i)) x z"
      unfolding points_to_def component_graph_edges [OF mem(1)] by auto
    from converse_rtranclp_into_rtranclp [of "points_to (component_graph ?G (part cmp i))", OF this step.IH [OF z yz]]
    show ?case .
  qed
qed

section \<open>The edges of the condensation\<close>

text \<open>References between components, from one component and to one component.\<close>

definition crossing :: "int list \<Rightarrow> Edge \<Rightarrow> bool" where
  "crossing cmp e \<longleftrightarrow> cmp ! from_idx e \<noteq> cmp ! to_idx e"

definition condensed_ok :: "int list \<Rightarrow> Component list \<Rightarrow> Edge list \<Rightarrow>
    CondensedEdge list list \<Rightarrow> CondensedEdge list list \<Rightarrow> bool" where
  "condensed_ok cmp ssc es cg rcg \<longleftrightarrow> length cg = length ssc \<and> length rcg = length ssc \<and>
     (\<forall>i < length ssc.
        List.map originalEdge (cg ! i) = filter (\<lambda>e. nat (cmp ! from_idx e) = i) es \<and>
        List.map originalEdge (rcg ! i) = filter (\<lambda>e. nat (cmp ! to_idx e) = i) es \<and>
        (\<forall>c \<in> set (cg ! i). cond_from c = NewComponentLink i (ssc ! i) \<and>
           cond_to c = NewComponentLink (nat (cmp ! to_idx (originalEdge c))) (ssc ! nat (cmp ! to_idx (originalEdge c)))) \<and>
        (\<forall>c \<in> set (rcg ! i). cond_from c = NewComponentLink i (ssc ! i) \<and>
           cond_to c = NewComponentLink (nat (cmp ! from_idx (originalEdge c))) (ssc ! nat (cmp ! from_idx (originalEdge c)))))"

lemma condense_loop:
  assumes range: "\<forall>e \<in> set es. nat (cmp ! from_idx e) < length ssc \<and> nat (cmp ! to_idx e) < length ssc"
  shows "condensed_ok cmp ssc done cg rcg \<Longrightarrow>
    \<exists>k cg' rcg'. foldR (condense_edge cmp ssc) es (seq, cg, rcg) = Inr (k, cg', rcg') \<and>
      condensed_ok cmp ssc (done @ es) cg' rcg'"
  using range
proof (induction es arbitrary: "done" seq cg rcg)
  case Nil
  then show ?case by simp
next
  case (Cons e es)
  let ?f = "nat (cmp ! from_idx e)" and ?t = "nat (cmp ! to_idx e)"
  let ?fl = "NewComponentLink ?f (ssc ! ?f)" and ?tl = "NewComponentLink ?t (ssc ! ?t)"
  let ?cg = "push_at ?f (NewCondensedEdge seq ?fl ?tl e) cg"
  let ?rcg = "push_at ?t (NewCondensedEdge seq ?tl ?fl e) rcg"
  have r: "?f < length ssc" "?t < length ssc" using Cons.prems(2) by auto
  have step: "condense_edge cmp ssc e (seq, cg, rcg) = Inr (seq + 1, ?cg, ?rcg)"
    using r by (simp add: condense_edge_def Let_def)
  have "condensed_ok cmp ssc (done @ [e]) ?cg ?rcg"
    using Cons.prems(1) r by (auto simp: condensed_ok_def NewCondensedEdge_def)
  from Cons.IH [OF this, of "seq + 1"] Cons.prems(2) step show ?case by auto
qed

text \<open>What is left out of the condensed graph are the references inside a component.\<close>

definition inner_ids :: "Graph \<Rightarrow> int list \<Rightarrow> nat \<Rightarrow> nat list" where
  "inner_ids g cmp n = concat (List.map (\<lambda>c. concat (List.map (\<lambda>(_, es). List.map edge_id es)
     (component_graph (graph g) (part cmp c)))) [0..<n])"

lemma inner_ids_iff:
  "x \<in> set (inner_ids g cmp n) \<longleftrightarrow>
     (\<exists>i < n. \<exists>w \<in> set (part cmp i). \<exists>a \<in> set (graph g ! w). to_idx a \<in> set (part cmp i) \<and> edge_id a = x)"
proof -
  have "set (inner_ids g cmp n) =
      (\<Union>i \<in> {..<n}. \<Union>w \<in> set (part cmp i). edge_id ` {a \<in> set (graph g ! w). to_idx a \<in> set (part cmp i)})"
    by (simp add: inner_ids_def component_graph_def atLeast0LessThan image_image)
  then show ?thesis by auto
qed

lemma inner_ids_crossing:
  assumes ok: "graph_ok g" and cmp: "length cmp = length (graph g)" "int ` {..<n} = set cmp"
    and e: "e \<in> set (g_edges g)"
  shows "edge_id e \<notin> set (inner_ids g cmp n) \<longleftrightarrow> crossing cmp e"
proof -
  have wf: "graph_wf (graph g)" using ok by (simp add: graph_ok_def graphs_match_def)
  obtain v where v: "v < length (graph g)" "e \<in> set (graph g ! v)" using ok e by (auto simp: graph_ok_def)
  then have fe: "from_idx e = v" "to_idx e = edge_idx e" using ok by (auto simp: graph_ok_def)
  have te: "to_idx e < length (graph g)" using wf v fe by (auto simp: graph_wf_def)
  have "edge_id e \<in> set (inner_ids g cmp n) \<longleftrightarrow>
      (\<exists>i < n. \<exists>w \<in> set (part cmp i). \<exists>a \<in> set (graph g ! w). to_idx a \<in> set (part cmp i) \<and> edge_id a = edge_id e)"
    by (rule inner_ids_iff)
  also have "\<dots> \<longleftrightarrow> (\<exists>i < n. v \<in> set (part cmp i) \<and> to_idx e \<in> set (part cmp i))"
  proof
    assume "\<exists>i < n. \<exists>w \<in> set (part cmp i). \<exists>a \<in> set (graph g ! w). to_idx a \<in> set (part cmp i) \<and> edge_id a = edge_id e"
    then obtain i w a where a: "i < n" "w \<in> set (part cmp i)" "a \<in> set (graph g ! w)"
      "to_idx a \<in> set (part cmp i)" "edge_id a = edge_id e" by blast
    then have w: "w < length (graph g)" using cmp(1) by (auto simp: part_def)
    then have "a \<in> set (g_edges g)" using ok a by (auto simp: graph_ok_def)
    with e a(5) ok have "a = e" by (auto simp: graph_ok_def distinct_map inj_on_def)
    moreover have "from_idx a = w" using ok w a(3) by (auto simp: graph_ok_def)
    ultimately show "\<exists>i < n. v \<in> set (part cmp i) \<and> to_idx e \<in> set (part cmp i)" using a fe by auto
  next
    assume "\<exists>i < n. v \<in> set (part cmp i) \<and> to_idx e \<in> set (part cmp i)"
    with v(2) show "\<exists>i < n. \<exists>w \<in> set (part cmp i). \<exists>a \<in> set (graph g ! w).
        to_idx a \<in> set (part cmp i) \<and> edge_id a = edge_id e" by blast
  qed
  also have "\<dots> \<longleftrightarrow> \<not> crossing cmp e"
  proof
    assume "\<exists>i < n. v \<in> set (part cmp i) \<and> to_idx e \<in> set (part cmp i)"
    with fe show "\<not> crossing cmp e" by (auto simp: part_def crossing_def)
  next
    assume "\<not> crossing cmp e"
    moreover have "cmp ! v \<in> int ` {..<n}" using cmp v(1) by simp
    ultimately show "\<exists>i < n. v \<in> set (part cmp i) \<and> to_idx e \<in> set (part cmp i)"
      using fe v(1) te cmp(1) by (auto simp: part_def crossing_def)
  qed
  finally show ?thesis by simp
qed

lemma buildCondensedGraph_ok:
  assumes ok: "graph_ok g"
  obtains cmp ord n ssc cg rcg vs where
    "buildCondensedGraph g = Inr (g\<lparr>scc := ssc, condensedGraph := cg, reversedCondensedGraph := rcg,
       componentsToOriginalVertexes := vs, visited := cmp, order := ord, sscCount := n\<rparr>)"
    and "length cmp = length (graph g)"
    and "\<And>u v. u < length (graph g) \<Longrightarrow> v < length (graph g) \<Longrightarrow>
       cmp ! u = cmp ! v \<longleftrightarrow> connected (graph g) u v \<and> connected (graph g) v u"
    and "int ` {..<n} = set cmp"
    and "\<And>u e. u < length (graph g) \<Longrightarrow> e \<in> set (graph g ! u) \<Longrightarrow> cmp ! u \<le> cmp ! edge_idx e"
    and "length ssc = n"
    and "\<And>i. i < n \<Longrightarrow> c_tables (ssc ! i) = List.map (\<lambda>v. (v, g_tables g ! v)) (part cmp i)"
    and "condensed_ok cmp ssc (filter (crossing cmp) (g_edges g)) cg rcg"
    and "\<And>i. i < n \<Longrightarrow> NewComponent i (component_graph (graph g) (part cmp i)) (c_tables (ssc ! i)) = Inr (ssc ! i)"
proof -
  have m: "graphs_match (graph g) (reversedSimpleGraph g)" and l: "length (visited g) = length (graph g)"
    using ok by (simp_all add: graph_ok_def)
  obtain cmp ord n where f: "findScc (graph g) (reversedSimpleGraph g) (visited g) = Inr (cmp, ord, n)"
    and cmp: "length cmp = length (graph g)"
      "\<forall>u < length (graph g). \<forall>v < length (graph g).
        cmp ! u = cmp ! v \<longleftrightarrow> connected (graph g) u v \<and> connected (graph g) v u"
      "int ` {..<n} = set cmp"
      "\<forall>u < length (graph g). \<forall>e \<in> set (graph g ! u). cmp ! u \<le> cmp ! edge_idx e"
    using findScc_facts [OF m l] by (elim exE conjE)
  let ?vs = "fold (\<lambda>(v, c). append_at c v) (List.enumerate 0 cmp) []"
  have at: "lookup_list (int i) ?vs = part cmp i" for i
    using component_vertexes [of "int i" 0 cmp "[]"] by (simp add: part_def lookup_list_def)
  have "\<exists>ssc. mapR (\<lambda>c. NewComponent c (component_graph (graph g) (part cmp c))
      (List.map (\<lambda>v. (v, g_tables g ! v)) (part cmp c))) [0..<n] = Inr ssc \<and>
      list_all2 (\<lambda>i c. c_tables c = List.map (\<lambda>v. (v, g_tables g ! v)) (part cmp i)) [0..<n] ssc"
    by (rule mapR_total) (use NewComponent_total [OF part_cg_wf [OF ok cmp(1)]] in blast)
  then obtain ssc where ssc: "mapR (\<lambda>c. NewComponent c (component_graph (graph g) (part cmp c))
      (List.map (\<lambda>v. (v, g_tables g ! v)) (part cmp c))) [0..<n] = Inr ssc"
    "list_all2 (\<lambda>i c. c_tables c = List.map (\<lambda>v. (v, g_tables g ! v)) (part cmp i)) [0..<n] ssc"
    by blast
  have len: "length ssc = n" using list_all2_lengthD [OF ssc(2)] by simp
  have tabs: "c_tables (ssc ! i) = List.map (\<lambda>v. (v, g_tables g ! v)) (part cmp i)" if "i < n" for i
    using list_all2_nthD [OF ssc(2), of i] that by simp
  have built: "NewComponent i (component_graph (graph g) (part cmp i)) (c_tables (ssc ! i)) = Inr (ssc ! i)" if "i < n" for i
    using list_all2_nthD [OF ssc(1) [unfolded mapR_Inr_iff], of i] that by (simp add: tabs)
  have es: "filter (\<lambda>e. edge_id e \<notin> set (inner_ids g cmp n)) (g_edges g) = filter (crossing cmp) (g_edges g)"
    by (rule filter_cong [OF refl inner_ids_crossing [OF ok cmp(1,3)]])
  have range: "nat (cmp ! v) < length ssc" if "v < length (graph g)" for v
  proof -
    have "cmp ! v \<in> int ` {..<n}" using cmp(1,3) that by simp
    with len show ?thesis by auto
  qed
  have "\<forall>e \<in> set (filter (crossing cmp) (g_edges g)).
      nat (cmp ! from_idx e) < length ssc \<and> nat (cmp ! to_idx e) < length ssc"
  proof
    fix e assume "e \<in> set (filter (crossing cmp) (g_edges g))"
    then obtain v where v: "v < length (graph g)" "e \<in> set (graph g ! v)" using ok by (auto simp: graph_ok_def)
    then have fe: "from_idx e = v" "to_idx e = edge_idx e" using ok by (auto simp: graph_ok_def)
    moreover have "edge_idx e < length (graph g)"
      using m v by (auto simp: graphs_match_def graph_wf_def)
    ultimately show "nat (cmp ! from_idx e) < length ssc \<and> nat (cmp ! to_idx e) < length ssc"
      using range v(1) by simp
  qed
  moreover have "condensed_ok cmp ssc [] (replicate n []) (replicate n [])"
    by (simp add: condensed_ok_def len)
  ultimately obtain k cg rcg where c: "foldR (condense_edge cmp ssc) (filter (crossing cmp) (g_edges g))
      (0, replicate n [], replicate n []) = Inr (k, cg, rcg)"
    "condensed_ok cmp ssc (filter (crossing cmp) (g_edges g)) cg rcg"
    using condense_loop [of "filter (crossing cmp) (g_edges g)" cmp ssc "[]" "replicate n []" "replicate n []" 0]
    by auto
  have "buildCondensedGraph g = Inr (g\<lparr>scc := ssc, condensedGraph := cg, reversedCondensedGraph := rcg,
       componentsToOriginalVertexes := ?vs, visited := cmp, order := ord, sscCount := n\<rparr>)"
    unfolding buildCondensedGraph_def f bindR.simps prod.case Let_def at ssc(1)
      es [unfolded inner_ids_def] c(1) ..
  then show ?thesis
    by (rule that [OF _ cmp(1) _ cmp(3) _ len tabs c(2) built]) (use cmp(2,4) in auto)
qed

section \<open>The graph that is built\<close>

definition condensation_ok :: "Graph \<Rightarrow> bool" where
  "condensation_ok g \<longleftrightarrow> graph_ok g \<and>
     (\<forall>u < length (graph g). \<forall>v < length (graph g).
        visited g ! u = visited g ! v \<longleftrightarrow> connected (graph g) u v \<and> connected (graph g) v u) \<and>
     int ` {..<sscCount g} = set (visited g) \<and>
     (\<forall>u < length (graph g). \<forall>e \<in> set (graph g ! u). visited g ! u \<le> visited g ! edge_idx e) \<and>
     length (scc g) = sscCount g \<and>
     (\<forall>i < sscCount g. c_tables (scc g ! i) = List.map (\<lambda>v. (v, g_tables g ! v)) (part (visited g) i)) \<and>
     condensed_ok (visited g) (scc g) (filter (crossing (visited g)) (g_edges g))
       (condensedGraph g) (reversedCondensedGraph g) \<and>
     (\<forall>i < sscCount g. NewComponent i (component_graph (graph g) (part (visited g) i)) (c_tables (scc g ! i)) =
        Inr (scc g ! i))"

lemma NewGraph_ok:
  assumes "\<forall>t \<in> set tables. \<exists>refs. getReferences (t_Oid t) = Inr refs"
  shows "\<exists>g. NewGraph getReferences tables vr = Inr g \<and> g_tables g = tables \<and> condensation_ok g"
proof -
  have "set [0..<length tables] \<subseteq> {..<length tables}" by auto
  from build_total [OF assms this new_builder_ok]
  obtain b where b: "foldR (add_table getReferences vr tables) [0..<length tables] (new_builder tables) = Inr b"
    "builder_ok (length tables) b" by blast
  let ?g = "\<lparr>g_tables = tables, graph = b_graph b, reversedGraph = b_reversed b,
        reversedSimpleGraph = b_simple b, scc = [], condensedGraph = [], reversedCondensedGraph = [],
        componentsToOriginalVertexes = [], g_edges = b_edges b,
        visited = replicate (length tables) 0, order = [], sscCount = 0\<rparr>"
  have "distinct (List.map edge_id (b_edges b))" using b(2) by (simp add: builder_ok_def)
  with builder_graphs_match [OF b(2)] b(2) have ok: "graph_ok ?g" by (simp add: graph_ok_def builder_ok_def)
  show ?thesis
    by (rule buildCondensedGraph_ok [OF ok])
       (use b(1) ok in \<open>simp add: NewGraph_def condensation_ok_def graph_ok_def\<close>)
qed

section \<open>The references that are declared\<close>

text \<open>
  What the database and the configuration declare, without a graph: for every table in order its foreign keys and then
  its virtual references, as far as the table referenced is among the tables. A reference is the table it is in and
  the one it leads to, whether it may be null, its columns with their expressions, the columns referenced, and the
  polymorphic conditions.
\<close>

type_synonym declared = "nat \<times> nat \<times> bool \<times> (string \<times> string) list \<times> string list \<times> string list"

definition foreign_key :: "Table list \<Rightarrow> nat \<Rightarrow> Reference \<Rightarrow> declared list" where
  "foreign_key tables i ref =
     (case table_index tables (ref_Schema ref) (ref_Name ref) of
        None \<Rightarrow> []
      | Some j \<Rightarrow> [(i, j, ref_IsNullable ref, List.map (\<lambda>c. (c, '''')) (ReferencedKeys ref), RefTableKeys ref, [])])"

definition virtual_reference :: "Table list \<Rightarrow> nat \<Rightarrow> DomainReference \<Rightarrow> declared list" where
  "virtual_reference tables i ref =
     (case table_index tables (dref_Schema ref) (dref_Name ref) of
        None \<Rightarrow> []
      | Some j \<Rightarrow>
          [(i, j, \<not> dref_NotNull ref, dref_Columns ref, t_PrimaryKey (tables ! j), dref_PolymorphicExprs ref)])"

definition declared_by :: "(32 word \<Rightarrow> Reference list res) \<Rightarrow> VirtualReference list \<Rightarrow> Table list \<Rightarrow> nat \<Rightarrow> declared list" where
  "declared_by getReferences vr tables i =
     concat (List.map (foreign_key tables i)
       (case getReferences (t_Oid (tables ! i)) of Inl _ \<Rightarrow> [] | Inr refs \<Rightarrow> refs)) @
     concat (List.map (virtual_reference tables i) (getVirtualReferences vr (tables ! i)))"

definition declared_references ::
  "(32 word \<Rightarrow> Reference list res) \<Rightarrow> VirtualReference list \<Rightarrow> Table list \<Rightarrow> declared list" where
  "declared_references getReferences vr tables =
     concat (List.map (declared_by getReferences vr tables) [0..<length tables])"

definition declared_as :: "Edge \<Rightarrow> declared" where
  "declared_as e =
     (from_idx e, to_idx e, edge_isNullable e,
      List.map (\<lambda>k. (key_Name k, key_Expression k)) (link_keys (edge_from e)),
      List.map key_Name (link_keys (edge_to e)), polymorphicExprs (edge_from e))"

text \<open>Table \<open>i\<close> references table \<open>j\<close>.\<close>

definition refers :: "(32 word \<Rightarrow> Reference list res) \<Rightarrow> VirtualReference list \<Rightarrow> Table list \<Rightarrow> nat \<Rightarrow> nat \<Rightarrow> bool" where
  "refers getReferences vr tables i j \<longleftrightarrow> (\<exists>d. (i, j, d) \<in> set (declared_references getReferences vr tables))"

text \<open>What the builder has made of the references declared so far.\<close>

definition built :: "Table list \<Rightarrow> declared list \<Rightarrow> Builder \<Rightarrow> bool" where
  "built tables ds b \<longleftrightarrow> List.map declared_as (b_edges b) = ds \<and> length (b_graph b) = length tables \<and>
     List.map edge_id (b_edges b) = [0..<b_seq b] \<and>
     (\<forall>v < length tables. b_graph b ! v = filter (\<lambda>e. from_idx e = v) (b_edges b)) \<and>
     (\<forall>e \<in> set (b_edges b). link_table (edge_from e) = tables ! from_idx e \<and> link_table (edge_to e) = tables ! to_idx e)"

lemma new_builder_built: "built tables [] (new_builder tables)"
  by (simp add: built_def new_builder_def)

lemma keys_of_columns [simp]:
  "List.map (\<lambda>k. (key_Name k, key_Expression k)) (NewKeysByColumn cs) = List.map (\<lambda>c. (c, '''')) cs"
  "List.map key_Name (NewKeysByColumn cs) = cs"
  "List.map (\<lambda>k. (key_Name k, key_Expression k)) (NewKeysByReferencedColumn rs) = rs"
  by (simp_all add: NewKeysByColumn_def NewKeysByReferencedColumn_def comp_def case_prod_beta)

lemma link_contents [simp]:
  "link_keys (NewTableLink j tb ks ps) = ks" "polymorphicExprs (NewTableLink j tb ks ps) = ps"
  "edge_isNullable (NewEdge i t nl a b) = nl"
  by (simp_all add: NewTableLink_def NewEdge_def)

lemma add_reference_built:
  assumes "built tables ds b" and "i < length tables"
  shows "built tables (ds @ foreign_key tables i ref) (add_reference tables i ref b)"
proof (cases "table_index tables (ref_Schema ref) (ref_Name ref)")
  case None
  with assms show ?thesis by (simp add: add_reference_def foreign_key_def)
next
  case (Some j)
  with assms show ?thesis by (simp add: built_def foreign_key_def add_reference_def Let_def declared_as_def)
qed

lemma add_virtual_built:
  assumes "built tables ds b" and "i < length tables"
  shows "built tables (ds @ virtual_reference tables i ref) (add_virtual tables i ref b)"
proof (cases "table_index tables (dref_Schema ref) (dref_Name ref)")
  case None
  with assms show ?thesis by (simp add: add_virtual_def virtual_reference_def)
next
  case (Some j)
  with assms show ?thesis by (simp add: built_def virtual_reference_def add_virtual_def Let_def declared_as_def)
qed

lemma fold_built:
  assumes "\<And>ds x b. built tables ds b \<Longrightarrow> built tables (ds @ g x) (f x b)" and "built tables ds b"
  shows "built tables (ds @ concat (List.map g xs)) (fold f xs b)"
  using assms(2)
proof (induction xs arbitrary: ds b)
  case (Cons x xs)
  from Cons.IH [OF assms(1) [OF Cons.prems, of x]] show ?case by simp
qed simp

lemma add_table_built:
  assumes "built tables ds b" and "i < length tables" and "add_table getReferences vr tables i b = Inr b'"
  shows "built tables (ds @ declared_by getReferences vr tables i) b'"
proof -
  obtain refs where refs: "getReferences (t_Oid (tables ! i)) = Inr refs"
    and b': "b' = fold (add_virtual tables i) (getVirtualReferences vr (tables ! i)) (fold (add_reference tables i) refs b)"
    using assms(3) by (cases "getReferences (t_Oid (tables ! i))") (auto simp: add_table_def)
  have "built tables ((ds @ concat (List.map (foreign_key tables i) refs)) @
      concat (List.map (virtual_reference tables i) (getVirtualReferences vr (tables ! i)))) b'"
    unfolding b' by (intro fold_built add_virtual_built add_reference_built assms(1,2))
  then show ?thesis by (simp add: declared_by_def refs)
qed

lemma build_built:
  "foldR (add_table getReferences vr tables) idxs b = Inr b' \<Longrightarrow> set idxs \<subseteq> {..<length tables} \<Longrightarrow> built tables ds b \<Longrightarrow>
   built tables (ds @ concat (List.map (declared_by getReferences vr tables) idxs)) b'"
proof (induction idxs arbitrary: b ds)
  case Nil
  then show ?case by simp
next
  case (Cons i idxs)
  obtain b1 where b1: "add_table getReferences vr tables i b = Inr b1"
    "foldR (add_table getReferences vr tables) idxs b1 = Inr b'"
    using Cons.prems(1) by (cases "add_table getReferences vr tables i b") auto
  from Cons.IH [OF b1(2) _ add_table_built [OF Cons.prems(3) _ b1(1)]] Cons.prems(2) show ?case by simp
qed

definition edges_declared ::
  "(32 word \<Rightarrow> Reference list res) \<Rightarrow> VirtualReference list \<Rightarrow> Table list \<Rightarrow> Graph \<Rightarrow> bool" where
  "edges_declared getReferences vr tables g \<longleftrightarrow>
     List.map declared_as (g_edges g) = declared_references getReferences vr tables \<and>
     List.map edge_id (g_edges g) = [0..<length (g_edges g)] \<and>
     length (graph g) = length tables \<and>
     (\<forall>v < length tables. graph g ! v = filter (\<lambda>e. from_idx e = v) (g_edges g)) \<and>
     (\<forall>e \<in> set (g_edges g). link_table (edge_from e) = tables ! from_idx e \<and> link_table (edge_to e) = tables ! to_idx e)"

lemma buildCondensedGraph_keeps:
  "buildCondensedGraph g = Inr g' \<Longrightarrow> graph g' = graph g \<and> g_edges g' = g_edges g \<and> g_tables g' = g_tables g \<and>
     reversedGraph g' = reversedGraph g"
  unfolding buildCondensedGraph_def by (auto simp: res_simps Let_def split: prod.splits)

lemma NewGraph_edges:
  assumes "NewGraph getReferences tables vr = Inr g"
  shows "edges_declared getReferences vr tables g"
proof -
  obtain b where b: "foldR (add_table getReferences vr tables) [0..<length tables] (new_builder tables) = Inr b"
    using assms by (cases "foldR (add_table getReferences vr tables) [0..<length tables] (new_builder tables)")
      (auto simp: NewGraph_def)
  have bt: "built tables (declared_references getReferences vr tables) b"
    using build_built [OF b _ new_builder_built] by (simp add: declared_references_def subset_iff)
  then have "List.map edge_id (b_edges b) = [0..<b_seq b]" by (simp add: built_def)
  then have "b_seq b = length (b_edges b)" by (metis diff_zero length_map length_upt)
  moreover have "graph g = b_graph b \<and> g_edges g = b_edges b"
    using assms buildCondensedGraph_keeps by (fastforce simp: NewGraph_def b)
  ultimately show ?thesis using bt by (simp add: edges_declared_def built_def)
qed

text \<open>Two tables are in one component if they reference each other, directly or not.\<close>

lemma refers_edge:
  assumes "edges_declared getReferences vr tables g"
  shows "refers getReferences vr tables x y \<longleftrightarrow> (\<exists>e \<in> set (g_edges g). from_idx e = x \<and> to_idx e = y)"
proof -
  have ds: "set (declared_references getReferences vr tables) = declared_as ` set (g_edges g)"
    using assms unfolding edges_declared_def set_map [symmetric] by (elim conjE) (simp only:)
  show ?thesis
  proof
    assume "refers getReferences vr tables x y"
    then obtain d where "(x, y, d) \<in> declared_as ` set (g_edges g)" unfolding refers_def ds by (elim exE)
    then obtain e where e: "(x, y, d) = declared_as e" "e \<in> set (g_edges g)" by (rule imageE)
    then have "from_idx e = x" "to_idx e = y" by (simp_all add: declared_as_def)
    with e(2) show "\<exists>e \<in> set (g_edges g). from_idx e = x \<and> to_idx e = y" by (intro bexI conjI)
  next
    assume "\<exists>e \<in> set (g_edges g). from_idx e = x \<and> to_idx e = y"
    then obtain e where e: "e \<in> set (g_edges g)" "from_idx e = x" "to_idx e = y" by blast
    have "declared_as e = (x, y, snd (snd (declared_as e)))" by (simp add: declared_as_def e)
    then show "refers getReferences vr tables x y"
      unfolding refers_def ds by (intro exI) (rule image_eqI [OF sym e(1)])
  qed
qed

lemma connected_refers:
  assumes ok: "graph_ok g" and d: "edges_declared getReferences vr tables g"
  shows "connected (graph g) u v \<longleftrightarrow> (refers getReferences vr tables)\<^sup>*\<^sup>* u v"
proof -
  have "(\<lambda>x y. x < length (graph g) \<and> y \<in> edge_idx ` set (graph g ! x)) = refers getReferences vr tables"
  proof (intro ext iffI)
    fix x y assume "x < length (graph g) \<and> y \<in> edge_idx ` set (graph g ! x)"
    then obtain e where e: "x < length (graph g)" "e \<in> set (graph g ! x)" "edge_idx e = y" by auto
    then have "from_idx e = x" "to_idx e = y" "e \<in> set (g_edges g)" using ok by (auto simp: graph_ok_def)
    then show "refers getReferences vr tables x y" using refers_edge [OF d] by blast
  next
    fix x y assume "refers getReferences vr tables x y"
    then obtain e where e: "e \<in> set (g_edges g)" "from_idx e = x" "to_idx e = y" using refers_edge [OF d] by blast
    then obtain v where v: "v < length (graph g)" "e \<in> set (graph g ! v)" using ok by (auto simp: graph_ok_def)
    then have "from_idx e = v" "to_idx e = edge_idx e" using ok by (auto simp: graph_ok_def)
    with v e show "x < length (graph g) \<and> y \<in> edge_idx ` set (graph g ! x)" by auto
  qed
  then show ?thesis by (simp add: connected_def)
qed

lemma same_component:
  assumes ok: "condensation_ok g" and d: "edges_declared getReferences vr tables g"
    and "u < length tables" and "v < length tables"
  shows "visited g ! u = visited g ! v \<longleftrightarrow>
    (refers getReferences vr tables)\<^sup>*\<^sup>* u v \<and> (refers getReferences vr tables)\<^sup>*\<^sup>* v u"
  using assms connected_refers [OF _ d] by (simp add: condensation_ok_def edges_declared_def)

text \<open>An edge of the condensed graph leads to a component with a greater number.\<close>

lemma crossing_edge:
  assumes ok: "condensation_ok g" and e: "e \<in> set (g_edges g)" "crossing (visited g) e"
  shows "from_idx e < length (g_tables g)" "to_idx e < length (g_tables g)"
    "\<exists>i j. visited g ! from_idx e = int i \<and> visited g ! to_idx e = int j \<and> i < j \<and> j < sscCount g"
proof -
  note c = ok [unfolded condensation_ok_def]
  have gok: "graph_ok g" using c by blast
  then obtain v where v: "v < length (graph g)" "e \<in> set (graph g ! v)" using e(1) by (auto simp: graph_ok_def)
  then have fe: "from_idx e = v" "to_idx e = edge_idx e" using gok by (auto simp: graph_ok_def)
  have "graph_wf (graph g)" using gok by (simp add: graph_ok_def graphs_match_def)
  then have te: "edge_idx e < length (graph g)" using v by (auto simp: graph_wf_def)
  have l: "length (graph g) = length (g_tables g)" "length (visited g) = length (g_tables g)"
    using gok by (simp_all add: graph_ok_def)
  show "from_idx e < length (g_tables g)" "to_idx e < length (g_tables g)" using v te fe l by simp_all
  have "visited g ! v \<in> int ` {..<sscCount g}" "visited g ! edge_idx e \<in> int ` {..<sscCount g}"
    using c v(1) te l by simp_all
  moreover have "visited g ! v \<le> visited g ! edge_idx e" using c v by blast
  ultimately show "\<exists>i j. visited g ! from_idx e = int i \<and> visited g ! to_idx e = int j \<and> i < j \<and> j < sscCount g"
    using e(2) fe by (auto simp: crossing_def)
qed

lemma condensed_increasing:
  assumes ok: "condensation_ok g" and i: "i < sscCount g" and c: "c \<in> set (condensedGraph g ! i)"
  shows "cl_idx (cond_from c) = i \<and> i < cl_idx (cond_to c) \<and> cl_idx (cond_to c) < sscCount g"
proof -
  have co: "condensed_ok (visited g) (scc g) (filter (crossing (visited g)) (g_edges g))
       (condensedGraph g) (reversedCondensedGraph g)" "length (scc g) = sscCount g"
    using ok by (simp_all add: condensation_ok_def)
  then have o: "List.map originalEdge (condensedGraph g ! i) =
      filter (\<lambda>e. nat (visited g ! from_idx e) = i) (filter (crossing (visited g)) (g_edges g))"
    and links: "cond_from c = NewComponentLink i (scc g ! i)"
      "cl_idx (cond_to c) = nat (visited g ! to_idx (originalEdge c))"
    using i c by (auto simp: condensed_ok_def NewComponentLink_def)
  have "originalEdge c \<in> set (List.map originalEdge (condensedGraph g ! i))" using c by simp
  then have e: "originalEdge c \<in> set (g_edges g)" "crossing (visited g) (originalEdge c)"
    "nat (visited g ! from_idx (originalEdge c)) = i"
    unfolding o by auto
  from crossing_edge(3) [OF ok e(1,2)] e(3) links show ?thesis by (auto simp: NewComponentLink_def)
qed

text \<open>
  Claim C5. When the references of every table can be read, \<^verbatim>\<open>NewGraph\<close> returns a graph whose edges are the
  references declared, numbered in order: every foreign key and every virtual reference of every table, as far as the
  table it leads to is among the tables, with its columns, expressions and nullability. The edges of a table are those
  declared in it, two tables are in one component if and only if they reference each other directly or not, and the
  condensed graph has, for every component, the references that leave it, in order; every edge of it leads to a
  component with a greater number, so it has no cycle.
\<close>

theorem NewGraph_condensed:
  assumes "\<forall>t \<in> set tables. \<exists>refs. getReferences (t_Oid t) = Inr refs"
  shows "\<exists>g. NewGraph getReferences tables vr = Inr g \<and>
    List.map declared_as (g_edges g) = declared_references getReferences vr tables \<and>
    List.map edge_id (g_edges g) = [0..<length (g_edges g)] \<and>
    (\<forall>e \<in> set (g_edges g). link_table (edge_from e) = tables ! from_idx e \<and> link_table (edge_to e) = tables ! to_idx e) \<and>
    (\<forall>v < length tables. graph g ! v = filter (\<lambda>e. from_idx e = v) (g_edges g)) \<and>
    (\<forall>u < length tables. \<forall>v < length tables. visited g ! u = visited g ! v \<longleftrightarrow>
       (refers getReferences vr tables)\<^sup>*\<^sup>* u v \<and> (refers getReferences vr tables)\<^sup>*\<^sup>* v u) \<and>
    length (condensedGraph g) = sscCount g \<and>
    (\<forall>i < sscCount g.
       List.map originalEdge (condensedGraph g ! i) =
         filter (\<lambda>e. nat (visited g ! from_idx e) = i) (filter (crossing (visited g)) (g_edges g)) \<and>
       (\<forall>c \<in> set (condensedGraph g ! i).
          cl_idx (cond_from c) = i \<and> i < cl_idx (cond_to c) \<and> cl_idx (cond_to c) < sscCount g))"
proof -
  obtain g where g: "NewGraph getReferences tables vr = Inr g" "condensation_ok g"
    using NewGraph_ok [OF assms] by blast
  note d = NewGraph_edges [OF g(1)]
  have "condensed_ok (visited g) (scc g) (filter (crossing (visited g)) (g_edges g))
       (condensedGraph g) (reversedCondensedGraph g)" "length (scc g) = sscCount g"
    using g(2) by (simp_all add: condensation_ok_def)
  then have c: "length (condensedGraph g) = sscCount g"
    "\<forall>i < sscCount g. List.map originalEdge (condensedGraph g ! i) =
         filter (\<lambda>e. nat (visited g ! from_idx e) = i) (filter (crossing (visited g)) (g_edges g))"
    by (simp_all add: condensed_ok_def)
  show ?thesis
    using g(1) c d [unfolded edges_declared_def] same_component [OF g(2) d] condensed_increasing [OF g(2)]
    by (intro exI [of _ g] conjI allI impI ballI) simp_all
qed

section \<open>The order of the tables\<close>

lemma component_oids_part:
  "condensation_ok g \<Longrightarrow> i < sscCount g \<Longrightarrow>
   component_oids (scc g ! i) = List.map (\<lambda>v. t_Oid (g_tables g ! v)) (part (visited g) i)"
  by (simp add: condensation_ok_def component_oids_def comp_def)

lemma distinct_parts: "distinct idxs \<Longrightarrow> distinct (concat (List.map (part cmp) idxs))"
  by (induction idxs) (auto simp: part_def)

lemma reversed_edge:
  assumes ok: "condensation_ok g" and e: "e \<in> set (g_edges g)" "crossing (visited g) e"
  obtains i j c where "i < j" and "j < sscCount g" and "from_idx e \<in> set (part (visited g) i)"
    and "to_idx e \<in> set (part (visited g) j)" and "c \<in> set (reversedCondensedGraph g ! j)"
    and "cond_from c = NewComponentLink j (scc g ! j)" and "cond_to c = NewComponentLink i (scc g ! i)"
proof -
  obtain i j where ij: "visited g ! from_idx e = int i" "visited g ! to_idx e = int j" "i < j" "j < sscCount g"
    using crossing_edge(3) [OF ok e] by blast
  have co: "condensed_ok (visited g) (scc g) (filter (crossing (visited g)) (g_edges g))
       (condensedGraph g) (reversedCondensedGraph g)" "length (scc g) = sscCount g"
      "length (visited g) = length (g_tables g)"
    using ok by (simp_all add: condensation_ok_def graph_ok_def)
  then have o: "List.map originalEdge (reversedCondensedGraph g ! j) =
      filter (\<lambda>e. nat (visited g ! to_idx e) = j) (filter (crossing (visited g)) (g_edges g))"
    and links: "\<forall>c \<in> set (reversedCondensedGraph g ! j). cond_from c = NewComponentLink j (scc g ! j) \<and>
      cond_to c = NewComponentLink (nat (visited g ! from_idx (originalEdge c)))
        (scc g ! nat (visited g ! from_idx (originalEdge c)))"
    using ij(4) by (auto simp: condensed_ok_def)
  have "e \<in> set (List.map originalEdge (reversedCondensedGraph g ! j))" unfolding o using e ij by simp
  then obtain c where c: "c \<in> set (reversedCondensedGraph g ! j)" "originalEdge c = e" by auto
  with links ij have "cond_from c = NewComponentLink j (scc g ! j)" "cond_to c = NewComponentLink i (scc g ! i)"
    by auto
  moreover have "from_idx e \<in> set (part (visited g) i)" "to_idx e \<in> set (part (visited g) j)"
    using crossing_edge(1,2) [OF ok e] ij co(3) by (auto simp: part_def)
  ultimately show ?thesis using that ij c(1) by blast
qed

text \<open>An edge of the reversed condensed graph leads to a component with a smaller number.\<close>

lemma reversed_decreasing:
  assumes ok: "condensation_ok g" and j: "j < sscCount g" and c: "c \<in> set (reversedCondensedGraph g ! j)"
  shows "cl_idx (cond_to c) < j"
proof -
  have co: "condensed_ok (visited g) (scc g) (filter (crossing (visited g)) (g_edges g))
       (condensedGraph g) (reversedCondensedGraph g)" "length (scc g) = sscCount g"
    using ok by (simp_all add: condensation_ok_def)
  then have o: "List.map originalEdge (reversedCondensedGraph g ! j) =
      filter (\<lambda>e. nat (visited g ! to_idx e) = j) (filter (crossing (visited g)) (g_edges g))"
    and link: "cl_idx (cond_to c) = nat (visited g ! from_idx (originalEdge c))"
    using j c by (auto simp: condensed_ok_def NewComponentLink_def)
  have "originalEdge c \<in> set (List.map originalEdge (reversedCondensedGraph g ! j))" using c by simp
  then have e: "originalEdge c \<in> set (g_edges g)" "crossing (visited g) (originalEdge c)"
    "nat (visited g ! to_idx (originalEdge c)) = j"
    unfolding o by auto
  from crossing_edge(3) [OF ok e(1,2)] e(3) link show ?thesis by auto
qed

lemma reach_decreasing:
  assumes "\<And>x y. y \<in> set (s x) \<Longrightarrow> y < x" and "reach s V x y"
  shows "y \<le> x"
  using assms(2) by (induction rule: reach_induct) (use assms(1) in fastforce)+

lemma reversed_stack:
  assumes ok: "condensation_ok g"
  obtains stack where "sortCondensedEdges (reversedCondensedGraph g) = Inr stack" and "distinct stack"
    and "set stack = {..<sscCount g}"
    and "\<forall>j < sscCount g. \<forall>c \<in> set (reversedCondensedGraph g ! j). before (cl_idx (cond_to c)) j stack"
proof -
  have l: "length (reversedCondensedGraph g) = sscCount g"
    using ok by (simp add: condensation_ok_def condensed_ok_def)
  have dec: "y < x" if "y \<in> set (cond_succs (reversedCondensedGraph g) x)" for x y
    using that reversed_decreasing [OF ok] l by (auto simp: cond_succs_def split: if_splits)
  have "condensed_wf (reversedCondensedGraph g)"
    unfolding condensed_wf_def
  proof (intro ballI)
    fix es c assume "es \<in> set (reversedCondensedGraph g)" "c \<in> set es"
    then obtain j where "j < sscCount g" "c \<in> set (reversedCondensedGraph g ! j)"
      using l by (metis in_set_conv_nth)
    with reversed_decreasing [OF ok this] l show "cl_idx (cond_to c) < length (reversedCondensedGraph g)" by simp
  qed
  from sortCondensedEdges_facts [OF this] obtain stack
    where s: "sortCondensedEdges (reversedCondensedGraph g) = Inr stack" "distinct stack"
      "set stack = {..<length (reversedCondensedGraph g)}"
      "\<forall>v < length (reversedCondensedGraph g). \<forall>e \<in> set (reversedCondensedGraph g ! v).
       reach (cond_succs (reversedCondensedGraph g)) {} (cl_idx (cond_to e)) v \<or> before (cl_idx (cond_to e)) v stack"
    by (elim exE conjE)
  have "before (cl_idx (cond_to c)) j stack" if "j < sscCount g" "c \<in> set (reversedCondensedGraph g ! j)" for j c
  proof -
    have "\<not> reach (cond_succs (reversedCondensedGraph g)) {} (cl_idx (cond_to c)) j"
      using reach_decreasing [OF dec] reversed_decreasing [OF ok that] by (meson leD)
    with s(4) l that show ?thesis by auto
  qed
  with s l show ?thesis using that by simp
qed

text \<open>Dependencies once recorded stay.\<close>

lemma append_at_keeps: "x \<in> set (lookup_list k m) \<Longrightarrow> x \<in> set (lookup_list k (append_at k' y m))"
  by (auto simp: lookup_list_append_at)

lemma fold_append_at_keeps:
  "x \<in> set (lookup_list k m) \<Longrightarrow> x \<in> set (lookup_list k (fold (\<lambda>d. append_at src d) ds m))"
  by (induction ds arbitrary: m) (auto intro: append_at_keeps)

lemma fold_append_at_adds:
  "d \<in> set ds \<Longrightarrow> d \<in> set (lookup_list src (fold (\<lambda>d. append_at src d) ds m))"
proof (induction ds arbitrary: m)
  case (Cons a ds)
  show ?case
  proof (cases "d = a")
    case True
    have "d \<in> set (lookup_list src (append_at src a m))" by (simp add: lookup_list_append_at True)
    from fold_append_at_keeps [OF this] show ?thesis by simp
  next
    case False
    with Cons show ?thesis by simp
  qed
qed simp

lemma add_dependencies_keeps:
  "x \<in> set (lookup_list k m) \<Longrightarrow> x \<in> set (lookup_list k (add_dependencies c m))"
  unfolding add_dependencies_def
  by (induction "component_oids (cl_component (cond_to c))" arbitrary: m rule: list.induct)
     (simp, rule fold_keeps [where P = "\<lambda>m. x \<in> set (lookup_list k m)"], assumption, rule fold_append_at_keeps)

lemma fold_adds:
  assumes "\<And>y m. P m \<Longrightarrow> P (f y m)" and "y \<in> set ys" and "\<And>m. P (f y m)"
  shows "P (fold f ys m)"
  using assms(2)
proof (induction ys arbitrary: m)
  case (Cons z ys)
  show ?case
  proof (cases "y = z")
    case True
    then have "P (f z m)" using assms(3) by simp
    then have "P (fold f ys (f z m))" by (rule fold_keeps) (rule assms(1))
    then show ?thesis by simp
  next
    case False
    with Cons show ?thesis by simp
  qed
qed simp

lemma add_dependencies_adds:
  assumes "src \<in> set (component_oids (cl_component (cond_to c)))"
    and "dst \<in> set (component_oids (cl_component (cond_from c)))"
  shows "dst \<in> set (lookup_list src (add_dependencies c m))"
  unfolding add_dependencies_def
  by (rule fold_adds [where y = src and P = "\<lambda>m. dst \<in> set (lookup_list src m)"])
     (use assms in \<open>auto intro: fold_append_at_keeps fold_append_at_adds\<close>)

lemma lookup_update_other: "k \<notin> set ks \<Longrightarrow>
   lookup_list k (fold (\<lambda>src m. AList.update src [] m) ks m) = lookup_list k m"
proof (induction ks arbitrary: m)
  case (Cons a ks)
  then show ?case by (simp add: lookup_list_def update_conv)
qed simp

lemma dependencies_of_keeps:
  assumes "x \<in> set (lookup_list k m)" and "k \<notin> set (component_oids (scc g ! idx))"
  shows "x \<in> set (lookup_list k (dependencies_of g idx m))"
  unfolding dependencies_of_def
  by (rule fold_keeps [where P = "\<lambda>m. x \<in> set (lookup_list k m)"])
     (use assms in \<open>auto simp: lookup_update_other intro: add_dependencies_keeps\<close>)

lemma dependencies_of_adds:
  assumes "c \<in> set (reversedCondensedGraph g ! idx)"
    and "src \<in> set (component_oids (cl_component (cond_to c)))"
    and "dst \<in> set (component_oids (cl_component (cond_from c)))"
  shows "dst \<in> set (lookup_list src (dependencies_of g idx m))"
  unfolding dependencies_of_def
  by (rule fold_adds [where y = c and P = "\<lambda>m. dst \<in> set (lookup_list src m)"])
     (use assms in \<open>auto intro: add_dependencies_keeps add_dependencies_adds\<close>)

lemma dependencies_final:
  assumes ok: "condensation_ok g" and d: "distinct (List.map t_Oid (g_tables g))"
    and e: "e \<in> set (g_edges g)" "crossing (visited g) e"
  shows "t_Oid (g_tables g ! to_idx e) \<in> set (lookup_list (t_Oid (g_tables g ! from_idx e))
    (fold (dependencies_of g) [0..<length (reversedCondensedGraph g)] []))"
proof -
  let ?src = "t_Oid (g_tables g ! from_idx e)" and ?dst = "t_Oid (g_tables g ! to_idx e)"
  have l: "length (reversedCondensedGraph g) = sscCount g"
    using ok by (simp add: condensation_ok_def condensed_ok_def)
  obtain i j c where c: "i < j" "j < sscCount g" "from_idx e \<in> set (part (visited g) i)"
    "to_idx e \<in> set (part (visited g) j)" "c \<in> set (reversedCondensedGraph g ! j)"
    "cond_from c = NewComponentLink j (scc g ! j)" "cond_to c = NewComponentLink i (scc g ! i)"
    by (rule reversed_edge [OF ok e])
  have src: "?src \<in> set (component_oids (cl_component (cond_to c)))"
    using c component_oids_part [OF ok, of i] by (auto simp: NewComponentLink_def)
  have dst: "?dst \<in> set (component_oids (cl_component (cond_from c)))"
    using c component_oids_part [OF ok, of j] by (auto simp: NewComponentLink_def)
  have other: "?src \<notin> set (component_oids (scc g ! k))" if k: "k < sscCount g" "k \<noteq> i" for k
  proof
    assume "?src \<in> set (component_oids (scc g ! k))"
    then obtain v where v: "v \<in> set (part (visited g) k)" "t_Oid (g_tables g ! v) = ?src"
      using component_oids_part [OF ok k(1)] by auto
    have "length (visited g) = length (g_tables g)" using ok by (simp add: condensation_ok_def graph_ok_def)
    with v(1) c(3) have "v < length (g_tables g)" "from_idx e < length (g_tables g)" by (auto simp: part_def)
    with d v(2) have "v = from_idx e" by (metis distinct_conv_nth length_map nth_map)
    with v(1) c(3) k(2) show False by (auto simp: part_def)
  qed
  have "[0..<sscCount g] = [0..<j] @ j # [Suc j..<sscCount g]"
    using upt_add_eq_append [of 0 j "sscCount g - j"] upt_conv_Cons [OF c(2)] c(2) by simp
  then have f: "fold (dependencies_of g) [0..<sscCount g] [] =
      fold (dependencies_of g) [Suc j..<sscCount g] (dependencies_of g j (fold (dependencies_of g) [0..<j] []))"
    by simp
  have "?dst \<in> set (lookup_list ?src (fold (dependencies_of g) ks m))"
    if "?dst \<in> set (lookup_list ?src m)" "\<forall>k \<in> set ks. k < sscCount g \<and> k \<noteq> i" for ks m
    using that
  proof (induction ks arbitrary: m)
    case (Cons k ks)
    then have "?dst \<in> set (lookup_list ?src (dependencies_of g k m))"
      by (intro dependencies_of_keeps other) auto
    with Cons show ?case by simp
  qed simp
  from this [OF dependencies_of_adds [OF c(5) src dst]] c(1) show ?thesis by (simp add: l f)
qed

section \<open>The sorted tables\<close>

lemma reversed_links:
  assumes ok: "condensation_ok g" and j: "j < sscCount g" and c: "c \<in> set (reversedCondensedGraph g ! j)"
  shows "\<exists>i < j. cond_from c = NewComponentLink j (scc g ! j) \<and> cond_to c = NewComponentLink i (scc g ! i)"
proof -
  have "condensed_ok (visited g) (scc g) (filter (crossing (visited g)) (g_edges g))
       (condensedGraph g) (reversedCondensedGraph g)" "length (scc g) = sscCount g"
    using ok by (simp_all add: condensation_ok_def)
  then show ?thesis
    using reversed_decreasing [OF ok j c] j c by (auto simp: condensed_ok_def NewComponentLink_def)
qed

lemma component_vertices:
  assumes ok: "condensation_ok g" and st: "set stack = {..<sscCount g}"
  shows "set (concat (List.map (part (visited g)) stack)) = {..<length (g_tables g)}"
proof -
  have len: "length (visited g) = length (g_tables g)" "int ` {..<sscCount g} = set (visited g)"
    using ok by (simp_all add: condensation_ok_def graph_ok_def)
  have "v \<in> set (concat (List.map (part (visited g)) stack))" if "v < length (g_tables g)" for v
  proof -
    have "visited g ! v \<in> int ` {..<sscCount g}" using len that by simp
    with st len(1) that show ?thesis by (auto simp: part_def)
  qed
  then show ?thesis using len(1) by (auto simp: part_def)
qed

text \<open>The tables by component, a component after those it references.\<close>

definition component_order :: "Graph \<Rightarrow> (32 word) list \<Rightarrow> bool" where
  "component_order g ts \<longleftrightarrow>
     (\<forall>j < sscCount g. \<forall>c \<in> set (reversedCondensedGraph g ! j). \<forall>i. cond_to c = NewComponentLink i (scc g ! i) \<longrightarrow>
        (\<forall>u \<in> set (part (visited g) i). \<forall>v \<in> set (part (visited g) j).
           before (t_Oid (g_tables g ! v)) (t_Oid (g_tables g ! u)) ts))"

lemma GetSortedTables_result:
  assumes ok: "condensation_ok g" and d: "distinct (List.map t_Oid (g_tables g))"
  obtains ts where "GetSortedTablesAndDependenciesGraph g =
      Inr (ts, fold (dependencies_of g) [0..<length (reversedCondensedGraph g)] [])"
    and "distinct ts" and "set ts = t_Oid ` set (g_tables g)"
    and "component_order g ts"
proof -
  obtain stack where st: "sortCondensedEdges (reversedCondensedGraph g) = Inr stack" "distinct stack"
    "set stack = {..<sscCount g}"
    "\<forall>j < sscCount g. \<forall>c \<in> set (reversedCondensedGraph g ! j). before (cl_idx (cond_to c)) j stack"
    by (rule reversed_stack [OF ok])
  let ?oid = "\<lambda>v. t_Oid (g_tables g ! v)"
  let ?vs = "concat (List.map (part (visited g)) stack)"
  have len: "length (scc g) = sscCount g" using ok by (simp add: condensation_ok_def)
  have "mapR (\<lambda>i. if i < length (scc g) then Inr (component_oids (scc g ! i)) else panic ''index out of range'') xs =
      Inr (List.map (\<lambda>i. List.map ?oid (part (visited g) i)) xs)" if "set xs \<subseteq> {..<sscCount g}" for xs
    using that component_oids_part [OF ok] len by (induction xs) auto
  then have res: "GetSortedTablesAndDependenciesGraph g = Inr (rev (List.map ?oid ?vs),
      fold (dependencies_of g) [0..<length (reversedCondensedGraph g)] [])"
    using st(1,3) by (simp add: GetSortedTablesAndDependenciesGraph_def map_concat comp_def)
  note vs = component_vertices [OF ok st(3)]
  have "inj_on ?oid {..<length (g_tables g)}"
    using d by (auto simp: inj_on_def distinct_conv_nth)
  then have dis: "distinct (rev (List.map ?oid ?vs))"
    using distinct_parts [OF st(2)] vs by (simp add: distinct_map)
  have "?oid ` {..<length (g_tables g)} = t_Oid ` set (g_tables g)"
    by (force simp: set_conv_nth)
  then have img: "set (rev (List.map ?oid ?vs)) = t_Oid ` set (g_tables g)"
    unfolding set_rev set_map vs .
  have bef: "before (?oid v) (?oid u) (rev (List.map ?oid ?vs))"
    if "j < sscCount g" "c \<in> set (reversedCondensedGraph g ! j)" "cond_to c = NewComponentLink i (scc g ! i)"
      "u \<in> set (part (visited g) i)" "v \<in> set (part (visited g) j)" for i j c u v
  proof -
    have "before i j stack" using st(4) that(1,2,3) by (fastforce simp: NewComponentLink_def)
    from before_rev [OF before_map [OF before_concat [OF this that(4,5)]]] show ?thesis .
  qed
  then show ?thesis by (intro that [OF res dis img]) (auto simp: component_order_def)
qed

text \<open>Only what comes before a table is recorded as a dependency of it.\<close>

definition deps_before :: "(32 word) list \<Rightarrow> ((32 word) \<times> (32 word) list) list \<Rightarrow> bool" where
  "deps_before ts m \<longleftrightarrow> (\<forall>k. \<forall>d \<in> set (lookup_list k m). before d k ts)"

lemma deps_before_append_at: "deps_before ts m \<Longrightarrow> before d k ts \<Longrightarrow> deps_before ts (append_at k d m)"
  by (simp add: deps_before_def lookup_list_append_at)

lemma deps_before_update: "deps_before ts m \<Longrightarrow> deps_before ts (AList.update k [] m)"
  by (simp add: deps_before_def lookup_list_def update_conv)

lemma deps_before_add:
  assumes "\<And>src dst. src \<in> set (component_oids (cl_component (cond_to c))) \<Longrightarrow>
      dst \<in> set (component_oids (cl_component (cond_from c))) \<Longrightarrow> before dst src ts"
    and "deps_before ts m"
  shows "deps_before ts (add_dependencies c m)"
proof -
  have inner: "deps_before ts (fold (\<lambda>dst. append_at src dst) ds m)"
    if "deps_before ts m" "\<forall>d \<in> set ds. before d src ts" for src ds m
    using that by (induction ds arbitrary: m) (auto intro: deps_before_append_at)
  have "deps_before ts (fold (\<lambda>src. fold (\<lambda>dst. append_at src dst) ds) ss m)"
    if "deps_before ts m" "\<forall>s \<in> set ss. \<forall>d \<in> set ds. before d s ts" for ss ds m
    using that by (induction ss arbitrary: m) (auto intro: inner)
  then show ?thesis unfolding add_dependencies_def using assms by blast
qed

lemma dependencies_before:
  assumes ok: "condensation_ok g"
    and bef: "component_order g ts"
  shows "deps_before ts (fold (dependencies_of g) [0..<length (reversedCondensedGraph g)] [])"
proof -
  have l: "length (reversedCondensedGraph g) = sscCount g"
    using ok by (simp add: condensation_ok_def condensed_ok_def)
  have add: "deps_before ts (add_dependencies c m)"
    if jc: "j < sscCount g" "c \<in> set (reversedCondensedGraph g ! j)" and m: "deps_before ts m" for j c m
  proof (rule deps_before_add [OF _ m])
    fix src dst
    assume o: "src \<in> set (component_oids (cl_component (cond_to c)))"
      "dst \<in> set (component_oids (cl_component (cond_from c)))"
    obtain i where i: "i < j" "cond_from c = NewComponentLink j (scc g ! j)"
      "cond_to c = NewComponentLink i (scc g ! i)"
      using reversed_links [OF ok jc] by blast
    then show "before dst src ts"
      using o bef jc component_oids_part [OF ok] by (auto simp: NewComponentLink_def component_order_def)
  qed
  have one: "deps_before ts (dependencies_of g j m)" if "j < sscCount g" "deps_before ts m" for j m
  proof -
    have a: "deps_before ts (fold (\<lambda>src m. AList.update src [] m) ks m)" if "deps_before ts m" for ks m
      using that by (induction ks arbitrary: m) (auto intro: deps_before_update)
    have "deps_before ts (fold add_dependencies cs m)"
      if "deps_before ts m" "set cs \<subseteq> set (reversedCondensedGraph g ! j)" for cs m
      using that add [OF \<open>j < sscCount g\<close>] by (induction cs arbitrary: m) auto
    then show ?thesis unfolding dependencies_of_def using a that(2) by blast
  qed
  have "deps_before ts (fold (dependencies_of g) js m)" if "deps_before ts m" "set js \<subseteq> {..<sscCount g}" for js m
    using that one by (induction js arbitrary: m) auto
  moreover have "deps_before ts []" by (simp add: deps_before_def lookup_list_def)
  ultimately show ?thesis by (simp add: l lessThan_atLeast0)
qed

lemma GetSortedTables_facts:
  assumes ok: "condensation_ok g" and d: "distinct (List.map t_Oid (g_tables g))"
  shows "\<exists>ts deps. GetSortedTablesAndDependenciesGraph g = Inr (ts, deps) \<and>
    distinct ts \<and> set ts = t_Oid ` set (g_tables g) \<and> deps_before ts deps \<and>
    (\<forall>e \<in> set (g_edges g). crossing (visited g) e \<longrightarrow>
       before (t_Oid (g_tables g ! to_idx e)) (t_Oid (g_tables g ! from_idx e)) ts \<and>
       t_Oid (g_tables g ! to_idx e) \<in> set (lookup_list (t_Oid (g_tables g ! from_idx e)) deps))"
proof -
  obtain ts where ts: "GetSortedTablesAndDependenciesGraph g =
      Inr (ts, fold (dependencies_of g) [0..<length (reversedCondensedGraph g)] [])"
    "distinct ts" "set ts = t_Oid ` set (g_tables g)"
    and bef: "component_order g ts"
    by (rule GetSortedTables_result [OF ok d])
  have "before (t_Oid (g_tables g ! to_idx e)) (t_Oid (g_tables g ! from_idx e)) ts"
    if "e \<in> set (g_edges g)" "crossing (visited g) e" for e
    by (rule reversed_edge [OF ok that]) (use bef in \<open>auto simp: component_order_def\<close>)
  with ts dependencies_before [OF ok bef] dependencies_final [OF ok d] show ?thesis by blast
qed

lemma refers_crossing:
  assumes "NewGraph getReferences tables vr = Inr g" and "condensation_ok g"
    and "refers getReferences vr tables i j" and "\<not> (refers getReferences vr tables)\<^sup>*\<^sup>* j i"
  shows "\<exists>e \<in> set (g_edges g). crossing (visited g) e \<and> from_idx e = i \<and> to_idx e = j"
proof -
  note d = NewGraph_edges [OF assms(1)]
  obtain e where e: "e \<in> set (g_edges g)" "from_idx e = i" "to_idx e = j"
    using assms(3) refers_edge [OF d] by blast
  have ok: "graph_ok g" using assms(2) by (simp add: condensation_ok_def)
  then obtain v where v: "v < length (graph g)" "e \<in> set (graph g ! v)" using e(1) by (auto simp: graph_ok_def)
  then have "from_idx e = v" "to_idx e = edge_idx e" using ok by (auto simp: graph_ok_def)
  moreover have "graph_wf (graph g)" using ok by (simp add: graph_ok_def graphs_match_def)
  then have "edge_idx e < length (graph g)" using v by (auto simp: graph_wf_def)
  ultimately have "i < length tables" "j < length tables" using v(1) e d by (simp_all add: edges_declared_def)
  with same_component [OF assms(2) d] assms(4) have "visited g ! i \<noteq> visited g ! j" by blast
  with e show ?thesis by (intro bexI [of _ e]) (simp_all add: crossing_def)
qed


section \<open>On a sample\<close>

text \<open>Two tables; the first references the second.\<close>

definition sample_tables :: "Table list" where
  "sample_tables =
     [(sample_table 0)\<lparr>t_Name := ''a''\<rparr>, (sample_table 1)\<lparr>t_Name := ''b''\<rparr>]"

definition sample_refs :: "32 word \<Rightarrow> Reference list res" where
  "sample_refs oid =
     Inr (if oid = 100 then [\<lparr>ref_Schema = ''s'', ref_Name = ''b'', ReferencedKeys = [''b_id''],
                             RefTableKeys = [''id''], ref_IsNullable = False\<rparr>] else [])"

lemma sample_refs_ok: "\<forall>t \<in> set sample_tables. \<exists>refs. sample_refs (t_Oid t) = Inr refs"
  by (simp add: sample_refs_def)

text \<open>
  A virtual reference from the second table to one that is not there, and one from the second table to the first: with
  the foreign key the two are in one component. Without them, the second table comes first.
\<close>

definition sample_circle :: "VirtualReference list" where
  "sample_circle =
     [\<lparr>vr_Schema = ''s'', vr_Name = ''b'', vr_References =
         [\<lparr>dref_Schema = ''s'', dref_Name = ''gone'', dref_NotNull = True, dref_Columns = [(''c'', '''')],
            dref_PolymorphicExprs = []\<rparr>,
          \<lparr>dref_Schema = ''s'', dref_Name = ''a'', dref_NotNull = True, dref_Columns = [(''a_id'', '''')],
            dref_PolymorphicExprs = []\<rparr>]\<rparr>]"

lemma sample_declared:
  "declared_references sample_refs sample_circle sample_tables =
     [(0, 1, False, [(''b_id'', '''')], [''id''], []), (1, 0, False, [(''a_id'', '''')], t_PrimaryKey (sample_tables ! 0), [])]"
  by (simp add: declared_references_def declared_by_def foreign_key_def virtual_reference_def sample_refs_def
      sample_tables_def sample_circle_def sample_table_def table_index_def getVirtualReferences_def upt_conv_Cons)

theorem NewGraph_condensed_witness:
  "\<exists>g. NewGraph sample_refs sample_tables sample_circle = Inr g \<and> length (condensedGraph g) = sscCount g \<and>
    List.map (\<lambda>e. (edge_id e, from_idx e, to_idx e)) (g_edges g) = [(0, 0, 1), (1, 1, 0)] \<and>
    visited g ! 0 = visited g ! 1"
proof -
  obtain g where g: "NewGraph sample_refs sample_tables sample_circle = Inr g" "length (condensedGraph g) = sscCount g"
    "List.map declared_as (g_edges g) = declared_references sample_refs sample_circle sample_tables"
    "List.map edge_id (g_edges g) = [0..<length (g_edges g)]"
    "\<forall>u < length sample_tables. \<forall>v < length sample_tables. visited g ! u = visited g ! v \<longleftrightarrow>
       (refers sample_refs sample_circle sample_tables)\<^sup>*\<^sup>* u v \<and>
       (refers sample_refs sample_circle sample_tables)\<^sup>*\<^sup>* v u"
    using NewGraph_condensed [OF sample_refs_ok, of sample_circle] by blast
  have "refers sample_refs sample_circle sample_tables 0 1" "refers sample_refs sample_circle sample_tables 1 0"
    unfolding refers_def sample_declared by simp_all
  moreover have "0 < length sample_tables" "1 < length sample_tables" by (simp_all add: sample_tables_def)
  ultimately have "visited g ! 0 = visited g ! 1" using g(5) by blast
  moreover obtain e f where es: "g_edges g = [e, f]" using g(3) unfolding sample_declared by auto
  moreover have "from_idx e = 0" "to_idx e = 1" "from_idx f = 1" "to_idx f = 0" "edge_id e = 0" "edge_id f = 1"
    using g(3,4) unfolding sample_declared es by (simp_all add: declared_as_def upt_conv_Cons)
  ultimately show ?thesis using g(1,2) by (intro exI [of _ g]) simp
qed

lemma sample_refers: "refers sample_refs [] sample_tables i j \<longleftrightarrow> i = 0 \<and> j = 1"
  by (simp add: refers_def declared_references_def declared_by_def foreign_key_def sample_refs_def
      sample_tables_def sample_table_def table_index_def getVirtualReferences_def upt_conv_Cons)

lemma sample_one_way: "refers sample_refs [] sample_tables 0 1 \<and> \<not> (refers sample_refs [] sample_tables)\<^sup>*\<^sup>* 1 0"
proof
  show "refers sample_refs [] sample_tables 0 1" by (simp add: sample_refers)
  show "\<not> (refers sample_refs [] sample_tables)\<^sup>*\<^sup>* 1 0"
    by (auto elim: converse_rtranclpE simp: sample_refers)
qed


end
