(* ===== verification/SubsetPath.thy ===== *)
theory SubsetPath
  imports SubsetGraphProps
begin

text \<open>
  \<^verbatim>\<open>internal/db/postgres/subset/path.go\<close> and the search for paths in \<^verbatim>\<open>graph.go\<close> (\<^verbatim>\<open>findSubsetVertexes\<close>,
  \<^verbatim>\<open>subsetDfs\<close>). A path collects the edges a subset query has to join. Its edges are split into scopes; the
  tables of a scope are joined in one FROM clause, in the order of the edges.
\<close>

record ScopeEdge =
  se_scopeId :: nat
  originalCondensedEdge :: CondensedEdge
  se_isNullable :: bool

record Path =
  rootVertex :: nat
  vertexes :: "nat list"
  scopeEdges :: "nat \<rightharpoonup> CondensedEdge list"
  scopeEdgesNullable :: "nat \<rightharpoonup> (nat \<rightharpoonup> bool)"
  scopeGraph :: "nat \<rightharpoonup> ScopeEdge list"
  vertexScopes :: "nat \<rightharpoonup> nat"
  path_edges :: "CondensedEdge list"
  path_graph :: "nat \<rightharpoonup> CondensedEdge list"
  scopeIdSequence :: nat

definition rootScopeId :: nat where "rootScopeId = 0"

abbreviation from_comp :: "CondensedEdge \<Rightarrow> nat" where "from_comp e \<equiv> cl_idx (cond_from e)"
abbreviation to_comp :: "CondensedEdge \<Rightarrow> nat" where "to_comp e \<equiv> cl_idx (cond_to e)"

text \<open>Reading a missing key of a Go map of slices, or of booleans.\<close>

definition get_list :: "('k \<rightharpoonup> 'a list) \<Rightarrow> 'k \<Rightarrow> 'a list" where
  "get_list m k = (case m k of None \<Rightarrow> [] | Some xs \<Rightarrow> xs)"

definition get_flag :: "(nat \<rightharpoonup> (nat \<rightharpoonup> bool)) \<Rightarrow> nat \<Rightarrow> nat \<Rightarrow> bool" where
  "get_flag m s v = (case m s of None \<Rightarrow> False | Some f \<Rightarrow> (case f v of None \<Rightarrow> False | Some b \<Rightarrow> b))"

definition NewPath :: "nat \<Rightarrow> Path" where
  "NewPath root =
     \<lparr>rootVertex = root, vertexes = [], scopeEdges = Map.empty, scopeEdgesNullable = Map.empty,
      scopeGraph = Map.empty, vertexScopes = Map.empty, path_edges = [], path_graph = Map.empty,
      scopeIdSequence = rootScopeId\<rparr>"

definition AddVertex :: "nat \<Rightarrow> Path \<Rightarrow> Path" where
  "AddVertex v p = p\<lparr>vertexes := vertexes p @ [v]\<rparr>"

definition Path_Len :: "Path \<Rightarrow> nat" where
  "Path_Len p = length (vertexes p)"

definition addEdgeToGraph :: "CondensedEdge \<Rightarrow> Path \<Rightarrow> Path" where
  "addEdgeToGraph e p =
     (let m = (path_graph p)(from_comp e \<mapsto> get_list (path_graph p) (from_comp e) @ [e])
      in p\<lparr>path_graph := (if m (to_comp e) = None then m(to_comp e \<mapsto> []) else m)\<rparr>)"

definition vertexIsInScope :: "CondensedEdge list \<Rightarrow> CondensedEdge \<Rightarrow> bool" where
  "vertexIsInScope es e \<longleftrightarrow> list_ex (\<lambda>edge. from_comp edge = to_comp e \<or> to_comp edge = to_comp e) es"

definition createScopeIfNotExist :: "nat \<Rightarrow> Path \<Rightarrow> Path" where
  "createScopeIfNotExist s p =
     (if scopeEdges p s = None
      then p\<lparr>scopeEdges := (scopeEdges p)(s \<mapsto> []), scopeGraph := (scopeGraph p)(s \<mapsto> []),
             scopeEdgesNullable := (scopeEdgesNullable p)(s \<mapsto> Map.empty)\<rparr>
      else p)"

definition createScopeWithParent :: "nat \<Rightarrow> CondensedEdge \<Rightarrow> Path \<Rightarrow> (Path \<times> nat) res" where
  "createScopeWithParent parent e p =
     (let s = scopeIdSequence p + 1
      in if scopeEdges p s \<noteq> None then panic ''scope already exists''
         else
           let p1 = p\<lparr>scopeIdSequence := s,
                     scopeEdges := (scopeEdges p)(s \<mapsto> [e]),
                     scopeGraph := (scopeGraph p)(s \<mapsto> []),
                     scopeEdgesNullable := (scopeEdgesNullable p)(s \<mapsto> Map.empty)\<rparr>;
               isNullable = (edge_isNullable (originalEdge e) \<or>
                             get_flag (scopeEdgesNullable p1) parent (from_comp e));
               scopeEdge = \<lparr>se_scopeId = s, originalCondensedEdge = e, se_isNullable = isNullable\<rparr>
           in Inr (p1\<lparr>scopeGraph :=
                     (scopeGraph p1)(parent \<mapsto> get_list (scopeGraph p1) parent @ [scopeEdge])\<rparr>, s))"

text \<open>The edge joins its scope: it inherits nullability from an edge of the scope that leads to its source.\<close>

definition joinScope :: "nat \<Rightarrow> CondensedEdge \<Rightarrow> Path \<Rightarrow> Path" where
  "joinScope s e p =
     (let es = get_list (scopeEdges p) s;
          isNullable = (edge_isNullable (originalEdge e) \<or>
            list_ex (\<lambda>edge. link_idx (edge_to (originalEdge edge)) = from_comp e \<and>
                            edge_isNullable (originalEdge edge)) es)
      in p\<lparr>scopeEdgesNullable := (scopeEdgesNullable p)
             (s \<mapsto> (case scopeEdgesNullable p s of None \<Rightarrow> Map.empty | Some f \<Rightarrow> f)(to_comp e \<mapsto> isNullable)),
           scopeEdges := (scopeEdges p)(s \<mapsto> es @ [e])\<rparr>)"

definition addEdge :: "CondensedEdge \<Rightarrow> nat \<Rightarrow> Path \<Rightarrow> (Path \<times> nat) res" where
  "addEdge e scopeId p =
     (if scopeId > scopeIdSequence p then panic ''scopeId is greater than the sequence''
      else
        let s = (case vertexScopes p (from_comp e) of None \<Rightarrow> scopeId | Some s \<Rightarrow> s);
            p1 = createScopeIfNotExist s p
        in bindR (if hasCycle (cl_component (cond_to e)) \<or> vertexIsInScope (get_list (scopeEdges p1) s) e
                  then createScopeWithParent s e p1
                  else Inr (joinScope s e p1, s))
             (\<lambda>(p2, s2). Inr
                (p2\<lparr>vertexScopes := (if vertexScopes p2 (to_comp e) = None
                                    then (vertexScopes p2)(to_comp e \<mapsto> s2) else vertexScopes p2),
                    path_edges := path_edges p2 @ [e],
                    vertexes := vertexes p2 @ [to_comp e]\<rparr>, s2)))"

definition AddEdge :: "CondensedEdge \<Rightarrow> nat \<Rightarrow> Path \<Rightarrow> (Path \<times> nat) res" where
  "AddEdge e scopeId p =
     (let p1 = addEdgeToGraph e p;
          p2 = (if length (vertexes p1) = 0 then AddVertex (from_comp e) p1 else p1)
      in addEdge e scopeId p2)"

section \<open>Searching the paths\<close>

text \<open>An edge whose target has subset conditions, or that has polymorphic expressions, is kept.\<close>

definition restricting :: "Graph \<Rightarrow> CondensedEdge \<Rightarrow> bool" where
  "restricting g e \<longleftrightarrow> length (getSubsetConds (scc g ! to_comp e)) > 0 \<or> condensed_hasPolymorphicExpressions e"

fun add_edges :: "CondensedEdge list \<Rightarrow> Path \<times> nat \<Rightarrow> (Path \<times> nat) res" where
  "add_edges [] st = Inr st"
| "add_edges (e # es) (p, s) = bindR (AddEdge e s p) (add_edges es)"

text \<open>
  \<^verbatim>\<open>from\<close> holds the edges that lead to the current vertex and are not on the path yet. The condensed graph has
  no cycle, so its number of vertices bounds the depth of the recursion.
\<close>

fun subsetDfs :: "nat \<Rightarrow> Graph \<Rightarrow> nat \<Rightarrow> CondensedEdge list \<Rightarrow> nat \<Rightarrow> Path \<times> CondensedEdge list \<Rightarrow>
    (Path \<times> CondensedEdge list) res" where
  "subsetDfs 0 g v fullFrom scopeId st = err ''out of fuel''"
| "subsetDfs (Suc n) g v fullFrom scopeId st =
     (if v \<ge> length (condensedGraph g) then panic ''index out of range''
      else foldR (\<lambda>to (path, from).
         if to_comp to \<ge> length (scc g) then panic ''index out of range''
         else bindR
           (if length (getSubsetConds (scc g ! to_comp to)) > 0 \<or>
               condensed_hasPolymorphicExpressions (last (fullFrom @ [to]))
            then bindR (add_edges (from @ [to]) (path, scopeId)) (\<lambda>(p, s). Inr (p, s, []))
            else Inr (path, scopeId, from @ [to]))
           (\<lambda>(p, s, from1).
             bindR (subsetDfs n g (to_comp to) (fullFrom @ [to]) s (p, from1)) (\<lambda>(p', from2).
             Inr (p', if length from2 > 0 then butlast from2 else from2))))
        (condensedGraph g ! v) st)"

definition find_path :: "Graph \<Rightarrow> nat \<Rightarrow> Path res" where
  "find_path g v =
     (if v \<ge> length (scc g) then panic ''index out of range''
      else
        let p = (if length (getSubsetConds (scc g ! v)) > 0 \<or> component_hasPolymorphicExpressions (scc g ! v)
                 then AddVertex v (NewPath v) else NewPath v)
        in bindR (subsetDfs (length (condensedGraph g)) g v [] rootScopeId (p, [])) (\<lambda>(p', _). Inr p'))"

definition findSubsetVertexes :: "Graph \<Rightarrow> (nat \<rightharpoonup> Path) res" where
  "findSubsetVertexes g =
     foldR (\<lambda>v paths. bindR (find_path g v) (\<lambda>p. Inr (if Path_Len p > 0 then paths(v \<mapsto> p) else paths)))
       [0..<length (condensedGraph g)] Map.empty"

end
