(* ===== verification/SubsetSql.thy ===== *)
theory SubsetSql
  imports SubsetPath
begin

text \<open>
  The SQL text of subset queries: \<^verbatim>\<open>internal/db/postgres/subset/query.go\<close> (clauses), \<^verbatim>\<open>cte.go\<close> (the list of common
  table expressions) and the naming functions of \<^verbatim>\<open>graph.go\<close>. SQL is a \<open>string\<close>, built with the same pieces in
  the same order as the format strings of the code. A Go set of seen strings is the list of them.
\<close>

section \<open>Pieces of SQL\<close>

definition spaced :: "string list \<Rightarrow> string" where "spaced = join_with '' ''"
definition commas :: "string list \<Rightarrow> string" where "commas = join_with '', ''"
definition conj_sql :: "string list \<Rightarrow> string" where "conj_sql = join_with '' AND ''"
definition parens :: "string \<Rightarrow> string" where "parens s = ''('' @ s @ '')''"

text \<open>\<^verbatim>\<open>"schema"."table"\<close>, \<^verbatim>\<open>"schema"."table"."column"\<close> and the alias \<^verbatim>\<open>schema__table__column\<close>.\<close>

definition table_ref :: "Table \<Rightarrow> string" where
  "table_ref t = quoted (t_Schema t) @ ''.'' @ quoted (t_Name t)"

definition column_ref :: "Table \<Rightarrow> string \<Rightarrow> string" where
  "column_ref t k = table_ref t @ ''.'' @ quoted k"

definition column_alias :: "Table \<Rightarrow> string \<Rightarrow> string" where
  "column_alias t k = t_Schema t @ ''__'' @ t_Name t @ ''__'' @ k"

definition ids_name :: "Table \<Rightarrow> string" where
  "ids_name t = t_Schema t @ ''__'' @ t_Name t @ ''__ids''"

definition nth_res :: "'a list \<Rightarrow> nat \<Rightarrow> 'a res" where
  "nth_res xs i = (if i < length xs then Inr (xs ! i) else panic ''index out of range'')"

section \<open>Joins\<close>

definition joinTypeInner :: string where "joinTypeInner = ''INNER''"
definition joinTypeLeft :: string where "joinTypeLeft = ''LEFT''"

definition generateJoinClauseForDroppedEdge :: "Edge \<Rightarrow> string \<Rightarrow> string res" where
  "generateJoinClauseForDroppedEdge edge initTableName =
     (let leftTableKeys = List.map (\<lambda>k. column_alias (link_table (edge_from edge)) (key_Name k)) (link_keys (edge_from edge));
          rightTable = link_table (edge_to edge)
      in bindR (mapR (\<lambda>idx. bindR (nth_res leftTableKeys idx) (\<lambda>leftKey.
                  bindR (nth_res (link_keys (edge_to edge)) idx) (\<lambda>rk.
                  Inr (quoted initTableName @ ''.'' @ quoted leftKey @ '' = '' @ GetKeyReference rk rightTable))))
                [0..<length (link_keys (edge_to edge))])
           (\<lambda>conds. Inr (''JOIN '' @ table_ref rightTable @ '' ON '' @
              conj_sql (conds @ polymorphicExprs (edge_from edge) @ polymorphicExprs (edge_to edge)))))"

text \<open>The condition of one key; the subset conditions of the right table follow every key.\<close>

definition join_key_conds :: "Edge \<Rightarrow> (32 word \<rightharpoonup> string) \<Rightarrow> nat \<Rightarrow> string list res" where
  "join_key_conds edge overridden idx =
     bindR (nth_res (link_keys (edge_from edge)) idx) (\<lambda>lk.
     bindR (nth_res (link_keys (edge_to edge)) idx) (\<lambda>rk.
       let rightTable = link_table (edge_to edge);
           rightPart = (case overridden (t_Oid rightTable) of
                          None \<Rightarrow> GetKeyReference rk rightTable
                        | Some n \<Rightarrow> quoted n @ ''.'' @ quoted (key_Name rk))
       in Inr ((GetKeyReference lk (link_table (edge_from edge)) @ '' = '' @ rightPart) # t_SubsetConds rightTable)))"

definition generateJoinClauseV2 :: "Edge \<Rightarrow> string \<Rightarrow> (32 word \<rightharpoonup> string) \<Rightarrow> string res" where
  "generateJoinClauseV2 edge joinType overridden =
     (if joinType \<noteq> joinTypeInner \<and> joinType \<noteq> joinTypeLeft then panic ''invalid join type''
      else bindR (mapR (join_key_conds edge overridden) [0..<length (link_keys (edge_from edge))])
        (\<lambda>conds.
           let rightTable = link_table (edge_to edge);
               rightTableName = (case overridden (t_Oid rightTable) of None \<Rightarrow> table_ref rightTable | Some n \<Rightarrow> quoted n)
           in Inr (joinType @ '' JOIN '' @ rightTableName @ '' ON '' @
                conj_sql (concat conds @ polymorphicExprs (edge_from edge) @ polymorphicExprs (edge_to edge)))))"

text \<open>
  Are the referenced keys the primary key? The comparison reads \<^verbatim>\<open>PrimaryKey[idx]\<close> only when the lengths agree.
\<close>

definition refKeysArePk :: "Edge \<Rightarrow> bool" where
  "refKeysArePk edge \<longleftrightarrow> List.map key_Name (link_keys (edge_to edge)) = t_PrimaryKey (link_table (edge_to edge))"

definition overridden_in_clause :: "Edge \<Rightarrow> string \<Rightarrow> string list \<Rightarrow> string list \<Rightarrow> string" where
  "overridden_in_clause edge overriddenName leftKeys rightKeys =
     (let rightTable = link_table (edge_to edge)
      in if refKeysArePk edge
         then parens (commas leftKeys) @ '' IN (SELECT '' @ commas rightKeys @ '' FROM '' @ quoted overriddenName @ '')''
         else parens (commas leftKeys) @ '' IN (SELECT '' @
                commas (List.map (\<lambda>k. GetKeyReference k rightTable) (link_keys (edge_to edge))) @
                '' FROM '' @ table_ref rightTable @ '' WHERE '' @
                parens (commas (List.map (column_ref rightTable) (t_PrimaryKey rightTable))) @ '' IN (SELECT '' @
                commas (List.map quoted (t_PrimaryKey rightTable)) @ '' FROM '' @ quoted overriddenName @ ''))'')"

definition generateOverriddenTableInClause :: "Edge \<Rightarrow> string \<Rightarrow> bool \<Rightarrow> string res" where
  "generateOverriddenTableInClause edge overriddenName nullable =
     (if polymorphicExprs (edge_from edge) \<noteq> [] \<or> polymorphicExprs (edge_to edge) \<noteq> []
      then panic ''IMPLEMENT ME: polymorphic expression for overridden table''
      else
        let leftKeys = List.map (\<lambda>k. GetKeyReference k (link_table (edge_from edge))) (link_keys (edge_from edge));
            nullChecks = List.map (\<lambda>lk. lk @ '' IS NULL'') leftKeys
        in bindR (mapR (\<lambda>idx. bindR (nth_res (link_keys (edge_to edge)) idx) (\<lambda>rk. Inr (quoted (key_Name rk))))
                   [0..<length (link_keys (edge_from edge))])
             (\<lambda>rightKeys.
                let inClause = overridden_in_clause edge overriddenName leftKeys rightKeys
                in Inr (if nullable then parens (join_with '' OR '' nullChecks @ '' OR '' @ inClause) else inClause)))"

section \<open>WHERE and SELECT\<close>

text \<open>The strings of the list that were not seen before.\<close>

fun unseen :: "'a list \<Rightarrow> 'a list \<Rightarrow> 'a list" where
  "unseen seen [] = []"
| "unseen seen (x # xs) = (if x \<in> set seen then unseen seen xs else x # unseen (x # seen) xs)"

definition generateWhereClause :: "string list \<Rightarrow> string" where
  "generateWhereClause conds =
     (if length conds = 0 then ''WHERE TRUE''
      else ''WHERE '' @ conj_sql (List.map (\<lambda>c. ''( '' @ c @ '' )'') (unseen [] conds)))"

definition generateSelectByPrimaryKey :: "Table \<Rightarrow> string list \<Rightarrow> string" where
  "generateSelectByPrimaryKey table pk = ''SELECT '' @ commas (List.map (column_ref table) pk)"

definition generateSelectAllColumns :: "Table \<Rightarrow> string" where
  "generateSelectAllColumns table =
     (let columns = List.map (\<lambda>c. column_ref table (col_Name c)) (filter (\<lambda>c. \<not> col_IsGenerated c) (t_Columns table))
      in if length columns = 0 then ''SELECT '' @ table_ref table @ ''.*'' else ''SELECT '' @ commas columns)"

section \<open>Names\<close>

text \<open>FNV-1a on 32 bits and \<^verbatim>\<open>%08x\<close>, of the standard library.\<close>

definition fnv32a :: "string \<Rightarrow> 32 word" where
  "fnv32a s = foldl (\<lambda>h c. xor h (word_of_nat (of_char c)) * 16777619) 2166136261 s"

definition hex_digit :: "nat \<Rightarrow> char" where
  "hex_digit d = (''0123456789abcdef'' ! d)"

definition hex8 :: "32 word \<Rightarrow> string" where
  "hex8 w = List.map (\<lambda>i. hex_digit (unat w div 16 ^ i mod 16)) (rev [0..<8])"

definition maxIdentifierLength :: nat where "maxIdentifierLength = 63"

definition shortenIdentifier :: "string \<Rightarrow> string" where
  "shortenIdentifier name =
     (if length name \<le> maxIdentifierLength then name
      else let suffix = ''__'' @ hex8 (fnv32a name)
           in take (maxIdentifierLength - length suffix) name @ suffix)"

definition scoped_name :: "nat \<Rightarrow> string \<Rightarrow> string" where
  "scoped_name scopeId groupId = ''__s'' @ show_nat scopeId @ ''__g'' @ groupId"

definition getCycleQueryName :: "nat \<Rightarrow> Edge list \<Rightarrow> string \<Rightarrow> string res" where
  "getCycleQueryName scopeId cycle postfix =
     bindR (first_of cycle) (\<lambda>e.
       let mainTable = link_table (edge_from e);
           res = scoped_name scopeId (getCycleGroupId cycle) @ ''__c'' @ getCycleId cycle @ ''__'' @
                 t_Schema mainTable @ ''__'' @ t_Name mainTable
       in Inr (shortenIdentifier (if postfix \<noteq> '''' then res @ ''__'' @ postfix else res)))"

definition getCyclesGroupQueryNameByMainTable :: "nat \<Rightarrow> string \<Rightarrow> Table \<Rightarrow> string" where
  "getCyclesGroupQueryNameByMainTable scopeId groupId t =
     scoped_name scopeId groupId @ ''__'' @ t_Schema t @ ''__'' @ t_Name t"

definition getCyclesGroupQueryName :: "nat \<Rightarrow> Edge list \<Rightarrow> string res" where
  "getCyclesGroupQueryName scopeId cycle =
     bindR (first_of cycle) (\<lambda>e.
       Inr (getCyclesGroupQueryNameByMainTable scopeId (getCycleGroupId cycle) (link_table (edge_from e))))"

definition getFilteredQueryName :: "nat \<Rightarrow> string \<Rightarrow> Table \<Rightarrow> string" where
  "getFilteredQueryName scopeId groupId t =
     shortenIdentifier (scoped_name scopeId groupId @ ''__'' @ t_Schema t @ ''__'' @ t_Name t @ ''__filtered'')"

definition getUnitedQueryName :: "nat \<Rightarrow> Edge list \<Rightarrow> string res" where
  "getUnitedQueryName scopeId cycle =
     bindR (first_of cycle) (\<lambda>e. Inr (shortenIdentifier
       (getCyclesGroupQueryNameByMainTable scopeId (getCycleGroupId cycle) (link_table (edge_from e)) @ ''__united'')))"

definition getGroupValidKeysQueryName :: "nat \<Rightarrow> string \<Rightarrow> Table \<Rightarrow> string" where
  "getGroupValidKeysQueryName scopeId groupId t =
     shortenIdentifier (scoped_name scopeId groupId @ ''__'' @ t_Schema t @ ''__'' @ t_Name t @ ''__ids'')"

definition generateGroupValidKeysInClause :: "nat \<Rightarrow> string \<Rightarrow> Table \<Rightarrow> string" where
  "generateGroupValidKeysInClause scopeId groupId t =
     parens (commas (List.map (column_ref t) (t_PrimaryKey t))) @ '' IN (SELECT '' @
     commas (List.map quoted (t_PrimaryKey t)) @ '' FROM '' @ quoted (getGroupValidKeysQueryName scopeId groupId t) @ '')''"

section \<open>Turning cycles\<close>

definition shiftCycle :: "'e list \<Rightarrow> 'e list res" where
  "shiftCycle cycle = (if cycle = [] then panic ''index out of range'' else Inr (last cycle # butlast cycle))"

definition shiftCycleGroup :: "'e list list \<Rightarrow> 'e list list res" where
  "shiftCycleGroup g = mapR shiftCycle g"

text \<open>The loop with its counter of shifts; it panics once the counter reaches the length.\<close>

function shift_until :: "nat \<Rightarrow> nat \<Rightarrow> Edge list \<Rightarrow> Edge list res" where
  "shift_until v shifts res =
     (case res of
        [] \<Rightarrow> panic ''index out of range''
      | e # _ \<Rightarrow>
          if link_idx (edge_from e) = v then Inr res
          else if shifts \<ge> length res then panic ''vertex is not a member of the cycle''
          else shift_until v (shifts + 1) (last res # butlast res))"
  by pat_completeness auto
termination
  by (relation "measure (\<lambda>(v, shifts, res). length res - shifts)") auto

definition shiftUntilVertexWillBeFirst :: "Edge \<Rightarrow> Edge list \<Rightarrow> Edge list res" where
  "shiftUntilVertexWillBeFirst v c = shift_until (link_idx (edge_from v)) 0 c"

section \<open>The list of common table expressions\<close>

record cteItem =
  item_name :: string
  item_query :: string

record cteQuery =
  cte_items :: "cteItem list"
  addedNames :: "string list"
  cte_component :: Component

definition newCteQuery :: "Component \<Rightarrow> cteQuery" where
  "newCteQuery c = \<lparr>cte_items = [], addedNames = [], cte_component = c\<rparr>"

definition addItem :: "string \<Rightarrow> string \<Rightarrow> cteQuery \<Rightarrow> cteQuery" where
  "addItem name query c =
     (if name \<in> set (addedNames c) then c
      else c\<lparr>addedNames := name # addedNames c,
             cte_items := cte_items c @ [\<lparr>item_name = name, item_query = query\<rparr>]\<rparr>)"

text \<open>The items of the other tables of the component are left out.\<close>

definition selected_items :: "cteQuery \<Rightarrow> Table \<Rightarrow> cteItem list" where
  "selected_items c targetTable =
     (let componentTables = sort_key t_Oid (List.map snd (c_tables (cte_component c)));
          excluded = List.map ids_name (filter (\<lambda>t. t_Oid t \<noteq> t_Oid targetTable) componentTables)
      in filter (\<lambda>item. item_name item \<notin> set excluded) (cte_items c))"

definition generateQuerySelect :: "cteQuery \<Rightarrow> Table \<Rightarrow> string list \<Rightarrow> string" where
  "generateQuerySelect c targetTable selectCols =
     (let queries = List.map (\<lambda>item. '' '' @ quoted (item_name item) @ '' AS '' @ parens (item_query item))
                      (selected_items c targetTable);
          leftTableKeys = List.map (column_ref targetTable) (t_PrimaryKey targetTable);
          rightTableName = ids_name targetTable;
          rightTableKeys = List.map (\<lambda>k. quoted rightTableName @ ''.'' @ quoted k) (t_PrimaryKey targetTable);
          resultingQuery = ''SELECT '' @ commas selectCols @ '' FROM '' @ table_ref targetTable @ '' WHERE '' @
            parens (join_with '','' leftTableKeys) @ '' IN (SELECT '' @ join_with '','' rightTableKeys @ '' FROM '' @
            quoted rightTableName @ '')''
      in ''WITH RECURSIVE '' @ join_with '','' queries @ '' '' @ resultingQuery)"

definition cte_generateQuery :: "cteQuery \<Rightarrow> Table \<Rightarrow> string" where
  "cte_generateQuery c targetTable = generateQuerySelect c targetTable [''*'']"

end
