(* ===== verification/SubsetQueries.thy ===== *)
theory SubsetQueries
  imports SubsetSql
begin

text \<open>
  The queries of \<^verbatim>\<open>subset/graph.go\<close> and \<^verbatim>\<open>set_queries.go\<close>: a path of joined tables becomes one SELECT, a
  component with cycles becomes a recursive query with one item per cycle and rotation, and nested scopes
  become IN conditions. A map from vertices to booleans is a function that is \<open>False\<close> where the Go map has no
  entry. \<^verbatim>\<open>table.Query\<close> is the result, a map from the vertex of the table.
\<close>

section \<open>Joins and integrity checks\<close>

record JoinState =
  js_joins :: "string list"
  js_prune :: "string list"
  js_nullable :: "nat \<Rightarrow> bool"
  js_detached :: "nat \<Rightarrow> bool"

definition no_joins :: JoinState where
  "no_joins = \<lparr>js_joins = [], js_prune = [], js_nullable = (\<lambda>_. False), js_detached = (\<lambda>_. False)\<rparr>"

abbreviation edge_source :: "Edge \<Rightarrow> nat" where "edge_source e \<equiv> link_idx (edge_from e)"
abbreviation edge_target :: "Edge \<Rightarrow> nat" where "edge_target e \<equiv> link_idx (edge_to e)"

definition add_unseen :: "string \<Rightarrow> string list \<Rightarrow> string list" where
  "add_unseen x xs = (if x \<in> set xs then xs else xs @ [x])"

definition join_step :: "(32 word \<rightharpoonup> string) \<Rightarrow> Edge \<Rightarrow> JoinState \<Rightarrow> JoinState res" where
  "join_step overridden e st =
     (if js_detached st (edge_source e)
      then Inr (st\<lparr>js_detached := (js_detached st)(edge_target e := True)\<rparr>)
      else
        let isNullable = (edge_isNullable e \<or> js_nullable st (edge_source e));
            st = st\<lparr>js_nullable := (js_nullable st)(edge_target e := isNullable)\<rparr>
        in case overridden (t_Oid (link_table (edge_to e))) of
             Some n \<Rightarrow>
               let st = st\<lparr>js_detached := (js_detached st)(edge_target e := True)\<rparr>
               in if \<not> isNullable
                  then bindR (generateOverriddenTableInClause e n False)
                         (\<lambda>c. Inr (st\<lparr>js_prune := add_unseen c (js_prune st)\<rparr>))
                  else Inr st
           | None \<Rightarrow>
               bindR (generateJoinClauseV2 e (if isNullable then joinTypeLeft else joinTypeInner) overridden)
                 (\<lambda>join. Inr (st\<lparr>js_joins := add_unseen join (js_joins st)\<rparr>)))"

definition buildJoinsForEdges :: "Edge list \<Rightarrow> (32 word \<rightharpoonup> string) \<Rightarrow> JoinState res" where
  "buildJoinsForEdges edges overridden = foldR (join_step overridden) edges no_joins"

definition nullable_key_check :: "Edge \<Rightarrow> nat \<Rightarrow> string res" where
  "nullable_key_check e idx =
     bindR (nth_res (link_keys (edge_from e)) idx) (\<lambda>lk.
     bindR (nth_res (link_keys (edge_to e)) idx) (\<lambda>rk.
       let polymorphicExpr = (if polymorphicExprs (edge_from e) \<noteq> []
                              then '' OR NOT '' @ parens (conj_sql (polymorphicExprs (edge_from e))) else '''')
       in Inr (parens (GetKeyReference lk (link_table (edge_from e)) @ '' IS NULL OR '' @
            GetKeyReference rk (link_table (edge_to e)) @ '' IS NOT NULL'' @ polymorphicExpr))))"

definition integrity_check :: "(32 word \<rightharpoonup> string) \<Rightarrow> Edge \<Rightarrow> string res" where
  "integrity_check overridden e =
     (case overridden (t_Oid (link_table (edge_to e))) of
        Some n \<Rightarrow> generateOverriddenTableInClause e n True
      | None \<Rightarrow> bindR (mapR (nullable_key_check e) [0..<length (link_keys (edge_from e))])
                  (\<lambda>keys. Inr (parens (conj_sql keys))))"

definition generateIntegrityChecksForNullableEdges ::
  "(nat \<Rightarrow> bool) \<Rightarrow> Edge list \<Rightarrow> (32 word \<rightharpoonup> string) \<Rightarrow> (nat \<Rightarrow> bool) \<Rightarrow> string list res" where
  "generateIntegrityChecksForNullableEdges nullable edges overridden detached =
     bindR (mapR (integrity_check overridden)
              (filter (\<lambda>e. \<not> detached (edge_source e) \<and> nullable (edge_target e)) edges))
       (\<lambda>checks. Inr (unseen [] checks))"

text \<open>The joins of a plain query: every edge is joined, none is overridden.\<close>

definition plain_join :: "Edge \<Rightarrow> (nat \<Rightarrow> bool) \<times> string list \<Rightarrow> ((nat \<Rightarrow> bool) \<times> string list) res" where
  "plain_join e = (\<lambda>(nullable, joins).
     let isNullable = (edge_isNullable e \<or> nullable (edge_source e))
     in bindR (generateJoinClauseV2 e (if isNullable then joinTypeLeft else joinTypeInner) Map.empty)
          (\<lambda>j. Inr (nullable(edge_target e := isNullable), joins @ [j])))"

section \<open>Queries of a cycle\<close>

definition pk_alias :: "Table \<Rightarrow> string \<Rightarrow> string" where
  "pk_alias t k = column_ref t k @ '' as '' @ quoted (column_alias t k)"

definition cycle_select_keys :: "Edge list \<Rightarrow> string list" where
  "cycle_select_keys cycle =
     (let droppedEdge = last cycle; t = link_table (edge_from droppedEdge)
      in concat (List.map (\<lambda>t. List.map (pk_alias t) (t_PrimaryKey t)) (getTablesFromCycle cycle)) @
         List.map (\<lambda>k. GetKeyReference k t @ '' as '' @ quoted (column_alias t (key_Name k)))
           (link_keys (edge_from droppedEdge)))"

definition cycle_subset_conds :: "Edge list \<Rightarrow> string list" where
  "cycle_subset_conds cycle = concat (List.map t_SubsetConds (getTablesFromCycle cycle))"

definition initial_path_keys :: "Table \<Rightarrow> string list" where
  "initial_path_keys t =
     List.map (\<lambda>k. ''ARRAY['' @ column_ref t k @ ''] AS '' @ quoted (column_alias t k @ ''__path'')) (t_PrimaryKey t)"

definition recursive_path_keys :: "Table \<Rightarrow> string list" where
  "recursive_path_keys t =
     List.map (\<lambda>k. quoted (column_alias t k @ ''__path'') @ '' || ARRAY['' @ column_ref t k @ '']'') (t_PrimaryKey t)"

definition recursive_path_checks :: "string \<Rightarrow> Table \<Rightarrow> string list" where
  "recursive_path_checks queryName t =
     List.map (\<lambda>k. ''NOT '' @ column_ref t k @ '' = ANY('' @ quoted queryName @ ''.'' @
       quoted (column_alias t k @ ''__path'') @ '')'') (t_PrimaryKey t)"

definition valid_check :: "string list \<Rightarrow> string" where
  "valid_check conds = parens (conj_sql conds) @ '' AS valid''"

definition or_true :: "string list \<Rightarrow> string list" where
  "or_true conds = (if length conds = 0 then [''TRUE''] else conds)"

definition recursive_query :: "string \<Rightarrow> Table \<Rightarrow> string list \<Rightarrow> string list \<Rightarrow> string \<Rightarrow> JoinState \<Rightarrow> string" where
  "recursive_query queryName t selectKeys integrityChecks droppedJoin st =
     spaced [''SELECT '' @ commas (selectKeys @ recursive_path_keys t @ [valid_check integrityChecks]),
             ''FROM '' @ quoted queryName @ '' '',
             spaced (droppedJoin # js_joins st),
             generateWhereClause ((quoted queryName @ ''.'' @ quoted ''valid'') # js_prune st @
               recursive_path_checks queryName t)]"

definition union_sql :: "string \<Rightarrow> string \<Rightarrow> string" where
  "union_sql a b = ''( '' @ a @ '' ) UNION ( '' @ b @ '' )''"

definition generateQuery ::
  "string \<Rightarrow> Edge list \<Rightarrow> CondensedEdge list \<Rightarrow> (32 word \<rightharpoonup> string) \<Rightarrow> string list \<Rightarrow> string res" where
  "generateQuery queryName cycle rest overridden extraConds =
     bindR (first_of cycle) (\<lambda>first.
       let t = link_table (edge_from first);
           edges = butlast cycle @ List.map originalEdge rest;
           cycleSubsetConds = cycle_subset_conds cycle @ extraConds;
           selectKeys = cycle_select_keys cycle
       in bindR (buildJoinsForEdges edges overridden) (\<lambda>st.
          bindR (generateIntegrityChecksForNullableEdges (js_nullable st) edges overridden (js_detached st))
            (\<lambda>integrityChecks.
          bindR (generateJoinClauseForDroppedEdge (last cycle) queryName) (\<lambda>droppedJoin.
            let initialQuery = spaced
                  [''SELECT '' @ commas (selectKeys @ initial_path_keys t @ [''TRUE AS valid'']),
                   ''FROM '' @ table_ref t @ '' '',
                   spaced (js_joins st),
                   generateWhereClause (cycleSubsetConds @ integrityChecks @ js_prune st)]
            in Inr (union_sql initialQuery
                 (recursive_query queryName t selectKeys (or_true (cycleSubsetConds @ integrityChecks)) droppedJoin st))))))"

definition generateInClauseForOverlap :: "nat \<Rightarrow> Edge list \<Rightarrow> Edge list list \<Rightarrow> string res" where
  "generateInClauseForOverlap scopeId cycle overlapped =
     bindR (first_of cycle) (\<lambda>first.
     bindR (mapR (shiftUntilVertexWillBeFirst first) overlapped) (\<lambda>shifted.
     bindR (mapR (\<lambda>c. getCycleQueryName scopeId c '''') shifted) (\<lambda>overlapTables.
       let t = link_table (edge_from first);
           rightTableKeys = List.map (\<lambda>k. quoted (column_alias t k)) (t_PrimaryKey t);
           leftTableKeys = List.map (column_ref t) (t_PrimaryKey t);
           unionQuery = join_with '' UNION ''
             (List.map (\<lambda>n. ''SELECT '' @ commas rightTableKeys @ '' FROM '' @ quoted n) overlapTables)
       in Inr (parens (commas leftTableKeys) @ '' IN '' @ parens unionQuery))))"

definition generateOverlapQuery ::
  "nat \<Rightarrow> string \<Rightarrow> Edge list \<Rightarrow> CondensedEdge list \<Rightarrow> (32 word \<rightharpoonup> string) \<Rightarrow> Edge list list \<Rightarrow> string list \<Rightarrow>
   string res" where
  "generateOverlapQuery scopeId queryName cycle rest overridden overlapped extraConds =
     bindR (first_of cycle) (\<lambda>first.
       let t = link_table (edge_from first);
           edges = butlast cycle @ List.map originalEdge rest;
           selectKeys = cycle_select_keys cycle
       in bindR (generateInClauseForOverlap scopeId cycle overlapped) (\<lambda>inClause.
          bindR (buildJoinsForEdges edges overridden) (\<lambda>st.
          bindR (generateIntegrityChecksForNullableEdges (js_nullable st) edges overridden (js_detached st))
            (\<lambda>nullableChecks.
          bindR (generateJoinClauseForDroppedEdge (last cycle) queryName) (\<lambda>droppedJoin.
            let integrityChecks = or_true (nullableChecks @ cycle_subset_conds cycle @ extraConds);
                initialQuery = spaced
                  [''SELECT '' @ commas (selectKeys @ initial_path_keys t @ [valid_check integrityChecks]),
                   ''FROM '' @ table_ref t @ '' '',
                   spaced (js_joins st),
                   generateWhereClause (inClause # js_prune st)]
            in Inr (union_sql initialQuery (recursive_query queryName t selectKeys integrityChecks droppedJoin st)))))))"

definition generateUnitedCyclesQuery :: "nat \<Rightarrow> Edge list list \<Rightarrow> string res" where
  "generateUnitedCyclesQuery scopeId cs =
     bindR (mapR (\<lambda>c. bindR (getCycleQueryName scopeId c '''') (\<lambda>a.
                     bindR (getCycleQueryName scopeId c ''overlap'') (\<lambda>b.
                     Inr [''SELECT * FROM '' @ quoted a, ''SELECT * FROM '' @ quoted b]))) cs)
       (\<lambda>parts. Inr (join_with '' UNION '' (concat parts)))"

definition integrity_check_query :: "string \<Rightarrow> Table \<Rightarrow> Table list \<Rightarrow> string" where
  "integrity_check_query tableName table tables =
     (let key = (\<lambda>t k. quoted tableName @ ''.'' @ quoted (column_alias t k));
          allPks = concat (List.map (\<lambda>t. List.map (key t) (t_PrimaryKey t)) tables);
          own = filter (\<lambda>t. t_Oid t = t_Oid table) tables;
          mainTablePks = concat (List.map (\<lambda>t. List.map (key t) (t_PrimaryKey t)) own);
          unnestSelections = concat (List.map (\<lambda>t. List.map (\<lambda>k. ''unnest('' @ quoted tableName @ ''.'' @
            quoted (column_alias t k @ ''__path'') @ '') AS '' @ quoted k) (t_PrimaryKey t)) own);
          unnestQuery = ''SELECT '' @ commas unnestSelections @ '' FROM '' @ quoted tableName @ '' WHERE NOT '' @
            quoted tableName @ ''.'' @ quoted ''valid''
      in ''SELECT DISTINCT '' @ commas allPks @ '' FROM '' @ quoted tableName @ '' WHERE '' @
         parens (commas mainTablePks) @ '' NOT IN '' @ parens unnestQuery)"

definition generateIntegrityCheckJoinConds :: "nat \<Rightarrow> Edge list list \<Rightarrow> string res" where
  "generateIntegrityCheckJoinConds scopeId cs =
     bindR (first_of cs) (\<lambda>cycle.
     bindR (first_of cycle) (\<lambda>first.
     bindR (if length cs > 1 then getUnitedQueryName scopeId cycle else getCycleQueryName scopeId cycle '''')
       (\<lambda>tableName. Inr (integrity_check_query tableName (link_table (edge_from first)) (getTablesFromCycle cycle)))))"

definition generateAllTablesValidPkSelection :: "Edge list list \<Rightarrow> nat \<Rightarrow> Table \<Rightarrow> string res" where
  "generateAllTablesValidPkSelection cs scopeId forTable =
     bindR (first_of cs) (\<lambda>cycle. Inr (join_with '' UNION ''
       (List.map (\<lambda>t.
          let n = getFilteredQueryName scopeId (getCycleGroupId cycle) t
          in ''SELECT DISTINCT '' @ commas (List.map (\<lambda>k. quoted n @ ''.'' @ quoted (column_alias forTable k) @ '' AS '' @
               quoted k) (t_PrimaryKey forTable)) @ '' FROM '' @ quoted n)
        (getTablesFromCycle cycle))))"

section \<open>Items of a component with cycles\<close>

text \<open>The cycles of the group other than the one at the position of the cycle with this id.\<close>

definition others :: "'a list \<Rightarrow> nat \<Rightarrow> 'a list" where
  "others xs i = take i xs @ drop (i + 1) xs"

definition getOverlapMap :: "Edge list list \<Rightarrow> (string \<rightharpoonup> Edge list list)" where
  "getOverlapMap cs =
     fold (\<lambda>i m. m(getCycleId (cs ! i) \<mapsto> others cs i)) [0..<length cs] Map.empty"

definition generateQueriesForVertexesInCycle :: "nat \<Rightarrow> Edge list list \<Rightarrow> cteQuery \<Rightarrow> cteQuery res" where
  "generateQueriesForVertexesInCycle scopeId cs cq =
     bindR (first_of cs) (\<lambda>cycle.
       foldR (\<lambda>t cq. bindR (generateAllTablesValidPkSelection cs scopeId t) (\<lambda>q. Inr (addItem (ids_name t) q cq)))
         (getTablesFromCycle cycle) cq)"

definition cycle_items ::
  "nat \<Rightarrow> CondensedEdge list \<Rightarrow> (32 word \<rightharpoonup> string) \<Rightarrow> (string \<rightharpoonup> Edge list list) \<Rightarrow> string list \<Rightarrow>
   Edge list \<Rightarrow> cteQuery \<Rightarrow> cteQuery res" where
  "cycle_items scopeId rest overridden overlapMap extraConds cycle cq =
     bindR (getCycleQueryName scopeId cycle '''') (\<lambda>queryName.
     bindR (generateQuery queryName cycle rest overridden extraConds) (\<lambda>query.
       let cq1 = addItem queryName query cq;
           overlapped = (case overlapMap (getCycleId cycle) of None \<Rightarrow> [] | Some os \<Rightarrow> os)
       in if length overlapped > 0
          then bindR (getCycleQueryName scopeId cycle ''overlap'') (\<lambda>overlapQueryName.
               bindR (generateOverlapQuery scopeId overlapQueryName cycle rest overridden overlapped extraConds)
                 (\<lambda>overlapQuery. Inr (addItem overlapQueryName overlapQuery cq1)))
          else Inr cq1))"

fun rotate_items :: "nat \<Rightarrow> (Edge list \<Rightarrow> cteQuery \<Rightarrow> cteQuery res) \<Rightarrow> Edge list \<Rightarrow> cteQuery \<Rightarrow> cteQuery res" where
  "rotate_items 0 f cycle cq = Inr cq"
| "rotate_items (Suc n) f cycle cq =
     bindR (f cycle cq) (\<lambda>cq. bindR (shiftCycle cycle) (\<lambda>cycle. rotate_items n f cycle cq))"

text \<open>The tables the next scopes start from are overridden by the items of those scopes.\<close>

definition override_scopes :: "ScopeEdge list \<Rightarrow> (32 word \<rightharpoonup> string)" where
  "override_scopes ses =
     fold (\<lambda>se m. let t = link_table (edge_to (originalEdge (originalCondensedEdge se)))
                   in m(t_Oid t \<mapsto> ids_name t)) ses Map.empty"

definition generateRecursiveQueriesForCycle ::
  "nat \<Rightarrow> Edge list \<Rightarrow> CondensedEdge list \<Rightarrow> ScopeEdge list \<Rightarrow> (string \<rightharpoonup> Edge list list) \<Rightarrow> string list \<Rightarrow>
   cteQuery \<Rightarrow> cteQuery res" where
  "generateRecursiveQueriesForCycle scopeId cycle rest nextScopeEdges overlapMap extraConds cq =
     rotate_items (length cycle)
       (cycle_items scopeId (rest @ List.map originalCondensedEdge nextScopeEdges) (override_scopes nextScopeEdges)
          overlapMap extraConds)
       cycle cq"

definition filtered_items :: "nat \<Rightarrow> Edge list list \<Rightarrow> cteQuery \<Rightarrow> cteQuery res" where
  "filtered_items scopeId cs cq =
     bindR (first_of cs) (\<lambda>cycle.
     bindR (first_of cycle) (\<lambda>first.
       let filteredQueryName = getFilteredQueryName scopeId (getCycleGroupId cycle) (link_table (edge_from first))
       in bindR (if length cs > 1
                 then bindR (generateUnitedCyclesQuery scopeId cs) (\<lambda>unitedQuery.
                      bindR (getUnitedQueryName scopeId cycle) (\<lambda>unitedQueryName.
                      Inr (addItem unitedQueryName unitedQuery cq)))
                 else Inr cq) (\<lambda>cq.
          bindR (generateIntegrityCheckJoinConds scopeId cs) (\<lambda>filteredQuery.
          Inr (addItem filteredQueryName filteredQuery cq)))))"

fun rotate_filtered :: "nat \<Rightarrow> nat \<Rightarrow> Edge list list \<Rightarrow> cteQuery \<Rightarrow> cteQuery res" where
  "rotate_filtered 0 scopeId cs cq = Inr cq"
| "rotate_filtered (Suc n) scopeId cs cq =
     bindR (filtered_items scopeId cs cq) (\<lambda>cq.
     bindR (shiftCycleGroup cs) (\<lambda>cs. rotate_filtered n scopeId cs cq))"

definition generateFilteredQueries :: "nat \<Rightarrow> Edge list list \<Rightarrow> cteQuery \<Rightarrow> cteQuery res" where
  "generateFilteredQueries scopeId cs cq =
     bindR (first_of cs) (\<lambda>cycle. rotate_filtered (length cycle) scopeId cs cq)"

section \<open>Components with several groups of cycles\<close>

record GroupState =
  gs_cte :: cteQuery
  gs_groups :: "32 word \<rightharpoonup> string list"
  gs_tables :: "(32 word \<times> Table) list"

definition group_table ::
  "(32 word \<Rightarrow> string list) \<Rightarrow> nat \<Rightarrow> string \<Rightarrow> string list \<Rightarrow> Table \<Rightarrow> string list \<times> GroupState \<Rightarrow>
   string list \<times> GroupState" where
  "group_table externalConds scopeId groupId prevGroups t = (\<lambda>(extraConds, st).
     let known = (case gs_groups st (t_Oid t) of None \<Rightarrow> [] | Some gs \<Rightarrow> gs)
     in (extraConds @ externalConds (t_Oid t) @ List.map (\<lambda>p. generateGroupValidKeysInClause scopeId p t)
                        (filter (\<lambda>p. p \<in> set known) prevGroups),
         st\<lparr>gs_groups := (gs_groups st)(t_Oid t \<mapsto> known @ [groupId]),
            gs_tables := AList.update (t_Oid t) t (gs_tables st)\<rparr>))"

definition group_items ::
  "(32 word \<Rightarrow> string list) \<Rightarrow> nat \<Rightarrow> Component \<Rightarrow> CondensedEdge list \<Rightarrow> ScopeEdge list \<Rightarrow> string list \<Rightarrow>
   string \<Rightarrow> GroupState \<Rightarrow> GroupState res" where
  "group_items externalConds scopeId c edges nextScopeEdges prevGroups groupId st =
     bindR (getCycleGroup c groupId) (\<lambda>cycleGroup.
     bindR (getCycleGroupTables c groupId) (\<lambda>tables.
       let (extraConds, st1) = fold (group_table externalConds scopeId groupId prevGroups) tables ([], st);
           overlapMap = getOverlapMap cycleGroup
       in bindR (foldR (\<lambda>cycle. generateRecursiveQueriesForCycle scopeId cycle edges nextScopeEdges overlapMap extraConds)
                  cycleGroup (gs_cte st1)) (\<lambda>cq.
          bindR (generateFilteredQueries scopeId cycleGroup cq) (\<lambda>cq.
          bindR (first_of cycleGroup) (\<lambda>cycle.
          bindR (foldR (\<lambda>t cq. bindR (generateAllTablesValidPkSelection cycleGroup scopeId t)
                    (\<lambda>q. Inr (addItem (getGroupValidKeysQueryName scopeId groupId t) q cq)))
                  (getTablesFromCycle cycle) cq) (\<lambda>cq.
          Inr (st1\<lparr>gs_cte := cq\<rparr>)))))))"

definition intersect_query :: "nat \<Rightarrow> string list \<Rightarrow> Table \<Rightarrow> string" where
  "intersect_query scopeId groupIds t =
     join_with '' INTERSECT '' (List.map (\<lambda>g. ''SELECT '' @ commas (List.map quoted (t_PrimaryKey t)) @ '' FROM '' @
       quoted (getGroupValidKeysQueryName scopeId g t)) groupIds)"

text \<open>
  The final loop runs over the tables of the groups by their OIDs. A missing key of
  the map \<^verbatim>\<open>externalConds\<close> is the empty list; \<^verbatim>\<open>generateQueryForScc\<close> passes a \<^verbatim>\<open>nil\<close> map.
\<close>

fun group_rounds ::
  "(32 word \<Rightarrow> string list) \<Rightarrow> nat \<Rightarrow> Component \<Rightarrow> CondensedEdge list \<Rightarrow> ScopeEdge list \<Rightarrow> string list \<Rightarrow>
   string list \<Rightarrow> GroupState \<Rightarrow> GroupState res"
where
  "group_rounds externalConds scopeId c edges nextScopeEdges prevGroups [] st = Inr st"
| "group_rounds externalConds scopeId c edges nextScopeEdges prevGroups (g # gs) st =
     bindR (group_items externalConds scopeId c edges nextScopeEdges prevGroups g st)
       (group_rounds externalConds scopeId c edges nextScopeEdges (prevGroups @ [g]) gs)"

definition generateQueriesForMultiGroupScc ::
  "(32 word \<Rightarrow> string list) \<Rightarrow> nat \<Rightarrow> Component \<Rightarrow> CondensedEdge list \<Rightarrow> ScopeEdge list \<Rightarrow> cteQuery \<Rightarrow>
   cteQuery res" where
  "generateQueriesForMultiGroupScc externalConds scopeId c edges nextScopeEdges cq =
     bindR (getSortedGroupIds c) (\<lambda>groupIds.
     bindR (group_rounds externalConds scopeId c edges nextScopeEdges [] groupIds
              \<lparr>gs_cte = cq, gs_groups = Map.empty, gs_tables = []\<rparr>) (\<lambda>st.
       Inr (fold (\<lambda>t. addItem (ids_name t)
                (intersect_query scopeId (case gs_groups st (t_Oid t) of None \<Rightarrow> [] | Some gs \<Rightarrow> gs) t))
             (sort_key t_Oid (List.map snd (gs_tables st))) (gs_cte st))))"

section \<open>Components with one group, and the queries of a path\<close>

definition generateQueryForScc ::
  "Graph \<Rightarrow> nat \<Rightarrow> Path \<Rightarrow> ScopeEdge option \<Rightarrow> cteQuery \<Rightarrow> cteQuery res" where
  "generateQueryForScc g scopeId path prevScopeEdge cq =
     (let edges = get_list (scopeEdges path) scopeId;
          nextScopeEdges = get_list (scopeGraph path) scopeId
      in bindR (nth_res (scc g) (rootVertex path)) (\<lambda>root.
         bindR (case prevScopeEdge of
                  None \<Rightarrow> Inr (edges, root)
                | Some se \<Rightarrow> if edges = [] then panic ''slice bounds out of range''
                             else Inr (tl edges, cl_component (cond_to (originalCondensedEdge se))))
           (\<lambda>(edges, c).
              if length (groupedCycles c) = 1
              then bindR (getOneCycleGroup c) (\<lambda>cycleGroup.
                   bindR (foldR (\<lambda>cycle. generateRecursiveQueriesForCycle scopeId cycle edges nextScopeEdges
                                    (getOverlapMap cycleGroup) []) cycleGroup cq) (\<lambda>cq.
                   bindR (generateFilteredQueries scopeId cycleGroup cq)
                     (generateQueriesForVertexesInCycle scopeId cycleGroup)))
              else generateQueriesForMultiGroupScc (\<lambda>_. []) scopeId c edges nextScopeEdges cq)))"

text \<open>The joins of the edges and the checks of the nullable ones, after the table's own conditions.\<close>

definition plain_conditions :: "Edge list \<Rightarrow> Table \<Rightarrow> string list \<Rightarrow> (string list \<times> string list) res" where
  "plain_conditions edges rootTable subQueries =
     bindR (foldR plain_join edges (\<lambda>_. False, [])) (\<lambda>(nullable, joinClauses).
     bindR (generateIntegrityChecksForNullableEdges nullable edges Map.empty (\<lambda>_. False)) (\<lambda>checks.
     Inr (joinClauses, t_SubsetConds rootTable @ checks @ subQueries)))"

definition null_checks :: "Edge \<Rightarrow> string list" where
  "null_checks e = List.map (\<lambda>k. GetKeyReference k (link_table (edge_from e)) @ '' IS NULL'') (link_keys (edge_from e))"

definition or_null :: "ScopeEdge \<Rightarrow> string \<Rightarrow> string" where
  "or_null se query =
     (if se_isNullable se
      then parens (parens (conj_sql (null_checks (originalEdge (originalCondensedEdge se)))) @ '' OR '' @ query)
      else query)"

definition left_keys :: "Edge \<Rightarrow> string" where
  "left_keys e = commas (List.map (\<lambda>k. GetKeyReference k (link_table (edge_from e))) (link_keys (edge_from e)))"

definition in_condition :: "Edge \<Rightarrow> string \<Rightarrow> string" where
  "in_condition e query = parens (parens (left_keys e) @ '' IN '' @ parens query)"

definition scope_condition :: "ScopeEdge \<Rightarrow> string \<Rightarrow> string" where
  "scope_condition se query =
     (let e = originalEdge (originalCondensedEdge se);
          exprs = polymorphicExprs (edge_from e);
          query1 = in_condition e query;
          query2 = (if length exprs > 0
                    then parens (parens (left_keys e) @ '' AND '' @ parens (join_with ''AND'' exprs) @ '' IN '' @ parens query1)
                    else query1)
      in or_null se query2)"

definition generateQueryForTables :: "Graph \<Rightarrow> Path \<Rightarrow> ScopeEdge option \<Rightarrow> string list \<Rightarrow> string res" where
  "generateQueryForTables g path scopeEdge subQueries =
     (let scopeId = (case scopeEdge of None \<Rightarrow> rootScopeId | Some se \<Rightarrow> se_scopeId se);
          edges = List.map originalEdge (get_list (scopeEdges path) scopeId)
      in bindR (nth_res (scc g) (rootVertex path)) (\<lambda>root. bindR (getOneTable root) (\<lambda>rootTable.
         bindR (case scopeEdge of
                  None \<Rightarrow> Inr (edges, rootTable, generateSelectAllColumns rootTable)
                | Some se \<Rightarrow>
                    if edges = [] then panic ''slice bounds out of range''
                    else
                      let e = originalEdge (originalCondensedEdge se); t = link_table (edge_to e)
                      in Inr (tl edges, t, ''SELECT '' @ commas (List.map (\<lambda>k. GetKeyReference k t) (link_keys (edge_to e)))))
           (\<lambda>(edges, rootTable, selectClause).
         bindR (plain_conditions edges rootTable subQueries) (\<lambda>(joinClauses, whereConds).
           let query = spaced [selectClause, ''FROM '' @ table_ref rootTable @ '' '', spaced joinClauses,
                               generateWhereClause whereConds]
           in Inr (case scopeEdge of None \<Rightarrow> query | Some se \<Rightarrow> scope_condition se query))))))"

definition scc_scope_condition :: "ScopeEdge \<Rightarrow> cteQuery \<Rightarrow> string" where
  "scc_scope_condition se cq =
     (let e = originalEdge (originalCondensedEdge se);
          rootTable = link_table (edge_to e);
          refCols = List.map (\<lambda>k. GetKeyReference k rootTable) (link_keys (edge_to e))
      in or_null se (in_condition e (generateQuerySelect cq rootTable refCols)))"

definition acyclic_scope_item :: "Path \<Rightarrow> ScopeEdge \<Rightarrow> string list \<Rightarrow> cteQuery \<Rightarrow> cteQuery res" where
  "acyclic_scope_item path se subQueries cq =
     (let rootTable = link_table (edge_to (originalEdge (originalCondensedEdge se)));
          edges = List.map originalEdge (tl (get_list (scopeEdges path) (se_scopeId se)))
      in bindR (plain_conditions edges rootTable subQueries) (\<lambda>(joinClauses, whereConds).
         Inr (addItem (ids_name rootTable)
           (''SELECT '' @ table_ref rootTable @ ''.* FROM '' @ table_ref rootTable @ '' '' @ spaced joinClauses @ '' '' @
            generateWhereClause whereConds) cq)))"

abbreviation scope_of :: "ScopeEdge option \<Rightarrow> nat" where
  "scope_of scopeEdge \<equiv> (case scopeEdge of None \<Rightarrow> rootScopeId | Some se \<Rightarrow> se_scopeId se)"

abbreviation into_cycle :: "ScopeEdge \<Rightarrow> bool" where
  "into_cycle se \<equiv> hasCycle (cl_component (cond_to (originalCondensedEdge se)))"

text \<open>
  The mutually recursive walks over the scopes of a path. The two functions between them take the walk they
  call as an argument. A missing path is a nil pointer. Each walk takes one unit of fuel.
\<close>

definition generateQueryForSccScope ::
  "(Path \<Rightarrow> cteQuery \<Rightarrow> cteQuery res) \<Rightarrow> (nat \<rightharpoonup> Path) \<Rightarrow> ScopeEdge \<Rightarrow> string res" where
  "generateQueryForSccScope walk paths se =
     (case paths (to_comp (originalCondensedEdge se)) of
        None \<Rightarrow> panic ''nil pointer dereference''
      | Some canonicalPath \<Rightarrow>
          bindR (walk canonicalPath (newCteQuery (cl_component (cond_to (originalCondensedEdge se)))))
            (\<lambda>cq. Inr (scc_scope_condition se cq)))"

definition generateIdsCteForAcyclicScope ::
  "(ScopeEdge \<Rightarrow> string res) \<Rightarrow> Path \<Rightarrow> ScopeEdge \<Rightarrow> cteQuery \<Rightarrow> cteQuery res" where
  "generateIdsCteForAcyclicScope walk path se cq =
     bindR (mapR walk (get_list (scopeGraph path) (se_scopeId se)))
       (\<lambda>subQueries. acyclic_scope_item path se (filter (\<lambda>q. q \<noteq> '''') subQueries) cq)"

fun generateQueriesDfs :: "nat \<Rightarrow> Graph \<Rightarrow> (nat \<rightharpoonup> Path) \<Rightarrow> Path \<Rightarrow> ScopeEdge option \<Rightarrow> string res"
and generateQueriesSccDfs :: "nat \<Rightarrow> Graph \<Rightarrow> (nat \<rightharpoonup> Path) \<Rightarrow> Path \<Rightarrow> ScopeEdge option \<Rightarrow> cteQuery \<Rightarrow> cteQuery res"
where
  "generateQueriesDfs 0 g paths path scopeEdge = err ''out of fuel''"
| "generateQueriesDfs (Suc n) g paths path scopeEdge =
     (if get_list (scopeEdges path) (scope_of scopeEdge) = [] \<and> scopeEdge \<noteq> None then Inr ''''
      else if scopeEdge \<noteq> None \<and> into_cycle (the scopeEdge)
      then generateQueryForSccScope (\<lambda>canonical. generateQueriesSccDfs n g paths canonical None) paths (the scopeEdge)
      else bindR (mapR (\<lambda>nextScope. generateQueriesDfs n g paths path (Some nextScope))
                    (get_list (scopeGraph path) (scope_of scopeEdge)))
             (\<lambda>subQueries. generateQueryForTables g path scopeEdge (filter (\<lambda>q. q \<noteq> '''') subQueries)))"
| "generateQueriesSccDfs 0 g paths path scopeEdge cq = err ''out of fuel''"
| "generateQueriesSccDfs (Suc n) g paths path scopeEdge cq =
     (if get_list (scopeEdges path) (scope_of scopeEdge) = [] \<and> scopeEdge \<noteq> None then Inr cq
      else if scopeEdge \<noteq> None \<and> \<not> into_cycle (the scopeEdge)
      then generateIdsCteForAcyclicScope (\<lambda>nextScope. generateQueriesDfs n g paths path (Some nextScope))
             path (the scopeEdge) cq
      else bindR (generateQueryForScc g (scope_of scopeEdge) path scopeEdge cq)
             (foldR (\<lambda>nextScopeEdge. generateQueriesSccDfs n g paths path (Some nextScopeEdge))
                (get_list (scopeGraph path) (scope_of scopeEdge))))"

definition isPathForScc :: "Path \<Rightarrow> Graph \<Rightarrow> bool res" where
  "isPathForScc path g = bindR (nth_res (scc g) (rootVertex path)) (\<lambda>c. Inr (hasCycle c))"

definition generateAndSetQueryForTable ::
  "nat \<Rightarrow> Graph \<Rightarrow> (nat \<rightharpoonup> Path) \<Rightarrow> Path \<Rightarrow> (nat \<rightharpoonup> string) \<Rightarrow> (nat \<rightharpoonup> string) res" where
  "generateAndSetQueryForTable n g paths path queries =
     bindR (nth_res (scc g) (rootVertex path)) (\<lambda>root.
     bindR (getOneTable root) (\<lambda>_.
     bindR (generateQueriesDfs n g paths path None) (\<lambda>query.
     Inr (queries(fst (hd (c_tables root)) \<mapsto> query)))))"

definition generateAndSetQueryForScc ::
  "nat \<Rightarrow> Graph \<Rightarrow> (nat \<rightharpoonup> Path) \<Rightarrow> Path \<Rightarrow> (nat \<rightharpoonup> string) \<Rightarrow> (nat \<rightharpoonup> string) res" where
  "generateAndSetQueryForScc n g paths path queries =
     bindR (nth_res (scc g) (rootVertex path)) (\<lambda>root.
     bindR (generateQueriesSccDfs n g paths path None (newCteQuery root)) (\<lambda>cq.
     Inr (fold (\<lambda>(v, t) queries. queries(v \<mapsto> cte_generateQuery cq t)) (c_tables root) queries)))"

definition set_query :: "nat \<Rightarrow> Graph \<Rightarrow> (nat \<rightharpoonup> Path) \<Rightarrow> nat \<Rightarrow> (nat \<rightharpoonup> string) \<Rightarrow> (nat \<rightharpoonup> string) res" where
  "set_query n g paths v queries =
     (case paths v of
        None \<Rightarrow> Inr queries
      | Some p \<Rightarrow> bindR (isPathForScc p g) (\<lambda>b.
          if b then generateAndSetQueryForScc n g paths p queries
          else generateAndSetQueryForTable n g paths p queries))"

text \<open>The paths are visited by their vertex; the queries of different paths are those of different tables.\<close>

definition SetSubsetQueries :: "nat \<Rightarrow> Graph \<Rightarrow> (nat \<rightharpoonup> string) res" where
  "SetSubsetQueries n g =
     bindR (findSubsetVertexes g) (\<lambda>paths.
       foldR (set_query n g paths) [0..<length (condensedGraph g)] Map.empty)"

end
