(* ===== verification/SubsetPathProps.thy ===== *)
theory SubsetPathProps
  imports SubsetPath
begin

text \<open>
  What holds of every path: the tables of a scope can be joined in the order of its edges, no table is joined
  twice in a scope, and a nested scope hangs on a table that its parent scope has. The search for paths always
  ends and finds a path exactly for the components from which a restriction can be reached.
\<close>

section \<open>The invariant of a path\<close>

text \<open>The components whose tables are in the FROM clause of a scope.\<close>

definition scope_root :: "nat \<Rightarrow> nat \<Rightarrow> nat set" where
  "scope_root root s = (if s = rootScopeId then {root} else {})"

definition avail :: "Path \<Rightarrow> nat \<Rightarrow> nat set" where
  "avail p s = scope_root (rootVertex p) s \<union> to_comp ` set (get_list (scopeEdges p) s)"

text \<open>
  The edges of a scope: each starts at a component that is joined before it (but the first edge of a nested
  scope, which starts in the parent), and leads to one that is not.
\<close>

definition scope_ok :: "nat \<Rightarrow> nat \<Rightarrow> CondensedEdge list \<Rightarrow> bool" where
  "scope_ok root s es \<longleftrightarrow> (\<forall>as e bs. es = as @ e # bs \<longrightarrow>
     (s \<noteq> rootScopeId \<and> as = [] \<or> from_comp e \<in> scope_root root s \<union> to_comp ` set as) \<and>
     to_comp e \<notin> to_comp ` set as \<and> to_comp e \<notin> from_comp ` set as)"

definition path_ok :: "Path \<Rightarrow> bool" where
  "path_ok p \<longleftrightarrow>
     (\<forall>s. scopeEdges p s \<noteq> None \<longrightarrow> s \<le> scopeIdSequence p) \<and>
     (\<forall>s. scope_ok (rootVertex p) s (get_list (scopeEdges p) s)) \<and>
     (\<forall>v s. vertexScopes p v = Some s \<longrightarrow> s \<le> scopeIdSequence p \<and> v \<in> avail p s) \<and>
     (\<forall>s. \<forall>se \<in> set (get_list (scopeGraph p) s). s < se_scopeId se \<and> se_scopeId se \<le> scopeIdSequence p \<and>
        from_comp (originalCondensedEdge se) \<in> avail p s \<and>
        (\<exists>es. scopeEdges p (se_scopeId se) = Some (originalCondensedEdge se # es)))"

text \<open>A component where an edge can be attached, given the scope for the root.\<close>

definition home :: "Path \<Rightarrow> nat \<Rightarrow> nat \<Rightarrow> bool" where
  "home p scopeId v \<longleftrightarrow> vertexScopes p v \<noteq> None \<or> v = rootVertex p \<and> scopeId = rootScopeId"

definition extends :: "Path \<Rightarrow> Path \<Rightarrow> bool" where
  "extends p p' \<longleftrightarrow> rootVertex p' = rootVertex p \<and> scopeIdSequence p \<le> scopeIdSequence p' \<and>
     dom (vertexScopes p) \<subseteq> dom (vertexScopes p') \<and> (vertexes p \<noteq> [] \<longrightarrow> vertexes p' \<noteq> [])"

lemma extends_refl [simp]: "extends p p"
  by (simp add: extends_def)

lemma extends_trans: "extends p q \<Longrightarrow> extends q r \<Longrightarrow> extends p r"
  unfolding extends_def by auto

lemma home_extends: "extends p p' \<Longrightarrow> home p s v \<Longrightarrow> home p' s v"
  by (auto simp: extends_def home_def)

lemma scope_ok_Nil [simp]: "scope_ok root s []"
  by (simp add: scope_ok_def)

lemma scope_ok_single [simp]: "s \<noteq> rootScopeId \<Longrightarrow> scope_ok root s [e]"
  by (auto simp: scope_ok_def Cons_eq_append_conv)

lemma scope_ok_snoc:
  assumes "scope_ok root s es" and "from_comp e \<in> scope_root root s \<union> to_comp ` set es"
    and "to_comp e \<notin> to_comp ` set es" and "to_comp e \<notin> from_comp ` set es"
  shows "scope_ok root s (es @ [e])"
  unfolding scope_ok_def
proof (intro allI impI)
  fix as a bs
  assume "es @ [e] = as @ a # bs"
  then consider "bs = []" "as = es" "a = e" | cs where "es = as @ a # cs"
    by (cases bs rule: rev_cases) auto
  then show "(s \<noteq> rootScopeId \<and> as = [] \<or> from_comp a \<in> scope_root root s \<union> to_comp ` set as) \<and>
     to_comp a \<notin> to_comp ` set as \<and> to_comp a \<notin> from_comp ` set as"
  proof cases
    case 1
    with assms(2-4) show ?thesis by blast
  next
    case 2
    with assms(1) show ?thesis unfolding scope_ok_def by blast
  qed
qed

lemma NewPath_ok: "path_ok (NewPath v)"
  by (simp add: path_ok_def NewPath_def get_list_def)

lemma AddVertex_ok: "path_ok p \<Longrightarrow> path_ok (AddVertex v p)"
  by (simp add: path_ok_def AddVertex_def avail_def)

lemma addEdgeToGraph_simps [simp]:
  "rootVertex (addEdgeToGraph e p) = rootVertex p" "vertexes (addEdgeToGraph e p) = vertexes p"
  "scopeEdges (addEdgeToGraph e p) = scopeEdges p" "scopeGraph (addEdgeToGraph e p) = scopeGraph p"
  "vertexScopes (addEdgeToGraph e p) = vertexScopes p" "scopeIdSequence (addEdgeToGraph e p) = scopeIdSequence p"
  by (simp_all add: addEdgeToGraph_def Let_def)

lemma addEdgeToGraph_ok: "path_ok p \<Longrightarrow> path_ok (addEdgeToGraph e p)"
  by (simp add: path_ok_def avail_def)

lemma get_list_update [simp]: "get_list (m(k \<mapsto> xs)) k' = (if k' = k then xs else get_list m k')"
  by (simp add: get_list_def)

lemma createScopeIfNotExist_ok:
  assumes "path_ok p" and "s \<le> scopeIdSequence p"
  shows "path_ok (createScopeIfNotExist s p)" "extends p (createScopeIfNotExist s p)"
    "avail (createScopeIfNotExist s p) = avail p" "scopeEdges (createScopeIfNotExist s p) s \<noteq> None"
    "vertexScopes (createScopeIfNotExist s p) = vertexScopes p"
    "scopeIdSequence (createScopeIfNotExist s p) = scopeIdSequence p"
    "rootVertex (createScopeIfNotExist s p) = rootVertex p" "vertexes (createScopeIfNotExist s p) = vertexes p"
proof -
  show av: "avail (createScopeIfNotExist s p) = avail p"
    by (auto simp: avail_def createScopeIfNotExist_def get_list_def fun_eq_iff)
  show "extends p (createScopeIfNotExist s p)" by (simp add: extends_def createScopeIfNotExist_def)
  show "scopeEdges (createScopeIfNotExist s p) s \<noteq> None" by (simp add: createScopeIfNotExist_def)
  show "vertexScopes (createScopeIfNotExist s p) = vertexScopes p"
    "scopeIdSequence (createScopeIfNotExist s p) = scopeIdSequence p"
    "rootVertex (createScopeIfNotExist s p) = rootVertex p" "vertexes (createScopeIfNotExist s p) = vertexes p"
    by (simp_all add: createScopeIfNotExist_def)
  show "path_ok (createScopeIfNotExist s p)"
  proof (cases "scopeEdges p s = None")
    case True
    then have "\<nexists>se t. se \<in> set (get_list (scopeGraph p) t) \<and> se_scopeId se = s"
      using assms(1) unfolding path_ok_def by fastforce
    with True assms av show ?thesis
      unfolding path_ok_def by (auto simp: createScopeIfNotExist_def)
  next
    case False
    then have "createScopeIfNotExist s p = p" by (simp only: createScopeIfNotExist_def if_False)
    then show ?thesis using assms(1) by simp
  qed
qed

text \<open>A nested scope for an edge whose source the parent scope has.\<close>

lemma createScopeWithParent_ok:
  assumes p: "path_ok p" and parent: "parent \<le> scopeIdSequence p" and src: "from_comp e \<in> avail p parent"
  obtains p' s where "createScopeWithParent parent e p = Inr (p', s)" and "path_ok p'" and "extends p p'"
    and "s = scopeIdSequence p'" and "to_comp e \<in> avail p' s" and "vertexScopes p' = vertexScopes p"
    and "vertexes p' = vertexes p" and "\<And>t. avail p t \<subseteq> avail p' t"
proof -
  let ?s = "scopeIdSequence p + 1"
  have none: "scopeEdges p ?s = None" using p unfolding path_ok_def by fastforce
  obtain p' where p': "createScopeWithParent parent e p = Inr (p', ?s)"
    and f: "rootVertex p' = rootVertex p" "vertexes p' = vertexes p" "scopeIdSequence p' = ?s"
      "scopeEdges p' = (scopeEdges p)(?s \<mapsto> [e])" "vertexScopes p' = vertexScopes p"
      "\<exists>b. scopeGraph p' = ((scopeGraph p)(?s \<mapsto> []))(parent \<mapsto> get_list (scopeGraph p) parent @
         [\<lparr>se_scopeId = ?s, originalCondensedEdge = e, se_isNullable = b\<rparr>])"
    using none parent by (auto simp: createScopeWithParent_def Let_def)
  have av: "avail p t \<subseteq> avail p' t" for t
    using none f(1,4) by (auto simp: avail_def get_list_def)
  have to: "to_comp e \<in> avail p' ?s" using f(4) by (simp add: avail_def)
  have ok: "path_ok p'"
    unfolding path_ok_def
  proof (intro conjI allI impI ballI)
    fix s
    show "scopeEdges p' s \<noteq> None \<Longrightarrow> s \<le> scopeIdSequence p'"
      using p f(3,4) unfolding path_ok_def by (auto split: if_splits)
    show "scope_ok (rootVertex p') s (get_list (scopeEdges p') s)"
      using p f(1,4) unfolding path_ok_def by (simp add: rootScopeId_def)
  next
    fix v s
    assume "vertexScopes p' v = Some s"
    then have "s \<le> scopeIdSequence p" "v \<in> avail p s" using p f(5) unfolding path_ok_def by auto
    with av f(3) show "s \<le> scopeIdSequence p'" "v \<in> avail p' s" by auto
  next
    fix s se
    assume se: "se \<in> set (get_list (scopeGraph p') s)"
    obtain b where b: "scopeGraph p' = ((scopeGraph p)(?s \<mapsto> []))(parent \<mapsto> get_list (scopeGraph p) parent @
         [\<lparr>se_scopeId = ?s, originalCondensedEdge = e, se_isNullable = b\<rparr>])" using f(6) by blast
    from se consider "se \<in> set (get_list (scopeGraph p) s)" "s \<noteq> ?s"
      | "s = parent" "se_scopeId se = ?s" "originalCondensedEdge se = e"
      unfolding b using parent by (auto split: if_splits)
    then have "s < se_scopeId se \<and> se_scopeId se \<le> scopeIdSequence p' \<and>
        from_comp (originalCondensedEdge se) \<in> avail p' s \<and>
        (\<exists>es. scopeEdges p' (se_scopeId se) = Some (originalCondensedEdge se # es))"
    proof cases
      case 1
      then have "s < se_scopeId se" "se_scopeId se \<le> scopeIdSequence p"
        "from_comp (originalCondensedEdge se) \<in> avail p s"
        "\<exists>es. scopeEdges p (se_scopeId se) = Some (originalCondensedEdge se # es)"
        using p unfolding path_ok_def by blast+
      with av f(3,4) show ?thesis by auto
    next
      case 2
      with parent src av f(3,4) show ?thesis by auto
    qed
    then show "s < se_scopeId se" "se_scopeId se \<le> scopeIdSequence p'"
      "from_comp (originalCondensedEdge se) \<in> avail p' s"
      "\<exists>es. scopeEdges p' (se_scopeId se) = Some (originalCondensedEdge se # es)" by blast+
  qed
  have "extends p p'" using f by (simp add: extends_def)
  with that p' ok f to av show ?thesis by simp
qed

text \<open>An edge that joins the scope of its source.\<close>

lemma joinScope_ok:
  assumes p: "path_ok p" and s: "s \<le> scopeIdSequence p" "scopeEdges p s \<noteq> None" and src: "from_comp e \<in> avail p s"
    and fresh: "\<not> vertexIsInScope (get_list (scopeEdges p) s) e"
  shows "path_ok (joinScope s e p)" "extends p (joinScope s e p)" "to_comp e \<in> avail (joinScope s e p) s"
    "vertexScopes (joinScope s e p) = vertexScopes p" "vertexes (joinScope s e p) = vertexes p"
    "scopeIdSequence (joinScope s e p) = scopeIdSequence p" "\<And>t. avail p t \<subseteq> avail (joinScope s e p) t"
proof -
  let ?es = "get_list (scopeEdges p) s" and ?p = "joinScope s e p"
  have f: "rootVertex ?p = rootVertex p" "scopeEdges ?p = (scopeEdges p)(s \<mapsto> ?es @ [e])"
    "scopeGraph ?p = scopeGraph p"
    by (simp_all add: joinScope_def Let_def)
  show f2: "vertexScopes ?p = vertexScopes p" "vertexes ?p = vertexes p" "scopeIdSequence ?p = scopeIdSequence p"
    by (simp_all add: joinScope_def Let_def)
  show "extends p ?p" using f f2 by (simp add: extends_def)
  show "to_comp e \<in> avail ?p s" by (simp add: avail_def f)
  show av: "avail p t \<subseteq> avail ?p t" for t by (auto simp: avail_def f)
  have notin: "to_comp e \<notin> to_comp ` set ?es" "to_comp e \<notin> from_comp ` set ?es"
    using fresh by (auto simp: vertexIsInScope_def list_ex_iff)
  show "path_ok ?p"
    unfolding path_ok_def
  proof (intro conjI allI impI ballI)
    fix t
    show "scopeEdges ?p t \<noteq> None \<Longrightarrow> t \<le> scopeIdSequence ?p"
      using p s f f2 unfolding path_ok_def by (auto split: if_splits)
    show "scope_ok (rootVertex ?p) t (get_list (scopeEdges ?p) t)"
    proof (cases "t = s")
      case True
      have "scope_ok (rootVertex p) s ?es" using p unfolding path_ok_def by blast
      with True src notin show ?thesis by (simp add: f scope_ok_snoc avail_def)
    next
      case False
      with p f show ?thesis unfolding path_ok_def by simp
    qed
  next
    fix v t
    assume "vertexScopes ?p v = Some t"
    then have "t \<le> scopeIdSequence p" "v \<in> avail p t" using p f2 unfolding path_ok_def by auto
    with av f2 show "t \<le> scopeIdSequence ?p" "v \<in> avail ?p t" by auto
  next
    fix t se
    assume "se \<in> set (get_list (scopeGraph ?p) t)"
    then have "t < se_scopeId se" "se_scopeId se \<le> scopeIdSequence p"
        "from_comp (originalCondensedEdge se) \<in> avail p t"
        "\<exists>es. scopeEdges p (se_scopeId se) = Some (originalCondensedEdge se # es)"
      using p f(3) unfolding path_ok_def by auto
    with av f f2 show "t < se_scopeId se" "se_scopeId se \<le> scopeIdSequence ?p"
      "from_comp (originalCondensedEdge se) \<in> avail ?p t"
      "\<exists>es. scopeEdges ?p (se_scopeId se) = Some (originalCondensedEdge se # es)"
      by (auto simp: get_list_def)
  qed
qed

lemma finish_edge_ok:
  assumes p: "path_ok p" and s: "s \<le> scopeIdSequence p" "to_comp e \<in> avail p s"
  defines "p' \<equiv> p\<lparr>vertexScopes := (if vertexScopes p (to_comp e) = None
                     then (vertexScopes p)(to_comp e \<mapsto> s) else vertexScopes p),
                path_edges := path_edges p @ [e], vertexes := vertexes p @ [to_comp e]\<rparr>"
  shows "path_ok p'" "extends p p'" "vertexScopes p' (to_comp e) \<noteq> None" "vertexes p' \<noteq> []"
    "scopeIdSequence p' = scopeIdSequence p"
proof -
  have f: "rootVertex p' = rootVertex p" "scopeEdges p' = scopeEdges p" "scopeGraph p' = scopeGraph p"
    "avail p' = avail p"
    by (auto simp: p'_def avail_def fun_eq_iff)
  show seq: "scopeIdSequence p' = scopeIdSequence p" by (simp add: p'_def)
  show "extends p p'" "vertexScopes p' (to_comp e) \<noteq> None" "vertexes p' \<noteq> []"
    by (auto simp: extends_def p'_def)
  show "path_ok p'"
  proof -
    have "t \<le> scopeIdSequence p \<and> v \<in> avail p t" if "vertexScopes p' v = Some t" for v t
      using that p s unfolding path_ok_def p'_def by (auto split: if_splits)
    with p f seq show ?thesis unfolding path_ok_def by auto
  qed
qed

text \<open>An edge from a home is added without a panic, and its target becomes a home.\<close>

lemma addEdge_ok:
  assumes p: "path_ok p" and s: "scopeId \<le> scopeIdSequence p" and h: "home p scopeId (from_comp e)"
  shows "\<exists>p' s'. addEdge e scopeId p = Inr (p', s') \<and> path_ok p' \<and> extends p p' \<and> s' \<le> scopeIdSequence p' \<and>
    vertexScopes p' (to_comp e) \<noteq> None \<and> vertexes p' \<noteq> []"
proof -
  let ?s = "case vertexScopes p (from_comp e) of None \<Rightarrow> scopeId | Some s \<Rightarrow> s"
  let ?p = "createScopeIfNotExist ?s p"
  have vs: "t \<le> scopeIdSequence p \<and> v \<in> avail p t" if "vertexScopes p v = Some t" for v t
    using p that unfolding path_ok_def by blast
  have le: "?s \<le> scopeIdSequence p" and src: "from_comp e \<in> avail p ?s"
    using s h vs [of "from_comp e"] unfolding home_def
    by (cases "vertexScopes p (from_comp e)"; auto simp: avail_def scope_root_def)+
  note c = createScopeIfNotExist_ok [OF p le]
  have src1: "from_comp e \<in> avail ?p ?s" using src c(3) by simp
  have add: "\<exists>p2 s2. (if hasCycle (cl_component (cond_to e)) \<or> vertexIsInScope (get_list (scopeEdges ?p) ?s) e
      then createScopeWithParent ?s e ?p else Inr (joinScope ?s e ?p, ?s)) = Inr (p2, s2) \<and>
      path_ok p2 \<and> extends ?p p2 \<and> s2 \<le> scopeIdSequence p2 \<and> to_comp e \<in> avail p2 s2"
  proof (cases "hasCycle (cl_component (cond_to e)) \<or> vertexIsInScope (get_list (scopeEdges ?p) ?s) e")
    case True
    have "?s \<le> scopeIdSequence ?p" using le c(6) by simp
    from createScopeWithParent_ok [OF c(1) this src1] True show ?thesis
      by (metis order_refl)
  next
    case False
    have "?s \<le> scopeIdSequence ?p" using le c(6) by simp
    with joinScope_ok [OF c(1) this c(4) src1] False show ?thesis by auto
  qed
  then obtain p2 s2 where a: "(if hasCycle (cl_component (cond_to e)) \<or> vertexIsInScope (get_list (scopeEdges ?p) ?s) e
      then createScopeWithParent ?s e ?p else Inr (joinScope ?s e ?p, ?s)) = Inr (p2, s2)"
      "path_ok p2" "extends ?p p2" "s2 \<le> scopeIdSequence p2" "to_comp e \<in> avail p2 s2"
    by blast
  let ?p' = "p2\<lparr>vertexScopes := (if vertexScopes p2 (to_comp e) = None
                     then (vertexScopes p2)(to_comp e \<mapsto> s2) else vertexScopes p2),
                path_edges := path_edges p2 @ [e], vertexes := vertexes p2 @ [to_comp e]\<rparr>"
  note f = finish_edge_ok [OF a(2,4,5)]
  have eq: "addEdge e scopeId p = Inr (?p', s2)"
    using a(1) s by (simp add: addEdge_def Let_def)
  have le2: "s2 \<le> scopeIdSequence ?p'" using a(4) f(5) by simp
  show ?thesis
    by (rule exI [of _ ?p'], rule exI [of _ s2], intro conjI, rule eq, rule f(1),
        rule extends_trans [OF c(2) extends_trans [OF a(3) f(2)]], rule le2, rule f(3), rule f(4))
qed

lemma AddEdge_ok:
  assumes "path_ok p" and "scopeId \<le> scopeIdSequence p" and "home p scopeId (from_comp e)"
  shows "\<exists>p' s'. AddEdge e scopeId p = Inr (p', s') \<and> path_ok p' \<and> extends p p' \<and> s' \<le> scopeIdSequence p' \<and>
    vertexScopes p' (to_comp e) \<noteq> None \<and> vertexes p' \<noteq> []"
proof -
  let ?p = "if length (vertexes (addEdgeToGraph e p)) = 0 then AddVertex (from_comp e) (addEdgeToGraph e p)
     else addEdgeToGraph e p"
  have ok: "path_ok ?p" using assms(1) by (simp add: addEdgeToGraph_ok AddVertex_ok)
  have f: "scopeId \<le> scopeIdSequence ?p" "home ?p scopeId (from_comp e)" "extends p ?p"
    using assms(2,3) by (auto simp: AddVertex_def home_def extends_def)
  from addEdge_ok [OF ok f(1,2)] obtain p' s' where "addEdge e scopeId ?p = Inr (p', s')" "path_ok p'"
    "extends ?p p'" "s' \<le> scopeIdSequence p'" "vertexScopes p' (to_comp e) \<noteq> None" "vertexes p' \<noteq> []"
    by blast
  moreover from this have "extends p p'" using extends_trans [OF f(3)] by blast
  ultimately show ?thesis by (simp add: AddEdge_def Let_def)
qed

section \<open>The search\<close>

fun edge_chain :: "nat \<Rightarrow> CondensedEdge list \<Rightarrow> nat \<Rightarrow> bool" where
  "edge_chain u [] v = (u = v)"
| "edge_chain u (e # es) v = (from_comp e = u \<and> edge_chain (to_comp e) es v)"

lemma edge_chain_snoc: "edge_chain u (es @ [e]) v \<longleftrightarrow> edge_chain u es (from_comp e) \<and> to_comp e = v"
  by (induction es arbitrary: u) auto

text \<open>A chain of edges from a home is added as a whole.\<close>

lemma add_edges_ok:
  "edge_chain u es v \<Longrightarrow> path_ok p \<Longrightarrow> s \<le> scopeIdSequence p \<Longrightarrow> home p s u \<Longrightarrow> es \<noteq> [] \<Longrightarrow>
   \<exists>p' s'. add_edges es (p, s) = Inr (p', s') \<and> path_ok p' \<and> extends p p' \<and> s' \<le> scopeIdSequence p' \<and>
     (\<forall>e \<in> set es. vertexScopes p' (to_comp e) \<noteq> None) \<and> vertexes p' \<noteq> []"
proof (induction es arbitrary: u p s)
  case Nil
  then show ?case by simp
next
  case (Cons e es)
  then have "home p s (from_comp e)" by simp
  from AddEdge_ok [OF Cons.prems(2,3) this] obtain p1 s1 where 1: "AddEdge e s p = Inr (p1, s1)" "path_ok p1"
    "extends p p1" "s1 \<le> scopeIdSequence p1" "vertexScopes p1 (to_comp e) \<noteq> None" "vertexes p1 \<noteq> []"
    by blast
  show ?case
  proof (cases "es = []")
    case True
    with 1 show ?thesis by simp
  next
    case False
    have "home p1 s1 (to_comp e)" using 1(5) by (simp add: home_def)
    with Cons.IH [of "to_comp e" p1 s1] Cons.prems(1) 1(2,4) False
    obtain p2 s2 where 2: "add_edges es (p1, s1) = Inr (p2, s2)" "path_ok p2" "extends p1 p2"
      "s2 \<le> scopeIdSequence p2" "\<forall>e \<in> set es. vertexScopes p2 (to_comp e) \<noteq> None" "vertexes p2 \<noteq> []"
      by auto
    have "vertexScopes p2 (to_comp e) \<noteq> None" using 1(5) 2(3) by (auto simp: extends_def)
    with 1 2 extends_trans [OF 1(3) 2(3)] show ?thesis by simp
  qed
qed

text \<open>The condensed graphs the search is used on: edges start at their vertex and lead to greater ones.\<close>

definition increasing :: "Graph \<Rightarrow> bool" where
  "increasing g \<longleftrightarrow> length (scc g) = length (condensedGraph g) \<and>
     (\<forall>v < length (condensedGraph g). \<forall>e \<in> set (condensedGraph g ! v).
        from_comp e = v \<and> v < to_comp e \<and> to_comp e < length (condensedGraph g))"

text \<open>A restriction can be reached from \<open>v\<close>: along edges of the condensed graph there is one that is kept.\<close>

inductive restricted_from :: "Graph \<Rightarrow> nat \<Rightarrow> bool" for g where
  rf_here: "v < length (condensedGraph g) \<Longrightarrow> e \<in> set (condensedGraph g ! v) \<Longrightarrow> restricting g e \<Longrightarrow>
    restricted_from g v"
| rf_step: "v < length (condensedGraph g) \<Longrightarrow> e \<in> set (condensedGraph g ! v) \<Longrightarrow> restricted_from g (to_comp e) \<Longrightarrow>
    restricted_from g v"

text \<open>The state of the search at vertex \<open>v\<close>: the pending edges lead from a home to it.\<close>

definition search_state :: "nat \<Rightarrow> nat \<Rightarrow> Path \<Rightarrow> CondensedEdge list \<Rightarrow> bool" where
  "search_state v s p es \<longleftrightarrow> path_ok p \<and> s \<le> scopeIdSequence p \<and> (\<exists>u. edge_chain u es v \<and> home p s u)"

definition search_result :: "nat \<Rightarrow> Path \<Rightarrow> CondensedEdge list \<Rightarrow> Path \<Rightarrow> CondensedEdge list \<Rightarrow> bool" where
  "search_result s p es p' es' \<longleftrightarrow> path_ok p' \<and> extends p p' \<and>
     (es' = es \<or> es' = [] \<and> (\<forall>e \<in> set es. vertexScopes p' (to_comp e) \<noteq> None))"

lemma search_result_refl: "path_ok p \<Longrightarrow> search_result s p es p es"
  by (simp add: search_result_def)

lemma search_result_trans:
  assumes "search_result s p es p1 es1" and "search_result s p1 es1 p2 es2"
  shows "search_result s p es p2 es2"
proof -
  have "vertexScopes p2 x \<noteq> None" if "vertexScopes p1 x \<noteq> None" for x
    using assms(2) that by (auto simp: search_result_def extends_def)
  with assms show ?thesis unfolding search_result_def by (auto intro: extends_trans)
qed

text \<open>After the edges of one vertex, the state is again one for this vertex.\<close>

lemma search_state_result:
  assumes st: "search_state v s p es" and r: "search_result s p es p' es'"
  shows "search_state v s p' es'"
proof -
  obtain u where u: "edge_chain u es v" "home p s u" using st by (auto simp: search_state_def)
  have p': "path_ok p'" "extends p p'" "s \<le> scopeIdSequence p'"
    using st r by (auto simp: search_state_def search_result_def extends_def)
  have hu: "home p' s u" using home_extends [OF p'(2) u(2)] .
  from r consider "es' = es" | "es' = []" "\<forall>e \<in> set es. vertexScopes p' (to_comp e) \<noteq> None"
    by (auto simp: search_result_def)
  then show ?thesis
  proof cases
    case 1
    with u(1) hu p' show ?thesis by (auto simp: search_state_def)
  next
    case 2
    have "home p' s v"
    proof (cases es rule: rev_cases)
      case Nil
      with u(1) hu show ?thesis by simp
    next
      case (snoc xs x)
      with u(1) 2(2) show ?thesis by (simp add: edge_chain_snoc home_def)
    qed
    with 2(1) p' show ?thesis by (auto simp: search_state_def)
  qed
qed

definition search_edge :: "nat \<Rightarrow> Graph \<Rightarrow> CondensedEdge list \<Rightarrow> nat \<Rightarrow> CondensedEdge \<Rightarrow>
    Path \<times> CondensedEdge list \<Rightarrow> (Path \<times> CondensedEdge list) res" where
  "search_edge n g fullFrom scopeId to = (\<lambda>(path, from).
     if to_comp to \<ge> length (scc g) then panic ''index out of range''
     else bindR
       (if length (getSubsetConds (scc g ! to_comp to)) > 0 \<or>
           condensed_hasPolymorphicExpressions (last (fullFrom @ [to]))
        then bindR (add_edges (from @ [to]) (path, scopeId)) (\<lambda>(p, s). Inr (p, s, []))
        else Inr (path, scopeId, from @ [to]))
       (\<lambda>(p, s, from1).
         bindR (subsetDfs n g (to_comp to) (fullFrom @ [to]) s (p, from1)) (\<lambda>(p', from2).
         Inr (p', if length from2 > 0 then butlast from2 else from2))))"

lemma subsetDfs_step:
  "v < length (condensedGraph g) \<Longrightarrow>
   subsetDfs (Suc n) g v fullFrom s st = foldR (search_edge n g fullFrom s) (condensedGraph g ! v) st"
  by (simp add: search_edge_def [abs_def])

declare subsetDfs.simps [simp del]

text \<open>What a search from \<open>v\<close> with \<open>n\<close> steps guarantees.\<close>

definition dfs_spec :: "nat \<Rightarrow> Graph \<Rightarrow> bool" where
  "dfs_spec n g \<longleftrightarrow> (\<forall>v fullFrom s p es. v < length (condensedGraph g) \<longrightarrow> length (condensedGraph g) - v \<le> n \<longrightarrow>
     search_state v s p es \<longrightarrow>
     (\<exists>p' es'. subsetDfs n g v fullFrom s (p, es) = Inr (p', es') \<and> search_result s p es p' es' \<and>
        (vertexes p' \<noteq> [] \<longleftrightarrow> vertexes p \<noteq> [] \<or> restricted_from g v)))"

lemma search_edge_ok:
  assumes g: "increasing g" and ih: "dfs_spec n g" and v: "v < length (condensedGraph g)"
    and n: "length (condensedGraph g) - v \<le> Suc n" and e: "to \<in> set (condensedGraph g ! v)"
    and st: "search_state v s p es"
  shows "\<exists>p' es'. search_edge n g fullFrom s to (p, es) = Inr (p', es') \<and> search_result s p es p' es' \<and>
    (vertexes p' \<noteq> [] \<longleftrightarrow> vertexes p \<noteq> [] \<or> restricting g to \<or> restricted_from g (to_comp to))"
proof -
  have te: "from_comp to = v" "v < to_comp to" "to_comp to < length (condensedGraph g)"
    "to_comp to < length (scc g)"
    using g v e by (auto simp: increasing_def)
  then have fuel: "length (condensedGraph g) - to_comp to \<le> n" using n by simp
  obtain u where u: "edge_chain u es v" "home p s u" and p: "path_ok p" "s \<le> scopeIdSequence p"
    using st by (auto simp: search_state_def)
  have chain: "edge_chain u (es @ [to]) (to_comp to)" using u(1) te(1) by (simp add: edge_chain_snoc)
  have pop: "(if length es2 > 0 then butlast es2 else es2) = es" if "es2 = es @ [to]" for es2
    using that by simp
  show ?thesis
  proof (cases "restricting g to")
    case True
    from add_edges_ok [OF chain p u(2)] obtain p1 s1 where 1: "add_edges (es @ [to]) (p, s) = Inr (p1, s1)"
      "path_ok p1" "extends p p1" "s1 \<le> scopeIdSequence p1"
      "\<forall>e \<in> set (es @ [to]). vertexScopes p1 (to_comp e) \<noteq> None" "vertexes p1 \<noteq> []"
      by auto
    have "search_state (to_comp to) s1 p1 []" using 1 by (simp add: search_state_def home_def)
    with ih te(3) fuel obtain p2 es2 where 2: "subsetDfs n g (to_comp to) (fullFrom @ [to]) s1 (p1, []) = Inr (p2, es2)"
      "search_result s1 p1 [] p2 es2"
      unfolding dfs_spec_def by blast
    have es2: "es2 = []" using 2(2) by (auto simp: search_result_def)
    have x: "extends p1 p2" "path_ok p2" using 2(2) by (auto simp: search_result_def)
    have "\<forall>e \<in> set es. vertexScopes p2 (to_comp e) \<noteq> None" using 1(5) x(1) by (auto simp: extends_def)
    then have "search_result s p es p2 []" using extends_trans [OF 1(3) x(1)] x(2) by (simp add: search_result_def)
    moreover have "search_edge n g fullFrom s to (p, es) = Inr (p2, [])"
      using True te(4) 1(1) 2(1) es2 by (simp add: search_edge_def restricting_def)
    moreover have "vertexes p2 \<noteq> []" using 1(6) x(1) by (simp add: extends_def)
    ultimately show ?thesis using True by blast
  next
    case False
    have "search_state (to_comp to) s p (es @ [to])" using chain p u(2) by (auto simp: search_state_def)
    with ih te(3) fuel obtain p2 es2 where 2:
      "subsetDfs n g (to_comp to) (fullFrom @ [to]) s (p, es @ [to]) = Inr (p2, es2)"
      "search_result s p (es @ [to]) p2 es2"
      "vertexes p2 \<noteq> [] \<longleftrightarrow> vertexes p \<noteq> [] \<or> restricted_from g (to_comp to)"
      unfolding dfs_spec_def by blast
    let ?es = "if length es2 > 0 then butlast es2 else es2"
    have "search_result s p es p2 ?es" using 2(2) by (auto simp: search_result_def)
    moreover have "search_edge n g fullFrom s to (p, es) = Inr (p2, ?es)"
      using False te(4) 2(1) by (simp add: search_edge_def restricting_def)
    ultimately show ?thesis using False 2(3) by blast
  qed
qed

lemma search_loop_ok:
  assumes g: "increasing g" and ih: "dfs_spec n g" and v: "v < length (condensedGraph g)"
    and n: "length (condensedGraph g) - v \<le> Suc n"
  shows "set tos \<subseteq> set (condensedGraph g ! v) \<Longrightarrow> search_state v s p es \<Longrightarrow>
    \<exists>p' es'. foldR (search_edge n g fullFrom s) tos (p, es) = Inr (p', es') \<and> search_result s p es p' es' \<and>
      (vertexes p' \<noteq> [] \<longleftrightarrow> vertexes p \<noteq> [] \<or>
         (\<exists>to \<in> set tos. restricting g to \<or> restricted_from g (to_comp to)))"
proof (induction tos arbitrary: p es)
  case Nil
  then show ?case by (auto simp: search_state_def intro: search_result_refl)
next
  case (Cons to tos)
  then have e: "to \<in> set (condensedGraph g ! v)" by simp
  from search_edge_ok [OF g ih v n e Cons.prems(2)] obtain p1 es1
    where 1: "search_edge n g fullFrom s to (p, es) = Inr (p1, es1)" "search_result s p es p1 es1"
      "vertexes p1 \<noteq> [] \<longleftrightarrow> vertexes p \<noteq> [] \<or> restricting g to \<or> restricted_from g (to_comp to)"
    by blast
  from Cons.IH [OF _ search_state_result [OF Cons.prems(2) 1(2)]] Cons.prems(1) obtain p2 es2
    where 2: "foldR (search_edge n g fullFrom s) tos (p1, es1) = Inr (p2, es2)" "search_result s p1 es1 p2 es2"
      "vertexes p2 \<noteq> [] \<longleftrightarrow> vertexes p1 \<noteq> [] \<or> (\<exists>to \<in> set tos. restricting g to \<or> restricted_from g (to_comp to))"
    by auto
  from 1 2 search_result_trans [OF 1(2) 2(2)] show ?case by auto
qed

lemma dfs_spec_all: "increasing g \<Longrightarrow> dfs_spec n g"
proof (induction n)
  case 0
  then show ?case by (simp add: dfs_spec_def)
next
  case (Suc n)
  then have ih: "dfs_spec n g" by blast
  have rf: "(\<exists>to \<in> set (condensedGraph g ! v). restricting g to \<or> restricted_from g (to_comp to)) \<longleftrightarrow>
      restricted_from g v" if "v < length (condensedGraph g)" for v
    using that by (auto intro: restricted_from.intros elim: restricted_from.cases)
  show ?case unfolding dfs_spec_def
  proof (intro allI impI)
    fix v fullFrom s p es
    assume v: "v < length (condensedGraph g)" and n: "length (condensedGraph g) - v \<le> Suc n"
      and st: "search_state v s p es"
    from search_loop_ok [OF Suc.prems ih v n subset_refl st, of fullFrom]
    show "\<exists>p' es'. subsetDfs (Suc n) g v fullFrom s (p, es) = Inr (p', es') \<and> search_result s p es p' es' \<and>
        (vertexes p' \<noteq> [] \<longleftrightarrow> vertexes p \<noteq> [] \<or> restricted_from g v)"
      unfolding subsetDfs_step [OF v] rf [OF v] .
  qed
qed

text \<open>A component is restricted if it has conditions or polymorphic expressions itself, or reaches some.\<close>

definition restricted :: "Graph \<Rightarrow> nat \<Rightarrow> bool" where
  "restricted g v \<longleftrightarrow> getSubsetConds (scc g ! v) \<noteq> [] \<or> component_hasPolymorphicExpressions (scc g ! v) \<or>
     restricted_from g v"

lemma find_path_ok:
  assumes "increasing g" and "v < length (condensedGraph g)"
  shows "\<exists>p. find_path g v = Inr p \<and> path_ok p \<and> rootVertex p = v \<and> (Path_Len p > 0 \<longleftrightarrow> restricted g v)"
proof -
  let ?own = "length (getSubsetConds (scc g ! v)) > 0 \<or> component_hasPolymorphicExpressions (scc g ! v)"
  let ?p = "if ?own then AddVertex v (NewPath v) else NewPath v"
  have st: "search_state v rootScopeId ?p []"
    by (auto simp: search_state_def home_def NewPath_ok AddVertex_ok) (auto simp: NewPath_def AddVertex_def rootScopeId_def)
  from dfs_spec_all [OF assms(1), of "length (condensedGraph g)"] assms(2) st
  obtain p' es' where r: "subsetDfs (length (condensedGraph g)) g v [] rootScopeId (?p, []) = Inr (p', es')"
    "search_result rootScopeId ?p [] p' es'" "vertexes p' \<noteq> [] \<longleftrightarrow> vertexes ?p \<noteq> [] \<or> restricted_from g v"
    unfolding dfs_spec_def by (metis diff_le_self)
  have "vertexes ?p \<noteq> [] \<longleftrightarrow> ?own" "rootVertex ?p = v" by (auto simp: AddVertex_def NewPath_def)
  moreover have "length (scc g) = length (condensedGraph g)" using assms(1) by (simp add: increasing_def)
  ultimately show ?thesis
    using r assms(2) by (auto simp: find_path_def Let_def search_result_def extends_def Path_Len_def restricted_def)
qed

lemma condensation_increasing: "condensation_ok g \<Longrightarrow> increasing g"
proof -
  assume ok: "condensation_ok g"
  then have "length (condensedGraph g) = sscCount g" "length (scc g) = sscCount g"
    by (simp_all add: condensation_ok_def condensed_ok_def)
  with condensed_increasing [OF ok] show ?thesis unfolding increasing_def by simp
qed

lemma find_paths_ok:
  assumes g: "increasing g"
  shows "set vs \<subseteq> {..<length (condensedGraph g)} \<Longrightarrow>
    \<exists>paths'. foldR (\<lambda>v paths. bindR (find_path g v)
        (\<lambda>p. Inr (if Path_Len p > 0 then paths(v \<mapsto> p) else paths))) vs paths = Inr paths' \<and>
      (\<forall>v. paths' v \<noteq> None \<longleftrightarrow> paths v \<noteq> None \<or> v \<in> set vs \<and> restricted g v) \<and>
      (\<forall>v p. paths' v = Some p \<longrightarrow> paths v = Some p \<or> path_ok p \<and> rootVertex p = v)"
proof (induction vs arbitrary: paths)
  case Nil
  then show ?case by simp
next
  case (Cons v vs)
  then obtain p where p: "find_path g v = Inr p" "path_ok p" "rootVertex p = v" "Path_Len p > 0 \<longleftrightarrow> restricted g v"
    using find_path_ok [OF g, of v] by auto
  let ?paths = "if Path_Len p > 0 then paths(v \<mapsto> p) else paths"
  from Cons.IH [of ?paths] Cons.prems obtain paths' where ih:
    "foldR (\<lambda>v paths. bindR (find_path g v)
        (\<lambda>p. Inr (if Path_Len p > 0 then paths(v \<mapsto> p) else paths))) vs ?paths = Inr paths'"
    "\<forall>v. paths' v \<noteq> None \<longleftrightarrow> ?paths v \<noteq> None \<or> v \<in> set vs \<and> restricted g v"
    "\<forall>v p. paths' v = Some p \<longrightarrow> ?paths v = Some p \<or> path_ok p \<and> rootVertex p = v" by auto
  have "\<forall>w. paths' w \<noteq> None \<longleftrightarrow> paths w \<noteq> None \<or> w \<in> set (v # vs) \<and> restricted g w"
  proof
    fix w
    have "paths' w \<noteq> None \<longleftrightarrow> ?paths w \<noteq> None \<or> w \<in> set vs \<and> restricted g w" using ih(2) by blast
    with p(4) show "paths' w \<noteq> None \<longleftrightarrow> paths w \<noteq> None \<or> w \<in> set (v # vs) \<and> restricted g w" by auto
  qed
  moreover have "\<forall>w q. paths' w = Some q \<longrightarrow> paths w = Some q \<or> path_ok q \<and> rootVertex q = w"
  proof (intro allI impI)
    fix w q assume "paths' w = Some q"
    with ih(3) have "?paths w = Some q \<or> path_ok q \<and> rootVertex q = w" by blast
    with p(2,3) show "paths w = Some q \<or> path_ok q \<and> rootVertex q = w" by (auto split: if_splits)
  qed
  ultimately show ?case using ih(1) p(1) by simp
qed

lemma findSubsetVertexes_facts:
  assumes "condensation_ok g"
  shows "\<exists>paths. findSubsetVertexes g = Inr paths \<and>
    (\<forall>v. paths v \<noteq> None \<longleftrightarrow> v < sscCount g \<and> restricted g v) \<and>
    (\<forall>v p. paths v = Some p \<longrightarrow> path_ok p \<and> rootVertex p = v)"
proof -
  have l: "length (condensedGraph g) = sscCount g"
    using assms by (simp add: condensation_ok_def condensed_ok_def)
  have "set [0..<length (condensedGraph g)] \<subseteq> {..<length (condensedGraph g)}" by auto
  from find_paths_ok [OF condensation_increasing [OF assms] this, of Map.empty]
  show ?thesis unfolding findSubsetVertexes_def by (simp add: l)
qed

text \<open>
  Claim C7. In a graph that \<^verbatim>\<open>NewGraph\<close> returns, the search for subset paths ends without a panic. It has a
  path exactly for the components that are restricted or refer to restricted ones, and in every scope of a
  path the tables can be joined in order, each once, on tables that are there.
\<close>

theorem findSubsetVertexes_paths:
  assumes "condensation_ok g"
  shows "\<exists>paths. findSubsetVertexes g = Inr paths \<and>
    (\<forall>v. paths v \<noteq> None \<longleftrightarrow> v < sscCount g \<and> restricted g v) \<and>
    (\<forall>v p. paths v = Some p \<longrightarrow> path_ok p \<and> rootVertex p = v)"
  by (rule findSubsetVertexes_facts [OF assms])

theorem findSubsetVertexes_paths_witness:
  "\<exists>g paths. NewGraph sample_refs sample_tables [] = Inr g \<and> findSubsetVertexes g = Inr paths"
  using NewGraph_ok [OF sample_refs_ok, of "[]"] findSubsetVertexes_paths by blast

end
