(* ===== verification/SubsetScopes.thy ===== *)
theory SubsetScopes
  imports SubsetPathProps
begin

text \<open>
  What the SQL generator relies on in a path: every edge of a path is an edge of the condensed graph that leads
  to a restriction, and only the root scope and the scopes that enter a component with cycles have nested
  scopes. The locale turns a property that \<^verbatim>\<open>AddEdge\<close> keeps into one of every path the search returns.
\<close>

section \<open>Invariants of the search\<close>

definition graph_edge :: "Graph \<Rightarrow> CondensedEdge \<Rightarrow> bool" where
  "graph_edge g e \<longleftrightarrow> from_comp e < length (condensedGraph g) \<and> e \<in> set (condensedGraph g ! from_comp e)"

definition leads :: "Graph \<Rightarrow> CondensedEdge \<Rightarrow> bool" where
  "leads g e \<longleftrightarrow> restricting g e \<or> restricted_from g (to_comp e)"

lemma chain_leads:
  "edge_chain u es v \<Longrightarrow> \<forall>e \<in> set es. graph_edge g e \<Longrightarrow> restricted_from g v \<Longrightarrow> \<forall>e \<in> set es. leads g e"
proof (induction es arbitrary: v rule: rev_induct)
  case Nil
  then show ?case by simp
next
  case (snoc e es)
  then have e: "edge_chain u es (from_comp e)" "to_comp e = v" "graph_edge g e" by (auto simp: edge_chain_snoc)
  then have "restricted_from g (from_comp e)" using snoc.prems(3) by (auto simp: graph_edge_def intro: rf_step)
  with snoc.IH [OF e(1)] snoc.prems e show ?case by (auto simp: leads_def)
qed

locale path_invariant =
  fixes I :: "Graph \<Rightarrow> Path \<Rightarrow> bool"
  assumes new: "I g (NewPath v)"
    and vertex: "I g p \<Longrightarrow> I g (AddVertex v p)"
    and edge: "increasing g \<Longrightarrow> path_ok p \<Longrightarrow> I g p \<Longrightarrow> s \<le> scopeIdSequence p \<Longrightarrow> home p s (from_comp e) \<Longrightarrow>
      graph_edge g e \<Longrightarrow> leads g e \<Longrightarrow> AddEdge e s p = Inr (p', s') \<Longrightarrow> I g p'"
begin

lemma add_edges_keeps:
  "increasing g \<Longrightarrow> edge_chain u es v \<Longrightarrow> path_ok p \<Longrightarrow> s \<le> scopeIdSequence p \<Longrightarrow> home p s u \<Longrightarrow> I g p \<Longrightarrow>
   \<forall>e \<in> set es. graph_edge g e \<and> leads g e \<Longrightarrow> add_edges es (p, s) = Inr (p', s') \<Longrightarrow> I g p'"
proof (induction es arbitrary: u p s)
  case Nil
  then show ?case by simp
next
  case (Cons e es)
  then have h: "home p s (from_comp e)" by simp
  from AddEdge_ok [OF Cons.prems(3,4) this] obtain p1 s1 where 1: "AddEdge e s p = Inr (p1, s1)" "path_ok p1"
    "s1 \<le> scopeIdSequence p1" "vertexScopes p1 (to_comp e) \<noteq> None"
    by blast
  have "I g p1" by (rule edge [OF Cons.prems(1,3,6,4) h _ _ 1(1)]) (use Cons.prems(7) in auto)
  moreover have "home p1 s1 (to_comp e)" using 1(4) by (simp add: home_def)
  ultimately show ?case
    using Cons.IH [of "to_comp e" p1 s1] Cons.prems 1 by simp
qed

definition keeps :: "nat \<Rightarrow> Graph \<Rightarrow> bool" where
  "keeps n g \<longleftrightarrow> (\<forall>v fullFrom s p es p' es'. v < length (condensedGraph g) \<longrightarrow> length (condensedGraph g) - v \<le> n \<longrightarrow>
     search_state v s p es \<longrightarrow> (\<forall>e \<in> set es. graph_edge g e) \<longrightarrow> I g p \<longrightarrow>
     subsetDfs n g v fullFrom s (p, es) = Inr (p', es') \<longrightarrow> I g p')"

lemma search_edge_keeps:
  assumes g: "increasing g" and ih: "keeps n g" and v: "v < length (condensedGraph g)"
    and n: "length (condensedGraph g) - v \<le> Suc n" and e: "to \<in> set (condensedGraph g ! v)"
    and st: "search_state v s p es" and es: "\<forall>e \<in> set es. graph_edge g e" and I: "I g p"
    and r: "search_edge n g fullFrom s to (p, es) = Inr (p', es')"
  shows "I g p'"
proof -
  have te: "from_comp to = v" "v < to_comp to" "to_comp to < length (condensedGraph g)"
    "to_comp to < length (scc g)"
    using g v e by (auto simp: increasing_def)
  then have fuel: "length (condensedGraph g) - to_comp to \<le> n" using n by simp
  have to: "graph_edge g to" using v e te(1) by (simp add: graph_edge_def)
  obtain u where u: "edge_chain u es v" "home p s u" and p: "path_ok p" "s \<le> scopeIdSequence p"
    using st by (auto simp: search_state_def)
  have chain: "edge_chain u (es @ [to]) (to_comp to)" using u(1) te(1) by (simp add: edge_chain_snoc)
  show ?thesis
  proof (cases "restricting g to")
    case True
    from add_edges_ok [OF chain p u(2)] obtain p1 s1 where 1: "add_edges (es @ [to]) (p, s) = Inr (p1, s1)"
      "path_ok p1" "s1 \<le> scopeIdSequence p1" "\<forall>e \<in> set (es @ [to]). vertexScopes p1 (to_comp e) \<noteq> None"
      by auto
    have "restricted_from g v" using v e True by (rule rf_here)
    with chain_leads [OF u(1) es] True have "\<forall>e \<in> set (es @ [to]). leads g e" by (simp add: leads_def)
    with es to have "I g p1" using add_edges_keeps [OF g chain p u(2) I _ 1(1)] by simp
    moreover have "search_state (to_comp to) s1 p1 []" using 1 by (simp add: search_state_def home_def)
    moreover obtain es2 where "subsetDfs n g (to_comp to) (fullFrom @ [to]) s1 (p1, []) = Inr (p', es2)"
      using r True te(4) 1(1) by (auto simp: search_edge_def restricting_def bindR_eq_Inr)
    ultimately show ?thesis using ih te(3) fuel unfolding keeps_def by fastforce
  next
    case False
    have "search_state (to_comp to) s p (es @ [to])" using chain p u(2) by (auto simp: search_state_def)
    moreover obtain es2 where "subsetDfs n g (to_comp to) (fullFrom @ [to]) s (p, es @ [to]) = Inr (p', es2)"
      using r False te(4) by (auto simp: search_edge_def restricting_def bindR_eq_Inr)
    moreover have "\<forall>e \<in> set (es @ [to]). graph_edge g e" using es to by simp
    ultimately show ?thesis using ih te(3) fuel I unfolding keeps_def by blast
  qed
qed

lemma search_loop_keeps:
  assumes g: "increasing g" and ih: "keeps n g" and v: "v < length (condensedGraph g)"
    and n: "length (condensedGraph g) - v \<le> Suc n"
  shows "set tos \<subseteq> set (condensedGraph g ! v) \<Longrightarrow> search_state v s p es \<Longrightarrow> \<forall>e \<in> set es. graph_edge g e \<Longrightarrow>
    I g p \<Longrightarrow> foldR (search_edge n g fullFrom s) tos (p, es) = Inr (p', es') \<Longrightarrow> I g p'"
proof (induction tos arbitrary: p es)
  case Nil
  then show ?case by simp
next
  case (Cons to tos)
  then have e: "to \<in> set (condensedGraph g ! v)" by simp
  from search_edge_ok [OF g dfs_spec_all [OF g] v n e Cons.prems(2)] obtain p1 es1
    where 1: "search_edge n g fullFrom s to (p, es) = Inr (p1, es1)" "search_result s p es p1 es1"
    by blast
  have "I g p1" by (rule search_edge_keeps [OF g ih v n e Cons.prems(2,3,4) 1(1)])
  moreover have "\<forall>e \<in> set es1. graph_edge g e" using 1(2) Cons.prems(3) by (auto simp: search_result_def)
  ultimately show ?case
    using Cons.IH [OF _ search_state_result [OF Cons.prems(2) 1(2)]] Cons.prems(1,5) 1(1) by simp
qed

lemma keeps_all: "increasing g \<Longrightarrow> keeps n g"
proof (induction n)
  case 0
  then show ?case by (simp add: keeps_def)
next
  case (Suc n)
  then have ih: "keeps n g" by blast
  show ?case unfolding keeps_def
  proof (intro allI impI)
    fix v fullFrom s p es p' es'
    assume v: "v < length (condensedGraph g)" and n: "length (condensedGraph g) - v \<le> Suc n"
      and st: "search_state v s p es" and es: "\<forall>e \<in> set es. graph_edge g e" and I: "I g p"
      and r: "subsetDfs (Suc n) g v fullFrom s (p, es) = Inr (p', es')"
    show "I g p'"
      by (rule search_loop_keeps [OF Suc.prems ih v n subset_refl st es I r [unfolded subsetDfs_step [OF v]]])
  qed
qed

lemma find_path_keeps:
  assumes g: "increasing g" and v: "v < length (condensedGraph g)" and r: "find_path g v = Inr p"
  shows "I g p"
proof -
  let ?p = "if length (getSubsetConds (scc g ! v)) > 0 \<or> component_hasPolymorphicExpressions (scc g ! v)
    then AddVertex v (NewPath v) else NewPath v"
  have st: "search_state v rootScopeId ?p []"
    by (auto simp: search_state_def home_def NewPath_ok AddVertex_ok) (auto simp: NewPath_def AddVertex_def rootScopeId_def)
  have I: "I g ?p" by (simp add: new vertex)
  have "v < length (scc g)" using g v by (simp add: increasing_def)
  then obtain es where es: "subsetDfs (length (condensedGraph g)) g v [] rootScopeId (?p, []) = Inr (p, es)"
    using r by (auto simp: find_path_def Let_def bindR_eq_Inr split: if_splits)
  have k: "keeps (length (condensedGraph g)) g" using keeps_all [OF g] .
  have fuel: "length (condensedGraph g) - v \<le> length (condensedGraph g)" by simp
  have none: "\<forall>e \<in> set []. graph_edge g e" by simp
  from k [unfolded keeps_def, rule_format, OF v fuel st _ I es] show ?thesis by simp
qed

text \<open>Every path that the search returns has the property.\<close>

lemma paths_have:
  assumes g: "increasing g" and r: "findSubsetVertexes g = Inr paths" and p: "paths v = Some p"
  shows "I g p"
proof -
  have "\<forall>v p. paths v = Some p \<longrightarrow> I g p"
    by (rule foldR_invariant [OF r [unfolded findSubsetVertexes_def],
          where P = "\<lambda>paths. \<forall>v p. paths v = Some p \<longrightarrow> I g p"])
       (auto simp: bindR_eq_Inr split: if_splits intro: find_path_keeps [OF g])
  with p show ?thesis by blast
qed

end

section \<open>Scopes that have nested scopes\<close>

abbreviation scope_edges :: "Path \<Rightarrow> nat \<Rightarrow> CondensedEdge list" where
  "scope_edges p s \<equiv> get_list (scopeEdges p) s"

abbreviation nested :: "Path \<Rightarrow> nat \<Rightarrow> ScopeEdge list" where
  "nested p s \<equiv> get_list (scopeGraph p) s"

text \<open>The scopes that edges are attached to.\<close>

definition open_scope :: "Path \<Rightarrow> nat \<Rightarrow> bool" where
  "open_scope p s \<longleftrightarrow> s = rootScopeId \<or> (\<exists>parent. \<exists>se \<in> set (nested p parent). se_scopeId se = s \<and>
     hasCycle (cl_component (cond_to (originalCondensedEdge se))))"

definition placed :: "Path \<Rightarrow> nat \<Rightarrow> bool" where
  "placed p v \<longleftrightarrow> v = rootVertex p \<or> vertexScopes p v \<noteq> None"

definition scopes_ok :: "Graph \<Rightarrow> Path \<Rightarrow> bool" where
  "scopes_ok g p \<longleftrightarrow>
     (\<forall>s. \<forall>e \<in> set (scope_edges p s). rootVertex p < to_comp e \<and> placed p (from_comp e) \<and> placed p (to_comp e) \<and>
        graph_edge g e \<and> leads g e) \<and>
     (\<forall>v s. vertexScopes p v = Some s \<longrightarrow> open_scope p s) \<and>
     (\<forall>s. nested p s \<noteq> [] \<longrightarrow> open_scope p s \<and> scopeEdges p s \<noteq> None)"

text \<open>What \<^verbatim>\<open>AddEdge\<close> changes, as far as scopes are concerned.\<close>

definition edge_added :: "Path \<Rightarrow> CondensedEdge \<Rightarrow> nat \<Rightarrow> nat \<Rightarrow> Path \<Rightarrow> bool" where
  "edge_added p e s s' p' \<longleftrightarrow> rootVertex p' = rootVertex p \<and>
     vertexScopes p' = (if vertexScopes p (to_comp e) = None then (vertexScopes p)(to_comp e \<mapsto> s') else vertexScopes p) \<and>
     scopeEdges p' s \<noteq> None \<and> (\<forall>t. scopeEdges p t \<noteq> None \<longrightarrow> scopeEdges p' t \<noteq> None) \<and>
     (s' = s \<and> \<not> vertexIsInScope (scope_edges p s) e \<and>
        (\<forall>t. scope_edges p' t = (if t = s then scope_edges p s @ [e] else scope_edges p t) \<and>
             nested p' t = (if scopeEdges p s = None \<and> t = s then [] else nested p t))
      \<or> s' = Suc (scopeIdSequence p) \<and> (hasCycle (cl_component (cond_to e)) \<or> vertexIsInScope (scope_edges p s) e) \<and>
        (\<exists>se. se_scopeId se = s' \<and> originalCondensedEdge se = e \<and>
        (\<forall>t. scope_edges p' t = (if t = s' then [e] else scope_edges p t) \<and>
             nested p' t = (if t = s then (if scopeEdges p s = None then [] else nested p s) @ [se]
                            else if t = s' then [] else nested p t))))"

lemma AddEdge_effect:
  assumes r: "AddEdge e scopeId p = Inr (p', s')"
    and s: "s = (case vertexScopes p (from_comp e) of None \<Rightarrow> scopeId | Some s \<Rightarrow> s)" "s \<le> scopeIdSequence p"
  shows "edge_added p e s s' p'"
proof -
  obtain p1 where p1: "p1 = (if length (vertexes (addEdgeToGraph e p)) = 0
      then AddVertex (from_comp e) (addEdgeToGraph e p) else addEdgeToGraph e p)" by blast
  have f: "rootVertex p1 = rootVertex p" "vertexScopes p1 = vertexScopes p" "scopeEdges p1 = scopeEdges p"
    "scopeGraph p1 = scopeGraph p" "scopeIdSequence p1 = scopeIdSequence p"
    unfolding p1 by (auto simp: AddVertex_def)
  obtain q where qd: "q = createScopeIfNotExist s p1" by blast
  have q: "rootVertex q = rootVertex p" "vertexScopes q = vertexScopes p" "scopeIdSequence q = scopeIdSequence p"
    "scopeEdges q = (if scopeEdges p s = None then (scopeEdges p)(s \<mapsto> []) else scopeEdges p)"
    "scopeGraph q = (if scopeEdges p s = None then (scopeGraph p)(s \<mapsto> []) else scopeGraph p)"
    unfolding qd createScopeIfNotExist_def using f by simp_all
  have se: "scope_edges q t = scope_edges p t" for t
    using q(4) by (auto simp: get_list_def)
  have r': "addEdge e scopeId p1 = Inr (p', s')" using r by (simp only: AddEdge_def Let_def p1)
  obtain p2 where c: "(if hasCycle (cl_component (cond_to e)) \<or> vertexIsInScope (scope_edges q s) e
      then createScopeWithParent s e q else Inr (joinScope s e q, s)) = Inr (p2, s')"
    and last: "p' = p2\<lparr>vertexScopes := (if vertexScopes p2 (to_comp e) = None
                                    then (vertexScopes p2)(to_comp e \<mapsto> s') else vertexScopes p2),
                    path_edges := path_edges p2 @ [e], vertexes := vertexes p2 @ [to_comp e]\<rparr>"
  proof -
    have "\<not> scopeId > scopeIdSequence p1" using r' by (auto simp: addEdge_def)
    then have "\<exists>a. (if hasCycle (cl_component (cond_to e)) \<or> vertexIsInScope (scope_edges q s) e
      then createScopeWithParent s e q else Inr (joinScope s e q, s)) = Inr a \<and>
      (\<lambda>(p2, s2). Inr
                (p2\<lparr>vertexScopes := (if vertexScopes p2 (to_comp e) = None
                                    then (vertexScopes p2)(to_comp e \<mapsto> s2) else vertexScopes p2),
                    path_edges := path_edges p2 @ [e],
                    vertexes := vertexes p2 @ [to_comp e]\<rparr>, s2)) a = (Inr (p', s') :: (Path \<times> nat) res)"
      using r' unfolding addEdge_def Let_def f(2) s(1) [symmetric] qd [symmetric] bindR_eq_Inr [symmetric]
      by (simp only: if_False)
    then obtain a where a: "(if hasCycle (cl_component (cond_to e)) \<or> vertexIsInScope (scope_edges q s) e
      then createScopeWithParent s e q else Inr (joinScope s e q, s)) = Inr a"
      "(\<lambda>(p2, s2). Inr
                (p2\<lparr>vertexScopes := (if vertexScopes p2 (to_comp e) = None
                                    then (vertexScopes p2)(to_comp e \<mapsto> s2) else vertexScopes p2),
                    path_edges := path_edges p2 @ [e],
                    vertexes := vertexes p2 @ [to_comp e]\<rparr>, s2)) a = (Inr (p', s') :: (Path \<times> nat) res)"
      by (elim exE conjE)
    obtain p2 s2 where p2: "a = (p2, s2)" by (cases a)
    then have "s2 = s'" using a(2) by simp
    show ?thesis by (rule that [of p2]) (use a p2 \<open>s2 = s'\<close> in \<open>simp_all only: prod.case prod.inject sum.inject\<close>)
  qed
  have p': "rootVertex p' = rootVertex p2" "scopeEdges p' = scopeEdges p2" "scopeGraph p' = scopeGraph p2"
      "vertexScopes p' = (if vertexScopes p2 (to_comp e) = None then (vertexScopes p2)(to_comp e \<mapsto> s') else vertexScopes p2)"
    unfolding last by simp_all
  show ?thesis
  proof (cases "hasCycle (cl_component (cond_to e)) \<or> vertexIsInScope (scope_edges p s) e")
    case True
    then have cr: "createScopeWithParent s e q = Inr (p2, s')" using c by (simp add: se)
    have f2: "s' = Suc (scopeIdSequence p)" "rootVertex p2 = rootVertex p" "vertexScopes p2 = vertexScopes p"
      "scopeEdges p2 = (scopeEdges q)(s' \<mapsto> [e])"
      "\<exists>b. scopeGraph p2 = ((scopeGraph q)(s' \<mapsto> []))(s \<mapsto> get_list ((scopeGraph q)(s' \<mapsto> [])) s @
        [\<lparr>se_scopeId = s', originalCondensedEdge = e, se_isNullable = b\<rparr>])"
      using cr unfolding createScopeWithParent_def Let_def by (auto simp: q split: if_splits)
    then obtain se where se': "se_scopeId se = s'" "originalCondensedEdge se = e"
      "scopeGraph p2 = ((scopeGraph q)(s' \<mapsto> []))(s \<mapsto> get_list ((scopeGraph q)(s' \<mapsto> [])) s @ [se])"
      by (elim exE) (rule that, auto)
    have n: "nested p' t = (if t = s then (if scopeEdges p s = None then [] else nested p s) @ [se]
                            else if t = s' then [] else nested p t)" for t
      using s(2) f2(1) by (auto simp: p' se'(3) q get_list_def)
    have m: "scope_edges p' t = (if t = s' then [e] else scope_edges p t)" for t
      by (auto simp: p' f2(4) q get_list_def)
    have k: "scopeEdges p' s \<noteq> None" "scopeEdges p t \<noteq> None \<Longrightarrow> scopeEdges p' t \<noteq> None" for t
      by (auto simp: p' f2(4) q)
    have "\<exists>se. se_scopeId se = s' \<and> originalCondensedEdge se = e \<and>
        (\<forall>t. scope_edges p' t = (if t = s' then [e] else scope_edges p t) \<and>
             nested p' t = (if t = s then (if scopeEdges p s = None then [] else nested p s) @ [se]
                            else if t = s' then [] else nested p t))"
      using se'(1,2) n m by blast
    moreover have "rootVertex p' = rootVertex p" "vertexScopes p' =
        (if vertexScopes p (to_comp e) = None then (vertexScopes p)(to_comp e \<mapsto> s') else vertexScopes p)"
      using p'(1,4) f2(2,3) by simp_all
    ultimately show ?thesis unfolding edge_added_def using True f2(1) k by blast
  next
    case False
    then have "p2 = joinScope s e q" "s' = s" using c by (auto simp add: se)
    then have f2: "rootVertex p2 = rootVertex p" "vertexScopes p2 = vertexScopes p" "scopeGraph p2 = scopeGraph q"
      "scopeEdges p2 = (scopeEdges q)(s \<mapsto> scope_edges q s @ [e])"
      by (simp_all add: joinScope_def Let_def q(1,2))
    have "scope_edges p' t = (if t = s then scope_edges p s @ [e] else scope_edges p t) \<and>
        nested p' t = (if scopeEdges p s = None \<and> t = s then [] else nested p t)" for t
      using se [of t] se [of s] by (auto simp: p' f2 q(5) get_list_def)
    moreover have "scopeEdges p' s \<noteq> None" "scopeEdges p t \<noteq> None \<Longrightarrow> scopeEdges p' t \<noteq> None" for t
      by (auto simp: p' f2 q(4))
    moreover have "rootVertex p' = rootVertex p" "vertexScopes p' =
        (if vertexScopes p (to_comp e) = None then (vertexScopes p)(to_comp e \<mapsto> s') else vertexScopes p)"
      using p'(1,4) f2(1,2) by simp_all
    ultimately show ?thesis unfolding edge_added_def using False \<open>s' = s\<close> by blast
  qed
qed

lemma edge_added_at:
  assumes "edge_added p e s s' p'"
  shows "set (scope_edges p' t) \<subseteq> insert e (set (scope_edges p t))"
    and "nested p' t \<noteq> [] \<Longrightarrow> t = s \<or> nested p t \<noteq> []"
    and "x \<in> set (nested p t) \<Longrightarrow> t \<le> scopeIdSequence p \<Longrightarrow> scopeEdges p t \<noteq> None \<Longrightarrow> x \<in> set (nested p' t)"
proof -
  note a = assms [unfolded edge_added_def]
  then consider "s' = s" "scope_edges p' t = (if t = s then scope_edges p s @ [e] else scope_edges p t)"
      "nested p' t = (if scopeEdges p s = None \<and> t = s then [] else nested p t)"
    | se where "s' = Suc (scopeIdSequence p)" "scope_edges p' t = (if t = s' then [e] else scope_edges p t)"
      "nested p' t = (if t = s then (if scopeEdges p s = None then [] else nested p s) @ [se]
                      else if t = s' then [] else nested p t)"
    by blast
  then have "set (scope_edges p' t) \<subseteq> insert e (set (scope_edges p t)) \<and>
    (nested p' t \<noteq> [] \<longrightarrow> t = s \<or> nested p t \<noteq> []) \<and>
    (x \<in> set (nested p t) \<longrightarrow> t \<le> scopeIdSequence p \<longrightarrow> scopeEdges p t \<noteq> None \<longrightarrow> x \<in> set (nested p' t))"
    by cases (auto split: if_splits)
  then show "set (scope_edges p' t) \<subseteq> insert e (set (scope_edges p t))"
    "nested p' t \<noteq> [] \<Longrightarrow> t = s \<or> nested p t \<noteq> []"
    "x \<in> set (nested p t) \<Longrightarrow> t \<le> scopeIdSequence p \<Longrightarrow> scopeEdges p t \<noteq> None \<Longrightarrow> x \<in> set (nested p' t)"
    by blast+
qed

lemma placed_mono: "placed p v \<Longrightarrow> edge_added p e s s' p' \<Longrightarrow> placed p' v"
  by (auto simp: placed_def edge_added_def)

lemma open_scope_mono:
  assumes "open_scope p t" and a: "edge_added p e s s' p'" and ok: "scopes_ok g p" and ok': "path_ok p"
  shows "open_scope p' t"
  using assms(1) unfolding open_scope_def
proof (elim disjE exE bexE conjE)
  assume "t = rootScopeId"
  then show "t = rootScopeId \<or> (\<exists>parent. \<exists>se \<in> set (nested p' parent). se_scopeId se = t \<and>
     hasCycle (cl_component (cond_to (originalCondensedEdge se))))" by simp
next
  fix parent se
  assume se: "se \<in> set (nested p parent)" "se_scopeId se = t" "hasCycle (cl_component (cond_to (originalCondensedEdge se)))"
  have exists: "scopeEdges p parent \<noteq> None" using ok se(1) unfolding scopes_ok_def by (metis empty_iff empty_set)
  have "parent \<le> scopeIdSequence p" using ok' exists unfolding path_ok_def by blast
  with exists se(1) have "se \<in> set (nested p' parent)" by (intro edge_added_at(3) [OF a])
  with se show "t = rootScopeId \<or> (\<exists>parent. \<exists>se \<in> set (nested p' parent). se_scopeId se = t \<and>
     hasCycle (cl_component (cond_to (originalCondensedEdge se))))" by blast
qed

lemma placed_above_root:
  assumes "scopes_ok g p" "path_ok p" and "vertexScopes p v = Some s"
  shows "rootVertex p \<le> v"
proof -
  have "v \<in> avail p s" using assms unfolding path_ok_def by blast
  then consider "v = rootVertex p" | e where "e \<in> set (scope_edges p s)" "to_comp e = v"
    by (auto simp: avail_def scope_root_def split: if_splits)
  then show ?thesis using assms(1) unfolding scopes_ok_def by cases force+
qed

text \<open>The scope an edge is attached to is open, and stays the only new parent.\<close>

lemma edge_added_ok:
  assumes g: "increasing g" and p: "path_ok p" and I: "scopes_ok g p" and open_s: "open_scope p s"
    and src: "placed p (from_comp e)" and e: "graph_edge g e" "leads g e" and a: "edge_added p e s s' p'"
    and sle: "s \<le> scopeIdSequence p"
  shows "scopes_ok g p'"
proof -
  have root: "rootVertex p' = rootVertex p" using a by (simp add: edge_added_def)
  have step: "from_comp e < to_comp e" using g e(1) by (auto simp: increasing_def graph_edge_def)
  have above: "rootVertex p < to_comp e"
  proof -
    have "rootVertex p \<le> from_comp e"
      using src placed_above_root [OF I p] by (auto simp: placed_def)
    with step show ?thesis by simp
  qed
  have to: "placed p' (to_comp e)" using a by (auto simp: placed_def edge_added_def)
  have edges: "e' = e \<or> e' \<in> set (scope_edges p t)" if "e' \<in> set (scope_edges p' t)" for e' t
    using edge_added_at(1) [OF a, of t] that by blast
  have opens: "open_scope p' t" if "open_scope p t" for t by (rule open_scope_mono [OF that a I p])
  have fresh: "open_scope p' s'" if none: "vertexScopes p (to_comp e) = None"
  proof (cases "s' = s")
    case True
    with opens [OF open_s] show ?thesis by simp
  next
    case False
    with a obtain se where se: "se_scopeId se = s'" "originalCondensedEdge se = e" "se \<in> set (nested p' s)"
      "hasCycle (cl_component (cond_to e)) \<or> vertexIsInScope (scope_edges p s) e"
      unfolding edge_added_def by auto
    have "\<not> vertexIsInScope (scope_edges p s) e"
    proof
      assume "vertexIsInScope (scope_edges p s) e"
      then obtain x where "x \<in> set (scope_edges p s)" "from_comp x = to_comp e \<or> to_comp x = to_comp e"
        by (auto simp: vertexIsInScope_def list_ex_iff)
      then have "placed p (to_comp e)" using I unfolding scopes_ok_def by metis
      with none above show False by (simp add: placed_def)
    qed
    with se show ?thesis unfolding open_scope_def by blast
  qed
  have nest: "t = s \<or> nested p t \<noteq> []" if "nested p' t \<noteq> []" for t
    by (rule edge_added_at(2) [OF a that])
  have some: "scopeEdges p' s \<noteq> None" "scopeEdges p t \<noteq> None \<Longrightarrow> scopeEdges p' t \<noteq> None" for t
    using a unfolding edge_added_def by auto
  show ?thesis unfolding scopes_ok_def
  proof (intro conjI allI ballI impI)
    fix t e'
    assume "e' \<in> set (scope_edges p' t)"
    from edges [OF this] have "e' = e \<or> rootVertex p < to_comp e' \<and> placed p (from_comp e') \<and> placed p (to_comp e') \<and>
        graph_edge g e' \<and> leads g e'"
      using I unfolding scopes_ok_def by blast
    then show "rootVertex p' < to_comp e'" "placed p' (from_comp e')" "placed p' (to_comp e')"
      "graph_edge g e'" "leads g e'"
      using above root e to placed_mono [OF _ a] src by auto
  next
    fix v t
    assume vt: "vertexScopes p' v = Some t"
    show "open_scope p' t"
    proof (cases "vertexScopes p v = Some t")
      case True
      then have "open_scope p t" using I unfolding scopes_ok_def by blast
      then show ?thesis by (rule opens)
    next
      case False
      with a vt have "vertexScopes p (to_comp e) = None" "t = s'"
        unfolding edge_added_def by (auto split: if_splits)
      with fresh show ?thesis by simp
    qed
  next
    fix t
    assume "nested p' t \<noteq> []"
    from nest [OF this] have "open_scope p t \<and> (t = s \<or> scopeEdges p t \<noteq> None)"
      using I open_s unfolding scopes_ok_def by blast
    then show "open_scope p' t" "scopeEdges p' t \<noteq> None" using opens some by auto
  qed
qed

lemma AddEdge_scopes_ok:
  assumes g: "increasing g" and p: "path_ok p" and I: "scopes_ok g p" and s: "scopeId \<le> scopeIdSequence p"
    and h: "home p scopeId (from_comp e)" and e: "graph_edge g e" "leads g e" and r: "AddEdge e scopeId p = Inr (p', s')"
  shows "scopes_ok g p'"
proof -
  let ?s = "case vertexScopes p (from_comp e) of None \<Rightarrow> scopeId | Some s \<Rightarrow> s"
  have le: "?s \<le> scopeIdSequence p" using p s unfolding path_ok_def by (auto split: option.splits)
  have "open_scope p ?s"
  proof (cases "vertexScopes p (from_comp e)")
    case None
    then have "scopeId = rootScopeId" using h by (simp add: home_def)
    with None show ?thesis by (simp add: open_scope_def)
  next
    case (Some t)
    then have "open_scope p t" using I unfolding scopes_ok_def by blast
    with Some show ?thesis by simp
  qed
  moreover have "placed p (from_comp e)" using h by (auto simp: home_def placed_def)
  ultimately show ?thesis
    by (rule edge_added_ok [OF g p I _ _ e AddEdge_effect [OF r refl le] le])
qed

interpretation scopes: path_invariant scopes_ok
proof unfold_locales
  fix g v
  show "scopes_ok g (NewPath v)" by (simp add: scopes_ok_def NewPath_def get_list_def)
next
  fix g p v
  assume "scopes_ok g p"
  then show "scopes_ok g (AddVertex v p)"
    by (simp add: scopes_ok_def AddVertex_def placed_def open_scope_def)
qed (rule AddEdge_scopes_ok)

text \<open>A scope that enters a component without cycles has only its first edge and nothing below it.\<close>

lemma closed_scope:
  assumes I: "scopes_ok g p" and p: "path_ok p" and se: "se \<in> set (nested p s)"
    and acyclic: "\<not> hasCycle (cl_component (cond_to (originalCondensedEdge se)))"
  shows "nested p (se_scopeId se) = []"
proof (rule ccontr)
  have head: "\<exists>es. scopeEdges p (se_scopeId x) = Some (originalCondensedEdge x # es)" "t < se_scopeId x"
    if "x \<in> set (nested p t)" for x t
    using p that unfolding path_ok_def by blast+
  assume "nested p (se_scopeId se) \<noteq> []"
  then have "open_scope p (se_scopeId se)" using I unfolding scopes_ok_def by blast
  then obtain t x where x: "x \<in> set (nested p t)" "se_scopeId x = se_scopeId se"
    "hasCycle (cl_component (cond_to (originalCondensedEdge x)))"
    using head(2) [OF se] by (auto simp: open_scope_def rootScopeId_def)
  with head(1) [OF se] head(1) [OF x(1)] have "originalCondensedEdge x = originalCondensedEdge se" by auto
  with x(3) acyclic show False by simp
qed

end
