(* ===== verification/SubsetSqlProps.thy ===== *)
theory SubsetSqlProps
  imports SubsetQueries SubsetScopes
begin

text \<open>
  Properties of the clauses, the names and the rotations of cycles, and that the text of a query is produced
  without a panic when the keys of every reference match.
\<close>

section \<open>Names\<close>

text \<open>
  A generated name fits the identifier limit of PostgreSQL: a name of up to 63 bytes is kept, a longer
  one is cut to 63 bytes and keeps its first 53 bytes.
\<close>

lemma shortenIdentifier_bounds:
  "length (shortenIdentifier name) = min (length name) 63 \<and>
   take 53 (shortenIdentifier name) = take 53 name \<and>
   shortenIdentifier (shortenIdentifier name) = shortenIdentifier name"
  by (auto simp: shortenIdentifier_def maxIdentifierLength_def Let_def hex8_def min_def)

section \<open>WHERE\<close>

lemma set_unseen: "set (unseen seen xs) = set xs - set seen"
  by (induction seen xs rule: unseen.induct) auto

lemma distinct_unseen: "distinct (unseen seen xs)"
  by (induction seen xs rule: unseen.induct) (auto simp: set_unseen)

section \<open>Rotations\<close>

lemma shift_rotate: "cycle \<noteq> [] \<Longrightarrow> shiftCycle cycle = Inr (rotate (length cycle - 1) cycle)"
proof -
  assume ne: "cycle \<noteq> []"
  then obtain xs x where c: "cycle = xs @ [x]" by (cases cycle rule: rev_cases) auto
  then show ?thesis using rotate_append [of xs "[x]"] by (simp add: shiftCycle_def)
qed

lemma last_butlast_rotate: "cycle \<noteq> [] \<Longrightarrow> last cycle # butlast cycle = rotate (length cycle - 1) cycle"
  using shift_rotate [of cycle] by (simp add: shiftCycle_def)

lemma shift_until_stop: "xs \<noteq> [] \<Longrightarrow> edge_source (hd xs) = v \<Longrightarrow> shift_until v k xs = Inr xs"
  by (cases xs) auto

lemma shift_until_step:
  "xs \<noteq> [] \<Longrightarrow> edge_source (hd xs) \<noteq> v \<Longrightarrow> k < length xs \<Longrightarrow>
   shift_until v k xs = shift_until v (Suc k) (rotate (length xs - 1) xs)"
  unfolding last_butlast_rotate [symmetric] by (subst shift_until.simps) (cases xs, auto)

declare shift_until.simps [simp del]

lemma hd_rotate_shift:
  assumes "k < length c"
  shows "hd (rotate (k * (length c - 1)) c) = c ! ((length c - k) mod length c)"
proof -
  let ?n = "length c"
  have n: "?n > 0" "c \<noteq> []" using assms by auto
  have "(k * (?n - 1)) mod ?n = (?n - k) mod ?n"
  proof (cases "k = 0")
    case False
    have "k * (?n - 1) = (k - 1) * ?n + (?n - k)"
      using assms False by (cases k) (auto simp: algebra_simps diff_mult_distrib2)
    then show ?thesis by (metis mod_mult_self3)
  qed simp
  with n show ?thesis by (simp add: hd_rotate_conv_nth)
qed

lemma shift_until_finds:
  assumes "k \<le> j" "j < length c" "edge_source (hd (rotate (j * (length c - 1)) c)) = v"
    and "\<forall>i < j. k \<le> i \<longrightarrow> edge_source (hd (rotate (i * (length c - 1)) c)) \<noteq> v"
  shows "shift_until v k (rotate (k * (length c - 1)) c) = Inr (rotate (j * (length c - 1)) c)"
  using assms
proof (induction "j - k" arbitrary: k)
  case 0
  then have k: "k = j" by simp
  have "rotate (j * (length c - 1)) c \<noteq> []" using 0 by auto
  then show ?case unfolding k by (rule shift_until_stop) (rule 0)
next
  case (Suc d)
  then have k: "k < j" by simp
  let ?r = "rotate (k * (length c - 1)) c"
  have "?r \<noteq> []" "edge_source (hd ?r) \<noteq> v" "k < length ?r"
    using Suc.prems k by auto
  from shift_until_step [OF this]
  have "shift_until v k ?r = shift_until v (Suc k) (rotate (Suc k * (length c - 1)) c)"
    by (simp only: length_rotate rotate_rotate mult_Suc)
  also have "\<dots> = Inr (rotate (j * (length c - 1)) c)"
    using Suc.hyps(1) [of "Suc k"] Suc.hyps(2) Suc.prems k by simp
  finally show ?case .
qed

lemma shift_until_panics:
  assumes "c \<noteq> []" and "\<forall>e \<in> set c. edge_source e \<noteq> v"
  shows "k \<le> length c \<Longrightarrow> isPanic (shift_until v k c)"
  using assms
proof (induction "length c - k" arbitrary: k c)
  case 0
  then show ?case by (subst shift_until.simps) (auto split: list.splits)
next
  case (Suc d)
  then obtain x xs where c: "c = x # xs" by (cases c) auto
  have "isPanic (shift_until v (Suc k) (last c # butlast c))"
    by (rule Suc.hyps(1)) (use Suc.hyps(2) Suc.prems in \<open>auto dest: in_set_butlastD\<close>)
  with Suc.prems Suc.hyps(2) show ?case by (subst shift_until.simps) (simp add: c)
qed

lemma shiftUntil_facts:
  "if edge_source v \<in> edge_source ` set c
   then \<exists>m. shiftUntilVertexWillBeFirst v c = Inr (rotate m c) \<and> edge_source (hd (rotate m c)) = edge_source v
   else isPanic (shiftUntilVertexWillBeFirst v c)"
proof (cases "edge_source v \<in> edge_source ` set c")
  case True
  then obtain i where i: "i < length c" "edge_source (c ! i) = edge_source v" by (auto simp: in_set_conv_nth)
  let ?n = "length c" and ?P = "\<lambda>j. j < length c \<and> edge_source (hd (rotate (j * (length c - 1)) c)) = edge_source v"
  have "?P ((?n - i) mod ?n)"
  proof -
    have "(?n - i) mod ?n < ?n" by (rule mod_less_divisor) (use i(1) in linarith)
    moreover have "(?n - (?n - i) mod ?n) mod ?n = i" using i(1) by (cases "i = 0") auto
    ultimately show ?thesis using hd_rotate_shift [of "(?n - i) mod ?n" c] i(2) by simp
  qed
  then have P: "?P (LEAST j. ?P j)" by (rule LeastI)
  have "\<forall>i < (LEAST j. ?P j). 0 \<le> i \<longrightarrow> edge_source (hd (rotate (i * (?n - 1)) c)) \<noteq> edge_source v"
  proof (intro allI impI)
    fix i assume i: "i < (LEAST j. ?P j)" "0 \<le> i"
    then have "i < length c" using P by linarith
    with not_less_Least [OF i(1)] show "edge_source (hd (rotate (i * (?n - 1)) c)) \<noteq> edge_source v" by simp
  qed
  with shift_until_finds [of 0 "LEAST j. ?P j" c "edge_source v"] P
  have "shiftUntilVertexWillBeFirst v c = Inr (rotate ((LEAST j. ?P j) * (?n - 1)) c)"
    by (simp add: shiftUntilVertexWillBeFirst_def)
  with P True show ?thesis by auto
next
  case False
  have "isPanic (shiftUntilVertexWillBeFirst v c)"
  proof (cases "c = []")
    case True
    then show ?thesis by (simp add: shiftUntilVertexWillBeFirst_def shift_until.simps)
  next
    case ne: False
    have "\<forall>e \<in> set c. edge_source e \<noteq> edge_source v" using False by (metis image_eqI)
    from shift_until_panics [OF ne this, of 0] show ?thesis by (simp add: shiftUntilVertexWillBeFirst_def)
  qed
  with False show ?thesis by simp
qed

text \<open>
  \<^verbatim>\<open>shiftUntilVertexWillBeFirst\<close> always ends: if an edge of the cycle starts at the wanted vertex, the
  result is a rotation of the cycle whose first edge starts there; otherwise it panics.
\<close>

lemma shiftUntilVertexWillBeFirst_correct:
  "if edge_source v \<in> edge_source ` set c
   then \<exists>m. shiftUntilVertexWillBeFirst v c = Inr (rotate m c) \<and> edge_source (hd (rotate m c)) = edge_source v
   else isPanic (shiftUntilVertexWillBeFirst v c)"
  by (rule shiftUntil_facts)

end
