(* ===== verification/SubsetQueriesOk.thy ===== *)
theory SubsetQueriesOk
  imports SubsetSqlProps
begin

text \<open>
  The text of every subset query is produced without a panic when the keys of the references match and no
  reference has polymorphic expressions. First the outcome of each generating function, from the clauses up to
  the items of a component with cycles.
\<close>

section \<open>Outcomes of loops\<close>

lemma isOk_bindR [intro]: "isOk m \<Longrightarrow> (\<And>a. m = Inr a \<Longrightarrow> isOk (f a)) \<Longrightarrow> isOk (bindR m f)"
  by (cases m) auto

lemma isOk_mapR: "(\<And>x. x \<in> set xs \<Longrightarrow> isOk (f x)) \<Longrightarrow> isOk (mapR f xs)"
  by (induction xs) (auto intro!: isOk_bindR)

lemma isOk_foldR: "(\<And>x s. x \<in> set xs \<Longrightarrow> isOk (f x s)) \<Longrightarrow> isOk (foldR f xs s)"
  by (induction xs arbitrary: s) (auto intro!: isOk_bindR)

lemma isOk_nth_res [simp]: "isOk (nth_res xs i) \<longleftrightarrow> i < length xs"
  by (simp add: nth_res_def)

lemma isOk_first_of [simp]: "isOk (first_of xs) \<longleftrightarrow> xs \<noteq> []"
  by (simp add: first_of_def)

lemma first_of_Inr: "first_of xs = Inr x \<longleftrightarrow> xs \<noteq> [] \<and> x = hd xs"
  by (auto simp: first_of_def)

section \<open>Clauses\<close>

text \<open>A reference whose keys match one to one and that is not polymorphic.\<close>

definition edge_ok :: "Edge \<Rightarrow> bool" where
  "edge_ok e \<longleftrightarrow> length (link_keys (edge_from e)) = length (link_keys (edge_to e)) \<and>
     polymorphicExprs (edge_from e) = [] \<and> polymorphicExprs (edge_to e) = []"

lemma generateJoinClauseForDroppedEdge_ok: "edge_ok e \<Longrightarrow> isOk (generateJoinClauseForDroppedEdge e n)"
  by (auto simp: generateJoinClauseForDroppedEdge_def edge_ok_def Let_def intro!: isOk_bindR isOk_mapR)

lemma generateJoinClauseV2_ok: "edge_ok e \<Longrightarrow> isOk (generateJoinClauseV2 e (if b then joinTypeLeft else joinTypeInner) m)"
  by (auto simp: generateJoinClauseV2_def join_key_conds_def edge_ok_def Let_def intro!: isOk_bindR isOk_mapR)

lemma generateOverriddenTableInClause_ok: "edge_ok e \<Longrightarrow> isOk (generateOverriddenTableInClause e n b)"
  by (auto simp: generateOverriddenTableInClause_def edge_ok_def Let_def intro!: isOk_bindR isOk_mapR)

lemma join_step_ok: "edge_ok e \<Longrightarrow> isOk (join_step m e st)"
  using generateJoinClauseV2_ok [of e "edge_isNullable e \<or> js_nullable st (edge_source e)" m]
  by (auto simp: join_step_def Let_def split: option.split intro!: isOk_bindR generateOverriddenTableInClause_ok)

lemma buildJoinsForEdges_ok: "\<forall>e \<in> set es. edge_ok e \<Longrightarrow> isOk (buildJoinsForEdges es m)"
  by (auto simp: buildJoinsForEdges_def intro!: isOk_foldR join_step_ok)

lemma integrity_check_ok: "edge_ok e \<Longrightarrow> isOk (integrity_check m e)"
  by (auto simp: integrity_check_def nullable_key_check_def edge_ok_def Let_def split: option.split
        intro!: isOk_bindR isOk_mapR generateOverriddenTableInClause_ok)

lemma integrity_checks_ok:
  "\<forall>e \<in> set es. edge_ok e \<Longrightarrow> isOk (generateIntegrityChecksForNullableEdges n es m d)"
  by (auto simp: generateIntegrityChecksForNullableEdges_def intro!: isOk_bindR isOk_mapR integrity_check_ok)

lemma plain_conditions_ok: "\<forall>e \<in> set es. edge_ok e \<Longrightarrow> isOk (plain_conditions es t qs)"
proof -
  assume ok: "\<forall>e \<in> set es. edge_ok e"
  have "isOk (plain_join e st)" if "e \<in> set es" for e st
  proof (cases st)
    case (Pair nullable joins)
    then show ?thesis
      using generateJoinClauseV2_ok [of e "edge_isNullable e \<or> nullable (edge_source e)" Map.empty] ok that
      by (auto simp: plain_join_def Let_def intro!: isOk_bindR)
  qed
  then have "isOk (foldR plain_join es (\<lambda>_. False, []))" by (rule isOk_foldR)
  then show ?thesis
    unfolding plain_conditions_def using integrity_checks_ok [OF ok]
    by (auto intro!: isOk_bindR split: prod.split)
qed

lemma getCycleQueryName_ok [simp]: "isOk (getCycleQueryName s c p) \<longleftrightarrow> c \<noteq> []"
  by (auto simp: getCycleQueryName_def first_of_def Let_def)

lemma getUnitedQueryName_ok [simp]: "isOk (getUnitedQueryName s c) \<longleftrightarrow> c \<noteq> []"
  by (auto simp: getUnitedQueryName_def first_of_def Let_def)

lemma generateQuery_ok:
  assumes "c \<noteq> []" "\<forall>e \<in> set c. edge_ok e" "\<forall>ce \<in> set rest. edge_ok (originalEdge ce)"
  shows "isOk (generateQuery n c rest m xs)"
proof -
  have "\<forall>e \<in> set (butlast c @ List.map originalEdge rest). edge_ok e" using assms by (auto dest: in_set_butlastD)
  note joins = buildJoinsForEdges_ok [OF this] and checks = integrity_checks_ok [OF this]
  have "edge_ok (last c)" using assms(1,2) by simp
  then show ?thesis
    unfolding generateQuery_def Let_def
    using assms(1) joins checks generateJoinClauseForDroppedEdge_ok by (intro isOk_bindR) (auto simp: first_of_def)
qed

section \<open>Cycles of one group\<close>

text \<open>The cycles of a group run through the same tables.\<close>

definition group_wf :: "Edge list list \<Rightarrow> bool" where
  "group_wf cs \<longleftrightarrow> cs \<noteq> [] \<and> (\<forall>c \<in> set cs. c \<noteq> [] \<and> (\<forall>e \<in> set c. edge_ok e)) \<and>
     (\<forall>c \<in> set cs. \<forall>c' \<in> set cs. edge_source ` set c = edge_source ` set c')"

lemma generateInClauseForOverlap_ok:
  assumes "c \<noteq> []" and "\<forall>o' \<in> set os. o' \<noteq> [] \<and> edge_source ` set o' = edge_source ` set c"
  shows "isOk (generateInClauseForOverlap s c os)"
proof -
  have "\<exists>m. shiftUntilVertexWillBeFirst (hd c) o' = Inr (rotate m o')" if "o' \<in> set os" for o'
  proof -
    have "edge_source (hd c) \<in> edge_source ` set o'" using assms that by auto
    then show ?thesis using shiftUntil_facts [of "hd c" o'] by auto
  qed
  then have "\<exists>ys. mapR (shiftUntilVertexWillBeFirst (hd c)) os = Inr ys \<and> list_all2 (\<lambda>o' y. \<exists>m. y = rotate m o') os ys"
    by (intro mapR_total) blast
  then obtain ys where ys: "mapR (shiftUntilVertexWillBeFirst (hd c)) os = Inr ys"
    "list_all2 (\<lambda>o' y. \<exists>m. y = rotate m o') os ys" by blast
  have "y \<noteq> []" if y: "y \<in> set ys" for y
  proof -
    obtain i where i: "i < length ys" "y = ys ! i" using y by (auto simp: in_set_conv_nth)
    then obtain m where "y = rotate m (os ! i)" "i < length os"
      using list_all2_nthD2 [OF ys(2), of i] list_all2_lengthD [OF ys(2)] by auto
    with assms(2) show ?thesis by auto
  qed
  then have "isOk (mapR (\<lambda>c. getCycleQueryName s c '''') ys)" by (intro isOk_mapR) simp
  with ys(1) assms(1) show ?thesis
    by (auto simp: generateInClauseForOverlap_def first_of_def Let_def intro!: isOk_bindR)
qed

lemma generateOverlapQuery_ok:
  assumes "c \<noteq> []" "\<forall>e \<in> set c. edge_ok e" "\<forall>ce \<in> set rest. edge_ok (originalEdge ce)"
    and "\<forall>o' \<in> set os. o' \<noteq> [] \<and> edge_source ` set o' = edge_source ` set c"
  shows "isOk (generateOverlapQuery s n c rest m os xs)"
proof -
  have "\<forall>e \<in> set (butlast c @ List.map originalEdge rest). edge_ok e" using assms by (auto dest: in_set_butlastD)
  note joins = buildJoinsForEdges_ok [OF this] and checks = integrity_checks_ok [OF this]
  have "edge_ok (last c)" using assms(1,2) by simp
  then show ?thesis
    unfolding generateOverlapQuery_def Let_def
    using assms(1) joins checks generateJoinClauseForDroppedEdge_ok generateInClauseForOverlap_ok [OF assms(1,4)]
    by (intro isOk_bindR) (auto simp: first_of_def)
qed

lemma getOverlapMap_range:
  "getOverlapMap cs k = Some os \<Longrightarrow> set os \<subseteq> set cs"
proof -
  have "\<forall>k os. fold (\<lambda>i m. m(getCycleId (cs ! i) \<mapsto> others cs i)) is m k = Some os \<longrightarrow> set os \<subseteq> set cs"
    if "\<forall>k os. m k = Some os \<longrightarrow> set os \<subseteq> set cs" for "is" m
    using that
  proof (induction "is" arbitrary: m)
    case Nil
    then show ?case by simp
  next
    case (Cons i "is")
    have "set (others cs i) \<subseteq> set cs"
      by (auto simp: others_def dest: in_set_takeD in_set_dropD)
    then have "\<forall>k os. (m(getCycleId (cs ! i) \<mapsto> others cs i)) k = Some os \<longrightarrow> set os \<subseteq> set cs"
      using Cons.prems by simp
    from Cons.IH [OF this] show ?case by simp
  qed
  from this [of Map.empty "[0..<length cs]"] show "getOverlapMap cs k = Some os \<Longrightarrow> set os \<subseteq> set cs"
    by (simp add: getOverlapMap_def)
qed

lemma cycle_items_ok:
  assumes g: "group_wf cs" and r: "set r = set c" "c \<in> set cs" and rest: "\<forall>ce \<in> set rest. edge_ok (originalEdge ce)"
  shows "isOk (cycle_items s rest m (getOverlapMap cs) xs r cq)"
proof -
  have c: "r \<noteq> []" "\<forall>e \<in> set r. edge_ok e" using g r unfolding group_wf_def by auto
  have os: "\<forall>o' \<in> set os. o' \<noteq> [] \<and> edge_source ` set o' = edge_source ` set r"
    if "getOverlapMap cs k = Some os" for k os
  proof
    fix o' assume "o' \<in> set os"
    then have "o' \<in> set cs" using getOverlapMap_range [OF that] by blast
    with g r show "o' \<noteq> [] \<and> edge_source ` set o' = edge_source ` set r" unfolding group_wf_def by metis
  qed
  show ?thesis
    unfolding cycle_items_def Let_def
    using c generateQuery_ok [OF c rest] generateOverlapQuery_ok [OF c rest os]
    by (auto intro!: isOk_bindR split: option.split)
qed

lemma rotate_items_ok:
  "c \<noteq> [] \<Longrightarrow> (\<And>r cq. set r = set c \<Longrightarrow> r \<noteq> [] \<Longrightarrow> isOk (f r cq)) \<Longrightarrow> isOk (rotate_items n f c cq)"
proof (induction n arbitrary: c cq)
  case 0
  then show ?case by simp
next
  case (Suc n)
  have ok: "isOk (f c cq)" using Suc.prems by simp
  have "isOk (rotate_items n f (rotate (length c - 1) c) cq')" for cq'
    by (rule Suc.IH) (use Suc.prems in auto)
  with ok Suc.prems(1) show ?case by (auto simp: shift_rotate intro!: isOk_bindR)
qed

lemma generateRecursiveQueriesForCycle_ok:
  assumes "group_wf cs" "c \<in> set cs" "\<forall>ce \<in> set rest. edge_ok (originalEdge ce)"
    and "\<forall>se \<in> set ses. edge_ok (originalEdge (originalCondensedEdge se))"
  shows "isOk (generateRecursiveQueriesForCycle s c rest ses (getOverlapMap cs) xs cq)"
proof -
  have c: "c \<noteq> []" using assms(1,2) by (auto simp: group_wf_def)
  show ?thesis
    unfolding generateRecursiveQueriesForCycle_def
    by (rule rotate_items_ok [OF c], rule cycle_items_ok [OF assms(1) _ assms(2)]) (use assms(3,4) in auto)
qed

lemma generateUnitedCyclesQuery_ok: "\<forall>c \<in> set cs. c \<noteq> [] \<Longrightarrow> isOk (generateUnitedCyclesQuery s cs)"
  by (auto simp: generateUnitedCyclesQuery_def intro!: isOk_bindR isOk_mapR)

lemma filtered_items_ok: "cs \<noteq> [] \<Longrightarrow> \<forall>c \<in> set cs. c \<noteq> [] \<Longrightarrow> isOk (filtered_items s cs cq)"
  unfolding filtered_items_def generateIntegrityCheckJoinConds_def Let_def
  by (intro isOk_bindR) (simp_all add: first_of_Inr generateUnitedCyclesQuery_ok isOk_bindR)

lemma shiftCycleGroup_rotate:
  "\<forall>c \<in> set cs. c \<noteq> [] \<Longrightarrow> shiftCycleGroup cs = Inr (List.map (\<lambda>c. rotate (length c - 1) c) cs)"
  unfolding shiftCycleGroup_def by (induction cs) (auto simp: shift_rotate)

lemma rotate_filtered_ok: "cs \<noteq> [] \<Longrightarrow> \<forall>c \<in> set cs. c \<noteq> [] \<Longrightarrow> isOk (rotate_filtered n s cs cq)"
proof (induction n arbitrary: cs cq)
  case 0
  then show ?case by simp
next
  case (Suc n)
  have "isOk (rotate_filtered n s (List.map (\<lambda>c. rotate (length c - 1) c) cs) cq')" for cq'
    by (rule Suc.IH) (use Suc.prems in auto)
  with Suc.prems show ?case by (auto simp: shiftCycleGroup_rotate intro!: isOk_bindR filtered_items_ok)
qed

lemma generateFilteredQueries_ok: "group_wf cs \<Longrightarrow> isOk (generateFilteredQueries s cs cq)"
  unfolding generateFilteredQueries_def
  by (auto simp: group_wf_def first_of_def intro!: rotate_filtered_ok)

lemma valid_pk_selection_ok: "cs \<noteq> [] \<Longrightarrow> isOk (generateAllTablesValidPkSelection cs s t)"
  by (auto simp: generateAllTablesValidPkSelection_def first_of_def)

lemma generateQueriesForVertexesInCycle_ok: "cs \<noteq> [] \<Longrightarrow> isOk (generateQueriesForVertexesInCycle s cs cq)"
  unfolding generateQueriesForVertexesInCycle_def
  by (auto simp: first_of_def intro!: isOk_foldR isOk_bindR valid_pk_selection_ok)

end
