(* ===== verification/SubsetGroups.thy ===== *)
theory SubsetGroups
  imports SubsetQueriesOk
begin

text \<open>
  The groups of cycles of a component of a built graph: the cycles of a group run through the same tables, so
  that each can be turned to start where another one does.
\<close>

section \<open>Group identifiers\<close>

lemma format_nat_digit_chars: "b \<in> set (format_nat n) \<Longrightarrow> \<exists>d < 10. b = digit_char d"
proof (induction n rule: format_nat.induct)
  case (1 n)
  show ?case
  proof (cases "n < 10")
    case True
    with "1.prems" show ?thesis by (subst (asm) format_nat.simps) auto
  next
    case False
    then have "b \<in> set (format_nat (n div 10)) \<or> b = digit_char (n mod 10)"
      using "1.prems" by (subst (asm) format_nat.simps) auto
    with "1.IH" [OF False] show ?thesis by (auto intro: exI [of _ "n mod 10"])
  qed
qed

lemma inj_show_nat: "inj show_nat"
proof (rule injI)
  fix m n
  assume e: "show_nat m = show_nat n"
  have "of_char (char_of (unat (b :: byte)) :: char) = unat b" for b
  proof -
    have "unat b < 2 ^ LENGTH(8)" by (rule unsigned_less)
    then show ?thesis by (simp add: of_char_of take_bit_nat_eq_self)
  qed
  then have i: "inj (\<lambda>b :: byte. char_of (unat b) :: char)" by (intro inj_on_inverseI [where g = "\<lambda>c. word_of_nat (of_char c)"]) simp
  have "format_nat m = format_nat n"
    by (rule iffD1 [OF inj_map_eq_map [OF i] e [unfolded show_nat_def]])
  then show "m = n" by (metis parse_format_acc option.inject)
qed

lemma show_nat_digits: "CHR ''_'' \<notin> set (show_nat n)"
proof
  assume "CHR ''_'' \<in> set (show_nat n)"
  then obtain b where b: "b \<in> set (format_nat n)" "char_of (unat b) = CHR ''_''" by (auto simp: show_nat_def)
  then obtain d where d: "d < 10" "b = digit_char d" using format_nat_digit_chars by blast
  then have u: "unat b = 48 + d" using digit_byte(1) by simp
  have "of_char (char_of (unat b) :: char) = (of_char (CHR ''_'') :: nat)" using b(2) by simp
  then have "unat b mod 256 = 95" by (simp add: of_char_of take_bit_eq_mod)
  with u d(1) show False by simp
qed

lemma getCycleGroupId_targets:
  assumes "getCycleGroupId c = getCycleGroupId c'" and "c \<noteq> []" "c' \<noteq> []"
  shows "edge_target ` set c = edge_target ` set c'"
proof -
  let ?f = "\<lambda>c. sort (List.map (\<lambda>e. show_nat (edge_target e)) c)"
  have "split_on CHR ''_'' (join_with [CHR ''_''] (?f x)) = ?f x" if "x \<noteq> []" for x
  proof (rule split_join)
    have "length (?f x) \<noteq> 0" using that by simp
    then show "?f x \<noteq> []" by (simp only: length_0_conv not_False_eq_True)
    show "\<forall>f \<in> set (?f x). CHR ''_'' \<notin> set f" using show_nat_digits by auto
  qed
  then have "?f c = ?f c'" using assms by (metis getCycleGroupId_def)
  then have "set (?f c) = set (?f c')" by simp
  then have "show_nat ` edge_target ` set c = show_nat ` edge_target ` set c'"
    by (simp add: image_image)
  then show ?thesis by (simp only: inj_image_eq_iff [OF inj_show_nat])
qed

section \<open>Groups of a component\<close>

lemma list_map_member: "x \<in> set (List.map f xs) \<Longrightarrow> (\<And>a. a \<in> set xs \<Longrightarrow> x = f a \<Longrightarrow> P) \<Longrightarrow> P"
  by auto

lemma chain_ends: "chain cg u es v \<Longrightarrow> insert v (edge_source ` set es) = insert u (edge_target ` set es)"
  by (induction es arbitrary: u) auto

lemma good_cycle_sources:
  assumes "good_cycle cg c"
  shows "edge_source ` set c = edge_target ` set c"
proof -
  obtain e es where c: "c = e # es" using assms by (cases c) (auto simp: good_cycle_def)
  have ch: "chain cg (edge_source e) c (edge_source e)" using assms c by (simp add: good_cycle_def)
  obtain xs x where snoc: "c = xs @ [x]" using c by (metis list.distinct(1) rev_exhaust)
  have "edge_target x = edge_source e" using ch by (simp add: snoc chain_append)
  then have "edge_source e \<in> edge_target ` set c" by (force simp: snoc)
  moreover have "edge_source e \<in> edge_source ` set c" by (simp add: c)
  ultimately show ?thesis using chain_ends [OF ch] by (simp add: insert_absorb)
qed

lemma good_cycle_edges: "good_cycle cg c \<Longrightarrow> e \<in> set c \<Longrightarrow> \<exists>v. e \<in> set (edges_at cg v)"
proof -
  have "e \<in> set es \<Longrightarrow> chain cg u es v \<Longrightarrow> \<exists>v. e \<in> set (edges_at cg v)" for u es v
    by (induction es arbitrary: u) auto
  then show "good_cycle cg c \<Longrightarrow> e \<in> set c \<Longrightarrow> \<exists>v. e \<in> set (edges_at cg v)" unfolding good_cycle_def by blast
qed

lemma grouped_ids:
  "(k, idxs) \<in> set (groupedCycles (groupCycles c)) \<Longrightarrow> i \<in> set idxs \<Longrightarrow> getCycleGroupId (cycles c ! i) = k"
proof -
  have "\<forall>(k, idxs) \<in> set (fold (\<lambda>(i, cycle). append_at (getCycleGroupId cycle) i) xs m).
      \<forall>i \<in> set idxs. getCycleGroupId (cycles c ! i) = k"
    if "\<forall>(k, idxs) \<in> set m. \<forall>i \<in> set idxs. getCycleGroupId (cycles c ! i) = k"
      "\<forall>(i, x) \<in> set xs. x = cycles c ! i" for xs m
    using that
  proof (induction xs arbitrary: m)
    case Nil
    then show ?case by simp
  next
    case (Cons x xs)
    obtain i cyc where x: "x = (i, cyc)" by (cases x)
    have "\<forall>(k, idxs) \<in> set (append_at (getCycleGroupId cyc) i m). \<forall>i \<in> set idxs. getCycleGroupId (cycles c ! i) = k"
      using Cons.prems x by (induction "getCycleGroupId cyc" i m rule: append_at.induct) (auto split: if_splits)
    from Cons.IH [OF this] Cons.prems(2) x show ?case by simp
  qed
  from this [of "[]" "List.enumerate 0 (cycles c)"]
  show "(k, idxs) \<in> set (groupedCycles (groupCycles c)) \<Longrightarrow> i \<in> set idxs \<Longrightarrow> getCycleGroupId (cycles c ! i) = k"
    by (fastforce simp: groupCycles_def in_set_enumerate_eq)
qed

lemma grouped_nonempty: "cycles c \<noteq> [] \<Longrightarrow> groupedCycles (groupCycles c) \<noteq> []"
proof -
  have "fold (\<lambda>(i, cycle). append_at (getCycleGroupId cycle) i) xs m \<noteq> []" if "m \<noteq> []" for xs m
    using that
  proof (induction xs arbitrary: m)
    case (Cons x xs)
    have "append_at k i m \<noteq> []" for k i by (cases "(k, i, m)" rule: append_at.cases) auto
    with Cons show ?case by (simp add: case_prod_beta)
  qed simp
  then show "cycles c \<noteq> [] \<Longrightarrow> groupedCycles (groupCycles c) \<noteq> []"
    by (cases "cycles c") (auto simp: groupCycles_def)
qed

text \<open>What the generator needs of a component.\<close>

definition component_wf :: "Component \<Rightarrow> bool" where
  "component_wf c \<longleftrightarrow> groups_ok (length (cycles c)) (groupedCycles c) \<and>
     (hasCycle c \<longrightarrow> groupedCycles c \<noteq> []) \<and>
     (\<forall>(k, idxs) \<in> set (groupedCycles c). group_wf (List.map (\<lambda>i. cycles c ! i) idxs))"

lemma built_cycles:
  assumes ok: "condensation_ok g" and i: "i < sscCount g"
  shows "list_all (good_cycle (component_graph (graph g) (part (visited g) i))) (cycles (scc g ! i))"
    and "groups_ok (length (cycles (scc g ! i))) (groupedCycles (scc g ! i))"
    and "groupedCycles (scc g ! i) = groupedCycles (groupCycles (scc g ! i))"
    and "cy \<in> set (cycles (scc g ! i)) \<Longrightarrow> e \<in> set cy \<Longrightarrow> e \<in> set (g_edges g)"
proof -
  let ?cg = "component_graph (graph g) (part (visited g) i)" and ?c = "scc g ! i"
  have g: "graph_ok g" and len: "length (visited g) = length (graph g)"
    using ok by (simp_all add: condensation_ok_def graph_ok_def)
  have "NewComponent i ?cg (c_tables ?c) = Inr ?c" using ok i unfolding condensation_ok_def by blast
  with NewComponent_total [OF part_cg_wf [OF g len], of i i "c_tables ?c"]
  show c: "list_all (good_cycle ?cg) (cycles ?c)" "groups_ok (length (cycles ?c)) (groupedCycles ?c)"
    "groupedCycles ?c = groupedCycles (groupCycles ?c)"
    by auto
  have inside: "e \<in> set (g_edges g)" if "e \<in> set (edges_at ?cg v)" for e v
  proof -
    have v: "v \<in> set (part (visited g) i)"
      using edges_at_wf [OF part_cg_wf [OF g len] that] by (auto simp: component_graph_def)
    then have "v < length (graph g)" using len by (auto simp: part_def)
    moreover have "e \<in> set (graph g ! v)" using that by (simp add: component_graph_edges [OF v])
    ultimately show ?thesis using g by (auto simp: graph_ok_def)
  qed
  show "e \<in> set (g_edges g)" if "cy \<in> set (cycles ?c)" "e \<in> set cy"
  proof -
    have "good_cycle ?cg cy" using c(1) that(1) by (simp add: list_all_iff)
    from good_cycle_edges [OF this that(2)] inside show ?thesis by blast
  qed
qed

lemma component_wf_built:
  assumes ok: "condensation_ok g" and edges: "\<forall>e \<in> set (g_edges g). edge_ok e" and i: "i < sscCount g"
  shows "component_wf (scc g ! i)"
proof -
  let ?cg = "component_graph (graph g) (part (visited g) i)" and ?c = "scc g ! i"
  note c = built_cycles [OF ok i]
  have good: "good_cycle ?cg (cycles ?c ! j)" if "j < length (cycles ?c)" for j
    using c(1) that by (simp add: list_all_length)
  have "group_wf (List.map (\<lambda>i. cycles ?c ! i) idxs)" if m: "(k, idxs) \<in> set (groupedCycles ?c)" for k idxs
  proof -
    have idxs: "idxs \<noteq> []" "\<forall>j \<in> set idxs. j < length (cycles ?c)" using c(2) m by (auto simp: groups_ok_def)
    have id: "getCycleGroupId (cycles ?c ! j) = k" if "j \<in> set idxs" for j
      using grouped_ids [OF m [unfolded c(3)] that] .
    have ne: "cycles ?c ! j \<noteq> []" if "j \<in> set idxs" for j
      using good idxs(2) that by (auto simp: good_cycle_def)
    have sources: "edge_source ` set (cycles ?c ! j) = edge_source ` set (cycles ?c ! j')" if "j \<in> set idxs" "j' \<in> set idxs" for j j'
    proof -
      have j: "j < length (cycles ?c)" "j' < length (cycles ?c)" using idxs(2) that by auto
      have "getCycleGroupId (cycles ?c ! j) = getCycleGroupId (cycles ?c ! j')" using id that by simp
      from getCycleGroupId_targets [OF this ne [OF that(1)] ne [OF that(2)]] show ?thesis
        using good_cycle_sources [OF good [OF j(1)]] good_cycle_sources [OF good [OF j(2)]] by simp
    qed
    have oks: "edge_ok e" if j: "j \<in> set idxs" "e \<in> set (cycles ?c ! j)" for j e
    proof -
      have "cycles ?c ! j \<in> set (cycles ?c)" using idxs(2) j(1) by simp
      from c(4) [OF this j(2)] show ?thesis using edges by blast
    qed
    show ?thesis unfolding group_wf_def
    proof (intro conjI ballI)
      show "List.map (\<lambda>i. cycles ?c ! i) idxs \<noteq> []" using idxs(1) by simp
    next
      fix x y
      assume "x \<in> set (List.map (\<lambda>i. cycles ?c ! i) idxs)" "y \<in> set (List.map (\<lambda>i. cycles ?c ! i) idxs)"
      then show "edge_source ` set x = edge_source ` set y" by (elim list_map_member) (simp only:, rule sources)
    qed (use ne oks in auto)
  qed
  moreover have "groupedCycles ?c \<noteq> []" if "hasCycle ?c"
    unfolding c(3) by (rule grouped_nonempty) (use that in \<open>auto simp: hasCycle_def\<close>)
  ultimately show ?thesis using c(2) by (auto simp: component_wf_def)
qed

end
