(* ===== verification/SubsetQueriesProps.thy ===== *)
theory SubsetQueriesProps
  imports SubsetGroups
begin

text \<open>
  \<^verbatim>\<open>SetSubsetQueries\<close> as a whole: it ends, without a panic, with a query for every table of a restricted
  component and for no other table; and a polymorphic reference to an unrestricted cycle makes it panic.
\<close>

section \<open>Components with several groups\<close>

lemma getCycleGroup_ok:
  assumes "component_wf c" and "k \<in> fst ` set (groupedCycles c)"
  shows "\<exists>cs. getCycleGroup c k = Inr cs \<and> group_wf cs"
proof -
  obtain idxs where m: "map_of (groupedCycles c) k = Some idxs"
    using assms(2) by (metis (no_types, lifting) imageE weak_map_of_SomeI prod.collapse)
  from map_of_SomeD [OF m] have "\<forall>i \<in> set idxs. i < length (cycles c)" "group_wf (List.map (\<lambda>i. cycles c ! i) idxs)"
    using assms(1) by (auto simp: component_wf_def groups_ok_def)
  with m show ?thesis by (simp add: getCycleGroup_def cycles_at_total)
qed

lemma getOneCycleGroup_ok:
  assumes "component_wf c" and "length (groupedCycles c) = 1"
  shows "\<exists>cs. getOneCycleGroup c = Inr cs \<and> group_wf cs"
proof -
  obtain k idxs where g: "groupedCycles c = [(k, idxs)]"
    using assms(2) by (cases "groupedCycles c") auto
  then have "\<forall>i \<in> set idxs. i < length (cycles c)" "group_wf (List.map (\<lambda>i. cycles c ! i) idxs)"
    using assms(1) by (auto simp: component_wf_def groups_ok_def)
  with g show ?thesis by (simp add: getOneCycleGroup_def cycles_at_total)
qed

definition rest_ok :: "CondensedEdge list \<Rightarrow> ScopeEdge list \<Rightarrow> bool" where
  "rest_ok rest ses \<longleftrightarrow> (\<forall>ce \<in> set rest. edge_ok (originalEdge ce)) \<and>
     (\<forall>se \<in> set ses. edge_ok (originalEdge (originalCondensedEdge se)))"

lemma cycle_loop_ok:
  "group_wf cs \<Longrightarrow> rest_ok rest ses \<Longrightarrow>
   isOk (foldR (\<lambda>cycle. generateRecursiveQueriesForCycle s cycle rest ses (getOverlapMap cs) xs) cs cq)"
  by (intro isOk_foldR generateRecursiveQueriesForCycle_ok) (auto simp: rest_ok_def)

lemma group_items_ok:
  assumes c: "component_wf c" and k: "k \<in> fst ` set (groupedCycles c)" and rest: "rest_ok rest ses"
  shows "isOk (group_items ext s c rest ses prev k st)"
proof -
  obtain cs where cs: "getCycleGroup c k = Inr cs" "group_wf cs" using getCycleGroup_ok [OF c k] by blast
  have ts: "getCycleGroupTables c k = Inr (group_tables c k)"
    using getCycleGroupTables_total [OF _ k] c by (simp add: component_wf_def)
  obtain xs st1 where f: "fold (group_table ext s k prev) (group_tables c k) ([], st) = (xs, st1)" by fastforce
  have ne: "cs \<noteq> []" using cs(2) by (simp add: group_wf_def)
  show ?thesis
    unfolding group_items_def cs(1) ts bindR.simps f Let_def prod.case
    by (intro isOk_bindR cycle_loop_ok cs rest generateFilteredQueries_ok isOk_foldR valid_pk_selection_ok)
       (simp_all add: ne)
qed

lemma group_rounds_ok:
  "component_wf c \<Longrightarrow> rest_ok rest ses \<Longrightarrow> set ks \<subseteq> fst ` set (groupedCycles c) \<Longrightarrow>
   isOk (group_rounds ext s c rest ses prev ks st)"
  by (induction ks arbitrary: prev st) (auto intro!: isOk_bindR group_items_ok)

lemma generateQueriesForMultiGroupScc_ok:
  assumes c: "component_wf c" and rest: "rest_ok rest ses"
  shows "isOk (generateQueriesForMultiGroupScc ext s c rest ses cq)"
proof -
  from getSortedGroupIds_facts [of c] c obtain more where
    ids: "getSortedGroupIds c = Inr (filter (has_conds c) (sort (List.map fst (groupedCycles c))) @ more)"
    "mset more = mset (filter (\<lambda>g. \<not> has_conds c g) (List.map fst (groupedCycles c)))"
    by (auto simp: component_wf_def)
  have "set more \<subseteq> fst ` set (groupedCycles c)"
    using arg_cong [OF ids(2), of set_mset] by auto
  then have "set (filter (has_conds c) (sort (List.map fst (groupedCycles c))) @ more) \<subseteq> fst ` set (groupedCycles c)"
    by auto
  from group_rounds_ok [OF c rest this] show ?thesis
    unfolding generateQueriesForMultiGroupScc_def ids(1) by (auto intro!: isOk_bindR)
qed

section \<open>Paths of a built graph\<close>

text \<open>The two ends of a reference carry the tables at their positions.\<close>

definition edge_linked :: "Table list \<Rightarrow> Edge \<Rightarrow> bool" where
  "edge_linked tables e \<longleftrightarrow> link_table (edge_from e) = tables ! edge_source e \<and>
     link_table (edge_to e) = tables ! edge_target e"

text \<open>A graph whose references all match, as \<^verbatim>\<open>NewGraph\<close> builds it.\<close>

definition plain_graph :: "Graph \<Rightarrow> bool" where
  "plain_graph g \<longleftrightarrow> condensation_ok g \<and> (\<forall>e \<in> set (g_edges g). edge_ok e \<and> edge_linked (g_tables g) e)"

lemma scc_length: "plain_graph g \<Longrightarrow> length (scc g) = sscCount g"
  unfolding plain_graph_def condensation_ok_def by blast

lemma graph_edge_facts:
  assumes g: "plain_graph g" and e: "graph_edge g e"
  shows "edge_ok (originalEdge e)" "cl_component (cond_to e) = scc g ! to_comp e" "to_comp e < sscCount g"
proof -
  have c: "condensed_ok (visited g) (scc g) (filter (crossing (visited g)) (g_edges g))
      (condensedGraph g) (reversedCondensedGraph g)" "length (scc g) = sscCount g" "condensation_ok g"
    using g unfolding plain_graph_def condensation_ok_def by blast+
  let ?i = "from_comp e"
  have i: "?i < length (scc g)" "e \<in> set (condensedGraph g ! ?i)" using e c(1) by (auto simp: graph_edge_def condensed_ok_def)
  have m: "List.map originalEdge (condensedGraph g ! ?i) = filter (\<lambda>e. nat (visited g ! edge_source e) = ?i)
      (filter (crossing (visited g)) (g_edges g))"
    "cond_to e = NewComponentLink (nat (visited g ! edge_target (originalEdge e))) (scc g ! nat (visited g ! edge_target (originalEdge e)))"
    using c(1) i unfolding condensed_ok_def by blast+
  show "cl_component (cond_to e) = scc g ! to_comp e" using m(2) by (simp add: NewComponentLink_def)
  show "to_comp e < sscCount g" using condensed_increasing [OF c(3), of ?i e] i c(2) by simp
  have "originalEdge e \<in> set (g_edges g)" using arg_cong [OF m(1), of set] i(2) by auto
  then show "edge_ok (originalEdge e)" using g by (simp add: plain_graph_def)
qed

definition good_path :: "Graph \<Rightarrow> Path \<Rightarrow> bool" where
  "good_path g p \<longleftrightarrow> path_ok p \<and> scopes_ok g p \<and> rootVertex p < sscCount g"

lemma good_path_edge:
  assumes "plain_graph g" "good_path g p" "e \<in> set (scope_edges p s)"
  shows "edge_ok (originalEdge e)" "cl_component (cond_to e) = scc g ! to_comp e" "to_comp e < sscCount g" "leads g e"
proof -
  have e: "graph_edge g e" "leads g e" using assms(2,3) unfolding good_path_def scopes_ok_def by blast+
  show "leads g e" by fact
  show "edge_ok (originalEdge e)" "cl_component (cond_to e) = scc g ! to_comp e" "to_comp e < sscCount g"
    by (rule graph_edge_facts [OF assms(1) e(1)])+
qed

lemma nested_facts:
  assumes "good_path g p" "se \<in> set (nested p s)"
  shows "\<exists>es. scope_edges p (se_scopeId se) = originalCondensedEdge se # es" "s < se_scopeId se"
    "se_scopeId se \<le> scopeIdSequence p"
proof -
  have "\<exists>es. scopeEdges p (se_scopeId se) = Some (originalCondensedEdge se # es)"
    "s < se_scopeId se" "se_scopeId se \<le> scopeIdSequence p"
    using assms unfolding good_path_def path_ok_def by blast+
  then show "\<exists>es. scope_edges p (se_scopeId se) = originalCondensedEdge se # es" "s < se_scopeId se"
    "se_scopeId se \<le> scopeIdSequence p"
    by (auto simp: get_list_def)
qed

lemma nested_edge:
  "good_path g p \<Longrightarrow> se \<in> set (nested p s) \<Longrightarrow> originalCondensedEdge se \<in> set (scope_edges p (se_scopeId se))"
  using nested_facts(1) by fastforce

lemma rest_ok_scope:
  assumes "plain_graph g" "good_path g p"
  shows "rest_ok (scope_edges p s) (nested p s)" "rest_ok (tl (scope_edges p s)) (nested p s)"
proof -
  have e: "\<forall>e \<in> set (scope_edges p s). edge_ok (originalEdge e)" using good_path_edge(1) [OF assms] by blast
  then have t: "\<forall>e \<in> set (tl (scope_edges p s)). edge_ok (originalEdge e)" by (cases "scope_edges p s") auto
  have "\<forall>se \<in> set (nested p s). edge_ok (originalEdge (originalCondensedEdge se))"
    using good_path_edge(1) [OF assms nested_edge [OF assms(2)]] by blast
  with e t show "rest_ok (scope_edges p s) (nested p s)" "rest_ok (tl (scope_edges p s)) (nested p s)"
    by (simp_all add: rest_ok_def)
qed

section \<open>The walks\<close>

lemma generateQueryForScc_ok:
  assumes g: "plain_graph g" and p: "good_path g p"
    and c: "case scope of None \<Rightarrow> c = scc g ! rootVertex p
            | Some se \<Rightarrow> c = cl_component (cond_to (originalCondensedEdge se)) \<and> scope_edges p s \<noteq> []"
    and wf: "component_wf c"
  shows "isOk (generateQueryForScc g s p scope cq)"
proof -
  have root: "nth_res (scc g) (rootVertex p) = Inr (scc g ! rootVertex p)"
    using scc_length [OF g] p by (simp add: nth_res_def good_path_def)
  have body: "isOk (if length (groupedCycles c) = 1
              then bindR (getOneCycleGroup c) (\<lambda>cycleGroup.
                   bindR (foldR (\<lambda>cycle. generateRecursiveQueriesForCycle s cycle rest (nested p s)
                                    (getOverlapMap cycleGroup) []) cycleGroup cq) (\<lambda>cq.
                   bindR (generateFilteredQueries s cycleGroup cq)
                     (generateQueriesForVertexesInCycle s cycleGroup)))
              else generateQueriesForMultiGroupScc (\<lambda>_. []) s c rest (nested p s) cq)"
    if rest: "rest_ok rest (nested p s)" for rest
  proof (cases "length (groupedCycles c) = 1")
    case True
    obtain cs where cs: "getOneCycleGroup c = Inr cs" "group_wf cs" using getOneCycleGroup_ok [OF wf True] by blast
    then have "cs \<noteq> []" by (simp add: group_wf_def)
    with True cs rest show ?thesis
      by (auto intro!: isOk_bindR cycle_loop_ok generateFilteredQueries_ok generateQueriesForVertexesInCycle_ok)
  next
    case False
    then show ?thesis using generateQueriesForMultiGroupScc_ok [OF wf rest] by simp
  qed
  show ?thesis
  proof (cases scope)
    case None
    then have "scc g ! rootVertex p = c" using c by simp
    with None body [OF rest_ok_scope(1) [OF g p]] show ?thesis
      unfolding generateQueryForScc_def Let_def root by simp
  next
    case (Some se)
    then have "cl_component (cond_to (originalCondensedEdge se)) = c" "scope_edges p s \<noteq> []" using c by simp_all
    with Some body [OF rest_ok_scope(2) [OF g p]] show ?thesis
      unfolding generateQueryForScc_def Let_def root by simp
  qed
qed

lemma acyclic_scope_item_ok:
  assumes "plain_graph g" "good_path g p"
  shows "isOk (acyclic_scope_item p se qs cq)"
proof -
  have "\<forall>e \<in> set (List.map originalEdge (tl (scope_edges p (se_scopeId se)))). edge_ok e"
    using rest_ok_scope(2) [OF assms, of "se_scopeId se"] by (simp add: rest_ok_def)
  from plain_conditions_ok [OF this] show ?thesis
    unfolding acyclic_scope_item_def Let_def by (auto intro!: isOk_bindR split: prod.split)
qed

lemma component_at:
  assumes g: "plain_graph g" and p: "good_path g p" and se: "se \<in> set (nested p s)"
  shows "component_wf (cl_component (cond_to (originalCondensedEdge se)))"
  using component_wf_built good_path_edge [OF g p nested_edge [OF p se]] g by (auto simp: plain_graph_def)

lemma scc_walk_nested:
  assumes g: "plain_graph g" and p: "good_path g p"
  shows "se \<in> set (nested p s) \<Longrightarrow> scopeIdSequence p + 1 < n + se_scopeId se \<Longrightarrow>
    isOk (generateQueriesSccDfs n g paths p (Some se) cq)"
proof (induction n arbitrary: se s cq)
  case 0
  then show ?case using nested_facts(3) [OF p 0(1)] by simp
next
  case (Suc n)
  let ?s = "se_scopeId se"
  obtain es where es: "scope_edges p ?s = originalCondensedEdge se # es" using nested_facts(1) [OF p Suc.prems(1)] by blast
  show ?case
  proof (cases "into_cycle se")
    case False
    have "nested p ?s = []"
      using closed_scope [OF _ _ Suc.prems(1) False] p unfolding good_path_def by blast
    then show ?thesis
      using es False acyclic_scope_item_ok [OF g p] by (simp add: generateIdsCteForAcyclicScope_def)
  next
    case True
    have q: "isOk (generateQueryForScc g ?s p (Some se) cq)"
      by (rule generateQueryForScc_ok [OF g p _ component_at [OF g p Suc.prems(1)]]) (simp add: es)
    have "isOk (generateQueriesSccDfs n g paths p (Some se') cq')" if "se' \<in> set (nested p ?s)" for se' cq'
      by (rule Suc.IH [OF that]) (use nested_facts(2) [OF p that] Suc.prems(2) in simp)
    with True es q show ?thesis by (auto intro!: isOk_bindR isOk_foldR)
  qed
qed

lemma scc_walk_root:
  assumes g: "plain_graph g" and p: "good_path g p" and n: "scopeIdSequence p + 1 < n"
  shows "isOk (generateQueriesSccDfs n g paths p None cq)"
proof -
  obtain m where m: "n = Suc m" using n by (cases n) auto
  have "component_wf (scc g ! rootVertex p)"
    using component_wf_built g p by (simp add: plain_graph_def good_path_def)
  then have q: "isOk (generateQueryForScc g rootScopeId p None cq)" by (intro generateQueryForScc_ok [OF g p]) simp
  have "isOk (generateQueriesSccDfs m g paths p (Some se) cq')" if "se \<in> set (nested p rootScopeId)" for se cq'
    by (rule scc_walk_nested [OF g p that]) (use nested_facts(2) [OF p that] n m in simp)
  with q show ?thesis unfolding m by (auto intro!: isOk_bindR isOk_foldR)
qed

text \<open>All the paths of a search, and a bound on their scopes.\<close>

definition good_paths :: "Graph \<Rightarrow> (nat \<rightharpoonup> Path) \<Rightarrow> nat \<Rightarrow> bool" where
  "good_paths g paths B \<longleftrightarrow> (\<forall>v. paths v \<noteq> None \<longleftrightarrow> v < sscCount g \<and> restricted g v) \<and>
     (\<forall>v p. paths v = Some p \<longrightarrow> good_path g p \<and> rootVertex p = v \<and> scopeIdSequence p \<le> B)"

lemma table_query_ok:
  assumes g: "plain_graph g" and p: "good_path g p" and root: "\<not> hasCycle (scc g ! rootVertex p)"
    and tables: "c_tables (scc g ! rootVertex p) \<noteq> []"
    and scope: "case scope of None \<Rightarrow> True | Some se \<Rightarrow> scope_edges p (se_scopeId se) \<noteq> []"
  shows "isOk (generateQueryForTables g p scope qs)"
proof -
  have r: "nth_res (scc g) (rootVertex p) = Inr (scc g ! rootVertex p)"
    "getOneTable (scc g ! rootVertex p) = Inr (snd (hd (c_tables (scc g ! rootVertex p))))"
    using scc_length [OF g] p root tables by (simp_all add: nth_res_def good_path_def getOneTable_def)
  have "isOk (plain_conditions (List.map originalEdge (scope_edges p s)) t qs)"
    "isOk (plain_conditions (tl (List.map originalEdge (scope_edges p s))) t qs)" for s t
    using rest_ok_scope [OF g p, of s] by (auto intro!: plain_conditions_ok simp: rest_ok_def map_tl [symmetric])
  with scope show ?thesis
    unfolding generateQueryForTables_def Let_def r bindR.simps
    by (cases scope) (auto intro!: isOk_bindR split: prod.split)
qed

lemma table_walk_nested:
  assumes g: "plain_graph g" and ps: "good_paths g paths B" and p: "good_path g p"
    and root: "\<not> hasCycle (scc g ! rootVertex p)" and tables: "c_tables (scc g ! rootVertex p) \<noteq> []"
    and se: "se \<in> set (nested p s)" and n: "B + 2 < n"
  shows "isOk (generateQueriesDfs n g paths p (Some se))"
proof -
  obtain m where m: "n = Suc m" using n by (cases n) auto
  obtain es where es: "scope_edges p (se_scopeId se) = originalCondensedEdge se # es"
    using nested_facts(1) [OF p se] by blast
  note e = good_path_edge [OF g p nested_edge [OF p se]]
  show ?thesis
  proof (cases "into_cycle se")
    case True
    have "restricted g (to_comp (originalCondensedEdge se))"
      using e(1,4) by (auto simp: leads_def restricting_def restricted_def edge_ok_def
          condensed_hasPolymorphicExpressions_def)
    then obtain p2 where p2: "paths (to_comp (originalCondensedEdge se)) = Some p2" "good_path g p2"
      "scopeIdSequence p2 \<le> B"
      using ps e(3) unfolding good_paths_def by (metis not_None_eq)
    have "isOk (generateQueriesSccDfs m g paths p2 None cq)" for cq
      by (rule scc_walk_root [OF g p2(2)]) (use p2(3) n m in simp)
    with True es p2(1) show ?thesis
      unfolding m by (auto simp: generateQueryForSccScope_def intro!: isOk_bindR)
  next
    case False
    have "nested p (se_scopeId se) = []"
      using closed_scope [OF _ _ se False] p unfolding good_path_def by blast
    with False es table_query_ok [OF g p root tables, of "Some se"] show ?thesis unfolding m by simp
  qed
qed

lemma table_walk_root:
  assumes g: "plain_graph g" and ps: "good_paths g paths B" and p: "good_path g p"
    and root: "\<not> hasCycle (scc g ! rootVertex p)" and tables: "c_tables (scc g ! rootVertex p) \<noteq> []"
    and n: "B + 3 < n"
  shows "isOk (generateQueriesDfs n g paths p None)"
proof -
  obtain m where m: "n = Suc m" using n by (cases n) auto
  have "isOk (generateQueriesDfs m g paths p (Some se))" if "se \<in> set (nested p rootScopeId)" for se
    by (rule table_walk_nested [OF g ps p root tables that]) (use n m in simp)
  with table_query_ok [OF g p root tables, of None] show ?thesis
    unfolding m by (auto intro!: isOk_bindR isOk_mapR)
qed

section \<open>The queries of all paths\<close>

lemma good_paths_exist:
  assumes g: "plain_graph g"
  shows "\<exists>paths B. findSubsetVertexes g = Inr paths \<and> good_paths g paths B"
proof -
  have c: "condensation_ok g" using g by (simp add: plain_graph_def)
  from findSubsetVertexes_facts [OF c] obtain paths where paths: "findSubsetVertexes g = Inr paths"
    "\<forall>v. paths v \<noteq> None \<longleftrightarrow> v < sscCount g \<and> restricted g v"
    "\<forall>v p. paths v = Some p \<longrightarrow> path_ok p \<and> rootVertex p = v" by blast
  let ?seqs = "(\<lambda>v. scopeIdSequence (the (paths v))) ` {..<sscCount g}"
  have B: "scopeIdSequence p \<le> Max ?seqs" if "paths v = Some p" for v p
  proof -
    have "v < sscCount g" using paths(2) that by (metis option.discI)
    then have "scopeIdSequence (the (paths v)) \<in> ?seqs" by simp
    from Max_ge [OF _ this] that show ?thesis by simp
  qed
  have "scopes_ok g p" if "paths v = Some p" for v p
    by (rule scopes.paths_have [OF condensation_increasing [OF c] paths(1) that])
  then have "good_paths g paths (Max ?seqs)"
    using paths(2,3) B unfolding good_paths_def good_path_def by (metis option.discI)
  with paths(1) show ?thesis by blast
qed

lemma only_element: "xs \<noteq> [] \<Longrightarrow> distinct xs \<Longrightarrow> (\<And>u v. u \<in> set xs \<Longrightarrow> v \<in> set xs \<Longrightarrow> u = v) \<Longrightarrow> \<exists>v. xs = [v]"
proof -
  assume a: "xs \<noteq> []" "distinct xs" and same: "\<And>u v. u \<in> set xs \<Longrightarrow> v \<in> set xs \<Longrightarrow> u = v"
  obtain x ys where xs: "xs = x # ys" using a(1) by (cases xs) auto
  have "ys = []"
  proof (cases ys)
    case (Cons y zs)
    then have "x = y" using same [of x y] xs by simp
    with a(2) xs Cons show ?thesis by simp
  qed
  with xs show ?thesis by simp
qed

lemma acyclic_single:
  assumes g: "condensation_ok g" and i: "i < sscCount g" and acyclic: "\<not> hasCycle (scc g ! i)"
  shows "\<exists>v. part (visited g) i = [v]"
proof -
  let ?cg = "component_graph (graph g) (part (visited g) i)"
  have ok: "graph_ok g" and num: "int ` {..<sscCount g} = set (visited g)"
    and cmp: "\<And>u v. u < length (graph g) \<Longrightarrow> v < length (graph g) \<Longrightarrow>
       visited g ! u = visited g ! v \<longleftrightarrow> connected (graph g) u v \<and> connected (graph g) v u"
    and built: "NewComponent i ?cg (c_tables (scc g ! i)) = Inr (scc g ! i)"
    using g i unfolding condensation_ok_def by blast+
  have len: "length (visited g) = length (graph g)" using ok by (simp add: graph_ok_def)
  have wf: "cg_wf ?cg" by (rule part_cg_wf [OF ok len])
  have none: "\<forall>x \<in> vertices ?cg. \<not> (points_to ?cg)\<^sup>+\<^sup>+ x x"
    using NewComponent_total [OF wf, of i "c_tables (scc g ! i)"] built acyclic by auto
  have mem: "v \<in> set (part (visited g) i) \<longleftrightarrow> v < length (graph g) \<and> visited g ! v = int i" for v
    using len by (auto simp: part_def)
  have "u = v" if u: "u \<in> set (part (visited g) i)" and v: "v \<in> set (part (visited g) i)" for u v
  proof (rule ccontr)
    assume ne: "u \<noteq> v"
    have l: "u < length (graph g)" "v < length (graph g)" "visited g ! u = int i" "visited g ! v = int i"
      using u v mem by auto
    then have "connected (graph g) u v" "connected (graph g) v u" using cmp by metis+
    then have "(points_to ?cg)\<^sup>*\<^sup>* u v" "(points_to ?cg)\<^sup>*\<^sup>* v u"
      using connected_inside [OF ok len cmp] l by blast+
    then have "(points_to ?cg)\<^sup>+\<^sup>+ u u" using ne by (metis rtranclpD tranclp_trans)
    moreover have "u \<in> vertices ?cg" using u by (force simp: vertices_def component_graph_def)
    ultimately show False using none by blast
  qed
  moreover have "int i \<in> set (visited g)" using num i by blast
  then obtain v where "v \<in> set (part (visited g) i)" using mem len by (auto simp: in_set_conv_nth)
  moreover have "distinct (part (visited g) i)" by (simp add: part_def)
  ultimately show ?thesis by (intro only_element) auto
qed

lemma fold_queries_dom: "dom (fold (\<lambda>(v, t) queries. queries(v \<mapsto> f t)) ts q) = dom q \<union> fst ` set ts"
  by (induction ts arbitrary: q) auto

text \<open>Each path adds the queries of the tables of its component.\<close>

lemma set_query_ok:
  assumes g: "plain_graph g" and ps: "good_paths g paths B" and n: "B + 3 < n"
  shows "\<exists>q'. set_query n g paths v q = Inr q' \<and>
    dom q' = dom q \<union> (if paths v = None then {} else set (part (visited g) v))"
proof (cases "paths v")
  case None
  then show ?thesis by (simp add: set_query_def)
next
  case (Some p)
  then have p: "good_path g p" "rootVertex p = v" "scopeIdSequence p \<le> B" "v < sscCount g"
    using ps unfolding good_paths_def good_path_def by auto
  have c: "condensation_ok g" using g by (simp add: plain_graph_def)
  have r: "nth_res (scc g) v = Inr (scc g ! v)" using scc_length [OF g] p(4) by (simp add: nth_res_def)
  have ts: "c_tables (scc g ! v) = List.map (\<lambda>v. (v, g_tables g ! v)) (part (visited g) v)"
    using c p(4) unfolding condensation_ok_def by blast
  show ?thesis
  proof (cases "hasCycle (scc g ! v)")
    case True
    obtain cq where "generateQueriesSccDfs n g paths p None (newCteQuery (scc g ! v)) = Inr cq"
    proof -
      have "scopeIdSequence p + 1 < n" using p(3) n by simp
      from scc_walk_root [OF g p(1) this] that show ?thesis by (auto simp: isOk_iff)
    qed
    then have s: "set_query n g paths v q =
        Inr (fold (\<lambda>(v, t) queries. queries(v \<mapsto> cte_generateQuery cq t)) (c_tables (scc g ! v)) q)"
      using Some True by (simp add: set_query_def isPathForScc_def generateAndSetQueryForScc_def p(2) r)
    have "fst ` set (c_tables (scc g ! v)) = set (part (visited g) v)" by (force simp: ts)
    then show ?thesis unfolding s by - (intro exI conjI, rule refl, simp add: fold_queries_dom Some)
  next
    case False
    obtain u where u: "part (visited g) v = [u]" using acyclic_single [OF c p(4) False] by blast
    have t: "c_tables (scc g ! v) = [(u, g_tables g ! u)]" by (simp add: ts u)
    have "isOk (generateQueriesDfs n g paths p None)"
      by (rule table_walk_root [OF g ps p(1) _ _ n]) (use False t p(2) in auto)
    then obtain q1 where "generateQueriesDfs n g paths p None = Inr q1" by (auto simp: isOk_iff)
    then have "set_query n g paths v q = Inr (q(u \<mapsto> q1))"
      using Some False t
      by (simp add: set_query_def isPathForScc_def generateAndSetQueryForTable_def p(2) r getOneTable_def)
    with Some u show ?thesis by auto
  qed
qed

lemma set_queries_ok:
  assumes g: "plain_graph g" and ps: "good_paths g paths B" and n: "B + 3 < n"
  shows "\<exists>q'. foldR (set_query n g paths) vs q = Inr q' \<and>
    dom q' = dom q \<union> (\<Union>v \<in> set vs. if paths v = None then {} else set (part (visited g) v))"
proof (induction vs arbitrary: q)
  case Nil
  then show ?case by simp
next
  case (Cons v vs)
  obtain q1 where q1: "set_query n g paths v q = Inr q1"
    "dom q1 = dom q \<union> (if paths v = None then {} else set (part (visited g) v))"
    using set_query_ok [OF g ps n] by blast
  obtain q2 where "foldR (set_query n g paths) vs q1 = Inr q2"
    "dom q2 = dom q1 \<union> (\<Union>v \<in> set vs. if paths v = None then {} else set (part (visited g) v))"
    using Cons by blast
  with q1 show ?case by (intro exI [of _ q2]) (simp add: Un_assoc)
qed

text \<open>With enough fuel the queries are generated, for exactly the tables of restricted components.\<close>

lemma SetSubsetQueries_ok:
  assumes g: "plain_graph g"
  shows "\<exists>N. \<forall>n \<ge> N. \<exists>q. SetSubsetQueries n g = Inr q \<and>
    dom q = {v. v < length (g_tables g) \<and> restricted g (nat (visited g ! v))}"
proof -
  obtain paths B where ps: "findSubsetVertexes g = Inr paths" "good_paths g paths B"
    using good_paths_exist [OF g] by blast
  have c: "condensation_ok g" using g by (simp add: plain_graph_def)
  have num: "int ` {..<sscCount g} = set (visited g)" and ok: "graph_ok g"
    and l: "length (condensedGraph g) = sscCount g"
    using c unfolding condensation_ok_def condensed_ok_def by auto
  have len: "length (visited g) = length (g_tables g)" using ok by (simp add: graph_ok_def)
  have comp: "\<exists>i < sscCount g. visited g ! v = int i" if "v < length (visited g)" for v
  proof -
    have "visited g ! v \<in> int ` {..<sscCount g}" using that num by simp
    then show ?thesis by auto
  qed
  have dom: "(\<Union>v \<in> set [0..<length (condensedGraph g)]. if paths v = None then {} else set (part (visited g) v)) =
      {v. v < length (g_tables g) \<and> restricted g (nat (visited g ! v))}"
  proof (intro set_eqI iffI)
    fix v
    assume "v \<in> (\<Union>v \<in> set [0..<length (condensedGraph g)]. if paths v = None then {} else set (part (visited g) v))"
    then obtain i where "paths i \<noteq> None" "v \<in> set (part (visited g) i)" by (auto split: if_splits)
    with ps(2) len show "v \<in> {v. v < length (g_tables g) \<and> restricted g (nat (visited g ! v))}"
      by (auto simp: good_paths_def part_def)
  next
    fix v
    assume "v \<in> {v. v < length (g_tables g) \<and> restricted g (nat (visited g ! v))}"
    then have v: "v < length (visited g)" "restricted g (nat (visited g ! v))" using len by auto
    from comp [OF v(1)] obtain i where i: "i < sscCount g" "visited g ! v = int i" by blast
    with v ps(2) have "paths i \<noteq> None" "v \<in> set (part (visited g) i)" by (auto simp: good_paths_def part_def)
    with i(1) l show "v \<in> (\<Union>v \<in> set [0..<length (condensedGraph g)].
        if paths v = None then {} else set (part (visited g) v))" by auto
  qed
  have "\<exists>q. SetSubsetQueries n g = Inr q \<and> dom q = {v. v < length (g_tables g) \<and> restricted g (nat (visited g ! v))}"
    if "n \<ge> B + 4" for n
  proof -
    have "B + 3 < n" using that by simp
    from set_queries_ok [OF g ps(2) this, of "[0..<length (condensedGraph g)]" Map.empty] show ?thesis
      unfolding SetSubsetQueries_def ps(1) bindR.simps dom by simp
  qed
  then show ?thesis by blast
qed

section \<open>The graphs that are built from matching references\<close>

definition keys_match :: "(32 word \<Rightarrow> Reference list res) \<Rightarrow> Table list \<Rightarrow> VirtualReference list \<Rightarrow> bool" where
  "keys_match getReferences tables vr \<longleftrightarrow>
     (\<forall>t \<in> set tables. case getReferences (t_Oid t) of Inl _ \<Rightarrow> False
        | Inr refs \<Rightarrow> \<forall>r \<in> set refs. length (ReferencedKeys r) = length (RefTableKeys r)) \<and>
     (\<forall>v \<in> set vr. \<forall>r \<in> set (vr_References v). dref_PolymorphicExprs r = [] \<and>
        (case table_index tables (dref_Schema r) (dref_Name r) of None \<Rightarrow> True
         | Some i \<Rightarrow> length (dref_Columns r) = length (t_PrimaryKey (tables ! i))))"

lemma add_reference_edges:
  "\<forall>e \<in> set (b_edges b). edge_ok e \<and> edge_linked tables e \<Longrightarrow> length (ReferencedKeys r) = length (RefTableKeys r) \<Longrightarrow>
   \<forall>e \<in> set (b_edges (add_reference tables i r b)). edge_ok e \<and> edge_linked tables e"
  by (auto simp: add_reference_def Let_def edge_ok_def edge_linked_def NewEdge_def NewTableLink_def NewKeysByColumn_def
      split: option.split)

lemma add_virtual_edges:
  "\<forall>e \<in> set (b_edges b). edge_ok e \<and> edge_linked tables e \<Longrightarrow> dref_PolymorphicExprs r = [] \<Longrightarrow>
   (case table_index tables (dref_Schema r) (dref_Name r) of None \<Rightarrow> True
         | Some i \<Rightarrow> length (dref_Columns r) = length (t_PrimaryKey (tables ! i))) \<Longrightarrow>
   \<forall>e \<in> set (b_edges (add_virtual tables i r b)). edge_ok e \<and> edge_linked tables e"
  by (auto simp: add_virtual_def Let_def edge_ok_def edge_linked_def NewEdge_def NewTableLink_def NewKeysByColumn_def
      NewKeysByReferencedColumn_def split: option.splits)

lemma fold_keeps_in: "P b \<Longrightarrow> (\<And>x b. x \<in> set xs \<Longrightarrow> P b \<Longrightarrow> P (f x b)) \<Longrightarrow> P (fold f xs b)"
  by (induction xs arbitrary: b) auto

lemma buildCondensedGraph_edges: "buildCondensedGraph g = Inr g' \<Longrightarrow> g_edges g' = g_edges g"
  by (auto simp: buildCondensedGraph_def bindR_eq_Inr Let_def split: prod.splits)

lemma NewGraph_plain:
  assumes k: "keys_match getReferences tables vr"
  shows "\<exists>g. NewGraph getReferences tables vr = Inr g \<and> plain_graph g \<and> g_tables g = tables"
proof -
  have refs: "\<exists>refs. getReferences (t_Oid t) = Inr refs \<and> (\<forall>r \<in> set refs. length (ReferencedKeys r) = length (RefTableKeys r))"
    if "t \<in> set tables" for t
    using k that unfolding keys_match_def by (fastforce split: sum.splits)
  then have "\<forall>t \<in> set tables. \<exists>refs. getReferences (t_Oid t) = Inr refs" by blast
  from NewGraph_ok [OF this] obtain g where g: "NewGraph getReferences tables vr = Inr g" "g_tables g = tables"
    "condensation_ok g" by blast
  obtain b where b: "foldR (add_table getReferences vr tables) [0..<length tables] (new_builder tables) = Inr b"
    and gb: "g_edges g = b_edges b"
    using g(1) buildCondensedGraph_edges unfolding NewGraph_def by (fastforce simp: bindR_eq_Inr)
  have virtual: "\<forall>r \<in> set (getVirtualReferences vr t). dref_PolymorphicExprs r = [] \<and>
        (case table_index tables (dref_Schema r) (dref_Name r) of None \<Rightarrow> True
         | Some i \<Rightarrow> length (dref_Columns r) = length (t_PrimaryKey (tables ! i)))" for t
  proof (cases "index_func (\<lambda>r. vr_Schema r = t_Schema t \<and> vr_Name r = t_Name t) vr")
    case None
    then show ?thesis by (simp add: getVirtualReferences_def)
  next
    case (Some i)
    then have "vr ! i \<in> set vr" "getVirtualReferences vr t = vr_References (vr ! i)"
      using index_func_Some by (fastforce, simp add: getVirtualReferences_def)
    with k show ?thesis unfolding keys_match_def by metis
  qed
  have "\<forall>e \<in> set (b_edges b). edge_ok e \<and> edge_linked tables e"
  proof (rule foldR_invariant [OF b, where P = "\<lambda>b. \<forall>e \<in> set (b_edges b). edge_ok e \<and> edge_linked tables e"])
    show "\<forall>e \<in> set (b_edges (new_builder tables)). edge_ok e \<and> edge_linked tables e" by (simp add: new_builder_def)
  next
    fix i b b'
    assume i: "i \<in> set [0..<length tables]" and P: "\<forall>e \<in> set (b_edges b). edge_ok e \<and> edge_linked tables e"
      and r: "add_table getReferences vr tables i b = Inr b'"
    have "tables ! i \<in> set tables" using i by simp
    from refs [OF this] obtain rs where rs: "getReferences (t_Oid (tables ! i)) = Inr rs"
      "\<forall>r \<in> set rs. length (ReferencedKeys r) = length (RefTableKeys r)" by blast
    have b': "b' = fold (add_virtual tables i) (getVirtualReferences vr (tables ! i)) (fold (add_reference tables i) rs b)"
      using r rs(1) by (simp add: add_table_def)
    show "\<forall>e \<in> set (b_edges b'). edge_ok e \<and> edge_linked tables e" unfolding b'
      by (rule fold_keeps_in [where P = "\<lambda>b. \<forall>e \<in> set (b_edges b). edge_ok e \<and> edge_linked tables e"],
          rule fold_keeps_in [where P = "\<lambda>b. \<forall>e \<in> set (b_edges b). edge_ok e \<and> edge_linked tables e", OF P],
          rule add_reference_edges, assumption, use rs(2) in blast,
          rule add_virtual_edges, assumption, use virtual in blast, use virtual in blast)
  qed
  with g gb show ?thesis by (intro exI [of _ g]) (simp add: plain_graph_def)
qed

text \<open>
  Claim C9. Generating the subset queries ends without a panic whenever the keys of every reference match in
  number and none is polymorphic, whatever cycles the references form; the tables that get a query are exactly
  those of components that have subset conditions or refer, over any number of references, to one that has.
\<close>

theorem SetSubsetQueries_total:
  assumes "keys_match getReferences tables vr"
  shows "\<exists>g N. NewGraph getReferences tables vr = Inr g \<and> (\<forall>n \<ge> N. \<exists>q. SetSubsetQueries n g = Inr q \<and>
    dom q = {v. v < length tables \<and> restricted g (nat (visited g ! v))})"
proof -
  obtain g where "NewGraph getReferences tables vr = Inr g" "plain_graph g" "g_tables g = tables"
    using NewGraph_plain [OF assms] by blast
  with SetSubsetQueries_ok [of g] show ?thesis by auto
qed

text \<open>Two tables that refer to each other, one of them with a condition.\<close>

definition cyclic_tables :: "Table list" where
  "cyclic_tables =
     [(sample_table 0)\<lparr>t_Name := ''a''\<rparr>, (sample_table 1)\<lparr>t_Name := ''b'', t_SubsetConds := [''x > 1'']\<rparr>]"

definition cyclic_refs :: "32 word \<Rightarrow> Reference list res" where
  "cyclic_refs oid =
     Inr [\<lparr>ref_Schema = ''s'', ref_Name = (if oid = 100 then ''b'' else ''a''), ReferencedKeys = [''ref_id''],
           RefTableKeys = [''id''], ref_IsNullable = True\<rparr>]"

lemma cyclic_keys_match: "keys_match cyclic_refs cyclic_tables []"
  by (simp add: keys_match_def cyclic_refs_def)

theorem SetSubsetQueries_total_witness:
  "\<exists>g N. NewGraph cyclic_refs cyclic_tables [] = Inr g \<and> (\<forall>n \<ge> N. \<exists>q. SetSubsetQueries n g = Inr q \<and>
    dom q = {v. v < length cyclic_tables \<and> restricted g (nat (visited g ! v))})"
  by (rule SetSubsetQueries_total [OF cyclic_keys_match])

section \<open>A polymorphic reference to a cycle\<close>

definition poly_tables :: "Table list" where
  "poly_tables = [(sample_table 0)\<lparr>t_Name := ''a''\<rparr>, (sample_table 1)\<lparr>t_Name := ''b''\<rparr>]"

definition poly_refs :: "32 word \<Rightarrow> Reference list res" where
  "poly_refs oid =
     Inr (if oid = 101 then [\<lparr>ref_Schema = ''s'', ref_Name = ''b'', ReferencedKeys = [''parent_id''],
                             RefTableKeys = [''id''], ref_IsNullable = True\<rparr>] else [])"

definition poly_virtual :: "VirtualReference list" where
  "poly_virtual = [\<lparr>vr_Schema = ''s'', vr_Name = ''a'', vr_References =
     [\<lparr>dref_Schema = ''s'', dref_Name = ''b'', dref_NotNull = False, dref_Columns = [(''b_id'', '''')],
       dref_PolymorphicExprs = [''kind = 1'']\<rparr>]\<rparr>]"

text \<open>
  A polymorphic reference from a table to one that refers to itself, with no subset condition
  anywhere: generating the subset queries dereferences the missing path of the cyclic component.
\<close>

lemma polymorphic_cycle_panics:
  "case NewGraph poly_refs poly_tables poly_virtual of
     Inl _ \<Rightarrow> False
   | Inr g \<Rightarrow> (case SetSubsetQueries 5 g of Inl f \<Rightarrow> f = Panic ''nil pointer dereference'' | Inr _ \<Rightarrow> False)"
  by code_simp

end
