(* ===== verification/SubsetCte.thy ===== *)
theory SubsetCte
  imports SubsetQueriesProps
begin

text \<open>
  The list of common table expressions of a component with one group of cycles: no name is defined twice, and
  every item that an item, or the final query, selects from is defined.
\<close>

section \<open>Names of items\<close>

definition cte_names :: "cteQuery \<Rightarrow> string set" where
  "cte_names cq = item_name ` set (cte_items cq)"

definition cte_ok :: "cteQuery \<Rightarrow> bool" where
  "cte_ok cq \<longleftrightarrow> distinct (List.map item_name (cte_items cq)) \<and> set (addedNames cq) = cte_names cq"

definition grows :: "cteQuery \<Rightarrow> cteQuery \<Rightarrow> bool" where
  "grows cq cq' \<longleftrightarrow> cte_ok cq' \<and> cte_names cq \<subseteq> cte_names cq'"

lemma newCteQuery_ok: "cte_ok (newCteQuery c)"
  by (simp add: cte_ok_def newCteQuery_def cte_names_def)

lemma addItem_ok: "cte_ok cq \<Longrightarrow> cte_ok (addItem n q cq)"
  by (auto simp: cte_ok_def addItem_def cte_names_def)

lemma addItem_names: "cte_ok cq \<Longrightarrow> cte_names (addItem n q cq) = insert n (cte_names cq)"
  by (auto simp: cte_ok_def addItem_def cte_names_def)

lemma addItem_grows: "cte_ok cq \<Longrightarrow> grows cq (addItem n q cq)"
  by (auto simp: grows_def addItem_ok addItem_names)

lemma grows_refl: "cte_ok cq \<Longrightarrow> grows cq cq"
  by (simp add: grows_def)

lemma grows_trans: "grows a b \<Longrightarrow> grows b c \<Longrightarrow> grows a c"
  by (auto simp: grows_def)

text \<open>A loop each round of which grows the list and establishes something that lasts.\<close>

lemma foldR_grows:
  assumes "foldR f xs cq = Inr cq'" and "cte_ok cq"
    and "\<And>x a b. x \<in> set xs \<Longrightarrow> cte_ok a \<Longrightarrow> f x a = Inr b \<Longrightarrow> grows a b \<and> R x \<subseteq> cte_names b"
  shows "grows cq cq' \<and> (\<Union>x \<in> set xs. R x) \<subseteq> cte_names cq'"
  using assms
proof (induction xs arbitrary: cq)
  case Nil
  then show ?case by (simp add: grows_refl)
next
  case (Cons x xs)
  obtain b where b: "f x cq = Inr b" "foldR f xs b = Inr cq'" using Cons.prems(1) by (auto simp: bindR_eq_Inr)
  have 1: "grows cq b" "R x \<subseteq> cte_names b" using Cons.prems(3) [OF _ Cons.prems(2) b(1)] by auto
  then have ok: "cte_ok b" by (simp add: grows_def)
  have "grows b cq' \<and> (\<Union>x \<in> set xs. R x) \<subseteq> cte_names cq'"
    by (rule Cons.IH [OF b(2) ok]) (use Cons.prems(3) in auto)
  with 1 show ?case by (auto simp: grows_def)
qed

section \<open>Items of cycles and their rotations\<close>

definition name_of :: "string res \<Rightarrow> string set" where
  "name_of r = (case r of Inl _ \<Rightarrow> {} | Inr n \<Rightarrow> {n})"

lemma name_of_Inr [simp]: "name_of (Inr n) = {n}"
  by (simp add: name_of_def)

lemma cut_mult: "r < n \<Longrightarrow> (n - r) * (n - 1) = (n - r - 1) * n + (r :: nat)"
  using less_iff_Suc_add [of r n] by (auto simp: algebra_simps)

lemma rotation_index: "c \<noteq> [] \<Longrightarrow> \<exists>k < length c. rotate m c = rotate (k * (length c - 1)) c"
proof -
  assume c: "c \<noteq> []"
  let ?n = "length c" and ?k = "(length c - m mod length c) mod length c"
  have n: "?n > 0" using c by simp
  have "m mod ?n < ?n" using n by (rule mod_less_divisor)
  have "(?k * (?n - 1)) mod ?n = m mod ?n"
  proof (cases "m mod ?n = 0")
    case False
    have kn: "?k = ?n - m mod ?n" using False n by (simp add: mod_less_divisor)
    let ?r = "m mod ?n"
    have r: "0 < ?r" "?r < ?n" using False \<open>m mod ?n < ?n\<close> by auto
    from cut_mult [OF r(2)] have "(?n - ?r) * (?n - 1) = (?n - ?r - 1) * ?n + ?r" .
    then show ?thesis unfolding kn by (metis mod_mult_self3 mod_mod_trivial)
  qed simp
  then have "rotate (?k * (?n - 1)) c = rotate m c" by (metis rotate_conv_mod)
  moreover have "?k < ?n" using n by (rule mod_less_divisor)
  ultimately show ?thesis by metis
qed

lemma getOverlapMap_some:
  assumes "c \<in> set cs" "length cs > 1"
  shows "\<exists>os. getOverlapMap cs (getCycleId c) = Some os \<and> os \<noteq> []"
proof -
  obtain j where "j < length cs" "cs ! j = c" using assms(1) by (auto simp: in_set_conv_nth)
  then have j: "\<exists>i \<in> set [0..<length cs]. cs ! i = c" by (intro bexI [of _ j]) auto
  have step: "\<exists>os. fold (\<lambda>i m. m(getCycleId (cs ! i) \<mapsto> others cs i)) is m (getCycleId c) = Some os \<and> os \<noteq> []"
    if "(\<exists>os. m (getCycleId c) = Some os \<and> os \<noteq> []) \<or> (\<exists>i \<in> set is. cs ! i = c)" "\<forall>i \<in> set is. i < length cs" for "is" m
    using that
  proof (induction "is" arbitrary: m)
    case Nil
    then show ?case by simp
  next
    case (Cons i "is")
    have "length (others cs i) = length cs - 1" using Cons.prems(2) by (simp add: others_def)
    then have "others cs i \<noteq> []" using assms(2) by auto
    then have "(\<exists>os. (m(getCycleId (cs ! i) \<mapsto> others cs i)) (getCycleId c) = Some os \<and> os \<noteq> []) \<or>
        (\<exists>i \<in> set is. cs ! i = c)"
      using Cons.prems(1) by auto
    from Cons.IH [of "m(getCycleId (cs ! i) \<mapsto> others cs i)", OF this] Cons.prems(2) show ?case by simp
  qed
  from step [of Map.empty "[0..<length cs]"] j show ?thesis unfolding getOverlapMap_def by simp
qed

lemma mset_rotate: "mset (rotate m xs) = mset xs"
proof -
  have "mset (rotate m xs) = mset (take (m mod length xs) xs @ drop (m mod length xs) xs)"
    by (simp only: rotate_drop_take mset_append add.commute)
  then show ?thesis by (simp only: append_take_drop_id)
qed

lemma sort_rotate: "sort (List.map f (rotate m c)) = sort (List.map f c)"
  by (rule properties_for_sort) (simp_all add: mset_rotate)

lemma rotate_ids [simp]:
  "getCycleId (rotate m c) = getCycleId c" "getCycleGroupId (rotate m c) = getCycleGroupId c"
  by (simp_all add: getCycleId_def getCycleGroupId_def sort_rotate)

text \<open>The names that one rotation of a cycle defines.\<close>

definition cycle_names :: "nat \<Rightarrow> bool \<Rightarrow> Edge list \<Rightarrow> string set" where
  "cycle_names s many r =
     name_of (getCycleQueryName s r '''') \<union> (if many then name_of (getCycleQueryName s r ''overlap'') else {})"

lemma cycle_items_defines:
  assumes r: "cycle_items s rest m om xs r cq = Inr cq'" and ok: "cte_ok cq"
    and many: "many \<Longrightarrow> \<exists>os. om (getCycleId r) = Some os \<and> os \<noteq> []"
  shows "grows cq cq' \<and> cycle_names s many r \<subseteq> cte_names cq'"
proof -
  obtain n q where n: "getCycleQueryName s r '''' = Inr n" and q: "generateQuery n r rest m xs = Inr q"
    and r2: "(let cq1 = addItem n q cq; overlapped = (case om (getCycleId r) of None \<Rightarrow> [] | Some os \<Rightarrow> os)
       in if length overlapped > 0
          then bindR (getCycleQueryName s r ''overlap'') (\<lambda>n2.
               bindR (generateOverlapQuery s n2 r rest m overlapped xs) (\<lambda>q2. Inr (addItem n2 q2 cq1)))
          else Inr cq1) = Inr cq'"
    using r unfolding cycle_items_def by (auto simp only: bindR_eq_Inr Let_def)
  have ok1: "cte_ok (addItem n q cq)" "grows cq (addItem n q cq)" "n \<in> cte_names (addItem n q cq)"
    using addItem_ok [OF ok] addItem_grows [OF ok] addItem_names [OF ok] by auto
  show ?thesis
  proof (cases "om (getCycleId r) = None \<or> om (getCycleId r) = Some []")
    case True
    then have "cq' = addItem n q cq" "\<not> many" using r2 many by auto
    with ok1 n show ?thesis by (simp add: cycle_names_def)
  next
    case False
    then obtain o1 os where "om (getCycleId r) = Some (o1 # os)" by (metis neq_Nil_conv not_Some_eq)
    then obtain n2 q2 where "getCycleQueryName s r ''overlap'' = Inr n2" "cq' = addItem n2 q2 (addItem n q cq)"
      using r2 by (auto simp: bindR_eq_Inr)
    with ok1 n addItem_grows [OF ok1(1)] addItem_names [OF ok1(1)] show ?thesis
      by (auto simp: cycle_names_def grows_def)
  qed
qed

lemma rotate_items_defines:
  assumes step: "\<And>r a b. set r = set c \<Longrightarrow> cte_ok a \<Longrightarrow> f r a = Inr b \<Longrightarrow> (\<exists>m. r = rotate m c) \<Longrightarrow> grows a b \<and> R r \<subseteq> cte_names b"
    and c: "c \<noteq> []"
  shows "rotate_items n f (rotate j c) cq = Inr cq' \<Longrightarrow> cte_ok cq \<Longrightarrow>
    grows cq cq' \<and> (\<forall>k < n. R (rotate (j + k * (length c - 1)) c) \<subseteq> cte_names cq')"
proof (induction n arbitrary: j cq)
  case 0
  then show ?case by (simp add: grows_refl)
next
  case (Suc n)
  have sh: "shiftCycle (rotate j c) = Inr (rotate (j + (length c - 1)) c)"
    using shift_rotate [of "rotate j c"] c by (simp add: rotate_rotate add.commute)
  obtain b where b: "f (rotate j c) cq = Inr b" "rotate_items n f (rotate (j + (length c - 1)) c) b = Inr cq'"
    using Suc.prems(1) by (auto simp: bindR_eq_Inr sh)
  have 1: "grows cq b" "R (rotate j c) \<subseteq> cte_names b" using step [OF _ Suc.prems(2) b(1)] by auto
  then have "cte_ok b" by (simp add: grows_def)
  from Suc.IH [OF b(2) this] have 2: "grows b cq'"
    "\<And>k. k < n \<Longrightarrow> R (rotate (j + (length c - 1) + k * (length c - 1)) c) \<subseteq> cte_names cq'" by blast+
  have "R (rotate (j + k * (length c - 1)) c) \<subseteq> cte_names cq'" if "k < Suc n" for k
  proof (cases k)
    case 0
    with 1(2) 2(1) show ?thesis by (auto simp: grows_def)
  next
    case (Suc i)
    with 2(2) [of i] that show ?thesis by (simp add: add.assoc)
  qed
  with grows_trans [OF 1(1) 2(1)] show ?case by blast
qed

lemma recursive_queries_define:
  assumes r: "generateRecursiveQueriesForCycle s c rest ses (getOverlapMap cs) xs cq = Inr cq'" and ok: "cte_ok cq"
    and c: "c \<in> set cs" "c \<noteq> []"
  shows "grows cq cq' \<and> (\<Union>m. cycle_names s (length cs > 1) (rotate m c)) \<subseteq> cte_names cq'"
proof -
  let ?f = "cycle_items s (rest @ List.map originalCondensedEdge ses) (override_scopes ses) (getOverlapMap cs) xs"
  have step: "grows a b \<and> cycle_names s (length cs > 1) r \<subseteq> cte_names b"
    if "cte_ok a" "?f r a = Inr b" "\<exists>m. r = rotate m c" for r a b
    by (rule cycle_items_defines [OF that(2,1)]) (use getOverlapMap_some [OF c(1)] that(3) in auto)
  have r0: "rotate_items (length c) ?f (rotate 0 c) cq = Inr cq'"
    using r by (simp add: generateRecursiveQueriesForCycle_def)
  have all: "grows cq cq'" "\<And>k. k < length c \<Longrightarrow>
      cycle_names s (length cs > 1) (rotate (0 + k * (length c - 1)) c) \<subseteq> cte_names cq'"
    using rotate_items_defines [where R = "cycle_names s (length cs > 1)", OF step c(2) r0 ok] by blast+
  have "cycle_names s (length cs > 1) (rotate m c) \<subseteq> cte_names cq'" for m
  proof -
    obtain k where "k < length c" "rotate m c = rotate (k * (length c - 1)) c" using rotation_index [OF c(2)] by blast
    with all(2) [of k] show ?thesis by simp
  qed
  with all(1) show ?thesis by blast
qed

section \<open>Filtered rows\<close>

definition filtered_names :: "nat \<Rightarrow> bool \<Rightarrow> Edge list \<Rightarrow> string set" where
  "filtered_names s many r =
     insert (getFilteredQueryName s (getCycleGroupId r) (link_table (edge_from (hd r))))
       (if many then name_of (getUnitedQueryName s r) else {})"

lemma filtered_items_define:
  assumes r: "filtered_items s cs cq = Inr cq'" and ok: "cte_ok cq"
  shows "grows cq cq' \<and> filtered_names s (length cs > 1) (hd cs) \<subseteq> cte_names cq'"
proof -
  obtain c first b q where "cs \<noteq> []" "c = hd cs" "c \<noteq> []" "first = hd c"
    and b: "(if length cs > 1
                 then bindR (generateUnitedCyclesQuery s cs) (\<lambda>u.
                      bindR (getUnitedQueryName s c) (\<lambda>n. Inr (addItem n u cq)))
                 else Inr cq) = Inr b"
    and q: "cq' = addItem (getFilteredQueryName s (getCycleGroupId c) (link_table (edge_from first))) q b"
    using r unfolding filtered_items_def by (auto simp only: bindR_eq_Inr Let_def first_of_Inr sum.inject)
  have "grows cq b \<and> (length cs > 1 \<longrightarrow> name_of (getUnitedQueryName s c) \<subseteq> cte_names b)"
  proof (cases "length cs > 1")
    case True
    with b obtain u n where "getUnitedQueryName s c = Inr n" "b = addItem n u cq" by (auto simp: bindR_eq_Inr)
    then show ?thesis using addItem_grows [OF ok] addItem_names [OF ok] by simp
  next
    case False
    with b ok show ?thesis by (simp add: grows_refl)
  qed
  moreover from this have "cte_ok b" by (simp add: grows_def)
  ultimately show ?thesis
    using addItem_grows addItem_names q \<open>c = hd cs\<close> \<open>first = hd c\<close> unfolding filtered_names_def grows_def by auto
qed

lemma rotate_filtered_defines:
  "rotate_filtered n s (List.map (rotate j) cs) cq = Inr cq' \<Longrightarrow> cte_ok cq \<Longrightarrow> cs \<noteq> [] \<Longrightarrow>
   \<forall>c \<in> set cs. c \<noteq> [] \<and> length c = l \<Longrightarrow>
   grows cq cq' \<and> (\<forall>k < n. filtered_names s (length cs > 1) (rotate (j + k * (l - 1)) (hd cs)) \<subseteq> cte_names cq')"
proof (induction n arbitrary: j cq)
  case 0
  then show ?case by (simp add: grows_refl)
next
  case (Suc n)
  let ?F = "\<lambda>m. filtered_names s (length cs > 1) (rotate m (hd cs))"
  have sh: "shiftCycleGroup (List.map (rotate j) cs) = Inr (List.map (rotate (j + (l - 1))) cs)"
    using Suc.prems(4) by (subst shiftCycleGroup_rotate) (auto simp: rotate_rotate add.commute)
  obtain b where b: "filtered_items s (List.map (rotate j) cs) cq = Inr b"
    "rotate_filtered n s (List.map (rotate (j + (l - 1))) cs) b = Inr cq'"
    using Suc.prems(1) by (auto simp: bindR_eq_Inr sh)
  have 1: "grows cq b" "?F j \<subseteq> cte_names b"
    using filtered_items_define [OF b(1) Suc.prems(2)] Suc.prems(3) by (auto simp: hd_map)
  then have "cte_ok b" by (simp add: grows_def)
  from Suc.IH [OF b(2) this Suc.prems(3,4)] have 2: "grows b cq'"
    "\<And>k. k < n \<Longrightarrow> ?F (j + (l - 1) + k * (l - 1)) \<subseteq> cte_names cq'" by blast+
  have "?F (j + k * (l - 1)) \<subseteq> cte_names cq'" if "k < Suc n" for k
  proof (cases k)
    case 0
    with 1(2) 2(1) show ?thesis by (auto simp: grows_def)
  next
    case (Suc i)
    with 2(2) [of i] that show ?thesis by (simp add: add.assoc)
  qed
  with grows_trans [OF 1(1) 2(1)] show ?case by blast
qed

section \<open>The items of a component\<close>

text \<open>
  The names that the items of a group select from: a cycle item selects from itself, an overlap item from cycle
  items, a united item from cycle and overlap items, a filtered item from the united item or its cycle, the
  selection of a table's keys from the filtered items of all tables of the group, and the final query from the
  keys of its table.
\<close>

definition group_names :: "nat \<Rightarrow> Edge list list \<Rightarrow> string set" where
  "group_names s cs =
     (\<Union>c \<in> set cs. \<Union>m. cycle_names s (length cs > 1) (rotate m c)) \<union>
     (\<Union>m. filtered_names s (length cs > 1) (rotate m (hd cs))) \<union>
     (\<Union>t \<in> set (getTablesFromCycle (hd cs)).
        {getFilteredQueryName s (getCycleGroupId (hd cs)) t, ids_name t})"

lemma group_items_define:
  assumes loop: "foldR (\<lambda>c. generateRecursiveQueriesForCycle s c rest ses (getOverlapMap cs) xs) cs cq = Inr a"
    and filt: "generateFilteredQueries s cs a = Inr b" and keys: "generateQueriesForVertexesInCycle s cs b = Inr cq'"
    and ok: "cte_ok cq" and cs: "cs \<noteq> []" "\<forall>c \<in> set cs. c \<noteq> [] \<and> length c = l"
    and linked: "\<forall>e \<in> set (hd cs). \<exists>e' \<in> set (hd cs). link_table (edge_to e) = link_table (edge_from e')"
  shows "cte_ok cq' \<and> group_names s cs \<subseteq> cte_names cq'"
proof -
  let ?many = "length cs > 1"
  have hd: "hd cs \<in> set cs" "hd cs \<noteq> []" "length (hd cs) = l" using cs by auto
  have 1: "grows cq a \<and> (\<Union>c \<in> set cs. \<Union>m. cycle_names s ?many (rotate m c)) \<subseteq> cte_names a"
    by (rule foldR_grows [OF loop ok]) (use recursive_queries_define cs(2) in blast)
  then have oka: "cte_ok a" by (simp add: grows_def)
  have "rotate_filtered l s (List.map (rotate 0) cs) a = Inr b"
    using filt cs hd by (simp add: generateFilteredQueries_def first_of_def rotate0)
  from rotate_filtered_defines [OF this oka cs] have 2: "grows a b"
    "\<And>k. k < l \<Longrightarrow> filtered_names s ?many (rotate (0 + k * (l - 1)) (hd cs)) \<subseteq> cte_names b" by blast+
  have filtered: "filtered_names s ?many (rotate m (hd cs)) \<subseteq> cte_names b" for m
  proof -
    obtain k where "k < l" "rotate m (hd cs) = rotate (k * (l - 1)) (hd cs)"
      using rotation_index [OF hd(2)] hd(3) by metis
    with 2(2) [of k] show ?thesis by simp
  qed
  have okb: "cte_ok b" using 2(1) by (simp add: grows_def)
  have "foldR (\<lambda>t cq. bindR (generateAllTablesValidPkSelection cs s t) (\<lambda>q. Inr (addItem (ids_name t) q cq)))
      (getTablesFromCycle (hd cs)) b = Inr cq'"
    using keys cs(1) by (simp add: generateQueriesForVertexesInCycle_def first_of_def)
  then have 3: "grows b cq' \<and> (\<Union>t \<in> set (getTablesFromCycle (hd cs)). {ids_name t}) \<subseteq> cte_names cq'"
    by (rule foldR_grows [OF _ okb]) (auto simp: bindR_eq_Inr addItem_grows addItem_names)
  have "getFilteredQueryName s (getCycleGroupId (hd cs)) t \<in> cte_names b"
    if t: "t \<in> set (getTablesFromCycle (hd cs))" for t
  proof -
    obtain e where "e \<in> set (hd cs)" "t = link_table (edge_to e)" using t by (auto simp: getTablesFromCycle_def)
    with linked obtain e' where e': "e' \<in> set (hd cs)" "t = link_table (edge_from e')" by metis
    then obtain i where i: "i < length (hd cs)" "hd cs ! i = e'" by (auto simp: in_set_conv_nth)
    then have "hd (rotate i (hd cs)) = e'" using hd(2) by (simp add: hd_rotate_conv_nth)
    with filtered [of i] e'(2) show ?thesis by (simp add: filtered_names_def)
  qed
  then have F: "(\<Union>t \<in> set (getTablesFromCycle (hd cs)). {getFilteredQueryName s (getCycleGroupId (hd cs)) t}) \<subseteq> cte_names b"
    by blast
  have sub: "cte_names a \<subseteq> cte_names b" "cte_names b \<subseteq> cte_names cq'" "cte_ok cq'"
    using 2(1) 3 by (simp_all add: grows_def)
  have C: "(\<Union>c \<in> set cs. \<Union>m. cycle_names s ?many (rotate m c)) \<subseteq> cte_names cq'"
    using conjunct2 [OF 1] sub(1,2) by (rule subset_trans [OF _ subset_trans])
  have G: "(\<Union>m. filtered_names s ?many (rotate m (hd cs))) \<subseteq> cte_names cq'"
    using filtered sub(2) by blast
  have "x \<in> cte_names cq'" if "x \<in> group_names s cs" for x
    using that unfolding group_names_def
  proof (elim UnE)
    assume "x \<in> (\<Union>c \<in> set cs. \<Union>m. cycle_names s ?many (rotate m c))"
    with C show ?thesis by (rule subsetD)
  next
    assume "x \<in> (\<Union>m. filtered_names s ?many (rotate m (hd cs)))"
    with G show ?thesis by (rule subsetD)
  next
    assume "x \<in> (\<Union>t \<in> set (getTablesFromCycle (hd cs)).
        {getFilteredQueryName s (getCycleGroupId (hd cs)) t, ids_name t})"
    then obtain t where t: "t \<in> set (getTablesFromCycle (hd cs))"
      "x = getFilteredQueryName s (getCycleGroupId (hd cs)) t \<or> x = ids_name t" by blast
    with F sub(2) conjunct2 [OF 3] show ?thesis by blast
  qed
  with sub(3) show ?thesis by blast
qed

text \<open>
  For a component whose cycles form one group, the generated list of common table expressions never
  defines a name twice, and defines every name its items and the final queries select from: each cycle in each
  of its rotations (with its overlap when there are several cycles), the united and the filtered rows of each
  rotation, and the valid keys of each table.
\<close>

lemma generateQueryForScc_defines:
  assumes g: "plain_graph g" and p: "good_path g p" and single: "groupedCycles (scc g ! rootVertex p) = [(k, idxs)]"
  shows "\<exists>cq. generateQueryForScc g s p None (newCteQuery (scc g ! rootVertex p)) = Inr cq \<and>
    distinct (List.map item_name (cte_items cq)) \<and>
    group_names s (List.map (\<lambda>i. cycles (scc g ! rootVertex p) ! i) idxs) \<subseteq> item_name ` set (cte_items cq)"
proof -
  let ?c = "scc g ! rootVertex p" and ?cs = "List.map (\<lambda>i. cycles (scc g ! rootVertex p) ! i) idxs"
  have v: "rootVertex p < sscCount g" using p by (simp add: good_path_def)
  have ok: "condensation_ok g" and edges: "\<forall>e \<in> set (g_edges g). edge_ok e"
    and linked: "\<forall>e \<in> set (g_edges g). edge_linked (g_tables g) e"
    using g by (auto simp: plain_graph_def)
  note b = built_cycles [OF ok v]
  have wf: "component_wf ?c" by (rule component_wf_built [OF ok edges v])
  then have "group_wf ?cs" "\<forall>i \<in> set idxs. i < length (cycles ?c)"
    using single by (auto simp: component_wf_def groups_ok_def)
  then have one: "getOneCycleGroup ?c = Inr ?cs" using single by (simp add: getOneCycleGroup_def cycles_at_total)
  have in_cycles: "c \<in> set (cycles ?c)" if "c \<in> set ?cs" for c
    using that \<open>\<forall>i \<in> set idxs. i < length (cycles ?c)\<close> by auto
  have good: "good_cycle (component_graph (graph g) (part (visited g) (rootVertex p))) c" if "c \<in> set ?cs" for c
    using b(1) in_cycles [OF that] by (simp add: list_all_iff)
  have ne: "?cs \<noteq> []" using \<open>group_wf ?cs\<close> unfolding group_wf_def by blast
  then have hd: "hd ?cs \<in> set ?cs" by (rule hd_in_set)
  have len: "\<forall>c \<in> set ?cs. c \<noteq> [] \<and> length c = length (hd ?cs)"
  proof (intro ballI conjI)
    fix c assume c: "c \<in> set ?cs"
    show "c \<noteq> []" using good [OF c] by (simp add: good_cycle_def)
    have d: "distinct (List.map edge_source c)" "distinct (List.map edge_source (hd ?cs))"
      using good [OF c] good [OF hd] by (simp_all add: good_cycle_def)
    have "edge_source ` set c = edge_source ` set (hd ?cs)" using \<open>group_wf ?cs\<close> c hd unfolding group_wf_def by blast
    then show "length c = length (hd ?cs)"
      using distinct_card [OF d(1)] distinct_card [OF d(2)] by simp
  qed
  have link: "\<forall>e \<in> set (hd ?cs). \<exists>e' \<in> set (hd ?cs). link_table (edge_to e) = link_table (edge_from e')"
  proof
    fix e assume e: "e \<in> set (hd ?cs)"
    then have "edge_target e \<in> edge_source ` set (hd ?cs)" using good_cycle_sources [OF good [OF hd]] by blast
    then obtain e' where e': "e' \<in> set (hd ?cs)" "edge_target e = edge_source e'" by auto
    have "edge_linked (g_tables g) e" "edge_linked (g_tables g) e'"
      using linked b(4) [OF in_cycles [OF hd]] e e'(1) by blast+
    with e' show "\<exists>e' \<in> set (hd ?cs). link_table (edge_to e) = link_table (edge_from e')"
      by (intro bexI [of _ e']) (simp_all add: edge_linked_def)
  qed
  have "isOk (generateQueryForScc g s p None (newCteQuery ?c))" by (rule generateQueryForScc_ok [OF g p _ wf]) simp
  then obtain cq where cq: "generateQueryForScc g s p None (newCteQuery ?c) = Inr cq" by (auto simp: isOk_iff)
  have "nth_res (scc g) (rootVertex p) = Inr ?c" using v scc_length [OF g] by (simp add: nth_res_def)
  with cq obtain a b where "foldR (\<lambda>c. generateRecursiveQueriesForCycle s c (scope_edges p s) (nested p s) (getOverlapMap ?cs) [])
      ?cs (newCteQuery ?c) = Inr a" "generateFilteredQueries s ?cs a = Inr b"
    "generateQueriesForVertexesInCycle s ?cs b = Inr cq"
    unfolding generateQueryForScc_def Let_def by (auto simp: single one bindR_eq_Inr)
  from group_items_define [OF this newCteQuery_ok ne len link] cq show ?thesis
    by (intro exI [of _ cq]) (simp add: cte_ok_def cte_names_def)
qed

lemma cyclic_single_group:
  "case NewGraph cyclic_refs cyclic_tables [] of
     Inl _ \<Rightarrow> False
   | Inr g \<Rightarrow> sscCount g = 1 \<and> List.map snd (groupedCycles (scc g ! 0)) = [[0]] \<and> length (cycles (scc g ! 0)) = 1"
  by code_simp

theorem generateQueryForScc_defines_witness:
  "\<exists>g cq. NewGraph cyclic_refs cyclic_tables [] = Inr g \<and>
    generateQueryForScc g 0 (NewPath 0) None (newCteQuery (scc g ! 0)) = Inr cq \<and>
    group_names 0 (List.map (\<lambda>i. cycles (scc g ! 0) ! i) [0]) \<subseteq> item_name ` set (cte_items cq)"
proof -
  obtain g where g: "NewGraph cyclic_refs cyclic_tables [] = Inr g" "plain_graph g"
    using NewGraph_plain [OF cyclic_keys_match] by blast
  have one: "sscCount g = 1" "List.map snd (groupedCycles (scc g ! 0)) = [[0]]"
    using cyclic_single_group by (simp_all add: g(1))
  then obtain k where k: "groupedCycles (scc g ! 0) = [(k, [0])]" by (cases "groupedCycles (scc g ! 0)") auto
  have "good_path g (NewPath 0)" using one(1) scopes.new [of g 0] NewPath_ok [of 0] by (simp add: good_path_def NewPath_def)
  from generateQueryForScc_defines [OF g(2) this, of k "[0]" 0] k g(1) show ?thesis
    by (auto simp: NewPath_def)
qed

end
