(* ===== verification/DumpWindow.thy ===== *)
theory DumpWindow
  imports Prelude
begin

text \<open>
  The transformation windows of \<^verbatim>\<open>internal/db/postgres/dumpers/transformation_window.go\<close>: a window
  collects transformers that affect different columns and runs each of them in a goroutine of its
  own, so that one record is transformed by all of them at once.

  A transformer is a value of \<open>TransformerContext\<close>: the interface
  \<^verbatim>\<open>utils.Transformer\<close> and the compiled \<^verbatim>\<open>When\<close> condition are fields of the record, so everything
  proved here holds for every transformer. A record of the table is a function from column names to
  values; \<open>Transform\<close> reads the record once and then writes a list of columns, one at a time, before
  it returns its error or nil. A transformer has a state of its own (a generator, a counter).

  The goroutines are a step relation: every rule of \<open>wstep\<close> is one action of the goroutine that
  runs \<^verbatim>\<open>Transform\<close> of the window or of one of its workers, between two points where another
  goroutine can run.
\<close>

type_synonym 'v columns = "string \<Rightarrow> 'v"

record ('s, 'v) TransformerContext =
  GetAffectedColumns :: "string list"
  EvaluateWhen :: "'v columns \<Rightarrow> bool res"
  Transform :: "'s \<Rightarrow> 'v columns \<Rightarrow> 's \<times> (string \<times> 'v) list \<times> fault option"

section \<open>Building the windows\<close>

record ('s, 'v) transformationWindow =
  affectedColumns :: "string set"
  window :: "('s, 'v) TransformerContext list"

definition newTransformationWindow :: "('s, 'v) transformationWindow" where
  "newTransformationWindow = \<lparr> affectedColumns = {}, window = [] \<rparr>"

definition tryAdd ::
    "string list \<Rightarrow> ('s, 'v) TransformerContext \<Rightarrow> ('s, 'v) transformationWindow
     \<Rightarrow> bool \<times> ('s, 'v) transformationWindow" where
  "tryAdd tableColumns t tw =
     (let affectedColumn = GetAffectedColumns t in
      if affectedColumn = [] then
        if window tw = [] then
          (True, tw\<lparr> affectedColumns := affectedColumns tw \<union> set tableColumns,
                     window := window tw @ [t] \<rparr>)
        else (False, tw)
      else if list_ex (\<lambda>name. name \<in> affectedColumns tw) affectedColumn then (False, tw)
      else (True, tw\<lparr> affectedColumns := affectedColumns tw \<union> set affectedColumn,
                      window := window tw @ [t] \<rparr>))"

text \<open>The loop of \<^verbatim>\<open>NewTransformationPipeline\<close>: \<open>tw\<close> is the window that is being filled, and every
  window that is started is appended to \<^verbatim>\<open>tws\<close>. The result of the second \<^verbatim>\<open>tryAdd\<close> is ignored.\<close>

fun addToWindows ::
    "string list \<Rightarrow> ('s, 'v) transformationWindow \<Rightarrow> ('s, 'v) TransformerContext list
     \<Rightarrow> ('s, 'v) transformationWindow list" where
  "addToWindows cs tw [] = [tw]"
| "addToWindows cs tw (t # ts) =
     (if fst (tryAdd cs t tw) then addToWindows cs (snd (tryAdd cs t tw)) ts
      else tw # addToWindows cs (snd (tryAdd cs t newTransformationWindow)) ts)"

definition buildWindows ::
    "string list \<Rightarrow> ('s, 'v) TransformerContext list \<Rightarrow> ('s, 'v) transformationWindow list" where
  "buildWindows cs ts = addToWindows cs newTransformationWindow ts"

text \<open>Windows are used for a table that has a command transformer, no template record transformer
  and more than one transformer.\<close>

definition runsAsync :: "('t \<Rightarrow> bool) \<Rightarrow> ('t \<Rightarrow> bool) \<Rightarrow> 't list \<Rightarrow> bool" where
  "runsAsync isTemplateRecord isCmd ts \<longleftrightarrow> \<not> list_ex isTemplateRecord ts \<and> list_ex isCmd ts \<and> length ts > 1"

text \<open>The columns a transformer may write: the affected columns it names, or every column of the
  table when it names none.\<close>

definition footprint :: "string list \<Rightarrow> ('s, 'v) TransformerContext \<Rightarrow> string set" where
  "footprint cs t = (if GetAffectedColumns t = [] then set cs else set (GetAffectedColumns t))"

definition separated :: "string list \<Rightarrow> ('s, 'v) TransformerContext list \<Rightarrow> bool" where
  "separated cs ts \<longleftrightarrow>
     (\<forall>i < length ts. \<forall>j < i. footprint cs (ts ! j) \<inter> footprint cs (ts ! i) = {})"

definition window_ok :: "string list \<Rightarrow> ('s, 'v) transformationWindow \<Rightarrow> bool" where
  "window_ok cs tw \<longleftrightarrow>
     affectedColumns tw = (\<Union>t \<in> set (window tw). footprint cs t) \<and> separated cs (window tw)"

lemma window_ok_new [simp]: "window_ok cs newTransformationWindow"
  by (simp add: window_ok_def newTransformationWindow_def separated_def)

lemma separated_snoc:
  "separated cs (ts @ [t]) \<longleftrightarrow>
     separated cs ts \<and> (\<forall>u \<in> set ts. footprint cs u \<inter> footprint cs t = {})"
  by (simp add: separated_def nth_append less_Suc_eq all_conj_distrib all_set_conv_all_nth
      imp_disjL conj_commute)

lemma separated_nth:
  "separated cs ts \<Longrightarrow> i < length ts \<Longrightarrow> j < length ts \<Longrightarrow> i \<noteq> j
   \<Longrightarrow> footprint cs (ts ! i) \<inter> footprint cs (ts ! j) = {}"
  by (cases "j < i") (auto simp: separated_def)

lemma tryAdd_True:
  assumes "window_ok cs tw" and "fst (tryAdd cs t tw)"
  shows "window_ok cs (snd (tryAdd cs t tw)) \<and> window (snd (tryAdd cs t tw)) = window tw @ [t]"
proof (cases "GetAffectedColumns t = []")
  case True
  then show ?thesis using assms
    by (auto simp: tryAdd_def window_ok_def footprint_def separated_def split: if_splits)
next
  case False
  then have no: "\<not> list_ex (\<lambda>name. name \<in> affectedColumns tw) (GetAffectedColumns t)"
    using assms(2) by (auto simp: tryAdd_def split: if_splits)
  have "affectedColumns tw \<inter> footprint cs t = {}"
    using no False by (auto simp: footprint_def list_ex_iff)
  then have "\<forall>u \<in> set (window tw). footprint cs u \<inter> footprint cs t = {}"
    using assms(1) by (auto simp: window_ok_def)
  then show ?thesis using assms(1) False no
    by (auto simp: tryAdd_def window_ok_def separated_snoc footprint_def)
qed

lemma tryAdd_new: "fst (tryAdd cs t newTransformationWindow)"
  by (simp add: tryAdd_def newTransformationWindow_def list_ex_iff Let_def)

text \<open>A refused transformer conflicts with the window, or has no affected columns of its own.\<close>

lemma tryAdd_False:
  assumes "window_ok cs tw" and "\<not> fst (tryAdd cs t tw)"
  shows "window tw \<noteq> [] \<and> (GetAffectedColumns t = []
           \<or> (\<exists>u \<in> set (window tw). footprint cs u \<inter> footprint cs t \<noteq> {}))"
  using assms
  by (auto simp: tryAdd_def window_ok_def footprint_def list_ex_iff Let_def split: if_splits)

lemma addToWindows_ok:
  assumes "window_ok cs tw"
  shows "list_all (window_ok cs) (addToWindows cs tw ts)
         \<and> concat (map window (addToWindows cs tw ts)) = window tw @ ts"
  using assms
proof (induction ts arbitrary: tw)
  case Nil
  then show ?case by simp
next
  case (Cons t ts)
  show ?case
  proof (cases "fst (tryAdd cs t tw)")
    case True
    with Cons.IH [of "snd (tryAdd cs t tw)"] tryAdd_True [OF Cons.prems True] show ?thesis by simp
  next
    case False
    have "window (newTransformationWindow :: ('a, 'b) transformationWindow) = []"
      by (simp add: newTransformationWindow_def)
    with False Cons.IH [of "snd (tryAdd cs t newTransformationWindow)"] Cons.prems
      tryAdd_True [OF window_ok_new tryAdd_new, of cs t] show ?thesis by simp
  qed
qed

lemma addToWindows_nonempty:
  "window tw \<noteq> [] \<or> ts \<noteq> [] \<Longrightarrow> window_ok cs tw
   \<Longrightarrow> \<forall>w \<in> set (addToWindows cs tw ts). window w \<noteq> []"
proof (induction ts arbitrary: tw)
  case Nil
  then show ?case by simp
next
  case (Cons t ts)
  have new: "window (snd (tryAdd cs t newTransformationWindow)) = [t]"
    using tryAdd_True [OF window_ok_new tryAdd_new, of cs t] by (simp add: newTransformationWindow_def)
  show ?case
  proof (cases "fst (tryAdd cs t tw)")
    case True
    with Cons.IH [of "snd (tryAdd cs t tw)"] tryAdd_True [OF Cons.prems(2) True]
    show ?thesis by simp
  next
    case False
    with Cons.IH [of "snd (tryAdd cs t newTransformationWindow)"] new tryAdd_False [OF Cons.prems(2) False]
      tryAdd_True [OF window_ok_new tryAdd_new, of cs t]
    show ?thesis by simp
  qed
qed

text \<open>Where one window ends, the transformer that starts the next one could not have been added.\<close>

lemma addToWindows_greedy:
  assumes "window_ok cs tw" and "Suc k < length (addToWindows cs tw ts)"
  shows "\<exists>t rest. window (addToWindows cs tw ts ! Suc k) = t # rest
         \<and> (GetAffectedColumns t = []
            \<or> (\<exists>u \<in> set (window (addToWindows cs tw ts ! k)). footprint cs u \<inter> footprint cs t \<noteq> {}))"
  using assms
proof (induction ts arbitrary: tw k)
  case Nil
  then show ?case by simp
next
  case (Cons t ts)
  let ?new = "snd (tryAdd cs t newTransformationWindow)"
  have new: "window ?new = [t]" "window_ok cs ?new"
    using tryAdd_True [OF window_ok_new tryAdd_new, of cs t] by (simp_all add: newTransformationWindow_def)
  have first: "\<exists>rest. window (addToWindows cs w us ! 0) = window w @ rest"
    if "window_ok cs w" for w us
    using that
  proof (induction us arbitrary: w)
    case Nil
    then show ?case by simp
  next
    case (Cons u us)
    then show ?case using tryAdd_True [OF Cons.prems, of u]
      by (cases "fst (tryAdd cs u w)") (auto, metis append_assoc)
  qed
  show ?case
  proof (cases "fst (tryAdd cs t tw)")
    case True
    with Cons tryAdd_True [OF Cons.prems(1) True] show ?thesis by simp
  next
    case False
    show ?thesis
    proof (cases k)
      case 0
      with False first [OF new(2), of ts] new(1) tryAdd_False [OF Cons.prems(1) False] show ?thesis
        by auto
    next
      case (Suc k')
      with False Cons.IH [OF new(2), of k'] Cons.prems(2) show ?thesis by simp
    qed
  qed
qed

text \<open>Claim C15. The windows of an asynchronous pipeline hold the table's transformers in their order,
  each of them once, none of the windows is empty, the transformers of one window affect pairwise
  disjoint sets of columns, and a new window is started only for a transformer that affects a column
  of the window before it or does not say which columns it affects.\<close>

theorem buildWindows_partition:
  assumes "ts \<noteq> []"
  shows "concat (map window (buildWindows cs ts)) = ts
    \<and> (\<forall>w \<in> set (buildWindows cs ts). window w \<noteq> [] \<and> separated cs (window w))
    \<and> (\<forall>k. Suc k < length (buildWindows cs ts) \<longrightarrow>
         (\<exists>t rest. window (buildWindows cs ts ! Suc k) = t # rest \<and>
            (GetAffectedColumns t = [] \<or>
             (\<exists>u \<in> set (window (buildWindows cs ts ! k)). footprint cs u \<inter> footprint cs t \<noteq> {}))))"
proof -
  have "window (newTransformationWindow :: ('a, 'b) transformationWindow) = []"
    by (simp add: newTransformationWindow_def)
  moreover have "\<forall>w \<in> set (buildWindows cs ts). separated cs (window w)"
    using addToWindows_ok [OF window_ok_new, of cs ts]
    by (auto simp: buildWindows_def list_all_iff window_ok_def)
  ultimately show ?thesis
    using addToWindows_ok [OF window_ok_new, of cs ts]
      addToWindows_nonempty [of newTransformationWindow ts cs] assms
      addToWindows_greedy [OF window_ok_new, of _ cs ts]
    by (simp add: buildWindows_def)
qed

end
