(* ===== verification/DumpConcurrent.thy ===== *)
theory DumpConcurrent
  imports DumpWindow
begin

text \<open>
  Running one record through a window (\<^verbatim>\<open>transformation_window.go\<close>: \<^verbatim>\<open>init\<close>, \<^verbatim>\<open>close\<close>, \<^verbatim>\<open>Transform\<close>) and
  through the whole pipeline (\<^verbatim>\<open>TransformSync\<close>, \<^verbatim>\<open>TransformAsync\<close> of
  \<^verbatim>\<open>transformation_pipeline.go\<close>).

  The window has one goroutine per transformer, a signal channel \<^verbatim>\<open>ch\<close> of capacity one for each
  of them, the wait group \<^verbatim>\<open>wg\<close>, the \<^verbatim>\<open>done\<close> channel and the context of the error group, which the
  first goroutine that returns an error cancels. A \<^verbatim>\<open>select\<close> with several ready cases may take any of
  them, so each case is a rule of its own. The rule \<open>cancel\<close> is another goroutine of the group
  failing; the parameter \<open>ext\<close> says whether that can happen.
\<close>

datatype main = AtWhen nat | Sending nat | Returned "fault option"

datatype 'v worker = Idle | Busy "(string \<times> 'v) list" "fault option" | Failing fault | Exited "fault option"

record ('s, 'v) wstate =
  tw_r :: "'v columns"
  tw_states :: "nat \<Rightarrow> 's"
  tw_ch :: "nat \<Rightarrow> bool"
  tw_workers :: "nat \<Rightarrow> 'v worker"
  tw_wg :: int
  pc :: main
  ctxDone :: bool
  tw_closed :: bool

definition ctxErr :: fault where
  "ctxErr = Err ''context canceled''"

section \<open>The synchronous pipeline\<close>

definition writeAll :: "(string \<times> 'v) list \<Rightarrow> 'v columns \<Rightarrow> 'v columns" where
  "writeAll ws c = fold (\<lambda>(n, v) c. c(n := v)) ws c"

fun TransformSync ::
    "('s, 'v) TransformerContext list \<Rightarrow> 's list \<Rightarrow> 'v columns \<Rightarrow> ('s list \<times> 'v columns) res" where
  "TransformSync (t # ts) (s # ss) c =
     bindR (EvaluateWhen t c) (\<lambda>needTransform.
       if \<not> needTransform then
         bindR (TransformSync ts ss c) (\<lambda>(ss', c'). Inr (s # ss', c'))
       else (case Transform t s c of
          (s', ws, Some e) \<Rightarrow> Inl e
        | (s', ws, None) \<Rightarrow>
            bindR (TransformSync ts ss (writeAll ws c)) (\<lambda>(ss', c'). Inr (s' # ss', c'))))"
| "TransformSync _ _ c = Inr ([], c)"

section \<open>The goroutines of a window\<close>

inductive wstep ::
    "bool \<Rightarrow> ('s, 'v) TransformerContext list \<Rightarrow> ('s, 'v) wstate \<Rightarrow> ('s, 'v) wstate \<Rightarrow> bool"
  for ext :: bool and ms :: "('s, 'v) TransformerContext list" where
  w_when_err: "pc st = AtWhen i \<Longrightarrow> i < length ms \<Longrightarrow> EvaluateWhen (ms ! i) (tw_r st) = Inl e
     \<Longrightarrow> wstep ext ms st (st\<lparr> pc := Returned (Some e) \<rparr>)"
| w_when_false: "pc st = AtWhen i \<Longrightarrow> i < length ms \<Longrightarrow> EvaluateWhen (ms ! i) (tw_r st) = Inr False
     \<Longrightarrow> wstep ext ms st (st\<lparr> pc := AtWhen (Suc i) \<rparr>)"
| w_when_true: "pc st = AtWhen i \<Longrightarrow> i < length ms \<Longrightarrow> EvaluateWhen (ms ! i) (tw_r st) = Inr True
     \<Longrightarrow> wstep ext ms st (st\<lparr> pc := Sending i, tw_wg := tw_wg st + 1 \<rparr>)"
| w_send: "pc st = Sending i \<Longrightarrow> \<not> tw_ch st i
     \<Longrightarrow> wstep ext ms st (st\<lparr> pc := AtWhen (Suc i), tw_ch := (tw_ch st)(i := True) \<rparr>)"
| w_send_done: "pc st = Sending i \<Longrightarrow> ctxDone st
     \<Longrightarrow> wstep ext ms st (st\<lparr> pc := Returned (Some ctxErr) \<rparr>)"
| w_wait: "pc st = AtWhen (length ms) \<Longrightarrow> tw_wg st = 0
     \<Longrightarrow> wstep ext ms st (st\<lparr> pc := Returned None \<rparr>)"
| w_recv: "i < length ms \<Longrightarrow> tw_workers st i = Idle \<Longrightarrow> tw_ch st i
     \<Longrightarrow> Transform (ms ! i) (tw_states st i) (tw_r st) = (s', ws, e)
     \<Longrightarrow> wstep ext ms st (st\<lparr> tw_ch := (tw_ch st)(i := False), tw_states := (tw_states st)(i := s'),
                             tw_workers := (tw_workers st)(i := Busy ws e) \<rparr>)"
| w_write: "i < length ms \<Longrightarrow> tw_workers st i = Busy ((n, v) # ws) e
     \<Longrightarrow> wstep ext ms st (st\<lparr> tw_r := (tw_r st)(n := v), tw_workers := (tw_workers st)(i := Busy ws e) \<rparr>)"
| w_ok: "i < length ms \<Longrightarrow> tw_workers st i = Busy [] None
     \<Longrightarrow> wstep ext ms st (st\<lparr> tw_wg := tw_wg st - 1, tw_workers := (tw_workers st)(i := Idle) \<rparr>)"
| w_fail: "i < length ms \<Longrightarrow> tw_workers st i = Busy [] (Some f)
     \<Longrightarrow> wstep ext ms st (st\<lparr> tw_wg := tw_wg st - 1, tw_workers := (tw_workers st)(i := Failing f) \<rparr>)"
| w_quit: "i < length ms \<Longrightarrow> tw_workers st i = Failing f
     \<Longrightarrow> wstep ext ms st (st\<lparr> ctxDone := True, tw_workers := (tw_workers st)(i := Exited (Some f)) \<rparr>)"
| w_stop: "i < length ms \<Longrightarrow> tw_workers st i = Idle \<Longrightarrow> ctxDone st
     \<Longrightarrow> wstep ext ms st (st\<lparr> tw_workers := (tw_workers st)(i := Exited (Some ctxErr)) \<rparr>)"
| w_finish: "i < length ms \<Longrightarrow> tw_workers st i = Idle \<Longrightarrow> tw_closed st
     \<Longrightarrow> wstep ext ms st (st\<lparr> tw_workers := (tw_workers st)(i := Exited None) \<rparr>)"
| w_cancel: "ext \<Longrightarrow> wstep ext ms st (st\<lparr> ctxDone := True \<rparr>)"

text \<open>\<open>started\<close> is the state in which \<^verbatim>\<open>Transform\<close> of the window is called after \<^verbatim>\<open>init\<close>: every goroutine
  waits, no signal is pending. \<open>closeWindow\<close> is \<^verbatim>\<open>close\<close>.\<close>

definition started :: "'s list \<Rightarrow> 'v columns \<Rightarrow> ('s, 'v) wstate" where
  "started ss c = \<lparr> tw_r = c, tw_states = (\<lambda>i. ss ! i), tw_ch = (\<lambda>_. False), tw_workers = (\<lambda>_. Idle),
     tw_wg = 0, pc = AtWhen 0, ctxDone = False, tw_closed = False \<rparr>"

definition closeWindow :: "('s, 'v) wstate \<Rightarrow> ('s, 'v) wstate" where
  "closeWindow st = st\<lparr> tw_closed := True \<rparr>"

abbreviation wsteps where
  "wsteps ext ms \<equiv> (wstep ext ms)\<^sup>*\<^sup>*"

text \<open>What a call of the window's \<^verbatim>\<open>Transform\<close> can return, with the tw_states of its transformers.\<close>

definition windowReturns ::
    "('s, 'v) TransformerContext list \<Rightarrow> 's list \<Rightarrow> 'v columns \<Rightarrow> ('s list \<times> 'v columns) res \<Rightarrow> bool" where
  "windowReturns ms ss c out \<longleftrightarrow>
     (\<exists>st. wsteps False ms (started ss c) st \<and>
        (case out of
           Inl e \<Rightarrow> pc st = Returned (Some e)
         | Inr (ss', c') \<Rightarrow> pc st = Returned None \<and> c' = tw_r st
             \<and> ss' = map (tw_states st) [0..<length ms]))"

fun TransformAsync ::
    "('s, 'v) TransformerContext list list \<Rightarrow> 's list \<Rightarrow> 'v columns \<Rightarrow> ('s list \<times> 'v columns) res \<Rightarrow> bool" where
  "TransformAsync [] ss c out \<longleftrightarrow> out = Inr ([], c)"
| "TransformAsync (ms # tws) ss c out \<longleftrightarrow>
     (\<exists>o1. windowReturns ms (take (length ms) ss) c o1 \<and>
        (case o1 of
           Inl e \<Rightarrow> out = Inl e
         | Inr (ss1, c1) \<Rightarrow>
             (\<exists>o2. TransformAsync tws (drop (length ms) ss) c1 o2
                \<and> out = bindR o2 (\<lambda>(ss2, c2). Inr (ss1 @ ss2, c2)))))"

end
