(* ===== verification/DumpConcurrentProps.thy ===== *)
theory DumpConcurrentProps
  imports DumpConcurrent
begin

text \<open>
  Correctness of the asynchronous pipeline: when the transformers of a window write only the columns
  they declare and do not depend on the columns the others declare, every interleaving of the
  goroutines of the window ends, and ends with the record and the transformer states the synchronous
  pipeline computes. Without the second assumption the result depends on the interleaving, and after
  an error of a transformer the window can block for good.
\<close>

section \<open>Independent transformers\<close>

definition ignores :: "string set \<Rightarrow> ('s, 'v) TransformerContext \<Rightarrow> bool" where
  "ignores C t \<longleftrightarrow>
     (\<forall>c c'. (\<forall>n. n \<notin> C \<longrightarrow> c n = c' n) \<longrightarrow>
        EvaluateWhen t c = EvaluateWhen t c' \<and> (\<forall>s. Transform t s c = Transform t s c'))"

definition writes_within :: "string set \<Rightarrow> ('s, 'v) TransformerContext \<Rightarrow> bool" where
  "writes_within C t \<longleftrightarrow> (\<forall>s c. fst ` set (fst (snd (Transform t s c))) \<subseteq> C)"

definition other_columns :: "string list \<Rightarrow> ('s, 'v) TransformerContext list \<Rightarrow> nat \<Rightarrow> string set" where
  "other_columns cs ms i = (\<Union>j \<in> {j. j < length ms \<and> j \<noteq> i}. footprint cs (ms ! j))"

definition independent :: "string list \<Rightarrow> ('s, 'v) TransformerContext list \<Rightarrow> bool" where
  "independent cs ms \<longleftrightarrow>
     separated cs ms \<and>
     (\<forall>i < length ms. writes_within (footprint cs (ms ! i)) (ms ! i) \<and> ignores (other_columns cs ms i) (ms ! i))"

lemma ignores_mono: "ignores C t \<Longrightarrow> C' \<subseteq> C \<Longrightarrow> ignores C' t"
  unfolding ignores_def by blast

lemma ignores_when:
  "ignores C t \<Longrightarrow> (\<And>n. n \<notin> C \<Longrightarrow> c n = c' n) \<Longrightarrow> EvaluateWhen t c = EvaluateWhen t c'"
  unfolding ignores_def by blast

lemma ignores_transform:
  "ignores C t \<Longrightarrow> (\<And>n. n \<notin> C \<Longrightarrow> c n = c' n) \<Longrightarrow> Transform t s c = Transform t s c'"
  unfolding ignores_def by blast

lemma writes_withinD: "writes_within C t \<Longrightarrow> Transform t s c = (s', ws, e) \<Longrightarrow> fst ` set ws \<subseteq> C"
  unfolding writes_within_def by (metis fst_conv snd_conv)

lemma writeAll_Nil [simp]: "writeAll [] c = c"
  by (simp add: writeAll_def)

lemma writeAll_Cons [simp]: "writeAll ((n, v) # ws) c = writeAll ws (c(n := v))"
  by (simp add: writeAll_def)

lemma writeAll_other: "n \<notin> fst ` set ws \<Longrightarrow> writeAll ws c n = c n"
  by (induction ws arbitrary: c) auto

lemma writeAll_cong: "c n = c' n \<Longrightarrow> writeAll ws c n = writeAll ws c' n"
proof (induction ws arbitrary: c c')
  case Nil
  then show ?case by simp
next
  case (Cons p ws)
  obtain m v where p: "p = (m, v)" by fastforce
  have "(c(m := v)) n = (c'(m := v)) n" using Cons.prems by simp
  then show ?case unfolding p writeAll_Cons
    by (rule Cons.IH [of "c(m := v)" "c'(m := v)"])
qed

lemma others_not_own:
  assumes "separated cs ms" "i < length ms" "n \<in> footprint cs (ms ! i)"
  shows "n \<notin> other_columns cs ms i"
  using separated_nth [OF assms(1,2)] assms(3) by (auto simp: other_columns_def)

lemma separated_Cons:
  "separated cs (t # ts) \<longleftrightarrow>
     separated cs ts \<and> (\<forall>u \<in> set ts. footprint cs t \<inter> footprint cs u = {})"
proof
  assume sep: "separated cs (t # ts)"
  have "separated cs ts"
    unfolding separated_def
  proof (intro allI impI)
    fix i j assume "i < length ts" "j < i"
    then show "footprint cs (ts ! j) \<inter> footprint cs (ts ! i) = {}"
      using separated_nth [OF sep, of "Suc j" "Suc i"] by simp
  qed
  moreover have "\<forall>u \<in> set ts. footprint cs t \<inter> footprint cs u = {}"
  proof
    fix u assume "u \<in> set ts"
    then obtain i where "i < length ts" "u = ts ! i" by (auto simp: in_set_conv_nth)
    then show "footprint cs t \<inter> footprint cs u = {}"
      using separated_nth [OF sep, of 0 "Suc i"] by simp
  qed
  ultimately show "separated cs ts \<and> (\<forall>u \<in> set ts. footprint cs t \<inter> footprint cs u = {})" ..
next
  assume both: "separated cs ts \<and> (\<forall>u \<in> set ts. footprint cs t \<inter> footprint cs u = {})"
  show "separated cs (t # ts)"
    unfolding separated_def
  proof (intro allI impI)
    fix i j assume i: "i < length (t # ts)" "j < i"
    then obtain k where k: "i = Suc k" "k < length ts" by (cases i) auto
    show "footprint cs ((t # ts) ! j) \<inter> footprint cs ((t # ts) ! i) = {}"
    proof (cases j)
      case 0
      then show ?thesis using both k by simp
    next
      case (Suc j')
      then show ?thesis using both k i separated_nth [of cs ts j' k] by auto
    qed
  qed
qed

lemma others_Cons: "other_columns cs ts i \<subseteq> other_columns cs (t # ts) (Suc i)"
  by (fastforce simp: other_columns_def)

lemma others_first: "i < length ts \<Longrightarrow> footprint cs t \<subseteq> other_columns cs (t # ts) (Suc i)"
  by (fastforce simp: other_columns_def)

lemma independent_Cons:
  assumes "independent cs (t # ts)"
  shows "independent cs ts" "\<And>i. i < length ts \<Longrightarrow> ignores (footprint cs t) (ts ! i)"
    "\<And>i. i < length ts \<Longrightarrow> footprint cs t \<inter> footprint cs (ts ! i) = {}"
    "writes_within (footprint cs t) t"
proof -
  have each: "writes_within (footprint cs (ts ! i)) (ts ! i) \<and> ignores (other_columns cs (t # ts) (Suc i)) (ts ! i)"
    if "i < length ts" for i
    using assms that unfolding independent_def by fastforce
  show "independent cs ts"
    using assms each ignores_mono [OF _ others_Cons]
    unfolding independent_def separated_Cons by blast
  show "ignores (footprint cs t) (ts ! i)" if "i < length ts" for i
    using each [OF that] ignores_mono [OF _ others_first [OF that]] by blast
  show "footprint cs t \<inter> footprint cs (ts ! i) = {}" if "i < length ts" for i
    using assms that by (auto simp: independent_def separated_Cons)
  show "writes_within (footprint cs t) t"
    using assms unfolding independent_def by fastforce
qed

section \<open>What each transformer does to the record it was given\<close>

text \<open>\<open>acts\<close>: transformer \<open>i\<close> runs on \<open>c\<close>. \<open>effect\<close> is its new state and its writes.\<close>

definition acts :: "('s, 'v) TransformerContext list \<Rightarrow> 'v columns \<Rightarrow> nat \<Rightarrow> bool" where
  "acts ms c i \<longleftrightarrow> EvaluateWhen (ms ! i) c = Inr True"

definition final_state ::
    "('s, 'v) TransformerContext list \<Rightarrow> 's list \<Rightarrow> 'v columns \<Rightarrow> nat \<Rightarrow> 's" where
  "final_state ms ss c i = (if acts ms c i then fst (Transform (ms ! i) (ss ! i) c) else ss ! i)"

definition final_writes ::
    "('s, 'v) TransformerContext list \<Rightarrow> 's list \<Rightarrow> 'v columns \<Rightarrow> nat \<Rightarrow> (string \<times> 'v) list" where
  "final_writes ms ss c i =
     (if acts ms c i then fst (snd (Transform (ms ! i) (ss ! i) c)) else [])"

text \<open>No transformer fails on \<open>c\<close>, and \<open>(ss', c')\<close> is what they make of it together.\<close>

definition joint_result ::
    "string list \<Rightarrow> ('s, 'v) TransformerContext list \<Rightarrow> 's list \<Rightarrow> 'v columns \<Rightarrow> 's list \<Rightarrow> 'v columns \<Rightarrow> bool"
where
  "joint_result cs ms ss c ss' c' \<longleftrightarrow>
     length ss' = length ms \<and>
     (\<forall>i < length ms. isOk (EvaluateWhen (ms ! i) c)
        \<and> (acts ms c i \<longrightarrow> snd (snd (Transform (ms ! i) (ss ! i) c)) = None)
        \<and> ss' ! i = final_state ms ss c i
        \<and> (\<forall>n \<in> footprint cs (ms ! i). c' n = writeAll (final_writes ms ss c i) c n)) \<and>
     (\<forall>n. (\<forall>i < length ms. n \<notin> footprint cs (ms ! i)) \<longrightarrow> c' n = c n)"

lemma TransformSync_joint:
  assumes "independent cs ms" "length ss = length ms"
    and "TransformSync ms ss c = Inr (ss', c')"
  shows "joint_result cs ms ss c ss' c'"
  using assms
proof (induction ms arbitrary: ss c ss' c')
  case Nil
  then show ?case by (simp add: joint_result_def)
next
  case (Cons t ts)
  then obtain s ss0 where ss: "ss = s # ss0" "length ss0 = length ts" by (cases ss) auto
  note ind = independent_Cons [OF Cons.prems(1)]
  from Cons.prems(3) ss(1) obtain b where b: "EvaluateWhen t c = Inr b" by (auto simp: bindR_eq_Inr)
  define s1 where "s1 = (if b then fst (Transform t s c) else s)"
  define ws where "ws = (if b then fst (snd (Transform t s c)) else [])"
  have tr: "b \<Longrightarrow> snd (snd (Transform t s c)) = None"
    using Cons.prems(3) ss(1) b by (auto split: prod.splits option.splits)
  obtain ss1 where run: "TransformSync ts ss0 (writeAll ws c) = Inr (ss1, c')" "ss' = s1 # ss1"
    using Cons.prems(3) ss(1) b tr unfolding s1_def ws_def
    by (auto simp: bindR_eq_Inr split: prod.splits option.splits if_splits)
  have J: "joint_result cs ts ss0 (writeAll ws c) ss1 c'"
    by (rule Cons.IH [OF ind(1) ss(2) run(1)])
  have wsF: "fst ` set ws \<subseteq> footprint cs t"
    using ind(4) unfolding ws_def writes_within_def by auto
  have off: "writeAll ws c n = c n" if "n \<notin> footprint cs t" for n
    by (rule writeAll_other) (use wsF that in auto)
  have same: "EvaluateWhen (ts ! i) (writeAll ws c) = EvaluateWhen (ts ! i) c
      \<and> Transform (ts ! i) s' (writeAll ws c) = Transform (ts ! i) s' c" if "i < length ts" for i s'
    using ignores_when [OF ind(2) [OF that]] ignores_transform [OF ind(2) [OF that]] off by blast
  show ?case
    unfolding joint_result_def
  proof (intro conjI allI impI ballI)
    show "length ss' = length (t # ts)" using J run(2) by (simp add: joint_result_def)
  next
    fix i assume i: "i < length (t # ts)"
    show "isOk (EvaluateWhen ((t # ts) ! i) c)"
      using J b same i by (cases i) (auto simp: joint_result_def)
    show "snd (snd (Transform ((t # ts) ! i) (ss ! i) c)) = None" if "acts (t # ts) c i"
      using J b tr ss(1) same i that by (cases i) (auto simp: joint_result_def acts_def)
    show "ss' ! i = final_state (t # ts) ss c i"
      using J b ss(1) run(2) same i
      by (cases i) (auto simp: joint_result_def acts_def final_state_def s1_def)
    fix n assume n: "n \<in> footprint cs ((t # ts) ! i)"
    show "c' n = writeAll (final_writes (t # ts) ss c i) c n"
    proof (cases i)
      case 0
      then have "\<forall>j < length ts. n \<notin> footprint cs (ts ! j)" using ind(3) n by auto
      with J have "c' n = writeAll ws c n" by (simp add: joint_result_def)
      then show ?thesis using 0 b ss(1) by (simp add: final_writes_def acts_def ws_def)
    next
      case (Suc k)
      with i n ind(3) have k: "k < length ts" "n \<in> footprint cs (ts ! k)" "n \<notin> footprint cs t" by auto
      with J have "c' n = writeAll (final_writes ts ss0 (writeAll ws c) k) (writeAll ws c) n"
        by (simp add: joint_result_def)
      also have "final_writes ts ss0 (writeAll ws c) k = final_writes (t # ts) ss c i"
        using same [OF k(1)] Suc ss(1) by (simp add: final_writes_def acts_def)
      also have "writeAll (final_writes (t # ts) ss c i) (writeAll ws c) n
                   = writeAll (final_writes (t # ts) ss c i) c n"
        by (rule writeAll_cong) (rule off [OF k(3)])
      finally show ?thesis .
    qed
  next
    fix n assume n: "\<forall>i < length (t # ts). n \<notin> footprint cs ((t # ts) ! i)"
    then have "n \<notin> footprint cs t" "\<forall>i < length ts. n \<notin> footprint cs (ts ! i)" by force+
    with J off show "c' n = c n" by (simp add: joint_result_def)
  qed
qed

section \<open>The invariant of a run\<close>

definition signalled :: "main \<Rightarrow> nat \<Rightarrow> bool" where
  "signalled m i = (case m of AtWhen k \<Rightarrow> i < k | Sending k \<Rightarrow> i < k | Returned x \<Rightarrow> True)"

definition in_flight :: "('s, 'v) wstate \<Rightarrow> nat \<Rightarrow> bool" where
  "in_flight st i \<longleftrightarrow> tw_ch st i \<or> tw_workers st i \<noteq> Idle"

definition to_run :: "('s, 'v) TransformerContext list \<Rightarrow> 'v columns \<Rightarrow> main \<Rightarrow> nat \<Rightarrow> bool" where
  "to_run ms c m i \<longleftrightarrow> signalled m i \<and> acts ms c i"

text \<open>The state of one goroutine: \<open>sg\<close> says that it has been signalled, \<open>s0\<close> and \<open>sf\<close> are the states
  of its transformer before and after, \<open>fw\<close> are the writes it makes to the record \<open>c\<close> and \<open>F\<close> the
  columns they are in.\<close>

definition goroutine_ok ::
    "string set \<Rightarrow> (string \<times> 'v) list \<Rightarrow> 's \<Rightarrow> 's \<Rightarrow> 'v columns \<Rightarrow> bool \<Rightarrow> bool \<Rightarrow> 'v worker \<Rightarrow> 's
     \<Rightarrow> 'v columns \<Rightarrow> bool"
where
  "goroutine_ok F fw s0 sf c sg signal w s rec \<longleftrightarrow>
     (signal \<longrightarrow> sg) \<and>
     (if signal \<or> \<not> sg then w = Idle \<and> s = s0 \<and> (\<forall>n \<in> F. rec n = c n)
      else s = sf \<and>
        ((w = Idle \<and> (\<forall>n \<in> F. rec n = writeAll fw c n)) \<or>
         (\<exists>ws. w = Busy ws None \<and> fst ` set ws \<subseteq> F
            \<and> (\<forall>n \<in> F. writeAll ws rec n = writeAll fw c n))))"

lemma goroutine_ok_cong:
  assumes "\<And>n. n \<in> F \<Longrightarrow> rec n = rec' n" "goroutine_ok F fw s0 sf c sg signal w s rec"
  shows "goroutine_ok F fw s0 sf c sg signal w s rec'"
proof -
  have "writeAll ws rec' n = writeAll ws rec n" if "n \<in> F" for ws n
    by (rule writeAll_cong) (use assms(1) that in simp)
  moreover have "\<And>n. n \<in> F \<Longrightarrow> rec' n = rec n" using assms(1) by simp
  ultimately show ?thesis using assms(2) by (simp add: goroutine_ok_def cong: conj_cong)
qed

definition worker_ok ::
    "string list \<Rightarrow> ('s, 'v) TransformerContext list \<Rightarrow> 's list \<Rightarrow> 'v columns \<Rightarrow> ('s, 'v) wstate \<Rightarrow> nat \<Rightarrow> bool"
where
  "worker_ok cs ms ss c st i \<longleftrightarrow>
     goroutine_ok (footprint cs (ms ! i)) (final_writes ms ss c i) (ss ! i) (final_state ms ss c i) c
       (to_run ms c (pc st) i) (tw_ch st i) (tw_workers st i) (tw_states st i) (tw_r st)"

definition untouched :: "('s, 'v) TransformerContext list \<Rightarrow> 'v columns \<Rightarrow> ('s, 'v) wstate \<Rightarrow> nat \<Rightarrow> bool" where
  "untouched ms c st i \<longleftrightarrow> tw_ch st i \<or> \<not> to_run ms c (pc st) i"

definition main_ok :: "('s, 'v) TransformerContext list \<Rightarrow> 'v columns \<Rightarrow> ('s, 'v) wstate \<Rightarrow> bool" where
  "main_ok ms c st =
     (case pc st of
        AtWhen k \<Rightarrow> k \<le> length ms
      | Sending k \<Rightarrow> k < length ms \<and> acts ms c k
      | Returned x \<Rightarrow> x = None \<and> tw_wg st = 0)"

definition counter_ok :: "('s, 'v) TransformerContext list \<Rightarrow> ('s, 'v) wstate \<Rightarrow> bool" where
  "counter_ok ms st \<longleftrightarrow>
     tw_wg st = int (card {i. i < length ms \<and> in_flight st i})
                + (case pc st of Sending k \<Rightarrow> 1 | _ \<Rightarrow> 0)"

definition run_inv ::
    "string list \<Rightarrow> ('s, 'v) TransformerContext list \<Rightarrow> 's list \<Rightarrow> 'v columns \<Rightarrow> ('s, 'v) wstate \<Rightarrow> bool"
where
  "run_inv cs ms ss c st \<longleftrightarrow>
     \<not> ctxDone st \<and> \<not> tw_closed st \<and> main_ok ms c st \<and> counter_ok ms st \<and>
     (\<forall>i < length ms. worker_ok cs ms ss c st i) \<and>
     (\<forall>n. (\<forall>i < length ms. n \<notin> footprint cs (ms ! i)) \<longrightarrow> tw_r st n = c n)"

lemma run_inv_started: "run_inv cs ms ss c (started ss c)"
  by (auto simp: run_inv_def started_def main_ok_def counter_ok_def worker_ok_def goroutine_ok_def
      to_run_def signalled_def in_flight_def)

text \<open>A worker that has not run yet sees the record it would have seen alone.\<close>

lemma untouched_sees:
  assumes inv: "run_inv cs ms ss c st" and i: "i < length ms" and un: "untouched ms c st i"
  shows "\<And>n. n \<notin> other_columns cs ms i \<Longrightarrow> tw_r st n = c n"
proof -
  fix n assume n: "n \<notin> other_columns cs ms i"
  show "tw_r st n = c n"
  proof (cases "n \<in> footprint cs (ms ! i)")
    case True
    then show ?thesis using inv i un by (auto simp: run_inv_def worker_ok_def goroutine_ok_def untouched_def)
  next
    case False
    then have "\<forall>j < length ms. n \<notin> footprint cs (ms ! j)" using n by (auto simp: other_columns_def)
    then show ?thesis using inv by (simp add: run_inv_def)
  qed
qed

lemma untouched_evaluates:
  assumes "independent cs ms" "run_inv cs ms ss c st" "i < length ms" "untouched ms c st i"
  shows "EvaluateWhen (ms ! i) (tw_r st) = EvaluateWhen (ms ! i) c"
    and "Transform (ms ! i) s (tw_r st) = Transform (ms ! i) s c"
proof -
  have ig: "ignores (other_columns cs ms i) (ms ! i)" using assms(1,3) by (simp add: independent_def)
  note sees = untouched_sees [OF assms(2-4)]
  show "EvaluateWhen (ms ! i) (tw_r st) = EvaluateWhen (ms ! i) c"
    by (rule ignores_when [OF ig sees])
  show "Transform (ms ! i) s (tw_r st) = Transform (ms ! i) s c"
    by (rule ignores_transform [OF ig sees])
qed

lemma run_inv_when:
  assumes inv: "run_inv cs ms ss c st" and k: "pc st = AtWhen k" "k < length ms"
    and no: "\<not> acts ms c k"
  shows "run_inv cs ms ss c (st\<lparr> pc := AtWhen (Suc k) \<rparr>)"
proof -
  have same: "to_run ms c (AtWhen (Suc k)) i = to_run ms c (AtWhen k) i" for i
    using no by (auto simp: to_run_def signalled_def less_Suc_eq)
  show ?thesis
    using inv k
    by (simp add: run_inv_def main_ok_def counter_ok_def worker_ok_def in_flight_def same)
qed

lemma run_inv_add:
  assumes inv: "run_inv cs ms ss c st" and k: "pc st = AtWhen k" "k < length ms"
    and yes: "acts ms c k"
  shows "run_inv cs ms ss c (st\<lparr> pc := Sending k, tw_wg := tw_wg st + 1 \<rparr>)"
proof -
  have same: "to_run ms c (Sending k) i = to_run ms c (AtWhen k) i" for i
    by (simp add: to_run_def signalled_def)
  show ?thesis
    using inv k yes
    by (simp add: run_inv_def main_ok_def counter_ok_def worker_ok_def in_flight_def same)
qed

lemma card_insert_flight:
  assumes "i < (n :: nat)" "\<not> P i"
  shows "card {j. j < n \<and> (j = i \<or> P j)} = Suc (card {j. j < n \<and> P j})"
proof -
  have "{j. j < n \<and> (j = i \<or> P j)} = insert i {j. j < n \<and> P j}" using assms by auto
  moreover have "finite {j. j < n \<and> P j}" by (rule finite_subset [of _ "{..<n}"]) auto
  moreover have "i \<notin> {j. j < n \<and> P j}" using assms by simp
  ultimately show ?thesis by (metis card_insert_disjoint)
qed

lemma worker_at:
  "run_inv cs ms ss c st \<Longrightarrow> i < length ms \<Longrightarrow>
   goroutine_ok (footprint cs (ms ! i)) (final_writes ms ss c i) (ss ! i) (final_state ms ss c i) c
     (to_run ms c (pc st) i) (tw_ch st i) (tw_workers st i) (tw_states st i) (tw_r st)"
  by (simp add: run_inv_def worker_ok_def)

lemma run_inv_send:
  assumes inv: "run_inv cs ms ss c st" and k: "pc st = Sending k" and free: "\<not> tw_ch st k"
  shows "run_inv cs ms ss c (st\<lparr> pc := AtWhen (Suc k), tw_ch := (tw_ch st)(k := True) \<rparr>)"
proof -
  have kl: "k < length ms" "acts ms c k" using inv k by (auto simp: run_inv_def main_ok_def)
  have same: "i \<noteq> k \<Longrightarrow> to_run ms c (AtWhen (Suc k)) i = to_run ms c (Sending k) i" for i
    by (auto simp: to_run_def signalled_def)
  have now: "to_run ms c (AtWhen (Suc k)) k" "\<not> to_run ms c (Sending k) k"
    using kl by (auto simp: to_run_def signalled_def)
  have w: "goroutine_ok (footprint cs (ms ! k)) (final_writes ms ss c k) (ss ! k) (final_state ms ss c k) c
       False False (tw_workers st k) (tw_states st k) (tw_r st)"
    using worker_at [OF inv kl(1)] now k free by simp
  then have idle: "\<not> in_flight st k" using free by (simp add: in_flight_def goroutine_ok_def)
  have "{j. j < length ms \<and> in_flight (st\<lparr> pc := AtWhen (Suc k), tw_ch := (tw_ch st)(k := True) \<rparr>) j}
      = {j. j < length ms \<and> (j = k \<or> in_flight st j)}"
    by (auto simp: in_flight_def)
  then have cnt: "counter_ok ms (st\<lparr> pc := AtWhen (Suc k), tw_ch := (tw_ch st)(k := True) \<rparr>)"
    using inv k card_insert_flight [of k "length ms" "in_flight st", OF kl(1) idle]
    by (simp add: run_inv_def counter_ok_def)
  have "worker_ok cs ms ss c (st\<lparr> pc := AtWhen (Suc k), tw_ch := (tw_ch st)(k := True) \<rparr>) i"
    if "i < length ms" for i
  proof (cases "i = k")
    case True
    then show ?thesis using w now by (simp add: worker_ok_def goroutine_ok_def)
  next
    case False
    then show ?thesis using inv that k by (simp add: run_inv_def worker_ok_def same)
  qed
  then show ?thesis using inv cnt kl by (simp add: run_inv_def main_ok_def)
qed

lemma run_inv_wait:
  assumes inv: "run_inv cs ms ss c st" and k: "pc st = AtWhen (length ms)" "tw_wg st = 0"
  shows "run_inv cs ms ss c (st\<lparr> pc := Returned None \<rparr>)"
proof -
  have same: "i < length ms \<Longrightarrow> to_run ms c (Returned None) i = to_run ms c (AtWhen (length ms)) i" for i
    by (simp add: to_run_def signalled_def)
  have "worker_ok cs ms ss c (st\<lparr> pc := Returned None \<rparr>) i" if "i < length ms" for i
    using worker_at [OF inv that] same [OF that] k by (simp add: worker_ok_def)
  moreover have "counter_ok ms (st\<lparr> pc := Returned None \<rparr>)"
    using inv k unfolding run_inv_def counter_ok_def in_flight_def by simp
  ultimately show ?thesis
    using inv k unfolding run_inv_def main_ok_def by simp
qed

lemma run_inv_recv:
  assumes ind: "independent cs ms" and jr: "joint_result cs ms ss c ss' c'"
    and inv: "run_inv cs ms ss c st" and i: "i < length ms" "tw_workers st i = Idle" "tw_ch st i"
    and tr: "Transform (ms ! i) (tw_states st i) (tw_r st) = (s', ws, e)"
  shows "run_inv cs ms ss c (st\<lparr> tw_ch := (tw_ch st)(i := False), tw_states := (tw_states st)(i := s'),
            tw_workers := (tw_workers st)(i := Busy ws e) \<rparr>)"
    (is "run_inv cs ms ss c ?t")
proof -
  have un: "untouched ms c st i" using i by (simp add: untouched_def)
  have w: "goroutine_ok (footprint cs (ms ! i)) (final_writes ms ss c i) (ss ! i) (final_state ms ss c i) c
      (to_run ms c (pc st) i) True Idle (tw_states st i) (tw_r st)"
    using worker_at [OF inv i(1)] i by simp
  then have st: "to_run ms c (pc st) i" "acts ms c i" "tw_states st i = ss ! i"
    "\<forall>n \<in> footprint cs (ms ! i). tw_r st n = c n"
    by (auto simp: goroutine_ok_def to_run_def)
  have eff: "Transform (ms ! i) (ss ! i) c = (s', ws, e)"
    using untouched_evaluates(2) [OF ind inv i(1) un] tr st by simp
  then have fin: "final_state ms ss c i = s'" "final_writes ms ss c i = ws" "e = None"
    using st jr i by (auto simp: final_state_def final_writes_def joint_result_def)
  have wsF: "fst ` set ws \<subseteq> footprint cs (ms ! i)"
    using ind i(1) writes_withinD [OF _ eff] by (auto simp: independent_def)
  have same: "writeAll ws (tw_r st) n = writeAll ws c n" if "n \<in> footprint cs (ms ! i)" for n
    by (rule writeAll_cong) (use st that in simp)
  have "worker_ok cs ms ss c ?t j" if "j < length ms" for j
    using inv that st fin wsF same
    by (cases "j = i") (auto simp: run_inv_def worker_ok_def goroutine_ok_def)
  moreover have "{j. j < length ms \<and> in_flight ?t j} = {j. j < length ms \<and> in_flight st j}"
    using i by (auto simp: in_flight_def)
  ultimately show ?thesis
    using inv by (auto simp: run_inv_def main_ok_def counter_ok_def split: main.splits)
qed

lemma run_inv_write:
  assumes ind: "independent cs ms"
    and inv: "run_inv cs ms ss c st" and i: "i < length ms" "tw_workers st i = Busy ((n, v) # ws) e"
  shows "run_inv cs ms ss c (st\<lparr> tw_r := (tw_r st)(n := v), tw_workers := (tw_workers st)(i := Busy ws e) \<rparr>)"
    (is "run_inv cs ms ss c ?t")
proof -
  have w: "goroutine_ok (footprint cs (ms ! i)) (final_writes ms ss c i) (ss ! i) (final_state ms ss c i) c
      (to_run ms c (pc st) i) (tw_ch st i) (Busy ((n, v) # ws) e) (tw_states st i) (tw_r st)"
    using worker_at [OF inv i(1)] i by simp
  then have n: "n \<in> footprint cs (ms ! i)" by (auto simp: goroutine_ok_def split: if_splits)
  have "worker_ok cs ms ss c ?t j" if j: "j < length ms" for j
  proof (cases "j = i")
    case True
    then show ?thesis using w by (auto simp: worker_ok_def goroutine_ok_def split: if_splits)
  next
    case False
    with separated_nth [of cs ms i j] ind i(1) j n have "n \<notin> footprint cs (ms ! j)"
      by (auto simp: independent_def)
    then have same: "\<And>m. m \<in> footprint cs (ms ! j) \<Longrightarrow> tw_r st m = ((tw_r st)(n := v)) m" by auto
    from goroutine_ok_cong [of _ "tw_r st" "(tw_r st)(n := v)", OF same worker_at [OF inv j]] False
    show ?thesis by (simp add: worker_ok_def)
  qed
  moreover have "{j. j < length ms \<and> in_flight ?t j} = {j. j < length ms \<and> in_flight st j}"
    using i by (auto simp: in_flight_def)
  ultimately show ?thesis
    using inv n i by (auto simp: run_inv_def main_ok_def counter_ok_def split: main.splits)
qed

lemma run_inv_ok:
  assumes inv: "run_inv cs ms ss c st" and i: "i < length ms" "tw_workers st i = Busy [] None"
  shows "run_inv cs ms ss c (st\<lparr> tw_wg := tw_wg st - 1, tw_workers := (tw_workers st)(i := Idle) \<rparr>)"
    (is "run_inv cs ms ss c ?t")
proof -
  have w: "goroutine_ok (footprint cs (ms ! i)) (final_writes ms ss c i) (ss ! i) (final_state ms ss c i) c
      (to_run ms c (pc st) i) (tw_ch st i) (Busy [] None) (tw_states st i) (tw_r st)"
    using worker_at [OF inv i(1)] i by simp
  then have free: "\<not> tw_ch st i" by (auto simp: goroutine_ok_def)
  have "worker_ok cs ms ss c ?t j" if j: "j < length ms" for j
    using inv w j by (cases "j = i") (auto simp: run_inv_def worker_ok_def goroutine_ok_def split: if_splits)
  moreover have "card {j. j < length ms \<and> in_flight st j} = Suc (card {j. j < length ms \<and> in_flight ?t j})"
  proof -
    have "{j. j < length ms \<and> in_flight st j} = {j. j < length ms \<and> (j = i \<or> in_flight ?t j)}"
      using i by (auto simp: in_flight_def)
    moreover have "\<not> in_flight ?t i" using free by (simp add: in_flight_def)
    ultimately show ?thesis using card_insert_flight [OF i(1), of "in_flight ?t"] by simp
  qed
  moreover have "pc st \<noteq> Returned x" for x
  proof
    assume "pc st = Returned x"
    with inv have "card {j. j < length ms \<and> in_flight st j} = 0"
      by (auto simp: run_inv_def main_ok_def counter_ok_def)
    then show False using i by (auto simp: in_flight_def)
  qed
  ultimately show ?thesis
    using inv by (auto simp: run_inv_def main_ok_def counter_ok_def split: main.splits)
qed

section \<open>Progress and termination\<close>

definition worker_potential ::
    "('s, 'v) TransformerContext list \<Rightarrow> 's list \<Rightarrow> 'v columns \<Rightarrow> ('s, 'v) wstate \<Rightarrow> nat \<Rightarrow> nat" where
  "worker_potential ms ss c st i =
     (case tw_workers st i of
        Busy ws e \<Rightarrow> length ws + 1
      | _ \<Rightarrow> if untouched ms c st i then length (final_writes ms ss c i) + 2 else 0)"

definition main_potential :: "nat \<Rightarrow> main \<Rightarrow> nat" where
  "main_potential n m =
     (case m of AtWhen k \<Rightarrow> 3 * (n - k) + 1 | Sending k \<Rightarrow> 3 * (n - k) | Returned x \<Rightarrow> 0)"

definition potential ::
    "('s, 'v) TransformerContext list \<Rightarrow> 's list \<Rightarrow> 'v columns \<Rightarrow> ('s, 'v) wstate \<Rightarrow> nat" where
  "potential ms ss c st =
     main_potential (length ms) (pc st) + (\<Sum>i < length ms. worker_potential ms ss c st i)"

lemma potential_main:
  assumes "\<And>i. i < length ms \<Longrightarrow> worker_potential ms ss c t i = worker_potential ms ss c st i"
    and "main_potential (length ms) (pc t) < main_potential (length ms) (pc st)"
  shows "potential ms ss c t < potential ms ss c st"
  using assms by (simp add: potential_def)

lemma potential_worker:
  assumes "pc t = pc st" and i: "i < length ms"
    and "\<And>j. j < length ms \<Longrightarrow> j \<noteq> i \<Longrightarrow> worker_potential ms ss c t j = worker_potential ms ss c st j"
    and "worker_potential ms ss c t i < worker_potential ms ss c st i"
  shows "potential ms ss c t < potential ms ss c st"
proof -
  have "(\<Sum>j < length ms. worker_potential ms ss c t j) < (\<Sum>j < length ms. worker_potential ms ss c st j)"
    by (rule sum_strict_mono_ex1) (use assms in \<open>auto simp: le_less\<close>)
  then show ?thesis using assms(1) by (simp add: potential_def)
qed

lemma run_step:
  assumes ind: "independent cs ms" and jr: "joint_result cs ms ss c ss' c'"
    and inv: "run_inv cs ms ss c st" and step: "wstep False ms st t"
  shows "run_inv cs ms ss c t \<and> potential ms ss c t < potential ms ss c st"
  using step
proof (cases rule: wstep.cases)
  case (w_when_err i e)
  have "untouched ms c st i" using worker_at [OF inv] w_when_err
    by (simp add: untouched_def to_run_def signalled_def)
  with untouched_evaluates(1) [OF ind inv w_when_err(3)] w_when_err
  have "EvaluateWhen (ms ! i) c = Inl e" by simp
  moreover have "isOk (EvaluateWhen (ms ! i) c)" using jr w_when_err(3) by (simp add: joint_result_def)
  ultimately have False by simp
  then show ?thesis ..
next
  case (w_when_false i)
  have "untouched ms c st i" using w_when_false by (simp add: untouched_def to_run_def signalled_def)
  with untouched_evaluates(1) [OF ind inv w_when_false(3)] w_when_false
  have "EvaluateWhen (ms ! i) c = Inr False" by simp
  then have no: "\<not> acts ms c i" by (simp add: acts_def)
  have same: "to_run ms c (AtWhen (Suc i)) j = to_run ms c (AtWhen i) j" for j
    using no by (auto simp: to_run_def signalled_def less_Suc_eq)
  have "potential ms ss c t < potential ms ss c st"
    by (rule potential_main)
      (use w_when_false same in \<open>auto simp: worker_potential_def untouched_def main_potential_def\<close>)
  then show ?thesis using run_inv_when [OF inv _ _ no] w_when_false by simp
next
  case (w_when_true i)
  have "untouched ms c st i" using w_when_true by (simp add: untouched_def to_run_def signalled_def)
  with untouched_evaluates(1) [OF ind inv w_when_true(3)] w_when_true have yes: "acts ms c i"
    by (simp add: acts_def)
  have same: "to_run ms c (Sending i) j = to_run ms c (AtWhen i) j" for j
    by (simp add: to_run_def signalled_def)
  have "potential ms ss c t < potential ms ss c st"
    by (rule potential_main)
      (use w_when_true same in \<open>auto simp: worker_potential_def untouched_def main_potential_def\<close>)
  then show ?thesis using run_inv_add [OF inv _ _ yes] w_when_true by simp
next
  case (w_send i)
  have same: "j \<noteq> i \<Longrightarrow> to_run ms c (AtWhen (Suc i)) j = to_run ms c (Sending i) j" for j
    by (auto simp: to_run_def signalled_def)
  have "i < length ms" using inv w_send by (simp add: run_inv_def main_ok_def)
  then have "potential ms ss c t < potential ms ss c st"
    by (intro potential_main)
      (use w_send same in \<open>auto simp: worker_potential_def untouched_def main_potential_def
         to_run_def signalled_def split: worker.splits\<close>)
  then show ?thesis using run_inv_send [OF inv] w_send by simp
next
  case (w_send_done i)
  then show ?thesis using inv by (simp add: run_inv_def)
next
  case w_wait
  have same: "i < length ms \<Longrightarrow> to_run ms c (Returned None) i = to_run ms c (AtWhen (length ms)) i" for i
    by (simp add: to_run_def signalled_def)
  have "potential ms ss c t < potential ms ss c st"
    by (rule potential_main)
      (use w_wait same in \<open>auto simp: worker_potential_def untouched_def main_potential_def\<close>)
  then show ?thesis using run_inv_wait [OF inv] w_wait by simp
next
  case (w_recv i s' ws e)
  have un: "untouched ms c st i" using w_recv by (simp add: untouched_def)
  have w: "to_run ms c (pc st) i" "tw_states st i = ss ! i"
    using worker_at [OF inv] w_recv by (auto simp: goroutine_ok_def)
  then have "final_writes ms ss c i = ws"
    using untouched_evaluates(2) [OF ind inv _ un] w_recv
    by (simp add: final_writes_def to_run_def)
  then have "potential ms ss c t < potential ms ss c st"
    by (intro potential_worker [of _ _ i])
      (use w_recv un in \<open>auto simp: worker_potential_def untouched_def split: worker.splits\<close>)
  then show ?thesis using run_inv_recv [OF ind jr inv] w_recv by simp
next
  case (w_write i n v ws e)
  have "potential ms ss c t < potential ms ss c st"
    by (intro potential_worker [of _ _ i])
      (use w_write in \<open>auto simp: worker_potential_def untouched_def split: worker.splits\<close>)
  then show ?thesis using run_inv_write [OF ind inv] w_write by simp
next
  case (w_ok i)
  have "\<not> untouched ms c st i"
    using worker_at [OF inv] w_ok by (fastforce simp: goroutine_ok_def untouched_def)
  then have "potential ms ss c t < potential ms ss c st"
    by (intro potential_worker [of _ _ i])
      (use w_ok in \<open>auto simp: worker_potential_def untouched_def split: worker.splits\<close>)
  then show ?thesis using run_inv_ok [OF inv] w_ok by simp
next
  case (w_fail i f)
  then show ?thesis using worker_at [OF inv, of i] by (auto simp: goroutine_ok_def split: if_splits)
next
  case (w_quit i f)
  then show ?thesis using worker_at [OF inv, of i] by (auto simp: goroutine_ok_def split: if_splits)
next
  case (w_stop i)
  then show ?thesis using inv by (simp add: run_inv_def)
next
  case (w_finish i)
  then show ?thesis using inv by (simp add: run_inv_def)
next
  case w_cancel
  then show ?thesis by simp
qed

lemma run_progress:
  assumes ind: "independent cs ms" and jr: "joint_result cs ms ss c ss' c'"
    and inv: "run_inv cs ms ss c st" and "\<And>x. pc st \<noteq> Returned x"
  shows "\<exists>t. wstep False ms st t"
proof (cases "pc st")
  case (AtWhen k)
  show ?thesis
  proof (cases "k < length ms")
    case True
    have "untouched ms c st k \<or> tw_ch st k" by (simp add: AtWhen untouched_def to_run_def signalled_def)
    then have un: "untouched ms c st k" by (auto simp: untouched_def)
    obtain b where "EvaluateWhen (ms ! k) (tw_r st) = Inr b"
      using untouched_evaluates(1) [OF ind inv True un] jr True by (auto simp: joint_result_def isOk_iff)
    then show ?thesis
      using wstep.w_when_false [OF AtWhen True] wstep.w_when_true [OF AtWhen True] by (cases b) metis+
  next
    case False
    then have k: "k = length ms" using inv AtWhen by (simp add: run_inv_def main_ok_def)
    show ?thesis
    proof (cases "\<exists>i < length ms. in_flight st i")
      case True
      then obtain i where i: "i < length ms" "in_flight st i" by blast
      show ?thesis
      proof (cases "tw_ch st i")
        case True
        then have "tw_workers st i = Idle"
          using worker_at [OF inv i(1)] by (auto simp: goroutine_ok_def)
        with True i show ?thesis
          by (metis surj_pair wstep.w_recv)
      next
        case False
        then obtain ws where ws: "tw_workers st i = Busy ws None"
          using worker_at [OF inv i(1)] i(2) by (auto simp: goroutine_ok_def in_flight_def split: if_splits)
        show ?thesis
        proof (cases ws)
          case Nil
          then show ?thesis using wstep.w_ok [OF i(1)] ws by blast
        next
          case (Cons p rest)
          then show ?thesis using wstep.w_write [OF i(1)] ws by (cases p) blast
        qed
      qed
    next
      case False
      then have "{i. i < length ms \<and> in_flight st i} = {}" by blast
      then have "tw_wg st = 0" using inv AtWhen by (simp add: run_inv_def counter_ok_def)
      then show ?thesis using wstep.w_wait AtWhen k by blast
    qed
  qed
next
  case (Sending k)
  then have "k < length ms" using inv by (simp add: run_inv_def main_ok_def)
  from worker_at [OF inv this] have "\<not> tw_ch st k"
    by (auto simp: goroutine_ok_def Sending to_run_def signalled_def)
  then show ?thesis using wstep.w_send Sending by blast
next
  case (Returned x)
  then show ?thesis using assms(4) by blast
qed

lemma run_returned:
  assumes jr: "joint_result cs ms ss c ss' c'" and inv: "run_inv cs ms ss c st"
    and ret: "pc st = Returned x"
  shows "x = None \<and> tw_r st = c' \<and> map (tw_states st) [0..<length ms] = ss'
     \<and> (\<forall>i < length ms. tw_workers st i = Idle \<and> \<not> tw_ch st i)"
proof -
  have ok: "main_ok ms c st" "counter_ok ms st" using inv by (simp_all add: run_inv_def)
  have "tw_wg st = 0" using ok(1) ret by (simp add: main_ok_def)
  moreover have "tw_wg st = int (card {i. i < length ms \<and> in_flight st i})"
    using ok(2) ret by (simp add: counter_ok_def)
  ultimately have "card {i. i < length ms \<and> in_flight st i} = 0" by (metis of_nat_eq_0_iff)
  then have none: "\<not> in_flight st i" if "i < length ms" for i using that by auto
  have each: "tw_states st i = final_state ms ss c i
      \<and> (\<forall>n \<in> footprint cs (ms ! i). tw_r st n = writeAll (final_writes ms ss c i) c n)"
    if "i < length ms" for i
    using worker_at [OF inv that] none [OF that] ret
    by (auto simp: goroutine_ok_def in_flight_def to_run_def signalled_def final_state_def final_writes_def
        split: if_splits)
  have "\<And>n. tw_r st n = c' n"
  proof -
    fix n
    show "tw_r st n = c' n"
  proof (cases "\<exists>i < length ms. n \<in> footprint cs (ms ! i)")
    case True
    then show ?thesis using each jr by (auto simp: joint_result_def)
  next
    case False
    then show ?thesis using inv jr by (simp add: run_inv_def joint_result_def)
  qed
  qed
  then have "tw_r st = c'" by (rule ext)
  moreover have "map (tw_states st) [0..<length ms] = ss'"
    using each jr by (intro nth_equalityI) (auto simp: joint_result_def)
  ultimately show ?thesis
    using none inv ret unfolding run_inv_def main_ok_def by (simp add: in_flight_def)
qed

lemma run_inv_reachable:
  assumes "independent cs ms" "joint_result cs ms ss c ss' c'" "wsteps False ms (started ss c) st"
  shows "run_inv cs ms ss c st"
  using assms(3)
proof (induction rule: rtranclp_induct)
  case base
  then show ?case by (rule run_inv_started)
next
  case (step y z)
  then show ?case using run_step [OF assms(1,2)] by blast
qed

lemma run_ends:
  assumes ind: "independent cs ms" and jr: "joint_result cs ms ss c ss' c'"
    and inv: "run_inv cs ms ss c st"
  shows "\<exists>t x. wsteps False ms st t \<and> pc t = Returned x"
  using inv
proof (induction "potential ms ss c st" arbitrary: st rule: less_induct)
  case less
  show ?case
  proof (cases "\<exists>x. pc st = Returned x")
    case True
    then show ?thesis by blast
  next
    case False
    then obtain u where u: "wstep False ms st u" using run_progress [OF ind jr less.prems] by blast
    from run_step [OF ind jr less.prems u] less.hyps obtain t x
      where "wsteps False ms u t" "pc t = Returned x" by blast
    with u show ?thesis by (meson converse_rtranclp_into_rtranclp)
  qed
qed

section \<open>The asynchronous pipeline\<close>

lemma started_take:
  "n \<le> length ss \<Longrightarrow> (\<forall>i < n. tw_states (started (take n ss) c) i = ss ! i)"
  by (simp add: started_def)

lemma windowReturns_sync:
  assumes "independent cs ms" "length ss = length ms" "TransformSync ms ss c = Inr (ss', c')"
  shows "windowReturns ms ss c out \<longleftrightarrow> out = Inr (ss', c')"
proof -
  note jr = TransformSync_joint [OF assms]
  have returned: "x = None \<and> tw_r st = c' \<and> map (tw_states st) [0..<length ms] = ss'"
    if "wsteps False ms (started ss c) st" "pc st = Returned x" for st x
    using run_returned [OF jr run_inv_reachable [OF assms(1) jr that(1)] that(2)] by blast
  obtain st x where st: "wsteps False ms (started ss c) st" "pc st = Returned x"
    using run_ends [OF assms(1) jr run_inv_started] by blast
  show ?thesis
  proof
    assume "windowReturns ms ss c out"
    then obtain st where run: "wsteps False ms (started ss c) st"
      and res: "case out of Inl e \<Rightarrow> pc st = Returned (Some e)
           | Inr (ss', c') \<Rightarrow> pc st = Returned None \<and> c' = tw_r st \<and> ss' = map (tw_states st) [0..<length ms]"
      unfolding windowReturns_def by blast
    show "out = Inr (ss', c')"
    proof (cases out)
      case (Inl e)
      then show ?thesis using res returned [OF run] by simp
    next
      case (Inr p)
      then show ?thesis using res returned [OF run] by (cases p) simp
    qed
  next
    assume "out = Inr (ss', c')"
    then show "windowReturns ms ss c out"
      using st returned [OF st] unfolding windowReturns_def by (intro exI [of _ st]) auto
  qed
qed

lemma TransformSync_append:
  "length ss1 = length ts1 \<Longrightarrow>
   TransformSync (ts1 @ ts2) (ss1 @ ss2) c =
     bindR (TransformSync ts1 ss1 c) (\<lambda>(ss1', c1).
       bindR (TransformSync ts2 ss2 c1) (\<lambda>(ss2', c2). Inr (ss1' @ ss2', c2)))"
proof (induction ts1 arbitrary: ss1 c)
  case Nil
  then show ?case by (cases "TransformSync ts2 ss2 c") auto
next
  case (Cons t ts1)
  then obtain s ss0 where ss: "ss1 = s # ss0" "length ss0 = length ts1" by (cases ss1) auto
  show ?case
  proof (cases "EvaluateWhen t c")
    case (Inl e)
    then show ?thesis using ss by simp
  next
    case (Inr b)
    then show ?thesis using ss Cons.IH [OF ss(2)]
      by (auto simp: bindR_assoc case_prod_unfold split: option.splits intro!: bindR_cong)
  qed
qed

lemma TransformAsync_sync:
  assumes "\<forall>ms \<in> set tws. independent cs ms"
    and "length ss = length (concat tws)" "TransformSync (concat tws) ss c = Inr (ss', c')"
  shows "TransformAsync tws ss c out \<longleftrightarrow> out = Inr (ss', c')"
  using assms
proof (induction tws arbitrary: ss c ss' out)
  case Nil
  then show ?case by auto
next
  case (Cons ms tws)
  let ?a = "take (length ms) ss" and ?b = "drop (length ms) ss"
  have len: "length ?a = length ms" "length ?b = length (concat tws)" using Cons.prems(2) by auto
  have "TransformSync (ms @ concat tws) (?a @ ?b) c = Inr (ss', c')" using Cons.prems(3) by simp
  then have "bindR (TransformSync ms ?a c) (\<lambda>(ss1', c1).
       bindR (TransformSync (concat tws) ?b c1) (\<lambda>(ss2', c2). Inr (ss1' @ ss2', c2))) = Inr (ss', c')"
    unfolding TransformSync_append [OF len(1)] .
  then obtain ss1 c1 ss2 where run: "TransformSync ms ?a c = Inr (ss1, c1)"
    "TransformSync (concat tws) ?b c1 = Inr (ss2, c')" "ss' = ss1 @ ss2"
    by (auto simp: bindR_eq_Inr)
  have w: "windowReturns ms ?a c o1 \<longleftrightarrow> o1 = Inr (ss1, c1)" for o1
    using windowReturns_sync [of cs, OF _ len(1) run(1)] Cons.prems(1) by simp
  have a: "TransformAsync tws ?b c1 o2 \<longleftrightarrow> o2 = Inr (ss2, c')" for o2
    using Cons.IH [OF _ len(2) run(2)] Cons.prems(1) by simp
  show ?case by (simp add: w a run(3))
qed

text \<open>Claim C12. The asynchronous pipeline computes what the synchronous one computes. For the windows
  built from a table's transformers: if inside each window every transformer writes only the columns
  it affects and depends on no column another transformer of the window affects, and the synchronous
  pipeline transforms the record without an error, then every run of the goroutines of every window
  that returns, returns without an error with that record and those transformer states, and such a
  run exists.\<close>

theorem TransformAsync_equals_TransformSync:
  assumes "\<forall>w \<in> set (buildWindows cs ts). independent cs (window w)"
    and "length ss = length ts" and "ts \<noteq> []"
    and "TransformSync ts ss c = Inr (ss', c')"
  shows "TransformAsync (map window (buildWindows cs ts)) ss c out \<longleftrightarrow> out = Inr (ss', c')"
proof (rule TransformAsync_sync)
  have all: "concat (map window (buildWindows cs ts)) = ts"
    using addToWindows_ok [OF window_ok_new, of cs ts]
    by (simp add: buildWindows_def newTransformationWindow_def)
  show "\<forall>ms \<in> set (map window (buildWindows cs ts)). independent cs ms" using assms(1) by simp
  show "length ss = length (concat (map window (buildWindows cs ts)))" using assms(2) all by simp
  show "TransformSync (concat (map window (buildWindows cs ts))) ss c = Inr (ss', c')"
    using assms(4) all by simp
qed

definition window_bound :: "('s, 'v) TransformerContext list \<Rightarrow> 's list \<Rightarrow> 'v columns \<Rightarrow> nat" where
  "window_bound ms ss c = 3 * length ms + 1 + (\<Sum>i < length ms. length (final_writes ms ss c i) + 2)"

lemma steps_bounded:
  assumes "independent cs ms" "joint_result cs ms ss c ss' c'"
    and "(wstep False ms ^^ k) (started ss c) st"
  shows "run_inv cs ms ss c st \<and> k + potential ms ss c st \<le> window_bound ms ss c"
  using assms(3)
proof (induction k arbitrary: st)
  case 0
  have "worker_potential ms ss c (started ss c) i = length (final_writes ms ss c i) + 2" for i
    by (simp add: worker_potential_def started_def untouched_def to_run_def signalled_def)
  then have "potential ms ss c (started ss c) = window_bound ms ss c"
    by (simp add: potential_def window_bound_def main_potential_def started_def)
  then show ?case using 0 run_inv_started by auto
next
  case (Suc k)
  then obtain u where u: "(wstep False ms ^^ k) (started ss c) u" "wstep False ms u st" by auto
  from run_step [OF assms(1,2) _ u(2)] Suc.IH [OF u(1)] show ?case by fastforce
qed

text \<open>Claim C16. A window ends, when every transformer of it writes only the columns it affects and
  depends on no column another one affects (\<open>independent\<close>), and the synchronous pipeline transforms the record
  without an error. Then a run of the window has at most \<open>3 * n + 1\<close> steps plus two steps and the number of its
  writes for each of the \<open>n\<close> transformers; a run that has not returned can go on, so the goroutines and the wait
  group cannot block each other; and every run can be continued until the window returns without an error, with the
  record and the states of the synchronous pipeline. (After an error of a transformer a window can block for ever,
  which is a property of its own.)\<close>

theorem window_terminates:
  assumes "independent cs ms" and "length ss = length ms"
    and "TransformSync ms ss c = Inr (ss', c')"
    and "(wstep False ms ^^ k) (started ss c) st"
  shows "k \<le> window_bound ms ss c \<and> ((\<exists>t. wstep False ms st t) \<or> pc st = Returned None) \<and>
    (\<exists>m end_st. (wstep False ms ^^ m) st end_st \<and> pc end_st = Returned None \<and>
       tw_r end_st = c' \<and> map (tw_states end_st) [0..<length ms] = ss')"
proof -
  note jr = TransformSync_joint [OF assms(1-3)]
  note inv = steps_bounded [OF assms(1) jr assms(4)]
  have returned: "x = None \<and> tw_r u = c' \<and> map (tw_states u) [0..<length ms] = ss'"
    if "run_inv cs ms ss c u" "pc u = Returned x" for u x
    using run_returned [OF jr that] by blast
  obtain u x where u: "wsteps False ms st u" "pc u = Returned x"
    using run_ends [OF assms(1) jr] inv by blast
  obtain m where m: "(wstep False ms ^^ m) st u" using rtranclp_imp_relpowp [OF u(1)] by blast
  have "(wstep False ms ^^ (k + m)) (started ss c) u"
    using relpowp_trans [OF assms(4) m] .
  then have "run_inv cs ms ss c u" using steps_bounded [OF assms(1) jr] by blast
  note u = m returned [OF this u(2)] u(2)
  have "pc st = Returned None" if "pc st = Returned x" for x
    using returned inv that by blast
  with run_progress [OF assms(1) jr] inv have "(\<exists>t. wstep False ms st t) \<or> pc st = Returned None" by metis
  with inv u show ?thesis by auto
qed

end
