(* ===== verification/DumpScheduler.thy ===== *)
theory DumpScheduler
  imports DumpConcurrentProps
begin

text \<open>
  An executable scheduler for the goroutines of a window, and the runs it finds: the example that
  shows the assumptions of the equivalence can hold, a window whose result depends on the
  interleaving because a \<^verbatim>\<open>When\<close> condition reads a column another transformer of the window writes,
  and a window that blocks for good after a transformer has returned an error.
\<close>

datatype action = Main | Worker nat | WorkerDone nat

definition mainStep ::
    "('s, 'v) TransformerContext list \<Rightarrow> ('s, 'v) wstate \<Rightarrow> ('s, 'v) wstate option" where
  "mainStep ms st =
     (case pc st of
        AtWhen i \<Rightarrow>
          if i < length ms then
            (case EvaluateWhen (ms ! i) (tw_r st) of
               Inl e \<Rightarrow> Some (st\<lparr> pc := Returned (Some e) \<rparr>)
             | Inr b \<Rightarrow> if b then Some (st\<lparr> pc := Sending i, tw_wg := tw_wg st + 1 \<rparr>)
                        else Some (st\<lparr> pc := AtWhen (Suc i) \<rparr>))
          else if i = length ms \<and> tw_wg st = 0 then Some (st\<lparr> pc := Returned None \<rparr>)
          else None
      | Sending i \<Rightarrow>
          if \<not> tw_ch st i then Some (st\<lparr> pc := AtWhen (Suc i), tw_ch := (tw_ch st)(i := True) \<rparr>)
          else if ctxDone st then Some (st\<lparr> pc := Returned (Some ctxErr) \<rparr>)
          else None
      | Returned x \<Rightarrow> None)"

definition workerStep ::
    "('s, 'v) TransformerContext list \<Rightarrow> nat \<Rightarrow> ('s, 'v) wstate \<Rightarrow> ('s, 'v) wstate option" where
  "workerStep ms i st =
     (if i < length ms then
        (case tw_workers st i of
           Idle \<Rightarrow>
             if tw_ch st i then
               (case Transform (ms ! i) (tw_states st i) (tw_r st) of
                  (s', ws, e) \<Rightarrow> Some (st\<lparr> tw_ch := (tw_ch st)(i := False),
                      tw_states := (tw_states st)(i := s'),
                      tw_workers := (tw_workers st)(i := Busy ws e) \<rparr>))
             else None
         | Busy ((n, v) # ws) e \<Rightarrow>
             Some (st\<lparr> tw_r := (tw_r st)(n := v), tw_workers := (tw_workers st)(i := Busy ws e) \<rparr>)
         | Busy [] None \<Rightarrow> Some (st\<lparr> tw_wg := tw_wg st - 1, tw_workers := (tw_workers st)(i := Idle) \<rparr>)
         | Busy [] (Some f) \<Rightarrow>
             Some (st\<lparr> tw_wg := tw_wg st - 1, tw_workers := (tw_workers st)(i := Failing f) \<rparr>)
         | Failing f \<Rightarrow>
             Some (st\<lparr> ctxDone := True, tw_workers := (tw_workers st)(i := Exited (Some f)) \<rparr>)
         | Exited x \<Rightarrow> None)
      else None)"

definition workerStop ::
    "('s, 'v) TransformerContext list \<Rightarrow> nat \<Rightarrow> ('s, 'v) wstate \<Rightarrow> ('s, 'v) wstate option" where
  "workerStop ms i st =
     (if i < length ms \<and> tw_workers st i = Idle \<and> ctxDone st then
        Some (st\<lparr> tw_workers := (tw_workers st)(i := Exited (Some ctxErr)) \<rparr>)
      else None)"

fun perform :: "('s, 'v) TransformerContext list \<Rightarrow> action \<Rightarrow> ('s, 'v) wstate \<Rightarrow> ('s, 'v) wstate option" where
  "perform ms Main st = mainStep ms st"
| "perform ms (Worker i) st = workerStep ms i st"
| "perform ms (WorkerDone i) st = workerStop ms i st"

fun schedule ::
    "('s, 'v) TransformerContext list \<Rightarrow> action list \<Rightarrow> ('s, 'v) wstate \<Rightarrow> ('s, 'v) wstate option" where
  "schedule ms [] st = Some st"
| "schedule ms (a # as) st = Option.bind (perform ms a st) (schedule ms as)"

lemma mainStep_sound: "mainStep ms st = Some t \<Longrightarrow> wstep ext ms st t"
  by (auto simp: mainStep_def intro: wstep.intros split: main.splits if_splits sum.splits)

lemma workerStep_sound: "workerStep ms i st = Some t \<Longrightarrow> wstep ext ms st t"
  by (auto simp: workerStep_def intro: wstep.intros
      split: worker.splits if_splits list.splits option.splits prod.splits)

lemma workerStop_sound: "workerStop ms i st = Some t \<Longrightarrow> wstep ext ms st t"
  by (auto simp: workerStop_def intro: wstep.intros split: if_splits)

lemma perform_sound: "perform ms a st = Some t \<Longrightarrow> wstep ext ms st t"
  by (cases a) (auto intro: mainStep_sound workerStep_sound workerStop_sound)

lemma schedule_sound: "schedule ms as st = Some t \<Longrightarrow> wsteps ext ms st t"
proof (induction as arbitrary: st)
  case Nil
  then show ?case by simp
next
  case (Cons a as)
  then obtain u where "perform ms a st = Some u" "schedule ms as u = Some t"
    by (auto simp: bind_eq_Some_conv)
  then show ?case using Cons.IH perform_sound by (metis converse_rtranclp_into_rtranclp)
qed

lemma wsteps_relpow: "wsteps ext ms st t \<Longrightarrow> \<exists>k. (wstep ext ms ^^ k) st t"
  by (rule rtranclp_imp_relpowp)

section \<open>Two counters\<close>

definition addTo :: "string \<Rightarrow> (nat columns \<Rightarrow> bool) \<Rightarrow> (nat, nat) TransformerContext" where
  "addTo col cond = \<lparr> GetAffectedColumns = [col], EvaluateWhen = (\<lambda>c. Inr (cond c)),
     Transform = (\<lambda>s c. (Suc s, [(col, c col + s)], None)) \<rparr>"

definition failing :: "string \<Rightarrow> (nat, nat) TransformerContext" where
  "failing col = \<lparr> GetAffectedColumns = [col], EvaluateWhen = (\<lambda>c. Inr True),
     Transform = (\<lambda>s c. (s, [], Some (Err ''transform''))) \<rparr>"

definition zeroRow :: "nat columns" where
  "zeroRow = (\<lambda>_. 0)"

definition counters :: "(nat, nat) TransformerContext list" where
  "counters = [addTo ''a'' (\<lambda>_. True), addTo ''b'' (\<lambda>_. True)]"

lemma counters_windows: "map window (buildWindows [''a'', ''b''] counters) = [counters]"
  by (simp add: counters_def buildWindows_def tryAdd_def newTransformationWindow_def addTo_def)

lemma addTo_ignores:
  assumes "col \<notin> C" "\<And>c c'. (\<And>n. n \<notin> C \<Longrightarrow> c n = c' n) \<Longrightarrow> cond c = cond c'"
  shows "ignores C (addTo col cond)"
  unfolding ignores_def
proof (intro allI impI)
  fix c c' :: "nat columns" assume eq: "\<forall>n. n \<notin> C \<longrightarrow> c n = c' n"
  have "cond c = cond c'" by (rule assms(2)) (use eq in blast)
  moreover have "c col = c' col" using eq assms(1) by blast
  ultimately show "EvaluateWhen (addTo col cond) c = EvaluateWhen (addTo col cond) c'
      \<and> (\<forall>s. Transform (addTo col cond) s c = Transform (addTo col cond) s c')"
    by (simp add: addTo_def)
qed

lemma addTo_writes: "writes_within {col} (addTo col cond)"
  by (simp add: writes_within_def addTo_def)

lemma addTo_footprint [simp]: "footprint cs (addTo col cond) = {col}"
  by (simp add: footprint_def addTo_def)

lemma counters_independent: "independent [''a'', ''b''] counters"
  unfolding independent_def
proof (intro conjI allI impI)
  show "separated [''a'', ''b''] counters"
    by (simp add: counters_def separated_Cons) (simp add: separated_def)
next
  fix i assume "i < length counters"
  then have i: "i = 0 \<or> i = 1" by (auto simp: counters_def)
  then show "writes_within (footprint [''a'', ''b''] (counters ! i)) (counters ! i)"
    using addTo_writes by (auto simp: counters_def)
  have "other_columns [''a'', ''b''] counters 0 \<subseteq> {''b''}" "other_columns [''a'', ''b''] counters 1 \<subseteq> {''a''}"
    by (auto simp: other_columns_def counters_def less_Suc_eq)
  then show "ignores (other_columns [''a'', ''b''] counters i) (counters ! i)"
    using i by (auto simp: counters_def intro!: addTo_ignores)
qed

lemma counters_sync:
  "TransformSync counters [1, 2] zeroRow = Inr ([2, 3], zeroRow(''a'' := 1, ''b'' := 2))"
  by (simp add: counters_def addTo_def writeAll_def zeroRow_def eval_nat_numeral)

theorem TransformAsync_equals_TransformSync_witness:
  "TransformAsync (map window (buildWindows [''a'', ''b''] counters)) [1, 2] zeroRow
     (Inr ([2, 3], zeroRow(''a'' := 1, ''b'' := 2)))"
  by (subst TransformAsync_equals_TransformSync [OF _ _ _ counters_sync])
    (use counters_windows counters_independent in \<open>auto simp: counters_def\<close>)

text \<open>A run that returns, from the start of the window.\<close>

theorem window_terminates_witness:
  "\<exists>k st. 0 < k \<and> k \<le> window_bound counters [1, 2] zeroRow \<and>
     (wstep False counters ^^ k) (started [1, 2] zeroRow) st \<and> pc st = Returned None \<and>
     tw_r st = zeroRow(''a'' := 1, ''b'' := 2)"
proof -
  have l: "length [1 :: nat, 2] = length counters" by (simp add: counters_def)
  note t = window_terminates [OF counters_independent l counters_sync]
  have "(wstep False counters ^^ 0) (started [1, 2] zeroRow) (started [1, 2] zeroRow)" by simp
  from t [OF this] obtain k st where st: "(wstep False counters ^^ k) (started [1, 2] zeroRow) st"
    "pc st = Returned None" "tw_r st = zeroRow(''a'' := 1, ''b'' := 2)"
    by blast
  moreover have "pc (started [1 :: nat, 2] zeroRow) \<noteq> Returned None" by (simp add: started_def)
  then have "0 < k" using st(1,2) by (cases k) auto
  moreover have "k \<le> window_bound counters [1, 2] zeroRow" using t [OF st(1)] by blast
  ultimately show ?thesis by blast
qed

theorem buildWindows_partition_witness:
  "concat (map window (buildWindows [''a'', ''b''] counters)) = counters"
  using buildWindows_partition [of counters "[''a'', ''b'']"] by (simp add: counters_def)

section \<open>A condition on a column the window writes\<close>

definition racing :: "(nat, nat) TransformerContext list" where
  "racing = [addTo ''a'' (\<lambda>_. True), addTo ''b'' (\<lambda>c. c ''a'' = 0)]"

text \<open>Disjoint affected columns are not enough: \<^verbatim>\<open>tryAdd\<close> does not look at the columns a
  \<^verbatim>\<open>When\<close> condition reads. The two transformers of \<open>racing\<close> share one window, each writes
  only the column it affects, and the second one runs if the first one's column is 0; the window can
  return two different records, one of them not the record of the synchronous pipeline.\<close>

lemma window_when_race:
  "map window (buildWindows [''a'', ''b''] racing) = [racing]
   \<and> TransformSync racing [1, 2] zeroRow = Inr ([2, 2], zeroRow(''a'' := 1))
   \<and> windowReturns racing [1, 2] zeroRow (Inr ([2, 2], zeroRow(''a'' := 1)))
   \<and> windowReturns racing [1, 2] zeroRow (Inr ([2, 3], zeroRow(''a'' := 1, ''b'' := 2)))"
proof (intro conjI)
  show "map window (buildWindows [''a'', ''b''] racing) = [racing]"
    by (simp add: racing_def buildWindows_def tryAdd_def newTransformationWindow_def addTo_def)
  show "TransformSync racing [1, 2] zeroRow = Inr ([2, 2], zeroRow(''a'' := 1))"
    by (simp add: racing_def addTo_def writeAll_def zeroRow_def eval_nat_numeral)
  note ev = racing_def addTo_def zeroRow_def started_def mainStep_def workerStep_def eval_nat_numeral
  define one where "one = schedule racing
      [Main, Main, Worker 0, Worker 0, Worker 0, Main, Main] (started [1, 2] zeroRow)"
  obtain st1 where st1: "one = Some st1" "pc st1 = Returned None" "tw_r st1 = zeroRow(''a'' := 1)"
      "map (tw_states st1) [0..<length racing] = [2, 2]"
    unfolding one_def by (simp add: ev)
  have "wsteps False racing (started [1, 2] zeroRow) st1"
    using st1(1) schedule_sound unfolding one_def by blast
  then show "windowReturns racing [1, 2] zeroRow (Inr ([2, 2], zeroRow(''a'' := 1)))"
    unfolding windowReturns_def using st1 by (intro exI [of _ st1]) simp
  define two where "two = schedule racing
      [Main, Main, Main, Main, Worker 0, Worker 0, Worker 0, Worker 1, Worker 1, Worker 1, Main]
      (started [1, 2] zeroRow)"
  obtain st2 where st2: "two = Some st2" "pc st2 = Returned None"
      "tw_r st2 = zeroRow(''a'' := 1, ''b'' := 2)" "map (tw_states st2) [0..<length racing] = [2, 3]"
    unfolding two_def by (simp add: ev)
  have "wsteps False racing (started [1, 2] zeroRow) st2"
    using st2(1) schedule_sound unfolding two_def by blast
  then show "windowReturns racing [1, 2] zeroRow (Inr ([2, 3], zeroRow(''a'' := 1, ''b'' := 2)))"
    unfolding windowReturns_def using st2 by (intro exI [of _ st2]) simp
qed

section \<open>A window that blocks\<close>

definition halfFailing :: "(nat, nat) TransformerContext list" where
  "halfFailing = [failing ''a'', addTo ''b'' (\<lambda>_. True)]"

definition blocked :: "(nat, nat) wstate \<Rightarrow> bool" where
  "blocked st \<longleftrightarrow> pc st = AtWhen 2 \<and> tw_wg st = 1 \<and> ctxDone st
     \<and> (\<exists>x. tw_workers st 0 = Exited x) \<and> (\<exists>x. tw_workers st 1 = Exited x)"

lemma blocked_step:
  assumes "wstep ext halfFailing st t" "blocked st"
  shows "blocked t"
  using assms(1)
  by (cases rule: wstep.cases) (use assms(2) in \<open>auto simp: blocked_def halfFailing_def less_Suc_eq eval_nat_numeral\<close>)

lemma blocked_steps: "wsteps ext halfFailing st t \<Longrightarrow> blocked st \<Longrightarrow> blocked t"
  by (induction rule: rtranclp_induct) (auto intro: blocked_step)

text \<open>Claim C13. After an error of one transformer the window can block for good. In the window of
  \<open>halfFailing\<close> the goroutine of the failing transformer ends and its error cancels the context of the
  group; the goroutine of the other transformer may take the \<^verbatim>\<open>ctx.Done\<close> case although its signal is
  pending. The wait group then never reaches zero, and \<^verbatim>\<open>Transform\<close>, which waits for it without
  looking at the context, never returns.\<close>

theorem window_blocks_after_error:
  "\<exists>st. wsteps False halfFailing (started [1, 2] zeroRow) st \<and> ctxDone st
     \<and> \<not> (\<exists>t x. wsteps True halfFailing st t \<and> pc t = Returned x)"
proof -
  define run where "run = schedule halfFailing
      [Main, Main, Worker 0, Worker 0, Worker 0, Main, Main, WorkerDone 1] (started [1, 2] zeroRow)"
  obtain st where st: "run = Some st" "blocked st"
    unfolding run_def
    by (simp add: halfFailing_def failing_def addTo_def started_def mainStep_def workerStep_def
        workerStop_def blocked_def less_Suc_eq eval_nat_numeral)
  have "wsteps False halfFailing (started [1, 2] zeroRow) st"
    using st(1) schedule_sound unfolding run_def by blast
  moreover have "pc t \<noteq> Returned x" if "wsteps True halfFailing st t" for t x
    using blocked_steps [OF that st(2)] by (simp add: blocked_def)
  ultimately show ?thesis using st(2) unfolding blocked_def by blast
qed

end
