(* ===== verification/DumpPipeline.thy ===== *)
theory DumpPipeline
  imports PgRow Strconv
begin

text \<open>
  Dumping a table, \<^verbatim>\<open>internal/db/postgres/dumpers\<close>: the plain, the transforming and the validating pipeline
  (\<^verbatim>\<open>plain_dump_pipeline.go\<close>, \<^verbatim>\<open>transformation_pipeline.go\<close>, \<^verbatim>\<open>validation_pipeline.go\<close>), the
  errors they report (\<^verbatim>\<open>errors.go\<close>) and the loop over the messages of the server in \<^verbatim>\<open>table.go\<close>.

  The writer of a pipeline is the list of bytes written so far together with the function that says
  whether a further write fails. The \<^verbatim>\<open>Transform\<close> function and the table's \<^verbatim>\<open>When\<close> condition are fields
  of the pipeline, as in the code; the record a transformer works on is the decoded row.
\<close>

section \<open>Errors\<close>

definition decimal :: "nat \<Rightarrow> string" where
  "decimal n = map (\<lambda>b. char_of (unat b)) (format_nat n)"

fun wrapErr :: "string \<Rightarrow> fault \<Rightarrow> fault" where
  "wrapErr prefix (Err m) = Err (prefix @ m)"
| "wrapErr prefix (Panic m) = Panic m"

record DumpError =
  de_Schema :: string
  de_Table :: string
  de_Line :: uint64
  de_Err :: string

definition NewDumpError :: "string \<Rightarrow> string \<Rightarrow> uint64 \<Rightarrow> string \<Rightarrow> DumpError" where
  "NewDumpError schema tab line e =
     \<lparr> de_Schema = schema, de_Table = tab, de_Line = line, de_Err = e \<rparr>"

definition DumpError_Error :: "DumpError \<Rightarrow> string" where
  "DumpError_Error de =
     ''dump error on table '' @ de_Schema de @ ''.'' @ de_Table de @ '' at line '' @ decimal (unat (de_Line de))
       @ '': '' @ de_Err de"

fun dumpFault :: "string \<Rightarrow> string \<Rightarrow> uint64 \<Rightarrow> fault \<Rightarrow> fault" where
  "dumpFault schema tab line (Err m) = Err (DumpError_Error (NewDumpError schema tab line m))"
| "dumpFault schema tab line (Panic m) = Panic m"

fun mapFault :: "(fault \<Rightarrow> fault) \<Rightarrow> 'a res \<Rightarrow> 'a res" where
  "mapFault f (Inl e) = Inl (f e)"
| "mapFault f (Inr a) = Inr a"

lemma mapFault_Inr [simp]: "mapFault f m = Inr a \<longleftrightarrow> m = Inr a"
  by (cases m) auto

section \<open>Writing\<close>

record ByteWriter =
  written :: "byte list"
  writeFails :: "byte list \<Rightarrow> byte list \<Rightarrow> string option"

definition Write :: "ByteWriter \<Rightarrow> byte list \<Rightarrow> ByteWriter res" where
  "Write w d =
     (case writeFails w (written w) d of
        Some e \<Rightarrow> err e
      | None \<Rightarrow> Inr (w\<lparr> written := written w @ d \<rparr>))"

lemma Write_ok: "Write w d = Inr w' \<Longrightarrow> written w' = written w @ d"
  by (auto simp: Write_def split: option.splits)

text \<open>The bytes of \<^verbatim>\<open>CompleteDump\<close>: the end-of-data marker and two line feeds.\<close>

definition endOfLineSeq :: "byte list" where "endOfLineSeq = [0x0A]"

definition dumpTrailer :: "byte list" where
  "dumpTrailer = DefaultCopyTerminationSeq @ [0x0A, 0x0A]"

section \<open>The plain pipeline\<close>

record PlainDumpPipeline =
  pd_w :: ByteWriter
  pd_line :: uint64
  pd_Schema :: string
  pd_Name :: string

definition NewPlainDumpPipeline :: "string \<Rightarrow> string \<Rightarrow> ByteWriter \<Rightarrow> PlainDumpPipeline" where
  "NewPlainDumpPipeline schema name w =
     \<lparr> pd_w = w, pd_line = 0, pd_Schema = schema, pd_Name = name \<rparr>"

definition Plain_Init :: "PlainDumpPipeline \<Rightarrow> PlainDumpPipeline res" where "Plain_Init pdp = Inr pdp"

definition Plain_Dump :: "PlainDumpPipeline \<Rightarrow> byte list \<Rightarrow> PlainDumpPipeline res" where
  "Plain_Dump pdp d =
     (let pdp = pdp\<lparr> pd_line := pd_line pdp + 1 \<rparr> in
      bindR (mapFault (dumpFault (pd_Schema pdp) (pd_Name pdp) (pd_line pdp)) (Write (pd_w pdp) d))
        (\<lambda>w. Inr (pdp\<lparr> pd_w := w \<rparr>)))"

definition Plain_CompleteDump :: "PlainDumpPipeline \<Rightarrow> PlainDumpPipeline res" where
  "Plain_CompleteDump pdp =
     bindR (mapFault (dumpFault (pd_Schema pdp) (pd_Name pdp) (pd_line pdp) \<circ> wrapErr ''error end of dump symbols: '')
              (Write (pd_w pdp) dumpTrailer))
       (\<lambda>w. Inr (pdp\<lparr> pd_w := w \<rparr>))"

definition Plain_Done :: "PlainDumpPipeline \<Rightarrow> fault option" where "Plain_Done pdp = None"

section \<open>The transforming pipeline\<close>

text \<open>\<open>tp_states\<close> is the state of the transformers; \<open>tp_initErr\<close> and \<open>tp_doneErr\<close> are what their \<^verbatim>\<open>Init\<close> and
  \<^verbatim>\<open>Done\<close> return, transformer by transformer.\<close>

record 's TransformationPipeline =
  tp_Schema :: string
  tp_Name :: string
  tp_w :: ByteWriter
  tp_line :: uint64
  tp_row :: Row
  tp_When :: "Row \<Rightarrow> bool res"
  tp_Transform :: "'s \<Rightarrow> Row \<Rightarrow> ('s \<times> Row) res"
  tp_states :: 's
  tp_initErr :: "string option list"
  tp_doneErr :: "string option list"

definition tp_fault :: "'s TransformationPipeline \<Rightarrow> fault \<Rightarrow> fault" where
  "tp_fault tp = dumpFault (tp_Schema tp) (tp_Name tp) (tp_line tp)"

text \<open>The last error of a loop that goes on after an error.\<close>

definition lastError :: "string option list \<Rightarrow> string option" where
  "lastError es = foldl (\<lambda>l e. case e of None \<Rightarrow> l | Some m \<Rightarrow> Some m) None es"

text \<open>\<^verbatim>\<open>Init\<close> calls every transformer's \<^verbatim>\<open>Init\<close>. The loop variable \<open>idx\<close> keeps its last value, so after an
  error the transformers before the last one get a call of \<^verbatim>\<open>Done\<close>.\<close>

datatype transformerCall = CallInit nat | CallDone nat

definition Transformation_Init :: "'s TransformationPipeline \<Rightarrow> transformerCall list \<times> 's TransformationPipeline res" where
  "Transformation_Init tp =
     (let n = length (tp_initErr tp); idx = n - 1; inits = map CallInit [0..<n] in
      case lastError (tp_initErr tp) of
        Some m \<Rightarrow> (inits @ map CallDone [0..<idx], err (''unable to initialize transformer: '' @ m))
      | None \<Rightarrow> (inits, Inr tp))"

definition Transformation_Done :: "'s TransformationPipeline \<Rightarrow> fault option" where
  "Transformation_Done tp =
     map_option (\<lambda>m. Err (''error terminating initialized transformer: '' @ m)) (lastError (tp_doneErr tp))"

text \<open>\<open>transformRow\<close>: the \<^verbatim>\<open>When\<close> condition of the table and the transformation; \<open>emitRow\<close>: the line is encoded
  and written with its line feed.\<close>

definition transformRow :: "'s TransformationPipeline \<Rightarrow> Row \<Rightarrow> ('s \<times> Row) res" where
  "transformRow tp row =
     bindR (mapFault (tp_fault tp \<circ> wrapErr ''error evaluating when condition: '') (tp_When tp row))
       (\<lambda>needTransform.
          if needTransform then mapFault (tp_fault tp) (tp_Transform tp (tp_states tp) row)
          else Inr (tp_states tp, row))"

definition emitRow :: "'s TransformationPipeline \<Rightarrow> 's \<Rightarrow> Row \<Rightarrow> 's TransformationPipeline res" where
  "emitRow tp states row =
     bindR (mapFault (tp_fault tp \<circ> wrapErr ''error encoding RowDriver to []byte: '') (Row_Encode row))
       (\<lambda>(row2, line).
     bindR (mapFault (tp_fault tp \<circ> wrapErr ''error writing dumped data: '') (Write (tp_w tp) line))
       (\<lambda>w1.
     bindR (mapFault (tp_fault tp \<circ> wrapErr ''error writing dumped data: '') (Write w1 endOfLineSeq))
       (\<lambda>w2. Inr (tp\<lparr> tp_row := row2, tp_states := states, tp_w := w2 \<rparr>))))"

definition Transformation_Dump ::
    "'s TransformationPipeline \<Rightarrow> byte list \<Rightarrow> 's TransformationPipeline res" where
  "Transformation_Dump tp0 d =
     (let tp = tp0\<lparr> tp_line := tp_line tp0 + 1 \<rparr> in
      if d = [] then panic ''slice bounds out of range''
      else case Row_Decode (tp_row tp) (take (length d - 1) d) of
        (row, Some e) \<Rightarrow> Inl (wrapErr ''error decoding copy line: '' e)
      | (row, None) \<Rightarrow> bindR (transformRow tp row) (\<lambda>(states, row1). emitRow tp states row1))"

definition Transformation_CompleteDump :: "'s TransformationPipeline \<Rightarrow> 's TransformationPipeline res" where
  "Transformation_CompleteDump tp =
     bindR (mapFault (tp_fault tp \<circ> wrapErr ''error end of dump symbols: '') (Write (tp_w tp) dumpTrailer))
       (\<lambda>w. Inr (tp\<lparr> tp_w := w \<rparr>))"

text \<open>The validating pipeline writes every original line before its transformed line.\<close>

definition Validation_Dump ::
    "'s TransformationPipeline \<Rightarrow> byte list \<Rightarrow> 's TransformationPipeline res" where
  "Validation_Dump vp d =
     bindR (mapFault (tp_fault vp \<circ> wrapErr ''error writing original dumped data: '') (Write (tp_w vp) d))
       (\<lambda>w. Transformation_Dump (vp\<lparr> tp_w := w \<rparr>) d)"

section \<open>The message loop\<close>

datatype event =
    CtxDone string
  | ReceiveErr string
  | CopyOutResponse
  | CopyData "byte list"
  | CopyDone
  | CommandComplete
  | ReadyForQuery
  | ErrorResponse string string
  | OtherMessage string

record 'p Pipeliner =
  pl_Dump :: "'p \<Rightarrow> byte list \<Rightarrow> 'p res"
  pl_Init :: "'p \<Rightarrow> 'p res"
  pl_Done :: "'p \<Rightarrow> fault option"
  pl_CompleteDump :: "'p \<Rightarrow> 'p res"

definition PlainPipeline :: "PlainDumpPipeline Pipeliner" where
  "PlainPipeline = \<lparr> pl_Dump = Plain_Dump, pl_Init = Plain_Init, pl_Done = Plain_Done,
     pl_CompleteDump = Plain_CompleteDump \<rparr>"

definition TransformPipeline :: "'s TransformationPipeline Pipeliner" where
  "TransformPipeline = \<lparr> pl_Dump = Transformation_Dump, pl_Init = snd \<circ> Transformation_Init,
     pl_Done = Transformation_Done, pl_CompleteDump = Transformation_CompleteDump \<rparr>"

definition ValidationPipeline :: "'s TransformationPipeline Pipeliner" where
  "ValidationPipeline = \<lparr> pl_Dump = Validation_Dump, pl_Init = snd \<circ> Transformation_Init,
     pl_Done = Transformation_Done, pl_CompleteDump = Transformation_CompleteDump \<rparr>"

text \<open>One element of the list per round of the loop: the context, the error of \<^verbatim>\<open>Receive\<close>, or a message.
  A list that ends is a connection that is closed. \<open>n\<close> is \<^verbatim>\<open>recordNum\<close>.\<close>

fun process :: "'p Pipeliner \<Rightarrow> bool \<Rightarrow> uint64 \<Rightarrow> uint64 \<Rightarrow> event list \<Rightarrow> 'p \<Rightarrow> 'p res" where
  "process P validate lim n [] p = err ''unable to perform pgcopy query: unexpected EOF''"
| "process P validate lim n (ev # evs) p =
     (case ev of
        CtxDone e \<Rightarrow> err e
      | ReceiveErr e \<Rightarrow> err (''unable to perform pgcopy query: '' @ e)
      | CopyData d \<Rightarrow>
          bindR (mapFault (wrapErr ''dump error: '') (pl_Dump P p d))
            (\<lambda>p1. if validate \<and> n + 1 = lim then Inr p1
                  else process P validate lim (if validate then n + 1 else n) evs p1)
      | CopyOutResponse \<Rightarrow> process P validate lim n evs p
      | CopyDone \<Rightarrow> process P validate lim n evs p
      | CommandComplete \<Rightarrow> process P validate lim n evs p
      | ReadyForQuery \<Rightarrow> pl_CompleteDump P p
      | ErrorResponse m code \<Rightarrow> err (''error from postgres connection msg = '' @ m @ '' code='' @ code)
      | OtherMessage m \<Rightarrow> err (''unknown backup message '' @ m))"

text \<open>\<^verbatim>\<open>dumper\<close>: initialise, copy, terminate; the error of the copy hides the one of \<^verbatim>\<open>Done\<close>.\<close>

definition dumper :: "'p Pipeliner \<Rightarrow> bool \<Rightarrow> uint64 \<Rightarrow> string \<Rightarrow> event list \<Rightarrow> 'p \<Rightarrow> 'p res" where
  "dumper P validate lim tab evs p =
     bindR (mapFault (wrapErr ''error initializing transformation pipeline: '') (pl_Init P p))
       (\<lambda>p1. case process P validate lim 0 evs p1 of
           Inl e \<Rightarrow> Inl (wrapErr (''error processing table dump '' @ tab @ '': '') e)
         | Inr p2 \<Rightarrow> (case pl_Done P p2 of None \<Rightarrow> Inr p2 | Some e \<Rightarrow> Inl e))"

end
