(* ===== verification/DumpPipelineProps.thy ===== *)
theory DumpPipelineProps
  imports DumpPipeline
begin

text \<open>
  What a dump contains. The interface \<^verbatim>\<open>Pipeliner\<close> is the locale \<open>pipeliner\<close>: a successful \<open>Dump\<close> appends
  what belongs to one line of the server, \<open>CompleteDump\<close> appends the trailer. Its lemmas follow the message loop once;
  the three pipelines are interpretations.
\<close>

section \<open>The interface\<close>

lemma dumper_run:
  assumes "dumper P validate lim tab evs p = Inr p'"
  shows "\<exists>p1. pl_Init P p = Inr p1 \<and> process P validate lim 0 evs p1 = Inr p'"
proof -
  from assms obtain p1 where p1: "pl_Init P p = Inr p1"
    "(case process P validate lim 0 evs p1 of
        Inl e \<Rightarrow> Inl (wrapErr (''error processing table dump '' @ tab @ '': '') e)
      | Inr p2 \<Rightarrow> (case pl_Done P p2 of None \<Rightarrow> Inr p2 | Some e \<Rightarrow> Inl e)) = Inr p'"
    unfolding dumper_def bindR_eq_Inr mapFault_Inr by blast
  show ?thesis
  proof (cases "process P validate lim 0 evs p1")
    case (Inl e)
    then show ?thesis using p1 by simp
  next
    case (Inr p2)
    then show ?thesis using p1 by (cases "pl_Done P p2") auto
  qed
qed

text \<open>The lines the server sends before it is ready for the next query.\<close>

fun copied :: "event list \<Rightarrow> byte list list" where
  "copied [] = []"
| "copied (ev # evs) =
     (case ev of CopyData d \<Rightarrow> d # copied evs | ReadyForQuery \<Rightarrow> [] | _ \<Rightarrow> copied evs)"

locale pipeliner =
  fixes P :: "'p Pipeliner"
    and out :: "'p \<Rightarrow> byte list"
    and inv :: "'p \<Rightarrow> bool"
    and accepts :: "byte list \<Rightarrow> bool"
    and emits :: "byte list \<Rightarrow> byte list \<Rightarrow> bool"
  assumes dump: "inv p \<Longrightarrow> accepts d \<Longrightarrow> pl_Dump P p d = Inr p' \<Longrightarrow>
      inv p' \<and> (\<exists>l. out p' = out p @ l \<and> emits d l)"
    and complete: "pl_CompleteDump P p = Inr p' \<Longrightarrow> out p' = out p @ dumpTrailer"
    and init: "pl_Init P p = Inr p' \<Longrightarrow> p' = p"
begin

lemma process_all:
  assumes "process P False lim n evs p = Inr p'" "inv p" "\<forall>d \<in> set (copied evs). accepts d"
  shows "\<exists>ls. list_all2 emits (copied evs) ls \<and> out p' = out p @ concat ls @ dumpTrailer"
  using assms
proof (induction evs arbitrary: p)
  case Nil
  then show ?case by simp
next
  case (Cons ev evs)
  show ?case
  proof (cases ev)
    case (CopyData d)
    with Cons.prems(1) obtain p1 where p1: "pl_Dump P p d = Inr p1" "process P False lim n evs p1 = Inr p'"
      by (auto simp: bindR_eq_Inr)
    with dump [OF Cons.prems(2) _ p1(1)] Cons.prems(3) CopyData obtain l
      where l: "inv p1" "out p1 = out p @ l" "emits d l" by auto
    from Cons.IH [OF p1(2) l(1)] Cons.prems(3) CopyData obtain ls
      where ls: "list_all2 emits (copied evs) ls" "out p' = out p1 @ concat ls @ dumpTrailer" by auto
    with l CopyData show ?thesis by (intro exI [of _ "l # ls"]) simp
  qed (use Cons complete in \<open>auto\<close>)
qed

text \<open>A validation stops after \<open>lim\<close> lines, and then leaves the trailer out.\<close>

lemma process_limited:
  assumes "process P True lim n evs p = Inr p'" "inv p" "\<forall>d \<in> set (copied evs). accepts d" "n < lim"
  shows "\<exists>ls. list_all2 emits (take (unat lim - unat n) (copied evs)) ls \<and>
     out p' = out p @ concat ls @ (if unat lim - unat n \<le> length (copied evs) then [] else dumpTrailer)"
  using assms
proof (induction evs arbitrary: p n)
  case Nil
  then show ?case by simp
next
  case (Cons ev evs)
  have gap: "0 < unat lim - unat n" using Cons.prems(4) by (simp add: word_less_nat_alt)
  show ?case
  proof (cases ev)
    case (CopyData d)
    with Cons.prems(1) obtain p1 where p1: "pl_Dump P p d = Inr p1"
      "(if n + 1 = lim then Inr p1 else process P True lim (n + 1) evs p1) = Inr p'"
      by (auto simp: bindR_eq_Inr cong: if_cong)
    with dump [OF Cons.prems(2) _ p1(1)] Cons.prems(3) CopyData obtain l
      where l: "inv p1" "out p1 = out p @ l" "emits d l" by auto
    have suc: "unat (n + 1) = Suc (unat n)"
    proof -
      have "unat lim < 2 ^ LENGTH(64)" by (rule unsigned_less)
      then have "unat n + unat (1 :: uint64) < 2 ^ LENGTH(64)"
        using Cons.prems(4) by (simp add: word_less_nat_alt)
      then have "unat (n + 1) = unat n + unat (1 :: uint64)" by (rule unat_add_lem [THEN iffD1])
      then show ?thesis by simp
    qed
    show ?thesis
    proof (cases "n + 1 = lim")
      case True
      with suc have "unat lim - unat n = 1" by auto
      with True p1 l CopyData show ?thesis by (intro exI [of _ "[l]"]) auto
    next
      case False
      then have "unat (n + 1) \<noteq> unat lim" by (simp add: word_unat_eq_iff)
      with Cons.prems(4) suc have less: "n + 1 < lim" by (simp add: word_less_nat_alt)
      have count: "unat lim - unat n = Suc (unat lim - unat (n + 1))"
        using suc less by (simp add: word_less_nat_alt)
      from False p1 have "process P True lim (n + 1) evs p1 = Inr p'" by simp
      from Cons.IH [OF this l(1) _ less] Cons.prems(3) CopyData obtain ls where
        "list_all2 emits (take (unat lim - unat (n + 1)) (copied evs)) ls"
        "out p' = out p1 @ concat ls @ (if unat lim - unat (n + 1) \<le> length (copied evs) then [] else dumpTrailer)"
        by auto
      with l CopyData count show ?thesis by (intro exI [of _ "l # ls"]) simp
    qed
  next
    case ReadyForQuery
    then show ?thesis using Cons.prems(1) complete gap by (auto intro!: exI [of _ "[]"])
  qed (use Cons in \<open>auto\<close>)
qed

lemma dumper_all:
  assumes "dumper P False lim tab evs p = Inr p'" "inv p" "\<forall>d \<in> set (copied evs). accepts d"
  shows "\<exists>ls. list_all2 emits (copied evs) ls \<and> out p' = out p @ concat ls @ dumpTrailer"
proof -
  obtain p1 where "pl_Init P p = Inr p1" "process P False lim 0 evs p1 = Inr p'"
    using dumper_run [OF assms(1)] by blast
  then show ?thesis using process_all assms(2,3) init by blast
qed

lemma dumper_limited:
  assumes "dumper P True lim tab evs p = Inr p'" "inv p" "\<forall>d \<in> set (copied evs). accepts d" "0 < lim"
  shows "\<exists>ls. list_all2 emits (take (unat lim) (copied evs)) ls \<and>
     out p' = out p @ concat ls @ (if unat lim \<le> length (copied evs) then [] else dumpTrailer)"
proof -
  obtain p1 where "pl_Init P p = Inr p1" "process P True lim 0 evs p1 = Inr p'"
    using dumper_run [OF assms(1)] by blast
  with init have "process P True lim 0 evs p = Inr p'" by blast
  from process_limited [OF this assms(2-4)] show ?thesis by simp
qed

end

section \<open>The plain pipeline\<close>

lemma Plain_Dump_ok:
  "Plain_Dump p d = Inr p' \<Longrightarrow> written (pd_w p') = written (pd_w p) @ d"
  by (auto simp: Plain_Dump_def Let_def bindR_eq_Inr dest: Write_ok)

interpretation plain: pipeliner PlainPipeline "\<lambda>p. written (pd_w p)" "\<lambda>_. True" "\<lambda>_. True" "\<lambda>d l. l = d"
proof
  fix p p' :: PlainDumpPipeline and d
  show "pl_Dump PlainPipeline p d = Inr p' \<Longrightarrow> True \<and> (\<exists>l. written (pd_w p') = written (pd_w p) @ l \<and> l = d)"
    by (simp add: PlainPipeline_def Plain_Dump_ok)
  show "pl_CompleteDump PlainPipeline p = Inr p' \<Longrightarrow> written (pd_w p') = written (pd_w p) @ dumpTrailer"
    by (auto simp: PlainPipeline_def Plain_CompleteDump_def bindR_eq_Inr dest: Write_ok)
  show "pl_Init PlainPipeline p = Inr p' \<Longrightarrow> p' = p"
    by (simp add: PlainPipeline_def Plain_Init_def)
qed

section \<open>The transforming pipeline\<close>

text \<open>Transformers change a row through its column setter only.\<close>

definition setColumns :: "(int \<times> RawValue) list \<Rightarrow> Row \<Rightarrow> Row res" where
  "setColumns ws r = foldR (\<lambda>(i, v) r. Row_SetColumn r i v) ws r"

definition sets_columns :: "('s \<Rightarrow> Row \<Rightarrow> ('s \<times> Row) res) \<Rightarrow> bool" where
  "sets_columns tf \<longleftrightarrow> (\<forall>s r s' r'. tf s r = Inr (s', r') \<longrightarrow> (\<exists>ws. setColumns ws r = Inr r'))"

text \<open>The fields of an output line: each is the field of the input line or an encoded value.\<close>

definition field_from :: "byte list \<Rightarrow> byte list \<Rightarrow> bool" where
  "field_from f g \<longleftrightarrow> g = f \<or> (\<exists>v. g = EncodeAttr v [])"

definition line_from :: "byte list \<Rightarrow> byte list \<Rightarrow> bool" where
  "line_from d l \<longleftrightarrow>
     (\<exists>b. l = b @ endOfLineSeq \<and>
        list_all2 field_from (split_on DefaultCopyDelimiter (take (length d - 1) d))
          (split_on DefaultCopyDelimiter b))"

definition has_columns :: "nat \<Rightarrow> byte list \<Rightarrow> bool" where
  "has_columns n d \<longleftrightarrow> length (split_on DefaultCopyDelimiter (take (length d - 1) d)) = n"

definition tp_inv :: "nat \<Rightarrow> 's TransformationPipeline \<Rightarrow> bool" where
  "tp_inv n tp \<longleftrightarrow>
     Row_wf (tp_row tp) \<and> fresh_values (tp_row tp) \<and> tupleSize (tp_row tp) = n
     \<and> sets_columns (tp_Transform tp)"

definition same_shape :: "Row \<Rightarrow> Row \<Rightarrow> bool" where
  "same_shape r r' \<longleftrightarrow> Row_wf r' \<and> raw r' = raw r \<and> columnPos r' = columnPos r
     \<and> tupleSize r' = tupleSize r \<and> isDynamic r' = isDynamic r"

lemma same_shape_refl: "Row_wf r \<Longrightarrow> same_shape r r"
  by (simp add: same_shape_def)

lemma setColumns_shape:
  assumes "setColumns ws r = Inr r'" "Row_wf r"
  shows "same_shape r r'"
proof (rule foldR_invariant [of _ ws r r' "same_shape r"])
  show "foldR (\<lambda>(i, v) r. Row_SetColumn r i v) ws r = Inr r'" using assms(1) by (simp add: setColumns_def)
  show "same_shape r r" using assms(2) by (simp add: same_shape_def)
next
  fix x s s' assume "same_shape r s" "(case x of (i, v) \<Rightarrow> \<lambda>r. Row_SetColumn r i v) s = Inr s'"
  then show "same_shape r s'"
    by (cases x) (auto simp: same_shape_def Row_SetColumn_iff Row_wf_def)
qed

lemma map2_out_from:
  "length vs = length fs \<Longrightarrow> list_all2 field_from fs (map2 out_field vs fs)"
  by (rule list_all2_all_nthI) (auto simp: field_from_def out_field_def split: option.split)

lemma encode_shape:
  assumes "same_shape r r1" "row_bounded r" "row_fields r = split_on DefaultCopyDelimiter line"
    and "0 < tupleSize r" "Row_Encode r1 = Inr (r2, b)"
  shows "Row_wf r2 \<and> fresh_values r2 \<and> tupleSize r2 = tupleSize r
    \<and> b = join_with [DefaultCopyDelimiter] (map2 out_field (newValues r1) (row_fields r))
    \<and> list_all2 field_from (split_on DefaultCopyDelimiter line) (split_on DefaultCopyDelimiter b)"
proof -
  have r1: "Row_wf r1" "row_bounded r1" "row_fields r1 = row_fields r" "0 < tupleSize r1"
    "tupleSize r1 = tupleSize r"
    using assms by (auto simp: same_shape_def row_bounded_def row_fields_def)
  define gs where "gs = map2 out_field (newValues r1) (row_fields r)"
  have enc: "r2 = r1\<lparr>newValues := replicate (tupleSize r1) None\<rparr>" "b = join_with [DefaultCopyDelimiter] gs"
    using Row_Encode_spec [OF r1(1,2,4)] assms(5) r1(3) by (auto simp: gs_def)
  have len: "length (newValues r1) = length (row_fields r)" "length (row_fields r) = tupleSize r1"
    using r1(1) assms(1) by (simp_all add: Row_wf_def same_shape_def)
  have "length gs = tupleSize r1" using len by (simp add: gs_def)
  then have gs: "gs \<noteq> []" using r1(4) by auto
  have "\<forall>g \<in> set gs. DefaultCopyDelimiter \<notin> set g"
  proof
    fix g assume "g \<in> set gs"
    then obtain i where i: "i < length gs" "g = gs ! i" by (auto simp: in_set_conv_nth)
    then have "g = out_field (newValues r1 ! i) (row_fields r ! i)" "i < length (row_fields r)"
      by (auto simp: gs_def)
    moreover have "row_fields r ! i \<in> set (split_on DefaultCopyDelimiter line)"
      using assms(3) calculation(2) by (metis nth_mem)
    moreover have "DefaultCopyDelimiter \<notin> set (row_fields r ! i)"
      using calculation(3) by (rule split_on_no_delim)
    ultimately show "DefaultCopyDelimiter \<notin> set g"
      using EncodeAttr_framing by (simp add: out_field_def split: option.split)
  qed
  then have "split_on DefaultCopyDelimiter b = gs" using split_join [OF gs] enc(2) by simp
  moreover have "list_all2 field_from (row_fields r) gs"
    using map2_out_from len unfolding gs_def by simp
  ultimately show ?thesis
    using enc r1 assms(3) by (auto simp: gs_def Row_wf_def fresh_values_def list_all_iff)
qed

lemma emitRow_ok:
  assumes "emitRow tp s r1 = Inr tp'"
  shows "\<exists>r2 line w. Row_Encode r1 = Inr (r2, line)
     \<and> tp' = tp\<lparr> tp_row := r2, tp_states := s, tp_w := w \<rparr>
     \<and> written w = written (tp_w tp) @ line @ endOfLineSeq"
  using assms by (auto simp: emitRow_def bindR_eq_Inr dest!: Write_ok)

lemma transformRow_ok:
  assumes "transformRow tp r = Inr (s1, r1)" "sets_columns (tp_Transform tp)" "Row_wf r"
  shows "same_shape r r1"
proof (cases "tp_Transform tp (tp_states tp) r = Inr (s1, r1)")
  case True
  then show ?thesis using assms(2) setColumns_shape [OF _ assms(3)] unfolding sets_columns_def by blast
next
  case False
  then show ?thesis using assms(1) same_shape_refl [OF assms(3)]
    by (auto simp: transformRow_def bindR_eq_Inr split: if_splits)
qed

lemma Transformation_Dump_ok:
  assumes inv: "tp_inv n tp" and cols: "has_columns n d" and run: "Transformation_Dump tp d = Inr tp'"
  shows "tp_inv n tp' \<and> (\<exists>l. written (tp_w tp') = written (tp_w tp) @ l \<and> line_from d l)"
proof -
  let ?line = "take (length d - 1) d"
  define tp1 where "tp1 = tp\<lparr> tp_line := tp_line tp + 1 \<rparr>"
  have d: "d \<noteq> []" using run by (auto simp: Transformation_Dump_def Let_def)
  have acc: "row_accepts (tp_row tp) ?line"
    using inv cols by (simp add: row_accepts_def has_columns_def tp_inv_def)
  obtain r where r: "Row_Decode (tp_row tp) ?line = (r, None)" "Row_wf r" "row_bounded r"
    "row_fields r = split_on DefaultCopyDelimiter ?line"
    "tupleSize r = length (split_on DefaultCopyDelimiter ?line)" "0 < tupleSize r"
    using Row_decoded [OF _ acc] inv unfolding tp_inv_def by metis
  have "bindR (transformRow tp1 r) (\<lambda>(states, row1). emitRow tp1 states row1) = Inr tp'"
    using run d r(1) by (simp add: Transformation_Dump_def Let_def tp1_def)
  then obtain s1 r1 where steps: "transformRow tp1 r = Inr (s1, r1)" "emitRow tp1 s1 r1 = Inr tp'"
    by (auto simp: bindR_eq_Inr)
  have "same_shape r r1" by (rule transformRow_ok [OF steps(1) _ r(2)]) (use inv in \<open>simp add: tp_inv_def tp1_def\<close>)
  moreover obtain r2 line w where e: "Row_Encode r1 = Inr (r2, line)"
    "tp' = tp1\<lparr> tp_row := r2, tp_states := s1, tp_w := w \<rparr>"
    "written w = written (tp_w tp) @ line @ endOfLineSeq"
    using emitRow_ok [OF steps(2)] by (auto simp: tp1_def)
  ultimately have "Row_wf r2 \<and> fresh_values r2 \<and> tupleSize r2 = tupleSize r
      \<and> list_all2 field_from (split_on DefaultCopyDelimiter ?line) (split_on DefaultCopyDelimiter line)"
    using encode_shape [OF _ r(3,4,6) e(1)] by blast
  then show ?thesis
    using e(2,3) r(5) inv cols by (auto simp: tp_inv_def has_columns_def line_from_def tp1_def)
qed

lemma dumpTrailer_Transformation:
  "Transformation_CompleteDump p = Inr p' \<Longrightarrow> written (tp_w p') = written (tp_w p) @ dumpTrailer"
  by (auto simp: Transformation_CompleteDump_def bindR_eq_Inr dest: Write_ok)

lemma Transformation_Init_same: "snd (Transformation_Init p) = Inr p' \<Longrightarrow> p' = p"
  by (auto simp: Transformation_Init_def Let_def split: option.splits)

interpretation transforming: pipeliner TransformPipeline "\<lambda>p. written (tp_w p)" "tp_inv n" "has_columns n" line_from
  for n
proof
  fix p p' :: "'a TransformationPipeline" and d
  show "tp_inv n p \<Longrightarrow> has_columns n d \<Longrightarrow> pl_Dump TransformPipeline p d = Inr p'
      \<Longrightarrow> tp_inv n p' \<and> (\<exists>l. written (tp_w p') = written (tp_w p) @ l \<and> line_from d l)"
    by (simp add: TransformPipeline_def Transformation_Dump_ok)
  show "pl_CompleteDump TransformPipeline p = Inr p' \<Longrightarrow> written (tp_w p') = written (tp_w p) @ dumpTrailer"
    by (simp add: TransformPipeline_def dumpTrailer_Transformation)
  show "pl_Init TransformPipeline p = Inr p' \<Longrightarrow> p' = p"
    by (simp add: TransformPipeline_def Transformation_Init_same)
qed

text \<open>A validation writes the original line in front of the transformed one.\<close>

definition pair_from :: "byte list \<Rightarrow> byte list \<Rightarrow> bool" where
  "pair_from d l \<longleftrightarrow> (\<exists>l'. l = d @ l' \<and> line_from d l')"

lemma Validation_Dump_ok:
  assumes "tp_inv n p" "has_columns n d" "Validation_Dump p d = Inr p'"
  shows "tp_inv n p' \<and> (\<exists>l. written (tp_w p') = written (tp_w p) @ l \<and> pair_from d l)"
proof -
  from assms(3) obtain w where w: "Write (tp_w p) d = Inr w"
    "Transformation_Dump (p\<lparr> tp_w := w \<rparr>) d = Inr p'"
    by (auto simp: Validation_Dump_def bindR_eq_Inr)
  have "tp_inv n (p\<lparr> tp_w := w \<rparr>)" using assms(1) by (simp add: tp_inv_def)
  from Transformation_Dump_ok [OF this assms(2) w(2)] Write_ok [OF w(1)] show ?thesis
    by (auto simp: pair_from_def)
qed

interpretation validating: pipeliner ValidationPipeline "\<lambda>p. written (tp_w p)" "tp_inv n" "has_columns n" pair_from
  for n
proof
  fix p p' :: "'a TransformationPipeline" and d
  show "tp_inv n p \<Longrightarrow> has_columns n d \<Longrightarrow> pl_Dump ValidationPipeline p d = Inr p'
      \<Longrightarrow> tp_inv n p' \<and> (\<exists>l. written (tp_w p') = written (tp_w p) @ l \<and> pair_from d l)"
    by (simp add: ValidationPipeline_def Validation_Dump_ok)
  show "pl_CompleteDump ValidationPipeline p = Inr p' \<Longrightarrow> written (tp_w p') = written (tp_w p) @ dumpTrailer"
    by (simp add: ValidationPipeline_def dumpTrailer_Transformation)
  show "pl_Init ValidationPipeline p = Inr p' \<Longrightarrow> p' = p"
    by (simp add: ValidationPipeline_def Transformation_Init_same)
qed

section \<open>A table without a transformation\<close>

text \<open>\<open>idle_tp\<close>: the table's condition selects no row, and writes do not fail.\<close>

definition idle_tp :: "nat \<Rightarrow> 's TransformationPipeline \<Rightarrow> bool" where
  "idle_tp n tp \<longleftrightarrow> tp_inv n tp \<and> (\<forall>r. tp_When tp r = Inr False) \<and> (\<forall>b d. writeFails (tp_w tp) b d = None)"

definition terminated :: "byte list \<Rightarrow> bool" where
  "terminated d \<longleftrightarrow> d \<noteq> [] \<and> last d = 0x0A"

definition dumped :: "('p \<Rightarrow> ByteWriter) \<Rightarrow> 'p res \<Rightarrow> byte list option" where
  "dumped w m = (case m of Inl e \<Rightarrow> None | Inr p \<Rightarrow> Some (written (w p)))"

lemma Write_total: "(\<And>b d. writeFails w b d = None) \<Longrightarrow> Write w d = Inr (w\<lparr> written := written w @ d \<rparr>)"
  by (simp add: Write_def)

lemma Transformation_Dump_idle:
  assumes idle: "idle_tp n tp" and cols: "has_columns n d" and "terminated d"
  shows "\<exists>tp'. Transformation_Dump tp d = Inr tp' \<and> idle_tp n tp' \<and> written (tp_w tp') = written (tp_w tp) @ d"
proof -
  let ?line = "take (length d - 1) d"
  have d: "d \<noteq> []" "?line @ endOfLineSeq = d"
    using assms(3) append_butlast_last_id [of d] by (auto simp: terminated_def endOfLineSeq_def butlast_conv_take)
  have inv: "Row_wf (tp_row tp)" "fresh_values (tp_row tp)" "row_accepts (tp_row tp) ?line"
    using idle cols by (simp_all add: idle_tp_def tp_inv_def row_accepts_def has_columns_def)
  obtain r1 r2 where r: "Row_Decode (tp_row tp) ?line = (r1, None)" "Row_Encode r1 = Inr (r2, ?line)"
    using Row_passthrough [OF inv(1,3,2)] by blast
  let ?tp1 = "tp\<lparr> tp_line := tp_line tp + 1 \<rparr>"
  have w: "writeFails (tp_w tp) b x = None" for b x using idle by (simp add: idle_tp_def)
  let ?w1 = "(tp_w tp)\<lparr> written := written (tp_w tp) @ ?line \<rparr>"
  let ?w2 = "?w1\<lparr> written := (written (tp_w tp) @ ?line) @ endOfLineSeq \<rparr>"
  let ?tp2 = "?tp1\<lparr> tp_row := r2, tp_states := tp_states tp, tp_w := ?w2 \<rparr>"
  have "transformRow ?tp1 r1 = Inr (tp_states tp, r1)"
    using idle by (simp add: transformRow_def idle_tp_def)
  moreover have "emitRow ?tp1 (tp_states tp) r1 = Inr ?tp2"
    using r(2) w by (simp add: emitRow_def Write_total)
  ultimately have run: "Transformation_Dump tp d = Inr ?tp2"
    using d(1) r(1) by (simp add: Transformation_Dump_def Let_def)
  have "tp_inv n ?tp2" using Transformation_Dump_ok [OF _ cols run] idle by (simp add: idle_tp_def)
  then have "idle_tp n ?tp2" using idle by (simp add: idle_tp_def)
  moreover have "written (tp_w ?tp2) = written (tp_w tp) @ d" using d(2) by simp
  ultimately show ?thesis using run by blast
qed

lemma process_idle:
  assumes "idle_tp n tp" "\<forall>d \<in> set (copied evs). has_columns n d \<and> terminated d"
    and "\<And>b d. writeFails (pd_w pdp) b d = None" "written (tp_w tp) = written (pd_w pdp)"
  shows "dumped tp_w (process TransformPipeline v lim k evs tp) = dumped pd_w (process PlainPipeline v lim k evs pdp)"
  using assms
proof (induction evs arbitrary: k tp pdp)
  case Nil
  then show ?case by (simp add: dumped_def)
next
  case (Cons ev evs)
  show ?case
  proof (cases ev)
    case (CopyData d)
    with Cons.prems(2) obtain tp1 where t: "Transformation_Dump tp d = Inr tp1" "idle_tp n tp1"
      "written (tp_w tp1) = written (tp_w tp) @ d"
      using Transformation_Dump_idle [OF Cons.prems(1)] by auto
    define q where "q = pdp\<lparr> pd_line := pd_line pdp + 1, pd_w := (pd_w pdp)\<lparr> written := written (pd_w pdp) @ d \<rparr> \<rparr>"
    have q: "Plain_Dump pdp d = Inr q"
      using Cons.prems(3) by (simp add: Plain_Dump_def Let_def Write_total q_def)
    have later: "\<forall>d \<in> set (copied evs). has_columns n d \<and> terminated d"
      using Cons.prems(2) CopyData by simp
    have w: "\<And>b x. writeFails (pd_w q) b x = None" "written (tp_w tp1) = written (pd_w q)"
      using Cons.prems(3,4) t(3) by (simp_all add: q_def)
    note IH = Cons.IH [OF t(2) later w]
    have "pl_Dump TransformPipeline tp d = Inr tp1" "pl_Dump PlainPipeline pdp d = Inr q"
      using t(1) q by (simp_all add: TransformPipeline_def PlainPipeline_def)
    then show ?thesis using CopyData IH w(2) by (simp add: dumped_def [of _ "Inr _"])
  next
    case ReadyForQuery
    have "Transformation_CompleteDump tp = Inr (tp\<lparr> tp_w := (tp_w tp)\<lparr> written := written (tp_w tp) @ dumpTrailer \<rparr> \<rparr>)"
      using Cons.prems(1) by (simp add: Transformation_CompleteDump_def Write_total idle_tp_def)
    moreover have "Plain_CompleteDump pdp = Inr (pdp\<lparr> pd_w := (pd_w pdp)\<lparr> written := written (pd_w pdp) @ dumpTrailer \<rparr> \<rparr>)"
      using Cons.prems(3) by (simp add: Plain_CompleteDump_def Write_total)
    ultimately show ?thesis
      using ReadyForQuery Cons.prems(4) by (simp add: TransformPipeline_def PlainPipeline_def dumped_def)
  qed (use Cons in \<open>simp_all add: dumped_def [of _ "Inl _"]\<close>)
qed

section \<open>Properties\<close>

text \<open>Claim C14. A dump through the transforming pipeline that succeeds writes one line for every line
  the server copied out, in order, then the end-of-data marker. Every output line has as many columns
  as its input line, and each of its fields is the field of the input or an encoded value, so nothing a
  transformer stores can break a line or a column apart.\<close>

theorem dump_transforms_lines:
  assumes "dumper TransformPipeline False lim tab evs tp = Inr tp'"
    and "tp_inv n tp" and "\<forall>d \<in> set (copied evs). has_columns n d"
  shows "\<exists>ls. list_all2 line_from (copied evs) ls
     \<and> written (tp_w tp') = written (tp_w tp) @ concat ls @ dumpTrailer"
  by (rule transforming.dumper_all [OF assms])

text \<open>A validation with a row limit writes, for each of the first \<open>lim\<close> rows, the original line
  followed by the transformed line, and stops there: the end-of-data marker is written only when
  the table has fewer rows than the limit.\<close>

lemma validation_stops_at_limit:
  assumes "dumper ValidationPipeline True lim tab evs tp = Inr tp'"
    and "tp_inv n tp" and "\<forall>d \<in> set (copied evs). has_columns n d" and "0 < lim"
  shows "\<exists>ls. list_all2 pair_from (take (unat lim) (copied evs)) ls
     \<and> written (tp_w tp') = written (tp_w tp) @ concat ls
         @ (if unat lim \<le> length (copied evs) then [] else dumpTrailer)"
  by (rule validating.dumper_limited [OF assms])

text \<open>When the table's \<^verbatim>\<open>When\<close> condition selects no row, the transforming pipeline writes byte for
  byte what the plain pipeline writes for the same messages of the server, and fails exactly when it does.\<close>

lemma untransformed_dump_equals_plain:
  assumes "idle_tp n tp" and "\<forall>d \<in> set (copied evs). has_columns n d \<and> terminated d"
    and "\<And>b d. writeFails (pd_w pdp) b d = None" and "written (tp_w tp) = written (pd_w pdp)"
  shows "dumped tp_w (process TransformPipeline v lim k evs tp) = dumped pd_w (process PlainPipeline v lim k evs pdp)"
  by (rule process_idle [OF assms])

section \<open>Witnesses\<close>

definition sampleWriter :: ByteWriter where
  "sampleWriter = \<lparr> written = [], writeFails = (\<lambda>_ _. None) \<rparr>"

definition sampleRow :: Row where
  "sampleRow = \<lparr> raw = [], newValues = [None, None],
     columnPos = [\<lparr> cp_start = 0, cp_end = 0 \<rparr>, \<lparr> cp_start = 0, cp_end = 0 \<rparr>], tupleSize = 2, isDynamic = False \<rparr>"

text \<open>The second column of every selected row is set to a tab.\<close>

definition samplePipeline :: "bool \<Rightarrow> unit TransformationPipeline" where
  "samplePipeline b = \<lparr> tp_Schema = ''public'', tp_Name = ''t'', tp_w = sampleWriter, tp_line = 0, tp_row = sampleRow,
     tp_When = (\<lambda>_. Inr b),
     tp_Transform = (\<lambda>s r. bindR (setColumns [(1, \<lparr> Data = [0x09], IsNull = False \<rparr>)] r) (\<lambda>r'. Inr (s, r'))),
     tp_states = (), tp_initErr = [None], tp_doneErr = [None] \<rparr>"

definition samplePlain :: PlainDumpPipeline where
  "samplePlain = NewPlainDumpPipeline ''public'' ''t'' sampleWriter"

definition sampleEvents :: "event list" where
  "sampleEvents = [CopyOutResponse, CopyData [0x31, 0x09, 0x61, 0x0A], CopyData [0x32, 0x09, 0x0A],
     CopyDone, CommandComplete, ReadyForQuery]"

lemma samplePipeline_inv: "tp_inv 2 (samplePipeline b)"
  by (auto simp: tp_inv_def samplePipeline_def Row_wf_def fresh_values_def sampleRow_def sets_columns_def
      bindR_eq_Inr)

lemma sampleEvents_columns: "\<forall>d \<in> set (copied sampleEvents). has_columns 2 d \<and> terminated d"
  by (simp add: sampleEvents_def has_columns_def terminated_def copy_consts)

lemma sample_runs: "isOk (dumper TransformPipeline False 0 ''t'' sampleEvents (samplePipeline True))"
  by code_simp

lemma sample_validates: "isOk (dumper ValidationPipeline True 1 ''t'' sampleEvents (samplePipeline True))"
  by code_simp

theorem dump_transforms_lines_witness:
  "\<exists>tp'. dumper TransformPipeline False 0 ''t'' sampleEvents (samplePipeline True) = Inr tp'
     \<and> (\<exists>ls. list_all2 line_from (copied sampleEvents) ls \<and> written (tp_w tp') = concat ls @ dumpTrailer)"
proof -
  obtain tp' where run: "dumper TransformPipeline False 0 ''t'' sampleEvents (samplePipeline True) = Inr tp'"
    using sample_runs by (auto simp: isOk_iff)
  moreover have "written (tp_w (samplePipeline True)) = []" by (simp add: samplePipeline_def sampleWriter_def)
  ultimately show ?thesis
    using dump_transforms_lines [OF run samplePipeline_inv] sampleEvents_columns by auto
qed

theorem validation_stops_at_limit_witness:
  "\<exists>tp'. dumper ValidationPipeline True 1 ''t'' sampleEvents (samplePipeline True) = Inr tp'
     \<and> (\<exists>ls. list_all2 pair_from [[0x31, 0x09, 0x61, 0x0A]] ls \<and> written (tp_w tp') = concat ls)"
proof -
  obtain tp' where run: "dumper ValidationPipeline True 1 ''t'' sampleEvents (samplePipeline True) = Inr tp'"
    using sample_validates by (auto simp: isOk_iff)
  moreover have "written (tp_w (samplePipeline True)) = []" by (simp add: samplePipeline_def sampleWriter_def)
  moreover have "take 1 (copied sampleEvents) = [[0x31, 0x09, 0x61, 0x0A]]"
    "1 \<le> length (copied sampleEvents)" by (simp_all add: sampleEvents_def)
  ultimately show ?thesis
    using validation_stops_at_limit [OF run samplePipeline_inv] sampleEvents_columns by auto
qed

theorem untransformed_dump_equals_plain_witness:
  "dumped tp_w (process TransformPipeline False 0 0 sampleEvents (samplePipeline False))
     = dumped pd_w (process PlainPipeline False 0 0 sampleEvents samplePlain)"
  by (rule untransformed_dump_equals_plain [of 2])
    (use samplePipeline_inv sampleEvents_columns in \<open>auto simp: idle_tp_def samplePipeline_def
       samplePlain_def NewPlainDumpPipeline_def sampleWriter_def\<close>)

end
