(* ===== verification/Generators.thy ===== *)
theory Generators
  imports Prelude
begin

text \<open>
  The byte generators of \<^verbatim>\<open>internal/generators\<close>: \<^verbatim>\<open>hash.go\<close>, \<^verbatim>\<open>hash_reducer.go\<close>, \<^verbatim>\<open>random_bytes.go\<close>,
  \<^verbatim>\<open>random_int64.go\<close>, \<^verbatim>\<open>projector.go\<close>, \<^verbatim>\<open>hybrid.go\<close>, \<^verbatim>\<open>siphash.go\<close>, \<^verbatim>\<open>murmur.go\<close> and \<^verbatim>\<open>utils.go\<close>.

  A generator may have a state (a random source), so \<open>Generate\<close> threads one. What it returns is a Go
  slice with its spare capacity: the code reslices results beyond their length
  (\<^verbatim>\<open>data[:8]\<close> on a slice of two bytes), which Go allows up to the capacity. The digests of the hash
  packages and the words of \<^verbatim>\<open>math/rand\<close> are parameters.
\<close>

section \<open>Slices with their capacity\<close>

record goslice =
  vis :: "byte list"
  spare :: "byte list"

definition reslice :: "goslice \<Rightarrow> nat \<Rightarrow> nat \<Rightarrow> goslice res" where
  "reslice s lo hi =
     (let arr = vis s @ spare s in
      if lo \<le> hi \<and> hi \<le> length arr
      then Inr \<lparr> vis = take (hi - lo) (drop lo arr), spare = drop hi arr \<rparr>
      else panic ''slice bounds out of range'')"

definition exact :: "byte list \<Rightarrow> goslice" where
  "exact bs = \<lparr> vis = bs, spare = [] \<rparr>"

lemma reslice_len: "reslice s lo hi = Inr s' \<Longrightarrow> length (vis s') = hi - lo"
  by (auto simp: reslice_def Let_def split: if_splits)

lemma reslice_ok:
  "lo \<le> hi \<Longrightarrow> hi \<le> length (vis s) + length (spare s) \<Longrightarrow> \<exists>s'. reslice s lo hi = Inr s'"
  by (simp add: reslice_def Let_def)

lemma reslice_prefix: "n \<le> length (vis s) \<Longrightarrow> reslice s 0 n = Inr s' \<Longrightarrow> vis s' = take n (vis s)"
  by (auto simp: reslice_def Let_def split: if_splits)

section \<open>Little-endian integers\<close>

definition PutUint :: "nat \<Rightarrow> 'w::len word \<Rightarrow> byte list" where
  "PutUint n w = map (\<lambda>i. ucast (drop_bit (8 * i) w)) [0..<n]"

fun le_uint :: "byte list \<Rightarrow> 'w::len word" where
  "le_uint [] = 0"
| "le_uint (b # bs) = or (ucast b) (push_bit 8 (le_uint bs))"

definition BuildBytesFromUint64 :: "uint64 \<Rightarrow> byte list" where
  "BuildBytesFromUint64 value = PutUint 8 value"

definition BuildBytesFromInt64 :: "int64 \<Rightarrow> byte list" where
  "BuildBytesFromInt64 value = PutUint 8 value"

definition BuildUint64FromBytes :: "goslice \<Rightarrow> uint64 res" where
  "BuildUint64FromBytes s =
     (if length (vis s) \<noteq> 8 then bindR (reslice s 0 8) (\<lambda>s8. Inr (le_uint (vis s8)))
      else Inr (le_uint (vis s)))"

definition BuildInt64FromBytes :: "goslice \<Rightarrow> int64 res" where
  "BuildInt64FromBytes s =
     (if length (vis s) \<noteq> 8 then bindR (reslice s 0 8) (\<lambda>s8. Inr (le_uint (vis s8)))
      else Inr (le_uint (vis s)))"

lemma length_PutUint [simp]: "length (PutUint n w) = n"
  by (simp add: PutUint_def)

lemma bit_le_uint:
  "bit (le_uint bs :: 'w::len word) k \<longleftrightarrow> k < LENGTH('w) \<and> k < 8 * length bs \<and> bit (bs ! (k div 8)) (k mod 8)"
proof (induction bs arbitrary: k)
  case Nil
  then show ?case by simp
next
  case (Cons b bs)
  show ?case
  proof (cases "k < 8")
    case True
    then show ?thesis by (auto simp: bit_simps)
  next
    case False
    then have "k div 8 = Suc ((k - 8) div 8)" "(k - 8) mod 8 = k mod 8"
      by (simp_all add: le_div_geq le_mod_geq)
    moreover have "\<not> bit b k" using False bit_imp_le_length [of b k] by auto
    ultimately show ?thesis using False Cons.IH [of "k - 8"] by (auto simp: bit_simps)
  qed
qed

lemma le_uint_PutUint:
  assumes "LENGTH('w::len) = 8 * n"
  shows "le_uint (PutUint n (w :: 'w word)) = w"
proof (rule bit_word_eqI)
  fix k assume k: "k < LENGTH('w)"
  then have "k div 8 < n" using assms by auto
  moreover have "8 * (k div 8) + k mod 8 = k" by simp
  ultimately show "bit (le_uint (PutUint n w) :: 'w word) k = bit w k"
    using k assms by (simp add: bit_le_uint PutUint_def bit_simps)
qed

section \<open>The generators\<close>

record 's Generator =
  Generate :: "'s \<Rightarrow> byte list \<Rightarrow> ('s \<times> goslice) res"
  Size :: int

definition NewHashReducer :: "'s Generator \<Rightarrow> int \<Rightarrow> 's Generator" where
  "NewHashReducer g sz = \<lparr>
     Generate = (\<lambda>s d. bindR (Generate g s d) (\<lambda>(s', out).
        if sz < 0 then panic ''slice bounds out of range''
        else bindR (reslice out 0 (nat sz)) (\<lambda>o'. Inr (s', o')))),
     Size = sz \<rparr>"

text \<open>\<^verbatim>\<open>Projector\<close>: each generator hashes the output of the one before it.\<close>

fun project :: "'s Generator list \<Rightarrow> 's \<Rightarrow> goslice \<Rightarrow> ('s \<times> goslice) res" where
  "project [] s d = Inr (s, d)"
| "project (g # gs) s d = bindR (Generate g s (vis d)) (\<lambda>(s', d'). project gs s' d')"

definition NewProjector :: "'s Generator list \<Rightarrow> 's Generator" where
  "NewProjector gs = \<lparr> Generate = (\<lambda>s d. project gs s (exact d)), Size = Size (last gs) \<rparr>"

text \<open>\<open>H\<close>: the digest of the named hash function. The result is appended to a buffer of the size of
  the digest, so it has no spare capacity.\<close>

definition hash_names :: "string list" where
  "hash_names = [''sha1'', ''sha256'', ''sha512'', ''sha3-224'', ''sha3-256'', ''sha3-384'', ''sha3-512'']"

definition NewHash :: "(string \<Rightarrow> byte list \<Rightarrow> byte list) \<Rightarrow> byte list \<Rightarrow> string \<Rightarrow> 's Generator res" where
  "NewHash H salt funcName =
     (if funcName \<in> set hash_names then
        Inr \<lparr> Generate = (\<lambda>s d. Inr (s, exact (H funcName (salt @ d)))), Size = int (length (H funcName [])) \<rparr>
      else err ''unknow hash function name'')"

definition GetHashFunctionNameBySize :: "int \<Rightarrow> (string \<times> int) res" where
  "GetHashFunctionNameBySize sz =
     (if sz \<le> 28 then Inr (''sha3-224'', 28)
      else if sz \<le> 32 then Inr (''sha3-256'', 32)
      else if sz \<le> 48 then Inr (''sha3-384'', 48)
      else if sz \<le> 64 then Inr (''sha3-512'', 64)
      else err ''unable to find suitable hash function for requested size'')"

definition GetHashBytesGen :: "(string \<Rightarrow> byte list \<Rightarrow> byte list) \<Rightarrow> byte list \<Rightarrow> int \<Rightarrow> 's Generator res" where
  "GetHashBytesGen H salt sz =
     bindR (GetHashFunctionNameBySize sz) (\<lambda>(hashFunctionName, hashSize).
     bindR (NewHash H salt hashFunctionName) (\<lambda>g.
     Inr (if sz < hashSize then NewHashReducer g sz else g)))"

text \<open>\<open>SipHash\<close>: the salt is what \<^verbatim>\<open>sha3.New224().Sum(salt)\<close> starts with; \<open>sip\<close> is the keyed hash.\<close>

definition NewSipHash ::
    "(string \<Rightarrow> byte list \<Rightarrow> byte list) \<Rightarrow> (byte list \<Rightarrow> byte list \<Rightarrow> byte list) \<Rightarrow> byte list \<Rightarrow> 's Generator res" where
  "NewSipHash H sip salt =
     bindR (slice (salt @ H ''sha3-224'' []) 0 16) (\<lambda>key.
     Inr \<lparr> Generate = (\<lambda>s d. Inr (s, exact (sip key d))), Size = int (length (sip key [])) \<rparr>)"

text \<open>\<open>MurmurHash\<close>: \<^verbatim>\<open>Sum(data)\<close> appends the digest of nothing to \<open>data\<close>.\<close>

definition NewMurmurHash :: "(nat \<Rightarrow> 32 word \<Rightarrow> byte list \<Rightarrow> byte list) \<Rightarrow> 32 word \<Rightarrow> nat \<Rightarrow> 's Generator res" where
  "NewMurmurHash murmur seed sz =
     (if sz \<in> {4, 8, 16} then
        Inr \<lparr> Generate = (\<lambda>s d. Inr (s, exact (d @ murmur sz seed []))), Size = int sz \<rparr>
      else panic ''unknown sz for hash'')"

text \<open>The words of a random source: \<open>next s\<close> is the next word and the source after it.\<close>

fun random_words :: "('s \<Rightarrow> 's \<times> uint64) \<Rightarrow> nat \<Rightarrow> 's \<Rightarrow> 's \<times> byte list" where
  "random_words nxt 0 s = (s, [])"
| "random_words nxt (Suc n) s =
     (let (s1, w) = nxt s; (s2, bs) = random_words nxt n s1 in (s2, PutUint 8 w @ bs))"

definition word_iters :: "nat \<Rightarrow> nat" where
  "word_iters sz = (if sz mod 8 > 0 then sz div 8 + 1 else sz div 8)"

text \<open>\<open>room\<close>: the zero bytes that the growth of the slice adds to its capacity.\<close>

definition NewRandomBytes :: "('s \<Rightarrow> 's \<times> uint64) \<Rightarrow> (nat \<Rightarrow> nat) \<Rightarrow> nat \<Rightarrow> 's Generator" where
  "NewRandomBytes nxt room sz = \<lparr>
     Generate = (\<lambda>s d.
       let (s', bs) = random_words nxt (word_iters sz) s in
       bindR (reslice \<lparr> vis = bs, spare = replicate (room sz) 0 \<rparr> 0 sz) (\<lambda>out. Inr (s', out))),
     Size = int sz \<rparr>"

definition NewInt64Random :: "('s \<Rightarrow> 's \<times> uint64) \<Rightarrow> 's Generator" where
  "NewInt64Random nxt = \<lparr>
     Generate = (\<lambda>s d. let (s', w) = nxt s in Inr (s', exact (PutUint 8 w))),
     Size = 8 \<rparr>"

text \<open>\<open>HybridBytes\<close>: the output of \<open>g\<close>, continued with random words seeded by its last eight bytes.\<close>

definition HybridBytes ::
    "(int64 \<Rightarrow> 'r) \<Rightarrow> ('r \<Rightarrow> 'r \<times> uint64) \<Rightarrow> nat \<Rightarrow> 's Generator \<Rightarrow> ('s \<Rightarrow> byte list \<Rightarrow> ('s \<times> goslice) res) res" where
  "HybridBytes seeded nxt requestedSize g =
     (if Size g < 8 then panic ''generator sz must be at least 8 bytes''
      else
        let required = (if Size g < int requestedSize then nat (int requestedSize - Size g) else 0) in
        Inr (\<lambda>s d. bindR (Generate g s d) (\<lambda>(s', out).
          bindR (if length (vis out) < 8 then panic ''slice bounds out of range''
                 else reslice out (length (vis out) - 8) (length (vis out))) (\<lambda>tail8.
            let (r', bs) = random_words nxt (word_iters required) (seeded (le_uint (vis tail8))) in
            bindR (reslice (exact (vis out @ bs)) 0 requestedSize) (\<lambda>o'. Inr (s', o'))))))"

section \<open>The interface\<close>

text \<open>What a transformer relies on after \<^verbatim>\<open>SetGenerator\<close>: every output has at least the length the
  generator reports.\<close>

locale generator =
  fixes g :: "'s Generator"
  assumes output_size: "Generate g s d = Inr (s', out) \<Longrightarrow> Size g \<le> int (length (vis out))"
    and no_panic: "\<not> isPanic (Generate g s d)"
begin

lemma output_at_least:
  "int n \<le> Size g \<Longrightarrow> Generate g s d = Inr (s', out) \<Longrightarrow> n \<le> length (vis out)"
  using output_size by fastforce

lemma prefix_available:
  "int n \<le> Size g \<Longrightarrow> Generate g s d = Inr (s', out) \<Longrightarrow> \<exists>p. reslice out 0 n = Inr p \<and> length (vis p) = n"
  using output_at_least reslice_ok [of 0 n out] reslice_len by fastforce

lemma bind_no_panic:
  "(\<And>s' out. Generate g s d = Inr (s', out) \<Longrightarrow> \<not> isPanic (f (s', out))) \<Longrightarrow> \<not> isPanic (bindR (Generate g s d) f)"
  using no_panic by (auto simp: isPanic_bindR)

end

text \<open>The documented digest sizes of the hash functions.\<close>

definition digest_sizes :: "(string \<Rightarrow> byte list \<Rightarrow> byte list) \<Rightarrow> bool" where
  "digest_sizes H \<longleftrightarrow>
     (\<forall>d. length (H ''sha3-224'' d) = 28 \<and> length (H ''sha3-256'' d) = 32
        \<and> length (H ''sha3-384'' d) = 48 \<and> length (H ''sha3-512'' d) = 64)"

lemma length_random_words [simp]: "length (snd (random_words nxt n s)) = 8 * n"
  by (induction n arbitrary: s) (auto simp: case_prod_unfold Let_def)

lemma word_iters_ge: "sz \<le> 8 * word_iters sz"
  unfolding word_iters_def by (simp add: mult_div_mod_eq [symmetric] add.commute) presburger

lemma random_bytes_output:
  "\<exists>out. Generate (NewRandomBytes nxt room sz) s d = Inr (fst (random_words nxt (word_iters sz) s), out)
     \<and> length (vis out) = sz"
proof -
  obtain s' bs where w: "random_words nxt (word_iters sz) s = (s', bs)" by fastforce
  then have "length bs = 8 * word_iters sz" using length_random_words [of nxt "word_iters sz" s] by simp
  then have "sz \<le> length bs" using word_iters_ge by simp
  then obtain out where "reslice \<lparr> vis = bs, spare = replicate (room sz) 0 \<rparr> 0 sz = Inr out"
    using reslice_ok [of 0 sz "\<lparr> vis = bs, spare = replicate (room sz) 0 \<rparr>"] by auto
  with reslice_len [OF this] w show ?thesis by (simp add: NewRandomBytes_def)
qed

interpretation random_bytes: generator "NewRandomBytes nxt room sz" for nxt room sz
proof
  fix s s' :: 'a and d out
  show "Size (NewRandomBytes nxt room sz) \<le> int (length (vis out))"
    if "Generate (NewRandomBytes nxt room sz) s d = Inr (s', out)"
    using that random_bytes_output [of nxt room sz s d] by (auto simp: NewRandomBytes_def)
  show "\<not> isPanic (Generate (NewRandomBytes nxt room sz) s d)"
    using random_bytes_output [of nxt room sz s d] by auto
qed

interpretation random_int64: generator "NewInt64Random nxt" for nxt
  by unfold_locales (auto simp: NewInt64Random_def exact_def split: prod.splits)

lemma GetHashBytesGen_output:
  assumes "digest_sizes H" "0 \<le> sz" "GetHashBytesGen H salt sz = Inr g"
  shows "Size g = sz \<and> (\<exists>out. Generate g s d = Inr (s, out) \<and> int (length (vis out)) = sz)"
  using assms
  by (auto simp: GetHashBytesGen_def GetHashFunctionNameBySize_def NewHash_def hash_names_def digest_sizes_def
      NewHashReducer_def reslice_def exact_def bindR_eq_Inr Let_def split: if_splits)

lemma hash_generator:
  assumes "digest_sizes H" "0 \<le> sz" "GetHashBytesGen H salt sz = Inr g"
  shows "generator g"
proof
  fix s s' d out
  note o = GetHashBytesGen_output [OF assms, of s d]
  show "Size g \<le> int (length (vis out))" if "Generate g s d = Inr (s', out)"
    using o that by auto
  show "\<not> isPanic (Generate g s d)" using o by auto
qed

text \<open>Claim C17. The hash engine supplies what it is asked for: for every size up to 64 bytes a generator is
  built, it reports that size and every digest it returns has exactly that many bytes; a larger size is
  an error.\<close>

theorem GetHashBytesGen_exact_size:
  assumes "digest_sizes H" and "0 \<le> sz"
  shows "case GetHashBytesGen H salt sz of
      Inr g \<Rightarrow> sz \<le> 64 \<and> Size g = sz \<and>
        (\<forall>s d. \<exists>out. Generate g s d = Inr (s, out) \<and> int (length (vis out)) = sz)
    | Inl e \<Rightarrow> 64 < sz \<and> e = Err ''unable to find suitable hash function for requested size''"
proof (cases "GetHashBytesGen H salt sz :: 'a Generator res")
  case (Inl e)
  then show ?thesis
    by (auto simp: GetHashBytesGen_def GetHashFunctionNameBySize_def NewHash_def hash_names_def split: if_splits)
next
  case (Inr g)
  then have "sz \<le> 64"
    by (auto simp: GetHashBytesGen_def GetHashFunctionNameBySize_def split: if_splits)
  then show ?thesis using Inr GetHashBytesGen_output [OF assms Inr] by simp
qed

definition sampleDigest :: "string \<Rightarrow> byte list \<Rightarrow> byte list" where
  "sampleDigest name d =
     (if name = ''sha3-224'' then replicate 28 1 else if name = ''sha3-256'' then replicate 32 2
      else if name = ''sha3-384'' then replicate 48 3 else replicate 64 4)"

lemma sampleDigest_sizes: "digest_sizes sampleDigest"
  by (simp add: digest_sizes_def sampleDigest_def)

theorem GetHashBytesGen_exact_size_witness:
  "case GetHashBytesGen sampleDigest [7] 16 of
      Inr g \<Rightarrow> Size (g :: nat Generator) = 16 \<and>
        (\<forall>s d. \<exists>out. Generate g s d = Inr (s, out) \<and> int (length (vis out)) = 16)
    | Inl e \<Rightarrow> False"
  using GetHashBytesGen_exact_size [where 'a = nat and H = sampleDigest and sz = 16 and salt = "[7]", OF sampleDigest_sizes]
  by (cases "GetHashBytesGen sampleDigest [7] 16 :: nat Generator res") auto

text \<open>The little-endian codec of 64-bit integers: decoding what was encoded gives the integer
  back, also from a slice with spare capacity, and eight bytes are needed, in the slice or its capacity.\<close>

lemma BuildUint64_roundtrip:
  "BuildUint64FromBytes (exact (BuildBytesFromUint64 v)) = Inr v
   \<and> BuildInt64FromBytes (exact (BuildBytesFromInt64 i)) = Inr i
   \<and> (isPanic (BuildUint64FromBytes s) \<longleftrightarrow> length (vis s) + length (spare s) < 8)"
  by (auto simp: BuildUint64FromBytes_def BuildInt64FromBytes_def BuildBytesFromUint64_def
      BuildBytesFromInt64_def exact_def le_uint_PutUint reslice_def Let_def)

end
