(* ===== verification/GenTransformers.thy ===== *)
theory GenTransformers
  imports Generators RowDriver "HOL-Library.Signed_Division"
begin

text \<open>
  The value transformers of \<^verbatim>\<open>internal/generators/transformers\<close> that work on integers, booleans, choices
  and strings: \<^verbatim>\<open>random_int64.go\<close>, \<^verbatim>\<open>noise_int64.go\<close> (limits), \<^verbatim>\<open>random_boolean.go\<close>,
  \<^verbatim>\<open>random_choice.go\<close>, \<^verbatim>\<open>random_uuid.go\<close> and \<^verbatim>\<open>random_string.go\<close>.

  \<^verbatim>\<open>int64\<close> arithmetic is arithmetic of 64-bit words, read with \<open>sint\<close>, and \<open>smod\<close> Go's \<^verbatim>\<open>%\<close> of signed integers;
  dividing by zero is a panic.
\<close>

definition SetGenerator :: "int \<Rightarrow> 's Generator \<Rightarrow> 's Generator res" where
  "SetGenerator byteLength g =
     (if Size g < byteLength then err ''requested byte length higher than generator can produce'' else Inr g)"

section \<open>Integers\<close>

record Int64Limiter =
  MinValue :: int64
  MaxValue :: int64
  distance :: uint64

definition NewInt64Limiter :: "int64 \<Rightarrow> int64 \<Rightarrow> Int64Limiter res" where
  "NewInt64Limiter minValue maxValue =
     (if maxValue \<le>s minValue then err ''wrong limits''
      else Inr \<lparr> MinValue = minValue, MaxValue = maxValue, distance = maxValue - minValue \<rparr>)"

definition remS :: "int64 \<Rightarrow> int64 \<Rightarrow> int64 res" where
  "remS a b = (if b = 0 then panic ''integer divide by zero'' else Inr (word_of_int (sint a smod sint b)))"

definition Int64Limiter_Limit :: "Int64Limiter \<Rightarrow> uint64 \<Rightarrow> int64 res" where
  "Int64Limiter_Limit l v =
     (if distance l = 0 then panic ''integer divide by zero''
      else let r = MinValue l + v mod distance l in
           if r <s 0 then remS r (MinValue l) else remS r (MaxValue l))"

definition RandomInt64_Transform ::
    "Int64Limiter option \<Rightarrow> 's Generator \<Rightarrow> Int64Limiter option \<Rightarrow> 's \<Rightarrow> byte list \<Rightarrow> ('s \<times> int64) res" where
  "RandomInt64_Transform limiter g l s original =
     (let lim = (case l of Some l' \<Rightarrow> Some l' | None \<Rightarrow> limiter) in
      bindR (Generate g s original) (\<lambda>(s', resBytes).
        case lim of
          Some l' \<Rightarrow> bindR (BuildUint64FromBytes resBytes) (\<lambda>v. bindR (Int64Limiter_Limit l' v) (\<lambda>r. Inr (s', r)))
        | None \<Rightarrow> bindR (BuildInt64FromBytes resBytes) (\<lambda>r. Inr (s', r))))"

definition NewNoiseInt64Limiter :: "int64 \<Rightarrow> int64 \<Rightarrow> (int64 \<times> int64) res" where
  "NewNoiseInt64Limiter minVal maxVal =
     (if maxVal \<le>s minVal then err ''wrong limits'' else Inr (minVal, maxVal))"

definition NoiseInt64Limiter_Limit :: "int64 \<times> int64 \<Rightarrow> int64 \<Rightarrow> int64" where
  "NoiseInt64Limiter_Limit ni v = (if v <s fst ni then fst ni else if snd ni <s v then snd ni else v)"

section \<open>Booleans, choices, UUIDs\<close>

definition index_byte :: "goslice \<Rightarrow> nat \<Rightarrow> byte res" where
  "index_byte s i = (if i < length (vis s) then Inr (vis s ! i) else panic ''index out of range'')"

definition RandomBoolean_Transform :: "'s Generator \<Rightarrow> 's \<Rightarrow> byte list \<Rightarrow> ('s \<times> bool) res" where
  "RandomBoolean_Transform g s original =
     bindR (Generate g s original) (\<lambda>(s', resBytes).
     bindR (index_byte resBytes 0) (\<lambda>b. Inr (s', b mod 2 = 0)))"

definition Uint32LE :: "goslice \<Rightarrow> 32 word res" where
  "Uint32LE s = (if length (vis s) < 4 then panic ''index out of range'' else Inr (le_uint (take 4 (vis s))))"

definition RandomChoice_Transform :: "RawValue list \<Rightarrow> 's Generator \<Rightarrow> 's \<Rightarrow> byte list \<Rightarrow> ('s \<times> RawValue) res" where
  "RandomChoice_Transform vals g s original =
     bindR (Generate g s original) (\<lambda>(s', resBytes).
     bindR (Uint32LE resBytes) (\<lambda>w.
     if vals = [] then panic ''integer divide by zero''
     else Inr (s', vals ! (unat w mod length vals))))"

definition RandomUuid_Transform :: "'s Generator \<Rightarrow> 's \<Rightarrow> byte list \<Rightarrow> ('s \<times> byte list) res" where
  "RandomUuid_Transform g s d =
     bindR (Generate g s d) (\<lambda>(s', resBytes).
     if length (vis resBytes) \<noteq> 16 then err ''invalid UUID (got another number of bytes)''
     else Inr (s', vis resBytes))"

section \<open>Strings\<close>

record 'r RandomString =
  characters :: "'r list"
  minLength :: int
  maxLength :: int
  byteLength :: int
  requiredBytesPerCharLength :: nat

definition stringTransformerMaxHashLength :: int where "stringTransformerMaxHashLength = 64"
definition stringLengthByteSize :: nat where "stringLengthByteSize = 4"

definition NewRandomString :: "'r list \<Rightarrow> int \<Rightarrow> int \<Rightarrow> 'r RandomString res" where
  "NewRandomString chars minLen maxLen =
     (if minLen > maxLen then err ''minLength is greater than maxLength''
      else
        let perChar = (if length chars > 256 then 2 else 1) in
        bindR (GetHashFunctionNameBySize ((maxLen + int perChar) smod stringTransformerMaxHashLength))
          (\<lambda>(_, byteLen).
             if maxLen < 0 then panic ''makeslice: len out of range''
             else Inr \<lparr> characters = chars, minLength = minLen, maxLength = maxLen, byteLength = byteLen,
                        requiredBytesPerCharLength = perChar \<rparr>))"

definition getInt :: "byte list \<Rightarrow> nat" where
  "getInt d = (if length d > 1 then unat (le_uint (take 2 d) :: 16 word) else unat (d ! 0))"

text \<open>The loop over the characters: \<open>k\<close> are left, \<open>realIdx\<close> and \<open>subIter\<close> as in the code.\<close>

fun string_loop :: "'r RandomString \<Rightarrow> goslice \<Rightarrow> nat \<Rightarrow> nat \<Rightarrow> nat \<Rightarrow> 'r list res" where
  "string_loop st resBytes realIdx subIter 0 = Inr []"
| "string_loop st resBytes realIdx subIter (Suc k) =
     (let wrap = int realIdx \<ge> int (length (vis resBytes)) - 1;
          realIdx = (if wrap then 0 else realIdx);
          subIter = (if wrap then Suc subIter else subIter);
          n = requiredBytesPerCharLength st in
      bindR (reslice resBytes (realIdx * n) (realIdx * n + n)) (\<lambda>d.
        if characters st = [] then panic ''integer divide by zero''
        else bindR (string_loop st resBytes (realIdx + n) subIter k) (\<lambda>rest.
          Inr (characters st ! ((getInt (vis d) + subIter) mod length (characters st)) # rest))))"

text \<open>An error of the generator makes \<^verbatim>\<open>Transform\<close> return nil.\<close>

definition RandomString_Transform :: "'r RandomString \<Rightarrow> 's Generator \<Rightarrow> 's \<Rightarrow> byte list \<Rightarrow> ('s \<times> 'r list option) res" where
  "RandomString_Transform st g s d =
     (case Generate g s d of
        Inl (Err e) \<Rightarrow> Inr (s, None)
      | Inl (Panic p) \<Rightarrow> Inl (Panic p)
      | Inr (s', resBytes) \<Rightarrow>
          bindR (reslice resBytes 0 stringLengthByteSize) (\<lambda>d4.
          let w = le_uint (vis d4) :: 32 word;
              offsetFromMinLen = maxLength st - minLength st + 1;
              stringLength = minLength st + uint w mod offsetFromMinLen in
          bindR (if stringLengthByteSize \<le> length (vis resBytes)
                 then reslice resBytes stringLengthByteSize (length (vis resBytes))
                 else panic ''slice bounds out of range'') (\<lambda>tl.
          if stringLength < 0 then panic ''slice bounds out of range''
          else bindR (string_loop st tl 0 0 (nat stringLength)) (\<lambda>rs. Inr (s', Some rs)))))"

section \<open>Limits of integers\<close>

lemma sint_word_of_int:
  "- (2 ^ 63) \<le> i \<Longrightarrow> i < 2 ^ 63 \<Longrightarrow> sint (word_of_int i :: int64) = i"
  by (simp add: sint_sbintrunc' signed_take_bit_int_eq_self)

lemma sint_int64_range: "- (2 ^ 63) \<le> sint (w :: int64) \<and> sint w < 2 ^ 63"
  using sint_ge [of w] sint_lt [of w] by simp

lemma NewInt64Limiter_iff:
  "NewInt64Limiter mn mx = Inr l \<longleftrightarrow>
     sint mn < sint mx \<and> l = \<lparr> MinValue = mn, MaxValue = mx, distance = mx - mn \<rparr>"
  by (auto simp: NewInt64Limiter_def word_sle_eq)

lemma uint_distance:
  assumes "sint (mn :: int64) < sint mx"
  shows "uint (mx - mn) = sint mx - sint mn"
proof -
  have e: "mx - mn = word_of_int (sint mx - sint mn)" by simp
  have "uint (mx - mn) = (sint mx - sint mn) mod 2 ^ 64"
    by (subst e) (simp only: uint_word_of_int len_num0 len_num1 len_bit0 len_bit1, simp)
  moreover have "0 \<le> sint mx - sint mn" "sint mx - sint mn < 2 ^ 64"
    using assms sint_int64_range [of mn] sint_int64_range [of mx] by auto
  ultimately show ?thesis by simp
qed

lemma int64_limit_base:
  assumes "sint (mn :: int64) < sint mx"
  shows "sint (mn + v mod (mx - mn)) = sint mn + uint v mod (sint mx - sint mn)"
proof -
  let ?t = "uint v mod (sint mx - sint mn)"
  have t: "0 \<le> ?t" "?t < sint mx - sint mn" using assms by simp_all
  have "uint (v mod (mx - mn)) = ?t" using uint_distance [OF assms] by (simp add: uint_mod)
  moreover have "mn + v mod (mx - mn) = word_of_int (sint mn) + word_of_int (uint (v mod (mx - mn)))"
    by simp
  ultimately have "mn + v mod (mx - mn) = word_of_int (sint mn + ?t)"
    by (simp only: of_int_add)
  moreover have "- (2 ^ 63) \<le> sint mn + ?t" "sint mn + ?t < 2 ^ 63"
    using t sint_int64_range [of mn] sint_int64_range [of mx] by auto
  ultimately show ?thesis by (metis sint_word_of_int)
qed

lemma smod_small: "\<bar>a\<bar> < \<bar>b\<bar> \<Longrightarrow> a smod b = (a :: int)"
  by (simp add: smod_int_alt_def sgn_mult_abs abs_mult_sgn)

lemma smod_same: "(a :: int) smod a = 0"
  by (simp add: smod_int_alt_def)

text \<open>A limited random integer is the offset \<open>v mod (max - min)\<close> from the minimum, computed without
  an overflow for every pair of limits, with one exception: when the offset is zero and the minimum is
  negative the result is 0. So the result is in the half-open range of the limits, unless that 0 is outside
  of it, and a negative minimum is never returned.\<close>

lemma Int64Limiter_Limit_range:
  assumes "NewInt64Limiter mn mx = Inr l"
  shows "\<exists>x. Int64Limiter_Limit l v = Inr x \<and>
     (let y = sint mn + uint v mod (sint mx - sint mn) in
        sint mn \<le> y \<and> y < sint mx \<and> sint x = (if y = sint mn \<and> y < 0 then 0 else y))"
proof -
  from assms have lim: "sint mn < sint mx" "l = \<lparr> MinValue = mn, MaxValue = mx, distance = mx - mn \<rparr>"
    by (simp_all add: NewInt64Limiter_iff)
  define r where "r = mn + v mod (mx - mn)"
  define y where "y = sint mn + uint v mod (sint mx - sint mn)"
  have r: "sint r = y" unfolding r_def y_def by (rule int64_limit_base [OF lim(1)])
  have "0 \<le> uint v mod (sint mx - sint mn)" "uint v mod (sint mx - sint mn) < sint mx - sint mn"
    using lim(1) by (intro pos_mod_sign pos_mod_bound, simp)+
  then have bounds: "sint mn \<le> y" "y < sint mx" unfolding y_def by linarith+
  have d: "mx - mn \<noteq> 0" using uint_distance [OF lim(1)] lim(1) by auto
  show ?thesis
  proof (cases "y < 0")
    case True
    then have neg: "r <s 0" using r by (simp add: word_sless_alt)
    have mn0: "mn \<noteq> 0" using True bounds by auto
    have "Int64Limiter_Limit l v = Inr (word_of_int (y smod sint mn))"
      using d neg mn0 r by (simp add: Int64Limiter_Limit_def lim(2) remS_def r_def [symmetric])
    moreover have "y smod sint mn = (if y = sint mn then 0 else y)"
      using True bounds by (simp add: smod_same smod_small)
    moreover have "sint (word_of_int y :: int64) = y" by (simp add: r [symmetric])
    ultimately show ?thesis using True bounds by (auto simp: y_def [symmetric] Let_def)
  next
    case False
    then have nn: "\<not> r <s 0" using r by (simp add: word_sless_alt)
    have mx0: "mx \<noteq> 0" using False bounds by auto
    have "Int64Limiter_Limit l v = Inr (word_of_int (y smod sint mx))"
      using d nn mx0 r by (simp add: Int64Limiter_Limit_def lim(2) remS_def r_def [symmetric])
    moreover have "y smod sint mx = y" using False bounds by (simp add: smod_small)
    moreover have "sint (word_of_int y :: int64) = y" by (simp add: r [symmetric])
    ultimately show ?thesis using False bounds by (auto simp: y_def [symmetric] Let_def)
  qed
qed


theorem Int64Limiter_Limit_range_witness:
  "\<exists>l x. NewInt64Limiter (- 10) (- 5) = Inr l \<and> Int64Limiter_Limit l 5 = Inr x \<and> sint x = 0"
proof -
  obtain l where l: "NewInt64Limiter (- 10) (- 5) = Inr l"
    by (simp add: NewInt64Limiter_def word_sle_eq)
  from Int64Limiter_Limit_range [OF l, of 5] show ?thesis using l by (auto simp: Let_def)
qed

section \<open>What a generator of the required size guarantees\<close>

context generator
begin

lemma boolean_safe:
  assumes "1 \<le> Size g"
  shows "\<not> isPanic (RandomBoolean_Transform g s d)"
  unfolding RandomBoolean_Transform_def
proof (rule bind_no_panic)
  fix s' out
  assume "Generate g s d = Inr (s', out)"
  then have "1 \<le> length (vis out)" using output_at_least [of 1] assms by simp
  then show "\<not> isPanic (case (s', out) of (s', resBytes) \<Rightarrow>
      bindR (index_byte resBytes 0) (\<lambda>b. Inr (s', b mod 2 = 0)))"
    by (cases "vis out") (auto simp: index_byte_def)
qed

lemma choice_safe:
  assumes "4 \<le> Size g" "vals \<noteq> []"
  shows "case RandomChoice_Transform vals g s d of Inr (s', v) \<Rightarrow> v \<in> set vals | Inl e \<Rightarrow> \<exists>m. e = Err m"
proof (cases "Generate g s d")
  case (Inl e)
  then show ?thesis using no_panic [of s d] by (cases e) (auto simp: RandomChoice_Transform_def)
next
  case (Inr p)
  obtain s' out where p: "p = (s', out)" by fastforce
  have "4 \<le> length (vis out)" using output_at_least [of 4] assms(1) Inr p by simp
  then show ?thesis using Inr p assms(2)
    by (simp add: RandomChoice_Transform_def Uint32LE_def)
qed

lemma string_loop_ok:
  assumes "requiredBytesPerCharLength st = 1" "characters st \<noteq> []" "2 \<le> length (vis rb)"
  shows "\<exists>rs. string_loop st rb ri si k = Inr rs \<and> length rs = k \<and> set rs \<subseteq> set (characters st)"
proof (induction k arbitrary: ri si)
  case 0
  then show ?case by simp
next
  case (Suc k)
  define wrap where "wrap \<longleftrightarrow> int ri \<ge> int (length (vis rb)) - 1"
  define ri' where "ri' = (if wrap then 0 else ri)"
  define si' where "si' = (if wrap then Suc si else si)"
  have "ri' + 1 \<le> length (vis rb)" using assms(3) by (auto simp: ri'_def wrap_def)
  then obtain d where d: "reslice rb ri' (ri' + 1) = Inr d" using reslice_ok [of ri' "ri' + 1" rb] by auto
  obtain rs where rs: "string_loop st rb (ri' + 1) si' k = Inr rs" "length rs = k"
    "set rs \<subseteq> set (characters st)" using Suc.IH by blast
  have "string_loop st rb ri si (Suc k)
      = Inr (characters st ! ((getInt (vis d) + si') mod length (characters st)) # rs)"
    using assms(1,2) d rs(1) by (simp add: Let_def wrap_def [symmetric] ri'_def [symmetric] si'_def [symmetric])
  moreover have "characters st ! ((getInt (vis d) + si') mod length (characters st)) \<in> set (characters st)"
    using assms(2) by simp
  ultimately show ?case using rs by simp
qed

lemma string_safe:
  assumes new: "NewRandomString chars minLen maxLen = Inr st" and "0 \<le> minLen" "chars \<noteq> []" "length chars \<le> 256"
    and size: "byteLength st \<le> Size g"
  shows "\<exists>s' o'. RandomString_Transform st g s d = Inr (s', o') \<and>
     (case o' of None \<Rightarrow> \<not> isOk (Generate g s d)
      | Some rs \<Rightarrow> minLen \<le> int (length rs) \<and> int (length rs) \<le> maxLen \<and> set rs \<subseteq> set chars)"
proof (cases "Generate g s d")
  case (Inl e)
  then show ?thesis using no_panic [of s d] by (cases e) (auto simp: RandomString_Transform_def)
next
  case (Inr p)
  obtain s' out where p: "p = (s', out)" by fastforce
  have st: "requiredBytesPerCharLength st = 1" "characters st = chars" "minLength st = minLen"
    "maxLength st = maxLen" "minLen \<le> maxLen" "28 \<le> byteLength st"
    using new assms(4)
    by (auto simp: NewRandomString_def GetHashFunctionNameBySize_def bindR_eq_Inr Let_def split: if_splits)
  have len: "28 \<le> length (vis out)" using output_at_least [of 28] size st(6) Inr p by simp
  obtain d4 where d4: "reslice out 0 4 = Inr d4" using reslice_ok [of 0 4 out] len by auto
  obtain rb where rb: "reslice out 4 (length (vis out)) = Inr rb"
    using reslice_ok [of 4 "length (vis out)" out] len by auto
  have "2 \<le> length (vis rb)" using reslice_len [OF rb] len by simp
  define n where "n = minLen + uint (le_uint (vis d4) :: 32 word) mod (maxLen - minLen + 1)"
  have n: "minLen \<le> n" "n \<le> maxLen" "0 \<le> n"
    using st(5) assms(2) pos_mod_bound [of "maxLen - minLen + 1" "uint (le_uint (vis d4) :: 32 word)"]
      pos_mod_sign [of "maxLen - minLen + 1" "uint (le_uint (vis d4) :: 32 word)"]
    unfolding n_def by linarith+
  obtain rs where rs: "string_loop st rb 0 0 (nat n) = Inr rs" "length rs = nat n" "set rs \<subseteq> set chars"
    using string_loop_ok [OF st(1) _ \<open>2 \<le> length (vis rb)\<close>] assms(3) st(2) by metis
  have "RandomString_Transform st g s d = Inr (s', Some rs)"
    using Inr p d4 rb rs(1) n(3) st(3,4) len
    by (simp add: RandomString_Transform_def stringLengthByteSize_def Let_def n_def [symmetric])
  then show ?thesis using rs n by simp
qed

end

text \<open>With an alphabet of at most 256 characters a random string is well formed: whatever the
  generator returns, \<^verbatim>\<open>Transform\<close> does not panic, and the string has a length between the two limits and
  characters of the alphabet only. It returns nil only when the generator reports an error.\<close>

lemma RandomString_well_formed:
  assumes "generator g" and "NewRandomString chars minLen maxLen = Inr st"
    and "0 \<le> minLen" and "chars \<noteq> []" and "length chars \<le> 256"
    and "SetGenerator (byteLength st) g = Inr g'"
  shows "\<exists>s' o'. RandomString_Transform st g' s d = Inr (s', o') \<and>
     (case o' of None \<Rightarrow> \<not> isOk (Generate g s d)
      | Some rs \<Rightarrow> minLen \<le> int (length rs) \<and> int (length rs) \<le> maxLen \<and> set rs \<subseteq> set chars)"
proof -
  have "g' = g" "byteLength st \<le> Size g" using assms(6) by (auto simp: SetGenerator_def split: if_splits)
  then show ?thesis using generator.string_safe [OF assms(1-5)] by simp
qed

definition zeroSource :: "nat \<Rightarrow> nat \<times> uint64" where
  "zeroSource s = (Suc s, 0)"

theorem RandomString_well_formed_witness:
  "\<exists>st g s' o'. NewRandomString ''ab'' 2 5 = Inr st
     \<and> SetGenerator (byteLength st) (NewRandomBytes zeroSource (\<lambda>_. 0) 28) = Inr g
     \<and> RandomString_Transform st g 0 [1] = Inr (s', Some o') \<and> set o' \<subseteq> set ''ab''"
proof -
  obtain st where st: "NewRandomString ''ab'' 2 5 = Inr st" "byteLength st = 28"
    by (simp add: NewRandomString_def GetHashFunctionNameBySize_def stringTransformerMaxHashLength_def)
  define g where "g = NewRandomBytes zeroSource (\<lambda>_. 0) 28"
  have g: "SetGenerator (byteLength st) g = Inr g" "generator g"
    subgoal by (simp add: SetGenerator_def st g_def NewRandomBytes_def)
    subgoal unfolding g_def by (rule random_bytes.generator_axioms)
    done
  have ok: "isOk (Generate g 0 [1])"
    using random_bytes_output [of zeroSource "\<lambda>_. 0" 28 0 "[1]"] by (auto simp: g_def)
  from RandomString_well_formed [OF g(2) st(1) _ _ _ g(1), of 0 "[1]"] ok
  obtain s' o' where "RandomString_Transform st g 0 [1] = Inr (s', o')"
    "case o' of None \<Rightarrow> False | Some rs \<Rightarrow> set rs \<subseteq> set ''ab''"
    by (auto split: option.splits)
  then show ?thesis using st g(1) unfolding g_def by (cases o') auto
qed

text \<open>With a larger alphabet the two bytes of a character are looked up at twice the byte position
  although the position already advances by two. On a digest of 28 bytes, which is what the hash engine
  supplies for lengths up to 26, every string of seven characters or more panics.\<close>

lemma RandomString_wide_alphabet_panics:
  assumes "256 < length chars" and "7 \<le> minLen" and "maxLen \<le> 26"
    and "NewRandomString chars minLen maxLen = Inr st"
    and "Generate g s d = Inr (s', exact digest)" and "length digest = 28"
  shows "byteLength st = 28 \<and> isPanic (RandomString_Transform st g s d)"
proof -
  have st: "requiredBytesPerCharLength st = 2" "characters st = chars" "minLength st = minLen"
    "maxLength st = maxLen" "minLen \<le> maxLen" "byteLength st = 28"
    using assms(1-4)
    by (auto simp: NewRandomString_def GetHashFunctionNameBySize_def stringTransformerMaxHashLength_def
        smod_int_alt_def sgn_if bindR_eq_Inr Let_def split: if_splits)
  have d4: "reslice (exact digest) 0 4 = Inr \<lparr> vis = take 4 digest, spare = drop 4 digest \<rparr>"
    and rb: "reslice (exact digest) 4 28 = Inr (exact (drop 4 digest))"
    using assms(6) by (simp_all add: reslice_def exact_def)
  define n where "n = minLen + uint (le_uint (take 4 digest) :: 32 word) mod (maxLen - minLen + 1)"
  have "0 \<le> uint (le_uint (take 4 digest) :: 32 word) mod (maxLen - minLen + 1)"
    using st(5) by (intro pos_mod_sign) simp
  then have "7 \<le> n" using assms(2) unfolding n_def by linarith
  then have "7 \<le> nat n" and n0: "0 \<le> n" by simp_all
  then obtain m where "nat n = 7 + m" using le_Suc_ex by blast
  then have k: "nat n = Suc (Suc (Suc (Suc (Suc (Suc (Suc m))))))" by simp
  have ne: "chars \<noteq> []" using assms(1) by auto
  have "isPanic (string_loop st (exact (drop 4 digest)) 0 0 (nat n))"
    using st(1,2) ne assms(6) by (simp add: k reslice_def exact_def isPanic_bindR Let_def)
  then have "isPanic (RandomString_Transform st g s d)"
    using assms(5,6) d4 rb st(3,4) n0
    by (simp add: RandomString_Transform_def stringLengthByteSize_def exact_def Let_def n_def [symmetric]
        isPanic_bindR)
  then show ?thesis using st(6) by simp
qed


theorem RandomString_wide_alphabet_panics_witness:
  "\<exists>st g. NewRandomString (replicate 300 CHR ''a'') 7 10 = Inr st
     \<and> GetHashBytesGen sampleDigest [7] (byteLength st) = Inr (g :: nat Generator)
     \<and> isPanic (RandomString_Transform st g 0 [1])"
proof -
  obtain st where st: "NewRandomString (replicate 300 CHR ''a'') 7 10 = Inr st" "byteLength st = 28"
    by (simp add: NewRandomString_def GetHashFunctionNameBySize_def stringTransformerMaxHashLength_def)
  obtain g :: "nat Generator" where g: "GetHashBytesGen sampleDigest [7] (byteLength st) = Inr g"
    "Generate g 0 [1] = Inr (0, exact (replicate 28 1))"
    by (simp add: st(2) GetHashBytesGen_def GetHashFunctionNameBySize_def NewHash_def hash_names_def
        sampleDigest_def)
  have "256 < length (replicate 300 CHR ''a'')" by simp
  from RandomString_wide_alphabet_panics [OF this _ _ st(1) g(2)] show ?thesis using st(1) g(1) by auto
qed

end
