(* ===== verification/GenTime.thy ===== *)
theory GenTime
  imports GenTransformers
begin

text \<open>
  Random and noisy timestamps, \<^verbatim>\<open>random_timestamp.go\<close> and \<^verbatim>\<open>noise_timestamp.go\<close> of
  \<^verbatim>\<open>internal/generators/transformers\<close>.

  A \<^verbatim>\<open>time.Time\<close> is used in two ways. For limits and noise it is an instant, the nanoseconds since
  1970 as an integer, with \<open>unix_sec\<close> and \<open>nanosecond\<close> for \<^verbatim>\<open>Unix\<close> and \<^verbatim>\<open>Nanosecond\<close>. For truncation it is its
  calendar fields (\<open>civil\<close>) in its location.
\<close>

section \<open>Truncation\<close>

record civil =
  c_year :: int
  c_month :: nat
  c_day :: nat
  c_hour :: nat
  c_minute :: nat
  c_second :: nat
  c_nano :: nat

definition truncate_parts :: "(string \<times> nat) list" where
  "truncate_parts =
     [(''nanosecond'', 9), (''microsecond'', 8), (''millisecond'', 7), (''second'', 6), (''minute'', 5),
      (''hour'', 4), (''day'', 3), (''month'', 2), (''year'', 1)]"

definition getTruncatePartValueByName :: "string \<Rightarrow> nat res" where
  "getTruncatePartValueByName name =
     (case map_of truncate_parts name of Some v \<Rightarrow> Inr v | None \<Rightarrow> err ''unknown truncate part'')"

definition NewDateTruncater :: "string \<Rightarrow> nat res" where
  "NewDateTruncater name = (if name \<noteq> '''' then getTruncatePartValueByName name else Inr 0)"

text \<open>The fall-through switch: a part keeps itself and every coarser field; the finer ones are reset.\<close>

definition Truncate :: "nat \<Rightarrow> civil \<Rightarrow> civil" where
  "Truncate part t =
     (let known = 1 \<le> part \<and> part \<le> 9 in
      \<lparr> c_year = (if known then c_year t else 0),
        c_month = (if known \<and> 2 \<le> part then c_month t else 1),
        c_day = (if known \<and> 3 \<le> part then c_day t else 1),
        c_hour = (if known \<and> 4 \<le> part then c_hour t else 0),
        c_minute = (if known \<and> 5 \<le> part then c_minute t else 0),
        c_second = (if known \<and> 6 \<le> part then c_second t else 0),
        c_nano = (if known \<and> 7 \<le> part then c_nano t else 0) \<rparr>)"

definition civil_fields :: "civil \<Rightarrow> int list" where
  "civil_fields t = [c_year t, int (c_month t), int (c_day t), int (c_hour t), int (c_minute t), int (c_second t), int (c_nano t)]"

definition civil_ok :: "civil \<Rightarrow> bool" where
  "civil_ok t \<longleftrightarrow> 1 \<le> c_month t \<and> 1 \<le> c_day t"

text \<open>Calendar order: the first field that differs decides.\<close>

fun fields_le :: "int list \<Rightarrow> int list \<Rightarrow> bool" where
  "fields_le (x # xs) (y # ys) \<longleftrightarrow> x < y \<or> x = y \<and> fields_le xs ys"
| "fields_le _ _ \<longleftrightarrow> True"

text \<open>Truncating to a named part keeps that part and the coarser ones, gives a time that is not
  later, and truncating again changes nothing. Milliseconds and microseconds are not truncated at all: all
  the nanoseconds are kept.\<close>

lemma Truncate_correct:
  assumes "NewDateTruncater name = Inr part" and "name \<noteq> ''''" and "civil_ok t"
  shows "take (min part 7) (civil_fields (Truncate part t)) = take (min part 7) (civil_fields t)
    \<and> fields_le (civil_fields (Truncate part t)) (civil_fields t)
    \<and> Truncate part (Truncate part t) = Truncate part t
    \<and> (name \<in> {''millisecond'', ''microsecond'', ''nanosecond''} \<longrightarrow> Truncate part t = t)"
proof -
  have "(name, part) \<in> set truncate_parts"
    using assms(1,2)
    by (auto simp: NewDateTruncater_def getTruncatePartValueByName_def dest: map_of_SomeD split: option.splits)
  then have part: "1 \<le> part" "part \<le> 9"
    "name \<in> {''millisecond'', ''microsecond'', ''nanosecond''} \<longrightarrow> 7 \<le> part"
    by (auto simp: truncate_parts_def)
  have fine: "7 \<le> part \<Longrightarrow> Truncate part t = t" using part by (cases t) (simp add: Truncate_def)
  consider "part = 1" | "part = 2" | "part = 3" | "part = 4" | "part = 5" | "part = 6" | "7 \<le> part"
    using part by linarith
  then have "take (min part 7) (civil_fields (Truncate part t)) = take (min part 7) (civil_fields t)
    \<and> fields_le (civil_fields (Truncate part t)) (civil_fields t)"
  proof cases
    case 7
    have refl: "fields_le xs xs" for xs by (induction xs) auto
    show ?thesis using fine [OF 7] refl by simp
  qed (use assms(3) in \<open>auto simp: Truncate_def civil_fields_def civil_ok_def\<close>)
  moreover have "Truncate part (Truncate part t) = Truncate part t" by (simp add: Truncate_def Let_def)
  ultimately show ?thesis using part(3) fine by blast
qed

theorem Truncate_correct_witness:
  "NewDateTruncater ''day'' = Inr 3
   \<and> (let t = \<lparr> c_year = 2024, c_month = 5, c_day = 17, c_hour = 13, c_minute = 1, c_second = 2, c_nano = 9 \<rparr>
      in fields_le (civil_fields (Truncate 3 t)) (civil_fields t) \<and> Truncate 3 (Truncate 3 t) = Truncate 3 t)"
proof -
  have new: "NewDateTruncater ''day'' = Inr 3"
    by (simp add: NewDateTruncater_def getTruncatePartValueByName_def truncate_parts_def)
  show ?thesis
    using new Truncate_correct [OF new, of "\<lparr> c_year = 2024, c_month = 5, c_day = 17, c_hour = 13, c_minute = 1, c_second = 2, c_nano = 9 \<rparr>"]
    by (simp add: civil_ok_def)
qed

section \<open>Limited random timestamps\<close>

definition second_ns :: int where "second_ns = 1000000000"
definition unix_sec :: "int \<Rightarrow> int" where "unix_sec t = t div second_ns"
definition nanosecond :: "int \<Rightarrow> int" where "nanosecond t = t mod second_ns"

text \<open>The instants whose seconds are an \<^verbatim>\<open>int64\<close>, as those of Go are.\<close>

definition instant :: "int \<Rightarrow> bool" where
  "instant t \<longleftrightarrow> - (2 ^ 63) \<le> unix_sec t \<and> unix_sec t < 2 ^ 63"

record timestampThreshold =
  th_sec :: int64
  th_nano :: int64

record TimestampLimiter =
  minDate :: timestampThreshold
  maxDate :: timestampThreshold
  maxValueFromZero :: uint64
  offset :: int64

definition NewTimestampLimiter :: "int \<Rightarrow> int \<Rightarrow> TimestampLimiter res" where
  "NewTimestampLimiter minD maxD =
     (if minD > maxD then err ''wrong limits''
      else
        let mn = \<lparr> th_sec = word_of_int (unix_sec minD), th_nano = word_of_int (nanosecond minD) + 1 \<rparr>;
            mx = \<lparr> th_sec = word_of_int (unix_sec maxD), th_nano = word_of_int (nanosecond maxD) + 1 \<rparr>;
            span = (if th_sec mn <s 0 then
                      if th_sec mx <s 0 then (- th_sec mn) - (- th_sec mx) else th_sec mx + (- th_sec mn)
                    else if 0 <s th_sec mn then th_sec mx - th_sec mn
                    else th_sec mx)
        in Inr \<lparr> minDate = mn, maxDate = mx, maxValueFromZero = span + 1, offset = th_sec mn \<rparr>)"

definition TimestampLimiter_Limit :: "TimestampLimiter \<Rightarrow> int64 \<Rightarrow> int64 \<Rightarrow> (int64 \<times> int64) res" where
  "TimestampLimiter_Limit dl sec nano =
     bindR (remS sec (maxValueFromZero dl)) (\<lambda>m.
       let sec = m + offset dl in
       if sec = th_sec (minDate dl) then bindR (remS nano (th_nano (minDate dl))) (\<lambda>n. Inr (sec, n))
       else if sec = th_sec (maxDate dl) then bindR (remS nano (th_nano (maxDate dl))) (\<lambda>n. Inr (sec, n))
       else Inr (sec, nano))"

text \<open>The seconds and nanoseconds that \<^verbatim>\<open>Timestamp.Transform\<close> makes of sixteen generated bytes: negating
  the least \<^verbatim>\<open>int64\<close> leaves it negative.\<close>

definition Timestamp_parts :: "TimestampLimiter option \<Rightarrow> goslice \<Rightarrow> (int64 \<times> int64) res" where
  "Timestamp_parts limiter genBytes =
     bindR (reslice genBytes 0 8) (\<lambda>b8.
     bindR (if 8 \<le> length (vis genBytes) then Inr (drop 8 (vis genBytes))
            else panic ''slice bounds out of range'') (\<lambda>b16.
     if length b16 < 8 then panic ''index out of range''
     else
       let sec = le_uint (vis b8) :: int64;
           nano = (le_uint (take 8 b16) :: int64) mod 1000000000;
           sec = (if sec <s 0 then - sec else sec);
           nano = (if nano <s 0 then - nano else nano)
       in case limiter of Some l \<Rightarrow> TimestampLimiter_Limit l sec nano | None \<Rightarrow> Inr (sec, nano)))"


lemma nanosecond_range: "0 \<le> nanosecond t \<and> nanosecond t < second_ns"
  by (simp add: nanosecond_def second_ns_def)

lemma instant_split: "unix_sec t * second_ns + nanosecond t = t"
  by (simp add: unix_sec_def nanosecond_def)

lemma th_sec_sint: "instant t \<Longrightarrow> sint (word_of_int (unix_sec t) :: int64) = unix_sec t"
  by (simp add: instant_def sint_word_of_int)

lemma th_nano_sint: "sint (word_of_int (nanosecond t) + 1 :: int64) = nanosecond t + 1"
proof -
  have "(word_of_int (nanosecond t) + 1 :: int64) = word_of_int (nanosecond t + 1)" by simp
  then show ?thesis
    using nanosecond_range [of t] sint_word_of_int [of "nanosecond t + 1"]
    by (simp only: second_ns_def) simp
qed

lemma NewTimestampLimiter_span:
  assumes "NewTimestampLimiter minD maxD = Inr dl"
  shows "minD \<le> maxD" "offset dl = word_of_int (unix_sec minD)"
    "maxValueFromZero dl = word_of_int (unix_sec maxD - unix_sec minD + 1)"
    "minDate dl = \<lparr> th_sec = word_of_int (unix_sec minD), th_nano = word_of_int (nanosecond minD) + 1 \<rparr>"
    "maxDate dl = \<lparr> th_sec = word_of_int (unix_sec maxD), th_nano = word_of_int (nanosecond maxD) + 1 \<rparr>"
proof -
  have zero: "a = 0" if "\<not> a <s 0" "\<not> 0 <s a" for a :: int64
    by (rule signed_word_eqI) (use that in \<open>simp add: word_sless_alt\<close>)
  show "minD \<le> maxD" "offset dl = word_of_int (unix_sec minD)"
    "minDate dl = \<lparr> th_sec = word_of_int (unix_sec minD), th_nano = word_of_int (nanosecond minD) + 1 \<rparr>"
    "maxDate dl = \<lparr> th_sec = word_of_int (unix_sec maxD), th_nano = word_of_int (nanosecond maxD) + 1 \<rparr>"
    using assms by (auto simp: NewTimestampLimiter_def Let_def split: if_splits)
  show "maxValueFromZero dl = word_of_int (unix_sec maxD - unix_sec minD + 1)"
    using assms zero [of "word_of_int (unix_sec minD)"]
    by (auto simp: NewTimestampLimiter_def Let_def split: if_splits)
qed


lemma remS_pos:
  assumes "0 \<le> sint a" "0 < sint b"
  shows "remS a b = Inr (word_of_int (sint a mod sint b))"
proof -
  have "b \<noteq> 0" using assms(2) by auto
  moreover have "sint a smod sint b = sint a mod sint b"
    using assms by (simp add: smod_int_alt_def sgn_if)
  ultimately show ?thesis by (simp add: remS_def)
qed

definition limited_time :: "int64 \<times> int64 \<Rightarrow> int" where
  "limited_time r = sint (fst r) * second_ns + sint (snd r)"

text \<open>A limited random timestamp. For limits less than \<open>2 ^ 63\<close> seconds apart and seconds that are not
  negative, limiting does not panic, the result has a second between those of the limits and is not later than
  the upper limit. It is later than the lower limit exactly when its second is a later one: in the second of the
  lower limit the nanoseconds are reduced below those of the limit, so the result there is the limit itself or
  a time before it.\<close>

lemma TimestampLimiter_Limit_range:
  assumes "NewTimestampLimiter minD maxD = Inr dl" and "instant minD" and "instant maxD"
    and "unix_sec maxD - unix_sec minD + 1 < 2 ^ 63"
    and "0 \<le> sint sec" and "0 \<le> sint nano" and "sint nano < second_ns"
  shows "\<exists>r. TimestampLimiter_Limit dl sec nano = Inr r \<and>
     (let t = limited_time r in
        unix_sec minD \<le> unix_sec t \<and> unix_sec t \<le> unix_sec maxD \<and> t \<le> maxD
        \<and> (minD < t \<longleftrightarrow> unix_sec minD < unix_sec t))"
proof -
  note L = NewTimestampLimiter_span [OF assms(1)]
  define a where "a = unix_sec minD"
  define b where "b = unix_sec maxD"
  have ab: "a \<le> b" using L(1) by (simp add: a_def b_def unix_sec_def second_ns_def zdiv_mono1)
  define D where "D = b - a + 1"
  have D: "0 < D" "D < 2 ^ 63" using ab assms(4) by (simp_all add: D_def a_def b_def)
  have r63: "- (2 ^ 63) \<le> a" "a < 2 ^ 63" "- (2 ^ 63) \<le> b" "b < 2 ^ 63"
    using assms(2,3) by (simp_all add: instant_def a_def b_def)
  have sD: "sint (maxValueFromZero dl) = D"
    using D unfolding L(3) a_def [symmetric] b_def [symmetric] D_def [symmetric]
    by (intro sint_word_of_int) simp_all
  define m where "m = sint sec mod D"
  have m: "0 \<le> m" "m < D" using D(1) by (simp_all add: m_def)
  have rem: "remS sec (maxValueFromZero dl) = Inr (word_of_int m)"
    using remS_pos [of sec "maxValueFromZero dl"] assms(5) sD D(1) by (simp add: m_def)
  define c where "c = a + m"
  have c: "a \<le> c" "c \<le> b" using m by (simp_all add: c_def D_def)
  have off: "word_of_int m + offset dl = (word_of_int c :: int64)"
    unfolding L(2) a_def [symmetric] c_def by (simp add: add.commute)
  have sc: "sint (word_of_int c :: int64) = c" using c r63 by (intro sint_word_of_int) simp_all
  have thmin: "(word_of_int c :: int64) = th_sec (minDate dl) \<longleftrightarrow> c = a"
    unfolding L(4) by (simp add: a_def [symmetric]) (metis r63(1,2) sc sint_word_of_int)
  have thmax: "(word_of_int c :: int64) = th_sec (maxDate dl) \<longleftrightarrow> c = b"
    unfolding L(5) by (simp add: b_def [symmetric]) (metis r63(3,4) sc sint_word_of_int)
  have nmin: "sint (th_nano (minDate dl)) = nanosecond minD + 1"
    and nmax: "sint (th_nano (maxDate dl)) = nanosecond maxD + 1"
    unfolding L(4,5) using th_nano_sint by simp_all
  define n where "n = (if c = a then sint nano mod (nanosecond minD + 1)
    else if c = b then sint nano mod (nanosecond maxD + 1) else sint nano)"
  have n: "0 \<le> n" "n < second_ns" "c = a \<Longrightarrow> n \<le> nanosecond minD" "c \<noteq> a \<Longrightarrow> c = b \<Longrightarrow> n \<le> nanosecond maxD"
    using assms(6,7) nanosecond_range [of minD] nanosecond_range [of maxD]
      pos_mod_bound [of "nanosecond minD + 1" "sint nano"] pos_mod_bound [of "nanosecond maxD + 1" "sint nano"]
      pos_mod_sign [of "nanosecond minD + 1" "sint nano"] pos_mod_sign [of "nanosecond maxD + 1" "sint nano"]
    unfolding n_def by auto
  have sn: "sint (word_of_int n :: int64) = n"
    using n(1,2) by (intro sint_word_of_int) (simp_all add: second_ns_def)
  have rmin: "remS nano (th_nano (minDate dl)) = Inr (word_of_int (sint nano mod (nanosecond minD + 1)))"
    and rmax: "remS nano (th_nano (maxDate dl)) = Inr (word_of_int (sint nano mod (nanosecond maxD + 1)))"
    using remS_pos [of nano] assms(6) nmin nmax nanosecond_range [of minD] nanosecond_range [of maxD] by simp_all
  have run: "TimestampLimiter_Limit dl sec nano = Inr (word_of_int c, word_of_int n)"
    unfolding TimestampLimiter_Limit_def rem bindR.simps Let_def off thmin thmax rmin rmax n_def by simp
  define t where "t = c * second_ns + n"
  have lt: "limited_time (word_of_int c, word_of_int n) = t" by (simp add: limited_time_def sc sn t_def)
  have ut: "unix_sec t = c" using n(1,2) by (simp add: unix_sec_def t_def second_ns_def)
  have minD: "minD = a * second_ns + nanosecond minD" and maxD: "maxD = b * second_ns + nanosecond maxD"
    using instant_split [of minD] instant_split [of maxD] by (simp_all add: a_def b_def)
  have "t \<le> maxD"
    using c n(2,3,4) maxD minD L(1) nanosecond_range [of maxD] unfolding t_def second_ns_def by (cases "c = b"; cases "c = a") auto
  moreover have "minD < t \<longleftrightarrow> a < c"
    using c n minD nanosecond_range [of minD] unfolding t_def second_ns_def by (cases "c = a") auto
  ultimately show ?thesis
    using run lt ut c by (auto simp: a_def b_def Let_def)
qed


theorem TimestampLimiter_Limit_range_witness:
  "\<exists>dl r. NewTimestampLimiter 5000000007 9000000000 = Inr dl
     \<and> TimestampLimiter_Limit dl 10 900 = Inr r \<and> limited_time r = 5000000004 \<and> limited_time r < 5000000007"
proof -
  obtain dl where dl: "NewTimestampLimiter 5000000007 9000000000 = Inr dl"
    by (simp add: NewTimestampLimiter_def Let_def)
  have "instant 5000000007" "instant 9000000000" by (simp_all add: instant_def unix_sec_def second_ns_def)
  from TimestampLimiter_Limit_range [OF dl this, of 10 900] obtain r where
    r: "TimestampLimiter_Limit dl 10 900 = Inr r" "unix_sec (limited_time r) \<le> 9"
    by (auto simp: unix_sec_def second_ns_def Let_def)
  moreover have "dl = \<lparr> minDate = \<lparr> th_sec = 5, th_nano = 8 \<rparr>, maxDate = \<lparr> th_sec = 9, th_nano = 1 \<rparr>,
      maxValueFromZero = 5, offset = 5 \<rparr>"
    using dl by (simp add: NewTimestampLimiter_def Let_def unix_sec_def nanosecond_def second_ns_def
        word_sless_alt)
  ultimately show ?thesis
    using dl by (auto simp: TimestampLimiter_Limit_def remS_def smod_int_alt_def limited_time_def second_ns_def)
qed

section \<open>Noise\<close>

text \<open>Durations are \<^verbatim>\<open>int64\<close> nanoseconds; an instant is moved by them without a bound. \<open>trunc\<close> is the
  optional truncation of an instant.\<close>

record NoiseTimestamp =
  nt_minRatio :: int64
  nt_distance :: int64
  nt_trunc :: "(int \<Rightarrow> int) option"
  nt_limiter :: "(int option \<times> int option) option"

definition NewNoiseTimestampLimiter :: "int option \<Rightarrow> int option \<Rightarrow> (int option \<times> int option) res" where
  "NewNoiseTimestampLimiter minD maxD =
     (case (minD, maxD) of
        (Some a, Some b) \<Rightarrow> if a > b then err ''wrong limits'' else Inr (minD, maxD)
      | _ \<Rightarrow> Inr (minD, maxD))"

definition NoiseTimestampLimiter_Limit :: "int option \<times> int option \<Rightarrow> int \<Rightarrow> int" where
  "NoiseTimestampLimiter_Limit ntl v =
     (if (case snd ntl of Some b \<Rightarrow> b < v | None \<Rightarrow> False) then the (snd ntl)
      else if (case fst ntl of Some a \<Rightarrow> v < a | None \<Rightarrow> False) then the (fst ntl)
      else v)"

definition NewNoiseTimestamp ::
    "int64 \<Rightarrow> int64 \<Rightarrow> (int \<Rightarrow> int) option \<Rightarrow> (int option \<times> int option) option \<Rightarrow> NoiseTimestamp res" where
  "NewNoiseTimestamp minRatio maxRatio trunc limiter =
     (if maxRatio \<le>s minRatio then err ''wrong limits''
      else Inr \<lparr> nt_minRatio = minRatio, nt_distance = maxRatio - minRatio, nt_trunc = trunc, nt_limiter = limiter \<rparr>)"

definition NoiseTimestamp_Transform ::
    "NoiseTimestamp \<Rightarrow> (int option \<times> int option) option \<Rightarrow> goslice \<Rightarrow> int \<Rightarrow> int res" where
  "NoiseTimestamp_Transform d l genBytes v =
     (let limiter = (case l of Some l' \<Rightarrow> Some l' | None \<Rightarrow> nt_limiter d) in
      bindR (index_byte genBytes 0) (\<lambda>b0.
      bindR (reslice genBytes 1 9) (\<lambda>b8.
      bindR (remS (le_uint (vis b8)) (nt_distance d)) (\<lambda>offset.
        let offset = (if offset <s 0 then - offset else offset);
            sec = nt_minRatio d + offset;
            v1 = (if b0 mod 2 = 0 then v + sint (- sec) else v + sint sec);
            v2 = (case limiter of Some lim \<Rightarrow> NoiseTimestampLimiter_Limit lim v1 | None \<Rightarrow> v1)
        in Inr (case nt_trunc d of Some tr \<Rightarrow> tr v2 | None \<Rightarrow> v2)))))"

lemma smod_bound: "0 < (b :: int) \<Longrightarrow> \<bar>a smod b\<bar> < b"
  by (auto simp: smod_int_alt_def abs_mult sgn_if)

text \<open>Noise moves a timestamp by at least the minimal and less than the maximal ratio, in the direction
  the first generated byte gives, for all generated bytes; with limits the result is inside of them. No
  choice of the generated bytes overflows.\<close>

lemma NoiseTimestamp_Transform_range:
  assumes "NewNoiseTimestamp mn mx None lim = Inr d" and "0 \<le> sint mn" and "9 \<le> length (vis bs)"
    and "case lim of None \<Rightarrow> True | Some (a, b) \<Rightarrow> isOk (NewNoiseTimestampLimiter a b)"
  shows "\<exists>t. NoiseTimestamp_Transform d None bs v = Inr t \<and>
     (case lim of
        None \<Rightarrow> sint mn \<le> \<bar>t - v\<bar> \<and> \<bar>t - v\<bar> < sint mx \<and> (t \<le> v \<longleftrightarrow> vis bs ! 0 mod 2 = 0 \<or> t = v)
      | Some (a, b) \<Rightarrow> (\<forall>x. a = Some x \<longrightarrow> x \<le> t) \<and> (\<forall>x. b = Some x \<longrightarrow> t \<le> x))"
proof -
  from assms(1) have lt: "sint mn < sint mx" and d: "d = \<lparr> nt_minRatio = mn, nt_distance = mx - mn, nt_trunc = None, nt_limiter = lim \<rparr>"
    by (auto simp: NewNoiseTimestamp_def word_sle_eq split: if_splits)
  define D where "D = sint mx - sint mn"
  have D: "0 < D" "D < 2 ^ 63" using lt assms(2) sint_int64_range [of mx] by (simp_all add: D_def)
  have "mx - mn = word_of_int D" by (simp add: D_def)
  then have sD: "sint (mx - mn) = D" using D sint_word_of_int [of D] by simp
  obtain b8 where b8: "reslice bs 1 9 = Inr b8" using reslice_ok [of 1 9 bs] assms(3) by auto
  define x where "x = sint (le_uint (vis b8) :: int64) smod D"
  have x: "\<bar>x\<bar> < D" using smod_bound [OF D(1)] by (simp add: x_def)
  have rem: "remS (le_uint (vis b8)) (mx - mn) = Inr (word_of_int x)"
    using D(1) sD by (auto simp: remS_def x_def)
  have sx: "sint (word_of_int x :: int64) = x" using x D by (intro sint_word_of_int) auto
  have off: "(if (word_of_int x :: int64) <s 0 then - word_of_int x else word_of_int x) = (word_of_int \<bar>x\<bar> :: int64)"
    using sx by (simp add: word_sless_alt)
  define k where "k = sint mn + \<bar>x\<bar>"
  have k: "sint mn \<le> k" "k < sint mx" using x by (auto simp: k_def D_def)
  have sec: "mn + word_of_int \<bar>x\<bar> = (word_of_int k :: int64)" by (simp add: k_def)
  have sk: "sint (word_of_int k :: int64) = k" "sint (- word_of_int k :: int64) = - k"
    using k assms(2) sint_int64_range [of mx] sint_word_of_int [of k] sint_word_of_int [of "- k"] by simp_all
  have b0: "index_byte bs 0 = Inr (vis bs ! 0)" using assms(3) by (cases "vis bs") (auto simp: index_byte_def)
  define v1 where "v1 = (if vis bs ! 0 mod 2 = 0 then v - k else v + k)"
  have run: "NoiseTimestamp_Transform d None bs v
      = Inr (case lim of Some l \<Rightarrow> NoiseTimestampLimiter_Limit l v1 | None \<Rightarrow> v1)"
    unfolding NoiseTimestamp_Transform_def d NoiseTimestamp.simps Let_def b0 bindR.simps b8 rem off sec sk
      v1_def option.case
    by (simp split: option.splits)
  show ?thesis
  proof (cases lim)
    case None
    then show ?thesis using run k assms(2) by (auto simp: v1_def)
  next
    case (Some p)
    obtain a b where p: "p = (a, b)" by fastforce
    show ?thesis
      using run Some p assms(4)
      by (auto simp: NoiseTimestampLimiter_Limit_def NewNoiseTimestampLimiter_def split: option.splits if_splits)
  qed
qed

theorem NoiseTimestamp_Transform_range_witness:
  "\<exists>d t. NewNoiseTimestamp 5 9 None (Some (Some 0, None)) = Inr d
     \<and> NoiseTimestamp_Transform d None (exact (replicate 17 0)) 3 = Inr t \<and> 0 \<le> t"
proof -
  obtain d where d: "NewNoiseTimestamp 5 9 None (Some (Some 0, None)) = Inr d"
    by (simp add: NewNoiseTimestamp_def word_sle_eq)
  from NoiseTimestamp_Transform_range [OF d, of "exact (replicate 17 0)" 3] d show ?thesis
    by (auto simp: exact_def NewNoiseTimestampLimiter_def)
qed

end
