(* ===== verification/GenNet.thy ===== *)
theory GenNet
  imports GenTransformers
begin

text \<open>
  Network values, \<^verbatim>\<open>random_ip.go\<close> and \<^verbatim>\<open>random_mac.go\<close> of \<^verbatim>\<open>internal/generators/transformers\<close>. An address is
  its bytes; \<^verbatim>\<open>big.Int\<close> is \<open>nat\<close> with \<open>be_nat\<close> for \<^verbatim>\<open>SetBytes\<close> and \<open>be_bytes\<close> for \<^verbatim>\<open>Bytes\<close>, which has no
  leading zeros.
\<close>

unbundle bit_operations_syntax

section \<open>Big-endian numbers\<close>

definition be_nat :: "byte list \<Rightarrow> nat" where
  "be_nat bs = foldl (\<lambda>n b. 256 * n + unat b) 0 bs"

fun be_bytes :: "nat \<Rightarrow> byte list" where
  "be_bytes n = (if n = 0 then [] else be_bytes (n div 256) @ [word_of_nat (n mod 256)])"

declare be_bytes.simps [simp del]

lemma be_nat_snoc: "be_nat (bs @ [b]) = 256 * be_nat bs + unat b"
  by (simp add: be_nat_def)

lemma be_nat_Nil [simp]: "be_nat [] = 0"
  by (simp add: be_nat_def)

lemma be_nat_bytes [simp]: "be_nat (be_bytes n) = n"
proof (induction n rule: less_induct)
  case (less n)
  show ?case
  proof (cases "n = 0")
    case True
    then show ?thesis by (simp add: be_bytes.simps)
  next
    case False
    then have "be_nat (be_bytes (n div 256)) = n div 256" by (intro less) simp
    moreover have "unat (word_of_nat (n mod 256) :: byte) = n mod 256"
      by (simp add: unat_of_nat)
    ultimately show ?thesis using False by (subst be_bytes.simps) (simp add: be_nat_snoc)
  qed
qed

lemma be_bytes_length: "length (be_bytes n) \<le> k \<longleftrightarrow> n < 256 ^ k"
proof (induction k arbitrary: n)
  case 0
  then show ?case by (subst be_bytes.simps) simp
next
  case (Suc k)
  show ?case
  proof (cases "n = 0")
    case True
    then show ?thesis by (simp add: be_bytes.simps)
  next
    case False
    then have "length (be_bytes n) \<le> Suc k \<longleftrightarrow> length (be_bytes (n div 256)) \<le> k"
      by (subst be_bytes.simps) simp
    also have "\<dots> \<longleftrightarrow> n div 256 < 256 ^ k" by (rule Suc.IH)
    also have "\<dots> \<longleftrightarrow> n < 256 ^ Suc k" by (simp add: div_less_iff_less_mult mult.commute)
    finally show ?thesis .
  qed
qed

lemma be_nat_zeros: "be_nat (replicate k 0 @ bs) = be_nat bs"
proof (induction k)
  case 0
  then show ?case by simp
next
  case (Suc k)
  then show ?case by (simp add: be_nat_def)
qed

section \<open>IP addresses\<close>

record IPNet =
  net_IP :: "byte list"
  net_ones :: nat
  net_bits :: nat

definition isTo4 :: "byte list \<Rightarrow> bool" where
  "isTo4 ip \<longleftrightarrow>
     length ip = 4 \<or> length ip = 16 \<and> take 10 ip = replicate 10 0 \<and> ip ! 10 = 0xFF \<and> ip ! 11 = 0xFF"

definition IpAddress_Generate ::
    "IPNet \<Rightarrow> IPNet option \<Rightarrow> 's Generator \<Rightarrow> 's \<Rightarrow> byte list \<Rightarrow> ('s \<times> byte list) res" where
  "IpAddress_Generate subnet0 runtimeSubnet g s original =
     (let subnet = (case runtimeSubnet of Some n \<Rightarrow> n | None \<Rightarrow> subnet0);
          totalHosts = (2 :: nat) ^ (net_bits subnet - net_ones subnet) in
      if totalHosts \<le> 2 then err ''subnet too small''
      else bindR (Generate g s original) (\<lambda>(s', out).
        bindR (if isTo4 (net_IP subnet) then reslice out 0 4 else Inr out) (\<lambda>hostBytes.
          let randomHostNum = be_nat (vis hostBytes) mod (totalHosts - 2) + 1;
              ipAddrBytes = be_bytes (be_nat (net_IP subnet) + randomHostNum)
          in if length ipAddrBytes < 16 \<and> \<not> isTo4 (net_IP subnet)
             then Inr (s', replicate (16 - length ipAddrBytes) 0 @ ipAddrBytes)
             else Inr (s', ipAddrBytes))))"

text \<open>A subnet: an address of the family's length, with no bits below the mask.\<close>

definition IPNet_ok :: "IPNet \<Rightarrow> bool" where
  "IPNet_ok n \<longleftrightarrow>
     net_bits n = 8 * length (net_IP n) \<and> net_ones n \<le> net_bits n
     \<and> (length (net_IP n) = 4 \<or> length (net_IP n) = 16 \<and> \<not> isTo4 (net_IP n))
     \<and> 2 ^ (net_bits n - net_ones n) dvd be_nat (net_IP n)"

lemma be_nat_bound: "be_nat bs < 256 ^ length bs"
proof (induction bs rule: rev_induct)
  case Nil
  then show ?case by simp
next
  case (snoc b bs)
  have "unat b < 256" using unsigned_less [of b] by simp
  moreover have "256 * be_nat bs + 256 \<le> 256 * 256 ^ length bs" using snoc by simp
  ultimately show ?case by (simp add: be_nat_snoc)
qed

lemma block_fits:
  assumes "(2 :: nat) ^ h dvd a" "a < 2 ^ k" "h \<le> k"
  shows "a + 2 ^ h \<le> 2 ^ k"
proof -
  obtain q where q: "a = 2 ^ h * q" using assms(1) by (rule dvdE)
  have p: "(2 :: nat) ^ k = 2 ^ h * 2 ^ (k - h)" using assms(3) by (simp flip: power_add)
  then have "q < 2 ^ (k - h)" using assms(2) q by simp
  then have "Suc q \<le> 2 ^ (k - h)" by simp
  then have "2 ^ h * Suc q \<le> 2 ^ h * 2 ^ (k - h)" by (rule mult_le_mono2)
  then show ?thesis using p q by (simp add: algebra_simps)
qed

context generator
begin

lemma ip_in_subnet:
  assumes "IPNet_ok n" "16 \<le> Size g" "Generate g s d = Inr (s', out)" "net_ones n + 2 \<le> net_bits n"
  shows "\<exists>ip. IpAddress_Generate n None g s d = Inr (s', ip)
     \<and> be_nat (net_IP n) < be_nat ip \<and> be_nat ip + 1 < be_nat (net_IP n) + 2 ^ (net_bits n - net_ones n)
     \<and> (length (net_IP n) = 16 \<longrightarrow> length ip = 16)
     \<and> (length (net_IP n) = 4 \<longrightarrow> length ip \<le> 4 \<and> (length ip = 4 \<longleftrightarrow> 256 ^ 3 \<le> be_nat ip))"
proof -
  define T where "T = (2 :: nat) ^ (net_bits n - net_ones n)"
  have "(2 :: nat) ^ 2 \<le> T" unfolding T_def by (rule power_increasing) (use assms(4) in simp_all)
  then have T: "4 \<le> T" by simp
  have "16 \<le> length (vis out)" using output_at_least [of 16] assms(2,3) by simp
  then obtain p4 where "reslice out 0 4 = Inr p4" using reslice_ok [of 0 4 out] by auto
  then obtain hb where hb: "(if isTo4 (net_IP n) then reslice out 0 4 else Inr out) = Inr hb"
    by (cases "isTo4 (net_IP n)") auto
  define N where "N = be_nat (net_IP n) + (be_nat (vis hb) mod (T - 2) + 1)"
  have N': "Suc (be_nat (net_IP n) + be_nat (vis hb) mod (T - 2)) = N" by (simp add: N_def)
  have "be_nat (vis hb) mod (T - 2) < T - 2" using T by simp
  then have N: "be_nat (net_IP n) < N" "N + 1 < be_nat (net_IP n) + T" unfolding N_def by linarith+
  have k: "(256 :: nat) ^ length (net_IP n) = 2 ^ net_bits n"
    using assms(1) by (simp add: IPNet_ok_def power_mult)
  have "be_nat (net_IP n) + T \<le> 256 ^ length (net_IP n)"
    unfolding k T_def
    by (rule block_fits) (use assms(1) be_nat_bound [of "net_IP n"] k in \<open>auto simp: IPNet_ok_def\<close>)
  then have len: "length (be_bytes N) \<le> length (net_IP n)" using N(2) by (simp add: be_bytes_length)
  define ip where "ip = (if length (be_bytes N) < 16 \<and> \<not> isTo4 (net_IP n)
    then replicate (16 - length (be_bytes N)) 0 @ be_bytes N else be_bytes N)"
  have "IpAddress_Generate n None g s d = Inr (s', ip)"
    using assms(3) hb T unfolding IpAddress_Generate_def
    by (simp add: Let_def T_def [symmetric] N' ip_def)
  moreover have "be_nat ip = N" by (simp add: ip_def be_nat_zeros)
  moreover have "length (net_IP n) = 16 \<Longrightarrow> length ip = 16"
    using assms(1) len by (auto simp: ip_def IPNet_ok_def)
  moreover have "length (net_IP n) = 4 \<Longrightarrow> ip = be_bytes N" by (simp add: ip_def isTo4_def)
  moreover have "\<not> length (be_bytes N) \<le> 3 \<longleftrightarrow> 256 ^ 3 \<le> N" by (simp add: be_bytes_length not_less)
  ultimately show ?thesis using N len by (auto simp: T_def)
qed

end



section \<open>MAC addresses\<close>

datatype CastType = CastTypeIndividual | CastTypeGroup | CastTypeAny
datatype ManagementType = ManagementTypeUniversal | ManagementTypeLocal | ManagementTypeAny

definition RandomBytesToHardwareAddr :: "goslice \<Rightarrow> byte list res" where
  "RandomBytesToHardwareAddr s =
     (if length (vis s) < 6 then panic ''index out of range'' else Inr (take 6 (vis s)))"

text \<open>\<^verbatim>\<open>newMac[i] = v\<close> and the reads of \<open>original\<close> panic out of range; \<open>newMac\<close> has six bytes.\<close>

definition ModifyMacAddress :: "byte list \<Rightarrow> byte list \<Rightarrow> bool \<Rightarrow> CastType \<Rightarrow> ManagementType \<Rightarrow> byte list res" where
  "ModifyMacAddress newMac original keepOriginalVendor castType managementType =
     (if keepOriginalVendor then
        if length original < 3 \<or> length newMac < 3 then panic ''index out of range''
        else Inr (newMac[0 := original ! 0, 1 := original ! 1, 2 := original ! 2])
      else if newMac = [] then
        if managementType = ManagementTypeAny \<and> castType = CastTypeAny then Inr newMac
        else panic ''index out of range''
      else
        let b = newMac ! 0;
            b = (case managementType of ManagementTypeLocal \<Rightarrow> b OR 0x02
                 | ManagementTypeUniversal \<Rightarrow> b AND NOT 0x02 | ManagementTypeAny \<Rightarrow> b);
            b = (case castType of CastTypeGroup \<Rightarrow> b OR 0x01
                 | CastTypeIndividual \<Rightarrow> b AND NOT 0x01 | CastTypeAny \<Rightarrow> b)
        in Inr (newMac[0 := b]))"

definition ExploreMacAddress :: "byte list \<Rightarrow> (ManagementType \<times> CastType) res" where
  "ExploreMacAddress macAddress =
     (if macAddress = [] then panic ''index out of range''
      else let firstByte = macAddress ! 0 in
        Inr (if firstByte AND 0x02 = 0x02 then ManagementTypeLocal else ManagementTypeUniversal,
             if firstByte AND 0x01 = 0x01 then CastTypeGroup else CastTypeIndividual))"

definition MacAddress_Generate ::
    "'s Generator \<Rightarrow> 's \<Rightarrow> byte list \<Rightarrow> bool \<Rightarrow> CastType \<Rightarrow> ManagementType \<Rightarrow> ('s \<times> byte list) res" where
  "MacAddress_Generate g s original keepOriginalVendor castType managementType =
     bindR (Generate g s original) (\<lambda>(s', randoBytes).
     bindR (RandomBytesToHardwareAddr randoBytes) (\<lambda>randomMac.
     bindR (ModifyMacAddress randomMac original keepOriginalVendor castType managementType) (\<lambda>r. Inr (s', r))))"

lemma and_bits:
  fixes b :: byte
  shows "(b OR 2) AND 2 = 2" "(b AND NOT 2) AND 2 = 0" "(b OR 1) AND 1 = 1" "(b AND NOT 1) AND 1 = 0"
    "(b OR 1) AND 2 = b AND 2" "(b AND NOT 1) AND 2 = b AND 2" "(b OR 2) AND 1 = b AND 1" "(b AND NOT 2) AND 1 = b AND 1"
proof -
  have e: "(2 :: byte) = push_bit 1 1" by (simp add: push_bit_eq_mult)
  have two: "bit (2 :: byte) n \<longleftrightarrow> n = 1" for n unfolding e by (auto simp: bit_simps)
  have one: "bit (1 :: byte) n \<longleftrightarrow> n = 0" for n by (simp add: bit_1_iff)
  show "(b OR 2) AND 2 = 2" "(b AND NOT 2) AND 2 = 0" "(b OR 1) AND 1 = 1" "(b AND NOT 1) AND 1 = 0"
    "(b OR 1) AND 2 = b AND 2" "(b AND NOT 1) AND 2 = b AND 2" "(b OR 2) AND 1 = b AND 1" "(b AND NOT 2) AND 1 = b AND 1"
    by (rule bit_word_eqI; auto simp: bit_simps two one)+
qed

text \<open>Reading back a generated MAC address: keeping the vendor keeps exactly the first three bytes of
  the original; otherwise \<^verbatim>\<open>ExploreMacAddress\<close> finds the management and cast type that were asked for, and the
  five other bytes are the generated ones.\<close>

lemma ModifyMacAddress_explored:
  assumes "length newMac = 6" and "length original = 6"
  shows "\<exists>mac mt ct. ModifyMacAddress newMac original keep castType managementType = Inr mac
     \<and> length mac = 6 \<and> ExploreMacAddress mac = Inr (mt, ct)
     \<and> (if keep then take 3 mac = take 3 original \<and> drop 3 mac = drop 3 newMac
        else drop 1 mac = drop 1 newMac
          \<and> (managementType \<noteq> ManagementTypeAny \<longrightarrow> mt = managementType)
          \<and> (castType \<noteq> CastTypeAny \<longrightarrow> ct = castType))"
proof (cases keep)
  case True
  obtain a0 a1 a2 a3 a4 a5 where a: "newMac = [a0, a1, a2, a3, a4, a5]"
    using assms(1) by (auto simp: length_Suc_conv eval_nat_numeral)
  obtain b0 b1 b2 b3 b4 b5 where b: "original = [b0, b1, b2, b3, b4, b5]"
    using assms(2) by (auto simp: length_Suc_conv eval_nat_numeral)
  show ?thesis using True by (simp add: a b ModifyMacAddress_def ExploreMacAddress_def)
next
  case False
  obtain a as where a: "newMac = a # as" using assms(1) by (cases newMac) auto
  have z: "(0 :: byte) \<noteq> 2" "(0 :: byte) \<noteq> 1" by simp_all
  show ?thesis
    using False assms(1) z
    by (cases managementType; cases castType) (simp_all add: a ModifyMacAddress_def ExploreMacAddress_def Let_def and_bits and_bits [simplified])
qed

theorem ModifyMacAddress_explored_witness:
  "\<exists>mac. ModifyMacAddress [0xFF, 1, 2, 3, 4, 5] [9, 8, 7, 6, 5, 4] False CastTypeIndividual ManagementTypeUniversal = Inr mac
     \<and> ExploreMacAddress mac = Inr (ManagementTypeUniversal, CastTypeIndividual)"
  using ModifyMacAddress_explored [of "[0xFF, 1, 2, 3, 4, 5]" "[9, 8, 7, 6, 5, 4]" False CastTypeIndividual ManagementTypeUniversal]
  by auto

end
