(* ===== verification/DumpToc.thy ===== *)
theory DumpToc
  imports TocReader SubsetGraph
begin

text \<open>
  What a dump writes besides the data: the entries of the table of contents for tables, sequences and large objects
  (\<^verbatim>\<open>internal/db/postgres/entries\<close>), their dump ids, the merge with the entries of the schema and the dependency
  graph of the metadata (\<^verbatim>\<open>internal/db/postgres/cmd/dump.go\<close>). Names are \<open>string\<close>s, the statements of an entry are
  bytes.
\<close>

section \<open>Objects of the data section\<close>

record DumpTable = Table +
  dt_Query :: string
  dt_Owner :: string
  dt_RelKind :: char
  dt_LoadViaPartitionRoot :: bool
  dt_RootPtSchema :: string
  dt_RootPtName :: string
  dt_RootPtOid :: "32 word"
  dt_Dependencies :: "int32 list"
  dt_DumpId :: int32
  dt_OriginalSize :: int64
  dt_CompressedSize :: int64

record SequenceObject =
  sq_Schema :: string
  sq_Name :: string
  sq_Owner :: string
  sq_IsCalled :: bool
  sq_DumpId :: int32
  sq_Dependencies :: "int32 list"
  sq_LastValue :: int64

record ACLItem =
  Grantor :: string
  Grantee :: string
  PrivilegeType :: string
  Grantable :: bool

record ACL =
  acl_Value :: string
  acl_Items :: "ACLItem list"

record LargeObject =
  CreateDumpId :: int32
  CommentDumpId :: int32
  PermDumpId :: int32
  lo_TableOid :: "32 word"
  lo_Oid :: "32 word"
  lo_ACL :: "ACL list"
  lo_DefaultACL :: "ACL option"
  lo_Comment :: string
  lo_Owner :: string

record Blobs =
  LargeObjects :: "LargeObject list"
  bl_DumpId :: int32
  bl_OriginalSize :: int64
  bl_CompressedSize :: int64

datatype DumpObject = TableObj DumpTable | SequenceObj SequenceObject | BlobsObj Blobs

definition TableDataDesc :: string where "TableDataDesc = ''TABLE DATA''"
definition LargeObjectsDesc :: string where "LargeObjectsDesc = ''BLOB''"
definition BlobsDesc :: string where "BlobsDesc = ''BLOBS''"
definition SequenceSetDesc :: string where "SequenceSetDesc = ''SEQUENCE SET''"
definition CommentDesc :: string where "CommentDesc = ''COMMENT''"
definition AclDesc :: string where "AclDesc = ''ACL''"

section \<open>Dump ids\<close>

definition Table_SetDumpId :: "DumpTable \<Rightarrow> int32 \<Rightarrow> DumpTable \<times> int32" where
  "Table_SetDumpId t cur = (let (cur1, i) = DumpIdSequence_Next cur in (t\<lparr>dt_DumpId := i\<rparr>, cur1))"

definition Sequence_SetDumpId :: "SequenceObject \<Rightarrow> int32 \<Rightarrow> SequenceObject \<times> int32" where
  "Sequence_SetDumpId s cur = (let (cur1, i) = DumpIdSequence_Next cur in (s\<lparr>sq_DumpId := i\<rparr>, cur1))"

definition LargeObject_SetDumpId :: "LargeObject \<Rightarrow> int32 \<Rightarrow> LargeObject \<times> int32" where
  "LargeObject_SetDumpId lo cur =
     (let (cur1, i) = DumpIdSequence_Next cur; lo1 = lo\<lparr>CreateDumpId := i\<rparr>;
          (lo2, cur2) = (if lo_Comment lo \<noteq> ''''
                         then let (c, i) = DumpIdSequence_Next cur1 in (lo1\<lparr>CommentDumpId := i\<rparr>, c) else (lo1, cur1))
      in if length (lo_ACL lo) > 0
         then let (c, i) = DumpIdSequence_Next cur2 in (lo2\<lparr>PermDumpId := i\<rparr>, c) else (lo2, cur2))"

fun set_lo_ids :: "LargeObject list \<Rightarrow> int32 \<Rightarrow> LargeObject list \<times> int32" where
  "set_lo_ids [] cur = ([], cur)"
| "set_lo_ids (lo # los) cur =
     (let (lo', cur1) = LargeObject_SetDumpId lo cur; (los', cur2) = set_lo_ids los cur1 in (lo' # los', cur2))"

definition Blobs_SetDumpId :: "Blobs \<Rightarrow> int32 \<Rightarrow> Blobs \<times> int32" where
  "Blobs_SetDumpId b cur =
     (let (cur1, i) = DumpIdSequence_Next cur; (los, cur2) = set_lo_ids (LargeObjects b) cur1
      in (b\<lparr>bl_DumpId := i, LargeObjects := los\<rparr>, cur2))"

fun SetDumpId :: "DumpObject \<Rightarrow> int32 \<Rightarrow> DumpObject \<times> int32" where
  "SetDumpId (TableObj t) cur = map_prod TableObj id (Table_SetDumpId t cur)"
| "SetDumpId (SequenceObj s) cur = map_prod SequenceObj id (Sequence_SetDumpId s cur)"
| "SetDumpId (BlobsObj b) cur = map_prod BlobsObj id (Blobs_SetDumpId b cur)"

text \<open>
  \<^verbatim>\<open>taskProducer\<close>: every object gets an id, and all but partitioned tables and, under their options, large objects
  become tasks. The result is the objects with their ids, the tasks in the order they are sent, the blobs the dump
  remembers and the sequence.
\<close>

definition is_task :: "bool \<Rightarrow> bool \<Rightarrow> DumpObject \<Rightarrow> bool" where
  "is_task validate noBlobs ob =
     (case ob of TableObj t \<Rightarrow> dt_RelKind t \<noteq> CHR ''p'' | SequenceObj s \<Rightarrow> True | BlobsObj b \<Rightarrow> \<not> validate \<and> \<not> noBlobs)"

fun taskProducer ::
  "bool \<Rightarrow> bool \<Rightarrow> DumpObject list \<Rightarrow> Blobs option \<Rightarrow> int32 \<Rightarrow>
     DumpObject list \<times> DumpObject list \<times> Blobs option \<times> int32" where
  "taskProducer validate noBlobs [] bl cur = ([], [], bl, cur)"
| "taskProducer validate noBlobs (ob # obs) bl cur =
     (let (ob', cur1) = SetDumpId ob cur;
          bl1 = (case ob' of BlobsObj b \<Rightarrow> Some b | _ \<Rightarrow> bl);
          (obs', ts, bl2, cur2) = taskProducer validate noBlobs obs bl1 cur1
      in (ob' # obs', (if is_task validate noBlobs ob' then ob' # ts else ts), bl2, cur2))"

section \<open>Entries\<close>

definition escapeIdent :: "string \<Rightarrow> string" where
  "escapeIdent s = concat (List.map (\<lambda>c. if c = dq then [dq, dq] else [c]) s)"

text \<open>An \<^verbatim>\<open>Entry\<close> literal with no field set.\<close>

definition zero_entry :: Entry where
  "zero_entry =
     \<lparr>EntryCatalogId = \<lparr>TableOid = 0, CatOid = 0\<rparr>, DumpId = 0, Section = 0, HadDumper = 0, Tag = None,
      Namespace = None, Tablespace = None, Tableam = None, Owner = None, Desc = None, Defn = None, DropStmt = None,
      CopyStmt = None, Dependencies = [], NDeps = 0, FileName = None, Relkind = 0, DataDumper = 0, DataLength = 0\<rparr>"

definition owner_of :: "string \<Rightarrow> string" where
  "owner_of s = (if s \<noteq> '''' then quoted s else '''')"

definition dump_columns :: "DumpTable \<Rightarrow> string list" where
  "dump_columns t =
     List.map (\<lambda>c. quoted (escapeIdent (col_Name c))) (filter (\<lambda>c. \<not> col_IsGenerated c) (t_Columns t))"

definition copy_target :: "DumpTable \<Rightarrow> string \<times> string" where
  "copy_target t =
     (if dt_LoadViaPartitionRoot t \<and> dt_RootPtSchema t \<noteq> '''' \<and> dt_RootPtName t \<noteq> ''''
      then (dt_RootPtSchema t, dt_RootPtName t) else (t_Schema t, t_Name t))"

definition copy_stmt :: "DumpTable \<Rightarrow> string" where
  "copy_stmt t =
     ''COPY '' @ quoted (escapeIdent (fst (copy_target t))) @ ''.'' @ quoted (escapeIdent (snd (copy_target t))) @
     '' ('' @ join_with '', '' (dump_columns t) @ '') FROM stdin;'' @ [CHR 0x0A]"

definition Table_Entry :: "DumpTable \<Rightarrow> Entry res" where
  "Table_Entry t =
     (if t_Oid t = 0 then err ''oid cannot be 0''
      else if t_Schema t = '''' then err ''table schema name cannot be empty''
      else if t_Name t = '''' then err ''table name cannot be empty''
      else Inr (zero_entry
        \<lparr>EntryCatalogId := \<lparr>TableOid = 0, CatOid = t_Oid t\<rparr>, DumpId := dt_DumpId t, Section := SectionData,
         HadDumper := 1, Tag := Some (ascii (quoted (t_Name t))), Namespace := Some (ascii (quoted (t_Schema t))),
         Owner := Some (ascii (owner_of (dt_Owner t))), Desc := Some (ascii TableDataDesc),
         CopyStmt := Some (ascii (copy_stmt t)), Dependencies := dt_Dependencies t,
         NDeps := word_of_nat (length (dt_Dependencies t)),
         FileName := Some (FormatInt (dt_DumpId t) @ ascii ''.dat.gz''), Defn := Some [], DropStmt := Some []\<rparr>))"

definition GetCopyFromStatement :: "DumpTable \<Rightarrow> string" where
  "GetCopyFromStatement t =
     (if dt_Query t \<noteq> '''' then ''COPY ('' @ dt_Query t @ '') TO STDOUT''
      else ''COPY '' @ quoted (escapeIdent (t_Schema t)) @ ''.'' @ quoted (escapeIdent (t_Name t)) @ '' TO STDOUT'')"

definition Sequence_Entry :: "SequenceObject \<Rightarrow> Entry res" where
  "Sequence_Entry s =
     Inr (zero_entry
       \<lparr>DumpId := sq_DumpId s, Section := SectionData, Tag := Some (ascii (quoted (sq_Name s))),
        Namespace := Some (ascii (quoted (sq_Schema s))), Owner := Some (ascii (owner_of (sq_Owner s))),
        Desc := Some (ascii SequenceSetDesc),
        Defn := Some (ascii (''SELECT pg_catalog.setval('' @ [CHR 0x27] @ quoted (escapeIdent (sq_Schema s)) @ ''.'' @
                  quoted (escapeIdent (sq_Name s)) @ [CHR 0x27] @ '', '') @ FormatInt (sq_LastValue s) @
                  ascii ('', '' @ (if \<not> sq_IsCalled s then ''false'' else ''true'') @ '');'')),
        Dependencies := sq_Dependencies s, NDeps := word_of_nat (length (sq_Dependencies s)),
        FileName := Some [], DropStmt := Some []\<rparr>)"

definition Blobs_Entry :: "Blobs \<Rightarrow> Entry res" where
  "Blobs_Entry b =
     Inr (zero_entry
       \<lparr>DumpId := bl_DumpId b, Section := SectionData, Tag := Some (ascii BlobsDesc), Desc := Some (ascii BlobsDesc),
        FileName := Some (ascii ''blobs.toc''), HadDumper := 1\<rparr>)"

fun ObjEntry :: "DumpObject \<Rightarrow> Entry res" where
  "ObjEntry (TableObj t) = Table_Entry t"
| "ObjEntry (SequenceObj s) = Sequence_Entry s"
| "ObjEntry (BlobsObj b) = Blobs_Entry b"

section \<open>Statements of a large object\<close>

definition lo_call :: "string \<Rightarrow> LargeObject \<Rightarrow> byte list" where
  "lo_call f lo = ascii (''SELECT pg_catalog.'' @ f @ ''('' @ [CHR 0x27]) @ FormatUint (lo_Oid lo) @
     ascii ([CHR 0x27] @ '');'' @ [CHR 0x0A])"

definition CreateDdl :: "LargeObject \<Rightarrow> Entry" where
  "CreateDdl lo = zero_entry
     \<lparr>EntryCatalogId := \<lparr>TableOid = lo_TableOid lo, CatOid = lo_Oid lo\<rparr>, DumpId := CreateDumpId lo,
      Section := SectionPreData, Tag := Some (FormatUint (lo_Oid lo)), Owner := Some (ascii (lo_Owner lo)),
      Desc := Some (ascii LargeObjectsDesc), Defn := Some (lo_call ''lo_create'' lo),
      DropStmt := Some (lo_call ''lo_unlink'' lo), FileName := Some []\<rparr>"

definition CommentDdl :: "LargeObject \<Rightarrow> Entry option" where
  "CommentDdl lo =
     (if lo_Comment lo = '''' then None
      else Some (zero_entry
        \<lparr>DumpId := CommentDumpId lo, Section := SectionNone, Tag := Some (ascii ''LARGE OBJECT '' @ FormatUint (lo_Oid lo)),
         Owner := Some (ascii (lo_Owner lo)), Desc := Some (ascii CommentDesc),
         Defn := Some (ascii (''COMMENT ON LARGE OBJECT 57344 IS '' @ [CHR 0x27] @ lo_Comment lo @ [CHR 0x27] @ '';'' @ [CHR 0x0A])),
         Dependencies := [CreateDumpId lo], NDeps := 1, FileName := Some []\<rparr>))"

definition grant_stmt :: "LargeObject \<Rightarrow> ACLItem \<Rightarrow> byte list" where
  "grant_stmt lo item =
     ascii (''GRANT '' @ PrivilegeType item @ '' ON LARGE OBJECT '') @ FormatUint (lo_Oid lo) @
     ascii ('' TO '' @ quoted (Grantee item) @ (if Grantable item then '' WITH GRANT OPTION'' else '''') @ '';'' @ [CHR 0x0A])"

definition acl_stmts :: "LargeObject \<Rightarrow> ACL \<Rightarrow> byte list res" where
  "acl_stmts lo acl =
     (case acl_Items acl of
        [] \<Rightarrow> panic ''index out of range''
      | item0 # _ \<Rightarrow>
          Inr ((if Grantor item0 \<noteq> lo_Owner lo
                then ascii (''SET SESSION AUTHORIZATION '' @ quoted (Grantor item0) @ '';'' @ [CHR 0x0A]) else []) @
               concat (List.map (grant_stmt lo) (acl_Items acl)) @
               (if Grantor item0 \<noteq> lo_Owner lo then ascii (''RESET SESSION AUTHORIZATION;'' @ [CHR 0x0A]) else [])))"

definition AclDdl :: "LargeObject \<Rightarrow> Entry option res" where
  "AclDdl lo =
     (if length (lo_ACL lo) = 0 then Inr None
      else case lo_DefaultACL lo of
        None \<Rightarrow> panic ''nil pointer dereference''
      | Some d \<Rightarrow>
          let defaultAclIdx = index_func (\<lambda>acl. acl_Value acl = acl_Value d) (lo_ACL lo);
              revoke = (if defaultAclIdx = None
                        then ascii ''REVOKE ALL ON LARGE OBJECT '' @ FormatUint (lo_Oid lo) @
                             ascii ('' FROM '' @ quoted (lo_Owner lo) @ '';'' @ [CHR 0x0A]) else [])
          in bindR (mapR (\<lambda>idx. if defaultAclIdx = Some idx then Inr [] else acl_stmts lo (lo_ACL lo ! idx))
                     [0..<length (lo_ACL lo)])
             (\<lambda>stmts. Inr (Some (zero_entry
               \<lparr>DumpId := PermDumpId lo, Section := SectionNone,
                Tag := Some (ascii ''LARGE OBJECT '' @ FormatUint (lo_Oid lo)), Owner := Some (ascii (lo_Owner lo)),
                Desc := Some (ascii AclDesc), Defn := Some (revoke @ concat stmts),
                Dependencies := [CreateDumpId lo], NDeps := 1, FileName := Some []\<rparr>))))"

fun opt_list :: "'a option \<Rightarrow> 'a list" where
  "opt_list None = []"
| "opt_list (Some x) = [x]"

definition GetAllDDLs :: "Blobs \<Rightarrow> Entry list res" where
  "GetAllDDLs b =
     bindR (mapR (\<lambda>lo. bindR (AclDdl lo) (\<lambda>a. Inr (CreateDdl lo # opt_list (CommentDdl lo) @ opt_list a)))
       (LargeObjects b)) (\<lambda>es. Inr (concat es))"

end
