(* ===== verification/DumpMeta.thy ===== *)
theory DumpMeta
  imports DumpToc
begin

text \<open>
  The end of a dump: \<^verbatim>\<open>createTocEntries\<close>, \<^verbatim>\<open>setDumpDependenciesGraph\<close>, \<^verbatim>\<open>MergeTocEntries\<close> and the part of
  \<^verbatim>\<open>mergeAndWriteToc\<close> before the bytes are written (\<^verbatim>\<open>internal/db/postgres/cmd/dump.go\<close>), and the metadata
  \<^verbatim>\<open>NewMetadata\<close> builds from it (\<^verbatim>\<open>internal/db/postgres/storage\<close>). A Go map is the list of its entries.
\<close>

section \<open>Dependencies between dump ids\<close>

text \<open>
  One table of the sorted order: the dump object that has this oid, or whose partitioned parent has it, is entered
  into the graph with the dump ids of the tables it depends on, and appended to the order.
\<close>

type_synonym dump_graph = "(int32 \<times> int32 list) list"

definition dep_ids :: "DumpTable list \<Rightarrow> (32 word) list \<Rightarrow> (32 word) list \<Rightarrow> int32 list res" where
  "dep_ids tables sortedOids deps =
     mapR (\<lambda>depOid. case index_func (\<lambda>t. t_Oid t = depOid) tables of
             None \<Rightarrow> panic ''table not found''
           | Some i \<Rightarrow> Inr (dt_DumpId (tables ! i)))
       (filter (\<lambda>depOid. depOid \<in> set sortedOids) deps)"

definition set_dependencies ::
  "DumpTable list \<Rightarrow> (32 word) list \<Rightarrow> ((32 word) \<times> (32 word) list) list \<Rightarrow> 32 word \<Rightarrow>
     dump_graph \<times> int32 list \<Rightarrow> (dump_graph \<times> int32 list) res" where
  "set_dependencies tables sortedOids deps oid = (\<lambda>(g, sorted).
     case index_func (\<lambda>t. t_Oid t = oid \<or> dt_RootPtOid t = oid) tables of
       None \<Rightarrow> panic ''table not found''
     | Some i \<Rightarrow>
         bindR (dep_ids tables sortedOids (lookup_list oid deps)) (\<lambda>ids.
           Inr (AList.update (dt_DumpId (tables ! i)) ids g, sorted @ [dt_DumpId (tables ! i)])))"

definition setDumpDependenciesGraph ::
  "(32 word) list \<Rightarrow> ((32 word) \<times> (32 word) list) list \<Rightarrow> DumpTable list \<Rightarrow> (dump_graph \<times> int32 list) res" where
  "setDumpDependenciesGraph sortedOids deps tables =
     foldR (set_dependencies tables sortedOids deps) sortedOids ([], [])"

section \<open>Entries of the data section\<close>

record TocEntries =
  te_sequences :: "Entry list"
  te_largeObjects :: "Entry list"
  te_tables :: "Entry list"
  te_dumped :: "DumpTable list"
  tableOidToDumpId :: "((32 word) \<times> int32) list"
  dumpedObjectSizes :: "(int32 \<times> int64 \<times> int64) list"

definition no_entries :: TocEntries where
  "no_entries = \<lparr>te_sequences = [], te_largeObjects = [], te_tables = [], te_dumped = [], tableOidToDumpId = [],
     dumpedObjectSizes = []\<rparr>"

fun create_entry :: "bool \<Rightarrow> DumpObject \<Rightarrow> TocEntries \<Rightarrow> TocEntries res" where
  "create_entry noBlobs (TableObj t) s =
     bindR (Table_Entry t) (\<lambda>e. Inr (s
       \<lparr>tableOidToDumpId := AList.update (t_Oid t) (DumpId e) (tableOidToDumpId s),
        dumpedObjectSizes := AList.update (DumpId e) (dt_OriginalSize t, dt_CompressedSize t) (dumpedObjectSizes s),
        te_tables := te_tables s @ (if dt_RelKind t \<noteq> CHR ''p'' then [e] else []),
        te_dumped := te_dumped s @ [t]\<rparr>))"
| "create_entry noBlobs (SequenceObj q) s =
     bindR (Sequence_Entry q) (\<lambda>e. Inr (s\<lparr>te_sequences := te_sequences s @ [e]\<rparr>))"
| "create_entry noBlobs (BlobsObj b) s =
     bindR (Blobs_Entry b) (\<lambda>e.
       if noBlobs then Inr s
       else Inr (s
         \<lparr>dumpedObjectSizes := AList.update (DumpId e) (bl_OriginalSize b, bl_CompressedSize b) (dumpedObjectSizes s),
          te_largeObjects := te_largeObjects s @ [e]\<rparr>))"

record DumpedToc =
  dataEntries :: "Entry list"
  dumpDependenciesGraph :: dump_graph
  sortedTablesDumpIds :: "int32 list"
  oidToDumpId :: "((32 word) \<times> int32) list"
  objectSizes :: "(int32 \<times> int64 \<times> int64) list"

definition createTocEntries :: "Graph \<Rightarrow> bool \<Rightarrow> DumpObject list \<Rightarrow> DumpedToc res" where
  "createTocEntries g noBlobs objs =
     bindR (foldR (create_entry noBlobs) objs no_entries) (\<lambda>s.
     bindR (GetSortedTablesAndDependenciesGraph g) (\<lambda>(sortedOids, deps).
     bindR (setDumpDependenciesGraph sortedOids deps (te_dumped s)) (\<lambda>(dgraph, ids).
     Inr \<lparr>dataEntries = te_tables s @ te_sequences s @ te_largeObjects s, dumpDependenciesGraph = dgraph,
          sortedTablesDumpIds = ids, oidToDumpId = tableOidToDumpId s, objectSizes = dumpedObjectSizes s\<rparr>)))"

section \<open>Merging with the entries of the schema\<close>

text \<open>The loop that looks for the last pre-data entry and stops at the first post-data entry; -1 is \<open>None\<close>.\<close>

fun section_bounds :: "nat \<Rightarrow> nat option \<Rightarrow> Entry list \<Rightarrow> nat option \<times> nat option" where
  "section_bounds idx preDataEnd [] = (preDataEnd, None)"
| "section_bounds idx preDataEnd (item # items) =
     (let preDataEnd = (if Section item = SectionPreData then Some idx else preDataEnd)
      in if Section item = SectionPostData then (preDataEnd, Some idx)
         else section_bounds (Suc idx) preDataEnd items)"

definition MergeTocEntries :: "Blobs option \<Rightarrow> Entry list \<Rightarrow> Entry list \<Rightarrow> Entry list res" where
  "MergeTocEntries bl schemaEntries dataEs =
     (if length dataEs = 0 then Inr schemaEntries
      else
        let (preDataEnd, postDataStart) = section_bounds 0 None schemaEntries
        in bindR (case preDataEnd of None \<Rightarrow> Inr [] | Some i \<Rightarrow> slice schemaEntries 0 (i + 1)) (\<lambda>pre.
           bindR (case bl of None \<Rightarrow> Inr [] | Some b \<Rightarrow> GetAllDDLs b) (\<lambda>ddl.
           bindR (case postDataStart of None \<Rightarrow> Inr [] | Some i \<Rightarrow> slice schemaEntries i (length schemaEntries)) (\<lambda>post.
           Inr (pre @ ddl @ dataEs @ post)))))"

text \<open>The table of contents of the dump: the header of the schema's with the new number of entries.\<close>

definition mergeToc :: "Blobs option \<Rightarrow> Toc \<Rightarrow> Entry list \<Rightarrow> Toc res" where
  "mergeToc bl schemaToc dataEs =
     (case (TocHeader schemaToc, Entries schemaToc) of
        (None, _) \<Rightarrow> panic ''nil pointer dereference''
      | (Some h, es) \<Rightarrow>
          bindR (MergeTocEntries bl (case es of None \<Rightarrow> [] | Some l \<Rightarrow> l) dataEs) (\<lambda>merged.
            Inr \<lparr>TocHeader = Some (h\<lparr>TocCount := word_of_nat (length merged)\<rparr>), Entries = Some merged\<rparr>))"

section \<open>Metadata\<close>

text \<open>Times, description, transformers, cycles and the copied header fields of the metadata are left out.\<close>

record MetaEntry =
  me_DumpId :: int32
  me_DatabaseOid :: int32
  me_ObjectOid :: int32
  me_ObjectType :: "byte list"
  me_Schema :: "byte list"
  me_Name :: "byte list"
  me_Owner :: "byte list"
  me_Section :: string
  me_OriginalSize :: int64
  me_CompressedSize :: int64
  me_FileName :: "byte list"
  me_Dependencies :: "int32 list"

record Metadata =
  md_OriginalSize :: int64
  md_CompressedSize :: int64
  md_Entries :: "MetaEntry list"
  md_DatabaseSchema :: "Table list"
  DependenciesGraph :: dump_graph
  DumpIdsOrder :: "int32 list"
  DumpIdsToTableOid :: "(int32 \<times> 32 word) list"

definition str_or_empty :: "gostr \<Rightarrow> byte list" where
  "str_or_empty s = (case s of None \<Rightarrow> [] | Some v \<Rightarrow> v)"

definition SectionMap :: "int32 \<Rightarrow> string" where
  "SectionMap s =
     (if s = SectionNone then ''None'' else if s = SectionPreData then ''PreData''
      else if s = SectionData then ''Data'' else if s = SectionPostData then ''PostData'' else '''')"

definition entry_sizes :: "(int32 \<times> int64 \<times> int64) list \<Rightarrow> Entry \<Rightarrow> (int64 \<times> int64) res" where
  "entry_sizes stats e =
     (if Section e = SectionData
      then (case Desc e of
              None \<Rightarrow> panic ''nil pointer dereference''
            | Some d \<Rightarrow> Inr (if d = ascii TableDataDesc
                              then (case map_of stats (DumpId e) of None \<Rightarrow> (0, 0) | Some s \<Rightarrow> s) else (0, 0)))
      else Inr (0, 0))"

definition meta_entry :: "Entry \<Rightarrow> int64 \<times> int64 \<Rightarrow> MetaEntry" where
  "meta_entry e sizes =
     \<lparr>me_DumpId = DumpId e, me_DatabaseOid = CatOid (EntryCatalogId e), me_ObjectOid = TableOid (EntryCatalogId e),
      me_ObjectType = str_or_empty (Desc e), me_Schema = str_or_empty (Namespace e), me_Name = str_or_empty (Tag e),
      me_Owner = str_or_empty (Owner e), me_Section = SectionMap (Section e), me_OriginalSize = fst sizes,
      me_CompressedSize = snd sizes, me_FileName = str_or_empty (FileName e), me_Dependencies = Dependencies e\<rparr>"

definition add_meta_entry ::
  "(int32 \<times> int64 \<times> int64) list \<Rightarrow> Entry \<Rightarrow> MetaEntry list \<times> int64 \<times> int64 \<Rightarrow>
     (MetaEntry list \<times> int64 \<times> int64) res" where
  "add_meta_entry stats e = (\<lambda>(es, total, totalCompressed).
     bindR (entry_sizes stats e) (\<lambda>sizes.
       Inr (es @ [meta_entry e sizes], total + fst sizes, totalCompressed + snd sizes)))"

text \<open>The archive formats of \<^verbatim>\<open>toc\<close>: unknown, custom, tar, null and directory are 0, 1, 3, 4 and 5.\<close>

definition known_format :: "byte \<Rightarrow> bool" where
  "known_format f \<longleftrightarrow> f \<in> {0, 1, 3, 4, 5}"

definition NewMetadata ::
  "Toc \<Rightarrow> int64 \<Rightarrow> (int32 \<times> int64 \<times> int64) list \<Rightarrow> Table list \<Rightarrow> dump_graph \<Rightarrow> int32 list \<Rightarrow>
     ((32 word) \<times> int32) list \<Rightarrow> Metadata res" where
  "NewMetadata t tocFileSize stats databaseSchema dependenciesGraph dumpIdsOrder oidToId =
     (case TocHeader t of
        None \<Rightarrow> panic ''nil pointer dereference''
      | Some h \<Rightarrow>
          if \<not> known_format (Format h) then err ''unknown archive type''
          else bindR (foldR (add_meta_entry stats) (case Entries t of None \<Rightarrow> [] | Some l \<Rightarrow> l) ([], 0, 0))
            (\<lambda>(es, total, totalCompressed).
              if ArchDbName h = None \<or> ArchiveDumpVersion h = None \<or> ArchiveRemoteVersion h = None
              then panic ''nil pointer dereference''
              else Inr
                \<lparr>md_OriginalSize = total + tocFileSize, md_CompressedSize = totalCompressed + tocFileSize,
                 md_Entries = es, md_DatabaseSchema = databaseSchema, DependenciesGraph = dependenciesGraph,
                 DumpIdsOrder = dumpIdsOrder,
                 DumpIdsToTableOid = fold (\<lambda>(oid, i). AList.update i oid) oidToId []\<rparr>))"

end
