(* ===== verification/Restore.thy ===== *)
theory Restore
  imports DumpMeta
begin

text \<open>
  What a restore decides before it runs anything, \<^verbatim>\<open>internal/db/postgres/cmd/restore.go\<close>: which entries are restored,
  in which order, as which task, and the two tables of contents of a clean-up. Strings are bytes.
\<close>

text \<open>The options the decisions below read; the others only reach \<^verbatim>\<open>pg_restore\<close> or the connection.\<close>

record RestoreOptions =
  ro_Schema :: "byte list list"
  ro_ExcludeSchema :: "byte list list"
  ro_Table :: "byte list list"
  RestoreInOrder :: bool
  NoBlobs :: bool
  NoPrivileges :: bool
  Inserts :: bool
  OnConflictDoNothing :: bool
  Jobs :: nat
  SchemaOnly :: bool
  DataOnly :: bool
  ro_Section :: string
  Clean :: bool
  Create :: bool

section \<open>Filters\<close>

definition bquote :: byte where "bquote = 0x22"

definition removeEscapeQuotes :: "byte list \<Rightarrow> byte list res" where
  "removeEscapeQuotes v =
     (if v = [] then panic ''index out of range''
      else
        let v1 = (if hd v = bquote then tl v else v)
        in if v1 = [] then panic ''index out of range''
           else Inr (if last v1 = bquote then butlast v1 else v1))"

definition deref :: "'a option \<Rightarrow> 'a res" where
  "deref p = (case p of None \<Rightarrow> panic ''nil pointer dereference'' | Some x \<Rightarrow> Inr x)"

text \<open>\<^verbatim>\<open>len(filter) > 0 && slices.Contains(filter, removeEscapeQuotes(*p))\<close>, with the given answer.\<close>

definition filter_hit :: "byte list list \<Rightarrow> gostr \<Rightarrow> (bool \<Rightarrow> bool) \<Rightarrow> bool res" where
  "filter_hit names p f =
     (if length names > 0
      then bindR (deref p) (\<lambda>s. bindR (removeEscapeQuotes s) (\<lambda>n. Inr (f (n \<in> set names))))
      else Inr False)"

definition isNeedRestore :: "RestoreOptions \<Rightarrow> Entry \<Rightarrow> bool res" where
  "isNeedRestore opts e =
     bindR (deref (Desc e)) (\<lambda>desc.
     if desc = ascii TableDataDesc \<or> desc = ascii SequenceSetDesc then
       bindR (filter_hit (ro_ExcludeSchema opts) (Namespace e) (\<lambda>b. b)) (\<lambda>excluded.
       if excluded then Inr False
       else bindR (filter_hit (ro_Schema opts) (Namespace e) Not) (\<lambda>other.
       if other then Inr False
       else bindR (filter_hit (ro_Table opts) (Tag e) Not) (\<lambda>otherTable.
       Inr (\<not> otherTable))))
     else Inr True)"

text \<open>The names of the options lose their quotes before the sections run (\<^verbatim>\<open>preFlightRestore\<close>).\<close>

definition preFlightOptions :: "RestoreOptions \<Rightarrow> RestoreOptions res" where
  "preFlightOptions opts =
     bindR (mapR removeEscapeQuotes (ro_Schema opts)) (\<lambda>schemas.
     bindR (mapR removeEscapeQuotes (ro_Table opts)) (\<lambda>tables.
     bindR (mapR removeEscapeQuotes (ro_ExcludeSchema opts)) (\<lambda>excluded.
     Inr (opts\<lparr>ro_Schema := schemas, ro_Table := tables, ro_ExcludeSchema := excluded\<rparr>))))"

section \<open>Use-list\<close>

text \<open>The dump ids of a structured list; 0 is refused.\<close>

fun list_dump_ids :: "int32 list \<Rightarrow> int32 list res" where
  "list_dump_ids [] = Inr []"
| "list_dump_ids (i # is) =
     (if i = 0 then err ''broken list file dumpId'' else bindR (list_dump_ids is) (\<lambda>r. Inr (i # r)))"

definition sortAndFilterEntriesByRestoreList :: "int32 list \<Rightarrow> Entry list \<Rightarrow> Entry list res" where
  "sortAndFilterEntriesByRestoreList ids es =
     mapR (\<lambda>i. case index_func (\<lambda>e. DumpId e = i) es of
             None \<Rightarrow> err ''entry from provided list is not found''
           | Some k \<Rightarrow> Inr (es ! k)) ids"

section \<open>Order of the data section\<close>

definition getDataSectionTocEntries :: "Entry list \<Rightarrow> Entry list" where
  "getDataSectionTocEntries es = filter (\<lambda>e. Section e = SectionData) es"

text \<open>The tables in the order of the metadata. A dump id without an entry must at least be a known table.\<close>

fun sorted_tables :: "Metadata \<Rightarrow> Entry list \<Rightarrow> int32 list \<Rightarrow> Entry list res" where
  "sorted_tables m es [] = Inr []"
| "sorted_tables m es (dumpId # ids) =
     (case index_func (\<lambda>e. DumpId e = dumpId) es of
        Some i \<Rightarrow> bindR (sorted_tables m es ids) (\<lambda>r. Inr (es ! i # r))
      | None \<Rightarrow>
          (case map_of (DumpIdsToTableOid m) dumpId of
             None \<Rightarrow> panic ''table is not found in dumpId to Oids map''
           | Some oid \<Rightarrow>
               if index_func (\<lambda>t. t_Oid t = oid) (md_DatabaseSchema m) = None
               then panic ''table is not found in DatabaseSchema''
               else sorted_tables m es ids))"

text \<open>Entries that satisfy a condition are appended once per dump id that is not there yet.\<close>

fun append_unseen :: "(Entry \<Rightarrow> bool) \<Rightarrow> Entry list \<Rightarrow> Entry list \<Rightarrow> Entry list" where
  "append_unseen p [] acc = acc"
| "append_unseen p (e # es) acc =
     append_unseen p es (if p e \<and> DumpId e \<notin> DumpId ` set acc then acc @ [e] else acc)"

definition is_acl :: "Entry \<Rightarrow> bool" where
  "is_acl e \<longleftrightarrow> Section e = SectionNone \<and> Desc e = Some (ascii AclDesc)"

definition is_other_data :: "Entry \<Rightarrow> bool" where
  "is_other_data e \<longleftrightarrow> Desc e \<noteq> None \<and> Desc e \<noteq> Some (ascii TableDataDesc)"

definition sortTocEntriesInTopoOrder :: "Metadata \<Rightarrow> Entry list \<Rightarrow> Entry list option \<Rightarrow> Entry list res" where
  "sortTocEntriesInTopoOrder m es tocEntries =
     bindR (sorted_tables m es (DumpIdsOrder m)) (\<lambda>sorted.
       let withData = append_unseen is_other_data es sorted
       in Inr (case tocEntries of None \<Rightarrow> withData | Some all \<Rightarrow> append_unseen is_acl all withData))"

section \<open>Tasks\<close>

datatype restorationTask =
    TableRestorer Entry
  | TableRestorerInsertFormat Entry Table
  | SequenceRestorer Entry
  | BlobsRestorer Entry
  | AclRestorer Entry

fun GetEntry :: "restorationTask \<Rightarrow> Entry" where
  "GetEntry (TableRestorer e) = e"
| "GetEntry (TableRestorerInsertFormat e t) = e"
| "GetEntry (SequenceRestorer e) = e"
| "GetEntry (BlobsRestorer e) = e"
| "GetEntry (AclRestorer e) = e"

definition getTableDefinitionFromMeta :: "Metadata \<Rightarrow> int32 \<Rightarrow> Table res" where
  "getTableDefinitionFromMeta m dumpId =
     (case map_of (DumpIdsToTableOid m) dumpId of
        None \<Rightarrow> err ''table definition is empty''
      | Some oid \<Rightarrow>
          (case index_func (\<lambda>t. t_Oid t = oid) (md_DatabaseSchema m) of
             None \<Rightarrow> panic ''table is not found in metadata''
           | Some i \<Rightarrow> Inr (md_DatabaseSchema m ! i)))"

text \<open>The task of an entry; \<open>None\<close> when the entry is skipped or has no task.\<close>

definition taskOf :: "RestoreOptions \<Rightarrow> Metadata \<Rightarrow> Entry \<Rightarrow> restorationTask option res" where
  "taskOf opts m e =
     (case Desc e of
        None \<Rightarrow> Inr None
      | Some desc \<Rightarrow>
          if desc = ascii TableDataDesc then
            (if Inserts opts \<or> OnConflictDoNothing opts
             then bindR (getTableDefinitionFromMeta m (DumpId e)) (\<lambda>t. Inr (Some (TableRestorerInsertFormat e t)))
             else Inr (Some (TableRestorer e)))
          else if desc = ascii SequenceSetDesc then Inr (Some (SequenceRestorer e))
          else if desc = ascii BlobsDesc then Inr (if NoBlobs opts then None else Some (BlobsRestorer e))
          else if desc = ascii AclDesc then Inr (if NoPrivileges opts then None else Some (AclRestorer e))
          else Inr None)"

definition waits :: "RestoreOptions \<Rightarrow> bool" where
  "waits opts \<longleftrightarrow> RestoreInOrder opts \<and> Jobs opts > 1"

definition dependencies_of_id :: "Metadata \<Rightarrow> int32 \<Rightarrow> int32 list" where
  "dependencies_of_id m i = lookup_list i (DependenciesGraph m)"

text \<open>The entries the pusher goes through.\<close>

definition pusherEntries :: "RestoreOptions \<Rightarrow> Metadata \<Rightarrow> Entry list \<Rightarrow> Entry list res" where
  "pusherEntries opts m tocEntries =
     (let es = getDataSectionTocEntries tocEntries
      in if RestoreInOrder opts then sortTocEntriesInTopoOrder m es (Some tocEntries) else Inr es)"

section \<open>Sections and the clean-up tables of contents\<close>

definition runsPreData :: "RestoreOptions \<Rightarrow> bool" where
  "runsPreData opts \<longleftrightarrow> \<not> (DataOnly opts \<or> (ro_Section opts \<noteq> '''' \<and> ro_Section opts \<noteq> ''pre-data''))"

definition runsData :: "RestoreOptions \<Rightarrow> bool" where
  "runsData opts \<longleftrightarrow> \<not> (SchemaOnly opts \<or> (ro_Section opts \<noteq> '''' \<and> ro_Section opts \<noteq> ''data''))"

definition runsPostData :: "RestoreOptions \<Rightarrow> bool" where
  "runsPostData opts \<longleftrightarrow> \<not> (DataOnly opts \<or> (ro_Section opts \<noteq> '''' \<and> ro_Section opts \<noteq> ''post-data''))"

definition neutral_stmt :: "byte list" where "neutral_stmt = ascii '';''"

definition cleanupPre :: "Entry \<Rightarrow> Entry" where
  "cleanupPre e = (if Section e = SectionPostData \<and> Defn e \<noteq> None then e\<lparr>Defn := Some neutral_stmt\<rparr> else e)"

definition cleanupPost :: "Entry \<Rightarrow> Entry" where
  "cleanupPost e = (if Section e = SectionPostData \<and> DropStmt e \<noteq> None then e\<lparr>DropStmt := Some neutral_stmt\<rparr> else e)"

definition prepareCleanupToc :: "Entry list \<Rightarrow> Entry list \<times> Entry list" where
  "prepareCleanupToc es = (List.map cleanupPre es, List.map cleanupPost es)"

end
