(* ===== verification/RestoreRun.thy ===== *)
theory RestoreRun
  imports Restore
begin

text \<open>
  The data section of a restore as it runs, \<^verbatim>\<open>dataRestore\<close> of \<^verbatim>\<open>internal/db/postgres/cmd/restore.go\<close>: the goroutine
  that pushes tasks, the channel, the workers and the set of restored dump ids they share. One rule is one step of one
  goroutine. Parameters are what the code calls: \<open>conn w\<close> says whether worker \<open>w\<close> gets its connection and \<open>ok t\<close>
  whether \<^verbatim>\<open>Execute\<close> of the task succeeds. A call may also fail once the context is cancelled.

  A poll of \<^verbatim>\<open>waitDependenciesAreRestore\<close> that finds a dependency missing sleeps and changes nothing: it is no step,
  so a state that has no step but the pusher still waits is one in which the code polls for ever.
\<close>

datatype pusher = PNext | PWait Entry | PTask Entry | PSend restorationTask | PDone | PFail fault

datatype restorer = WStart | WIdle | WRun restorationTask | WExit | WFail

record rstate =
  rs_todo :: "Entry list"
  rs_pusher :: pusher
  rs_chan :: "restorationTask list"
  rs_closed :: bool
  rs_workers :: "restorer list"
  restoredDumpIds :: "int32 set"
  rs_cancelled :: bool

definition task_id :: "restorationTask \<Rightarrow> int32" where
  "task_id t = DumpId (GetEntry t)"

definition ctxCanceled :: fault where
  "ctxCanceled = Err ''context canceled''"

definition dependenciesAreRestored :: "int32 list \<Rightarrow> int32 set \<Rightarrow> bool" where
  "dependenciesAreRestored deps restored \<longleftrightarrow> list_all (\<lambda>i. i \<in> restored) deps"

text \<open>An unrecovered panic of a goroutine ends the process.\<close>

definition crashed :: "rstate \<Rightarrow> bool" where
  "crashed s \<longleftrightarrow> (case rs_pusher s of PFail f \<Rightarrow> isPanic (Inl f :: unit res) | _ \<Rightarrow> False)"

definition push_fails :: "fault \<Rightarrow> rstate \<Rightarrow> rstate" where
  "push_fails f s = s\<lparr>rs_pusher := PFail f, rs_closed := True, rs_cancelled := True\<rparr>"

definition set_worker :: "nat \<Rightarrow> restorer \<Rightarrow> rstate \<Rightarrow> rstate" where
  "set_worker w p s = s\<lparr>rs_workers := (rs_workers s)[w := p]\<rparr>"

definition worker_fails :: "nat \<Rightarrow> rstate \<Rightarrow> rstate" where
  "worker_fails w s = (set_worker w WFail s)\<lparr>rs_cancelled := True\<rparr>"

inductive push_step :: "RestoreOptions \<Rightarrow> Metadata \<Rightarrow> rstate \<Rightarrow> rstate \<Rightarrow> bool"
  for opts :: RestoreOptions and m :: Metadata where
  p_end: "rs_pusher s = PNext \<Longrightarrow> rs_todo s = []
     \<Longrightarrow> push_step opts m s (s\<lparr>rs_pusher := PDone, rs_closed := True\<rparr>)"
| p_cancel: "rs_pusher s = PNext \<Longrightarrow> rs_todo s = e # es \<Longrightarrow> rs_cancelled s
     \<Longrightarrow> push_step opts m s (push_fails ctxCanceled s)"
| p_skip: "rs_pusher s = PNext \<Longrightarrow> rs_todo s = e # es \<Longrightarrow> \<not> rs_cancelled s \<Longrightarrow> isNeedRestore opts e = Inr False
     \<Longrightarrow> push_step opts m s (s\<lparr>rs_todo := es\<rparr>)"
| p_take: "rs_pusher s = PNext \<Longrightarrow> rs_todo s = e # es \<Longrightarrow> \<not> rs_cancelled s \<Longrightarrow> isNeedRestore opts e = Inr True
     \<Longrightarrow> push_step opts m s (s\<lparr>rs_todo := es, rs_pusher := if waits opts then PWait e else PTask e\<rparr>)"
| p_panic: "rs_pusher s = PNext \<Longrightarrow> rs_todo s = e # es \<Longrightarrow> \<not> rs_cancelled s \<Longrightarrow> isNeedRestore opts e = Inl f
     \<Longrightarrow> push_step opts m s (push_fails f s)"
| p_wait_cancel: "rs_pusher s = PWait e \<Longrightarrow> rs_cancelled s \<Longrightarrow> push_step opts m s (push_fails ctxCanceled s)"
| p_wait_ok: "rs_pusher s = PWait e \<Longrightarrow> \<not> rs_cancelled s
     \<Longrightarrow> dependenciesAreRestored (dependencies_of_id m (DumpId e)) (restoredDumpIds s)
     \<Longrightarrow> push_step opts m s (s\<lparr>rs_pusher := PTask e\<rparr>)"
| p_no_task: "rs_pusher s = PTask e \<Longrightarrow> taskOf opts m e = Inr None
     \<Longrightarrow> push_step opts m s (s\<lparr>rs_pusher := PNext\<rparr>)"
| p_task: "rs_pusher s = PTask e \<Longrightarrow> taskOf opts m e = Inr (Some t)
     \<Longrightarrow> push_step opts m s (s\<lparr>rs_pusher := PSend t\<rparr>)"
| p_task_fails: "rs_pusher s = PTask e \<Longrightarrow> taskOf opts m e = Inl f
     \<Longrightarrow> push_step opts m s (push_fails f s)"
| p_send: "rs_pusher s = PSend t \<Longrightarrow> length (rs_chan s) < Jobs opts
     \<Longrightarrow> push_step opts m s (s\<lparr>rs_pusher := PNext, rs_chan := rs_chan s @ [t]\<rparr>)"
| p_send_cancel: "rs_pusher s = PSend t \<Longrightarrow> rs_cancelled s \<Longrightarrow> push_step opts m s (push_fails ctxCanceled s)"

inductive work_step :: "(nat \<Rightarrow> bool) \<Rightarrow> (restorationTask \<Rightarrow> bool) \<Rightarrow> nat \<Rightarrow> rstate \<Rightarrow> rstate \<Rightarrow> bool"
  for conn :: "nat \<Rightarrow> bool" and ok :: "restorationTask \<Rightarrow> bool" and w :: nat where
  w_connect: "rs_workers s ! w = WStart \<Longrightarrow> conn w \<Longrightarrow> work_step conn ok w s (set_worker w WIdle s)"
| w_connect_fails: "rs_workers s ! w = WStart \<Longrightarrow> \<not> conn w \<or> rs_cancelled s
     \<Longrightarrow> work_step conn ok w s (worker_fails w s)"
| w_receive: "rs_workers s ! w = WIdle \<Longrightarrow> rs_chan s = t # ts
     \<Longrightarrow> work_step conn ok w s ((set_worker w (WRun t) s)\<lparr>rs_chan := ts\<rparr>)"
| w_exit: "rs_workers s ! w = WIdle \<Longrightarrow> rs_chan s = [] \<Longrightarrow> rs_closed s
     \<Longrightarrow> work_step conn ok w s (set_worker w WExit s)"
| w_cancel: "rs_workers s ! w = WIdle \<Longrightarrow> rs_cancelled s \<Longrightarrow> work_step conn ok w s (worker_fails w s)"
| w_done: "rs_workers s ! w = WRun t \<Longrightarrow> ok t
     \<Longrightarrow> work_step conn ok w s ((set_worker w WIdle s)\<lparr>restoredDumpIds := insert (task_id t) (restoredDumpIds s)\<rparr>)"
| w_task_fails: "rs_workers s ! w = WRun t \<Longrightarrow> \<not> ok t \<or> rs_cancelled s
     \<Longrightarrow> work_step conn ok w s (worker_fails w s)"

inductive rstep ::
    "RestoreOptions \<Rightarrow> Metadata \<Rightarrow> (nat \<Rightarrow> bool) \<Rightarrow> (restorationTask \<Rightarrow> bool) \<Rightarrow> rstate \<Rightarrow> rstate \<Rightarrow> bool"
  for opts :: RestoreOptions and m :: Metadata and conn :: "nat \<Rightarrow> bool" and ok :: "restorationTask \<Rightarrow> bool" where
  r_push: "\<not> crashed s \<Longrightarrow> push_step opts m s s' \<Longrightarrow> rstep opts m conn ok s s'"
| r_work: "\<not> crashed s \<Longrightarrow> w < length (rs_workers s) \<Longrightarrow> work_step conn ok w s s' \<Longrightarrow> rstep opts m conn ok s s'"

definition startRestore :: "RestoreOptions \<Rightarrow> Entry list \<Rightarrow> rstate" where
  "startRestore opts es =
     \<lparr>rs_todo = es, rs_pusher = PNext, rs_chan = [], rs_closed = False, rs_workers = replicate (Jobs opts) WStart,
      restoredDumpIds = {}, rs_cancelled = False\<rparr>"

abbreviation rsteps where
  "rsteps opts m conn ok \<equiv> (rstep opts m conn ok)\<^sup>*\<^sup>*"

text \<open>\<^verbatim>\<open>eg.Wait\<close> returns without an error: the pusher is done and every worker has left its loop.\<close>

definition restoreSucceeded :: "rstate \<Rightarrow> bool" where
  "restoreSucceeded s \<longleftrightarrow> rs_pusher s = PDone \<and> (\<forall>p \<in> set (rs_workers s). p = WExit)"

text \<open>\<^verbatim>\<open>eg.Wait\<close> returns: every goroutine has ended.\<close>

definition restoreReturned :: "rstate \<Rightarrow> bool" where
  "restoreReturned s \<longleftrightarrow> (rs_pusher s = PDone \<or> (\<exists>f. rs_pusher s = PFail f))
     \<and> (\<forall>p \<in> set (rs_workers s). p = WExit \<or> p = WFail)"

text \<open>The tasks that have been pushed: in the channel, with a worker, or finished.\<close>

definition running :: "rstate \<Rightarrow> restorationTask set" where
  "running s = {t. WRun t \<in> set (rs_workers s)}"

end
