(* ===== verification/RestoreRunProps.thy ===== *)
theory RestoreRunProps
  imports RestoreRun
begin

text \<open>
  The data section of a restore: it never runs a task before what the task depends on is restored, every run is finite,
  and it ends with everything restored exactly when no dependency is left out.
\<close>

section \<open>Tasks and entries\<close>

lemma taskOf_entry: "taskOf opts m e = Inr (Some t) \<Longrightarrow> GetEntry t = e"
  by (auto simp: taskOf_def bindR_eq_Inr split: option.splits if_splits)

text \<open>The entries the pusher sends, and their dump ids.\<close>

definition pushed :: "RestoreOptions \<Rightarrow> Metadata \<Rightarrow> Entry \<Rightarrow> bool" where
  "pushed opts m e \<longleftrightarrow> isNeedRestore opts e = Inr True \<and> (\<exists>t. taskOf opts m e = Inr (Some t))"

definition pushedIds :: "RestoreOptions \<Rightarrow> Metadata \<Rightarrow> Entry list \<Rightarrow> int32 set" where
  "pushedIds opts m es = DumpId ` {e \<in> set es. pushed opts m e}"

lemma pushedIds_simps [simp]:
  "pushedIds opts m [] = {}"
  "pushedIds opts m (xs @ ys) = pushedIds opts m xs \<union> pushedIds opts m ys"
  "pushedIds opts m [e] = (if pushed opts m e then {DumpId e} else {})"
  by (auto simp: pushedIds_def)

text \<open>Neither deciding about an entry nor making its task fails.\<close>

definition faultless :: "RestoreOptions \<Rightarrow> Metadata \<Rightarrow> Entry \<Rightarrow> bool" where
  "faultless opts m e \<longleftrightarrow>
     (\<exists>b. isNeedRestore opts e = Inr b) \<and> (isNeedRestore opts e = Inr True \<longrightarrow> (\<exists>t. taskOf opts m e = Inr t))"

definition deps_in :: "Metadata \<Rightarrow> int32 \<Rightarrow> int32 set \<Rightarrow> bool" where
  "deps_in m i R \<longleftrightarrow> (\<forall>d \<in> set (dependencies_of_id m i). d \<in> R)"

lemma deps_in_mono: "deps_in m i R \<Longrightarrow> R \<subseteq> R' \<Longrightarrow> deps_in m i R'"
  by (auto simp: deps_in_def)

lemma dependenciesAreRestored_iff: "dependenciesAreRestored (dependencies_of_id m i) R \<longleftrightarrow> deps_in m i R"
  by (simp add: dependenciesAreRestored_def deps_in_def list_all_iff)

section \<open>Every run is finite\<close>

fun push_weight :: "pusher \<Rightarrow> nat" where
  "push_weight PNext = 1"
| "push_weight (PWait e) = 6"
| "push_weight (PTask e) = 5"
| "push_weight (PSend t) = 4"
| "push_weight PDone = 0"
| "push_weight (PFail f) = 0"

fun work_weight :: "restorer \<Rightarrow> nat" where
  "work_weight WStart = 2"
| "work_weight WIdle = 1"
| "work_weight (WRun t) = 2"
| "work_weight WExit = 0"
| "work_weight WFail = 0"

definition weight :: "rstate \<Rightarrow> nat" where
  "weight s = 7 * length (rs_todo s) + push_weight (rs_pusher s) + 2 * length (rs_chan s)
     + sum_list (map work_weight (rs_workers s))"

lemma push_step_weight: "push_step opts m s s' \<Longrightarrow> weight s' < weight s"
  by (induction rule: push_step.induct) (auto simp: weight_def push_fails_def)

lemma workers_weight:
  assumes "w < length ws" and "work_weight p + k = work_weight (ws ! w)"
  shows "sum_list (map work_weight (ws[w := p])) + k = sum_list (map work_weight ws)"
proof -
  have "sum_list (map work_weight ws) \<ge> work_weight (ws ! w)"
    using assms(1) by (intro member_le_sum_list) auto
  with assms show ?thesis by (simp add: map_update sum_list_update)
qed

lemma workers_weight_run:
  assumes "w < length ws" and "ws ! w = WIdle"
  shows "sum_list (map work_weight (ws[w := WRun t])) = sum_list (map work_weight ws) + 1"
proof -
  have "sum_list (map work_weight ws) \<ge> work_weight (ws ! w)"
    using assms(1) by (intro member_le_sum_list) auto
  with assms show ?thesis by (simp add: map_update sum_list_update)
qed

lemma work_step_weight:
  "work_step conn ok w s s' \<Longrightarrow> w < length (rs_workers s) \<Longrightarrow> weight s' < weight s"
proof (induction rule: work_step.induct)
  case (w_connect s)
  then show ?case using workers_weight [of w "rs_workers s" WIdle 1] by (simp add: weight_def set_worker_def)
next
  case (w_connect_fails s)
  then show ?case
    using workers_weight [of w "rs_workers s" WFail 2] by (simp add: weight_def set_worker_def worker_fails_def)
next
  case (w_receive s t ts)
  then show ?case using workers_weight_run [of w "rs_workers s" t] by (simp add: weight_def set_worker_def)
next
  case (w_exit s)
  then show ?case using workers_weight [of w "rs_workers s" WExit 1] by (simp add: weight_def set_worker_def)
next
  case (w_cancel s)
  then show ?case
    using workers_weight [of w "rs_workers s" WFail 1] by (simp add: weight_def set_worker_def worker_fails_def)
next
  case (w_done s t)
  then show ?case using workers_weight [of w "rs_workers s" WIdle 1] by (simp add: weight_def set_worker_def)
next
  case (w_task_fails s t)
  then show ?case
    using workers_weight [of w "rs_workers s" WFail 2] by (simp add: weight_def set_worker_def worker_fails_def)
qed

lemma rstep_weight: "rstep opts m conn ok s s' \<Longrightarrow> weight s' < weight s"
  by (induction rule: rstep.induct) (auto intro: push_step_weight work_step_weight)

lemma weight_startRestore [simp]: "weight (startRestore opts es) = 7 * length es + 1 + 2 * Jobs opts"
  by (simp add: weight_def startRestore_def sum_list_replicate)

lemma restore_bounded: "(rstep opts m conn ok ^^ k) s s' \<Longrightarrow> k + weight s' \<le> weight s"
proof (induction k arbitrary: s')
  case (Suc k)
  then obtain t where "(rstep opts m conn ok ^^ k) s t" "rstep opts m conn ok t s'" by auto
  then show ?case using Suc.IH [of t] rstep_weight [of opts m conn ok t s'] by simp
qed simp

section \<open>What has been taken is done, pushed or in hand\<close>

fun in_hand :: "pusher \<Rightarrow> Entry list" where
  "in_hand (PWait e) = [e]"
| "in_hand (PTask e) = [e]"
| "in_hand (PSend t) = [GetEntry t]"
| "in_hand _ = []"

definition out_ids :: "rstate \<Rightarrow> int32 set" where
  "out_ids s = restoredDumpIds s \<union> task_id ` set (rs_chan s) \<union> task_id ` running s"

text \<open>\<open>passed opts m s e\<close>: the pusher has waited for the entry.\<close>

definition passed :: "RestoreOptions \<Rightarrow> Metadata \<Rightarrow> rstate \<Rightarrow> Entry \<Rightarrow> bool" where
  "passed opts m s e \<longleftrightarrow>
     (waits opts \<and> isNeedRestore opts e = Inr True \<longrightarrow> deps_in m (DumpId e) (restoredDumpIds s))"

definition rest_inv :: "RestoreOptions \<Rightarrow> Metadata \<Rightarrow> Entry list \<Rightarrow> Entry list \<Rightarrow> rstate \<Rightarrow> bool" where
  "rest_inv opts m es gone s \<longleftrightarrow>
     (\<exists>rest. es = gone @ rest) \<and>
     ((\<exists>f. rs_pusher s = PFail f) \<or> es = gone @ in_hand (rs_pusher s) @ rs_todo s) \<and>
     (\<forall>t \<in> set (rs_chan s) \<union> running s. GetEntry t \<in> set gone \<and> pushed opts m (GetEntry t)) \<and>
     restoredDumpIds s \<subseteq> pushedIds opts m gone \<and>
     (\<forall>e \<in> set gone. passed opts m s e) \<and>
     (\<forall>e. rs_pusher s = PWait e \<or> rs_pusher s = PTask e \<longrightarrow> isNeedRestore opts e = Inr True) \<and>
     (\<forall>e. rs_pusher s = PWait e \<longrightarrow> waits opts) \<and>
     (\<forall>e. rs_pusher s = PTask e \<longrightarrow> passed opts m s e) \<and>
     (\<forall>t. rs_pusher s = PSend t \<longrightarrow> passed opts m s (GetEntry t) \<and> pushed opts m (GetEntry t)) \<and>
     (rs_pusher s = PDone \<longrightarrow> rs_todo s = [])"

lemma rest_invE:
  assumes "rest_inv opts m es gone s"
  shows "\<exists>rest. es = gone @ rest"
    "(\<exists>f. rs_pusher s = PFail f) \<or> es = gone @ in_hand (rs_pusher s) @ rs_todo s"
    "t \<in> set (rs_chan s) \<Longrightarrow> GetEntry t \<in> set gone \<and> pushed opts m (GetEntry t)"
    "t \<in> running s \<Longrightarrow> GetEntry t \<in> set gone \<and> pushed opts m (GetEntry t)"
    "restoredDumpIds s \<subseteq> pushedIds opts m gone"
    "e \<in> set gone \<Longrightarrow> passed opts m s e"
  using assms unfolding rest_inv_def by blast+

lemma rest_inv_start: "rest_inv opts m es [] (startRestore opts es)"
  by (simp add: rest_inv_def startRestore_def running_def)

text \<open>A step of the pusher leaves the workers and what is restored alone.\<close>

lemma passed_cong: "restoredDumpIds s' = restoredDumpIds s \<Longrightarrow> passed opts m s' e = passed opts m s e"
  by (simp add: passed_def)

lemma runs_cong: "rs_workers s' = rs_workers s \<Longrightarrow> running s' = running s"
  by (simp add: running_def)

lemma pushedIds_mono: "restored \<subseteq> pushedIds opts m gone \<Longrightarrow> restored \<subseteq> pushedIds opts m (gone @ xs)"
  by auto

lemma push_fails_inv: "rest_inv opts m es gone s \<Longrightarrow> rest_inv opts m es gone (push_fails f s)"
  unfolding rest_inv_def push_fails_def by (simp add: running_def passed_def)

lemma push_step_inv:
  "push_step opts m s s' \<Longrightarrow> rest_inv opts m es gone s \<Longrightarrow> \<exists>more. rest_inv opts m es (gone @ more) s'"
proof (induction rule: push_step.induct)
  case (p_end s)
  then have "rest_inv opts m es (gone @ []) (s\<lparr>rs_pusher := PDone, rs_closed := True\<rparr>)"
    by (simp add: rest_inv_def running_def passed_def)
  then show ?case by blast
next
  case (p_skip s e ees)
  then have "rest_inv opts m es (gone @ [e]) (s\<lparr>rs_todo := ees\<rparr>)"
    by (auto simp: rest_inv_def running_def passed_def)
  then show ?case by blast
next
  case (p_take s e ees)
  then have "rest_inv opts m es (gone @ []) (s\<lparr>rs_todo := ees, rs_pusher := if waits opts then PWait e else PTask e\<rparr>)"
    by (auto simp: rest_inv_def running_def passed_def)
  then show ?case by blast
next
  case (p_wait_ok s e)
  then have "rest_inv opts m es (gone @ []) (s\<lparr>rs_pusher := PTask e\<rparr>)"
    by (auto simp: rest_inv_def running_def passed_def dependenciesAreRestored_iff)
  then show ?case by blast
next
  case (p_no_task s e)
  then have "rest_inv opts m es (gone @ [e]) (s\<lparr>rs_pusher := PNext\<rparr>)"
    by (auto simp: rest_inv_def running_def passed_def)
  then show ?case by blast
next
  case (p_task s e t)
  then have "rest_inv opts m es (gone @ []) (s\<lparr>rs_pusher := PSend t\<rparr>)"
    using taskOf_entry [OF p_task(2)] by (auto simp: rest_inv_def running_def passed_def pushed_def)
  then show ?case by blast
next
  case (p_send s t)
  then have "rest_inv opts m es (gone @ [GetEntry t]) (s\<lparr>rs_pusher := PNext, rs_chan := rs_chan s @ [t]\<rparr>)"
    by (auto simp: rest_inv_def running_def passed_def)
  then show ?case by blast
qed (use push_fails_inv [of opts m es gone] in \<open>metis append_Nil2\<close>)+

lemma runs_set:
  "running (set_worker w p s) \<subseteq> running s \<union> (case p of WRun t \<Rightarrow> {t} | _ \<Rightarrow> {})"
  unfolding running_def set_worker_def using set_update_subset_insert [of "rs_workers s" w p] by auto

lemma runs_at: "w < length (rs_workers s) \<Longrightarrow> rs_workers s ! w = WRun t \<Longrightarrow> t \<in> running s"
  by (auto simp: running_def in_set_conv_nth)

text \<open>The pusher's view after a worker's step: more is restored, less is in the channel.\<close>

lemma rest_inv_weaken:
  assumes "rest_inv opts m es gone s" and "rs_pusher s' = rs_pusher s" and "rs_todo s' = rs_todo s"
    and "restoredDumpIds s \<subseteq> restoredDumpIds s'" and "restoredDumpIds s' \<subseteq> restoredDumpIds s \<union> task_id ` running s"
    and "set (rs_chan s') \<union> running s' \<subseteq> set (rs_chan s) \<union> running s"
  shows "rest_inv opts m es gone s'"
proof -
  note inv = assms(1) [unfolded rest_inv_def]
  have p: "passed opts m s e \<Longrightarrow> passed opts m s' e" for e
    using assms(4) by (auto simp: passed_def elim: deps_in_mono)
  have "task_id t \<in> pushedIds opts m gone" if "t \<in> running s" for t
    using rest_invE(4) [OF assms(1) that] by (auto simp: pushedIds_def task_id_def)
  then have r: "restoredDumpIds s' \<subseteq> pushedIds opts m gone" using assms(5) inv by blast
  show ?thesis
    unfolding rest_inv_def assms(2,3) using inv r p assms(6) by blast
qed

lemma work_step_inv:
  "work_step conn ok w s s' \<Longrightarrow> w < length (rs_workers s) \<Longrightarrow> rest_inv opts m es gone s \<Longrightarrow> rest_inv opts m es gone s'"
proof (induction rule: work_step.induct)
  case (w_receive s t ts)
  show ?case
    by (rule rest_inv_weaken [OF w_receive(4)])
       (use w_receive runs_set [of w "WRun t" s] in \<open>auto simp: set_worker_def running_def\<close>)
next
  case (w_done s t)
  show ?case
    by (rule rest_inv_weaken [OF w_done(4)])
       (use w_done runs_set [of w WIdle s] runs_at [of w s t] in \<open>auto simp: set_worker_def running_def\<close>)
qed (rule rest_inv_weaken, assumption,
     (use runs_set in \<open>fastforce simp: set_worker_def worker_fails_def running_def\<close>)+)+

lemma rstep_inv:
  "rstep opts m conn ok s s' \<Longrightarrow> rest_inv opts m es gone s \<Longrightarrow> \<exists>more. rest_inv opts m es (gone @ more) s'"
proof (induction rule: rstep.induct)
  case (r_push s s')
  then show ?case by (blast intro: push_step_inv)
next
  case (r_work s w s')
  then have "rest_inv opts m es (gone @ []) s'" using work_step_inv by simp
  then show ?case by blast
qed

lemma rest_inv_reachable:
  assumes "rsteps opts m conn ok (startRestore opts es) s"
  shows "\<exists>gone. rest_inv opts m es gone s"
  using assms
proof (induction rule: rtranclp_induct)
  case base
  show ?case using rest_inv_start by blast
next
  case (step s t)
  then show ?case using rstep_inv by meson
qed

section \<open>Order\<close>

lemma dependencies_restored:
  assumes "waits opts" and "rsteps opts m conn ok (startRestore opts es) s"
  shows "t \<in> set (rs_chan s) \<union> running s \<Longrightarrow> deps_in m (task_id t) (restoredDumpIds s)"
    "i \<in> restoredDumpIds s \<Longrightarrow> deps_in m i (restoredDumpIds s)"
proof -
  obtain gone where inv: "rest_inv opts m es gone s" using rest_inv_reachable [OF assms(2)] by blast
  have *: "deps_in m (DumpId e) (restoredDumpIds s)" if "e \<in> set gone" "pushed opts m e" for e
    using rest_invE(6) [OF inv that(1)] that(2) assms(1) by (simp add: passed_def pushed_def)
  show "deps_in m (task_id t) (restoredDumpIds s)" if "t \<in> set (rs_chan s) \<union> running s"
    using that * rest_invE(3,4) [OF inv] by (auto simp: task_id_def)
  show "deps_in m i (restoredDumpIds s)" if i: "i \<in> restoredDumpIds s"
  proof -
    obtain e where "e \<in> set gone" "pushed opts m e" "DumpId e = i"
      using rest_invE(5) [OF inv] i unfolding pushedIds_def by blast
    with * show ?thesis by blast
  qed
qed

section \<open>Runs in which no call fails\<close>

definition smooth :: "RestoreOptions \<Rightarrow> Metadata \<Rightarrow> (nat \<Rightarrow> bool) \<Rightarrow> (restorationTask \<Rightarrow> bool) \<Rightarrow> Entry list \<Rightarrow> bool" where
  "smooth opts m conn ok es \<longleftrightarrow>
     Jobs opts > 0 \<and> (\<forall>w. conn w) \<and> (\<forall>t. ok t) \<and> (\<forall>e \<in> set es. faultless opts m e)"

definition smooth_inv :: "RestoreOptions \<Rightarrow> Metadata \<Rightarrow> Entry list \<Rightarrow> rstate \<Rightarrow> bool" where
  "smooth_inv opts m gone s \<longleftrightarrow>
     \<not> rs_cancelled s \<and> (\<forall>f. rs_pusher s \<noteq> PFail f) \<and> WFail \<notin> set (rs_workers s) \<and>
     length (rs_workers s) = Jobs opts \<and> (rs_closed s \<longleftrightarrow> rs_pusher s = PDone) \<and>
     (WExit \<in> set (rs_workers s) \<longrightarrow> rs_closed s \<and> rs_chan s = []) \<and>
     pushedIds opts m gone \<subseteq> out_ids s"

definition both_inv :: "RestoreOptions \<Rightarrow> Metadata \<Rightarrow> Entry list \<Rightarrow> rstate \<Rightarrow> bool" where
  "both_inv opts m es s \<longleftrightarrow> (\<exists>gone. rest_inv opts m es gone s \<and> smooth_inv opts m gone s)"

lemma both_inv_start: "both_inv opts m es (startRestore opts es)"
proof -
  have "rest_inv opts m es [] (startRestore opts es)" by (rule rest_inv_start)
  moreover have "smooth_inv opts m [] (startRestore opts es)" by (auto simp: smooth_inv_def startRestore_def)
  ultimately show ?thesis unfolding both_inv_def by blast
qed

lemma push_step_smooth:
  assumes "push_step opts m s s'" and "\<forall>e \<in> set es. faultless opts m e"
    and "rest_inv opts m es gone s" and "smooth_inv opts m gone s"
  shows "both_inv opts m es s'"
  using assms
proof (induction rule: push_step.induct)
  case (p_end s)
  then have "rest_inv opts m es gone (s\<lparr>rs_pusher := PDone, rs_closed := True\<rparr>)"
    by (simp add: rest_inv_def running_def passed_def)
  moreover have "smooth_inv opts m gone (s\<lparr>rs_pusher := PDone, rs_closed := True\<rparr>)"
    using p_end by (auto simp: smooth_inv_def out_ids_def running_def)
  ultimately show ?case unfolding both_inv_def by blast
next
  case (p_skip s e ees)
  then have "rest_inv opts m es (gone @ [e]) (s\<lparr>rs_todo := ees\<rparr>)"
    by (auto simp: rest_inv_def running_def passed_def)
  moreover have "smooth_inv opts m (gone @ [e]) (s\<lparr>rs_todo := ees\<rparr>)"
    using p_skip by (auto simp: smooth_inv_def out_ids_def running_def pushed_def)
  ultimately show ?case unfolding both_inv_def by blast
next
  case (p_take s e ees)
  let ?s' = "s\<lparr>rs_todo := ees, rs_pusher := if waits opts then PWait e else PTask e\<rparr>"
  have "rest_inv opts m es gone ?s'"
    using p_take by (auto simp: rest_inv_def running_def passed_def)
  moreover have "smooth_inv opts m gone ?s'"
    using p_take by (auto simp: smooth_inv_def out_ids_def running_def)
  ultimately show ?case unfolding both_inv_def by blast
next
  case (p_wait_ok s e)
  then have "rest_inv opts m es gone (s\<lparr>rs_pusher := PTask e\<rparr>)"
    by (auto simp: rest_inv_def running_def passed_def dependenciesAreRestored_iff)
  moreover have "smooth_inv opts m gone (s\<lparr>rs_pusher := PTask e\<rparr>)"
    using p_wait_ok by (auto simp: smooth_inv_def out_ids_def running_def)
  ultimately show ?case unfolding both_inv_def by blast
next
  case (p_no_task s e)
  then have "rest_inv opts m es (gone @ [e]) (s\<lparr>rs_pusher := PNext\<rparr>)"
    by (auto simp: rest_inv_def running_def passed_def)
  moreover have "smooth_inv opts m (gone @ [e]) (s\<lparr>rs_pusher := PNext\<rparr>)"
    using p_no_task by (auto simp: smooth_inv_def out_ids_def running_def pushed_def)
  ultimately show ?case unfolding both_inv_def by blast
next
  case (p_task s e t)
  then have "rest_inv opts m es gone (s\<lparr>rs_pusher := PSend t\<rparr>)"
    using taskOf_entry [OF p_task(2)] by (auto simp: rest_inv_def running_def passed_def pushed_def)
  moreover have "smooth_inv opts m gone (s\<lparr>rs_pusher := PSend t\<rparr>)"
    using p_task by (auto simp: smooth_inv_def out_ids_def running_def)
  ultimately show ?case unfolding both_inv_def by blast
next
  case (p_send s t)
  let ?s' = "s\<lparr>rs_pusher := PNext, rs_chan := rs_chan s @ [t]\<rparr>"
  have "rest_inv opts m es (gone @ [GetEntry t]) ?s'"
    using p_send by (auto simp: rest_inv_def running_def passed_def)
  moreover have "smooth_inv opts m (gone @ [GetEntry t]) ?s'"
    using p_send by (auto simp: smooth_inv_def out_ids_def running_def task_id_def)
  ultimately show ?case unfolding both_inv_def by blast
next
  case (p_panic s e ees f)
  then have "e \<in> set es" by (auto simp: rest_inv_def)
  with p_panic show ?case by (auto simp: faultless_def)
next
  case (p_task_fails s e f)
  then have "e \<in> set es" "isNeedRestore opts e = Inr True" by (auto simp: rest_inv_def)
  with p_task_fails show ?case by (auto simp: faultless_def)
qed (auto simp: smooth_inv_def)


lemma push_inv_smooth_work:
  assumes "smooth_inv opts m gone s" and "w < length (rs_workers s)" and "rs_pusher s' = rs_pusher s"
    and "rs_closed s' = rs_closed s" and "\<not> rs_cancelled s'" and "rs_workers s' = (rs_workers s)[w := p]"
    and "p \<noteq> WFail" and "p = WExit \<Longrightarrow> rs_closed s \<and> rs_chan s = []" and "rs_chan s = [] \<Longrightarrow> rs_chan s' = []"
    and "out_ids s \<subseteq> out_ids s'"
  shows "smooth_inv opts m gone s'"
proof -
  note inv = assms(1) [unfolded smooth_inv_def]
  have set: "set (rs_workers s') \<subseteq> insert p (set (rs_workers s))"
    by (simp add: assms(6) set_update_subset_insert)
  show ?thesis
    unfolding smooth_inv_def assms(3,4)
    using inv assms(5,7,10) set assms(8,9) by (auto simp: assms(6))
qed

lemma runs_keep:
  assumes "\<And>t. rs_workers s ! w \<noteq> WRun t"
  shows "running s \<subseteq> running (set_worker w p s)"
proof
  fix t assume "t \<in> running s"
  then obtain i where "i < length (rs_workers s)" "rs_workers s ! i = WRun t"
    by (auto simp: running_def in_set_conv_nth)
  with assms [of t] show "t \<in> running (set_worker w p s)"
    by (cases "i = w") (auto simp: running_def set_worker_def in_set_conv_nth nth_list_update intro!: exI [of _ i])
qed

lemma work_step_smooth:
  assumes "work_step conn ok w s s'" and "w < length (rs_workers s)" and "\<forall>w. conn w" and "\<forall>t. ok t"
    and "smooth_inv opts m gone s"
  shows "smooth_inv opts m gone s'"
  using assms
proof (induction rule: work_step.induct)
  case (w_connect s)
  then have "running s \<subseteq> running (set_worker w WIdle s)" by (intro runs_keep) simp
  then show ?case
    by (intro push_inv_smooth_work [OF w_connect(6,3), of _ WIdle])
      (use w_connect in \<open>auto simp: smooth_inv_def set_worker_def out_ids_def\<close>)
next
  case (w_receive s t ts)
  have "running s \<subseteq> running (set_worker w (WRun t) s)" using w_receive(1) by (intro runs_keep) simp
  moreover have "t \<in> running (set_worker w (WRun t) s)"
    using w_receive(3) by (auto simp: running_def set_worker_def in_set_conv_nth intro!: exI [of _ w])
  ultimately show ?case
    by (intro push_inv_smooth_work [OF w_receive(6,3), of _ "WRun t"])
      (use w_receive in \<open>auto simp: smooth_inv_def set_worker_def out_ids_def running_def\<close>)
next
  case (w_exit s)
  then have "running s \<subseteq> running (set_worker w WExit s)" by (intro runs_keep) simp
  then show ?case
    by (intro push_inv_smooth_work [OF w_exit(7,4), of _ WExit])
      (use w_exit in \<open>auto simp: smooth_inv_def set_worker_def out_ids_def\<close>)
next
  case (w_done s t)
  have "running s \<subseteq> insert t (running (set_worker w WIdle s))"
  proof
    fix u assume "u \<in> running s"
    then obtain i where "i < length (rs_workers s)" "rs_workers s ! i = WRun u"
      by (auto simp: running_def in_set_conv_nth)
    with w_done(1) show "u \<in> insert t (running (set_worker w WIdle s))"
      by (cases "i = w") (auto simp: running_def set_worker_def in_set_conv_nth nth_list_update intro!: exI [of _ i])
  qed
  then show ?case
    by (intro push_inv_smooth_work [OF w_done(6,3), of _ WIdle])
      (use w_done in \<open>auto simp: smooth_inv_def set_worker_def out_ids_def running_def\<close>)
qed (auto simp: smooth_inv_def)

lemma rstep_smooth:
  assumes "rstep opts m conn ok s s'" and "smooth opts m conn ok es" and "both_inv opts m es s"
  shows "both_inv opts m es s'"
  using assms
proof (induction rule: rstep.induct)
  case (r_push s s')
  then show ?case unfolding both_inv_def [of _ _ _ s] smooth_def using push_step_smooth by blast
next
  case (r_work s w s')
  then obtain gone where g: "rest_inv opts m es gone s" "smooth_inv opts m gone s" by (auto simp: both_inv_def)
  have "rest_inv opts m es gone s'" using work_step_inv [OF r_work(3,2) g(1)] .
  moreover have "smooth_inv opts m gone s'" using work_step_smooth [OF r_work(3,2) _ _ g(2)] r_work(4)
    by (simp add: smooth_def)
  ultimately show ?case unfolding both_inv_def by blast
qed

lemma both_inv_reachable:
  assumes "smooth opts m conn ok es" and "rsteps opts m conn ok (startRestore opts es) s"
  shows "both_inv opts m es s"
  using assms(2)
proof (induction rule: rtranclp_induct)
  case base
  show ?case by (rule both_inv_start)
next
  case (step s t)
  then show ?case using rstep_smooth assms(1) by blast
qed

section \<open>Progress\<close>

text \<open>Where no step is possible every worker waits at an open empty channel, or all have left at the end.\<close>

lemma work_progress:
  assumes "\<forall>w. conn w" and "\<forall>t. ok t" and "w < length (rs_workers s)" and "rs_workers s ! w \<noteq> WFail"
    and "\<And>s'. \<not> work_step conn ok w s s'"
  shows "rs_workers s ! w = WExit \<or> rs_workers s ! w = WIdle \<and> rs_chan s = [] \<and> \<not> rs_closed s"
proof (cases "rs_workers s ! w")
  case WStart
  then show ?thesis using assms(1,5) work_step.w_connect by blast
next
  case WIdle
  then show ?thesis using assms(5) work_step.w_receive work_step.w_exit by (cases "rs_chan s") blast+
next
  case (WRun t)
  then show ?thesis using assms(2,5) work_step.w_done by blast
qed (use assms(4) in auto)

lemma not_crashed: "\<forall>f. rs_pusher s \<noteq> PFail f \<Longrightarrow> \<not> crashed s"
  by (auto simp: crashed_def split: pusher.splits)

text \<open>The pusher can go on unless it has ended or waits for something that is not restored.\<close>

lemma push_progress:
  assumes np: "\<And>s'. \<not> push_step opts m s s'" and "\<not> rs_cancelled s" and "rs_chan s = []" and "Jobs opts > 0"
    and fl: "\<And>e. e \<in> set (in_hand (rs_pusher s) @ rs_todo s) \<Longrightarrow> faultless opts m e"
    and need: "\<And>e. rs_pusher s = PTask e \<Longrightarrow> isNeedRestore opts e = Inr True"
  shows "rs_pusher s = PDone \<or> (\<exists>f. rs_pusher s = PFail f) \<or>
    (\<exists>e. rs_pusher s = PWait e \<and> \<not> deps_in m (DumpId e) (restoredDumpIds s))"
proof (cases "rs_pusher s")
  case PNext
  show ?thesis
  proof (cases "rs_todo s")
    case Nil
    then show ?thesis using np p_end [OF PNext] by blast
  next
    case (Cons e ees)
    then obtain b where "isNeedRestore opts e = Inr b" using fl by (auto simp: faultless_def)
    then have "isNeedRestore opts e = Inr True \<or> isNeedRestore opts e = Inr False" by (cases b) auto
    then show ?thesis using np p_skip [OF PNext Cons assms(2)] p_take [OF PNext Cons assms(2)] by blast
  qed
next
  case (PWait e)
  then show ?thesis using np p_wait_ok [OF PWait assms(2)] by (auto simp: dependenciesAreRestored_iff)
next
  case (PTask e)
  then obtain x where "taskOf opts m e = Inr x" using fl [of e] need by (auto simp: faultless_def)
  then show ?thesis using np p_no_task [OF PTask] p_task [OF PTask] by (cases x) blast+
next
  case (PSend t)
  then show ?thesis using np p_send [OF PSend] assms(3,4) by auto
qed auto

text \<open>Workers that cannot go on hold nothing, and nothing is left in the channel.\<close>

lemma work_stuck:
  assumes sm: "smooth opts m conn ok es" and inv: "smooth_inv opts m gone s"
    and stuck: "\<And>w s'. w < length (rs_workers s) \<Longrightarrow> \<not> work_step conn ok w s s'"
  shows "running s = {}" and "rs_chan s = []" and "rs_closed s \<Longrightarrow> \<forall>p \<in> set (rs_workers s). p = WExit"
proof -
  note sv = inv [unfolded smooth_inv_def] and c = sm [unfolded smooth_def]
  have nf: "rs_workers s ! w \<noteq> WFail" if "w < length (rs_workers s)" for w
    using sv nth_mem [OF that] by metis
  have each: "rs_workers s ! w = WExit \<or> rs_workers s ! w = WIdle \<and> rs_chan s = [] \<and> \<not> rs_closed s"
    if "w < length (rs_workers s)" for w
  proof (rule work_progress [OF _ _ that nf [OF that] stuck [OF that]])
    show "\<forall>w. conn w" "\<forall>t. ok t" using c by simp_all
  qed
  show "running s = {}"
  proof (rule ccontr)
    assume "running s \<noteq> {}"
    then obtain w t where "w < length (rs_workers s)" "rs_workers s ! w = WRun t"
      by (auto simp: running_def in_set_conv_nth)
    with each [of w] show False by simp
  qed
  have len: "0 < length (rs_workers s)" using sv c by simp
  have "rs_chan s = []" if "rs_workers s ! 0 = WExit" using that sv nth_mem [OF len] by metis
  then show "rs_chan s = []" using each [OF len] by blast
  show "\<forall>p \<in> set (rs_workers s). p = WExit" if "rs_closed s" using that each by (auto simp: in_set_conv_nth)
qed

text \<open>A run that cannot go on has succeeded or its pusher waits for something that is not restored.\<close>

lemma stuck_state:
  assumes sm: "smooth opts m conn ok es" and inv: "both_inv opts m es s" and stuck: "\<And>s'. \<not> rstep opts m conn ok s s'"
  shows "(restoreSucceeded s \<and> restoredDumpIds s = pushedIds opts m es) \<or>
    (\<exists>gone e rest. rs_pusher s = PWait e \<and> waits opts \<and> es = gone @ e # rest \<and> isNeedRestore opts e = Inr True \<and>
       restoredDumpIds s = pushedIds opts m gone \<and> \<not> deps_in m (DumpId e) (restoredDumpIds s))"
proof -
  obtain gone where g: "rest_inv opts m es gone s" "smooth_inv opts m gone s" using inv by (auto simp: both_inv_def)
  note r = g(1) [unfolded rest_inv_def] and sv = g(2) [unfolded smooth_inv_def] and c = sm [unfolded smooth_def]
  have nc: "\<not> crashed s" using sv not_crashed by blast
  have ws: "w < length (rs_workers s) \<Longrightarrow> \<not> work_step conn ok w s s'" for w s'
    using r_work [OF nc] stuck by blast
  have w: "running s = {}" "rs_chan s = []" "rs_closed s \<Longrightarrow> \<forall>p \<in> set (rs_workers s). p = WExit"
    by (rule work_stuck [OF sm g(2)], use ws in blast)+
  have out: "restoredDumpIds s = pushedIds opts m gone"
    using r sv by (auto simp: out_ids_def w(1,2))
  have es: "es = gone @ in_hand (rs_pusher s) @ rs_todo s" using r sv by blast
  have np: "\<not> push_step opts m s s'" for s' using rstep.r_push [OF nc] stuck by blast
  have "set (in_hand (rs_pusher s) @ rs_todo s) \<subseteq> set es" by (subst es) auto
  then have fl: "e \<in> set (in_hand (rs_pusher s) @ rs_todo s) \<Longrightarrow> faultless opts m e" for e
    using c by blast
  have "rs_pusher s = PDone \<or> (\<exists>f. rs_pusher s = PFail f) \<or>
      (\<exists>e. rs_pusher s = PWait e \<and> \<not> deps_in m (DumpId e) (restoredDumpIds s))"
    by (rule push_progress [OF np _ w(2) _ fl]) (use r sv c in auto)
  then consider "rs_pusher s = PDone"
    | e where "rs_pusher s = PWait e" "\<not> deps_in m (DumpId e) (restoredDumpIds s)"
    using sv by blast
  then show ?thesis
  proof cases
    case 1
    then have "gone = es" using es r by simp
    then show ?thesis using 1 out sv w(3) by (simp add: restoreSucceeded_def)
  next
    case 2
    moreover have "es = gone @ e # rs_todo s" using es by (simp add: 2)
    ultimately show ?thesis using r out by blast
  qed
qed

text \<open>Every dependency of an entry that is restored comes from an entry that is pushed before it.\<close>

definition orderly :: "RestoreOptions \<Rightarrow> Metadata \<Rightarrow> Entry list \<Rightarrow> bool" where
  "orderly opts m es \<longleftrightarrow>
     (\<forall>gone e rest. es = gone @ e # rest \<and> isNeedRestore opts e = Inr True
        \<longrightarrow> deps_in m (DumpId e) (pushedIds opts m gone))"

lemma restore_ends: "\<exists>s'. rsteps opts m conn ok s s' \<and> (\<forall>t. \<not> rstep opts m conn ok s' t)"
proof (induction "weight s" arbitrary: s rule: less_induct)
  case less
  show ?case
  proof (cases "\<exists>t. rstep opts m conn ok s t")
    case True
    then obtain t where t: "rstep opts m conn ok s t" by blast
    from less [OF rstep_weight [OF t]] obtain s' where
      "rsteps opts m conn ok t s'" "\<forall>t. \<not> rstep opts m conn ok s' t" by blast
    then show ?thesis using converse_rtranclp_into_rtranclp [of "rstep opts m conn ok", OF t] by blast
  qed blast
qed

lemma steps_reachable: "(rstep opts m conn ok ^^ k) s s' \<Longrightarrow> rsteps opts m conn ok s s'"
  by (rule relpowp_imp_rtranclp)

lemma restore_completes:
  assumes "smooth opts m conn ok es" and "\<not> waits opts \<or> orderly opts m es"
    and "(rstep opts m conn ok ^^ k) (startRestore opts es) s"
  shows "k \<le> 7 * length es + 2 * Jobs opts + 1"
    and "(\<exists>s'. rstep opts m conn ok s s') \<or> restoreSucceeded s \<and> restoredDumpIds s = pushedIds opts m es"
proof -
  show "k \<le> 7 * length es + 2 * Jobs opts + 1" using restore_bounded [OF assms(3)] by simp
  note inv = both_inv_reachable [OF assms(1) steps_reachable [OF assms(3)]]
  show "(\<exists>s'. rstep opts m conn ok s s') \<or> restoreSucceeded s \<and> restoredDumpIds s = pushedIds opts m es"
  proof (rule disjCI, rule ccontr)
    assume none: "\<not> (\<exists>s'. rstep opts m conn ok s s')"
    assume "\<not> (restoreSucceeded s \<and> restoredDumpIds s = pushedIds opts m es)"
    with stuck_state [OF assms(1) inv] none obtain gone e rest where
      "waits opts" "es = gone @ e # rest" "isNeedRestore opts e = Inr True"
      "restoredDumpIds s = pushedIds opts m gone" "\<not> deps_in m (DumpId e) (restoredDumpIds s)" by blast
    with assms(2) show False by (auto simp: orderly_def)
  qed
qed

lemma restore_hangs:
  assumes sm: "smooth opts m conn ok es" and "waits opts"
    and e: "e \<in> set es" "isNeedRestore opts e = Inr True"
    and d: "d \<in> set (dependencies_of_id m (DumpId e))" "d \<notin> pushedIds opts m es"
    and run: "rsteps opts m conn ok (startRestore opts es) s"
  shows "\<not> restoreReturned s"
proof
  assume ret: "restoreReturned s"
  obtain gone where g: "rest_inv opts m es gone s" "smooth_inv opts m gone s"
    using both_inv_reachable [OF sm run] by (auto simp: both_inv_def)
  then have "rs_pusher s = PDone" using ret by (auto simp: restoreReturned_def smooth_inv_def)
  then have "gone = es" using g(1) by (simp add: rest_inv_def)
  then have "passed opts m s e" using rest_invE(6) [OF g(1)] e(1) by simp
  then have "d \<in> restoredDumpIds s" using assms(2) e(2) d(1) by (auto simp: passed_def deps_in_def)
  with rest_invE(5) [OF g(1)] d(2) \<open>gone = es\<close> show False by blast
qed

end
