(* ===== verification/DumpMetaProps.thy ===== *)
theory DumpMetaProps
  imports Restore
begin

text \<open>
  What the table of contents of a dump holds: the entries of the data section, the statements of the large objects and
  the merge with the entries of the schema.
\<close>

section \<open>Entries of a dump\<close>

fun tables_of :: "DumpObject list \<Rightarrow> DumpTable list" where
  "tables_of [] = []"
| "tables_of (TableObj t # obs) = t # tables_of obs"
| "tables_of (SequenceObj q # obs) = tables_of obs"
| "tables_of (BlobsObj b # obs) = tables_of obs"

lemma Table_Entry_fields:
  "Table_Entry t = Inr e \<Longrightarrow>
     DumpId e = dt_DumpId t \<and> Desc e = Some (ascii TableDataDesc) \<and> Section e = SectionData \<and> t_Oid t \<noteq> 0"
  by (auto simp: Table_Entry_def split: if_splits)

lemma Sequence_Entry_fields: "Sequence_Entry q = Inr e \<Longrightarrow> Desc e = Some (ascii SequenceSetDesc) \<and> Section e = SectionData"
  by (auto simp: Sequence_Entry_def)

lemma Blobs_Entry_fields: "Blobs_Entry b = Inr e \<Longrightarrow> Desc e = Some (ascii BlobsDesc) \<and> Section e = SectionData"
  by (auto simp: Blobs_Entry_def)

definition dumped_data :: "TocEntries \<Rightarrow> Entry list" where
  "dumped_data s = te_tables s @ te_sequences s @ te_largeObjects s"

text \<open>Without partitioned tables every table has its entry, and all entries belong to the data section.\<close>

definition entries_ok :: "TocEntries \<Rightarrow> bool" where
  "entries_ok s \<longleftrightarrow>
     map DumpId (te_tables s) = map dt_DumpId (te_dumped s) \<and>
     (\<forall>t \<in> set (te_dumped s). t_Oid t \<noteq> 0) \<and>
     (\<forall>e \<in> set (te_tables s). Desc e = Some (ascii TableDataDesc)) \<and>
     (\<forall>e \<in> set (dumped_data s). Desc e \<noteq> None \<and> Section e = SectionData)"

lemma create_entries_ok:
  assumes "foldR (create_entry nb) objs s = Inr s'" and "\<forall>t \<in> set (tables_of objs). dt_RelKind t \<noteq> CHR ''p''"
    and "entries_ok s"
  shows "entries_ok s' \<and> te_dumped s' = te_dumped s @ tables_of objs"
  using assms
proof (induction objs arbitrary: s)
  case (Cons ob objs)
  obtain s1 where s1: "create_entry nb ob s = Inr s1" "foldR (create_entry nb) objs s1 = Inr s'"
    using Cons.prems(1) by (auto simp: bindR_eq_Inr)
  have "entries_ok s1 \<and> te_dumped s1 = te_dumped s @ tables_of [ob]"
    using s1(1) Cons.prems(2,3)
    by (cases ob) (auto simp: bindR_eq_Inr entries_ok_def dumped_data_def split: if_splits
        dest!: Table_Entry_fields Sequence_Entry_fields Blobs_Entry_fields)
  moreover have "tables_of (ob # objs) = tables_of [ob] @ tables_of objs" by (cases ob) simp_all
  ultimately show ?case using Cons.IH [OF s1(2)] Cons.prems(2) by auto
qed simp

section \<open>The merge\<close>

lemma section_bounds_split:
  "\<exists>pre gap post. items = pre @ gap @ post \<and> (pre = [] \<or> Section (last pre) = SectionPreData) \<and>
     list_all (\<lambda>e. Section e \<noteq> SectionPostData) pre \<and>
     list_all (\<lambda>e. Section e \<noteq> SectionPreData \<and> Section e \<noteq> SectionPostData) gap \<and>
     (post = [] \<or> Section (hd post) = SectionPostData) \<and>
     section_bounds idx pe items =
       (if pre = [] then pe else Some (idx + length pre - 1),
        if post = [] then None else Some (idx + length pre + length gap))"
proof (induction items arbitrary: idx pe)
  case Nil
  show ?case by (intro exI [of _ "[]"]) simp
next
  case (Cons x xs)
  show ?case
  proof (cases "Section x = SectionPostData")
    case True
    then show ?thesis
      by (intro exI [of _ "[]"] exI [of _ "x # xs"]) (simp add: SectionPreData_def SectionPostData_def)
  next
    case False
    obtain pre gap post where ih: "xs = pre @ gap @ post" "pre = [] \<or> Section (last pre) = SectionPreData"
      "list_all (\<lambda>e. Section e \<noteq> SectionPostData) pre"
      "list_all (\<lambda>e. Section e \<noteq> SectionPreData \<and> Section e \<noteq> SectionPostData) gap"
      "post = [] \<or> Section (hd post) = SectionPostData"
      "section_bounds (Suc idx) (if Section x = SectionPreData then Some idx else pe) xs =
       (if pre = [] then if Section x = SectionPreData then Some idx else pe else Some (Suc idx + length pre - 1),
        if post = [] then None else Some (Suc idx + length pre + length gap))"
      using Cons.IH by blast
    show ?thesis
    proof (cases "pre = [] \<and> Section x \<noteq> SectionPreData")
      case True
      with ih False show ?thesis
        by (intro exI [of _ "[]"] exI [of _ "x # gap"] exI [of _ post]) (simp add: Let_def)
    next
      case pre: False
      with ih False show ?thesis
        by (intro exI [of _ "x # pre"] exI [of _ gap] exI [of _ post]) (auto simp: Let_def)
    qed
  qed
qed

definition blob_ddl :: "Blobs option \<Rightarrow> Entry list res" where
  "blob_ddl bl = (case bl of None \<Rightarrow> Inr [] | Some b \<Rightarrow> GetAllDDLs b)"

lemma MergeTocEntries_split:
  "\<exists>pre gap post. schema = pre @ gap @ post \<and>
     (pre = [] \<or> Section (last pre) = SectionPreData) \<and> (post = [] \<or> Section (hd post) = SectionPostData) \<and>
     list_all (\<lambda>e. Section e \<noteq> SectionPostData) pre \<and>
     list_all (\<lambda>e. Section e \<noteq> SectionPreData \<and> Section e \<noteq> SectionPostData) gap \<and>
     MergeTocEntries bl schema data =
       (if data = [] then Inr schema else bindR (blob_ddl bl) (\<lambda>ddl. Inr (pre @ ddl @ data @ post)))"
proof -
  obtain pre gap post where s: "schema = pre @ gap @ post" "pre = [] \<or> Section (last pre) = SectionPreData"
    "list_all (\<lambda>e. Section e \<noteq> SectionPostData) pre"
    "list_all (\<lambda>e. Section e \<noteq> SectionPreData \<and> Section e \<noteq> SectionPostData) gap"
    "post = [] \<or> Section (hd post) = SectionPostData"
    "section_bounds 0 None schema =
       (if pre = [] then None else Some (0 + length pre - 1), if post = [] then None else Some (0 + length pre + length gap))"
    using section_bounds_split [of schema 0 None] by blast
  have "MergeTocEntries bl schema data =
       (if data = [] then Inr schema else bindR (blob_ddl bl) (\<lambda>ddl. Inr (pre @ ddl @ data @ post)))"
    unfolding MergeTocEntries_def s(6) by (simp add: s(1) slice_def blob_ddl_def)
  with s show ?thesis by blast
qed

text \<open>
  Claim C23. The merged table of contents is the schema up to its last pre-data entry before the post-data section, the
  statements of the large objects, the data entries, and the schema from its first post-data entry on. The entries
  between, of neither section, are lost unless there is no data entry at all.
\<close>

theorem MergeTocEntries_result:
  "\<exists>pre gap post. schema = pre @ gap @ post \<and>
     (pre = [] \<or> Section (last pre) = SectionPreData) \<and> (post = [] \<or> Section (hd post) = SectionPostData) \<and>
     list_all (\<lambda>e. Section e \<noteq> SectionPostData) pre \<and>
     list_all (\<lambda>e. Section e \<noteq> SectionPreData \<and> Section e \<noteq> SectionPostData) gap \<and>
     MergeTocEntries bl schema data =
       (if data = [] then Inr schema else bindR (blob_ddl bl) (\<lambda>ddl. Inr (pre @ ddl @ data @ post)))"
  by (rule MergeTocEntries_split)

lemma ddl_sections:
  assumes "GetAllDDLs b = Inr ddl" and "e \<in> set ddl"
  shows "Section e \<noteq> SectionData"
proof -
  have one: "Section e \<noteq> SectionData"
    if "AclDdl lo = Inr a" "e \<in> set (CreateDdl lo # opt_list (CommentDdl lo) @ opt_list a)" for lo a
    using that
    by (auto simp: AclDdl_def CreateDdl_def CommentDdl_def Let_def bindR_eq_Inr SectionPreData_def SectionData_def
        SectionNone_def split: if_splits option.splits)
  obtain es where es: "mapR (\<lambda>lo. bindR (AclDdl lo) (\<lambda>a. Inr (CreateDdl lo # opt_list (CommentDdl lo) @ opt_list a)))
      (LargeObjects b) = Inr es" "ddl = concat es"
    using assms(1) by (auto simp: GetAllDDLs_def bindR_eq_Inr)
  then obtain xs where xs: "xs \<in> set es" "e \<in> set xs" using assms(2) by auto
  then obtain lo where "bindR (AclDdl lo) (\<lambda>a. Inr (CreateDdl lo # opt_list (CommentDdl lo) @ opt_list a)) = Inr xs"
    using es(1) by (auto simp: mapR_Inr_iff list_all2_conv_all_nth in_set_conv_nth)
  then obtain a where "AclDdl lo = Inr a" "xs = CreateDdl lo # opt_list (CommentDdl lo) @ opt_list a"
    by (auto simp: bindR_eq_Inr)
  with one xs(2) show ?thesis by metis
qed

lemma merged_data:
  assumes "MergeTocEntries bl schema data = Inr es" and "\<forall>e \<in> set schema. Section e \<noteq> SectionData"
    and "\<forall>e \<in> set data. Section e = SectionData"
  shows "getDataSectionTocEntries es = data"
proof (cases "data = []")
  case True
  then show ?thesis using assms(1,2) by (auto simp: MergeTocEntries_def getDataSectionTocEntries_def filter_empty_conv)
next
  case False
  obtain pre gap post where m: "schema = pre @ gap @ post"
    "MergeTocEntries bl schema data = bindR (blob_ddl bl) (\<lambda>ddl. Inr (pre @ ddl @ data @ post))"
    using MergeTocEntries_split [of schema bl data] False by auto
  then obtain ddl where ddl: "blob_ddl bl = Inr ddl" "es = pre @ ddl @ data @ post"
    using assms(1) by (auto simp: bindR_eq_Inr)
  have none: "filter (\<lambda>e. Section e = SectionData) xs = []" if "\<forall>e \<in> set xs. Section e \<noteq> SectionData" for xs :: "Entry list"
    using that by (simp add: filter_empty_conv)
  have "\<forall>e \<in> set ddl. Section e \<noteq> SectionData"
    using ddl(1) ddl_sections by (auto simp: blob_ddl_def split: option.splits)
  moreover have "filter (\<lambda>e. Section e = SectionData) data = data" using assms(3) by simp
  ultimately show ?thesis
    using m(1) assms(2) by (simp add: ddl(2) getDataSectionTocEntries_def none)
qed

end
