(* ===== verification/DumpOrder.thy ===== *)
theory DumpOrder
  imports RestoreRunProps DumpMetaProps SubsetGraphProps
begin

text \<open>
  A dump and its restore together: the order and the dependencies a dump records are those of the reference graph, and
  the pusher of an ordered restore finds every dependency among the entries it has pushed before.
\<close>

section \<open>The dependency graph of the dump\<close>

definition object_at :: "DumpTable list \<Rightarrow> 32 word \<Rightarrow> DumpTable" where
  "object_at tables oid = hd (filter (\<lambda>t. t_Oid t = oid) tables)"

abbreviation id_of :: "DumpTable list \<Rightarrow> 32 word \<Rightarrow> int32" where
  "id_of tables oid \<equiv> dt_DumpId (object_at tables oid)"

lemma index_func_filter: "index_func p xs = Some i \<Longrightarrow> xs ! i = hd (filter p xs)"
  by (induction xs arbitrary: i) (auto split: if_splits)

lemma object_at:
  assumes "oid \<in> t_Oid ` set tables"
  shows "object_at tables oid \<in> set tables" and "t_Oid (object_at tables oid) = oid"
proof -
  have "filter (\<lambda>t. t_Oid t = oid) tables \<noteq> []" using assms by (auto simp: filter_empty_conv)
  then have "object_at tables oid \<in> set (filter (\<lambda>t. t_Oid t = oid) tables)"
    unfolding object_at_def by (rule hd_in_set)
  then show "object_at tables oid \<in> set tables" "t_Oid (object_at tables oid) = oid" by auto
qed

lemma index_oid:
  assumes "oid \<in> t_Oid ` set tables"
  obtains i where "index_func (\<lambda>t. t_Oid t = oid) tables = Some i" and "tables ! i = object_at tables oid"
proof (cases "index_func (\<lambda>t. t_Oid t = oid) tables")
  case None
  with assms show ?thesis by (auto simp: index_func_None)
next
  case (Some i)
  with index_func_filter [OF Some] that show ?thesis by (simp add: object_at_def)
qed

lemma dep_ids_result:
  assumes "set oids = t_Oid ` set tables"
  shows "dep_ids tables oids ds = Inr (map (id_of tables) (filter (\<lambda>d. d \<in> set oids) ds))"
proof -
  have "mapR (\<lambda>d. case index_func (\<lambda>t. t_Oid t = d) tables of
             None \<Rightarrow> panic ''table not found'' | Some i \<Rightarrow> Inr (dt_DumpId (tables ! i))) xs =
      Inr (map (id_of tables) xs)" if "set xs \<subseteq> t_Oid ` set tables" for xs
    using that
  proof (induction xs)
    case (Cons d xs)
    then have "d \<in> t_Oid ` set tables" by simp
    then obtain i where "index_func (\<lambda>t. t_Oid t = d) tables = Some i" "tables ! i = object_at tables d"
      by (rule index_oid)
    with Cons show ?case by simp
  qed simp
  from this [of "filter (\<lambda>d. d \<in> set oids) ds"] show ?thesis unfolding dep_ids_def assms by auto
qed

text \<open>No table of the dump is the child of a partitioned table of the order.\<close>

definition no_partitions :: "(32 word) list \<Rightarrow> DumpTable list \<Rightarrow> bool" where
  "no_partitions oids tables \<longleftrightarrow> (\<forall>t \<in> set tables. dt_RootPtOid t \<notin> set oids)"

lemma index_oid_or_root:
  assumes "\<forall>t \<in> set tables. dt_RootPtOid t \<noteq> oid" and "oid \<in> t_Oid ` set tables"
  obtains i where "index_func (\<lambda>t. t_Oid t = oid \<or> dt_RootPtOid t = oid) tables = Some i"
    and "tables ! i = object_at tables oid"
proof -
  have "index_func (\<lambda>t. t_Oid t = oid \<or> dt_RootPtOid t = oid) tables = index_func (\<lambda>t. t_Oid t = oid) tables"
    using assms(1) by (induction tables) auto
  with index_oid [OF assms(2)] that show ?thesis by metis
qed

lemma setDumpDependenciesGraph_result:
  assumes set: "set oids = t_Oid ` set tables" and np: "no_partitions oids tables"
  shows "setDumpDependenciesGraph oids deps tables =
    Inr (fold (\<lambda>oid. AList.update (id_of tables oid)
                 (map (id_of tables) (filter (\<lambda>d. d \<in> set oids) (lookup_list oid deps)))) oids [],
         map (id_of tables) oids)"
proof -
  have "foldR (set_dependencies tables oids deps) xs (g, ids) =
    Inr (fold (\<lambda>oid. AList.update (id_of tables oid)
                 (map (id_of tables) (filter (\<lambda>d. d \<in> set oids) (lookup_list oid deps)))) xs g,
         ids @ map (id_of tables) xs)" if "set xs \<subseteq> set oids" for xs g ids
    using that
  proof (induction xs arbitrary: g ids)
    case (Cons x xs)
    have "\<forall>t \<in> set tables. dt_RootPtOid t \<noteq> x" "x \<in> t_Oid ` set tables"
      using Cons.prems np set by (auto simp: no_partitions_def)
    then obtain i where "index_func (\<lambda>t. t_Oid t = x \<or> dt_RootPtOid t = x) tables = Some i"
      "tables ! i = object_at tables x"
      by (rule index_oid_or_root)
    then show ?case using Cons by (simp add: set_dependencies_def dep_ids_result [OF set])
  qed simp
  then show ?thesis by (simp add: setDumpDependenciesGraph_def)
qed

lemma lookup_fold_update:
  assumes "inj_on f (set xs)"
  shows "x \<in> set xs \<Longrightarrow> lookup_list (f x) (fold (\<lambda>x. AList.update (f x) (h x)) xs m) = h x"
    "i \<notin> f ` set xs \<Longrightarrow> lookup_list i (fold (\<lambda>x. AList.update (f x) (h x)) xs m) = lookup_list i m"
proof -
  have other: "lookup_list i (fold (\<lambda>x. AList.update (f x) (h x)) xs m) = lookup_list i m"
    if "i \<notin> f ` set xs" for i xs m
    using that by (induction xs arbitrary: m) (auto simp: lookup_list_def update_conv)
  then show "i \<notin> f ` set xs \<Longrightarrow> lookup_list i (fold (\<lambda>x. AList.update (f x) (h x)) xs m) = lookup_list i m" .
  show "lookup_list (f x) (fold (\<lambda>x. AList.update (f x) (h x)) xs m) = h x" if "x \<in> set xs"
    using that assms
  proof (induction xs arbitrary: m)
    case (Cons y xs)
    show ?case
    proof (cases "x \<in> set xs")
      case True
      then show ?thesis using Cons by simp
    next
      case False
      then have "f x \<notin> f ` set xs" "x = y" using Cons.prems by auto
      then show ?thesis by (simp add: other) (simp add: lookup_list_def update_conv)
    qed
  qed simp
qed

text \<open>The dump ids of the order are distinct, and each depends only on ids that come before it.\<close>

definition ordered_graph :: "dump_graph \<Rightarrow> int32 list \<Rightarrow> bool" where
  "ordered_graph g ids \<longleftrightarrow> distinct ids \<and> (\<forall>i. i \<notin> set ids \<longrightarrow> lookup_list i g = []) \<and>
     (\<forall>i. \<forall>d \<in> set (lookup_list i g). before d i ids)"

lemma setDumpDependenciesGraph_ordered:
  assumes set: "set oids = t_Oid ` set tables" and np: "no_partitions oids tables"
    and d: "distinct oids" "distinct (map dt_DumpId tables)" and bef: "deps_before oids deps"
  obtains g where "setDumpDependenciesGraph oids deps tables = Inr (g, map (id_of tables) oids)"
    and "ordered_graph g (map (id_of tables) oids)"
    and "\<And>oid. oid \<in> set oids \<Longrightarrow>
      lookup_list (id_of tables oid) g = map (id_of tables) (filter (\<lambda>d. d \<in> set oids) (lookup_list oid deps))"
proof -
  let ?id = "id_of tables"
  let ?h = "\<lambda>oid. map ?id (filter (\<lambda>d. d \<in> set oids) (lookup_list oid deps))"
  let ?g = "fold (\<lambda>oid. AList.update (?id oid) (?h oid)) oids []"
  have inj: "inj_on ?id (set oids)"
  proof (rule inj_onI)
    fix x y assume xy: "x \<in> set oids" "y \<in> set oids" and eq: "?id x = ?id y"
    have "inj_on dt_DumpId (set tables)" using d(2) by (simp add: distinct_map)
    then have "object_at tables x = object_at tables y"
      using eq object_at(1) [of x tables] object_at(1) [of y tables] xy set by (auto dest: inj_onD)
    then show "x = y" using object_at(2) [of x tables] object_at(2) [of y tables] xy set by metis
  qed
  have look: "lookup_list (?id oid) ?g = ?h oid" if "oid \<in> set oids" for oid
    by (rule lookup_fold_update(1) [OF inj that])
  have none: "lookup_list i ?g = []" if "i \<notin> set (map ?id oids)" for i
    using lookup_fold_update(2) [OF inj, of i ?h "[]"] that by (simp add: lookup_list_def)
  have "before d i (map ?id oids)" if "d \<in> set (lookup_list i ?g)" for i d
  proof -
    from that none obtain oid where oid: "oid \<in> set oids" "i = ?id oid" by fastforce
    with that look obtain x where x: "d = ?id x" "x \<in> set (lookup_list oid deps)" by auto
    have "before x oid oids" using bef x(2) by (auto simp: deps_before_def)
    from before_map [OF this] show ?thesis by (simp add: x(1) oid(2))
  qed
  moreover have "distinct (map ?id oids)" using d(1) inj by (simp add: distinct_map)
  ultimately have og: "ordered_graph ?g (map ?id oids)" using none by (auto simp: ordered_graph_def)
  show ?thesis by (rule that [OF setDumpDependenciesGraph_result [OF set np] og look])
qed


section \<open>The plan of an ordered restore\<close>

lemma sorted_tables_result:
  assumes "\<forall>i \<in> set ids. \<exists>e \<in> set data. DumpId e = i"
  obtains xs where "sorted_tables m data ids = Inr xs" and "map DumpId xs = ids" and "set xs \<subseteq> set data"
  using assms
proof (induction ids arbitrary: thesis)
  case (Cons i ids)
  obtain xs where xs: "sorted_tables m data ids = Inr xs" "map DumpId xs = ids" "set xs \<subseteq> set data"
    using Cons.IH Cons.prems(2) by auto
  obtain k where k: "index_func (\<lambda>e. DumpId e = i) data = Some k"
    using Cons.prems(2) by (cases "index_func (\<lambda>e. DumpId e = i) data") (auto simp: index_func_None)
  then have "k < length data" "DumpId (data ! k) = i" using index_func_Some by fastforce+
  with xs k show ?case by (intro Cons.prems(1) [of "data ! k # xs"]) auto
qed simp

lemma append_unseen_result:
  "\<exists>ys. append_unseen p es acc = acc @ ys \<and> set ys \<subseteq> {e \<in> set es. p e} \<and> DumpId ` set ys \<inter> DumpId ` set acc = {}"
proof (induction es arbitrary: acc)
  case (Cons e es)
  show ?case
  proof (cases "p e \<and> DumpId e \<notin> DumpId ` set acc")
    case True
    obtain ys where "append_unseen p es (acc @ [e]) = (acc @ [e]) @ ys" "set ys \<subseteq> {e \<in> set es. p e}"
      "DumpId ` set ys \<inter> DumpId ` set (acc @ [e]) = {}"
      using Cons.IH [of "acc @ [e]"] by blast
    with True show ?thesis by (intro exI [of _ "e # ys"]) auto
  next
    case False
    with Cons.IH [of acc] show ?thesis by auto
  qed
qed simp

text \<open>The tables in the order of the metadata, then entries of other ids, all with a description.\<close>

lemma topo_plan:
  assumes "\<forall>i \<in> set (DumpIdsOrder m). \<exists>e \<in> set data. DumpId e = i"
  obtains xs ys where "sortTocEntriesInTopoOrder m data (Some es) = Inr (xs @ ys)"
    and "map DumpId xs = DumpIdsOrder m" and "set xs \<subseteq> set data"
    and "\<forall>e \<in> set ys. Desc e \<noteq> None \<and> DumpId e \<notin> set (DumpIdsOrder m)"
proof -
  obtain xs where xs: "sorted_tables m data (DumpIdsOrder m) = Inr xs" "map DumpId xs = DumpIdsOrder m"
    "set xs \<subseteq> set data"
    by (rule sorted_tables_result [OF assms])
  obtain ys where ys: "append_unseen is_other_data data xs = xs @ ys" "set ys \<subseteq> {e \<in> set data. is_other_data e}"
    "DumpId ` set ys \<inter> DumpId ` set xs = {}"
    using append_unseen_result by blast
  obtain zs where zs: "append_unseen is_acl es (xs @ ys) = (xs @ ys) @ zs" "set zs \<subseteq> {e \<in> set es. is_acl e}"
    "DumpId ` set zs \<inter> DumpId ` set (xs @ ys) = {}"
    using append_unseen_result by blast
  have ids: "set (DumpIdsOrder m) = DumpId ` set xs" using xs(2) by (metis list.set_map)
  have d: "Desc e \<noteq> None" if "is_acl e \<or> is_other_data e" for e
    using that by (auto simp: is_acl_def is_other_data_def)
  have "Desc e \<noteq> None \<and> DumpId e \<notin> set (DumpIdsOrder m)" if e: "e \<in> set (ys @ zs)" for e
  proof -
    have "DumpId e \<notin> DumpId ` set xs" using e ys(3) zs(3) by auto
    moreover have "is_acl e \<or> is_other_data e" using e ys(2) zs(2) by auto
    ultimately show ?thesis using d ids by simp
  qed
  then show ?thesis
    using that [of xs "ys @ zs"] xs ys(1) zs(1) by (simp add: sortTocEntriesInTopoOrder_def)
qed

definition unfiltered :: "RestoreOptions \<Rightarrow> bool" where
  "unfiltered opts \<longleftrightarrow> ro_Schema opts = [] \<and> ro_ExcludeSchema opts = [] \<and> ro_Table opts = [] \<and>
     \<not> Inserts opts \<and> \<not> OnConflictDoNothing opts"

lemma unfiltered_need: "unfiltered opts \<Longrightarrow> Desc e \<noteq> None \<Longrightarrow> isNeedRestore opts e = Inr True"
  by (auto simp: unfiltered_def isNeedRestore_def deref_def filter_hit_def)

lemma unfiltered_faultless: "unfiltered opts \<Longrightarrow> Desc e \<noteq> None \<Longrightarrow> faultless opts m e"
  by (auto simp: faultless_def unfiltered_need taskOf_def unfiltered_def)

lemma table_pushed: "unfiltered opts \<Longrightarrow> Desc e = Some (ascii TableDataDesc) \<Longrightarrow> pushed opts m e"
  by (simp add: pushed_def unfiltered_need taskOf_def unfiltered_def)

lemma before_prefix:
  assumes "distinct (as @ x # bs)" and "before d x (as @ x # bs)"
  shows "d \<in> set as"
proof -
  obtain as' bs' where 1: "as @ x # bs = as' @ d # bs'" "x \<in> set bs'" using assms(2) by (auto simp: before_def)
  then obtain cs ds where 2: "bs' = cs @ x # ds" by (meson split_list)
  have "as @ x # bs = (as' @ d # cs) @ x # ds" using 1(1) 2 by simp
  moreover have "x \<notin> set as" "x \<notin> set bs" using assms(1) by auto
  ultimately have "as = as' @ d # cs" using append_Cons_eq_iff [of x as bs "as' @ d # cs" ds] by blast
  then show ?thesis by simp
qed

text \<open>Tables in an order that respects the graph, then entries the graph does not know: the pusher never waits in vain.\<close>

lemma plan_orderly:
  assumes og: "ordered_graph (DependenciesGraph m) ids" and ids: "map DumpId xs = ids"
    and xs: "\<forall>e \<in> set xs. pushed opts m e" and ys: "\<forall>e \<in> set ys. DumpId e \<notin> set ids"
  shows "orderly opts m (xs @ ys)"
  unfolding orderly_def
proof (intro allI impI)
  fix gone e rest
  assume "xs @ ys = gone @ e # rest \<and> isNeedRestore opts e = Inr True"
  then have split: "xs @ ys = gone @ e # rest" by blast
  show "deps_in m (DumpId e) (pushedIds opts m gone)"
    unfolding deps_in_def dependencies_of_id_def
  proof
    fix d assume d: "d \<in> set (lookup_list (DumpId e) (DependenciesGraph m))"
    with og have bef: "before d (DumpId e) ids" and "DumpId e \<in> set ids" by (auto simp: ordered_graph_def)
    then have "length gone < length xs"
      using split ys by (auto simp: append_eq_append_conv2 Cons_eq_append_conv)
    then obtain us where "xs = gone @ us" "us \<noteq> []" "us @ ys = e # rest"
      using split by (auto simp: append_eq_append_conv2)
    then obtain more where more: "xs = gone @ e # more" by (cases us) auto
    have "distinct ids" using og by (simp add: ordered_graph_def)
    moreover have "ids = map DumpId gone @ DumpId e # map DumpId more" using ids more by simp
    ultimately have "d \<in> set (map DumpId gone)" using bef before_prefix by metis
    then show "d \<in> pushedIds opts m gone" using xs more by (auto simp: pushedIds_def)
  qed
qed

end
