(* ===== verification/RestoreClaims.thy ===== *)
theory RestoreClaims
  imports DumpOrder
begin

text \<open>
  The properties of the data section of a restore, alone and together with the dump that wrote its metadata.
\<close>

section \<open>The restore\<close>

text \<open>
  Claim C19. With \<^verbatim>\<open>--restore-in-order\<close> and more than one job, whatever the interleaving: a task that waits in the
  channel, is with a worker or is finished has every dependency of its entry restored already.
\<close>

theorem restore_waits_for_dependencies:
  assumes "waits opts" and "rsteps opts m conn ok (startRestore opts es) s"
    and "i \<in> out_ids s" and "d \<in> set (dependencies_of_id m i)"
  shows "d \<in> restoredDumpIds s"
  using dependencies_restored [OF assms(1,2)] assms(3,4) by (auto simp: out_ids_def deps_in_def)

text \<open>
  Claim C20. When no call fails and every dependency of an entry belongs to an entry pushed before it, the data section
  is restored completely: a run has at most \<open>7 n + 2 j + 1\<close> steps for \<open>n\<close> entries and \<open>j\<close> jobs, and where it cannot go
  on every goroutine has returned without an error and exactly the pushed entries are restored.
\<close>

theorem data_restore_completes:
  assumes "smooth opts m conn ok es" and "\<not> waits opts \<or> orderly opts m es"
    and "(rstep opts m conn ok ^^ k) (startRestore opts es) s"
  shows "k \<le> 7 * length es + 2 * Jobs opts + 1 \<and>
    ((\<exists>s'. rstep opts m conn ok s s') \<or> restoreSucceeded s \<and> restoredDumpIds s = pushedIds opts m es)"
  using restore_completes [OF assms] by blast

text \<open>
  Claim C21. An ordered restore with more than one job never returns when an entry it wants depends on a dump id that is
  not restored in this run (filtered out by schema or table, not in the use-list, or without an entry): the pusher
  polls for ever, although no call fails.
\<close>

theorem restore_waits_for_ever:
  assumes "smooth opts m conn ok es" and "waits opts"
    and "e \<in> set es" and "isNeedRestore opts e = Inr True"
    and "d \<in> set (dependencies_of_id m (DumpId e))" and "d \<notin> pushedIds opts m es"
    and "(rstep opts m conn ok ^^ k) (startRestore opts es) s"
  shows "k \<le> 7 * length es + 2 * Jobs opts + 1 \<and> \<not> restoreReturned s"
proof -
  note run = steps_reachable [OF assms(7)]
  from restore_hangs [OF assms(1-6) run] restore_bounded [OF assms(7)] show ?thesis by simp
qed

section \<open>A dump and its restore\<close>

lemma createTocEntries_result:
  assumes ok: "condensation_ok g" and d: "distinct (map t_Oid (g_tables g))"
    and s: "foldR (create_entry nb) objs no_entries = Inr s"
    and np: "\<forall>t \<in> set (tables_of objs). dt_RelKind t \<noteq> CHR ''p'' \<and> dt_RootPtOid t = 0"
    and oids: "t_Oid ` set (tables_of objs) = t_Oid ` set (g_tables g)"
    and ids: "distinct (map DumpId (dumped_data s))"
  obtains oids deps gr where "createTocEntries g nb objs = Inr
      \<lparr>dataEntries = dumped_data s, dumpDependenciesGraph = gr, sortedTablesDumpIds = map (id_of (tables_of objs)) oids,
       oidToDumpId = tableOidToDumpId s, objectSizes = dumpedObjectSizes s\<rparr>"
    and "set oids = t_Oid ` set (tables_of objs)"
    and "ordered_graph gr (map (id_of (tables_of objs)) oids)"
    and "\<And>e. e \<in> set (g_edges g) \<Longrightarrow> crossing (visited g) e \<Longrightarrow>
      id_of (tables_of objs) (t_Oid (g_tables g ! to_idx e)) \<in>
        set (lookup_list (id_of (tables_of objs) (t_Oid (g_tables g ! from_idx e))) gr)"
proof -
  obtain oids deps where r: "GetSortedTablesAndDependenciesGraph g = Inr (oids, deps)" "distinct oids"
    "set oids = t_Oid ` set (g_tables g)" "deps_before oids deps"
    "\<forall>e \<in> set (g_edges g). crossing (visited g) e \<longrightarrow>
       before (t_Oid (g_tables g ! to_idx e)) (t_Oid (g_tables g ! from_idx e)) oids \<and>
       t_Oid (g_tables g ! to_idx e) \<in> set (lookup_list (t_Oid (g_tables g ! from_idx e)) deps)"
    using GetSortedTables_facts [OF ok d] by blast
  have "entries_ok no_entries" by (simp add: entries_ok_def no_entries_def dumped_data_def)
  from create_entries_ok [OF s _ this] np have e: "entries_ok s" "te_dumped s = tables_of objs"
    by (simp_all add: no_entries_def)
  have "distinct (map DumpId (te_tables s))" using ids by (simp add: dumped_data_def)
  then have di: "distinct (map dt_DumpId (tables_of objs))" using e by (simp add: entries_ok_def)
  have so: "set oids = t_Oid ` set (tables_of objs)" using r(3) oids by simp
  have "\<forall>t \<in> set (tables_of objs). t_Oid t \<noteq> 0" using e by (simp add: entries_ok_def)
  then have "0 \<notin> set oids" unfolding so by (metis imageE)
  then have npt: "no_partitions oids (tables_of objs)" using np by (simp add: no_partitions_def)
  obtain gr where gr: "setDumpDependenciesGraph oids deps (tables_of objs) = Inr (gr, map (id_of (tables_of objs)) oids)"
    "ordered_graph gr (map (id_of (tables_of objs)) oids)"
    and look: "\<And>oid. oid \<in> set oids \<Longrightarrow> lookup_list (id_of (tables_of objs) oid) gr =
      map (id_of (tables_of objs)) (filter (\<lambda>d. d \<in> set oids) (lookup_list oid deps))"
    by (rule setDumpDependenciesGraph_ordered [OF so npt r(2) di r(4)]) blast
  have c: "createTocEntries g nb objs = Inr
      \<lparr>dataEntries = dumped_data s, dumpDependenciesGraph = gr, sortedTablesDumpIds = map (id_of (tables_of objs)) oids,
       oidToDumpId = tableOidToDumpId s, objectSizes = dumpedObjectSizes s\<rparr>"
    by (simp add: createTocEntries_def s r(1) e(2) gr(1) dumped_data_def)
  have "id_of (tables_of objs) (t_Oid (g_tables g ! to_idx e)) \<in>
        set (lookup_list (id_of (tables_of objs) (t_Oid (g_tables g ! from_idx e))) gr)"
    if e: "e \<in> set (g_edges g)" "crossing (visited g) e" for e
  proof -
    have b: "before (t_Oid (g_tables g ! to_idx e)) (t_Oid (g_tables g ! from_idx e)) oids"
      "t_Oid (g_tables g ! to_idx e) \<in> set (lookup_list (t_Oid (g_tables g ! from_idx e)) deps)"
      using r(5) e by auto
    then have "t_Oid (g_tables g ! to_idx e) \<in> set oids" "t_Oid (g_tables g ! from_idx e) \<in> set oids"
      by (auto simp: before_def)
    with look b(2) show ?thesis by simp
  qed
  then show ?thesis by (rule that [OF c so gr(2)])
qed

lemma object_ids:
  assumes "set oids = t_Oid ` set tables" and "distinct (map t_Oid tables)"
  shows "set (map (id_of tables) oids) = dt_DumpId ` set tables"
proof -
  have "object_at tables (t_Oid t) = t" if t: "t \<in> set tables" for t
  proof -
    have "inj_on t_Oid (set tables)" using assms(2) by (simp add: distinct_map)
    with t object_at [of "t_Oid t" tables] show ?thesis by (auto dest: inj_onD)
  qed
  then have "id_of tables ` t_Oid ` set tables = dt_DumpId ` set tables" by (force simp: image_iff)
  with assms(1) show ?thesis by simp
qed

text \<open>The plan of the pusher over the entries of a dump.\<close>

lemma dump_plan:
  assumes es: "getDataSectionTocEntries es = dumped_data s" and eo: "entries_ok s"
    and ids: "distinct (map DumpId (dumped_data s))" and mi: "set (DumpIdsOrder m) = dt_DumpId ` set (te_dumped s)"
    and og: "ordered_graph (DependenciesGraph m) (DumpIdsOrder m)"
    and opts: "unfiltered opts" "RestoreInOrder opts" "Jobs opts > 1"
  shows "\<exists>plan. pusherEntries opts m es = Inr plan \<and> orderly opts m plan \<and>
    dt_DumpId ` set (te_dumped s) \<subseteq> pushedIds opts m plan \<and> (\<forall>e \<in> set plan. faultless opts m e)"
proof -
  have tids: "dt_DumpId ` set (te_dumped s) = DumpId ` set (te_tables s)"
    using eo unfolding entries_ok_def by (metis list.set_map)
  have "\<forall>i \<in> set (DumpIdsOrder m). \<exists>e \<in> set (dumped_data s). DumpId e = i"
    unfolding mi tids by (auto simp: dumped_data_def)
  from topo_plan [OF this] obtain xs ys where p: "sortTocEntriesInTopoOrder m (dumped_data s) (Some es) = Inr (xs @ ys)"
    "map DumpId xs = DumpIdsOrder m" "set xs \<subseteq> set (dumped_data s)"
    "\<forall>e \<in> set ys. Desc e \<noteq> None \<and> DumpId e \<notin> set (DumpIdsOrder m)" by metis
  have td: "Desc e = Some (ascii TableDataDesc)" if e: "e \<in> set xs" for e
  proof -
    have "DumpId e \<in> DumpId ` set (te_tables s)" using p(2) e mi tids by (metis image_eqI list.set_map)
    then obtain e' where e': "e' \<in> set (te_tables s)" "DumpId e' = DumpId e" by auto
    have "inj_on DumpId (set (dumped_data s))" using ids by (simp add: distinct_map)
    moreover have "e' \<in> set (dumped_data s)" using e'(1) by (simp add: dumped_data_def)
    ultimately have "e' = e" using e'(2) e p(3) by (auto dest: inj_onD)
    with e'(1) eo show ?thesis by (auto simp: entries_ok_def)
  qed
  have ps: "\<forall>e \<in> set xs. pushed opts m e" using td table_pushed [OF opts(1)] by blast
  have "orderly opts m (xs @ ys)" by (rule plan_orderly [OF og p(2) ps]) (use p(4) in blast)
  moreover have "pusherEntries opts m es = Inr (xs @ ys)" using p(1) opts(2) es by (simp add: pusherEntries_def)
  moreover have "dt_DumpId ` set (te_dumped s) \<subseteq> pushedIds opts m (xs @ ys)"
    unfolding mi [symmetric] p(2) [symmetric] using ps by (auto simp: pushedIds_def)
  moreover have "\<forall>e \<in> set (xs @ ys). faultless opts m e"
    using td p(4) unfiltered_faultless [OF opts(1)] by auto
  ultimately show ?thesis by blast
qed

text \<open>The metadata of the dump, whatever else it holds.\<close>

definition recorded :: "DumpedToc \<Rightarrow> Metadata \<Rightarrow> Metadata" where
  "recorded dt m = m\<lparr>DependenciesGraph := dumpDependenciesGraph dt, DumpIdsOrder := sortedTablesDumpIds dt\<rparr>"

text \<open>
  Every run is finite, can only stop when all ids are restored without an error, and respects the given pairs: an id is
  pushed only when the one it refers to is restored.
\<close>

definition restores_in_order ::
  "RestoreOptions \<Rightarrow> Metadata \<Rightarrow> (nat \<Rightarrow> bool) \<Rightarrow> (restorationTask \<Rightarrow> bool) \<Rightarrow> Entry list \<Rightarrow>
     int32 set \<Rightarrow> (int32 \<times> int32) set \<Rightarrow> bool" where
  "restores_in_order opts m conn ok plan ids refs \<longleftrightarrow>
     (\<forall>k st. (rstep opts m conn ok ^^ k) (startRestore opts plan) st \<longrightarrow>
        k \<le> 7 * length plan + 2 * Jobs opts + 1 \<and>
        ((\<exists>st'. rstep opts m conn ok st st') \<or> restoreSucceeded st \<and> ids \<subseteq> restoredDumpIds st) \<and>
        (\<forall>(a, b) \<in> refs. a \<in> out_ids st \<longrightarrow> b \<in> restoredDumpIds st))"

lemma plan_restores_in_order:
  assumes sm: "smooth opts m conn ok plan" and w: "waits opts" and o: "orderly opts m plan"
    and ids: "ids \<subseteq> pushedIds opts m plan" and refs: "\<forall>(a, b) \<in> refs. b \<in> set (dependencies_of_id m a)"
  shows "restores_in_order opts m conn ok plan ids refs"
  unfolding restores_in_order_def
proof (intro allI impI conjI)
  fix k st assume r: "(rstep opts m conn ok ^^ k) (startRestore opts plan) st"
  show "k \<le> 7 * length plan + 2 * Jobs opts + 1" using restore_completes(1) [OF sm _ r] o by blast
  show "(\<exists>st'. rstep opts m conn ok st st') \<or> restoreSucceeded st \<and> ids \<subseteq> restoredDumpIds st"
    using restore_completes(2) [OF sm _ r] o ids by blast
  note dr = dependencies_restored [OF w steps_reachable [OF r]]
  have "deps_in m a (restoredDumpIds st)" if "a \<in> out_ids st" for a
    using that dr by (auto simp: out_ids_def)
  then show "\<forall>(a, b) \<in> refs. a \<in> out_ids st \<longrightarrow> b \<in> restoredDumpIds st"
    using refs by (auto simp: deps_in_def)
qed

text \<open>
  The pairs of dump ids of a table and one it references by a foreign key or a virtual reference that is declared, when
  the two do not reference each other (directly or not).
\<close>

definition reference_ids ::
  "(32 word \<Rightarrow> Reference list res) \<Rightarrow> VirtualReference list \<Rightarrow> Table list \<Rightarrow> DumpTable list \<Rightarrow> (int32 \<times> int32) set" where
  "reference_ids getReferences vr tables dts =
     {(id_of dts (t_Oid (tables ! i)), id_of dts (t_Oid (tables ! j))) | i j.
        refers getReferences vr tables i j \<and> \<not> (refers getReferences vr tables)\<^sup>*\<^sup>* j i}"

text \<open>
  Claim C22. The dump and its ordered restore fit together: when no dumped table is partitioned or a partition, every
  table of the graph is dumped, no call fails, and the restore filters nothing by schema, table or list and has more
  than one job, the metadata and the table of contents of the dump let the restore finish, whatever the interleaving,
  with every dumped table restored, and no table is restored before a table it references is, by a foreign key or a
  virtual reference that is declared, unless the two reference each other.
\<close>

theorem ordered_restore_of_dump:
  assumes "\<forall>t \<in> set tables. \<exists>refs. getReferences (t_Oid t) = Inr refs" and "distinct (map t_Oid tables)"
    and "NewGraph getReferences tables vr = Inr g"
    and "foldR (create_entry nb) objs no_entries = Inr s" and "distinct (map DumpId (dumped_data s))"
    and "\<forall>t \<in> set (tables_of objs). dt_RelKind t \<noteq> CHR ''p'' \<and> dt_RootPtOid t = 0"
    and "distinct (map t_Oid (tables_of objs))" and "t_Oid ` set (tables_of objs) = t_Oid ` set tables"
    and "\<forall>e \<in> set schema. Section e \<noteq> SectionData" and "MergeTocEntries bl schema (dumped_data s) = Inr es"
    and "unfiltered opts" and "RestoreInOrder opts" and "Jobs opts > 1" and "\<forall>w. conn w" and "\<forall>t. ok t"
  shows "\<exists>dt plan. createTocEntries g nb objs = Inr dt \<and> dataEntries dt = dumped_data s \<and>
    pusherEntries opts (recorded dt m) es = Inr plan \<and>
    restores_in_order opts (recorded dt m) conn ok plan
      (dt_DumpId ` set (tables_of objs)) (reference_ids getReferences vr tables (tables_of objs))"
proof -
  have g: "g_tables g = tables" "condensation_ok g"
    using NewGraph_ok [OF assms(1), of vr] assms(3) by auto
  obtain oids gr where c: "createTocEntries g nb objs = Inr
      \<lparr>dataEntries = dumped_data s, dumpDependenciesGraph = gr, sortedTablesDumpIds = map (id_of (tables_of objs)) oids,
       oidToDumpId = tableOidToDumpId s, objectSizes = dumpedObjectSizes s\<rparr>" (is "_ = Inr ?dt")
    "set oids = t_Oid ` set (tables_of objs)" "ordered_graph gr (map (id_of (tables_of objs)) oids)"
    and look: "\<And>e. e \<in> set (g_edges g) \<Longrightarrow> crossing (visited g) e \<Longrightarrow>
      id_of (tables_of objs) (t_Oid (g_tables g ! to_idx e)) \<in>
        set (lookup_list (id_of (tables_of objs) (t_Oid (g_tables g ! from_idx e))) gr)"
    by (rule createTocEntries_result [OF g(2) _ assms(4,6) _ assms(5)]) (use g(1) assms(2,8) in auto)
  have eo: "entries_ok s" "te_dumped s = tables_of objs"
    using create_entries_ok [OF assms(4)] assms(6) by (auto simp: entries_ok_def no_entries_def dumped_data_def)
  have dd: "getDataSectionTocEntries es = dumped_data s"
    by (rule merged_data [OF assms(10,9)]) (use eo in \<open>simp add: entries_ok_def\<close>)
  let ?m = "recorded ?dt m"
  obtain plan where p: "pusherEntries opts ?m es = Inr plan" "orderly opts ?m plan"
    "dt_DumpId ` set (te_dumped s) \<subseteq> pushedIds opts ?m plan" "\<forall>e \<in> set plan. faultless opts ?m e"
    using dump_plan [OF dd eo(1) assms(5), of ?m opts] object_ids [OF c(2) assms(7)] c(3) assms(11-13) eo(2)
    by (auto simp: recorded_def)
  have "restores_in_order opts ?m conn ok plan (dt_DumpId ` set (tables_of objs)) (reference_ids getReferences vr tables (tables_of objs))"
  proof (rule plan_restores_in_order [OF _ _ p(2)])
    show "smooth opts ?m conn ok plan" using assms(13-15) p(4) by (simp add: smooth_def)
    show "waits opts" using assms(12,13) by (simp add: waits_def)
    show "dt_DumpId ` set (tables_of objs) \<subseteq> pushedIds opts ?m plan" using p(3) eo(2) by simp
    show "\<forall>(a, b) \<in> reference_ids getReferences vr tables (tables_of objs). b \<in> set (dependencies_of_id ?m a)"
      unfolding reference_ids_def
    proof clarsimp
      fix i j
      assume "refers getReferences vr tables i j" "\<not> (refers getReferences vr tables)\<^sup>*\<^sup>* j i"
      from refers_crossing [OF assms(3) g(2) this] obtain e where
        "e \<in> set (g_edges g)" "crossing (visited g) e" "from_idx e = i" "to_idx e = j" by blast
      with look [of e] show "id_of (tables_of objs) (t_Oid (tables ! j))
          \<in> set (dependencies_of_id ?m (id_of (tables_of objs) (t_Oid (tables ! i))))"
        by (simp add: g(1) dependencies_of_id_def recorded_def)
    qed
  qed
  with c(1) p(1) show ?thesis by (intro exI [of _ ?dt] exI [of _ plan]) simp
qed

section \<open>On a sample\<close>

definition dump_object :: "Table \<Rightarrow> char \<Rightarrow> int32 \<Rightarrow> DumpTable" where
  "dump_object t kind i =
     \<lparr>t_Schema = t_Schema t, t_Name = t_Name t, t_Oid = t_Oid t, t_PrimaryKey = t_PrimaryKey t,
      t_SubsetConds = t_SubsetConds t, t_Columns = t_Columns t, dt_Query = '''', dt_Owner = '''', dt_RelKind = kind,
      dt_LoadViaPartitionRoot = False, dt_RootPtSchema = '''', dt_RootPtName = '''', dt_RootPtOid = 0,
      dt_Dependencies = [], dt_DumpId = i, dt_OriginalSize = 0, dt_CompressedSize = 0\<rparr>"

definition sample_options :: RestoreOptions where
  "sample_options =
     \<lparr>ro_Schema = [], ro_ExcludeSchema = [], ro_Table = [], RestoreInOrder = True, NoBlobs = False,
      NoPrivileges = False, Inserts = False, OnConflictDoNothing = False, Jobs = 2, SchemaOnly = False,
      DataOnly = False, ro_Section = '''', Clean = False, Create = False\<rparr>"

definition sample_metadata :: "dump_graph \<Rightarrow> int32 list \<Rightarrow> Metadata" where
  "sample_metadata gr ids =
     \<lparr>md_OriginalSize = 0, md_CompressedSize = 0, md_Entries = [], md_DatabaseSchema = sample_tables,
      DependenciesGraph = gr, DumpIdsOrder = ids, DumpIdsToTableOid = [(6, 100), (7, 101)]\<rparr>"

definition data_entry :: "int32 \<Rightarrow> Entry" where
  "data_entry i = zero_entry\<lparr>DumpId := i, Section := SectionData, Desc := Some (ascii TableDataDesc)\<rparr>"

lemma data_entry_simps [simp]:
  "DumpId (data_entry i) = i" "Section (data_entry i) = SectionData" "Desc (data_entry i) = Some (ascii TableDataDesc)"
  by (simp_all add: data_entry_def)

lemma sample_unfiltered: "unfiltered sample_options" "waits sample_options" "Jobs sample_options = 2"
  "RestoreInOrder sample_options"
  by (simp_all add: unfiltered_def waits_def sample_options_def)

lemma sample_smooth: "smooth sample_options m (\<lambda>_. True) (\<lambda>_. True) (map data_entry is)"
  by (auto simp: smooth_def sample_unfiltered(3) intro: unfiltered_faultless [OF sample_unfiltered(1)])

lemma sample_pushed: "pushedIds sample_options m (map data_entry is) = set is"
proof -
  have "{e \<in> set (map data_entry is). pushed sample_options m e} = data_entry ` set is"
    by (auto intro: table_pushed [OF sample_unfiltered(1)])
  then show ?thesis by (simp add: pushedIds_def image_image)
qed

abbreviation two_tables :: Metadata where
  "two_tables \<equiv> sample_metadata [(6, [7]), (7, [])] [7, 6]"

lemma sample_orderly: "orderly sample_options two_tables (map data_entry [7, 6])"
proof -
  have "before 7 6 [7, 6 :: int32]" unfolding before_def by (rule exI [of _ "[]"]) simp
  moreover have "lookup_list i (DependenciesGraph two_tables) = (if i = 6 then [7] else [])" for i
    by (simp add: sample_metadata_def lookup_list_def)
  ultimately have og: "ordered_graph (DependenciesGraph two_tables) [7, 6]" by (simp add: ordered_graph_def)
  have "orderly sample_options two_tables (map data_entry [7, 6] @ [])"
  proof (rule plan_orderly)
    show "ordered_graph (DependenciesGraph two_tables) [7, 6]" by (rule og)
    show "\<forall>e \<in> set (map data_entry [7, 6]). pushed sample_options two_tables e"
      by (auto intro: table_pushed [OF sample_unfiltered(1)])
  qed simp_all
  then show ?thesis by simp
qed

text \<open>A run of the sample that has come to its end.\<close>

definition sample_end :: "Metadata \<Rightarrow> int32 list \<Rightarrow> rstate \<Rightarrow> bool" where
  "sample_end m is s \<longleftrightarrow>
     rsteps sample_options m (\<lambda>_. True) (\<lambda>_. True) (startRestore sample_options (map data_entry is)) s \<and>
     (\<forall>t. \<not> rstep sample_options m (\<lambda>_. True) (\<lambda>_. True) s t)"

lemma sample_run:
  obtains s k where "sample_end m is s" and
    "(rstep sample_options m (\<lambda>_. True) (\<lambda>_. True) ^^ k) (startRestore sample_options (map data_entry is)) s"
  using restore_ends [of sample_options m "\<lambda>_. True" "\<lambda>_. True" "startRestore sample_options (map data_entry is)"]
    rtranclp_imp_relpowp that unfolding sample_end_def by metis

theorem data_restore_completes_witness:
  "\<exists>s. sample_end two_tables [7, 6] s \<and> restoreSucceeded s \<and> restoredDumpIds s = {7, 6}"
proof -
  obtain s k where s: "sample_end two_tables [7, 6] s" and k:
    "(rstep sample_options two_tables (\<lambda>_. True) (\<lambda>_. True) ^^ k) (startRestore sample_options (map data_entry [7, 6])) s"
    by (rule sample_run)
  from data_restore_completes [OF sample_smooth _ k] sample_orderly s
  have "restoreSucceeded s \<and> restoredDumpIds s = pushedIds sample_options two_tables (map data_entry [7, 6])"
    unfolding sample_end_def by blast
  with s show ?thesis unfolding sample_pushed by auto
qed

theorem restore_waits_for_dependencies_witness:
  "\<exists>s. sample_end two_tables [7, 6] s \<and> 6 \<in> out_ids s \<and> 7 \<in> restoredDumpIds s"
proof -
  obtain s k where s: "sample_end two_tables [7, 6] s" and k:
    "(rstep sample_options two_tables (\<lambda>_. True) (\<lambda>_. True) ^^ k) (startRestore sample_options (map data_entry [7, 6])) s"
    by (rule sample_run)
  have "restoredDumpIds s = pushedIds sample_options two_tables (map data_entry [7, 6])"
    using restore_completes(2) [OF sample_smooth _ k] sample_orderly s unfolding sample_end_def by blast
  then have out: "6 \<in> out_ids s" unfolding sample_pushed by (simp add: out_ids_def)
  have "7 \<in> set (dependencies_of_id two_tables 6)"
    by (simp add: dependencies_of_id_def sample_metadata_def lookup_list_def)
  with restore_waits_for_dependencies [OF sample_unfiltered(2) steps_reachable [OF k] out] out s show ?thesis by blast
qed

text \<open>
  A table that references a partitioned table: the dump records the dump id of the partitioned table as a dependency
  but writes no entry for it.
\<close>

definition partitioned_objects :: "DumpTable list" where
  "partitioned_objects = [dump_object (sample_tables ! 0) CHR ''r'' 6, dump_object (sample_tables ! 1) CHR ''p'' 7]"

lemma partitioned_graph:
  "setDumpDependenciesGraph [101, 100] [(100, [101]), (101, [])] partitioned_objects = Inr ([(7, []), (6, [7])], [7, 6])"
  by (simp add: setDumpDependenciesGraph_def set_dependencies_def dep_ids_def partitioned_objects_def dump_object_def
      sample_tables_def sample_table_def lookup_list_def)

theorem restore_waits_for_ever_witness:
  "\<exists>gr ids s. setDumpDependenciesGraph [101, 100] [(100, [101]), (101, [])] partitioned_objects = Inr (gr, ids) \<and>
    pusherEntries sample_options (sample_metadata gr ids) [data_entry 6] = Inr (map data_entry [6]) \<and>
    sample_end (sample_metadata gr ids) [6] s \<and> \<not> restoreReturned s"
proof -
  let ?m = "sample_metadata [(7, []), (6, [7])] [7, 6]"
  obtain s k where s: "sample_end ?m [6] s" and k:
    "(rstep sample_options ?m (\<lambda>_. True) (\<lambda>_. True) ^^ k) (startRestore sample_options (map data_entry [6])) s"
    by (rule sample_run)
  have "7 \<in> set (dependencies_of_id ?m (DumpId (data_entry 6)))"
    by (simp add: dependencies_of_id_def sample_metadata_def lookup_list_def)
  moreover have "7 \<notin> pushedIds sample_options ?m (map data_entry [6])" unfolding sample_pushed by simp
  moreover have "isNeedRestore sample_options (data_entry 6) = Inr True"
    by (rule unfiltered_need [OF sample_unfiltered(1)]) simp
  ultimately have "\<not> restoreReturned s"
    using restore_waits_for_ever [OF sample_smooth sample_unfiltered(2) _ _ _ _ k, of "data_entry 6" 7] by simp
  moreover have "pusherEntries sample_options ?m [data_entry 6] = Inr (map data_entry [6])"
    by (simp add: pusherEntries_def sample_unfiltered getDataSectionTocEntries_def sortTocEntriesInTopoOrder_def
        sample_metadata_def sample_tables_def sample_table_def is_other_data_def is_acl_def SectionData_def SectionNone_def)
  ultimately show ?thesis using s partitioned_graph by blast
qed

abbreviation two_objects :: "DumpTable list" where
  "two_objects \<equiv> [dump_object (sample_tables ! 0) CHR ''r'' 6, dump_object (sample_tables ! 1) CHR ''r'' 7]"

lemma sample_entries:
  "\<exists>s. foldR (create_entry False) (map TableObj two_objects) no_entries = Inr s \<and> map DumpId (dumped_data s) = [6, 7]"
  by (simp add: Table_Entry_def dump_object_def sample_tables_def sample_table_def no_entries_def dumped_data_def)

theorem ordered_restore_of_dump_witness:
  "\<exists>g dt es plan. NewGraph sample_refs sample_tables [] = Inr g \<and>
    createTocEntries g False (map TableObj two_objects) = Inr dt \<and> MergeTocEntries None [] (dataEntries dt) = Inr es \<and>
    pusherEntries sample_options (recorded dt (sample_metadata [] [])) es = Inr plan \<and>
    restores_in_order sample_options (recorded dt (sample_metadata [] [])) (\<lambda>_. True) (\<lambda>_. True) plan {6, 7}
      (reference_ids sample_refs [] sample_tables two_objects) \<and>
    reference_ids sample_refs [] sample_tables two_objects = {(6, 7)}"
proof -
  have refs: "reference_ids sample_refs [] sample_tables two_objects = {(6, 7)}"
  proof -
    have one: "refers sample_refs [] sample_tables i j \<and> \<not> (refers sample_refs [] sample_tables)\<^sup>*\<^sup>* j i \<longleftrightarrow> i = 0 \<and> j = 1"
      for i j using sample_one_way sample_refers by blast
    have "id_of two_objects (t_Oid (sample_tables ! 0)) = 6" "id_of two_objects (t_Oid (sample_tables ! 1)) = 7"
      by (simp_all add: object_at_def dump_object_def sample_tables_def sample_table_def)
    then show ?thesis unfolding reference_ids_def one by auto
  qed
  obtain g where g: "NewGraph sample_refs sample_tables [] = Inr g" using NewGraph_ok [OF sample_refs_ok] by blast
  obtain s where s: "foldR (create_entry False) (map TableObj two_objects) no_entries = Inr s"
    "map DumpId (dumped_data s) = [6, 7]"
    using sample_entries by (elim exE conjE)
  have ids: "distinct (map DumpId (dumped_data s))" unfolding s(2) by simp
  have d: "distinct (map t_Oid sample_tables)" by (simp add: sample_tables_def sample_table_def)
  have t: "tables_of (map TableObj two_objects) = two_objects" by simp
  have oids: "distinct (map t_Oid (tables_of (map TableObj two_objects)))"
    "t_Oid ` set (tables_of (map TableObj two_objects)) = t_Oid ` set sample_tables"
    unfolding t by (simp_all add: dump_object_def sample_tables_def sample_table_def)
  have kinds: "\<forall>t \<in> set (tables_of (map TableObj two_objects)). dt_RelKind t \<noteq> CHR ''p'' \<and> dt_RootPtOid t = 0"
    unfolding t by (simp add: dump_object_def)
  have m: "MergeTocEntries None [] (dumped_data s) = Inr (dumped_data s)" by (simp add: MergeTocEntries_def)
  have none: "\<forall>e \<in> set ([] :: Entry list). Section e \<noteq> SectionData" and jobs: "1 < Jobs sample_options"
    and ok: "\<forall>w :: nat. True" "\<forall>t :: restorationTask. True"
    by (simp_all add: sample_unfiltered(3))
  have "\<exists>dt plan. createTocEntries g False (map TableObj two_objects) = Inr dt \<and> dataEntries dt = dumped_data s \<and>
      pusherEntries sample_options (recorded dt (sample_metadata [] [])) (dumped_data s) = Inr plan \<and>
      restores_in_order sample_options (recorded dt (sample_metadata [] [])) (\<lambda>_. True) (\<lambda>_. True) plan
        (dt_DumpId ` set two_objects) (reference_ids sample_refs [] sample_tables two_objects)"
    by (rule ordered_restore_of_dump [OF sample_refs_ok d g s(1) ids kinds oids none m sample_unfiltered(1,4) jobs ok,
        unfolded t])
  then obtain dt plan where r: "createTocEntries g False (map TableObj two_objects) = Inr dt"
    "dataEntries dt = dumped_data s"
    "pusherEntries sample_options (recorded dt (sample_metadata [] [])) (dumped_data s) = Inr plan"
    "restores_in_order sample_options (recorded dt (sample_metadata [] [])) (\<lambda>_. True) (\<lambda>_. True) plan
        (dt_DumpId ` set two_objects) (reference_ids sample_refs [] sample_tables two_objects)"
    by (elim exE conjE)
  have "dt_DumpId ` set two_objects = {6, 7}" by (simp add: dump_object_def)
  with r g m refs show ?thesis
    by (intro exI [of _ g] exI [of _ dt] exI [of _ "dumped_data s"] exI [of _ plan]) (simp only: simp_thms)
qed

end
