(* ===== verification/ApplyRefs.thy ===== *)
theory ApplyRefs
  imports SubsetGraph
begin

text \<open>
  The configuration of a table and the transformers it hands to referencing tables
  (\<^verbatim>\<open>internal/db/postgres/context/config_builder.go\<close>, the data of \<^verbatim>\<open>internal/domains/config.go\<close> and the
  warnings of \<^verbatim>\<open>pkg/toolkit/validation_warning.go\<close>).

  A pointer to an entry is the entry's \<open>Table\<close>; a Go map that is ranged over is the list of its pairs in the
  order of the range; the visited map of maps is the set of its pairs. The transformer registry, the list of the
  partitions and everything that reads the database are parameters. The depth-first search of the reversed graph
  has fuel: \<open>None\<close> stands for a search that has not returned yet.
\<close>

section \<open>Strings\<close>

definition is_prefix :: "string \<Rightarrow> string \<Rightarrow> bool" where
  "is_prefix p s \<longleftrightarrow> take (length p) s = p"

text \<open>\<^verbatim>\<open>strings.ReplaceAll\<close> for a non-empty old string: occurrences from the left, none overlapping.\<close>

function ReplaceAll :: "string \<Rightarrow> string \<Rightarrow> string \<Rightarrow> string" where
  "ReplaceAll old new s =
     (if old = [] \<or> s = [] then s
      else if is_prefix old s then new @ ReplaceAll old new (drop (length old) s)
      else hd s # ReplaceAll old new (List.tl s))"
  by pat_completeness auto
termination
  by (relation "measure (\<lambda>(old, new, s). length s)") auto

declare ReplaceAll.simps [simp del]

definition is_alpha :: "char \<Rightarrow> bool" where
  "is_alpha c \<longleftrightarrow> (let n = of_char c :: nat in 65 \<le> n \<and> n \<le> 90 \<or> 97 \<le> n \<and> n \<le> 122)"

definition is_digit :: "char \<Rightarrow> bool" where
  "is_digit c \<longleftrightarrow> (let n = of_char c :: nat in 48 \<le> n \<and> n \<le> 57)"

definition ident_start :: "char \<Rightarrow> bool" where
  "ident_start c \<longleftrightarrow> is_alpha c \<or> c = CHR ''_''"

definition ident_char :: "char \<Rightarrow> bool" where
  "ident_char c \<longleftrightarrow> is_alpha c \<or> is_digit c \<or> c = CHR ''_''"

definition record_ns :: string where "record_ns = ''record''"
definition raw_record_ns :: string where "raw_record_ns = ''raw_record''"

text \<open>
  A match of \<^verbatim>\<open>(?:record|raw_record)\.([a-zA-Z_][a-zA-Z0-9_]*)\<close> at the start of the string: the captured column
  and what follows.
\<close>

definition match_after :: "string \<Rightarrow> string \<Rightarrow> (string \<times> string) option" where
  "match_after ns s =
     (if is_prefix (ns @ ''.'') s then
        (let r = drop (length ns + 1) s in
         if r \<noteq> [] \<and> ident_start (hd r) then Some (takeWhile ident_char r, dropWhile ident_char r) else None)
      else None)"

definition match_column :: "string \<Rightarrow> (string \<times> string) option" where
  "match_column s =
     (case match_after record_ns s of Some m \<Rightarrow> Some m | None \<Rightarrow> match_after raw_record_ns s)"

lemma match_after_shorter:
  assumes "match_after ns s = Some (c, r)" shows "length r < length s"
proof -
  have p: "is_prefix (ns @ ''.'') s" and r: "r = dropWhile ident_char (drop (length ns + 1) s)"
    using assms by (auto simp: match_after_def Let_def split: if_splits)
  have "s \<noteq> []" using p by (auto simp: is_prefix_def)
  moreover have "length r \<le> length (drop (length ns + 1) s)" unfolding r by (rule length_dropWhile_le)
  ultimately show ?thesis by (cases s) auto
qed

lemma match_column_shorter: "match_column s = Some (c, r) \<Longrightarrow> length r < length s"
  by (auto simp: match_column_def split: option.splits dest: match_after_shorter)

text \<open>\<^verbatim>\<open>FindAllStringSubmatch\<close> of that expression: the captured columns.\<close>

function find_columns :: "string \<Rightarrow> string list" where
  "find_columns s =
     (if s = [] then []
      else case match_column s of
        Some (c, r) \<Rightarrow> c # find_columns r
      | None \<Rightarrow> find_columns (List.tl s))"
  by pat_completeness auto
termination
  by (relation "measure length") (auto dest: match_column_shorter)

declare find_columns.simps [simp del]

section \<open>Warnings\<close>

datatype Severity = SevError | SevWarning | SevInfo | SevDebug

datatype MetaValue = MetaStr string | MetaInt nat | MetaStrs "string list"

record ValidationWarning =
  w_Msg :: string
  w_Severity :: Severity
  w_Meta :: "(string \<times> MetaValue) list"

definition NewValidationWarning :: ValidationWarning where
  "NewValidationWarning = \<lparr>w_Msg = '''', w_Severity = SevWarning, w_Meta = []\<rparr>"

definition SetMsg :: "string \<Rightarrow> ValidationWarning \<Rightarrow> ValidationWarning" where
  "SetMsg s w = w\<lparr>w_Msg := s\<rparr>"

definition SetSeverity :: "Severity \<Rightarrow> ValidationWarning \<Rightarrow> ValidationWarning" where
  "SetSeverity s w = w\<lparr>w_Severity := s\<rparr>"

definition AddMeta :: "string \<Rightarrow> MetaValue \<Rightarrow> ValidationWarning \<Rightarrow> ValidationWarning" where
  "AddMeta k v w = w\<lparr>w_Meta := AList.update k v (w_Meta w)\<rparr>"

definition IsFatal :: "ValidationWarning list \<Rightarrow> bool" where
  "IsFatal ws \<longleftrightarrow> list_ex (\<lambda>w. w_Severity w = SevError) ws"

text \<open>\<^verbatim>\<open>HasUnresolved\<close>: the hash of a warning (md5 of its text) is a parameter.\<close>

definition HasUnresolved :: "(ValidationWarning \<Rightarrow> string) \<Rightarrow> string list \<Rightarrow> ValidationWarning list \<Rightarrow> bool" where
  "HasUnresolved hash resolved ws \<longleftrightarrow>
     list_ex (\<lambda>w. (w_Severity w = SevWarning \<or> w_Severity w = SevError) \<and> hash w \<notin> set resolved) ws"

text \<open>\<^verbatim>\<open>PrintValidationWarnings\<close>: the warnings it logs, or the error for a resolved one that is an error.\<close>

fun PrintValidationWarnings ::
  "(ValidationWarning \<Rightarrow> string) \<Rightarrow> string list \<Rightarrow> bool \<Rightarrow> ValidationWarning list \<Rightarrow> ValidationWarning list res" where
  "PrintValidationWarnings hash resolved printAll [] = Inr []"
| "PrintValidationWarnings hash resolved printAll (w # ws) =
     (if hash w \<in> set resolved then
        if w_Severity w = SevError then err ''warning cannot be excluded because it is an error''
        else PrintValidationWarnings hash resolved printAll ws
      else bindR (PrintValidationWarnings hash resolved printAll ws) (\<lambda>out.
        Inr (if w_Severity w = SevError \<or> printAll then w # out else out)))"

section \<open>The configuration\<close>

record TransformerConfig =
  tr_Name :: string
  tr_ResolveEnv :: bool
  ApplyForReferences :: bool
  tr_Params :: "(string \<times> string) list"
  tr_DynamicParams :: "(string \<times> string) list"
  tr_When :: string

definition Clone :: "TransformerConfig \<Rightarrow> TransformerConfig" where
  "Clone tc = \<lparr>tr_Name = tr_Name tc, tr_ResolveEnv = False, ApplyForReferences = ApplyForReferences tc,
     tr_Params = tr_Params tc, tr_DynamicParams = tr_DynamicParams tc, tr_When = tr_When tc\<rparr>"

record TableConfig =
  tc_Schema :: string
  tc_Name :: string
  tc_Query :: string
  ApplyForInherited :: bool
  tc_Transformers :: "TransformerConfig list"
  ColumnsTypeOverride :: "(string \<times> string) list"
  tc_SubsetConds :: "string list"
  tc_When :: string

text \<open>\<^verbatim>\<open>string(m[k])\<close> and \<^verbatim>\<open>m[k]\<close> of a map to strings: the zero value for a key that is not there.\<close>

definition get_str :: "(string \<times> string) list \<Rightarrow> string \<Rightarrow> string" where
  "get_str m k = (case map_of m k of None \<Rightarrow> '''' | Some v \<Rightarrow> v)"

definition columnParameterName :: string where "columnParameterName = ''column''"
definition engineParameterName :: string where "engineParameterName = ''engine''"

text \<open>\<^verbatim>\<open>transformersMapping\<close> and \<^verbatim>\<open>tableConfigMapping\<close>\<close>

record TransformersMapping =
  tm_entry :: Table
  tm_columnName :: string
  tm_attNum :: nat
  tm_cfg :: TransformerConfig
  tm_index :: nat

record TableConfigMapping =
  tcm_entry :: Table
  tcm_config :: TableConfig

definition hasTransformerWithApplyForReferences :: "TableConfigMapping \<Rightarrow> bool" where
  "hasTransformerWithApplyForReferences tcm \<longleftrightarrow> list_ex ApplyForReferences (tc_Transformers (tcm_config tcm))"

definition same_or_quoted :: "string \<Rightarrow> string \<Rightarrow> bool" where
  "same_or_quoted a b \<longleftrightarrow> a = b \<or> quoted a = b"

definition findTablesWithTransformers :: "TableConfig list \<Rightarrow> Table list \<Rightarrow> TableConfigMapping list" where
  "findTablesWithTransformers cfg tables =
     concat (List.map (\<lambda>entry.
       case index_func (\<lambda>c. same_or_quoted (tc_Name c) (t_Name entry) \<and>
                            same_or_quoted (tc_Schema c) (t_Schema entry)) cfg of
         None \<Rightarrow> []
       | Some idx \<Rightarrow> [\<lparr>tcm_entry = entry, tcm_config = cfg ! idx\<rparr>]) tables)"

text \<open>\<^verbatim>\<open>findTableIndex\<close>\<close>

definition findTableIndex :: "Graph \<Rightarrow> Table \<Rightarrow> nat option" where
  "findTableIndex g t =
     index_func (\<lambda>u. same_or_quoted (t_Name t) (t_Name u) \<and> same_or_quoted (t_Schema t) (t_Schema u)) (g_tables g)"

section \<open>What a transformer must allow\<close>

text \<open>
  The properties of a transformer the checks ask for: the two metadata values, \<open>None\<close> for an absent key and
  \<open>Some None\<close> for a value that is not a bool.
\<close>

record TransformerProps =
  AllowApplyForReferenced :: "bool option option"
  RequireHashEngineParameter :: "bool option option"

type_synonym registry = "string \<Rightarrow> TransformerProps option"

definition not_allowed :: "string \<Rightarrow> string \<Rightarrow> bool \<times> ValidationWarning list" where
  "not_allowed msg name =
     (False, [SetSeverity SevError (AddMeta ''TransformerName'' (MetaStr name) (SetMsg msg NewValidationWarning))])"

definition isTransformerAllowedToApplyForReferences ::
  "TransformerConfig \<Rightarrow> registry \<Rightarrow> bool \<times> ValidationWarning list" where
  "isTransformerAllowedToApplyForReferences cfg r =
     (case r (tr_Name cfg) of
        None \<Rightarrow> not_allowed ''transformer not found'' (tr_Name cfg)
      | Some td \<Rightarrow>
          (case AllowApplyForReferenced td of
             None \<Rightarrow> not_allowed ''transformer does not support apply for references'' (tr_Name cfg)
           | Some v \<Rightarrow>
               if v \<noteq> Some True then
                 not_allowed ''cannot apply transformer for references: transformer does not support apply for references''
                   (tr_Name cfg)
               else case RequireHashEngineParameter td of
                 None \<Rightarrow> (True, [])
               | Some None \<Rightarrow> not_allowed ''transformer does not support apply for references'' (tr_Name cfg)
               | Some (Some False) \<Rightarrow> (True, [])
               | Some (Some True) \<Rightarrow>
                   if get_str (tr_Params cfg) engineParameterName \<noteq> ''hash'' then
                     not_allowed ''cannot apply transformer for references: engine parameter is not hash'' (tr_Name cfg)
                   else (True, [])))"

definition checkApplyForReferenceMetRequirements ::
  "TableConfigMapping \<Rightarrow> registry \<Rightarrow> bool \<times> ValidationWarning list" where
  "checkApplyForReferenceMetRequirements tcm r =
     (let warnings = concat (List.map (\<lambda>tr.
            let (allowed, w) = isTransformerAllowedToApplyForReferences tr r in if allowed then [] else w)
            (filter ApplyForReferences (tc_Transformers (tcm_config tcm))))
      in (\<not> IsFatal warnings, warnings))"

section \<open>The inherited transformer\<close>

fun checkTransformerAlreadyExists ::
  "TableConfig list \<Rightarrow> string \<Rightarrow> string \<Rightarrow> string \<Rightarrow> string \<Rightarrow> bool" where
  "checkTransformerAlreadyExists [] schemaName tableName tranName tColumn = False"
| "checkTransformerAlreadyExists (c # conf) schemaName tableName tranName tColumn =
     (tc_Name c = tableName \<and> tc_Schema c = schemaName \<and>
        list_ex (\<lambda>tr. tr_Name tr = tranName \<and> get_str (tr_Params tr) columnParameterName = tColumn)
          (tc_Transformers c) \<or>
      checkTransformerAlreadyExists conf schemaName tableName tranName tColumn)"

definition getColumnTypeOverride :: "TableConfig \<Rightarrow> string \<Rightarrow> (string \<times> string) list" where
  "getColumnTypeOverride cfg columnName =
     (if get_str (ColumnsTypeOverride cfg) columnName \<noteq> ''''
      then [(columnName, get_str (ColumnsTypeOverride cfg) columnName)] else [])"

text \<open>The condition a child inherits: textual replacement in both namespaces.\<close>

definition child_when :: "string \<Rightarrow> string \<Rightarrow> string \<Rightarrow> string" where
  "child_when parentCol refCol cond =
     ReplaceAll (raw_record_ns @ ''.'' @ parentCol) (raw_record_ns @ ''.'' @ refCol)
       (ReplaceAll (record_ns @ ''.'' @ parentCol) (record_ns @ ''.'' @ refCol) cond)"

definition child_transformer :: "TransformersMapping \<Rightarrow> string \<Rightarrow> TransformerConfig" where
  "child_transformer rootTr refColName =
     (let tr = (Clone (tm_cfg rootTr))
            \<lparr>tr_Params := AList.update ''column'' refColName (tr_Params (tm_cfg rootTr))\<rparr>
      in if tr_When (tm_cfg rootTr) \<noteq> ''''
         then tr\<lparr>tr_When := child_when (tm_columnName rootTr) refColName (tr_When (tm_cfg rootTr))\<rparr>
         else tr)"

definition missing_column :: "Table \<Rightarrow> string \<Rightarrow> ValidationWarning" where
  "missing_column t c =
     AddMeta ''ColumnName'' (MetaStr c) (AddMeta ''TableName'' (MetaStr (t_Name t)) (AddMeta ''SchemaName'' (MetaStr (t_Schema t))
       (SetSeverity SevError (SetMsg
          (''cannot inherit condition: column '' @ c @ '' not found in table '' @ t_Schema t @ ''.'' @ t_Name t)
          NewValidationWarning))))"

definition validateDoesInheritedConditionHaveAllColumns ::
  "Table \<Rightarrow> TransformerConfig \<Rightarrow> ValidationWarning list" where
  "validateDoesInheritedConditionHaveAllColumns t cfg =
     (if tr_When cfg = '''' then []
      else List.map (missing_column t)
        (filter (\<lambda>c. c \<notin> set (List.map col_Name (t_Columns t))) (find_columns (tr_When cfg))))"

definition addTransformerToReferenceTable ::
  "Edge \<Rightarrow> TransformerConfig \<Rightarrow> (string \<times> string) list \<Rightarrow> TableConfigMapping list \<Rightarrow> TableConfigMapping list" where
  "addTransformerToReferenceTable r trConf override out =
     (let t = link_table (edge_to r) in
      case index_func (\<lambda>tcm. t_Name (tcm_entry tcm) = t_Name t \<and> t_Schema (tcm_entry tcm) = t_Schema t) out of
        Some i \<Rightarrow> out[i := (out ! i)\<lparr>tcm_config := (tcm_config (out ! i))
                        \<lparr>tc_Transformers := tc_Transformers (tcm_config (out ! i)) @ [trConf]\<rparr>\<rparr>]
      | None \<Rightarrow> out @ [\<lparr>tcm_entry = t,
                 tcm_config = \<lparr>tc_Schema = t_Schema t, tc_Name = t_Name t, tc_Query = '''', ApplyForInherited = False,
                   tc_Transformers = [trConf], ColumnsTypeOverride = override, tc_SubsetConds = [],
                   tc_When = ''''\<rparr>\<rparr>])"

section \<open>The search\<close>

type_synonym active = "(nat \<times> TransformersMapping list) list"

record RefState =
  rs_res :: "TableConfigMapping list"
  rs_visited :: "(nat \<times> nat) set"

definition key_name_at :: "Key list \<Rightarrow> nat \<Rightarrow> string res" where
  "key_name_at ks i = (if i < length ks then Inr (key_Name (ks ! i)) else panic ''index out of range'')"

text \<open>One root transformer on one reference.\<close>

definition processTransformer ::
  "Edge \<Rightarrow> TableConfig \<Rightarrow> TableConfig list \<Rightarrow> nat \<times> TransformersMapping \<Rightarrow>
   RefState \<times> ValidationWarning list \<Rightarrow> (RefState \<times> ValidationWarning list) res" where
  "processTransformer r rootCfg allTrans = (\<lambda>(parentIdx, rootTr) (st, warnings).
     if (edge_id r, tm_index rootTr) \<in> rs_visited st then Inr (st, warnings)
     else let st1 = st\<lparr>rs_visited := insert (edge_id r, tm_index rootTr) (rs_visited st)\<rparr>;
              t = link_table (edge_to r)
     in bindR (key_name_at (link_keys (edge_to r)) parentIdx) (\<lambda>refColName.
        if checkTransformerAlreadyExists allTrans (t_Schema t) (t_Name t) (tr_Name (tm_cfg rootTr)) refColName
        then Inr (st1, warnings)
        else let trConf = child_transformer rootTr refColName
        in Inr (st1\<lparr>rs_res := addTransformerToReferenceTable r trConf
                     (getColumnTypeOverride rootCfg (tm_columnName rootTr)) (rs_res st1)\<rparr>,
                warnings @ validateDoesInheritedConditionHaveAllColumns t trConf)))"

definition flatten :: "active \<Rightarrow> (nat \<times> TransformersMapping) list" where
  "flatten am = concat (List.map (\<lambda>(i, trs). List.map (Pair i) trs) am)"

definition processReference ::
  "Edge \<Rightarrow> TableConfig \<Rightarrow> TableConfig list \<Rightarrow> active \<Rightarrow> RefState \<times> ValidationWarning list \<Rightarrow>
   (RefState \<times> ValidationWarning list) res" where
  "processReference r rootCfg allTrans am = foldR (processTransformer r rootCfg allTrans) (flatten am)"

text \<open>The active transformers of the child: those whose foreign key column is a column of its primary key.\<close>

definition child_active :: "Edge \<Rightarrow> active \<Rightarrow> active res" where
  "child_active r am =
     foldR (\<lambda>(parentIdx, trs) out.
        bindR (key_name_at (link_keys (edge_to r)) parentIdx) (\<lambda>childColName.
        Inr (case index_func (\<lambda>pk. pk = childColName) (t_PrimaryKey (link_table (edge_to r))) of
               None \<Rightarrow> out | Some j \<Rightarrow> AList.update j trs out))) am []"

definition not_in_graph :: "Table \<Rightarrow> ValidationWarning" where
  "not_in_graph t =
     SetMsg ''transformer inheritance for ref: cannot find table in the graph: table will be ignored''
       (AddMeta ''TableName'' (MetaStr (t_Name t)) (AddMeta ''SchemaName'' (MetaStr (t_Schema t))
          (SetSeverity SevWarning NewValidationWarning)))"

fun buildRefsWithEndToEndDfs ::
  "nat \<Rightarrow> TableConfig \<Rightarrow> Graph \<Rightarrow> TableConfig list \<Rightarrow> Table \<Rightarrow> bool \<Rightarrow> active \<Rightarrow>
   RefState \<times> ValidationWarning list \<Rightarrow> (RefState \<times> ValidationWarning list) res option"
and refs_loop ::
  "nat \<Rightarrow> TableConfig \<Rightarrow> Graph \<Rightarrow> TableConfig list \<Rightarrow> Edge list \<Rightarrow> bool \<Rightarrow> active \<Rightarrow>
   RefState \<times> ValidationWarning list \<Rightarrow> (RefState \<times> ValidationWarning list) res option" where
  "buildRefsWithEndToEndDfs 0 rootCfg g allTrans t chk am s = None"
| "buildRefsWithEndToEndDfs (Suc n) rootCfg g allTrans t chk am s =
     (if am = [] then Some (Inr s)
      else case findTableIndex g t of
        None \<Rightarrow> Some (Inr (fst s, snd s @ [not_in_graph t]))
      | Some tableIdx \<Rightarrow>
          if tableIdx < length (reversedGraph g)
          then refs_loop n rootCfg g allTrans (reversedGraph g ! tableIdx) chk am s
          else Some (panic ''index out of range''))"
| "refs_loop n rootCfg g allTrans [] chk am s = Some (Inr s)"
| "refs_loop n rootCfg g allTrans (r # rs) chk am s =
     (case child_active r am of
        Inl e \<Rightarrow> Some (Inl e)
      | Inr childAm \<Rightarrow>
          if chk \<and> childAm = [] then refs_loop n rootCfg g allTrans rs chk am s
          else case processReference r rootCfg allTrans am s of
            Inl e \<Rightarrow> Some (Inl e)
          | Inr s1 \<Rightarrow>
              if childAm = [] then refs_loop n rootCfg g allTrans rs chk am s1
              else case buildRefsWithEndToEndDfs n rootCfg g allTrans (link_table (edge_to r)) True childAm s1 of
                None \<Rightarrow> None
              | Some (Inl e) \<Rightarrow> Some (Inl e)
              | Some (Inr s2) \<Rightarrow> refs_loop n rootCfg g allTrans rs chk am s2)"

declare buildRefsWithEndToEndDfs.simps [simp del] refs_loop.simps [simp del]

definition root_mapping :: "Table \<Rightarrow> TransformerConfig \<Rightarrow> TransformersMapping option" where
  "root_mapping rootTable tr =
     (if \<not> ApplyForReferences tr \<or> get_str (tr_Params tr) engineParameterName \<noteq> ''hash'' then None
      else let c = get_str (tr_Params tr) columnParameterName in
        map_option (\<lambda>i. \<lparr>tm_entry = rootTable, tm_columnName = c, tm_attNum = i, tm_cfg = tr, tm_index = 0\<rparr>)
          (index_func (\<lambda>pk. pk = c) (t_PrimaryKey rootTable)))"

definition collectRootTransformers :: "Table \<Rightarrow> TableConfig \<Rightarrow> TransformersMapping list" where
  "collectRootTransformers rootTable cfg = List.map_filter (root_mapping rootTable) (tc_Transformers cfg)"

definition index_roots :: "TransformersMapping list \<Rightarrow> TransformersMapping list" where
  "index_roots rts = List.map (\<lambda>(i, rt). rt\<lparr>tm_index := i\<rparr>) (List.enumerate 0 rts)"

text \<open>\<^verbatim>\<open>activeMappings[rt.attNum] = append(activeMappings[rt.attNum], rt)\<close>\<close>

definition root_active :: "TransformersMapping list \<Rightarrow> active" where
  "root_active rts = fold (\<lambda>rt. append_at (tm_attNum rt) rt) (index_roots rts) []"

definition getRefTables ::
  "nat \<Rightarrow> Table \<Rightarrow> TableConfig \<Rightarrow> Graph \<Rightarrow> TableConfig list \<Rightarrow>
   (TableConfigMapping list \<times> ValidationWarning list) res option" where
  "getRefTables n rootTable rootCfg g allTrans =
     map_option (\<lambda>o'. bindR o' (\<lambda>(st, ws). Inr (rs_res st, ws)))
       (buildRefsWithEndToEndDfs n rootCfg g allTrans rootTable False
          (root_active (collectRootTransformers rootTable rootCfg)) (\<lparr>rs_res = [], rs_visited = {}\<rparr>, []))"

end
