(* ===== verification/ConfigBuild.thy ===== *)
theory ConfigBuild
  imports ApplyRefs
begin

text \<open>
  The configuration of a dump applied to the tables: the check of the virtual references
  (\<^verbatim>\<open>context/virtual_references.go\<close>), the mappings of configurations to tables and their application in order
  (\<^verbatim>\<open>validateAndBuildEntriesConfig\<close>, \<^verbatim>\<open>setConfigToEntries\<close> of \<^verbatim>\<open>context/config_builder.go\<close>).

  The fields of an entry the configuration writes are a store indexed by the oid of the table. The driver, the
  compiled conditions, the transformers and the queries of the database are fields of an environment, which stands
  for the code they come from.
\<close>

section \<open>Virtual references\<close>

definition error_warning :: "string \<Rightarrow> (string \<times> MetaValue) list \<Rightarrow> ValidationWarning" where
  "error_warning msg meta =
     fold (\<lambda>(k, v). AddMeta k v) meta (SetMsg msg (SetSeverity SevError NewValidationWarning))"

definition warn_if :: "bool \<Rightarrow> string \<Rightarrow> (string \<times> MetaValue) list \<Rightarrow> ValidationWarning list" where
  "warn_if b msg meta = (if b then [error_warning msg meta] else [])"

definition getReferencedKeys :: "DomainReference \<Rightarrow> string list" where
  "getReferencedKeys r =
     concat (List.map (\<lambda>(n, e). if n \<noteq> '''' then [n] else if e \<noteq> '''' then [e] else []) (dref_Columns r))"

definition has_column :: "Table \<Rightarrow> string \<Rightarrow> bool" where
  "has_column t c \<longleftrightarrow> list_ex (\<lambda>col. col_Name col = c) (t_Columns t)"

definition validateColumn :: "nat \<Rightarrow> string \<times> string \<Rightarrow> Table \<Rightarrow> ValidationWarning list" where
  "validateColumn colIdx c fkT =
     warn_if (fst c = '''' \<and> snd c = '''') ''virtual reference error: name or expression is required''
       [(''ColumnIdx'', MetaInt colIdx)] @
     warn_if (fst c \<noteq> '''' \<and> snd c \<noteq> '''') ''virtual reference error: name and expression are mutually exclusive''
       [(''ColumnIdx'', MetaInt colIdx)] @
     warn_if (fst c \<noteq> '''' \<and> \<not> has_column fkT (fst c)) ''virtual reference error: column not found''
       [(''ColumnIdx'', MetaInt colIdx), (''ColumnName'', MetaStr (fst c))]"

definition validateReference :: "nat \<Rightarrow> DomainReference \<Rightarrow> Table \<Rightarrow> Table \<Rightarrow> ValidationWarning list" where
  "validateReference vrIdx v fkT pkT =
     (let named = [(''ReferenceIdx'', MetaInt vrIdx), (''ReferenceName'', MetaStr (dref_Name v)),
                   (''ReferenceSchema'', MetaStr (dref_Schema v))];
          refCols = getReferencedKeys v in
      warn_if (dref_Schema v = '''') ''virtual reference error: schema is required'' [(''ReferenceIdx'', MetaInt vrIdx)] @
      warn_if (dref_Name v = '''') ''virtual reference error: table name is required'' [(''ReferenceIdx'', MetaInt vrIdx)] @
      warn_if (dref_Columns v = []) ''columns are required: received empty'' named @
      warn_if (length refCols \<noteq> length (t_PrimaryKey pkT))
        ''virtual reference error: number of columns in reference does not match primary key''
        [(''ReferenceIdx'', MetaInt vrIdx), (''ReferencedTableColumns'', MetaStrs refCols),
         (''PrimaryTableColumns'', MetaStrs (t_PrimaryKey pkT)), (''ReferenceName'', MetaStr (dref_Name v)),
         (''ReferenceSchema'', MetaStr (dref_Schema v))] @
      warn_if (dref_PolymorphicExprs v \<noteq> [] \<and> dref_NotNull v)
        ''virtual reference error: polymorphic expressions cannot be used with not null reference'' named @
      concat (List.map (\<lambda>(idx, c). List.map (\<lambda>w.
          AddMeta ''ReferenceSchema'' (MetaStr (dref_Schema v)) (AddMeta ''ReferenceName'' (MetaStr (dref_Name v))
            (SetSeverity SevError (AddMeta ''ReferenceIdx'' (MetaInt vrIdx) w)))) (validateColumn idx c fkT))
        (List.enumerate 0 (dref_Columns v))))"

definition validateReferences ::
  "nat \<Rightarrow> VirtualReference \<Rightarrow> Table list \<Rightarrow> Table \<Rightarrow> ValidationWarning list" where
  "validateReferences tableIdx vr tables fkT =
     concat (List.map (\<lambda>(idx, v).
       case table_index tables (dref_Schema v) (dref_Name v) of
         None \<Rightarrow> [error_warning ''virtual reference error: table not found''
           [(''ReferenceIdx'', MetaInt idx), (''ReferenceName'', MetaStr (dref_Name v)),
            (''ReferenceSchema'', MetaStr (dref_Schema v))]]
       | Some pk \<Rightarrow> List.map (\<lambda>w.
           AddMeta ''TableSchema'' (MetaStr (vr_Schema vr)) (AddMeta ''TableName'' (MetaStr (vr_Name vr))
             (SetSeverity SevError (AddMeta ''TableIdx'' (MetaInt tableIdx) w))))
           (validateReference idx v fkT (tables ! pk))) (List.enumerate 0 (vr_References vr)))"

definition validateVirtualReference :: "nat \<Rightarrow> VirtualReference \<Rightarrow> Table list \<Rightarrow> ValidationWarning list" where
  "validateVirtualReference tableIdx vr tables =
     (let res =
        warn_if (vr_Schema vr = '''') ''schema is required'' [(''TableIdx'', MetaInt tableIdx)] @
        warn_if (vr_Name vr = '''') ''table columnName is required'' [(''TableIdx'', MetaInt tableIdx)] @
        warn_if (vr_References vr = []) ''virtual reference error: references are required: received empty''
          [(''TableIdx'', MetaInt tableIdx), (''TableName'', MetaStr (vr_Name vr)), (''TableSchema'', MetaStr (vr_Name vr))]
      in case table_index tables (vr_Schema vr) (vr_Name vr) of
           None \<Rightarrow> res @ [error_warning ''virtual reference error: table not found''
             [(''TableIdx'', MetaInt tableIdx), (''TableName'', MetaStr (vr_Name vr)),
              (''TableSchema'', MetaStr (vr_Schema vr))]]
         | Some fk \<Rightarrow> res @ validateReferences tableIdx vr tables (tables ! fk))"

definition validateVirtualReferences :: "VirtualReference list \<Rightarrow> Table list \<Rightarrow> ValidationWarning list" where
  "validateVirtualReferences vrs tables =
     concat (List.map (\<lambda>(idx, vr). validateVirtualReference idx vr tables) (List.enumerate 0 vrs))"

text \<open>\<^verbatim>\<open>NewRuntimeContext\<close>: with any warning the graph is built without the virtual references.\<close>

definition graph_of_context ::
  "(32 word \<Rightarrow> Reference list res) \<Rightarrow> VirtualReference list \<Rightarrow> Table list \<Rightarrow> ValidationWarning list \<times> Graph res" where
  "graph_of_context getReferences vr tables =
     (let vrWarns = validateVirtualReferences vr tables
      in (vrWarns, NewGraph getReferences tables (if length vrWarns > 0 then [] else vr)))"

section \<open>Mappings of configurations to tables\<close>

record ('d, 'w, 'k, 'x) Env =
  env_relKind :: "Table \<Rightarrow> char"
  env_tableExists :: "string \<Rightarrow> string \<Rightarrow> bool res"
  env_partitions :: "Table \<Rightarrow> (32 word) list res"
  env_newDriver :: "Table \<Rightarrow> ('d \<times> ValidationWarning list) res"
  env_newWhen :: "string \<Rightarrow> 'd \<Rightarrow> 'w \<times> ValidationWarning list"
  env_constraints :: "32 word \<Rightarrow> 'k list res"
  env_primaryKey :: "32 word \<Rightarrow> string list res"
  env_initTransformer :: "'d \<Rightarrow> TransformerConfig \<Rightarrow> ('x \<times> ValidationWarning list) res"
  env_registry :: registry

text \<open>The fields of \<^verbatim>\<open>entries.Table\<close> the configuration writes.\<close>

record ('d, 'w, 'k, 'x) EntryState =
  es_RootPt :: "Table option"
  es_Columns :: "TableColumn list"
  es_TypeOverrides :: "(string \<times> string) list"
  es_SubsetConds :: "string list"
  es_Query :: string
  es_Driver :: "'d option"
  es_When :: "'w option"
  es_Constraints :: "'k list"
  es_PrimaryKey :: "string list"
  es_Transformers :: "'x list"

type_synonym ('d, 'w, 'k, 'x) store = "32 word \<Rightarrow> ('d, 'w, 'k, 'x) EntryState"

definition update_entry ::
  "Table \<Rightarrow> (('d, 'w, 'k, 'x) EntryState \<Rightarrow> ('d, 'w, 'k, 'x) EntryState) \<Rightarrow> ('d, 'w, 'k, 'x) store \<Rightarrow>
   ('d, 'w, 'k, 'x) store" where
  "update_entry t f st = st(t_Oid t := f (st (t_Oid t)))"

definition validateTableExists ::
  "('d, 'w, 'k, 'x) Env \<Rightarrow> TableConfig \<Rightarrow> ValidationWarning list res" where
  "validateTableExists env t =
     bindR (env_tableExists env (tc_Schema t) (tc_Name t)) (\<lambda>found.
     Inr (if found then [] else
       [AddMeta ''TableName'' (MetaStr (tc_Name t)) (AddMeta ''Schema'' (MetaStr (tc_Schema t))
          (SetSeverity SevError (SetMsg ''table is not found'' NewValidationWarning)))]))"

definition validateConfigTables ::
  "('d, 'w, 'k, 'x) Env \<Rightarrow> TableConfig list \<Rightarrow> ValidationWarning list res" where
  "validateConfigTables env cfg = bindR (mapR (validateTableExists env) cfg) (\<lambda>wss. Inr (concat wss))"

text \<open>\<^verbatim>\<open>setupConfigForPartitionedTableChildren\<close>\<close>

fun partition_mappings ::
  "TableConfigMapping \<Rightarrow> Table list \<Rightarrow> (32 word) list \<Rightarrow> ('d, 'w, 'k, 'x) store \<Rightarrow>
   TableConfigMapping list \<times> ('d, 'w, 'k, 'x) store" where
  "partition_mappings parent tables [] st = ([], st)"
| "partition_mappings parent tables (pt # parts) st =
     (case index_func (\<lambda>t. t_Oid t = pt) tables of
        None \<Rightarrow> partition_mappings parent tables parts st
      | Some idx \<Rightarrow>
          let e = tables ! idx;
              st1 = update_entry e (\<lambda>s. s\<lparr>es_RootPt := Some (tcm_entry parent),
                                          es_Columns := es_Columns (st (t_Oid (tcm_entry parent)))\<rparr>) st;
              (rest, st2) = partition_mappings parent tables parts st1
          in (\<lparr>tcm_entry = e, tcm_config = tcm_config parent\<rparr> # rest, st2))"

definition setupConfigForPartitionedTableChildren ::
  "('d, 'w, 'k, 'x) Env \<Rightarrow> TableConfigMapping \<Rightarrow> Table list \<Rightarrow> ('d, 'w, 'k, 'x) store \<Rightarrow>
   (TableConfigMapping list \<times> ('d, 'w, 'k, 'x) store) res" where
  "setupConfigForPartitionedTableChildren env parent tables st =
     bindR (env_partitions env (tcm_entry parent)) (\<lambda>parts. Inr (partition_mappings parent tables parts st))"

definition not_inherited :: "Table \<Rightarrow> ValidationWarning" where
  "not_inherited t =
     SetSeverity SevError (AddMeta ''TableName'' (MetaStr (t_Name t)) (AddMeta ''SchemaName'' (MetaStr (t_Schema t))
       (SetMsg ''the table is partitioned use apply_for_inherited'' NewValidationWarning)))"

type_synonym ('d, 'w, 'k, 'x) config_setup =
  "TableConfigMapping list \<times> ValidationWarning list \<times> ('d, 'w, 'k, 'x) store"

text \<open>One table of the configuration: what comes after its references are handled.\<close>

definition own_mapping ::
  "('d, 'w, 'k, 'x) Env \<Rightarrow> Table list \<Rightarrow> TableConfigMapping \<Rightarrow> ('d, 'w, 'k, 'x) config_setup \<Rightarrow>
   ('d, 'w, 'k, 'x) config_setup res" where
  "own_mapping env tables tcm = (\<lambda>(out, ws, st).
     if env_relKind env (tcm_entry tcm) \<noteq> CHR ''p'' then Inr (out @ [tcm], ws, st)
     else if \<not> ApplyForInherited (tcm_config tcm) then Inr (out, ws @ [not_inherited (tcm_entry tcm)], st)
     else bindR (setupConfigForPartitionedTableChildren env tcm tables st) (\<lambda>(inhTab, st').
          Inr (out @ inhTab, ws, st')))"

definition config_step ::
  "nat \<Rightarrow> ('d, 'w, 'k, 'x) Env \<Rightarrow> TableConfig list \<Rightarrow> Table list \<Rightarrow> Graph \<Rightarrow> TableConfigMapping \<Rightarrow>
   ('d, 'w, 'k, 'x) config_setup \<Rightarrow> ('d, 'w, 'k, 'x) config_setup res option" where
  "config_step n env cfg tables g tcm = (\<lambda>(out, ws, st).
     if hasTransformerWithApplyForReferences tcm then
       (case checkApplyForReferenceMetRequirements tcm (env_registry env) of
          (False, checkWarns) \<Rightarrow> Some (Inr (out, ws @ checkWarns, st))
        | (True, _) \<Rightarrow>
            map_option (\<lambda>refs. bindR refs (\<lambda>(refTables, warns).
                own_mapping env tables tcm (out @ refTables, ws @ warns, st)))
              (getRefTables n (tcm_entry tcm) (tcm_config tcm) g cfg))
     else Some (own_mapping env tables tcm (out, ws, st)))"

fun config_steps ::
  "nat \<Rightarrow> ('d, 'w, 'k, 'x) Env \<Rightarrow> TableConfig list \<Rightarrow> Table list \<Rightarrow> Graph \<Rightarrow> TableConfigMapping list \<Rightarrow>
   ('d, 'w, 'k, 'x) config_setup \<Rightarrow> ('d, 'w, 'k, 'x) config_setup res option" where
  "config_steps n env cfg tables g [] s = Some (Inr s)"
| "config_steps n env cfg tables g (tcm # tcms) s =
     (case config_step n env cfg tables g tcm s of
        None \<Rightarrow> None
      | Some (Inl e) \<Rightarrow> Some (Inl e)
      | Some (Inr s') \<Rightarrow> config_steps n env cfg tables g tcms s')"

definition setConfigToEntries ::
  "nat \<Rightarrow> ('d, 'w, 'k, 'x) Env \<Rightarrow> TableConfig list \<Rightarrow> Table list \<Rightarrow> Graph \<Rightarrow> ('d, 'w, 'k, 'x) store \<Rightarrow>
   ('d, 'w, 'k, 'x) config_setup res option" where
  "setConfigToEntries n env cfg tables g st =
     config_steps n env cfg tables g (findTablesWithTransformers cfg tables) ([], [], st)"

section \<open>The mappings applied\<close>

definition escapeSubsetConds :: "string list \<Rightarrow> string list" where
  "escapeSubsetConds conds = List.map (\<lambda>c. ''( '' @ c @ '' )'') conds"

definition setSubsetConds ::
  "TableConfigMapping \<Rightarrow> ('d, 'w, 'k, 'x) EntryState \<Rightarrow> ('d, 'w, 'k, 'x) EntryState" where
  "setSubsetConds m s = s\<lparr>es_SubsetConds := escapeSubsetConds (tc_SubsetConds (tcm_config m))\<rparr>"

definition setQuery ::
  "TableConfigMapping \<Rightarrow> ('d, 'w, 'k, 'x) EntryState \<Rightarrow> ('d, 'w, 'k, 'x) EntryState" where
  "setQuery m s = s\<lparr>es_Query := tc_Query (tcm_config m)\<rparr>"

definition setColumnTypeOverrides ::
  "TableConfigMapping \<Rightarrow> ('d, 'w, 'k, 'x) EntryState \<Rightarrow> ('d, 'w, 'k, 'x) EntryState" where
  "setColumnTypeOverrides m s =
     s\<lparr>es_TypeOverrides := fold (\<lambda>c o'. case map_of (ColumnsTypeOverride (tcm_config m)) (col_Name c) of
           None \<Rightarrow> o' | Some ty \<Rightarrow> AList.update (col_Name c) ty o') (es_Columns s) (es_TypeOverrides s)\<rparr>"

definition enrichWarningsWithTableName :: "Table \<Rightarrow> ValidationWarning list \<Rightarrow> ValidationWarning list" where
  "enrichWarningsWithTableName t =
     List.map (\<lambda>w. AddMeta ''TableName'' (MetaStr (t_Name t)) (AddMeta ''SchemaName'' (MetaStr (t_Schema t)) w))"

definition enrichWarningsWithTransformerName :: "string \<Rightarrow> ValidationWarning list \<Rightarrow> ValidationWarning list" where
  "enrichWarningsWithTransformerName n = List.map (AddMeta ''TransformerName'' (MetaStr n))"

definition initAndSetupTransformers ::
  "('d, 'w, 'k, 'x) Env \<Rightarrow> 'd \<Rightarrow> TransformerConfig list \<Rightarrow> ('x list \<times> ValidationWarning list) res" where
  "initAndSetupTransformers env d trs =
     bindR (mapR (\<lambda>tr. bindR (env_initTransformer env d tr) (\<lambda>(x, ws).
              Inr (x, enrichWarningsWithTransformerName (tr_Name tr) ws))) trs) (\<lambda>xs.
     Inr (List.map fst xs, concat (List.map snd xs)))"

text \<open>
  One mapping. The flag tells whether the whole function returned at a fatal warning, in which case the warnings
  are those of this stage alone.
\<close>

definition apply_mapping ::
  "('d, 'w, 'k, 'x) Env \<Rightarrow> TableConfigMapping \<Rightarrow> ('d, 'w, 'k, 'x) store \<times> ValidationWarning list \<Rightarrow>
   (bool \<times> ('d, 'w, 'k, 'x) store \<times> ValidationWarning list) res" where
  "apply_mapping env m = (\<lambda>(st, ws).
     let t = tcm_entry m;
         st1 = update_entry t (\<lambda>s. setQuery m (setSubsetConds m s)) st
     in bindR (env_newDriver env t) (\<lambda>(d, driverWs0).
        let driverWs = enrichWarningsWithTableName t driverWs0 in
        if IsFatal driverWs then Inr (True, st1, driverWs)
        else let (whenCond, whenWs0) = env_newWhen env (tc_When (tcm_config m)) d;
                 whenWs = enrichWarningsWithTableName t whenWs0;
                 st2 = update_entry t (\<lambda>s. s\<lparr>es_Driver := Some d\<rparr>) st1
        in if IsFatal whenWs then Inr (True, st2, whenWs)
        else let st3 = update_entry t (\<lambda>s. s\<lparr>es_When := Some whenCond\<rparr>) st2
        in bindR (env_constraints env (t_Oid t)) (\<lambda>cs.
           bindR (env_primaryKey env (t_Oid t)) (\<lambda>pk.
           let st4 = update_entry t (\<lambda>s. setColumnTypeOverrides m (s\<lparr>es_Constraints := cs, es_PrimaryKey := pk\<rparr>)) st3
           in bindR (initAndSetupTransformers env d (tc_Transformers (tcm_config m))) (\<lambda>(xs, initWs).
              Inr (False, update_entry t (\<lambda>s. s\<lparr>es_Transformers := es_Transformers s @ xs\<rparr>) st4,
                   ws @ driverWs @ whenWs @ enrichWarningsWithTableName t initWs))))))"

fun apply_mappings ::
  "('d, 'w, 'k, 'x) Env \<Rightarrow> TableConfigMapping list \<Rightarrow> ('d, 'w, 'k, 'x) store \<times> ValidationWarning list \<Rightarrow>
   (bool \<times> ('d, 'w, 'k, 'x) store \<times> ValidationWarning list) res" where
  "apply_mappings env [] (st, ws) = Inr (False, st, ws)"
| "apply_mappings env (m # ms) (st, ws) =
     bindR (apply_mapping env m (st, ws)) (\<lambda>(stop, st', ws').
     if stop then Inr (True, st', ws') else apply_mappings env ms (st', ws'))"

definition validateAndBuildEntriesConfig ::
  "nat \<Rightarrow> ('d, 'w, 'k, 'x) Env \<Rightarrow> TableConfig list \<Rightarrow> Table list \<Rightarrow> Graph \<Rightarrow> ('d, 'w, 'k, 'x) store \<Rightarrow>
   (bool \<times> ('d, 'w, 'k, 'x) store \<times> ValidationWarning list) res option" where
  "validateAndBuildEntriesConfig n env cfg tables g st =
     (case validateConfigTables env cfg of
        Inl e \<Rightarrow> Some (Inl e)
      | Inr existWs \<Rightarrow>
          if IsFatal existWs then Some (Inr (True, st, existWs))
          else map_option (\<lambda>r. bindR r (\<lambda>(ms, setWs, st1). apply_mappings env ms (st1, existWs @ setWs)))
                 (setConfigToEntries n env cfg tables g st))"

end
