(* ===== verification/ApplyRefsProps.thy ===== *)
theory ApplyRefsProps
  imports ApplyRefs
begin

text \<open>
  When the search of the references returns, what the referencing tables then carry, and when it never returns.
\<close>

section \<open>The result of the search only ref_grows\<close>

definition inherited :: "Table \<Rightarrow> TransformerConfig \<Rightarrow> TableConfigMapping list \<Rightarrow> bool" where
  "inherited t tr out \<longleftrightarrow>
     list_ex (\<lambda>m. t_Name (tcm_entry m) = t_Name t \<and> t_Schema (tcm_entry m) = t_Schema t \<and>
                  tr \<in> set (tc_Transformers (tcm_config m))) out"

text \<open>The transformer stands in the child, or the configuration has one for the same column.\<close>

definition covered ::
  "TableConfig list \<Rightarrow> Edge \<Rightarrow> nat \<Rightarrow> TransformersMapping \<Rightarrow> TableConfigMapping list \<Rightarrow> bool" where
  "covered allTrans r p rt out \<longleftrightarrow>
     (let t = link_table (edge_to r); c = key_Name (link_keys (edge_to r) ! p) in
      checkTransformerAlreadyExists allTrans (t_Schema t) (t_Name t) (tr_Name (tm_cfg rt)) c \<or>
      inherited t (child_transformer rt c) out)"

lemma inherited_iff:
  "inherited t tr out \<longleftrightarrow> (\<exists>i < length out. t_Name (tcm_entry (out ! i)) = t_Name t \<and>
     t_Schema (tcm_entry (out ! i)) = t_Schema t \<and> tr \<in> set (tc_Transformers (tcm_config (out ! i))))"
  by (simp add: inherited_def list_ex_length)

lemma add_keeps:
  assumes "inherited t tr out"
  shows "inherited t tr (addTransformerToReferenceTable r c ov out)"
proof -
  from assms obtain i where i: "i < length out" "t_Name (tcm_entry (out ! i)) = t_Name t"
    "t_Schema (tcm_entry (out ! i)) = t_Schema t" "tr \<in> set (tc_Transformers (tcm_config (out ! i)))"
    unfolding inherited_iff by blast
  show ?thesis unfolding inherited_iff
    by (rule exI [of _ i]) (use i in \<open>auto simp: addTransformerToReferenceTable_def Let_def nth_append nth_list_update
          split: option.split dest!: index_func_Some\<close>)
qed

lemma add_adds: "inherited (link_table (edge_to r)) c (addTransformerToReferenceTable r c ov out)"
proof (cases "index_func (\<lambda>tcm. t_Name (tcm_entry tcm) = t_Name (link_table (edge_to r)) \<and>
                 t_Schema (tcm_entry tcm) = t_Schema (link_table (edge_to r))) out")
  case None
  then show ?thesis by (simp add: addTransformerToReferenceTable_def Let_def inherited_def)
next
  case (Some i)
  from index_func_Some [OF this]
  have i: "i < length out" "t_Name (tcm_entry (out ! i)) = t_Name (link_table (edge_to r))"
    "t_Schema (tcm_entry (out ! i)) = t_Schema (link_table (edge_to r))" by simp_all
  show ?thesis unfolding inherited_iff
    by (rule exI [of _ i]) (use i Some in \<open>simp add: addTransformerToReferenceTable_def Let_def\<close>)
qed

definition ref_grows :: "RefState \<Rightarrow> RefState \<Rightarrow> bool" where
  "ref_grows s s' \<longleftrightarrow> rs_visited s \<subseteq> rs_visited s' \<and> (\<forall>t tr. inherited t tr (rs_res s) \<longrightarrow> inherited t tr (rs_res s'))"

lemma ref_grows_refl [simp]: "ref_grows s s"
  by (simp add: ref_grows_def)

lemma ref_grows_trans: "ref_grows s s' \<Longrightarrow> ref_grows s' s'' \<Longrightarrow> ref_grows s s''"
  by (auto simp: ref_grows_def)

lemma ref_grows_covered: "ref_grows s s' \<Longrightarrow> covered a r p rt (rs_res s) \<Longrightarrow> covered a r p rt (rs_res s')"
  by (auto simp: ref_grows_def covered_def Let_def)

section \<open>One reference\<close>

definition keys_fit :: "Edge \<Rightarrow> (nat \<times> 'a) list \<Rightarrow> bool" where
  "keys_fit r am \<longleftrightarrow> list_all (\<lambda>(p, _). p < length (link_keys (edge_to r))) am"

lemma processTransformer_ok:
  assumes "p < length (link_keys (edge_to r))"
  shows "\<exists>s' ws'. processTransformer r cfg a (p, rt) (s, ws) = Inr (s', ws') \<and> ref_grows s s' \<and>
    rs_visited s' = insert (edge_id r, tm_index rt) (rs_visited s) \<and>
    (covered a r p rt (rs_res s) \<or> (edge_id r, tm_index rt) \<notin> rs_visited s \<longrightarrow> covered a r p rt (rs_res s'))"
proof (cases "(edge_id r, tm_index rt) \<in> rs_visited s")
  case True
  then show ?thesis by (simp add: processTransformer_def insert_absorb)
next
  case new: False
  let ?c = "key_Name (link_keys (edge_to r) ! p)" and ?t = "link_table (edge_to r)"
  let ?s1 = "s\<lparr>rs_visited := insert (edge_id r, tm_index rt) (rs_visited s)\<rparr>"
  have key: "key_name_at (link_keys (edge_to r)) p = Inr ?c" using assms by (simp add: key_name_at_def)
  show ?thesis
  proof (cases "checkTransformerAlreadyExists a (t_Schema ?t) (t_Name ?t) (tr_Name (tm_cfg rt)) ?c")
    case True
    have "ref_grows s ?s1" by (auto simp: ref_grows_def)
    then show ?thesis using new key True by (simp add: processTransformer_def Let_def covered_def)
  next
    case False
    let ?s2 = "?s1\<lparr>rs_res := addTransformerToReferenceTable r (child_transformer rt ?c)
                    (getColumnTypeOverride cfg (tm_columnName rt)) (rs_res s)\<rparr>"
    have "ref_grows s ?s2" by (auto simp: ref_grows_def intro: add_keeps)
    moreover have "covered a r p rt (rs_res ?s2)" by (simp add: covered_def Let_def add_adds)
    moreover have "rs_visited ?s2 = insert (edge_id r, tm_index rt) (rs_visited s)" by simp
    moreover have "processTransformer r cfg a (p, rt) (s, ws) =
        Inr (?s2, ws @ validateDoesInheritedConditionHaveAllColumns ?t (child_transformer rt ?c))"
      using new False
      by (cases s) (simp only: processTransformer_def prod.case Let_def if_False key bindR.simps RefState.simps)
    ultimately show ?thesis by blast
  qed
qed

text \<open>An index names one root transformer at one position.\<close>

definition uniq :: "(nat \<times> TransformersMapping) set \<Rightarrow> bool" where
  "uniq xs \<longleftrightarrow> inj_on (\<lambda>x. tm_index (snd x)) xs"

lemma uniqD: "uniq xs \<Longrightarrow> (p, rt) \<in> xs \<Longrightarrow> (q, ru) \<in> xs \<Longrightarrow> tm_index rt = tm_index ru \<Longrightarrow> p = q \<and> rt = ru"
  unfolding uniq_def by (drule inj_onD [of _ _ "(p, rt)" "(q, ru)"]) auto

text \<open>What processing one reference with a list of transformers leaves.\<close>

definition settled ::
  "TableConfig list \<Rightarrow> Edge \<Rightarrow> (nat \<times> TransformersMapping) set \<Rightarrow> RefState \<Rightarrow> RefState \<Rightarrow> bool" where
  "settled a r xs s s' \<longleftrightarrow> ref_grows s s' \<and> rs_visited s' \<subseteq> rs_visited s \<union> {edge_id r} \<times> UNIV \<and>
     (\<forall>p rt. (p, rt) \<in> xs \<longrightarrow> covered a r p rt (rs_res s) \<or> (edge_id r, tm_index rt) \<notin> rs_visited s \<longrightarrow>
        covered a r p rt (rs_res s'))"

lemma settled_step:
  assumes s1: "ref_grows s s1" "rs_visited s1 = insert (edge_id r, tm_index rt) (rs_visited s)"
    "covered a r p rt (rs_res s) \<or> (edge_id r, tm_index rt) \<notin> rs_visited s \<longrightarrow> covered a r p rt (rs_res s1)"
    and rest: "settled a r xs s1 s'" and u: "uniq (insert (p, rt) xs)"
  shows "settled a r (insert (p, rt) xs) s s'"
proof -
  have g: "ref_grows s1 s'" and v: "rs_visited s' \<subseteq> rs_visited s1 \<union> {edge_id r} \<times> UNIV"
    using rest by (simp_all add: settled_def)
  have "covered a r q ru (rs_res s')"
    if m: "(q, ru) \<in> insert (p, rt) xs"
      and c: "covered a r q ru (rs_res s) \<or> (edge_id r, tm_index ru) \<notin> rs_visited s" for q ru
  proof (cases "(q, ru) = (p, rt)")
    case True
    then have "covered a r q ru (rs_res s1)" using c s1(3) by simp
    then show ?thesis by (rule ref_grows_covered [OF g])
  next
    case False
    then have x: "(q, ru) \<in> xs" using m by blast
    have "tm_index ru \<noteq> tm_index rt"
    proof
      assume "tm_index ru = tm_index rt"
      from uniqD [OF u m insertI1 this] False show False by simp
    qed
    then have "covered a r q ru (rs_res s1) \<or> (edge_id r, tm_index ru) \<notin> rs_visited s1"
      using c by (elim disjE) (simp_all add: ref_grows_covered [OF s1(1)] s1(2))
    then show ?thesis using rest x unfolding settled_def by iprover
  qed
  moreover have "rs_visited s' \<subseteq> rs_visited s \<union> {edge_id r} \<times> UNIV" using v s1(2) by auto
  ultimately show ?thesis using ref_grows_trans [OF s1(1) g] unfolding settled_def by iprover
qed

lemma process_list_ok:
  assumes "keys_fit r xs" and "uniq (set xs)"
  shows "\<exists>s' ws'. foldR (processTransformer r cfg a) xs (s, ws) = Inr (s', ws') \<and> settled a r (set xs) s s'"
  using assms
proof (induction xs arbitrary: s ws)
  case Nil
  then show ?case by (simp add: settled_def)
next
  case (Cons x xs)
  obtain p rt where x: "x = (p, rt)" by (cases x)
  have "p < length (link_keys (edge_to r))" using Cons.prems(1) by (simp add: keys_fit_def x)
  from processTransformer_ok [OF this, of cfg a rt s ws] obtain s1 ws1 where
    1: "processTransformer r cfg a (p, rt) (s, ws) = Inr (s1, ws1)"
    and s1: "ref_grows s s1" "rs_visited s1 = insert (edge_id r, tm_index rt) (rs_visited s)"
    "covered a r p rt (rs_res s) \<or> (edge_id r, tm_index rt) \<notin> rs_visited s \<longrightarrow> covered a r p rt (rs_res s1)"
    by (elim exE conjE)
  have fit: "keys_fit r xs" using Cons.prems(1) by (simp add: keys_fit_def)
  have dist: "uniq (set xs)" using Cons.prems(2) by (auto simp: uniq_def)
  from Cons.IH [OF fit dist, of s1 ws1] obtain s' ws' where 2:
    "foldR (processTransformer r cfg a) xs (s1, ws1) = Inr (s', ws')" "settled a r (set xs) s1 s'"
    by (elim exE conjE)
  have "settled a r (set (x # xs)) s s'"
    using settled_step [OF s1 2(2)] Cons.prems(2) by (simp add: x)
  moreover have "foldR (processTransformer r cfg a) (x # xs) (s, ws) = Inr (s', ws')"
    by (simp add: x 1 2(1))
  ultimately show ?case by (intro exI conjI)
qed

lemma in_flatten: "(p, rt) \<in> set (flatten am) \<longleftrightarrow> (\<exists>trs. (p, trs) \<in> set am \<and> rt \<in> set trs)"
  by (auto simp: flatten_def)

lemma keys_fit_flatten: "keys_fit r am \<Longrightarrow> keys_fit r (flatten am)"
  by (auto simp: keys_fit_def list_all_iff in_flatten)

lemma processReference_ok:
  assumes "keys_fit r am" and "uniq (set (flatten am))"
  shows "\<exists>s' ws'. processReference r cfg a am (s, ws) = Inr (s', ws') \<and> settled a r (set (flatten am)) s s'"
  unfolding processReference_def
  by (rule process_list_ok [OF keys_fit_flatten [OF assms(1)] assms(2)])

section \<open>The active transformers of a child\<close>

definition shares_key :: "Edge \<Rightarrow> bool" where
  "shares_key r \<longleftrightarrow> list_ex (\<lambda>k. key_Name k \<in> set (t_PrimaryKey (link_table (edge_to r)))) (link_keys (edge_to r))"

definition child_step :: "Edge \<Rightarrow> nat \<times> TransformersMapping list \<Rightarrow> active \<Rightarrow> active" where
  "child_step r = (\<lambda>(p, trs) out.
     case index_func (\<lambda>pk. pk = key_Name (link_keys (edge_to r) ! p)) (t_PrimaryKey (link_table (edge_to r))) of
       None \<Rightarrow> out | Some j \<Rightarrow> AList.update j trs out)"

text \<open>Every active transformer of the child comes from the parent's position of the same column.\<close>

definition from_parent :: "Edge \<Rightarrow> active \<Rightarrow> active \<Rightarrow> bool" where
  "from_parent r am out \<longleftrightarrow> list_all (\<lambda>(j, trs). j < length (t_PrimaryKey (link_table (edge_to r))) \<and>
     list_ex (\<lambda>(p, trs'). trs' = trs \<and> p < length (link_keys (edge_to r)) \<and>
        index_func (\<lambda>pk. pk = key_Name (link_keys (edge_to r) ! p)) (t_PrimaryKey (link_table (edge_to r))) = Some j) am) out"

lemma set_update_subset: "set (AList.update k v m) \<subseteq> insert (k, v) (set m)"
  by (induction m) auto

lemma child_step_from_parent:
  assumes "from_parent r am out" "(p, trs) \<in> set am" "p < length (link_keys (edge_to r))"
  shows "from_parent r am (child_step r (p, trs) out)"
proof (cases "index_func (\<lambda>pk. pk = key_Name (link_keys (edge_to r) ! p)) (t_PrimaryKey (link_table (edge_to r)))")
  case None
  then show ?thesis using assms(1) by (simp add: child_step_def)
next
  case (Some j)
  then have "j < length (t_PrimaryKey (link_table (edge_to r)))" by (auto dest: index_func_Some)
  then show ?thesis
    using assms Some set_update_subset [of j trs out]
    by (fastforce simp: child_step_def from_parent_def list_all_iff list_ex_iff)
qed

lemma child_active_fold:
  assumes "keys_fit r am'" "set am' \<subseteq> set am" "from_parent r am out"
  shows "\<exists>out'. foldR (\<lambda>(parentIdx, trs) out.
        bindR (key_name_at (link_keys (edge_to r)) parentIdx) (\<lambda>childColName.
        Inr (case index_func (\<lambda>pk. pk = childColName) (t_PrimaryKey (link_table (edge_to r))) of
               None \<Rightarrow> out | Some j \<Rightarrow> AList.update j trs out))) am' out = Inr out' \<and> from_parent r am out'"
  using assms
proof (induction am' arbitrary: out)
  case Nil
  then show ?case by simp
next
  case (Cons x am')
  obtain p trs where x: "x = (p, trs)" by (cases x)
  have p: "p < length (link_keys (edge_to r))" "keys_fit r am'" "set am' \<subseteq> set am" "(p, trs) \<in> set am"
    using Cons.prems x by (auto simp: keys_fit_def)
  from Cons.IH [OF p(2,3) child_step_from_parent [OF Cons.prems(3) p(4,1)]]
  show ?case using p(1) by (simp add: x key_name_at_def child_step_def)
qed

lemma child_active_ok:
  assumes "keys_fit r am"
  obtains out where "child_active r am = Inr out" "from_parent r am out"
proof -
  have "from_parent r am []" by (simp add: from_parent_def)
  from child_active_fold [OF assms subset_refl this] show ?thesis
    by (elim exE conjE) (rule that, simp_all only: child_active_def)
qed

lemma from_parent_shares:
  assumes "from_parent r am out" "out \<noteq> []" shows "shares_key r"
proof -
  obtain j trs rest where "out = (j, trs) # rest" using assms(2) by (cases out) auto
  then obtain p where p: "p < length (link_keys (edge_to r))"
    "index_func (\<lambda>pk. pk = key_Name (link_keys (edge_to r) ! p)) (t_PrimaryKey (link_table (edge_to r))) = Some j"
    using assms(1) by (auto simp: from_parent_def list_ex_iff)
  from index_func_Some [OF p(2)]
  have "key_Name (link_keys (edge_to r) ! p) \<in> set (t_PrimaryKey (link_table (edge_to r)))"
    using nth_mem by metis
  then show ?thesis using p(1) by (auto simp: shares_key_def list_ex_iff intro!: bexI [OF _ nth_mem])
qed

lemma from_parent_uniq:
  assumes "from_parent r am out" "uniq (set (flatten am))" shows "uniq (set (flatten out))"
  unfolding uniq_def
proof (rule inj_onI)
  fix x y assume x: "x \<in> set (flatten out)" and y: "y \<in> set (flatten out)" and i: "tm_index (snd x) = tm_index (snd y)"
  have src: "\<exists>p. (p, snd z) \<in> set (flatten am) \<and>
      index_func (\<lambda>pk. pk = key_Name (link_keys (edge_to r) ! p)) (t_PrimaryKey (link_table (edge_to r))) = Some (fst z)"
    if z: "z \<in> set (flatten out)" for z
  proof -
    obtain j rt where jr: "z = (j, rt)" by (cases z)
    obtain trs where t: "(j, trs) \<in> set out" "rt \<in> set trs" using z jr by (auto simp: in_flatten)
    then obtain p where "(p, trs) \<in> set am"
      "index_func (\<lambda>pk. pk = key_Name (link_keys (edge_to r) ! p)) (t_PrimaryKey (link_table (edge_to r))) = Some j"
      using assms(1) by (auto simp: from_parent_def list_all_iff list_ex_iff)
    then show ?thesis using t(2) jr by (auto simp: in_flatten)
  qed
  from src [OF x] obtain p where p: "(p, snd x) \<in> set (flatten am)"
    "index_func (\<lambda>pk. pk = key_Name (link_keys (edge_to r) ! p)) (t_PrimaryKey (link_table (edge_to r))) = Some (fst x)"
    by (elim exE conjE)
  from src [OF y] obtain q where q: "(q, snd y) \<in> set (flatten am)"
    "index_func (\<lambda>pk. pk = key_Name (link_keys (edge_to r) ! q)) (t_PrimaryKey (link_table (edge_to r))) = Some (fst y)"
    by (elim exE conjE)
  have pq: "p = q \<and> snd x = snd y" by (rule uniqD [OF assms(2) p(1) q(1) i])
  then have "Some (fst x) = Some (fst y)" using p(2) q(2) by simp
  then show "x = y" using pq by (simp add: prod_eq_iff)
qed

section \<open>The search returns\<close>

text \<open>
  The graph the search needs: one list of references per table; every reference leads to a table of the graph,
  has as many key columns as the primary key it references, and an identifier of its own.
\<close>

definition refs_wf :: "Graph \<Rightarrow> bool" where
  "refs_wf g \<longleftrightarrow> length (reversedGraph g) = length (g_tables g) \<and>
     list_all (\<lambda>t. case findTableIndex g t of None \<Rightarrow> False | Some i \<Rightarrow>
        list_all (\<lambda>r. length (t_PrimaryKey t) \<le> length (link_keys (edge_to r))) (reversedGraph g ! i)) (g_tables g) \<and>
     list_all (list_all (\<lambda>r. link_table (edge_to r) \<in> set (g_tables g))) (reversedGraph g) \<and>
     distinct (List.map edge_id (concat (reversedGraph g)))"

text \<open>Where a key column goes on in the child's primary key, the rank of the table falls.\<close>

definition falls :: "Graph \<Rightarrow> (nat \<Rightarrow> nat) \<Rightarrow> bool" where
  "falls g rank \<longleftrightarrow> list_all (\<lambda>(i, rs). list_all (\<lambda>r. shares_key r \<longrightarrow>
      (case findTableIndex g (link_table (edge_to r)) of None \<Rightarrow> True | Some j \<Rightarrow> rank j < rank i)) rs)
      (List.enumerate 0 (reversedGraph g))"

lemma fallsD:
  assumes "falls g rank" "i < length (reversedGraph g)" "r \<in> set (reversedGraph g ! i)" "shares_key r"
    "findTableIndex g (link_table (edge_to r)) = Some j"
  shows "rank j < rank i"
proof -
  have "(i, reversedGraph g ! i) \<in> set (List.enumerate 0 (reversedGraph g))"
    using assms(2) by (simp add: in_set_enumerate_eq)
  then show ?thesis using assms unfolding falls_def list_all_iff by fastforce
qed

lemma refs_wfD:
  assumes "refs_wf g" "t \<in> set (g_tables g)"
  obtains i where "findTableIndex g t = Some i" "i < length (reversedGraph g)"
    "\<And>r. r \<in> set (reversedGraph g ! i) \<Longrightarrow> length (t_PrimaryKey t) \<le> length (link_keys (edge_to r))"
    "\<And>r. r \<in> set (reversedGraph g ! i) \<Longrightarrow> link_table (edge_to r) \<in> set (g_tables g)"
proof -
  have "case findTableIndex g t of None \<Rightarrow> False | Some i \<Rightarrow>
        list_all (\<lambda>r. length (t_PrimaryKey t) \<le> length (link_keys (edge_to r))) (reversedGraph g ! i)"
    using assms by (simp add: refs_wf_def list_all_iff)
  then obtain i where i: "findTableIndex g t = Some i"
    "list_all (\<lambda>r. length (t_PrimaryKey t) \<le> length (link_keys (edge_to r))) (reversedGraph g ! i)"
    by (cases "findTableIndex g t") auto
  have len: "i < length (reversedGraph g)"
    using index_func_Some [OF i(1) [unfolded findTableIndex_def]] assms(1) by (simp add: refs_wf_def)
  have "list_all (\<lambda>r. link_table (edge_to r) \<in> set (g_tables g)) (reversedGraph g ! i)"
    using assms(1) len by (simp add: refs_wf_def list_all_length)
  then show ?thesis using that [OF i(1) len] i(2) by (simp add: list_all_iff)
qed

lemma distinct_concat_index:
  assumes "distinct (List.map f (concat xss))" "i < length xss" "j < length xss"
    "x \<in> set (xss ! i)" "y \<in> set (xss ! j)" "f x = f y"
  shows "i = j \<and> x = y"
  using assms
proof (induction xss arbitrary: i j)
  case Nil
  then show ?case by simp
next
  case (Cons xs xss)
  have later: "z \<in> set (concat xss)" if "k < length xss" "z \<in> set (xss ! k)" for k z
    using that nth_mem by auto
  have inj: "a = b" if "a \<in> set xs" "b \<in> set xs" "f a = f b" for a b
    using Cons.prems(1) that by (auto simp: distinct_map inj_on_def)
  have apart: "f a \<noteq> f b" if "a \<in> set xs" "b \<in> set (concat xss)" for a b
    using Cons.prems(1) that by auto
  have d: "distinct (List.map f (concat xss))" using Cons.prems(1) by simp
  show ?case
  proof (cases i)
    case i0: 0
    show ?thesis
    proof (cases j)
      case 0
      then show ?thesis using i0 Cons.prems inj by simp
    next
      case (Suc j')
      then show ?thesis using i0 Cons.prems apart [of x y] later [of j' y] by simp
    qed
  next
    case iS: (Suc i')
    show ?thesis
    proof (cases j)
      case 0
      then show ?thesis using iS Cons.prems apart [of y x] later [of i' x] by simp
    next
      case (Suc j')
      then show ?thesis using iS Cons.prems Cons.IH [OF d, of i' j'] by simp
    qed
  qed
qed

text \<open>The references of the tables below a rank.\<close>

definition low_ids :: "Graph \<Rightarrow> (nat \<Rightarrow> nat) \<Rightarrow> nat \<Rightarrow> nat set" where
  "low_ids g rank m = {edge_id r | r j. j < length (reversedGraph g) \<and> r \<in> set (reversedGraph g ! j) \<and> rank j < m}"

lemma low_ids_mono: "m \<le> m' \<Longrightarrow> low_ids g rank m \<subseteq> low_ids g rank m'"
  unfolding low_ids_def by (fastforce elim: order_less_le_trans)

definition returns :: "nat set \<Rightarrow> RefState \<Rightarrow>
   (RefState \<times> ValidationWarning list) res option \<Rightarrow> bool" where
  "returns ids s o' \<longleftrightarrow>
     (\<exists>s' ws'. o' = Some (Inr (s', ws')) \<and> ref_grows s s' \<and> rs_visited s' \<subseteq> rs_visited s \<union> ids \<times> UNIV)"

lemma returnsI:
  "o' = Some (Inr (s', ws')) \<Longrightarrow> ref_grows s s' \<Longrightarrow> rs_visited s' \<subseteq> rs_visited s \<union> ids \<times> UNIV \<Longrightarrow> returns ids s o'"
  unfolding returns_def by iprover

lemma returns_trans:
  assumes "returns ids' s1 o'" "ref_grows s s1" "rs_visited s1 \<subseteq> rs_visited s \<union> ids \<times> UNIV" "ids' \<subseteq> ids"
  shows "returns ids s o'"
proof -
  from assms(1) obtain s' ws' where s': "o' = Some (Inr (s', ws'))" "ref_grows s1 s'"
    "rs_visited s' \<subseteq> rs_visited s1 \<union> ids' \<times> UNIV" unfolding returns_def by (elim exE conjE)
  show ?thesis by (rule returnsI [OF s'(1) ref_grows_trans [OF assms(2) s'(2)]]) (use s'(3) assms(3,4) in blast)
qed

text \<open>One reference of the loop, its child's search included.\<close>

definition visit ::
  "nat \<Rightarrow> TableConfig \<Rightarrow> Graph \<Rightarrow> TableConfig list \<Rightarrow> Edge \<Rightarrow> bool \<Rightarrow> active \<Rightarrow>
   RefState \<times> ValidationWarning list \<Rightarrow> (RefState \<times> ValidationWarning list) res option" where
  "visit n cfg g a r chk am s =
     (case child_active r am of
        Inl e \<Rightarrow> Some (Inl e)
      | Inr childAm \<Rightarrow>
          if chk \<and> childAm = [] then Some (Inr s)
          else case processReference r cfg a am s of
            Inl e \<Rightarrow> Some (Inl e)
          | Inr s1 \<Rightarrow>
              if childAm = [] then Some (Inr s1)
              else buildRefsWithEndToEndDfs n cfg g a (link_table (edge_to r)) True childAm s1)"

lemma refs_loop_visit:
  "refs_loop n cfg g a (r # rs) chk am s =
     (case visit n cfg g a r chk am s of
        None \<Rightarrow> None | Some (Inl e) \<Rightarrow> Some (Inl e) | Some (Inr s') \<Rightarrow> refs_loop n cfg g a rs chk am s')"
  by (simp add: refs_loop.simps visit_def split: sum.splits)

definition fits :: "Graph \<Rightarrow> Table \<Rightarrow> active \<Rightarrow> bool" where
  "fits g t am \<longleftrightarrow> t \<in> set (g_tables g) \<and> list_all (\<lambda>(p, _). p < length (t_PrimaryKey t)) am \<and> uniq (set (flatten am))"

lemma fits_keys: "fits g t am \<Longrightarrow> length (t_PrimaryKey t) \<le> length (link_keys (edge_to r)) \<Longrightarrow> keys_fit r am"
  by (auto simp: fits_def keys_fit_def list_all_iff)

lemma from_parent_fits:
  "from_parent r am out \<Longrightarrow> uniq (set (flatten am)) \<Longrightarrow> link_table (edge_to r) \<in> set (g_tables g) \<Longrightarrow>
   fits g (link_table (edge_to r)) out"
  by (auto simp: fits_def from_parent_uniq) (auto simp: from_parent_def list_all_iff)

lemma visit_returns:
  assumes dfs: "\<And>t am s i. fits g t am \<Longrightarrow> findTableIndex g t = Some i \<Longrightarrow> rank i < n \<Longrightarrow>
      returns (low_ids g rank (Suc (rank i))) (fst s) (buildRefsWithEndToEndDfs n cfg g a t True am s)"
    and wf: "refs_wf g" "falls g rank"
    and r: "i < length (reversedGraph g)" "r \<in> set (reversedGraph g ! i)" "rank i < Suc n"
      "link_table (edge_to r) \<in> set (g_tables g)"
    and am: "keys_fit r am" "uniq (set (flatten am))"
  shows "returns ({edge_id r} \<union> low_ids g rank (rank i)) (fst s) (visit n cfg g a r chk am s) \<and>
    (\<not> chk \<longrightarrow> (\<exists>s' ws'. visit n cfg g a r chk am s = Some (Inr (s', ws')) \<and>
       (\<forall>p rt. (p, rt) \<in> set (flatten am) \<longrightarrow>
          covered a r p rt (rs_res (fst s)) \<or> (edge_id r, tm_index rt) \<notin> rs_visited (fst s) \<longrightarrow> covered a r p rt (rs_res s'))))"
proof -
  let ?ids = "{edge_id r} \<union> low_ids g rank (rank i)"
  obtain out where out: "child_active r am = Inr out" "from_parent r am out" by (rule child_active_ok [OF am(1)])
  show ?thesis
  proof (cases "chk \<and> out = []")
    case True
    then have "visit n cfg g a r chk am s = Some (Inr s)" by (simp add: visit_def out(1))
    then show ?thesis using True by (cases s) (auto intro: returnsI)
  next
    case go: False
    from processReference_ok [OF am, of cfg a "fst s" "snd s"] obtain s1 ws1 where
      1: "processReference r cfg a am s = Inr (s1, ws1)" and
      st: "settled a r (set (flatten am)) (fst s) s1" by (simp only: prod.collapse) (elim exE conjE)
    have g1: "ref_grows (fst s) s1" and v1: "rs_visited s1 \<subseteq> rs_visited (fst s) \<union> {edge_id r} \<times> UNIV"
      and cov: "\<forall>p rt. (p, rt) \<in> set (flatten am) \<longrightarrow>
        covered a r p rt (rs_res (fst s)) \<or> (edge_id r, tm_index rt) \<notin> rs_visited (fst s) \<longrightarrow> covered a r p rt (rs_res s1)"
      using st unfolding settled_def by iprover+
    have v1': "rs_visited s1 \<subseteq> rs_visited (fst s) \<union> ?ids \<times> UNIV" using v1 by blast
    show ?thesis
    proof (cases "out = []")
      case True
      then have v: "visit n cfg g a r chk am s = Some (Inr (s1, ws1))" using go by (simp add: visit_def out(1) 1)
      show ?thesis using returnsI [OF v g1 v1'] v cov by iprover
    next
      case False
      then have v: "visit n cfg g a r chk am s =
          buildRefsWithEndToEndDfs n cfg g a (link_table (edge_to r)) True out (s1, ws1)"
        using go by (simp add: visit_def out(1) 1)
      obtain j where j: "findTableIndex g (link_table (edge_to r)) = Some j" by (rule refs_wfD [OF wf(1) r(4)])
      have less: "rank j < rank i" by (rule fallsD [OF wf(2) r(1,2) from_parent_shares [OF out(2) False] j])
      have low: "low_ids g rank (Suc (rank j)) \<subseteq> ?ids" using low_ids_mono [of "Suc (rank j)" "rank i" g rank] less by auto
      have ret: "returns (low_ids g rank (Suc (rank j))) s1 (visit n cfg g a r chk am s)"
        using dfs [OF from_parent_fits [OF out(2) am(2) r(4)] j, of "(s1, ws1)"] less r(3) v by simp
      then obtain s' ws' where s': "visit n cfg g a r chk am s = Some (Inr (s', ws'))" "ref_grows s1 s'"
        unfolding returns_def by (elim exE conjE)
      have "\<forall>p rt. (p, rt) \<in> set (flatten am) \<longrightarrow>
        covered a r p rt (rs_res (fst s)) \<or> (edge_id r, tm_index rt) \<notin> rs_visited (fst s) \<longrightarrow> covered a r p rt (rs_res s')"
        using cov ref_grows_covered [OF s'(2)] by iprover
      then show ?thesis using returns_trans [OF ret g1 v1' low] s'(1) by iprover
    qed
  qed
qed

lemma loop_returns:
  assumes dfs: "\<And>t am s i. fits g t am \<Longrightarrow> findTableIndex g t = Some i \<Longrightarrow> rank i < n \<Longrightarrow>
      returns (low_ids g rank (Suc (rank i))) (fst s) (buildRefsWithEndToEndDfs n cfg g a t True am s)"
    and wf: "refs_wf g" "falls g rank" and i: "i < length (reversedGraph g)" "rank i < Suc n"
    and am: "uniq (set (flatten am))"
    and rs: "\<And>r. r \<in> set rs \<Longrightarrow> r \<in> set (reversedGraph g ! i)"
      "\<And>r. r \<in> set rs \<Longrightarrow> link_table (edge_to r) \<in> set (g_tables g)" "\<And>r. r \<in> set rs \<Longrightarrow> keys_fit r am"
  shows "returns (edge_id ` set rs \<union> low_ids g rank (rank i)) (fst s) (refs_loop n cfg g a rs chk am s)"
  using rs
proof (induction rs arbitrary: s)
  case Nil
  then show ?case by (cases s) (auto simp: refs_loop.simps intro: returnsI)
next
  case (Cons r rs)
  have "returns ({edge_id r} \<union> low_ids g rank (rank i)) (fst s) (visit n cfg g a r chk am s)"
    using visit_returns [where r = r and chk = chk and s = s, OF dfs wf i(1) _ i(2) _ _ am] Cons.prems by simp
  then obtain s1 ws1 where 1: "visit n cfg g a r chk am s = Some (Inr (s1, ws1))" "ref_grows (fst s) s1"
    "rs_visited s1 \<subseteq> rs_visited (fst s) \<union> ({edge_id r} \<union> low_ids g rank (rank i)) \<times> UNIV"
    unfolding returns_def by (elim exE conjE)
  have v: "rs_visited s1 \<subseteq> rs_visited (fst s) \<union> (edge_id ` set (r # rs) \<union> low_ids g rank (rank i)) \<times> UNIV"
    using 1(3) by auto
  have "returns (edge_id ` set rs \<union> low_ids g rank (rank i)) s1 (refs_loop n cfg g a rs chk am (s1, ws1))"
    using Cons.IH [of "(s1, ws1)"] Cons.prems by simp
  from returns_trans [OF this 1(2) v] show ?case by (auto simp: refs_loop_visit 1(1))
qed

lemma dfs_returns:
  assumes wf: "refs_wf g" "falls g rank"
  shows "fits g t am \<Longrightarrow> findTableIndex g t = Some i \<Longrightarrow> rank i < n \<Longrightarrow>
    returns (low_ids g rank (Suc (rank i))) (fst s) (buildRefsWithEndToEndDfs n cfg g a t chk am s)"
proof (induction n arbitrary: t am s i chk)
  case 0
  then show ?case by simp
next
  case (Suc n)
  show ?case
  proof (cases "am = []")
    case True
    then show ?thesis by (cases s) (auto simp: buildRefsWithEndToEndDfs.simps intro: returnsI)
  next
    case False
    have t: "t \<in> set (g_tables g)" and u: "uniq (set (flatten am))" using Suc.prems(1) by (simp_all add: fits_def)
    obtain i' where i': "findTableIndex g t = Some i'" "i' < length (reversedGraph g)"
      and len: "\<And>r. r \<in> set (reversedGraph g ! i') \<Longrightarrow> length (t_PrimaryKey t) \<le> length (link_keys (edge_to r))"
      and tab: "\<And>r. r \<in> set (reversedGraph g ! i') \<Longrightarrow> link_table (edge_to r) \<in> set (g_tables g)"
      by (rule refs_wfD [OF wf(1) t]) blast
    have [simp]: "i' = i" using i'(1) Suc.prems(2) by simp
    have "returns (edge_id ` set (reversedGraph g ! i) \<union> low_ids g rank (rank i)) (fst s)
        (refs_loop n cfg g a (reversedGraph g ! i) chk am s)"
      by (rule loop_returns [OF Suc.IH wf _ Suc.prems(3) u])
         (use i'(2) tab fits_keys [OF Suc.prems(1) len] in simp_all)
    moreover have "edge_id ` set (reversedGraph g ! i) \<union> low_ids g rank (rank i) \<subseteq> low_ids g rank (Suc (rank i))"
      using i'(2) low_ids_mono [of "rank i" "Suc (rank i)" g rank] by (auto simp: low_ids_def)
    ultimately show ?thesis
      using returns_trans [of _ "fst s" _ "fst s"] False i' by (auto simp: buildRefsWithEndToEndDfs.simps)
  qed
qed

lemma low_ids_apart:
  assumes "refs_wf g" "i < length (reversedGraph g)" "r \<in> set (reversedGraph g ! i)"
  shows "edge_id r \<notin> low_ids g rank (rank i)"
proof
  assume "edge_id r \<in> low_ids g rank (rank i)"
  then obtain r' j where "j < length (reversedGraph g)" "r' \<in> set (reversedGraph g ! j)" "rank j < rank i"
    "edge_id r = edge_id r'" by (auto simp: low_ids_def)
  then show False
    using distinct_concat_index [of edge_id "reversedGraph g" i j r r'] assms by (auto simp: refs_wf_def)
qed

text \<open>At the root every reference is visited, and each of its columns is then covered.\<close>

definition ready :: "TableConfig list \<Rightarrow> active \<Rightarrow> RefState \<Rightarrow> Edge \<Rightarrow> bool" where
  "ready a am s r \<longleftrightarrow> (\<forall>p rt. (p, rt) \<in> set (flatten am) \<longrightarrow>
     covered a r p rt (rs_res s) \<or> (edge_id r, tm_index rt) \<notin> rs_visited s)"

definition all_covered :: "TableConfig list \<Rightarrow> active \<Rightarrow> RefState \<Rightarrow> Edge \<Rightarrow> bool" where
  "all_covered a am s r \<longleftrightarrow> (\<forall>p rt. (p, rt) \<in> set (flatten am) \<longrightarrow> covered a r p rt (rs_res s))"

lemma all_covered_grows: "all_covered a am s r \<Longrightarrow> ref_grows s s' \<Longrightarrow> all_covered a am s' r"
  unfolding all_covered_def using ref_grows_covered by blast

lemma loop_covers:
  assumes wf: "refs_wf g" "falls g rank" and i: "i < length (reversedGraph g)" "rank i < Suc n"
    and am: "uniq (set (flatten am))"
    and rs: "\<And>r. r \<in> set rs \<Longrightarrow> r \<in> set (reversedGraph g ! i)"
      "\<And>r. r \<in> set rs \<Longrightarrow> link_table (edge_to r) \<in> set (g_tables g)" "\<And>r. r \<in> set rs \<Longrightarrow> keys_fit r am"
      "\<And>r. r \<in> set rs \<Longrightarrow> ready a am (fst s) r"
  shows "\<exists>s' ws'. refs_loop n cfg g a rs False am s = Some (Inr (s', ws')) \<and> ref_grows (fst s) s' \<and>
     (\<forall>r. r \<in> set rs \<longrightarrow> all_covered a am s' r)"
  using rs
proof (induction rs arbitrary: s)
  case Nil
  then show ?case by (cases s) (simp add: refs_loop.simps)
next
  case (Cons r rs)
  have r: "r \<in> set (reversedGraph g ! i)" "link_table (edge_to r) \<in> set (g_tables g)" "keys_fit r am"
    using Cons.prems by simp_all
  have v: "returns ({edge_id r} \<union> low_ids g rank (rank i)) (fst s) (visit n cfg g a r False am s) \<and>
    (\<not> False \<longrightarrow> (\<exists>s' ws'. visit n cfg g a r False am s = Some (Inr (s', ws')) \<and>
       (\<forall>p rt. (p, rt) \<in> set (flatten am) \<longrightarrow>
          covered a r p rt (rs_res (fst s)) \<or> (edge_id r, tm_index rt) \<notin> rs_visited (fst s) \<longrightarrow> covered a r p rt (rs_res s'))))"
    by (rule visit_returns [OF dfs_returns [OF wf] wf i(1) r(1) i(2) r(2,3) am])
  obtain s1 ws1 where 1: "visit n cfg g a r False am s = Some (Inr (s1, ws1))" "ref_grows (fst s) s1"
    "rs_visited s1 \<subseteq> rs_visited (fst s) \<union> ({edge_id r} \<union> low_ids g rank (rank i)) \<times> UNIV"
    using v unfolding returns_def by (elim exE conjE)
  have c: "all_covered a am s1 r"
    using v 1(1) Cons.prems(4) [of r] by (auto simp: all_covered_def ready_def)
  have "ready a am s1 q" if q: "q \<in> set rs" for q
  proof (cases "edge_id q = edge_id r")
    case True
    then have "q = r"
      using distinct_concat_index [of edge_id "reversedGraph g" i i q r] wf(1) i(1) r(1) Cons.prems(1) [of q] q
      by (auto simp: refs_wf_def)
    then show ?thesis using c by (auto simp: ready_def all_covered_def)
  next
    case False
    have "edge_id q \<notin> low_ids g rank (rank i)" using low_ids_apart [OF wf(1) i(1)] Cons.prems(1) [of q] q by simp
    then have "(edge_id q, k) \<in> rs_visited s1 \<Longrightarrow> (edge_id q, k) \<in> rs_visited (fst s)" for k
      using 1(3) False by auto
    then show ?thesis using Cons.prems(4) [of q] q ref_grows_covered [OF 1(2)] unfolding ready_def by (meson list.set_intros(2))
  qed
  then obtain s' ws' where 2: "refs_loop n cfg g a rs False am (s1, ws1) = Some (Inr (s', ws'))" "ref_grows s1 s'"
    "\<forall>r. r \<in> set rs \<longrightarrow> all_covered a am s' r"
    using Cons.IH [of "(s1, ws1)"] Cons.prems(1-3) by (auto simp del: split_paired_Ex)
  show ?case
    by (rule exI [of _ s'], rule exI [of _ ws'])
       (use 1 2 ref_grows_trans [OF 1(2) 2(2)] all_covered_grows [OF c 2(2)] in \<open>auto simp: refs_loop_visit\<close>)
qed

section \<open>The root\<close>

lemma flatten_append_at: "set (flatten (append_at k x m)) = insert (k, x) (set (flatten m))"
  by (induction k x m rule: append_at.induct) (auto simp: flatten_def)

lemma keys_append_at_all:
  "list_all (\<lambda>(p, _). P p) (append_at k x m) \<longleftrightarrow> P k \<and> list_all (\<lambda>(p, _). P p) m"
  by (induction k x m rule: append_at.induct) auto

lemma root_active_flatten:
  "set (flatten (fold (\<lambda>rt. append_at (tm_attNum rt) rt) rts m)) = (\<lambda>rt. (tm_attNum rt, rt)) ` set rts \<union> set (flatten m)"
  by (induction rts arbitrary: m) (auto simp: flatten_append_at)

lemma root_active_keys:
  "list_all (\<lambda>(p, _). P p) (fold (\<lambda>rt. append_at (tm_attNum rt) rt) rts m) \<longleftrightarrow>
   list_all (\<lambda>rt. P (tm_attNum rt)) rts \<and> list_all (\<lambda>(p, _). P p) m"
  by (induction rts arbitrary: m) (auto simp: keys_append_at_all)

lemma index_roots_index: "List.map tm_index (index_roots rts) = [0..<length rts]"
  by (rule nth_equalityI) (auto simp: index_roots_def enumerate_eq_zip)

lemma index_roots_attNum: "tm_attNum ` set (index_roots rts) = tm_attNum ` set rts"
proof -
  have "List.map tm_attNum (index_roots rts) = List.map tm_attNum rts"
    by (rule nth_equalityI) (auto simp: index_roots_def enumerate_eq_zip)
  from arg_cong [OF this, of set] show ?thesis by simp
qed

lemma root_fits:
  assumes "t \<in> set (g_tables g)"
  shows "fits g t (root_active (collectRootTransformers t cfg))"
proof -
  let ?rts = "collectRootTransformers t cfg"
  have "tm_attNum rt < length (t_PrimaryKey t)" if "rt \<in> set ?rts" for rt
    using that index_func_Some
    by (fastforce simp: collectRootTransformers_def map_filter_def root_mapping_def Let_def split: if_splits)
  then have "\<forall>p \<in> tm_attNum ` set ?rts. p < length (t_PrimaryKey t)" by blast
  then have "list_all (\<lambda>rt. tm_attNum rt < length (t_PrimaryKey t)) (index_roots ?rts)"
    by (simp only: list_all_iff index_roots_attNum [of ?rts, symmetric] ball_simps)
  moreover have "inj_on tm_index (set (index_roots ?rts))"
    using index_roots_index [of ?rts] distinct_map [of tm_index "index_roots ?rts"] by simp
  then have "uniq (set (flatten (root_active ?rts)))"
    using root_active_flatten [of "index_roots ?rts" "[]"] unfolding root_active_def
    by (simp add: flatten_def [of "[]"] uniq_def inj_on_def) metis
  ultimately show ?thesis using assms by (simp add: fits_def root_active_def root_active_keys)
qed

text \<open>The search returns, and every direct reference of the root carries its transformers.\<close>

lemma getRefTables_covers:
  assumes wf: "refs_wf g" "falls g rank" and t: "t \<in> set (g_tables g)"
    and i: "findTableIndex g t = Some i" "rank i < n"
  shows "\<exists>out ws. getRefTables (Suc n) t cfg g a = Some (Inr (out, ws)) \<and>
     list_all (\<lambda>r. list_all (\<lambda>rt. covered a r (tm_attNum rt) rt out) (index_roots (collectRootTransformers t cfg)))
       (reversedGraph g ! i)"
proof -
  let ?rts = "index_roots (collectRootTransformers t cfg)" and ?am = "root_active (collectRootTransformers t cfg)"
  let ?s = "(\<lparr>rs_res = [], rs_visited = {}\<rparr>, []) :: RefState \<times> ValidationWarning list"
  have fit: "fits g t ?am" by (rule root_fits [OF t])
  have fl: "set (flatten ?am) = (\<lambda>rt. (tm_attNum rt, rt)) ` set ?rts"
    using root_active_flatten [of ?rts "[]"] by (simp only: root_active_def flatten_def list.map concat.simps list.set Un_empty_right)
  show ?thesis
  proof (cases "?am = []")
    case True
    then have "?rts = []" using fl by (simp add: flatten_def)
    then show ?thesis using True by (simp add: getRefTables_def buildRefsWithEndToEndDfs.simps list_all_iff)
  next
    case False
    obtain i' where i': "findTableIndex g t = Some i'" "i' < length (reversedGraph g)"
      and len: "\<And>r. r \<in> set (reversedGraph g ! i') \<Longrightarrow> length (t_PrimaryKey t) \<le> length (link_keys (edge_to r))"
      and tab: "\<And>r. r \<in> set (reversedGraph g ! i') \<Longrightarrow> link_table (edge_to r) \<in> set (g_tables g)"
      by (rule refs_wfD [OF wf(1) t]) blast
    have [simp]: "i' = i" using i'(1) i(1) by simp
    have "\<exists>s' ws'. refs_loop n cfg g a (reversedGraph g ! i) False ?am ?s = Some (Inr (s', ws')) \<and>
        ref_grows (fst ?s) s' \<and> (\<forall>r. r \<in> set (reversedGraph g ! i) \<longrightarrow> all_covered a ?am s' r)"
      by (rule loop_covers [OF wf, of i])
         (use i i' tab fits_keys [OF fit len] fit in \<open>simp_all add: fits_def ready_def\<close>)
    then obtain s' ws' where s': "refs_loop n cfg g a (reversedGraph g ! i) False ?am ?s = Some (Inr (s', ws'))"
      "\<forall>r. r \<in> set (reversedGraph g ! i) \<longrightarrow> all_covered a ?am s' r" by (elim exE conjE)
    then show ?thesis
      using False i i' by (simp add: getRefTables_def buildRefsWithEndToEndDfs.simps list_all_iff all_covered_def fl)
  qed
qed

section \<open>A self-reference that shares a key column\<close>

text \<open>
  The foreign key of a table to itself with a primary key column that stands for itself, as the tenant of a
  multi-tenant tree: the child's search is the parent's, and the set of visited references does not stop it.
\<close>

definition shared_column :: "Table \<Rightarrow> nat \<Rightarrow> Edge \<Rightarrow> bool" where
  "shared_column t p r \<longleftrightarrow> link_table (edge_to r) = t \<and> p < length (link_keys (edge_to r)) \<and>
     index_func (\<lambda>pk. pk = key_Name (link_keys (edge_to r) ! p)) (t_PrimaryKey t) = Some p"

lemma child_step_keys: "fst ` set (child_step r x out) \<supseteq> fst ` set out"
  by (auto simp: child_step_def dom_update split: prod.split option.split)

lemma foldR_child_keys:
  fixes am :: active
  assumes "foldR (\<lambda>(parentIdx, trs) out.
        bindR (key_name_at (link_keys (edge_to r)) parentIdx) (\<lambda>childColName.
        Inr (case index_func (\<lambda>pk. pk = childColName) (t_PrimaryKey (link_table (edge_to r))) of
               None \<Rightarrow> out | Some j \<Rightarrow> AList.update j trs out))) am out = Inr out'"
    and "shared_column t p r" and "p \<in> fst ` set am \<or> p \<in> fst ` set out"
  shows "p \<in> fst ` set out'"
  using assms(1,3)
proof (induction am arbitrary: out)
  case Nil
  then show ?case by simp
next
  case (Cons x am)
  obtain q trs where x: "x = (q, trs)" by (cases x)
  have q: "q < length (link_keys (edge_to r))"
    using Cons.prems(1) by (auto simp: x key_name_at_def split: if_splits)
  have "p \<in> fst ` set am \<or> p \<in> fst ` set (child_step r x out)"
  proof (cases "p = q")
    case True
    then show ?thesis using assms(2) by (simp add: x child_step_def shared_column_def dom_update)
  next
    case False
    then show ?thesis using Cons.prems(2) child_step_keys [of out r x] x by auto
  qed
  then show ?case using Cons.IH [of "child_step r x out"] Cons.prems(1) q by (simp add: x key_name_at_def child_step_def)
qed

lemma child_active_keeps:
  "child_active r am = Inr out \<Longrightarrow> shared_column t p r \<Longrightarrow> p \<in> fst ` set am \<Longrightarrow> p \<in> fst ` set out"
  unfolding child_active_def by (erule foldR_child_keys) simp_all

text \<open>A search that gives no result: it has not returned, or it panicked.\<close>

definition no_result :: "'a res option \<Rightarrow> bool" where
  "no_result o' \<longleftrightarrow> (case o' of None \<Rightarrow> True | Some (Inl e) \<Rightarrow> True | Some (Inr x) \<Rightarrow> False)"

lemma loop_no_result:
  assumes dfs: "\<And>am s. p \<in> fst ` set am \<Longrightarrow> no_result (buildRefsWithEndToEndDfs n cfg g a t True am s)"
    and r: "shared_column t p r" "p \<in> fst ` set am"
  shows "r \<in> set rs \<Longrightarrow> no_result (refs_loop n cfg g a rs chk am s)"
proof (induction rs arbitrary: s)
  case Nil
  then show ?case by simp
next
  case (Cons q rs)
  show ?case
  proof (cases "q = r")
    case True
    have "no_result (visit n cfg g a r chk am s)"
    proof (cases "child_active r am")
      case (Inl e)
      then show ?thesis by (simp add: visit_def no_result_def)
    next
      case (Inr out)
      have p: "p \<in> fst ` set out" by (rule child_active_keeps [OF Inr r])
      then have "out \<noteq> []" by auto
      then show ?thesis using dfs [OF p] r(1) Inr
        by (auto simp: visit_def no_result_def shared_column_def split: sum.split)
    qed
    then show ?thesis using True by (auto simp: refs_loop_visit no_result_def split: option.splits sum.splits)
  next
    case False
    then have rest: "no_result (refs_loop n cfg g a rs chk am s1)" for s1 using Cons by simp
    show ?thesis by (cases "visit n cfg g a q chk am s") (auto simp: refs_loop_visit rest split: sum.split, simp_all add: no_result_def)
  qed
qed

lemma self_reference_no_result:
  assumes t: "findTableIndex g t = Some i" and r: "r \<in> set (reversedGraph g ! i)" "shared_column t p r"
  shows "p \<in> fst ` set am \<Longrightarrow> no_result (buildRefsWithEndToEndDfs n cfg g a t chk am s)"
proof (induction n arbitrary: am s chk)
  case 0
  then show ?case by (simp add: buildRefsWithEndToEndDfs.simps no_result_def)
next
  case (Suc n)
  then have "am \<noteq> []" by auto
  then show ?case
    using loop_no_result [OF Suc.IH r(2) Suc.prems r(1)] t
    by (simp add: buildRefsWithEndToEndDfs.simps) (simp add: no_result_def)
qed

lemma getRefTables_no_result:
  assumes "findTableIndex g t = Some i" "r \<in> set (reversedGraph g ! i)" "shared_column t (tm_attNum rt) r"
    "rt \<in> set (collectRootTransformers t cfg)"
  shows "no_result (getRefTables n t cfg g a)"
proof -
  let ?rts = "collectRootTransformers t cfg"
  have "tm_attNum rt \<in> tm_attNum ` set (index_roots ?rts)" using assms(4) by (simp add: index_roots_attNum)
  then obtain ru where ru: "ru \<in> set (index_roots ?rts)" "tm_attNum ru = tm_attNum rt" by auto
  then have "(tm_attNum rt, ru) \<in> set (flatten (root_active ?rts))"
    unfolding root_active_def root_active_flatten using image_eqI [of "(tm_attNum rt, ru)" "\<lambda>rt. (tm_attNum rt, rt)" ru]
    by simp
  then have "tm_attNum rt \<in> fst ` set (root_active ?rts)" by (auto simp: in_flatten) (metis fst_conv image_eqI)
  from self_reference_no_result [OF assms(1-3) this, of n cfg a False "(\<lparr>rs_res = [], rs_visited = {}\<rparr>, [])"]
  show ?thesis by (auto simp: getRefTables_def no_result_def split: option.splits sum.splits)
qed

section \<open>A transformer without an engine\<close>

text \<open>
  A transformer the registry lets apply without the hash engine (the Hash transformer has no such parameter) passes
  the check, and is then left out of the transformers that are handed on.
\<close>

lemma no_engine_not_collected:
  assumes "list_all (\<lambda>tr. get_str (tr_Params tr) engineParameterName \<noteq> ''hash'') (tc_Transformers cfg)"
  shows "getRefTables (Suc n) t cfg g a = Some (Inr ([], []))"
proof -
  have "List.map_filter (root_mapping t) trs = []"
    if "list_all (\<lambda>tr. get_str (tr_Params tr) engineParameterName \<noteq> ''hash'') trs" for trs
    using that by (induction trs) (auto simp: map_filter_def root_mapping_def)
  then have "collectRootTransformers t cfg = []" using assms by (simp add: collectRootTransformers_def)
  then show ?thesis
    by (simp add: getRefTables_def root_active_def index_roots_def buildRefsWithEndToEndDfs.simps)
qed

section \<open>The inherited condition\<close>

lemma ReplaceAll_miss: "s \<noteq> [] \<Longrightarrow> old \<noteq> [] \<Longrightarrow> \<not> is_prefix old s \<Longrightarrow> ReplaceAll old new s = hd s # ReplaceAll old new (List.tl s)"
  by (subst ReplaceAll.simps) simp

lemma ReplaceAll_hit: "old \<noteq> [] \<Longrightarrow> is_prefix old s \<Longrightarrow> ReplaceAll old new s = new @ ReplaceAll old new (drop (length old) s)"
  by (subst ReplaceAll.simps) (auto simp: is_prefix_def)

lemma ReplaceAll_Nil [simp]: "ReplaceAll old new [] = []"
  by (subst ReplaceAll.simps) simp

lemma is_prefix_append [simp]: "is_prefix p (p @ s)"
  by (simp add: is_prefix_def)

lemma ReplaceAll_short: "length s < length old \<Longrightarrow> ReplaceAll old new s = s"
proof (induction s)
  case Nil
  then show ?case by simp
next
  case (Cons c s)
  have "\<not> is_prefix old (c # s)" using Cons.prems by (auto simp: is_prefix_def dest!: arg_cong [of _ _ length])
  moreover have "old \<noteq> []" using Cons.prems by auto
  ultimately show ?case using Cons by (simp add: ReplaceAll_miss)
qed

text \<open>
  The raw value of a column whose name begins the child's column: the first replacement rewrites it already, as
  \<^verbatim>\<open>raw_record\<close> ends in \<^verbatim>\<open>record\<close>, and the second rewrites it again.
\<close>

lemma child_when_twice:
  assumes "length s < length (raw_record_ns @ ''.'' @ c)"
  shows "child_when c (c @ s) (raw_record_ns @ ''.'' @ c) = raw_record_ns @ ''.'' @ c @ s @ s"
proof -
  let ?old = "record_ns @ ''.'' @ c" and ?new = "record_ns @ ''.'' @ c @ s"
  let ?rold = "raw_record_ns @ ''.'' @ c" and ?rnew = "raw_record_ns @ ''.'' @ c @ s"
  have raw: "raw_record_ns @ x = CHR ''r'' # CHR ''a'' # CHR ''w'' # CHR ''_'' # record_ns @ x" for x
    by (simp add: raw_record_ns_def record_ns_def)
  have "ReplaceAll ?old ?new ?old = ?new" using ReplaceAll_hit [of ?old ?old ?new] by (simp add: is_prefix_def)
  then have "ReplaceAll ?old ?new ?rold = ?rnew"
    unfolding raw by (simp add: ReplaceAll_miss is_prefix_def record_ns_def)
  moreover have "ReplaceAll ?rold ?rnew ?rnew = ?rnew @ s"
    using ReplaceAll_hit [of ?rold ?rnew ?rnew] ReplaceAll_short [OF assms]
    by (simp add: is_prefix_def raw_record_ns_def)
  ultimately show ?thesis by (simp add: child_when_def)
qed

end
