(* ===== verification/ConfigBuildProps.thy ===== *)
theory ConfigBuildProps
  imports ConfigBuild ApplyRefsProps SubsetGraphProps "HOL-Library.Multiset"
begin

text \<open>
  What the checks of the virtual references accept, what the graph of the tables then is, and which mapping of a
  table decides its settings.
\<close>

section \<open>Virtual references\<close>

definition column_ok :: "Table \<Rightarrow> string \<times> string \<Rightarrow> bool" where
  "column_ok t c \<longleftrightarrow> (fst c \<noteq> '''') \<noteq> (snd c \<noteq> '''') \<and> (fst c \<noteq> '''' \<longrightarrow> has_column t (fst c))"

definition reference_ok :: "Table list \<Rightarrow> Table \<Rightarrow> DomainReference \<Rightarrow> bool" where
  "reference_ok tables fkT v \<longleftrightarrow> dref_Schema v \<noteq> '''' \<and> dref_Name v \<noteq> '''' \<and> dref_Columns v \<noteq> [] \<and>
     \<not> (dref_PolymorphicExprs v \<noteq> [] \<and> dref_NotNull v) \<and> list_all (column_ok fkT) (dref_Columns v) \<and>
     (case table_index tables (dref_Schema v) (dref_Name v) of
        None \<Rightarrow> False | Some pk \<Rightarrow> length (dref_Columns v) = length (t_PrimaryKey (tables ! pk)))"

definition virtual_ok :: "Table list \<Rightarrow> VirtualReference \<Rightarrow> bool" where
  "virtual_ok tables vr \<longleftrightarrow> vr_Schema vr \<noteq> '''' \<and> vr_Name vr \<noteq> '''' \<and> vr_References vr \<noteq> [] \<and>
     (case table_index tables (vr_Schema vr) (vr_Name vr) of
        None \<Rightarrow> False | Some fk \<Rightarrow> list_all (reference_ok tables (tables ! fk)) (vr_References vr))"

lemma warn_if_Nil [simp]: "warn_if b m meta = [] \<longleftrightarrow> \<not> b"
  by (simp add: warn_if_def)

lemma concat_enumerate_Nil:
  "concat (List.map (\<lambda>(i, x). f i x) (List.enumerate n xs)) = [] \<longleftrightarrow> list_all (\<lambda>(i, x). f i x = []) (List.enumerate n xs)"
  by (auto simp: list_all_iff)

lemma list_all_enumerate: "list_all (\<lambda>(i, x). P x) (List.enumerate n xs) \<longleftrightarrow> list_all P xs"
  by (induction xs arbitrary: n) auto

lemma validateColumn_Nil: "validateColumn i c t = [] \<longleftrightarrow> column_ok t c"
  by (auto simp: validateColumn_def column_ok_def)

lemma getReferencedKeys_length:
  "list_all (column_ok t) (dref_Columns v) \<Longrightarrow> length (getReferencedKeys v) = length (dref_Columns v)"
proof -
  have "list_all (column_ok t) cs \<Longrightarrow>
      length (concat (List.map (\<lambda>(n, e). if n \<noteq> '''' then [n] else if e \<noteq> '''' then [e] else []) cs)) = length cs" for cs
    by (induction cs) (auto simp: column_ok_def)
  then show "list_all (column_ok t) (dref_Columns v) \<Longrightarrow> ?thesis" by (simp add: getReferencedKeys_def)
qed

lemma validateReference_Nil:
  "validateReference i v fkT pkT = [] \<longleftrightarrow> dref_Schema v \<noteq> '''' \<and> dref_Name v \<noteq> '''' \<and> dref_Columns v \<noteq> [] \<and>
     \<not> (dref_PolymorphicExprs v \<noteq> [] \<and> dref_NotNull v) \<and> list_all (column_ok fkT) (dref_Columns v) \<and>
     length (dref_Columns v) = length (t_PrimaryKey pkT)"
  using getReferencedKeys_length [of fkT v]
  by (auto simp: validateReference_def Let_def concat_enumerate_Nil validateColumn_Nil list_all_enumerate
      simp del: concat_eq_Nil_conv)

lemma validateReferences_Nil:
  "validateReferences i vr tables fkT = [] \<longleftrightarrow> list_all (reference_ok tables fkT) (vr_References vr)"
proof -
  have "(\<lambda>(idx, v).
       (case table_index tables (dref_Schema v) (dref_Name v) of
         None \<Rightarrow> [error_warning ''virtual reference error: table not found''
           [(''ReferenceIdx'', MetaInt idx), (''ReferenceName'', MetaStr (dref_Name v)),
            (''ReferenceSchema'', MetaStr (dref_Schema v))]]
       | Some pk \<Rightarrow> List.map (\<lambda>w.
           AddMeta ''TableSchema'' (MetaStr (vr_Schema vr)) (AddMeta ''TableName'' (MetaStr (vr_Name vr))
             (SetSeverity SevError (AddMeta ''TableIdx'' (MetaInt i) w))))
           (validateReference idx v fkT (tables ! pk))) = []) = (\<lambda>(idx, v). reference_ok tables fkT v)"
    by (auto simp: fun_eq_iff reference_ok_def validateReference_Nil split: option.split)
  then show ?thesis
    by (simp only: validateReferences_def concat_enumerate_Nil list_all_enumerate)
qed

lemma validateVirtualReference_Nil: "validateVirtualReference i vr tables = [] \<longleftrightarrow> virtual_ok tables vr"
  by (auto simp: validateVirtualReference_def virtual_ok_def validateReferences_Nil Let_def split: option.split)

lemma validateVirtualReferences_Nil: "validateVirtualReferences vrs tables = [] \<longleftrightarrow> list_all (virtual_ok tables) vrs"
  by (simp only: validateVirtualReferences_def concat_enumerate_Nil validateVirtualReference_Nil list_all_enumerate)

text \<open>The edges of accepted references have as many keys on both sides.\<close>

definition edge_keys_match :: "Edge \<Rightarrow> bool" where
  "edge_keys_match e \<longleftrightarrow> length (link_keys (edge_from e)) = length (link_keys (edge_to e))"

lemma add_virtual_matches:
  assumes "reference_ok tables fkT ref" "list_all edge_keys_match (b_edges b)"
  shows "list_all edge_keys_match (b_edges (add_virtual tables idx ref b))"
  using assms by (auto simp: add_virtual_def reference_ok_def edge_keys_match_def NewEdge_def NewTableLink_def
      NewKeysByColumn_def NewKeysByReferencedColumn_def Let_def split: option.splits)

lemma fold_virtual_matches:
  "list_all (reference_ok tables fkT) refs \<Longrightarrow> list_all edge_keys_match (b_edges b) \<Longrightarrow>
   list_all edge_keys_match (b_edges (fold (add_virtual tables idx) refs b))"
proof (induction refs arbitrary: b)
  case Nil
  then show ?case by simp
next
  case (Cons r refs)
  then show ?case using add_virtual_matches [of tables fkT r b idx] by simp
qed

lemma getVirtualReferences_ok:
  assumes "list_all (virtual_ok tables) vrs" shows "\<exists>fkT. list_all (reference_ok tables fkT) (getVirtualReferences vrs t)"
proof (cases "index_func (\<lambda>r. vr_Schema r = t_Schema t \<and> vr_Name r = t_Name t) vrs")
  case None
  then show ?thesis by (simp add: getVirtualReferences_def)
next
  case (Some i)
  then have "virtual_ok tables (vrs ! i)" using assms index_func_Some [OF Some] by (simp add: list_all_length)
  then show ?thesis using Some by (auto simp: virtual_ok_def getVirtualReferences_def split: option.splits)
qed

section \<open>The reversed graph\<close>

text \<open>What the database promises of the references: as many columns as the primary key of the table they reference.\<close>

definition fits_primary_key :: "Table list \<Rightarrow> Reference \<Rightarrow> bool" where
  "fits_primary_key tables ref \<longleftrightarrow>
     (case table_index tables (ref_Schema ref) (ref_Name ref) of
        None \<Rightarrow> True | Some i \<Rightarrow> length (t_PrimaryKey (tables ! i)) \<le> length (ReferencedKeys ref))"

definition reversed_wf :: "Table list \<Rightarrow> Builder \<Rightarrow> bool" where
  "reversed_wf tables b \<longleftrightarrow> length (b_reversed b) = length tables \<and>
     (\<forall>i < length tables. list_all (\<lambda>r. link_table (edge_to r) \<in> set tables \<and>
        length (t_PrimaryKey (tables ! i)) \<le> length (link_keys (edge_to r))) (b_reversed b ! i)) \<and>
     distinct (List.map edge_id (concat (b_reversed b))) \<and>
     list_all (\<lambda>r. edge_id r < b_seq b) (concat (b_reversed b))"

lemma mset_concat_push_at: "i < length xss \<Longrightarrow> mset (concat (push_at i x xss)) = add_mset x (mset (concat xss))"
  unfolding push_at_def by (induction xss arbitrary: i) (auto split: nat.splits)

lemma add_reference_reversed:
  assumes b: "reversed_wf tables b" and idx: "idx < length tables" and fit: "fits_primary_key tables ref"
  shows "reversed_wf tables (add_reference tables idx ref b)"
proof (cases "table_index tables (ref_Schema ref) (ref_Name ref)")
  case None
  then show ?thesis using b by (simp add: add_reference_def)
next
  case (Some u)
  have u: "u < length (b_reversed b)" using table_index_range [OF Some] b by (simp add: reversed_wf_def)
  let ?r = "NewEdge (b_seq b) idx (ref_IsNullable ref)
      (NewTableLink u (tables ! u) (NewKeysByColumn (RefTableKeys ref)) [])
      (NewTableLink idx (tables ! idx) (NewKeysByColumn (ReferencedKeys ref)) [])"
  have r: "b_reversed (add_reference tables idx ref b) = push_at u ?r (b_reversed b)"
    "b_seq (add_reference tables idx ref b) = b_seq b + 1"
    by (simp_all add: add_reference_def Some Let_def)
  note m = mset_concat_push_at [OF u, of ?r]
  have ids: "mset (List.map edge_id (concat (push_at u ?r (b_reversed b)))) =
      add_mset (b_seq b) (mset (List.map edge_id (concat (b_reversed b))))"
    by (simp only: mset_map m image_mset_add_mset edge_link_simps)
  have "distinct (List.map edge_id (concat (push_at u ?r (b_reversed b))))"
    unfolding mset_eq_imp_distinct_iff [OF ids [folded mset.simps(2)]]
    using b by (fastforce simp: reversed_wf_def list_all_iff)
  moreover have "set (concat (push_at u ?r (b_reversed b))) = insert ?r (set (concat (b_reversed b)))"
    using arg_cong [OF m, of set_mset] by (simp only: set_mset_mset set_mset_add_mset_insert)
  then have "list_all (\<lambda>r. edge_id r < b_seq b + 1) (concat (push_at u ?r (b_reversed b)))"
    using b by (auto simp: reversed_wf_def list_all_iff simp del: set_concat)
  moreover have "list_all (\<lambda>r. link_table (edge_to r) \<in> set tables \<and>
        length (t_PrimaryKey (tables ! i)) \<le> length (link_keys (edge_to r))) (push_at u ?r (b_reversed b) ! i)"
    if "i < length tables" for i
    using that b fit idx u Some
    by (auto simp: reversed_wf_def fits_primary_key_def NewTableLink_def NewKeysByColumn_def)
  ultimately show ?thesis using b unfolding reversed_wf_def r by simp
qed

lemma add_virtual_reversed: "reversed_wf tables b \<Longrightarrow> reversed_wf tables (add_virtual tables idx ref b)"
  by (auto simp: reversed_wf_def add_virtual_def Let_def list_all_iff less_Suc_eq split: option.split)

lemma fold_reference_reversed:
  "reversed_wf tables b \<Longrightarrow> idx < length tables \<Longrightarrow> list_all (fits_primary_key tables) refs \<Longrightarrow>
   reversed_wf tables (fold (add_reference tables idx) refs b)"
  by (induction refs arbitrary: b) (auto simp: add_reference_reversed)

lemma new_builder_reversed: "reversed_wf tables (new_builder tables)"
proof -
  have "concat (replicate n []) = []" for n :: nat by (induction n) auto
  then show ?thesis by (simp add: reversed_wf_def new_builder_def)
qed

definition references_fit :: "(32 word \<Rightarrow> Reference list res) \<Rightarrow> Table list \<Rightarrow> bool" where
  "references_fit getReferences tables \<longleftrightarrow>
     list_all (\<lambda>t. case getReferences (t_Oid t) of Inl e \<Rightarrow> True | Inr refs \<Rightarrow> list_all (fits_primary_key tables) refs) tables"

lemma build_reversed:
  assumes "references_fit getReferences tables" "set idxs \<subseteq> {..<length tables}" "reversed_wf tables b"
    and "foldR (add_table getReferences vr tables) idxs b = Inr b'"
  shows "reversed_wf tables b'"
  using assms(4)
proof (rule foldR_invariant [where P = "reversed_wf tables"])
  show "reversed_wf tables b" by fact
  fix i c c' assume i: "i \<in> set idxs" and c: "reversed_wf tables c" and step: "add_table getReferences vr tables i c = Inr c'"
  have il: "i < length tables" using i assms(2) by auto
  obtain refs where refs: "getReferences (t_Oid (tables ! i)) = Inr refs"
    and c': "c' = fold (add_virtual tables i) (getVirtualReferences vr (tables ! i)) (fold (add_reference tables i) refs c)"
    using step by (auto simp: add_table_def bindR_eq_Inr)
  have "list_all (fits_primary_key tables) refs"
    using assms(1) il refs by (auto simp: references_fit_def list_all_length)
  from fold_reference_reversed [OF c il this] show "reversed_wf tables c'"
    unfolding c' by (rule fold_keeps) (rule add_virtual_reversed)
qed

text \<open>Every table is found at its own place: names differ, also from each other's quoted form.\<close>

definition named_apart :: "Table list \<Rightarrow> bool" where
  "named_apart tables \<longleftrightarrow> list_all (\<lambda>(i, t). index_func (\<lambda>u. same_or_quoted (t_Name t) (t_Name u) \<and>
      same_or_quoted (t_Schema t) (t_Schema u)) tables = Some i) (List.enumerate 0 tables)"

lemma NewGraph_refs_wf:
  assumes "NewGraph getReferences tables vr = Inr g" "references_fit getReferences tables" "named_apart tables"
  shows "refs_wf g \<and> g_tables g = tables"
proof -
  from assms(1) obtain b where b: "foldR (add_table getReferences vr tables) [0..<length tables] (new_builder tables) = Inr b"
    and g: "g_tables g = tables" "reversedGraph g = b_reversed b"
    unfolding NewGraph_def bindR_eq_Inr by (auto dest: buildCondensedGraph_keeps)
  have wf: "reversed_wf tables b"
    by (rule build_reversed [OF assms(2) _ new_builder_reversed b]) auto
  have "findTableIndex g (tables ! i) = Some i" if "i < length tables" for i
    using assms(3) that by (auto simp: named_apart_def list_all_length nth_enumerate_eq findTableIndex_def g)
  moreover have "list_all (\<lambda>r. link_table (edge_to r) \<in> set tables \<and>
        length (t_PrimaryKey (tables ! i)) \<le> length (link_keys (edge_to r))) (b_reversed b ! i)" if "i < length tables" for i
    using wf that by (simp add: reversed_wf_def)
  ultimately have "refs_wf g"
    using wf by (auto simp: refs_wf_def g reversed_wf_def list_all_length)
  then show ?thesis using g by simp
qed

text \<open>Every foreign key is found at the table it references, the other way round.\<close>

definition reversed_has :: "nat \<Rightarrow> Table \<Rightarrow> string list \<Rightarrow> Builder \<Rightarrow> bool" where
  "reversed_has i u cs b \<longleftrightarrow> i < length (b_reversed b) \<and>
     (\<exists>r \<in> set (b_reversed b ! i). link_table (edge_to r) = u \<and> link_keys (edge_to r) = NewKeysByColumn cs)"

lemma push_at_keeps: "i < length xss \<Longrightarrow> set (xss ! i) \<subseteq> set (push_at j x xss ! i)"
  unfolding push_at_def by (cases "j < length xss") (auto simp: nth_list_update)

lemma push_at_adds: "i < length xss \<Longrightarrow> x \<in> set (push_at i x xss ! i)"
  by (simp add: push_at_def)

lemma reversed_has_push:
  assumes "reversed_has i u cs b" and "b_reversed b' = push_at j r (b_reversed b)"
  shows "reversed_has i u cs b'"
  using assms push_at_keeps [of i "b_reversed b" j r] unfolding reversed_has_def by auto

lemma reversed_has_reference: "reversed_has i u cs b \<Longrightarrow> reversed_has i u cs (add_reference tables idx ref b)"
  by (cases "table_index tables (ref_Schema ref) (ref_Name ref)")
     (auto simp: add_reference_def Let_def intro: reversed_has_push)

lemma reversed_has_virtual: "reversed_has i u cs b \<Longrightarrow> reversed_has i u cs (add_virtual tables idx ref b)"
  by (simp add: reversed_has_def add_virtual_def Let_def split: option.split)

lemma length_reversed_reference: "length (b_reversed (add_reference tables idx ref b)) = length (b_reversed b)"
  by (simp add: add_reference_def Let_def split: option.split)

lemma add_reference_has:
  assumes "table_index tables (ref_Schema ref) (ref_Name ref) = Some i" and "length (b_reversed b) = length tables"
  shows "reversed_has i (tables ! idx) (ReferencedKeys ref) (add_reference tables idx ref b)"
  using assms table_index_range [OF assms(1)]
  by (auto simp: reversed_has_def add_reference_def Let_def NewTableLink_def NewEdge_def intro!: bexI [OF _ push_at_adds])

lemma fold_reference_has:
  assumes "ref \<in> set refs" and "table_index tables (ref_Schema ref) (ref_Name ref) = Some i"
    and "length (b_reversed b) = length tables"
  shows "reversed_has i (tables ! idx) (ReferencedKeys ref) (fold (add_reference tables idx) refs b)"
  using assms(1,3)
proof (induction refs arbitrary: b)
  case (Cons a refs)
  have keep: "reversed_has i (tables ! idx) (ReferencedKeys ref) (fold (add_reference tables idx) refs c)"
    if "reversed_has i (tables ! idx) (ReferencedKeys ref) c" for c
    using that by (rule fold_keeps) (rule reversed_has_reference)
  show ?case
  proof (cases "ref \<in> set refs")
    case True
    with Cons show ?thesis by (simp add: length_reversed_reference)
  next
    case False
    then have "a = ref" using Cons.prems(1) by simp
    with keep [OF add_reference_has [OF assms(2) Cons.prems(2)]] show ?thesis by simp
  qed
qed simp

lemma add_table_has:
  assumes "add_table getReferences vr tables k b = Inr b'" and "reversed_has i u cs b"
  shows "reversed_has i u cs b'"
proof -
  obtain refs where b': "b' = fold (add_virtual tables k) (getVirtualReferences vr (tables ! k)) (fold (add_reference tables k) refs b)"
    using assms(1) by (auto simp: add_table_def bindR_eq_Inr)
  show ?thesis unfolding b'
    by (rule fold_keeps, rule fold_keeps, rule assms(2)) (rule reversed_has_reference reversed_has_virtual, assumption)+
qed

lemma add_table_adds:
  assumes "add_table getReferences vr tables k b = Inr b'" and "getReferences (t_Oid (tables ! k)) = Inr refs"
    and "ref \<in> set refs" and "table_index tables (ref_Schema ref) (ref_Name ref) = Some i"
    and "length (b_reversed b) = length tables"
  shows "reversed_has i (tables ! k) (ReferencedKeys ref) b'"
proof -
  have b': "b' = fold (add_virtual tables k) (getVirtualReferences vr (tables ! k)) (fold (add_reference tables k) refs b)"
    using assms(1,2) by (simp add: add_table_def)
  show ?thesis unfolding b'
    by (rule fold_keeps [where P = "reversed_has i (tables ! k) (ReferencedKeys ref)", OF fold_reference_has [OF assms(3-5)]])
      (rule reversed_has_virtual)
qed

lemma add_table_length:
  assumes "add_table getReferences vr tables k b = Inr b'"
  shows "length (b_reversed b') = length (b_reversed b)"
proof -
  obtain refs where b': "b' = fold (add_virtual tables k) (getVirtualReferences vr (tables ! k)) (fold (add_reference tables k) refs b)"
    using assms by (auto simp: add_table_def bindR_eq_Inr)
  have v: "length (b_reversed (add_virtual tables k ref c)) = length (b_reversed c)" for ref c
    by (simp add: add_virtual_def Let_def split: option.split)
  show ?thesis unfolding b'
    by (rule fold_keeps [where P = "\<lambda>c. length (b_reversed c) = length (b_reversed b)"],
        rule fold_keeps [where P = "\<lambda>c. length (b_reversed c) = length (b_reversed b)"])
      (simp_all add: v length_reversed_reference)
qed

lemma build_reversed_has:
  assumes "getReferences (t_Oid (tables ! k)) = Inr refs" and "ref \<in> set refs"
    and "table_index tables (ref_Schema ref) (ref_Name ref) = Some i"
  shows "k \<in> set idxs \<Longrightarrow> length (b_reversed b) = length tables \<Longrightarrow>
    foldR (add_table getReferences vr tables) idxs b = Inr b' \<Longrightarrow> reversed_has i (tables ! k) (ReferencedKeys ref) b'"
proof (induction idxs arbitrary: b)
  case (Cons a idxs)
  obtain b1 where b1: "add_table getReferences vr tables a b = Inr b1"
    "foldR (add_table getReferences vr tables) idxs b1 = Inr b'"
    using Cons.prems(3) by (auto simp: bindR_eq_Inr)
  show ?case
  proof (cases "a = k")
    case True
    have "reversed_has i (tables ! k) (ReferencedKeys ref) b1"
      by (rule add_table_adds [OF b1(1) [unfolded True] assms Cons.prems(2)])
    then show ?thesis using add_table_has
      by (intro foldR_invariant [OF b1(2), where P = "reversed_has i (tables ! k) (ReferencedKeys ref)"]) blast+
  next
    case False
    with Cons.IH [OF _ _ b1(2)] Cons.prems add_table_length [OF b1(1)] show ?thesis by simp
  qed
qed simp

lemma NewGraph_reversed:
  assumes "NewGraph getReferences tables vr = Inr g" and "u \<in> set tables" and "getReferences (t_Oid u) = Inr refs"
    and "ref \<in> set refs" and "table_index tables (ref_Schema ref) (ref_Name ref) = Some i"
  obtains r where "r \<in> set (reversedGraph g ! i)" and "link_table (edge_to r) = u"
    and "link_keys (edge_to r) = NewKeysByColumn (ReferencedKeys ref)"
proof -
  from assms(1) obtain b where b: "foldR (add_table getReferences vr tables) [0..<length tables] (new_builder tables) = Inr b"
    and g: "reversedGraph g = b_reversed b"
    unfolding NewGraph_def bindR_eq_Inr by (auto dest: buildCondensedGraph_keeps)
  obtain k where k: "k < length tables" "u = tables ! k" using assms(2) by (auto simp: in_set_conv_nth)
  have l: "length (b_reversed (new_builder tables)) = length tables" by (simp add: new_builder_def)
  have "reversed_has i (tables ! k) (ReferencedKeys ref) b"
    by (rule build_reversed_has [OF assms(3) [unfolded k(2)] assms(4,5) _ l b]) (use k(1) in simp)
  then show ?thesis using that by (auto simp: reversed_has_def g k(2))
qed

lemma named_index:
  "named_apart tables \<Longrightarrow> g_tables g = tables \<Longrightarrow> i < length tables \<Longrightarrow> findTableIndex g (tables ! i) = Some i"
  by (auto simp: named_apart_def list_all_length nth_enumerate_eq findTableIndex_def)

lemma references_fitD:
  assumes "references_fit getReferences tables" and "u \<in> set tables" and "getReferences (t_Oid u) = Inr refs"
    and "ref \<in> set refs" and "table_index tables (ref_Schema ref) (ref_Name ref) = Some i"
  shows "length (t_PrimaryKey (tables ! i)) \<le> length (ReferencedKeys ref)"
proof -
  have "fits_primary_key tables ref" using assms(1-4) by (fastforce simp: references_fit_def list_all_iff)
  then show ?thesis by (simp add: fits_primary_key_def assms(5))
qed

section \<open>What a table hands on\<close>

text \<open>
  The transformer for another column: only the parameter that names the column changes, and the condition if there is
  one.
\<close>

definition for_column :: "TransformerConfig \<Rightarrow> string \<Rightarrow> TransformerConfig \<Rightarrow> bool" where
  "for_column tr c tr' \<longleftrightarrow> tr_Name tr' = tr_Name tr \<and> tr_Params tr' = AList.update ''column'' c (tr_Params tr) \<and>
     tr_DynamicParams tr' = tr_DynamicParams tr \<and> ApplyForReferences tr' = ApplyForReferences tr \<and>
     (tr_When tr = '''' \<longrightarrow> tr_When tr' = '''')"

lemma child_transformer_for_column: "for_column (tm_cfg rt) c (child_transformer rt c)"
  by (simp add: for_column_def child_transformer_def Clone_def Let_def)

text \<open>The position of a column in a primary key that names it once.\<close>

lemma index_of_key: "distinct xs \<Longrightarrow> p < length xs \<Longrightarrow> index_func (\<lambda>x. x = xs ! p) xs = Some p"
proof (induction xs arbitrary: p)
  case (Cons x xs)
  then show ?case by (cases p) auto
qed simp

lemma root_of_transformer:
  assumes "tr \<in> set (tc_Transformers cfg)" and "ApplyForReferences tr"
    and "get_str (tr_Params tr) engineParameterName = ''hash''"
    and "distinct (t_PrimaryKey t)" and "p < length (t_PrimaryKey t)"
    and "t_PrimaryKey t ! p = get_str (tr_Params tr) columnParameterName"
  obtains rt where "rt \<in> set (index_roots (collectRootTransformers t cfg))" and "tm_cfg rt = tr" and "tm_attNum rt = p"
proof -
  let ?c = "get_str (tr_Params tr) columnParameterName"
  have "index_func (\<lambda>pk. pk = ?c) (t_PrimaryKey t) = Some p" using index_of_key [OF assms(4,5)] by (simp only: assms(6))
  then have "root_mapping t tr = Some \<lparr>tm_entry = t, tm_columnName = ?c, tm_attNum = p, tm_cfg = tr, tm_index = 0\<rparr>"
    using assms(2,3) by (simp add: root_mapping_def Let_def)
  then have "\<lparr>tm_entry = t, tm_columnName = ?c, tm_attNum = p, tm_cfg = tr, tm_index = 0\<rparr> \<in> set (collectRootTransformers t cfg)"
    using assms(1) by (force simp: collectRootTransformers_def map_filter_def)
  then obtain k where k: "k < length (collectRootTransformers t cfg)"
    "collectRootTransformers t cfg ! k = \<lparr>tm_entry = t, tm_columnName = ?c, tm_attNum = p, tm_cfg = tr, tm_index = 0\<rparr>"
    by (auto simp: in_set_conv_nth)
  then have e: "(k, collectRootTransformers t cfg ! k) \<in> set (List.enumerate 0 (collectRootTransformers t cfg))"
    by (simp add: in_set_enumerate_eq)
  have "\<lparr>tm_entry = t, tm_columnName = ?c, tm_attNum = p, tm_cfg = tr, tm_index = k\<rparr>
      \<in> set (index_roots (collectRootTransformers t cfg))"
    unfolding index_roots_def set_map by (rule image_eqI [OF _ e]) (simp add: k(2))
  then show ?thesis by (rule that) simp_all
qed

section \<open>The last mapping of a table\<close>

definition settings :: "('d, 'w, 'k, 'x) EntryState \<Rightarrow> string list \<times> string" where
  "settings s = (es_SubsetConds s, es_Query s)"

definition settings_of :: "TableConfigMapping \<Rightarrow> string list \<times> string" where
  "settings_of m = (escapeSubsetConds (tc_SubsetConds (tcm_config m)), tc_Query (tcm_config m))"

lemma update_entry_simps:
  "update_entry t f st o' = (if o' = t_Oid t then f (st o') else st o')"
  by (simp add: update_entry_def)

lemma apply_mapping_settings:
  assumes "apply_mapping env m (st, ws) = Inr (False, st', ws')"
  shows "settings (st' k) = (if k = t_Oid (tcm_entry m) then settings_of m else settings (st k))"
  using assms
  by (auto simp: apply_mapping_def Let_def bindR_eq_Inr update_entry_simps settings_def settings_of_def setQuery_def
      setSubsetConds_def setColumnTypeOverrides_def split: if_splits prod.splits)

definition mapping_of :: "32 word \<Rightarrow> TableConfigMapping list \<Rightarrow> TableConfigMapping list" where
  "mapping_of k ms = filter (\<lambda>m. t_Oid (tcm_entry m) = k) ms"

lemma apply_mappings_settings:
  "apply_mappings env ms (st, ws) = Inr (False, st', ws') \<Longrightarrow>
   settings (st' k) = (if mapping_of k ms = [] then settings (st k) else settings_of (last (mapping_of k ms)))"
proof (induction ms arbitrary: st ws)
  case Nil
  then show ?case by (simp add: mapping_of_def)
next
  case (Cons m ms)
  obtain st1 ws1 where 1: "apply_mapping env m (st, ws) = Inr (False, st1, ws1)"
    "apply_mappings env ms (st1, ws1) = Inr (False, st', ws')"
    using Cons.prems by (auto simp: bindR_eq_Inr split: if_splits)
  show ?case
    using Cons.IH [OF 1(2)] apply_mapping_settings [OF 1(1), of k] by (auto simp: mapping_of_def)
qed

text \<open>The mappings of the references carry no settings of their own.\<close>

definition bare :: "TableConfigMapping list \<Rightarrow> bool" where
  "bare out \<longleftrightarrow> list_all (\<lambda>m. tc_SubsetConds (tcm_config m) = [] \<and> tc_Query (tcm_config m) = '''' \<and>
                          tc_When (tcm_config m) = '''') out"

lemma add_bare: "bare out \<Longrightarrow> bare (addTransformerToReferenceTable r c ov out)"
  by (auto simp: bare_def addTransformerToReferenceTable_def Let_def list_all_length nth_list_update nth_append
      less_Suc_eq dest: index_func_Some split: option.split)

lemma process_bare:
  assumes "processReference r cfg a am s = Inr s'" "bare (rs_res (fst s))" shows "bare (rs_res (fst s'))"
  using assms unfolding processReference_def
proof (rule foldR_invariant [where P = "\<lambda>s. bare (rs_res (fst s))"])
  fix x s s' assume "bare (rs_res (fst s))" "processTransformer r cfg a x s = Inr s'"
  then show "bare (rs_res (fst s'))"
    by (cases x; cases s) (auto simp: processTransformer_def Let_def bindR_eq_Inr add_bare split: if_splits)
qed

lemma dfs_bare:
  "buildRefsWithEndToEndDfs n cfg g a t chk am s = Some (Inr s') \<Longrightarrow> bare (rs_res (fst s)) \<Longrightarrow> bare (rs_res (fst s'))"
  "refs_loop n cfg g a rs chk am s = Some (Inr s') \<Longrightarrow> bare (rs_res (fst s)) \<Longrightarrow> bare (rs_res (fst s'))"
proof (induction n cfg g a t chk am s and n cfg g a rs chk am s arbitrary: s' and s'
    rule: buildRefsWithEndToEndDfs_refs_loop.induct)
  case (1 cfg g a t chk am s)
  then show ?case by (simp add: buildRefsWithEndToEndDfs.simps)
next
  case (2 n cfg g a t chk am s)
  then show ?case by (auto simp: buildRefsWithEndToEndDfs.simps split: if_splits option.splits)
next
  case (3 n cfg g a chk am s)
  then show ?case by (simp add: refs_loop.simps)
next
  case (4 n cfg g a r rs chk am s)
  obtain childAm where ch: "child_active r am = Inr childAm"
    using "4.prems"(1) by (auto simp: refs_loop.simps split: sum.splits)
  show ?case
  proof (cases "chk \<and> childAm = []")
    case True
    then show ?thesis using 4 ch by (simp add: refs_loop.simps)
  next
    case False
    obtain s1 where s1: "processReference r cfg a am s = Inr s1"
      using "4.prems"(1) ch False by (auto simp: refs_loop.simps split: sum.splits if_splits)
    note b1 = process_bare [OF s1 "4.prems"(2)]
    show ?thesis
    proof (cases "childAm = []")
      case True
      then show ?thesis using 4 ch s1 b1 False by (simp add: refs_loop.simps)
    next
      case go: False
      obtain s2 where s2: "buildRefsWithEndToEndDfs n cfg g a (link_table (edge_to r)) True childAm s1 = Some (Inr s2)"
        using "4.prems"(1) ch s1 False go by (auto simp: refs_loop.simps split: sum.splits option.splits)
      have "bare (rs_res (fst s2))" by (rule "4.IH"(3) [OF ch _ s1 _ s2 b1]) (use False go in auto)
      moreover have "refs_loop n cfg g a rs chk am s2 = Some (Inr s')"
        using "4.prems"(1) ch s1 False go s2 by (simp add: refs_loop.simps)
      ultimately show ?thesis using "4.IH"(4) ch s1 False go s2 by blast
    qed
  qed
qed

lemma getRefTables_bare: "getRefTables n t cfg g a = Some (Inr (out, ws)) \<Longrightarrow> bare out"
  by (auto simp: getRefTables_def bindR_eq_Inr dest!: dfs_bare(1) simp: bare_def)

lemma references_erase_settings:
  assumes refs: "getRefTables n t cfg g a = Some (Inr (refs, warns))"
    and k: "k \<in> set (List.map (t_Oid \<circ> tcm_entry) refs)" "k \<notin> set (List.map (t_Oid \<circ> tcm_entry) post)"
    and run: "apply_mappings env (pre @ refs @ post) (st, ws) = Inr (False, st', ws')"
  shows "es_SubsetConds (st' k) = [] \<and> es_Query (st' k) = ''''"
proof -
  have post: "mapping_of k post = []" using k(2) by (auto simp: mapping_of_def filter_empty_conv)
  have ne: "mapping_of k refs \<noteq> []" using k(1) by (auto simp: mapping_of_def filter_empty_conv)
  then have "last (mapping_of k (pre @ refs @ post)) = last (mapping_of k refs)"
    using post by (simp add: mapping_of_def)
  moreover have "last (mapping_of k refs) \<in> set refs" using last_in_set [OF ne] by (simp add: mapping_of_def)
  ultimately have "settings_of (last (mapping_of k (pre @ refs @ post))) = ([], '''')"
    using getRefTables_bare [OF refs] by (auto simp: bare_def list_all_iff settings_of_def escapeSubsetConds_def)
  moreover have "mapping_of k (pre @ refs @ post) \<noteq> []" using ne by (simp add: mapping_of_def)
  ultimately have "settings (st' k) = ([], '''')"
    using apply_mappings_settings [OF run, of k] by simp
  then show ?thesis by (simp add: settings_def)
qed

end
