(* ===== verification/ConfigClaims.thy ===== *)
theory ConfigClaims
  imports ConfigBuildProps
begin

text \<open>
  The properties of the configuration: what a table hands on to the tables that reference it, and when that goes
  wrong; what the check of the virtual references accepts.
\<close>

section \<open>Samples\<close>

definition sample_transformer :: "string \<Rightarrow> TransformerConfig" where
  "sample_transformer col =
     \<lparr>tr_Name = ''RandomInt'', tr_ResolveEnv = False, ApplyForReferences = True,
      tr_Params = [(''column'', col), (''engine'', ''hash'')], tr_DynamicParams = [], tr_When = ''''\<rparr>"

definition sample_config :: "string \<Rightarrow> string \<Rightarrow> TableConfig" where
  "sample_config name col =
     \<lparr>tc_Schema = ''s'', tc_Name = name, tc_Query = '''', ApplyForInherited = False,
      tc_Transformers = [sample_transformer col], ColumnsTypeOverride = [], tc_SubsetConds = [], tc_When = ''''\<rparr>"

lemma NewGraph_built:
  assumes "NewGraph getReferences tables vr = Inr g"
    and "foldR (add_table getReferences vr tables) [0..<length tables] (new_builder tables) = Inr b"
  shows "g_tables g = tables \<and> reversedGraph g = b_reversed b"
  using assms unfolding NewGraph_def by (auto dest: buildCondensedGraph_keeps)

lemmas build_simps = add_table_def add_reference_def table_index_def new_builder_def getVirtualReferences_def
  NewEdge_def NewTableLink_def NewKeysByColumn_def push_at_def Let_def

text \<open>A table whose foreign key to itself shares the first column of the primary key.\<close>

definition tree_table :: Table where
  "tree_table = (sample_table 0)\<lparr>t_Name := ''tree'', t_PrimaryKey := [''tenant'', ''id'']\<rparr>"

definition tree_refs :: "32 word \<Rightarrow> Reference list res" where
  "tree_refs oid = Inr [\<lparr>ref_Schema = ''s'', ref_Name = ''tree'', ReferencedKeys = [''tenant'', ''parent''],
     RefTableKeys = [''tenant'', ''id''], ref_IsNullable = True\<rparr>]"

definition tree_builder :: Builder where
  "tree_builder = projr (foldR (add_table tree_refs [] [tree_table]) [0..<1] (new_builder [tree_table]))"

lemma tree_build: "foldR (add_table tree_refs [] [tree_table]) [0..<length [tree_table]] (new_builder [tree_table]) = Inr tree_builder"
  by (simp add: tree_builder_def tree_refs_def build_simps tree_table_def sample_table_def)

definition sample_builder :: Builder where
  "sample_builder = projr (foldR (add_table sample_refs [] sample_tables) [0..<2] (new_builder sample_tables))"

lemma sample_build:
  "foldR (add_table sample_refs [] sample_tables) [0..<length sample_tables] (new_builder sample_tables) = Inr sample_builder"
  by (simp add: sample_builder_def sample_refs_def build_simps sample_tables_def sample_table_def upt_rec)

lemma ref_sample_reversed:
  "b_reversed sample_builder =
     [[], [NewEdge 0 0 False (NewTableLink (Suc 0) (sample_tables ! Suc 0) (NewKeysByColumn [''id'']) [])
             (NewTableLink 0 (sample_tables ! 0) (NewKeysByColumn [''b_id'']) [])]]"
  by (simp add: sample_builder_def sample_refs_def build_simps sample_tables_def sample_table_def upt_rec)

lemma tree_reversed:
  "b_reversed tree_builder =
     [[NewEdge 0 0 True (NewTableLink 0 tree_table (NewKeysByColumn [''tenant'', ''id'']) [])
             (NewTableLink 0 tree_table (NewKeysByColumn [''tenant'', ''parent'']) [])]]"
  by (simp add: tree_builder_def tree_refs_def build_simps tree_table_def sample_table_def)

section \<open>The transformers of a key reach the tables that reference it\<close>



text \<open>
  Claim C34. A table whose foreign key to itself keeps a column of its primary key (the tenant of a tree) and whose
  transformer stands on that column: the search for the references never gives a result, since the set of visited
  references only guards what is added and not the descent.
\<close>

theorem self_reference_never_returns:
  assumes "findTableIndex g t = Some i" and "r \<in> set (reversedGraph g ! i)"
    and "shared_column t (tm_attNum rt) r" and "rt \<in> set (collectRootTransformers t cfg)"
  shows "getRefTables n t cfg g allTrans \<noteq> Some (Inr result)"
  using getRefTables_no_result [OF assms, of n allTrans] by (auto simp: no_result_def)

theorem self_reference_never_returns_witness:
  "\<exists>g. NewGraph tree_refs [tree_table] [] = Inr g \<and>
    getRefTables 1000 tree_table (sample_config ''tree'' ''tenant'') g [] \<noteq> Some (Inr ([], []))"
proof -
  obtain g where g: "NewGraph tree_refs [tree_table] [] = Inr g"
    using NewGraph_ok [of "[tree_table]" tree_refs] by (auto simp: tree_refs_def)
  have b: "g_tables g = [tree_table]" "reversedGraph g = b_reversed tree_builder"
    using NewGraph_built [OF g tree_build] by simp_all
  have "findTableIndex g tree_table = Some 0" by (simp add: findTableIndex_def b same_or_quoted_def)
  moreover have "shared_column tree_table 0 (hd (reversedGraph g ! 0))"
    by (simp add: shared_column_def b tree_reversed NewTableLink_def NewKeysByColumn_def tree_table_def)
  moreover have "hd (reversedGraph g ! 0) \<in> set (reversedGraph g ! 0)" by (simp add: b tree_reversed)
  moreover have "\<lparr>tm_entry = tree_table, tm_columnName = ''tenant'', tm_attNum = 0, tm_cfg = sample_transformer ''tenant'',
       tm_index = 0\<rparr> \<in> set (collectRootTransformers tree_table (sample_config ''tree'' ''tenant''))"
    by (simp add: collectRootTransformers_def sample_config_def map_filter_def root_mapping_def sample_transformer_def
        get_str_def engineParameterName_def columnParameterName_def tree_table_def Let_def)
  ultimately show ?thesis
    using g self_reference_never_returns [of g tree_table 0 "hd (reversedGraph g ! 0)"
        "\<lparr>tm_entry = tree_table, tm_columnName = ''tenant'', tm_attNum = 0, tm_cfg = sample_transformer ''tenant'', tm_index = 0\<rparr>"
        "sample_config ''tree'' ''tenant''" 1000 "[]" "([], [])"] by auto
qed

section \<open>A transformer that needs no engine\<close>

text \<open>
  A transformer that the registry allows for references without the hash engine and whose parameters name
  no engine, as \<^verbatim>\<open>Hash\<close>, passes the check without a warning, but no reference gets it.
\<close>

lemma engineless_transformer_not_inherited:
  assumes "registry (tr_Name tr) = Some props"
    and "AllowApplyForReferenced props = Some (Some True)" and "RequireHashEngineParameter props = Some (Some False)"
    and "get_str (tr_Params tr) engineParameterName = ''''" and "tc_Transformers cfg = [tr]"
  shows "checkApplyForReferenceMetRequirements \<lparr>tcm_entry = t, tcm_config = cfg\<rparr> registry = (True, []) \<and>
    getRefTables (Suc n) t cfg g allTrans = Some (Inr ([], []))"
proof -
  have "isTransformerAllowedToApplyForReferences tr registry = (True, [])"
    using assms by (simp add: isTransformerAllowedToApplyForReferences_def)
  then show ?thesis
    using assms no_engine_not_collected [of cfg n t g allTrans]
    by (simp add: checkApplyForReferenceMetRequirements_def IsFatal_def)
qed

definition hash_transformer :: TransformerConfig where
  "hash_transformer = (sample_transformer ''id'')\<lparr>tr_Name := ''Hash'', tr_Params := [(''column'', ''id'')]\<rparr>"

definition hash_registry :: registry where
  "hash_registry = (\<lambda>n. if n = ''Hash''
     then Some \<lparr>AllowApplyForReferenced = Some (Some True), RequireHashEngineParameter = Some (Some False)\<rparr> else None)"

theorem engineless_transformer_not_inherited_witness:
  "checkApplyForReferenceMetRequirements
     \<lparr>tcm_entry = sample_table 0, tcm_config = (sample_config ''b'' ''id'')\<lparr>tc_Transformers := [hash_transformer]\<rparr>\<rparr>
     hash_registry = (True, [])"
  using engineless_transformer_not_inherited [of hash_registry hash_transformer
      "\<lparr>AllowApplyForReferenced = Some (Some True), RequireHashEngineParameter = Some (Some False)\<rparr>"
      "(sample_config ''b'' ''id'')\<lparr>tc_Transformers := [hash_transformer]\<rparr>" "sample_table 0"]
  by (simp add: hash_registry_def hash_transformer_def get_str_def engineParameterName_def)

section \<open>The condition of an inherited transformer\<close>

text \<open>
  The condition on the raw value of a column whose name is a prefix of the child's column is rewritten
  twice: the child's condition names a column with the suffix repeated.
\<close>

lemma raw_condition_rewritten_twice:
  assumes "length s < length (raw_record_ns @ ''.'' @ c)"
  shows "child_when c (c @ s) (raw_record_ns @ ''.'' @ c) = raw_record_ns @ ''.'' @ c @ s @ s"
  by (rule child_when_twice [OF assms])

theorem raw_condition_rewritten_twice_witness:
  "child_when ''id'' ''id_ref'' ''raw_record.id'' = ''raw_record.id_ref_ref''"
  using raw_condition_rewritten_twice [of "''_ref''" "''id''"] by (simp add: raw_record_ns_def)

section \<open>The settings of a referencing table\<close>

text \<open>
  When the mappings of the references of a table come after a table's own one (the parent stands behind
  the child in the list of tables), they erase the child's subset conditions and query.
\<close>

lemma references_erase_subset_and_query:
  assumes "getRefTables n t cfg g allTrans = Some (Inr (refs, warns))"
    and "k \<in> set (List.map (t_Oid \<circ> tcm_entry) refs)" and "k \<notin> set (List.map (t_Oid \<circ> tcm_entry) post)"
    and "apply_mappings env (pre @ refs @ post) (st, ws) = Inr (False, st', ws')"
  shows "es_SubsetConds (st' k) = [] \<and> es_Query (st' k) = ''''"
  by (rule references_erase_settings [OF assms])

text \<open>The configuration of the child has a subset condition and a query; its parent stands behind it.\<close>

definition sample_env :: "(unit, unit, unit, string) Env" where
  "sample_env = \<lparr>env_relKind = (\<lambda>t. CHR ''r''), env_tableExists = (\<lambda>s n. Inr True), env_partitions = (\<lambda>t. Inr []),
     env_newDriver = (\<lambda>t. Inr ((), [])), env_newWhen = (\<lambda>c d. ((), [])), env_constraints = (\<lambda>k. Inr []),
     env_primaryKey = (\<lambda>k. Inr [''id'']), env_initTransformer = (\<lambda>d tr. Inr (tr_Name tr, [])),
     env_registry = (\<lambda>n. Some \<lparr>AllowApplyForReferenced = Some (Some True), RequireHashEngineParameter = Some (Some True)\<rparr>)\<rparr>"

definition child_config :: TableConfig where
  "child_config = (sample_config ''a'' ''name'')\<lparr>tc_Transformers := [], tc_SubsetConds := [''b_id < 10''], tc_Query := ''SELECT * FROM a''\<rparr>"

definition blank :: "(unit, unit, unit, string) store" where
  "blank = (\<lambda>k. \<lparr>es_RootPt = None, es_Columns = [], es_TypeOverrides = [], es_SubsetConds = [], es_Query = '''',
     es_Driver = None, es_When = None, es_Constraints = [], es_PrimaryKey = [], es_Transformers = []\<rparr>)"

definition inherited_config :: TableConfig where
  "inherited_config = \<lparr>tc_Schema = ''s'', tc_Name = ''a'', tc_Query = '''', ApplyForInherited = False,
      tc_Transformers = [(sample_transformer ''id'')\<lparr>tr_Params := [(''column'', ''b_id''), (''engine'', ''hash'')]\<rparr>],
      ColumnsTypeOverride = [], tc_SubsetConds = [], tc_When = ''''\<rparr>"

lemma sample_inherits:
  assumes "g_tables g = sample_tables" "reversedGraph g = b_reversed sample_builder"
  shows "getRefTables (Suc (Suc 0)) (sample_tables ! Suc 0) (sample_config ''b'' ''id'') g [child_config, sample_config ''b'' ''id''] =
    Some (Inr ([\<lparr>tcm_entry = sample_tables ! 0, tcm_config = inherited_config\<rparr>], []))"
proof -
  have roots: "root_active (collectRootTransformers (sample_tables ! Suc 0) (sample_config ''b'' ''id'')) =
      [(0, [\<lparr>tm_entry = sample_tables ! Suc 0, tm_columnName = ''id'', tm_attNum = 0, tm_cfg = sample_transformer ''id'', tm_index = 0\<rparr>])]"
    by (simp add: collectRootTransformers_def sample_config_def map_filter_def root_mapping_def sample_transformer_def root_active_def
        get_str_def engineParameterName_def columnParameterName_def index_roots_def sample_tables_def sample_table_def Let_def)
  have idx: "findTableIndex g (sample_tables ! Suc 0) = Some (Suc 0)"
    by (simp add: findTableIndex_def assms sample_tables_def sample_table_def same_or_quoted_def quoted_def)
  show ?thesis
    by (simp add: getRefTables_def roots buildRefsWithEndToEndDfs.simps idx assms ref_sample_reversed)
       (simp add: refs_loop.simps child_active_def
        key_name_at_def NewTableLink_def NewKeysByColumn_def processReference_def flatten_def processTransformer_def Let_def
        child_config_def sample_config_def get_str_def columnParameterName_def addTransformerToReferenceTable_def
        validateDoesInheritedConditionHaveAllColumns_def child_transformer_def Clone_def sample_transformer_def
        getColumnTypeOverride_def inherited_config_def sample_tables_def sample_table_def)
qed

definition sample_mappings :: "TableConfigMapping list" where
  "sample_mappings = [\<lparr>tcm_entry = sample_tables ! 0, tcm_config = child_config\<rparr>] @
     [\<lparr>tcm_entry = sample_tables ! 0, tcm_config = inherited_config\<rparr>] @
     [\<lparr>tcm_entry = sample_tables ! Suc 0, tcm_config = sample_config ''b'' ''id''\<rparr>]"

lemma sample_setup:
  assumes "g_tables g = sample_tables" "reversedGraph g = b_reversed sample_builder"
  shows "setConfigToEntries (Suc (Suc 0)) sample_env [child_config, sample_config ''b'' ''id''] sample_tables g blank =
    Some (Inr (sample_mappings, [], blank))"
proof -
  have refs: "getRefTables (Suc (Suc 0)) (sample_tables ! Suc 0) (sample_config ''b'' ''id'') g [child_config, sample_config ''b'' ''id''] =
    Some (Inr ([\<lparr>tcm_entry = sample_tables ! 0, tcm_config = inherited_config\<rparr>], []))"
    by (rule sample_inherits [OF assms])
  have found: "findTablesWithTransformers [child_config, sample_config ''b'' ''id''] sample_tables =
      [\<lparr>tcm_entry = sample_tables ! 0, tcm_config = child_config\<rparr>,
       \<lparr>tcm_entry = sample_tables ! Suc 0, tcm_config = sample_config ''b'' ''id''\<rparr>]"
    by (simp add: findTablesWithTransformers_def sample_tables_def sample_table_def child_config_def sample_config_def
        same_or_quoted_def quoted_def)
  have own: "hasTransformerWithApplyForReferences \<lparr>tcm_entry = t, tcm_config = child_config\<rparr> = False"
    "hasTransformerWithApplyForReferences \<lparr>tcm_entry = t, tcm_config = sample_config ''b'' ''id''\<rparr> = True" for t
    by (simp_all add: hasTransformerWithApplyForReferences_def child_config_def sample_config_def sample_transformer_def)
  have check: "checkApplyForReferenceMetRequirements \<lparr>tcm_entry = t, tcm_config = sample_config ''b'' ''id''\<rparr> (env_registry sample_env) =
      (True, [])" for t
    by (simp add: checkApplyForReferenceMetRequirements_def isTransformerAllowedToApplyForReferences_def sample_env_def
        sample_config_def sample_transformer_def IsFatal_def get_str_def engineParameterName_def)
  have kind: "env_relKind sample_env t = CHR ''r''" for t by (simp add: sample_env_def)
  show ?thesis
    by (simp add: setConfigToEntries_def found config_step_def own check refs own_mapping_def kind sample_mappings_def)
qed

theorem references_erase_subset_and_query_witness:
  "\<exists>g st' ws'. NewGraph sample_refs sample_tables [] = Inr g \<and>
    setConfigToEntries (Suc (Suc 0)) sample_env [child_config, sample_config ''b'' ''id''] sample_tables g blank =
      Some (Inr (sample_mappings, [], blank)) \<and>
    apply_mappings sample_env sample_mappings (blank, []) = Inr (False, st', ws') \<and>
    tc_Query child_config = ''SELECT * FROM a'' \<and> es_Query (st' 100) = ''''"
proof -
  obtain g where g: "NewGraph sample_refs sample_tables [] = Inr g" using NewGraph_ok [OF sample_refs_ok] by blast
  have b: "g_tables g = sample_tables" "reversedGraph g = b_reversed sample_builder"
    using NewGraph_built [OF g sample_build] by simp_all
  have total: "\<exists>st'. apply_mapping sample_env m (st, []) = Inr (False, st', [])" for m st
  proof -
    have "mapR (\<lambda>tr. Inr (tr_Name tr, enrichWarningsWithTransformerName (tr_Name tr) [])) trs =
        Inr (List.map (\<lambda>tr. (tr_Name tr, [])) trs)" for trs :: "TransformerConfig list"
      by (induction trs) (simp_all add: enrichWarningsWithTransformerName_def)
    then show ?thesis
      by (simp add: apply_mapping_def Let_def sample_env_def IsFatal_def enrichWarningsWithTableName_def
          initAndSetupTransformers_def comp_def)
  qed
  have totals: "\<exists>st'. apply_mappings sample_env ms (st, []) = Inr (False, st', [])" for ms st
  proof (induction ms arbitrary: st)
    case (Cons m ms)
    obtain st1 where "apply_mapping sample_env m (st, []) = Inr (False, st1, [])" using total by blast
    then show ?case using Cons [of st1] by simp
  qed simp
  then obtain st' where run: "apply_mappings sample_env sample_mappings (blank, []) = Inr (False, st', [])" by blast
  have "es_SubsetConds (st' 100) = [] \<and> es_Query (st' 100) = ''''"
    by (rule references_erase_subset_and_query [OF sample_inherits [OF b] _ _ run [unfolded sample_mappings_def]])
       (simp_all add: sample_tables_def sample_table_def)
  then show ?thesis using g sample_setup [OF b] run by (auto simp: child_config_def)
qed

section \<open>Virtual references\<close>

text \<open>
  Claim C35. The check of the virtual references is silent exactly on the acceptable ones, and the edges they then
  add to the graph have as many keys on both sides.
\<close>

theorem virtual_references_check:
  "(validateVirtualReferences vrs tables = [] \<longleftrightarrow> list_all (virtual_ok tables) vrs) \<and>
   (validateVirtualReferences vrs tables = [] \<and> list_all edge_keys_match (b_edges b) \<longrightarrow>
      list_all edge_keys_match (b_edges (fold (add_virtual tables idx) (getVirtualReferences vrs (tables ! idx)) b)))"
  using getVirtualReferences_ok [of tables vrs "tables ! idx"] fold_virtual_matches [of tables _ _ b idx]
  by (auto simp: validateVirtualReferences_Nil)

definition sample_virtual :: VirtualReference where
  "sample_virtual = \<lparr>vr_Schema = ''s'', vr_Name = ''a'', vr_References = [\<lparr>dref_Schema = ''s'', dref_Name = ''b'',
      dref_NotNull = True, dref_Columns = [('''', ''data->b'')], dref_PolymorphicExprs = []\<rparr>]\<rparr>"

theorem virtual_references_check_witness:
  "validateVirtualReferences [sample_virtual] sample_tables = [] \<and>
   list_all edge_keys_match (b_edges (fold (add_virtual sample_tables 0) (vr_References sample_virtual) (new_builder sample_tables))) \<and>
   b_edges (fold (add_virtual sample_tables 0) (vr_References sample_virtual) (new_builder sample_tables)) \<noteq> []"
proof -
  have ok: "list_all (virtual_ok sample_tables) [sample_virtual]"
    by (simp add: virtual_ok_def sample_virtual_def sample_tables_def sample_table_def table_index_def reference_ok_def column_ok_def)
  have "getVirtualReferences [sample_virtual] (sample_tables ! 0) = vr_References sample_virtual"
    by (simp add: getVirtualReferences_def sample_virtual_def sample_tables_def sample_table_def)
  moreover have "b_edges (fold (add_virtual sample_tables 0) (vr_References sample_virtual) (new_builder sample_tables)) \<noteq> []"
    by (simp add: sample_virtual_def add_virtual_def table_index_def sample_tables_def sample_table_def Let_def)
  moreover have "list_all edge_keys_match (b_edges (new_builder sample_tables))" by (simp add: new_builder_def)
  ultimately show ?thesis
    using virtual_references_check [of "[sample_virtual]" sample_tables "new_builder sample_tables" 0] ok by simp
qed

end
