(* ===== verification/DumpRetention.thy ===== *)
theory DumpRetention
  imports Prelude "HOL-Library.List_Lexorder" "HOL-Library.Char_ord" "HOL-Library.Multiset"
begin

text \<open>
  The dumps of a storage: their status (\<^verbatim>\<open>internal/utils/dumpstatus/status.go\<close>) and which of them the delete command
  removes (\<^verbatim>\<open>cmd/greenmask/cmd/delete\<close>). A storage is the list of its directories; what reading a directory gives
  are fields of it, \<open>delete\<close> says which removals succeed, and instants and durations are integers (nanoseconds).
  \<^verbatim>\<open>log.Fatal\<close> ends the process: it is an error of the run.
\<close>

section \<open>Status\<close>

record DumpMeta =
  dm_StartedAt :: int
  dm_DbName :: string

text \<open>
  A directory: the modification time of the heartbeat file if there is one, its content, whether the metadata file
  exists and what reading it gives (\<open>None\<close> for a file that is not found).
\<close>

record StoredDump =
  sd_Name :: string
  sd_HeartBeatStat :: "int option res"
  sd_HeartBeat :: "string res"
  sd_MetadataStat :: "bool res"
  sd_Metadata :: "DumpMeta option res"

definition DoneStatusName :: string where "DoneStatusName = ''done''"
definition UnknownOrFailedStatusName :: string where "UnknownOrFailedStatusName = ''unknown or failed''"
definition FailedStatusName :: string where "FailedStatusName = ''failed''"
definition InProgressStatusName :: string where "InProgressStatusName = ''in progress''"
definition heartBeatDoneContent :: string where "heartBeatDoneContent = ''done''"
definition HeartBeatDoneContent :: string where "HeartBeatDoneContent = ''done''"
definition HeartBeatInProgressContent :: string where "HeartBeatInProgressContent = ''in-progress''"
definition HeartBeatWriteInterval :: int where "HeartBeatWriteInterval = 15 * 60 * 1000000000"
definition failedTimeoutMultiplayer :: int where "failedTimeoutMultiplayer = 2"

definition done_or_unknown :: "StoredDump \<Rightarrow> (string \<times> DumpMeta option) res" where
  "done_or_unknown d =
     bindR (sd_Metadata d) (\<lambda>md. Inr (case md of None \<Rightarrow> (UnknownOrFailedStatusName, None)
                                        | Some x \<Rightarrow> (heartBeatDoneContent, Some x)))"

definition GetDumpStatusAndMetadata :: "int \<Rightarrow> StoredDump \<Rightarrow> (string \<times> DumpMeta option) res" where
  "GetDumpStatusAndMetadata now d =
     bindR (sd_HeartBeatStat d) (\<lambda>st. case st of
        None \<Rightarrow> bindR (sd_MetadataStat d) (\<lambda>found.
          if \<not> found then Inr (UnknownOrFailedStatusName, None) else done_or_unknown d)
      | Some lastModified \<Rightarrow> bindR (sd_HeartBeat d) (\<lambda>data.
          if data = [] then Inr (FailedStatusName, None)
          else if data = HeartBeatDoneContent then done_or_unknown d
          else if data = HeartBeatInProgressContent then
            (if now > lastModified + HeartBeatWriteInterval * failedTimeoutMultiplayer
             then Inr (FailedStatusName, None) else Inr (InProgressStatusName, None))
          else Inr (UnknownOrFailedStatusName, None)))"

section \<open>The dumps by status\<close>

record DumpRow =
  dr_DumpId :: string
  dr_Date :: int
  dr_Status :: string
  dr_Database :: string

record StorageResponse =
  Valid :: "DumpRow list"
  Failed :: "DumpRow list"
  UnknownOrFailed :: "DumpRow list"

text \<open>An error of reading the status is logged; the status is then empty.\<close>

definition status_of :: "int \<Rightarrow> StoredDump \<Rightarrow> string \<times> DumpMeta option" where
  "status_of now d = (case GetDumpStatusAndMetadata now d of Inl e \<Rightarrow> ('''', None) | Inr r \<Rightarrow> r)"

definition dump_row :: "int \<Rightarrow> StoredDump \<Rightarrow> DumpRow" where
  "dump_row now d =
     (let (status, md) = status_of now d;
          row = \<lparr>dr_DumpId = sd_Name d, dr_Date = 0, dr_Status = status, dr_Database = ''''\<rparr>
      in case md of Some x \<Rightarrow> if status = DoneStatusName
                              then row\<lparr>dr_Date := dm_StartedAt x, dr_Database := dm_DbName x\<rparr> else row
                  | None \<Rightarrow> row)"

text \<open>\<^verbatim>\<open>slices.SortFunc\<close> by the id, the greatest first (the names of directories differ).\<close>

definition by_id_desc :: "DumpRow list \<Rightarrow> DumpRow list" where
  "by_id_desc rows = rev (sort_key dr_DumpId rows)"

definition getSortedBackupWithStatuses :: "int \<Rightarrow> StoredDump list res \<Rightarrow> StorageResponse res" where
  "getSortedBackupWithStatuses now listing =
     bindR listing (\<lambda>backups.
       let rows = List.map (dump_row now) backups;
           having = (\<lambda>s. by_id_desc (filter (\<lambda>r. dr_Status r = s) rows))
       in Inr \<lparr>Valid = having DoneStatusName, Failed = having FailedStatusName,
               UnknownOrFailed = having UnknownOrFailedStatusName\<rparr>)"

section \<open>Deletion\<close>

text \<open>A pass over the storage ends with the storage as it then is, and with a fault if it stopped at one.\<close>

type_synonym pass = "StoredDump list \<times> fault option"

definition deleteDumpById :: "bool \<Rightarrow> (string \<Rightarrow> bool) \<Rightarrow> DumpRow \<Rightarrow> StoredDump list \<Rightarrow> pass" where
  "deleteDumpById dryRun delete d st =
     (if dr_DumpId d = '''' then (st, Some (Panic ''empty dump id''))
      else if dryRun then (st, None)
      else if delete (dr_DumpId d) then (filter (\<lambda>x. sd_Name x \<noteq> dr_DumpId d) st, None)
      else (st, Some (Err ''could not delete dump'')))"

fun delete_rows :: "bool \<Rightarrow> (string \<Rightarrow> bool) \<Rightarrow> DumpRow list \<Rightarrow> StoredDump list \<Rightarrow> pass" where
  "delete_rows dryRun delete [] st = (st, None)"
| "delete_rows dryRun delete (d # ds) st =
     (case deleteDumpById dryRun delete d st of
        (st', Some e) \<Rightarrow> (st', Some e)
      | (st', None) \<Rightarrow> delete_rows dryRun delete ds st')"

text \<open>
  A command reads the storage, chooses rows and deletes them in order. A storage that cannot be listed ends the command
  before anything is chosen; \<open>st\<close> is the listing of one that can.
\<close>

definition delete_chosen ::
  "bool \<Rightarrow> (string \<Rightarrow> bool) \<Rightarrow> int \<Rightarrow> (StorageResponse \<Rightarrow> DumpRow list) \<Rightarrow> StoredDump list \<Rightarrow> pass" where
  "delete_chosen dryRun delete now pick st =
     (case getSortedBackupWithStatuses now (Inr st) of
        Inl e \<Rightarrow> (st, Some e)
      | Inr sr \<Rightarrow> delete_rows dryRun delete (pick sr) st)"

definition pruneFailedDumps :: "bool \<Rightarrow> (string \<Rightarrow> bool) \<Rightarrow> int \<Rightarrow> bool \<Rightarrow> StoredDump list \<Rightarrow> pass" where
  "pruneFailedDumps dryRun delete now pruneUnsafe =
     delete_chosen dryRun delete now (\<lambda>sr. Failed sr @ (if pruneUnsafe then UnknownOrFailed sr else []))"

definition deleteBeforeDate :: "bool \<Rightarrow> (string \<Rightarrow> bool) \<Rightarrow> int \<Rightarrow> int res \<Rightarrow> StoredDump list \<Rightarrow> pass" where
  "deleteBeforeDate dryRun delete now date st =
     (case date of Inl e \<Rightarrow> (st, Some e)
      | Inr dt \<Rightarrow> delete_chosen dryRun delete now (\<lambda>sr. filter (\<lambda>d. dr_Date d < dt) (Valid sr)) st)"

text \<open>\<^verbatim>\<open>time.Since\<close> is read for every dump: \<open>clock i\<close> is the instant at the dump of index \<open>i\<close>.\<close>

definition retainForDumps :: "bool \<Rightarrow> (string \<Rightarrow> bool) \<Rightarrow> int \<Rightarrow> (nat \<Rightarrow> int) \<Rightarrow> int res \<Rightarrow> StoredDump list \<Rightarrow> pass" where
  "retainForDumps dryRun delete now clock dur st =
     (case dur of Inl e \<Rightarrow> (st, Some e)
      | Inr d \<Rightarrow> delete_chosen dryRun delete now
          (\<lambda>sr. List.map snd (filter (\<lambda>(i, r). \<not> (clock i - dr_Date r < d)) (List.enumerate 0 (Valid sr)))) st)"

definition retainRecentNDumps :: "bool \<Rightarrow> (string \<Rightarrow> bool) \<Rightarrow> int \<Rightarrow> int \<Rightarrow> StoredDump list \<Rightarrow> pass" where
  "retainRecentNDumps dryRun delete now retainRecent =
     delete_chosen dryRun delete now
       (\<lambda>sr. List.map snd (filter (\<lambda>(i, r). \<not> int i < retainRecent) (List.enumerate 0 (Valid sr))))"

definition deleteDump :: "(string \<Rightarrow> bool) \<Rightarrow> string \<Rightarrow> StoredDump list \<Rightarrow> pass" where
  "deleteDump delete dumpId st =
     (if \<not> list_ex (\<lambda>x. dumpId = sd_Name x) st then (st, Some (Err ''dump was not found''))
      else if delete dumpId then (filter (\<lambda>x. sd_Name x \<noteq> dumpId) st, None)
      else (st, Some (Err ''storage error'')))"

record DeleteFlags =
  pruneFailed :: bool
  pruneUnsafe :: bool
  dryRun :: bool
  retainRecent :: int
  beforeDate :: string
  retainFor :: string

text \<open>\<^verbatim>\<open>time.Parse\<close> and \<^verbatim>\<open>gostr.ParseDuration\<close> are parameters.\<close>

definition delete_run ::
  "(string \<Rightarrow> int res) \<Rightarrow> (string \<Rightarrow> int res) \<Rightarrow> (string \<Rightarrow> bool) \<Rightarrow> int \<Rightarrow> (nat \<Rightarrow> int) \<Rightarrow> DeleteFlags \<Rightarrow> string \<Rightarrow>
   StoredDump list \<Rightarrow> pass" where
  "delete_run parseTime parseDuration delete now clock f dumpId st =
     (if pruneUnsafe f \<and> \<not> pruneFailed f then (st, Some (Err ''--include-unsafe works only with --prune-failed''))
      else if retainFor f \<noteq> '''' then retainForDumps (dryRun f) delete now clock (parseDuration (retainFor f)) st
      else if retainRecent f \<noteq> -1 then retainRecentNDumps (dryRun f) delete now (retainRecent f) st
      else if pruneFailed f then pruneFailedDumps (dryRun f) delete now (pruneUnsafe f) st
      else if beforeDate f \<noteq> '''' then deleteBeforeDate (dryRun f) delete now (parseTime (beforeDate f)) st
      else if dumpId \<noteq> '''' then deleteDump delete dumpId st
      else (st, Some (Err ''either flag or dumpId should be provided'')))"

section \<open>What is deleted\<close>

lemma delete_rows_subset:
  "set (fst (delete_rows dry delete rows st)) \<subseteq> set st \<and>
   (\<forall>x. x \<in> set st \<and> sd_Name x \<notin> set (List.map dr_DumpId rows) \<longrightarrow> x \<in> set (fst (delete_rows dry delete rows st)))"
proof (induction rows arbitrary: st)
  case Nil
  then show ?case by simp
next
  case (Cons a rows)
  obtain st1 e where d: "deleteDumpById dry delete a st = (st1, e)" by (cases "deleteDumpById dry delete a st")
  have st1: "set st1 \<subseteq> set st" "\<forall>x. x \<in> set st \<and> sd_Name x \<noteq> dr_DumpId a \<longrightarrow> x \<in> set st1"
    using d by (auto simp: deleteDumpById_def split: if_splits)
  show ?case
  proof (cases e)
    case None
    have "delete_rows dry delete (a # rows) st = delete_rows dry delete rows st1" by (simp add: d None)
    then show ?thesis using Cons [of st1] st1 by auto
  next
    case (Some f)
    have "delete_rows dry delete (a # rows) st = (st1, Some f)" by (simp add: d Some)
    then show ?thesis using st1 by simp
  qed
qed

lemma delete_rows_dry: "fst (delete_rows True delete rows st) = st"
  by (induction rows arbitrary: st) (auto simp: deleteDumpById_def split: option.splits)

lemma delete_rows_all:
  "(\<And>n. delete n) \<Longrightarrow> list_all (\<lambda>d. dr_DumpId d \<noteq> '''') rows \<Longrightarrow>
   delete_rows False delete rows st = (filter (\<lambda>x. sd_Name x \<notin> set (List.map dr_DumpId rows)) st, None)"
  by (induction rows arbitrary: st) (auto simp: deleteDumpById_def conj_commute intro: filter_cong)

lemma dump_row_simps [simp]:
  "dr_DumpId (dump_row now d) = sd_Name d" "dr_Status (dump_row now d) = fst (status_of now d)"
  by (auto simp: dump_row_def Let_def split: prod.split option.split)

lemma set_by_id_desc [simp]: "set (by_id_desc rows) = set rows"
  by (simp add: by_id_desc_def)

text \<open>Every command that chooses by status leaves the dumps in progress, and those whose status cannot be read, alone.\<close>

definition deletable :: "int \<Rightarrow> StoredDump \<Rightarrow> bool" where
  "deletable now d \<longleftrightarrow> fst (status_of now d) \<in> {DoneStatusName, FailedStatusName, UnknownOrFailedStatusName}"

definition chosen_by_status :: "(StorageResponse \<Rightarrow> DumpRow list) \<Rightarrow> bool" where
  "chosen_by_status pick \<longleftrightarrow> (\<forall>sr. set (pick sr) \<subseteq> set (Valid sr) \<union> set (Failed sr) \<union> set (UnknownOrFailed sr))"

lemma delete_chosen_keeps:
  assumes "chosen_by_status pick" "x \<in> set st" "\<not> deletable now x" "distinct (List.map sd_Name st)"
  shows "x \<in> set (fst (delete_chosen dry delete now pick st))"
proof -
  let ?rows = "List.map (dump_row now) st"
  let ?having = "\<lambda>s. by_id_desc (filter (\<lambda>r. dr_Status r = s) ?rows)"
  let ?sr = "\<lparr>Valid = ?having DoneStatusName, Failed = ?having FailedStatusName, UnknownOrFailed = ?having UnknownOrFailedStatusName\<rparr>"
  have "sd_Name x \<notin> set (List.map dr_DumpId (pick ?sr))"
  proof
    assume "sd_Name x \<in> set (List.map dr_DumpId (pick ?sr))"
    then obtain r where r: "r \<in> set (pick ?sr)" "dr_DumpId r = sd_Name x" by auto
    then have "r \<in> set (Valid ?sr) \<union> set (Failed ?sr) \<union> set (UnknownOrFailed ?sr)"
      using assms(1) unfolding chosen_by_status_def by blast
    then obtain y where y: "y \<in> set st" "r = dump_row now y" "deletable now y" by (auto simp: deletable_def)
    then have "x = y" using r(2) assms(2,4) by (simp add: distinct_map inj_on_def)
    then show False using y(3) assms(3) by simp
  qed
  then show ?thesis
    using delete_rows_subset [of dry delete "pick ?sr" st] assms(2)
    by (simp add: delete_chosen_def getSortedBackupWithStatuses_def Let_def)
qed

text \<open>The \<open>n\<close> greatest ids of the completed dumps.\<close>

definition completed :: "int \<Rightarrow> StoredDump list \<Rightarrow> string list" where
  "completed now st = List.map sd_Name (filter (\<lambda>d. fst (status_of now d) = DoneStatusName) st)"

lemma by_id_desc_ids:
  "List.map dr_DumpId (by_id_desc rows) = rev (sort (List.map dr_DumpId rows))"
proof -
  have "List.map dr_DumpId (sort_key dr_DumpId rows) = sort (List.map dr_DumpId rows)"
    by (rule properties_for_sort [symmetric]) (simp_all del: sorted_map)
  then show ?thesis by (simp add: by_id_desc_def rev_map [symmetric])
qed

lemma drop_enumerate: "List.map snd (filter (\<lambda>(i, r). \<not> int i < k) (List.enumerate n rows)) = drop (nat k - n) rows"
proof (induction rows arbitrary: n)
  case Nil
  then show ?case by simp
next
  case (Cons r rows)
  show ?case
  proof (cases "int n < k")
    case True
    then have "nat k - n = Suc (nat k - Suc n)" by linarith
    then show ?thesis using True Cons by simp
  next
    case False
    then have "nat k - n = 0" "nat k - Suc n = 0" by linarith+
    then show ?thesis using False Cons by simp
  qed
qed

lemma retainRecent_result:
  assumes "\<And>n. delete n" "list_all (\<lambda>d. sd_Name d \<noteq> '''') st"
  shows "retainRecentNDumps False delete now k st =
    (filter (\<lambda>x. sd_Name x \<notin> set (drop (nat k) (rev (sort (completed now st))))) st, None)"
proof -
  let ?valid = "by_id_desc (filter (\<lambda>r. dr_Status r = DoneStatusName) (List.map (dump_row now) st))"
  have ids: "List.map dr_DumpId ?valid = rev (sort (completed now st))"
    by (simp add: by_id_desc_ids completed_def filter_map comp_def)
  have "list_all (\<lambda>d. dr_DumpId d \<noteq> '''') (drop (nat k) ?valid)"
    using assms(2) by (auto simp: list_all_iff dest!: in_set_dropD)
  from delete_rows_all [where st = st, OF assms(1) this] show ?thesis
    by (simp add: retainRecentNDumps_def delete_chosen_def getSortedBackupWithStatuses_def Let_def drop_enumerate
        drop_map [symmetric] ids)
qed

lemma chosen_by_status_commands:
  "chosen_by_status (\<lambda>sr. Failed sr @ (if u then UnknownOrFailed sr else []))"
  "chosen_by_status (\<lambda>sr. filter (\<lambda>d. dr_Date d < dt) (Valid sr))"
  "chosen_by_status (\<lambda>sr. List.map snd (filter (\<lambda>(i, r). \<not> clock i - dr_Date r < d) (List.enumerate 0 (Valid sr))))"
  "chosen_by_status (\<lambda>sr. List.map snd (filter (\<lambda>(i, r). \<not> int i < k) (List.enumerate 0 (Valid sr))))"
  by (auto simp: chosen_by_status_def in_set_enumerate_eq)

lemma delete_run_keeps:
  assumes "x \<in> set st" "\<not> deletable now x" "distinct (List.map sd_Name st)"
  shows "x \<in> set (fst (delete_run parseTime parseDuration delete now clock f '''' st))"
  using delete_chosen_keeps [OF chosen_by_status_commands(1) assms] delete_chosen_keeps [OF chosen_by_status_commands(2) assms]
    delete_chosen_keeps [OF chosen_by_status_commands(3) assms] delete_chosen_keeps [OF chosen_by_status_commands(4) assms] assms(1)
  by (simp add: delete_run_def retainForDumps_def retainRecentNDumps_def pruneFailedDumps_def deleteBeforeDate_def
      split: sum.split)

section \<open>The retention commands\<close>

text \<open>
  Claim C39. Whatever flags a retention run has and whatever removals fail, a dump whose status is none of done, failed
  and unknown (one in progress, or one whose status cannot be read) is still there; with \<^verbatim>\<open>--retain-recent\<close> \<open>k\<close> and
  removals that succeed, the completed dumps that stay are exactly those with the \<open>k\<close> greatest ids, and nothing else
  goes. For a negative \<open>k\<close> every completed dump goes.
\<close>

theorem retention_keeps:
  assumes "distinct (List.map sd_Name st)"
  shows "(\<forall>x. x \<in> set st \<longrightarrow> \<not> deletable now x \<longrightarrow>
      x \<in> set (fst (delete_run parseTime parseDuration delete now clock f '''' st))) \<and>
    (list_all (\<lambda>d. sd_Name d \<noteq> '''') st \<longrightarrow> retainRecentNDumps False (\<lambda>n. True) now k st =
      (filter (\<lambda>x. sd_Name x \<notin> set (drop (nat k) (rev (sort (completed now st))))) st, None))"
  using delete_run_keeps [OF _ _ assms] retainRecent_result [of "\<lambda>n. True"] by blast

definition stored :: "string \<Rightarrow> string \<Rightarrow> StoredDump" where
  "stored name beat = \<lparr>sd_Name = name, sd_HeartBeatStat = Inr (Some 0), sd_HeartBeat = Inr beat,
     sd_MetadataStat = Inr True, sd_Metadata = Inr (Some \<lparr>dm_StartedAt = 5, dm_DbName = ''db''\<rparr>)\<rparr>"

theorem retention_keeps_witness:
  "fst (retainRecentNDumps False (\<lambda>n. True) 0 1 [stored ''1'' ''done'', stored ''2'' ''in-progress'', stored ''3'' ''done'']) =
    [stored ''2'' ''in-progress'', stored ''3'' ''done'']"
proof -
  let ?st = "[stored ''1'' ''done'', stored ''2'' ''in-progress'', stored ''3'' ''done'']"
  have status: "fst (status_of 0 (stored n ''done'')) = DoneStatusName"
    "fst (status_of 0 (stored n ''in-progress'')) = InProgressStatusName" for n
    by (simp_all add: status_of_def GetDumpStatusAndMetadata_def stored_def done_or_unknown_def HeartBeatDoneContent_def
        HeartBeatInProgressContent_def heartBeatDoneContent_def DoneStatusName_def HeartBeatWriteInterval_def failedTimeoutMultiplayer_def)
  have "completed 0 ?st = [''1'', ''3'']"
    by (simp add: completed_def status) (simp add: stored_def DoneStatusName_def InProgressStatusName_def)
  then have "drop (nat 1) (rev (sort (completed 0 ?st))) = [''1'']" by (simp add: less_eq_list_code)
  moreover have "list_all (\<lambda>d. sd_Name d \<noteq> '''') ?st" "distinct (List.map sd_Name ?st)" by (simp_all add: stored_def)
  ultimately show ?thesis using retention_keeps [of ?st 0 _ _ _ _ _ 1] by (simp add: stored_def)
qed

end
