(* ===== verification/DumpRun.thy ===== *)
theory DumpRun
  imports DumpRetention "HOL-Library.Multiset"
begin

text \<open>
  The data section of a dump as it runs, \<^verbatim>\<open>dataDump\<close> of \<^verbatim>\<open>internal/db/postgres/cmd/dump.go\<close>: the producer of the tasks,
  the channel, the workers of the inner group and the planner that waits for them, and the writer of the heartbeat file.
  One rule is one step of one goroutine. Parameters are what the code calls: \<open>conn w\<close> says whether worker \<open>w\<close> gets its
  transaction, \<open>ok t\<close> whether \<^verbatim>\<open>Execute\<close> of the task succeeds and \<open>put c\<close> whether the heartbeat file can be written with
  content \<open>c\<close>; a call may also fail once its context is cancelled. The tasks are those of \<^verbatim>\<open>taskProducer\<close>, in order.
  The context of the caller is not cancelled from outside.
\<close>

datatype dproducer = DpRun | DpDone | DpFail

datatype 't dworker = DwStart | DwIdle | DwRun 't | DwExit | DwFail

text \<open>The planner waits for its group, then closes \<^verbatim>\<open>done\<close> (deferred), then returns to the outer group.\<close>

datatype dplanner = PlWait | PlReturn | PlDone | PlFail

datatype dbeat = BtStart | BtWait | BtEnd | BtFail

record 't dstate =
  ds_todo :: "'t list"
  ds_producer :: dproducer
  ds_chan :: "'t list"
  ds_closed :: bool
  ds_workers :: "'t dworker list"
  ds_executed :: "'t list"
  ds_planner :: dplanner
  ds_done :: bool
  ds_beat :: dbeat
  ds_file :: "string option"
  ds_inner :: bool
  ds_outer :: bool

fun worker_ended :: "'t dworker \<Rightarrow> bool" where
  "worker_ended DwExit = True"
| "worker_ended DwFail = True"
| "worker_ended _ = False"

definition put_worker :: "nat \<Rightarrow> 't dworker \<Rightarrow> 't dstate \<Rightarrow> 't dstate" where
  "put_worker w p s = s\<lparr>ds_workers := (ds_workers s)[w := p]\<rparr>"

text \<open>A worker that returns an error cancels the context of the inner group.\<close>

definition dworker_fails :: "nat \<Rightarrow> 't dstate \<Rightarrow> 't dstate" where
  "dworker_fails w s = (put_worker w DwFail s)\<lparr>ds_inner := True\<rparr>"

definition worker_cancelled :: "'t dstate \<Rightarrow> bool" where
  "worker_cancelled s \<longleftrightarrow> ds_inner s \<or> ds_outer s"

inductive produce_step :: "nat \<Rightarrow> 't dstate \<Rightarrow> 't dstate \<Rightarrow> bool" for jobs :: nat where
  pr_send: "ds_producer s = DpRun \<Longrightarrow> ds_todo s = t # ts \<Longrightarrow> length (ds_chan s) < jobs
     \<Longrightarrow> produce_step jobs s (s\<lparr>ds_todo := ts, ds_chan := ds_chan s @ [t]\<rparr>)"
| pr_end: "ds_producer s = DpRun \<Longrightarrow> ds_todo s = []
     \<Longrightarrow> produce_step jobs s (s\<lparr>ds_producer := DpDone, ds_closed := True\<rparr>)"
| pr_cancel: "ds_producer s = DpRun \<Longrightarrow> ds_todo s = t # ts \<Longrightarrow> ds_outer s
     \<Longrightarrow> produce_step jobs s (s\<lparr>ds_producer := DpFail, ds_closed := True\<rparr>)"

inductive dwork_step :: "(nat \<Rightarrow> bool) \<Rightarrow> ('t \<Rightarrow> bool) \<Rightarrow> nat \<Rightarrow> 't dstate \<Rightarrow> 't dstate \<Rightarrow> bool"
  for conn :: "nat \<Rightarrow> bool" and ok :: "'t \<Rightarrow> bool" and w :: nat where
  dw_connect: "ds_workers s ! w = DwStart \<Longrightarrow> conn w \<Longrightarrow> dwork_step conn ok w s (put_worker w DwIdle s)"
| dw_connect_fails: "ds_workers s ! w = DwStart \<Longrightarrow> \<not> conn w \<or> worker_cancelled s
     \<Longrightarrow> dwork_step conn ok w s (dworker_fails w s)"
| dw_receive: "ds_workers s ! w = DwIdle \<Longrightarrow> ds_chan s = t # ts
     \<Longrightarrow> dwork_step conn ok w s ((put_worker w (DwRun t) s)\<lparr>ds_chan := ts\<rparr>)"
| dw_exit: "ds_workers s ! w = DwIdle \<Longrightarrow> ds_chan s = [] \<Longrightarrow> ds_closed s
     \<Longrightarrow> dwork_step conn ok w s (put_worker w DwExit s)"
| dw_cancel: "ds_workers s ! w = DwIdle \<Longrightarrow> worker_cancelled s \<Longrightarrow> dwork_step conn ok w s (dworker_fails w s)"
| dw_done: "ds_workers s ! w = DwRun t \<Longrightarrow> ok t
     \<Longrightarrow> dwork_step conn ok w s ((put_worker w DwIdle s)\<lparr>ds_executed := ds_executed s @ [t]\<rparr>)"
| dw_task_fails: "ds_workers s ! w = DwRun t \<Longrightarrow> \<not> ok t \<or> worker_cancelled s
     \<Longrightarrow> dwork_step conn ok w s (dworker_fails w s)"

inductive plan_step :: "'t dstate \<Rightarrow> 't dstate \<Rightarrow> bool" where
  pl_close: "ds_planner s = PlWait \<Longrightarrow> list_all worker_ended (ds_workers s)
     \<Longrightarrow> plan_step s (s\<lparr>ds_planner := PlReturn, ds_done := True\<rparr>)"
| pl_ok: "ds_planner s = PlReturn \<Longrightarrow> DwFail \<notin> set (ds_workers s) \<Longrightarrow> plan_step s (s\<lparr>ds_planner := PlDone\<rparr>)"
| pl_fail: "ds_planner s = PlReturn \<Longrightarrow> DwFail \<in> set (ds_workers s)
     \<Longrightarrow> plan_step s (s\<lparr>ds_planner := PlFail, ds_outer := True\<rparr>)"

text \<open>The writer of the heartbeat file; a tick writes the file again and goes on waiting.\<close>

inductive beat_step :: "(string \<Rightarrow> bool) \<Rightarrow> 't dstate \<Rightarrow> 't dstate \<Rightarrow> bool" for put :: "string \<Rightarrow> bool" where
  hb_start: "ds_beat s = BtStart \<Longrightarrow> put HeartBeatInProgressContent
     \<Longrightarrow> beat_step put s (s\<lparr>ds_beat := BtWait, ds_file := Some HeartBeatInProgressContent\<rparr>)"
| hb_start_fails: "ds_beat s = BtStart \<Longrightarrow> \<not> put HeartBeatInProgressContent \<or> ds_outer s
     \<Longrightarrow> beat_step put s (s\<lparr>ds_beat := BtFail, ds_outer := True\<rparr>)"
| hb_cancel: "ds_beat s = BtWait \<Longrightarrow> ds_outer s \<Longrightarrow> beat_step put s (s\<lparr>ds_beat := BtEnd\<rparr>)"
| hb_done: "ds_beat s = BtWait \<Longrightarrow> ds_done s \<Longrightarrow> put HeartBeatDoneContent
     \<Longrightarrow> beat_step put s (s\<lparr>ds_beat := BtEnd, ds_file := Some HeartBeatDoneContent\<rparr>)"
| hb_done_fails: "ds_beat s = BtWait \<Longrightarrow> ds_done s \<Longrightarrow> \<not> put HeartBeatDoneContent \<or> ds_outer s
     \<Longrightarrow> beat_step put s (s\<lparr>ds_beat := BtFail, ds_outer := True\<rparr>)"
| hb_tick_fails: "ds_beat s = BtWait \<Longrightarrow> \<not> put HeartBeatInProgressContent \<or> ds_outer s
     \<Longrightarrow> beat_step put s (s\<lparr>ds_beat := BtFail, ds_outer := True\<rparr>)"

inductive tick_step :: "(string \<Rightarrow> bool) \<Rightarrow> 't dstate \<Rightarrow> 't dstate \<Rightarrow> bool" for put :: "string \<Rightarrow> bool" where
  hb_tick: "ds_beat s = BtWait \<Longrightarrow> put HeartBeatInProgressContent
     \<Longrightarrow> tick_step put s (s\<lparr>ds_file := Some HeartBeatInProgressContent\<rparr>)"

inductive dstep ::
    "nat \<Rightarrow> (nat \<Rightarrow> bool) \<Rightarrow> ('t \<Rightarrow> bool) \<Rightarrow> (string \<Rightarrow> bool) \<Rightarrow> 't dstate \<Rightarrow> 't dstate \<Rightarrow> bool"
  for jobs :: nat and conn :: "nat \<Rightarrow> bool" and ok :: "'t \<Rightarrow> bool" and put :: "string \<Rightarrow> bool" where
  d_produce: "produce_step jobs s s' \<Longrightarrow> dstep jobs conn ok put s s'"
| d_work: "w < length (ds_workers s) \<Longrightarrow> dwork_step conn ok w s s' \<Longrightarrow> dstep jobs conn ok put s s'"
| d_plan: "plan_step s s' \<Longrightarrow> dstep jobs conn ok put s s'"
| d_beat: "beat_step put s s' \<Longrightarrow> dstep jobs conn ok put s s'"

text \<open>A step of any goroutine, a tick included.\<close>

definition dump_step ::
    "nat \<Rightarrow> (nat \<Rightarrow> bool) \<Rightarrow> ('t \<Rightarrow> bool) \<Rightarrow> (string \<Rightarrow> bool) \<Rightarrow> 't dstate \<Rightarrow> 't dstate \<Rightarrow> bool" where
  "dump_step jobs conn ok put s s' \<longleftrightarrow> dstep jobs conn ok put s s' \<or> tick_step put s s'"

abbreviation dump_steps where
  "dump_steps jobs conn ok put \<equiv> (dump_step jobs conn ok put)\<^sup>*\<^sup>*"

definition startDump :: "nat \<Rightarrow> 't list \<Rightarrow> 't dstate" where
  "startDump jobs tasks =
     \<lparr>ds_todo = tasks, ds_producer = DpRun, ds_chan = [], ds_closed = False, ds_workers = replicate jobs DwStart,
      ds_executed = [], ds_planner = PlWait, ds_done = False, ds_beat = BtStart, ds_file = None, ds_inner = False,
      ds_outer = False\<rparr>"

text \<open>\<^verbatim>\<open>eg.Wait\<close> returns, without and with an error.\<close>

definition dumpReturned :: "'t dstate \<Rightarrow> bool" where
  "dumpReturned s \<longleftrightarrow> ds_producer s \<noteq> DpRun \<and> ds_planner s \<in> {PlDone, PlFail} \<and> ds_beat s \<in> {BtEnd, BtFail}"

definition dumpSucceeded :: "'t dstate \<Rightarrow> bool" where
  "dumpSucceeded s \<longleftrightarrow> ds_producer s = DpDone \<and> ds_planner s = PlDone \<and> ds_beat s = BtEnd"

section \<open>Every run is finite but for the ticks\<close>

fun dw_weight :: "'t dworker \<Rightarrow> nat" where
  "dw_weight DwStart = 2"
| "dw_weight DwIdle = 1"
| "dw_weight (DwRun t) = 2"
| "dw_weight DwExit = 0"
| "dw_weight DwFail = 0"

fun pl_weight :: "dplanner \<Rightarrow> nat" where
  "pl_weight PlWait = 2"
| "pl_weight PlReturn = 1"
| "pl_weight PlDone = 0"
| "pl_weight PlFail = 0"

fun bt_weight :: "dbeat \<Rightarrow> nat" where
  "bt_weight BtStart = 2"
| "bt_weight BtWait = 1"
| "bt_weight BtEnd = 0"
| "bt_weight BtFail = 0"

definition dweight :: "'t dstate \<Rightarrow> nat" where
  "dweight s = 3 * length (ds_todo s) + (if ds_producer s = DpRun then 1 else 0) + 2 * length (ds_chan s)
     + sum_list (List.map dw_weight (ds_workers s)) + pl_weight (ds_planner s) + bt_weight (ds_beat s)"

lemma sum_weight_update:
  "w < length ws \<Longrightarrow> sum_list (List.map dw_weight (ws[w := p])) + dw_weight (ws ! w) = sum_list (List.map dw_weight ws) + dw_weight p"
proof (induction ws arbitrary: w)
  case Nil
  then show ?case by simp
next
  case (Cons x ws)
  show ?case
  proof (cases w)
    case 0
    then show ?thesis by simp
  next
    case (Suc v)
    then show ?thesis using Cons.IH [of v] Cons.prems by simp
  qed
qed

lemma dstep_weight: "dstep jobs conn ok put s s' \<Longrightarrow> dweight s' < dweight s"
proof (induction rule: dstep.induct)
  case (d_produce s s')
  then show ?case by (induction rule: produce_step.induct) (auto simp: dweight_def)
next
  case (d_work w s s')
  from d_work(2,1) show ?case
  proof (induction rule: dwork_step.induct)
    case (dw_connect s)
    then show ?case using sum_weight_update [of w "ds_workers s" DwIdle]
      by (simp add: dweight_def put_worker_def dworker_fails_def)
  next
    case (dw_connect_fails s)
    then show ?case using sum_weight_update [of w "ds_workers s" DwFail]
      by (simp add: dweight_def put_worker_def dworker_fails_def)
  next
    case (dw_receive s t ts)
    then show ?case using sum_weight_update [of w "ds_workers s" "DwRun t"]
      by (simp add: dweight_def put_worker_def dworker_fails_def)
  next
    case (dw_exit s)
    then show ?case using sum_weight_update [of w "ds_workers s" DwExit]
      by (simp add: dweight_def put_worker_def dworker_fails_def)
  next
    case (dw_cancel s)
    then show ?case using sum_weight_update [of w "ds_workers s" DwFail]
      by (simp add: dweight_def put_worker_def dworker_fails_def)
  next
    case (dw_done s t)
    then show ?case using sum_weight_update [of w "ds_workers s" DwIdle]
      by (simp add: dweight_def put_worker_def dworker_fails_def)
  next
    case (dw_task_fails s t)
    then show ?case using sum_weight_update [of w "ds_workers s" DwFail]
      by (simp add: dweight_def put_worker_def dworker_fails_def)
  qed
next
  case (d_plan s s')
  then show ?case by (induction rule: plan_step.induct) (auto simp: dweight_def)
next
  case (d_beat s s')
  then show ?case by (induction rule: beat_step.induct) (auto simp: dweight_def)
qed

lemma tick_weight: "tick_step put s s' \<Longrightarrow> dweight s' = dweight s"
  by (induction rule: tick_step.induct) (simp add: dweight_def)

lemma startDump_weight: "dweight (startDump jobs tasks) = 3 * length tasks + 2 * jobs + 5"
  by (simp add: dweight_def startDump_def sum_list_replicate)

lemma ticks_weight: "(tick_step put)\<^sup>*\<^sup>* s s' \<Longrightarrow> dweight s' = dweight s"
  by (induction rule: rtranclp_induct) (auto simp: tick_weight)

text \<open>A step after any number of ticks.\<close>

definition tstep ::
    "nat \<Rightarrow> (nat \<Rightarrow> bool) \<Rightarrow> ('t \<Rightarrow> bool) \<Rightarrow> (string \<Rightarrow> bool) \<Rightarrow> 't dstate \<Rightarrow> 't dstate \<Rightarrow> bool" where
  "tstep jobs conn ok put s s' \<longleftrightarrow> (\<exists>s1. (tick_step put)\<^sup>*\<^sup>* s s1 \<and> dstep jobs conn ok put s1 s')"

lemma dump_bounded: "(tstep jobs conn ok put ^^ k) s s' \<Longrightarrow> k + dweight s' \<le> dweight s"
proof (induction k arbitrary: s')
  case (Suc k)
  then obtain t where t: "(tstep jobs conn ok put ^^ k) s t" "tstep jobs conn ok put t s'" by auto
  have "dweight s' < dweight t" using t(2) dstep_weight ticks_weight unfolding tstep_def by metis
  then show ?case using Suc.IH [OF t(1)] by simp
qed simp

section \<open>The tasks\<close>

fun task_of_worker :: "'t dworker \<Rightarrow> 't list" where
  "task_of_worker (DwRun t) = [t]"
| "task_of_worker _ = []"

definition at_work :: "'t dstate \<Rightarrow> 't multiset" where
  "at_work s = mset (concat (List.map task_of_worker (ds_workers s)))"

definition seen :: "'t dstate \<Rightarrow> 't multiset" where
  "seen s = mset (ds_executed s) + at_work s + mset (ds_chan s) + mset (ds_todo s)"

lemma at_work_update:
  "w < length ws \<Longrightarrow> mset (concat (List.map task_of_worker (ws[w := p]))) + mset (task_of_worker (ws ! w)) =
     mset (concat (List.map task_of_worker ws)) + mset (task_of_worker p)"
proof (induction ws arbitrary: w)
  case Nil
  then show ?case by simp
next
  case (Cons x ws)
  show ?case
  proof (cases w)
    case 0
    then show ?thesis by simp
  next
    case (Suc v)
    then show ?thesis using Cons.IH [of v] Cons.prems by (simp add: add.assoc)
  qed
qed

text \<open>
  What holds in every state: tasks are only lost with a worker that failed, flags say what has happened, and the
  heartbeat file says that the dump is done only after the planner has closed \<^verbatim>\<open>done\<close>.
\<close>

definition tasks_inv :: "'t list \<Rightarrow> 't dstate \<Rightarrow> bool" where
  "tasks_inv tasks s \<longleftrightarrow> seen s \<subseteq># mset tasks \<and> (DwFail \<notin> set (ds_workers s) \<longrightarrow> seen s = mset tasks)"

definition flags_inv :: "nat \<Rightarrow> 't dstate \<Rightarrow> bool" where
  "flags_inv jobs s \<longleftrightarrow> length (ds_workers s) = jobs \<and>
     (ds_closed s \<longleftrightarrow> ds_producer s \<noteq> DpRun) \<and>
     (ds_producer s = DpDone \<longrightarrow> ds_todo s = []) \<and>
     (DwExit \<in> set (ds_workers s) \<longrightarrow> ds_closed s \<and> ds_chan s = []) \<and>
     (ds_done s \<longleftrightarrow> ds_planner s \<noteq> PlWait) \<and>
     (ds_done s \<longrightarrow> list_all worker_ended (ds_workers s)) \<and>
     (ds_planner s = PlDone \<longrightarrow> DwFail \<notin> set (ds_workers s)) \<and>
     (ds_planner s = PlFail \<longrightarrow> ds_outer s) \<and>
     (DwFail \<in> set (ds_workers s) \<longrightarrow> ds_inner s) \<and>
     (ds_file s = Some HeartBeatDoneContent \<longrightarrow> ds_done s) \<and>
     (ds_beat s = BtEnd \<longrightarrow> ds_outer s \<or> ds_file s = Some HeartBeatDoneContent) \<and>
     (ds_outer s \<longrightarrow> ds_planner s = PlFail \<or> ds_beat s = BtFail)"

lemma start_inv: "tasks_inv tasks (startDump jobs tasks) \<and> flags_inv jobs (startDump jobs tasks)"
proof -
  have "concat (List.map task_of_worker (replicate n DwStart)) = []" for n by (induction n) auto
  then show ?thesis
    by (auto simp: tasks_inv_def flags_inv_def startDump_def seen_def at_work_def)
qed

lemma contents_differ [simp]: "HeartBeatInProgressContent \<noteq> HeartBeatDoneContent"
  by (simp add: HeartBeatInProgressContent_def HeartBeatDoneContent_def)

lemma produce_inv: "produce_step jobs s s' \<Longrightarrow> tasks_inv tasks s \<and> flags_inv jobs s \<Longrightarrow> tasks_inv tasks s' \<and> flags_inv jobs s'"
  by (induction rule: produce_step.induct) (auto simp: tasks_inv_def flags_inv_def seen_def at_work_def)

lemma plan_inv: "plan_step s s' \<Longrightarrow> tasks_inv tasks s \<and> flags_inv jobs s \<Longrightarrow> tasks_inv tasks s' \<and> flags_inv jobs s'"
  by (induction rule: plan_step.induct) (auto simp: tasks_inv_def flags_inv_def seen_def at_work_def)

lemma beat_inv: "beat_step put s s' \<Longrightarrow> tasks_inv tasks s \<and> flags_inv jobs s \<Longrightarrow> tasks_inv tasks s' \<and> flags_inv jobs s'"
  by (induction rule: beat_step.induct) (auto simp: tasks_inv_def flags_inv_def seen_def at_work_def)

lemma tick_inv: "tick_step put s s' \<Longrightarrow> tasks_inv tasks s \<and> flags_inv jobs s \<Longrightarrow> tasks_inv tasks s' \<and> flags_inv jobs s'"
  by (induction rule: tick_step.induct) (auto simp: tasks_inv_def flags_inv_def seen_def at_work_def)

lemma in_set_update: "w < length ws \<Longrightarrow> ws ! w \<noteq> x \<Longrightarrow> x \<noteq> p \<Longrightarrow> x \<in> set (ws[w := p]) \<longleftrightarrow> x \<in> set ws"
  by (auto simp: in_set_conv_nth nth_list_update)

lemma in_set_update_self: "w < length ws \<Longrightarrow> p \<in> set (ws[w := p])"
  by (simp add: set_update_memI)

lemma all_ended_update: "w < length ws \<Longrightarrow> \<not> worker_ended (ws ! w) \<Longrightarrow> \<not> list_all worker_ended ws"
  by (auto simp: list_all_length)

text \<open>A worker that goes on: it neither failed nor ended before.\<close>

lemma work_keeps_tasks:
  assumes "w < length (ds_workers s)" "tasks_inv tasks s" "ds_workers s ! w \<noteq> DwFail" "p \<noteq> DwFail"
    and s': "ds_workers s' = (ds_workers s)[w := p]" "ds_todo s' = ds_todo s"
    and "mset (ds_executed s') + mset (task_of_worker p) + mset (ds_chan s') =
         mset (ds_executed s) + mset (task_of_worker (ds_workers s ! w)) + mset (ds_chan s)"
  shows "tasks_inv tasks s'"
proof -
  have "seen s' + mset (task_of_worker (ds_workers s ! w)) = seen s + mset (task_of_worker (ds_workers s ! w))"
    using assms(7) at_work_update [OF assms(1), of p] unfolding seen_def at_work_def s'
    by (simp add: add.assoc add.left_commute add.commute)
  then have "seen s' = seen s" by simp
  then show ?thesis
    using assms(2) in_set_update [OF assms(1,3) assms(4) [symmetric]] by (simp add: tasks_inv_def s')
qed

lemma work_loses_tasks:
  assumes "w < length (ds_workers s)" "tasks_inv tasks s"
    and s': "ds_workers s' = (ds_workers s)[w := DwFail]" "ds_todo s' = ds_todo s" "ds_executed s' = ds_executed s"
      "ds_chan s' = ds_chan s"
  shows "tasks_inv tasks s'"
proof -
  have "at_work s' \<subseteq># at_work s"
    using at_work_update [OF assms(1), of DwFail] by (simp add: at_work_def s') (metis mset_subset_eq_add_left)
  then have "seen s' \<subseteq># seen s" by (simp add: seen_def subset_mset.add_mono s')
  then show ?thesis
    using assms(2) in_set_update_self [OF assms(1), of DwFail] subset_mset.order_trans by (auto simp: tasks_inv_def s')
qed

lemma work_tasks:
  "dwork_step conn ok w s s' \<Longrightarrow> w < length (ds_workers s) \<Longrightarrow> tasks_inv tasks s \<Longrightarrow> tasks_inv tasks s'"
proof (induction rule: dwork_step.induct)
  case (dw_connect s)
  show ?case by (rule work_keeps_tasks [of w s tasks DwIdle]) (use dw_connect in \<open>simp_all add: put_worker_def\<close>)
next
  case (dw_connect_fails s)
  show ?case by (rule work_loses_tasks [of w s]) (use dw_connect_fails in \<open>simp_all add: put_worker_def dworker_fails_def\<close>)
next
  case (dw_receive s t ts)
  show ?case by (rule work_keeps_tasks [of w s tasks "DwRun t"]) (use dw_receive in \<open>simp_all add: put_worker_def\<close>)
next
  case (dw_exit s)
  show ?case by (rule work_keeps_tasks [of w s tasks DwExit]) (use dw_exit in \<open>simp_all add: put_worker_def\<close>)
next
  case (dw_cancel s)
  show ?case by (rule work_loses_tasks [of w s]) (use dw_cancel in \<open>simp_all add: put_worker_def dworker_fails_def\<close>)
next
  case (dw_done s t)
  show ?case by (rule work_keeps_tasks [of w s tasks DwIdle]) (use dw_done in \<open>simp_all add: put_worker_def\<close>)
next
  case (dw_task_fails s t)
  show ?case by (rule work_loses_tasks [of w s]) (use dw_task_fails in \<open>simp_all add: put_worker_def dworker_fails_def\<close>)
qed

text \<open>What a worker's step may change, for the flags.\<close>

lemma work_flags_keep:
  assumes inv: "flags_inv jobs s" and w: "w < length (ds_workers s)" "\<not> worker_ended (ds_workers s ! w)"
    and s': "ds_workers s' = (ds_workers s)[w := p]" "ds_todo s' = ds_todo s" "ds_producer s' = ds_producer s"
      "ds_closed s' = ds_closed s" "ds_done s' = ds_done s" "ds_planner s' = ds_planner s" "ds_outer s' = ds_outer s"
      "ds_file s' = ds_file s" "ds_beat s' = ds_beat s"
    and p: "p = DwFail \<longrightarrow> ds_inner s'" "ds_inner s \<longrightarrow> ds_inner s'"
      "p = DwExit \<longrightarrow> ds_closed s \<and> ds_chan s = []" "ds_chan s = [] \<longrightarrow> ds_chan s' = []"
  shows "flags_inv jobs s'"
proof -
  have not_done: "\<not> ds_done s" using inv all_ended_update [OF w] by (auto simp: flags_inv_def)
  then have wait: "ds_planner s = PlWait" using inv by (auto simp: flags_inv_def)
  have upd: "q = p \<or> q \<in> set (ds_workers s)" if "q \<in> set (ds_workers s')" for q
    using that set_update_subset_insert [of "ds_workers s" w p] unfolding s'(1) by blast
  have old: "DwExit \<in> set (ds_workers s) \<longrightarrow> ds_closed s \<and> ds_chan s = []" "DwFail \<in> set (ds_workers s) \<longrightarrow> ds_inner s"
    using inv unfolding flags_inv_def by blast+
  have exit: "DwExit \<in> set (ds_workers s') \<longrightarrow> ds_closed s \<and> ds_chan s = []" using upd old(1) p(3) by blast
  have fail: "DwFail \<in> set (ds_workers s') \<longrightarrow> ds_inner s'" using upd old(2) p(1,2) by blast
  have facts: "length (ds_workers s) = jobs" "ds_closed s \<longleftrightarrow> ds_producer s \<noteq> DpRun"
    "ds_producer s = DpDone \<longrightarrow> ds_todo s = []" "ds_planner s = PlFail \<longrightarrow> ds_outer s"
    "ds_file s = Some HeartBeatDoneContent \<longrightarrow> ds_done s"
    "ds_beat s = BtEnd \<longrightarrow> ds_outer s \<or> ds_file s = Some HeartBeatDoneContent"
    "ds_outer s \<longrightarrow> ds_planner s = PlFail \<or> ds_beat s = BtFail"
    using inv unfolding flags_inv_def by blast+
  have len: "length (ds_workers s') = jobs" using facts(1) by (simp add: s'(1))
  have exit': "DwExit \<in> set (ds_workers s') \<longrightarrow> ds_closed s \<and> ds_chan s' = []" using exit p(4) by blast
  have wait': "ds_done s \<longleftrightarrow> ds_planner s \<noteq> PlWait" using not_done wait by simp
  show ?thesis
    unfolding flags_inv_def s'(2-)
    by (intro conjI len facts(2-) exit' fail wait') (use not_done wait in simp_all)
qed

lemma work_flags:
  "dwork_step conn ok w s s' \<Longrightarrow> w < length (ds_workers s) \<Longrightarrow> flags_inv jobs s \<Longrightarrow> flags_inv jobs s'"
proof (induction rule: dwork_step.induct)
  case (dw_connect s)
  show ?case by (rule work_flags_keep [of jobs s w _ DwIdle]) (use dw_connect in \<open>simp_all add: put_worker_def dworker_fails_def\<close>)
next
  case (dw_connect_fails s)
  show ?case by (rule work_flags_keep [of jobs s w _ DwFail]) (use dw_connect_fails in \<open>simp_all add: put_worker_def dworker_fails_def\<close>)
next
  case (dw_receive s t ts)
  show ?case by (rule work_flags_keep [of jobs s w _ "DwRun t"]) (use dw_receive in \<open>simp_all add: put_worker_def dworker_fails_def\<close>)
next
  case (dw_exit s)
  show ?case by (rule work_flags_keep [of jobs s w _ DwExit]) (use dw_exit in \<open>simp_all add: put_worker_def dworker_fails_def\<close>)
next
  case (dw_cancel s)
  show ?case by (rule work_flags_keep [of jobs s w _ DwFail]) (use dw_cancel in \<open>simp_all add: put_worker_def dworker_fails_def\<close>)
next
  case (dw_done s t)
  show ?case by (rule work_flags_keep [of jobs s w _ DwIdle]) (use dw_done in \<open>simp_all add: put_worker_def dworker_fails_def\<close>)
next
  case (dw_task_fails s t)
  show ?case by (rule work_flags_keep [of jobs s w _ DwFail]) (use dw_task_fails in \<open>simp_all add: put_worker_def dworker_fails_def\<close>)
qed

lemma step_inv:
  assumes "dump_step jobs conn ok put s s'" "tasks_inv tasks s \<and> flags_inv jobs s"
  shows "tasks_inv tasks s' \<and> flags_inv jobs s'"
proof -
  from assms(1) consider "produce_step jobs s s'" | w where "w < length (ds_workers s)" "dwork_step conn ok w s s'"
    | "plan_step s s'" | "beat_step put s s'" | "tick_step put s s'"
    unfolding dump_step_def by (metis dstep.cases)
  then show ?thesis
  proof cases
    case 1 then show ?thesis using produce_inv assms(2) by blast
  next
    case (2 w) then show ?thesis using work_tasks work_flags assms(2) by blast
  next
    case 3 then show ?thesis using plan_inv assms(2) by blast
  next
    case 4 then show ?thesis using beat_inv assms(2) by blast
  next
    case 5 then show ?thesis using tick_inv assms(2) by blast
  qed
qed

lemma reachable_inv:
  "dump_steps jobs conn ok put (startDump jobs tasks) s \<Longrightarrow> tasks_inv tasks s \<and> flags_inv jobs s"
proof (induction rule: rtranclp_induct)
  case base
  show ?case by (rule start_inv)
next
  case (step y z)
  from step_inv [OF step(2,3)] show ?case .
qed

text \<open>A run that succeeds has executed every task once, and the heartbeat file says so.\<close>

lemma success_executes_all:
  assumes "dump_steps jobs conn ok put (startDump jobs tasks) s" "dumpSucceeded s" "0 < jobs"
  shows "mset (ds_executed s) = mset tasks \<and> ds_file s = Some HeartBeatDoneContent"
proof -
  have inv: "tasks_inv tasks s" "flags_inv jobs s" using reachable_inv [OF assms(1)] by simp_all
  have nofail: "DwFail \<notin> set (ds_workers s)" and ended: "list_all worker_ended (ds_workers s)"
    and "length (ds_workers s) = jobs" and todo: "ds_todo s = []"
    using inv(2) assms(2) by (auto simp: flags_inv_def dumpSucceeded_def)
  then have exits: "\<forall>p \<in> set (ds_workers s). p = DwExit"
    by (auto simp: list_all_iff elim: worker_ended.elims)
  then have "DwExit \<in> set (ds_workers s)" using assms(3) \<open>length (ds_workers s) = jobs\<close> by (cases "ds_workers s") auto
  then have chan: "ds_chan s = []" using inv(2) by (simp add: flags_inv_def)
  have none: "concat (List.map task_of_worker (ds_workers s)) = []" using exits by auto
  then have "mset (ds_executed s) = mset tasks"
    using inv(1) nofail chan todo by (simp add: tasks_inv_def seen_def at_work_def none del: concat_eq_Nil_conv)
  moreover have "ds_file s = Some HeartBeatDoneContent"
    using inv(2) assms(2) by (auto simp: flags_inv_def dumpSucceeded_def)
  ultimately show ?thesis by simp
qed

section \<open>The run ends\<close>

lemma worker_progress:
  assumes "w < length (ds_workers s)" "\<not> worker_ended (ds_workers s ! w)"
    and "\<not> (\<exists>s'. dstep jobs conn ok put s s')"
  shows "ds_workers s ! w = DwIdle \<and> ds_chan s = [] \<and> \<not> ds_closed s"
proof -
  have no: "\<not> dwork_step conn ok w s s'" for s' using assms(1,3) d_work by metis
  show ?thesis
  proof (cases "ds_workers s ! w")
    case DwStart
    then show ?thesis using no dw_connect dw_connect_fails by metis
  next
    case DwIdle
    then show ?thesis using no dw_receive [of s w] dw_exit [of s w conn ok] by (cases "ds_chan s") auto
  next
    case (DwRun t)
    then show ?thesis using no dw_done dw_task_fails by metis
  qed (use assms(2) in simp_all)
qed

lemma stuck_returned:
  assumes inv: "flags_inv jobs s" and jobs: "0 < jobs" and stuck: "\<not> (\<exists>s'. dstep jobs conn ok put s s')"
  shows "dumpReturned s"
proof -
  note prog = worker_progress [OF _ _ stuck]
  have planner: "ds_planner s \<in> {PlDone, PlFail}" if "list_all worker_ended (ds_workers s)"
    using that stuck d_plan pl_close pl_ok pl_fail by (cases "ds_planner s") blast+
  have producer: "ds_producer s \<noteq> DpRun"
  proof
    assume run: "ds_producer s = DpRun"
    have no: "\<not> produce_step jobs s s'" for s' using stuck d_produce by metis
    obtain t ts where todo: "ds_todo s = t # ts" using no pr_end [OF run] by (cases "ds_todo s") auto
    have full: "length (ds_chan s) \<ge> jobs" using no pr_send [OF run todo] by (meson not_le)
    then have "ds_chan s \<noteq> []" using jobs by auto
    then have ended: "list_all worker_ended (ds_workers s)" using prog by (auto simp: list_all_length)
    have "\<not> ds_outer s" using no pr_cancel [OF run todo] by metis
    then have "ds_planner s = PlDone" using planner [OF ended] inv by (auto simp: flags_inv_def)
    then have "DwFail \<notin> set (ds_workers s)" using inv by (simp add: flags_inv_def)
    then have "\<forall>p \<in> set (ds_workers s). p = DwExit" using ended by (auto simp: list_all_iff elim: worker_ended.elims)
    then have "DwExit \<in> set (ds_workers s)" using jobs inv by (cases "ds_workers s") (auto simp: flags_inv_def)
    then show False using inv \<open>ds_chan s \<noteq> []\<close> by (simp add: flags_inv_def)
  qed
  then have closed: "ds_closed s" using inv by (simp add: flags_inv_def)
  have ended: "list_all worker_ended (ds_workers s)" using prog closed by (auto simp: list_all_length)
  note pl = planner [OF ended]
  then have dn: "ds_done s" using inv by (auto simp: flags_inv_def)
  have nob: "\<not> beat_step put s s'" for s' using stuck d_beat by metis
  have "ds_beat s \<in> {BtEnd, BtFail}"
    using nob hb_start [of s put] hb_start_fails [of s put] hb_done [of s put] hb_done_fails [of s put] dn
    by (cases "ds_beat s") blast+
  then show ?thesis using producer pl by (simp add: dumpReturned_def)
qed

text \<open>When nothing fails, nothing is cancelled.\<close>

definition smooth_run :: "'t dstate \<Rightarrow> bool" where
  "smooth_run s \<longleftrightarrow> DwFail \<notin> set (ds_workers s) \<and> \<not> ds_inner s \<and> \<not> ds_outer s \<and> ds_producer s \<noteq> DpFail \<and> ds_beat s \<noteq> BtFail"

lemma smooth_step:
  assumes "dump_step jobs (\<lambda>w. True) (\<lambda>t. True) (\<lambda>c. True) s s'" "smooth_run s"
  shows "smooth_run s'"
proof -
  from assms(1) consider "produce_step jobs s s'" | w where "w < length (ds_workers s)" "dwork_step (\<lambda>w. True) (\<lambda>t. True) w s s'"
    | "plan_step s s'" | "beat_step (\<lambda>c. True) s s'" | "tick_step (\<lambda>c. True) s s'"
    unfolding dump_step_def by (metis dstep.cases)
  then show ?thesis
  proof cases
    case 1
    then show ?thesis using assms(2) by (induction rule: produce_step.induct) (auto simp: smooth_run_def)
  next
    case (2 w)
    from 2(2,1) assms(2) show ?thesis
      by (induction rule: dwork_step.induct)
         (auto simp: smooth_run_def put_worker_def worker_cancelled_def in_set_update)
  next
    case 3
    then show ?thesis using assms(2) by (induction rule: plan_step.induct) (auto simp: smooth_run_def)
  next
    case 4
    then show ?thesis using assms(2) by (induction rule: beat_step.induct) (auto simp: smooth_run_def)
  next
    case 5
    then show ?thesis using assms(2) by (induction rule: tick_step.induct) (auto simp: smooth_run_def)
  qed
qed

lemma smooth_reachable:
  "dump_steps jobs (\<lambda>w. True) (\<lambda>t. True) (\<lambda>c. True) (startDump jobs tasks) s \<Longrightarrow> smooth_run s"
  by (induction rule: rtranclp_induct) (auto simp: smooth_step, simp add: smooth_run_def startDump_def)

end
