(* ===== verification/DumpRunClaims.thy ===== *)
theory DumpRunClaims
  imports DumpRun
begin

text \<open>
  The properties of the data section of a dump: what a run that succeeds has done, that every run ends, and what the
  heartbeat file says of a run that fails.
\<close>

section \<open>Every task once\<close>

text \<open>
  Claim C36. When the data section of a dump succeeds, whatever the interleaving of producer, workers, planner and
  heartbeat, every task has been executed exactly once and the heartbeat file says that the dump is done.
\<close>

theorem data_dump_executes_all:
  assumes "dump_steps jobs conn ok put (startDump jobs tasks) s" and "dumpSucceeded s" and "0 < jobs"
  shows "mset (ds_executed s) = mset tasks \<and> ds_file s = Some HeartBeatDoneContent"
  by (rule success_executes_all [OF assms])

lemma some_stuck: "\<exists>s'. (dstep jobs conn ok put)\<^sup>*\<^sup>* s s' \<and> \<not> (\<exists>t. dstep jobs conn ok put s' t)"
proof (induction "dweight s" arbitrary: s rule: less_induct)
  case less
  show ?case
  proof (cases "\<exists>t. dstep jobs conn ok put s t")
    case True
    then obtain t where t: "dstep jobs conn ok put s t" by blast
    obtain s' where "(dstep jobs conn ok put)\<^sup>*\<^sup>* t s'" "\<not> (\<exists>u. dstep jobs conn ok put s' u)"
      using less [OF dstep_weight [OF t]] by blast
    then show ?thesis using t by (meson converse_rtranclp_into_rtranclp)
  next
    case False
    then show ?thesis by blast
  qed
qed

lemma dsteps_dump_steps: "(dstep jobs conn ok put)\<^sup>*\<^sup>* s s' \<Longrightarrow> dump_steps jobs conn ok put s s'"
  by (induction rule: rtranclp_induct) (auto simp: dump_step_def intro: rtranclp.rtrancl_into_rtrancl)

lemma smooth_stuck:
  assumes "dump_steps jobs (\<lambda>w. True) (\<lambda>t. True) (\<lambda>c. True) (startDump jobs tasks) s" "0 < jobs"
    and "\<not> (\<exists>t. dstep jobs (\<lambda>w. True) (\<lambda>t. True) (\<lambda>c. True) s t)"
  shows "dumpSucceeded s"
proof -
  have "dumpReturned s" by (rule stuck_returned [OF _ assms(2,3)]) (use reachable_inv [OF assms(1)] in blast)
  moreover have "smooth_run s" by (rule smooth_reachable [OF assms(1)])
  moreover have "ds_planner s = PlFail \<longrightarrow> ds_outer s" using reachable_inv [OF assms(1)] by (simp add: flags_inv_def)
  ultimately show ?thesis
    by (cases "ds_producer s"; cases "ds_planner s"; cases "ds_beat s")
       (simp_all add: dumpReturned_def dumpSucceeded_def smooth_run_def)
qed

theorem data_dump_executes_all_witness:
  "\<exists>s. dump_steps 2 (\<lambda>w. True) (\<lambda>t. True) (\<lambda>c. True) (startDump 2 [1::nat, 2, 3]) s \<and> dumpSucceeded s \<and>
     mset (ds_executed s) = {#1, 2, 3#}"
proof -
  obtain s where s: "dump_steps 2 (\<lambda>w. True) (\<lambda>t. True) (\<lambda>c. True) (startDump 2 [1::nat, 2, 3]) s"
    "\<not> (\<exists>t. dstep 2 (\<lambda>w. True) (\<lambda>t. True) (\<lambda>c. True) s t)"
    using some_stuck [of 2 "\<lambda>w. True" "\<lambda>t. True" "\<lambda>c. True" "startDump 2 [1::nat, 2, 3]"] dsteps_dump_steps by blast
  have "dumpSucceeded s" by (rule smooth_stuck [OF s(1) _ s(2)]) simp
  then show ?thesis using data_dump_executes_all [OF s(1)] s(1) by auto
qed

section \<open>Every run ends\<close>

text \<open>
  Claim C37. With at least one worker, whatever calls fail: a run makes at most \<open>3 * length tasks + 2 * jobs + 5\<close> steps
  besides the ticks of the heartbeat, a state in which no goroutine can take a step other than a tick is one in which
  the data section has returned, and if no call fails it has succeeded.
\<close>

theorem data_dump_ends:
  assumes "0 < jobs"
  shows "((tstep jobs conn ok put ^^ k) (startDump jobs tasks) s \<longrightarrow> k \<le> 3 * length tasks + 2 * jobs + 5) \<and>
    (dump_steps jobs conn ok put (startDump jobs tasks) s \<and> \<not> (\<exists>t. dstep jobs conn ok put s t) \<longrightarrow> dumpReturned s) \<and>
    (dump_steps jobs (\<lambda>w. True) (\<lambda>t. True) (\<lambda>c. True) (startDump jobs tasks) s \<and>
       \<not> (\<exists>t. dstep jobs (\<lambda>w. True) (\<lambda>t. True) (\<lambda>c. True) s t) \<longrightarrow> dumpSucceeded s)"
proof (intro conjI impI)
  assume "(tstep jobs conn ok put ^^ k) (startDump jobs tasks) s"
  from dump_bounded [OF this] show "k \<le> 3 * length tasks + 2 * jobs + 5" by (simp add: startDump_weight)
next
  assume "dump_steps jobs conn ok put (startDump jobs tasks) s \<and> \<not> (\<exists>t. dstep jobs conn ok put s t)"
  then show "dumpReturned s" using stuck_returned [OF _ assms] reachable_inv by blast
next
  assume "dump_steps jobs (\<lambda>w. True) (\<lambda>t. True) (\<lambda>c. True) (startDump jobs tasks) s \<and>
       \<not> (\<exists>t. dstep jobs (\<lambda>w. True) (\<lambda>t. True) (\<lambda>c. True) s t)"
  then show "dumpSucceeded s" using smooth_stuck [OF _ assms] by blast
qed

theorem data_dump_ends_witness:
  "\<exists>s. dump_steps 1 (\<lambda>w. True) (\<lambda>t. True) (\<lambda>c. True) (startDump 1 [7::nat]) s \<and> dumpSucceeded s"
proof -
  obtain s where s: "dump_steps 1 (\<lambda>w. True) (\<lambda>t. True) (\<lambda>c. True) (startDump 1 [7::nat]) s"
    "\<not> (\<exists>t. dstep 1 (\<lambda>w. True) (\<lambda>t. True) (\<lambda>c. True) s t)"
    using some_stuck [of 1 "\<lambda>w. True" "\<lambda>t. True" "\<lambda>c. True" "startDump 1 [7::nat]"] dsteps_dump_steps by blast
  show ?thesis using data_dump_ends [where jobs = 1 and conn = "\<lambda>w. True" and ok = "\<lambda>t. True" and put = "\<lambda>c. True" and
      tasks = "[7::nat]" and s = s] s by auto
qed

section \<open>A dump that fails\<close>

text \<open>The states of one worker whose first task fails.\<close>

definition at_fault :: "'t \<Rightarrow> 't list \<Rightarrow> 't dstate" where
  "at_fault t ts = \<lparr>ds_todo = ts, ds_producer = DpRun, ds_chan = [], ds_closed = False, ds_workers = [DwRun t],
      ds_executed = [], ds_planner = PlWait, ds_done = False, ds_beat = BtWait, ds_file = Some HeartBeatInProgressContent,
      ds_inner = False, ds_outer = False\<rparr>"

definition after_fault :: "'t list \<Rightarrow> 't dstate" where
  "after_fault ts = \<lparr>ds_todo = ts, ds_producer = DpRun, ds_chan = [], ds_closed = False, ds_workers = [DwFail],
      ds_executed = [], ds_planner = PlFail, ds_done = True, ds_beat = BtEnd, ds_file = Some HeartBeatDoneContent,
      ds_inner = True, ds_outer = True\<rparr>"

abbreviation one_worker where
  "one_worker ok \<equiv> dump_step 1 (\<lambda>w. True) ok (\<lambda>c. True)"

lemma one_workerI:
  "produce_step 1 s s' \<Longrightarrow> one_worker ok s s'" "plan_step s s' \<Longrightarrow> one_worker ok s s'"
  "beat_step (\<lambda>c. True) s s' \<Longrightarrow> one_worker ok s s'"
  "0 < length (ds_workers s) \<Longrightarrow> dwork_step (\<lambda>w. True) ok 0 s s' \<Longrightarrow> one_worker ok s s'"
  unfolding dump_step_def by (blast intro: dstep.intros)+

lemma reach_fault: "(one_worker ok)\<^sup>*\<^sup>* (startDump 1 (t # ts)) (at_fault t ts)"
proof -
  let ?s0 = "startDump 1 (t # ts)"
  let ?s1 = "?s0\<lparr>ds_beat := BtWait, ds_file := Some HeartBeatInProgressContent\<rparr>"
  let ?s2 = "?s1\<lparr>ds_todo := ts, ds_chan := [t]\<rparr>"
  let ?s3 = "?s2\<lparr>ds_workers := [DwIdle]\<rparr>"
  have 1: "one_worker ok ?s0 ?s1"
    by (rule one_workerI(3) [OF hb_start]) (simp_all add: startDump_def)
  have 2: "one_worker ok ?s1 ?s2"
    by (rule one_workerI(1)) (use pr_send [of ?s1 t ts 1] in \<open>simp add: startDump_def\<close>)
  have 3: "one_worker ok ?s2 ?s3"
    by (rule one_workerI(4)) (use dw_connect [of ?s2 0 "\<lambda>w. True" ok] in \<open>simp_all add: startDump_def put_worker_def\<close>)
  have 4: "one_worker ok ?s3 (at_fault t ts)"
    by (rule one_workerI(4))
       (use dw_receive [of ?s3 0 t "[]" "\<lambda>w. True" ok] in \<open>simp_all add: startDump_def put_worker_def at_fault_def\<close>)
  show ?thesis using 1 2 3 4 by (meson converse_rtranclp_into_rtranclp rtranclp.rtrancl_refl)
qed

lemma fault_done:
  assumes "\<not> ok t"
  shows "(one_worker ok)\<^sup>*\<^sup>* (at_fault t ts) (after_fault ts)"
proof -
  let ?s1 = "(at_fault t ts)\<lparr>ds_workers := [DwFail], ds_inner := True\<rparr>"
  let ?s2 = "?s1\<lparr>ds_planner := PlReturn, ds_done := True\<rparr>"
  let ?s3 = "?s2\<lparr>ds_beat := BtEnd, ds_file := Some HeartBeatDoneContent\<rparr>"
  have 1: "one_worker ok (at_fault t ts) ?s1"
    by (rule one_workerI(4))
       (use dw_task_fails [of "at_fault t ts" 0 t ok "\<lambda>w. True"] assms in \<open>simp_all add: at_fault_def put_worker_def dworker_fails_def\<close>)
  have 2: "one_worker ok ?s1 ?s2"
    by (rule one_workerI(2) [OF pl_close]) (simp_all add: at_fault_def)
  have 3: "one_worker ok ?s2 ?s3"
    by (rule one_workerI(3) [OF hb_done]) (simp_all add: at_fault_def)
  have 4: "one_worker ok ?s3 (after_fault ts)"
    by (rule one_workerI(2)) (use pl_fail [of ?s3] in \<open>simp add: at_fault_def after_fault_def\<close>)
  show ?thesis using 1 2 3 4 by (meson converse_rtranclp_into_rtranclp rtranclp.rtrancl_refl)
qed

text \<open>
  Claim C38. A dump whose first task fails can return its error with a heartbeat file that says it is done: the planner
  closes \<^verbatim>\<open>done\<close> on its way out also when a worker failed, before the error has cancelled the context of the heartbeat
  writer. The status of such a dump, which has no metadata, is then "unknown or failed" instead of "failed", so that
  pruning the failed dumps leaves it.
\<close>

theorem failed_dump_says_done:
  assumes "\<not> ok t"
  shows "(\<exists>s. dump_steps 1 (\<lambda>w. True) ok (\<lambda>c. True) (startDump 1 (t # ts)) s \<and> dumpReturned s \<and> \<not> dumpSucceeded s \<and>
      ds_executed s = [] \<and> ds_file s = Some HeartBeatDoneContent) \<and>
    fst (status_of now \<lparr>sd_Name = n, sd_HeartBeatStat = Inr (Some at), sd_HeartBeat = Inr HeartBeatDoneContent,
      sd_MetadataStat = Inr False, sd_Metadata = Inr None\<rparr>) = UnknownOrFailedStatusName"
proof
  have reach: "dump_steps 1 (\<lambda>w. True) ok (\<lambda>c. True) (startDump 1 (t # ts)) (after_fault ts)"
    using rtranclp_trans [OF reach_fault fault_done [of ok t ts, OF assms]] .
  let ?final = "\<lambda>p. (after_fault ts)\<lparr>ds_producer := p, ds_closed := True\<rparr>"
  have "\<exists>p. p \<noteq> DpRun \<and> one_worker ok (after_fault ts) (?final p)"
  proof (cases ts)
    case Nil
    then have "one_worker ok (after_fault ts) (?final DpDone)"
      by (intro one_workerI(1) [OF pr_end]) (simp_all add: after_fault_def)
    then show ?thesis by blast
  next
    case (Cons u us)
    then have "one_worker ok (after_fault ts) (?final DpFail)"
      by (intro one_workerI(1) [OF pr_cancel [of _ u us]]) (simp_all add: after_fault_def)
    then show ?thesis by blast
  qed
  then obtain p where p: "p \<noteq> DpRun" "one_worker ok (after_fault ts) (?final p)" by blast
  show "\<exists>s. dump_steps 1 (\<lambda>w. True) ok (\<lambda>c. True) (startDump 1 (t # ts)) s \<and> dumpReturned s \<and> \<not> dumpSucceeded s \<and>
      ds_executed s = [] \<and> ds_file s = Some HeartBeatDoneContent"
    by (rule exI [of _ "?final p"])
       (use rtranclp.rtrancl_into_rtrancl [OF reach p(2)] p(1) in \<open>simp add: dumpReturned_def dumpSucceeded_def after_fault_def\<close>)
next
  show "fst (status_of now \<lparr>sd_Name = n, sd_HeartBeatStat = Inr (Some at), sd_HeartBeat = Inr HeartBeatDoneContent,
      sd_MetadataStat = Inr False, sd_Metadata = Inr None\<rparr>) = UnknownOrFailedStatusName"
    by (simp add: status_of_def GetDumpStatusAndMetadata_def done_or_unknown_def HeartBeatDoneContent_def)
qed

theorem failed_dump_says_done_witness:
  "\<exists>s. dump_steps 1 (\<lambda>w. True) (\<lambda>t. t \<noteq> 0) (\<lambda>c. True) (startDump 1 [0::nat, 1]) s \<and> dumpReturned s \<and>
     \<not> dumpSucceeded s \<and> ds_file s = Some HeartBeatDoneContent"
  using failed_dump_says_done [of "\<lambda>t. t \<noteq> 0" "0::nat" "[1]"] by blast

end
