(* ===== verification/PatternAdapter.thy ===== *)
theory PatternAdapter
  imports Prelude
begin

text \<open>
  The patterns of \<^verbatim>\<open>--table\<close>, \<^verbatim>\<open>--schema\<close> and their like: \<^verbatim>\<open>AdaptRegexp\<close> of \<^verbatim>\<open>pgdump/adapter.go\<close>, a parser with a
  stack of states that turns a pattern into a regular expression, and the conditions of the queries of the catalog
  that are made of them (\<^verbatim>\<open>context/pg_catalog.go\<close>). A pattern is a list of characters (\<^verbatim>\<open>strings.ToLower\<close> on the letters
  of ASCII); the parser's stack has its top first.
\<close>

section \<open>The parser\<close>

datatype Stage = noneActionStage | startedActionStage | endedActionStage

datatype StateName = stateLowerCase | stateKeepCase | stateWildcard | stateDoubledQuotes | stateQuestionMark

type_synonym pstate = "StateName \<times> Stage"

definition quote_char :: char where "quote_char = CHR 0x22"
definition star_char :: char where "star_char = CHR ''*''"
definition question_char :: char where "question_char = CHR ''?''"

definition lower_char :: "char \<Rightarrow> char" where
  "lower_char c = (let n = of_char c :: nat in if 65 \<le> n \<and> n \<le> 90 then char_of (n + 32) else c)"

definition ToLower :: "string \<Rightarrow> string" where
  "ToLower s = List.map lower_char s"

text \<open>The actions: the new stage and what is written.\<close>

definition lowerCaseState :: "Stage \<Rightarrow> string \<Rightarrow> (Stage \<times> string) res" where
  "lowerCaseState stage s =
     (if s = [] then err ''unexpected char length'' else Inr (endedActionStage, ToLower s))"

definition keepCaseState :: "Stage \<Rightarrow> string \<Rightarrow> (Stage \<times> string) res" where
  "keepCaseState stage s =
     (if s = [quote_char] then
        Inr (if stage = noneActionStage then startedActionStage else endedActionStage, [])
      else if stage = noneActionStage then err ''syntax error''
      else Inr (stage, s))"

definition wildCardState :: "Stage \<Rightarrow> string \<Rightarrow> (Stage \<times> string) res" where
  "wildCardState stage s = (if s \<noteq> [star_char] then err ''unknown character'' else Inr (endedActionStage, ''.*''))"

definition questionMarkState :: "Stage \<Rightarrow> string \<Rightarrow> (Stage \<times> string) res" where
  "questionMarkState stage s = (if s \<noteq> [question_char] then err ''unknown character'' else Inr (endedActionStage, ''.''))"

definition doubleQuoteState :: "Stage \<Rightarrow> string \<Rightarrow> (Stage \<times> string) res" where
  "doubleQuoteState stage s =
     (if s \<noteq> [quote_char, quote_char] then err ''unknown character'' else Inr (endedActionStage, [quote_char]))"

definition action_of :: "StateName \<Rightarrow> Stage \<Rightarrow> string \<Rightarrow> (Stage \<times> string) res" where
  "action_of n = (case n of
       stateLowerCase \<Rightarrow> lowerCaseState | stateKeepCase \<Rightarrow> keepCaseState | stateWildcard \<Rightarrow> wildCardState
     | stateDoubledQuotes \<Rightarrow> doubleQuoteState | stateQuestionMark \<Rightarrow> questionMarkState)"

text \<open>
  The default state is one object for all parsers; its stage, the only thing a call leaves in it, is not read by its
  action, and a state at the bottom of the stack is never popped.
\<close>

definition newParser :: "pstate list" where
  "newParser = [(stateLowerCase, noneActionStage)]"

definition pushState :: "StateName \<Rightarrow> pstate list \<Rightarrow> pstate list" where
  "pushState n stack = (n, noneActionStage) # stack"

definition push_unless :: "StateName \<Rightarrow> pstate list \<Rightarrow> pstate list" where
  "push_unless n stack = (if fst (hd stack) \<noteq> n then pushState n stack else stack)"

text \<open>\<^verbatim>\<open>popState\<close> reads the element below the top.\<close>

definition popState :: "pstate list \<Rightarrow> pstate list res" where
  "popState stack = (if length stack < 2 then panic ''index out of range'' else Inr (List.tl stack))"

text \<open>The literals of one turn of the loop and the state they are for.\<close>

fun scan :: "string \<Rightarrow> pstate list \<Rightarrow> string \<times> string \<times> pstate list" where
  "scan [] stack = ([], [], stack)"
| "scan (c # s) stack =
     (if c = quote_char then
        (case s of
           d # s' \<Rightarrow> if d = quote_char then ([c, d], s', pushState stateDoubledQuotes stack)
                     else ([c], s, push_unless stateKeepCase stack)
         | [] \<Rightarrow> ([c], [], push_unless stateKeepCase stack))
      else if c = star_char then ([c], s, push_unless stateWildcard stack)
      else if c = question_char then ([c], s, push_unless stateQuestionMark stack)
      else ([c], s, stack))"

lemma scan_shorter: "s \<noteq> [] \<Longrightarrow> length (fst (snd (scan s stack))) < length s"
  by (cases s) (auto split: list.split)

text \<open>The action of the current state; a state that is done is popped unless it is the last.\<close>

definition act :: "string \<Rightarrow> pstate list \<Rightarrow> (string \<times> pstate list) res" where
  "act literals stack =
     (case stack of [] \<Rightarrow> panic ''nil pointer dereference''
      | (n, stage) # below \<Rightarrow>
          bindR (action_of n stage literals) (\<lambda>(stage', out).
          let stack' = (n, stage') # below in
          if length stack' > 1 \<and> stage' = endedActionStage then bindR (popState stack') (\<lambda>st. Inr (out, st))
          else Inr (out, stack')))"

function adapt_loop :: "string \<Rightarrow> pstate list \<Rightarrow> string \<Rightarrow> string res" where
  "adapt_loop src stack dest =
     (if src = [] then
        (if length stack > 1 then err ''unexpected end of string'' else Inr (''^('' @ dest @ '')$''))
      else let (literals, rest, stack') = scan src stack in
        bindR (act literals stack') (\<lambda>(out, stack''). adapt_loop rest stack'' (dest @ out)))"
  by pat_completeness auto
termination
  by (relation "measure (\<lambda>(src, _). length src)") (auto dest: scan_shorter [of _ "_"] simp: scan_shorter, metis fst_conv scan_shorter snd_conv)

declare adapt_loop.simps [simp del]

definition AdaptRegexp :: "string \<Rightarrow> string res" where
  "AdaptRegexp data = adapt_loop data newParser []"

section \<open>The conditions\<close>

text \<open>\<^verbatim>\<open>strings.Split(s, ".")\<close>\<close>

fun split_dots :: "string \<Rightarrow> string list" where
  "split_dots [] = [[]]"
| "split_dots (c # s) =
     (if c = CHR ''.'' then [] # split_dots s
      else case split_dots s of [] \<Rightarrow> [[c]] | p # ps \<Rightarrow> (c # p) # ps)"

fun join :: "string \<Rightarrow> string list \<Rightarrow> string" where
  "join sep [] = []"
| "join sep [x] = x"
| "join sep (x # xs) = x @ sep @ join sep xs"

definition sq :: string where "sq = [CHR 0x27]"

definition relation_cond :: "string \<Rightarrow> string \<Rightarrow> string" where
  "relation_cond s t = ''(n.nspname ~ '' @ sq @ s @ sq @ '' AND c.relname ~ '' @ sq @ t @ sq @ '')''"

definition relation_item :: "string \<Rightarrow> string res" where
  "relation_item item =
     (case split_dots item of
        [t] \<Rightarrow> bindR (AdaptRegexp t) (\<lambda>tp. Inr (relation_cond ''.*'' tp))
      | [s, t] \<Rightarrow> bindR (AdaptRegexp s) (\<lambda>sp. bindR (AdaptRegexp t) (\<lambda>tp. Inr (relation_cond sp tp)))
      | _ \<Rightarrow> err ''dots must appear only once'')"

definition any_of :: "string list \<Rightarrow> string" where
  "any_of conds = ''('' @ join '' OR '' conds @ '')''"

definition renderRelationCond :: "string list \<Rightarrow> string \<Rightarrow> string res" where
  "renderRelationCond ss defaultCond =
     (if ss = [] then Inr defaultCond else bindR (mapR relation_item ss) (\<lambda>conds. Inr (any_of conds)))"

definition single_item :: "string \<Rightarrow> string \<Rightarrow> string res" where
  "single_item column item =
     (if length (split_dots item) > 1 then err ''does not expect dots''
      else bindR (AdaptRegexp item) (\<lambda>p. Inr (''('' @ column @ '' ~ '' @ sq @ p @ sq @ '')'')))"

definition renderNamespaceCond :: "string list \<Rightarrow> string \<Rightarrow> string res" where
  "renderNamespaceCond ss defaultCond =
     (if ss = [] then Inr defaultCond
      else bindR (mapR (single_item ''n.nspname'') ss) (\<lambda>conds. Inr (any_of conds)))"

definition renderForeignDataCond :: "string list \<Rightarrow> string \<Rightarrow> string res" where
  "renderForeignDataCond ss defaultCond =
     (if ss = [] then Inr defaultCond
      else bindR (mapR (single_item ''s.srvname'') ss) (\<lambda>conds. Inr (any_of conds)))"

text \<open>
  The conditions of the two queries of the catalog, in the order of their places in the text. What renders the text
  of a query from them is the argument \<open>render\<close>.
\<close>

definition buildTableSearchQuery ::
  "(nat \<Rightarrow> string list \<Rightarrow> string res) \<Rightarrow> string list \<Rightarrow> string list \<Rightarrow> string list \<Rightarrow> string list \<Rightarrow> string list \<Rightarrow>
   string list \<Rightarrow> nat \<Rightarrow> string res" where
  "buildTableSearchQuery render includeTable excludeTable excludeTableData includeForeignData includeSchema excludeSchema version =
     bindR (renderRelationCond includeTable ''TRUE'') (\<lambda>tableInclusion.
     bindR (renderRelationCond excludeTable ''FALSE'') (\<lambda>tableExclusion.
     bindR (renderRelationCond excludeTableData ''FALSE'') (\<lambda>dataExclusion.
     bindR (renderNamespaceCond includeSchema ''TRUE'') (\<lambda>schemaInclusion.
     bindR (renderNamespaceCond excludeSchema ''FALSE'') (\<lambda>schemaExclusion.
     bindR (renderForeignDataCond includeForeignData ''FALSE'') (\<lambda>foreignData.
     render version [dataExclusion, tableInclusion, tableExclusion, schemaInclusion, schemaExclusion, foreignData]))))))"

definition buildSchemaIntrospectionQuery ::
  "(string list \<Rightarrow> string) \<Rightarrow> string list \<Rightarrow> string list \<Rightarrow> string list \<Rightarrow> string list \<Rightarrow> string list \<Rightarrow> string res" where
  "buildSchemaIntrospectionQuery render includeTable excludeTable includeForeignData includeSchema excludeSchema =
     bindR (renderRelationCond includeTable ''TRUE'') (\<lambda>tableInclusion.
     bindR (renderRelationCond excludeTable ''FALSE'') (\<lambda>tableExclusion.
     bindR (renderNamespaceCond includeSchema ''TRUE'') (\<lambda>schemaInclusion.
     bindR (renderNamespaceCond excludeSchema ''FALSE'') (\<lambda>schemaExclusion.
     bindR (renderForeignDataCond includeForeignData ''FALSE'') (\<lambda>foreignData.
     Inr (render [tableInclusion, tableExclusion, schemaInclusion, schemaExclusion, foreignData]))))))"

section \<open>What the parser computes\<close>

text \<open>
  The pattern read with one flag, whether it stands between quotes. Two quotes are always a quote, also outside;
  wildcards are wildcards, also between quotes; every other character stands for itself.
\<close>

fun adapt :: "bool \<Rightarrow> string \<Rightarrow> string res" where
  "adapt q [] = (if q then err ''unexpected end of string'' else Inr [])"
| "adapt q (c # s) =
     (if c = quote_char then
        (if s \<noteq> [] \<and> hd s = quote_char then bindR (adapt q (List.tl s)) (\<lambda>r. Inr (quote_char # r)) else adapt (\<not> q) s)
      else bindR (adapt q s) (\<lambda>r. Inr
        ((if c = star_char then ''.*'' else if c = question_char then ''.'' else if q then [c] else [lower_char c]) @ r)))"

declare adapt.simps(2) [simp del]

lemma adapt_double: "adapt q (quote_char # quote_char # s) = bindR (adapt q s) (\<lambda>r. Inr (quote_char # r))"
  by (simp add: adapt.simps(2))

lemma adapt_lone: "s = [] \<or> hd s \<noteq> quote_char \<Longrightarrow> adapt q (quote_char # s) = adapt (\<not> q) s"
  by (auto simp: adapt.simps(2))

lemma adapt_other: "c \<noteq> quote_char \<Longrightarrow> adapt q (c # s) = bindR (adapt q s) (\<lambda>r. Inr
    ((if c = star_char then ''.*'' else if c = question_char then ''.'' else if q then [c] else [lower_char c]) @ r))"
  by (simp add: adapt.simps(2))

lemma quote_not_wild [simp]: "quote_char \<noteq> star_char" "quote_char \<noteq> question_char" "star_char \<noteq> quote_char"
  "question_char \<noteq> quote_char" "star_char \<noteq> question_char" "question_char \<noteq> star_char"
  by (simp_all add: quote_char_def star_char_def question_char_def)

definition stack_of :: "bool \<Rightarrow> Stage \<Rightarrow> pstate list" where
  "stack_of q stage = (if q then [(stateKeepCase, startedActionStage)] else []) @ [(stateLowerCase, stage)]"

lemmas machine_simps = scan.simps act_def action_of_def popState_def pushState_def push_unless_def stack_of_def
  keepCaseState_def lowerCaseState_def wildCardState_def questionMarkState_def doubleQuoteState_def ToLower_def

text \<open>One turn on a quote that is not doubled, on a doubled one, and on any other character.\<close>

lemma turn_quote:
  assumes "s = [] \<or> hd s \<noteq> quote_char"
  shows "scan (quote_char # s) (stack_of q stage) = ([quote_char], s, push_unless stateKeepCase (stack_of q stage))"
    and "act [quote_char] (push_unless stateKeepCase (stack_of q stage)) = Inr ([], stack_of (\<not> q) stage)"
  using assms by (cases s; cases q; simp add: machine_simps)+

lemma turn_double:
  "scan (quote_char # quote_char # s) stack = ([quote_char, quote_char], s, pushState stateDoubledQuotes stack)"
  "act [quote_char, quote_char] (pushState stateDoubledQuotes (stack_of q stage)) = Inr ([quote_char], stack_of q stage)"
  by (cases q; simp add: machine_simps)+

lemma turn_char:
  assumes "c \<noteq> quote_char"
  shows "\<exists>stack' stage'. scan (c # s) (stack_of q stage) = ([c], s, stack') \<and>
    act [c] stack' = Inr ((if c = star_char then ''.*'' else if c = question_char then ''.'' else if q then [c] else [lower_char c]),
                         stack_of q stage')"
  using assms by (cases q; cases "c = star_char"; cases "c = question_char") (auto simp: machine_simps)

lemma adapt_loop_adapt:
  "adapt_loop s (stack_of q stage) dest = bindR (adapt q s) (\<lambda>r. Inr (''^('' @ dest @ r @ '')$''))"
proof (induction "length s" arbitrary: s q stage dest rule: less_induct)
  case less
  show ?case
  proof (cases s)
    case Nil
    then show ?thesis by (simp add: adapt_loop.simps stack_of_def)
  next
    case (Cons c t)
    note step = adapt_loop.simps [of "c # t"]
    show ?thesis
    proof (cases "c = quote_char")
      case True
      show ?thesis
      proof (cases "t \<noteq> [] \<and> hd t = quote_char")
        case double: True
        then obtain u where u: "t = quote_char # u" by (cases t) auto
        have "adapt_loop s (stack_of q stage) dest = adapt_loop u (stack_of q stage) (dest @ [quote_char])"
          by (simp add: Cons True u adapt_loop.simps [of "quote_char # quote_char # u"] turn_double)
        also have "\<dots> = bindR (adapt q u) (\<lambda>r. Inr (''^('' @ (dest @ [quote_char]) @ r @ '')$''))"
          by (rule less) (simp add: Cons u)
        finally show ?thesis by (cases "adapt q u") (simp_all add: Cons True u adapt.simps(2))
      next
        case lone: False
        then have "adapt_loop s (stack_of q stage) dest = adapt_loop t (stack_of (\<not> q) stage) dest"
          by (simp add: Cons True adapt_loop.simps [of "quote_char # t"] turn_quote del: scan.simps)
        also have "\<dots> = bindR (adapt (\<not> q) t) (\<lambda>r. Inr (''^('' @ dest @ r @ '')$''))"
          by (rule less) (simp add: Cons)
        finally show ?thesis using lone by (auto simp: Cons True adapt.simps(2))
      qed
    next
      case False
      from turn_char [OF this, of t q stage] obtain stack' stage' where
        t: "scan (c # t) (stack_of q stage) = ([c], t, stack')"
          "act [c] stack' = Inr ((if c = star_char then ''.*'' else if c = question_char then ''.'' else if q then [c] else [lower_char c]),
                         stack_of q stage')" by blast
      show ?thesis
        using less [of t q stage'] False
        by (cases "adapt q t") (simp_all add: Cons step t adapt.simps(2) del: scan.simps)
    qed
  qed
qed

lemma AdaptRegexp_adapt: "AdaptRegexp s = bindR (adapt False s) (\<lambda>r. Inr (''^('' @ r @ '')$''))"
  using adapt_loop_adapt [of s False noneActionStage "[]"] by (simp add: AdaptRegexp_def newParser_def stack_of_def)

text \<open>Quotes that open or close.\<close>

fun lone_quotes :: "string \<Rightarrow> nat" where
  "lone_quotes [] = 0"
| "lone_quotes [c] = (if c = quote_char then 1 else 0)"
| "lone_quotes (c # d # s) =
     (if c = quote_char \<and> d = quote_char then lone_quotes s
      else (if c = quote_char then 1 else 0) + lone_quotes (d # s))"

lemma adapt_ok: "isOk (adapt q s) \<longleftrightarrow> even (lone_quotes s + (if q then 1 else 0))"
proof (induction s arbitrary: q rule: lone_quotes.induct)
  case (3 c d s)
  have ok: "isOk (bindR m (\<lambda>r. Inr (f r))) = isOk m" for m :: "string res" and f :: "string \<Rightarrow> string"
    by (cases m) auto
  consider (double) "c = quote_char" "d = quote_char" | (lone) "c = quote_char" "d \<noteq> quote_char" | (other) "c \<noteq> quote_char"
    by blast
  then show ?case
  proof cases
    case double
    then show ?thesis using "3.IH"(1) by (simp only: adapt_double ok lone_quotes.simps) simp
  next
    case lone
    then have "adapt q (c # d # s) = adapt (\<not> q) (d # s)" by (simp add: adapt_lone)
    then show ?thesis using lone "3.IH"(2) by simp
  next
    case other
    then have "isOk (adapt q (c # d # s)) = isOk (adapt q (d # s))" by (simp only: adapt_other [OF other] ok)
    then show ?thesis using other "3.IH"(2) by simp
  qed
qed (auto simp: adapt.simps(2))

lemma lower_single: "lower_char c = CHR 0x27 \<longleftrightarrow> c = CHR 0x27"
proof -
  have "of_char (char_of (m + 32) :: char) = (m + 32 :: nat)" if "65 \<le> m" "m \<le> 90" for m
    using that by (simp add: of_char_of)
  then show ?thesis by (auto simp: lower_char_def Let_def dest!: arg_cong [of _ "CHR 0x27" "of_char :: char \<Rightarrow> nat"])
qed

text \<open>A single quote of the pattern stays as it is, in a text that is put between single quotes.\<close>

lemma adapt_single_quotes:
  "adapt q s = Inr r \<Longrightarrow> count_list r (CHR 0x27) = count_list s (CHR 0x27)"
proof (induction s arbitrary: q r rule: lone_quotes.induct)
  case 1
  then show ?case by (simp split: if_splits)
next
  case (2 c)
  then show ?case by (auto simp: adapt.simps(2) lower_single quote_char_def star_char_def question_char_def split: if_splits)
next
  case (3 c d s)
  consider (double) "c = quote_char" "d = quote_char" | (lone) "c = quote_char" "d \<noteq> quote_char" | (other) "c \<noteq> quote_char"
    by blast
  then show ?case
  proof cases
    case double
    then obtain r' where "adapt q s = Inr r'" "r = quote_char # r'" using "3.prems" by (auto simp: adapt_double bindR_eq_Inr)
    then show ?thesis using "3.IH"(1) [of q r'] double by (simp add: quote_char_def)
  next
    case lone
    then have "adapt (\<not> q) (d # s) = Inr r" using "3.prems" by (simp add: adapt_lone)
    then show ?thesis using "3.IH"(2) [of "\<not> q" r] lone by (simp add: quote_char_def)
  next
    case other
    obtain r' where "adapt q (d # s) = Inr r'" and r: "r = (if c = star_char then ''.*'' else if c = question_char then ''.''
        else if q then [c] else [lower_char c]) @ r'" using "3.prems" other by (auto simp: adapt_other bindR_eq_Inr)
    then show ?thesis using "3.IH"(2) [of q r'] other by (auto simp: lower_single star_char_def question_char_def)
  qed
qed

section \<open>The patterns on the command line\<close>

text \<open>
  Claim C40. The parser with its stack of states computes what one reading of the pattern with a flag for the quotes
  computes, and it fails exactly on the patterns with an odd number of quotes that are not doubled.
\<close>

theorem AdaptRegexp_reads_pattern:
  "AdaptRegexp s = bindR (adapt False s) (\<lambda>r. Inr (''^('' @ r @ '')$'')) \<and>
   (isOk (AdaptRegexp s) \<longleftrightarrow> even (lone_quotes s))"
proof -
  have "isOk (bindR (adapt False s) (\<lambda>r. Inr (''^('' @ r @ '')$''))) = isOk (adapt False s)"
    by (cases "adapt False s") simp_all
  then show ?thesis using adapt_ok [of False s] by (simp only: AdaptRegexp_adapt) simp
qed

text \<open>
  A single quote in a pattern ends the literal of the condition; a dot between quotes splits the name; a wildcard
  between quotes stays one.
\<close>

lemma pattern_quote_in_condition:
  "renderNamespaceCond [''o'' @ sq @ ''b''] ''TRUE'' = Inr (''((n.nspname ~ '' @ sq @ ''^(o'' @ sq @ ''b)$'' @ sq @ ''))'')"
  by (simp add: renderNamespaceCond_def single_item_def AdaptRegexp_adapt sq_def any_of_def adapt.simps(2) quote_char_def
      star_char_def question_char_def lower_char_def)

lemma quoted_dot_splits:
  "relation_item ([quote_char] @ ''a.b'' @ [quote_char]) = err ''unexpected end of string''"
  by (simp add: relation_item_def AdaptRegexp_adapt adapt.simps(2) quote_char_def star_char_def question_char_def lower_char_def)

lemma quoted_wildcard:
  "AdaptRegexp ([quote_char] @ ''A*'' @ [quote_char]) = Inr ''^(A.*)$''"
  by (simp add: AdaptRegexp_adapt adapt.simps(2) quote_char_def star_char_def question_char_def lower_char_def)

end
