(* ===== verification/SubsetMaterialize.thy ===== *)
theory SubsetMaterialize
  imports SubsetQueries
begin

text \<open>
  Key sets of a subset that are computed before the dump: \<^verbatim>\<open>subset/materialize.go\<close> (the values are fetched and
  written into the queries) and \<^verbatim>\<open>subset/materialize_temp.go\<close> (the values are kept in tables of a scratch schema).
  Both walk the references from a table to the tables it depends on. The database is a parameter: the outcome of
  a statement, given the statements executed before it. \<^verbatim>\<open>table.Query\<close> is a map from the vertex of the table,
  \<^verbatim>\<open>g.paths\<close> the map \<open>paths\<close>, and the order of a loop over \<^verbatim>\<open>g.paths\<close> is the list \<open>compIdxs\<close>.

  The functions call each other in a cycle, so they take fuel; \<open>None\<close> stands for a call that has not returned
  within it. A step that reads and writes the state is a function to the outcome and the new state.
\<close>

section \<open>Steps with a state, an outcome and fuel\<close>

type_synonym ('s, 'a) plan = "'s \<Rightarrow> ('a \<times> 's) res option"

definition doneP :: "'a \<Rightarrow> ('s, 'a) plan" where
  "doneP a = (\<lambda>s. Some (Inr (a, s)))"

definition liftP :: "'a res \<Rightarrow> ('s, 'a) plan" where
  "liftP r = (\<lambda>s. Some (bindR r (\<lambda>a. Inr (a, s))))"

definition bindP :: "('s, 'a) plan \<Rightarrow> ('a \<Rightarrow> ('s, 'b) plan) \<Rightarrow> ('s, 'b) plan" where
  "bindP m f = (\<lambda>s. case m s of None \<Rightarrow> None | Some (Inl e) \<Rightarrow> Some (Inl e) | Some (Inr (a, s')) \<Rightarrow> f a s')"

definition modifyP :: "('s \<Rightarrow> 's) \<Rightarrow> ('s, unit) plan" where
  "modifyP f = (\<lambda>s. Some (Inr ((), f s)))"

definition readP :: "('s \<Rightarrow> 'a) \<Rightarrow> ('s, 'a) plan" where
  "readP f = (\<lambda>s. Some (Inr (f s, s)))"

fun mapP :: "('a \<Rightarrow> ('s, 'b) plan) \<Rightarrow> 'a list \<Rightarrow> ('s, 'b list) plan" where
  "mapP f [] = doneP []"
| "mapP f (x # xs) = bindP (f x) (\<lambda>y. bindP (mapP f xs) (\<lambda>ys. doneP (y # ys)))"

fun eachP :: "('a \<Rightarrow> ('s, unit) plan) \<Rightarrow> 'a list \<Rightarrow> ('s, unit) plan" where
  "eachP f [] = doneP ()"
| "eachP f (x # xs) = bindP (f x) (\<lambda>_. eachP f xs)"

section \<open>What both variants share\<close>

definition materializationSupported :: "Graph \<Rightarrow> (nat \<rightharpoonup> Path) \<Rightarrow> bool" where
  "materializationSupported g paths \<longleftrightarrow>
     list_all (\<lambda>c. paths (c_id c) = None \<or> \<not> component_hasPolymorphicExpressions c) (scc g) \<and>
     list_all (\<lambda>e. list_all (\<lambda>k. key_Expression k = '''') (link_keys (edge_from e) @ link_keys (edge_to e))) (g_edges g)"

text \<open>The map \<^verbatim>\<open>vertexComp\<close>; reading a missing key gives 0.\<close>

definition vertexComp :: "Graph \<Rightarrow> nat \<Rightarrow> nat" where
  "vertexComp g v =
     (case find (\<lambda>(_, vs). v \<in> set vs) (componentsToOriginalVertexes g) of None \<Rightarrow> 0 | Some (c, _) \<Rightarrow> nat c)"

definition vertexes_of :: "Graph \<Rightarrow> nat \<Rightarrow> nat list" where
  "vertexes_of g c = sort (lookup_list (int c) (componentsToOriginalVertexes g))"

text \<open>The references of a vertex to tables that have a path.\<close>

definition restricted_edges :: "Graph \<Rightarrow> (nat \<rightharpoonup> Path) \<Rightarrow> nat \<Rightarrow> Edge list" where
  "restricted_edges g paths v = filter (\<lambda>e. paths (vertexComp g (edge_target e)) \<noteq> None) (graph g ! v)"

text \<open>Those that leave the component.\<close>

definition external_edges :: "Graph \<Rightarrow> (nat \<rightharpoonup> Path) \<Rightarrow> nat \<Rightarrow> nat \<Rightarrow> Edge list" where
  "external_edges g paths c v = filter (\<lambda>e. vertexComp g (edge_target e) \<noteq> c) (restricted_edges g paths v)"

definition qualifiedColRefs :: "Table \<Rightarrow> string list \<Rightarrow> string list" where
  "qualifiedColRefs t cols = List.map (column_ref t) cols"

definition quotedCols :: "string list \<Rightarrow> string list" where
  "quotedCols cols = List.map quoted cols"

definition from_refs :: "Edge \<Rightarrow> string list" where
  "from_refs e = List.map (\<lambda>k. GetKeyReference k (link_table (edge_from e))) (link_keys (edge_from e))"

definition to_cols :: "Edge \<Rightarrow> string list" where
  "to_cols e = List.map key_Name (link_keys (edge_to e))"

definition or_null_refs :: "bool \<Rightarrow> string list \<Rightarrow> string \<Rightarrow> string" where
  "or_null_refs nullable refs cond =
     (if nullable then parens (join_with '' OR '' (List.map (\<lambda>r. r @ '' IS NULL'') refs) @ '' OR '' @ cond) else cond)"

definition filtered_table :: "Table \<Rightarrow> string list \<Rightarrow> string" where
  "filtered_table t conds = '' FROM '' @ table_ref t @ '' '' @ generateWhereClause conds"

definition dump_query :: "Table \<Rightarrow> string list \<Rightarrow> string" where
  "dump_query t conds = generateSelectAllColumns t @ filtered_table t conds"

text \<open>
  The common table expressions of a component with cycles, where the tables outside the component are conditions
  of the tables inside: of the first cycle when there is one group, otherwise of each group.
\<close>

definition restricted_cte :: "Component \<Rightarrow> (32 word \<Rightarrow> string list) \<Rightarrow> cteQuery res" where
  "restricted_cte c externalConds =
     (if length (groupedCycles c) = 1
      then bindR (getOneCycleGroup c) (\<lambda>cycleGroup.
           bindR (first_of cycleGroup) (\<lambda>cycle.
             let extraConds = concat (List.map (\<lambda>t. externalConds (t_Oid t)) (getTablesFromCycle cycle))
             in bindR (foldR (\<lambda>cycle. generateRecursiveQueriesForCycle rootScopeId cycle [] [] (getOverlapMap cycleGroup)
                          extraConds) cycleGroup (newCteQuery c)) (\<lambda>cq.
                bindR (generateFilteredQueries rootScopeId cycleGroup cq)
                  (generateQueriesForVertexesInCycle rootScopeId cycleGroup))))
      else generateQueriesForMultiGroupScc externalConds rootScopeId c [] [] (newCteQuery c))"

section \<open>Tables of a scratch schema\<close>

text \<open>The statements, with the vertex they are executed for.\<close>

datatype scratch_stmt =
    CreateTable nat string
  | CreateIndex nat string
  | CountRows nat string

primrec stmt_text :: "scratch_stmt \<Rightarrow> string" where
  "stmt_text (CreateTable v q) = q"
| "stmt_text (CreateIndex v q) = q"
| "stmt_text (CountRows v q) = q"

record tempTablesMaterializer =
  tm_g :: Graph
  tm_paths :: "nat \<rightharpoonup> Path"
  tm_schema :: string
  tm_exec :: "string list \<Rightarrow> string \<Rightarrow> bool"

record TempState =
  idsTables :: "nat \<rightharpoonup> string"
  building :: "nat \<Rightarrow> bool"
  tm_log :: "scratch_stmt list"
  tm_query :: "nat \<rightharpoonup> string"

definition temp_init :: "(nat \<rightharpoonup> string) \<Rightarrow> TempState" where
  "temp_init queries = \<lparr>idsTables = Map.empty, building = (\<lambda>_. False), tm_log = [], tm_query = queries\<rparr>"

definition created :: "TempState \<Rightarrow> nat list" where
  "created s = concat (List.map (\<lambda>x. case x of CreateTable v _ \<Rightarrow> [v] | _ \<Rightarrow> []) (tm_log s))"

definition tm_execute :: "tempTablesMaterializer \<Rightarrow> scratch_stmt \<Rightarrow> (TempState, unit) plan" where
  "tm_execute m x = (\<lambda>s.
     if tm_exec m (List.map stmt_text (tm_log s)) (stmt_text x)
     then Some (Inr ((), s\<lparr>tm_log := tm_log s @ [x]\<rparr>))
     else Some (err ''error materializing subset key set''))"

definition ids_table_name :: "Table \<Rightarrow> string" where
  "ids_table_name t = shortenIdentifier (''gm_ids_'' @ t_Schema t @ ''__'' @ t_Name t)"

definition scratch_ref :: "tempTablesMaterializer \<Rightarrow> string \<Rightarrow> string" where
  "scratch_ref m name = quoted (tm_schema m) @ ''.'' @ quoted name"

definition scratchTableRef :: "tempTablesMaterializer \<Rightarrow> nat \<Rightarrow> TempState \<Rightarrow> string" where
  "scratchTableRef m v s = scratch_ref m (case idsTables s v of None \<Rightarrow> '''' | Some n \<Rightarrow> n)"

definition semi_join :: "string list \<Rightarrow> string list \<Rightarrow> string \<Rightarrow> string" where
  "semi_join refs cols tab =
     parens (commas refs) @ '' IN (SELECT '' @ commas (quotedCols cols) @ '' FROM '' @ tab @ '')''"

text \<open>\<^verbatim>\<open>slices.Compact\<close> after \<^verbatim>\<open>slices.Sort\<close>.\<close>

definition neededCols :: "tempTablesMaterializer \<Rightarrow> nat \<Rightarrow> string list" where
  "neededCols m v =
     remdups_adj (sort (t_PrimaryKey (g_tables (tm_g m) ! v) @
       concat (List.map to_cols (filter (\<lambda>e. edge_target e = v \<and> tm_paths m (vertexComp (tm_g m) (edge_source e)) \<noteq> None)
         (concat (graph (tm_g m)))))))"

definition index_stmt :: "tempTablesMaterializer \<Rightarrow> string \<Rightarrow> nat \<Rightarrow> string \<Rightarrow> string" where
  "index_stmt m name i c =
     ''CREATE INDEX '' @ quoted (shortenIdentifier (name @ ''__i'' @ show_nat i)) @ '' ON '' @ scratch_ref m name @
     '' '' @ parens (quoted c)"

definition createIdsTableAs :: "tempTablesMaterializer \<Rightarrow> nat \<Rightarrow> Table \<Rightarrow> string list \<Rightarrow> string \<Rightarrow> (TempState, unit) plan" where
  "createIdsTableAs m v t cols selectQuery =
     (let name = ids_table_name t
      in bindP (modifyP (\<lambda>s. s\<lparr>idsTables := (idsTables s)(v \<mapsto> name)\<rparr>)) (\<lambda>_.
         bindP (tm_execute m (CreateTable v (''CREATE UNLOGGED TABLE '' @ scratch_ref m name @ '' AS '' @ selectQuery))) (\<lambda>_.
         bindP (eachP (\<lambda>(i, c). tm_execute m (CreateIndex v (index_stmt m name i c))) (List.enumerate 0 cols)) (\<lambda>_.
         tm_execute m (CountRows v (''SELECT count(*) FROM '' @ scratch_ref m name))))))"

definition named_cols :: "Table \<Rightarrow> string list \<Rightarrow> string list" where
  "named_cols t cols = List.map (\<lambda>c. column_ref t c @ '' AS '' @ quoted c) cols"

definition createIdsTable :: "tempTablesMaterializer \<Rightarrow> nat \<Rightarrow> Table \<Rightarrow> string list \<Rightarrow> string list \<Rightarrow> (TempState, unit) plan" where
  "createIdsTable m v t cols conds =
     createIdsTableAs m v t cols (''SELECT DISTINCT '' @ commas (named_cols t cols) @ filtered_table t conds)"

text \<open>The operations below take \<^verbatim>\<open>ensureIdsTable\<close>, with which they are mutually recursive, as an argument.\<close>

definition tm_edgeCond :: "(nat \<Rightarrow> (TempState, unit) plan) \<Rightarrow> tempTablesMaterializer \<Rightarrow> Edge \<Rightarrow> (TempState, string) plan" where
  "tm_edgeCond ensure m e =
     bindP (ensure (edge_target e)) (\<lambda>_.
     bindP (readP (scratchTableRef m (edge_target e))) (\<lambda>tab.
     doneP (or_null_refs (edge_isNullable e) (from_refs e) (semi_join (from_refs e) (to_cols e) tab))))"

definition tm_condsForVertex ::
  "(nat \<Rightarrow> (TempState, unit) plan) \<Rightarrow> tempTablesMaterializer \<Rightarrow> nat \<Rightarrow> (TempState, string list) plan" where
  "tm_condsForVertex ensure m v =
     bindP (liftP (nth_res (g_tables (tm_g m)) v)) (\<lambda>t.
     bindP (mapP (tm_edgeCond ensure m) (restricted_edges (tm_g m) (tm_paths m) v)) (\<lambda>conds.
     doneP (t_SubsetConds t @ conds)))"

definition buildAcyclicTable ::
  "(nat \<Rightarrow> (TempState, unit) plan) \<Rightarrow> tempTablesMaterializer \<Rightarrow> nat \<Rightarrow> (TempState, unit) plan" where
  "buildAcyclicTable ensure m v =
     bindP (tm_condsForVertex ensure m v) (\<lambda>conds.
     createIdsTable m v (g_tables (tm_g m) ! v) (neededCols m v) conds)"

text \<open>\<^verbatim>\<open>externalConds[t.Oid] = append(externalConds[t.Oid], cond)\<close> for every reference that leaves the component.\<close>

definition tm_externalConds ::
  "(nat \<Rightarrow> (TempState, unit) plan) \<Rightarrow> tempTablesMaterializer \<Rightarrow> nat \<Rightarrow> nat list \<Rightarrow>
   (TempState, (32 word \<times> string) list) plan" where
  "tm_externalConds ensure m c vs =
     bindP (mapP (\<lambda>v.
         bindP (liftP (nth_res (g_tables (tm_g m)) v)) (\<lambda>t.
         bindP (mapP (tm_edgeCond ensure m) (external_edges (tm_g m) (tm_paths m) c v)) (\<lambda>conds.
         doneP (List.map (\<lambda>x. (t_Oid t, x)) conds)))) vs)
       (\<lambda>xs. doneP (concat xs))"

definition conds_of :: "(32 word \<times> string) list \<Rightarrow> 32 word \<Rightarrow> string list" where
  "conds_of xs oid = List.map snd (filter (\<lambda>(o', _). o' = oid) xs)"

definition createMemberTable :: "tempTablesMaterializer \<Rightarrow> cteQuery \<Rightarrow> nat \<Rightarrow> (TempState, unit) plan" where
  "createMemberTable m cq v =
     bindP (liftP (nth_res (g_tables (tm_g m)) v)) (\<lambda>t.
       if length (t_PrimaryKey t) = 0 then doneP ()
       else let cols = neededCols m v
            in createIdsTableAs m v t cols
                 (''SELECT DISTINCT * FROM '' @ parens (generateQuerySelect cq t (named_cols t cols)) @ '' AS __gm_keys''))"

definition buildCyclicComponent ::
  "(nat \<Rightarrow> (TempState, unit) plan) \<Rightarrow> tempTablesMaterializer \<Rightarrow> Component \<Rightarrow> (TempState, unit) plan" where
  "buildCyclicComponent ensure m c =
     (let vs = vertexes_of (tm_g m) (c_id c)
      in bindP (modifyP (\<lambda>s. s\<lparr>building := (\<lambda>v. v \<in> set vs \<or> building s v)\<rparr>)) (\<lambda>_.
         bindP (tm_externalConds ensure m (c_id c) vs) (\<lambda>externalConds.
         bindP (liftP (restricted_cte c (conds_of externalConds))) (\<lambda>cq.
         bindP (eachP (createMemberTable m cq) vs) (\<lambda>_.
         modifyP (\<lambda>s. s\<lparr>building := (\<lambda>v. v \<notin> set vs \<and> building s v)\<rparr>))))))"

fun ensureIdsTable :: "nat \<Rightarrow> tempTablesMaterializer \<Rightarrow> nat \<Rightarrow> (TempState, unit) plan" where
  "ensureIdsTable 0 m v = (\<lambda>s. None)"
| "ensureIdsTable (Suc n) m v = (\<lambda>s.
     if idsTables s v \<noteq> None then doneP () s
     else if building s v then doneP () s
     else bindP (liftP (nth_res (scc (tm_g m)) (vertexComp (tm_g m) v)))
            (\<lambda>c. if hasCycle c then buildCyclicComponent (ensureIdsTable n m) m c
                 else buildAcyclicTable (ensureIdsTable n m) m v) s)"

definition tm_rewriteCyclicTableQuery :: "nat \<Rightarrow> tempTablesMaterializer \<Rightarrow> nat \<Rightarrow> Table \<Rightarrow> (TempState, unit) plan" where
  "tm_rewriteCyclicTableQuery n m v t =
     (if length (t_PrimaryKey t) = 0 then doneP ()
      else bindP (ensureIdsTable n m v) (\<lambda>_.
           bindP (readP (scratchTableRef m v)) (\<lambda>tab.
           modifyP (\<lambda>s. s\<lparr>tm_query := (tm_query s)(v \<mapsto>
             dump_query t [semi_join (qualifiedColRefs t (t_PrimaryKey t)) (t_PrimaryKey t) tab])\<rparr>))))"

definition tm_rewriteComponent :: "nat \<Rightarrow> tempTablesMaterializer \<Rightarrow> nat \<Rightarrow> (TempState, unit) plan" where
  "tm_rewriteComponent n m compIdx =
     bindP (liftP (nth_res (scc (tm_g m)) compIdx)) (\<lambda>c.
       if hasCycle c then eachP (\<lambda>(v, t). tm_rewriteCyclicTableQuery n m v t) (c_tables c)
       else bindP (liftP (getOneTable c)) (\<lambda>t.
            bindP (liftP (first_of (lookup_list (int compIdx) (componentsToOriginalVertexes (tm_g m))))) (\<lambda>v.
            bindP (tm_condsForVertex (ensureIdsTable n m) m v) (\<lambda>conds.
            modifyP (\<lambda>s. s\<lparr>tm_query := (tm_query s)(v \<mapsto> dump_query t conds)\<rparr>)))))"

definition MaterializeSubsetQueriesTempTables ::
  "nat \<Rightarrow> tempTablesMaterializer \<Rightarrow> nat list \<Rightarrow> (TempState, bool) plan" where
  "MaterializeSubsetQueriesTempTables n m compIdxs =
     (if \<not> materializationSupported (tm_g m) (tm_paths m) then doneP False
      else bindP (eachP (tm_rewriteComponent n m) compIdxs) (\<lambda>_. doneP True))"

end
