(* ===== verification/SubsetValues.thy ===== *)
theory SubsetValues
  imports SubsetMaterialize
begin

text \<open>
  Key sets that are fetched and written into the queries, \<^verbatim>\<open>subset/materialize.go\<close>. The rows a query returns, or
  its error, are a parameter; a value is its text or \<open>None\<close> for NULL. The memo tables of the code are the state.
\<close>

definition inlineValuesLimit :: nat where "inlineValuesLimit = 10000"

record materializer =
  mt_g :: Graph
  mt_paths :: "nat \<rightharpoonup> Path"
  mt_rows :: "string list \<Rightarrow> string \<Rightarrow> string option list list res"

record MatState =
  mat_conds :: "nat \<rightharpoonup> string list"
  mat_vals :: "string \<rightharpoonup> string list list"
  componentCtes :: "nat \<rightharpoonup> cteQuery"
  mat_log :: "string list"
  mat_query :: "nat \<rightharpoonup> string"

definition mat_init :: "(nat \<rightharpoonup> string) \<Rightarrow> MatState" where
  "mat_init queries =
     \<lparr>mat_conds = Map.empty, mat_vals = Map.empty, componentCtes = Map.empty, mat_log = [], mat_query = queries\<rparr>"

section \<open>Literal values in a condition\<close>

definition lit_quote :: char where "lit_quote = CHR 0x27"

text \<open>\<^verbatim>\<open>strings.ReplaceAll(v, "'", "''")\<close> between quotes.\<close>

definition quoteSqlLiteral :: "string \<Rightarrow> string" where
  "quoteSqlLiteral v = lit_quote # concat (List.map (\<lambda>c. if c = lit_quote then [lit_quote, lit_quote] else [c]) v) @ [lit_quote]"

definition columnTypeName :: "Table \<Rightarrow> string \<Rightarrow> string res" where
  "columnTypeName t colName =
     (case find (\<lambda>c. col_Name c = colName) (t_Columns t) of
        None \<Rightarrow> err ''cannot find column'' | Some c \<Rightarrow> Inr (col_TypeName c))"

definition typed_literals :: "string list \<Rightarrow> string list \<Rightarrow> string" where
  "typed_literals typeNames row =
     parens (join_with '','' (List.map (\<lambda>(v, ty). quoteSqlLiteral v @ ''::'' @ ty) (zip row typeNames)))"

definition inlineInCond :: "string list \<Rightarrow> Table \<Rightarrow> string list \<Rightarrow> string list list \<Rightarrow> bool \<Rightarrow> string res" where
  "inlineInCond fromRefs refTable refCols vals nullable =
     bindR
       (if length vals = 0 then Inr ''FALSE''
        else if length refCols = 1
        then bindR (columnTypeName refTable (hd refCols)) (\<lambda>typeName.
             bindR (mapR (\<lambda>row. bindR (first_of row) (\<lambda>v. Inr (quoteSqlLiteral v))) vals) (\<lambda>items.
             bindR (first_of fromRefs) (\<lambda>ref.
             Inr (ref @ '' = ANY(ARRAY['' @ join_with '','' items @ '']::'' @ typeName @ ''[])''))))
        else bindR (mapR (columnTypeName refTable) refCols) (\<lambda>typeNames.
             bindR (mapR (\<lambda>row. if length row > length typeNames then panic ''index out of range''
                                else Inr (typed_literals typeNames row)) vals) (\<lambda>rowItems.
             Inr (parens (commas fromRefs) @ '' IN '' @ parens (join_with '','' rowItems)))))
       (\<lambda>cond. Inr (or_null_refs nullable fromRefs cond))"

section \<open>Fetching the values\<close>

definition cache_key :: "Table \<Rightarrow> string list \<Rightarrow> string" where
  "cache_key t cols = show_nat (unat (t_Oid t)) @ '':'' @ join_with '','' cols"

text \<open>Rows with a NULL are left out; a row of another length cannot be scanned.\<close>

definition scan_rows :: "string list \<Rightarrow> string option list list \<Rightarrow> string list list res" where
  "scan_rows cols rows =
     (if list_all (\<lambda>row. length row = length cols) rows
      then Inr (List.map (List.map the) (filter (\<lambda>row. None \<notin> set row) rows))
      else err ''error scanning materialized subset keys'')"

definition fetch :: "materializer \<Rightarrow> string list \<Rightarrow> string \<Rightarrow> (MatState, string list list) plan" where
  "fetch m cols query = (\<lambda>s.
     Some (bindR (mt_rows m (mat_log s) query) (\<lambda>rows.
           bindR (scan_rows cols rows) (\<lambda>vals. Inr (vals, s\<lparr>mat_log := mat_log s @ [query]\<rparr>)))))"

definition text_col :: "string \<Rightarrow> string" where
  "text_col c = quoted c @ ''::text''"

text \<open>The operations take those they are mutually recursive with as arguments.\<close>

definition values_body ::
  "(nat \<Rightarrow> (MatState, string list) plan) \<Rightarrow> (Component \<Rightarrow> (MatState, cteQuery) plan) \<Rightarrow> materializer \<Rightarrow>
   nat \<Rightarrow> Table \<Rightarrow> string list \<Rightarrow> (MatState, string list list) plan" where
  "values_body condsFor cteFor m v t cols =
     bindP (readP (\<lambda>s. mat_vals s (cache_key t cols))) (\<lambda>cached. case cached of
       Some vals \<Rightarrow> doneP vals
     | None \<Rightarrow>
         bindP (liftP (nth_res (scc (mt_g m)) (vertexComp (mt_g m) v))) (\<lambda>comp.
         bindP (if hasCycle comp
                then bindP (cteFor comp) (\<lambda>cq.
                     doneP (''SELECT DISTINCT '' @ commas (List.map text_col cols) @ '' FROM '' @
                       parens (cte_generateQuery cq t) @ '' AS __mat_src''))
                else bindP (condsFor v) (\<lambda>conds.
                     doneP (''SELECT DISTINCT '' @ commas (List.map (\<lambda>c. column_ref t c @ ''::text'') cols) @
                       filtered_table t conds))) (\<lambda>query.
         bindP (fetch m cols query) (\<lambda>vals.
         bindP (modifyP (\<lambda>s. s\<lparr>mat_vals := (mat_vals s)(cache_key t cols \<mapsto> vals)\<rparr>)) (\<lambda>_. doneP vals)))))"

definition edgeCond_body ::
  "(nat \<Rightarrow> Table \<Rightarrow> string list \<Rightarrow> (MatState, string list list) plan) \<Rightarrow> (nat \<Rightarrow> (MatState, string list) plan) \<Rightarrow>
   (Component \<Rightarrow> (MatState, cteQuery) plan) \<Rightarrow> materializer \<Rightarrow> Edge \<Rightarrow> (MatState, string) plan" where
  "edgeCond_body valuesOf condsFor cteFor m e =
     (let t = link_table (edge_to e); cols = to_cols e
      in bindP (valuesOf (edge_target e) t cols) (\<lambda>vals.
         if length vals \<le> inlineValuesLimit
         then liftP (inlineInCond (from_refs e) t cols vals (edge_isNullable e))
         else bindP (liftP (nth_res (scc (mt_g m)) (vertexComp (mt_g m) (edge_target e)))) (\<lambda>comp.
              bindP (if hasCycle comp
                     then bindP (cteFor comp) (\<lambda>cq. doneP (generateQuerySelect cq t (qualifiedColRefs t cols)))
                     else bindP (condsFor (edge_target e)) (\<lambda>conds.
                          doneP (''SELECT '' @ commas (qualifiedColRefs t cols) @ filtered_table t conds))) (\<lambda>subQuery.
              doneP (or_null_refs (edge_isNullable e) (from_refs e)
                (parens (commas (from_refs e)) @ '' IN '' @ parens subQuery))))))"

definition condsForVertex_body ::
  "(Edge \<Rightarrow> (MatState, string) plan) \<Rightarrow> materializer \<Rightarrow> nat \<Rightarrow> (MatState, string list) plan" where
  "condsForVertex_body edgeCond m v =
     bindP (readP (\<lambda>s. mat_conds s v)) (\<lambda>memo. case memo of
       Some conds \<Rightarrow> doneP conds
     | None \<Rightarrow>
         bindP (liftP (nth_res (g_tables (mt_g m)) v)) (\<lambda>t.
         bindP (mapP edgeCond (restricted_edges (mt_g m) (mt_paths m) v)) (\<lambda>conds.
         bindP (modifyP (\<lambda>s. s\<lparr>mat_conds := (mat_conds s)(v \<mapsto> t_SubsetConds t @ conds)\<rparr>)) (\<lambda>_.
         doneP (t_SubsetConds t @ conds)))))"

definition externalConds_body ::
  "(Edge \<Rightarrow> (MatState, string) plan) \<Rightarrow> materializer \<Rightarrow> nat \<Rightarrow> nat list \<Rightarrow> (MatState, (32 word \<times> string) list) plan" where
  "externalConds_body edgeCond m c vs =
     bindP (mapP (\<lambda>v.
         bindP (liftP (nth_res (g_tables (mt_g m)) v)) (\<lambda>t.
         bindP (mapP edgeCond (external_edges (mt_g m) (mt_paths m) c v)) (\<lambda>conds.
         doneP (List.map (\<lambda>x. (t_Oid t, x)) conds)))) vs)
       (\<lambda>xs. doneP (concat xs))"

definition componentCte_body ::
  "(Edge \<Rightarrow> (MatState, string) plan) \<Rightarrow> materializer \<Rightarrow> Component \<Rightarrow> (MatState, cteQuery) plan" where
  "componentCte_body edgeCond m c =
     bindP (readP (\<lambda>s. componentCtes s (c_id c))) (\<lambda>memo. case memo of
       Some cq \<Rightarrow> doneP cq
     | None \<Rightarrow>
         bindP (externalConds_body edgeCond m (c_id c) (vertexes_of (mt_g m) (c_id c))) (\<lambda>externalConds.
         bindP (liftP (restricted_cte c (conds_of externalConds))) (\<lambda>cq.
         bindP (modifyP (\<lambda>s. s\<lparr>componentCtes := (componentCtes s)(c_id c \<mapsto> cq)\<rparr>)) (\<lambda>_. doneP cq))))"

fun mat_values :: "nat \<Rightarrow> materializer \<Rightarrow> nat \<Rightarrow> Table \<Rightarrow> string list \<Rightarrow> (MatState, string list list) plan"
  and condsForVertex :: "nat \<Rightarrow> materializer \<Rightarrow> nat \<Rightarrow> (MatState, string list) plan"
  and componentCte :: "nat \<Rightarrow> materializer \<Rightarrow> Component \<Rightarrow> (MatState, cteQuery) plan" where
  "mat_values 0 m v t cols = (\<lambda>s. None)"
| "mat_values (Suc n) m v t cols = values_body (condsForVertex n m) (componentCte n m) m v t cols"
| "condsForVertex 0 m v = (\<lambda>s. None)"
| "condsForVertex (Suc n) m v =
     condsForVertex_body (edgeCond_body (mat_values n m) (condsForVertex n m) (componentCte n m) m) m v"
| "componentCte 0 m c = (\<lambda>s. None)"
| "componentCte (Suc n) m c =
     componentCte_body (edgeCond_body (mat_values n m) (condsForVertex n m) (componentCte n m) m) m c"

definition edgeCond :: "nat \<Rightarrow> materializer \<Rightarrow> Edge \<Rightarrow> (MatState, string) plan" where
  "edgeCond n m e = edgeCond_body (mat_values n m) (condsForVertex n m) (componentCte n m) m e"

section \<open>The queries of the tables\<close>

definition set_query_text :: "nat \<Rightarrow> string \<Rightarrow> (MatState, unit) plan" where
  "set_query_text v q = modifyP (\<lambda>s. s\<lparr>mat_query := (mat_query s)(v \<mapsto> q)\<rparr>)"

definition rewriteCyclicTableQuery :: "nat \<Rightarrow> materializer \<Rightarrow> nat \<Rightarrow> Table \<Rightarrow> (MatState, unit) plan" where
  "rewriteCyclicTableQuery n m v t =
     (if length (t_PrimaryKey t) = 0 then doneP ()
      else bindP (mat_values n m v t (t_PrimaryKey t)) (\<lambda>vals.
           if length vals > inlineValuesLimit
           then bindP (liftP (nth_res (scc (mt_g m)) (vertexComp (mt_g m) v))) (\<lambda>comp.
                bindP (componentCte n m comp) (\<lambda>cq. set_query_text v (cte_generateQuery cq t)))
           else bindP (liftP (inlineInCond (qualifiedColRefs t (t_PrimaryKey t)) t (t_PrimaryKey t) vals False)) (\<lambda>cond.
                set_query_text v (dump_query t [cond]))))"

definition rewriteComponent :: "nat \<Rightarrow> materializer \<Rightarrow> nat \<Rightarrow> (MatState, unit) plan" where
  "rewriteComponent n m compIdx =
     bindP (liftP (nth_res (scc (mt_g m)) compIdx)) (\<lambda>c.
       if hasCycle c then eachP (\<lambda>(v, t). rewriteCyclicTableQuery n m v t) (c_tables c)
       else bindP (liftP (getOneTable c)) (\<lambda>t.
            bindP (liftP (first_of (lookup_list (int compIdx) (componentsToOriginalVertexes (mt_g m))))) (\<lambda>v.
            bindP (condsForVertex n m v) (\<lambda>conds. set_query_text v (dump_query t conds)))))"

definition MaterializeSubsetQueries :: "nat \<Rightarrow> materializer \<Rightarrow> nat list \<Rightarrow> (MatState, unit) plan" where
  "MaterializeSubsetQueries n m compIdxs =
     (if \<not> materializationSupported (mt_g m) (mt_paths m) then doneP ()
      else eachP (rewriteComponent n m) compIdxs)"

end
