(* ===== verification/SubsetMaterializeProps.thy ===== *)
theory SubsetMaterializeProps
  imports SubsetMaterialize SubsetQueriesProps
begin

text \<open>
  The key-set tables: the walk over the references ends, builds every table once and after the tables it reads,
  and rewrites the query of every restricted table. First rules for the outcome of steps: \<open>ends m s Q\<close> says that
  the step \<open>m\<close> returns from the state \<open>s\<close>, without an error, with a result and a state that satisfy \<open>Q\<close>.
\<close>

section \<open>Outcomes of steps\<close>

named_theorems ends_rules \<open>how a step ends\<close>

definition ends :: "('s, 'a) plan \<Rightarrow> 's \<Rightarrow> ('a \<Rightarrow> 's \<Rightarrow> bool) \<Rightarrow> bool" where
  "ends m s Q \<longleftrightarrow> (\<exists>a s'. m s = Some (Inr (a, s')) \<and> Q a s')"

lemma ends_done [ends_rules]: "Q a s \<Longrightarrow> ends (doneP a) s Q"
  by (simp add: ends_def doneP_def)

lemma ends_lift [ends_rules]: "r = Inr a \<Longrightarrow> Q a s \<Longrightarrow> ends (liftP r) s Q"
  by (simp add: ends_def liftP_def)

lemma ends_modify [ends_rules]: "Q () (f s) \<Longrightarrow> ends (modifyP f) s Q"
  by (simp add: ends_def modifyP_def)

lemma ends_read [ends_rules]: "Q (f s) s \<Longrightarrow> ends (readP f) s Q"
  by (simp add: ends_def readP_def)

lemma ends_bind [ends_rules]: "ends m s (\<lambda>a s'. ends (f a) s' Q) \<Longrightarrow> ends (bindP m f) s Q"
  by (auto simp: ends_def bindP_def)

lemma ends_mono: "ends m s P \<Longrightarrow> (\<And>a s'. P a s' \<Longrightarrow> Q a s') \<Longrightarrow> ends m s Q"
  by (auto simp: ends_def)

text \<open>A loop whose steps give \<open>h x\<close>, keep an invariant and move up a preorder that keeps what was reached.\<close>

lemma ends_mapP:
  assumes step: "\<And>x s. x \<in> set xs \<Longrightarrow> I s \<Longrightarrow> ends (f x) s (\<lambda>y s'. y = h x \<and> I s' \<and> le s s' \<and> P x s')"
    and refl: "\<And>s. le s s" and trans: "\<And>s t u. le s t \<Longrightarrow> le t u \<Longrightarrow> le s u"
    and keep: "\<And>x s t. P x s \<Longrightarrow> le s t \<Longrightarrow> P x t"
  shows "I s \<Longrightarrow> ends (mapP f xs) s (\<lambda>ys s'. ys = List.map h xs \<and> I s' \<and> le s s' \<and> (\<forall>x \<in> set xs. P x s'))"
  using step
proof (induction xs arbitrary: s)
  case Nil
  then show ?case by (auto intro!: ends_done simp: refl)
next
  case (Cons x xs)
  obtain s1 where s1: "f x s = Some (Inr (h x, s1))" "I s1" "le s s1" "P x s1"
    using Cons.prems(2) [of x s] Cons.prems(1) by (auto simp: ends_def)
  from Cons.IH [OF s1(2)] Cons.prems(2) obtain s2 where
    s2: "mapP f xs s1 = Some (Inr (List.map h xs, s2))" "I s2" "le s1 s2" "\<forall>x \<in> set xs. P x s2"
    by (auto simp: ends_def)
  have "P x s2" "le s s2" using keep [OF s1(4) s2(3)] trans [OF s1(3) s2(3)] by simp_all
  with s1(1) s2 show ?case by (simp add: ends_def bindP_def doneP_def)
qed

lemma ends_eachP:
  assumes step: "\<And>x s. x \<in> set xs \<Longrightarrow> I s \<Longrightarrow> ends (f x) s (\<lambda>_ s'. I s' \<and> le s s' \<and> P x s')"
    and refl: "\<And>s. le s s" and trans: "\<And>s t u. le s t \<Longrightarrow> le t u \<Longrightarrow> le s u"
    and keep: "\<And>x s t. P x s \<Longrightarrow> le s t \<Longrightarrow> P x t"
  shows "I s \<Longrightarrow> ends (eachP f xs) s (\<lambda>_ s'. I s' \<and> le s s' \<and> (\<forall>x \<in> set xs. P x s'))"
  using step
proof (induction xs arbitrary: s)
  case Nil
  then show ?case by (auto intro!: ends_done simp: refl)
next
  case (Cons x xs)
  obtain s1 where s1: "f x s = Some (Inr ((), s1))" "I s1" "le s s1" "P x s1"
    using Cons.prems(2) [of x s] Cons.prems(1) by (auto simp: ends_def)
  from Cons.IH [OF s1(2)] Cons.prems(2) obtain s2 where
    s2: "eachP f xs s1 = Some (Inr ((), s2))" "I s2" "le s1 s2" "\<forall>x \<in> set xs. P x s2"
    by (auto simp: ends_def)
  have "P x s2" "le s s2" using keep [OF s1(4) s2(3)] trans [OF s1(3) s2(3)] by simp_all
  with s1(1) s2 show ?case by (simp add: ends_def bindP_def)
qed

section \<open>Components of a built graph\<close>

definition listed_components :: "Graph \<Rightarrow> bool" where
  "listed_components g \<longleftrightarrow>
     componentsToOriginalVertexes g = fold (\<lambda>(v, c). append_at c v) (List.enumerate 0 (visited g)) []"

lemma NewGraph_listed: "NewGraph refs tables vr = Inr g \<Longrightarrow> listed_components g"
  by (auto simp: NewGraph_def buildCondensedGraph_def listed_components_def bindR_eq_Inr Let_def split: prod.splits)

lemma listed_part: "listed_components g \<Longrightarrow> lookup_list (int c) (componentsToOriginalVertexes g) = part (visited g) c"
  unfolding listed_components_def part_def by (simp add: component_vertexes) (simp add: lookup_list_def)

lemma vertexes_of_part: "listed_components g \<Longrightarrow> vertexes_of g c = part (visited g) c"
  by (simp add: vertexes_of_def listed_part sorted_sort_id part_def sorted_wrt_filter)

lemma distinct_listed: "distinct (List.map fst m) \<Longrightarrow> distinct (List.map fst (fold (\<lambda>(v, c). append_at c v) xs m))"
  by (induction xs arbitrary: m) (auto intro: distinct_append_at)

lemma vertexComp_eq:
  assumes l: "listed_components g" and v: "v < length (visited g)" "visited g ! v = int c"
  shows "vertexComp g v = c"
proof -
  let ?m = "componentsToOriginalVertexes g"
  have d: "distinct (List.map fst ?m)" using l distinct_listed [of "[]"] by (simp add: listed_components_def)
  have look: "lookup_list k ?m = [u \<leftarrow> [0..<length (visited g)]. visited g ! u = k]" for k
    using l unfolding listed_components_def by (simp add: component_vertexes) (simp add: lookup_list_def)
  have in_map: "k = int c" if "(k, vs) \<in> set ?m" "v \<in> set vs" for k vs
  proof -
    have "lookup_list k ?m = vs" using d that(1) by (simp add: lookup_list_def)
    with that(2) v(2) look [of k] show ?thesis by auto
  qed
  have "v \<in> set (lookup_list (int c) ?m)" using v by (simp add: look)
  then obtain vs where vs: "map_of ?m (int c) = Some vs" "v \<in> set vs"
    unfolding lookup_list_def by (cases "map_of ?m (int c)") auto
  then have "find (\<lambda>(_, vs). v \<in> set vs) ?m \<noteq> None"
    by (auto simp: find_None_iff dest: map_of_SomeD)
  then obtain k ws where f: "find (\<lambda>(_, vs). v \<in> set vs) ?m = Some (k, ws)" by auto
  then obtain i where "i < length ?m" "?m ! i = (k, ws)" "v \<in> set ws" by (auto simp: find_Some_iff)
  then have "(k, ws) \<in> set ?m" "v \<in> set ws" by (metis nth_mem, simp)
  then have "k = int c" by (rule in_map)
  with f show ?thesis by (simp add: vertexComp_def)
qed

text \<open>A vertex, its component, and its references.\<close>

lemma vertex_component:
  assumes g: "condensation_ok g" "listed_components g" and v: "v < length (g_tables g)"
  shows "visited g ! v = int (vertexComp g v)" "vertexComp g v < sscCount g" "v \<in> set (part (visited g) (vertexComp g v))"
proof -
  have l: "length (visited g) = length (g_tables g)" "int ` {..<sscCount g} = set (visited g)"
    using g(1) by (simp_all add: condensation_ok_def graph_ok_def)
  then have "visited g ! v \<in> int ` {..<sscCount g}" using v by simp
  then obtain c where c: "c < sscCount g" "visited g ! v = int c" by auto
  with vertexComp_eq [OF g(2), of v c] v l(1)
  show "visited g ! v = int (vertexComp g v)" "vertexComp g v < sscCount g" "v \<in> set (part (visited g) (vertexComp g v))"
    by (auto simp: part_def)
qed

lemma part_component:
  assumes g: "condensation_ok g" "listed_components g" and v: "v \<in> set (part (visited g) c)"
  shows "v < length (g_tables g)" "vertexComp g v = c"
  using v g vertexComp_eq [OF g(2), of v c] by (auto simp: part_def condensation_ok_def graph_ok_def)

lemma graph_edges:
  assumes g: "condensation_ok g" "listed_components g" and v: "v < length (g_tables g)" and e: "e \<in> set (graph g ! v)"
  shows "edge_source e = v" "edge_target e < length (g_tables g)" "vertexComp g v \<le> vertexComp g (edge_target e)"
    "e \<in> set (g_edges g)"
proof -
  have ok: "graph_ok g" using g(1) by (simp add: condensation_ok_def)
  then have l: "length (graph g) = length (g_tables g)" "graph_wf (graph g)"
    by (simp_all add: graph_ok_def graphs_match_def)
  have ix: "edge_source e = v" "edge_target e = edge_idx e" using ok v e l(1) by (auto simp: graph_ok_def)
  have t: "edge_idx e < length (g_tables g)" using l v e by (auto simp: graph_wf_def)
  have "\<forall>u < length (graph g). \<forall>e \<in> set (graph g ! u). visited g ! u \<le> visited g ! edge_idx e"
    using g(1) unfolding condensation_ok_def by blast
  then have "visited g ! v \<le> visited g ! edge_idx e" using v e l(1) by simp
  with vertex_component(1) [OF g v] vertex_component(1) [OF g t]
  show "vertexComp g v \<le> vertexComp g (edge_target e)" by (simp add: ix)
  show "edge_source e = v" "edge_target e < length (g_tables g)" using ix t by simp_all
  show "e \<in> set (g_edges g)" using ok v e l(1) by (auto simp: graph_ok_def)
qed

lemma acyclic_no_loop:
  assumes g: "condensation_ok g" "listed_components g" and v: "v < length (g_tables g)"
    and a: "\<not> hasCycle (scc g ! vertexComp g v)" and e: "e \<in> set (graph g ! v)"
  shows "vertexComp g v < vertexComp g (edge_target e)"
proof (rule ccontr)
  let ?i = "vertexComp g v"
  let ?cg = "component_graph (graph g) (part (visited g) ?i)"
  assume "\<not> ?i < vertexComp g (edge_target e)"
  with graph_edges [OF g v e] have t: "vertexComp g (edge_target e) = ?i" "edge_target e < length (g_tables g)" by simp_all
  note vc = vertex_component [OF g v]
  have single: "\<exists>w. part (visited g) ?i = [w]" by (rule acyclic_single [OF g(1) vc(2) a])
  have "edge_target e \<in> set (part (visited g) ?i)" using vertex_component(3) [OF g t(2)] t(1) by simp
  with single vc(3) have te: "edge_target e = v" by auto
  have ok: "graph_ok g" and len: "length (visited g) = length (graph g)"
    and built: "NewComponent ?i ?cg (c_tables (scc g ! ?i)) = Inr (scc g ! ?i)"
    using g(1) vc(2) by (auto simp: condensation_ok_def graph_ok_def)
  have none: "\<forall>x \<in> vertices ?cg. \<not> (points_to ?cg)\<^sup>+\<^sup>+ x x"
    using NewComponent_total [OF part_cg_wf [OF ok len], of ?i ?i "c_tables (scc g ! ?i)"] built a by auto
  have "e \<in> set (edges_at ?cg v)" using e te vc(3) by (simp add: component_graph_edges)
  moreover have "edge_idx e = v" using ok e v te len by (auto simp: graph_ok_def)
  ultimately have "points_to ?cg v v" by (auto simp: points_to_def)
  moreover have "v \<in> vertices ?cg" using vc(3) by (simp add: vertices_def component_graph_def image_image)
  ultimately show False using none by blast
qed


text \<open>The number of a component, and its tables.\<close>

lemma NewComponent_id:
  assumes "NewComponent i cg tables = Inr c"
  shows "c_id c = i"
proof -
  obtain c0 where f: "findCycles \<lparr>c_id = i, componentGraph = cg, c_tables = tables, cycles = [], cyclesIdents = [],
         groupedCycles = [], groupedCyclesGraph = []\<rparr> = Inr c0" and b: "buildCyclesGraph (groupCycles c0) = Inr c"
    using assms by (auto simp: NewComponent_def bindR_eq_Inr)
  have 0: "c_id (groupCycles c0) = i" using f by (auto simp: findCycles_def bindR_eq_Inr groupCycles_def)
  have link: "c_id (snd y) = c_id (snd x)" if "link_groups a b x = Inr y" for a b x y
    using that by (auto simp: link_groups_def bindR_eq_Inr split: prod.splits if_splits)
  obtain k where "foldR (\<lambda>gI. foldR (\<lambda>gJ. link_groups gI gJ) (groupedCycles (groupCycles c0))) (groupedCycles (groupCycles c0))
      (0, groupCycles c0\<lparr>groupedCyclesGraph := []\<rparr>) = Inr (k, c)"
    using b by (auto simp: buildCyclesGraph_def bindR_eq_Inr)
  moreover have "c_id (snd y) = i" if "foldR (\<lambda>gJ. link_groups gI gJ) gs x = Inr y" "c_id (snd x) = i" for gI gs x y
    using foldR_invariant [where P = "\<lambda>x. c_id (snd x) = i", OF that] link by metis
  moreover have "c_id (snd (0, groupCycles c0\<lparr>groupedCyclesGraph := []\<rparr>)) = i" using 0 by simp
  ultimately have "c_id (snd (k, c)) = i"
    using foldR_invariant [where P = "\<lambda>x. c_id (snd x) = i"] by blast
  then show ?thesis by simp
qed

section \<open>Each table of keys once, after those it reads\<close>

definition tm_ok :: "tempTablesMaterializer \<Rightarrow> bool" where
  "tm_ok m \<longleftrightarrow> plain_graph (tm_g m) \<and> listed_components (tm_g m) \<and>
     (\<forall>c. tm_paths m c \<noteq> None \<longrightarrow> c < sscCount (tm_g m)) \<and> (\<forall>h q. tm_exec m h q) \<and>
     (\<forall>v < length (g_tables (tm_g m)). tm_paths m (vertexComp (tm_g m) v) \<noteq> None \<longrightarrow>
        hasCycle (scc (tm_g m) ! vertexComp (tm_g m) v) \<longrightarrow> t_PrimaryKey (g_tables (tm_g m) ! v) \<noteq> [])"

lemma tm_okD:
  assumes "tm_ok m"
  shows "plain_graph (tm_g m)" "condensation_ok (tm_g m)" "listed_components (tm_g m)" "tm_exec m h q"
    "tm_paths m c \<noteq> None \<Longrightarrow> c < sscCount (tm_g m)"
    "v < length (g_tables (tm_g m)) \<Longrightarrow> tm_paths m (vertexComp (tm_g m) v) \<noteq> None \<Longrightarrow>
     hasCycle (scc (tm_g m) ! vertexComp (tm_g m) v) \<Longrightarrow> t_PrimaryKey (g_tables (tm_g m) ! v) \<noteq> []"
  using assms by (auto simp: tm_ok_def plain_graph_def)

abbreviation comp_of :: "tempTablesMaterializer \<Rightarrow> nat \<Rightarrow> nat" where
  "comp_of m v \<equiv> vertexComp (tm_g m) v"

definition wanted :: "tempTablesMaterializer \<Rightarrow> nat \<Rightarrow> bool" where
  "wanted m v \<longleftrightarrow> v < length (g_tables (tm_g m)) \<and> tm_paths m (comp_of m v) \<noteq> None"

definition members :: "tempTablesMaterializer \<Rightarrow> nat \<Rightarrow> nat list" where
  "members m c = part (visited (tm_g m)) c"

definition leaving :: "tempTablesMaterializer \<Rightarrow> nat \<Rightarrow> Edge list" where
  "leaving m v = external_edges (tm_g m) (tm_paths m) (comp_of m v) v"

definition ids_entry_ok :: "tempTablesMaterializer \<Rightarrow> TempState \<Rightarrow> nat \<Rightarrow> bool" where
  "ids_entry_ok m s v \<longleftrightarrow> wanted m v \<and> idsTables s v = Some (ids_table_name (g_tables (tm_g m) ! v)) \<and>
     (\<forall>e \<in> set (leaving m v). before (edge_target e) v (created s)) \<and> set (members m (comp_of m v)) \<subseteq> set (created s)"

definition tm_inv :: "tempTablesMaterializer \<Rightarrow> TempState \<Rightarrow> bool" where
  "tm_inv m s \<longleftrightarrow> distinct (created s) \<and> (\<forall>v. idsTables s v \<noteq> None \<longleftrightarrow> v \<in> set (created s)) \<and>
     (\<forall>v \<in> set (created s). ids_entry_ok m s v)"

lemma tm_inv_ids: "tm_inv m s \<Longrightarrow> idsTables s v = None \<longleftrightarrow> v \<notin> set (created s)"
  unfolding tm_inv_def by blast

text \<open>Only tables of components from number \<open>k\<close> on were added.\<close>

definition tm_le :: "tempTablesMaterializer \<Rightarrow> nat \<Rightarrow> TempState \<Rightarrow> TempState \<Rightarrow> bool" where
  "tm_le m k s s' \<longleftrightarrow> (\<exists>ws. created s' = created s @ ws \<and> (\<forall>w \<in> set ws. k \<le> comp_of m w)) \<and>
     building s' = building s \<and> tm_query s' = tm_query s"

lemma tm_le_refl: "tm_le m k s s"
  by (simp add: tm_le_def)

lemma tm_le_trans: "tm_le m k s t \<Longrightarrow> tm_le m k t u \<Longrightarrow> tm_le m k s u"
  unfolding tm_le_def by (elim conjE exE) (auto intro!: exI)

lemma tm_le_mono: "tm_le m k s t \<Longrightarrow> j \<le> k \<Longrightarrow> tm_le m j s t"
  unfolding tm_le_def by (meson order.trans)

lemma tm_le_created: "tm_le m k s t \<Longrightarrow> v \<in> set (created s) \<Longrightarrow> v \<in> set (created t)"
  by (auto simp: tm_le_def)

text \<open>What a reference becomes in the query of its table.\<close>

definition scratch_cond :: "tempTablesMaterializer \<Rightarrow> Edge \<Rightarrow> string" where
  "scratch_cond m e = or_null_refs (edge_isNullable e) (from_refs e)
     (semi_join (from_refs e) (to_cols e) (scratch_ref m (ids_table_name (g_tables (tm_g m) ! edge_target e))))"

text \<open>\<open>ensures m k ens\<close>: the call builds the table of a wanted vertex of a component above number \<open>k\<close>.\<close>

definition ensures :: "tempTablesMaterializer \<Rightarrow> nat \<Rightarrow> (nat \<Rightarrow> (TempState, unit) plan) \<Rightarrow> bool" where
  "ensures m k ens \<longleftrightarrow> (\<forall>w s. wanted m w \<longrightarrow> k < comp_of m w \<longrightarrow> tm_inv m s \<longrightarrow>
     (\<forall>u. building s u \<longrightarrow> comp_of m u \<le> k) \<longrightarrow>
     ends (ens w) s (\<lambda>_ s'. tm_inv m s' \<and> tm_le m (comp_of m w) s s' \<and> w \<in> set (created s')))"

text \<open>A state whose tables under construction belong to components up to number \<open>k\<close>.\<close>

definition ready_upto :: "tempTablesMaterializer \<Rightarrow> nat \<Rightarrow> TempState \<Rightarrow> bool" where
  "ready_upto m k s \<longleftrightarrow> tm_inv m s \<and> (\<forall>u. building s u \<longrightarrow> comp_of m u \<le> k)"

lemma edge_spec:
  assumes ens: "ensures m k ens" and w: "wanted m (edge_target e)" "k < comp_of m (edge_target e)" and s: "ready_upto m k s"
  shows "ends (tm_edgeCond ens m e) s
    (\<lambda>y s'. y = scratch_cond m e \<and> ready_upto m k s' \<and> tm_le m (Suc k) s s' \<and> edge_target e \<in> set (created s'))"
proof -
  have "ends (ens (edge_target e)) s (\<lambda>_ s'. tm_inv m s' \<and> tm_le m (comp_of m (edge_target e)) s s' \<and>
      edge_target e \<in> set (created s'))"
    using ens w s unfolding ensures_def ready_upto_def by blast
  then obtain s1 where s1: "ens (edge_target e) s = Some (Inr ((), s1))" "tm_inv m s1"
    "tm_le m (comp_of m (edge_target e)) s s1" "edge_target e \<in> set (created s1)"
    by (auto simp: ends_def)
  have "idsTables s1 (edge_target e) = Some (ids_table_name (g_tables (tm_g m) ! edge_target e))"
    using s1(2,4) by (auto simp: tm_inv_def ids_entry_ok_def)
  moreover have "tm_le m (Suc k) s s1" using tm_le_mono [OF s1(3)] w(2) by simp
  moreover have "ready_upto m k s1" using s s1(2,3) by (simp add: ready_upto_def tm_le_def)
  ultimately show ?thesis
    using s1(1,4) by (simp add: tm_edgeCond_def bindP_def ends_def readP_def doneP_def scratch_cond_def scratchTableRef_def)
qed

lemma edges_spec:
  assumes ens: "ensures m k ens" and es: "\<forall>e \<in> set es. wanted m (edge_target e) \<and> k < comp_of m (edge_target e)"
    and s: "ready_upto m k s"
  shows "ends (mapP (tm_edgeCond ens m) es) s
    (\<lambda>ys s'. ys = List.map (scratch_cond m) es \<and> ready_upto m k s' \<and> tm_le m (Suc k) s s' \<and>
       (\<forall>e \<in> set es. edge_target e \<in> set (created s')))"
  by (rule ends_mapP [where le = "tm_le m (Suc k)", OF edge_spec [OF ens]])
     (use es s in \<open>auto intro: tm_le_refl tm_le_trans tm_le_created\<close>)

text \<open>Creating a table.\<close>

lemma execute_spec:
  "tm_ok m \<Longrightarrow> ends (tm_execute m x) s (\<lambda>_ s'. s' = s\<lparr>tm_log := tm_log s @ [x]\<rparr>)"
  by (simp add: ends_def tm_execute_def tm_okD)

lemma index_loop:
  assumes "tm_ok m"
  shows "ends (eachP (\<lambda>(i, c). tm_execute m (CreateIndex v (index_stmt m name i c))) ics) s
    (\<lambda>_ s'. created s' = created s \<and> idsTables s' = idsTables s \<and> building s' = building s \<and> tm_query s' = tm_query s)"
proof (induction ics arbitrary: s)
  case Nil
  show ?case by (simp add: ends_done)
next
  case (Cons ic ics)
  show ?case
    by (cases ic, simp, rule ends_bind, rule ends_mono [OF execute_spec [OF assms]], rule ends_mono [OF Cons.IH])
       (simp add: created_def)
qed

lemma create_spec:
  assumes "tm_ok m"
  shows "ends (createIdsTableAs m v t cols q) s
    (\<lambda>_ s'. created s' = created s @ [v] \<and> idsTables s' = (idsTables s)(v \<mapsto> ids_table_name t) \<and>
       building s' = building s \<and> tm_query s' = tm_query s)"
  unfolding createIdsTableAs_def Let_def
  by (rule ends_bind, rule ends_modify, rule ends_bind, rule ends_mono [OF execute_spec [OF assms]], rule ends_bind,
      rule ends_mono [OF index_loop [OF assms]], rule ends_mono [OF execute_spec [OF assms]])
     (simp add: created_def)

lemma member_spec:
  assumes m: "tm_ok m" and v: "v < length (g_tables (tm_g m))" "t_PrimaryKey (g_tables (tm_g m) ! v) \<noteq> []"
  shows "ends (createMemberTable m cq v) s
    (\<lambda>_ s'. created s' = created s @ [v] \<and> idsTables s' = (idsTables s)(v \<mapsto> ids_table_name (g_tables (tm_g m) ! v)) \<and>
       building s' = building s \<and> tm_query s' = tm_query s)"
  unfolding createMemberTable_def
  by (rule ends_bind, rule ends_lift, simp add: nth_res_def v(1))
     (simp add: v(2) Let_def create_spec [OF m])

lemma members_spec:
  assumes m: "tm_ok m"
  shows "\<forall>v \<in> set vs. v < length (g_tables (tm_g m)) \<and> t_PrimaryKey (g_tables (tm_g m) ! v) \<noteq> [] \<Longrightarrow>
    ends (eachP (createMemberTable m cq) vs) s
    (\<lambda>_ s'. created s' = created s @ vs \<and>
       idsTables s' = (\<lambda>v. if v \<in> set vs then Some (ids_table_name (g_tables (tm_g m) ! v)) else idsTables s v) \<and>
       building s' = building s \<and> tm_query s' = tm_query s)"
proof (induction vs arbitrary: s)
  case Nil
  show ?case by (simp add: ends_done)
next
  case (Cons v vs)
  have v: "v < length (g_tables (tm_g m))" "t_PrimaryKey (g_tables (tm_g m) ! v) \<noteq> []" using Cons.prems by simp_all
  have vs: "\<forall>v \<in> set vs. v < length (g_tables (tm_g m)) \<and> t_PrimaryKey (g_tables (tm_g m) ! v) \<noteq> []"
    using Cons.prems by simp
  show ?case unfolding eachP.simps
    by (rule ends_bind, rule ends_mono [OF member_spec [OF m v]], rule ends_mono [OF Cons.IH [OF vs]])
       (auto simp: fun_eq_iff)
qed

text \<open>Adding the tables of a whole component keeps the invariant.\<close>

lemma add_members:
  assumes s: "tm_inv m s" and vs: "distinct vs" "set vs \<inter> set (created s) = {}" "set vs = set (members m k)"
    and v: "\<forall>v \<in> set vs. wanted m v \<and> comp_of m v = k"
    and refs: "\<forall>v \<in> set vs. \<forall>e \<in> set (leaving m v). edge_target e \<in> set (created s)"
    and c: "created s' = created s @ vs"
    and ids: "idsTables s' = (\<lambda>v. if v \<in> set vs then Some (ids_table_name (g_tables (tm_g m) ! v)) else idsTables s v)"
  shows "tm_inv m s'"
proof -
  have "ids_entry_ok m s' v" if "v \<in> set (created s')" for v
  proof (cases "v \<in> set vs")
    case True
    with vs v refs c ids show ?thesis by (auto simp: ids_entry_ok_def intro: before_append(3))
  next
    case False
    with that c have "v \<in> set (created s)" by simp
    then have "ids_entry_ok m s v" using s by (simp add: tm_inv_def)
    with False c ids show ?thesis by (auto simp: ids_entry_ok_def intro: before_append(1))
  qed
  then show ?thesis using s vs(1,2) c ids by (auto simp: tm_inv_def)
qed

text \<open>The references of a wanted vertex lead to wanted vertices of components that are not smaller.\<close>

lemma restricted_edge:
  assumes m: "tm_ok m" and v: "wanted m v" and e: "e \<in> set (restricted_edges (tm_g m) (tm_paths m) v)"
  shows "wanted m (edge_target e)" "comp_of m v \<le> comp_of m (edge_target e)" "e \<in> set (graph (tm_g m) ! v)"
proof -
  have g: "e \<in> set (graph (tm_g m) ! v)" "tm_paths m (comp_of m (edge_target e)) \<noteq> None"
    using e by (auto simp: restricted_edges_def)
  then show "e \<in> set (graph (tm_g m) ! v)" by simp
  have "v < length (g_tables (tm_g m))" using v by (simp add: wanted_def)
  from graph_edges(2,3) [OF tm_okD(2,3) [OF m] this g(1)] g(2)
  show "wanted m (edge_target e)" "comp_of m v \<le> comp_of m (edge_target e)" by (simp_all add: wanted_def)
qed

lemma leaving_edge:
  assumes m: "tm_ok m" and v: "wanted m v" and e: "e \<in> set (leaving m v)"
  shows "wanted m (edge_target e)" "comp_of m v < comp_of m (edge_target e)"
proof -
  have r: "e \<in> set (restricted_edges (tm_g m) (tm_paths m) v)" "comp_of m (edge_target e) \<noteq> comp_of m v"
    using e by (auto simp: leaving_def external_edges_def)
  from restricted_edge [OF m v r(1)] r(2)
  show "wanted m (edge_target e)" "comp_of m v < comp_of m (edge_target e)" by simp_all
qed

lemma acyclic_edges:
  assumes m: "tm_ok m" and v: "wanted m v" and a: "\<not> hasCycle (scc (tm_g m) ! comp_of m v)"
  shows "\<forall>e \<in> set (restricted_edges (tm_g m) (tm_paths m) v). wanted m (edge_target e) \<and> comp_of m v < comp_of m (edge_target e)"
    "leaving m v = restricted_edges (tm_g m) (tm_paths m) v" "members m (comp_of m v) = [v]"
proof -
  have l: "v < length (g_tables (tm_g m))" using v by (simp add: wanted_def)
  note g = tm_okD(2,3) [OF m]
  have up: "comp_of m v < comp_of m (edge_target e)" if "e \<in> set (graph (tm_g m) ! v)" for e
    by (rule acyclic_no_loop [OF g l a that])
  with restricted_edge [OF m v]
  show "\<forall>e \<in> set (restricted_edges (tm_g m) (tm_paths m) v). wanted m (edge_target e) \<and> comp_of m v < comp_of m (edge_target e)"
    by blast
  have "filter (\<lambda>e. comp_of m (edge_target e) \<noteq> comp_of m v) (restricted_edges (tm_g m) (tm_paths m) v) =
      restricted_edges (tm_g m) (tm_paths m) v"
    using up by (intro filter_True) (fastforce simp: restricted_edges_def)
  then show "leaving m v = restricted_edges (tm_g m) (tm_paths m) v" by (simp add: leaving_def external_edges_def)
  show "members m (comp_of m v) = [v]"
    using acyclic_single [OF g(1) vertex_component(2) [OF g l] a] vertex_component(3) [OF g l] by (auto simp: members_def)
qed

lemma conds_spec:
  assumes m: "tm_ok m" and v: "wanted m v" and a: "\<not> hasCycle (scc (tm_g m) ! comp_of m v)"
    and ens: "ensures m (comp_of m v) ens" and s: "ready_upto m (comp_of m v) s"
  shows "ends (tm_condsForVertex ens m v) s
    (\<lambda>ys s'. ys = t_SubsetConds (g_tables (tm_g m) ! v) @ List.map (scratch_cond m) (restricted_edges (tm_g m) (tm_paths m) v) \<and>
       ready_upto m (comp_of m v) s' \<and> tm_le m (Suc (comp_of m v)) s s' \<and>
       (\<forall>e \<in> set (restricted_edges (tm_g m) (tm_paths m) v). edge_target e \<in> set (created s')))"
proof -
  have l: "v < length (g_tables (tm_g m))" using v by (simp add: wanted_def)
  show ?thesis unfolding tm_condsForVertex_def
    by (rule ends_bind, rule ends_lift, simp add: nth_res_def l, rule ends_bind,
        rule ends_mono [OF edges_spec [OF ens acyclic_edges(1) [OF m v a] s]])
       (simp add: ends_done)
qed

lemma build_acyclic:
  assumes m: "tm_ok m" and v: "wanted m v" and a: "\<not> hasCycle (scc (tm_g m) ! comp_of m v)"
    and ens: "ensures m (comp_of m v) ens" and s: "ready_upto m (comp_of m v) s" and new: "v \<notin> set (created s)"
  shows "ends (buildAcyclicTable ens m v) s
    (\<lambda>_ s'. tm_inv m s' \<and> tm_le m (comp_of m v) s s' \<and> v \<in> set (created s'))"
  unfolding buildAcyclicTable_def createIdsTable_def
proof (rule ends_bind, rule ends_mono [OF conds_spec [OF m v a ens s]], elim conjE)
  fix conds s1
  assume r: "ready_upto m (comp_of m v) s1" and le: "tm_le m (Suc (comp_of m v)) s s1"
    and t: "\<forall>e \<in> set (restricted_edges (tm_g m) (tm_paths m) v). edge_target e \<in> set (created s1)"
  have new1: "v \<notin> set (created s1)" using le new by (fastforce simp: tm_le_def)
  show "ends (createIdsTableAs m v (g_tables (tm_g m) ! v) (neededCols m v)
         (''SELECT DISTINCT '' @ commas (named_cols (g_tables (tm_g m) ! v) (neededCols m v)) @
          filtered_table (g_tables (tm_g m) ! v) conds)) s1
        (\<lambda>_ s'. tm_inv m s' \<and> tm_le m (comp_of m v) s s' \<and> v \<in> set (created s'))"
  proof (rule ends_mono [OF create_spec [OF m]], elim conjE)
    fix s'
    assume s': "created s' = created s1 @ [v]" "idsTables s' = (idsTables s1)(v \<mapsto> ids_table_name (g_tables (tm_g m) ! v))"
      "building s' = building s1" "tm_query s' = tm_query s1"
    have "tm_inv m s'"
      by (rule add_members [where vs = "[v]" and k = "comp_of m v", OF _ _ _ _ _ _ s'(1)])
         (use r v new1 t acyclic_edges(2,3) [OF m v a] s'(2) in \<open>auto simp: ready_upto_def fun_eq_iff\<close>)
    moreover have "tm_le m (comp_of m v) s1 s'" using s' by (simp add: tm_le_def)
    ultimately show "tm_inv m s' \<and> tm_le m (comp_of m v) s s' \<and> v \<in> set (created s')"
      using s'(1) tm_le_trans [OF tm_le_mono [OF le]] by simp
  qed
qed

section \<open>Components with cycles\<close>

lemma restricted_cte_ok:
  assumes c: "component_wf c" and cyc: "hasCycle c"
  shows "isOk (restricted_cte c ext)"
proof (cases "length (groupedCycles c) = 1")
  case True
  obtain cs where cs: "getOneCycleGroup c = Inr cs" "group_wf cs" using getOneCycleGroup_ok [OF c True] by blast
  then have ne: "cs \<noteq> []" by (simp add: group_wf_def)
  have rest: "rest_ok [] []" by (simp add: rest_ok_def)
  show ?thesis unfolding restricted_cte_def Let_def using True cs ne
    by (auto simp: first_of_def intro!: isOk_bindR cycle_loop_ok generateFilteredQueries_ok
        generateQueriesForVertexesInCycle_ok rest)
next
  case False
  then show ?thesis using generateQueriesForMultiGroupScc_ok [OF c, of "[]" "[]"] by (simp add: restricted_cte_def rest_ok_def)
qed

lemma externals_spec:
  assumes m: "tm_ok m" and vs: "\<forall>v \<in> set vs. wanted m v \<and> comp_of m v = k"
    and ens: "ensures m k ens" and s: "ready_upto m k s"
  shows "ends (tm_externalConds ens m k vs) s
    (\<lambda>_ s'. ready_upto m k s' \<and> tm_le m (Suc k) s s' \<and> (\<forall>v \<in> set vs. \<forall>e \<in> set (leaving m v). edge_target e \<in> set (created s')))"
proof -
  let ?h = "\<lambda>v. List.map (\<lambda>x. (t_Oid (g_tables (tm_g m) ! v), x)) (List.map (scratch_cond m) (leaving m v))"
  let ?f = "\<lambda>v. bindP (liftP (nth_res (g_tables (tm_g m)) v)) (\<lambda>t.
         bindP (mapP (tm_edgeCond ens m) (external_edges (tm_g m) (tm_paths m) k v)) (\<lambda>conds.
         doneP (List.map (\<lambda>x. (t_Oid t, x)) conds)))"
  have step: "ends (?f v) s (\<lambda>y s'. y = ?h v \<and> ready_upto m k s' \<and> tm_le m (Suc k) s s' \<and>
      (\<forall>e \<in> set (leaving m v). edge_target e \<in> set (created s')))" if v: "v \<in> set vs" and r: "ready_upto m k s" for v s
  proof -
    have w: "wanted m v" "comp_of m v = k" using vs v by simp_all
    then have es: "external_edges (tm_g m) (tm_paths m) k v = leaving m v" by (simp add: leaving_def)
    have out: "\<forall>e \<in> set (leaving m v). wanted m (edge_target e) \<and> k < comp_of m (edge_target e)"
      using leaving_edge [OF m w(1)] w(2) by blast
    have "v < length (g_tables (tm_g m))" using w(1) by (simp add: wanted_def)
    then show ?thesis unfolding es
      by (intro ends_bind, intro ends_lift [where a = "g_tables (tm_g m) ! v"], simp add: nth_res_def,
          intro ends_bind, intro ends_mono [OF edges_spec [OF ens out r]] ends_done) simp
  qed
  have all: "ends (mapP ?f vs) s (\<lambda>ys s'. ys = List.map ?h vs \<and> ready_upto m k s' \<and> tm_le m (Suc k) s s' \<and>
      (\<forall>v \<in> set vs. \<forall>e \<in> set (leaving m v). edge_target e \<in> set (created s')))"
    by (rule ends_mapP [where le = "tm_le m (Suc k)" and I = "ready_upto m k", OF step])
       (use s in \<open>auto intro: tm_le_refl tm_le_trans tm_le_created\<close>)
  show ?thesis unfolding tm_externalConds_def
    by (rule ends_bind, rule ends_mono [OF all], rule ends_done) simp
qed

lemma component_members:
  assumes m: "tm_ok m" and v: "wanted m v"
  shows "vertexes_of (tm_g m) (comp_of m v) = members m (comp_of m v)"
    "\<forall>u \<in> set (members m (comp_of m v)). wanted m u \<and> comp_of m u = comp_of m v"
    "v \<in> set (members m (comp_of m v))" "distinct (members m (comp_of m v))"
    "c_id (scc (tm_g m) ! comp_of m v) = comp_of m v" "component_wf (scc (tm_g m) ! comp_of m v)"
    "nth_res (scc (tm_g m)) (comp_of m v) = Inr (scc (tm_g m) ! comp_of m v)"
proof -
  note g = tm_okD(2,3) [OF m]
  have l: "v < length (g_tables (tm_g m))" using v by (simp add: wanted_def)
  note c = vertex_component(2) [OF g l]
  show "vertexes_of (tm_g m) (comp_of m v) = members m (comp_of m v)"
    by (simp add: vertexes_of_part [OF g(2)] members_def)
  show "\<forall>u \<in> set (members m (comp_of m v)). wanted m u \<and> comp_of m u = comp_of m v"
    using part_component [OF g] v by (auto simp: members_def wanted_def)
  show "v \<in> set (members m (comp_of m v))" using vertex_component(3) [OF g l] by (simp add: members_def)
  show "distinct (members m (comp_of m v))" by (simp add: members_def part_def)
  show "c_id (scc (tm_g m) ! comp_of m v) = comp_of m v"
    using g(1) c NewComponent_id unfolding condensation_ok_def by blast
  show "component_wf (scc (tm_g m) ! comp_of m v)"
    using component_wf_built [OF g(1) _ c] tm_okD(1) [OF m] by (simp add: plain_graph_def)
  show "nth_res (scc (tm_g m)) (comp_of m v) = Inr (scc (tm_g m) ! comp_of m v)"
    using scc_length [OF tm_okD(1) [OF m]] c by (simp add: nth_res_def)
qed

lemma component_unbuilt:
  assumes s: "tm_inv m s" and v: "v \<in> set (members m (comp_of m v))" "v \<notin> set (created s)"
    and u: "u \<in> set (members m (comp_of m v))" "comp_of m u = comp_of m v"
  shows "u \<notin> set (created s)"
proof
  assume "u \<in> set (created s)"
  then have "ids_entry_ok m s u" using s by (simp add: tm_inv_def)
  then have "set (members m (comp_of m u)) \<subseteq> set (created s)" by (simp add: ids_entry_ok_def)
  with v u(2) show False by auto
qed

lemma build_cyclic:
  assumes m: "tm_ok m" and v: "wanted m v" and cyc: "hasCycle (scc (tm_g m) ! comp_of m v)"
    and ens: "ensures m (comp_of m v) ens" and s: "tm_inv m s" "\<forall>u. building s u \<longrightarrow> comp_of m u < comp_of m v"
    and new: "v \<notin> set (created s)"
  shows "ends (buildCyclicComponent ens m (scc (tm_g m) ! comp_of m v)) s
    (\<lambda>_ s'. tm_inv m s' \<and> tm_le m (comp_of m v) s s' \<and> v \<in> set (created s'))"
proof -
  let ?k = "comp_of m v" and ?c = "scc (tm_g m) ! comp_of m v"
  let ?vs = "members m ?k"
  note c = component_members [OF m v]
  let ?s0 = "s\<lparr>building := (\<lambda>v. v \<in> set ?vs \<or> building s v)\<rparr>"
  have r0: "ready_upto m ?k ?s0" using s c(2) by (auto simp: ready_upto_def tm_inv_def ids_entry_ok_def created_def)
  have pk: "\<forall>v \<in> set ?vs. v < length (g_tables (tm_g m)) \<and> t_PrimaryKey (g_tables (tm_g m) ! v) \<noteq> []"
    using tm_okD(6) [OF m] cyc c(2) by (auto simp: wanted_def)
  have disj: "set ?vs \<inter> set (created s) = {}" using component_unbuilt [OF s(1) c(3) new] c(2) by blast
  obtain ext s1 where e: "tm_externalConds ens m ?k ?vs ?s0 = Some (Inr (ext, s1))" "ready_upto m ?k s1"
    "tm_le m (Suc ?k) ?s0 s1" "\<forall>v \<in> set ?vs. \<forall>e \<in> set (leaving m v). edge_target e \<in> set (created s1)"
    using externals_spec [OF m c(2) ens r0] by (auto simp: ends_def)
  obtain cq where cq: "restricted_cte ?c (conds_of ext) = Inr cq"
    using restricted_cte_ok [OF c(6) cyc, of "conds_of ext"] by (auto simp: isOk_iff)
  obtain s2 where s2: "eachP (createMemberTable m cq) ?vs s1 = Some (Inr ((), s2))" "created s2 = created s1 @ ?vs"
    "idsTables s2 = (\<lambda>v. if v \<in> set ?vs then Some (ids_table_name (g_tables (tm_g m) ! v)) else idsTables s1 v)"
    "building s2 = building s1" "tm_query s2 = tm_query s1"
    using members_spec [OF m pk, of cq s1] by (auto simp: ends_def)
  let ?s3 = "s2\<lparr>building := (\<lambda>v. v \<notin> set ?vs \<and> building s2 v)\<rparr>"
  have run: "buildCyclicComponent ens m ?c s = Some (Inr ((), ?s3))"
    unfolding buildCyclicComponent_def Let_def c(5) c(1)
    by (simp add: bindP_def modifyP_def liftP_def e(1) cq s2(1))
  have "created ?s0 = created s" by (simp add: created_def)
  with e(3) obtain ws where ws: "created s1 = created s @ ws" "\<forall>w \<in> set ws. Suc ?k \<le> comp_of m w"
    by (auto simp: tm_le_def)
  have disj1: "set ?vs \<inter> set (created s1) = {}" using disj ws c(2) by fastforce
  have inv2: "tm_inv m s2"
    by (rule add_members [OF _ c(4) disj1 refl c(2) e(4) s2(2,3)]) (use e(2) in \<open>simp add: ready_upto_def\<close>)
  have cr: "created ?s3 = created s2" by (simp add: created_def)
  have inv: "tm_inv m ?s3" using inv2 cr by (simp add: tm_inv_def ids_entry_ok_def)
  have "building ?s3 = building s"
    using s2(4) e(3) s(2) c(2) by (fastforce simp: tm_le_def fun_eq_iff)
  moreover have "tm_query ?s3 = tm_query s" using s2(5) e(3) by (simp add: tm_le_def)
  ultimately have "tm_le m ?k s ?s3"
    unfolding tm_le_def cr s2(2) ws(1) using ws(2) c(2) by (intro conjI exI [of _ "ws @ ?vs"]) auto
  then show ?thesis using run inv s2(2) c(3) cr by (simp add: ends_def)
qed

section \<open>The whole walk\<close>

lemma ensure_spec:
  assumes m: "tm_ok m"
  shows "sscCount (tm_g m) < n + comp_of m v \<Longrightarrow> wanted m v \<Longrightarrow> tm_inv m s \<Longrightarrow>
    \<forall>u. building s u \<longrightarrow> comp_of m u < comp_of m v \<Longrightarrow>
    ends (ensureIdsTable n m v) s (\<lambda>_ s'. tm_inv m s' \<and> tm_le m (comp_of m v) s s' \<and> v \<in> set (created s'))"
proof (induction n arbitrary: v s)
  case 0
  then show ?case using tm_okD(5) [OF m] by (fastforce simp: wanted_def)
next
  case (Suc n)
  have ens: "ensures m (comp_of m v) (ensureIdsTable n m)"
    unfolding ensures_def
  proof (intro allI impI)
    fix w s
    assume w: "wanted m w" "comp_of m v < comp_of m w" and s: "tm_inv m s" "\<forall>u. building s u \<longrightarrow> comp_of m u \<le> comp_of m v"
    show "ends (ensureIdsTable n m w) s (\<lambda>_ s'. tm_inv m s' \<and> tm_le m (comp_of m w) s s' \<and> w \<in> set (created s'))"
      by (rule Suc.IH [OF _ w(1) s(1)]) (use Suc.prems(1) w(2) s(2) in auto)
  qed
  have nb: "\<not> building s v" using Suc.prems(4) by auto
  show ?case
  proof (cases "idsTables s v = None")
    case False
    then have "v \<in> set (created s)" using Suc.prems(3) by (simp add: tm_inv_def)
    with False Suc.prems(3) show ?thesis by (simp add: ends_def doneP_def tm_le_refl)
  next
    case True
    then have new: "v \<notin> set (created s)" using tm_inv_ids [OF Suc.prems(3)] by blast
    have run: "ensureIdsTable (Suc n) m v s = (if hasCycle (scc (tm_g m) ! comp_of m v)
        then buildCyclicComponent (ensureIdsTable n m) m (scc (tm_g m) ! comp_of m v)
        else buildAcyclicTable (ensureIdsTable n m) m v) s"
      using True nb component_members(7) [OF m Suc.prems(2)] by (simp add: bindP_def liftP_def)
    have rdy: "ready_upto m (comp_of m v) s" using Suc.prems(3,4) by (auto simp: ready_upto_def intro: less_imp_le)
    show ?thesis unfolding ends_def run
      using build_cyclic [OF m Suc.prems(2) _ ens Suc.prems(3,4) new] build_acyclic [OF m Suc.prems(2) _ ens rdy new]
      by (simp add: ends_def)
  qed
qed

text \<open>The conditions of the rewritten query of a table, and the tables of keys they read.\<close>

definition final_conds :: "tempTablesMaterializer \<Rightarrow> nat \<Rightarrow> string list" where
  "final_conds m v =
     (let t = g_tables (tm_g m) ! v
      in if hasCycle (scc (tm_g m) ! comp_of m v)
         then [semi_join (qualifiedColRefs t (t_PrimaryKey t)) (t_PrimaryKey t) (scratch_ref m (ids_table_name t))]
         else t_SubsetConds t @ List.map (scratch_cond m) (restricted_edges (tm_g m) (tm_paths m) v))"

definition final_reads :: "tempTablesMaterializer \<Rightarrow> nat \<Rightarrow> nat list" where
  "final_reads m v =
     (if hasCycle (scc (tm_g m) ! comp_of m v) then [v]
      else List.map edge_target (restricted_edges (tm_g m) (tm_paths m) v))"

definition rewritten :: "tempTablesMaterializer \<Rightarrow> nat \<Rightarrow> TempState \<Rightarrow> bool" where
  "rewritten m v s \<longleftrightarrow> tm_query s v = Some (dump_query (g_tables (tm_g m) ! v) (final_conds m v)) \<and>
     set (final_reads m v) \<subseteq> set (created s)"

definition idle :: "tempTablesMaterializer \<Rightarrow> TempState \<Rightarrow> bool" where
  "idle m s \<longleftrightarrow> tm_inv m s \<and> (\<forall>u. \<not> building s u)"

definition tm_up :: "tempTablesMaterializer \<Rightarrow> TempState \<Rightarrow> TempState \<Rightarrow> bool" where
  "tm_up m s s' \<longleftrightarrow> (\<forall>v. rewritten m v s \<longrightarrow> rewritten m v s')"

lemma tm_up_le: "tm_le m k s s' \<Longrightarrow> tm_up m s s'"
  by (auto simp: tm_up_def rewritten_def tm_le_def)

lemma set_final:
  assumes i: "idle m s" and r: "set (final_reads m v) \<subseteq> set (created s)"
    and s': "s' = s\<lparr>tm_query := (tm_query s)(v \<mapsto> dump_query (g_tables (tm_g m) ! v) (final_conds m v))\<rparr>"
  shows "idle m s'" "tm_up m s s'" "rewritten m v s'"
proof -
  have "created s' = created s" by (simp add: s' created_def)
  with i r show "idle m s'" "tm_up m s s'" "rewritten m v s'"
    by (auto simp: s' idle_def tm_inv_def ids_entry_ok_def tm_up_def rewritten_def)
qed

lemma tm_up_trans: "tm_up m s t \<Longrightarrow> tm_up m t u \<Longrightarrow> tm_up m s u"
  by (simp add: tm_up_def)

lemma rewrite_acyclic:
  assumes m: "tm_ok m" and n: "sscCount (tm_g m) < n" and v: "wanted m v" and i: "idle m s"
    and a: "\<not> hasCycle (scc (tm_g m) ! comp_of m v)"
  shows "ends (tm_rewriteComponent n m (comp_of m v)) s (\<lambda>_ s'. idle m s' \<and> tm_up m s s' \<and> rewritten m v s')"
proof -
  note g = tm_okD(2,3) [OF m]
  let ?k = "comp_of m v"
  have l: "v < length (g_tables (tm_g m))" using v by (simp add: wanted_def)
  have k: "?k < sscCount (tm_g m)" by (rule vertex_component(2) [OF g l])
  have p: "members m ?k = [v]" by (rule acyclic_edges(3) [OF m v a])
  have t: "getOneTable (scc (tm_g m) ! ?k) = Inr (g_tables (tm_g m) ! v)"
    using g(1) k p a by (simp add: condensation_ok_def getOneTable_def members_def)
  have f: "first_of (lookup_list (int ?k) (componentsToOriginalVertexes (tm_g m))) = Inr v"
    using p by (simp add: listed_part [OF g(2)] members_def first_of_def)
  have ens: "ensures m ?k (ensureIdsTable n m)"
    unfolding ensures_def by (intro allI impI ensure_spec [OF m]) (use n in auto)
  have r: "ready_upto m ?k s" using i by (simp add: idle_def ready_upto_def)
  obtain s1 where s1: "tm_condsForVertex (ensureIdsTable n m) m v s = Some (Inr (t_SubsetConds (g_tables (tm_g m) ! v) @
      List.map (scratch_cond m) (restricted_edges (tm_g m) (tm_paths m) v), s1))" "ready_upto m ?k s1" "tm_le m (Suc ?k) s s1"
    "\<forall>e \<in> set (restricted_edges (tm_g m) (tm_paths m) v). edge_target e \<in> set (created s1)"
    using conds_spec [OF m v a ens r] by (auto simp: ends_def)
  let ?s2 = "s1\<lparr>tm_query := (tm_query s1)(v \<mapsto> dump_query (g_tables (tm_g m) ! v) (final_conds m v))\<rparr>"
  have run: "tm_rewriteComponent n m ?k s = Some (Inr ((), ?s2))"
    unfolding tm_rewriteComponent_def
    by (simp add: bindP_def liftP_def component_members(7) [OF m v] a t f s1(1) modifyP_def final_conds_def)
  have "idle m s1" using s1(2,3) i by (simp add: idle_def ready_upto_def tm_le_def)
  moreover have "set (final_reads m v) \<subseteq> set (created s1)" using s1(4) a by (auto simp: final_reads_def)
  ultimately show ?thesis
    using set_final [of m s1 v ?s2] tm_up_trans [OF tm_up_le [OF s1(3)]] run by (simp add: ends_def)
qed

lemma rewrite_member:
  assumes m: "tm_ok m" and n: "sscCount (tm_g m) < n" and v: "wanted m v" and i: "idle m s"
    and c: "hasCycle (scc (tm_g m) ! comp_of m v)"
  shows "ends (tm_rewriteCyclicTableQuery n m v (g_tables (tm_g m) ! v)) s (\<lambda>_ s'. idle m s' \<and> tm_up m s s' \<and> rewritten m v s')"
proof -
  let ?t = "g_tables (tm_g m) ! v"
  have pk: "t_PrimaryKey ?t \<noteq> []" using tm_okD(6) [OF m] v c by (simp add: wanted_def)
  have "ends (ensureIdsTable n m v) s (\<lambda>_ s'. tm_inv m s' \<and> tm_le m (comp_of m v) s s' \<and> v \<in> set (created s'))"
    by (rule ensure_spec [OF m _ v]) (use n i in \<open>auto simp: idle_def\<close>)
  then obtain s1 where s1: "ensureIdsTable n m v s = Some (Inr ((), s1))" "tm_inv m s1" "tm_le m (comp_of m v) s s1"
    "v \<in> set (created s1)" by (auto simp: ends_def)
  have "idsTables s1 v = Some (ids_table_name ?t)" using s1(2,4) by (auto simp: tm_inv_def ids_entry_ok_def)
  then have tab: "scratchTableRef m v s1 = scratch_ref m (ids_table_name ?t)" by (simp add: scratchTableRef_def)
  let ?s2 = "s1\<lparr>tm_query := (tm_query s1)(v \<mapsto> dump_query ?t (final_conds m v))\<rparr>"
  have run: "tm_rewriteCyclicTableQuery n m v ?t s = Some (Inr ((), ?s2))"
    unfolding tm_rewriteCyclicTableQuery_def
    using pk by (simp add: bindP_def s1(1) readP_def modifyP_def tab final_conds_def c Let_def)
  have "idle m s1" using s1(2,3) i by (simp add: idle_def tm_le_def)
  moreover have "set (final_reads m v) \<subseteq> set (created s1)" using s1(4) c by (simp add: final_reads_def)
  ultimately show ?thesis
    using set_final [of m s1 v ?s2] tm_up_trans [OF tm_up_le [OF s1(3)]] run by (simp add: ends_def)
qed

lemma rewrite_component:
  assumes m: "tm_ok m" and n: "sscCount (tm_g m) < n" and k: "tm_paths m k \<noteq> None" and i: "idle m s"
  shows "ends (tm_rewriteComponent n m k) s (\<lambda>_ s'. idle m s' \<and> tm_up m s s' \<and> (\<forall>v \<in> set (members m k). rewritten m v s'))"
proof -
  note g = tm_okD(2,3) [OF m]
  have k': "k < sscCount (tm_g m)" using tm_okD(5) [OF m k] .
  have vs: "\<forall>v \<in> set (members m k). wanted m v \<and> comp_of m v = k"
    using part_component [OF g] k by (auto simp: members_def wanted_def)
  show ?thesis
  proof (cases "hasCycle (scc (tm_g m) ! k)")
    case False
    obtain v where "part (visited (tm_g m)) k = [v]" using acyclic_single [OF g(1) k' False] by blast
    then have v: "members m k = [v]" "wanted m v" "comp_of m v = k" using vs by (simp_all add: members_def)
    have a: "\<not> hasCycle (scc (tm_g m) ! comp_of m v)" using False v(3) by simp
    show ?thesis using rewrite_acyclic [OF m n v(2) i a] unfolding v(3) by (simp add: v(1))
  next
    case True
    have tabs: "c_tables (scc (tm_g m) ! k) = List.map (\<lambda>v. (v, g_tables (tm_g m) ! v)) (members m k)"
      using g(1) k' by (simp add: condensation_ok_def members_def)
    have nth: "nth_res (scc (tm_g m)) k = Inr (scc (tm_g m) ! k)"
      using scc_length [OF tm_okD(1) [OF m]] k' by (simp add: nth_res_def)
    have step: "ends ((\<lambda>(v, t). tm_rewriteCyclicTableQuery n m v t) x) s
        (\<lambda>_ s'. idle m s' \<and> tm_up m s s' \<and> rewritten m (fst x) s')"
      if x: "x \<in> set (c_tables (scc (tm_g m) ! k))" and s: "idle m s" for x s
    proof -
      obtain v where v: "v \<in> set (members m k)" "x = (v, g_tables (tm_g m) ! v)" using x by (auto simp: tabs)
      then have w: "wanted m v" "hasCycle (scc (tm_g m) ! comp_of m v)" using vs True by auto
      show ?thesis using rewrite_member [OF m n w(1) s w(2)] by (simp add: v(2))
    qed
    have loop: "ends (eachP (\<lambda>(v, t). tm_rewriteCyclicTableQuery n m v t) (c_tables (scc (tm_g m) ! k))) s
        (\<lambda>_ s'. idle m s' \<and> tm_up m s s' \<and> (\<forall>x \<in> set (c_tables (scc (tm_g m) ! k)). rewritten m (fst x) s'))"
      by (rule ends_eachP [where I = "idle m" and le = "tm_up m", OF step]) (use i in \<open>auto simp: tm_up_def\<close>)
    have all: "(\<forall>x \<in> set (c_tables (scc (tm_g m) ! k)). rewritten m (fst x) s') \<longleftrightarrow>
        (\<forall>v \<in> set (members m k). rewritten m v s')" for s' by (simp add: tabs)
    show ?thesis unfolding tm_rewriteComponent_def
      by (rule ends_bind, rule ends_lift [OF nth]) (use loop True all in simp)
  qed
qed

text \<open>A condition selects only columns that the table of keys has.\<close>

lemma neededCols_cover:
  assumes m: "tm_ok m" and v: "wanted m v" and e: "e \<in> set (restricted_edges (tm_g m) (tm_paths m) v)"
  shows "set (to_cols e) \<subseteq> set (neededCols m (edge_target e))"
proof -
  have l: "v < length (g_tables (tm_g m))" using v by (simp add: wanted_def)
  note ge = restricted_edge(3) [OF m v e]
  have "edge_source e = v" by (rule graph_edges(1) [OF tm_okD(2,3) [OF m] l ge])
  moreover have "graph (tm_g m) ! v \<in> set (graph (tm_g m))"
    using tm_okD(2) [OF m] l by (simp add: condensation_ok_def graph_ok_def)
  ultimately show ?thesis using ge v by (fastforce simp: neededCols_def wanted_def)
qed

lemma temp_tables_run:
  assumes m: "tm_ok m" and n: "sscCount (tm_g m) < n" and sup: "materializationSupported (tm_g m) (tm_paths m)"
    and cs: "set compIdxs = dom (tm_paths m)"
  shows "\<exists>s. MaterializeSubsetQueriesTempTables n m compIdxs (temp_init q) = Some (Inr (True, s)) \<and> tm_inv m s \<and>
    (\<forall>v. wanted m v \<longrightarrow> rewritten m v s)"
proof -
  have i: "idle m (temp_init q)" by (simp add: idle_def tm_inv_def temp_init_def created_def)
  have "ends (eachP (tm_rewriteComponent n m) compIdxs) (temp_init q)
      (\<lambda>_ s'. idle m s' \<and> tm_up m (temp_init q) s' \<and> (\<forall>k \<in> set compIdxs. \<forall>v \<in> set (members m k). rewritten m v s'))"
    by (rule ends_eachP [where I = "idle m" and le = "tm_up m" and P = "\<lambda>k s. \<forall>v \<in> set (members m k). rewritten m v s"])
       (use rewrite_component [OF m n] cs i in \<open>auto simp: tm_up_def dom_def\<close>)
  then obtain s where s: "eachP (tm_rewriteComponent n m) compIdxs (temp_init q) = Some (Inr ((), s))" "idle m s"
    "\<forall>k \<in> set compIdxs. \<forall>v \<in> set (members m k). rewritten m v s" by (auto simp: ends_def)
  have "rewritten m v s" if v: "wanted m v" for v
  proof -
    have "comp_of m v \<in> set compIdxs" using v cs by (auto simp: wanted_def)
    moreover have "v \<in> set (members m (comp_of m v))" by (rule component_members(3) [OF m v])
    ultimately show ?thesis using s(3) by blast
  qed
  with s(1,2) sup show ?thesis
    by (intro exI [of _ s]) (simp add: MaterializeSubsetQueriesTempTables_def bindP_def doneP_def idle_def)
qed

lemma temp_tables_ok:
  assumes k: "keys_match refs tables vr" and g: "NewGraph refs tables vr = Inr g" and p: "findSubsetVertexes g = Inr paths"
    and pk: "\<forall>v < length tables. paths (vertexComp g v) \<noteq> None \<longrightarrow> hasCycle (scc g ! vertexComp g v) \<longrightarrow>
       t_PrimaryKey (tables ! v) \<noteq> []"
  shows "tm_ok \<lparr>tm_g = g, tm_paths = paths, tm_schema = sch, tm_exec = (\<lambda>_ _. True)\<rparr>" "g_tables g = tables"
proof -
  have gs: "plain_graph g" "g_tables g = tables" using NewGraph_plain [OF k] g by auto
  then show "g_tables g = tables" by simp
  have "condensation_ok g" using gs(1) by (simp add: plain_graph_def)
  from findSubsetVertexes_facts [OF this] p have "\<forall>v. paths v \<noteq> None \<longleftrightarrow> v < sscCount g \<and> restricted g v" by auto
  with gs pk NewGraph_listed [OF g] show "tm_ok \<lparr>tm_g = g, tm_paths = paths, tm_schema = sch, tm_exec = (\<lambda>_ _. True)\<rparr>"
    by (simp add: tm_ok_def)
qed

end
