(* ===== verification/SubsetValuesProps.thy ===== *)
theory SubsetValuesProps
  imports SubsetValues SubsetMaterializeProps
begin

text \<open>
  Fetching the key sets: the walk ends whatever the database answers, and a value written into a query is read
  back by the lexer of SQL.
\<close>

section \<open>Literals\<close>

text \<open>The lexer of SQL on a literal in quotes: two quotes stand for one, a single one ends the literal.\<close>

fun read_literal :: "string \<Rightarrow> (string \<times> string) option" where
  "read_literal [] = None"
| "read_literal (c # cs) =
     (if c = lit_quote
      then (case cs of d # ds \<Rightarrow> if d = lit_quote then map_option (\<lambda>(v, rest). (lit_quote # v, rest)) (read_literal ds)
                                else Some ([], cs)
            | [] \<Rightarrow> Some ([], []))
      else map_option (\<lambda>(v, rest). (c # v, rest)) (read_literal cs))"

definition lex_literal :: "string \<Rightarrow> (string \<times> string) option" where
  "lex_literal s = (case s of [] \<Rightarrow> None | c # cs \<Rightarrow> if c = lit_quote then read_literal cs else None)"

lemma read_literal_quoted:
  "rest = [] \<or> hd rest \<noteq> lit_quote \<Longrightarrow>
   read_literal (concat (List.map (\<lambda>c. if c = lit_quote then [lit_quote, lit_quote] else [c]) v) @ lit_quote # rest) = Some (v, rest)"
proof (induction v)
  case Nil
  then show ?case by (cases rest) auto
qed simp

lemma quoteSqlLiteral_read: "rest = [] \<or> hd rest \<noteq> lit_quote \<Longrightarrow> lex_literal (quoteSqlLiteral v @ rest) = Some (v, rest)"
  by (simp add: lex_literal_def quoteSqlLiteral_def read_literal_quoted)

section \<open>Steps that return\<close>

named_theorems returns_intros \<open>steps that return\<close>

definition step_returns :: "('s, 'a) plan \<Rightarrow> bool" where
  "step_returns m \<longleftrightarrow> (\<forall>s. m s \<noteq> None)"

lemma returns_simple [returns_intros]:
  "step_returns (doneP a)" "step_returns (liftP r)" "step_returns (modifyP f)" "step_returns (readP h)"
  by (simp_all add: step_returns_def doneP_def liftP_def modifyP_def readP_def)

lemma returns_bind: "step_returns m \<Longrightarrow> (\<And>a. step_returns (f a)) \<Longrightarrow> step_returns (bindP m f)"
  unfolding step_returns_def bindP_def by (auto split: option.split sum.split)

lemma returns_lift_bind: "(\<And>a. r = Inr a \<Longrightarrow> step_returns (f a)) \<Longrightarrow> step_returns (bindP (liftP r) f)"
  unfolding step_returns_def bindP_def liftP_def by (cases r) auto

lemmas returns_binds [returns_intros] =
  returns_bind [OF returns_simple(1)] returns_bind [OF returns_simple(3)] returns_bind [OF returns_simple(4)]
  returns_lift_bind

lemma returns_mapP [returns_intros]: "(\<And>x. x \<in> set xs \<Longrightarrow> step_returns (f x)) \<Longrightarrow> step_returns (mapP f xs)"
  by (induction xs) (auto intro!: returns_intros returns_bind)

lemma returns_eachP [returns_intros]: "(\<And>x. x \<in> set xs \<Longrightarrow> step_returns (f x)) \<Longrightarrow> step_returns (eachP f xs)"
  by (induction xs) (auto intro!: returns_intros returns_bind)

lemma returns_fetch [returns_intros]: "step_returns (fetch m cols q)"
  by (simp add: step_returns_def fetch_def)

lemma returns_if [returns_intros]: "(b \<Longrightarrow> step_returns x) \<Longrightarrow> (\<not> b \<Longrightarrow> step_returns y) \<Longrightarrow> step_returns (if b then x else y)"
  by simp

lemma returns_memo [returns_intros]:
  "(\<And>x. step_returns (f x)) \<Longrightarrow> step_returns g \<Longrightarrow> step_returns (case o' of None \<Rightarrow> g | Some x \<Rightarrow> f x)"
  by (simp split: option.split)

section \<open>The operations, when those they call return\<close>

lemma nth_resD: "nth_res xs i = Inr x \<Longrightarrow> i < length xs \<and> x = xs ! i"
  by (simp add: nth_res_def split: if_splits)

lemma values_returns:
  assumes "\<And>c. nth_res (scc (mt_g m)) (vertexComp (mt_g m) v) = Inr c \<Longrightarrow> hasCycle c \<Longrightarrow> step_returns (cteFor c)"
    and "\<And>c. nth_res (scc (mt_g m)) (vertexComp (mt_g m) v) = Inr c \<Longrightarrow> \<not> hasCycle c \<Longrightarrow> step_returns (condsFor v)"
  shows "step_returns (values_body condsFor cteFor m v t cols)"
  unfolding values_body_def
  by (intro returns_intros returns_bind [where m = "if b then x else y" for b x y] returns_bind [OF assms(1)]
      returns_bind [OF assms(2)] returns_bind [OF returns_fetch])

lemma edgeCond_returns:
  assumes "\<And>t cols. step_returns (valuesOf (edge_target e) t cols)"
    and "\<And>c. nth_res (scc (mt_g m)) (vertexComp (mt_g m) (edge_target e)) = Inr c \<Longrightarrow> hasCycle c \<Longrightarrow> step_returns (cteFor c)"
    and "\<And>c. nth_res (scc (mt_g m)) (vertexComp (mt_g m) (edge_target e)) = Inr c \<Longrightarrow> \<not> hasCycle c \<Longrightarrow>
      step_returns (condsFor (edge_target e))"
  shows "step_returns (edgeCond_body valuesOf condsFor cteFor m e)"
  unfolding edgeCond_body_def Let_def
  by (intro returns_intros returns_bind [where m = "if b then x else y" for b x y] returns_bind [OF assms(1)]
      returns_bind [OF assms(2)] returns_bind [OF assms(3)])

lemma conds_returns:
  assumes "\<And>e. v < length (g_tables (mt_g m)) \<Longrightarrow> e \<in> set (graph (mt_g m) ! v) \<Longrightarrow> step_returns (edgeC e)"
  shows "step_returns (condsForVertex_body edgeC m v)"
  unfolding condsForVertex_body_def
  by (intro returns_intros returns_bind [where m = "mapP f xs" for f xs] assms)
     (auto dest: nth_resD simp: restricted_edges_def)

lemma cte_returns:
  assumes "\<And>v e. v \<in> set (vertexes_of (mt_g m) (c_id c)) \<Longrightarrow> v < length (g_tables (mt_g m)) \<Longrightarrow> e \<in> set (graph (mt_g m) ! v) \<Longrightarrow>
      vertexComp (mt_g m) (edge_target e) \<noteq> c_id c \<Longrightarrow> step_returns (edgeC e)"
  shows "step_returns (componentCte_body edgeC m c)"
  unfolding componentCte_body_def externalConds_body_def
  by (intro returns_intros returns_bind [where m = "bindP (mapP f xs) g" for f xs g]
      returns_bind [where m = "mapP f xs" for f xs] assms)
     (auto dest: nth_resD simp: external_edges_def restricted_edges_def)

section \<open>The walk ends\<close>

definition mat_graph :: "Graph \<Rightarrow> bool" where
  "mat_graph g \<longleftrightarrow> condensation_ok g \<and> listed_components g"

text \<open>The distance of a component from the last one.\<close>

definition height :: "Graph \<Rightarrow> nat \<Rightarrow> nat" where
  "height g c = sscCount g - c"

lemma height_less: "c < d \<Longrightarrow> d < sscCount g \<Longrightarrow> height g d < height g c"
  by (simp add: height_def)

definition walk_ends :: "materializer \<Rightarrow> nat \<Rightarrow> bool" where
  "walk_ends m n \<longleftrightarrow>
     (\<forall>v t cols. v < length (g_tables (mt_g m)) \<longrightarrow> 2 * height (mt_g m) (vertexComp (mt_g m) v) + 2 \<le> n \<longrightarrow>
        step_returns (mat_values n m v t cols)) \<and>
     (\<forall>v. v < length (g_tables (mt_g m)) \<longrightarrow> \<not> hasCycle (scc (mt_g m) ! vertexComp (mt_g m) v) \<longrightarrow>
        2 * height (mt_g m) (vertexComp (mt_g m) v) + 1 \<le> n \<longrightarrow> step_returns (condsForVertex n m v)) \<and>
     (\<forall>k < sscCount (mt_g m). 2 * height (mt_g m) k + 1 \<le> n \<longrightarrow> step_returns (componentCte n m (scc (mt_g m) ! k)))"

lemma walk_endsD:
  assumes "walk_ends m n"
  shows "v < length (g_tables (mt_g m)) \<Longrightarrow> 2 * height (mt_g m) (vertexComp (mt_g m) v) + 2 \<le> n \<Longrightarrow>
      step_returns (mat_values n m v t cols)"
    "v < length (g_tables (mt_g m)) \<Longrightarrow> \<not> hasCycle (scc (mt_g m) ! vertexComp (mt_g m) v) \<Longrightarrow>
      2 * height (mt_g m) (vertexComp (mt_g m) v) + 1 \<le> n \<Longrightarrow> step_returns (condsForVertex n m v)"
    "k < sscCount (mt_g m) \<Longrightarrow> 2 * height (mt_g m) k + 1 \<le> n \<Longrightarrow> step_returns (componentCte n m (scc (mt_g m) ! k))"
  using assms unfolding walk_ends_def by blast+

lemma scc_ids:
  assumes "condensation_ok g" and "k < sscCount g"
  shows "c_id (scc g ! k) = k" "length (scc g) = sscCount g"
  using assms NewComponent_id unfolding condensation_ok_def by blast+

lemma edge_walk:
  assumes g: "mat_graph (mt_g m)" and w: "walk_ends m n" and t: "edge_target e < length (g_tables (mt_g m))"
    and h: "2 * height (mt_g m) (vertexComp (mt_g m) (edge_target e)) + 2 \<le> n"
  shows "step_returns (edgeCond_body (mat_values n m) (condsForVertex n m) (componentCte n m) m e)"
proof -
  have c: "condensation_ok (mt_g m)" "listed_components (mt_g m)" using g by (simp_all add: mat_graph_def)
  note k = vertex_component(2) [OF c t]
  have l: "nth_res (scc (mt_g m)) (vertexComp (mt_g m) (edge_target e)) = Inr x \<Longrightarrow>
      x = scc (mt_g m) ! vertexComp (mt_g m) (edge_target e)" for x by (auto dest: nth_resD)
  show ?thesis
    by (rule edgeCond_returns) (use walk_endsD [OF w] t h k l in auto)
qed

lemma walk_ends_all:
  assumes g: "mat_graph (mt_g m)"
  shows "walk_ends m n"
proof (induction n)
  case 0
  show ?case by (simp add: walk_ends_def)
next
  case (Suc n)
  have c: "condensation_ok (mt_g m)" "listed_components (mt_g m)" using g by (simp_all add: mat_graph_def)
  let ?comp = "vertexComp (mt_g m)" and ?h = "height (mt_g m)"
  have edge: "step_returns (edgeCond_body (mat_values n m) (condsForVertex n m) (componentCte n m) m e)"
    if v: "v < length (g_tables (mt_g m))" "e \<in> set (graph (mt_g m) ! v)" "?comp v < ?comp (edge_target e)"
      and h: "2 * ?h (?comp v) + 1 \<le> Suc n" for v e
  proof -
    note t = graph_edges(2) [OF c v(1,2)]
    have "?h (?comp (edge_target e)) < ?h (?comp v)" by (rule height_less [OF v(3) vertex_component(2) [OF c t]])
    with edge_walk [OF g Suc t] h show ?thesis by simp
  qed
  show ?case unfolding walk_ends_def
  proof (intro conjI allI impI)
    fix v t cols
    assume v: "v < length (g_tables (mt_g m))" "2 * ?h (?comp v) + 2 \<le> Suc n"
    have "nth_res (scc (mt_g m)) (?comp v) = Inr x \<Longrightarrow> x = scc (mt_g m) ! ?comp v" for x by (auto dest: nth_resD)
    then show "step_returns (mat_values (Suc n) m v t cols)" unfolding mat_values.simps
      by (intro values_returns) (use walk_endsD [OF Suc] v vertex_component(2) [OF c v(1)] in auto)
  next
    fix v
    assume v: "v < length (g_tables (mt_g m))" "\<not> hasCycle (scc (mt_g m) ! ?comp v)" "2 * ?h (?comp v) + 1 \<le> Suc n"
    show "step_returns (condsForVertex (Suc n) m v)" unfolding condsForVertex.simps
      by (rule conds_returns, rule edge [OF v(1) _ acyclic_no_loop [OF c v(1,2)] v(3)])
  next
    fix k
    assume k: "k < sscCount (mt_g m)" "2 * ?h k + 1 \<le> Suc n"
    note id = scc_ids(1) [OF c(1) k(1)]
    show "step_returns (componentCte (Suc n) m (scc (mt_g m) ! k))" unfolding componentCte.simps
    proof (rule cte_returns, unfold id)
      fix v e
      assume v: "v \<in> set (vertexes_of (mt_g m) k)" "v < length (g_tables (mt_g m))" "e \<in> set (graph (mt_g m) ! v)"
        and out: "?comp (edge_target e) \<noteq> k"
      have "?comp v = k" using v(1) part_component(2) [OF c] by (simp add: vertexes_of_part [OF c(2)])
      then show "step_returns (edgeCond_body (mat_values n m) (condsForVertex n m) (componentCte n m) m e)"
        using edge [OF v(2,3)] graph_edges(3) [OF c v(2,3)] out k(2) by simp
    qed
  qed
qed

lemma rewrite_returns:
  assumes g: "mat_graph (mt_g m)" and n: "2 * sscCount (mt_g m) + 2 \<le> n" and k: "k < sscCount (mt_g m)"
  shows "step_returns (rewriteComponent n m k)"
proof -
  have c: "condensation_ok (mt_g m)" "listed_components (mt_g m)" using g by (simp_all add: mat_graph_def)
  note w = walk_endsD [OF walk_ends_all [OF g, of n]]
  have h: "height (mt_g m) j \<le> sscCount (mt_g m)" for j by (simp add: height_def)
  note hn = order.trans [OF add_mono [OF mult_le_mono2 [OF h] order_refl] n]
  have hn1: "2 * height (mt_g m) j + 1 \<le> n" for j using hn [of j] by simp
  have tabs: "c_tables (scc (mt_g m) ! k) = List.map (\<lambda>v. (v, g_tables (mt_g m) ! v)) (part (visited (mt_g m)) k)"
    using c(1) k by (simp add: condensation_ok_def)
  have cyc: "step_returns (rewriteCyclicTableQuery n m v t)" if "(v, t) \<in> set (c_tables (scc (mt_g m) ! k))" for v t
  proof -
    have v: "v \<in> set (part (visited (mt_g m)) k)" using that by (auto simp: tabs)
    note p = part_component [OF c v]
    have "nth_res (scc (mt_g m)) (vertexComp (mt_g m) v) = Inr x \<Longrightarrow> x = scc (mt_g m) ! k" for x
      using p(2) by (auto dest: nth_resD)
    then have "step_returns (componentCte n m x)" if "nth_res (scc (mt_g m)) (vertexComp (mt_g m) v) = Inr x" for x
      using that w(3) [OF k hn1] by simp
    then show ?thesis unfolding rewriteCyclicTableQuery_def set_query_text_def
      by (intro returns_intros returns_bind [OF w(1) [OF p(1) hn]] returns_bind [where m = "componentCte n m x" for x])
  qed
  have acyc: "step_returns (condsForVertex n m v)"
    if "\<not> hasCycle (scc (mt_g m) ! k)" "first_of (lookup_list (int k) (componentsToOriginalVertexes (mt_g m))) = Inr v" for v
  proof -
    have "v \<in> set (part (visited (mt_g m)) k)"
      using that(2) by (auto simp: listed_part [OF c(2)] first_of_def split: if_splits)
    from part_component [OF c this] that(1) w(2) [OF _ _ hn1] show ?thesis by simp
  qed
  have "nth_res (scc (mt_g m)) k = Inr x \<Longrightarrow> x = scc (mt_g m) ! k" for x by (auto dest: nth_resD)
  with cyc acyc show ?thesis unfolding rewriteComponent_def set_query_text_def
    by (intro returns_intros returns_bind [where m = "condsForVertex n m v" for v]) auto
qed

lemma materialize_returns:
  assumes "mat_graph (mt_g m)" "2 * sscCount (mt_g m) + 2 \<le> n" "\<forall>k \<in> set compIdxs. k < sscCount (mt_g m)"
  shows "step_returns (MaterializeSubsetQueries n m compIdxs)"
  unfolding MaterializeSubsetQueries_def
  using assms by (intro returns_intros rewrite_returns) auto

end
