(* ===== verification/SubsetMaterializeClaims.thy ===== *)
theory SubsetMaterializeClaims
  imports SubsetValuesProps
begin

text \<open>The properties of the materialized key sets, and what goes wrong with them.\<close>

definition named_table :: "nat \<Rightarrow> string \<Rightarrow> string list \<Rightarrow> Table" where
  "named_table i name conds = (sample_table i)\<lparr>t_Name := name, t_SubsetConds := conds\<rparr>"

definition ref_to :: "string \<Rightarrow> string \<Rightarrow> string \<Rightarrow> Reference" where
  "ref_to name key refKey =
     \<lparr>ref_Schema = ''s'', ref_Name = name, ReferencedKeys = [key], RefTableKeys = [refKey], ref_IsNullable = False\<rparr>"

definition temp_tables :: "Graph \<Rightarrow> (nat \<rightharpoonup> Path) \<Rightarrow> string \<Rightarrow> tempTablesMaterializer" where
  "temp_tables g paths sch = \<lparr>tm_g = g, tm_paths = paths, tm_schema = sch, tm_exec = (\<lambda>_ _. True)\<rparr>"

text \<open>A comment belongs to the row of \<^verbatim>\<open>posts\<close> with the number \<^verbatim>\<open>owner\<close> if its \<^verbatim>\<open>kind\<close> is 1.\<close>

definition comment_tables :: "Table list" where
  "comment_tables = [named_table 0 ''comments'' [], named_table 1 ''posts'' [''id < 9'']]"

definition comment_virtual :: "VirtualReference list" where
  "comment_virtual = [\<lparr>vr_Schema = ''s'', vr_Name = ''comments'', vr_References =
     [\<lparr>dref_Schema = ''s'', dref_Name = ''posts'', dref_NotNull = True, dref_Columns = [(''owner'', '''')],
       dref_PolymorphicExprs = [''kind = 1'']\<rparr>]\<rparr>]"

definition no_refs :: "32 word \<Rightarrow> Reference list res" where "no_refs oid = Inr []"

definition occurs_in :: "string \<Rightarrow> string \<Rightarrow> bool" where
  "occurs_in s t \<longleftrightarrow> list_ex (\<lambda>i. take (length s) (drop i t) = s) [0..<length t]"

text \<open>
  The key sets lose polymorphic references: with a reference of comments to posts that holds for one
  kind only, the check for unsupported references, which looks inside the components, finds nothing; the query
  of the comments then compares the owner of every comment with the kept posts, whatever its kind, while the
  query without key sets tests the kind.
\<close>

lemma polymorphic_reference_loses_condition:
  "case NewGraph no_refs comment_tables comment_virtual of
     Inl _ \<Rightarrow> False
   | Inr g \<Rightarrow> (case findSubsetVertexes g of
         Inl _ \<Rightarrow> False
       | Inr paths \<Rightarrow>
           materializationSupported g paths \<and>
           (case MaterializeSubsetQueriesTempTables 9 (temp_tables g paths ''x'') [0, 1] (temp_init Map.empty) of
              Some (Inr (b, s)) \<Rightarrow> b \<and> tm_query s 0 = Some (dump_query (comment_tables ! 0)
                [semi_join [column_ref (comment_tables ! 0) ''owner''] [''id'']
                   (quoted ''x'' @ ''.'' @ quoted ''gm_ids_s__posts'')])
            | _ \<Rightarrow> False) \<and>
           (case SetSubsetQueries 9 g of
              Inl _ \<Rightarrow> False
            | Inr q \<Rightarrow> (case q 0 of None \<Rightarrow> False | Some t \<Rightarrow> occurs_in ''kind = 1'' t)))"
  by code_simp

text \<open>
  Claim C10. With references whose keys match and a primary key on every restricted table of a cycle, and as long
  as no statement fails, the key-set tables are built for good: the walk returns, each table is created once and
  after the tables of every reference that leaves its component; the query of every restricted table is its own
  conditions and one semi-join for each reference to a restricted table (its own key set if it is on a cycle);
  and each semi-join reads a table that was created, and columns the table has.
\<close>

theorem temp_tables_materialized:
  assumes "keys_match refs tables vr" and "NewGraph refs tables vr = Inr g" and "findSubsetVertexes g = Inr paths"
    and "materializationSupported g paths" and "set compIdxs = dom paths" and "sscCount g < n"
    and "\<forall>v < length tables. paths (vertexComp g v) \<noteq> None \<longrightarrow> hasCycle (scc g ! vertexComp g v) \<longrightarrow>
       t_PrimaryKey (tables ! v) \<noteq> []"
  shows "\<exists>s. MaterializeSubsetQueriesTempTables n (temp_tables g paths sch) compIdxs (temp_init q) = Some (Inr (True, s)) \<and>
    distinct (created s) \<and>
    (\<forall>v \<in> set (created s). \<forall>e \<in> set (external_edges g paths (vertexComp g v) v). before (edge_target e) v (created s)) \<and>
    (\<forall>v < length tables. paths (vertexComp g v) \<noteq> None \<longrightarrow>
       tm_query s v = Some (dump_query (tables ! v) (final_conds (temp_tables g paths sch) v)) \<and>
       set (final_reads (temp_tables g paths sch) v) \<subseteq> set (created s) \<and>
       (\<forall>e \<in> set (restricted_edges g paths v).
          set (to_cols e) \<subseteq> set (neededCols (temp_tables g paths sch) (edge_target e))))"
proof -
  let ?m = "temp_tables g paths sch"
  have m: "tm_ok ?m" "g_tables g = tables"
    using temp_tables_ok [OF assms(1-3,7)] by (simp_all add: temp_tables_def)
  have f: "tm_g ?m = g" "tm_paths ?m = paths" by (simp_all add: temp_tables_def)
  obtain s where s: "MaterializeSubsetQueriesTempTables n ?m compIdxs (temp_init q) = Some (Inr (True, s))"
    "tm_inv ?m s" "\<forall>v. wanted ?m v \<longrightarrow> rewritten ?m v s"
    using temp_tables_run [OF m(1)] assms(4,5,6) f by metis
  have inv: "distinct (created s)" "\<forall>v \<in> set (created s). ids_entry_ok ?m s v" using s(2) by (simp_all add: tm_inv_def)
  then have refs: "\<forall>v \<in> set (created s). \<forall>e \<in> set (external_edges g paths (vertexComp g v) v). before (edge_target e) v (created s)"
    by (simp add: ids_entry_ok_def leaving_def f)
  have w: "wanted ?m v" if "v < length tables" "paths (vertexComp g v) \<noteq> None" for v
    using that by (simp add: wanted_def f m(2))
  have "tm_query s v = Some (dump_query (tables ! v) (final_conds ?m v)) \<and> set (final_reads ?m v) \<subseteq> set (created s)"
    if "v < length tables" "paths (vertexComp g v) \<noteq> None" for v
    using s(3) w [OF that] by (simp add: rewritten_def f m(2))
  moreover have "set (to_cols e) \<subseteq> set (neededCols ?m (edge_target e))"
    if "v < length tables" "paths (vertexComp g v) \<noteq> None" "e \<in> set (restricted_edges g paths v)" for v e
    using neededCols_cover [OF m(1) w [OF that(1,2)]] that(3) by (simp add: f)
  ultimately show ?thesis using s(1) inv(1) refs by blast
qed

text \<open>Orders and their items refer to customers; employees and departments refer to each other.\<close>

definition shop_tables :: "Table list" where
  "shop_tables = [named_table 0 ''items'' [], named_table 1 ''orders'' [], named_table 2 ''employees'' [''id < 9''],
     named_table 3 ''departments'' []]"

definition shop_refs :: "32 word \<Rightarrow> Reference list res" where
  "shop_refs oid = Inr (if oid = 100 then [ref_to ''orders'' ''order_id'' ''id'', ref_to ''employees'' ''by'' ''id'']
     else if oid = 101 then [ref_to ''departments'' ''dep_id'' ''id'']
     else if oid = 102 then [ref_to ''departments'' ''dep_id'' ''id'']
     else [ref_to ''employees'' ''head_id'' ''id''])"

lemma shop_ok: "keys_match shop_refs shop_tables []"
  by (simp add: keys_match_def shop_refs_def ref_to_def)

lemma shop_supported:
  "case NewGraph shop_refs shop_tables [] of
     Inl _ \<Rightarrow> False
   | Inr g \<Rightarrow> (case findSubsetVertexes g of Inl _ \<Rightarrow> False
       | Inr paths \<Rightarrow> materializationSupported g paths \<and> sscCount g = 3 \<and>
           list_all (\<lambda>c. paths c \<noteq> None) [0..<3])"
  by code_simp

theorem temp_tables_materialized_witness:
  "\<exists>g paths s. NewGraph shop_refs shop_tables [] = Inr g \<and> dom paths = {..<3} \<and>
    MaterializeSubsetQueriesTempTables 4 (temp_tables g paths ''x'') [2, 0, 1] (temp_init Map.empty) = Some (Inr (True, s)) \<and>
    distinct (created s) \<and>
    (\<forall>v < 4. set (final_reads (temp_tables g paths ''x'') v) \<subseteq> set (created s))"
proof -
  obtain g where g: "NewGraph shop_refs shop_tables [] = Inr g" "plain_graph g" using NewGraph_plain [OF shop_ok] by blast
  then have c: "condensation_ok g" by (simp add: plain_graph_def)
  obtain paths where p: "findSubsetVertexes g = Inr paths" "\<forall>v. paths v \<noteq> None \<longleftrightarrow> v < sscCount g \<and> restricted g v"
    using findSubsetVertexes_facts [OF c] by blast
  have sup: "materializationSupported g paths" "sscCount g = 3" "list_all (\<lambda>c. paths c \<noteq> None) [0..<3]"
    using shop_supported g(1) p(1) by simp_all
  have d: "dom paths = {..<3}" using sup(2,3) p(2) by (auto simp: list_all_iff)
  have len: "length shop_tables = 4" by (simp add: shop_tables_def)
  have lt: "g_tables g = shop_tables" using NewGraph_plain [OF shop_ok] g(1) by auto
  have all: "paths (vertexComp g v) \<noteq> None" if "v < 4" for v
    using vertex_component(2) [OF c NewGraph_listed [OF g(1)], of v] that sup(2) d by (auto simp: lt len dom_def)
  have pk: "\<forall>v < length shop_tables. paths (vertexComp g v) \<noteq> None \<longrightarrow> hasCycle (scc g ! vertexComp g v) \<longrightarrow>
       t_PrimaryKey (shop_tables ! v) \<noteq> []"
    by (auto simp: len less_Suc_eq numeral_eq_Suc shop_tables_def named_table_def sample_table_def)
  have cs: "set [2, 0, 1] = dom paths" unfolding d by auto
  obtain s where "MaterializeSubsetQueriesTempTables 4 (temp_tables g paths ''x'') [2, 0, 1] (temp_init Map.empty) = Some (Inr (True, s))"
    "distinct (created s)" "\<forall>v < 4. set (final_reads (temp_tables g paths ''x'') v) \<subseteq> set (created s)"
    using temp_tables_materialized [OF shop_ok g(1) p(1) sup(1) cs _ pk, where n = 4 and sch = "''x''" and q = Map.empty]
      sup(2) all by (auto simp: len)
  with g(1) d show ?thesis by (intro exI [of _ g] exI [of _ paths] exI [of _ s] conjI)
qed

text \<open>
  Claim C11. Fetching the key sets ends on every graph that is built from references that can be read, whatever
  the database answers to the queries: with fuel of two calls for each component the walk returns.
\<close>

theorem materialization_returns:
  assumes "\<forall>t \<in> set tables. \<exists>rs. refs (t_Oid t) = Inr rs"
  shows "\<exists>g paths. NewGraph refs tables vr = Inr g \<and> findSubsetVertexes g = Inr paths \<and>
    (\<exists>r. MaterializeSubsetQueries (2 * sscCount g + 2) \<lparr>mt_g = g, mt_paths = paths, mt_rows = rows\<rparr>
       (filter (\<lambda>c. paths c \<noteq> None) [0..<sscCount g]) s = Some r)"
proof -
  obtain g where g: "NewGraph refs tables vr = Inr g" "condensation_ok g" using NewGraph_ok [OF assms] by blast
  obtain paths where p: "findSubsetVertexes g = Inr paths" using findSubsetVertexes_facts [OF g(2)] by blast
  let ?m = "\<lparr>mt_g = g, mt_paths = paths, mt_rows = rows\<rparr>"
  have "step_returns (MaterializeSubsetQueries (2 * sscCount g + 2) ?m (filter (\<lambda>c. paths c \<noteq> None) [0..<sscCount g]))"
    by (rule materialize_returns) (use g NewGraph_listed [OF g(1)] in \<open>auto simp: mat_graph_def\<close>)
  with g(1) p show ?thesis by (auto simp: step_returns_def)
qed

theorem materialization_returns_witness:
  "\<exists>g paths. NewGraph shop_refs shop_tables [] = Inr g \<and> findSubsetVertexes g = Inr paths \<and>
    (\<exists>r. MaterializeSubsetQueries (2 * sscCount g + 2) \<lparr>mt_g = g, mt_paths = paths, mt_rows = (\<lambda>_ _. err ''closed'')\<rparr>
       (filter (\<lambda>c. paths c \<noteq> None) [0..<sscCount g]) (mat_init Map.empty) = Some r)"
  by (rule materialization_returns) (simp add: shop_refs_def)

end
