(* ===== verification/RestoreTable.thy ===== *)
theory RestoreTable
  imports DumpPipeline Restore
begin

text \<open>
  The restoration of one table, \<^verbatim>\<open>internal/db/postgres/restorers/{base,table,table_insert_format}.go\<close> and
  \<^verbatim>\<open>internal/utils/reader\<close>: the lines of a dump file are sent with \<^verbatim>\<open>COPY\<close>, in one piece or in batches, or inserted
  row by row.

  The state is the log of what the server was asked to do, the messages it still answers, the number of times the
  context was looked at and the statement an insert restorer keeps. What the server does is a parameter: \<open>fails\<close> says
  for the log so far and the next request whether it fails, \<open>cancelled n\<close> whether the context is done when it is looked
  at for the \<open>n\<close>-th time. An error is what \<^verbatim>\<open>errors.Is\<close> and \<^verbatim>\<open>errors.As\<close> find in it: the texts put around it with
  \<^verbatim>\<open>%w\<close> are left out.
\<close>

section \<open>Reading lines\<close>

text \<open>One call of \<^verbatim>\<open>Read\<close> gives bytes and perhaps an error, \<open>EOF\<close> or another one.\<close>

datatype dberr = DbPg "byte list" "byte list" | DbOther string | DbPanic string

datatype readErr = EOF | ReadErr dberr

type_synonym readCalls = "(byte list \<times> readErr option) list"

text \<open>What a \<^verbatim>\<open>bufio.Reader\<close> takes from these calls: all bytes up to the first error, and that error.\<close>

fun source_bytes :: "readCalls \<Rightarrow> byte list" where
  "source_bytes [] = []"
| "source_bytes ((d, None) # rs) = d @ source_bytes rs"
| "source_bytes ((d, Some e) # rs) = d"

fun source_end :: "readCalls \<Rightarrow> readErr" where
  "source_end [] = EOF"
| "source_end ((d, None) # rs) = source_end rs"
| "source_end ((d, Some e) # rs) = e"

text \<open>
  \<^verbatim>\<open>bufio.Reader.ReadLine\<close> with its buffer of 4096 bytes: the line without its terminator, or the full buffer as a
  prefix of the line. A carriage return at the end of a full buffer is put back. \<open>None\<close> is the error of the source.
\<close>

definition defaultBufSize :: nat where "defaultBufSize = 4096"

definition strip_cr :: "byte list \<Rightarrow> byte list" where
  "strip_cr line = (if line \<noteq> [] \<and> last line = 0x0D then butlast line else line)"

definition bufio_ReadLine :: "byte list \<Rightarrow> ((byte list \<times> bool) \<times> byte list) option" where
  "bufio_ReadLine bs =
     (let w = take defaultBufSize bs
      in case index_func (\<lambda>b. b = 0x0A) w of
           Some i \<Rightarrow> Some ((strip_cr (take i w), False), drop (Suc i) bs)
         | None \<Rightarrow>
             if length bs \<ge> defaultBufSize then
               (if last w = 0x0D then Some ((butlast w, True), drop (defaultBufSize - 1) bs)
                else Some ((w, True), drop defaultBufSize bs))
             else if bs = [] then None else Some ((bs, False), []))"

lemma bufio_ReadLine_shorter: "bufio_ReadLine bs = Some (l, rest) \<Longrightarrow> length rest < length bs"
  by (cases "bs = []")
     (auto simp: bufio_ReadLine_def defaultBufSize_def Let_def split: option.splits if_splits)

text \<open>\<^verbatim>\<open>reader.ReadLine\<close>: prefixes are joined until the line is complete.\<close>

function ReadLine :: "byte list \<Rightarrow> byte list \<Rightarrow> (byte list \<times> byte list) option" where
  "ReadLine buf bs =
     (case bufio_ReadLine bs of
        None \<Rightarrow> None
      | Some ((line, isPrefix), rest) \<Rightarrow>
          if isPrefix then ReadLine (buf @ line) rest else Some (buf @ line, rest))"
  by pat_completeness auto
termination
  by (relation "measure (\<lambda>(buf, bs). length bs)") (auto dest: bufio_ReadLine_shorter)

declare ReadLine.simps [simp del]

lemma ReadLine_shorter: "ReadLine buf bs = Some (line, rest) \<Longrightarrow> length rest < length bs"
proof (induction buf bs rule: ReadLine.induct)
  case (1 buf bs)
  obtain l p r where b: "bufio_ReadLine bs = Some ((l, p), r)"
    using 1(2) by (auto simp: ReadLine.simps [of buf bs] split: option.splits)
  have "length r < length bs" using b by (rule bufio_ReadLine_shorter)
  with b 1(2) 1(1) [OF b refl refl] show ?case
    by (cases p) (auto simp: ReadLine.simps [of buf bs])
qed

definition isTerminationSeq :: "byte list \<Rightarrow> bool res" where
  "isTerminationSeq line =
     (case line of
        [] \<Rightarrow> panic ''index out of range''
      | c # cs \<Rightarrow>
          if c = 0x5C then (case cs of [] \<Rightarrow> panic ''index out of range'' | d # ds \<Rightarrow> Inr (d = 0x2E))
          else Inr False)"

section \<open>Requests to the server\<close>

datatype frontendMsg = FQuery "byte list" | FCopyData "byte list" | FCopyDone

datatype backendMsg = BCopyIn | BError "byte list" "byte list" | BComplete | BReady | BOther string

datatype dbRequest =
    SqlBegin
  | SqlExec "byte list" "gostr list"
  | SqlCommit
  | SqlRollback
  | Send frontendMsg
  | LoOpen "32 word"
  | LoWrite "32 word" "byte list"
  | LoClose "32 word"

record dbst =
  ds_log :: "dbRequest list"
  ds_in :: "backendMsg list"
  ds_looks :: nat
  ds_query :: "byte list"

record DbEnv =
  fails :: "dbRequest list \<Rightarrow> dbRequest \<Rightarrow> dberr option"
  cancelled :: "nat \<Rightarrow> bool"

type_synonym 'a dbAct = "dbst \<Rightarrow> dbst \<times> (dberr + 'a)"

definition retA :: "'a \<Rightarrow> 'a dbAct" where "retA a s = (s, Inr a)"

definition failA :: "dberr \<Rightarrow> 'a dbAct" where "failA e s = (s, Inl e)"

definition bindA :: "'a dbAct \<Rightarrow> ('a \<Rightarrow> 'b dbAct) \<Rightarrow> 'b dbAct" where
  "bindA m f s = (case m s of (s', Inl e) \<Rightarrow> (s', Inl e) | (s', Inr a) \<Rightarrow> f a s')"

text \<open>\<^verbatim>\<open>if err != nil\<close>: a panic is no error and is not handled.\<close>

definition onErr :: "'a dbAct \<Rightarrow> (dberr \<Rightarrow> 'a dbAct) \<Rightarrow> 'a dbAct" where
  "onErr m h s =
     (case m s of
        (s', Inr a) \<Rightarrow> (s', Inr a)
      | (s', Inl (DbPanic p)) \<Rightarrow> (s', Inl (DbPanic p))
      | (s', Inl e) \<Rightarrow> h e s')"

definition whenA :: "bool \<Rightarrow> unit dbAct \<Rightarrow> unit dbAct" where
  "whenA b m = (if b then m else retA ())"

fun dbFault :: "fault \<Rightarrow> dberr" where
  "dbFault (Panic p) = DbPanic p"
| "dbFault (Err e) = DbOther e"

definition liftA :: "'a res \<Rightarrow> 'a dbAct" where
  "liftA m = (case m of Inl f \<Rightarrow> failA (dbFault f) | Inr a \<Rightarrow> retA a)"

definition request :: "DbEnv \<Rightarrow> dbRequest \<Rightarrow> unit dbAct" where
  "request env q s =
     (s\<lparr>ds_log := ds_log s @ [q]\<rparr>, case fails env (ds_log s) q of None \<Rightarrow> Inr () | Some e \<Rightarrow> Inl e)"

definition exec :: "DbEnv \<Rightarrow> byte list \<Rightarrow> unit dbAct" where
  "exec env q = request env (SqlExec q [])"

text \<open>The \<^verbatim>\<open>select\<close> with a default branch.\<close>

definition ctxDoneErr :: dberr where "ctxDoneErr = DbOther ''context canceled''"

definition checkCtx :: "DbEnv \<Rightarrow> unit dbAct" where
  "checkCtx env s =
     (s\<lparr>ds_looks := Suc (ds_looks s)\<rparr>, if cancelled env (ds_looks s) then Inl ctxDoneErr else Inr ())"

text \<open>\<^verbatim>\<open>Receive\<close>; with no message left the connection is closed.\<close>

definition receiveMsg :: "backendMsg dbAct" where
  "receiveMsg s =
     (case ds_in s of
        [] \<Rightarrow> (s, Inl (DbOther ''unexpected EOF''))
      | m # ms \<Rightarrow> (s\<lparr>ds_in := ms\<rparr>, Inr m))"

definition sendMessage :: "DbEnv \<Rightarrow> frontendMsg \<Rightarrow> unit dbAct" where
  "sendMessage env m = request env (Send m)"

section \<open>Around the data\<close>

record DataSectionSettings =
  ExitOnError :: bool
  BatchSize :: int
  ds_OnConflictDoNothing :: bool
  OverridingSystemValue :: bool
  DisableTriggers :: bool
  SuperUser :: "byte list"
  UseSessionReplicationRoleReplica :: bool

record restoreBase =
  rb_opt :: DataSectionSettings
  rb_entry :: Entry

definition DebugInfo :: "restoreBase \<Rightarrow> byte list res" where
  "DebugInfo rb =
     bindR (deref (Namespace (rb_entry rb))) (\<lambda>n. bindR (deref (Tag (rb_entry rb))) (\<lambda>t.
       Inr (ascii ''table '' @ n @ ascii ''.'' @ t)))"

text \<open>An error whose text names the table.\<close>

definition failDebug :: "restoreBase \<Rightarrow> dberr \<Rightarrow> 'a dbAct" where
  "failDebug rb e = bindA (liftA (DebugInfo rb)) (\<lambda>_. failA e)"

definition setSuperUser :: "DbEnv \<Rightarrow> restoreBase \<Rightarrow> unit dbAct" where
  "setSuperUser env rb =
     whenA (SuperUser (rb_opt rb) \<noteq> []) (exec env (ascii ''SET ROLE '' @ SuperUser (rb_opt rb)))"

definition resetSuperUser :: "DbEnv \<Rightarrow> restoreBase \<Rightarrow> unit dbAct" where
  "resetSuperUser env rb = whenA (SuperUser (rb_opt rb) \<noteq> []) (exec env (ascii ''RESET ROLE''))"

definition setSessionReplicationRole :: "DbEnv \<Rightarrow> restoreBase \<Rightarrow> unit dbAct" where
  "setSessionReplicationRole env rb =
     bindA (setSuperUser env rb) (\<lambda>_.
     bindA (whenA (UseSessionReplicationRoleReplica (rb_opt rb))
              (exec env (ascii ''SET session_replication_role = '' @ [0x27] @ ascii ''replica'' @ [0x27]))) (\<lambda>_.
     resetSuperUser env rb))"

definition resetSessionReplicationRole :: "DbEnv \<Rightarrow> restoreBase \<Rightarrow> unit dbAct" where
  "resetSessionReplicationRole env rb =
     bindA (setSuperUser env rb) (\<lambda>_.
     bindA (whenA (UseSessionReplicationRoleReplica (rb_opt rb))
              (exec env (ascii ''RESET session_replication_role''))) (\<lambda>_.
     resetSuperUser env rb))"

definition alterTriggers :: "Entry \<Rightarrow> string \<Rightarrow> byte list res" where
  "alterTriggers e what =
     bindR (deref (Namespace e)) (\<lambda>n. bindR (deref (Tag e)) (\<lambda>t.
       Inr (ascii ''ALTER TABLE '' @ n @ ascii ''.'' @ t @ ascii what)))"

definition disableTriggers :: "DbEnv \<Rightarrow> restoreBase \<Rightarrow> unit dbAct" where
  "disableTriggers env rb =
     whenA (DisableTriggers (rb_opt rb))
       (bindA (setSuperUser env rb) (\<lambda>_.
        bindA (liftA (alterTriggers (rb_entry rb) '' DISABLE TRIGGER ALL'')) (\<lambda>q.
        bindA (exec env q) (\<lambda>_. resetSuperUser env rb))))"

definition enableTriggers :: "DbEnv \<Rightarrow> restoreBase \<Rightarrow> unit dbAct" where
  "enableTriggers env rb =
     whenA (DisableTriggers (rb_opt rb))
       (bindA (setSuperUser env rb) (\<lambda>_.
        bindA (liftA (alterTriggers (rb_entry rb) '' ENABLE TRIGGER ALL'')) (\<lambda>q.
        bindA (exec env q) (\<lambda>_. resetSuperUser env rb))))"

definition setupTx :: "DbEnv \<Rightarrow> restoreBase \<Rightarrow> unit dbAct" where
  "setupTx env rb = bindA (setSessionReplicationRole env rb) (\<lambda>_. disableTriggers env rb)"

definition resetTx :: "DbEnv \<Rightarrow> restoreBase \<Rightarrow> unit dbAct" where
  "resetTx env rb = bindA (enableTriggers env rb) (\<lambda>_. resetSessionReplicationRole env rb)"

definition rollbackTransaction :: "DbEnv \<Rightarrow> Entry \<Rightarrow> unit dbAct" where
  "rollbackTransaction env e =
     onErr (request env SqlRollback) (\<lambda>_.
       bindA (liftA (deref (Namespace e))) (\<lambda>_. bindA (liftA (deref (Tag e))) (\<lambda>_. retA ())))"

text \<open>The dump file: its name must be there, \<open>openDump\<close> is the storage and the decompression.\<close>

definition getObject :: "(byte list \<Rightarrow> dberr + readCalls) \<Rightarrow> restoreBase \<Rightarrow> readCalls dbAct" where
  "getObject openDump rb =
     (case FileName (rb_entry rb) of
        None \<Rightarrow> failA (DbOther ''file name in toc.Entry is empty'')
      | Some f \<Rightarrow> (case openDump f of Inl e \<Rightarrow> failA e | Inr rs \<Rightarrow> retA rs))"

section \<open>Restoring with COPY\<close>

definition initCopy :: "DbEnv \<Rightarrow> byte list \<Rightarrow> unit dbAct" where
  "initCopy env stmt =
     bindA (sendMessage env (FQuery stmt)) (\<lambda>_.
     bindA (checkCtx env) (\<lambda>_.
     bindA receiveMsg (\<lambda>m.
       case m of
         BCopyIn \<Rightarrow> retA ()
       | BError code con \<Rightarrow> failA (DbOther ''error from postgres connection'')
       | _ \<Rightarrow> failA (DbOther ''unknown message''))))"

text \<open>The loop of \<^verbatim>\<open>postStreamingHandle\<close> takes messages until the server is ready; it keeps the last error.\<close>

fun drain :: "DbEnv \<Rightarrow> dberr option \<Rightarrow> backendMsg list \<Rightarrow> nat \<Rightarrow> (backendMsg list \<times> nat) \<times> (dberr + unit)" where
  "drain env mainErr [] n =
     (([], Suc n), Inl (if cancelled env n then ctxDoneErr else DbOther ''unexpected EOF''))"
| "drain env mainErr (m # ms) n =
     (if cancelled env n then ((m # ms, Suc n), Inl ctxDoneErr)
      else case m of
        BComplete \<Rightarrow> drain env mainErr ms (Suc n)
      | BReady \<Rightarrow> ((ms, Suc n), case mainErr of None \<Rightarrow> Inr () | Some e \<Rightarrow> Inl e)
      | BError code con \<Rightarrow> drain env (Some (DbOther ''error from postgres connection'')) ms (Suc n)
      | _ \<Rightarrow> ((ms, Suc n), Inl (DbOther ''unknown message'')))"

definition postStreamingHandle :: "DbEnv \<Rightarrow> unit dbAct" where
  "postStreamingHandle env =
     bindA (sendMessage env FCopyDone) (\<lambda>_ s.
       case drain env None (ds_in s) (ds_looks s) of
         ((ms, n), r) \<Rightarrow> (s\<lparr>ds_in := ms, ds_looks := n\<rparr>, r))"

definition completeBatch :: "DbEnv \<Rightarrow> byte list \<Rightarrow> unit dbAct" where
  "completeBatch env stmt = bindA (postStreamingHandle env) (\<lambda>_. initCopy env stmt)"

text \<open>\<open>n\<close> is \<^verbatim>\<open>lineNum\<close>; a file of \<open>2 ^ 63\<close> lines is out of reach.\<close>

function streamCopyDataByBatch :: "DbEnv \<Rightarrow> byte list \<Rightarrow> int \<Rightarrow> readErr \<Rightarrow> int \<Rightarrow> byte list \<Rightarrow> unit dbAct" where
  "streamCopyDataByBatch env stmt batch rend n bs =
     (case ReadLine [] bs of
        None \<Rightarrow> (case rend of EOF \<Rightarrow> retA () | ReadErr e \<Rightarrow> failA e)
      | Some (line, rest) \<Rightarrow>
          (case isTerminationSeq line of
             Inl f \<Rightarrow> failA (dbFault f)
           | Inr True \<Rightarrow> retA ()
           | Inr False \<Rightarrow>
               bindA (sendMessage env (FCopyData (line @ [0x0A]))) (\<lambda>_.
               bindA (whenA ((n + 1) mod batch = 0) (completeBatch env stmt)) (\<lambda>_.
               bindA (checkCtx env) (\<lambda>_.
               streamCopyDataByBatch env stmt batch rend (n + 1) rest)))))"
  by pat_completeness auto
termination
  by (relation "measure (\<lambda>(env, stmt, batch, rend, n, bs). length bs)") (auto dest: ReadLine_shorter)

declare streamCopyDataByBatch.simps [simp del]

text \<open>\<^verbatim>\<open>streamCopyData\<close> sends what each \<^verbatim>\<open>Read\<close> gives; bytes that come with an error are not sent.\<close>

fun streamCopyData :: "DbEnv \<Rightarrow> readCalls \<Rightarrow> unit dbAct" where
  "streamCopyData env [] = retA ()"
| "streamCopyData env ((d, None) # rs) =
     bindA (sendMessage env (FCopyData d)) (\<lambda>_. bindA (checkCtx env) (\<lambda>_. streamCopyData env rs))"
| "streamCopyData env ((d, Some EOF) # rs) = retA ()"
| "streamCopyData env ((d, Some (ReadErr e)) # rs) = failA e"

definition restoreCopy :: "DbEnv \<Rightarrow> DataSectionSettings \<Rightarrow> byte list \<Rightarrow> readCalls \<Rightarrow> unit dbAct" where
  "restoreCopy env opt stmt rs =
     bindA (initCopy env stmt) (\<lambda>_.
     bindA (if BatchSize opt > 0
            then streamCopyDataByBatch env stmt (BatchSize opt) (source_end rs) 0 (source_bytes rs)
            else streamCopyData env rs) (\<lambda>_.
     postStreamingHandle env))"

definition Table_Execute :: "DbEnv \<Rightarrow> (byte list \<Rightarrow> dberr + readCalls) \<Rightarrow> restoreBase \<Rightarrow> unit dbAct" where
  "Table_Execute env openDump td =
     (if FileName (rb_entry td) = None then failA (DbOther ''cannot get file name from toc Entry'')
      else
        bindA (getObject openDump td) (\<lambda>r.
        bindA (onErr (request env SqlBegin) (failDebug td)) (\<lambda>_.
        bindA (setupTx env td) (\<lambda>_.
        bindA (liftA (deref (CopyStmt (rb_entry td)))) (\<lambda>stmt s.
          case restoreCopy env (rb_opt td) stmt r s of
            (s1, Inl (DbPanic p)) \<Rightarrow> (s1, Inl (DbPanic p))
          | (s1, Inl e) \<Rightarrow>
              bindA (rollbackTransaction env (rb_entry td)) (\<lambda>_.
                if ExitOnError (rb_opt td) then failA e
                else bindA (liftA (DebugInfo td)) (\<lambda>_. retA ())) s1
          | (s1, Inr _) \<Rightarrow>
              bindA (onErr (resetTx env td) (\<lambda>e.
                       bindA (rollbackTransaction env (rb_entry td)) (\<lambda>_.
                         if ExitOnError (rb_opt td) then failA e else retA ()))) (\<lambda>_.
              onErr (request env SqlCommit) (failDebug td)) s1)))))"

section \<open>Restoring with INSERT\<close>

record Exclusion =
  ErrorCodes :: "byte list list"
  Constraints :: "byte list list"

record TableExclusion = Exclusion +
  te_Schema :: "byte list"
  te_Name :: "byte list"

record ErrorExclusions =
  ex_Tables :: "TableExclusion list"
  ex_Global :: "Exclusion option"

text \<open>The table with the partitioned table it belongs to.\<close>

record PartTable = Table +
  RootPtOid :: "32 word"
  RootPtName :: string
  RootPtSchema :: string

record InsertRestorer = restoreBase +
  ir_Table :: PartTable
  globalExclusions :: "Exclusion option"
  tableExclusion :: "TableExclusion option"

definition quoted_bytes :: "byte list \<Rightarrow> byte list" where
  "quoted_bytes s = [bquote] @ s @ [bquote]"

text \<open>\<^verbatim>\<open>slices.IndexFunc\<close> with the names of the entry: the name of the table is looked at when the schema fits.\<close>

fun find_exclusion :: "Entry \<Rightarrow> TableExclusion list \<Rightarrow> TableExclusion option res" where
  "find_exclusion e [] = Inr None"
| "find_exclusion e (t # ts) =
     bindR (deref (Namespace e)) (\<lambda>n.
       let schema = quoted_bytes (te_Schema t);
           schema = (if length (te_Schema t) > 0 \<and> te_Schema t ! 0 \<noteq> bquote
                     then quoted_bytes (te_Schema t) else schema);
           name = quoted_bytes (te_Name t);
           name = (if length (te_Name t) > 0 \<and> te_Name t ! 0 \<noteq> bquote then quoted_bytes (te_Name t) else name)
       in if schema = n
          then bindR (deref (Tag e)) (\<lambda>tag. if name = tag then Inr (Some t) else find_exclusion e ts)
          else find_exclusion e ts)"

definition NewTableRestorerInsertFormat ::
    "Entry \<Rightarrow> PartTable \<Rightarrow> DataSectionSettings \<Rightarrow> ErrorExclusions option \<Rightarrow> InsertRestorer res" where
  "NewTableRestorerInsertFormat e t opt exclusions =
     (case exclusions of
        None \<Rightarrow>
          Inr \<lparr>rb_opt = opt, rb_entry = e, ir_Table = t, globalExclusions = None, tableExclusion = None\<rparr>
      | Some ex \<Rightarrow>
          bindR (find_exclusion e (ex_Tables ex)) (\<lambda>te.
            Inr \<lparr>rb_opt = opt, rb_entry = e, ir_Table = t, globalExclusions = ex_Global ex, tableExclusion = te\<rparr>))"

definition getRealColumns :: "TableColumn list \<Rightarrow> TableColumn list" where
  "getRealColumns cols = filter (\<lambda>c. \<not> col_IsGenerated c) cols"

definition generateInsertStmt :: "InsertRestorer \<Rightarrow> bool \<Rightarrow> byte list res" where
  "generateInsertStmt td onConflictDoNothing =
     (let columns = getRealColumns (t_Columns (ir_Table td));
          columnNames = map (\<lambda>c. quoted_bytes (ascii (col_Name c))) columns;
          placeholders = map (\<lambda>i. ascii ''$'' @ format_nat (Suc i)) [0..<length columns];
          onConflict = (if onConflictDoNothing then ascii '' ON CONFLICT DO NOTHING'' else []);
          overriding = (if OverridingSystemValue (rb_opt td) then ascii ''OVERRIDING SYSTEM VALUE '' else [])
      in bindR (deref (Tag (rb_entry td))) (\<lambda>tag. bindR (deref (Namespace (rb_entry td))) (\<lambda>ns.
           let tableName = (if RootPtOid (ir_Table td) \<noteq> 0 then ascii (RootPtName (ir_Table td)) else tag);
               tableSchema = (if RootPtOid (ir_Table td) \<noteq> 0 then ascii (RootPtSchema (ir_Table td)) else ns)
           in Inr (ascii ''INSERT INTO '' @ tableSchema @ ascii ''.'' @ tableName @ ascii '' ('' @
                   join_with (ascii '', '') columnNames @ ascii '') '' @ overriding @ ascii ''VALUES('' @
                   join_with (ascii '', '') placeholders @ ascii '')'' @ onConflict))))"

definition getAllArguments :: "Row \<Rightarrow> gostr list res" where
  "getAllArguments row =
     mapR (\<lambda>i. case Row_GetColumn row (int i) of
                 Inl f \<Rightarrow> panic ''error getting column''
               | Inr v \<Rightarrow> Inr (if IsNull v then None else Some (Data v)))
       [0..<Row_Length row]"

text \<open>The statement is generated once.\<close>

definition insertQuery :: "InsertRestorer \<Rightarrow> byte list dbAct" where
  "insertQuery td s =
     (if ds_query s = [] then
        bindA (liftA (generateInsertStmt td (ds_OnConflictDoNothing (rb_opt td))))
          (\<lambda>q s'. (s'\<lparr>ds_query := q\<rparr>, Inr q)) s
      else (s, Inr (ds_query s)))"

abbreviation base_of :: "InsertRestorer \<Rightarrow> restoreBase" where
  "base_of td \<equiv> restoreBase.truncate td"

definition orRollback :: "DbEnv \<Rightarrow> InsertRestorer \<Rightarrow> unit dbAct \<Rightarrow> unit dbAct" where
  "orRollback env td m = onErr m (\<lambda>e. bindA (rollbackTransaction env (rb_entry td)) (\<lambda>_. failA e))"

definition insertData :: "DbEnv \<Rightarrow> InsertRestorer \<Rightarrow> Row \<Rightarrow> unit dbAct" where
  "insertData env td row =
     bindA (insertQuery td) (\<lambda>query.
     bindA (onErr (request env SqlBegin) (failDebug (base_of td))) (\<lambda>_.
     bindA (orRollback env td (setupTx env (base_of td))) (\<lambda>_.
     bindA (liftA (getAllArguments row)) (\<lambda>args.
     bindA (orRollback env td (request env (SqlExec query args))) (\<lambda>_.
     bindA (orRollback env td (resetTx env (base_of td))) (\<lambda>_.
     onErr (request env SqlCommit) (failDebug (base_of td))))))))"

definition isErrorAllowed :: "InsertRestorer \<Rightarrow> dberr \<Rightarrow> bool" where
  "isErrorAllowed td e =
     (case e of
        DbPg code con \<Rightarrow>
          (case tableExclusion td of
             Some te \<Rightarrow> code \<in> set (ErrorCodes te) \<or> con \<in> set (Constraints te)
           | None \<Rightarrow>
               (case globalExclusions td of
                  Some ge \<Rightarrow> code \<in> set (ErrorCodes ge) \<or> con \<in> set (Constraints ge)
                | None \<Rightarrow> False))
      | _ \<Rightarrow> False)"

text \<open>A row whose error the exclusions name is skipped.\<close>

definition insertTolerant :: "DbEnv \<Rightarrow> InsertRestorer \<Rightarrow> Row \<Rightarrow> unit dbAct" where
  "insertTolerant env td row =
     onErr (insertData env td row) (\<lambda>e.
       if \<not> isErrorAllowed td e then failA e
       else bindA (liftA (DebugInfo (base_of td))) (\<lambda>_. retA ()))"

function streamInsertData :: "DbEnv \<Rightarrow> InsertRestorer \<Rightarrow> readErr \<Rightarrow> Row \<Rightarrow> byte list \<Rightarrow> unit dbAct" where
  "streamInsertData env td rend row bs =
     bindA (checkCtx env) (\<lambda>_.
       case ReadLine [] bs of
         None \<Rightarrow> (case rend of EOF \<Rightarrow> retA () | ReadErr e \<Rightarrow> failA e)
       | Some (line, rest) \<Rightarrow>
           (case isTerminationSeq line of
              Inl f \<Rightarrow> failA (dbFault f)
            | Inr True \<Rightarrow> retA ()
            | Inr False \<Rightarrow>
                (case Row_Decode row line of
                   (row1, Some f) \<Rightarrow> failA (dbFault f)
                 | (row1, None) \<Rightarrow>
                     bindA (insertTolerant env td row1) (\<lambda>_.
                     streamInsertData env td rend row1 rest))))"
  by pat_completeness auto
termination
  by (relation "measure (\<lambda>(env, td, rend, row, bs). length bs)") (auto dest: ReadLine_shorter)

declare streamInsertData.simps [simp del]

definition Insert_Execute :: "DbEnv \<Rightarrow> (byte list \<Rightarrow> dberr + readCalls) \<Rightarrow> InsertRestorer \<Rightarrow> unit dbAct" where
  "Insert_Execute env openDump td =
     bindA (getObject openDump (base_of td)) (\<lambda>r.
     bindA (liftA (NewRow UseDynamicSize)) (\<lambda>row.
       onErr (streamInsertData env td (source_end r) row (source_bytes r)) (\<lambda>e.
         if ExitOnError (rb_opt td) then failA e else retA ())))"

end
