(* ===== verification/RestoreTableProps.thy ===== *)
theory RestoreTableProps
  imports RestoreTable
begin

text \<open>
  What the restoration of a table does with a dump file: the lines it reads whatever their length, the statements it
  runs around them, and the rows an insert restorer gives to the server.
\<close>

named_theorems act_simps \<open>running the steps of a restorer\<close>

lemma bindA_run [act_simps]:
  "m s = (s', Inr a) \<Longrightarrow> bindA m f s = f a s'"
  "m s = (s', Inl e) \<Longrightarrow> bindA m f s = (s', Inl e)"
  by (simp_all add: bindA_def)

lemma retA_run [act_simps]: "retA a s = (s, Inr a)"
  by (simp add: retA_def)

lemma failA_run [act_simps]: "failA e s = (s, Inl e)"
  by (simp add: failA_def)

lemma onErr_run [act_simps]: "m s = (s', Inr a) \<Longrightarrow> onErr m h s = (s', Inr a)"
  by (simp add: onErr_def)

lemma onErr_handled: "m s = (s', Inl e) \<Longrightarrow> \<forall>p. e \<noteq> DbPanic p \<Longrightarrow> onErr m h s = h e s'"
  by (cases e) (simp_all add: onErr_def)

lemma whenA_run [act_simps]: "whenA True m = m" "whenA False m = retA ()"
  by (simp_all add: whenA_def)

lemma liftA_run [act_simps]: "liftA (Inr a) = retA a" "liftA (Inl f) = failA (dbFault f)"
  by (simp_all add: liftA_def)

section \<open>Lines\<close>

lemma strip_cr_append: "ys \<noteq> [] \<Longrightarrow> strip_cr (xs @ ys) = xs @ strip_cr ys"
  by (auto simp: strip_cr_def butlast_append)

lemma index_func_first: "\<forall>x \<in> set xs. \<not> p x \<Longrightarrow> p y \<Longrightarrow> index_func p (xs @ y # ys) = Some (length xs)"
  by (induction xs) auto

text \<open>A line of any length is read whole, with a carriage return before its end removed.\<close>

lemma ReadLine_line:
  assumes "0x0A \<notin> set line"
  shows "ReadLine buf (line @ 0x0A # rest) = Some (buf @ strip_cr line, rest)"
  using assms
proof (induction "length line" arbitrary: buf line rule: less_induct)
  case less
  let ?bs = "line @ 0x0A # rest"
  show ?case
  proof (cases "length line < defaultBufSize")
    case True
    have "take defaultBufSize ?bs = line @ 0x0A # take (defaultBufSize - Suc (length line)) rest"
      using True by (simp add: take_Cons' Suc_diff_Suc)
    moreover have "\<forall>x \<in> set line. \<not> x = 0x0A" using less(2) by auto
    ultimately have "bufio_ReadLine ?bs = Some ((strip_cr line, False), rest)"
      by (simp add: bufio_ReadLine_def index_func_first)
    then show ?thesis by (simp add: ReadLine.simps [of buf])
  next
    case False
    let ?w = "take defaultBufSize line"
    have w: "take defaultBufSize ?bs = ?w" using False by simp
    have none: "index_func (\<lambda>b. b = 0x0A) ?w = None"
      using less(2) by (auto simp: index_func_None dest: in_set_takeD)
    have ne: "?w \<noteq> []" "line \<noteq> []" using False by (auto simp: defaultBufSize_def)
    show ?thesis
    proof (cases "last ?w = 0x0D")
      case True
      let ?r = "drop (defaultBufSize - 1) line"
      have r: "?r \<noteq> []" "0x0A \<notin> set ?r" using False less(2)
        by (auto simp: defaultBufSize_def dest: in_set_dropD)
      have "bufio_ReadLine ?bs = Some ((butlast ?w, True), ?r @ 0x0A # rest)"
        using False True none by (simp add: bufio_ReadLine_def Let_def w)
      then have "ReadLine buf ?bs = ReadLine (buf @ butlast ?w) (?r @ 0x0A # rest)"
        by (simp add: ReadLine.simps [of buf])
      also have "\<dots> = Some ((buf @ butlast ?w) @ strip_cr ?r, rest)"
        using False r by (intro less(1)) (auto simp: defaultBufSize_def)
      also have "butlast ?w = take (defaultBufSize - 1) line"
        using False by (simp add: butlast_take)
      finally show ?thesis
        using strip_cr_append [OF r(1), of "take (defaultBufSize - 1) line"] by simp
    next
      case cr: False
      let ?r = "drop defaultBufSize line"
      have r: "0x0A \<notin> set ?r" using less(2) by (auto dest: in_set_dropD)
      have "bufio_ReadLine ?bs = Some ((?w, True), ?r @ 0x0A # rest)"
        using False cr none by (simp add: bufio_ReadLine_def Let_def w)
      then have "ReadLine buf ?bs = ReadLine (buf @ ?w) (?r @ 0x0A # rest)"
        by (simp add: ReadLine.simps [of buf])
      also have "\<dots> = Some ((buf @ ?w) @ strip_cr ?r, rest)"
        using False r by (intro less(1)) (auto simp: defaultBufSize_def)
      finally show ?thesis
        using strip_cr_append [of ?r ?w] cr by (cases "?r = []") (auto simp: strip_cr_def)
    qed
  qed
qed

section \<open>Statements around the data\<close>

text \<open>The statements of \<^verbatim>\<open>setupTx\<close> and \<^verbatim>\<open>resetTx\<close> when none fails.\<close>

definition asSuper :: "DataSectionSettings \<Rightarrow> byte list list \<Rightarrow> byte list list" where
  "asSuper opt qs =
     (if SuperUser opt = [] then qs
      else [ascii ''SET ROLE '' @ SuperUser opt] @ qs @ [ascii ''RESET ROLE''])"

definition triggerStmts :: "restoreBase \<Rightarrow> string \<Rightarrow> byte list list" where
  "triggerStmts rb what =
     (if DisableTriggers (rb_opt rb)
      then asSuper (rb_opt rb)
             [ascii ''ALTER TABLE '' @ the (Namespace (rb_entry rb)) @ ascii ''.'' @ the (Tag (rb_entry rb)) @ ascii what]
      else [])"

definition roleStmts :: "restoreBase \<Rightarrow> byte list \<Rightarrow> byte list list" where
  "roleStmts rb q = asSuper (rb_opt rb) (if UseSessionReplicationRoleReplica (rb_opt rb) then [q] else [])"

definition setupStmts :: "restoreBase \<Rightarrow> byte list list" where
  "setupStmts rb =
     roleStmts rb (ascii ''SET session_replication_role = '' @ [0x27] @ ascii ''replica'' @ [0x27])
     @ triggerStmts rb '' DISABLE TRIGGER ALL''"

definition resetStmts :: "restoreBase \<Rightarrow> byte list list" where
  "resetStmts rb =
     triggerStmts rb '' ENABLE TRIGGER ALL'' @ roleStmts rb (ascii ''RESET session_replication_role'')"

definition execs :: "byte list list \<Rightarrow> dbRequest list" where
  "execs qs = map (\<lambda>q. SqlExec q []) qs"

lemma execs_simps [simp]: "execs [] = []" "execs (q # qs) = SqlExec q [] # execs qs" "execs (xs @ ys) = execs xs @ execs ys"
  by (simp_all add: execs_def)

definition logged :: "dbRequest list \<Rightarrow> dbst \<Rightarrow> dbst" where
  "logged qs s = s\<lparr>ds_log := ds_log s @ qs\<rparr>"

lemma logged_simps [simp]:
  "logged [] s = s" "logged ys (logged xs s) = logged (xs @ ys) s"
  "ds_log (logged xs s) = ds_log s @ xs" "ds_in (logged xs s) = ds_in s"
  "ds_looks (logged xs s) = ds_looks s" "ds_query (logged xs s) = ds_query s"
  by (simp_all add: logged_def)

text \<open>The server fails in nothing but the statement \<open>q\<close>, and the context is never done.\<close>

definition quiet :: "DbEnv \<Rightarrow> byte list \<Rightarrow> bool" where
  "quiet env q \<longleftrightarrow> (\<forall>n. \<not> cancelled env n)
     \<and> (\<forall>log r. (\<forall>args. r \<noteq> SqlExec q args) \<longrightarrow> fails env log r = None)"

lemma request_quiet: "quiet env q \<Longrightarrow> \<forall>args. r \<noteq> SqlExec q args \<Longrightarrow> request env r s = (logged [r] s, Inr ())"
  by (simp add: quiet_def request_def logged_def)

lemma exec_quiet: "quiet env q \<Longrightarrow> p \<noteq> q \<Longrightarrow> exec env p s = (logged (execs [p]) s, Inr ())"
  by (simp add: exec_def request_quiet)

lemma checkCtx_quiet: "quiet env q \<Longrightarrow> checkCtx env s = (s\<lparr>ds_looks := Suc (ds_looks s)\<rparr>, Inr ())"
  by (simp add: quiet_def checkCtx_def)

lemma rollback_quiet: "quiet env q \<Longrightarrow> rollbackTransaction env e s = (logged [SqlRollback] s, Inr ())"
  by (simp add: rollbackTransaction_def act_simps request_quiet)

definition named_entry :: "Entry \<Rightarrow> bool" where
  "named_entry e \<longleftrightarrow> Namespace e \<noteq> None \<and> Tag e \<noteq> None"

text \<open>The first letter of a statement: \<^verbatim>\<open>SET\<close>, \<^verbatim>\<open>RESET\<close>, \<^verbatim>\<open>ALTER\<close> or \<^verbatim>\<open>INSERT\<close>.\<close>

definition foreign_stmt :: "byte list \<Rightarrow> bool" where
  "foreign_stmt q \<longleftrightarrow> (\<forall>r. q \<noteq> 0x53 # r \<and> q \<noteq> 0x52 # r \<and> q \<noteq> 0x41 # r)"

lemma exec_foreign:
  "quiet env q \<Longrightarrow> foreign_stmt q \<Longrightarrow> p = 0x53 # r \<or> p = 0x52 # r \<or> p = 0x41 # r
   \<Longrightarrow> exec env p s = (logged (execs [p]) s, Inr ())"
  by (rule exec_quiet) (auto simp: foreign_stmt_def)

lemma setSuperUser_quiet:
  assumes "quiet env q" "foreign_stmt q"
  shows "setSuperUser env rb s =
           (logged (execs (if SuperUser (rb_opt rb) = [] then [] else [ascii ''SET ROLE '' @ SuperUser (rb_opt rb)])) s, Inr ())"
  using exec_foreign [OF assms] by (simp add: setSuperUser_def whenA_def retA_def ascii_def)

lemma resetSuperUser_quiet:
  assumes "quiet env q" "foreign_stmt q"
  shows "resetSuperUser env rb s =
           (logged (execs (if SuperUser (rb_opt rb) = [] then [] else [ascii ''RESET ROLE''])) s, Inr ())"
  using exec_foreign [OF assms] by (simp add: resetSuperUser_def whenA_def retA_def ascii_def)

lemma whenA_exec_quiet:
  "quiet env q \<Longrightarrow> foreign_stmt q \<Longrightarrow> p = 0x53 # r \<or> p = 0x52 # r \<or> p = 0x41 # r
   \<Longrightarrow> whenA b (exec env p) s = (logged (execs (if b then [p] else [])) s, Inr ())"
  using exec_foreign [of env q p r s] by (simp add: whenA_def retA_def)

lemma setSessionReplicationRole_quiet:
  assumes "quiet env q" "foreign_stmt q"
  shows "setSessionReplicationRole env rb s =
    (logged (execs (roleStmts rb (ascii ''SET session_replication_role = '' @ [0x27] @ ascii ''replica'' @ [0x27]))) s, Inr ())"
  unfolding setSessionReplicationRole_def
  by (simp add: bindA_def setSuperUser_quiet [OF assms] resetSuperUser_quiet [OF assms]
      whenA_exec_quiet [OF assms] roleStmts_def asSuper_def ascii_def)

lemma resetSessionReplicationRole_quiet:
  assumes "quiet env q" "foreign_stmt q"
  shows "resetSessionReplicationRole env rb s =
    (logged (execs (roleStmts rb (ascii ''RESET session_replication_role''))) s, Inr ())"
  unfolding resetSessionReplicationRole_def
  by (simp add: bindA_def setSuperUser_quiet [OF assms] resetSuperUser_quiet [OF assms]
      whenA_exec_quiet [OF assms] roleStmts_def asSuper_def ascii_def)

lemma triggers_quiet:
  assumes "quiet env q" "foreign_stmt q" "named_entry (rb_entry rb)"
  shows "disableTriggers env rb s = (logged (execs (triggerStmts rb '' DISABLE TRIGGER ALL'')) s, Inr ())"
    "enableTriggers env rb s = (logged (execs (triggerStmts rb '' ENABLE TRIGGER ALL'')) s, Inr ())"
  using assms(3) exec_foreign [OF assms(1,2)]
  by (auto simp: disableTriggers_def enableTriggers_def whenA_def bindA_def retA_def setSuperUser_quiet [OF assms(1,2)]
      resetSuperUser_quiet [OF assms(1,2)] triggerStmts_def asSuper_def ascii_def named_entry_def alterTriggers_def
      deref_def liftA_def)

lemma setupTx_quiet:
  "quiet env q \<Longrightarrow> foreign_stmt q \<Longrightarrow> named_entry (rb_entry rb)
   \<Longrightarrow> setupTx env rb s = (logged (execs (setupStmts rb)) s, Inr ())"
  by (simp add: setupTx_def setupStmts_def bindA_def setSessionReplicationRole_quiet triggers_quiet)

lemma resetTx_quiet:
  "quiet env q \<Longrightarrow> foreign_stmt q \<Longrightarrow> named_entry (rb_entry rb)
   \<Longrightarrow> resetTx env rb s = (logged (execs (resetStmts rb)) s, Inr ())"
  by (simp add: resetTx_def resetStmts_def bindA_def resetSessionReplicationRole_quiet triggers_quiet)

section \<open>The rows of a dump file\<close>

definition dumpLine :: "RawValue list \<Rightarrow> byte list" where
  "dumpLine vs = join_with [DefaultCopyDelimiter] (map (\<lambda>v. EncodeAttr v []) vs)"

definition dumpFile :: "RawValue list list \<Rightarrow> byte list" where
  "dumpFile rows = concat (map (\<lambda>vs. dumpLine vs @ endOfLineSeq) rows) @ dumpTrailer"

definition argument :: "RawValue \<Rightarrow> gostr" where
  "argument v = (if IsNull v then None else Some (Data v))"

text \<open>
  The rows of one table: as many values as it has columns, which are one or more, and not the one row whose line is
  empty, an empty string in a table of one column.
\<close>

definition row_ok :: "nat \<Rightarrow> RawValue list \<Rightarrow> bool" where
  "row_ok n vs \<longleftrightarrow> 0 < n \<and> length vs = n \<and> (n = 1 \<longrightarrow> IsNull (hd vs) \<or> Data (hd vs) \<noteq> [])"

text \<open>The values COPY text keeps as they are: the null, and bytes the encoder writes without loss.\<close>

definition writable :: "RawValue \<Rightarrow> bool" where
  "writable v \<longleftrightarrow> IsNull v \<or> copy_safe (Data v)"

text \<open>The argument an insertion gets for a value: what comes back of it from COPY text.\<close>

definition read_argument :: "RawValue \<Rightarrow> gostr" where
  "read_argument v = argument (stored_value v)"

lemma read_argument_writable: "writable v \<Longrightarrow> read_argument v = argument v"
  using stored_value_safe [of v] by (cases "IsNull v") (simp_all add: writable_def read_argument_def argument_def)

lemma encode_loop_Nil_iff [simp]: "encode_loop d = [] \<longleftrightarrow> d = []"
  by (cases d) (auto simp: encode_loop_Cons encode_step_def escape_control_def split: if_splits)

lemma row_ok_line: "row_ok n vs \<Longrightarrow> dumpLine vs \<noteq> []"
  by (cases vs; cases "tl vs") (auto simp: row_ok_def dumpLine_def EncodeAttr_def join_with_Cons copy_consts)

lemma escape_control_cr: "c < 0x20 \<Longrightarrow> 0x0D \<in> set (escape_control c) \<Longrightarrow> False"
  by (auto simp: escape_control_def copy_consts split: if_splits)

lemma encode_loop_no_cr: "0x0D \<notin> set (encode_loop d)"
proof (induction d rule: encode_induct)
  case Nil
  then show ?case by simp
next
  case (Cons c rest)
  have "0x0D \<notin> set (fst (encode_step c rest))"
    using escape_control_cr by (auto simp: encode_step_def)
  with Cons show ?case by (simp add: encode_loop_Cons)
qed

lemma EncodeAttr_no_cr: "0x0D \<notin> set (EncodeAttr v [])"
  using encode_loop_no_cr by (auto simp: EncodeAttr_def copy_consts)

lemma dumpLine_bytes: "0x0A \<notin> set (dumpLine vs) \<and> 0x0D \<notin> set (dumpLine vs)"
  using set_join_with [of "[DefaultCopyDelimiter]" "map (\<lambda>v. EncodeAttr v []) vs"] EncodeAttr_framing EncodeAttr_no_cr
  by (auto simp: dumpLine_def copy_consts)

lemma strip_cr_dumpLine: "strip_cr (dumpLine vs) = dumpLine vs"
  using dumpLine_bytes [of vs] by (metis last_in_set strip_cr_def)

lemma encode_loop_escape: "encode_loop d = 0x5C # r \<Longrightarrow> \<exists>x ys. r = x # ys \<and> x \<noteq> 0x2E"
  by (cases d) (auto simp: encode_loop_Cons encode_step_def escape_control_def copy_consts split: if_splits)

lemma EncodeAttr_escape: "EncodeAttr v [] = 0x5C # r \<Longrightarrow> \<exists>x ys. r = x # ys \<and> x \<noteq> 0x2E"
  using encode_loop_escape by (auto simp: EncodeAttr_def copy_consts split: if_splits)

lemma join_with_head:
  "vs \<noteq> [] \<Longrightarrow> \<exists>w. join_with [d] vs = hd vs @ w \<and> (w = [] \<or> hd w = d)"
  by (cases vs; cases "tl vs") (auto simp: join_with_Cons)

lemma dumpLine_no_terminator:
  assumes "dumpLine vs \<noteq> []"
  shows "isTerminationSeq (dumpLine vs) = Inr False"
proof (cases vs)
  case Nil
  with assms show ?thesis by (simp add: dumpLine_def)
next
  case (Cons v vs')
  obtain w where w: "dumpLine vs = EncodeAttr v [] @ w" "w = [] \<or> hd w = DefaultCopyDelimiter"
    using join_with_head [of "map (\<lambda>v. EncodeAttr v []) vs" DefaultCopyDelimiter] Cons by (auto simp: dumpLine_def)
  show ?thesis
  proof (cases "EncodeAttr v []")
    case Nil
    with w assms show ?thesis by (cases w) (auto simp: isTerminationSeq_def copy_consts)
  next
    case (Cons c r)
    with w EncodeAttr_escape [of v r] show ?thesis by (auto simp: isTerminationSeq_def)
  qed
qed

text \<open>What the row decoder of the insert restorer is between two lines.\<close>

definition row_ready :: "nat \<Rightarrow> Row \<Rightarrow> bool" where
  "row_ready n r \<longleftrightarrow> Row_wf r \<and> fresh_values r \<and> (tupleSize r = n \<or> isDynamic r \<and> tupleSize r = 0)"

lemma NewRow_ready: "NewRow UseDynamicSize = Inr r \<Longrightarrow> row_ready n r"
  by (auto simp: NewRow_def UseDynamicSize_def row_ready_def Row_wf_def fresh_values_def Let_def)

lemma NewRow_dynamic: "\<exists>r. NewRow UseDynamicSize = Inr r"
  by (simp add: NewRow_def UseDynamicSize_def Let_def)

lemma mapR_pointwise: "(\<And>i. i < n \<Longrightarrow> f i = Inr (g i)) \<Longrightarrow> mapR f [0..<n] = Inr (map g [0..<n])"
proof -
  assume "\<And>i. i < n \<Longrightarrow> f i = Inr (g i)"
  then have "mapR f [0..<n] = mapR (\<lambda>i. Inr (g i)) [0..<n]" by (intro mapR_cong) auto
  also have "\<dots> = Inr (map g [0..<n])" by (induction "[0..<n]" arbitrary: n) (auto simp: mapR_Inr_iff list_all2_conv_all_nth)
  finally show ?thesis .
qed

text \<open>A line of the dump file gives the arguments its row was written from.\<close>

lemma decoded_arguments:
  assumes "row_ready n r" and "row_ok n vs" and "0 < n"
  obtains r' where "Row_Decode r (dumpLine vs) = (r', None)" and "row_ready n r'"
    and "getAllArguments r' = Inr (map read_argument vs)"
proof -
  have ne: "vs \<noteq> []" and len: "length vs = n" using assms(2,3) by (auto simp: row_ok_def)
  have split: "split_on DefaultCopyDelimiter (dumpLine vs) = map (\<lambda>v. EncodeAttr v []) vs"
    unfolding dumpLine_def using ne EncodeAttr_framing by (intro split_join) auto
  have acc: "row_accepts r (dumpLine vs)"
    using assms(1,3) len by (auto simp: row_accepts_def split row_ready_def)
  have wf: "Row_wf r" "fresh_values r" using assms(1) by (auto simp: row_ready_def)
  obtain r' where r': "Row_Decode r (dumpLine vs) = (r', None)" "Row_wf r'" "row_bounded r'"
    "row_fields r' = map (\<lambda>v. EncodeAttr v []) vs" "newValues r' = replicate n None" "tupleSize r' = n"
    by (rule Row_decoded [OF wf(1) acc wf(2)]) (simp add: split len)
  have cols: "length (columnPos r') = n" using r'(2,6) by (simp add: Row_wf_def)
  have col: "(case Row_GetColumn r' (int i) of
      Inl f \<Rightarrow> panic ''error getting column'' | Inr v \<Rightarrow> Inr (if IsNull v then None else Some (Data v)))
    = Inr (read_argument (vs ! i))" if i: "i < n" for i
  proof -
    have "Row_GetColumn r' (int i) = Inr (stored_value (vs ! i))"
      using r' i cols len by (simp add: Row_GetColumn_field decode_encode)
    then show ?thesis by (simp add: read_argument_def argument_def)
  qed
  have "getAllArguments r' = Inr (map (\<lambda>i. read_argument (vs ! i)) [0..<n])"
    unfolding getAllArguments_def Row_Length_def cols using col by (rule mapR_pointwise)
  also have "map (\<lambda>i. read_argument (vs ! i)) [0..<n] = map read_argument vs"
    using len by (intro nth_equalityI) auto
  finally show ?thesis
    using r' by (intro that [of r']) (auto simp: row_ready_def fresh_values_def list_all_iff)
qed

section \<open>Inserting a row\<close>

text \<open>The requests of one row when only the insertion itself may fail.\<close>

definition rowRequests :: "DbEnv \<Rightarrow> InsertRestorer \<Rightarrow> byte list \<Rightarrow> dbRequest list \<Rightarrow> gostr list \<Rightarrow> dbRequest list" where
  "rowRequests env td q log args =
     (let begin_tx = SqlBegin # execs (setupStmts (base_of td))
      in begin_tx @ SqlExec q args #
         (if fails env (log @ begin_tx) (SqlExec q args) = None
          then execs (resetStmts (base_of td)) @ [SqlCommit] else [SqlRollback]))"

fun replay :: "DbEnv \<Rightarrow> InsertRestorer \<Rightarrow> byte list \<Rightarrow> dbRequest list \<Rightarrow> gostr list list \<Rightarrow> dbRequest list" where
  "replay env td q log [] = log"
| "replay env td q log (args # rows) = replay env td q (log @ rowRequests env td q log args) rows"

definition failures_allowed :: "DbEnv \<Rightarrow> InsertRestorer \<Rightarrow> byte list \<Rightarrow> bool" where
  "failures_allowed env td q \<longleftrightarrow>
     (\<forall>log args e. fails env log (SqlExec q args) = Some e \<longrightarrow> isErrorAllowed td e)"

lemma allowed_is_pg: "isErrorAllowed td e \<Longrightarrow> \<exists>code con. e = DbPg code con"
  by (cases e) (auto simp: isErrorAllowed_def)

lemma generateInsertStmt_ok:
  assumes "generateInsertStmt td b = Inr q"
  shows "named_entry (rb_entry td)" and "foreign_stmt q" and "q \<noteq> []"
  using assms by (auto simp: generateInsertStmt_def Let_def named_entry_def foreign_stmt_def deref_def ascii_def
      res_simps split: option.splits)

lemma insertQuery_run:
  "generateInsertStmt td (ds_OnConflictDoNothing (rb_opt td)) = Inr q \<Longrightarrow> ds_query s \<in> {[], q}
   \<Longrightarrow> insertQuery td s = (s\<lparr>ds_query := q\<rparr>, Inr q)"
  by (auto simp: insertQuery_def bindA_def liftA_def retA_def)

lemma base_of_simps [simp]: "rb_opt (base_of td) = rb_opt td" "rb_entry (base_of td) = rb_entry td"
  by (simp_all add: restoreBase.truncate_def)

lemma insertTolerant_run:
  assumes "quiet env q" and "failures_allowed env td q"
    and "generateInsertStmt td (ds_OnConflictDoNothing (rb_opt td)) = Inr q"
    and "ds_query s \<in> {[], q}" and "getAllArguments row = Inr args"
  shows "insertTolerant env td row s = (logged (rowRequests env td q (ds_log s) args) (s\<lparr>ds_query := q\<rparr>), Inr ())"
proof -
  note gen = generateInsertStmt_ok [OF assms(3)]
  have named: "named_entry (rb_entry (base_of td))" using gen(1) by simp
  define s1 where "s1 = logged (SqlBegin # execs (setupStmts (base_of td))) (s\<lparr>ds_query := q\<rparr>)"
  have started: "request env SqlBegin t = (logged [SqlBegin] t, Inr ())" for t
    using assms(1) by (rule request_quiet) simp
  have commit: "request env SqlCommit t = (logged [SqlCommit] t, Inr ())" for t
    using assms(1) by (rule request_quiet) simp
  have run: "insertData env td row s =
     bindA (orRollback env td (request env (SqlExec q args))) (\<lambda>_.
     bindA (orRollback env td (resetTx env (base_of td))) (\<lambda>_.
     onErr (request env SqlCommit) (failDebug (base_of td)))) s1"
    using insertQuery_run [OF assms(3,4)] started setupTx_quiet [OF assms(1) gen(2) named] assms(5)
    by (simp add: insertData_def orRollback_def act_simps s1_def)
  show ?thesis
  proof (cases "fails env (ds_log s1) (SqlExec q args)")
    case None
    then have "request env (SqlExec q args) s1 = (logged [SqlExec q args] s1, Inr ())"
      by (simp add: request_def logged_def)
    then have "insertData env td row s =
        (logged (rowRequests env td q (ds_log s) args) (s\<lparr>ds_query := q\<rparr>), Inr ())"
      using None commit resetTx_quiet [OF assms(1) gen(2) named]
      by (simp add: run orRollback_def act_simps rowRequests_def s1_def)
    then show ?thesis by (simp add: insertTolerant_def act_simps)
  next
    case (Some e)
    then have ok: "isErrorAllowed td e" using assms(2) by (auto simp: failures_allowed_def)
    then have np: "\<forall>p. e \<noteq> DbPanic p" using allowed_is_pg by fastforce
    have "request env (SqlExec q args) s1 = (logged [SqlExec q args] s1, Inl e)"
      using Some by (simp add: request_def logged_def)
    then have "insertData env td row s =
        (logged (rowRequests env td q (ds_log s) args) (s\<lparr>ds_query := q\<rparr>), Inl e)"
      using Some np by (simp add: run orRollback_def onErr_handled rollback_quiet [OF assms(1)] act_simps
          rowRequests_def s1_def)
    moreover have "\<exists>d. DebugInfo (base_of td) = Inr d"
      using gen(1) by (auto simp: DebugInfo_def named_entry_def deref_def)
    ultimately show ?thesis
      using ok np by (auto simp: insertTolerant_def onErr_handled act_simps)
  qed
qed

text \<open>The rows of the file in front of some rest are inserted one after the other.\<close>

lemma streamInsertData_rows:
  assumes "quiet env q" and "failures_allowed env td q"
    and "generateInsertStmt td (ds_OnConflictDoNothing (rb_opt td)) = Inr q"
    and "0 < n" and "list_all (row_ok n) rows" and "row_ready n row" and "ds_query s \<in> {[], q}"
  shows "\<exists>row' s'. row_ready n row' \<and> ds_query s' \<in> {[], q}
     \<and> ds_log s' = replay env td q (ds_log s) (map (map read_argument) rows)
     \<and> streamInsertData env td rend row (concat (map (\<lambda>vs. dumpLine vs @ endOfLineSeq) rows) @ rest) s
       = streamInsertData env td rend row' rest s'"
  using assms(5-7)
proof (induction rows arbitrary: row s)
  case Nil
  then show ?case by auto
next
  case (Cons vs rows)
  let ?bs = "concat (map (\<lambda>vs. dumpLine vs @ endOfLineSeq) rows) @ rest"
  have vs: "row_ok n vs" "list_all (row_ok n) rows" using Cons.prems(1) by simp_all
  obtain r1 where r1: "Row_Decode row (dumpLine vs) = (r1, None)" "row_ready n r1"
    "getAllArguments r1 = Inr (map read_argument vs)"
    by (rule decoded_arguments [OF Cons.prems(2) vs(1) assms(4)])
  have line: "ReadLine [] (dumpLine vs @ 0x0A # ?bs) = Some (dumpLine vs, ?bs)"
    using ReadLine_line [of "dumpLine vs" "[]"] dumpLine_bytes strip_cr_dumpLine by simp
  have noterm: "isTerminationSeq (dumpLine vs) = Inr False"
    using vs(1) by (intro dumpLine_no_terminator row_ok_line [of n]) simp
  define t where "t = s\<lparr>ds_looks := Suc (ds_looks s)\<rparr>"
  define s1 where "s1 = logged (rowRequests env td q (ds_log t) (map read_argument vs)) (t\<lparr>ds_query := q\<rparr>)"
  have "ds_query t \<in> {[], q}" using Cons.prems(3) by (simp add: t_def)
  note ins = insertTolerant_run [OF assms(1-3) this r1(3)]
  have "streamInsertData env td rend row (dumpLine vs @ 0x0A # ?bs) s
      = streamInsertData env td rend r1 ?bs s1"
    by (subst streamInsertData.simps)
       (simp add: bindA_def checkCtx_quiet [OF assms(1)] line noterm r1(1) ins flip: t_def s1_def)
  moreover have "\<exists>row' s'. row_ready n row' \<and> ds_query s' \<in> {[], q}
     \<and> ds_log s' = replay env td q (ds_log s1) (map (map read_argument) rows)
     \<and> streamInsertData env td rend r1 ?bs s1 = streamInsertData env td rend row' rest s'"
    using vs(2) r1(2) by (intro Cons.IH) (simp_all add: s1_def)
  ultimately show ?case by (simp add: endOfLineSeq_def s1_def t_def)
qed

lemma ReadLine_trailer: "ReadLine [] dumpTrailer = Some ([0x5C, 0x2E], [0x0A])"
  using ReadLine_line [of "[0x5C, 0x2E]" "[]" "[0x0A]"]
  by (simp add: dumpTrailer_def copy_consts strip_cr_def)

lemma streamInsertData_trailer:
  assumes "quiet env q"
  shows "streamInsertData env td rend row dumpTrailer s = (s\<lparr>ds_looks := Suc (ds_looks s)\<rparr>, Inr ())"
  by (subst streamInsertData.simps)
     (simp add: bindA_def checkCtx_quiet [OF assms] ReadLine_trailer isTerminationSeq_def retA_def)

lemma streamInsertData_empty_line:
  assumes "quiet env q"
  shows "streamInsertData env td rend row (endOfLineSeq @ rest) s
       = (s\<lparr>ds_looks := Suc (ds_looks s)\<rparr>, Inl (DbPanic ''index out of range''))"
proof -
  have "ReadLine [] (0x0A # rest) = Some ([], rest)"
    using ReadLine_line [of "[]" "[]" rest] by (simp add: strip_cr_def)
  then show ?thesis
    by (subst streamInsertData.simps)
       (simp add: bindA_def checkCtx_quiet [OF assms] endOfLineSeq_def isTerminationSeq_def failA_def)
qed

lemma getObject_run:
  "FileName (rb_entry rb) = Some f \<Longrightarrow> openDump f = Inr rs \<Longrightarrow> getObject openDump rb s = (s, Inr rs)"
  by (simp add: getObject_def retA_def)

lemma Insert_Execute_open:
  assumes "FileName (rb_entry td) = Some f" and "openDump f = Inr rs"
  obtains row where "row_ready n row"
    and "Insert_Execute env openDump td s =
      onErr (streamInsertData env td (source_end rs) row (source_bytes rs))
        (\<lambda>e. if ExitOnError (rb_opt td) then failA e else retA ()) s"
proof -
  obtain row where row: "NewRow UseDynamicSize = Inr row" using NewRow_dynamic by blast
  have "getObject openDump (base_of td) s = (s, Inr rs)" using assms by (intro getObject_run) simp_all
  then show ?thesis
    using row NewRow_ready [OF row, of n] by (intro that [of row]) (simp_all add: Insert_Execute_def act_simps)
qed

section \<open>Copying rows\<close>

definition silent :: "DbEnv \<Rightarrow> bool" where
  "silent env \<longleftrightarrow> (\<forall>n. \<not> cancelled env n) \<and> (\<forall>log r. fails env log r = None)"

lemma silent_quiet: "silent env \<Longrightarrow> quiet env q"
  by (simp add: silent_def quiet_def)

lemma request_silent: "silent env \<Longrightarrow> request env r s = (logged [r] s, Inr ())"
  by (simp add: silent_def request_def logged_def)

lemma sendMessage_silent: "silent env \<Longrightarrow> sendMessage env m s = (logged [Send m] s, Inr ())"
  by (simp add: sendMessage_def request_silent)

lemma initCopy_run:
  assumes "silent env" and "ds_in s = BCopyIn # ms"
  shows "initCopy env stmt s = (logged [Send (FQuery stmt)] (s\<lparr>ds_in := ms, ds_looks := Suc (ds_looks s)\<rparr>), Inr ())"
  using assms checkCtx_quiet [OF silent_quiet [OF assms(1)]]
  by (simp add: initCopy_def bindA_def sendMessage_silent receiveMsg_def retA_def logged_def)

lemma postStreamingHandle_run:
  assumes "silent env" and "ds_in s = BComplete # BReady # ms"
  shows "postStreamingHandle env s =
           (logged [Send FCopyDone] (s\<lparr>ds_in := ms, ds_looks := ds_looks s + 2\<rparr>), Inr ())"
  using assms by (simp add: postStreamingHandle_def bindA_def sendMessage_silent logged_def silent_def)

text \<open>The requests of the lines in batches of \<open>k\<close>, after \<open>n\<close> lines, and what the server answers to them.\<close>

fun batchRequests :: "byte list \<Rightarrow> nat \<Rightarrow> nat \<Rightarrow> byte list list \<Rightarrow> dbRequest list" where
  "batchRequests stmt k n [] = []"
| "batchRequests stmt k n (l # ls) =
     Send (FCopyData (l @ endOfLineSeq)) #
       (if Suc n mod k = 0 then [Send FCopyDone, Send (FQuery stmt)] else []) @ batchRequests stmt k (Suc n) ls"

fun batchAnswers :: "nat \<Rightarrow> nat \<Rightarrow> nat \<Rightarrow> backendMsg list" where
  "batchAnswers k n 0 = []"
| "batchAnswers k n (Suc m) =
     (if Suc n mod k = 0 then [BComplete, BReady, BCopyIn] else []) @ batchAnswers k (Suc n) m"

lemma batch_end_run:
  assumes "silent env" and "ds_in s = (if b then [BComplete, BReady, BCopyIn] else []) @ ms"
  shows "\<exists>t. whenA b (completeBatch env stmt) s = (t, Inr ()) \<and> ds_in t = ms
     \<and> ds_log t = ds_log s @ (if b then [Send FCopyDone, Send (FQuery stmt)] else [])"
proof (cases b)
  case True
  then have "ds_in s = BComplete # BReady # BCopyIn # ms" using assms(2) by simp
  from postStreamingHandle_run [OF assms(1) this] show ?thesis
    using True by (auto simp: act_simps completeBatch_def initCopy_run [OF assms(1)])
next
  case False
  with assms(2) show ?thesis by (simp add: act_simps)
qed

lemma streamCopyDataByBatch_rows:
  assumes "silent env" and "0 < k" and "list_all (row_ok c) rows"
    and "ds_in s = batchAnswers k n (length rows) @ ms"
  shows "\<exists>s'. streamCopyDataByBatch env stmt (int k) rend (int n)
        (concat (map (\<lambda>vs. dumpLine vs @ endOfLineSeq) rows) @ rest) s
      = streamCopyDataByBatch env stmt (int k) rend (int (n + length rows)) rest s'
    \<and> ds_log s' = ds_log s @ batchRequests stmt k n (map dumpLine rows) \<and> ds_in s' = ms"
  using assms(3,4)
proof (induction rows arbitrary: n s)
  case Nil
  then show ?case by auto
next
  case (Cons vs rows)
  let ?bs = "concat (map (\<lambda>vs. dumpLine vs @ endOfLineSeq) rows) @ rest"
  have line: "ReadLine [] (dumpLine vs @ 0x0A # ?bs) = Some (dumpLine vs, ?bs)"
    using ReadLine_line [of "dumpLine vs" "[]"] dumpLine_bytes strip_cr_dumpLine by simp
  have noterm: "isTerminationSeq (dumpLine vs) = Inr False"
    using Cons.prems(1) by (intro dumpLine_no_terminator row_ok_line [of c]) simp
  let ?s = "logged [Send (FCopyData (dumpLine vs @ [0x0A]))] s"
  have ans: "ds_in ?s = (if Suc n mod k = 0 then [BComplete, BReady, BCopyIn] else [])
      @ batchAnswers k (Suc n) (length rows) @ ms"
    using Cons.prems(2) by simp
  obtain t where t: "whenA (Suc n mod k = 0) (completeBatch env stmt) ?s = (t, Inr ())"
    "ds_in t = batchAnswers k (Suc n) (length rows) @ ms"
    "ds_log t = ds_log ?s @ (if Suc n mod k = 0 then [Send FCopyDone, Send (FQuery stmt)] else [])"
    using batch_end_run [OF assms(1) ans] by blast
  have "int (Suc n) mod int k = int (Suc n mod k)" by (simp only: of_nat_mod)
  then have md: "int (Suc n) mod int k = 0 \<longleftrightarrow> Suc n mod k = 0" by simp
  have sz: "int n + 1 = int (Suc n)" by simp
  let ?t = "t\<lparr>ds_looks := Suc (ds_looks t)\<rparr>"
  have "streamCopyDataByBatch env stmt (int k) rend (int n) (dumpLine vs @ 0x0A # ?bs) s
      = streamCopyDataByBatch env stmt (int k) rend (int (Suc n)) ?bs ?t"
    by (subst streamCopyDataByBatch.simps)
       (simp only: line noterm option.case prod.case sum.case bool.case bindA_def sendMessage_silent [OF assms(1)]
         md t(1) checkCtx_quiet [OF silent_quiet [OF assms(1)]] sz)
  moreover obtain s' where "streamCopyDataByBatch env stmt (int k) rend (int (Suc n)) ?bs ?t
      = streamCopyDataByBatch env stmt (int k) rend (int (Suc n + length rows)) rest s'
    \<and> ds_log s' = ds_log ?t @ batchRequests stmt k (Suc n) (map dumpLine rows) \<and> ds_in s' = ms"
    using Cons.IH [of ?t "Suc n"] Cons.prems(1) t(2) by auto
  ultimately have "streamCopyDataByBatch env stmt (int k) rend (int n) (dumpLine vs @ 0x0A # ?bs) s
      = streamCopyDataByBatch env stmt (int k) rend (int (Suc n + length rows)) rest s'"
    "ds_log s' = ds_log s @ batchRequests stmt k n (map dumpLine (vs # rows))" "ds_in s' = ms"
    using t(3) by (simp_all add: endOfLineSeq_def)
  then show ?case by (intro exI [of _ s']) (simp add: endOfLineSeq_def)
qed

text \<open>The bytes given to the server with \<^verbatim>\<open>CopyData\<close>, and the number of copies that were ended.\<close>

fun copiedBytes :: "dbRequest list \<Rightarrow> byte list" where
  "copiedBytes [] = []"
| "copiedBytes (r # rs) = (case r of Send (FCopyData d) \<Rightarrow> d | _ \<Rightarrow> []) @ copiedBytes rs"

definition copies :: "dbRequest list \<Rightarrow> nat" where
  "copies rs = length (filter (\<lambda>r. r = Send FCopyDone) rs)"

lemma copiedBytes_append [simp]: "copiedBytes (xs @ ys) = copiedBytes xs @ copiedBytes ys"
  by (induction xs) (simp_all split: dbRequest.splits frontendMsg.splits)

lemma copies_Cons [simp]: "copies (r # rs) = (if r = Send FCopyDone then 1 else 0) + copies rs"
  by (simp add: copies_def)

lemma copies_append [simp]: "copies (xs @ ys) = copies xs + copies ys"
  by (simp add: copies_def)

lemma copiedBytes_execs [simp]: "copiedBytes (execs qs) = []" "copies (execs qs) = 0"
  by (induction qs) (simp_all add: copies_def)

lemma copiedBytes_batchRequests: "copiedBytes (batchRequests stmt k n ls) = concat (map (\<lambda>l. l @ endOfLineSeq) ls)"
  by (induction stmt k n ls rule: batchRequests.induct) simp_all

lemma copies_batchRequests: "copies (batchRequests stmt k n ls) + n div k = (n + length ls) div k"
proof (induction stmt k n ls rule: batchRequests.induct)
  case (1 stmt k n)
  then show ?case by (simp add: copies_def)
next
  case (2 stmt k n l ls)
  then show ?case by (auto simp: copies_def div_Suc)
qed

lemma streamCopyDataByBatch_trailer:
  "streamCopyDataByBatch env stmt k rend n dumpTrailer s = (s, Inr ())"
  by (subst streamCopyDataByBatch.simps) (simp add: ReadLine_trailer isTerminationSeq_def retA_def)

text \<open>Reads that give the chunks \<open>ds\<close> and then the end of the file.\<close>

definition chunked :: "byte list list \<Rightarrow> readCalls" where
  "chunked ds = map (\<lambda>d. (d, None)) ds @ [([], Some EOF)]"

lemma source_chunked [simp]: "source_bytes (chunked ds) = concat ds" "source_end (chunked ds) = EOF"
  by (induction ds) (simp_all add: chunked_def)

lemma streamCopyData_chunked:
  assumes "silent env"
  shows "\<exists>t. streamCopyData env (chunked ds) s = (t, Inr ()) \<and> ds_in t = ds_in s
     \<and> ds_log t = ds_log s @ map (\<lambda>d. Send (FCopyData d)) ds"
proof (induction ds arbitrary: s)
  case Nil
  then show ?case by (simp add: chunked_def retA_def)
next
  case (Cons d ds)
  let ?s = "(logged [Send (FCopyData d)] s)\<lparr>ds_looks := Suc (ds_looks s)\<rparr>"
  have "streamCopyData env (chunked (d # ds)) s = streamCopyData env (chunked ds) ?s"
    by (simp add: chunked_def bindA_def sendMessage_silent [OF assms] checkCtx_quiet [OF silent_quiet [OF assms]])
  with Cons.IH [of ?s] show ?case by auto
qed

lemma copiedBytes_sends [simp]: "copiedBytes (map (\<lambda>d. Send (FCopyData d)) ds) = concat ds"
  "copies (map (\<lambda>d. Send (FCopyData d)) ds) = 0"
  by (induction ds) (simp_all add: copies_def)

definition copyAnswers :: "DataSectionSettings \<Rightarrow> nat \<Rightarrow> backendMsg list" where
  "copyAnswers opt rows =
     [BCopyIn] @ (if BatchSize opt > 0 then batchAnswers (nat (BatchSize opt)) 0 rows else []) @ [BComplete, BReady]"

text \<open>The data part of the requests, for both ways of streaming.\<close>

lemma restoreCopy_run:
  assumes "silent env" and "concat ds = dumpFile rows" and "list_all (row_ok c) rows"
    and "ds_in s = copyAnswers opt (length rows)"
  shows "\<exists>t l. restoreCopy env opt stmt (chunked ds) s = (t, Inr ())
     \<and> ds_log t = ds_log s @ [Send (FQuery stmt)] @ l @ [Send FCopyDone]
     \<and> l = (if BatchSize opt > 0 then batchRequests stmt (nat (BatchSize opt)) 0 (map dumpLine rows)
            else map (\<lambda>d. Send (FCopyData d)) ds)"
proof -
  define ms where "ms = (if BatchSize opt > 0 then batchAnswers (nat (BatchSize opt)) 0 (length rows) else [])"
  define s1 where "s1 = logged [Send (FQuery stmt)]
      (s\<lparr>ds_in := ms @ [BComplete, BReady], ds_looks := Suc (ds_looks s)\<rparr>)"
  have init: "initCopy env stmt s = (s1, Inr ())"
    using initCopy_run [OF assms(1), of s "ms @ [BComplete, BReady]" stmt] assms(4)
    by (simp add: copyAnswers_def ms_def s1_def)
  obtain t1 l where t1: "(if BatchSize opt > 0
        then streamCopyDataByBatch env stmt (BatchSize opt) (source_end (chunked ds)) 0 (source_bytes (chunked ds))
        else streamCopyData env (chunked ds)) s1 = (t1, Inr ())"
    "ds_in t1 = [BComplete, BReady]" "ds_log t1 = ds_log s1 @ l"
    "l = (if BatchSize opt > 0 then batchRequests stmt (nat (BatchSize opt)) 0 (map dumpLine rows)
            else map (\<lambda>d. Send (FCopyData d)) ds)"
  proof (cases "BatchSize opt > 0")
    case True
    then have k: "0 < nat (BatchSize opt)" "int (nat (BatchSize opt)) = BatchSize opt" by simp_all
    have "ds_in s1 = batchAnswers (nat (BatchSize opt)) 0 (length rows) @ [BComplete, BReady]"
      using True by (simp add: s1_def ms_def)
    from streamCopyDataByBatch_rows [OF assms(1) k(1) assms(3) this, of stmt EOF dumpTrailer]
    show ?thesis using that True k(2) assms(2)
      by (auto simp: dumpFile_def streamCopyDataByBatch_trailer)
  next
    case False
    with streamCopyData_chunked [OF assms(1), of ds s1] that show ?thesis
      by (auto simp: s1_def ms_def)
  qed
  have "restoreCopy env opt stmt (chunked ds) s = postStreamingHandle env t1"
    by (simp only: restoreCopy_def bindA_def init t1(1) prod.case sum.case)
  also have "\<dots> = (logged [Send FCopyDone] (t1\<lparr>ds_in := [], ds_looks := ds_looks t1 + 2\<rparr>), Inr ())"
    using postStreamingHandle_run [OF assms(1), of t1 "[]"] t1(2) by simp
  finally show ?thesis
    using t1(3,4) by (simp add: s1_def del: if_split)
qed

lemma Table_Execute_run:
  assumes "silent env" and "concat ds = dumpFile rows" and "list_all (row_ok c) rows"
    and "ds_in s = copyAnswers (rb_opt td) (length rows)" and "named_entry (rb_entry td)"
    and "FileName (rb_entry td) = Some f" and "openDump f = Inr (chunked ds)" and "CopyStmt (rb_entry td) = Some stmt"
  shows "\<exists>t l. Table_Execute env openDump td s = (t, Inr ())
     \<and> ds_log t = ds_log s @ [SqlBegin] @ execs (setupStmts td) @ [Send (FQuery stmt)] @ l @ [Send FCopyDone]
         @ execs (resetStmts td) @ [SqlCommit]
     \<and> l = (if BatchSize (rb_opt td) > 0 then batchRequests stmt (nat (BatchSize (rb_opt td))) 0 (map dumpLine rows)
            else map (\<lambda>d. Send (FCopyData d)) ds)"
proof -
  have quiet: "quiet env []" "foreign_stmt []" using silent_quiet [OF assms(1)] by (simp_all add: foreign_stmt_def)
  define s1 where "s1 = logged (SqlBegin # execs (setupStmts td)) s"
  have "ds_in s1 = copyAnswers (rb_opt td) (length rows)" using assms(4) by (simp add: s1_def)
  from restoreCopy_run [OF assms(1-3) this, of stmt] obtain t l where t:
    "restoreCopy env (rb_opt td) stmt (chunked ds) s1 = (t, Inr ())"
    "ds_log t = ds_log s1 @ [Send (FQuery stmt)] @ l @ [Send FCopyDone]"
    "l = (if BatchSize (rb_opt td) > 0 then batchRequests stmt (nat (BatchSize (rb_opt td))) 0 (map dumpLine rows)
            else map (\<lambda>d. Send (FCopyData d)) ds)" by blast
  have "Table_Execute env openDump td s = (logged (execs (resetStmts td) @ [SqlCommit]) t, Inr ())"
    using assms(6,7) t(1) setupTx_quiet [OF quiet assms(5)] resetTx_quiet [OF quiet assms(5)]
    by (simp add: Table_Execute_def getObject_run bindA_def onErr_def request_silent [OF assms(1)] assms(8)
        deref_def liftA_def retA_def s1_def)
  then show ?thesis using t(2,3) by (simp add: s1_def del: if_split)
qed

end
