(* ===== verification/RestoreTableClaims.thy ===== *)
theory RestoreTableClaims
  imports RestoreTableProps
begin

text \<open>
  The properties of the restoration of a table: what an insert restorer gives to the server for a dump file, that
  batches change nothing in what is copiedBytes, and the line that ends the process.
\<close>

section \<open>Rows are inserted as they were dumped\<close>

lemma read_arguments_writable:
  "list_all (list_all writable) rows \<Longrightarrow> map (map read_argument) rows = map (map argument) rows"
  by (auto simp: list_all_iff read_argument_writable)

text \<open>
  Claim C24. An insert restorer reads a dump file whose rows the encoder wrote, in a table of \<open>n\<close> columns; none of the
  rows is an empty string in a table of one column, whose line ends the process. When the server refuses nothing but
  insertions and each refusal is one the exclusions name, every row is inserted in the order of the file, in a
  transaction of its own; a refused row is rolled back and the next one is tried; the restoration succeeds. The values
  inserted are what COPY text keeps of those the row was written from, and these themselves where no value has a null
  marker or end-of-data marker before its last byte or a control character without a letter escape (\<open>writable\<close>).
\<close>

theorem insert_restore_replays_dump:
  assumes "quiet env q" and "failures_allowed env td q"
    and "generateInsertStmt td (ds_OnConflictDoNothing (rb_opt td)) = Inr q" and "ds_query s = []"
    and "FileName (rb_entry td) = Some f" and "openDump f = Inr rs" and "source_bytes rs = dumpFile rows"
    and "0 < n" and "list_all (row_ok n) rows"
  shows "\<exists>t. Insert_Execute env openDump td s = (t, Inr ())
    \<and> ds_log t = replay env td q (ds_log s) (map (map read_argument) rows)
    \<and> (list_all (list_all writable) rows \<longrightarrow> map (map read_argument) rows = map (map argument) rows)"
proof -
  obtain row where row: "row_ready n row"
    "Insert_Execute env openDump td s =
       onErr (streamInsertData env td (source_end rs) row (source_bytes rs))
         (\<lambda>e. if ExitOnError (rb_opt td) then failA e else retA ()) s"
    by (rule Insert_Execute_open [where openDump = openDump, OF assms(5,6)])
  have "ds_query s \<in> {[], q}" using assms(4) by simp
  from streamInsertData_rows [OF assms(1-3,8,9) row(1) this, of "source_end rs" dumpTrailer]
  obtain row' s' where "ds_log s' = replay env td q (ds_log s) (map (map read_argument) rows)"
    "streamInsertData env td (source_end rs) row (source_bytes rs) s
       = streamInsertData env td (source_end rs) row' dumpTrailer s'"
    by (auto simp: assms(7) dumpFile_def)
  then show ?thesis
    using streamInsertData_trailer [OF assms(1)] read_arguments_writable [of rows] by (simp add: row(2) onErr_run)
qed

definition ex_column :: "string \<Rightarrow> TableColumn" where
  "ex_column c = \<lparr>col_Name = c, col_TypeName = ''text'', col_IsGenerated = False\<rparr>"

definition ex_part_table :: PartTable where
  "ex_part_table = \<lparr>t_Schema = ''public'', t_Name = ''t'', t_Oid = 7, t_PrimaryKey = [], t_SubsetConds = [],
     t_Columns = [ex_column ''a'', ex_column ''b''], RootPtOid = 0, RootPtName = [], RootPtSchema = []\<rparr>"

definition ex_settings :: DataSectionSettings where
  "ex_settings = \<lparr>ExitOnError = True, BatchSize = 2, ds_OnConflictDoNothing = False, OverridingSystemValue = False,
     DisableTriggers = True, SuperUser = [], UseSessionReplicationRoleReplica = False\<rparr>"

definition ex_data_entry :: Entry where
  "ex_data_entry = \<lparr>EntryCatalogId = \<lparr>TableOid = 0, CatOid = 0\<rparr>, DumpId = 1, Section = 3, HadDumper = 1,
     Tag = Some (ascii ''t''), Namespace = Some (ascii ''public''), Tablespace = None, Tableam = None, Owner = None,
     Desc = None, Defn = None, DropStmt = None, CopyStmt = Some (ascii ''COPY''), Dependencies = [], NDeps = 0,
     FileName = Some (ascii ''1.dat.gz''), Relkind = 0, DataDumper = 1, DataLength = 0\<rparr>"

definition ex_insert_restorer :: InsertRestorer where
  "ex_insert_restorer = \<lparr>rb_opt = ex_settings, rb_entry = ex_data_entry, ir_Table = ex_part_table,
     globalExclusions = Some \<lparr>ErrorCodes = [ascii ''23505''], Constraints = []\<rparr>, tableExclusion = None\<rparr>"

definition ex_null :: RawValue where "ex_null = \<lparr>Data = [], IsNull = True\<rparr>"

definition ex_text :: "string \<Rightarrow> RawValue" where "ex_text v = \<lparr>Data = ascii v, IsNull = False\<rparr>"

text \<open>A server with a unique key: it refuses the row with a null.\<close>

definition ex_server :: "byte list \<Rightarrow> DbEnv" where
  "ex_server stmt = \<lparr>fails = (\<lambda>log r. case r of
       SqlExec q args \<Rightarrow> if q = stmt \<and> None \<in> set args then Some (DbPg (ascii ''23505'') []) else None
     | _ \<Rightarrow> None), cancelled = (\<lambda>n. False)\<rparr>"

definition ex_start :: dbst where
  "ex_start = \<lparr>ds_log = [], ds_in = [], ds_looks = 0, ds_query = []\<rparr>"

definition ex_rows :: "RawValue list list" where
  "ex_rows = [[ex_text ''x'', ex_null], [ex_text ''y'', ex_text '''']]"

lemma ex_insert_stmt:
  "generateInsertStmt ex_insert_restorer False = Inr (ascii ''INSERT INTO public.t ('' @ [0x22] @ ascii ''a'' @ [0x22]
     @ ascii '', '' @ [0x22] @ ascii ''b'' @ [0x22] @ ascii '') VALUES($1, $2)'')"
  by (simp add: generateInsertStmt_def ex_insert_restorer_def ex_part_table_def ex_column_def ex_settings_def
      ex_data_entry_def getRealColumns_def deref_def quoted_bytes_def bquote_def ascii_def digit_char_def upt_conv_Cons
      format_nat.simps)

lemma ex_rows_ok: "list_all (row_ok 2) ex_rows"
  by (simp add: ex_rows_def row_ok_def)

theorem insert_restore_replays_dump_witness:
  "\<exists>q t. Insert_Execute (ex_server q) (\<lambda>f. Inr [(dumpFile ex_rows, Some EOF)]) ex_insert_restorer ex_start = (t, Inr ())
    \<and> ds_log t = replay (ex_server q) ex_insert_restorer q [] [[Some (ascii ''x''), None], [Some (ascii ''y''), Some []]]"
proof -
  obtain q where q: "generateInsertStmt ex_insert_restorer (ds_OnConflictDoNothing (rb_opt ex_insert_restorer)) = Inr q"
    using ex_insert_stmt by (simp add: ex_insert_restorer_def ex_settings_def)
  have 1: "quiet (ex_server q) q" by (auto simp: quiet_def ex_server_def split: dbRequest.splits)
  have 2: "failures_allowed (ex_server q) ex_insert_restorer q"
    by (auto simp: failures_allowed_def ex_server_def isErrorAllowed_def ex_insert_restorer_def)
  have 3: "ds_query ex_start = []" by (simp add: ex_start_def)
  have 4: "FileName (rb_entry ex_insert_restorer) = Some (ascii ''1.dat.gz'')"
    by (simp add: ex_insert_restorer_def ex_data_entry_def)
  show ?thesis
    using insert_restore_replays_dump [where openDump = "\<lambda>f. Inr [(dumpFile ex_rows, Some EOF)]",
        OF 1 2 q 3 4 refl _ _ ex_rows_ok]
    by (auto simp: ex_start_def ex_rows_def read_argument_def stored_value_def argument_def ex_text_def ex_null_def ascii_def)
qed

section \<open>The empty line\<close>

text \<open>
  Claim C25. A table with one text column that holds an empty string somewhere: its line in the dump file is empty, and
  the test for the end of the data indexes it. After the rows before it are inserted, each with what COPY text keeps of
  its value, the process panics, whatever \<^verbatim>\<open>exit-on-error\<close> and the exclusions say.
\<close>

theorem empty_text_row_panics:
  assumes "quiet env q" and "failures_allowed env td q"
    and "generateInsertStmt td (ds_OnConflictDoNothing (rb_opt td)) = Inr q" and "ds_query s = []"
    and "FileName (rb_entry td) = Some f" and "openDump f = Inr rs"
    and "source_bytes rs = dumpFile (rows @ [[\<lparr>Data = [], IsNull = False\<rparr>]] @ later)"
    and "list_all (row_ok 1) rows"
  shows "\<exists>t. Insert_Execute env openDump td s = (t, Inl (DbPanic ''index out of range''))
    \<and> ds_log t = replay env td q (ds_log s) (map (map read_argument) rows)
    \<and> (list_all (list_all writable) rows \<longrightarrow> map (map read_argument) rows = map (map argument) rows)"
proof -
  obtain row where row: "row_ready 1 row"
    "Insert_Execute env openDump td s =
       onErr (streamInsertData env td (source_end rs) row (source_bytes rs))
         (\<lambda>e. if ExitOnError (rb_opt td) then failA e else retA ()) s"
    by (rule Insert_Execute_open [where openDump = openDump, OF assms(5,6)])
  let ?rest = "endOfLineSeq @ concat (map (\<lambda>vs. dumpLine vs @ endOfLineSeq) later) @ dumpTrailer"
  have "dumpLine [\<lparr>Data = [], IsNull = False\<rparr>] = []" by (simp add: dumpLine_def EncodeAttr_def)
  then have bytes: "source_bytes rs = concat (map (\<lambda>vs. dumpLine vs @ endOfLineSeq) rows) @ ?rest"
    by (simp add: assms(7) dumpFile_def)
  have "ds_query s \<in> {[], q}" using assms(4) by simp
  from streamInsertData_rows [OF assms(1-3) zero_less_one assms(8) row(1) this, of "source_end rs" ?rest]
  obtain row' s' where "ds_log s' = replay env td q (ds_log s) (map (map read_argument) rows)"
    "streamInsertData env td (source_end rs) row (source_bytes rs) s
       = streamInsertData env td (source_end rs) row' ?rest s'"
    unfolding bytes by blast
  then show ?thesis
    using streamInsertData_empty_line [OF assms(1)] read_arguments_writable [of rows] by (simp add: row(2) onErr_def)
qed

text \<open>The restorer of a table that has the one column.\<close>

definition ex_one_column :: InsertRestorer where
  "ex_one_column = ex_insert_restorer\<lparr>ir_Table := ex_part_table\<lparr>t_Columns := [ex_column ''a'']\<rparr>\<rparr>"

lemma ex_one_column_stmt:
  "\<exists>q. generateInsertStmt ex_one_column (ds_OnConflictDoNothing (rb_opt ex_one_column)) = Inr q"
  by (simp add: generateInsertStmt_def ex_one_column_def ex_insert_restorer_def ex_part_table_def ex_settings_def
      ex_data_entry_def deref_def Let_def)

theorem empty_text_row_panics_witness:
  "\<exists>t. Insert_Execute \<lparr>fails = \<lambda>_ _. None, cancelled = \<lambda>_. False\<rparr>
      (\<lambda>f. Inr [(dumpFile [[ex_text ''x''], [ex_text ''''], [ex_text ''y'']], Some EOF)]) ex_one_column ex_start
    = (t, Inl (DbPanic ''index out of range''))"
proof -
  let ?env = "\<lparr>fails = \<lambda>_ _. None, cancelled = \<lambda>_. False\<rparr>"
  let ?rs = "[(dumpFile [[ex_text ''x''], [ex_text ''''], [ex_text ''y'']], Some EOF)]"
  obtain q where q: "generateInsertStmt ex_one_column (ds_OnConflictDoNothing (rb_opt ex_one_column)) = Inr q"
    using ex_one_column_stmt by blast
  have 1: "quiet ?env q" by (simp add: quiet_def)
  have 2: "failures_allowed ?env ex_one_column q" by (simp add: failures_allowed_def)
  have 3: "ds_query ex_start = []" by (simp add: ex_start_def)
  have 4: "FileName (rb_entry ex_one_column) = Some (ascii ''1.dat.gz'')"
    by (simp add: ex_one_column_def ex_insert_restorer_def ex_data_entry_def)
  have 5: "source_bytes ?rs = dumpFile ([[ex_text ''x'']] @ [[\<lparr>Data = [], IsNull = False\<rparr>]] @ [[ex_text ''y'']])"
    by (simp add: ex_text_def ascii_def)
  have 6: "list_all (row_ok 1) [[ex_text ''x'']]"
    by (simp add: row_ok_def ex_text_def ascii_def)
  show ?thesis
    using empty_text_row_panics [where openDump = "\<lambda>f. Inr ?rs", OF 1 2 q 3 4 refl 5 6] by blast
qed

section \<open>Batches\<close>

text \<open>
  Claim C26. Restoring a table with \<^verbatim>\<open>COPY\<close> in batches of any positive size copies the same bytes as restoring it in
  one piece, up to the end-of-data marker that the batches leave out; a new copy begins after every \<open>BatchSize\<close> lines,
  and both restorations commit. It holds for a dump file whose rows are any values the encoder wrote, except that no
  row is an empty string in a table of one column (\<open>row_ok\<close>): the empty line of such a row ends the restoration in
  batches with a panic, as it ends the one with insertions. Nothing fails on the server.
\<close>

theorem batches_copy_the_same_rows:
  assumes "silent env" and "concat ds = dumpFile rows" and "list_all (row_ok c) rows"
    and "named_entry (rb_entry td)" and "FileName (rb_entry td) = Some f" and "openDump f = Inr (chunked ds)"
    and "CopyStmt (rb_entry td) \<noteq> None" and "BatchSize (rb_opt td) > 0"
    and "td0 = td\<lparr>rb_opt := (rb_opt td)\<lparr>BatchSize := 0\<rparr>\<rparr>"
    and "ds_in s = copyAnswers (rb_opt td) (length rows)" and "ds_in s0 = copyAnswers (rb_opt td0) (length rows)"
    and "ds_log s = log" and "ds_log s0 = log"
  shows "\<exists>t t0 l l0. Table_Execute env openDump td s = (t, Inr ()) \<and> Table_Execute env openDump td0 s0 = (t0, Inr ())
    \<and> ds_log t = log @ l @ [SqlCommit] \<and> ds_log t0 = log @ l0 @ [SqlCommit]
    \<and> copiedBytes l0 = copiedBytes l @ dumpTrailer
    \<and> copies l = length rows div nat (BatchSize (rb_opt td)) + 1 \<and> copies l0 = 1"
proof -
  obtain stmt where stmt: "CopyStmt (rb_entry td) = Some stmt" using assms(7) by blast
  have td0: "rb_entry td0 = rb_entry td" "\<not> BatchSize (rb_opt td0) > 0" by (simp_all add: assms(9))
  from Table_Execute_run [where openDump = openDump, OF assms(1-3) assms(10,4-6) stmt] assms(8) obtain t where t:
    "Table_Execute env openDump td s = (t, Inr ())"
    "ds_log t = log @ [SqlBegin] @ execs (setupStmts td) @ [Send (FQuery stmt)]
        @ batchRequests stmt (nat (BatchSize (rb_opt td))) 0 (map dumpLine rows) @ [Send FCopyDone]
        @ execs (resetStmts td) @ [SqlCommit]"
    by (auto simp: assms(12))
  from Table_Execute_run [where openDump = openDump, OF assms(1-3) assms(11), of f stmt] td0 assms(4-6) stmt obtain t0 where t0:
    "Table_Execute env openDump td0 s0 = (t0, Inr ())"
    "ds_log t0 = log @ [SqlBegin] @ execs (setupStmts td0) @ [Send (FQuery stmt)]
        @ map (\<lambda>d. Send (FCopyData d)) ds @ [Send FCopyDone] @ execs (resetStmts td0) @ [SqlCommit]"
    by (auto simp: assms(13))
  define l where "l = [SqlBegin] @ execs (setupStmts td) @ [Send (FQuery stmt)]
      @ batchRequests stmt (nat (BatchSize (rb_opt td))) 0 (map dumpLine rows) @ [Send FCopyDone] @ execs (resetStmts td)"
  define l0 where "l0 = [SqlBegin] @ execs (setupStmts td0) @ [Send (FQuery stmt)]
      @ map (\<lambda>d. Send (FCopyData d)) ds @ [Send FCopyDone] @ execs (resetStmts td0)"
  have "copiedBytes l0 = copiedBytes l @ dumpTrailer"
    using assms(2) by (simp add: l_def l0_def copiedBytes_batchRequests dumpFile_def comp_def)
  moreover have "copies l = length rows div nat (BatchSize (rb_opt td)) + 1" "copies l0 = 1"
    using copies_batchRequests [of stmt "nat (BatchSize (rb_opt td))" 0 "map dumpLine rows"]
    by (simp_all add: l_def l0_def)
  moreover have "ds_log t = log @ l @ [SqlCommit]" "ds_log t0 = log @ l0 @ [SqlCommit]"
    using t(2) t0(2) by (simp_all add: l_def l0_def)
  ultimately show ?thesis using t(1) t0(1) by blast
qed

theorem batches_copy_the_same_rows_witness:
  "\<exists>t t0 l l0.
     Table_Execute \<lparr>fails = \<lambda>_ _. None, cancelled = \<lambda>_. False\<rparr> (\<lambda>f. Inr (chunked [dumpFile ex_rows]))
       \<lparr>rb_opt = ex_settings, rb_entry = ex_data_entry\<rparr> (ex_start\<lparr>ds_in := copyAnswers ex_settings 2\<rparr>) = (t, Inr ())
    \<and> Table_Execute \<lparr>fails = \<lambda>_ _. None, cancelled = \<lambda>_. False\<rparr> (\<lambda>f. Inr (chunked [dumpFile ex_rows]))
       \<lparr>rb_opt = ex_settings\<lparr>BatchSize := 0\<rparr>, rb_entry = ex_data_entry\<rparr>
       (ex_start\<lparr>ds_in := copyAnswers (ex_settings\<lparr>BatchSize := 0\<rparr>) 2\<rparr>) = (t0, Inr ())
    \<and> ds_log t = [] @ l @ [SqlCommit] \<and> ds_log t0 = [] @ l0 @ [SqlCommit]
    \<and> copiedBytes l0 = copiedBytes l @ dumpTrailer \<and> copies l = 2"
proof -
  let ?env = "\<lparr>fails = \<lambda>_ _. None, cancelled = \<lambda>_. False\<rparr>"
  let ?td = "\<lparr>rb_opt = ex_settings, rb_entry = ex_data_entry\<rparr>"
  let ?plain = "?td\<lparr>rb_opt := (rb_opt ?td)\<lparr>BatchSize := 0\<rparr>\<rparr>"
  have 1: "silent ?env" by (simp add: silent_def)
  have 2: "concat [dumpFile ex_rows] = dumpFile ex_rows" by simp
  have 3: "named_entry (rb_entry ?td)" "FileName (rb_entry ?td) = Some (ascii ''1.dat.gz'')"
    "CopyStmt (rb_entry ?td) \<noteq> None" "BatchSize (rb_opt ?td) > 0"
    subgoal by (simp add: named_entry_def ex_data_entry_def)
    subgoal by (simp add: ex_data_entry_def)
    subgoal by (simp add: ex_data_entry_def)
    subgoal by (simp add: ex_settings_def)
    done
  have 4: "length ex_rows = 2" by (simp add: ex_rows_def)
  have 5: "ds_in (ex_start\<lparr>ds_in := copyAnswers ex_settings 2\<rparr>) = copyAnswers (rb_opt ?td) (length ex_rows)"
    by (simp add: 4)
  have 6: "nat (BatchSize ex_settings) = 2" by (simp add: ex_settings_def)
  let ?start = "ex_start\<lparr>ds_in := copyAnswers (rb_opt ?plain) (length ex_rows)\<rparr>"
  have 7: "ds_in ?start = copyAnswers (rb_opt ?plain) (length ex_rows)" by simp
  have 8: "ds_log (ex_start\<lparr>ds_in := copyAnswers ex_settings 2\<rparr>) = []" "ds_log ?start = []"
    by (simp_all add: ex_start_def)
  obtain t t0 l l0 where r: "Table_Execute ?env (\<lambda>f. Inr (chunked [dumpFile ex_rows])) ?td
      (ex_start\<lparr>ds_in := copyAnswers ex_settings 2\<rparr>) = (t, Inr ())
    \<and> Table_Execute ?env (\<lambda>f. Inr (chunked [dumpFile ex_rows])) ?plain ?start = (t0, Inr ())
    \<and> ds_log t = [] @ l @ [SqlCommit] \<and> ds_log t0 = [] @ l0 @ [SqlCommit]
    \<and> copiedBytes l0 = copiedBytes l @ dumpTrailer
    \<and> copies l = length ex_rows div nat (BatchSize (rb_opt ?td)) + 1 \<and> copies l0 = 1"
    using batches_copy_the_same_rows [OF 1 2 ex_rows_ok 3(1,2) refl 3(3,4) refl 5 7 8] by blast
  show ?thesis
    by (rule exI [of _ t], rule exI [of _ t0], rule exI [of _ l], rule exI [of _ l0])
       (use r in \<open>simp add: 4 6\<close>)
qed

end
