(* ===== verification/RestoreObjects.thy ===== *)
theory RestoreObjects
  imports RestoreTable
begin

text \<open>
  The other restorers, \<^verbatim>\<open>restorers/{sequence,acl,blobs}.go\<close> with \<^verbatim>\<open>postgres/utils/connector.go\<close>, and the dump of
  large objects they read, \<^verbatim>\<open>dumpers/large_object.go\<close> with the counters and the compressing writer of
  \<^verbatim>\<open>internal/utils/ioutils\<close>.

  Parameters are the storage, the compression and what \<^verbatim>\<open>Read\<close> gives for a large object. The goroutine that
  dumps a large object and the one that stores it share a pipe: what is stored is what was written when the pipe is
  closed, also when the dump failed.
\<close>

section \<open>Transactions\<close>

definition WithTx :: "DbEnv \<Rightarrow> unit dbAct \<Rightarrow> unit dbAct" where
  "WithTx env fn =
     bindA (request env SqlBegin) (\<lambda>_.
     bindA (onErr fn (\<lambda>e. bindA (onErr (request env SqlRollback) (\<lambda>_. retA ())) (\<lambda>_. failA e))) (\<lambda>_.
     request env SqlCommit))"

definition Sequence_DebugInfo :: "Entry \<Rightarrow> byte list res" where
  "Sequence_DebugInfo e =
     bindR (deref (Namespace e)) (\<lambda>n. bindR (deref (Tag e)) (\<lambda>t.
       Inr (ascii ''sequence '' @ n @ ascii ''.'' @ t)))"

definition Acl_DebugInfo :: "Entry \<Rightarrow> byte list" where
  "Acl_DebugInfo e = (case Tag e of Some t \<Rightarrow> ascii ''ACL '' @ t | None \<Rightarrow> ascii ''ACL'')"

text \<open>Both restorers run the definition of the entry in a transaction of its own.\<close>

definition execDefn :: "DbEnv \<Rightarrow> string \<Rightarrow> Entry \<Rightarrow> unit dbAct" where
  "execDefn env missing e =
     (case Defn e of None \<Rightarrow> failA (DbOther missing) | Some q \<Rightarrow> exec env q)"

definition Sequence_Execute :: "DbEnv \<Rightarrow> Entry \<Rightarrow> unit dbAct" where
  "Sequence_Execute env e =
     onErr (WithTx env (execDefn env ''received nil pointer intead of sequence'' e))
       (\<lambda>er. bindA (liftA (Sequence_DebugInfo e)) (\<lambda>_. failA er))"

definition Acl_Execute :: "DbEnv \<Rightarrow> Entry \<Rightarrow> unit dbAct" where
  "Acl_Execute env e = WithTx env (execDefn env ''received nil pointer instead of ACL definition'' e)"

section \<open>Restoring large objects\<close>

text \<open>\<^verbatim>\<open>blobs.toc\<close>, which is not compressed: the number in front of the first blank of each line.\<close>

function getBlobsOids :: "DbEnv \<Rightarrow> readErr \<Rightarrow> 32 word list \<Rightarrow> byte list \<Rightarrow> 32 word list dbAct" where
  "getBlobsOids env rend loOids bs =
     (case bufio_ReadLine bs of
        None \<Rightarrow> (case rend of EOF \<Rightarrow> retA loOids | ReadErr e \<Rightarrow> failA e)
      | Some ((line, isPrefix), rest) \<Rightarrow>
          bindA (liftA (ParseInt32 (hd (split_on 0x20 line)))) (\<lambda>oid.
          bindA (checkCtx env) (\<lambda>_.
          getBlobsOids env rend (loOids @ [oid]) rest)))"
  by pat_completeness auto
termination
  by (relation "measure (\<lambda>(env, rend, loOids, bs). length bs)") (auto dest: bufio_ReadLine_shorter)

declare getBlobsOids.simps [simp del]

definition blob_name :: "32 word \<Rightarrow> byte list" where
  "blob_name oid = ascii ''blob_'' @ FormatUint oid @ ascii ''.dat.gz''"

fun writeLargeObject :: "DbEnv \<Rightarrow> 32 word \<Rightarrow> readCalls \<Rightarrow> unit dbAct" where
  "writeLargeObject env oid [] = checkCtx env"
| "writeLargeObject env oid ((d, r) # rs) =
     bindA (checkCtx env) (\<lambda>_.
       case r of
         Some EOF \<Rightarrow> retA ()
       | Some (ReadErr e) \<Rightarrow> failA e
       | None \<Rightarrow> bindA (request env (LoWrite oid d)) (\<lambda>_. writeLargeObject env oid rs))"

text \<open>The deferred \<^verbatim>\<open>lo.Close\<close> runs on every path after the object is open; its error is logged.\<close>

definition andClose :: "DbEnv \<Rightarrow> 32 word \<Rightarrow> unit dbAct \<Rightarrow> unit dbAct" where
  "andClose env oid m s = (case m s of (s', r) \<Rightarrow> (fst (request env (LoClose oid) s'), r))"

definition restoreLargeObjectData :: "DbEnv \<Rightarrow> readCalls \<Rightarrow> 32 word \<Rightarrow> unit dbAct" where
  "restoreLargeObjectData env rs oid =
     bindA (request env (LoOpen oid)) (\<lambda>_. andClose env oid (writeLargeObject env oid rs))"

definition restoreLargeObject :: "DbEnv \<Rightarrow> (byte list \<Rightarrow> dberr + readCalls) \<Rightarrow> 32 word \<Rightarrow> unit dbAct" where
  "restoreLargeObject env openGz oid =
     (case openGz (blob_name oid) of
        Inl e \<Rightarrow> failA e
      | Inr rs \<Rightarrow> WithTx env (restoreLargeObjectData env rs oid))"

fun restoreLargeObjects :: "DbEnv \<Rightarrow> (byte list \<Rightarrow> dberr + readCalls) \<Rightarrow> 32 word list \<Rightarrow> unit dbAct" where
  "restoreLargeObjects env openGz [] = retA ()"
| "restoreLargeObjects env openGz (oid # oids) =
     bindA (restoreLargeObject env openGz oid) (\<lambda>_. restoreLargeObjects env openGz oids)"

definition blobs_toc :: "byte list" where "blobs_toc = ascii ''blobs.toc''"

definition Blobs_Execute ::
    "DbEnv \<Rightarrow> (byte list \<Rightarrow> dberr + readCalls) \<Rightarrow> (byte list \<Rightarrow> dberr + readCalls) \<Rightarrow> unit dbAct" where
  "Blobs_Execute env openRaw openGz =
     (case openRaw blobs_toc of
        Inl e \<Rightarrow> failA e
      | Inr rs \<Rightarrow>
          bindA (getBlobsOids env (source_end rs) [] (source_bytes rs)) (restoreLargeObjects env openGz))"

section \<open>Dumping large objects\<close>

text \<open>
  \<^verbatim>\<open>GzipWriter.Close\<close>: flush, close the compressor, close the file; every step is taken and the last error is returned.
\<close>

definition lastErr :: "string \<Rightarrow> string option \<Rightarrow> string option \<Rightarrow> string option" where
  "lastErr what e acc = (case e of None \<Rightarrow> acc | Some m \<Rightarrow> Some (what @ m))"

definition GzipWriter_Close :: "string option \<Rightarrow> string option \<Rightarrow> string option \<Rightarrow> string option" where
  "GzipWriter_Close flush closeGz closeFile =
     lastErr ''error closing dump file: '' closeFile
       (lastErr ''error closing gzip writer: '' closeGz
         (lastErr ''error flushing gzip buffer: '' flush None))"

text \<open>The counting writer: how many bytes were accepted.\<close>

record CountWriter =
  cw_w :: ByteWriter
  cw_Count :: int

definition CountWriter_Write :: "CountWriter \<Rightarrow> byte list \<Rightarrow> CountWriter \<times> fault option" where
  "CountWriter_Write cw d =
     (case Write (cw_w cw) d of
        Inl e \<Rightarrow> (cw, Some e)
      | Inr w \<Rightarrow> (cw\<lparr>cw_w := w, cw_Count := cw_Count cw + int (length d)\<rparr>, None))"

definition loBufSize :: nat where "loBufSize = 1024 * 1024"

text \<open>
  The loop of \<^verbatim>\<open>largeObjectDumper\<close>. \<^verbatim>\<open>Read\<close> fills the front of the buffer; the whole buffer is written, only at the
  end of the object it is cut to what was read.
\<close>

fun dumpLoop :: "byte list \<Rightarrow> readCalls \<Rightarrow> CountWriter \<Rightarrow> CountWriter \<times> fault option" where
  "dumpLoop buf [] cw = CountWriter_Write cw []"
| "dumpLoop buf ((d, Some (ReadErr e)) # rs) cw = (cw, Some (Err ''error reading large object''))"
| "dumpLoop buf ((d, Some EOF) # rs) cw = CountWriter_Write cw d"
| "dumpLoop buf ((d, None) # rs) cw =
     (let buf1 = d @ drop (length d) buf
      in case CountWriter_Write cw buf1 of
           (cw1, Some e) \<Rightarrow> (cw1, Some e)
         | (cw1, None) \<Rightarrow> dumpLoop buf1 rs cw1)"

record BlobsDumper =
  bd_Blobs :: Blobs
  bd_OriginalSize :: int
  bd_CompressedSize :: int
  bd_stored :: "(byte list \<times> byte list) list"

definition NewLargeObjectDumper :: "Blobs \<Rightarrow> BlobsDumper" where
  "NewLargeObjectDumper b = \<lparr>bd_Blobs = b, bd_OriginalSize = 0, bd_CompressedSize = 0, bd_stored = []\<rparr>"

record BlobSource =
  openLo :: "32 word \<Rightarrow> fault + readCalls"
  pipeFails :: "32 word \<Rightarrow> byte list \<Rightarrow> byte list \<Rightarrow> string option"
  putFails :: "byte list \<Rightarrow> fault option"
  compressed :: "byte list \<Rightarrow> byte list"

definition emptyPipe :: "BlobSource \<Rightarrow> 32 word \<Rightarrow> CountWriter" where
  "emptyPipe src oid = \<lparr>cw_w = \<lparr>written = [], writeFails = pipeFails src oid\<rparr>, cw_Count = 0\<rparr>"

text \<open>One large object: the dumping and the writing goroutine, and \<^verbatim>\<open>eg.Wait\<close>.\<close>

definition dumpLargeObject :: "BlobSource \<Rightarrow> 32 word \<Rightarrow> BlobsDumper \<Rightarrow> BlobsDumper \<times> fault option" where
  "dumpLargeObject src oid bd =
     (let (cw, de) =
            (case openLo src oid of
               Inl e \<Rightarrow> (emptyPipe src oid, Some e)
             | Inr rs \<Rightarrow> dumpLoop (replicate loBufSize 0) rs (emptyPipe src oid));
          object = compressed src (written (cw_w cw))
      in case putFails src (blob_name oid) of
           Some e \<Rightarrow> (bd, Some (case de of None \<Rightarrow> e | Some e' \<Rightarrow> e'))
         | None \<Rightarrow>
             (let bd1 = bd\<lparr>bd_stored := bd_stored bd @ [(blob_name oid, object)]\<rparr>
              in case de of
                   Some e \<Rightarrow> (bd1, Some e)
                 | None \<Rightarrow>
                     (bd1\<lparr>bd_OriginalSize := bd_OriginalSize bd1 + cw_Count cw,
                         bd_CompressedSize := bd_CompressedSize bd1 + int (length object)\<rparr>, None)))"

definition toc_line :: "32 word \<Rightarrow> byte list" where
  "toc_line oid = FormatUint oid @ ascii '' blob_'' @ FormatUint oid @ ascii ''.dat'' @ [0x0A]"

definition generateBlobsToc :: "BlobSource \<Rightarrow> BlobsDumper \<Rightarrow> BlobsDumper \<times> fault option" where
  "generateBlobsToc src bd =
     (case putFails src blobs_toc of
        Some e \<Rightarrow> (bd, Some e)
      | None \<Rightarrow>
          (bd\<lparr>bd_stored := bd_stored bd @
              [(blobs_toc, concat (map (\<lambda>lo. toc_line (lo_Oid lo)) (LargeObjects (bd_Blobs bd))))]\<rparr>, None))"

fun dumpLargeObjects :: "BlobSource \<Rightarrow> LargeObject list \<Rightarrow> BlobsDumper \<Rightarrow> BlobsDumper \<times> fault option" where
  "dumpLargeObjects src [] bd = (bd, None)"
| "dumpLargeObjects src (lo # los) bd =
     (case dumpLargeObject src (lo_Oid lo) bd of
        (bd1, Some e) \<Rightarrow> (bd1, Some e)
      | (bd1, None) \<Rightarrow> dumpLargeObjects src los bd1)"

definition BlobsDumper_Execute :: "BlobSource \<Rightarrow> BlobsDumper \<Rightarrow> BlobsDumper \<times> fault option" where
  "BlobsDumper_Execute src bd =
     (case dumpLargeObjects src (LargeObjects (bd_Blobs bd)) bd of
        (bd1, Some e) \<Rightarrow> (bd1, Some e)
      | (bd1, None) \<Rightarrow> generateBlobsToc src bd1)"

end
