(* ===== verification/RestoreObjectsClaims.thy ===== *)
theory RestoreObjectsClaims
  imports RestoreObjects RestoreTableProps
begin

text \<open>
  Large objects through a dump and a restore: the table of contents of the blobs is read as it was written, and every
  object gets its bytes back.
\<close>

section \<open>The table of contents of the blobs\<close>

lemma FormatUint_bytes: "c \<in> set (FormatUint (w :: 32 word)) \<Longrightarrow> 0x30 \<le> c \<and> c \<le> 0x39"
  by (simp add: FormatUint_def format_nat_digits)

lemma format_nat_short:
  assumes "n < 2 ^ 32"
  shows "length (format_nat n) \<le> 10"
proof -
  have "n < 10 ^ Suc 9" using assms by (rule order_less_le_trans) simp
  then show ?thesis using length_format_nat [of n 9] by simp
qed

definition toc_text :: "32 word \<Rightarrow> byte list" where
  "toc_text oid = FormatUint oid @ 0x20 # ascii ''blob_'' @ FormatUint oid @ ascii ''.dat''"

lemma toc_line_text: "toc_line oid = toc_text oid @ [0x0A]"
  by (simp add: toc_line_def toc_text_def ascii_def)

lemma toc_text_short: "length (toc_text oid) < defaultBufSize"
proof -
  have "unat oid < 2 ^ 32" using unsigned_less [of oid] by simp
  then have "length (format_nat (unat oid)) \<le> 10" by (rule format_nat_short)
  then show ?thesis by (simp add: toc_text_def FormatUint_def defaultBufSize_def ascii_def)
qed

lemma toc_text_bytes: "0x0A \<notin> set (toc_text oid)"
  using FormatUint_bytes [of "0x0A" oid] by (auto simp: toc_text_def ascii_def)

lemma strip_cr_toc_text: "strip_cr (toc_text oid) = toc_text oid"
  by (simp add: strip_cr_def toc_text_def ascii_def)

lemma bufio_ReadLine_line:
  assumes "0x0A \<notin> set line" and "length line < defaultBufSize"
  shows "bufio_ReadLine (line @ 0x0A # rest) = Some ((strip_cr line, False), rest)"
proof -
  have "take defaultBufSize (line @ 0x0A # rest) = line @ 0x0A # take (defaultBufSize - Suc (length line)) rest"
    using assms(2) by (simp add: take_Cons' Suc_diff_Suc)
  moreover have "\<forall>x \<in> set line. \<not> x = 0x0A" using assms(1) by auto
  ultimately show ?thesis by (simp add: bufio_ReadLine_def index_func_first)
qed

lemma toc_text_oid: "hd (split_on 0x20 (toc_text oid)) = FormatUint oid"
proof -
  have "0x20 \<notin> set (FormatUint oid)" using FormatUint_bytes [of "0x20" oid] by auto
  then show ?thesis by (simp add: toc_text_def split_on_append)
qed

lemma ParseInt32_oid:
  "ParseInt32 (FormatUint (w :: 32 word)) = (if unat w < 2 ^ 31 then Inr w else err ''ParseInt'')"
  using hd_format_nat [of "unat w"] by (simp add: ParseInt32_def FormatUint_def)

lemma getBlobsOids_step:
  assumes "silent env"
  shows "getBlobsOids env rend acc (toc_line oid @ bs) s =
    (if unat oid < 2 ^ 31 then getBlobsOids env rend (acc @ [oid]) bs (s\<lparr>ds_looks := Suc (ds_looks s)\<rparr>)
     else (s, Inl (DbOther ''ParseInt'')))"
  by (subst getBlobsOids.simps)
     (simp add: toc_line_text bufio_ReadLine_line [OF toc_text_bytes toc_text_short] strip_cr_toc_text toc_text_oid
       ParseInt32_oid bindA_def liftA_def retA_def failA_def checkCtx_quiet [OF silent_quiet [OF assms]])

text \<open>The oids a dump wrote are read back while they fit a signed number of 32 bits; one that does not is an error.\<close>

lemma getBlobsOids_run:
  assumes "silent env"
  shows "\<exists>t. ds_log t = ds_log s \<and> getBlobsOids env EOF acc (concat (map toc_line oids)) s
    = (t, if list_all (\<lambda>w. unat w < 2 ^ 31) oids then Inr (acc @ oids) else Inl (DbOther ''ParseInt''))"
proof (induction oids arbitrary: acc s)
  case Nil
  have "bufio_ReadLine [] = None" by (simp add: bufio_ReadLine_def defaultBufSize_def)
  then show ?case by (subst getBlobsOids.simps) (auto simp: retA_def)
next
  case (Cons oid oids)
  show ?case
    using Cons.IH [of "s\<lparr>ds_looks := Suc (ds_looks s)\<rparr>" "acc @ [oid]"]
    by (cases "unat oid < 2 ^ 31") (auto simp: getBlobsOids_step [OF assms])
qed

section \<open>The data of a large object\<close>

text \<open>
  What \<^verbatim>\<open>pgx\<close> documents of reading a large object: fewer bytes than the buffer holds come only with the end of the
  object.
\<close>

definition full_reads :: "readCalls \<Rightarrow> bool" where
  "full_reads rs \<longleftrightarrow>
     (\<exists>ds d. rs = map (\<lambda>d. (d, None)) ds @ [(d, Some EOF)] \<and> list_all (\<lambda>d. length d = loBufSize) ds)"

definition pipe_open :: "CountWriter \<Rightarrow> bool" where
  "pipe_open cw \<longleftrightarrow> (\<forall>w d. writeFails (cw_w cw) w d = None)"

lemma CountWriter_Write_open:
  "pipe_open cw \<Longrightarrow> CountWriter_Write cw d =
     (cw\<lparr>cw_w := (cw_w cw)\<lparr>written := written (cw_w cw) @ d\<rparr>, cw_Count := cw_Count cw + int (length d)\<rparr>, None)"
  by (simp add: CountWriter_Write_def Write_def pipe_open_def)

lemma dumpLoop_full:
  assumes "pipe_open cw" and "length buf = loBufSize" and "list_all (\<lambda>d. length d = loBufSize) ds"
  shows "\<exists>cw'. dumpLoop buf (map (\<lambda>d. (d, None)) ds @ [(d, Some EOF)]) cw = (cw', None)
    \<and> written (cw_w cw') = written (cw_w cw) @ concat ds @ d
    \<and> cw_Count cw' = cw_Count cw + int (length (concat ds @ d))"
  using assms
proof (induction ds arbitrary: buf cw)
  case Nil
  then show ?case by (simp add: CountWriter_Write_open)
next
  case (Cons c ds)
  let ?cw = "cw\<lparr>cw_w := (cw_w cw)\<lparr>written := written (cw_w cw) @ c\<rparr>, cw_Count := cw_Count cw + int (length c)\<rparr>"
  have "pipe_open ?cw" using Cons.prems(1) by (simp add: pipe_open_def)
  with Cons.IH [of ?cw c] Cons.prems show ?case by (auto simp: CountWriter_Write_open)
qed

lemma source_bytes_full: "source_bytes (map (\<lambda>d. (d, None)) ds @ [(d, Some EOF)]) = concat ds @ d"
  by (induction ds) simp_all

text \<open>The dump reads every large object without an error and the storage takes every object.\<close>

definition blobs_readable :: "BlobSource \<Rightarrow> LargeObject list \<Rightarrow> bool" where
  "blobs_readable src los \<longleftrightarrow>
     (\<forall>oid w d. pipeFails src oid w d = None) \<and> (\<forall>name. putFails src name = None)
     \<and> (\<forall>lo \<in> set los. \<exists>rs. openLo src (lo_Oid lo) = Inr rs \<and> full_reads rs)"

definition content :: "BlobSource \<Rightarrow> 32 word \<Rightarrow> byte list" where
  "content src oid = (case openLo src oid of Inl e \<Rightarrow> [] | Inr rs \<Rightarrow> source_bytes rs)"

lemma dumpLargeObject_run:
  assumes "blobs_readable src los" and "lo \<in> set los"
  shows "\<exists>bd'. dumpLargeObject src (lo_Oid lo) bd = (bd', None) \<and> bd_Blobs bd' = bd_Blobs bd
    \<and> bd_OriginalSize bd' = bd_OriginalSize bd + int (length (content src (lo_Oid lo)))
    \<and> bd_stored bd' = bd_stored bd @ [(blob_name (lo_Oid lo), compressed src (content src (lo_Oid lo)))]"
proof -
  let ?oid = "lo_Oid lo"
  obtain ds d where rs: "openLo src ?oid = Inr (map (\<lambda>d. (d, None)) ds @ [(d, Some EOF)])"
    "list_all (\<lambda>d. length d = loBufSize) ds"
    using assms by (auto simp: blobs_readable_def full_reads_def)
  have "pipe_open (emptyPipe src ?oid)" "length (replicate loBufSize (0 :: byte)) = loBufSize"
    using assms(1) by (simp_all add: pipe_open_def emptyPipe_def blobs_readable_def)
  from dumpLoop_full [OF this rs(2), of d] obtain cw where
    "dumpLoop (replicate loBufSize 0) (map (\<lambda>d. (d, None)) ds @ [(d, Some EOF)]) (emptyPipe src ?oid) = (cw, None)"
    "written (cw_w cw) = concat ds @ d" "cw_Count cw = int (length (concat ds @ d))"
    by (auto simp: emptyPipe_def)
  then show ?thesis
    using assms(1) by (simp add: dumpLargeObject_def rs(1) content_def source_bytes_full blobs_readable_def Let_def)
qed

lemma dumpLargeObjects_run:
  assumes "blobs_readable src all" and "set los \<subseteq> set all"
  shows "\<exists>bd'. dumpLargeObjects src los bd = (bd', None) \<and> bd_Blobs bd' = bd_Blobs bd
    \<and> bd_OriginalSize bd' = bd_OriginalSize bd + int (length (concat (map (\<lambda>lo. content src (lo_Oid lo)) los)))
    \<and> bd_stored bd' = bd_stored bd
        @ map (\<lambda>lo. (blob_name (lo_Oid lo), compressed src (content src (lo_Oid lo)))) los"
  using assms(2)
proof (induction los arbitrary: bd)
  case Nil
  then show ?case by simp
next
  case (Cons lo los)
  obtain bd1 where bd1: "dumpLargeObject src (lo_Oid lo) bd = (bd1, None)" "bd_Blobs bd1 = bd_Blobs bd"
    "bd_OriginalSize bd1 = bd_OriginalSize bd + int (length (content src (lo_Oid lo)))"
    "bd_stored bd1 = bd_stored bd @ [(blob_name (lo_Oid lo), compressed src (content src (lo_Oid lo)))]"
    using dumpLargeObject_run [OF assms(1), of lo bd] Cons.prems by auto
  with Cons.IH [of bd1] Cons.prems show ?case by auto
qed

text \<open>The requests that restore one large object from the chunks \<open>cs\<close>.\<close>

definition blobRequests :: "32 word \<Rightarrow> byte list list \<Rightarrow> dbRequest list" where
  "blobRequests oid cs = SqlBegin # LoOpen oid # map (LoWrite oid) cs @ [LoClose oid, SqlCommit]"

lemma writeLargeObject_run:
  assumes "silent env"
  shows "\<exists>t. writeLargeObject env oid (chunked cs) s = (t, Inr ()) \<and> ds_log t = ds_log s @ map (LoWrite oid) cs"
proof (induction cs arbitrary: s)
  case Nil
  then show ?case by (simp add: chunked_def bindA_def checkCtx_quiet [OF silent_quiet [OF assms]] retA_def)
next
  case (Cons c cs)
  let ?s = "logged [LoWrite oid c] (s\<lparr>ds_looks := Suc (ds_looks s)\<rparr>)"
  have "writeLargeObject env oid (chunked (c # cs)) s = writeLargeObject env oid (chunked cs) ?s"
    by (simp add: chunked_def bindA_def checkCtx_quiet [OF silent_quiet [OF assms]] request_silent [OF assms])
  with Cons.IH [of ?s] show ?case by auto
qed

lemma restoreLargeObject_run:
  assumes "silent env" and "openGz (blob_name oid) = Inr (chunked cs)"
  shows "\<exists>t. restoreLargeObject env openGz oid s = (t, Inr ()) \<and> ds_log t = ds_log s @ blobRequests oid cs"
proof -
  obtain t where t: "writeLargeObject env oid (chunked cs) (logged [SqlBegin, LoOpen oid] s) = (t, Inr ())"
    "ds_log t = ds_log s @ [SqlBegin, LoOpen oid] @ map (LoWrite oid) cs"
    using writeLargeObject_run [OF assms(1), of oid cs "logged [SqlBegin, LoOpen oid] s"] by auto
  then show ?thesis
    by (simp add: restoreLargeObject_def assms(2) WithTx_def restoreLargeObjectData_def andClose_def bindA_def
        onErr_def request_silent [OF assms(1)] blobRequests_def)
qed

lemma restoreLargeObjects_run:
  assumes "silent env" and "list_all2 (\<lambda>oid cs. openGz (blob_name oid) = Inr (chunked cs)) oids css"
  shows "\<exists>t. restoreLargeObjects env openGz oids s = (t, Inr ())
    \<and> ds_log t = ds_log s @ concat (map2 blobRequests oids css)"
  using assms(2)
proof (induction oids css arbitrary: s rule: list_all2_induct)
  case Nil
  then show ?case by (simp add: retA_def)
next
  case (Cons oid oids cs css)
  obtain t where "restoreLargeObject env openGz oid s = (t, Inr ())" "ds_log t = ds_log s @ blobRequests oid cs"
    using restoreLargeObject_run [where openGz = openGz, OF assms(1) Cons(1)] by blast
  with Cons(3) [of t] show ?case by (auto simp: bindA_def)
qed

text \<open>The storage gives back what was stored, the large objects decompressed and in chunks of its own.\<close>

definition gives_back ::
    "(byte list \<Rightarrow> byte list) \<Rightarrow> (byte list \<times> byte list) list \<Rightarrow> (byte list \<Rightarrow> dberr + readCalls) \<Rightarrow>
     (byte list \<Rightarrow> dberr + readCalls) \<Rightarrow> bool" where
  "gives_back gz st openRaw openGz \<longleftrightarrow>
     (\<forall>bs. (blobs_toc, bs) \<in> set st \<longrightarrow>
        (\<exists>rs. openRaw blobs_toc = Inr rs \<and> source_bytes rs = bs \<and> source_end rs = EOF))
     \<and> (\<forall>name bs. (name, gz bs) \<in> set st \<longrightarrow> (\<exists>cs. openGz name = Inr (chunked cs) \<and> concat cs = bs))"

text \<open>
  Claim C27. Large objects are dumped and restored with the bytes they had: when neither the server nor the storage
  fails and the storage gives back what was stored, the dump stores every object and \<^verbatim>\<open>blobs.toc\<close>, and the restore of
  that dump opens every object in the order of the dump in a transaction of its own and writes exactly its bytes,
  whatever the chunks they come in. The oids must be below \<open>2 ^ 31\<close>.
\<close>

theorem large_objects_roundtrip:
  assumes "blobs_readable src (LargeObjects b)" and "silent env"
    and "BlobsDumper_Execute src (NewLargeObjectDumper b) = (bd, r)"
    and "gives_back (compressed src) (bd_stored bd) openRaw openGz"
    and "\<forall>lo \<in> set (LargeObjects b). unat (lo_Oid lo) < 2 ^ 31"
  shows "r = None \<and> (\<exists>t css. Blobs_Execute env openRaw openGz s = (t, Inr ())
    \<and> ds_log t = ds_log s @ concat (map2 blobRequests (map lo_Oid (LargeObjects b)) css)
    \<and> map concat css = map (\<lambda>lo. content src (lo_Oid lo)) (LargeObjects b))"
proof -
  let ?los = "LargeObjects b"
  obtain bd1 where bd1: "dumpLargeObjects src ?los (NewLargeObjectDumper b) = (bd1, None)" "bd_Blobs bd1 = b"
    "bd_stored bd1 = map (\<lambda>lo. (blob_name (lo_Oid lo), compressed src (content src (lo_Oid lo)))) ?los"
    using dumpLargeObjects_run [OF assms(1) order_refl, of "NewLargeObjectDumper b"]
    by (auto simp: NewLargeObjectDumper_def)
  have put: "putFails src blobs_toc = None" using assms(1) by (simp add: blobs_readable_def)
  let ?toc = "concat (map (\<lambda>lo. toc_line (lo_Oid lo)) ?los)"
  have r: "r = None" and st: "bd_stored bd = bd_stored bd1 @ [(blobs_toc, ?toc)]"
    using assms(3) bd1(1,2) put by (auto simp: BlobsDumper_Execute_def NewLargeObjectDumper_def generateBlobsToc_def)
  obtain rs where rs: "openRaw blobs_toc = Inr rs" "source_bytes rs = ?toc" "source_end rs = EOF"
    using assms(4) st by (auto simp: gives_back_def)
  have "\<forall>lo \<in> set ?los. \<exists>cs. openGz (blob_name (lo_Oid lo)) = Inr (chunked cs) \<and> concat cs = content src (lo_Oid lo)"
    using assms(4) by (auto simp: gives_back_def st bd1(3))
  then obtain f where f: "\<forall>lo \<in> set ?los. openGz (blob_name (lo_Oid lo)) = Inr (chunked (f lo))
      \<and> concat (f lo) = content src (lo_Oid lo)" by metis
  define css where "css = map f ?los"
  have open_ok: "list_all2 (\<lambda>oid cs. openGz (blob_name oid) = Inr (chunked cs)) (map lo_Oid ?los) css"
    and bytes: "map concat css = map (\<lambda>lo. content src (lo_Oid lo)) ?los"
    using f by (auto simp: css_def list_all2_conv_all_nth)
  have small: "list_all (\<lambda>w. unat w < 2 ^ 31) (map lo_Oid ?los)" using assms(5) by (auto simp: list_all_iff)
  have toc: "?toc = concat (map toc_line (map lo_Oid ?los))" by (simp add: comp_def)
  obtain t where t: "ds_log t = ds_log s"
    "getBlobsOids env EOF [] ?toc s = (t, Inr (map lo_Oid ?los))"
    using getBlobsOids_run [OF assms(2), of s "[]" "map lo_Oid ?los"] small unfolding toc by auto
  obtain t' where "restoreLargeObjects env openGz (map lo_Oid ?los) t = (t', Inr ())"
    "ds_log t' = ds_log t @ concat (map2 blobRequests (map lo_Oid ?los) css)"
    using restoreLargeObjects_run [OF assms(2) open_ok] by blast
  then show ?thesis
    using r rs t bytes by (intro conjI exI [of _ t'] exI [of _ css]) (simp_all add: Blobs_Execute_def bindA_def)
qed

text \<open>Two objects, one of which is empty, a storage without compression.\<close>

definition ex_lo :: "32 word \<Rightarrow> LargeObject" where
  "ex_lo oid = \<lparr>CreateDumpId = 0, CommentDumpId = 0, PermDumpId = 0, lo_TableOid = 0, lo_Oid = oid, lo_ACL = [],
     lo_DefaultACL = None, lo_Comment = '''', lo_Owner = ''''\<rparr>"

definition ex_blobs :: Blobs where
  "ex_blobs = \<lparr>LargeObjects = [ex_lo 16385, ex_lo 16386], bl_DumpId = 1, bl_OriginalSize = 0, bl_CompressedSize = 0\<rparr>"

definition ex_source :: BlobSource where
  "ex_source = \<lparr>openLo = \<lambda>oid. Inr [(if oid = 16385 then [1, 2, 3] else [], Some EOF)],
     pipeFails = \<lambda>_ _ _. None, putFails = \<lambda>_. None, compressed = \<lambda>bs. bs\<rparr>"

definition ex_open :: "(byte list \<times> byte list) list \<Rightarrow> byte list \<Rightarrow> dberr + readCalls" where
  "ex_open st name = Inr (chunked [the (map_of st name)])"

lemma ex_readable: "blobs_readable ex_source (LargeObjects ex_blobs)"
  by (auto simp: blobs_readable_def ex_source_def ex_blobs_def full_reads_def)

lemma blob_names_differ: "blob_name oid \<noteq> blobs_toc" "blob_name 16385 \<noteq> blob_name 16386"
proof -
  show "blob_name oid \<noteq> blobs_toc" by (simp add: blob_name_def blobs_toc_def ascii_def)
  have "FormatUint (16385 :: 32 word) \<noteq> FormatUint (16386 :: 32 word)"
    using format_nat_inj [of 16385 16386] by (auto simp: FormatUint_def)
  then show "blob_name 16385 \<noteq> blob_name 16386" by (simp add: blob_name_def)
qed

theorem large_objects_roundtrip_witness:
  "\<exists>bd t css. BlobsDumper_Execute ex_source (NewLargeObjectDumper ex_blobs) = (bd, None)
    \<and> Blobs_Execute \<lparr>fails = \<lambda>_ _. None, cancelled = \<lambda>_. False\<rparr> (ex_open (bd_stored bd)) (ex_open (bd_stored bd))
         \<lparr>ds_log = [], ds_in = [], ds_looks = 0, ds_query = []\<rparr> = (t, Inr ())
    \<and> ds_log t = concat (map2 blobRequests [16385, 16386] css) \<and> map concat css = [[1, 2, 3], []]"
proof -
  let ?env = "\<lparr>fails = \<lambda>_ _. None, cancelled = \<lambda>_. False\<rparr>"
  let ?s = "\<lparr>ds_log = [], ds_in = [], ds_looks = 0, ds_query = []\<rparr>"
  obtain bd r where run: "BlobsDumper_Execute ex_source (NewLargeObjectDumper ex_blobs) = (bd, r)" by fastforce
  obtain bd1 where bd1: "dumpLargeObjects ex_source (LargeObjects ex_blobs) (NewLargeObjectDumper ex_blobs) = (bd1, None)"
    "bd_stored bd1 = [(blob_name 16385, [1, 2, 3]), (blob_name 16386, [])]"
    using dumpLargeObjects_run [OF ex_readable order_refl, of "NewLargeObjectDumper ex_blobs"]
    by (auto simp: NewLargeObjectDumper_def ex_blobs_def ex_lo_def content_def ex_source_def)
  have st: "\<exists>toc. bd_stored bd = [(blob_name 16385, [1, 2, 3]), (blob_name 16386, []), (blobs_toc, toc)]"
    using run bd1 by (auto simp: BlobsDumper_Execute_def generateBlobsToc_def NewLargeObjectDumper_def ex_blobs_def
        ex_source_def)
  have silent: "silent ?env" by (simp add: silent_def)
  have gives: "gives_back (compressed ex_source) (bd_stored bd) (ex_open (bd_stored bd)) (ex_open (bd_stored bd))"
    using st blob_names_differ blob_names_differ(1) [symmetric]
    by (auto simp: gives_back_def ex_open_def ex_source_def intro!: exI [of _ "[_]"])
  have small: "\<forall>lo \<in> set (LargeObjects ex_blobs). unat (lo_Oid lo) < 2 ^ 31"
    by (simp add: ex_blobs_def ex_lo_def)
  show ?thesis
    using large_objects_roundtrip [OF ex_readable silent run gives small, of ?s] run
    by (auto simp: ex_blobs_def ex_lo_def content_def ex_source_def)
qed

text \<open>
  The oids in \<^verbatim>\<open>blobs.toc\<close> are unsigned numbers of 32 bits but they are parsed as signed ones: when one of
  the large objects has an oid of \<open>2 ^ 31\<close> or more, the restore fails before it restores any of them.
\<close>

lemma large_oid_stops_restore:
  assumes "silent env" and "openRaw blobs_toc = Inr rs" and "source_bytes rs = concat (map toc_line oids)"
    and "source_end rs = EOF" and "oid \<in> set oids" and "2 ^ 31 \<le> unat oid"
  shows "\<exists>t. Blobs_Execute env openRaw openGz s = (t, Inl (DbOther ''ParseInt'')) \<and> ds_log t = ds_log s"
proof -
  have "\<not> list_all (\<lambda>w. unat w < 2 ^ 31) oids" using assms(5,6) by (fastforce simp: list_all_iff)
  then show ?thesis
    using getBlobsOids_run [OF assms(1), of s "[]" oids] assms(2-4)
    by (auto simp: Blobs_Execute_def bindA_def)
qed

end
