(* ===== verification/TableDriver.thy ===== *)
theory TableDriver
  imports ApplyRefs RowDriver
begin

text \<open>
  The driver of a table and the records of its rows: \<^verbatim>\<open>pkg/toolkit/{column,types,driver,record}.go\<close>. A driver knows
  the columns, the types the database has beside the built-in ones, and encodes and decodes the values of the columns.

  The types themselves and their codecs come from pgx: \<open>'c\<close> is a codec, \<open>'v\<close> a Go value, and the environment holds
  encoding and decoding of the text format. All the type maps of a driver are built in the same way and are one here;
  \<^verbatim>\<open>log\<close> is left out.
\<close>

section \<open>Columns and types\<close>

record Column =
  cl_Idx :: nat
  cl_Name :: string
  cl_TypeName :: string
  cl_CanonicalTypeName :: string
  cl_TypeOid :: "32 word"
  cl_Num :: "32 word"
  cl_NotNull :: bool
  cl_Length :: int
  cl_TypeLength :: int
  cl_IsGenerated :: bool
  OverriddenTypeName :: string
  OverriddenTypeOid :: "32 word"
  OverriddenTypeSize :: int

definition GetColumnSize :: "Column \<Rightarrow> int" where
  "GetColumnSize c =
     (if OverriddenTypeSize c \<noteq> 0 then OverriddenTypeSize c
      else if cl_Length c \<noteq> -1 then cl_Length c else cl_TypeLength c)"

definition GetType :: "Column \<Rightarrow> string \<times> 32 word" where
  "GetType c =
     (if OverriddenTypeName c \<noteq> '''' then (OverriddenTypeName c, OverriddenTypeOid c)
      else (cl_TypeName c, cl_TypeOid c))"

definition GetTypeOid :: "Column \<Rightarrow> 32 word" where
  "GetTypeOid c = (if OverriddenTypeName c \<noteq> '''' then OverriddenTypeOid c else cl_TypeOid c)"

definition OverrideType :: "string \<Rightarrow> 32 word \<Rightarrow> int \<Rightarrow> Column \<Rightarrow> Column" where
  "OverrideType n oid len c = c\<lparr>OverriddenTypeName := n, OverriddenTypeOid := oid, OverriddenTypeSize := len\<rparr>"

text \<open>
  The constraints of a table. What a foreign key or a primary key knows of the other table is its name; its constraint
  is never looked at.
\<close>

record ConstraintDefinition =
  cd_Schema :: string
  cd_Name :: string
  cd_Oid :: "32 word"
  cd_Columns :: "32 word list"
  cd_Definition :: string

record LinkedTable =
  lt_Schema :: string
  lt_Name :: string
  lt_Oid :: "32 word"

datatype Constraint =
  CheckC ConstraintDefinition | ExclusionC ConstraintDefinition | ForeignKeyC ConstraintDefinition LinkedTable
  | PrimaryKeyC ConstraintDefinition "LinkedTable list" | UniqueC ConstraintDefinition | TriggerC ConstraintDefinition

text \<open>The types of the catalog beside the built-in ones.\<close>

record DbType =
  ty_Oid :: "32 word"
  ChainOids :: "32 word list"
  ChainNames :: "string list"
  ty_Schema :: string
  ty_Name :: string
  ty_Length :: int
  ty_Kind :: char
  ComposedRelation :: "32 word"
  ElementType :: "32 word"
  ArrayType :: "32 word"
  ty_NotNull :: bool
  BaseType :: "32 word"
  ty_Check :: "ConstraintDefinition option"
  RootBuiltInTypeOid :: "32 word"
  RootBuiltInTypeName :: string

record DriverTable =
  tb_Schema :: string
  tb_Name :: string
  tb_Oid :: "32 word"
  tb_Columns :: "Column list"
  tb_Kind :: string
  tb_Parent :: "32 word"
  tb_Children :: "32 word list"
  tb_Size :: int64
  tb_PrimaryKey :: "string list"
  tb_RootPtSchema :: string
  tb_RootPtName :: string
  tb_RootPtOid :: "32 word"
  tb_Constraints :: "Constraint list"

definition Table_Validate :: "DriverTable \<Rightarrow> unit res" where
  "Table_Validate t =
     (if tb_Schema t = '''' then err ''empty table schema''
      else if tb_Name t = '''' then err ''empty table name''
      else if tb_Oid t = 0 then err ''empty table oid''
      else if length (tb_Columns t) = 0 then err ''empty table columns''
      else Inr ())"

definition IsTypeCustom :: "DbType list \<Rightarrow> 32 word \<Rightarrow> bool" where
  "IsTypeCustom ts oid \<longleftrightarrow> list_ex (\<lambda>t. ty_Oid t = oid) ts"

definition GetCustomType :: "DbType list \<Rightarrow> string \<Rightarrow> DbType option" where
  "GetCustomType ts n = map_option (\<lambda>i. ts ! i) (index_func (\<lambda>t. ty_Name t = n) ts)"

definition IsTypeAllowed :: "DbType list \<Rightarrow> string list \<Rightarrow> string \<Rightarrow> bool \<Rightarrow> bool" where
  "IsTypeAllowed customTypes allowedTypes typeName checkInherited =
     (if typeName \<in> set allowedTypes then True
      else if \<not> checkInherited then False
      else case GetCustomType customTypes typeName of
             None \<Rightarrow> False
           | Some t \<Rightarrow> list_ex (\<lambda>n. n \<in> set allowedTypes) (ChainNames t))"

definition AreTypesHaveEqualOrHaveEqualBaseTypes :: "DbType list \<Rightarrow> string \<Rightarrow> string \<Rightarrow> bool" where
  "AreTypesHaveEqualOrHaveEqualBaseTypes customTypes a b =
     (if a = b then True
      else case GetCustomType customTypes a of
             None \<Rightarrow> False
           | Some ta \<Rightarrow>
               (case GetCustomType customTypes b of
                  None \<Rightarrow> False
                | Some tb \<Rightarrow> list_ex (\<lambda>x. list_ex (\<lambda>y. x = y) (ChainNames tb)) (ChainNames ta)))"

section \<open>The type map\<close>

record 'c PgType =
  pt_Name :: string
  pt_OID :: "32 word"
  pt_Codec :: 'c

record 'c TypeMap =
  TypeForOID :: "32 word \<Rightarrow> 'c PgType option"
  TypeForName :: "string \<Rightarrow> 'c PgType option"

definition RegisterType :: "'c PgType \<Rightarrow> 'c TypeMap \<Rightarrow> 'c TypeMap" where
  "RegisterType t m =
     m\<lparr>TypeForOID := (TypeForOID m)(pt_OID t := Some t), TypeForName := (TypeForName m)(pt_Name t := Some t)\<rparr>"

definition register_type :: "DbType \<Rightarrow> 'c TypeMap \<Rightarrow> 'c TypeMap" where
  "register_type t m =
     (if TypeForOID m (ty_Oid t) \<noteq> None then m
      else if ty_Kind t = CHR ''d'' \<and> BaseType t \<noteq> 0 then
        (case TypeForOID m (BaseType t) of
           None \<Rightarrow> m
         | Some base \<Rightarrow>
             let m1 = RegisterType \<lparr>pt_Name = ty_Name t, pt_OID = ty_Oid t, pt_Codec = pt_Codec base\<rparr> m
             in case TypeForName m1 (''_'' @ pt_Name base) of
                  None \<Rightarrow> m1
                | Some arr \<Rightarrow>
                    RegisterType \<lparr>pt_Name = ''_'' @ ty_Name t, pt_OID = ArrayType t, pt_Codec = pt_Codec arr\<rparr> m1)
      else m)"

definition TryRegisterCustomTypes :: "'c TypeMap \<Rightarrow> DbType list \<Rightarrow> 'c TypeMap" where
  "TryRegisterCustomTypes m ts = fold register_type ts m"

section \<open>The driver\<close>

record ('c, 'v) PgxEnv =
  newMap :: "'c TypeMap"
  pgEncode :: "'c TypeMap \<Rightarrow> 32 word \<Rightarrow> 'v \<Rightarrow> byte list res"
  pgDecode :: "'c TypeMap \<Rightarrow> 'c \<Rightarrow> 32 word \<Rightarrow> byte list \<Rightarrow> 'v res"
  asString :: "'v \<Rightarrow> byte list option"

record 'c Driver =
  dr_Table :: DriverTable
  SharedTypeMap :: "'c TypeMap"
  AttrIdxMap :: "(string \<times> nat) list"
  CustomTypes :: "DbType list"
  unsupportedColumnIdxs :: "(nat \<times> string) list"
  maxIdx :: int

abbreviation dr_Columns :: "'c Driver \<Rightarrow> Column list" where
  "dr_Columns d \<equiv> tb_Columns (dr_Table d)"

text \<open>
  One round of the loop over the columns: the column, and what is remembered of it. \<open>unsupportedColumnNames\<close> has the
  same entries under the name and is not kept.
\<close>

definition driver_column ::
    "'c TypeMap \<Rightarrow> nat \<Rightarrow> Column \<Rightarrow> (nat \<times> string) list \<Rightarrow> Column \<times> (nat \<times> string) list \<times> ValidationWarning list" where
  "driver_column tm idx c unsupported =
     (let u1 = (if TypeForOID tm (cl_TypeOid c) = None then AList.update idx (cl_TypeName c) unsupported else unsupported)
      in if OverriddenTypeName c \<noteq> '''' then
           (case TypeForName tm (OverriddenTypeName c) of
              None \<Rightarrow>
                (c, AList.update idx (cl_TypeName c) u1,
                 [AddMeta ''OverriddenTypeName'' (MetaStr (OverriddenTypeName c))
                   (AddMeta ''OverriddenColumnName'' (MetaStr (cl_Name c))
                     (SetMsg ''unknown or unsupported overridden type name by PostgreSQL driver: encode and decode operations is not supported''
                       (SetSeverity SevWarning NewValidationWarning)))])
            | Some ot \<Rightarrow> (c\<lparr>OverriddenTypeOid := pt_OID ot\<rparr>, u1, []))
         else (c, u1, []))"

fun driver_columns ::
    "'c TypeMap \<Rightarrow> nat \<Rightarrow> Column list \<Rightarrow> (nat \<times> string) list \<Rightarrow>
     Column list \<times> (nat \<times> string) list \<times> ValidationWarning list" where
  "driver_columns tm idx [] u = ([], u, [])"
| "driver_columns tm idx (c # cs) u =
     (let (c1, u1, w1) = driver_column tm idx c u; (cs2, u2, w2) = driver_columns tm (Suc idx) cs u1
      in (c1 # cs2, u2, w1 @ w2))"

text \<open>A Go map filled in a loop: a later column of the same name replaces an earlier one.\<close>

definition attr_index :: "Column list \<Rightarrow> (string \<times> nat) list" where
  "attr_index cs = fold (\<lambda>(i, c) m. AList.update (cl_Name c) i m) (List.enumerate 0 cs) []"

definition NewDriver :: "('c, 'v) PgxEnv \<Rightarrow> DriverTable \<Rightarrow> DbType list \<Rightarrow> 'c Driver \<times> ValidationWarning list" where
  "NewDriver env table customTypes =
     (let tm = (if length customTypes > 0 then TryRegisterCustomTypes (newMap env) customTypes else newMap env);
          columns = tb_Columns table;
          (cs, unsupported, warnings) = driver_columns tm 0 columns []
      in (\<lparr>dr_Table = table\<lparr>tb_Columns := cs\<rparr>, SharedTypeMap = tm, AttrIdxMap = attr_index columns,
           CustomTypes = customTypes, unsupportedColumnIdxs = unsupported, maxIdx = int (length columns) - 1\<rparr>,
          warnings))"

definition GetCanonicalTypeName :: "'c Driver \<Rightarrow> string \<Rightarrow> 32 word \<Rightarrow> string" where
  "GetCanonicalTypeName d typeName oid =
     (case TypeForOID (SharedTypeMap d) oid of Some t \<Rightarrow> pt_Name t | None \<Rightarrow> typeName)"

definition IsTypeAllowedWithTypeMap :: "'c Driver \<Rightarrow> string list \<Rightarrow> string \<Rightarrow> 32 word \<Rightarrow> bool \<Rightarrow> bool" where
  "IsTypeAllowedWithTypeMap d allowedTypes typeName oid checkInherited =
     IsTypeAllowed (CustomTypes d) allowedTypes (GetCanonicalTypeName d typeName oid) checkInherited"

definition GetColumnByName :: "'c Driver \<Rightarrow> string \<Rightarrow> (nat \<times> Column) option" where
  "GetColumnByName d n =
     (case map_of (AttrIdxMap d) n of None \<Rightarrow> None | Some i \<Rightarrow> Some (i, dr_Columns d ! i))"

text \<open>The guards of the operations by column: the type is supported and the index is in range.\<close>

definition column_oid :: "'c Driver \<Rightarrow> int \<Rightarrow> 32 word res" where
  "column_oid d idx =
     (if idx \<ge> 0 \<and> nat idx \<in> fst ` set (unsupportedColumnIdxs d)
      then err ''encode-decode operation is not supported for column''
      else if idx < 0 \<or> idx > maxIdx d then err ''index out ouf range''
      else let c = dr_Columns d ! nat idx
           in Inr (if OverriddenTypeOid c \<noteq> 0 then OverriddenTypeOid c else GetTypeOid c))"

definition EncodeValueByColumnIdx :: "('c, 'v) PgxEnv \<Rightarrow> 'c Driver \<Rightarrow> int \<Rightarrow> 'v \<Rightarrow> byte list res" where
  "EncodeValueByColumnIdx env d idx src = bindR (column_oid d idx) (\<lambda>oid. pgEncode env (SharedTypeMap d) oid src)"

definition attr_of :: "'c Driver \<Rightarrow> string \<Rightarrow> int res" where
  "attr_of d n = (case map_of (AttrIdxMap d) n of None \<Rightarrow> err ''unoknown column'' | Some i \<Rightarrow> Inr (int i))"

definition EncodeValueByColumnName :: "('c, 'v) PgxEnv \<Rightarrow> 'c Driver \<Rightarrow> string \<Rightarrow> 'v \<Rightarrow> byte list res" where
  "EncodeValueByColumnName env d n src = bindR (attr_of d n) (\<lambda>idx. EncodeValueByColumnIdx env d idx src)"

definition DecodeValueByColumnIdx :: "('c, 'v) PgxEnv \<Rightarrow> 'c Driver \<Rightarrow> int \<Rightarrow> byte list \<Rightarrow> 'v res" where
  "DecodeValueByColumnIdx env d idx src =
     bindR (column_oid d idx) (\<lambda>oid.
       case TypeForOID (SharedTypeMap d) oid of
         None \<Rightarrow> err ''unsupported encoding column type''
       | Some t \<Rightarrow> pgDecode env (SharedTypeMap d) (pt_Codec t) (pt_OID t) src)"

definition DecodeValueByColumnName :: "('c, 'v) PgxEnv \<Rightarrow> 'c Driver \<Rightarrow> string \<Rightarrow> byte list \<Rightarrow> 'v res" where
  "DecodeValueByColumnName env d n src = bindR (attr_of d n) (\<lambda>idx. DecodeValueByColumnIdx env d idx src)"

definition EncodeValueByTypeOid :: "('c, 'v) PgxEnv \<Rightarrow> 'c Driver \<Rightarrow> 32 word \<Rightarrow> 'v \<Rightarrow> byte list res" where
  "EncodeValueByTypeOid env d oid src = pgEncode env (SharedTypeMap d) oid src"

definition EncodeValueByTypeName :: "('c, 'v) PgxEnv \<Rightarrow> 'c Driver \<Rightarrow> string \<Rightarrow> 'v \<Rightarrow> byte list res" where
  "EncodeValueByTypeName env d n src =
     (case TypeForName (SharedTypeMap d) n of
        None \<Rightarrow> err ''cannot find type by oid''
      | Some t \<Rightarrow> EncodeValueByTypeOid env d (pt_OID t) src)"

definition DecodeValueByTypeOid :: "('c, 'v) PgxEnv \<Rightarrow> 'c Driver \<Rightarrow> 32 word \<Rightarrow> byte list \<Rightarrow> 'v res" where
  "DecodeValueByTypeOid env d oid src =
     (case TypeForOID (SharedTypeMap d) oid of
        None \<Rightarrow> err ''cannot find type by oid''
      | Some t \<Rightarrow> pgDecode env (SharedTypeMap d) (pt_Codec t) oid src)"

definition DecodeValueByTypeName :: "('c, 'v) PgxEnv \<Rightarrow> 'c Driver \<Rightarrow> string \<Rightarrow> byte list \<Rightarrow> 'v res" where
  "DecodeValueByTypeName env d n src =
     (case TypeForName (SharedTypeMap d) n of
        None \<Rightarrow> err ''cannot find type by oid''
      | Some t \<Rightarrow> pgDecode env (SharedTypeMap d) (pt_Codec t) (pt_OID t) src)"

section \<open>Records\<close>

text \<open>
  A value of a column: \<open>None\<close> is the null. The row is anything that implements \<^verbatim>\<open>RowDriver\<close>. Of
  \<^verbatim>\<open>rawValuesCache\<close> only the length is kept, which its index is checked against: a row gets the value written to
  the cached pointer, and that a later write through the same pointer is seen by a row that keeps it is not modelled.
\<close>

record 'r RowOps =
  rowGet :: "'r \<Rightarrow> int \<Rightarrow> RawValue res"
  rowSet :: "'r \<Rightarrow> int \<Rightarrow> RawValue \<Rightarrow> 'r res"

record ('c, 'r) Record =
  rc_Driver :: "'c Driver"
  rc_Row :: 'r
  rawValuesCache :: nat

definition NewRecord :: "'c Driver \<Rightarrow> 'r \<Rightarrow> ('c, 'r) Record" where
  "NewRecord d row = \<lparr>rc_Driver = d, rc_Row = row, rawValuesCache = length (dr_Columns d)\<rparr>"

definition SetRow :: "'r \<Rightarrow> ('c, 'r) Record \<Rightarrow> ('c, 'r) Record" where
  "SetRow row r = r\<lparr>rc_Row := row\<rparr>"

definition GetColumnValueByIdx ::
    "('c, 'v) PgxEnv \<Rightarrow> 'r RowOps \<Rightarrow> ('c, 'r) Record \<Rightarrow> int \<Rightarrow> 'v option res" where
  "GetColumnValueByIdx env ops r idx =
     bindR (rowGet ops (rc_Row r) idx) (\<lambda>rawData.
       if IsNull rawData then Inr None
       else bindR (DecodeValueByColumnIdx env (rc_Driver r) idx (Data rawData)) (\<lambda>v. Inr (Some v)))"

definition GetColumnValueByName ::
    "('c, 'v) PgxEnv \<Rightarrow> 'r RowOps \<Rightarrow> ('c, 'r) Record \<Rightarrow> string \<Rightarrow> 'v option res" where
  "GetColumnValueByName env ops r n = bindR (attr_of (rc_Driver r) n) (GetColumnValueByIdx env ops r)"

definition GetTuple ::
    "('c, 'v) PgxEnv \<Rightarrow> 'r RowOps \<Rightarrow> ('c, 'r) Record \<Rightarrow> (string \<times> 'v option) list res" where
  "GetTuple env ops r =
     bindR (mapR (\<lambda>c. bindR (GetColumnValueByName env ops r (cl_Name c)) (\<lambda>v. Inr (cl_Name c, v))) (dr_Columns (rc_Driver r)))
       (\<lambda>kvs. Inr (fold (\<lambda>(k, v). AList.update k v) kvs []))"

definition encodeValue :: "('c, 'v) PgxEnv \<Rightarrow> ('c, 'r) Record \<Rightarrow> int \<Rightarrow> 'v \<Rightarrow> byte list res" where
  "encodeValue env r idx v =
     (case asString env v of
        Some s \<Rightarrow> Inr s
      | None \<Rightarrow> EncodeValueByColumnIdx env (rc_Driver r) idx v)"

definition SetRawColumnValueByIdx :: "'r RowOps \<Rightarrow> ('c, 'r) Record \<Rightarrow> int \<Rightarrow> RawValue \<Rightarrow> ('c, 'r) Record res" where
  "SetRawColumnValueByIdx ops r idx v = bindR (rowSet ops (rc_Row r) idx v) (\<lambda>row. Inr (r\<lparr>rc_Row := row\<rparr>))"

text \<open>The raw value is taken from the cache, whose index is checked by the run-time.\<close>

definition SetColumnValueByIdx ::
    "('c, 'v) PgxEnv \<Rightarrow> 'r RowOps \<Rightarrow> ('c, 'r) Record \<Rightarrow> int \<Rightarrow> 'v option \<Rightarrow> ('c, 'r) Record res" where
  "SetColumnValueByIdx env ops r idx v =
     (let cached = (\<lambda>raw. if idx < 0 \<or> int (rawValuesCache r) \<le> idx then panic ''index out of range''
                          else SetRawColumnValueByIdx ops r idx raw)
      in case v of
           None \<Rightarrow> cached \<lparr>Data = [], IsNull = True\<rparr>
         | Some x \<Rightarrow> bindR (encodeValue env r idx x) (\<lambda>bs. cached \<lparr>Data = bs, IsNull = False\<rparr>))"

definition record_attr :: "('c, 'r) Record \<Rightarrow> string \<Rightarrow> int res" where
  "record_attr r n =
     (case map_of (AttrIdxMap (rc_Driver r)) n of
        None \<Rightarrow> err ''unable to find column by name'' | Some i \<Rightarrow> Inr (int i))"

definition SetColumnValueByName ::
    "('c, 'v) PgxEnv \<Rightarrow> 'r RowOps \<Rightarrow> ('c, 'r) Record \<Rightarrow> string \<Rightarrow> 'v option \<Rightarrow> ('c, 'r) Record res" where
  "SetColumnValueByName env ops r n v = bindR (record_attr r n) (\<lambda>idx. SetColumnValueByIdx env ops r idx v)"

definition GetRawColumnValueByIdx :: "'r RowOps \<Rightarrow> ('c, 'r) Record \<Rightarrow> int \<Rightarrow> RawValue res" where
  "GetRawColumnValueByIdx ops r idx = rowGet ops (rc_Row r) idx"

definition GetRawColumnValueByName :: "'r RowOps \<Rightarrow> ('c, 'r) Record \<Rightarrow> string \<Rightarrow> RawValue res" where
  "GetRawColumnValueByName ops r n = bindR (record_attr r n) (GetRawColumnValueByIdx ops r)"

definition SetRawColumnValueByName ::
    "'r RowOps \<Rightarrow> ('c, 'r) Record \<Rightarrow> string \<Rightarrow> RawValue \<Rightarrow> ('c, 'r) Record res" where
  "SetRawColumnValueByName ops r n v = bindR (record_attr r n) (\<lambda>idx. SetRawColumnValueByIdx ops r idx v)"

end
