(* ===== verification/Parameters.thy ===== *)
theory Parameters
  imports TableDriver TocTypes
begin

text \<open>
  The parameters of a transformer, \<^verbatim>\<open>pkg/toolkit/{parameter_definition,static_parameter,dynamic_parameter}.go\<close>: their
  definitions, the initialisation from the configuration, and the values a transformer gets from them. A static
  parameter has one value, a dynamic one takes it from a column of the record at hand.

  Parameters of the model are the interpolation package, the environment of the process, the templates and the cast
  functions. The functions of a definition (unmarshaller, validator) get the definition itself as their first
  argument in the code; here they are taken as applied to it. The reflection of \<^verbatim>\<open>Scan\<close> is left out.
\<close>

definition str_of :: "byte list \<Rightarrow> string" where
  "str_of bs = map (\<lambda>b. char_of (unat b)) bs"

definition bytes_of :: "gostr \<Rightarrow> byte list" where
  "bytes_of p = (case p of None \<Rightarrow> [] | Some bs \<Rightarrow> bs)"

section \<open>Definitions of parameters\<close>

definition WithoutMaxLength :: int where "WithoutMaxLength = -1"

record ColumnProperties =
  cp_Nullable :: bool
  cp_Unique :: bool
  MaxLength :: int
  Affected :: bool
  AllowedTypes :: "string list"
  SkipOriginalData :: bool
  SkipOnNull :: bool

definition NewColumnProperties :: ColumnProperties where
  "NewColumnProperties = \<lparr>cp_Nullable = False, cp_Unique = False, MaxLength = WithoutMaxLength, Affected = False,
     AllowedTypes = [], SkipOriginalData = False, SkipOnNull = False\<rparr>"

definition SetNullable :: "bool \<Rightarrow> ColumnProperties \<Rightarrow> ColumnProperties" where
  "SetNullable v p = p\<lparr>cp_Nullable := v\<rparr>"

definition SetUnique :: "bool \<Rightarrow> ColumnProperties \<Rightarrow> ColumnProperties" where
  "SetUnique v p = p\<lparr>cp_Unique := v\<rparr>"

definition SetMaxLength :: "int \<Rightarrow> ColumnProperties \<Rightarrow> ColumnProperties" where
  "SetMaxLength v p = p\<lparr>MaxLength := v\<rparr>"

definition SetAllowedColumnTypes :: "string list \<Rightarrow> ColumnProperties \<Rightarrow> ColumnProperties" where
  "SetAllowedColumnTypes v p = p\<lparr>AllowedTypes := v\<rparr>"

definition SetAffected :: "bool \<Rightarrow> ColumnProperties \<Rightarrow> ColumnProperties" where
  "SetAffected v p = p\<lparr>Affected := v\<rparr>"

definition SetSkipOriginalData :: "bool \<Rightarrow> ColumnProperties \<Rightarrow> ColumnProperties" where
  "SetSkipOriginalData v p = p\<lparr>SkipOriginalData := v\<rparr>"

definition SetSkipOnNull :: "bool \<Rightarrow> ColumnProperties \<Rightarrow> ColumnProperties" where
  "SetSkipOnNull v p = p\<lparr>SkipOnNull := v\<rparr>"

record ('c, 'v) DynamicModeProperties =
  SupportedTypes :: "string list"
  dm_Unmarshal :: "('c Driver \<Rightarrow> string \<Rightarrow> byte list \<Rightarrow> 'v res) option"

definition NewDynamicModeProperties :: "('c, 'v) DynamicModeProperties" where
  "NewDynamicModeProperties = \<lparr>SupportedTypes = [], dm_Unmarshal = None\<rparr>"

definition SetCompatibleTypes :: "string list \<Rightarrow> ('c, 'v) DynamicModeProperties \<Rightarrow> ('c, 'v) DynamicModeProperties" where
  "SetCompatibleTypes v p = p\<lparr>SupportedTypes := v\<rparr>"

definition DynSetUnmarshaler :: "('c Driver \<Rightarrow> string \<Rightarrow> byte list \<Rightarrow> 'v res) option \<Rightarrow> ('c, 'v) DynamicModeProperties \<Rightarrow> ('c, 'v) DynamicModeProperties" where
  "DynSetUnmarshaler v p = p\<lparr>dm_Unmarshal := v\<rparr>"

record ('c, 'v) ParameterDefinition =
  pd_Name :: string
  pd_Description :: string
  Required :: bool
  IsColumn :: bool
  IsColumnContainer :: bool
  LinkColumnParameter :: string
  CastDbType :: string
  GetFromGlobalEnvVariable :: string
  DynamicMode :: "('c, 'v) DynamicModeProperties option"
  DefaultValue :: gostr
  pd_ColumnProperties :: "ColumnProperties option"
  SupportTemplate :: bool
  Unmarshaller :: "('c Driver \<Rightarrow> gostr \<Rightarrow> 'v res) option"
  RawValueValidator :: "(gostr \<Rightarrow> ValidationWarning list res) option"
  AllowedValues :: "gostr list option"

definition NewParameterDefinition :: "string \<Rightarrow> string \<Rightarrow> ('c, 'v) ParameterDefinition" where
  "NewParameterDefinition n d = \<lparr>pd_Name = n, pd_Description = d, Required = False, IsColumn = False,
     IsColumnContainer = False, LinkColumnParameter = '''', CastDbType = '''', GetFromGlobalEnvVariable = '''',
     DynamicMode = None, DefaultValue = None, pd_ColumnProperties = None, SupportTemplate = False,
     Unmarshaller = None, RawValueValidator = None, AllowedValues = None\<rparr>"

definition SetLinkParameter :: "string \<Rightarrow> ('c, 'v) ParameterDefinition \<Rightarrow> ('c, 'v) ParameterDefinition res" where
  "SetLinkParameter n p =
     (if IsColumn p then panic ''cannot link column parameter with column parameter''
      else if CastDbType p \<noteq> '''' \<and> LinkColumnParameter p \<noteq> ''''
      then panic ''parameter cannot be with two properties cast_db_type and link_column_parameter enabled''
      else Inr (p\<lparr>LinkColumnParameter := n\<rparr>))"

definition SetCastDbType :: "string \<Rightarrow> ('c, 'v) ParameterDefinition \<Rightarrow> ('c, 'v) ParameterDefinition res" where
  "SetCastDbType v p =
     (if CastDbType p \<noteq> '''' \<and> LinkColumnParameter p \<noteq> ''''
      then panic ''parameter cannot be with two properties cast_db_type and link_column_parameter enabled''
      else Inr (p\<lparr>CastDbType := v\<rparr>))"

definition SetIsColumn :: "ColumnProperties option \<Rightarrow> ('c, 'v) ParameterDefinition \<Rightarrow> ('c, 'v) ParameterDefinition" where
  "SetIsColumn cp p = p\<lparr>IsColumn := True, pd_ColumnProperties := cp\<rparr>"

definition SetGetFromGlobalEnvVariable :: "string \<Rightarrow> ('c, 'v) ParameterDefinition \<Rightarrow> ('c, 'v) ParameterDefinition" where
  "SetGetFromGlobalEnvVariable v p = p\<lparr>GetFromGlobalEnvVariable := v\<rparr>"

definition SetIsColumnContainer :: "bool \<Rightarrow> ('c, 'v) ParameterDefinition \<Rightarrow> ('c, 'v) ParameterDefinition" where
  "SetIsColumnContainer v p = p\<lparr>IsColumnContainer := v\<rparr>"

definition SetUnmarshaler :: "('c Driver \<Rightarrow> gostr \<Rightarrow> 'v res) option \<Rightarrow> ('c, 'v) ParameterDefinition \<Rightarrow> ('c, 'v) ParameterDefinition" where
  "SetUnmarshaler v p = p\<lparr>Unmarshaller := v\<rparr>"

definition SetRawValueValidator :: "(gostr \<Rightarrow> ValidationWarning list res) option \<Rightarrow> ('c, 'v) ParameterDefinition \<Rightarrow> ('c, 'v) ParameterDefinition" where
  "SetRawValueValidator v p = p\<lparr>RawValueValidator := v\<rparr>"

definition SetRequired :: "bool \<Rightarrow> ('c, 'v) ParameterDefinition \<Rightarrow> ('c, 'v) ParameterDefinition" where
  "SetRequired v p = p\<lparr>Required := v\<rparr>"

definition SetSupportTemplate :: "bool \<Rightarrow> ('c, 'v) ParameterDefinition \<Rightarrow> ('c, 'v) ParameterDefinition" where
  "SetSupportTemplate v p = p\<lparr>SupportTemplate := v\<rparr>"

definition SetDefaultValue :: "gostr \<Rightarrow> ('c, 'v) ParameterDefinition \<Rightarrow> ('c, 'v) ParameterDefinition" where
  "SetDefaultValue v p = p\<lparr>DefaultValue := v\<rparr>"

definition SetDynamicMode :: "('c, 'v) DynamicModeProperties option \<Rightarrow> ('c, 'v) ParameterDefinition \<Rightarrow> ('c, 'v) ParameterDefinition" where
  "SetDynamicMode v p = p\<lparr>DynamicMode := v\<rparr>"

text \<open>The values come as variadic arguments: a call without any leaves nil.\<close>

definition SetAllowedValues :: "gostr list \<Rightarrow> ('c, 'v) ParameterDefinition \<Rightarrow> ('c, 'v) ParameterDefinition" where
  "SetAllowedValues v p = p\<lparr>AllowedValues := (if v = [] then None else Some v)\<rparr>"

section \<open>Static parameters\<close>

record ('c, 'v, 'r) ParamEnv =
  pe_pgx :: "('c, 'v) PgxEnv"
  interpolateLib :: "byte list \<Rightarrow> byte list res"
  Getenv :: "string \<Rightarrow> byte list"
  tmplParse :: "byte list \<Rightarrow> string option"
  tmplExecute :: "byte list \<Rightarrow> 'c Driver \<Rightarrow> string \<Rightarrow> byte list res"
  castTmpl :: "byte list \<Rightarrow> Column \<Rightarrow> Column option \<Rightarrow> ('c, 'r) Record \<Rightarrow> byte list res"

definition InterpolateEnvVars :: "('c, 'v, 'r) ParamEnv \<Rightarrow> byte list \<Rightarrow> byte list res" where
  "InterpolateEnvVars env s = (if 0x24 \<notin> set s then Inr s else interpolateLib env s)"

text \<open>The linked parameter is a column parameter; what is used of it is its definition and its column.\<close>

record ('c, 'v) StaticParameter =
  sp_definition :: "('c, 'v) ParameterDefinition"
  sp_driver :: "'c Driver"
  sp_linked :: "(('c, 'v) ParameterDefinition \<times> Column option) option"
  sp_Column :: "Column option"
  sp_rawValue :: gostr
  sp_interpolate :: bool

definition NewStaticParameter ::
    "('c, 'v) ParameterDefinition \<Rightarrow> 'c Driver \<Rightarrow> bool \<Rightarrow> ('c, 'v) StaticParameter" where
  "NewStaticParameter d driver interp =
     \<lparr>sp_definition = d, sp_driver = driver, sp_linked = None, sp_Column = None, sp_rawValue = None,
      sp_interpolate = interp\<rparr>"

definition Static_IsEmpty :: "('c, 'v) StaticParameter \<Rightarrow> bool" where
  "Static_IsEmpty sp \<longleftrightarrow> sp_rawValue sp = None \<and> DefaultValue (sp_definition sp) = None"

definition param_warning :: "string \<Rightarrow> (string \<times> MetaValue) list \<Rightarrow> ValidationWarning" where
  "param_warning msg meta = fold (\<lambda>(k, v). AddMeta k v) meta (SetMsg msg (SetSeverity SevError NewValidationWarning))"

definition name_meta :: "('c, 'v) ParameterDefinition \<Rightarrow> string \<times> MetaValue" where
  "name_meta d = (''ParameterName'', MetaStr (pd_Name d))"

definition interpolate_raw ::
    "('c, 'v, 'r) ParamEnv \<Rightarrow> ('c, 'v) StaticParameter \<Rightarrow> gostr \<Rightarrow> ValidationWarning + gostr" where
  "interpolate_raw env sp rawValue =
     (case rawValue of
        None \<Rightarrow> Inr None
      | Some v \<Rightarrow>
          if sp_interpolate sp then
            (case InterpolateEnvVars env v of
               Inl e \<Rightarrow> Inl (param_warning ''error interpolating environment variables in parameter value''
                 [(''Error'', MetaStr (case e of Err m \<Rightarrow> m | Panic m \<Rightarrow> m)),
                  name_meta (sp_definition sp), (''ParameterValue'', MetaStr (str_of v))])
             | Inr v' \<Rightarrow> Inr (Some v'))
          else Inr (Some v))"

definition link_column ::
    "('c, 'v) ParameterDefinition \<Rightarrow> (string \<times> ('c, 'v) StaticParameter) list \<Rightarrow>
     (('c, 'v) ParameterDefinition \<times> Column option) option res" where
  "link_column d columnParams =
     (if LinkColumnParameter d = '''' then Inr None
      else case map_of columnParams (LinkColumnParameter d) of
             None \<Rightarrow> panic ''parameter is not found''
           | Some p \<Rightarrow>
               if \<not> IsColumn (sp_definition p)
               then err ''linked parameter must be column: check transformer implementation''
               else Inr (Some (sp_definition p, sp_Column p)))"

text \<open>A template that writes nothing leaves an empty buffer, whose bytes are a nil slice.\<close>

definition render_raw ::
    "('c, 'v, 'r) ParamEnv \<Rightarrow> ('c, 'v) StaticParameter \<Rightarrow> (ValidationWarning + gostr) res" where
  "render_raw env sp =
     (let raw = bytes_of (sp_rawValue sp) in
      if length raw > 0 \<and> SupportTemplate (sp_definition sp) then
        (case tmplParse env raw of
           Some e \<Rightarrow> Inr (Inl (param_warning ''error parsing template in the parameter''
             [(''Error'', MetaStr e), name_meta (sp_definition sp)]))
         | None \<Rightarrow>
             bindR (case sp_linked sp of
                      None \<Rightarrow> Inr ''''
                    | Some (d, None) \<Rightarrow> panic ''nil pointer dereference''
                    | Some (d, Some c) \<Rightarrow> Inr (cl_Name c)) (\<lambda>columnName.
             bindR (tmplExecute env raw (sp_driver sp) columnName) (\<lambda>out.
             Inr (Inr (if out = [] then None else Some out)))))
      else Inr (Inr (sp_rawValue sp)))"

definition validate_raw :: "('c, 'v) ParameterDefinition \<Rightarrow> gostr \<Rightarrow> ValidationWarning list res" where
  "validate_raw d raw =
     (case RawValueValidator d of
        None \<Rightarrow> Inr []
      | Some f \<Rightarrow> bindR (f raw) (\<lambda>ws. Inr (map (\<lambda>w. AddMeta ''ParameterName'' (MetaStr (pd_Name d)) w) ws)))"

text \<open>\<^verbatim>\<open>slices.Compare\<close> does not tell nil from empty.\<close>

definition allowed_warnings :: "('c, 'v) ParameterDefinition \<Rightarrow> gostr \<Rightarrow> ValidationWarning list" where
  "allowed_warnings d raw =
     (case AllowedValues d of
        None \<Rightarrow> []
      | Some vs \<Rightarrow>
          if list_ex (\<lambda>v. bytes_of v = bytes_of raw) vs then []
          else [param_warning ''unknown parameter value''
                  [(''param'', MetaStr (str_of (bytes_of raw))),
                   (''AllowedValues'', MetaStrs (map (\<lambda>v. str_of (bytes_of v)) vs))]])"

definition check_cast_and_values ::
    "('c, 'v) StaticParameter \<Rightarrow> ValidationWarning list \<Rightarrow> (('c, 'v) StaticParameter \<times> ValidationWarning list) res" where
  "check_cast_and_values sp ws =
     (let d = sp_definition sp in
      if CastDbType d \<noteq> '''' \<and> TypeForName (SharedTypeMap (sp_driver sp)) (CastDbType d) = None then
        (case pd_ColumnProperties d of
           None \<Rightarrow> panic ''nil pointer dereference''
         | Some cp \<Rightarrow>
             Inr (sp, ws @ [param_warning ''cannot perform parameter parsing: unknown type cast type: check transformer implementation or ensure your DB has this type''
               [name_meta d, (''CastDbType'', MetaStr (CastDbType d)),
                (''TransformerAllowedTypes'', MetaStrs (AllowedTypes cp))]]))
      else Inr (sp, ws @ allowed_warnings d (sp_rawValue sp)))"

definition type_rejected :: "('c, 'v) StaticParameter \<Rightarrow> Column \<Rightarrow> bool" where
  "type_rejected sp column \<longleftrightarrow>
     (case pd_ColumnProperties (sp_definition sp) of
        None \<Rightarrow> False
      | Some cp \<Rightarrow>
          length (AllowedTypes cp) > 0 \<and>
          \<not> IsTypeAllowedWithTypeMap (sp_driver sp) (AllowedTypes cp) (fst (GetType column)) (snd (GetType column)) True)"

definition check_column ::
    "gostr \<Rightarrow> ('c, 'v) StaticParameter \<Rightarrow> ValidationWarning list \<Rightarrow> (('c, 'v) StaticParameter \<times> ValidationWarning list) res" where
  "check_column rawValue sp ws =
     (if IsColumn (sp_definition sp) then
        let columnName = str_of (bytes_of rawValue)
        in case GetColumnByName (sp_driver sp) columnName of
             None \<Rightarrow>
               Inr (sp, ws @ [param_warning ''column does not exist''
                 [(''ColumnName'', MetaStr columnName), name_meta (sp_definition sp)]])
           | Some (i, column) \<Rightarrow>
               let sp1 = sp\<lparr>sp_Column := Some column\<rparr>
               in if type_rejected sp1 column
                  then Inr (sp1, ws @ [param_warning ''unsupported column type''
                         [(''ColumnName'', MetaStr columnName), (''TypeName'', MetaStr (fst (GetType column))),
                          (''AllowedTypes'', MetaStrs (case pd_ColumnProperties (sp_definition sp) of None \<Rightarrow> [] | Some cp \<Rightarrow> AllowedTypes cp))]])
                  else check_cast_and_values sp1 ws
      else check_cast_and_values sp ws)"

text \<open>The rest of \<^verbatim>\<open>Init\<close>, from the value the template left.\<close>

definition init_rendered ::
    "gostr \<Rightarrow> gostr \<Rightarrow> ('c, 'v) StaticParameter \<Rightarrow> (('c, 'v) StaticParameter \<times> ValidationWarning list) res" where
  "init_rendered rawValue raw1 sp =
     (let d = sp_definition sp in
      if rawValue = None \<and> Required d
      then Inr (sp\<lparr>sp_rawValue := raw1\<rparr>, [param_warning ''parameter is required'' [name_meta d]])
      else
        let raw2 = (if rawValue = None \<and> DefaultValue d \<noteq> None then DefaultValue d else raw1);
            sp2 = sp\<lparr>sp_rawValue := raw2\<rparr>
        in bindR (validate_raw d raw2) (\<lambda>ws. if IsFatal ws then Inr (sp2, ws) else check_column rawValue sp2 ws))"

definition raw_or_env :: "('c, 'v, 'r) ParamEnv \<Rightarrow> ('c, 'v) ParameterDefinition \<Rightarrow> gostr \<Rightarrow> gostr" where
  "raw_or_env env d rawValue =
     (if rawValue = None \<and> GetFromGlobalEnvVariable d \<noteq> ''''
      then Some (Getenv env (GetFromGlobalEnvVariable d)) else rawValue)"

definition Static_Init ::
    "('c, 'v, 'r) ParamEnv \<Rightarrow> (string \<times> ('c, 'v) StaticParameter) list \<Rightarrow> gostr \<Rightarrow> ('c, 'v) StaticParameter \<Rightarrow>
     (('c, 'v) StaticParameter \<times> ValidationWarning list) res" where
  "Static_Init env columnParams rawValue0 sp =
     (let d = sp_definition sp in
      case interpolate_raw env sp rawValue0 of
        Inl w \<Rightarrow> Inr (sp, [w])
      | Inr rawValue \<Rightarrow>
          bindR (link_column d columnParams) (\<lambda>linked.
          let sp1 = sp\<lparr>sp_rawValue := raw_or_env env d rawValue, sp_linked := linked\<rparr>
          in bindR (render_raw env sp1) (\<lambda>rendered.
             case rendered of
               Inl w \<Rightarrow> Inr (sp1, [w])
             | Inr raw1 \<Rightarrow> init_rendered rawValue raw1 sp1)))"

text \<open>The value without a cache: \<^verbatim>\<open>sp.value\<close> is never assigned.\<close>

definition getValue ::
    "('c, 'v, 'r) ParamEnv \<Rightarrow> (byte list \<Rightarrow> 'v) \<Rightarrow> 'c Driver \<Rightarrow> ('c, 'v) ParameterDefinition \<Rightarrow> gostr \<Rightarrow>
     (('c, 'v) ParameterDefinition \<times> Column option) option \<Rightarrow> 'v res" where
  "getValue env ofString driver d raw linked =
     (case Unmarshaller d of
        Some f \<Rightarrow> f driver raw
      | None \<Rightarrow>
          (case linked of
             Some (_, None) \<Rightarrow> panic ''nil pointer dereference''
           | Some (_, Some c) \<Rightarrow> DecodeValueByTypeOid (pe_pgx env) driver (cl_TypeOid c) (bytes_of raw)
           | None \<Rightarrow>
               if CastDbType d \<noteq> '''' then DecodeValueByTypeName (pe_pgx env) driver (CastDbType d) (bytes_of raw)
               else if IsColumn d then Inr (ofString (bytes_of raw))
               else err ''unknown parsing case: use Scan method instead''))"

definition Static_Value ::
    "('c, 'v, 'r) ParamEnv \<Rightarrow> (byte list \<Rightarrow> 'v) \<Rightarrow> ('c, 'v) StaticParameter \<Rightarrow> 'v option res" where
  "Static_Value env ofString sp =
     (if sp_rawValue sp = None then Inr None
      else bindR (getValue env ofString (sp_driver sp) (sp_definition sp) (sp_rawValue sp) (sp_linked sp))
             (\<lambda>v. Inr (Some v)))"

definition Static_RawValue :: "('c, 'v) StaticParameter \<Rightarrow> gostr" where
  "Static_RawValue sp = sp_rawValue sp"

section \<open>Dynamic parameters\<close>

record 'c TypeCastDefinition =
  tc_Cast :: "'c Driver \<Rightarrow> byte list \<Rightarrow> byte list res"
  InputTypes :: "string list"
  OutputTypes :: "string list"

definition ValidateTypes :: "'c TypeCastDefinition \<Rightarrow> string \<Rightarrow> string \<Rightarrow> bool" where
  "ValidateTypes t i out \<longleftrightarrow> i \<in> set (InputTypes t) \<and> out \<in> set (OutputTypes t)"

record DynamicParamValue =
  dv_Column :: string
  dv_CastTo :: string
  dv_Template :: "byte list"
  dv_DefaultValue :: gostr

record ('c, 'v) DynamicParameter =
  dp_definition :: "('c, 'v) ParameterDefinition"
  dp_driver :: "'c Driver"
  dp_tmpl :: "byte list option"
  dp_linked :: "(('c, 'v) ParameterDefinition \<times> Column option) option"
  dp_columnIdx :: nat
  dp_column :: "Column option"
  hasDefaultValue :: bool
  rawDefaultValue :: gostr
  defaultValueGot :: "'v option"
  castToFunc :: "'c TypeCastDefinition option"

definition NewDynamicParameter :: "('c, 'v) ParameterDefinition \<Rightarrow> 'c Driver \<Rightarrow> ('c, 'v) DynamicParameter" where
  "NewDynamicParameter d driver =
     \<lparr>dp_definition = d, dp_driver = driver, dp_tmpl = None, dp_linked = None, dp_columnIdx = 0, dp_column = None,
      hasDefaultValue = False, rawDefaultValue = None, defaultValueGot = None, castToFunc = None\<rparr>"

definition dyn_default :: "DynamicParamValue \<Rightarrow> ('c, 'v) DynamicParameter \<Rightarrow> ('c, 'v) DynamicParameter" where
  "dyn_default dv dp =
     (if dv_DefaultValue dv \<noteq> None then dp\<lparr>rawDefaultValue := dv_DefaultValue dv, hasDefaultValue := True\<rparr>
      else if DefaultValue (dp_definition dp) \<noteq> None
      then dp\<lparr>rawDefaultValue := DefaultValue (dp_definition dp), hasDefaultValue := True\<rparr>
      else dp)"

text \<open>The cast function of the configuration, or the warning that refuses it.\<close>

definition find_cast ::
    "(string \<times> 'c TypeCastDefinition) list \<Rightarrow> ('c, 'v) ParameterDefinition \<Rightarrow> DynamicParamValue \<Rightarrow>
     ValidationWarning + 'c TypeCastDefinition option" where
  "find_cast casts d dv =
     (let meta = [(''CastToFuncName'', MetaStr (dv_CastTo dv)), (''DynamicParameterSetting'', MetaStr ''cast_to'')] in
      if dv_CastTo dv = '''' then Inr None
      else if LinkColumnParameter d = ''''
      then Inl (param_warning ''cast_to parameter is not supported for Non Linked transformer parameters'' meta)
      else case map_of casts (dv_CastTo dv) of
             None \<Rightarrow> Inl (param_warning ''unable to find cast_to function'' meta)
           | Some c \<Rightarrow> Inr (Some c))"

definition linked_type_warnings ::
    "('c, 'v) DynamicParameter \<Rightarrow> ('c, 'v) ParameterDefinition \<Rightarrow> Column \<Rightarrow> Column \<Rightarrow> ('c, 'v) DynamicModeProperties \<Rightarrow>
     ValidationWarning list" where
  "linked_type_warnings dp ld lc column dm =
     (let d = dp_definition dp; driver = dp_driver dp;
          meta = [(''DynamicParameterSetting'', MetaStr ''column''), (''DynamicParameterColumnType'', MetaStr (cl_TypeName column)),
                  (''DynamicParameterColumnName'', MetaStr (cl_Name column))]
      in (if cl_TypeOid lc \<noteq> cl_TypeOid column
            \<and> (case pd_ColumnProperties ld of None \<Rightarrow> False | Some cp \<Rightarrow> length (AllowedTypes cp) > 0)
            \<and> \<not> IsTypeAllowedWithTypeMap driver (SupportedTypes dm) (cl_TypeName column) (cl_TypeOid column) True
          then [param_warning ''linked parameter and dynamic parameter column name has different types''
                  (meta @ [(''LinkedParameterName'', MetaStr (LinkColumnParameter d)), (''LinkedColumnName'', MetaStr (cl_Name lc)),
                   (''LinkedColumnType'', MetaStr (cl_TypeName lc)),
                   (''Hint'', MetaStr ''you can use \"cast_template\" for casting value to supported type'')])]
          else []) @
         (if CastDbType d \<noteq> ''''
            \<and> \<not> IsTypeAllowedWithTypeMap driver [CastDbType d] (cl_TypeName column) (cl_TypeOid column) True
          then [param_warning ''unsupported column type: unsupported type according cast_db_type''
                  (meta @ [(''CastDbType'', MetaStr (CastDbType d))])]
          else []))"

definition Dynamic_Init ::
    "('c, 'v, 'r) ParamEnv \<Rightarrow> (string \<times> 'c TypeCastDefinition) list \<Rightarrow> (string \<times> ('c, 'v) StaticParameter) list \<Rightarrow>
     DynamicParamValue option \<Rightarrow> ('c, 'v) DynamicParameter \<Rightarrow> (('c, 'v) DynamicParameter \<times> ValidationWarning list) res" where
  "Dynamic_Init env casts columnParams dynamicValue dp =
     (let d = dp_definition dp in
      case DynamicMode d of
        None \<Rightarrow> Inr (dp, [param_warning ''parameter does not support dynamic mode'' []])
      | Some dm \<Rightarrow>
          (case dynamicValue of
             None \<Rightarrow> panic ''DynamicValue is nil''
           | Some dv \<Rightarrow>
               if dv_Column dv = '''' then
                 Inr (dp, [param_warning ''received empty \"column\" parameter''
                             [(''DynamicParameterSetting'', MetaStr ''column'')]])
               else
                 let dp1 = dyn_default dv dp
                 in case (if dv_Template dv \<noteq> [] then tmplParse env (dv_Template dv) else None) of
                    Some e \<Rightarrow>
                      Inr (dp1, [param_warning ''unable to render cast template''
                                   [(''Error'', MetaStr e), (''DynamicParameterSetting'', MetaStr ''cast_template'')]])
                  | None \<Rightarrow>
                      let dp2 = dp1\<lparr>dp_tmpl := (if dv_Template dv \<noteq> [] then Some (dv_Template dv) else None)\<rparr>
                      in if IsColumn d then Inr (dp2, [param_warning ''column parameter cannot work in dynamic mode'' []])
                         else
                           (case GetColumnByName (dp_driver dp) (dv_Column dv) of
                              None \<Rightarrow>
                                Inr (dp2, [param_warning ''column does not exist''
                                  [(''DynamicParameterSetting'', MetaStr ''column''), (''ColumnName'', MetaStr (pd_Name d))]])
                            | Some (idx, column) \<Rightarrow>
                                let dp3 = dp2\<lparr>dp_column := Some column, dp_columnIdx := idx\<rparr>
                                in (case find_cast casts d dv of
                                      Inl w \<Rightarrow> Inr (dp3, [w])
                                    | Inr cast \<Rightarrow>
                                        let dp4 = dp3\<lparr>castToFunc := cast\<rparr>
                                        in if LinkColumnParameter d = '''' then Inr (dp4, [])
                                           else bindR (link_column d columnParams) (\<lambda>linked.
                                             case linked of
                                               None \<Rightarrow> Inr (dp4, [])
                                             | Some (ld, None) \<Rightarrow> panic ''nil pointer dereference''
                                             | Some (ld, Some lc) \<Rightarrow>
                                                 let dp5 = dp4\<lparr>dp_linked := linked\<rparr>;
                                                     inputType = GetCanonicalTypeName (dp_driver dp) (cl_TypeName column) (cl_TypeOid column);
                                                     outputType = GetCanonicalTypeName (dp_driver dp) (cl_TypeName lc) (cl_TypeOid lc)
                                                 in (case cast of
                                                       Some c \<Rightarrow>
                                                         if \<not> ValidateTypes c inputType outputType
                                                         then Inr (dp5, [param_warning ''type cast function has unsupported input or output types''
                                                                [(''AllowedInputTypes'', MetaStrs (InputTypes c)), (''AllowedOutputTypes'', MetaStrs (OutputTypes c)),
                                                                 (''RequestedInputType'', MetaStr inputType), (''RequestedOutputType'', MetaStr outputType),
                                                                 (''CastToFuncName'', MetaStr (dv_CastTo dv)), (''DynamicParameterSetting'', MetaStr ''cast_to'')]])
                                                         else Inr (dp5, [])
                                                     | None \<Rightarrow>
                                                         Inr (dp5, if dp_tmpl dp5 = None then linked_type_warnings dp5 ld lc column dm else [])))))))"

text \<open>\<open>record\<close> is the record that was set; before the first one using the parameter is an error.\<close>

definition not_initialised :: fault where
  "not_initialised = Err ''check transformer implementation: dynamic parameter usage during initialization stage is prohibited''"

definition raw_of ::
    "'r RowOps \<Rightarrow> ('c, 'r) Record option \<Rightarrow> ('c, 'v) DynamicParameter \<Rightarrow> RawValue res" where
  "raw_of ops record dp =
     (case record of
        None \<Rightarrow> Inl not_initialised
      | Some r \<Rightarrow> GetRawColumnValueByIdx ops r (int (dp_columnIdx dp)))"

definition Dynamic_IsEmpty ::
    "'r RowOps \<Rightarrow> ('c, 'r) Record option \<Rightarrow> ('c, 'v) DynamicParameter \<Rightarrow> bool res" where
  "Dynamic_IsEmpty ops record dp =
     bindR (raw_of ops record dp) (\<lambda>v. Inr (if \<not> IsNull v then False else \<not> hasDefaultValue dp))"

definition Dynamic_RawValue ::
    "'r RowOps \<Rightarrow> ('c, 'r) Record option \<Rightarrow> ('c, 'v) DynamicParameter \<Rightarrow> gostr res" where
  "Dynamic_RawValue ops record dp =
     bindR (raw_of ops record dp) (\<lambda>v.
       if IsNull v then
         if hasDefaultValue dp then Inr (rawDefaultValue dp)
         else err ''received NULL value from dynamic parameter''
       else Inr (Some (Data v)))"

text \<open>The raw value after the cast template or the cast function.\<close>

definition casted ::
    "('c, 'v, 'r) ParamEnv \<Rightarrow> ('c, 'r) Record option \<Rightarrow> ('c, 'v) DynamicParameter \<Rightarrow> byte list \<Rightarrow> byte list res" where
  "casted env record dp rawValue =
     (case (dp_tmpl dp, dp_column dp, record) of
        (Some t, Some c, Some r) \<Rightarrow>
          castTmpl env t c (case dp_linked dp of None \<Rightarrow> None | Some (_, lc) \<Rightarrow> lc) r
      | (Some t, _, _) \<Rightarrow> panic ''nil pointer dereference''
      | (None, _, _) \<Rightarrow>
          (case castToFunc dp of
             None \<Rightarrow> Inr rawValue
           | Some f \<Rightarrow> tc_Cast f (dp_driver dp) rawValue))"

definition Dynamic_Value ::
    "('c, 'v, 'r) ParamEnv \<Rightarrow> (byte list \<Rightarrow> 'v) \<Rightarrow> 'r RowOps \<Rightarrow> ('c, 'r) Record option \<Rightarrow>
     ('c, 'v) DynamicParameter \<Rightarrow> (('c, 'v) DynamicParameter \<times> 'v) res" where
  "Dynamic_Value env ofString ops record dp =
     bindR (raw_of ops record dp) (\<lambda>v.
       if IsNull v then
         if \<not> hasDefaultValue dp then err ''received NULL value from dynamic parameter''
         else (case defaultValueGot dp of
                 Some x \<Rightarrow> Inr (dp, x)
               | None \<Rightarrow>
                   bindR (getValue env ofString (dp_driver dp) (dp_definition dp) (rawDefaultValue dp) (dp_linked dp))
                     (\<lambda>x. Inr (dp\<lparr>defaultValueGot := Some x\<rparr>, x)))
       else
         bindR (casted env record dp (Data v)) (\<lambda>rawValue.
           case DynamicMode (dp_definition dp) of
             None \<Rightarrow> panic ''nil pointer dereference''
           | Some dm \<Rightarrow>
               (case dm_Unmarshal dm of
                  Some f \<Rightarrow>
                    (case dp_column dp of
                       None \<Rightarrow> panic ''nil pointer dereference''
                     | Some c \<Rightarrow> bindR (f (dp_driver dp) (cl_CanonicalTypeName c) rawValue) (\<lambda>x. Inr (dp, x)))
                | None \<Rightarrow>
                    bindR (DecodeValueByColumnIdx (pe_pgx env) (dp_driver dp) (int (dp_columnIdx dp)) rawValue)
                      (\<lambda>x. Inr (dp, x)))))"

section \<open>All parameters of a transformer\<close>

datatype ('c, 'v) Parameterizer = StaticP "('c, 'v) StaticParameter" | DynamicP "('c, 'v) DynamicParameter"

definition has_definition :: "('c, 'v) ParameterDefinition list \<Rightarrow> string \<Rightarrow> bool" where
  "has_definition defs n \<longleftrightarrow> list_ex (\<lambda>d. pd_Name d = n) defs"

definition required_warnings ::
    "('c, 'v) ParameterDefinition list \<Rightarrow> (string \<times> 'x) list \<Rightarrow> (string \<times> 'y) list \<Rightarrow> ValidationWarning list" where
  "required_warnings defs static dynamic =
     concat (map (\<lambda>d.
       if Required d \<and> map_of static (pd_Name d) = None \<and> map_of dynamic (pd_Name d) = None
       then [param_warning ''parameter is required'' [name_meta d]] else []) defs)"

definition name_warnings ::
    "('c, 'v) ParameterDefinition list \<Rightarrow> (string \<times> 'x) list \<Rightarrow> (string \<times> 'y) list \<Rightarrow> ValidationWarning list" where
  "name_warnings defs these others =
     concat (map (\<lambda>(n, _).
       (if \<not> has_definition defs n
        then [param_warning ''received unknown parameter'' [(''ParameterName'', MetaStr n)]] else []) @
       (if map_of others n \<noteq> None
        then [param_warning ''parameter value must be only static or dynamic at the same time''
                [(''ParameterName'', MetaStr n)]] else [])) these)"

definition named_warnings :: "('c, 'v) ParameterDefinition \<Rightarrow> ValidationWarning list \<Rightarrow> ValidationWarning list" where
  "named_warnings d ws = map (\<lambda>w. AddMeta ''ParameterName'' (MetaStr (pd_Name d)) w) ws"

fun init_columns ::
    "('c, 'v, 'r) ParamEnv \<Rightarrow> 'c Driver \<Rightarrow> bool \<Rightarrow> (string \<times> gostr) list \<Rightarrow>
     (string \<times> DynamicParamValue option) list \<Rightarrow> ('c, 'v) ParameterDefinition list \<Rightarrow>
     (string \<times> ('c, 'v) StaticParameter) list \<Rightarrow> ((string \<times> ('c, 'v) StaticParameter) list \<times> ValidationWarning list) res" where
  "init_columns env driver interp static dynamic [] ps = Inr (ps, [])"
| "init_columns env driver interp static dynamic (d # ds) ps =
     (case map_of static (pd_Name d) of
        Some v \<Rightarrow>
          bindR (Static_Init env [] v (NewStaticParameter d driver interp)) (\<lambda>(sp, ws).
          bindR (init_columns env driver interp static dynamic ds (AList.update (pd_Name d) sp ps)) (\<lambda>(ps', ws').
          Inr (ps', named_warnings d ws @ ws')))
      | None \<Rightarrow>
          bindR (init_columns env driver interp static dynamic ds ps) (\<lambda>(ps', ws').
          Inr (ps', (if map_of dynamic (pd_Name d) \<noteq> None
                     then [param_warning ''column parameter cannot work in dynamic mode'' []] else []) @ ws')))"

fun init_others ::
    "('c, 'v, 'r) ParamEnv \<Rightarrow> (string \<times> 'c TypeCastDefinition) list \<Rightarrow> 'c Driver \<Rightarrow> bool \<Rightarrow> (string \<times> gostr) list \<Rightarrow>
     (string \<times> DynamicParamValue option) list \<Rightarrow> (string \<times> ('c, 'v) StaticParameter) list \<Rightarrow>
     ('c, 'v) ParameterDefinition list \<Rightarrow> (string \<times> ('c, 'v) Parameterizer) list \<Rightarrow>
     ((string \<times> ('c, 'v) Parameterizer) list \<times> ValidationWarning list) res" where
  "init_others env casts driver interp static dynamic columnParams [] ps = Inr (ps, [])"
| "init_others env casts driver interp static dynamic columnParams (d # ds) ps =
     bindR (case map_of dynamic (pd_Name d) of
              Some dv \<Rightarrow>
                bindR (Dynamic_Init env casts columnParams dv (NewDynamicParameter d driver)) (\<lambda>(dp, ws).
                Inr (DynamicP dp, ws))
            | None \<Rightarrow>
                bindR (Static_Init env columnParams (Option.bind (map_of static (pd_Name d)) id) (NewStaticParameter d driver interp))
                  (\<lambda>(sp, ws). Inr (StaticP sp, ws))) (\<lambda>(p, ws).
     bindR (init_others env casts driver interp static dynamic columnParams ds (AList.update (pd_Name d) p ps))
       (\<lambda>(ps', ws'). Inr (ps', named_warnings d ws @ ws')))"

definition InitParameters ::
    "('c, 'v, 'r) ParamEnv \<Rightarrow> (string \<times> 'c TypeCastDefinition) list \<Rightarrow> 'c Driver \<Rightarrow> ('c, 'v) ParameterDefinition list \<Rightarrow>
     (string \<times> gostr) list \<Rightarrow> (string \<times> DynamicParamValue option) list \<Rightarrow> bool \<Rightarrow>
     ((string \<times> ('c, 'v) Parameterizer) list option \<times> ValidationWarning list) res" where
  "InitParameters env casts driver defs static dynamic interp =
     (let missing = required_warnings defs static dynamic in
      if IsFatal missing then Inr (None, missing)
      else
        let w1 = name_warnings defs static dynamic @ name_warnings defs dynamic static in
        if IsFatal w1 then Inr (None, w1)
        else
          bindR (init_columns env driver interp static dynamic (filter IsColumn defs) []) (\<lambda>(columnParams, w2).
          if IsFatal (w1 @ w2) then Inr (None, w1 @ w2)
          else
            bindR (init_others env casts driver interp static dynamic columnParams (filter (\<lambda>d. \<not> IsColumn d) defs)
                     (map (\<lambda>(n, sp). (n, StaticP sp)) columnParams)) (\<lambda>(ps, w3).
            Inr (Some ps, w1 @ w2 @ w3))))"

end
