(* ===== verification/TypeCasts.thy ===== *)
theory TypeCasts
  imports Parameters "HOL-Library.Signed_Division"
begin

text \<open>
  The functions that cast the value of a dynamic parameter to the type of the column it is for,
  \<^verbatim>\<open>pkg/toolkit/type_caster_static_funtions.go\<close> and \<^verbatim>\<open>type_cast_functions.go\<close>.

  A \<^verbatim>\<open>time.Time\<close> is its seconds since 1970, an \<^verbatim>\<open>int64\<close>, and the nanoseconds of the second. The conversions of the
  cast package and of floating point numbers are parameters.
\<close>

section \<open>Unix time\<close>

record GoTime =
  gt_sec :: int64
  gt_nsec :: int

text \<open>\<^verbatim>\<open>time.Unix\<close> with its normalisation; \<^verbatim>\<open>/\<close> and \<^verbatim>\<open>%\<close> of Go truncate towards zero.\<close>

definition time_Unix :: "int64 \<Rightarrow> int \<Rightarrow> GoTime" where
  "time_Unix sec nsec =
     (if nsec < 0 \<or> nsec \<ge> 1000000000 then
        let n = nsec sdiv 1000000000;
            sec1 = sec + word_of_int n;
            nsec1 = nsec - n * 1000000000
        in if nsec1 < 0 then \<lparr>gt_sec = sec1 - 1, gt_nsec = nsec1 + 1000000000\<rparr>
           else \<lparr>gt_sec = sec1, gt_nsec = nsec1\<rparr>
      else \<lparr>gt_sec = sec, gt_nsec = nsec\<rparr>)"

definition time_UnixMilli :: "int64 \<Rightarrow> GoTime" where
  "time_UnixMilli v = time_Unix (word_of_int (sint v sdiv 1000)) ((sint v smod 1000) * 1000000)"

definition time_UnixMicro :: "int64 \<Rightarrow> GoTime" where
  "time_UnixMicro v = time_Unix (word_of_int (sint v sdiv 1000000)) ((sint v smod 1000000) * 1000)"

definition Unix :: "GoTime \<Rightarrow> int64" where
  "Unix t = gt_sec t"

definition UnixMilli :: "GoTime \<Rightarrow> int64" where
  "UnixMilli t = gt_sec t * 1000 + word_of_int (gt_nsec t div 1000000)"

definition UnixMicro :: "GoTime \<Rightarrow> int64" where
  "UnixMicro t = gt_sec t * 1000000 + word_of_int (gt_nsec t div 1000)"

definition UnixNano :: "GoTime \<Rightarrow> int64" where
  "UnixNano t = gt_sec t * 1000000000 + word_of_int (gt_nsec t)"

datatype timeUnit = Sec | Milli | Micro | Nano

definition unit_of :: "string \<Rightarrow> timeUnit option" where
  "unit_of u = map_of [(''sec'', Sec), (''milli'', Milli), (''micro'', Micro), (''nano'', Nano)] u"

definition validateUnixTimeUnit :: "string \<Rightarrow> timeUnit res" where
  "validateUnixTimeUnit u = (case unit_of u of None \<Rightarrow> err ''unknown unix time unit'' | Some t \<Rightarrow> Inr t)"

text \<open>The difference of \<^verbatim>\<open>int64\<close> values in the last case is taken as it is computed, with its wrap-around.\<close>

fun generate_time :: "timeUnit \<Rightarrow> int64 \<Rightarrow> GoTime" where
  "generate_time Sec v = time_Unix v 0"
| "generate_time Milli v = time_UnixMilli v"
| "generate_time Micro v = time_UnixMicro v"
| "generate_time Nano v =
     (let seconds = word_of_int (sint v sdiv 1000000000) :: int64; nano = v - seconds
      in time_Unix seconds (sint nano))"

fun generate_unix :: "timeUnit \<Rightarrow> GoTime \<Rightarrow> int64" where
  "generate_unix Sec t = Unix t"
| "generate_unix Milli t = UnixMilli t"
| "generate_unix Micro t = UnixMicro t"
| "generate_unix Nano t = UnixNano t"

definition timeToUnix :: "string \<Rightarrow> GoTime \<Rightarrow> int64 res" where
  "timeToUnix u t = bindR (validateUnixTimeUnit u) (\<lambda>x. Inr (generate_unix x t))"

section \<open>Cast functions\<close>

record ('v, 'f) CastEnv =
  ToInt64E :: "byte list \<Rightarrow> int64 res"
  anyToInt64E :: "'v \<Rightarrow> int64 res"
  ToFloat64E :: "byte list \<Rightarrow> 'f res"
  floatToInt64 :: "'f \<Rightarrow> int64"
  floatToBoolE :: "'f \<Rightarrow> bool res"
  ToBoolE :: "byte list \<Rightarrow> bool res"
  ofTime :: "GoTime \<Rightarrow> 'v"
  timeOf :: "'v \<Rightarrow> GoTime option"
  ofInt64 :: "int64 \<Rightarrow> 'v"
  ofBool :: "bool \<Rightarrow> 'v"

definition unixToTime :: "('v, 'f) CastEnv \<Rightarrow> string \<Rightarrow> 'v \<Rightarrow> GoTime res" where
  "unixToTime ce u value =
     bindR (validateUnixTimeUnit u) (\<lambda>x. bindR (anyToInt64E ce value) (\<lambda>v. Inr (generate_time x v)))"

type_synonym 'c cast = "'c Driver \<Rightarrow> byte list \<Rightarrow> byte list res"

definition CastIntToFloat :: "'c cast" where
  "CastIntToFloat driver input = Inr input"

definition CastFloatToInt :: "('v, 'f) CastEnv \<Rightarrow> 'c cast" where
  "CastFloatToInt ce driver input =
     bindR (ToFloat64E ce input) (\<lambda>f. Inr (FormatInt (floatToInt64 ce f)))"

definition timeLikeTypes :: "string list" where
  "timeLikeTypes = [''date'', ''timestamp'', ''timestamptz'']"

definition unixLikeToTimeLikeFuncMaker ::
    "('c, 'v) PgxEnv \<Rightarrow> ('v, 'f) CastEnv \<Rightarrow> string \<Rightarrow> string \<Rightarrow> 'c cast res" where
  "unixLikeToTimeLikeFuncMaker env ce inputType u =
     (if inputType \<notin> set timeLikeTypes then panic ''unknown input type''
      else case unit_of u of
             None \<Rightarrow> panic ''unknown unix time unit''
           | Some x \<Rightarrow> Inr (\<lambda>driver input.
               bindR (ToInt64E ce input) (\<lambda>v. EncodeValueByTypeName env driver inputType (ofTime ce (generate_time x v)))))"

definition timeLikeToUnixLikeFuncMaker ::
    "('c, 'v) PgxEnv \<Rightarrow> ('v, 'f) CastEnv \<Rightarrow> string \<Rightarrow> string \<Rightarrow> 'c cast res" where
  "timeLikeToUnixLikeFuncMaker env ce inputType u =
     (if inputType \<notin> set timeLikeTypes then panic ''unknown input type''
      else case unit_of u of
             None \<Rightarrow> panic ''unknown unix time unit''
           | Some x \<Rightarrow> Inr (\<lambda>driver input.
               bindR (DecodeValueByTypeName env driver inputType input) (\<lambda>anyVal.
               case timeOf ce anyVal of
                 None \<Rightarrow> err ''received unexpected value: expected time.Time''
               | Some t \<Rightarrow> EncodeValueByTypeName env driver ''int8'' (ofInt64 ce (generate_unix x t)))))"

definition IntToBool :: "('c, 'v) PgxEnv \<Rightarrow> ('v, 'f) CastEnv \<Rightarrow> 'c cast" where
  "IntToBool env ce driver input =
     bindR (ToFloat64E ce input) (\<lambda>f. bindR (floatToBoolE ce f) (\<lambda>b.
       EncodeValueByTypeName env driver ''bool'' (ofBool ce b)))"

text \<open>\<^verbatim>\<open>cast.ToFloat64E\<close> of a bool is 0 or 1, and both are exact.\<close>

definition BoolToInt :: "('c, 'v) PgxEnv \<Rightarrow> ('v, 'f) CastEnv \<Rightarrow> 'c cast" where
  "BoolToInt env ce driver input =
     bindR (ToBoolE ce input) (\<lambda>b. EncodeValueByTypeName env driver ''int8'' (ofInt64 ce (if b then 1 else 0)))"

text \<open>
  \<^verbatim>\<open>CastFunctionsMap\<close>: the name, whether the time is the result, the type and unit the function was made for, and the
  types it is registered with.
\<close>

definition numberTypes :: "string list" where
  "numberTypes = [''int2'', ''int4'', ''int8'', ''numeric'', ''float4'', ''float8'']"

definition toTimeCasts :: "(string \<times> string \<times> string \<times> string) list" where
  "toTimeCasts =
     [(''UnixNanoToDate'', ''date'', ''nano'', ''date''), (''UnixMicroToDate'', ''date'', ''micro'', ''date''),
      (''UnixMilliToDate'', ''date'', ''milli'', ''date''), (''UnixSecToDate'', ''date'', ''sec'', ''date''),
      (''UnixNanoToTimestamp'', ''timestamp'', ''nano'', ''timestamp''),
      (''UnixMicroToTimestamp'', ''timestamp'', ''micro'', ''timestamp''),
      (''UnixMilliToTimestamp'', ''timestamp'', ''milli'', ''timestamp''),
      (''UnixSecToTimestamp'', ''timestamp'', ''sec'', ''timestamp''),
      (''UnixNanoToTimestampTz'', ''timestamptz'', ''nano'', ''timestamptz''),
      (''UnixMicroToTimestampTz'', ''timestamptz'', ''micro'', ''timestamptz''),
      (''UnixMilliToTimestampTz'', ''timestamptz'', ''milli'', ''timestamptz''),
      (''UnixSecToTimestampTz'', ''timestamptz'', ''sec'', ''timestamptz'')]"

definition fromTimeCasts :: "(string \<times> string \<times> string \<times> string) list" where
  "fromTimeCasts =
     [(''DateToUnixNano'', ''date'', ''nano'', ''date''), (''DateToUnixMicro'', ''date'', ''micro'', ''date''),
      (''DateToUnixMilli'', ''date'', ''milli'', ''date''), (''DateToUnixSec'', ''date'', ''sec'', ''date''),
      (''TimestampToUnixNano'', ''timestamp'', ''nano'', ''timestamp''),
      (''TimestampToUnixMicro'', ''timestamp'', ''micro'', ''timestamp''),
      (''TimestampToUnixMilli'', ''timestamp'', ''milli'', ''timestamp''),
      (''TimestampToUnixSec'', ''timestamp'', ''sec'', ''timestamp''),
      (''TimestampTzToUnixNano'', ''timestamptz'', ''nano'', ''date''),
      (''TimestampTzToUnixMicro'', ''timestamptz'', ''micro'', ''timestamptz''),
      (''TimestampTzToUnixMilli'', ''timestamptz'', ''milli'', ''timestamptz''),
      (''TimestampTzToUnixSec'', ''timestamptz'', ''sec'', ''timestamptz'')]"

text \<open>The makers do not panic for the entries of the tables; the function of one that did is never taken.\<close>

definition made :: "'c cast res \<Rightarrow> 'c cast" where
  "made m = (case m of Inr f \<Rightarrow> f | Inl e \<Rightarrow> \<lambda>_ _. Inl e)"

definition CastFunctionsMap ::
    "('c, 'v) PgxEnv \<Rightarrow> ('v, 'f) CastEnv \<Rightarrow> (string \<times> 'c TypeCastDefinition) list" where
  "CastFunctionsMap env ce =
     map (\<lambda>(n, made_for, u, registered).
       (n, \<lparr>tc_Cast = made (unixLikeToTimeLikeFuncMaker env ce made_for u), InputTypes = numberTypes,
            OutputTypes = [registered]\<rparr>)) toTimeCasts @
     map (\<lambda>(n, made_for, u, registered).
       (n, \<lparr>tc_Cast = made (timeLikeToUnixLikeFuncMaker env ce made_for u), InputTypes = [registered],
            OutputTypes = numberTypes\<rparr>)) fromTimeCasts @
     [(''FloatToInt'', \<lparr>tc_Cast = CastFloatToInt ce, InputTypes = [''numeric'', ''float4'', ''float8''],
         OutputTypes = [''int2'', ''int4'', ''int8'', ''numeric'']\<rparr>),
      (''IntToFloat'', \<lparr>tc_Cast = CastIntToFloat, InputTypes = [''int2'', ''int4'', ''int8'', ''numeric''],
         OutputTypes = [''numeric'', ''float4'', ''float8'']\<rparr>),
      (''IntToBool'', \<lparr>tc_Cast = IntToBool env ce, InputTypes = numberTypes, OutputTypes = [''bool'']\<rparr>),
      (''BoolToInt'', \<lparr>tc_Cast = BoolToInt env ce, InputTypes = [''bool''], OutputTypes = numberTypes\<rparr>)]"

section \<open>The caster between two types\<close>

record 'c TypeCaster =
  ct_cast :: "'c cast"
  ct_input :: "'c PgType"
  ct_output :: "'c PgType"

text \<open>The comparison of the oids follows the pointers, also one that was not found.\<close>

definition NewTypeCaster ::
    "(string \<times> 'c TypeCastDefinition) list \<Rightarrow> 'c Driver \<Rightarrow> string \<Rightarrow> string \<Rightarrow> string \<Rightarrow>
     ('c TypeCaster option \<times> ValidationWarning list) res" where
  "NewTypeCaster casts driver inputType outputType castFunction =
     (case (TypeForName (SharedTypeMap driver) inputType, TypeForName (SharedTypeMap driver) outputType) of
        (Some i, Some out) \<Rightarrow>
          let w1 = (if pt_OID i = pt_OID out
                    then [param_warning ''casting is not required for equal type''
                            [(''RequestedOutputType'', MetaStr outputType), (''RequestedInputType'', MetaStr outputType)]]
                    else [])
          in if IsFatal w1 then Inr (None, w1)
             else (case map_of casts castFunction of
                     None \<Rightarrow> Inr (None, w1 @ [param_warning ''unable to find cast function''
                                         [(''CastFuncName'', MetaStr castFunction)]])
                   | Some c \<Rightarrow>
                       let w2 = w1 @ (if inputType \<notin> set (InputTypes c)
                                      then [param_warning ''unsupported input type for cast function''
                                              [(''AllowedInputTypes'', MetaStrs (InputTypes c)),
                                               (''RequestedInputType'', MetaStr inputType),
                                               (''CastFuncName'', MetaStr castFunction)]] else []) @
                                (if outputType \<notin> set (OutputTypes c)
                                 then [param_warning ''unsupported output type for cast function''
                                         [(''AllowedOutputTypes'', MetaStrs (OutputTypes c)),
                                          (''RequestedOutputType'', MetaStr outputType),
                                          (''CastFuncName'', MetaStr castFunction)]] else [])
                       in if IsFatal w2 then Inr (None, w2)
                          else Inr (Some \<lparr>ct_cast = tc_Cast c, ct_input = i, ct_output = out\<rparr>, w2))
      | _ \<Rightarrow> panic ''nil pointer dereference'')"

definition TypeCaster_Cast :: "'c TypeCaster \<Rightarrow> 'c cast" where
  "TypeCaster_Cast tc driver input = ct_cast tc driver input"

end
