(* ===== verification/ParametersClaims.thy ===== *)
theory ParametersClaims
  imports TypeCasts PgRow GenTransformers
begin

text \<open>
  The properties of drivers, parameters and casts: Unix time there and back, what initialised parameters are, the type
  override of a column, and values through a record.
\<close>

section \<open>Unix time there and back\<close>

definition time_ns :: "GoTime \<Rightarrow> int" where
  "time_ns t = sint (gt_sec t) * 1000000000 + gt_nsec t"

lemma sdiv_smod:
  assumes "0 < (b :: int)"
  shows "a sdiv b * b + a smod b = a"
proof -
  have "sgn a * (\<bar>a\<bar> div b * b) + sgn a * (\<bar>a\<bar> mod b) = a"
    by (simp only: distrib_left [symmetric] div_mult_mod_eq sgn_mult_abs)
  then show ?thesis
    using assms by (simp add: signed_divide_int_def smod_int_alt_def sgn_mult distrib_left mult.assoc)
qed

lemma smod_abs_less: "0 < (b :: int) \<Longrightarrow> \<bar>a smod b\<bar> < b"
  by (simp add: smod_int_alt_def abs_mult abs_sgn_eq)

text \<open>A number of nanoseconds within a second in either direction moves the seconds by one at most.\<close>

lemma time_Unix_near:
  assumes "\<bar>nsec\<bar> < 1000000000"
  shows "time_Unix sec nsec =
    (if nsec < 0 then \<lparr>gt_sec = sec - 1, gt_nsec = nsec + 1000000000\<rparr> else \<lparr>gt_sec = sec, gt_nsec = nsec\<rparr>)"
  using assms by (auto simp: time_Unix_def Let_def signed_divide_int_def)

lemma near_roundtrip:
  fixes v :: int64 and k m :: int
  assumes "0 < k" "0 < m" "k * m = 1000000000"
  defines "t \<equiv> time_Unix (word_of_int (sint v sdiv k)) ((sint v smod k) * m)"
  shows "gt_sec t * word_of_int k + word_of_int (gt_nsec t div m) = v"
proof -
  let ?q = "sint v sdiv k" and ?r = "sint v smod k"
  have r: "\<bar>?r\<bar> < k" using assms(1) by (rule smod_abs_less)
  then have "\<bar>?r * m\<bar> < k * m" using assms(2) by (simp add: abs_mult)
  then have near: "\<bar>?r * m\<bar> < 1000000000" using assms(3) by simp
  have v: "?q * k + ?r = sint v" using assms(1) by (rule sdiv_smod)
  have "gt_sec t * word_of_int k + word_of_int (gt_nsec t div m) = word_of_int (?q * k + ?r)"
  proof (cases "?r * m < 0")
    case True
    have "(?r * m + k * m) div m = ?r + k" using assms(2) by (simp flip: distrib_right)
    moreover have "word_of_int (?q * k + ?r) = (word_of_int ((?q - 1) * k + (?r + k)) :: int64)"
      by (simp add: algebra_simps)
    ultimately show ?thesis
      using True assms(3) by (simp add: t_def time_Unix_near [OF near])
  next
    case False
    then show ?thesis using assms(2) by (simp add: t_def time_Unix_near [OF near])
  qed
  then show ?thesis by (simp add: v)
qed

text \<open>Where the seconds do not wrap around, \<^verbatim>\<open>time.Unix\<close> keeps the instant.\<close>

lemma time_ns_Unix:
  assumes "- (2 ^ 62) \<le> sint sec" "sint sec < 2 ^ 62" "\<bar>nsec\<bar> < 2 ^ 63"
  shows "time_ns (time_Unix sec nsec) = sint sec * 1000000000 + nsec"
proof -
  define n where "n = nsec sdiv 1000000000"
  define r where "r = nsec smod 1000000000"
  have split: "n * 1000000000 + r = nsec" unfolding n_def r_def by (rule sdiv_smod) simp
  have r: "\<bar>r\<bar> < 1000000000" unfolding r_def by (rule smod_abs_less) simp
  have n: "\<bar>n\<bar> < 2 ^ 61" using split r assms(3) by auto
  have sec1: "sint (sec + word_of_int n) = sint sec + n" "sint (sec + word_of_int n - 1) = sint sec + n - 1"
  proof -
    have "sec + word_of_int n = word_of_int (sint sec + n)" "sec + word_of_int n - 1 = word_of_int (sint sec + n - 1)"
      by simp_all
    moreover have "sint (word_of_int (sint sec + n) :: int64) = sint sec + n"
      "sint (word_of_int (sint sec + n - 1) :: int64) = sint sec + n - 1"
      using n assms(1,2) by (intro sint_word_of_int; simp)+
    ultimately show "sint (sec + word_of_int n) = sint sec + n" "sint (sec + word_of_int n - 1) = sint sec + n - 1"
      by simp_all
  qed
  have rest: "nsec - n * 1000000000 = r" using split by simp
  show ?thesis
  proof (cases "nsec < 0 \<or> nsec \<ge> 1000000000")
    case True
    then show ?thesis using sec1 split
      by (auto simp: time_Unix_def time_ns_def Let_def rest simp flip: n_def)
  next
    case False
    then show ?thesis by (simp add: time_Unix_def time_ns_def)
  qed
qed

lemma nano_time:
  fixes v :: int64
  defines "q \<equiv> sint v sdiv 1000000000"
  shows "time_ns (generate_time Nano v) = sint v + q * 999999999" and "\<bar>q\<bar> \<le> 9223372037"
proof -
  have split: "q * 1000000000 + sint v smod 1000000000 = sint v" unfolding q_def by (rule sdiv_smod) simp
  have r: "\<bar>sint v smod 1000000000\<bar> < 1000000000" by (rule smod_abs_less) simp
  have v: "- (2 ^ 63) \<le> sint v" "sint v < 2 ^ 63" using sint_greater_eq [of v] sint_lt [of v] by simp_all
  show q: "\<bar>q\<bar> \<le> 9223372037" using split r v by auto
  have sq: "sint (word_of_int q :: int64) = q" using q by (intro sint_word_of_int) auto
  have "v - word_of_int q = word_of_int (sint v - q)" by simp
  moreover have "- (2 ^ 63) \<le> sint v - q" "sint v - q < 2 ^ 63" using split r v q by auto
  ultimately have nano: "sint (v - word_of_int q) = sint v - q" by (simp only: sint_word_of_int)
  have "\<bar>sint v - q\<bar> < 2 ^ 63" using split r v q by auto
  then have "time_ns (generate_time Nano v) = q * 1000000000 + (sint v - q)"
    using q by (simp add: Let_def nano sq time_ns_Unix flip: q_def)
  then show "time_ns (generate_time Nano v) = sint v + q * 999999999" by simp
qed

lemma UnixNano_ns: "UnixNano t = word_of_int (time_ns t)"
  by (simp add: UnixNano_def time_ns_def)

text \<open>
  Claim C30. A number of seconds, milliseconds or microseconds since 1970 that is cast to a time and back is the same
  number, for every 64-bit number. For nanoseconds the time is wrong as soon as the number reaches a second in either
  direction: it is off by 999999999 nanoseconds for every second, and the number does not come back.
\<close>

theorem unix_time_casts:
  fixes v :: int64
  shows "generate_unix Sec (generate_time Sec v) = v \<and> generate_unix Milli (generate_time Milli v) = v
    \<and> generate_unix Micro (generate_time Micro v) = v
    \<and> time_ns (generate_time Nano v) = sint v + (sint v sdiv 1000000000) * 999999999
    \<and> (generate_unix Nano (generate_time Nano v) = v \<longleftrightarrow> \<bar>sint v\<bar> < 1000000000)"
proof -
  let ?q = "sint v sdiv 1000000000"
  have small: "?q = 0 \<longleftrightarrow> \<bar>sint v\<bar> < 1000000000"
    by (auto simp: signed_divide_int_def sgn_if zdiv_eq_0_iff)
  have other: "generate_unix Sec (generate_time Sec v) = v" "generate_unix Milli (generate_time Milli v) = v"
    "generate_unix Micro (generate_time Micro v) = v"
    using near_roundtrip [of 1000 1000000 v] near_roundtrip [of 1000000 1000 v]
    by (simp_all add: Unix_def UnixMilli_def UnixMicro_def time_UnixMilli_def time_UnixMicro_def time_Unix_def)
  have "generate_unix Nano (generate_time Nano v) = v + word_of_int (?q * 999999999)"
    using nano_time(1) [of v] by (simp add: UnixNano_ns)
  then have "generate_unix Nano (generate_time Nano v) = v \<longleftrightarrow> word_of_int (?q * 999999999) = (0 :: int64)"
    by simp
  also have "\<dots> \<longleftrightarrow> ?q = 0"
  proof
    assume 0: "word_of_int (?q * 999999999) = (0 :: int64)"
    have "(2 :: int) ^ 64 dvd ?q * 999999999" using 0 unfolding word_of_int_eq_0_iff by simp
    moreover have "\<bar>?q * 999999999\<bar> < 2 ^ 64" using nano_time(2) [of v] by auto
    ultimately show "?q = 0" using zdvd_not_zless [of "\<bar>?q * 999999999\<bar>" "2 ^ 64"] by fastforce
  qed simp
  finally show ?thesis using other nano_time(1) [of v] small by blast
qed

text \<open>
  Every registered cast from or to a time is registered with the type it was made for, but for one: the cast of a
  \<^verbatim>\<open>timestamptz\<close> to nanoseconds is registered for \<^verbatim>\<open>date\<close>.
\<close>

lemma casts_registered:
  "list_all (\<lambda>(n, made_for, u, registered). made_for \<in> set timeLikeTypes \<and> unit_of u \<noteq> None \<and> registered = made_for)
     toTimeCasts"
  "list_all (\<lambda>(n, made_for, u, registered). made_for \<in> set timeLikeTypes \<and> unit_of u \<noteq> None
      \<and> (registered = made_for \<longleftrightarrow> n \<noteq> ''TimestampTzToUnixNano'')) fromTimeCasts"
  by (simp_all add: toTimeCasts_def fromTimeCasts_def timeLikeTypes_def unit_of_def)

section \<open>Initialised parameters\<close>

lemma param_warning_error [simp]: "w_Severity (param_warning msg meta) = SevError"
proof -
  have "w_Severity (fold (\<lambda>(k, v). AddMeta k v) xs w) = w_Severity w" for xs :: "(string \<times> MetaValue) list" and w
    by (induction xs arbitrary: w) (auto simp: AddMeta_def)
  then show ?thesis by (simp add: param_warning_def SetMsg_def SetSeverity_def)
qed

lemma IsFatal_simps [simp]:
  "\<not> IsFatal []" "IsFatal (w # ws) \<longleftrightarrow> w_Severity w = SevError \<or> IsFatal ws" "IsFatal (xs @ ys) \<longleftrightarrow> IsFatal xs \<or> IsFatal ys"
  by (auto simp: IsFatal_def)

lemma IsFatal_named [simp]: "IsFatal (named_warnings d ws) = IsFatal ws"
  by (induction ws) (auto simp: named_warnings_def AddMeta_def)

lemma refusals_are_errors:
  "interpolate_raw env sp rv = Inl w \<Longrightarrow> w_Severity w = SevError"
  "render_raw env sp = Inr (Inl w) \<Longrightarrow> w_Severity w = SevError"
  "find_cast casts d dv = Inl w \<Longrightarrow> w_Severity w = SevError"
  by (auto simp: interpolate_raw_def render_raw_def find_cast_def Let_def res_simps split: option.splits if_splits sum.splits)

definition linked_ok :: "('c, 'v) ParameterDefinition \<Rightarrow> (('c, 'v) ParameterDefinition \<times> Column option) option \<Rightarrow> bool" where
  "linked_ok d linked \<longleftrightarrow> LinkColumnParameter d = '''' \<or> (\<exists>ld c. linked = Some (ld, Some c) \<and> IsColumn ld)"

definition columns_ok :: "(string \<times> ('c, 'v) StaticParameter) list \<Rightarrow> bool" where
  "columns_ok ps \<longleftrightarrow> (\<forall>n sp. map_of ps n = Some sp \<longrightarrow> IsColumn (sp_definition sp) \<and> sp_Column sp \<noteq> None)"

lemma link_column_ok: "columns_ok ps \<Longrightarrow> link_column d ps = Inr linked \<Longrightarrow> linked_ok d linked"
  by (fastforce simp: link_column_def linked_ok_def columns_ok_def split: if_splits option.splits)

lemma check_cast_and_values_result:
  "check_cast_and_values sp ws = Inr (sp', ws') \<Longrightarrow> sp' = sp"
  by (auto simp: check_cast_and_values_def Let_def split: if_splits option.splits)

lemma check_column_result:
  assumes "check_column rv sp ws = Inr (sp', ws')"
  shows "sp_definition sp' = sp_definition sp \<and> sp_linked sp' = sp_linked sp
    \<and> (\<not> IsFatal ws' \<longrightarrow> IsColumn (sp_definition sp) \<longrightarrow> sp_Column sp' \<noteq> None)"
  using assms
  by (auto simp: check_column_def Let_def split: if_splits option.splits dest!: check_cast_and_values_result)

text \<open>What an initialisation without an error warning leaves: the definition, the column and the link.\<close>

lemma init_rendered_result:
  assumes "init_rendered rv raw1 sp = Inr (sp', ws)" and "\<not> IsFatal ws"
  shows "sp_definition sp' = sp_definition sp \<and> sp_linked sp' = sp_linked sp
    \<and> (IsColumn (sp_definition sp) \<longrightarrow> sp_Column sp' \<noteq> None)
    \<and> (rv = None \<longrightarrow> \<not> Required (sp_definition sp))"
  using assms
  by (auto simp: init_rendered_def Let_def bindR_eq_Inr split: if_splits dest!: check_column_result)

lemma Static_Init_result:
  assumes "Static_Init env cols rv sp = Inr (sp', ws)" and "\<not> IsFatal ws" and "columns_ok cols"
  shows "sp_definition sp' = sp_definition sp \<and> linked_ok (sp_definition sp) (sp_linked sp')
    \<and> (IsColumn (sp_definition sp) \<longrightarrow> sp_Column sp' \<noteq> None)"
proof -
  obtain rv1 where rv1: "interpolate_raw env sp rv = Inr rv1"
    using assms(1,2) by (cases "interpolate_raw env sp rv") (auto simp: Static_Init_def Let_def refusals_are_errors)
  obtain linked where linked: "link_column (sp_definition sp) cols = Inr linked"
    using assms(1) by (cases "link_column (sp_definition sp) cols") (auto simp: Static_Init_def Let_def rv1)
  define sp1 where "sp1 = sp\<lparr>sp_rawValue := raw_or_env env (sp_definition sp) rv1, sp_linked := linked\<rparr>"
  have "bindR (render_raw env sp1) (\<lambda>rendered. case rendered of Inl w \<Rightarrow> Inr (sp1, [w])
      | Inr raw1 \<Rightarrow> init_rendered rv1 raw1 sp1) = Inr (sp', ws)"
    using assms(1) unfolding sp1_def by (simp add: Static_Init_def Let_def rv1 linked)
  then obtain rendered where r: "render_raw env sp1 = Inr rendered"
    and r': "(case rendered of Inl w \<Rightarrow> Inr (sp1, [w]) | Inr raw1 \<Rightarrow> init_rendered rv1 raw1 sp1) = Inr (sp', ws)"
    by (auto simp: bindR_eq_Inr)
  obtain raw1 where "init_rendered rv1 raw1 sp1 = Inr (sp', ws)"
    using r r' assms(2) refusals_are_errors(2) [of env sp1] by (cases rendered) auto
  from init_rendered_result [OF this assms(2)] show ?thesis
    using link_column_ok [OF assms(3) linked] by (simp add: sp1_def)
qed

lemma Dynamic_Init_result:
  assumes "Dynamic_Init env casts cols dv dp = Inr (dp', ws)" and "\<not> IsFatal ws" and "columns_ok cols"
  shows "dp_definition dp' = dp_definition dp \<and> linked_ok (dp_definition dp) (dp_linked dp') \<and> dp_column dp' \<noteq> None"
proof -
  obtain dm where dm: "DynamicMode (dp_definition dp) = Some dm"
    using assms(1,2) by (auto simp: Dynamic_Init_def Let_def split: option.splits)
  obtain d where dv: "dv = Some d" "dv_Column d \<noteq> ''''"
    using assms(1,2) by (auto simp: Dynamic_Init_def Let_def dm split: option.splits if_splits)
  have tmpl: "(if dv_Template d \<noteq> [] then tmplParse env (dv_Template d) else None) = None"
  proof (rule ccontr)
    assume "\<not> ?thesis"
    then obtain e where "(if dv_Template d \<noteq> [] then tmplParse env (dv_Template d) else None) = Some e" by blast
    then show False using assms(1,2) dv(2) by (auto simp: Dynamic_Init_def Let_def dm dv(1))
  qed
  have other: "\<not> IsColumn (dp_definition dp)"
    using assms(1,2) dv(2) by (auto simp: Dynamic_Init_def Let_def dm dv(1) tmpl)
  obtain i column where col: "GetColumnByName (dp_driver dp) (dv_Column d) = Some (i, column)"
    using assms(1,2) dv(2) other by (cases "GetColumnByName (dp_driver dp) (dv_Column d)") (auto simp: Dynamic_Init_def Let_def dm dv(1) tmpl)
  obtain cast where cast: "find_cast casts (dp_definition dp) d = Inr cast"
    using assms(1,2) dv(2) other
    by (cases "find_cast casts (dp_definition dp) d") (auto simp: Dynamic_Init_def Let_def dm dv(1) tmpl col refusals_are_errors)
  have def: "dp_definition (dyn_default d dp) = dp_definition dp" by (simp add: dyn_default_def)
  show ?thesis
  proof (cases "LinkColumnParameter (dp_definition dp) = ''''")
    case True
    then show ?thesis
      using assms(1) other dv(2) by (auto simp: Dynamic_Init_def Let_def dm dv(1) tmpl col cast linked_ok_def def split: if_splits)
  next
    case False
    then obtain linked where linked: "link_column (dp_definition dp) cols = Inr linked"
      using assms(1) other dv(2) by (auto simp: Dynamic_Init_def Let_def dm dv(1) tmpl col cast res_simps split: if_splits)
    then obtain ld c where lc: "linked = Some (ld, Some c)" "IsColumn ld"
      using link_column_ok [OF assms(3) linked] False by (auto simp: linked_ok_def)
    show ?thesis
      using assms(1) other dv(2) False
      by (auto simp: Dynamic_Init_def Let_def dm dv(1) tmpl col cast linked lc linked_ok_def def split: if_splits option.splits)
  qed
qed

text \<open>The loops over the definitions leave the other names alone and put a good parameter under each of theirs.\<close>

definition column_param_ok ::
    "('c, 'v) ParameterDefinition \<Rightarrow> bool \<Rightarrow> ('c, 'v) StaticParameter option \<Rightarrow> bool" where
  "column_param_ok d given p =
     (case p of None \<Rightarrow> \<not> given | Some sp \<Rightarrow> given \<and> sp_definition sp = d \<and> sp_Column sp \<noteq> None)"

definition other_param_ok ::
    "('c, 'v) ParameterDefinition \<Rightarrow> bool \<Rightarrow> ('c, 'v) Parameterizer option \<Rightarrow> bool" where
  "other_param_ok d dynamic p =
     (case p of
        None \<Rightarrow> False
      | Some (DynamicP dp) \<Rightarrow>
          dynamic \<and> dp_definition dp = d \<and> dp_column dp \<noteq> None \<and> linked_ok d (dp_linked dp)
      | Some (StaticP sp) \<Rightarrow> \<not> dynamic \<and> sp_definition sp = d \<and> linked_ok d (sp_linked sp))"

lemma new_definition [simp]:
  "sp_definition (NewStaticParameter d driver interp) = d" "dp_definition (NewDynamicParameter d driver) = d"
  by (simp_all add: NewStaticParameter_def NewDynamicParameter_def)

lemma columns_ok_Nil [simp]: "columns_ok []"
  by (simp add: columns_ok_def)

lemma init_columns_result:
  assumes "init_columns env driver interp static dynamic ds ps = Inr (ps', ws)" and "\<not> IsFatal ws"
    and "distinct (map pd_Name ds)" and "\<forall>d \<in> set ds. IsColumn d \<and> map_of ps (pd_Name d) = None"
  shows "(\<forall>n. n \<notin> pd_Name ` set ds \<longrightarrow> map_of ps' n = map_of ps n)
    \<and> (\<forall>d \<in> set ds. column_param_ok d (map_of static (pd_Name d) \<noteq> None) (map_of ps' (pd_Name d))
         \<and> (map_of static (pd_Name d) = None \<longrightarrow> map_of dynamic (pd_Name d) = None))"
  using assms
proof (induction ds arbitrary: ps ws)
  case Nil
  then show ?case by simp
next
  case (Cons d ds)
  show ?case
  proof (cases "map_of static (pd_Name d)")
    case None
    then obtain ws' where rest: "init_columns env driver interp static dynamic ds ps = Inr (ps', ws')"
      and ws: "ws = (if map_of dynamic (pd_Name d) \<noteq> None
         then [param_warning ''column parameter cannot work in dynamic mode'' []] else []) @ ws'"
      using Cons.prems(1) by (auto simp: bindR_eq_Inr)
    have "\<not> IsFatal ws'" "map_of dynamic (pd_Name d) = None"
      using Cons.prems(2) ws by (auto split: if_splits)
    then show ?thesis using Cons.IH [OF rest] Cons.prems(3,4) None by (auto simp: column_param_ok_def)
  next
    case (Some v)
    then obtain sp w ws' where sp: "Static_Init env [] v (NewStaticParameter d driver interp) = Inr (sp, w)"
      and rest: "init_columns env driver interp static dynamic ds (AList.update (pd_Name d) sp ps) = Inr (ps', ws')"
      and ws: "ws = named_warnings d w @ ws'"
      using Cons.prems(1) by (auto simp: bindR_eq_Inr)
    have ok: "\<not> IsFatal w" "\<not> IsFatal ws'" using Cons.prems(2) ws by auto
    have "sp_definition sp = d \<and> sp_Column sp \<noteq> None"
      using Static_Init_result [OF sp ok(1)] Cons.prems(4) by simp
    moreover have "map_of (AList.update (pd_Name d) sp ps) (pd_Name d') = None" if "d' \<in> set ds" for d'
      using that Cons.prems(3,4) by (cases "pd_Name d' = pd_Name d") (auto simp: update_conv' image_iff)
    ultimately show ?thesis
      using Cons.IH [OF rest ok(2)] Cons.prems(3,4) Some by (auto simp: column_param_ok_def update_conv')
  qed
qed

lemma init_others_result:
  assumes "init_others env casts driver interp static dynamic cols ds ps = Inr (ps', ws)" and "\<not> IsFatal ws"
    and "distinct (map pd_Name ds)" and "columns_ok cols"
  shows "(\<forall>n. n \<notin> pd_Name ` set ds \<longrightarrow> map_of ps' n = map_of ps n)
    \<and> (\<forall>d \<in> set ds. other_param_ok d (map_of dynamic (pd_Name d) \<noteq> None) (map_of ps' (pd_Name d)))"
  using assms
proof (induction ds arbitrary: ps ws)
  case Nil
  then show ?case by simp
next
  case (Cons d ds)
  obtain p w ws' where p: "(case map_of dynamic (pd_Name d) of
              Some dv \<Rightarrow>
                bindR (Dynamic_Init env casts cols dv (NewDynamicParameter d driver)) (\<lambda>(dp, ws).
                Inr (DynamicP dp, ws))
            | None \<Rightarrow>
                bindR (Static_Init env cols (Option.bind (map_of static (pd_Name d)) id) (NewStaticParameter d driver interp))
                  (\<lambda>(sp, ws). Inr (StaticP sp, ws))) = Inr (p, w)"
    and rest: "init_others env casts driver interp static dynamic cols ds (AList.update (pd_Name d) p ps) = Inr (ps', ws')"
    and ws: "ws = named_warnings d w @ ws'"
    using Cons.prems(1) by (auto simp: bindR_eq_Inr)
  have ok: "\<not> IsFatal w" "\<not> IsFatal ws'" using Cons.prems(2) ws by auto
  have "other_param_ok d (map_of dynamic (pd_Name d) \<noteq> None) (Some p)"
  proof (cases "map_of dynamic (pd_Name d)")
    case None
    then show ?thesis
      using p by (auto simp: bindR_eq_Inr other_param_ok_def dest!: Static_Init_result [OF _ ok(1) Cons.prems(4)])
  next
    case (Some dv)
    then show ?thesis
      using p by (auto simp: bindR_eq_Inr other_param_ok_def dest!: Dynamic_Init_result [OF _ ok(1) Cons.prems(4)])
  qed
  then show ?case using Cons.IH [OF rest ok(2) _ Cons.prems(4)] Cons.prems(3) by (auto simp: update_conv')
qed

lemma name_warnings_fatal:
  "\<not> IsFatal (name_warnings defs these opposite) \<longleftrightarrow>
     (\<forall>n \<in> fst ` set these. has_definition defs n \<and> map_of opposite n = None)"
  unfolding name_warnings_def
  by (induction these) (auto split: if_splits)

lemma required_warnings_fatal:
  "\<not> IsFatal (required_warnings defs static dynamic) \<longleftrightarrow>
     (\<forall>d \<in> set defs. Required d \<longrightarrow> map_of static (pd_Name d) \<noteq> None \<or> map_of dynamic (pd_Name d) \<noteq> None)"
  unfolding required_warnings_def
  by (induction defs) auto

lemma map_of_given: "map_of ps n \<noteq> None \<longleftrightarrow> n \<in> fst ` set ps"
  by (simp add: map_of_eq_None_iff)

text \<open>
  Claim C28. When the parameters of a transformer are initialised without an error warning, every name given in the
  configuration is defined and is given in one mode only, every required parameter is given, a column parameter holds a
  column of the table (or was not given), and every other parameter is a dynamic one with its column where a dynamic
  value is given and a static one otherwise, linked to a column parameter whose column is known where its definition
  says so.
\<close>

theorem parameters_initialised:
  assumes "InitParameters env casts driver defs static dynamic interp = Inr (Some ps, ws)" and "\<not> IsFatal ws"
    and "distinct (map pd_Name defs)"
  shows "(\<forall>n. map_of static n \<noteq> None \<or> map_of dynamic n \<noteq> None \<longrightarrow>
            has_definition defs n \<and> (map_of static n = None \<or> map_of dynamic n = None))
    \<and> (\<forall>d \<in> set defs. Required d \<longrightarrow> map_of static (pd_Name d) \<noteq> None \<or> map_of dynamic (pd_Name d) \<noteq> None)
    \<and> (\<forall>d \<in> set defs. if IsColumn d
         then (case map_of ps (pd_Name d) of
                 None \<Rightarrow> map_of static (pd_Name d) = None
               | Some (StaticP sp) \<Rightarrow> sp_definition sp = d \<and> sp_Column sp \<noteq> None
               | Some (DynamicP dp) \<Rightarrow> False)
         else other_param_ok d (map_of dynamic (pd_Name d) \<noteq> None) (map_of ps (pd_Name d)))"
proof -
  let ?cols = "filter IsColumn defs" and ?others = "filter (\<lambda>d. \<not> IsColumn d) defs"
  define w1 where "w1 = name_warnings defs static dynamic @ name_warnings defs dynamic static"
  have missing: "\<not> IsFatal (required_warnings defs static dynamic)" and w1: "\<not> IsFatal w1"
    using assms(1) by (auto simp: InitParameters_def Let_def w1_def split: if_splits)
  then obtain cols w2 w3 where cols: "init_columns env driver interp static dynamic ?cols [] = Inr (cols, w2)"
    and w2: "\<not> IsFatal w2"
    and ps: "init_others env casts driver interp static dynamic cols ?others (map (\<lambda>(n, sp). (n, StaticP sp)) cols) = Inr (ps, w3)"
    and ws: "ws = w1 @ w2 @ w3"
    using assms(1) by (auto simp: InitParameters_def Let_def w1_def bindR_eq_Inr split: if_splits)
  have dist: "distinct (map pd_Name ?cols)" "distinct (map pd_Name ?others)"
    using assms(3) by (simp_all add: distinct_map_filter)
  have w3: "\<not> IsFatal w3" using assms(2) ws by simp
  have names: "pd_Name d = pd_Name d' \<longleftrightarrow> d = d'" if "d \<in> set defs" "d' \<in> set defs" for d d'
    using assms(3) that by (auto simp: distinct_map dest: inj_onD)
  note C = init_columns_result [OF cols w2 dist(1)]
  have C1: "map_of cols n = None" if "n \<notin> pd_Name ` set ?cols" for n
    using C that by simp
  have C2: "column_param_ok d (map_of static (pd_Name d) \<noteq> None) (map_of cols (pd_Name d))" if "d \<in> set ?cols" for d
    using C that by simp
  have "columns_ok cols"
    unfolding columns_ok_def
  proof (intro allI impI)
    fix n sp
    assume *: "map_of cols n = Some sp"
    then obtain d where "d \<in> set ?cols" "n = pd_Name d" using C1 [of n] by fastforce
    then show "IsColumn (sp_definition sp) \<and> sp_Column sp \<noteq> None"
      using C2 [of d] * by (auto simp: column_param_ok_def)
  qed
  note O = init_others_result [OF ps w3 dist(2) this]
  have given: "map_of (map (\<lambda>(n, sp). (n, StaticP sp)) cols) n = map_option StaticP (map_of cols n)" for n
    by (induction cols) auto
  have column: "map_of ps (pd_Name d) = map_option StaticP (map_of cols (pd_Name d))" if "d \<in> set ?cols" for d
  proof -
    have "pd_Name d \<notin> pd_Name ` set ?others" using that names by auto
    then show ?thesis using O given by simp
  qed
  have "map_of static n \<noteq> None \<or> map_of dynamic n \<noteq> None \<Longrightarrow>
      has_definition defs n \<and> (map_of static n = None \<or> map_of dynamic n = None)" for n
    using w1 unfolding w1_def IsFatal_simps de_Morgan_disj name_warnings_fatal map_of_given by metis
  moreover have "if IsColumn d then (case map_of ps (pd_Name d) of
                 None \<Rightarrow> map_of static (pd_Name d) = None
               | Some (StaticP sp) \<Rightarrow> sp_definition sp = d \<and> sp_Column sp \<noteq> None
               | Some (DynamicP dp) \<Rightarrow> False)
         else other_param_ok d (map_of dynamic (pd_Name d) \<noteq> None) (map_of ps (pd_Name d))" if "d \<in> set defs" for d
  proof (cases "IsColumn d")
    case True
    then show ?thesis using column [of d] C2 [of d] that by (auto simp: column_param_ok_def split: option.splits)
  next
    case False
    then show ?thesis using O that by simp
  qed
  ultimately show ?thesis using missing unfolding required_warnings_fatal by blast
qed

section \<open>Values through a record\<close>

context row_driver
begin

lemma record_get_set:
  assumes "inv (rc_Row r)" "has (rc_Row r) idx" "storable v"
    and "SetRawColumnValueByIdx \<lparr>rowGet = get, rowSet = put\<rparr> r idx v = Inr r'"
  shows "rc_Driver r' = rc_Driver r \<and> get (rc_Row r') idx = Inr v
    \<and> (\<forall>j. j \<noteq> idx \<longrightarrow> get (rc_Row r') j = get (rc_Row r) j)"
  using assms by (auto simp: SetRawColumnValueByIdx_def bindR_eq_Inr get_put_same get_put_other)

end

text \<open>A row of the COPY codec as the row of a record.\<close>

definition row_ops :: "Row RowOps" where
  "row_ops = \<lparr>rowGet = Row_GetColumn, rowSet = Row_SetColumn\<rparr>"

text \<open>
  Claim C29. A value that is set by column name in a record over a row of the COPY codec is the value read back by that
  name, null or not, when the codec of the type reads what it wrote; the other columns keep their values.
\<close>

theorem record_value_roundtrip:
  assumes "Row_wf (rc_Row r)" and "SetColumnValueByName env row_ops r n v = Inr r'"
    and "\<forall>x. v = Some x \<longrightarrow> asString env x = None \<and> (\<forall>oid bs.
      pgEncode env (SharedTypeMap (rc_Driver r)) oid x = Inr bs \<longrightarrow> (\<exists>t. TypeForOID (SharedTypeMap (rc_Driver r)) oid = Some t
        \<and> pgDecode env (SharedTypeMap (rc_Driver r)) (pt_Codec t) (pt_OID t) bs = Inr x))"
  shows "GetColumnValueByName env row_ops r' n = Inr v
    \<and> (\<forall>m. map_of (AttrIdxMap (rc_Driver r)) m \<noteq> map_of (AttrIdxMap (rc_Driver r)) n \<longrightarrow>
         GetColumnValueByName env row_ops r' m = GetColumnValueByName env row_ops r m)"
proof -
  obtain i where i: "map_of (AttrIdxMap (rc_Driver r)) n = Some i"
    and set_i: "SetColumnValueByIdx env row_ops r (int i) v = Inr r'"
    using assms(2) by (auto simp: SetColumnValueByName_def record_attr_def bindR_eq_Inr split: option.splits)
  define data where "data = (case v of None \<Rightarrow> Inr \<lparr>Data = [], IsNull = True\<rparr>
    | Some x \<Rightarrow> bindR (encodeValue env r (int i) x) (\<lambda>bs. Inr \<lparr>Data = bs, IsNull = False\<rparr>))"
  obtain rv where rv: "data = Inr rv" "SetRawColumnValueByIdx row_ops r (int i) rv = Inr r'"
    using set_i by (auto simp: SetColumnValueByIdx_def Let_def data_def bindR_eq_Inr split: option.splits if_splits)
  then have "row_has (rc_Row r) (int i)"
    using assms(1) by (auto simp: SetRawColumnValueByIdx_def row_ops_def bindR_eq_Inr Row_SetColumn_iff)
  note S = row.record_get_set [OF assms(1) this TrueI rv(2) [unfolded row_ops_def]]
  have same: "GetColumnValueByIdx env row_ops r' (int i) = Inr v"
  proof (cases v)
    case None
    then show ?thesis using S rv(1) by (auto simp: GetColumnValueByIdx_def row_ops_def data_def)
  next
    case (Some x)
    then obtain bs where bs: "encodeValue env r (int i) x = Inr bs" "rv = \<lparr>Data = bs, IsNull = False\<rparr>"
      using rv(1) by (auto simp: data_def bindR_eq_Inr)
    then obtain oid where oid: "column_oid (rc_Driver r) (int i) = Inr oid"
      and enc: "pgEncode env (SharedTypeMap (rc_Driver r)) oid x = Inr bs"
      using assms(3) Some by (auto simp: encodeValue_def EncodeValueByColumnIdx_def bindR_eq_Inr)
    then have "DecodeValueByColumnIdx env (rc_Driver r) (int i) bs = Inr x"
      using assms(3) Some by (fastforce simp: DecodeValueByColumnIdx_def)
    then show ?thesis using S bs(2) Some by (simp add: GetColumnValueByIdx_def row_ops_def)
  qed
  have other: "GetColumnValueByIdx env row_ops r' (int j) = GetColumnValueByIdx env row_ops r (int j)" if "j \<noteq> i" for j
    using S that unfolding GetColumnValueByIdx_def row_ops_def S [THEN conjunct1] by simp
  show ?thesis
    using same other i S
    by (auto simp: GetColumnValueByName_def attr_of_def split: option.splits)
qed


section \<open>A table with one column\<close>

text \<open>Integers as values, one type whose codec is the identity on a byte, a literal column and two parameters.\<close>

definition w_type :: "unit PgType" where
  "w_type = \<lparr>pt_Name = ''int4'', pt_OID = 23, pt_Codec = ()\<rparr>"

definition w_map :: "unit TypeMap" where
  "w_map = RegisterType w_type \<lparr>TypeForOID = (\<lambda>_. None), TypeForName = (\<lambda>_. None)\<rparr>"

definition w_pgx :: "(unit, byte) PgxEnv" where
  "w_pgx = \<lparr>newMap = w_map, pgEncode = (\<lambda>m oid v. if TypeForOID m oid = None then err ''unknown type'' else Inr [v]),
     pgDecode = (\<lambda>_ _ _ bs. case bs of [v] \<Rightarrow> Inr v | _ \<Rightarrow> err ''invalid value''), asString = (\<lambda>_. None)\<rparr>"

definition w_env :: "(unit, byte, Row) ParamEnv" where
  "w_env = \<lparr>pe_pgx = w_pgx, interpolateLib = Inr, Getenv = (\<lambda>_. []), tmplParse = (\<lambda>_. None),
     tmplExecute = (\<lambda>t _ _. Inr t), castTmpl = (\<lambda>t _ _ _. Inr t)\<rparr>"

definition w_column :: Column where
  "w_column = \<lparr>cl_Idx = 0, cl_Name = ''id'', cl_TypeName = ''int4'', cl_CanonicalTypeName = ''int4'', cl_TypeOid = 23, cl_Num = 1,
     cl_NotNull = False, cl_Length = -1, cl_TypeLength = 4, cl_IsGenerated = False, OverriddenTypeName = '''',
     OverriddenTypeOid = 0, OverriddenTypeSize = 0\<rparr>"

definition w_table :: DriverTable where
  "w_table = \<lparr>tb_Schema = ''public'', tb_Name = ''t'', tb_Oid = 16384, tb_Columns = [w_column], tb_Kind = ''r'', tb_Parent = 0,
     tb_Children = [], tb_Size = 0, tb_PrimaryKey = [], tb_RootPtSchema = '''', tb_RootPtName = '''', tb_RootPtOid = 0,
     tb_Constraints = []\<rparr>"

definition w_driver :: "unit Driver" where
  "w_driver = fst (NewDriver w_pgx w_table [])"

definition w_column_def :: "(unit, byte) ParameterDefinition" where
  "w_column_def = SetIsColumn None (NewParameterDefinition ''column'' '''')\<lparr>Required := True\<rparr>"

definition w_min_def :: "(unit, byte) ParameterDefinition" where
  "w_min_def = (NewParameterDefinition ''min'' '''')
     \<lparr>LinkColumnParameter := ''column'', DynamicMode := Some NewDynamicModeProperties\<rparr>"

definition w_min :: DynamicParamValue where
  "w_min = \<lparr>dv_Column = ''id'', dv_CastTo = '''', dv_Template = [], dv_DefaultValue = None\<rparr>"

lemma w_driver_eval:
  "SharedTypeMap w_driver = w_map" "AttrIdxMap w_driver = [(''id'', 0)]" "dr_Columns w_driver = [w_column]"
  "CustomTypes w_driver = []" "unsupportedColumnIdxs w_driver = []" "maxIdx w_driver = 0"
  by (simp_all add: w_driver_def w_table_def NewDriver_def w_pgx_def w_column_def driver_column_def attr_index_def w_map_def
      RegisterType_def w_type_def Let_def)

lemma w_name: "str_of [0x69, 0x64] = ''id''"
  by code_simp

definition w_init :: "((string \<times> (unit, byte) Parameterizer) list option \<times> ValidationWarning list) res" where
  "w_init = InitParameters w_env [] w_driver [w_column_def, w_min_def] [(''column'', Some [0x69, 0x64])]
     [(''min'', Some w_min)] False"

definition w_params :: "(string \<times> (unit, byte) Parameterizer) list" where
  "w_params = (case w_init of Inr (Some ps, _) \<Rightarrow> ps | _ \<Rightarrow> [])"

lemma w_init_eval: "w_init = Inr (Some w_params, [])"
proof -
  have "case w_init of Inl _ \<Rightarrow> False | Inr (r, ws) \<Rightarrow> \<not> Option.is_none r \<and> length ws = 0" by code_simp
  then obtain ps where "w_init = Inr (Some ps, [])"
    by (auto simp: Option.is_none_def split: sum.splits)
  note ps = this
  then have "w_params = ps" unfolding w_params_def ps by simp
  with ps show ?thesis by blast
qed


theorem parameters_initialised_witness:
  "has_definition [w_column_def, w_min_def] ''column'' \<and> has_definition [w_column_def, w_min_def] ''min''
    \<and> (case map_of w_params ''column'' of Some (StaticP sp) \<Rightarrow> sp_Column sp \<noteq> None | _ \<Rightarrow> False)
    \<and> other_param_ok w_min_def True (map_of w_params ''min'')"
proof -
  have "distinct (map pd_Name [w_column_def, w_min_def])"
    by (simp add: w_column_def_def w_min_def_def SetIsColumn_def NewParameterDefinition_def)
  note P = parameters_initialised [OF w_init_eval [unfolded w_init_def] _ this, simplified IsFatal_simps not_False_eq_True, OF TrueI]
  have defs: "pd_Name w_column_def = ''column''" "IsColumn w_column_def" "pd_Name w_min_def = ''min''" "\<not> IsColumn w_min_def"
    by (simp_all add: w_column_def_def w_min_def_def SetIsColumn_def NewParameterDefinition_def)
  note given = P [THEN conjunct1, THEN spec] and each = P [THEN conjunct2, THEN conjunct2, THEN bspec]
  show ?thesis
    using given [of "''column''"] given [of "''min''"] each [of w_column_def] each [of w_min_def]
    by (simp add: defs split: option.splits Parameterizer.splits)
qed

definition w_row :: Row where
  "w_row = \<lparr>raw = [0x31], newValues = [None], columnPos = [\<lparr>cp_start = 0, cp_end = 1\<rparr>], tupleSize = 1, isDynamic = False\<rparr>"

definition w_record :: "(unit, Row) Record" where
  "w_record = NewRecord w_driver w_row"

definition w_record_set :: "(unit, Row) Record" where
  "w_record_set = (case SetColumnValueByName w_pgx row_ops w_record ''id'' (Some 7) of Inr r \<Rightarrow> r | Inl _ \<Rightarrow> w_record)"

theorem record_value_roundtrip_witness:
  "SetColumnValueByName w_pgx row_ops w_record ''id'' (Some 7) = Inr w_record_set
    \<and> GetColumnValueByName w_pgx row_ops w_record_set ''id'' = Inr (Some 7)"
proof -
  have "isOk (SetColumnValueByName w_pgx row_ops w_record ''id'' (Some 7))" by code_simp
  then have set_ok: "SetColumnValueByName w_pgx row_ops w_record ''id'' (Some 7) = Inr w_record_set"
    by (cases "SetColumnValueByName w_pgx row_ops w_record ''id'' (Some 7)") (simp_all add: w_record_set_def)
  have "Row_wf (rc_Row w_record)" by code_simp
  note R = record_value_roundtrip [OF this set_ok]
  have "GetColumnValueByName w_pgx row_ops w_record_set ''id'' = Inr (Some 7)"
    by (rule R [THEN conjunct1]) (auto simp: w_pgx_def split: if_splits)
  with set_ok show ?thesis by blast
qed


end
