(* ===== verification/SchemaChecks.thy ===== *)
theory SchemaChecks
  imports TypeCasts
begin

text \<open>
  What a transformer may do to the schema, and how an instance of a transformer is made: the constraints of
  \<^verbatim>\<open>pkg/toolkit/constraints.go\<close>, \<^verbatim>\<open>Type.IsAffected\<close> of \<^verbatim>\<open>types.go\<close>, the schema validation, the definition and the
  registry of \<^verbatim>\<open>transformers/utils\<close>, and the difference of two schemas of \<^verbatim>\<open>pkg/toolkit/database_schema.go\<close>.

  A map of parameters is an association list in the order of the range over it. The constructor of a transformer and
  the compiler of the when condition are parameters.
\<close>

section \<open>Constraints\<close>

definition schema_warning :: "string \<Rightarrow> (string \<times> MetaValue) list \<Rightarrow> ValidationWarning" where
  "schema_warning msg meta = fold (\<lambda>(k, v). AddMeta k v) meta (SetMsg msg (SetSeverity SevWarning NewValidationWarning))"

fun constraint_definition :: "Constraint \<Rightarrow> ConstraintDefinition" where
  "constraint_definition (CheckC d) = d"
| "constraint_definition (ExclusionC d) = d"
| "constraint_definition (ForeignKeyC d t) = d"
| "constraint_definition (PrimaryKeyC d refs) = d"
| "constraint_definition (UniqueC d) = d"
| "constraint_definition (TriggerC d) = d"

fun Constraint_Type :: "Constraint \<Rightarrow> string" where
  "Constraint_Type (CheckC d) = ''Check''"
| "Constraint_Type (ExclusionC d) = ''Exclusion''"
| "Constraint_Type (ForeignKeyC d t) = ''ForeignKey''"
| "Constraint_Type (PrimaryKeyC d refs) = ''PrimaryKey''"
| "Constraint_Type (UniqueC d) = ''Unique''"
| "Constraint_Type (TriggerC d) = ''TriggerConstraint''"

text \<open>The schema is given as the name of the constraint, too.\<close>

definition constraint_meta :: "Column \<Rightarrow> string \<Rightarrow> ConstraintDefinition \<Rightarrow> (string \<times> MetaValue) list" where
  "constraint_meta column typ d =
     [(''ColumnName'', MetaStr (cl_Name column)), (''ConstraintType'', MetaStr typ),
      (''ConstraintSchema'', MetaStr (cd_Schema d)), (''ConstraintName'', MetaStr (cd_Schema d)),
      (''ConstraintDef'', MetaStr (cd_Definition d))]"

definition Check_IsAffected :: "ConstraintDefinition \<Rightarrow> Column \<Rightarrow> ValidationWarning list" where
  "Check_IsAffected c column =
     (if cl_Num column \<in> set (cd_Columns c)
      then [schema_warning ''possible constraint violation: column has Check constraint''
              (constraint_meta column ''Check'' c)] else [])"

definition Exclusion_IsAffected :: "ConstraintDefinition \<Rightarrow> Column \<Rightarrow> ValidationWarning list" where
  "Exclusion_IsAffected c column =
     (if cl_Num column \<in> set (cd_Columns c)
      then [schema_warning ''possible constraint violation: column is involved into Exclusion constraint''
              (constraint_meta column ''Exclusion'' c)] else [])"

definition ForeignKey_IsAffected :: "ConstraintDefinition \<Rightarrow> Column \<Rightarrow> ValidationWarning list" where
  "ForeignKey_IsAffected c column =
     (if cl_Num column \<in> set (cd_Columns c)
      then [schema_warning ''possible constraint violation: column is involved into ForeignKey constraint''
              (constraint_meta column ''ForeignKey'' c)] else [])"

definition not_unique :: "ColumnProperties option \<Rightarrow> bool" where
  "not_unique cp \<longleftrightarrow> (case cp of None \<Rightarrow> True | Some p \<Rightarrow> \<not> cp_Unique p)"

definition PrimaryKey_IsAffected ::
    "ConstraintDefinition \<Rightarrow> LinkedTable list \<Rightarrow> Column \<Rightarrow> ColumnProperties option \<Rightarrow> ValidationWarning list" where
  "PrimaryKey_IsAffected c refs column cp =
     (if cl_Num column \<in> set (cd_Columns c) then
        (if not_unique cp
         then [schema_warning ''possible constraint violation: column is involved into PrimaryKey constraint''
                 (constraint_meta column ''PrimaryKey'' c)] else []) @
        map (\<lambda>r. schema_warning ''possible constraint violation: column is primary key and has references''
                   (constraint_meta column ''PrimaryKeyReferences'' c @
                    [(''ReferencedTable'', MetaStrs [lt_Schema r, lt_Name r])])) refs
      else [])"

definition Unique_IsAffected :: "ConstraintDefinition \<Rightarrow> Column \<Rightarrow> ColumnProperties option \<Rightarrow> ValidationWarning list" where
  "Unique_IsAffected c column cp =
     (if cl_Num column \<in> set (cd_Columns c) \<and> not_unique cp
      then [schema_warning ''possible constraint violation: column is involved into Unique constraint''
              (constraint_meta column ''Unique'' c)] else [])"

definition Trigger_IsAffected :: "ConstraintDefinition \<Rightarrow> Column \<Rightarrow> ValidationWarning list" where
  "Trigger_IsAffected c column =
     (if cl_Num column \<in> set (cd_Columns c)
      then [schema_warning ''possible constraint violation: column is involved into TriggerConstraint constraint''
              (constraint_meta column ''TriggerConstraint'' c)] else [])"

text \<open>The method of the interface.\<close>

fun IsAffected :: "Constraint \<Rightarrow> Column \<Rightarrow> ColumnProperties option \<Rightarrow> ValidationWarning list" where
  "IsAffected (CheckC d) column cp = Check_IsAffected d column"
| "IsAffected (ExclusionC d) column cp = Exclusion_IsAffected d column"
| "IsAffected (ForeignKeyC d t) column cp = ForeignKey_IsAffected d column"
| "IsAffected (PrimaryKeyC d refs) column cp = PrimaryKey_IsAffected d refs column cp"
| "IsAffected (UniqueC d) column cp = Unique_IsAffected d column cp"
| "IsAffected (TriggerC d) column cp = Trigger_IsAffected d column"

section \<open>Schema validation\<close>

definition int_meta :: "int \<Rightarrow> MetaValue" where
  "int_meta i = MetaStr (str_of (format_int i))"

definition Type_IsAffected :: "DbType \<Rightarrow> ('c, 'v) StaticParameter \<Rightarrow> ValidationWarning list res" where
  "Type_IsAffected t p =
     (case sp_Column p of
        None \<Rightarrow> panic ''parameter Column must not be nil''
      | Some c \<Rightarrow>
          (case pd_ColumnProperties (sp_definition p) of
             None \<Rightarrow> panic ''parameter ColumnProperties must not be nil''
           | Some cp \<Rightarrow>
               if \<not> Affected cp \<or> cl_TypeOid c \<noteq> ty_Oid t then Inr []
               else
                 let name = (''ParameterName'', MetaStr (pd_Name (sp_definition p)));
                     column = (''ColumnName'', MetaStr (cl_Name c));
                     typ = [(''TypeSchema'', MetaStr (ty_Schema t)), (''TypeName'', MetaStr (ty_Name t))]
                 in Inr (
                   (if cp_Nullable cp \<and> cl_NotNull c
                    then [schema_warning ''transformer may produce NULL values but column type has NOT NULL constraint''
                            [name, column, (''TypeName'', MetaStr (pd_Name (sp_definition p)))]] else []) @
                   (case ty_Check t of
                      None \<Rightarrow> []
                    | Some check \<Rightarrow>
                        [schema_warning ''possible check constraint violation: column has domain type with constraint''
                           ([name, column] @ typ @
                            [(''TypeConstraintSchema'', MetaStr (cd_Schema check)),
                             (''TypeConstraintName'', MetaStr (cd_Schema check)),
                             (''TypeConstraintDef'', MetaStr (cd_Definition check))])]) @
                   (if ty_Length t \<noteq> WithoutMaxLength \<and> ty_Length t < MaxLength cp
                    then [schema_warning ''transformer value might be out of length range: domain has length higher than column''
                            ([name, column] @ typ @
                             [(''TypeLength'', int_meta (ty_Length t)), (''ColumnLength'', int_meta (cl_Length c))])]
                    else []))))"

definition ValidateSchema :: "DriverTable \<Rightarrow> Column \<Rightarrow> ColumnProperties option \<Rightarrow> ValidationWarning list" where
  "ValidateSchema table column cp = concat (map (\<lambda>c. IsAffected c column cp) (tb_Constraints table))"

text \<open>
  One round of the loop over the parameters. A column parameter without properties dereferences nil before the test
  that would allow for it; a column that is not there does so at the first use, if there is one: for a property that is
  checked, a constraint or a custom type.
\<close>

definition column_warnings ::
    "('c, 'v) ParameterDefinition \<Rightarrow> ColumnProperties \<Rightarrow> Column \<Rightarrow> ValidationWarning list" where
  "column_warnings d cp c =
     (let meta = (\<lambda>typ. [(''ConstraintType'', MetaStr typ), (''ParameterName'', MetaStr (pd_Name d)),
                    (''ColumnName'', MetaStr (cl_Name c))])
      in (if cp_Nullable cp \<and> cl_NotNull c
          then [schema_warning ''transformer may produce NULL values but column has NOT NULL constraint''
                  (meta ''NotNull'')] else []) @
         (if MaxLength cp \<noteq> WithoutMaxLength \<and> cl_Length c < MaxLength cp
          then [schema_warning ''transformer value might be out of length range: column has a length''
                  (meta ''Length'' @ [(''ColumnMaxLength'', int_meta (cl_Length c)),
                                      (''TransformerMaxLength'', int_meta (MaxLength cp))])] else []))"

definition validate_parameter :: "'c Driver \<Rightarrow> ('c, 'v) StaticParameter \<Rightarrow> ValidationWarning list res" where
  "validate_parameter driver p =
     (let d = sp_definition p in
      if \<not> IsColumn d then Inr []
      else case pd_ColumnProperties d of
             None \<Rightarrow> panic ''nil pointer dereference''
           | Some cp \<Rightarrow>
               if \<not> Affected cp then Inr []
               else (case sp_Column p of
                       None \<Rightarrow>
                         if cp_Nullable cp \<or> MaxLength cp \<noteq> WithoutMaxLength \<or>
                            tb_Constraints (dr_Table driver) \<noteq> [] \<or> CustomTypes driver \<noteq> []
                         then panic ''nil pointer dereference'' else Inr []
                     | Some c \<Rightarrow>
                         let constraints = concat (map (\<lambda>k. named_warnings d (IsAffected k c (Some cp)))
                                             (tb_Constraints (dr_Table driver)))
                         in bindR (case index_func (\<lambda>t. ty_Oid t = cl_TypeOid c) (CustomTypes driver) of
                                     None \<Rightarrow> Inr []
                                   | Some i \<Rightarrow> Type_IsAffected (CustomTypes driver ! i) p) (\<lambda>types.
                            Inr (column_warnings d cp c @ constraints @ types))))"

definition DefaultSchemaValidator ::
    "'c Driver \<Rightarrow> (string \<times> ('c, 'v) StaticParameter) list \<Rightarrow> ValidationWarning list res" where
  "DefaultSchemaValidator driver parameters =
     bindR (mapR (\<lambda>(n, p). validate_parameter driver p) parameters) (\<lambda>ws. Inr (concat ws))"

section \<open>Definitions of transformers and their instances\<close>

record ('c, 'v, 't) TransformerDefinition =
  td_Name :: string
  td_New :: "'c Driver \<Rightarrow> (string \<times> ('c, 'v) Parameterizer) list \<Rightarrow> ('t \<times> ValidationWarning list) res"
  td_Parameters :: "('c, 'v) ParameterDefinition list"
  SchemaValidator :: "'c Driver \<Rightarrow> (string \<times> ('c, 'v) StaticParameter) list \<Rightarrow> ValidationWarning list res"

definition NewTransformerDefinition ::
    "string \<Rightarrow> ('c Driver \<Rightarrow> (string \<times> ('c, 'v) Parameterizer) list \<Rightarrow> ('t \<times> ValidationWarning list) res) \<Rightarrow>
     ('c, 'v) ParameterDefinition list \<Rightarrow> ('c, 'v, 't) TransformerDefinition" where
  "NewTransformerDefinition name new params =
     \<lparr>td_Name = name, td_New = new, td_Parameters = params, SchemaValidator = DefaultSchemaValidator\<rparr>"

record ('c, 'v, 't, 'w) InstanceContext =
  tx_Transformer :: 't
  StaticParameters :: "(string \<times> ('c, 'v) StaticParameter) list"
  DynamicParameters :: "(string \<times> ('c, 'v) DynamicParameter) list"
  tx_When :: 'w

fun static_params :: "(string \<times> ('c, 'v) Parameterizer) list \<Rightarrow> (string \<times> ('c, 'v) StaticParameter) list" where
  "static_params [] = []"
| "static_params ((n, StaticP sp) # ps) = (n, sp) # static_params ps"
| "static_params ((n, DynamicP dp) # ps) = static_params ps"

fun dynamic_params :: "(string \<times> ('c, 'v) Parameterizer) list \<Rightarrow> (string \<times> ('c, 'v) DynamicParameter) list" where
  "dynamic_params [] = []"
| "dynamic_params ((n, StaticP sp) # ps) = dynamic_params ps"
| "dynamic_params ((n, DynamicP dp) # ps) = (n, dp) # dynamic_params ps"

definition Instance ::
    "('c, 'v, 'r) ParamEnv \<Rightarrow> (string \<times> 'c TypeCastDefinition) list \<Rightarrow> (string \<Rightarrow> 'c Driver \<Rightarrow> 'w \<times> ValidationWarning list) \<Rightarrow>
     'c Driver \<Rightarrow> (string \<times> gostr) list \<Rightarrow> (string \<times> DynamicParamValue option) list \<Rightarrow> string \<Rightarrow> bool \<Rightarrow>
     ('c, 'v, 't) TransformerDefinition \<Rightarrow> (('c, 'v, 't, 'w) InstanceContext option \<times> ValidationWarning list) res" where
  "Instance env casts newWhenCond driver rawParams dynamicParameters whenCond interp d =
     bindR (InitParameters env casts driver (td_Parameters d) rawParams dynamicParameters interp) (\<lambda>(params, pw).
     if IsFatal pw then Inr (None, pw)
     else
       let ps = (case params of None \<Rightarrow> [] | Some ps \<Rightarrow> ps)
       in bindR (SchemaValidator d driver (static_params ps)) (\<lambda>sw.
          bindR (td_New d driver ps) (\<lambda>(t, tw).
          let (w, cw) = newWhenCond whenCond driver
          in Inr (Some \<lparr>tx_Transformer = t, StaticParameters = static_params ps, DynamicParameters = dynamic_params ps,
                        tx_When = w\<rparr>, pw @ sw @ tw @ cw))))"

definition Register ::
    "('c, 'v, 't) TransformerDefinition \<Rightarrow> (string \<times> ('c, 'v, 't) TransformerDefinition) list \<Rightarrow>
     (string \<times> ('c, 'v, 't) TransformerDefinition) list res" where
  "Register d m =
     (if map_of m (td_Name d) \<noteq> None then err ''unable to register transformer: transformer with Name already exists''
      else Inr (AList.update (td_Name d) d m))"

definition MustRegister ::
    "('c, 'v, 't) TransformerDefinition \<Rightarrow> (string \<times> ('c, 'v, 't) TransformerDefinition) list \<Rightarrow>
     (string \<times> ('c, 'v, 't) TransformerDefinition) list res" where
  "MustRegister d m = (case Register d m of Inl (Err e) \<Rightarrow> panic e | r \<Rightarrow> r)"

definition Registry_Get ::
    "(string \<times> ('c, 'v, 't) TransformerDefinition) list \<Rightarrow> string \<Rightarrow> ('c, 'v, 't) TransformerDefinition option" where
  "Registry_Get m n = map_of m n"

section \<open>The difference of two schemas\<close>

datatype DiffEvent = TableMovedToAnotherSchema | TableRenamed | TableCreated | ColumnCreated | ColumnRenamed | ColumnTypeChanged

record DiffNode =
  df_Event :: DiffEvent
  df_Signature :: "(string \<times> string) list"

definition oid_str :: "32 word \<Rightarrow> string" where
  "oid_str o1 = str_of (format_int (uint o1))"

definition getTableByOid :: "DriverTable list \<Rightarrow> 32 word \<Rightarrow> DriverTable option" where
  "getTableByOid ds o1 = find (\<lambda>t. tb_Oid t = o1) ds"

definition getTableByName :: "DriverTable list \<Rightarrow> string \<Rightarrow> string \<Rightarrow> DriverTable option" where
  "getTableByName ds s n = find (\<lambda>t. tb_Schema t = s \<and> tb_Name t = n) ds"

definition findColumnByAttNum :: "DriverTable \<Rightarrow> 32 word \<Rightarrow> Column option" where
  "findColumnByAttNum t num = find (\<lambda>c. cl_Num c = num) (tb_Columns t)"

definition findColumnByName :: "DriverTable \<Rightarrow> string \<Rightarrow> Column option" where
  "findColumnByName t n = find (\<lambda>c. cl_Name c = n) (tb_Columns t)"

definition previous_column :: "DriverTable \<Rightarrow> Column \<Rightarrow> Column option" where
  "previous_column t c =
     (case findColumnByAttNum t (cl_Num c) of None \<Rightarrow> findColumnByName t (cl_Name c) | Some p \<Rightarrow> Some p)"

definition diff_column :: "DriverTable \<Rightarrow> Column \<Rightarrow> DiffNode list" where
  "diff_column previous c =
     (let table = [(''TableSchema'', tb_Schema previous), (''TableName'', tb_Name previous)] in
      case previous_column previous c of
        None \<Rightarrow> [\<lparr>df_Event = ColumnCreated,
                   df_Signature = table @ [(''ColumnName'', cl_Name c), (''ColumnType'', cl_TypeName c)]\<rparr>]
      | Some p \<Rightarrow>
          (if cl_Name c \<noteq> cl_Name p
           then [\<lparr>df_Event = ColumnRenamed,
                   df_Signature = table @ [(''PreviousColumnName'', cl_Name p), (''CurrentColumnName'', cl_Name c)]\<rparr>] else []) @
          (if cl_TypeOid c \<noteq> cl_TypeOid p
           then [\<lparr>df_Event = ColumnTypeChanged,
                   df_Signature = table @ [(''ColumnName'', cl_Name p), (''PreviousColumnType'', cl_TypeName p),
                     (''PreviousColumnTypeOid'', oid_str (cl_TypeOid p)), (''CurrentColumnType'', cl_TypeName c),
                     (''CurrentColumnTypeOid'', oid_str (cl_TypeOid c))]\<rparr>] else []))"

definition diffTableColumns :: "DriverTable \<Rightarrow> DriverTable \<Rightarrow> DiffNode list" where
  "diffTableColumns previous current = concat (map (diff_column previous) (tb_Columns current))"

definition diffTables :: "DriverTable \<Rightarrow> DriverTable \<Rightarrow> DiffNode list" where
  "diffTables previous current =
     (if tb_Schema previous \<noteq> tb_Schema current
      then [\<lparr>df_Event = TableMovedToAnotherSchema,
              df_Signature = [(''PreviousSchemaName'', tb_Schema previous), (''CurrentSchemaName'', tb_Schema current),
                (''TableName'', tb_Name current), (''TableOid'', oid_str (tb_Oid previous))]\<rparr>] else []) @
     (if tb_Name previous \<noteq> tb_Name current
      then [\<lparr>df_Event = TableRenamed,
              df_Signature = [(''PreviousTableName'', tb_Name previous), (''CurrentTableName'', tb_Name current),
                (''SchemaName'', tb_Schema current), (''TableOid'', oid_str (tb_Oid previous))]\<rparr>] else []) @
     diffTableColumns previous current"

definition is_partition :: "DriverTable \<Rightarrow> bool" where
  "is_partition t \<longleftrightarrow> tb_Kind t = ''r'' \<and> tb_Parent t \<noteq> 0"

definition previous_table :: "DriverTable list \<Rightarrow> DriverTable \<Rightarrow> DriverTable option" where
  "previous_table ds t =
     (case getTableByOid ds (tb_Oid t) of None \<Rightarrow> getTableByName ds (tb_Schema t) (tb_Name t) | Some p \<Rightarrow> Some p)"

definition diff_table :: "DriverTable list \<Rightarrow> DriverTable \<Rightarrow> DiffNode list" where
  "diff_table ds current =
     (if is_partition current then []
      else case previous_table ds current of
             None \<Rightarrow> [\<lparr>df_Event = TableCreated,
                        df_Signature = [(''SchemaName'', tb_Schema current), (''TableName'', tb_Name current),
                          (''TableOid'', oid_str (tb_Oid current))]\<rparr>]
           | Some previous \<Rightarrow> diffTables previous current)"

definition Diff :: "DriverTable list \<Rightarrow> DriverTable list \<Rightarrow> DiffNode list" where
  "Diff ds current = concat (map (diff_table ds) current)"

end
