(* ===== verification/SchemaClaims.thy ===== *)
theory SchemaClaims
  imports SchemaChecks
begin

text \<open>
  The properties of the schema checks: which constraints the validation reports, when a column parameter makes it panic,
  and what it means that two schemas have no difference.
\<close>

section \<open>Schema validation\<close>

lemma schema_warning_meta:
  "map_of (w_Meta (schema_warning msg meta)) k = map_of (rev meta) k" "w_Severity (schema_warning msg meta) = SevWarning"
proof -
  have "map_of (w_Meta (fold (\<lambda>(k, v). AddMeta k v) meta w)) k = (map_of (w_Meta w) ++ map_of (rev meta)) k" for w
    by (induction meta arbitrary: w) (auto simp: AddMeta_def update_conv' map_add_def split: option.splits)
  then show "map_of (w_Meta (schema_warning msg meta)) k = map_of (rev meta) k"
    by (simp add: schema_warning_def SetMsg_def SetSeverity_def NewValidationWarning_def)
  have "w_Severity (fold (\<lambda>(k, v). AddMeta k v) meta w) = w_Severity w" for w
    by (induction meta arbitrary: w) (auto simp: AddMeta_def)
  then show "w_Severity (schema_warning msg meta) = SevWarning"
    by (simp add: schema_warning_def SetMsg_def SetSeverity_def)
qed

text \<open>A warning about a column, for a parameter.\<close>

definition warns :: "('c, 'v) ParameterDefinition \<Rightarrow> Column \<Rightarrow> ValidationWarning \<Rightarrow> bool" where
  "warns d c w \<longleftrightarrow> w_Severity w = SevWarning \<and> map_of (w_Meta w) ''ParameterName'' = Some (MetaStr (pd_Name d))
     \<and> map_of (w_Meta w) ''ColumnName'' = Some (MetaStr (cl_Name c))"

definition is_unique_constraint :: "Constraint \<Rightarrow> bool" where
  "is_unique_constraint k \<longleftrightarrow> (\<exists>d. k = UniqueC d) \<or> (\<exists>d. k = PrimaryKeyC d [])"

lemma IsAffected_warns:
  assumes "w \<in> set (IsAffected k c cp)"
  shows "w_Severity w = SevWarning" "map_of (w_Meta w) ''ColumnName'' = Some (MetaStr (cl_Name c))"
    "map_of (w_Meta w) ''ConstraintDef'' = Some (MetaStr (cd_Definition (constraint_definition k)))"
  using assms
  by (cases k; auto simp: Check_IsAffected_def Exclusion_IsAffected_def ForeignKey_IsAffected_def
      PrimaryKey_IsAffected_def Unique_IsAffected_def Trigger_IsAffected_def schema_warning_meta constraint_meta_def
      split: if_splits)+

lemma IsAffected_complete:
  "IsAffected k c (Some cp) \<noteq> [] \<longleftrightarrow>
     cl_Num c \<in> set (cd_Columns (constraint_definition k)) \<and> \<not> (cp_Unique cp \<and> is_unique_constraint k)"
  by (cases k; auto simp: Check_IsAffected_def Exclusion_IsAffected_def ForeignKey_IsAffected_def
      PrimaryKey_IsAffected_def Unique_IsAffected_def Trigger_IsAffected_def not_unique_def is_unique_constraint_def)

lemma named_warns:
  assumes "w \<in> set (named_warnings d ws)" and "\<forall>v \<in> set ws. w_Severity v = SevWarning
    \<and> map_of (w_Meta v) ''ColumnName'' = Some (MetaStr (cl_Name c))"
  shows "warns d c w"
  using assms by (auto simp: named_warnings_def warns_def AddMeta_def update_conv')

lemma constraint_warns: "w \<in> set (named_warnings d (IsAffected k c cp)) \<Longrightarrow> warns d c w"
  by (erule named_warns) (simp add: IsAffected_warns)

lemma schema_warns:
  assumes "map_of (rev meta) ''ParameterName'' = Some (MetaStr (pd_Name d))"
    and "map_of (rev meta) ''ColumnName'' = Some (MetaStr (cl_Name c))"
  shows "warns d c (schema_warning msg meta)"
  using assms by (simp add: warns_def schema_warning_meta)

lemma column_warnings_warn: "w \<in> set (column_warnings d cp c) \<Longrightarrow> warns d c w"
  unfolding column_warnings_def Let_def by (auto intro!: schema_warns split: if_splits)

lemma Type_IsAffected_warns:
  assumes "Type_IsAffected t p = Inr ws" and "w \<in> set ws"
  shows "\<exists>c. sp_Column p = Some c \<and> warns (sp_definition p) c w"
proof -
  obtain c where c: "sp_Column p = Some c"
    using assms(1) by (cases "sp_Column p") (auto simp: Type_IsAffected_def)
  obtain cp where cp: "pd_ColumnProperties (sp_definition p) = Some cp"
    using assms(1) by (cases "pd_ColumnProperties (sp_definition p)") (auto simp: Type_IsAffected_def c)
  have "Affected cp \<and> cl_TypeOid c = ty_Oid t"
    using assms by (auto simp: Type_IsAffected_def c cp split: if_splits)
  then have "warns (sp_definition p) c w"
    using assms unfolding Type_IsAffected_def c cp option.case Let_def
    by (cases "ty_Check t") (auto intro!: schema_warns split: if_splits)
  then show ?thesis using c by blast
qed

text \<open>What one parameter adds.\<close>

lemma validate_parameter_warns:
  assumes "validate_parameter driver p = Inr ws" and "w \<in> set ws"
  shows "\<exists>c cp. sp_Column p = Some c \<and> IsColumn (sp_definition p) \<and> pd_ColumnProperties (sp_definition p) = Some cp
    \<and> Affected cp \<and> warns (sp_definition p) c w"
proof -
  have col: "IsColumn (sp_definition p)" using assms by (cases "IsColumn (sp_definition p)") (auto simp: validate_parameter_def)
  then obtain cp where cp: "pd_ColumnProperties (sp_definition p) = Some cp" "Affected cp"
    using assms by (cases "pd_ColumnProperties (sp_definition p)") (auto simp: validate_parameter_def Let_def split: if_splits)
  then obtain c where c: "sp_Column p = Some c"
    using assms col by (cases "sp_Column p") (auto simp: validate_parameter_def split: if_splits)
  obtain types where types: "(case index_func (\<lambda>t. ty_Oid t = cl_TypeOid c) (CustomTypes driver) of
      None \<Rightarrow> Inr [] | Some i \<Rightarrow> Type_IsAffected (CustomTypes driver ! i) p) = Inr types"
    and ws: "ws = column_warnings (sp_definition p) cp c @ concat (map (\<lambda>k. named_warnings (sp_definition p)
      (IsAffected k c (Some cp))) (tb_Constraints (dr_Table driver))) @ types"
    using assms(1) col cp c by (auto simp: validate_parameter_def Let_def bindR_eq_Inr)
  have "warns (sp_definition p) c w"
  proof (cases "w \<in> set types")
    case True
    then show ?thesis using types c by (auto split: option.splits dest!: Type_IsAffected_warns)
  next
    case False
    then show ?thesis
      using assms(2) ws by (auto dest: column_warnings_warn constraint_warns)
  qed
  then show ?thesis using c cp col by blast
qed

lemma validate_parameter_complete:
  assumes "validate_parameter driver p = Inr ws" and "IsColumn (sp_definition p)"
    and "pd_ColumnProperties (sp_definition p) = Some cp" "Affected cp" and "sp_Column p = Some c"
    and "k \<in> set (tb_Constraints (dr_Table driver))" and "IsAffected k c (Some cp) \<noteq> []"
  shows "\<exists>w \<in> set ws. warns (sp_definition p) c w
    \<and> map_of (w_Meta w) ''ConstraintDef'' = Some (MetaStr (cd_Definition (constraint_definition k)))"
proof -
  obtain v where v: "v \<in> set (IsAffected k c (Some cp))" using assms(7) by (cases "IsAffected k c (Some cp)") auto
  let ?w = "AddMeta ''ParameterName'' (MetaStr (pd_Name (sp_definition p))) v"
  have w: "?w \<in> set (named_warnings (sp_definition p) (IsAffected k c (Some cp)))"
    using v by (simp add: named_warnings_def)
  then have "?w \<in> set ws"
    using assms(1-6) by (auto simp: validate_parameter_def Let_def bindR_eq_Inr)
  moreover have "warns (sp_definition p) c ?w" by (rule named_warns [OF w]) (simp add: IsAffected_warns)
  moreover have "map_of (w_Meta ?w) ''ConstraintDef'' = Some (MetaStr (cd_Definition (constraint_definition k)))"
    using IsAffected_warns(3) [OF v] by (simp add: AddMeta_def update_conv')
  ultimately show ?thesis by blast
qed

lemma validator_parameter:
  assumes "DefaultSchemaValidator driver ps = Inr ws"
  shows "(n, p) \<in> set ps \<Longrightarrow> \<exists>vs. validate_parameter driver p = Inr vs \<and> set vs \<subseteq> set ws"
    and "w \<in> set ws \<Longrightarrow> \<exists>n p vs. (n, p) \<in> set ps \<and> validate_parameter driver p = Inr vs \<and> w \<in> set vs"
proof -
  obtain vss where vss: "mapR (\<lambda>(n, p). validate_parameter driver p) ps = Inr vss" "ws = concat vss"
    using assms by (auto simp: DefaultSchemaValidator_def bindR_eq_Inr)
  then have *: "list_all2 (\<lambda>(n, p) vs. validate_parameter driver p = Inr vs) ps vss"
    by (auto simp: mapR_Inr_iff split_def)
  show "(n, p) \<in> set ps \<Longrightarrow> \<exists>vs. validate_parameter driver p = Inr vs \<and> set vs \<subseteq> set ws"
    using * vss(2) by (fastforce simp: list_all2_conv_all_nth in_set_conv_nth)
  show "w \<in> set ws \<Longrightarrow> \<exists>n p vs. (n, p) \<in> set ps \<and> validate_parameter driver p = Inr vs \<and> w \<in> set vs"
    using * vss(2) by (fastforce simp: list_all2_conv_all_nth in_set_conv_nth)
qed

text \<open>
  Claim C31. When the schema validation of a transformer returns, no warning is an error; every warning names a
  parameter whose column the transformer writes, and that column; and every constraint that contains such a column is
  reported with its definition, but for a unique constraint, or a primary key nothing refers to, whose transformer
  promises unique values.
\<close>

theorem schema_warnings_correct:
  assumes "DefaultSchemaValidator driver ps = Inr ws"
  shows "(\<forall>w \<in> set ws. \<exists>n p c cp. (n, p) \<in> set ps \<and> sp_Column p = Some c \<and> IsColumn (sp_definition p)
      \<and> pd_ColumnProperties (sp_definition p) = Some cp \<and> Affected cp \<and> warns (sp_definition p) c w)
    \<and> (\<forall>n p c cp k. (n, p) \<in> set ps \<and> sp_Column p = Some c \<and> IsColumn (sp_definition p)
      \<and> pd_ColumnProperties (sp_definition p) = Some cp \<and> Affected cp \<and> k \<in> set (tb_Constraints (dr_Table driver))
      \<and> cl_Num c \<in> set (cd_Columns (constraint_definition k)) \<and> \<not> (cp_Unique cp \<and> is_unique_constraint k) \<longrightarrow>
      (\<exists>w \<in> set ws. warns (sp_definition p) c w
         \<and> map_of (w_Meta w) ''ConstraintDef'' = Some (MetaStr (cd_Definition (constraint_definition k)))))"
proof (intro conjI ballI allI impI)
  fix w assume "w \<in> set ws"
  then show "\<exists>n p c cp. (n, p) \<in> set ps \<and> sp_Column p = Some c \<and> IsColumn (sp_definition p)
      \<and> pd_ColumnProperties (sp_definition p) = Some cp \<and> Affected cp \<and> warns (sp_definition p) c w"
    using validator_parameter(2) [OF assms] validate_parameter_warns by blast
next
  fix n p c cp k
  assume p: "(n, p) \<in> set ps \<and> sp_Column p = Some c \<and> IsColumn (sp_definition p)
      \<and> pd_ColumnProperties (sp_definition p) = Some cp \<and> Affected cp \<and> k \<in> set (tb_Constraints (dr_Table driver))
      \<and> cl_Num c \<in> set (cd_Columns (constraint_definition k)) \<and> \<not> (cp_Unique cp \<and> is_unique_constraint k)"
  then obtain vs where vs: "validate_parameter driver p = Inr vs" "set vs \<subseteq> set ws"
    using validator_parameter(1) [OF assms] by blast
  have "IsAffected k c (Some cp) \<noteq> []" using p unfolding IsAffected_complete by blast
  with validate_parameter_complete [OF vs(1)] p vs(2)
  show "\<exists>w \<in> set ws. warns (sp_definition p) c w
      \<and> map_of (w_Meta w) ''ConstraintDef'' = Some (MetaStr (cd_Definition (constraint_definition k)))"
    by blast
qed

section \<open>The difference of two schemas\<close>

definition same_columns :: "DriverTable \<Rightarrow> DriverTable \<Rightarrow> bool" where
  "same_columns previous current \<longleftrightarrow> (\<forall>c \<in> set (tb_Columns current). \<exists>p \<in> set (tb_Columns previous).
     cl_Name p = cl_Name c \<and> cl_TypeOid p = cl_TypeOid c)"

lemma find_Some_member: "find P xs = Some x \<Longrightarrow> x \<in> set xs \<and> P x"
  by (auto simp: find_Some_iff)

lemma find_distinct: "distinct (map f xs) \<Longrightarrow> x \<in> set xs \<Longrightarrow> find (\<lambda>y. f y = f x) xs = Some x"
  by (induction xs) auto

lemma previous_table_member: "previous_table ds t = Some p \<Longrightarrow> p \<in> set ds"
  by (auto simp: previous_table_def getTableByOid_def getTableByName_def split: option.splits dest: find_Some_member)

lemma previous_column_member: "previous_column t c = Some p \<Longrightarrow> p \<in> set (tb_Columns t)"
  by (auto simp: previous_column_def findColumnByAttNum_def findColumnByName_def split: option.splits dest: find_Some_member)

lemma diff_column_Nil:
  "diff_column t c = [] \<longleftrightarrow> (\<exists>p. previous_column t c = Some p \<and> cl_Name p = cl_Name c \<and> cl_TypeOid p = cl_TypeOid c)"
  by (auto simp: diff_column_def Let_def split: option.splits)

lemma diffTables_Nil:
  assumes "diffTables p t = []"
  shows "tb_Schema p = tb_Schema t \<and> tb_Name p = tb_Name t \<and> same_columns p t"
proof -
  have "\<forall>c \<in> set (tb_Columns t). diff_column p c = []" "tb_Schema p = tb_Schema t" "tb_Name p = tb_Name t"
    using assms by (auto simp: diffTables_def diffTableColumns_def split: if_splits)
  then show ?thesis unfolding same_columns_def diff_column_Nil by (blast dest: previous_column_member)
qed

lemma diffTables_refl: "distinct (map cl_Num (tb_Columns t)) \<Longrightarrow> diffTables t t = []"
  by (auto simp: diffTables_def diffTableColumns_def diff_column_Nil previous_column_def findColumnByAttNum_def find_distinct)

text \<open>
  Claim C32. When the difference of a current schema to a previous one is empty, every current table that is not a
  partition was there under its schema and name, with each of its columns under its name and type. A schema whose oids
  and column numbers are unique has no difference to itself, nor to what is left of it after any of its tables are
  dropped.
\<close>

theorem Diff_correct:
  shows "(Diff ds current = [] \<longrightarrow> (\<forall>t \<in> set current. is_partition t \<or>
            (\<exists>p \<in> set ds. tb_Schema p = tb_Schema t \<and> tb_Name p = tb_Name t \<and> same_columns p t)))
    \<and> (distinct (map tb_Oid ds) \<and> (\<forall>t \<in> set ds. distinct (map cl_Num (tb_Columns t))) \<and> set current \<subseteq> set ds
         \<longrightarrow> Diff ds current = [])"
proof (intro conjI impI ballI)
  fix t assume "Diff ds current = []" and t: "t \<in> set current"
  then have "diff_table ds t = []" by (auto simp: Diff_def)
  then show "is_partition t \<or> (\<exists>p \<in> set ds. tb_Schema p = tb_Schema t \<and> tb_Name p = tb_Name t \<and> same_columns p t)"
    by (auto simp: diff_table_def split: if_splits option.splits dest!: diffTables_Nil dest: previous_table_member)
next
  assume ds: "distinct (map tb_Oid ds) \<and> (\<forall>t \<in> set ds. distinct (map cl_Num (tb_Columns t))) \<and> set current \<subseteq> set ds"
  then have "previous_table ds t = Some t" if "t \<in> set current" for t
    using that by (auto simp: previous_table_def getTableByOid_def find_distinct subset_iff)
  then show "Diff ds current = []"
    using ds by (auto simp: Diff_def diff_table_def diffTables_refl)
qed

section \<open>A table with a foreign key\<close>

definition s_column :: Column where
  "s_column = \<lparr>cl_Idx = 0, cl_Name = ''id'', cl_TypeName = ''int4'', cl_CanonicalTypeName = ''int4'', cl_TypeOid = 23,
     cl_Num = 1, cl_NotNull = False, cl_Length = -1, cl_TypeLength = 4, cl_IsGenerated = False, OverriddenTypeName = '''',
     OverriddenTypeOid = 0, OverriddenTypeSize = 0\<rparr>"

definition s_key :: Constraint where
  "s_key = ForeignKeyC \<lparr>cd_Schema = ''public'', cd_Name = ''t_fk'', cd_Oid = 3, cd_Columns = [1], cd_Definition = ''FK''\<rparr>
     \<lparr>lt_Schema = ''public'', lt_Name = ''u'', lt_Oid = 2\<rparr>"

definition s_table :: DriverTable where
  "s_table = \<lparr>tb_Schema = ''public'', tb_Name = ''t'', tb_Oid = 1, tb_Columns = [s_column], tb_Kind = ''r'', tb_Parent = 0,
     tb_Children = [], tb_Size = 0, tb_PrimaryKey = [], tb_RootPtSchema = '''', tb_RootPtName = '''', tb_RootPtOid = 0,
     tb_Constraints = [s_key]\<rparr>"

definition s_driver :: "unit Driver" where
  "s_driver = \<lparr>dr_Table = s_table, SharedTypeMap = \<lparr>TypeForOID = (\<lambda>_. None), TypeForName = (\<lambda>_. None)\<rparr>,
     AttrIdxMap = [(''id'', 0)], CustomTypes = [], unsupportedColumnIdxs = [], maxIdx = 0\<rparr>"

definition s_param :: "(unit, unit) StaticParameter" where
  "s_param = (NewStaticParameter (SetIsColumn (Some (SetAffected True NewColumnProperties))
     (NewParameterDefinition ''column'' '''')) s_driver False)\<lparr>sp_Column := Some s_column\<rparr>"

definition s_warnings :: "ValidationWarning list" where
  "s_warnings = (case DefaultSchemaValidator s_driver [(''column'', s_param)] of Inr ws \<Rightarrow> ws | Inl _ \<Rightarrow> [])"

theorem schema_warnings_correct_witness:
  "\<exists>w \<in> set s_warnings. map_of (w_Meta w) ''ConstraintDef'' = Some (MetaStr ''FK'')
     \<and> map_of (w_Meta w) ''ParameterName'' = Some (MetaStr ''column'')"
proof -
  have "isOk (DefaultSchemaValidator s_driver [(''column'', s_param)])" by code_simp
  then have "DefaultSchemaValidator s_driver [(''column'', s_param)] = Inr s_warnings"
    by (cases "DefaultSchemaValidator s_driver [(''column'', s_param)]") (simp_all add: s_warnings_def)
  note S = schema_warnings_correct [OF this, THEN conjunct2, THEN spec, THEN spec, THEN spec, THEN spec, THEN spec, THEN mp]
  have p: "sp_Column s_param = Some s_column" "pd_Name (sp_definition s_param) = ''column''" "IsColumn (sp_definition s_param)"
    "pd_ColumnProperties (sp_definition s_param) = Some (SetAffected True NewColumnProperties)"
    by (simp_all add: s_param_def NewStaticParameter_def SetIsColumn_def NewParameterDefinition_def)
  have "\<exists>w \<in> set s_warnings. warns (sp_definition s_param) s_column w
      \<and> map_of (w_Meta w) ''ConstraintDef'' = Some (MetaStr (cd_Definition (constraint_definition s_key)))"
    by (rule S [of "''column''" s_param s_column "SetAffected True NewColumnProperties" s_key])
      (simp add: p s_driver_def s_table_def s_key_def s_column_def SetAffected_def NewColumnProperties_def)
  then show ?thesis by (auto simp: warns_def p s_key_def)
qed

theorem Diff_correct_witness:
  "Diff [s_table] [] = [] \<and> Diff [s_table] [s_table] = []"
proof -
  have "distinct (map tb_Oid [s_table]) \<and> (\<forall>t \<in> set [s_table]. distinct (map cl_Num (tb_Columns t)))"
    by (simp add: s_table_def)
  then show ?thesis
    using Diff_correct [of "[s_table]" "[]"] Diff_correct [of "[s_table]" "[s_table]"] by simp
qed

end
