(* ===== verification/Spec2Isabelle.thy ===== *)
theory Spec2Isabelle
  imports PgRow TocRoundtrip SubsetCte DumpScheduler DumpPipelineProps GenTime GenNet RestoreClaims ConfigClaims DumpRunClaims PatternAdapter SubsetMaterializeClaims RestoreTableClaims RestoreObjectsClaims ParametersClaims SchemaClaims
begin

text \<open>
  \<^bold>\<open>greenmask\<close> dumps a PostgreSQL database, anonymises the data on the way, and restores the dump. This development
  translates the logic of the program, as it is written under \<^verbatim>\<open>src/\<close>, into HOL and proves what makes it
  correct. Directories below are relative to \<^verbatim>\<open>src/internal/db/postgres\<close> unless they start with another name.

  \<^bold>\<open>How the parts interact.\<close> \<^verbatim>\<open>context.NewRuntimeContext\<close> reads the catalog with conditions made from the patterns
  of the command line, checks the configuration, attaches transformers to the tables, builds the graph of
  references and derives from it the order of the tables, the queries of the subset, and the transformers that
  referencing tables inherit. \<^verbatim>\<open>cmd/dump.go\<close> then writes the schema with pg_dump, runs one task per table through
  the dump workers, where a line of COPY output is decoded, transformed column by column and encoded again, and
  finally writes a table of contents, which merges the entries of the schema with those of the data, and
  metadata. \<^verbatim>\<open>cmd/restore.go\<close> reads both, selects and orders the entries and restores them, in parallel, waiting
  for dependencies when asked to. \<^verbatim>\<open>delete\<close> and \<^verbatim>\<open>list-dumps\<close> work on what the dumps left in the storage.

  \<^bold>\<open>Conventions\<close> (theory Prelude). A function that can fail returns \<open>fault + 'a\<close>: \<open>Inl (Err m)\<close> for a returned error,
  \<open>Inl (Panic m)\<close> for a run-time panic such as an index out of range, \<open>Inr x\<close> for a result. Go integers are words
  where their width matters, bytes are \<open>8 word\<close>, strings of names and SQL are HOL strings. Records and
  datatypes have the fields and constructors of the source. A Go map is a function to options, or a list of
  pairs where code loops over it. Goroutines are step relations over an explicit state. Functions that call each
  other in circles take fuel, and the theorems say how much is enough. Third-party packages, the database, the
  operating system and random numbers are parameters.

  \<^bold>\<open>COPY text.\<close> PgCopy: the codec of attributes (\<^verbatim>\<open>pgcopy/decoder.go\<close>, \<^verbatim>\<open>encoder.go\<close>). PgRow: the line with lazily decoded
  columns (\<^verbatim>\<open>pgcopy/row.go\<close>); a set column comes back as what COPY text keeps of it (\<open>stored_value\<close>: the encoder loses the
  byte after an inner null marker and doubles some control characters) and the others are kept byte for byte.
  RowDriver: the interface \<^verbatim>\<open>RowDriver\<close> of \<^verbatim>\<open>pkg/toolkit\<close> as the locale \<open>row_driver\<close> and its other implementations
  (raw records as maps, strings, text and CSV); each is an interpretation of the locale.

  \<^bold>\<open>Archive.\<close> TocTypes, TocReader, TocWriter: \<^verbatim>\<open>toc.dat\<close> of pg_dump's directory format (\<^verbatim>\<open>toc/\<close>); Strconv has the decimal
  conversions of \<^verbatim>\<open>strconv\<close>. A writer leaves what its sink had room for, also on an error; TocCodec
  pairs what it writes with what the reader reads (locale \<open>codec\<close>, interpreted for integers and strings), TocRoundtrip
  lifts this to a whole table of contents, up to the fields an archive version lacks: every write leaves what fits of
  one readable byte string.

  \<^bold>\<open>Subset.\<close> SubsetTypes, SubsetComponent, SubsetScc, SubsetGraph: tables, references, the search of strongly connected
  components, cycles and the condensed graph (\<^verbatim>\<open>subset/graph.go\<close>, \<^verbatim>\<open>component.go\<close>, \<^verbatim>\<open>condenced_edge.go\<close>). Dfs is the
  theory of depth-first search that the three recursive searches of the code implement (locale \<open>dfs_impl\<close>).
  SubsetCycles, SubsetGroups, SubsetGraphProps: the searches end and number components in topological order;
  recorded cycles are cycles; the edges are the foreign keys and virtual references declared, and the order of the
  tables respects those between components.
  SubsetPath, SubsetPathProps, SubsetScopes: paths of joins and their scopes (\<^verbatim>\<open>path.go\<close>); the locale
  \<open>path_invariant\<close> lifts what one added edge keeps to every path the search returns. SubsetSql, SubsetQueries:
  every function that builds SQL (\<^verbatim>\<open>query.go\<close>, \<^verbatim>\<open>cte.go\<close>, \<^verbatim>\<open>set_queries.go\<close>), as text; SubsetSqlProps, SubsetQueriesOk,
  SubsetQueriesProps, SubsetCte: queries are produced without a panic for exactly the restricted tables, and
  common table expressions define every name they use. SubsetMaterialize, SubsetValues: the key sets that are
  computed before the dump, in tables of a scratch schema (\<^verbatim>\<open>materialize_temp.go\<close>) or as values in the queries
  (\<^verbatim>\<open>materialize.go\<close>); SubsetMaterializeProps, SubsetValuesProps, SubsetMaterializeClaims: both walks end, each scratch
  table is built once and before it is read. Fuel: the number of vertices for the searches, of components for the
  walks of the key sets.

  \<^bold>\<open>Dump of a table.\<close> DumpWindow, DumpConcurrent: transformation windows and the goroutines of a window
  (\<^verbatim>\<open>dumpers/transformation_window.go\<close>); DumpPipeline: the plain, transforming and validating pipeline
  (\<^verbatim>\<open>dumpers/*_pipeline.go\<close>) and the message loop of \<^verbatim>\<open>table.go\<close>. DumpConcurrentProps: with transformers that keep to
  their columns every interleaving computes what the sequential pipeline computes, if that succeeds, and every run is then finite.
  DumpPipelineProps: the lines a dump writes, through the locale \<open>pipeliner\<close>. DumpScheduler: runs that show what
  happens outside these assumptions, found with an executable scheduler.

  \<^bold>\<open>Values.\<close> Generators: the byte generators of \<^verbatim>\<open>src/internal/generators\<close> (locale \<open>generator\<close>). GenTransformers, GenTime,
  GenNet: integers, choices, strings, timestamps and network addresses
  (\<^verbatim>\<open>src/internal/generators/transformers\<close>), with the ranges of their results.

  \<^bold>\<open>Dump and restore.\<close> DumpToc, DumpMeta, DumpMetaProps: entries of tables, sequences and large objects (\<^verbatim>\<open>entries/\<close>), the
  merge of the tables of contents and the metadata (\<^verbatim>\<open>cmd/dump.go\<close>, \<^verbatim>\<open>storage/metadata_json.go\<close>). DumpRun,
  DumpRunClaims: the data section of a dump as it runs: producer, workers, planner and heartbeat. Restore: what a
  restore decides before it starts. RestoreRun, RestoreRunProps, RestoreClaims: its data section as it runs.
  DumpOrder: the dump and the restore together. DumpRetention: the status of dumps and the delete command.
  RestoreTable, RestoreTableProps, RestoreTableClaims: how one table is restored (\<^verbatim>\<open>restorers/base.go\<close>, \<^verbatim>\<open>table.go\<close>,
  \<^verbatim>\<open>table_insert_format.go\<close>): by COPY in one piece or in batches, or by an INSERT per row with its tolerated errors, as
  a monad of actions on a connection; what reaches the server is what COPY text keeps of the dumped values, except
  that the empty line of a one-column table ends the restore. RestoreObjects,
  RestoreObjectsClaims: sequences, access rights and large objects, whose dump is read back.

  \<^bold>\<open>Configuration.\<close> ApplyRefs, ConfigBuild: transformers handed to referencing tables, the mapping of configurations to
  tables and the check of virtual references (\<^verbatim>\<open>context/config_builder.go\<close>, \<^verbatim>\<open>virtual_references.go\<close>).
  ApplyRefsProps, ConfigBuildProps, ConfigClaims: when the search returns and what it hands on. PatternAdapter: the
  patterns of table names (\<^verbatim>\<open>pgdump/adapter.go\<close>) and the conditions made of them.

  \<^bold>\<open>Transformers.\<close> TableDriver: columns, types, the driver of a table and records over a row (\<^verbatim>\<open>pkg/toolkit/{column,
  types,driver,record}.go\<close>), where pgx is an environment of codecs. Parameters: static and dynamic parameters, their
  definitions and initialisation (\<^verbatim>\<open>parameter_definition.go\<close>, \<^verbatim>\<open>static_parameter.go\<close>, \<^verbatim>\<open>dynamic_parameter.go\<close>). TypeCasts:
  the casts of dynamic values (\<^verbatim>\<open>type_caster_static_funtions.go\<close>). SchemaChecks: what a transformer may violate
  (\<^verbatim>\<open>constraints.go\<close>, \<^verbatim>\<open>transformers/utils\<close>), instances of transformers, and the difference of two schemas. ParametersClaims,
  SchemaClaims: what an initialisation without errors guarantees, values through a record (on the locale
  \<open>row_driver\<close>), Unix times there and back, which constraints are reported, and what no difference means.

  \<^bold>\<open>Not modelled\<close>, for these reasons. Processes, sockets, files and packages of the cloud providers: the storages, the
  commands' flags and output, running pg_dump and pg_restore, command transformers and their streams.
  Third-party types: decimals, floating-point noise, the codecs of pgx. The \<^verbatim>\<open>Scan\<close> functions, which write through
  reflection, and the transformers of columns that are only glue between parameters and the generators. Texts of catalog queries and the scan of their rows. Tables of names for persons and
  companies. Templates and expressions, which are run by packages outside \<^verbatim>\<open>src/\<close>.
\<close>

end
